(* ===== verification/Prelude.thy ===== *)
theory Prelude
  imports Main "HOL-Library.Word" "HOL-Library.Signed_Division"
begin

text \<open>
  Shared vocabulary of the development: the fixed-width integer types of the C code, the ways
  a C function of the repository can fail to return (\<open>fault\<close>), results that carry them,
  fixed-size byte arrays with an explicit length, little-endian access to them, and the
  macros \<^verbatim>\<open>BITS\<close> and \<^verbatim>\<open>SEXT\<close> of \<^verbatim>\<open>nemu/include/macro.h\<close>. The generic lemmas every component
  uses are collected in \<open>res_simps\<close> and \<open>word_simps\<close>.
\<close>

unbundle bit_operations_syntax

named_theorems res_simps \<open>unfolding of computations that may fault\<close>
named_theorems word_simps \<open>bit-level facts about machine words\<close>

section \<open>Integer types\<close>

type_synonym u8 = "8 word"
type_synonym u16 = "16 word"
type_synonym u32 = "32 word"
type_synonym u64 = "64 word"

section \<open>Faults and results\<close>

text \<open>
  \<open>AssertFail\<close> is a failed \<^verbatim>\<open>assert\<close>/\<^verbatim>\<open>Assert\<close>, \<open>Panic\<close> a call of \<^verbatim>\<open>panic\<close>,
  \<open>Undef\<close> a step the C standard leaves undefined (an access outside an array, a shift by at
  least the width, a division by zero or one that overflows, a null pointer), and
  \<open>Exit n\<close> a call of \<^verbatim>\<open>exit(n)\<close>.
\<close>

datatype fault = AssertFail | Panic | Undef | Exit int

type_synonym 'a res = "fault + 'a"

definition bindR :: "'a res \<Rightarrow> ('a \<Rightarrow> 'b res) \<Rightarrow> 'b res" where
  "bindR m f = (case m of Inl e \<Rightarrow> Inl e | Inr a \<Rightarrow> f a)"

definition guardR :: "bool \<Rightarrow> fault \<Rightarrow> 'a res \<Rightarrow> 'a res" where
  "guardR b e k = (if b then k else Inl e)"

lemma bindR_Inl [simp, res_simps]: "bindR (Inl e) f = Inl e"
  by (simp add: bindR_def)

lemma bindR_Inr [simp, res_simps]: "bindR (Inr a) f = f a"
  by (simp add: bindR_def)

lemma guardR_True [simp, res_simps]: "guardR True e k = k"
  by (simp add: guardR_def)

lemma guardR_False [simp, res_simps]: "guardR False e k = Inl e"
  by (simp add: guardR_def)

lemma bindR_assoc: "bindR (bindR m f) g = bindR m (\<lambda>a. bindR (f a) g)"
  by (cases m) simp_all

lemma bindR_eq_Inr [res_simps]: "bindR m f = Inr b \<longleftrightarrow> (\<exists>a. m = Inr a \<and> f a = Inr b)"
  by (cases m) simp_all

lemma bindR_InrE:
  assumes "bindR m f = Inr b"
  obtains a where "m = Inr a" and "f a = Inr b"
  using assms by (auto simp: bindR_eq_Inr)

lemma guardR_InrE:
  assumes "guardR b e k = Inr a"
  obtains b and "k = Inr a"
  using assms by (cases b) simp_all

lemmas resE = bindR_InrE guardR_InrE

lemma bindR_eq_Inl: "bindR m f = Inl e \<longleftrightarrow> m = Inl e \<or> (\<exists>a. m = Inr a \<and> f a = Inl e)"
  by (cases m) auto

lemma guardR_eq_Inr [res_simps]: "guardR b e k = Inr a \<longleftrightarrow> b \<and> k = Inr a"
  by (cases b) simp_all

lemma guardR_eq_Inl: "guardR b e k = Inl e' \<longleftrightarrow> (if b then k = Inl e' else e' = e)"
  by (cases b) auto

lemma bindR_cong [fundef_cong]:
  "m = m' \<Longrightarrow> (\<And>a. m' = Inr a \<Longrightarrow> f a = g a) \<Longrightarrow> bindR m f = bindR m' g"
  by (cases m') simp_all

lemma guardR_cong [fundef_cong]:
  "b = b' \<Longrightarrow> e = e' \<Longrightarrow> (b' \<Longrightarrow> k = k') \<Longrightarrow> guardR b e k = guardR b' e' k'"
  by (cases b') simp_all

section \<open>Fixed-size byte arrays\<close>

text \<open>
  A C array of bytes: its length, fixed at its definition, and its contents. Reading or
  writing outside of it is undefined behaviour, which the operations below report.
\<close>

record carray =
  clen :: nat
  cget :: "nat \<Rightarrow> u8"

definition arr_load :: "carray \<Rightarrow> nat \<Rightarrow> nat \<Rightarrow> u8 list res" where
  "arr_load a off n =
     guardR (off + n \<le> clen a) Undef (Inr (map (\<lambda>i. cget a (off + i)) [0..<n]))"

definition arr_put :: "carray \<Rightarrow> nat \<Rightarrow> u8 list \<Rightarrow> carray" where
  "arr_put a off bs =
     a\<lparr>cget := (\<lambda>i. if off \<le> i \<and> i < off + length bs then bs ! (i - off) else cget a i)\<rparr>"

definition arr_store :: "carray \<Rightarrow> nat \<Rightarrow> u8 list \<Rightarrow> carray res" where
  "arr_store a off bs = guardR (off + length bs \<le> clen a) Undef (Inr (arr_put a off bs))"

lemma clen_arr_put [simp]: "clen (arr_put a off bs) = clen a"
  by (simp add: arr_put_def)

lemma clen_arr_store: "arr_store a off bs = Inr a' \<Longrightarrow> clen a' = clen a"
  by (auto simp: arr_store_def res_simps)

lemma arr_store_ok:
  "off + length bs \<le> clen a \<Longrightarrow> arr_store a off bs = Inr (arr_put a off bs)"
  by (simp add: arr_store_def)

lemma arr_load_put_same:
  "off + length bs \<le> clen a \<Longrightarrow> arr_load (arr_put a off bs) off (length bs) = Inr bs"
  by (simp add: arr_load_def arr_put_def) (rule nth_equalityI; simp)

lemma arr_load_put_other:
  "off' + n \<le> off \<or> off + length bs \<le> off' \<Longrightarrow>
   arr_load (arr_put a off bs) off' n = arr_load a off' n"
  by (auto simp: arr_load_def arr_put_def guardR_def)

section \<open>Little-endian words\<close>

text \<open>
  The host is little-endian: \<^verbatim>\<open>*(uint32_t *)p\<close> reads the least significant byte first.
  The word type is the code's \<^verbatim>\<open>word_t\<close>, 32 or 64 bits wide.
\<close>

fun le_bytes :: "nat \<Rightarrow> 'w::len word \<Rightarrow> u8 list" where
  "le_bytes 0 w = []"
| "le_bytes (Suc n) w = ucast w # le_bytes n (drop_bit 8 w)"

fun le_word :: "u8 list \<Rightarrow> 'w::len word" where
  "le_word [] = 0"
| "le_word (b # bs) = ucast b OR push_bit 8 (le_word bs)"

lemma length_le_bytes [simp]: "length (le_bytes n w) = n"
  by (induction n arbitrary: w) simp_all

lemma take_bit_split_byte:
  "take_bit (8 + m) (w :: 'w::len word) =
   ucast (ucast w :: u8) OR push_bit 8 (take_bit m (drop_bit 8 w))"
  by (rule bit_word_eqI) (auto simp: bit_simps)

lemma le_word_le_bytes:
  "le_word (le_bytes n w) = take_bit (8 * n) (w :: 'w::len word)"
proof (induction n arbitrary: w)
  case 0
  then show ?case by simp
next
  case (Suc n)
  have "take_bit (8 * Suc n) w =
        ucast (ucast w :: u8) OR push_bit 8 (take_bit (8 * n) (drop_bit 8 w))"
    using take_bit_split_byte [of "8 * n" w] by (simp add: add.commute)
  with Suc.IH show ?case by simp
qed

section \<open>The bit macros of macro.h\<close>

text \<open>
  \<^verbatim>\<open>BITMASK\<close> and \<^verbatim>\<open>BITS\<close> compute in \<^verbatim>\<open>unsigned long long\<close>; \<^verbatim>\<open>SEXT(x, len)\<close> stores
  \<^verbatim>\<open>x\<close> into a signed bit-field of \<^verbatim>\<open>len\<close> bits and reads it back as \<^verbatim>\<open>uint64_t\<close>.
\<close>

definition BITMASK :: "nat \<Rightarrow> u64" where
  "BITMASK bits = push_bit bits 1 - 1"

definition BITS :: "u64 \<Rightarrow> nat \<Rightarrow> nat \<Rightarrow> u64" where
  "BITS x hi lo = drop_bit lo x AND BITMASK (hi - lo + 1)"

definition SEXT :: "u64 \<Rightarrow> nat \<Rightarrow> u64" where
  "SEXT x n = signed_take_bit (n - 1) x"

lemma BITMASK_mask [word_simps]: "BITMASK n = mask n"
  by (simp add: BITMASK_def mask_eq_exp_minus_1 push_bit_eq_mult)

lemma bit_BITS [word_simps]:
  "bit (BITS x hi lo) k \<longleftrightarrow> k \<le> hi - lo \<and> bit x (lo + k)"
  by (auto simp: BITS_def BITMASK_mask bit_simps dest: bit_imp_le_length)

lemma bit_SEXT [word_simps]:
  "bit (SEXT x n) k \<longleftrightarrow> k < 64 \<and> bit x (if k < n - 1 then k else n - 1)"
  by (auto simp: SEXT_def bit_simps min_def not_less dest: bit_imp_le_length)

lemma BITS_take_bit: "BITS x hi lo = take_bit (hi - lo + 1) (drop_bit lo x)"
  by (simp add: BITS_def BITMASK_mask take_bit_eq_mask)

lemma unat_BITS_less: "unat (BITS x hi lo) < 2 ^ (hi - lo + 1)"
proof -
  have "unat (BITS x hi lo) = take_bit (hi - lo + 1) (unat (drop_bit lo x))"
    by (simp add: BITS_take_bit unsigned_take_bit_eq)
  then show ?thesis using take_bit_nat_less_exp [of "hi - lo + 1"] by simp
qed

section \<open>Signed readings of small words\<close>

lemma sint_small:
  assumes "unat x < 2 ^ (LENGTH('w) - 1)"
  shows "sint (x :: 'w::len word) = int (unat x)"
proof -
  have "uint x < 2 ^ (LENGTH('w) - 1)"
    using assms by (metis of_nat_less_numeral_power_cancel_iff uint_nat)
  then have "signed_take_bit (LENGTH('w) - 1) (uint x) = uint x"
    by (intro signed_take_bit_int_eq_self) (auto intro: order_trans [of _ 0])
  then have "sint x = uint x" by (simp only: sint_uint One_nat_def)
  then show ?thesis by (simp only: uint_nat)
qed

lemma unat_scast_small:
  assumes "unat (x :: 'a::len word) < 2 ^ (LENGTH('a) - 1)" "LENGTH('a) \<le> LENGTH('b)"
  shows "unat (scast x :: 'b::len word) = unat x"
proof -
  have "(2 :: nat) ^ (LENGTH('a) - 1) \<le> 2 ^ LENGTH('b)" using assms(2) by (simp add: power_increasing)
  with assms(1) have "unat x < 2 ^ LENGTH('b)" by (rule less_le_trans)
  then show ?thesis
    by (simp add: scast_eq sint_small [OF assms(1)] unsigned_ucast_eq unsigned_take_bit_eq take_bit_nat_eq_self)
qed

section \<open>C arithmetic that may be undefined\<close>

text \<open>
  \<^verbatim>\<open>a / b\<close> and \<^verbatim>\<open>a % b\<close> on signed operands truncate towards zero and are undefined when
  \<^verbatim>\<open>b\<close> is zero or the quotient is not representable; unsigned ones only for \<^verbatim>\<open>b = 0\<close>; a shift
  is undefined when its count is not below the width.
\<close>

definition int_min :: "'w::len word" where
  "int_min = push_bit (LENGTH('w) - 1) 1"

definition c_sdiv :: "'w::len word \<Rightarrow> 'w word \<Rightarrow> 'w word res" where
  "c_sdiv a b = guardR (b \<noteq> 0 \<and> \<not> (a = int_min \<and> b = -1)) Undef
     (Inr (word_of_int (sint a sdiv sint b)))"

definition c_smod :: "'w::len word \<Rightarrow> 'w word \<Rightarrow> 'w word res" where
  "c_smod a b = guardR (b \<noteq> 0 \<and> \<not> (a = int_min \<and> b = -1)) Undef
     (Inr (word_of_int (sint a smod sint b)))"

definition c_udiv :: "'w::len word \<Rightarrow> 'w word \<Rightarrow> 'w word res" where
  "c_udiv a b = guardR (b \<noteq> 0) Undef (Inr (a div b))"

definition c_umod :: "'w::len word \<Rightarrow> 'w word \<Rightarrow> 'w word res" where
  "c_umod a b = guardR (b \<noteq> 0) Undef (Inr (a mod b))"

definition c_shl :: "'w::len word \<Rightarrow> 'w word \<Rightarrow> 'w word res" where
  "c_shl a n = guardR (unat n < LENGTH('w)) Undef (Inr (push_bit (unat n) a))"

definition c_shr :: "'w::len word \<Rightarrow> 'w word \<Rightarrow> 'w word res" where
  "c_shr a n = guardR (unat n < LENGTH('w)) Undef (Inr (drop_bit (unat n) a))"

definition c_sar :: "'w::len word \<Rightarrow> 'w word \<Rightarrow> 'w word res" where
  "c_sar a n = guardR (unat n < LENGTH('w)) Undef (Inr (signed_drop_bit (unat n) a))"

end
