(* ===== verification/Machine_State.thy ===== *)
theory Machine_State
  imports Prelude
begin

text \<open>
  The build-time configuration (the \<^verbatim>\<open>CONFIG_*\<close> macros the build generates from Kconfig, hence
  a parameter of every definition) and the run-time state of NEMU apart from the guest CPU:
  \<^verbatim>\<open>NEMUState\<close> (\<^verbatim>\<open>include/utils.h\<close>, \<^verbatim>\<open>utils/state.c\<close>), the memory arrays of
  \<^verbatim>\<open>memory/paddr.c\<close>, the I/O space and maps of \<^verbatim>\<open>device/io\<close>, the static variables of the
  devices, and the flags of \<^verbatim>\<open>cpu/difftest/dut.c\<close>. The type parameter \<open>'v\<close> is \<^verbatim>\<open>vaddr_t\<close>.
\<close>

section \<open>Configuration\<close>

text \<open>
  \<^verbatim>\<open>paddr_t\<close> is \<^verbatim>\<open>uint32_t\<close>: the macro \<^verbatim>\<open>PMEM64\<close> is off whenever memory ends below 4 GB.
\<close>

record config =
  cfg_isa64 :: bool
  cfg_rve :: bool
  cfg_rt_check :: bool
  cfg_device :: bool
  cfg_has_port_io :: bool
  cfg_difftest :: bool
  cfg_watchpoint :: bool
  cfg_iringbuf :: bool
  cfg_trace :: bool
  cfg_trace_start :: u64
  cfg_trace_end :: u64
  cfg_mem_random :: bool
  cfg_mbase :: u32
  cfg_msize :: u32
  cfg_pc_reset_offset :: u32

section \<open>NEMU's own state\<close>

datatype run_state = NEMU_RUNNING | NEMU_STOP | NEMU_END | NEMU_ABORT | NEMU_QUIT

record 'v NEMUState =
  nstate :: run_state
  halt_pc :: 'v
  halt_ret :: u32

text \<open>\<^verbatim>\<open>NEMUState nemu_state = { .state = NEMU_STOP };\<close>, the other fields zero.\<close>

definition initial_nemu_state :: "'v::zero NEMUState" where
  "initial_nemu_state = \<lparr>nstate = NEMU_STOP, halt_pc = 0, halt_ret = 0\<rparr>"

definition is_exit_status_bad :: "'v NEMUState \<Rightarrow> int" where
  "is_exit_status_bad n =
     (let good = (nstate n = NEMU_END \<and> halt_ret n = 0) \<or> nstate n = NEMU_QUIT
      in if \<not> good then 1 else 0)"

section \<open>I/O maps and devices\<close>

text \<open>
  A function pointer of type \<^verbatim>\<open>io_callback_t\<close> is the name of the handler it points to. The
  target space of a map is a pointer into \<^verbatim>\<open>io_space\<close>, kept as an offset.
\<close>

datatype io_callback =
  SerialHandler | RtcHandler | I8042Handler | AudioHandler | SdcardHandler

record IOMap =
  map_name :: string
  map_low :: u32
  map_high :: u32
  map_space :: nat
  map_callback :: "io_callback option"

record io_state =
  io_space :: carray
  p_space :: nat
  mmio_maps :: "IOMap list"
  pio_maps :: "IOMap list"

record keyboard_state =
  keymap :: "u32 list"
  key_queue :: "u32 list"
  key_f :: nat
  key_r :: nat
  i8042_data_port_base :: nat

record sdcard_state =
  sd_fp :: "(u8 list \<times> nat) option"
  sd_base :: nat
  sd_blkcnt :: u32
  sd_blk_addr :: int
  sd_addr :: u32
  sd_write_cmd :: bool
  sd_read_ext_csd :: bool

record device_state =
  serial_base :: nat
  serial_out :: "u8 list"
  rtc_port_base :: nat
  vgactl_port_base :: nat
  vmem :: nat
  screen_updates :: "u8 list list"
  audio_base :: nat
  sbuf :: nat
  kbd :: keyboard_state
  sdc :: sdcard_state
  alarm_handlers :: "string list"
  last_update :: u64

text \<open>
  The host clock is an input: \<open>clock n\<close> is the \<open>n\<close>-th reading of \<^verbatim>\<open>get_time_internal\<close> and
  \<open>clock_reads\<close> counts the readings made so far.
\<close>

record 'v sys =
  flash :: carray
  sram :: carray
  io :: io_state
  dev :: device_state
  clock :: "nat \<Rightarrow> u64"
  clock_reads :: nat
  boot_time :: u64
  nemu :: "'v NEMUState"
  is_skip_ref :: bool
  skip_dut_nr_inst :: int

section \<open>difftest\_skip\_ref, get\_time\<close>

text \<open>Without \<^verbatim>\<open>CONFIG_DIFFTEST\<close> the function is an empty inline (\<^verbatim>\<open>cpu/difftest.h\<close>).\<close>

definition difftest_skip_ref :: "config \<Rightarrow> 'v sys \<Rightarrow> 'v sys" where
  "difftest_skip_ref c s =
     (if cfg_difftest c then s\<lparr>is_skip_ref := True, skip_dut_nr_inst := 0\<rparr> else s)"

definition set_nemu_state :: "config \<Rightarrow> run_state \<Rightarrow> 'v \<Rightarrow> u32 \<Rightarrow> 'v sys \<Rightarrow> 'v sys" where
  "set_nemu_state c st pc ret s =
     (let s = difftest_skip_ref c s
      in s\<lparr>nemu := \<lparr>nstate = st, halt_pc = pc, halt_ret = ret\<rparr>\<rparr>)"

definition get_time_internal :: "'v sys \<Rightarrow> u64 \<times> 'v sys" where
  "get_time_internal s = (clock s (clock_reads s), s\<lparr>clock_reads := Suc (clock_reads s)\<rparr>)"

definition get_time :: "'v sys \<Rightarrow> u64 \<times> 'v sys" where
  "get_time s =
     (let s1 = (if boot_time s = 0
                then (case get_time_internal s of (t, s') \<Rightarrow> s'\<lparr>boot_time := t\<rparr>)
                else s);
          (now, s2) = get_time_internal s1
      in (now - boot_time s2, s2))"

text \<open>
  Two consecutive calls measure the difference of two readings of the host clock once the boot
  time is fixed, whatever the boot time was (the subtraction wraps).
\<close>

lemma get_time_booted:
  assumes "boot_time s \<noteq> 0"
  shows "get_time s =
    (clock s (clock_reads s) - boot_time s, s\<lparr>clock_reads := Suc (clock_reads s)\<rparr>)"
  using assms by (simp add: get_time_def get_time_internal_def)

lemma nemu_difftest_skip_ref [simp]:
  "nemu (difftest_skip_ref c s) = nemu s" "flash (difftest_skip_ref c s) = flash s"
  "sram (difftest_skip_ref c s) = sram s" "io (difftest_skip_ref c s) = io s"
  "dev (difftest_skip_ref c s) = dev s"
  by (simp_all add: difftest_skip_ref_def)

lemma set_nemu_state_simps [simp]:
  "nemu (set_nemu_state c st pc ret s) = \<lparr>nstate = st, halt_pc = pc, halt_ret = ret\<rparr>"
  "flash (set_nemu_state c st pc ret s) = flash s"
  "sram (set_nemu_state c st pc ret s) = sram s"
  "io (set_nemu_state c st pc ret s) = io s"
  "dev (set_nemu_state c st pc ret s) = dev s"
  by (simp_all add: set_nemu_state_def Let_def)

end
