(* ===== verification/Memory.thy ===== *)
theory Memory
  imports Machine_State
begin

text \<open>
  Physical memory: \<^verbatim>\<open>include/memory/host.h\<close>, the \<^verbatim>\<open>in_pmem\<close> of \<^verbatim>\<open>include/memory/paddr.h\<close> and
  the part of \<^verbatim>\<open>src/memory/paddr.c\<close> that does not reach devices. The two static arrays
  \<^verbatim>\<open>flash\<close> (\<^verbatim>\<open>CONFIG_MSIZE\<close> bytes) and \<^verbatim>\<open>sram\<close> (16 MB) are fields of the system state; a host
  pointer is one of the two arrays with an offset. Lengths are the literals 1, 2, 4 and 8 the
  callers pass, as natural numbers.
\<close>

section \<open>Typed access to the host's memory (host.h)\<close>

definition host_read :: "config \<Rightarrow> carray \<Rightarrow> nat \<Rightarrow> nat \<Rightarrow> 'w::len word res" where
  "host_read c a off len =
     (if len = 1 \<or> len = 2 \<or> len = 4 \<or> (len = 8 \<and> cfg_isa64 c)
      then bindR (arr_load a off len) (\<lambda>bs. Inr (le_word bs))
      else if cfg_rt_check c then Inl AssertFail else Inr 0)"

definition host_write :: "config \<Rightarrow> carray \<Rightarrow> nat \<Rightarrow> nat \<Rightarrow> 'w::len word \<Rightarrow> carray res" where
  "host_write c a off len data =
     (if len = 1 \<or> len = 2 \<or> len = 4 \<or> (len = 8 \<and> cfg_isa64 c)
      then arr_store a off (le_bytes len data)
      else if cfg_rt_check c then Inl AssertFail else Inr a)"

definition access_len :: "config \<Rightarrow> nat \<Rightarrow> bool" where
  "access_len c len \<longleftrightarrow> len = 1 \<or> len = 2 \<or> len = 4 \<or> (len = 8 \<and> cfg_isa64 c)"

lemma access_len_cases [elim]:
  "access_len c len \<Longrightarrow> (len = 1 \<Longrightarrow> P) \<Longrightarrow> (len = 2 \<Longrightarrow> P) \<Longrightarrow> (len = 4 \<Longrightarrow> P) \<Longrightarrow> (len = 8 \<Longrightarrow> P) \<Longrightarrow> P"
  by (auto simp: access_len_def)

lemma host_write_ok:
  "access_len c len \<Longrightarrow> off + len \<le> clen a \<Longrightarrow>
   host_write c a off len w = Inr (arr_put a off (le_bytes len w))"
  by (simp add: host_write_def access_len_def arr_store_ok)

lemma host_write_len: "host_write c a off len w = Inr a' \<Longrightarrow> clen a' = clen a"
  by (auto simp: host_write_def clen_arr_store split: if_splits)

lemma host_read_arr:
  "access_len c len \<Longrightarrow> host_read c a off len = bindR (arr_load a off len) (\<lambda>bs. Inr (le_word bs))"
  by (simp add: host_read_def access_len_def)

section \<open>An interface: byte stores\<close>

text \<open>
  What the typed accesses need of an array: a store is read back, and a disjoint store is not
  seen. The client's lemmas are about words; the interpretation below is on the model's arrays,
  which serve flash, SRAM and the I/O space alike.
\<close>

locale byte_store =
  fixes load :: "'s \<Rightarrow> nat \<Rightarrow> nat \<Rightarrow> u8 list res"
    and put :: "'s \<Rightarrow> nat \<Rightarrow> u8 list \<Rightarrow> 's"
    and size_of :: "'s \<Rightarrow> nat"
  assumes load_put_same:
      "off + length bs \<le> size_of a \<Longrightarrow> load (put a off bs) off (length bs) = Inr bs"
    and load_put_other:
      "off' + n \<le> off \<or> off + length bs \<le> off' \<Longrightarrow> load (put a off bs) off' n = load a off' n"
begin

lemma word_put_same:
  assumes "off + n \<le> size_of a"
  shows "bindR (load (put a off (le_bytes n w)) off n) (\<lambda>bs. Inr (le_word bs)) =
         Inr (take_bit (8 * n) (w :: 'w::len word))"
  using load_put_same [of off "le_bytes n w" a] assms by (simp add: le_word_le_bytes)

lemma word_put_other:
  assumes "off' + m \<le> off \<or> off + n \<le> off'"
  shows "load (put a off (le_bytes n (w :: 'w::len word))) off' m = load a off' m"
  using load_put_other [of off' m off "le_bytes n w" a] assms by simp

end

interpretation arr: byte_store arr_load arr_put clen
  by unfold_locales (auto simp: arr_load_put_same arr_load_put_other)

lemma host_read_write_same:
  "access_len c len \<Longrightarrow> off + len \<le> clen a \<Longrightarrow>
   host_read c (arr_put a off (le_bytes len (w :: 'w::len word))) off len =
   Inr (take_bit (8 * len) w)"
  by (simp add: host_read_arr arr.word_put_same)

lemma host_read_write_other:
  "off' + m \<le> off \<or> off + len \<le> off' \<Longrightarrow>
   host_read c (arr_put a off (le_bytes len (w :: 'w::len word))) off' m = host_read c a off' m"
  by (simp add: host_read_def arr.word_put_other)

section \<open>Guest addresses\<close>

datatype hptr = SramP nat | FlashP nat

definition out_of_bound :: "u32 \<Rightarrow> 'a res" where
  "out_of_bound addr = Inl Panic"

definition host_to_guest :: "config \<Rightarrow> hptr \<Rightarrow> u32 res" where
  "host_to_guest c p =
     (case p of FlashP off \<Rightarrow> Inr (of_nat off + cfg_mbase c) | SramP _ \<Rightarrow> Inl Undef)"

definition guest_to_host :: "u32 \<Rightarrow> hptr res" where
  "guest_to_host paddr =
     (if 0x0f000000 \<le> paddr \<and> paddr \<le> 0x0fffffff then Inr (SramP (unat (paddr - 0x0f000000)))
      else if 0x30000000 \<le> paddr \<and> paddr \<le> 0x3fffffff
        then Inr (FlashP (unat (paddr - 0x30000000)))
      else out_of_bound paddr)"

definition in_pmem :: "config \<Rightarrow> u32 \<Rightarrow> bool res" where
  "in_pmem c addr =
     (if 0x30000000 \<le> addr \<and> addr < 0x30000000 + 0x10000000
        then Inr (addr - cfg_mbase c < cfg_msize c)
      else if 0x0f000000 \<le> addr \<and> addr < 0x0f000000 + 0x1000000
        then Inr (addr - 0x0f000000 < 0x1000000)
      else Inl AssertFail)"

section \<open>Reading and writing physical memory (paddr.c)\<close>

definition pmem_read :: "config \<Rightarrow> u32 \<Rightarrow> nat \<Rightarrow> 'v sys \<Rightarrow> 'w::len word res" where
  "pmem_read c addr len s =
     bindR (guest_to_host addr) (\<lambda>p. case p of
         SramP off \<Rightarrow> host_read c (sram s) off len
       | FlashP off \<Rightarrow> host_read c (flash s) off len)"

definition pmem_write :: "config \<Rightarrow> u32 \<Rightarrow> nat \<Rightarrow> 'w::len word \<Rightarrow> 'v sys \<Rightarrow> 'v sys res" where
  "pmem_write c addr len data s =
     bindR (guest_to_host addr) (\<lambda>p. case p of
         SramP off \<Rightarrow> bindR (host_write c (sram s) off len data) (\<lambda>a. Inr (s\<lparr>sram := a\<rparr>))
       | FlashP off \<Rightarrow> bindR (host_write c (flash s) off len data) (\<lambda>a. Inr (s\<lparr>flash := a\<rparr>)))"

text \<open>\<^verbatim>\<open>init_mem\<close>: \<^verbatim>\<open>rand()\<close> is converted to the \<^verbatim>\<open>unsigned char\<close> that \<^verbatim>\<open>memset\<close> stores.\<close>

definition init_mem :: "config \<Rightarrow> u32 \<Rightarrow> 'v sys \<Rightarrow> 'v sys res" where
  "init_mem c rnd s =
     (if cfg_mem_random c
      then bindR (arr_store (flash s) 0 (replicate (unat (cfg_msize c)) (ucast rnd))) (\<lambda>f.
           bindR (arr_store (sram s) 0 (replicate 0x1000000 0)) (\<lambda>r.
           Inr (s\<lparr>flash := f, sram := r\<rparr>)))
      else Inr s)"

section \<open>The layout invariant and the laws of physical memory\<close>

definition mem_wf :: "config \<Rightarrow> 'v sys \<Rightarrow> bool" where
  "mem_wf c s \<longleftrightarrow> clen (flash s) = unat (cfg_msize c) \<and> clen (sram s) = 0x1000000"

text \<open>An access that lies inside one of the two arrays.\<close>

definition pmem_range :: "config \<Rightarrow> u32 \<Rightarrow> nat \<Rightarrow> bool" where
  "pmem_range c addr len \<longleftrightarrow>
     (0x0f000000 \<le> unat addr \<and> unat addr + len \<le> 0x10000000) \<or>
     (0x30000000 \<le> unat addr \<and> unat addr + len \<le> 0x30000000 + unat (cfg_msize c) \<and>
      unat addr < 0x40000000)"

lemma unat_minus_const:
  "(k :: u32) \<le> a \<Longrightarrow> unat (a - k) = unat a - unat k"
  by (simp add: unat_sub)

lemma guest_to_host_sram:
  "0x0f000000 \<le> unat addr \<Longrightarrow> unat addr < 0x10000000 \<Longrightarrow>
   guest_to_host addr = Inr (SramP (unat addr - 0x0f000000))"
  by (simp add: guest_to_host_def word_le_nat_alt unat_minus_const)

lemma guest_to_host_flash:
  "0x30000000 \<le> unat addr \<Longrightarrow> unat addr < 0x40000000 \<Longrightarrow>
   guest_to_host addr = Inr (FlashP (unat addr - 0x30000000))"
  by (simp add: guest_to_host_def word_le_nat_alt unat_minus_const)

lemma pmem_writeE:
  assumes "pmem_write c addr len w s = Inr s'"
  obtains off a where "guest_to_host addr = Inr (SramP off)"
      "host_write c (sram s) off len w = Inr a" "s' = s\<lparr>sram := a\<rparr>"
    | off a where "guest_to_host addr = Inr (FlashP off)"
      "host_write c (flash s) off len w = Inr a" "s' = s\<lparr>flash := a\<rparr>"
proof (cases "guest_to_host addr")
  case (Inl e)
  with assms show ?thesis by (simp add: pmem_write_def)
next
  case (Inr p)
  with assms that show ?thesis by (cases p) (auto simp: pmem_write_def res_simps)
qed

lemma pmem_write_mem_wf:
  "pmem_write c addr len w s = Inr s' \<Longrightarrow> mem_wf c s \<Longrightarrow> mem_wf c s'"
  by (elim pmem_writeE) (auto simp: mem_wf_def host_write_len)

lemma init_mem_mem_wf:
  "init_mem c rnd s = Inr s' \<Longrightarrow> mem_wf c s \<Longrightarrow> mem_wf c s'"
  by (auto simp: init_mem_def mem_wf_def res_simps clen_arr_store split: if_splits)

lemma pmem_range_cases:
  assumes "pmem_range c addr len" "0 < len"
  obtains (sram) off where "guest_to_host addr = Inr (SramP off)" "off + len \<le> 0x1000000"
      "off = unat addr - 0x0f000000" "0x0f000000 \<le> unat addr" "unat addr + len \<le> 0x10000000"
    | (flash) off where "guest_to_host addr = Inr (FlashP off)" "off + len \<le> unat (cfg_msize c)"
      "off = unat addr - 0x30000000" "0x30000000 \<le> unat addr"
  using assms guest_to_host_sram [of addr] guest_to_host_flash [of addr]
  by (auto simp: pmem_range_def)

lemma access_len_pos: "access_len c len \<Longrightarrow> 0 < len"
  by (auto simp: access_len_def)

lemma pmem_write_ok:
  assumes "mem_wf c s" "pmem_range c addr len" "access_len c len"
  shows "\<exists>s'. pmem_write c addr len w s = Inr s'"
  using assms(2) access_len_pos [OF assms(3)]
proof (cases rule: pmem_range_cases)
  case (sram off)
  with assms show ?thesis by (simp add: pmem_write_def host_write_ok mem_wf_def)
next
  case (flash off)
  with assms show ?thesis by (simp add: pmem_write_def host_write_ok mem_wf_def)
qed

lemma pmem_read_write_same:
  assumes "mem_wf c s" "pmem_range c addr len" "access_len c len"
    and "pmem_write c addr len (w :: 'w::len word) s = Inr s'"
  shows "pmem_read c addr len s' = Inr (take_bit (8 * len) w)"
  using assms(2) access_len_pos [OF assms(3)]
proof (cases rule: pmem_range_cases)
  case (sram off)
  with assms show ?thesis
    by (auto simp: pmem_write_def pmem_read_def host_write_ok mem_wf_def host_read_write_same)
next
  case (flash off)
  with assms show ?thesis
    by (auto simp: pmem_write_def pmem_read_def host_write_ok mem_wf_def host_read_write_same)
qed

lemma pmem_read_write_other:
  assumes "mem_wf c s" "pmem_range c addr len" "access_len c len"
    and "pmem_range c addr' len'" "access_len c len'"
    and "unat addr + len \<le> unat addr' \<or> unat addr' + len' \<le> unat addr"
    and "pmem_write c addr len (w :: 'w::len word) s = Inr s'"
  shows "pmem_read c addr' len' s' = pmem_read c addr' len' s"
  using assms(4) access_len_pos [OF assms(5)]
proof (cases rule: pmem_range_cases)
  case sram': (sram off')
  from assms(2) access_len_pos [OF assms(3)] show ?thesis
  proof (cases rule: pmem_range_cases)
    case (sram off)
    with sram' assms have "off' + len' \<le> off \<or> off + len \<le> off'" by auto
    with sram(1,2) sram'(1,2) assms(1,3,7) show ?thesis
      by (auto simp: pmem_write_def pmem_read_def host_write_ok mem_wf_def host_read_write_other)
  next
    case (flash off)
    with sram'(1,2) assms(1,3,7) show ?thesis
      by (auto simp: pmem_write_def pmem_read_def host_write_ok mem_wf_def)
  qed
next
  case flash': (flash off')
  from assms(2) access_len_pos [OF assms(3)] show ?thesis
  proof (cases rule: pmem_range_cases)
    case (sram off)
    with flash'(1,2) assms(1,3,7) show ?thesis
      by (auto simp: pmem_write_def pmem_read_def host_write_ok mem_wf_def)
  next
    case (flash off)
    with flash' assms have "off' + len' \<le> off \<or> off + len \<le> off'" by auto
    with flash(1,2) flash'(1,2) assms(1,3,7) show ?thesis
      by (auto simp: pmem_write_def pmem_read_def host_write_ok mem_wf_def host_read_write_other)
  qed
qed

lemma pmem_write_frame:
  "pmem_write c addr len w s = Inr s' \<Longrightarrow>
   nemu s' = nemu s \<and> io s' = io s \<and> dev s' = dev s \<and> clock s' = clock s \<and>
   is_skip_ref s' = is_skip_ref s \<and> skip_dut_nr_inst s' = skip_dut_nr_inst s"
  by (elim pmem_writeE) auto

end
