(* ===== verification/IO_Map.thy ===== *)
theory IO_Map
  imports Memory
begin

text \<open>
  The I/O maps: \<^verbatim>\<open>include/device/map.h\<close>, \<^verbatim>\<open>src/device/io/map.c\<close>, \<^verbatim>\<open>mmio.c\<close> and
  \<^verbatim>\<open>port-io.c\<close>. The array \<^verbatim>\<open>maps\<close> with its counter \<^verbatim>\<open>nr_map\<close> is a list of at most 16 maps. The
  device handlers live in the device theories, so the access routines take the function
  \<open>run\<close> that calls a handler as an argument, as the C code calls through \<^verbatim>\<open>map->callback\<close>.
\<close>

type_synonym 'v callback_fn = "io_callback \<Rightarrow> u32 \<Rightarrow> nat \<Rightarrow> bool \<Rightarrow> 'v sys \<Rightarrow> 'v sys res"

definition IO_SPACE_MAX :: nat where
  "IO_SPACE_MAX = 2 * 1024 * 1024"

definition PAGE_SIZE :: u64 where
  "PAGE_SIZE = push_bit 12 1"

definition PAGE_MASK :: u64 where
  "PAGE_MASK = PAGE_SIZE - 1"

definition NR_MAP :: nat where
  "NR_MAP = 16"

section \<open>Allocating I/O space (map.c)\<close>

text \<open>
  The size is an \<^verbatim>\<open>int\<close>; the rounding is done in \<^verbatim>\<open>unsigned long\<close> and converted back. Moving the
  pointer below the start of the space is undefined, past its end fails the assertion.
\<close>

definition new_space :: "u32 \<Rightarrow> 'v sys \<Rightarrow> (nat \<times> 'v sys) res" where
  "new_space sz s =
     (let p = p_space (io s);
          sz' = ucast ((scast sz + (PAGE_SIZE - 1)) AND NOT PAGE_MASK) :: u32;
          q = int p + sint sz'
      in guardR (0 \<le> q) Undef
          (guardR (q < int IO_SPACE_MAX) AssertFail
            (Inr (p, s\<lparr>io := (io s)\<lparr>p_space := nat q\<rparr>\<rparr>))))"

text \<open>\<^verbatim>\<open>malloc\<close> returns no memory or an array of unknown contents: the argument \<open>m\<close>.\<close>

definition init_map :: "(nat \<Rightarrow> u8) option \<Rightarrow> 'v sys \<Rightarrow> 'v sys res" where
  "init_map m s =
     (case m of
        None \<Rightarrow> Inl AssertFail
      | Some contents \<Rightarrow>
          Inr (s\<lparr>io := (io s)\<lparr>io_space := \<lparr>clen = IO_SPACE_MAX, cget = contents\<rparr>, p_space := 0\<rparr>\<rparr>))"

section \<open>Looking an address up (map.h)\<close>

definition map_inside :: "IOMap \<Rightarrow> u32 \<Rightarrow> bool" where
  "map_inside m addr \<longleftrightarrow> map_low m \<le> addr \<and> addr \<le> map_high m"

text \<open>The loop of \<^verbatim>\<open>find_mapid_by_addr\<close> from index \<open>i\<close> on.\<close>

fun find_mapid_from :: "config \<Rightarrow> int \<Rightarrow> IOMap list \<Rightarrow> u32 \<Rightarrow> 'v sys \<Rightarrow> int \<times> 'v sys" where
  "find_mapid_from c i [] addr s = (-1, s)"
| "find_mapid_from c i (m # ms) addr s =
     (if map_inside m addr then (i, difftest_skip_ref c s)
      else find_mapid_from c (i + 1) ms addr s)"

definition find_mapid_by_addr :: "config \<Rightarrow> IOMap list \<Rightarrow> u32 \<Rightarrow> 'v sys \<Rightarrow> int \<times> 'v sys" where
  "find_mapid_by_addr c maps addr s = find_mapid_from c 0 maps addr s"

section \<open>Access through a map (map.c)\<close>

text \<open>\<^verbatim>\<open>check_bound\<close>; the result is the map, now known not to be \<^verbatim>\<open>NULL\<close>.\<close>

definition check_bound :: "IOMap option \<Rightarrow> u32 \<Rightarrow> IOMap res" where
  "check_bound m addr =
     (case m of
        None \<Rightarrow> Inl AssertFail
      | Some m \<Rightarrow> guardR (addr \<le> map_high m \<and> map_low m \<le> addr) AssertFail (Inr m))"

definition invoke_callback ::
    "'v callback_fn \<Rightarrow> io_callback option \<Rightarrow> u32 \<Rightarrow> nat \<Rightarrow> bool \<Rightarrow> 'v sys \<Rightarrow> 'v sys res" where
  "invoke_callback run cb offset len is_write s =
     (case cb of None \<Rightarrow> Inr s | Some f \<Rightarrow> run f offset len is_write s)"

definition map_read ::
    "config \<Rightarrow> 'v callback_fn \<Rightarrow> u32 \<Rightarrow> nat \<Rightarrow> IOMap option \<Rightarrow> 'v sys \<Rightarrow> ('w::len word \<times> 'v sys) res"
where
  "map_read c run addr len m s =
     guardR (1 \<le> len \<and> len \<le> 8) AssertFail
      (bindR (check_bound m addr) (\<lambda>m.
       let offset = addr - map_low m in
       bindR (invoke_callback run (map_callback m) offset len False s) (\<lambda>s.
       bindR (host_read c (io_space (io s)) (map_space m + unat offset) len) (\<lambda>ret.
       Inr (ret, s)))))"

definition map_write ::
    "config \<Rightarrow> 'v callback_fn \<Rightarrow> u32 \<Rightarrow> nat \<Rightarrow> 'w::len word \<Rightarrow> IOMap option \<Rightarrow> 'v sys \<Rightarrow> 'v sys res"
where
  "map_write c run addr len data m s =
     guardR (1 \<le> len \<and> len \<le> 8) AssertFail
      (bindR (check_bound m addr) (\<lambda>m.
       let offset = addr - map_low m in
       bindR (host_write c (io_space (io s)) (map_space m + unat offset) len data) (\<lambda>a.
       invoke_callback run (map_callback m) offset len True (s\<lparr>io := (io s)\<lparr>io_space := a\<rparr>\<rparr>))))"

section \<open>Memory-mapped I/O (mmio.c)\<close>

definition fetch_mmio_map :: "config \<Rightarrow> u32 \<Rightarrow> 'v sys \<Rightarrow> IOMap option \<times> 'v sys" where
  "fetch_mmio_map c addr s =
     (let (mapid, s') = find_mapid_by_addr c (mmio_maps (io s)) addr s
      in (if mapid = -1 then None else Some (mmio_maps (io s) ! nat mapid), s'))"

definition report_mmio_overlap :: "'a res" where
  "report_mmio_overlap = Inl Panic"

text \<open>The \<^verbatim>\<open>||\<close> is short-circuit, and \<^verbatim>\<open>in_pmem\<close> itself asserts.\<close>

definition add_mmio_map ::
    "config \<Rightarrow> string \<Rightarrow> u32 \<Rightarrow> nat \<Rightarrow> u32 \<Rightarrow> io_callback option \<Rightarrow> 'v sys \<Rightarrow> 'v sys res" where
  "add_mmio_map c nm addr sp len cb s =
     (let maps = mmio_maps (io s); left = addr; right = addr + len - 1 in
      guardR (length maps < NR_MAP) AssertFail
       (bindR (in_pmem c left) (\<lambda>l.
        bindR (if l then Inr True else in_pmem c right) (\<lambda>lr.
        if lr then report_mmio_overlap
        else if \<exists>m \<in> set maps. left \<le> map_high m \<and> map_low m \<le> right then report_mmio_overlap
        else Inr (s\<lparr>io := (io s)\<lparr>mmio_maps := maps @
              [\<lparr>map_name = nm, map_low = addr, map_high = addr + len - 1, map_space = sp,
               map_callback = cb\<rparr>]\<rparr>\<rparr>)))))"

definition mmio_read ::
    "config \<Rightarrow> 'v callback_fn \<Rightarrow> u32 \<Rightarrow> nat \<Rightarrow> 'v sys \<Rightarrow> ('w::len word \<times> 'v sys) res" where
  "mmio_read c run addr len s =
     (let (m, s') = fetch_mmio_map c addr s in map_read c run addr len m s')"

definition mmio_write ::
    "config \<Rightarrow> 'v callback_fn \<Rightarrow> u32 \<Rightarrow> nat \<Rightarrow> 'w::len word \<Rightarrow> 'v sys \<Rightarrow> 'v sys res" where
  "mmio_write c run addr len data s =
     (let (m, s') = fetch_mmio_map c addr s in map_write c run addr len data m s')"

section \<open>Port I/O (port-io.c)\<close>

definition PORT_IO_SPACE_MAX :: nat where
  "PORT_IO_SPACE_MAX = 65535"

text \<open>\<^verbatim>\<open>addr + len\<close> is a sum of a promoted \<^verbatim>\<open>uint16_t\<close> and a \<^verbatim>\<open>uint32_t\<close>: it wraps at 32 bits.\<close>

definition add_pio_map ::
    "string \<Rightarrow> u16 \<Rightarrow> nat \<Rightarrow> u32 \<Rightarrow> io_callback option \<Rightarrow> 'v sys \<Rightarrow> 'v sys res" where
  "add_pio_map nm addr sp len cb s =
     (let maps = pio_maps (io s) in
      guardR (length maps < NR_MAP) AssertFail
       (guardR (ucast addr + len \<le> (of_nat PORT_IO_SPACE_MAX :: u32)) AssertFail
        (Inr (s\<lparr>io := (io s)\<lparr>pio_maps := maps @
           [\<lparr>map_name = nm, map_low = ucast addr, map_high = ucast addr + len - 1, map_space = sp,
             map_callback = cb\<rparr>]\<rparr>\<rparr>))))"

definition pio_lookup :: "config \<Rightarrow> u16 \<Rightarrow> nat \<Rightarrow> 'v sys \<Rightarrow> (IOMap option \<times> 'v sys) res" where
  "pio_lookup c addr len s =
     guardR (int (unat addr) + int len - 1 < int PORT_IO_SPACE_MAX) AssertFail
      (let (mapid, s') = find_mapid_by_addr c (pio_maps (io s)) (ucast addr) s
       in guardR (mapid \<noteq> -1) AssertFail (Inr (Some (pio_maps (io s) ! nat mapid), s')))"

definition pio_read ::
    "config \<Rightarrow> 'v callback_fn \<Rightarrow> u16 \<Rightarrow> nat \<Rightarrow> 'v sys \<Rightarrow> (u32 \<times> 'v sys) res" where
  "pio_read c run addr len s =
     bindR (pio_lookup c addr len s) (\<lambda>(m, s'). map_read c run (ucast addr) len m s')"

definition pio_write ::
    "config \<Rightarrow> 'v callback_fn \<Rightarrow> u16 \<Rightarrow> nat \<Rightarrow> u32 \<Rightarrow> 'v sys \<Rightarrow> 'v sys res" where
  "pio_write c run addr len data s =
     bindR (pio_lookup c addr len s) (\<lambda>(m, s'). map_write c run (ucast addr) len data m s')"


section \<open>Registered regions never overlap\<close>

definition maps_disjoint :: "IOMap list \<Rightarrow> bool" where
  "maps_disjoint maps \<longleftrightarrow>
     sorted_wrt (\<lambda>m n. \<forall>a. \<not> (map_inside m a \<and> map_inside n a)) maps"

definition mmio_wf :: "'v sys \<Rightarrow> bool" where
  "mmio_wf s \<longleftrightarrow> length (mmio_maps (io s)) \<le> NR_MAP \<and> maps_disjoint (mmio_maps (io s))"

lemma add_mmio_mapE:
  assumes "add_mmio_map c nm addr sp n cb s = Inr s'"
  obtains m where "s' = s\<lparr>io := (io s)\<lparr>mmio_maps := mmio_maps (io s) @ [m]\<rparr>\<rparr>"
    and "m = \<lparr>map_name = nm, map_low = addr, map_high = addr + n - 1, map_space = sp,
              map_callback = cb\<rparr>"
    and "length (mmio_maps (io s)) < NR_MAP"
    and "in_pmem c addr = Inr False" and "in_pmem c (addr + n - 1) = Inr False"
    and "\<forall>m' \<in> set (mmio_maps (io s)). \<not> (addr \<le> map_high m' \<and> map_low m' \<le> addr + n - 1)"
  using assms
  by (auto simp: add_mmio_map_def report_mmio_overlap_def Let_def res_simps split: if_splits)

lemma add_mmio_map_wf:
  assumes "add_mmio_map c nm addr sp n cb s = Inr s'" "mmio_wf s"
  shows "mmio_wf s'"
  using assms(1)
proof (rule add_mmio_mapE)
  fix m
  assume *: "s' = s\<lparr>io := (io s)\<lparr>mmio_maps := mmio_maps (io s) @ [m]\<rparr>\<rparr>"
    "m = \<lparr>map_name = nm, map_low = addr, map_high = addr + n - 1, map_space = sp,
          map_callback = cb\<rparr>"
    "length (mmio_maps (io s)) < NR_MAP"
    "\<forall>m' \<in> set (mmio_maps (io s)). \<not> (addr \<le> map_high m' \<and> map_low m' \<le> addr + n - 1)"
  have "\<not> (map_inside m' a \<and> map_inside m a)" if "m' \<in> set (mmio_maps (io s))" for m' a
    using *(2,4) that by (auto simp: map_inside_def dest: order_trans)
  with * assms(2) show "mmio_wf s'"
    by (auto simp: mmio_wf_def maps_disjoint_def sorted_wrt_append)
qed

lemma find_mapid_from_cases:
  "find_mapid_from c i maps addr s = (r, s') \<Longrightarrow>
   (r = -1 \<and> s' = s \<and> (\<forall>m \<in> set maps. \<not> map_inside m addr)) \<or>
   (\<exists>k < length maps. r = i + int k \<and> s' = difftest_skip_ref c s \<and> map_inside (maps ! k) addr)"
proof (induction c i maps addr s rule: find_mapid_from.induct)
  case (1 c i addr s)
  then show ?case by simp
next
  case (2 c i m ms addr s)
  show ?case
  proof (cases "map_inside m addr")
    case True
    with "2.prems" show ?thesis by auto
  next
    case False
    with "2.prems" have "find_mapid_from c (i + 1) ms addr s = (r, s')" by simp
    from "2.IH" [OF False this] False show ?thesis by (auto intro: exI [of _ "Suc _"])
  qed
qed

text \<open>Looking an address up finds a region that contains it, or there is none.\<close>

lemma fetch_mmio_map_None:
  "fetch_mmio_map c addr s = (None, s') \<Longrightarrow>
   s' = s \<and> (\<forall>m \<in> set (mmio_maps (io s)). \<not> map_inside m addr)"
  using find_mapid_from_cases [of c 0 "mmio_maps (io s)" addr s]
  by (auto simp: fetch_mmio_map_def find_mapid_by_addr_def split: prod.splits if_splits)

lemma fetch_mmio_map_Some:
  "fetch_mmio_map c addr s = (Some m, s') \<Longrightarrow>
   s' = difftest_skip_ref c s \<and> m \<in> set (mmio_maps (io s)) \<and> map_inside m addr"
  using find_mapid_from_cases [of c 0 "mmio_maps (io s)" addr s]
  by (auto simp: fetch_mmio_map_def find_mapid_by_addr_def split: prod.splits if_splits)

lemma maps_disjoint_unique:
  assumes "maps_disjoint maps" "m \<in> set maps" "m' \<in> set maps"
    and "map_inside m a" "map_inside m' a"
  shows "m = m'"
  using assms
  by (auto simp: maps_disjoint_def in_set_conv_nth sorted_wrt_iff_nth_less)
    (metis linorder_neqE_nat)

lemma fetch_mmio_map_owner:
  assumes "mmio_wf s" "m \<in> set (mmio_maps (io s))" "map_inside m addr"
  shows "fetch_mmio_map c addr s = (Some m, difftest_skip_ref c s)"
proof (cases "fetch_mmio_map c addr s")
  case (Pair mo s')
  show ?thesis
  proof (cases mo)
    case None
    with Pair assms fetch_mmio_map_None [of c addr s s'] show ?thesis by auto
  next
    case (Some m')
    with Pair fetch_mmio_map_Some [of c addr s m' s'] assms
      maps_disjoint_unique [of "mmio_maps (io s)" m m' addr]
    show ?thesis by (auto simp: mmio_wf_def)
  qed
qed

section \<open>Reading back what was written to plain device memory\<close>

text \<open>
  For a region without a handler (the frame buffer, the audio buffer), a write is read back.
\<close>

definition io_fits :: "IOMap \<Rightarrow> u32 \<Rightarrow> nat \<Rightarrow> 'v sys \<Rightarrow> bool" where
  "io_fits m addr n s \<longleftrightarrow> map_space m + unat (addr - map_low m) + n \<le> clen (io_space (io s))"

lemma map_read_plain:
  assumes "access_len c n" "map_inside m addr" "map_callback m = None"
  shows "map_read c run addr n (Some m) s =
    bindR (host_read c (io_space (io s)) (map_space m + unat (addr - map_low m)) n)
      (\<lambda>ret. Inr (ret, s))"
  using assms
  by (auto simp: map_read_def check_bound_def invoke_callback_def map_inside_def access_len_def)

lemma map_write_plain:
  assumes "access_len c n" "map_inside m addr" "map_callback m = None" "io_fits m addr n s"
  shows "map_write c run addr n w (Some m) s = Inr (s\<lparr>io := (io s)\<lparr>io_space :=
    arr_put (io_space (io s)) (map_space m + unat (addr - map_low m)) (le_bytes n w)\<rparr>\<rparr>)"
  using assms access_len_pos [OF assms(1)]
  by (auto simp: map_write_def check_bound_def invoke_callback_def map_inside_def io_fits_def
      host_write_ok access_len_def)

lemma map_read_write_plain:
  assumes "access_len c n" "map_inside m addr" "map_callback m = None" "io_fits m addr n s"
    and "map_write c run addr n (w :: 'w::len word) (Some m) s = Inr s'"
  shows "map_read c run addr n (Some m) s' = Inr (take_bit (8 * n) w, s')"
  using assms
  by (auto simp: map_write_plain map_read_plain host_read_write_same io_fits_def)

section \<open>Allocations\<close>

lemma and_not_page_mask: "x AND NOT PAGE_MASK = push_bit 12 (drop_bit 12 (x :: u64))"
proof -
  have "PAGE_MASK = mask 12" by (simp add: PAGE_MASK_def PAGE_SIZE_def mask_eq_exp_minus_1)
  moreover have "x AND NOT (mask 12) = push_bit 12 (drop_bit 12 x)"
    by (rule bit_word_eqI) (auto simp: bit_simps not_less)
  ultimately show ?thesis by simp
qed

definition page_round :: "nat \<Rightarrow> nat" where
  "page_round n = (n + 4095) div 4096 * 4096"

lemma page_round_bounds: "n \<le> page_round n" "page_round n \<le> n + 4095" "4096 dvd page_round n"
proof -
  have "page_round n + (n + 4095) mod 4096 = n + 4095"
    unfolding page_round_def by (rule div_mult_mod_eq)
  moreover have "(n + 4095) mod 4096 < 4096" by simp
  ultimately show "n \<le> page_round n" "page_round n \<le> n + 4095" by linarith+
  show "4096 dvd page_round n" by (simp add: page_round_def)
qed

lemma new_space_size:
  fixes sz :: u32
  assumes "unat sz \<le> 0x7ffff000"
  shows "sint (ucast ((scast sz + (PAGE_SIZE - 1)) AND NOT PAGE_MASK :: u64) :: u32) =
         int (page_round (unat sz))"
proof -
  have a: "unat (scast sz :: u64) = unat sz"
    by (rule unat_scast_small) (use assms in simp_all)
  define y where "y = (scast sz + (PAGE_SIZE - 1) :: u64)"
  have y: "unat y = unat sz + 4095"
    using assms unfolding y_def by (simp add: unat_word_ariths a PAGE_SIZE_def)
  have "(unat sz + 4095) div 4096 \<le> 0x7fffffff div 4096"
    using assms by (intro div_le_mono) simp
  then have r: "page_round (unat sz) \<le> 0x7ffff000" by (simp add: page_round_def)
  define q where "q = (unat sz + 4095) div 4096"
  have q: "page_round (unat sz) = q * 4096" by (simp add: page_round_def q_def)
  have "unat (drop_bit 12 y) = q"
    by (simp add: unat_drop_bit_eq y q_def) (simp add: drop_bit_eq_div)
  then have z: "unat (push_bit 12 (drop_bit 12 y)) = page_round (unat sz)"
    using r unfolding q by (simp add: push_bit_eq_mult unat_word_ariths)
  have "unat (ucast (push_bit 12 (drop_bit 12 y)) :: u32) = page_round (unat sz)"
    using r by (simp add: unsigned_ucast_eq unsigned_take_bit_eq z take_bit_nat_eq_self)
  moreover have "page_round (unat sz) < 2 ^ (LENGTH(32) - 1)"
    using r by simp
  ultimately have "sint (ucast (push_bit 12 (drop_bit 12 y)) :: u32) = int (page_round (unat sz))"
    by (simp only: sint_small)
  then show ?thesis by (simp only: and_not_page_mask y_def)
qed

text \<open>
  The space handed out starts where the previous one ended, is page-aligned when the previous
  end was, holds the requested size, and the next one starts after it.
\<close>

lemma new_space_Inr:
  assumes "new_space sz s = Inr (p, s')" and "unat sz \<le> 0x7ffff000"
  shows "p = p_space (io s)" and "p_space (io s') = p + page_round (unat sz)"
    and "p_space (io s') < IO_SPACE_MAX" and "io_space (io s') = io_space (io s)"
  using assms new_space_size [OF assms(2)]
  by (auto simp: new_space_def Let_def res_simps)

end
