(* ===== verification/Keyboard.thy ===== *)
theory Keyboard
  imports IO_Map
begin

text \<open>
  \<^verbatim>\<open>src/device/keyboard.c\<close> (the build without \<^verbatim>\<open>CONFIG_TARGET_AM\<close>): the key map from SDL scan
  codes, the ring buffer of 1024 pending keys, and the handler of the i8042 data port. The
  ring is proved to be a first-in first-out queue of at most 1023 keys.
\<close>

section \<open>Reading and writing 32-bit device registers\<close>

text \<open>\<^verbatim>\<open>base[i]\<close> for a \<^verbatim>\<open>uint32_t *base\<close> into the I/O space.\<close>

definition io_rd32 :: "nat \<Rightarrow> nat \<Rightarrow> 'v sys \<Rightarrow> u32 res" where
  "io_rd32 base i s =
     bindR (arr_load (io_space (io s)) (base + 4 * i) 4) (\<lambda>bs. Inr (le_word bs))"

definition io_wr32 :: "nat \<Rightarrow> nat \<Rightarrow> u32 \<Rightarrow> 'v sys \<Rightarrow> 'v sys res" where
  "io_wr32 base i w s =
     bindR (arr_store (io_space (io s)) (base + 4 * i) (le_bytes 4 w)) (\<lambda>a.
     Inr (s\<lparr>io := (io s)\<lparr>io_space := a\<rparr>\<rparr>))"

lemma take_bit_32 [simp]: "take_bit 32 (w :: u32) = w"
  by (rule bit_word_eqI) (auto simp: bit_simps)

lemma io_wr32E:
  assumes "io_wr32 base i w s = Inr s'"
  obtains "base + 4 * i + 4 \<le> clen (io_space (io s))"
    and "s' = s\<lparr>io := (io s)\<lparr>io_space := arr_put (io_space (io s)) (base + 4 * i) (le_bytes 4 w)\<rparr>\<rparr>"
  using assms by (auto simp: io_wr32_def arr_store_def res_simps)

lemma io_rd32_wr32_same:
  assumes "io_wr32 base i w s = Inr s'"
  shows "io_rd32 base i s' = Inr w"
  using assms arr.word_put_same [of "base + 4 * i" 4 "io_space (io s)" w]
  by (auto simp: io_rd32_def elim!: io_wr32E)

lemma io_rd32_wr32_other:
  assumes "io_wr32 base i w s = Inr s'" "i \<noteq> j"
  shows "io_rd32 base j s' = io_rd32 base j s"
proof -
  from assms(2) have "base + 4 * j + 4 \<le> base + 4 * i \<or> base + 4 * i + 4 \<le> base + 4 * j"
    by linarith
  with assms(1) show ?thesis
    by (auto simp: io_rd32_def arr.word_put_other elim!: io_wr32E)
qed

section \<open>The key map\<close>

definition NEMU_KEY_NONE :: u32 where
  "NEMU_KEY_NONE = 0"

definition NEMU_KEYS :: "string list" where
  "NEMU_KEYS =
    [''ESCAPE'', ''F1'', ''F2'', ''F3'', ''F4'', ''F5'', ''F6'', ''F7'', ''F8'', ''F9'', ''F10'',
     ''F11'', ''F12'',
     ''GRAVE'', ''1'', ''2'', ''3'', ''4'', ''5'', ''6'', ''7'', ''8'', ''9'', ''0'', ''MINUS'',
     ''EQUALS'', ''BACKSPACE'',
     ''TAB'', ''Q'', ''W'', ''E'', ''R'', ''T'', ''Y'', ''U'', ''I'', ''O'', ''P'',
     ''LEFTBRACKET'', ''RIGHTBRACKET'', ''BACKSLASH'',
     ''CAPSLOCK'', ''A'', ''S'', ''D'', ''F'', ''G'', ''H'', ''J'', ''K'', ''L'', ''SEMICOLON'',
     ''APOSTROPHE'', ''RETURN'',
     ''LSHIFT'', ''Z'', ''X'', ''C'', ''V'', ''B'', ''N'', ''M'', ''COMMA'', ''PERIOD'', ''SLASH'',
     ''RSHIFT'',
     ''LCTRL'', ''APPLICATION'', ''LALT'', ''SPACE'', ''RALT'', ''RCTRL'',
     ''UP'', ''DOWN'', ''LEFT'', ''RIGHT'', ''INSERT'', ''DELETE'', ''HOME'', ''END'', ''PAGEUP'',
     ''PAGEDOWN'']"

text \<open>
  The enumeration numbers the keys from 1 in this order. The scan codes \<^verbatim>\<open>SDL_SCANCODE_k\<close> are
  SDL's, hence the argument \<open>scancode\<close>.
\<close>

fun init_keymap_from :: "(string \<Rightarrow> u8) \<Rightarrow> u32 \<Rightarrow> string list \<Rightarrow> u32 list \<Rightarrow> u32 list" where
  "init_keymap_from scancode k [] km = km"
| "init_keymap_from scancode k (key # keys) km =
     init_keymap_from scancode (k + 1) keys (km[unat (scancode key) := k])"

definition init_keymap :: "(string \<Rightarrow> u8) \<Rightarrow> keyboard_state \<Rightarrow> keyboard_state" where
  "init_keymap scancode k = k\<lparr>keymap := init_keymap_from scancode 1 NEMU_KEYS (keymap k)\<rparr>"

section \<open>The key queue\<close>

definition KEYDOWN_MASK :: u32 where
  "KEYDOWN_MASK = 0x8000"

definition KEY_QUEUE_LEN :: nat where
  "KEY_QUEUE_LEN = 1024"

definition key_enqueue :: "u32 \<Rightarrow> keyboard_state \<Rightarrow> keyboard_state res" where
  "key_enqueue am_scancode k =
     guardR (key_r k < length (key_queue k)) Undef
      (let r = (key_r k + 1) mod KEY_QUEUE_LEN
       in guardR (r \<noteq> key_f k) AssertFail
           (Inr (k\<lparr>key_queue := (key_queue k)[key_r k := am_scancode], key_r := r\<rparr>)))"

definition key_dequeue :: "keyboard_state \<Rightarrow> u32 \<times> keyboard_state" where
  "key_dequeue k =
     (if key_f k \<noteq> key_r k
      then (key_queue k ! key_f k, k\<lparr>key_f := (key_f k + 1) mod KEY_QUEUE_LEN\<rparr>)
      else (NEMU_KEY_NONE, k))"

definition send_key :: "u8 \<Rightarrow> bool \<Rightarrow> 'v sys \<Rightarrow> 'v sys res" where
  "send_key scancode is_keydown s =
     (let k = kbd (dev s); key = keymap k ! unat scancode in
      if nstate (nemu s) = NEMU_RUNNING \<and> key \<noteq> NEMU_KEY_NONE
      then bindR (key_enqueue (key OR (if is_keydown then KEYDOWN_MASK else 0)) k) (\<lambda>k'.
           Inr (s\<lparr>dev := (dev s)\<lparr>kbd := k'\<rparr>\<rparr>))
      else Inr s)"

section \<open>The data port\<close>

definition i8042_data_io_handler :: "u32 \<Rightarrow> nat \<Rightarrow> bool \<Rightarrow> 'v sys \<Rightarrow> 'v sys res" where
  "i8042_data_io_handler offset len is_write s =
     guardR (\<not> is_write) AssertFail
      (guardR (offset = 0) AssertFail
        (let (key, k) = key_dequeue (kbd (dev s))
         in io_wr32 (i8042_data_port_base k) 0 key (s\<lparr>dev := (dev s)\<lparr>kbd := k\<rparr>\<rparr>)))"

text \<open>The port addresses are \<^verbatim>\<open>CONFIG_I8042_DATA_PORT\<close> and \<^verbatim>\<open>CONFIG_I8042_DATA_MMIO\<close>.\<close>

definition init_i8042 ::
    "config \<Rightarrow> u16 \<Rightarrow> u32 \<Rightarrow> (string \<Rightarrow> u8) \<Rightarrow> 'v sys \<Rightarrow> 'v sys res" where
  "init_i8042 c port mmio scancode s =
     bindR (new_space 4 s) (\<lambda>(p, s).
     bindR (io_wr32 p 0 NEMU_KEY_NONE
        (s\<lparr>dev := (dev s)\<lparr>kbd := (kbd (dev s))\<lparr>i8042_data_port_base := p\<rparr>\<rparr>\<rparr>)) (\<lambda>s.
     bindR (if cfg_has_port_io c
            then add_pio_map ''keyboard'' port p 4 (Some I8042Handler) s
            else add_mmio_map c ''keyboard'' mmio p 4 (Some I8042Handler) s) (\<lambda>s.
     Inr (s\<lparr>dev := (dev s)\<lparr>kbd := init_keymap scancode (kbd (dev s))\<rparr>\<rparr>))))"

section \<open>An interface: bounded first-in first-out queues\<close>

fun enq_all :: "('a \<Rightarrow> 's \<Rightarrow> 's res) \<Rightarrow> 'a list \<Rightarrow> 's \<Rightarrow> 's res" where
  "enq_all enq [] s = Inr s"
| "enq_all enq (x # xs) s = bindR (enq x s) (enq_all enq xs)"

fun deq_many :: "('s \<Rightarrow> 'a \<times> 's) \<Rightarrow> nat \<Rightarrow> 's \<Rightarrow> 'a list \<times> 's" where
  "deq_many deq 0 s = ([], s)"
| "deq_many deq (Suc n) s =
     (let (x, s1) = deq s; (xs, s2) = deq_many deq n s1 in (x # xs, s2))"

locale bounded_fifo =
  fixes enq :: "'a \<Rightarrow> 's \<Rightarrow> 's res"
    and deq :: "'s \<Rightarrow> 'a \<times> 's"
    and none :: 'a
    and contents :: "'s \<Rightarrow> 'a list"
    and inv :: "'s \<Rightarrow> bool"
    and cap :: nat
  assumes enq_ok: "inv s \<Longrightarrow> length (contents s) < cap \<Longrightarrow>
      \<exists>s'. enq x s = Inr s' \<and> inv s' \<and> contents s' = contents s @ [x]"
    and enq_full: "inv s \<Longrightarrow> cap \<le> length (contents s) \<Longrightarrow> enq x s = Inl AssertFail"
    and deq_empty: "inv s \<Longrightarrow> contents s = [] \<Longrightarrow> deq s = (none, s)"
    and deq_ok: "inv s \<Longrightarrow> contents s = x # xs \<Longrightarrow>
      \<exists>s'. deq s = (x, s') \<and> inv s' \<and> contents s' = xs"
begin

lemma enq_all_ok:
  "inv s \<Longrightarrow> length (contents s) + length xs \<le> cap \<Longrightarrow>
   \<exists>s'. enq_all enq xs s = Inr s' \<and> inv s' \<and> contents s' = contents s @ xs"
proof (induction xs arbitrary: s)
  case Nil
  then show ?case by simp
next
  case (Cons x xs)
  then obtain s1 where s1: "enq x s = Inr s1" "inv s1" "contents s1 = contents s @ [x]"
    using enq_ok [of s x] by auto
  with Cons.prems Cons.IH [of s1] show ?case by auto
qed

lemma enq_all_overflow:
  assumes "inv s" "cap < length (contents s) + length xs" "length (contents s) \<le> cap"
  shows "enq_all enq xs s = Inl AssertFail"
  using assms
proof (induction xs arbitrary: s)
  case Nil
  then show ?case by simp
next
  case (Cons x xs)
  show ?case
  proof (cases "length (contents s) < cap")
    case True
    with Cons.prems obtain s1 where "enq x s = Inr s1" "inv s1" "contents s1 = contents s @ [x]"
      using enq_ok [of s x] by auto
    with True Cons.prems Cons.IH [of s1] show ?thesis by auto
  next
    case False
    with Cons.prems enq_full [of s x] show ?thesis by simp
  qed
qed

lemma deq_many_ok:
  "inv s \<Longrightarrow> contents s = xs @ ys \<Longrightarrow>
   \<exists>s'. deq_many deq (length xs) s = (xs, s') \<and> inv s' \<and> contents s' = ys"
proof (induction xs arbitrary: s)
  case Nil
  then show ?case by simp
next
  case (Cons x xs)
  then obtain s1 where s1: "deq s = (x, s1)" "inv s1" "contents s1 = xs @ ys"
    using deq_ok [of s x "xs @ ys"] by auto
  with Cons.IH [of s1] show ?case by auto
qed

lemma fifo:
  assumes "inv s" "contents s = []" "length xs \<le> cap"
  shows "\<exists>s1 s2. enq_all enq xs s = Inr s1 \<and> deq_many deq (length xs) s1 = (xs, s2) \<and>
    contents s2 = [] \<and> deq s2 = (none, s2)"
proof -
  obtain s1 where s1: "enq_all enq xs s = Inr s1" "inv s1" "contents s1 = xs"
    using enq_all_ok [of s xs] assms by auto
  then obtain s2 where "deq_many deq (length xs) s1 = (xs, s2)" "inv s2" "contents s2 = []"
    using deq_many_ok [of s1 xs "[]"] by auto
  with s1 deq_empty [of s2] show ?thesis by blast
qed

end

section \<open>The ring buffer implements it\<close>

definition key_inv :: "keyboard_state \<Rightarrow> bool" where
  "key_inv k \<longleftrightarrow> length (key_queue k) = KEY_QUEUE_LEN \<and> key_f k < KEY_QUEUE_LEN \<and>
     key_r k < KEY_QUEUE_LEN"

definition key_count :: "keyboard_state \<Rightarrow> nat" where
  "key_count k = (key_r k + KEY_QUEUE_LEN - key_f k) mod KEY_QUEUE_LEN"

definition pending_keys :: "keyboard_state \<Rightarrow> u32 list" where
  "pending_keys k =
     map (\<lambda>i. key_queue k ! ((key_f k + i) mod KEY_QUEUE_LEN)) [0..<key_count k]"

lemma length_pending_keys [simp]: "length (pending_keys k) = key_count k"
  by (simp add: pending_keys_def)

lemma key_count_cases:
  assumes "key_inv k"
  shows "key_count k = (if key_f k \<le> key_r k then key_r k - key_f k
                        else key_r k + KEY_QUEUE_LEN - key_f k)"
proof (cases "key_f k \<le> key_r k")
  case True
  then have "key_count k = ((key_r k - key_f k) + KEY_QUEUE_LEN) mod KEY_QUEUE_LEN"
    by (simp add: key_count_def)
  also have "\<dots> = (key_r k - key_f k) mod KEY_QUEUE_LEN" by (rule mod_add_self2)
  also have "\<dots> = key_r k - key_f k" using assms by (intro mod_less) (auto simp: key_inv_def)
  finally show ?thesis using True by simp
next
  case False
  moreover have "key_f k < KEY_QUEUE_LEN" using assms by (simp add: key_inv_def)
  ultimately have "key_r k + KEY_QUEUE_LEN - key_f k < KEY_QUEUE_LEN" by linarith
  with False show ?thesis by (simp add: key_count_def)
qed

text \<open>The slot the next key goes to is never one of a pending key.\<close>

lemma ring_mod:
  "n < 2 * KEY_QUEUE_LEN \<Longrightarrow>
   n mod KEY_QUEUE_LEN = (if n < KEY_QUEUE_LEN then n else n - KEY_QUEUE_LEN)"
  by (simp add: mod_if)

lemma ring_index:
  assumes "key_inv k" "i \<le> key_count k"
  shows "(key_f k + i) mod KEY_QUEUE_LEN = key_r k \<longleftrightarrow> i = key_count k"
proof -
  have b: "key_f k < KEY_QUEUE_LEN" "key_r k < KEY_QUEUE_LEN" using assms(1) by (auto simp: key_inv_def)
  have c: "key_count k < KEY_QUEUE_LEN"
    unfolding key_count_def by (rule mod_less_divisor) (simp add: KEY_QUEUE_LEN_def)
  have "(key_f k + i) mod KEY_QUEUE_LEN =
      (if key_f k + i < KEY_QUEUE_LEN then key_f k + i else key_f k + i - KEY_QUEUE_LEN)"
    using b c assms(2) by (intro ring_mod) linarith
  with b c assms(2) key_count_cases [OF assms(1)] show ?thesis
    by (auto split: if_splits)
qed

lemma key_next:
  assumes "n < KEY_QUEUE_LEN"
  shows "(n + 1) mod KEY_QUEUE_LEN = (if n + 1 = KEY_QUEUE_LEN then 0 else n + 1)"
  using assms by (simp add: KEY_QUEUE_LEN_def)

lemma key_full:
  assumes "key_inv k"
  shows "(key_r k + 1) mod KEY_QUEUE_LEN = key_f k \<longleftrightarrow> KEY_QUEUE_LEN - 1 \<le> key_count k"
proof -
  have n: "(key_r k + 1) mod KEY_QUEUE_LEN =
      (if key_r k + 1 = KEY_QUEUE_LEN then 0 else key_r k + 1)"
    using assms key_next by (auto simp: key_inv_def)
  show ?thesis
    unfolding n key_count_cases [OF assms] using assms
    by (auto simp: key_inv_def KEY_QUEUE_LEN_def)
qed

lemma key_enqueue_ok:
  assumes "key_inv k" "key_count k < KEY_QUEUE_LEN - 1"
  shows "\<exists>k'. key_enqueue x k = Inr k' \<and> key_inv k' \<and> pending_keys k' = pending_keys k @ [x]"
proof -
  let ?r = "(key_r k + 1) mod KEY_QUEUE_LEN"
  let ?k = "k\<lparr>key_queue := (key_queue k)[key_r k := x], key_r := ?r\<rparr>"
  have e: "key_enqueue x k = Inr ?k"
    using assms key_full [OF assms(1)] by (simp add: key_enqueue_def Let_def key_inv_def)
  have i: "key_inv ?k" using assms by (simp add: key_inv_def KEY_QUEUE_LEN_def)
  have c: "key_count ?k = Suc (key_count k)"
    using assms key_next [of "key_r k"] key_count_cases [OF i] key_count_cases [OF assms(1)]
    by (auto simp: key_inv_def split: if_splits)
  have "key_queue ?k ! ((key_f k + j) mod KEY_QUEUE_LEN) =
      (if j = key_count k then x else key_queue k ! ((key_f k + j) mod KEY_QUEUE_LEN))"
    if "j \<le> key_count k" for j
    using ring_index [OF assms(1) that] assms(1) by (auto simp: key_inv_def)
  then have "pending_keys ?k = pending_keys k @ [x]"
    unfolding pending_keys_def c by (simp add: list_eq_iff_nth_eq less_Suc_eq nth_append)
  with e i show ?thesis by blast
qed

lemma key_dequeue_ok:
  assumes "key_inv k" "pending_keys k = x # xs"
  shows "\<exists>k'. key_dequeue k = (x, k') \<and> key_inv k' \<and> pending_keys k' = xs"
proof -
  let ?f = "(key_f k + 1) mod KEY_QUEUE_LEN"
  let ?k = "k\<lparr>key_f := ?f\<rparr>"
  have n: "key_count k = Suc (length xs)"
    using assms(2) length_pending_keys [of k] by simp
  have ne: "key_f k \<noteq> key_r k"
    using ring_index [OF assms(1), of 0] n assms(1) by (auto simp: key_inv_def)
  have hd: "x = key_queue k ! key_f k"
    using arg_cong [OF assms(2), of "\<lambda>l. l ! 0"] n assms(1)
    by (simp add: pending_keys_def key_inv_def del: upt_Suc)
  have i: "key_inv ?k" using assms by (simp add: key_inv_def KEY_QUEUE_LEN_def)
  have c: "key_count ?k = length xs"
    using assms n key_next [of "key_f k"] key_count_cases [OF i] key_count_cases [OF assms(1)] ne
    by (auto simp: key_inv_def split: if_splits)
  have "pending_keys ?k ! j = xs ! j" if "j < length xs" for j
  proof -
    have "pending_keys ?k ! j = key_queue k ! ((?f + j) mod KEY_QUEUE_LEN)"
      using that by (simp add: pending_keys_def c del: One_nat_def)
    also have "(?f + j) mod KEY_QUEUE_LEN = (key_f k + Suc j) mod KEY_QUEUE_LEN"
      by (simp add: mod_simps)
    also have "key_queue k ! \<dots> = pending_keys k ! Suc j"
      using that n by (simp add: pending_keys_def del: upt_Suc)
    finally show ?thesis using assms(2) by simp
  qed
  then have "pending_keys ?k = xs" by (simp add: list_eq_iff_nth_eq c [simplified])
  with ne hd i show ?thesis by (simp add: key_dequeue_def)
qed

interpretation keyq: bounded_fifo key_enqueue key_dequeue NEMU_KEY_NONE pending_keys key_inv
  "KEY_QUEUE_LEN - 1"
proof unfold_locales
  fix k x
  assume "key_inv k" "length (pending_keys k) < KEY_QUEUE_LEN - 1"
  then show "\<exists>k'. key_enqueue x k = Inr k' \<and> key_inv k' \<and> pending_keys k' = pending_keys k @ [x]"
    using key_enqueue_ok by simp
next
  fix k x
  assume "key_inv k" "KEY_QUEUE_LEN - 1 \<le> length (pending_keys k)"
  then show "key_enqueue x k = Inl AssertFail"
    using key_full [of k] by (simp add: key_enqueue_def Let_def key_inv_def)
next
  fix k
  assume "key_inv k" "pending_keys k = []"
  then have "key_f k = key_r k"
    using ring_index [of k 0] length_pending_keys [of k] by (auto simp: key_inv_def)
  then show "key_dequeue k = (NEMU_KEY_NONE, k)" by (simp add: key_dequeue_def)
next
  fix k x xs
  assume "key_inv k" "pending_keys k = x # xs"
  then show "\<exists>k'. key_dequeue k = (x, k') \<and> key_inv k' \<and> pending_keys k' = xs"
    by (rule key_dequeue_ok)
qed

end
