(* ===== verification/Sdcard.thy ===== *)
theory Sdcard
  imports Keyboard
begin

text \<open>
  \<^verbatim>\<open>src/device/sdcard.c\<close>: the command state machine of the emulated MMC card, its data port
  over a file of the host, and the geometry constants of its CSD register. The card's image is
  a byte list with the position of the stream (\<^verbatim>\<open>fp\<close>), or absent.
\<close>

section \<open>The image file\<close>

text \<open>
  \<^verbatim>\<open>fread(p, 4, 1, fp)\<close> copies the bytes that remain, four at most; \<^verbatim>\<open>fwrite\<close> overwrites at
  the position, past the end the gap reads as zeros.
\<close>

definition file_read4 :: "u8 list \<times> nat \<Rightarrow> u8 list \<times> (u8 list \<times> nat)" where
  "file_read4 f =
     (case f of (bs, pos) \<Rightarrow>
        let got = take 4 (drop pos bs) in (got, (bs, pos + length got)))"

definition file_write4 :: "u8 list \<Rightarrow> u8 list \<times> nat \<Rightarrow> u8 list \<times> nat" where
  "file_write4 ws f =
     (case f of (bs, pos) \<Rightarrow>
        (take pos bs @ replicate (pos - length bs) 0 @ ws @ drop (pos + length ws) bs,
         pos + length ws))"

section \<open>Geometry\<close>

definition SD_MEMORY_SIZE :: u64 where
  "SD_MEMORY_SIZE = 16 * 1024 * 1024 * 1024"

definition READ_BL_LEN :: nat where
  "READ_BL_LEN = 15"

definition BLOCK_LEN :: u64 where
  "BLOCK_LEN = push_bit READ_BL_LEN 1"

definition NR_BLOCK :: u64 where
  "NR_BLOCK = SD_MEMORY_SIZE div BLOCK_LEN"

definition C_SIZE_MULT :: nat where
  "C_SIZE_MULT = 7"

definition SD_MULT :: u64 where
  "SD_MULT = push_bit (C_SIZE_MULT + 2) 1"

definition C_SIZE :: u64 where
  "C_SIZE = NR_BLOCK div SD_MULT - 1"

section \<open>Registers and commands\<close>

definition SDCMD :: nat where "SDCMD = 0"
definition SDARG :: nat where "SDARG = 1"
definition SDRSP0 :: nat where "SDRSP0 = 4"
definition SDRSP1 :: nat where "SDRSP1 = 5"
definition SDRSP2 :: nat where "SDRSP2 = 6"
definition SDRSP3 :: nat where "SDRSP3 = 7"
definition SDDATA :: nat where "SDDATA = 16"

lemmas sd_regs = SDCMD_def SDARG_def SDRSP0_def SDRSP1_def SDRSP2_def SDRSP3_def SDDATA_def

definition sd_upd :: "(sdcard_state \<Rightarrow> sdcard_state) \<Rightarrow> 'v sys \<Rightarrow> 'v sys" where
  "sd_upd f s = s\<lparr>dev := (dev s)\<lparr>sdc := f (sdc (dev s))\<rparr>\<rparr>"

definition sd_reg :: "nat \<Rightarrow> 'v sys \<Rightarrow> u32 res" where
  "sd_reg i s = io_rd32 (sd_base (sdc (dev s))) i s"

definition sd_set_reg :: "nat \<Rightarrow> u32 \<Rightarrow> 'v sys \<Rightarrow> 'v sys res" where
  "sd_set_reg i w s = io_wr32 (sd_base (sdc (dev s))) i w s"

definition prepare_rw :: "bool \<Rightarrow> 'v sys \<Rightarrow> 'v sys res" where
  "prepare_rw is_write s =
     bindR (sd_reg SDARG s) (\<lambda>arg.
     Inr (sd_upd (\<lambda>d. d\<lparr>sd_blk_addr := int (unat arg), sd_addr := 0,
            sd_fp := map_option (\<lambda>(bs, _). (bs, unat arg * 2 ^ 9)) (sd_fp d),
            sd_write_cmd := is_write\<rparr>) s))"

text \<open>
  The cases of \<^verbatim>\<open>sdcard_handle_cmd\<close> in the source's order; the numbers are the macros of
  \<^verbatim>\<open>mmc.h\<close> (0 GO\_IDLE\_STATE, 1 SEND\_OP\_COND, 2 ALL\_SEND\_CID, 9 SEND\_CSD, 8 SEND\_EXT\_CSD,
  5 SLEEP\_AWAKE, 55 APP\_CMD, 3 SET\_RELATIVE\_ADDR, 7 SELECT\_CARD, 23 SET\_BLOCK\_COUNT,
  18 READ\_MULTIPLE\_BLOCK, 25 WRITE\_MULTIPLE\_BLOCK, 13 SEND\_STATUS, 12 STOP\_TRANSMISSION).
\<close>

definition sdcard_handle_cmd :: "u32 \<Rightarrow> 'v sys \<Rightarrow> 'v sys res" where
  "sdcard_handle_cmd cmd s =
     (if cmd = 0 then Inr s
      else if cmd = 1 then sd_set_reg SDRSP0 0x80ff8000 s
      else if cmd = 2 then
        bindR (sd_set_reg SDRSP0 0x00000001 s) (\<lambda>s.
        bindR (sd_set_reg SDRSP1 0x00000000 s) (\<lambda>s.
        bindR (sd_set_reg SDRSP2 0x00000000 s) (\<lambda>s.
        sd_set_reg SDRSP3 0x15000000 s)))
      else if cmd = 52 then Inr s
      else if cmd = 9 then
        bindR (sd_set_reg SDRSP0 0x92404001 s) (\<lambda>s.
        bindR (sd_set_reg SDRSP1 (ucast (0x124b97e3 OR push_bit 30 (C_SIZE AND 0x3))) s) (\<lambda>s.
        bindR (sd_set_reg SDRSP2
          (ucast (0x0f508000 OR drop_bit 2 C_SIZE OR push_bit 16 (of_nat READ_BL_LEN :: u64))) s) (\<lambda>s.
        sd_set_reg SDRSP3 0x9026012a s)))
      else if cmd = 8 then Inr (sd_upd (\<lambda>d. d\<lparr>sd_read_ext_csd := True, sd_addr := 0\<rparr>) s)
      else if cmd = 5 then Inr s
      else if cmd = 55 then Inr s
      else if cmd = 3 then Inr s
      else if cmd = 7 then Inr s
      else if cmd = 23 then
        bindR (sd_reg SDARG s) (\<lambda>arg. Inr (sd_upd (\<lambda>d. d\<lparr>sd_blkcnt := arg AND 0xffff\<rparr>) s))
      else if cmd = 18 then prepare_rw False s
      else if cmd = 25 then prepare_rw True s
      else if cmd = 13 then
        bindR (sd_set_reg SDRSP0 0x900 s) (\<lambda>s.
        bindR (sd_set_reg SDRSP3 0 s) (\<lambda>s.
        bindR (sd_set_reg SDRSP2 0 s) (\<lambda>s.
        sd_set_reg SDRSP1 0 s)))
      else if cmd = 12 then Inr s
      else Inl Panic)"

text \<open>The data port: the extended CSD, or four bytes of the image.\<close>

definition sd_ext_csd_data :: "u32 \<Rightarrow> u32" where
  "sd_ext_csd_data a =
     (if a = 192 then 2 else if a = 212 then ucast (SD_MEMORY_SIZE div 512) else 0)"

definition sd_data_port :: "'v sys \<Rightarrow> 'v sys res" where
  "sd_data_port s =
     (let d = sdc (dev s) in
      if sd_read_ext_csd d
      then bindR (sd_set_reg SDDATA (sd_ext_csd_data (sd_addr d)) s) (\<lambda>s.
           Inr (if sd_addr d = 512 - 4 then sd_upd (\<lambda>d. d\<lparr>sd_read_ext_csd := False\<rparr>) s else s))
      else case sd_fp d of
          None \<Rightarrow> Inr s
        | Some f \<Rightarrow>
            if \<not> sd_write_cmd d
            then let (got, f') = file_read4 f in
                 bindR (arr_store (io_space (io s)) (sd_base d + 4 * SDDATA) got) (\<lambda>a.
                 Inr (sd_upd (\<lambda>d. d\<lparr>sd_fp := Some f'\<rparr>) (s\<lparr>io := (io s)\<lparr>io_space := a\<rparr>\<rparr>)))
            else bindR (arr_load (io_space (io s)) (sd_base d + 4 * SDDATA) 4) (\<lambda>ws.
                 Inr (sd_upd (\<lambda>d. d\<lparr>sd_fp := Some (file_write4 ws f)\<rparr>) s)))"

definition sdcard_io_handler :: "u32 \<Rightarrow> nat \<Rightarrow> bool \<Rightarrow> 'v sys \<Rightarrow> 'v sys res" where
  "sdcard_io_handler offset len is_write s =
     (let idx = unat offset div 4 in
      if idx = SDCMD then bindR (sd_reg SDCMD s) (\<lambda>w. sdcard_handle_cmd (w AND 0x3f) s)
      else if idx \<in> {SDARG, SDRSP0, SDRSP1, SDRSP2, SDRSP3} then Inr s
      else if idx = SDDATA then
        bindR (sd_data_port s) (\<lambda>s. Inr (sd_upd (\<lambda>d. d\<lparr>sd_addr := sd_addr d + 4\<rparr>) s))
      else Inl Panic)"

text \<open>\<^verbatim>\<open>img\<close> is what \<^verbatim>\<open>fopen(CONFIG_SDCARD_IMG_PATH, "r+")\<close> finds.\<close>

definition init_sdcard :: "config \<Rightarrow> u32 \<Rightarrow> u8 list option \<Rightarrow> 'v sys \<Rightarrow> 'v sys res" where
  "init_sdcard c mmio img s =
     bindR (new_space 0x80 s) (\<lambda>(p, s).
     bindR (add_mmio_map c ''sdhci'' mmio p 0x80 (Some SdcardHandler)
        (sd_upd (\<lambda>d. d\<lparr>sd_base := p\<rparr>) s)) (\<lambda>s.
     guardR (C_SIZE < push_bit 12 1) AssertFail
      (Inr (sd_upd (\<lambda>d. d\<lparr>sd_fp := map_option (\<lambda>bs. (bs, 0)) img\<rparr>) s))))"

section \<open>The card's size\<close>

lemma C_SIZE_value: "C_SIZE = 1023"
  by (simp add: C_SIZE_def NR_BLOCK_def SD_MEMORY_SIZE_def BLOCK_LEN_def SD_MULT_def READ_BL_LEN_def
      C_SIZE_MULT_def)

text \<open>
  The size a driver computes from the CSD, \<open>(C_SIZE + 1) * MULT * BLOCK_LEN\<close>, is the 16 GB of the
  emulated card.
\<close>

lemma csd_size: "(C_SIZE + 1) * SD_MULT * BLOCK_LEN = SD_MEMORY_SIZE"
  by (simp add: C_SIZE_value SD_MULT_def BLOCK_LEN_def SD_MEMORY_SIZE_def READ_BL_LEN_def
      C_SIZE_MULT_def)

section \<open>Sequential transfer\<close>

lemma file_write4_read4:
  assumes "length ws = 4" "pos \<le> length bs"
  shows "file_read4 (fst (file_write4 ws (bs, pos)), pos) =
    (ws, (fst (file_write4 ws (bs, pos)), pos + 4))"
  using assms by (simp add: file_write4_def file_read4_def)

lemma sd_upd_simps [simp]:
  "io (sd_upd f s) = io s" "sdc (dev (sd_upd f s)) = f (sdc (dev s))"
  "flash (sd_upd f s) = flash s" "sram (sd_upd f s) = sram s" "nemu (sd_upd f s) = nemu s"
  by (simp_all add: sd_upd_def)

end
