(* ===== verification/Devices.thy ===== *)
theory Devices
  imports Sdcard
begin

text \<open>
  The remaining devices under \<^verbatim>\<open>src/device\<close> (\<^verbatim>\<open>serial.c\<close>, \<^verbatim>\<open>timer.c\<close>, \<^verbatim>\<open>vga.c\<close>, \<^verbatim>\<open>audio.c\<close>,
  \<^verbatim>\<open>alarm.c\<close>, \<^verbatim>\<open>intr.c\<close>, \<^verbatim>\<open>disk.c\<close>) and \<^verbatim>\<open>device.c\<close>, which initialises them and polls for
  events, in the build without \<^verbatim>\<open>CONFIG_TARGET_AM\<close> and with \<^verbatim>\<open>CONFIG_VGA_SHOW_SCREEN\<close>. What goes
  to the host (bytes to the terminal, frames to SDL) is appended to a list of the state; what
  comes from it (events, results of system calls) is an argument.
\<close>

section \<open>Device configuration\<close>

text \<open>The addresses Kconfig gives each device; \<open>dc_vga_800\<close> is \<^verbatim>\<open>CONFIG_VGA_SIZE_800x600\<close>.\<close>

record device_config =
  dc_has_serial :: bool
  dc_serial_port :: u16
  dc_serial_mmio :: u32
  dc_has_timer :: bool
  dc_rtc_port :: u16
  dc_rtc_mmio :: u32
  dc_has_keyboard :: bool
  dc_i8042_port :: u16
  dc_i8042_mmio :: u32
  dc_has_vga :: bool
  dc_fb_addr :: u32
  dc_vga_port :: u16
  dc_vga_mmio :: u32
  dc_vga_800 :: bool
  dc_has_audio :: bool
  dc_audio_port :: u16
  dc_audio_mmio :: u32
  dc_sb_addr :: u32
  dc_sb_size :: u32
  dc_has_disk :: bool
  dc_has_sdcard :: bool
  dc_sdcard_mmio :: u32

text \<open>The defaults of \<^verbatim>\<open>src/device/Kconfig\<close>.\<close>

definition default_devices :: device_config where
  "default_devices =
     \<lparr>dc_has_serial = True, dc_serial_port = 0x3f8, dc_serial_mmio = 0xa00003f8,
      dc_has_timer = True, dc_rtc_port = 0x48, dc_rtc_mmio = 0xa0000048,
      dc_has_keyboard = True, dc_i8042_port = 0x60, dc_i8042_mmio = 0xa0000060,
      dc_has_vga = True, dc_fb_addr = 0xa1000000, dc_vga_port = 0x100, dc_vga_mmio = 0xa0000100,
      dc_vga_800 = False,
      dc_has_audio = True, dc_audio_port = 0x200, dc_audio_mmio = 0xa0000200,
      dc_sb_addr = 0xa1200000, dc_sb_size = 0x10000,
      dc_has_disk = True, dc_has_sdcard = False, dc_sdcard_mmio = 0xa3000000\<rparr>"

text \<open>The choice between a port and a memory-mapped region every \<^verbatim>\<open>init\_*\<close> makes.\<close>

definition register_device ::
    "config \<Rightarrow> string \<Rightarrow> u16 \<Rightarrow> u32 \<Rightarrow> nat \<Rightarrow> u32 \<Rightarrow> io_callback option \<Rightarrow> 'v sys \<Rightarrow> 'v sys res" where
  "register_device c nm port mmio sp n cb s =
     (if cfg_has_port_io c then add_pio_map nm port sp n cb s
      else add_mmio_map c nm mmio sp n cb s)"

definition upd_dev :: "(device_state \<Rightarrow> device_state) \<Rightarrow> 'v sys \<Rightarrow> 'v sys" where
  "upd_dev f s = s\<lparr>dev := f (dev s)\<rparr>"

lemma upd_dev_simps [simp]:
  "dev (upd_dev f s) = f (dev s)" "io (upd_dev f s) = io s" "nemu (upd_dev f s) = nemu s"
  "flash (upd_dev f s) = flash s" "sram (upd_dev f s) = sram s" "clock (upd_dev f s) = clock s"
  "clock_reads (upd_dev f s) = clock_reads s" "boot_time (upd_dev f s) = boot_time s"
  by (simp_all add: upd_dev_def)

section \<open>Serial port\<close>

definition serial_putc :: "u8 \<Rightarrow> 'v sys \<Rightarrow> 'v sys" where
  "serial_putc ch = upd_dev (\<lambda>d. d\<lparr>serial_out := serial_out d @ [ch]\<rparr>)"

definition serial_io_handler :: "u32 \<Rightarrow> nat \<Rightarrow> bool \<Rightarrow> 'v sys \<Rightarrow> 'v sys res" where
  "serial_io_handler offset len is_write s =
     guardR (len = 1) AssertFail
      (if offset = 0
       then if is_write
            then bindR (arr_load (io_space (io s)) (serial_base (dev s)) 1) (\<lambda>bs.
                 Inr (serial_putc (hd bs) s))
            else Inl Panic
       else Inl Panic)"

definition init_serial :: "config \<Rightarrow> device_config \<Rightarrow> 'v sys \<Rightarrow> 'v sys res" where
  "init_serial c d s =
     bindR (new_space 8 s) (\<lambda>(p, s).
     register_device c ''serial'' (dc_serial_port d) (dc_serial_mmio d) p 8 (Some SerialHandler)
       (upd_dev (\<lambda>v. v\<lparr>serial_base := p\<rparr>) s))"

section \<open>Alarm and timer interrupt\<close>

definition MAX_HANDLER :: nat where
  "MAX_HANDLER = 8"

text \<open>A handler is named by the function it points to; \<^verbatim>\<open>idx\<close> is the length of the list.\<close>

definition add_alarm_handle :: "string \<Rightarrow> 'v sys \<Rightarrow> 'v sys res" where
  "add_alarm_handle h s =
     guardR (length (alarm_handlers (dev s)) < MAX_HANDLER) AssertFail
      (Inr (upd_dev (\<lambda>d. d\<lparr>alarm_handlers := alarm_handlers d @ [h]\<rparr>) s))"

fun alarm_sig_loop :: "(string \<Rightarrow> 'v sys \<Rightarrow> 'v sys) \<Rightarrow> string list \<Rightarrow> 'v sys \<Rightarrow> 'v sys" where
  "alarm_sig_loop call [] s = s"
| "alarm_sig_loop call (h # hs) s = alarm_sig_loop call hs (call h s)"

definition alarm_sig_handler :: "(string \<Rightarrow> 'v sys \<Rightarrow> 'v sys) \<Rightarrow> 'v sys \<Rightarrow> 'v sys" where
  "alarm_sig_handler call s = alarm_sig_loop call (alarm_handlers (dev s)) s"

text \<open>\<^verbatim>\<open>dev_raise_intr\<close> has an empty body.\<close>

definition dev_raise_intr :: "'v sys \<Rightarrow> 'v sys" where
  "dev_raise_intr s = s"

definition timer_intr :: "'v sys \<Rightarrow> 'v sys" where
  "timer_intr s = (if nstate (nemu s) = NEMU_RUNNING then dev_raise_intr s else s)"

text \<open>The results of \<^verbatim>\<open>sigaction\<close> and \<^verbatim>\<open>setitimer\<close> are arguments.\<close>

definition init_alarm :: "int \<Rightarrow> int \<Rightarrow> 'v sys \<Rightarrow> 'v sys res" where
  "init_alarm sigaction_ret setitimer_ret s =
     guardR (sigaction_ret = 0) AssertFail (guardR (setitimer_ret = 0) AssertFail (Inr s))"

section \<open>Real-time clock\<close>

definition rtc_io_handler :: "u32 \<Rightarrow> nat \<Rightarrow> bool \<Rightarrow> 'v sys \<Rightarrow> 'v sys res" where
  "rtc_io_handler offset len is_write s =
     guardR (offset = 0 \<or> offset = 4) AssertFail
      (if \<not> is_write \<and> offset = 4
       then let (us, s) = get_time s in
            bindR (io_wr32 (rtc_port_base (dev s)) 0 (ucast us) s) (\<lambda>s.
            io_wr32 (rtc_port_base (dev s)) 1 (ucast (drop_bit 32 us)) s)
       else Inr s)"

definition init_timer :: "config \<Rightarrow> device_config \<Rightarrow> 'v sys \<Rightarrow> 'v sys res" where
  "init_timer c d s =
     bindR (new_space 8 s) (\<lambda>(p, s).
     bindR (register_device c ''rtc'' (dc_rtc_port d) (dc_rtc_mmio d) p 8 (Some RtcHandler)
       (upd_dev (\<lambda>v. v\<lparr>rtc_port_base := p\<rparr>) s))
     (add_alarm_handle ''timer_intr''))"

section \<open>Screen\<close>

definition screen_width :: "device_config \<Rightarrow> u32" where
  "screen_width d = (if dc_vga_800 d then 800 else 400)"

definition screen_height :: "device_config \<Rightarrow> u32" where
  "screen_height d = (if dc_vga_800 d then 600 else 300)"

definition screen_size :: "device_config \<Rightarrow> u32" where
  "screen_size d = screen_width d * screen_height d * 4"

text \<open>\<^verbatim>\<open>update_screen\<close> hands the frame buffer to SDL: the frame is appended to the output.\<close>

definition update_screen :: "device_config \<Rightarrow> 'v sys \<Rightarrow> 'v sys res" where
  "update_screen d s =
     bindR (arr_load (io_space (io s)) (vmem (dev s)) (unat (screen_size d))) (\<lambda>frame.
     Inr (upd_dev (\<lambda>v. v\<lparr>screen_updates := screen_updates v @ [frame]\<rparr>) s))"

definition vga_update_screen :: "device_config \<Rightarrow> 'v sys \<Rightarrow> 'v sys res" where
  "vga_update_screen d s =
     bindR (io_rd32 (vgactl_port_base (dev s)) 1 s) (\<lambda>sync.
     if sync \<noteq> 0
     then bindR (update_screen d s) (\<lambda>s. io_wr32 (vgactl_port_base (dev s)) 1 0 s)
     else Inr s)"

definition init_vga :: "config \<Rightarrow> device_config \<Rightarrow> 'v sys \<Rightarrow> 'v sys res" where
  "init_vga c d s =
     bindR (new_space 8 s) (\<lambda>(p, s).
     bindR (io_wr32 p 0 (push_bit 16 (screen_width d) OR screen_height d)
        (upd_dev (\<lambda>v. v\<lparr>vgactl_port_base := p\<rparr>) s)) (\<lambda>s.
     bindR (register_device c ''vgactl'' (dc_vga_port d) (dc_vga_mmio d) p 8 None s) (\<lambda>s.
     bindR (new_space (screen_size d) s) (\<lambda>(q, s).
     bindR (add_mmio_map c ''vmem'' (dc_fb_addr d) q (screen_size d) None
        (upd_dev (\<lambda>v. v\<lparr>vmem := q\<rparr>) s)) (\<lambda>s.
     bindR (arr_store (io_space (io s)) q (replicate (unat (screen_size d)) 0)) (\<lambda>a.
     Inr (s\<lparr>io := (io s)\<lparr>io_space := a\<rparr>\<rparr>)))))))"

section \<open>Audio and disk\<close>

definition nr_audio_reg :: u32 where
  "nr_audio_reg = 6"

definition audio_io_handler :: "u32 \<Rightarrow> nat \<Rightarrow> bool \<Rightarrow> 'v sys \<Rightarrow> 'v sys res" where
  "audio_io_handler offset len is_write s = Inr s"

definition init_audio :: "config \<Rightarrow> device_config \<Rightarrow> 'v sys \<Rightarrow> 'v sys res" where
  "init_audio c d s =
     (let space_size = 4 * nr_audio_reg in
      bindR (new_space space_size s) (\<lambda>(p, s).
      bindR (register_device c ''audio'' (dc_audio_port d) (dc_audio_mmio d) p space_size
         (Some AudioHandler) (upd_dev (\<lambda>v. v\<lparr>audio_base := p\<rparr>) s)) (\<lambda>s.
      bindR (new_space (dc_sb_size d) s) (\<lambda>(q, s).
      add_mmio_map c ''audio-sbuf'' (dc_sb_addr d) q (dc_sb_size d) None
         (upd_dev (\<lambda>v. v\<lparr>sbuf := q\<rparr>) s)))))"

definition init_disk :: "'v sys \<Rightarrow> 'v sys res" where
  "init_disk s = Inr s"

section \<open>Dispatch of the handlers\<close>

fun device_callback :: "'v callback_fn" where
  "device_callback SerialHandler = serial_io_handler"
| "device_callback RtcHandler = rtc_io_handler"
| "device_callback I8042Handler = i8042_data_io_handler"
| "device_callback AudioHandler = audio_io_handler"
| "device_callback SdcardHandler = sdcard_io_handler"

section \<open>device.c\<close>

datatype sdl_event = SDL_QUIT | SDL_KEYDOWN u8 | SDL_KEYUP u8 | SDL_OTHER

definition TIMER_HZ :: nat where
  "TIMER_HZ = 60"

text \<open>One pass of the event loop; the events are those \<^verbatim>\<open>SDL_PollEvent\<close> delivers.\<close>

definition handle_event :: "device_config \<Rightarrow> sdl_event \<Rightarrow> 'v sys \<Rightarrow> 'v sys res" where
  "handle_event d e s =
     (case e of
        SDL_QUIT \<Rightarrow> Inr (s\<lparr>nemu := (nemu s)\<lparr>nstate := NEMU_QUIT\<rparr>\<rparr>)
      | SDL_KEYDOWN k \<Rightarrow> if dc_has_keyboard d then send_key k True s else Inr s
      | SDL_KEYUP k \<Rightarrow> if dc_has_keyboard d then send_key k False s else Inr s
      | SDL_OTHER \<Rightarrow> Inr s)"

fun handle_events :: "device_config \<Rightarrow> sdl_event list \<Rightarrow> 'v sys \<Rightarrow> 'v sys res" where
  "handle_events d [] s = Inr s"
| "handle_events d (e # es) s = bindR (handle_event d e s) (handle_events d es)"

definition device_update :: "device_config \<Rightarrow> sdl_event list \<Rightarrow> 'v sys \<Rightarrow> 'v sys res" where
  "device_update d events s =
     (let (now, s) = get_time s in
      if now - last_update (dev s) < of_nat (1000000 div TIMER_HZ) then Inr s
      else let s = upd_dev (\<lambda>v. v\<lparr>last_update := now\<rparr>) s in
        bindR (if dc_has_vga d then vga_update_screen d s else Inr s)
          (handle_events d events))"

text \<open>The inputs are the memory \<^verbatim>\<open>malloc\<close> gave, SDL's scan codes, the card image and the results
  of the two system calls of \<^verbatim>\<open>init_alarm\<close>.\<close>

definition init_device ::
    "config \<Rightarrow> device_config \<Rightarrow> (nat \<Rightarrow> u8) option \<Rightarrow> (string \<Rightarrow> u8) \<Rightarrow> u8 list option \<Rightarrow>
     int \<Rightarrow> int \<Rightarrow> 'v sys \<Rightarrow> 'v sys res" where
  "init_device c d m scancode img r1 r2 s =
     bindR (init_map m s) (\<lambda>s.
     bindR (if dc_has_serial d then init_serial c d s else Inr s) (\<lambda>s.
     bindR (if dc_has_timer d then init_timer c d s else Inr s) (\<lambda>s.
     bindR (if dc_has_vga d then init_vga c d s else Inr s) (\<lambda>s.
     bindR (if dc_has_keyboard d then init_i8042 c (dc_i8042_port d) (dc_i8042_mmio d) scancode s
            else Inr s) (\<lambda>s.
     bindR (if dc_has_audio d then init_audio c d s else Inr s) (\<lambda>s.
     bindR (if dc_has_disk d then init_disk s else Inr s) (\<lambda>s.
     bindR (if dc_has_sdcard d then init_sdcard c (dc_sdcard_mmio d) img s else Inr s) (\<lambda>s.
     init_alarm r1 r2 s))))))))"

section \<open>Initialisation registers disjoint regions\<close>

lemma mmio_wf_frame [simp]:
  "mmio_wf (upd_dev f s) = mmio_wf s"
  "mmio_wf (sd_upd g s) = mmio_wf s"
  "mmio_wf (s\<lparr>io := (io s)\<lparr>io_space := a\<rparr>\<rparr>) = mmio_wf s"
  "mmio_wf (s\<lparr>io := (io s)\<lparr>p_space := p\<rparr>\<rparr>) = mmio_wf s"
  "mmio_wf (s\<lparr>io := (io s)\<lparr>io_space := a, p_space := p\<rparr>\<rparr>) = mmio_wf s"
  "mmio_wf (s\<lparr>io := (io s)\<lparr>pio_maps := q\<rparr>\<rparr>) = mmio_wf s"
  "mmio_wf (s\<lparr>dev := e\<rparr>) = mmio_wf s"
  by (simp_all add: mmio_wf_def)

lemma new_space_wf: "new_space n s = Inr (p, s') \<Longrightarrow> mmio_wf s \<Longrightarrow> mmio_wf s'"
  by (auto simp: new_space_def Let_def res_simps)

lemma io_wr32_wf: "io_wr32 b i w s = Inr s' \<Longrightarrow> mmio_wf s \<Longrightarrow> mmio_wf s'"
  by (auto elim!: io_wr32E)

lemma add_pio_map_wf: "add_pio_map nm a sp n cb s = Inr s' \<Longrightarrow> mmio_wf s \<Longrightarrow> mmio_wf s'"
  by (auto simp: add_pio_map_def Let_def res_simps)

lemma register_device_wf:
  "register_device c nm pt mm sp n cb s = Inr s' \<Longrightarrow> mmio_wf s \<Longrightarrow> mmio_wf s'"
  by (auto simp: register_device_def split: if_splits dest: add_mmio_map_wf add_pio_map_wf)

lemma init_map_wf: "init_map m s = Inr s' \<Longrightarrow> mmio_wf s \<Longrightarrow> mmio_wf s'"
  by (auto simp: init_map_def split: option.splits)

lemmas init_wf = new_space_wf io_wr32_wf add_pio_map_wf add_mmio_map_wf register_device_wf

lemma init_serial_wf: "init_serial c d s = Inr s' \<Longrightarrow> mmio_wf s \<Longrightarrow> mmio_wf s'"
  by (auto simp: init_serial_def res_simps dest!: init_wf)

lemma init_timer_wf: "init_timer c d s = Inr s' \<Longrightarrow> mmio_wf s \<Longrightarrow> mmio_wf s'"
  by (auto simp: init_timer_def add_alarm_handle_def res_simps dest!: init_wf)

lemma init_audio_wf: "init_audio c d s = Inr s' \<Longrightarrow> mmio_wf s \<Longrightarrow> mmio_wf s'"
  by (auto simp: init_audio_def Let_def res_simps dest!: init_wf)

lemma init_i8042_wf: "init_i8042 c pt mm sc s = Inr s' \<Longrightarrow> mmio_wf s \<Longrightarrow> mmio_wf s'"
  by (auto simp: init_i8042_def res_simps split: if_splits dest!: init_wf)

lemma init_sdcard_wf: "init_sdcard c mm img s = Inr s' \<Longrightarrow> mmio_wf s \<Longrightarrow> mmio_wf s'"
  by (auto simp: init_sdcard_def res_simps dest!: init_wf)

lemma init_vga_wf: "init_vga c d s = Inr s' \<Longrightarrow> mmio_wf s \<Longrightarrow> mmio_wf s'"
  by (auto simp: init_vga_def res_simps dest!: init_wf)

lemma step_wf:
  assumes "(if b then f s else Inr s) = Inr s'" "mmio_wf s" "\<And>s'. f s = Inr s' \<Longrightarrow> mmio_wf s'"
  shows "mmio_wf s'"
  using assms by (auto split: if_splits)

lemma init_device_wf:
  assumes "init_device c d m sc img r1 r2 s = Inr s'" "mmio_wf s"
  shows "mmio_wf s'"
  using assms(1) unfolding init_device_def
proof (elim bindR_InrE, goal_cases)
  case (1 s1 s2 s3 s4 s5 s6 s7 s8)
  have "mmio_wf s1" using 1 assms(2) init_map_wf by blast
  then have "mmio_wf s2" using 1 init_serial_wf by (blast intro: step_wf)
  then have "mmio_wf s3" using 1 init_timer_wf by (blast intro: step_wf)
  then have "mmio_wf s4" using 1 init_vga_wf by (blast intro: step_wf)
  then have "mmio_wf s5" using 1 init_i8042_wf by (blast intro: step_wf)
  then have "mmio_wf s6" using 1 init_audio_wf by (blast intro: step_wf)
  then have "mmio_wf s7" using 1 by (auto simp: init_disk_def split: if_splits)
  then have "mmio_wf s8" using 1 init_sdcard_wf by (blast intro: step_wf)
  then show ?case using 1 by (auto simp: init_alarm_def res_simps)
qed

section \<open>Behaviour of the handlers\<close>

lemma serial_write:
  assumes "serial_base (dev s) + 1 \<le> clen (io_space (io s))"
  shows "serial_io_handler 0 1 True s =
    Inr (serial_putc (cget (io_space (io s)) (serial_base (dev s))) s)"
  using assms by (simp add: serial_io_handler_def arr_load_def)

text \<open>Reading the upper half latches both halves of one time stamp.\<close>

lemma io_wr32_ok:
  "base + 4 * i + 4 \<le> clen (io_space (io s)) \<Longrightarrow>
   \<exists>s'. io_wr32 base i w s = Inr s' \<and> dev s' = dev s \<and> clen (io_space (io s')) = clen (io_space (io s))"
  by (simp add: io_wr32_def arr_store_ok)

lemma rtc_latch:
  assumes "rtc_port_base (dev s) + 8 \<le> clen (io_space (io s))" "boot_time s \<noteq> 0"
    and "us = clock s (clock_reads s) - boot_time s"
  shows "\<exists>s'. rtc_io_handler 4 n False s = Inr s' \<and>
    io_rd32 (rtc_port_base (dev s')) 0 s' = Inr (ucast us) \<and>
    io_rd32 (rtc_port_base (dev s')) 1 s' = Inr (ucast (drop_bit 32 us))"
proof -
  let ?s = "s\<lparr>clock_reads := Suc (clock_reads s)\<rparr>"
  let ?b = "rtc_port_base (dev s)"
  obtain s1 where s1: "io_wr32 ?b 0 (ucast us) ?s = Inr s1" "dev s1 = dev s"
      "clen (io_space (io s1)) = clen (io_space (io s))"
    using io_wr32_ok [of ?b 0 ?s "ucast us"] assms(1) by auto
  obtain s2 where s2: "io_wr32 ?b 1 (ucast (drop_bit 32 us)) s1 = Inr s2" "dev s2 = dev s1"
    using io_wr32_ok [of ?b 1 s1 "ucast (drop_bit 32 us)"] assms(1) s1(3) by auto
  have "rtc_io_handler 4 n False s = Inr s2"
    using s1 s2 assms(2,3) by (simp add: rtc_io_handler_def get_time_booted)
  moreover have "io_rd32 ?b 0 s2 = Inr (ucast us)"
    using io_rd32_wr32_other [OF s2(1), of 0] io_rd32_wr32_same [OF s1(1)] by simp
  ultimately show ?thesis
    using io_rd32_wr32_same [OF s2(1)] s1(2) s2(2) by auto
qed

lemma vga_update_screen_sync:
  assumes "vga_update_screen d s = Inr s'" "io_rd32 (vgactl_port_base (dev s)) 1 s = Inr sync"
  shows "if sync = 0 then s' = s
    else (\<exists>frame. screen_updates (dev s') = screen_updates (dev s) @ [frame] \<and>
          arr_load (io_space (io s)) (vmem (dev s)) (unat (screen_size d)) = Inr frame) \<and>
         io_rd32 (vgactl_port_base (dev s')) 1 s' = Inr 0"
proof (cases "sync = 0")
  case True
  with assms show ?thesis by (simp add: vga_update_screen_def)
next
  case False
  with assms obtain s1 where s1: "update_screen d s = Inr s1"
      "io_wr32 (vgactl_port_base (dev s1)) 1 0 s1 = Inr s'"
    by (auto simp: vga_update_screen_def elim!: resE)
  moreover from s1(2) have "dev s' = dev s1" by (auto elim!: io_wr32E)
  ultimately show ?thesis
    using False io_rd32_wr32_same [OF s1(2)]
    by (auto simp: update_screen_def res_simps)
qed

end
