(* ===== verification/Bus.thy ===== *)
theory Bus
  imports Devices
begin

text \<open>
  The memory bus of the guest: \<^verbatim>\<open>paddr_read\<close>/\<^verbatim>\<open>paddr_write\<close> (\<^verbatim>\<open>src/memory/paddr.c\<close>), the
  identity translation of \<^verbatim>\<open>src/memory/vaddr.c\<close>, \<^verbatim>\<open>inst_fetch\<close> (\<^verbatim>\<open>include/cpu/ifetch.h\<close>) and
  \<^verbatim>\<open>invalid_inst\<close> (\<^verbatim>\<open>src/engine/interpreter/hostcall.c\<close>). The handlers are those of \<open>Devices\<close>.
  The messages of \<^verbatim>\<open>CONFIG_MTRACE\<close> and of \<^verbatim>\<open>invalid_inst\<close> are not modelled, its two fetches are.
\<close>

section \<open>Physical addresses\<close>

definition paddr_read :: "config \<Rightarrow> u32 \<Rightarrow> nat \<Rightarrow> 'v sys \<Rightarrow> ('w::len word \<times> 'v sys) res" where
  "paddr_read c addr len s =
     bindR (in_pmem c addr) (\<lambda>inside.
     if inside then bindR (pmem_read c addr len s) (\<lambda>w. Inr (w, s))
     else if cfg_device c then mmio_read c device_callback addr len s
     else out_of_bound addr)"

definition paddr_write :: "config \<Rightarrow> u32 \<Rightarrow> nat \<Rightarrow> 'w::len word \<Rightarrow> 'v sys \<Rightarrow> 'v sys res" where
  "paddr_write c addr len data s =
     bindR (in_pmem c addr) (\<lambda>inside.
     if inside then pmem_write c addr len data s
     else if cfg_device c then mmio_write c device_callback addr len data s
     else out_of_bound addr)"

section \<open>Virtual addresses and instruction fetch\<close>

text \<open>A \<^verbatim>\<open>vaddr_t\<close> of 64 bits is converted to the 32-bit \<^verbatim>\<open>paddr_t\<close>.\<close>

definition vaddr_ifetch :: "config \<Rightarrow> 'a::len word \<Rightarrow> nat \<Rightarrow> 'v sys \<Rightarrow> ('w::len word \<times> 'v sys) res" where
  "vaddr_ifetch c addr len s = paddr_read c (ucast addr) len s"

definition vaddr_read :: "config \<Rightarrow> 'a::len word \<Rightarrow> nat \<Rightarrow> 'v sys \<Rightarrow> ('w::len word \<times> 'v sys) res" where
  "vaddr_read c addr len s = paddr_read c (ucast addr) len s"

definition vaddr_write :: "config \<Rightarrow> 'a::len word \<Rightarrow> nat \<Rightarrow> 'w::len word \<Rightarrow> 'v sys \<Rightarrow> 'v sys res" where
  "vaddr_write c addr len data s = paddr_write c (ucast addr) len data s"

text \<open>The result is the 32-bit instruction, the advanced counter and the state.\<close>

definition inst_fetch :: "config \<Rightarrow> 'a::len word \<Rightarrow> nat \<Rightarrow> 'v sys \<Rightarrow> (u32 \<times> 'a word \<times> 'v sys) res" where
  "inst_fetch c pc len s =
     bindR (vaddr_ifetch c pc len s) (\<lambda>(w :: 'a word, s). Inr (ucast w, pc + of_nat len, s))"

definition invalid_inst :: "config \<Rightarrow> 'a::len word \<Rightarrow> 'a word sys \<Rightarrow> 'a word sys res" where
  "invalid_inst c thispc s =
     bindR (inst_fetch c thispc 4 s) (\<lambda>(_, pc, s).
     bindR (inst_fetch c pc 4 s) (\<lambda>(_, _, s).
     Inr (set_nemu_state c NEMU_ABORT thispc (-1) s)))"

definition NEMUTRAP :: "config \<Rightarrow> 'a word \<Rightarrow> u32 \<Rightarrow> 'a word sys \<Rightarrow> 'a word sys" where
  "NEMUTRAP c thispc code s = set_nemu_state c NEMU_END thispc code s"

section \<open>Addresses in memory\<close>

definition in_ram :: "config \<Rightarrow> u32 \<Rightarrow> bool" where
  "in_ram c addr \<longleftrightarrow> in_pmem c addr = Inr True"

text \<open>
  The address space is exactly the two windows of the chip: every other address stops NEMU.
\<close>

lemma in_pmem_cases:
  "in_pmem c addr =
     (if 0x30000000 \<le> addr \<and> addr < 0x40000000 then Inr (addr - cfg_mbase c < cfg_msize c)
      else if 0x0f000000 \<le> addr \<and> addr < 0x10000000 then Inr True else Inl AssertFail)"
proof -
  have "addr - 0x0f000000 < 0x1000000" if "0x0f000000 \<le> addr" "addr < 0x10000000"
    using that by (simp add: word_less_nat_alt word_le_nat_alt unat_minus_const)
  then show ?thesis by (simp add: in_pmem_def)
qed

lemma paddr_read_pmem:
  "in_ram c addr \<Longrightarrow> paddr_read c addr len s = bindR (pmem_read c addr len s) (\<lambda>w. Inr (w, s))"
  by (simp add: paddr_read_def in_ram_def)

lemma paddr_write_pmem:
  "in_ram c addr \<Longrightarrow> paddr_write c addr len w s = pmem_write c addr len w s"
  by (simp add: paddr_write_def in_ram_def)

text \<open>A window of memory the guest can use: the base of memory is that of flash.\<close>

definition ram_layout :: "config \<Rightarrow> bool" where
  "ram_layout c \<longleftrightarrow> cfg_mbase c = 0x30000000 \<and> unat (cfg_msize c) \<le> 0x10000000"

lemma pmem_range_in_ram:
  assumes "ram_layout c" "pmem_range c addr len" "0 < len"
  shows "in_ram c addr"
  using assms
  by (auto simp: in_ram_def in_pmem_cases ram_layout_def pmem_range_def word_le_nat_alt
      word_less_nat_alt unat_minus_const)

lemma paddr_write_ok:
  assumes "ram_layout c" "mem_wf c s" "pmem_range c addr len" "access_len c len"
  shows "\<exists>s'. paddr_write c addr len w s = Inr s' \<and> mem_wf c s'"
  using assms pmem_write_ok [of c s addr len w] pmem_write_mem_wf [of c addr len w s]
    paddr_write_pmem pmem_range_in_ram access_len_pos
  by metis

lemma paddr_read_write_same:
  assumes "ram_layout c" "mem_wf c s" "pmem_range c addr len" "access_len c len"
    and "paddr_write c addr len (w :: 'w::len word) s = Inr s'"
  shows "paddr_read c addr len s' = Inr (take_bit (8 * len) w, s')"
  using assms pmem_read_write_same [of c s addr len w s']
    pmem_range_in_ram [OF assms(1,3) access_len_pos [OF assms(4)]]
  by (simp add: paddr_write_pmem paddr_read_pmem)

lemma paddr_read_write_other:
  assumes "ram_layout c" "mem_wf c s" "pmem_range c addr len" "access_len c len"
    and "pmem_range c addr' len'" "access_len c len'"
    and "unat addr + len \<le> unat addr' \<or> unat addr' + len' \<le> unat addr"
    and "paddr_write c addr len (w :: 'w::len word) s = Inr s'"
  shows "(paddr_read c addr' len' s' :: ('x::len word \<times> 'v sys) res) = bindR (paddr_read c addr' len' s) (\<lambda>(v, _). Inr (v, s'))"
proof -
  have r: "in_ram c addr" "in_ram c addr'"
    using assms(1-6) pmem_range_in_ram access_len_pos by blast+
  with assms have "(pmem_read c addr' len' s' :: 'x word res) = pmem_read c addr' len' s"
    by (intro pmem_read_write_other [OF assms(2-7)]) (simp add: paddr_write_pmem)
  then show ?thesis using r by (simp add: paddr_read_pmem bindR_assoc)
qed

section \<open>What an access keeps\<close>

text \<open>Reads and writes never touch NEMU's run state, except that they may fault.\<close>

lemma fetch_mmio_map_nemu: "fetch_mmio_map c a s = (m, s') \<Longrightarrow> nemu s' = nemu s"
  using fetch_mmio_map_None [of c a s s'] fetch_mmio_map_Some [of c a s _ s']
  by (cases m) auto

lemma sd_set_reg_nemu: "sd_set_reg i w s = Inr s' \<Longrightarrow> nemu s' = nemu s"
  by (auto simp: sd_set_reg_def elim!: io_wr32E)

lemma sdcard_handle_cmd_nemu: "sdcard_handle_cmd cmd s = Inr s' \<Longrightarrow> nemu s' = nemu s"
  unfolding sdcard_handle_cmd_def prepare_rw_def
  by (auto elim!: resE dest!: sd_set_reg_nemu split: if_split_asm)

lemma sd_data_port_nemu: "sd_data_port s = Inr s' \<Longrightarrow> nemu s' = nemu s"
  unfolding sd_data_port_def Let_def
  by (auto elim!: resE dest!: sd_set_reg_nemu split: if_split_asm option.split_asm prod.split_asm)

lemma get_time_nemu: "get_time s = (t, s') \<Longrightarrow> nemu s' = nemu s"
  by (auto simp: get_time_def get_time_internal_def Let_def split: if_splits)

lemma device_callback_nemu: "device_callback f off n wr s = Inr s' \<Longrightarrow> nemu s' = nemu s"
proof (cases f)
  case SerialHandler
  then show "device_callback f off n wr s = Inr s' \<Longrightarrow> nemu s' = nemu s"
    by (auto simp: serial_io_handler_def serial_putc_def elim!: resE split: if_split_asm)
next
  case RtcHandler
  then show "device_callback f off n wr s = Inr s' \<Longrightarrow> nemu s' = nemu s"
    by (auto simp: rtc_io_handler_def get_time_nemu elim!: resE io_wr32E
        split: if_split_asm prod.split_asm)
next
  case I8042Handler
  then show "device_callback f off n wr s = Inr s' \<Longrightarrow> nemu s' = nemu s"
    by (auto simp: i8042_data_io_handler_def elim!: resE io_wr32E split: prod.split_asm)
next
  case AudioHandler
  then show "device_callback f off n wr s = Inr s' \<Longrightarrow> nemu s' = nemu s"
    by (simp add: audio_io_handler_def)
next
  case SdcardHandler
  then show "device_callback f off n wr s = Inr s' \<Longrightarrow> nemu s' = nemu s"
    by (auto simp: sdcard_io_handler_def Let_def sdcard_handle_cmd_nemu dest!: sd_data_port_nemu
        elim!: resE split: if_split_asm)
qed

lemma invoke_callback_nemu:
  "invoke_callback device_callback f off n wr s = Inr s' \<Longrightarrow> nemu s' = nemu s"
  by (auto simp: invoke_callback_def device_callback_nemu split: option.splits)

lemma paddr_read_nemu: "paddr_read c a n s = Inr (w, s') \<Longrightarrow> nemu s' = nemu s"
  unfolding paddr_read_def mmio_read_def map_read_def Let_def
  by (auto simp: out_of_bound_def elim!: resE dest!: fetch_mmio_map_nemu invoke_callback_nemu
      split: if_split_asm prod.split_asm)

lemma paddr_write_nemu: "paddr_write c a n w s = Inr s' \<Longrightarrow> nemu s' = nemu s"
  unfolding paddr_write_def mmio_write_def map_write_def Let_def
  by (auto simp: out_of_bound_def elim!: resE
      dest!: fetch_mmio_map_nemu invoke_callback_nemu pmem_write_frame
      split: if_split_asm prod.split_asm)

end
