(* ===== verification/Decode.thy ===== *)
theory Decode
  imports Bus
begin

text \<open>
  The pattern-matching decoder of \<^verbatim>\<open>include/cpu/decode.h\<close>: pattern strings are turned into a
  key, a mask and a shift, and \<^verbatim>\<open>INSTPAT\<close> compares the instruction under them. The decoder is
  proved to compare exactly the bits the pattern fixes, and a table of patterns that clash
  pairwise decodes the same in every order. Also the parts of the guest CPU state that all
  instruction sets share.
\<close>

section \<open>CPU state and the decode record\<close>

record 'v cpu_state =
  gpr :: "'v list"
  pc :: 'v

text \<open>\<^verbatim>\<open>struct Decode\<close>; the log buffer is not modelled.\<close>

record 'v Decode =
  dpc :: 'v
  snpc :: 'v
  dnpc :: 'v
  inst_val :: u32

text \<open>The whole machine: NEMU and the guest CPU, the global \<^verbatim>\<open>cpu\<close>.\<close>

record ('v, 'c) machine =
  nsys :: "'v sys"
  cpu :: 'c

section \<open>Pattern strings\<close>

text \<open>
  \<^verbatim>\<open>macro64(0)\<close> unrolls 64 steps: after them the string is too long. A shift is at most 63.
\<close>

fun pattern_loop :: "nat \<Rightarrow> string \<Rightarrow> u64 \<Rightarrow> u64 \<Rightarrow> nat \<Rightarrow> (u64 \<times> u64 \<times> nat) res" where
  "pattern_loop 0 cs key msk shift = Inl Panic"
| "pattern_loop (Suc n) [] key msk shift =
     Inr (drop_bit shift key, drop_bit shift msk, shift)"
| "pattern_loop (Suc n) (c # cs) key msk shift =
     (if c = CHR '' '' then pattern_loop n cs key msk shift
      else guardR (c = CHR ''0'' \<or> c = CHR ''1'' \<or> c = CHR ''?'') AssertFail
        (pattern_loop n cs
          (push_bit 1 key OR (if c = CHR ''1'' then 1 else 0))
          (push_bit 1 msk OR (if c \<noteq> CHR ''?'' then 1 else 0))
          (if c = CHR ''?'' then shift + 1 else 0)))"

definition pattern_decode :: "string \<Rightarrow> (u64 \<times> u64 \<times> nat) res" where
  "pattern_decode str = pattern_loop 64 str 0 0 0"

definition hex_digit_ok :: "char \<Rightarrow> bool" where
  "hex_digit_ok c \<longleftrightarrow> (48 \<le> (of_char c :: nat) \<and> (of_char c :: nat) \<le> 57) \<or>
     (97 \<le> (of_char c :: nat) \<and> (of_char c :: nat) \<le> 102) \<or> c = CHR ''?''"

definition hex_digit_val :: "char \<Rightarrow> u64" where
  "hex_digit_val c =
     (if c = CHR ''?'' then 0
      else if 48 \<le> (of_char c :: nat) \<and> (of_char c :: nat) \<le> 57 then of_nat (of_char c - 48)
      else of_nat (of_char c - 97 + 10))"

text \<open>\<^verbatim>\<open>pattern_decode_hex\<close> has 16 steps of four bits; a shift is at most 60.\<close>

fun pattern_hex_loop :: "nat \<Rightarrow> string \<Rightarrow> u64 \<Rightarrow> u64 \<Rightarrow> nat \<Rightarrow> (u64 \<times> u64 \<times> nat) res" where
  "pattern_hex_loop 0 cs key msk shift = Inl Panic"
| "pattern_hex_loop (Suc n) [] key msk shift =
     Inr (drop_bit shift key, drop_bit shift msk, shift)"
| "pattern_hex_loop (Suc n) (c # cs) key msk shift =
     (if c = CHR '' '' then pattern_hex_loop n cs key msk shift
      else guardR (hex_digit_ok c) AssertFail
        (pattern_hex_loop n cs
          (push_bit 4 key OR hex_digit_val c)
          (push_bit 4 msk OR (if c = CHR ''?'' then 0 else 0xf))
          (if c = CHR ''?'' then shift + 4 else 0)))"

definition pattern_decode_hex :: "string \<Rightarrow> (u64 \<times> u64 \<times> nat) res" where
  "pattern_decode_hex str = pattern_hex_loop 16 str 0 0 0"

section \<open>INSTPAT\<close>

definition INSTPAT :: "string \<Rightarrow> u32 \<Rightarrow> bool res" where
  "INSTPAT pattern inst =
     bindR (pattern_decode pattern) (\<lambda>(key, msk, shift).
     Inr (drop_bit shift (ucast inst :: u64) AND msk = key))"

text \<open>The sequence of \<^verbatim>\<open>INSTPAT\<close>s of a \<^verbatim>\<open>decode_exec\<close>: the first match ends it.\<close>

fun decode_table :: "(string \<times> 'i) list \<Rightarrow> u32 \<Rightarrow> 'i option res" where
  "decode_table [] inst = Inr None"
| "decode_table ((pat, i) # t) inst =
     bindR (INSTPAT pat inst) (\<lambda>b. if b then Inr (Some i) else decode_table t inst)"

section \<open>What a pattern means\<close>

text \<open>
  The last character that is not a space stands for bit 0, and so on upwards; \<^verbatim>\<open>?\<close> leaves
  its bit free.
\<close>

definition pat_chars :: "string \<Rightarrow> string" where
  "pat_chars p = filter (\<lambda>c. c \<noteq> CHR '' '') p"

definition pat_ok :: "string \<Rightarrow> bool" where
  "pat_ok p \<longleftrightarrow> list_all (\<lambda>c. c = CHR ''0'' \<or> c = CHR ''1'' \<or> c = CHR ''?'') (pat_chars p) \<and>
     length p < 64 \<and> length (pat_chars p) \<le> 32"

fun agree_from :: "string \<Rightarrow> nat \<Rightarrow> u32 \<Rightarrow> bool" where
  "agree_from [] j w \<longleftrightarrow> True"
| "agree_from (c # cs) j w \<longleftrightarrow>
     (c = CHR ''?'' \<or> bit w j = (c = CHR ''1'')) \<and> agree_from cs (Suc j) w"

definition agrees :: "string \<Rightarrow> u32 \<Rightarrow> bool" where
  "agrees p w \<longleftrightarrow> agree_from (rev (pat_chars p)) 0 w"

lemma agree_from_nth:
  "agree_from cs k w \<longleftrightarrow>
     (\<forall>j < length cs. cs ! j = CHR ''?'' \<or> bit w (k + j) = (cs ! j = CHR ''1''))"
proof (induction cs k w rule: agree_from.induct)
  case (1 j w)
  then show ?case by simp
next
  case (2 c cs k w)
  then show ?case by (simp add: All_less_Suc2)
qed

text \<open>The state of the loop after the characters \<open>p\<close>.\<close>

definition pat_inv :: "string \<Rightarrow> u64 \<Rightarrow> u64 \<Rightarrow> nat \<Rightarrow> bool" where
  "pat_inv p key msk shift \<longleftrightarrow>
     (\<forall>j < 64. bit key j = (j < length p \<and> rev p ! j = CHR ''1'')) \<and>
     (\<forall>j < 64. bit msk j = (j < length p \<and> rev p ! j \<noteq> CHR ''?'')) \<and>
     shift \<le> length p \<and> (\<forall>j < shift. rev p ! j = CHR ''?'')"

lemma bit_shift_in:
  assumes "j < 64"
  shows "bit (push_bit 1 (x :: u64) OR (if b then 1 else 0)) j = (if j = 0 then b else bit x (j - 1))"
  unfolding bit_or_iff bit_push_bit_iff
  using assms by (auto simp: bit_1_iff dest: bit_imp_le_length)

lemma pat_inv_step:
  assumes "pat_inv p key msk shift"
  shows "pat_inv (p @ [c]) (push_bit 1 key OR (if c = CHR ''1'' then 1 else 0))
    (push_bit 1 msk OR (if c \<noteq> CHR ''?'' then 1 else 0)) (if c = CHR ''?'' then shift + 1 else 0)"
proof -
  have "bit (push_bit 1 key OR (if c = CHR ''1'' then 1 else 0)) j =
      (j < length (p @ [c]) \<and> rev (p @ [c]) ! j = CHR ''1'')" if "j < 64" for j
    unfolding bit_shift_in [OF that] using assms that by (cases j) (auto simp: pat_inv_def)
  moreover have "bit (push_bit 1 msk OR (if c \<noteq> CHR ''?'' then 1 else 0)) j =
      (j < length (p @ [c]) \<and> rev (p @ [c]) ! j \<noteq> CHR ''?'')" if "j < 64" for j
    unfolding bit_shift_in [OF that] using assms that by (cases j) (auto simp: pat_inv_def)
  moreover have "rev (p @ [c]) ! j = CHR ''?''" if "j < (if c = CHR ''?'' then shift + 1 else 0)" for j
    using assms that by (cases j) (auto simp: pat_inv_def split: if_splits)
  ultimately show ?thesis using assms by (auto simp: pat_inv_def)
qed

lemma pattern_loop_inv:
  assumes "pat_inv p key msk shift" "length cs < n"
    and "list_all (\<lambda>c. c = CHR ''0'' \<or> c = CHR ''1'' \<or> c = CHR ''?'') (pat_chars cs)"
  shows "\<exists>k m sh. pattern_loop n cs key msk shift = Inr (drop_bit sh k, drop_bit sh m, sh) \<and>
    pat_inv (p @ pat_chars cs) k m sh"
  using assms
proof (induction n cs key msk shift arbitrary: p rule: pattern_loop.induct)
  case (1 cs key msk shift)
  then show ?case by simp
next
  case (2 n key msk shift)
  then show ?case by (auto simp: pat_chars_def)
next
  case (3 n c cs key msk shift)
  show ?case
  proof (cases "c = CHR '' ''")
    case True
    with "3.IH"(1) [OF True "3.prems"(1)] "3.prems" show ?thesis by (simp add: pat_chars_def)
  next
    case False
    then have ok: "c = CHR ''0'' \<or> c = CHR ''1'' \<or> c = CHR ''?''"
      using "3.prems"(3) by (simp add: pat_chars_def)
    from "3.IH"(2) [OF False ok pat_inv_step [OF "3.prems"(1)]] "3.prems" False ok
    show ?thesis by (simp add: pat_chars_def)
  qed
qed

lemma pat_inv_match:
  assumes "pat_inv p k m sh" "length p \<le> 32"
  shows "(drop_bit sh (ucast w :: u64) AND drop_bit sh m = drop_bit sh k) \<longleftrightarrow>
    agree_from (rev p) 0 (w :: u32)"
proof
  assume eq: "drop_bit sh (ucast w :: u64) AND drop_bit sh m = drop_bit sh k"
  have "rev p ! j = CHR ''?'' \<or> bit w j = (rev p ! j = CHR ''1'')" if "j < length p" for j
  proof (cases "j < sh")
    case True
    with assms(1) show ?thesis by (auto simp: pat_inv_def)
  next
    case False
    have "bit (drop_bit sh (ucast w :: u64) AND drop_bit sh m) (j - sh) = bit (drop_bit sh k) (j - sh)"
      by (simp add: eq)
    with False that assms show ?thesis by (auto simp: bit_simps pat_inv_def)
  qed
  then show "agree_from (rev p) 0 w" by (simp add: agree_from_nth)
next
  assume a: "agree_from (rev p) 0 w"
  show "drop_bit sh (ucast w :: u64) AND drop_bit sh m = drop_bit sh k"
  proof (rule bit_word_eqI)
    fix n
    assume "n < LENGTH(64)"
    show "bit (drop_bit sh (ucast w :: u64) AND drop_bit sh m) n = bit (drop_bit sh k) n"
    proof (cases "sh + n < 64")
      case True
      with a assms show ?thesis
        by (auto simp: bit_simps agree_from_nth pat_inv_def)
    next
      case False
      then show ?thesis by (auto simp: bit_simps dest: bit_imp_le_length)
    qed
  qed
qed

lemma INSTPAT_agrees:
  assumes "pat_ok p"
  shows "INSTPAT p w = Inr (agrees p w)"
proof -
  have "pat_inv [] 0 0 0" by (simp add: pat_inv_def)
  from pattern_loop_inv [OF this, of p 64] assms obtain k m sh where
    "pattern_decode p = Inr (drop_bit sh k, drop_bit sh m, sh)" "pat_inv (pat_chars p) k m sh"
    by (auto simp: pattern_decode_def pat_ok_def)
  with pat_inv_match [of "pat_chars p" k m sh w] assms show ?thesis
    by (simp add: INSTPAT_def agrees_def pat_ok_def)
qed

section \<open>Tables\<close>

lemma decode_table_first:
  assumes "list_all (\<lambda>(p, _). pat_ok p) t"
  shows "decode_table t w = Inr (map_option snd (find (\<lambda>(p, _). agrees p w) t))"
  using assms by (induction t w rule: decode_table.induct) (auto simp: INSTPAT_agrees)

text \<open>Two patterns clash when they fix some bit differently.\<close>

definition pat_bits :: "string \<Rightarrow> bool option list" where
  "pat_bits p = map (\<lambda>c. if c = CHR ''?'' then None else Some (c = CHR ''1'')) (rev (pat_chars p))"

fun clash_bits :: "bool option list \<Rightarrow> bool option list \<Rightarrow> bool" where
  "clash_bits (None # cs) (d # ds) \<longleftrightarrow> clash_bits cs ds"
| "clash_bits (Some a # cs) (None # ds) \<longleftrightarrow> clash_bits cs ds"
| "clash_bits (Some a # cs) (Some b # ds) \<longleftrightarrow> (if a = b then clash_bits cs ds else True)"
| "clash_bits _ _ \<longleftrightarrow> False"

definition clash :: "string \<Rightarrow> string \<Rightarrow> bool" where
  "clash p q \<longleftrightarrow> clash_bits (pat_bits p) (pat_bits q)"

lemma clash_bits_sound:
  "clash_bits (map (\<lambda>c. if c = CHR ''?'' then None else Some (c = CHR ''1'')) cs)
     (map (\<lambda>c. if c = CHR ''?'' then None else Some (c = CHR ''1'')) ds) \<Longrightarrow>
   agree_from cs j w \<Longrightarrow> \<not> agree_from ds j w"
proof (induction cs arbitrary: ds j)
  case Nil
  then show ?case by simp
next
  case (Cons c cs)
  then show ?case by (cases ds) (auto split: if_splits)
qed

lemma clash_sound: "clash p q \<Longrightarrow> agrees p w \<Longrightarrow> \<not> agrees q w"
  unfolding clash_def agrees_def pat_bits_def by (rule clash_bits_sound)

fun pairwise_clash :: "(string \<times> 'i) list \<Rightarrow> bool" where
  "pairwise_clash [] \<longleftrightarrow> True"
| "pairwise_clash ((p, i) # t) \<longleftrightarrow> list_all (\<lambda>(q, _). clash p q) t \<and> pairwise_clash t"

fun pairwise_bits :: "bool option list list \<Rightarrow> bool" where
  "pairwise_bits [] \<longleftrightarrow> True"
| "pairwise_bits (b # bs) \<longleftrightarrow> list_all (clash_bits b) bs \<and> pairwise_bits bs"

lemma pairwise_clash_bits:
  assumes "pairwise_bits (map (\<lambda>(p, _). pat_bits p) t)"
  shows "pairwise_clash t"
  using assms by (induction t rule: pairwise_clash.induct) (auto simp: list_all_iff clash_def)

lemma find_unique:
  assumes "pairwise_clash t" "(p, i) \<in> set t" "agrees p w"
  shows "find (\<lambda>(p, _). agrees p w) t = Some (p, i)"
  using assms
  by (induction t rule: pairwise_clash.induct) (auto simp: list_all_iff dest: clash_sound)

lemma find_append_unique:
  assumes "pairwise_clash t" "(p, i) \<in> set t" "agrees p w"
  shows "find (\<lambda>(p, _). agrees p w) (t @ t') = Some (p, i)"
  using assms
  by (induction t rule: pairwise_clash.induct) (auto simp: list_all_iff dest: clash_sound)

lemma decode_table_unique:
  assumes "list_all (\<lambda>(p, _). pat_ok p) (t @ t')" "pairwise_clash t" "(p, i) \<in> set t" "agrees p w"
  shows "decode_table (t @ t') w = Inr (Some i)"
  using decode_table_first [OF assms(1)] find_append_unique [OF assms(2-4)] by simp

section \<open>Register files\<close>

text \<open>
  \<^verbatim>\<open>gpr(idx)\<close> of every \<^verbatim>\<open>local-include/reg.h\<close>: the index is checked under \<^verbatim>\<open>CONFIG_RT_CHECK\<close>
  against the number \<open>n\<close> of registers; the array itself has as many.
\<close>

definition check_reg_idx :: "config \<Rightarrow> nat \<Rightarrow> nat \<Rightarrow> nat res" where
  "check_reg_idx c n idx = guardR (cfg_rt_check c \<longrightarrow> idx < n) AssertFail (Inr idx)"

definition reg_get :: "config \<Rightarrow> nat \<Rightarrow> nat \<Rightarrow> 'v list \<Rightarrow> 'v res" where
  "reg_get c n idx rs =
     bindR (check_reg_idx c n idx) (\<lambda>i. guardR (i < length rs) Undef (Inr (rs ! i)))"

definition reg_set :: "config \<Rightarrow> nat \<Rightarrow> nat \<Rightarrow> 'v \<Rightarrow> 'v list \<Rightarrow> 'v list res" where
  "reg_set c n idx w rs =
     bindR (check_reg_idx c n idx) (\<lambda>i. guardR (i < length rs) Undef (Inr (rs[i := w])))"

lemma reg_get_ok: "idx < length rs \<Longrightarrow> length rs = n \<Longrightarrow> reg_get c n idx rs = Inr (rs ! idx)"
  by (simp add: reg_get_def check_reg_idx_def)

lemma reg_set_ok: "idx < length rs \<Longrightarrow> length rs = n \<Longrightarrow> reg_set c n idx w rs = Inr (rs[idx := w])"
  by (simp add: reg_set_def check_reg_idx_def)

lemma reg_set_length: "reg_set c n idx w rs = Inr rs' \<Longrightarrow> length rs' = length rs"
  by (auto simp: reg_set_def elim!: resE)

lemma reg_set_zero: "reg_set c n 0 w rs = Inr rs' \<Longrightarrow> rs' ! 0 = w"
  by (auto simp: reg_set_def check_reg_idx_def elim!: resE)

definition upd_gpr :: "('v list \<Rightarrow> 'v list res) \<Rightarrow> 'v sys \<Rightarrow> ('v, ('v, 'e) cpu_state_scheme) machine \<Rightarrow>
    ('v, ('v, 'e) cpu_state_scheme) machine res" where
  "upd_gpr f s m =
     bindR (f (gpr (cpu m))) (\<lambda>rs. Inr (m\<lparr>nsys := s, cpu := (cpu m)\<lparr>gpr := rs\<rparr>\<rparr>))"

section \<open>Steps all instruction sets share\<close>

text \<open>
  \<open>wr_reg\<close> is \<^verbatim>\<open>R(rd) = v\<close> for a register file of \<open>n\<close> registers, \<open>ld_reg\<close> the same with \<^verbatim>\<open>Mr\<close> on
  the right, \<open>st_mem\<close> is \<^verbatim>\<open>Mw\<close>; \<open>finish_exec\<close> is the tail of every \<^verbatim>\<open>decode_exec\<close>, \<^verbatim>\<open>R(0) = 0\<close>.
\<close>

type_synonym ('v, 'e) isa_machine = "('v, ('v, 'e) cpu_state_scheme) machine"

definition wr_reg :: "config \<Rightarrow> nat \<Rightarrow> nat \<Rightarrow> 'v res \<Rightarrow> 'v Decode \<Rightarrow> ('v, 'e) isa_machine \<Rightarrow>
    ('v Decode \<times> ('v, 'e) isa_machine) res" where
  "wr_reg c n rd v d m =
     bindR v (\<lambda>w. bindR (upd_gpr (reg_set c n rd w) (nsys m) m) (\<lambda>m. Inr (d, m)))"

definition ld_reg :: "config \<Rightarrow> nat \<Rightarrow> nat \<Rightarrow> 'a::len word \<Rightarrow> nat \<Rightarrow> ('a word \<Rightarrow> 'a word) \<Rightarrow>
    'a word Decode \<Rightarrow> ('a word, 'e) isa_machine \<Rightarrow> ('a word Decode \<times> ('a word, 'e) isa_machine) res"
where
  "ld_reg c n rd addr k f d m =
     bindR (vaddr_read c addr k (nsys m)) (\<lambda>(w, s).
     wr_reg c n rd (Inr (f w)) d (m\<lparr>nsys := s\<rparr>))"

definition st_mem :: "config \<Rightarrow> 'a::len word \<Rightarrow> nat \<Rightarrow> 'a word \<Rightarrow> 'a word Decode \<Rightarrow>
    ('a word, 'e) isa_machine \<Rightarrow> ('a word Decode \<times> ('a word, 'e) isa_machine) res" where
  "st_mem c addr k w d m =
     bindR (vaddr_write c addr k w (nsys m)) (\<lambda>s. Inr (d, m\<lparr>nsys := s\<rparr>))"

definition finish_exec :: "config \<Rightarrow> nat \<Rightarrow> 'v::zero Decode \<Rightarrow> ('v, 'e) isa_machine \<Rightarrow>
    ('v Decode \<times> ('v, 'e) isa_machine) res" where
  "finish_exec c n d m = bindR (upd_gpr (reg_set c n 0 0) (nsys m) m) (\<lambda>m. Inr (d, m))"

definition b2w :: "bool \<Rightarrow> 'a::len word" where
  "b2w b = (if b then 1 else 0)"

section \<open>An interface: instruction sets\<close>

text \<open>
  What the execution loop relies on, whatever the guest: a step leaves the register file of its
  size with the zero register zero, and changes NEMU's run state only by ending or aborting.
\<close>

definition run_step :: "run_state \<Rightarrow> run_state \<Rightarrow> bool" where
  "run_step a b \<longleftrightarrow> b = a \<or> b = NEMU_END \<or> b = NEMU_ABORT"

text \<open>What one instruction body keeps.\<close>

definition isa_keeps :: "('v, 'e) isa_machine \<Rightarrow> ('v, 'e) isa_machine \<Rightarrow> bool" where
  "isa_keeps m m' \<longleftrightarrow> length (gpr (cpu m')) = length (gpr (cpu m)) \<and>
     run_step (nstate (nemu (nsys m))) (nstate (nemu (nsys m')))"

lemma isa_keeps_refl [simp]: "isa_keeps m m"
  by (simp add: isa_keeps_def run_step_def)

lemma isa_keeps_trans: "isa_keeps a b \<Longrightarrow> isa_keeps b c \<Longrightarrow> isa_keeps a c"
  by (auto simp: isa_keeps_def run_step_def)

lemma upd_gprE:
  assumes "upd_gpr f s m = Inr m'"
  obtains rs where "f (gpr (cpu m)) = Inr rs" and "m' = m\<lparr>nsys := s, cpu := (cpu m)\<lparr>gpr := rs\<rparr>\<rparr>"
  using assms by (auto simp: upd_gpr_def elim!: resE)

lemma wr_reg_keeps: "wr_reg c n rd v d m = Inr (d', m') \<Longrightarrow> isa_keeps m m'"
  by (auto simp: wr_reg_def isa_keeps_def run_step_def reg_set_length elim!: resE upd_gprE)

lemma ld_reg_keeps: "ld_reg c n rd a k f d m = Inr (d', m') \<Longrightarrow> isa_keeps m m'"
  unfolding ld_reg_def
  by (auto simp: vaddr_read_def isa_keeps_def dest!: wr_reg_keeps paddr_read_nemu elim!: resE)

lemma st_mem_keeps: "st_mem c a k w d m = Inr (d', m') \<Longrightarrow> isa_keeps m m'"
  unfolding st_mem_def
  by (auto simp: vaddr_write_def isa_keeps_def run_step_def dest!: paddr_write_nemu elim!: resE)

lemma NEMUTRAP_keeps: "isa_keeps m (m\<lparr>nsys := NEMUTRAP c p w (nsys m)\<rparr>)"
  by (simp add: isa_keeps_def run_step_def NEMUTRAP_def)

lemma inst_fetch_nemu: "inst_fetch c p n s = Inr (i, p', s') \<Longrightarrow> nemu s' = nemu s"
  by (auto simp: inst_fetch_def vaddr_ifetch_def dest!: paddr_read_nemu elim!: resE)

lemma invalid_inst_keeps:
  "invalid_inst c p (nsys m) = Inr s \<Longrightarrow> isa_keeps m (m\<lparr>nsys := s\<rparr>)"
  by (auto simp: invalid_inst_def isa_keeps_def run_step_def elim!: resE)

lemma finish_exec_keeps:
  "finish_exec c n d m = Inr (d', m') \<Longrightarrow>
   isa_keeps m m' \<and> gpr (cpu m') ! 0 = 0 \<and> d' = d \<and> nsys m' = nsys m"
  by (auto simp: finish_exec_def isa_keeps_def run_step_def elim!: resE upd_gprE
      dest: reg_set_length reg_set_zero)

text \<open>The shape of every \<^verbatim>\<open>decode_exec\<close> and \<^verbatim>\<open>isa_exec_once\<close>.\<close>

lemma decode_exec_keeps:
  assumes "bindR t (\<lambda>hit. bindR (case hit of None \<Rightarrow> Inr (d, m)
      | Some (op, ty) \<Rightarrow> bindR (operand ty) (\<lambda>(rd, a, b, i). exec op rd a b i))
      (\<lambda>(d, m). finish_exec c n d m)) = Inr (d', m')"
    and "\<And>op rd a b i d1 m1. exec op rd a b i = Inr (d1, m1) \<Longrightarrow> isa_keeps m m1"
  shows "isa_keeps m m' \<and> gpr (cpu m') ! 0 = 0"
proof -
  from assms(1) obtain hit d1 m1 where h: "(case hit of None \<Rightarrow> Inr (d, m)
      | Some (op, ty) \<Rightarrow> bindR (operand ty) (\<lambda>(rd, a, b, i). exec op rd a b i)) = Inr (d1, m1)"
    and u: "finish_exec c n d1 m1 = Inr (d', m')"
    by (auto elim!: resE)
  have "isa_keeps m m1"
  proof (cases hit)
    case None
    with h show ?thesis by simp
  next
    case (Some a)
    with h assms(2) show ?thesis by (cases a) (auto elim!: resE)
  qed
  with finish_exec_keeps [OF u] show ?thesis by (auto dest: isa_keeps_trans)
qed

lemma exec_once_keeps:
  assumes "bindR (inst_fetch c p k (nsys m)) (\<lambda>(i, q, s). f i q (m\<lparr>nsys := s\<rparr>)) = Inr (d', m')"
    and "\<And>i q m1. f i q m1 = Inr (d', m') \<Longrightarrow> isa_keeps m1 m' \<and> gpr (cpu m') ! 0 = 0"
  shows "isa_keeps m m' \<and> gpr (cpu m') ! 0 = 0"
proof -
  from assms(1) obtain i q s where f: "inst_fetch c p k (nsys m) = Inr (i, q, s)"
    and e: "f i q (m\<lparr>nsys := s\<rparr>) = Inr (d', m')"
    by (auto elim!: resE)
  from assms(2) [OF e] inst_fetch_nemu [OF f] show ?thesis by (simp add: isa_keeps_def)
qed

lemmas isa_keeps_intros =
  wr_reg_keeps ld_reg_keeps st_mem_keeps NEMUTRAP_keeps invalid_inst_keeps isa_keeps_refl

locale isa_step =
  fixes step :: "'a::len word Decode \<Rightarrow> ('a word, 'e) isa_machine \<Rightarrow>
      ('a word Decode \<times> ('a word, 'e) isa_machine) res"
    and reg_count :: nat
  assumes step_keeps: "step d m = Inr (d', m') \<Longrightarrow> isa_keeps m m' \<and> gpr (cpu m') ! 0 = 0"
begin

definition regs_ok :: "('a word, 'e) isa_machine \<Rightarrow> bool" where
  "regs_ok m \<longleftrightarrow> length (gpr (cpu m)) = reg_count \<and> gpr (cpu m) ! 0 = 0"

lemma step_regs_ok: "step d m = Inr (d', m') \<Longrightarrow> regs_ok m \<Longrightarrow> regs_ok m'"
  using step_keeps by (auto simp: regs_ok_def isa_keeps_def)

end

end
