(* ===== verification/RV32.thy ===== *)
theory RV32
  imports Decode
begin

text \<open>
  The RISC-V 32-bit guest, \<^verbatim>\<open>src/isa/riscv32\<close>: registers and CSRs (\<^verbatim>\<open>include/isa-def.h\<close>,
  \<^verbatim>\<open>local-include/reg.h\<close>, \<^verbatim>\<open>reg.c\<close>), the decoder and executor of \<^verbatim>\<open>inst.c\<close>, exceptions
  (\<^verbatim>\<open>system/intr.c\<close>), \<^verbatim>\<open>system/mmu.c\<close>, the built-in image (\<^verbatim>\<open>init.c\<close>) and the register
  comparison of \<^verbatim>\<open>difftest/dut.c\<close>. The pattern table is written as the source writes it. The
  immediates are proved to be those of the RISC-V manual, the table to be independent of its
  order, and each computed result to be the manual's wherever C defines it.
\<close>

section \<open>State\<close>

record riscv32_CSRs =
  mcause :: u32
  mepc :: u32
  mstatus :: u32
  mtvec :: u32

record riscv32_CPU_state = "u32 cpu_state" +
  csr :: riscv32_CSRs

type_synonym rv32_machine = "(u32, riscv32_CPU_state) machine"

definition rv_reg_count :: "config \<Rightarrow> nat" where
  "rv_reg_count c = (if cfg_rve c then 16 else 32)"

definition rv32_R :: "config \<Rightarrow> nat \<Rightarrow> rv32_machine \<Rightarrow> u32 res" where
  "rv32_R c i m = reg_get c (rv_reg_count c) i (gpr (cpu m))"

definition rv32_regs :: "string list" where
  "rv32_regs =
    [''$0'', ''ra'', ''sp'', ''gp'', ''tp'', ''t0'', ''t1'', ''t2'',
     ''s0'', ''s1'', ''a0'', ''a1'', ''a2'', ''a3'', ''a4'', ''a5'',
     ''a6'', ''a7'', ''s2'', ''s3'', ''s4'', ''s5'', ''s6'', ''s7'',
     ''s8'', ''s9'', ''s10'', ''s11'', ''t3'', ''t4'', ''t5'', ''t6'']"

definition rv32_reg_name :: "config \<Rightarrow> nat \<Rightarrow> string res" where
  "rv32_reg_name c idx =
     bindR (check_reg_idx c (rv_reg_count c) idx) (\<lambda>i.
     guardR (i < length rv32_regs) Undef (Inr (rv32_regs ! i)))"

text \<open>\<^verbatim>\<open>isa_reg_display\<close>: the name and value of every register, in the order printed.\<close>

fun reg_display_from :: "nat \<Rightarrow> string list \<Rightarrow> 'v list \<Rightarrow> (string \<times> 'v) list res" where
  "reg_display_from i [] rs = Inr []"
| "reg_display_from i (r # names) rs =
     guardR (i < length rs) Undef
      (bindR (reg_display_from (Suc i) names rs) (\<lambda>out. Inr ((r, rs ! i) # out)))"

definition rv32_isa_reg_display :: "rv32_machine \<Rightarrow> (string \<times> u32) list res" where
  "rv32_isa_reg_display m = reg_display_from 0 rv32_regs (gpr (cpu m))"

text \<open>The loop compares all 32 names; the first character of the argument is skipped.\<close>

fun reg_lookup :: "nat \<Rightarrow> string list \<Rightarrow> string \<Rightarrow> 'v::zero list \<Rightarrow> ('v \<times> bool) res" where
  "reg_lookup i [] s rs = Inr (0, False)"
| "reg_lookup i (r # names) s rs =
     (if s = r then guardR (i < length rs) Undef (Inr (rs ! i, True))
      else reg_lookup (Suc i) names s rs)"

definition rv32_isa_reg_str2val :: "string \<Rightarrow> rv32_machine \<Rightarrow> (u32 \<times> bool) res" where
  "rv32_isa_reg_str2val s m =
     (case s of [] \<Rightarrow> Inl Undef | _ # t \<Rightarrow> reg_lookup 0 rv32_regs t (gpr (cpu m)))"

section \<open>CSRs and exceptions\<close>

definition csr_read :: "u32 \<Rightarrow> rv32_machine \<Rightarrow> u32 res" where
  "csr_read imm m =
     (if imm = 0x300 then Inr (mstatus (csr (cpu m)))
      else if imm = 0x305 then Inr (mtvec (csr (cpu m)))
      else if imm = 0x341 then Inr (mepc (csr (cpu m)))
      else if imm = 0x342 then Inr (mcause (csr (cpu m)))
      else Inl Panic)"

definition upd_csr :: "(riscv32_CSRs \<Rightarrow> riscv32_CSRs) \<Rightarrow> rv32_machine \<Rightarrow> rv32_machine" where
  "upd_csr f m = m\<lparr>cpu := (cpu m)\<lparr>csr := f (csr (cpu m))\<rparr>\<rparr>"

definition csr_write :: "u32 \<Rightarrow> u32 \<Rightarrow> rv32_machine \<Rightarrow> rv32_machine res" where
  "csr_write imm w m =
     (if imm = 0x300 then Inr (upd_csr (\<lambda>r. r\<lparr>mstatus := w\<rparr>) m)
      else if imm = 0x305 then Inr (upd_csr (\<lambda>r. r\<lparr>mtvec := w\<rparr>) m)
      else if imm = 0x341 then Inr (upd_csr (\<lambda>r. r\<lparr>mepc := w\<rparr>) m)
      else if imm = 0x342 then Inr (upd_csr (\<lambda>r. r\<lparr>mcause := w\<rparr>) m)
      else Inl Panic)"

definition rv32_isa_raise_intr :: "u32 \<Rightarrow> u32 \<Rightarrow> rv32_machine \<Rightarrow> u32 \<times> rv32_machine" where
  "rv32_isa_raise_intr NO epc m =
     (let m' = upd_csr (\<lambda>r. r\<lparr>mcause := 0xb, mepc := epc\<rparr>) m in (mtvec (csr (cpu m')), m'))"

definition INTR_EMPTY :: u32 where
  "INTR_EMPTY = -1"

definition rv32_isa_query_intr :: "u32" where
  "rv32_isa_query_intr = INTR_EMPTY"

definition MEM_RET_FAIL :: u32 where
  "MEM_RET_FAIL = 1"

definition rv32_isa_mmu_translate :: "u32 \<Rightarrow> nat \<Rightarrow> nat \<Rightarrow> u32" where
  "rv32_isa_mmu_translate vaddr len type = MEM_RET_FAIL"

section \<open>Operands\<close>

datatype rv_type = TYPE_R | TYPE_I | TYPE_S | TYPE_B | TYPE_U | TYPE_J | TYPE_N

definition ibits :: "u32 \<Rightarrow> nat \<Rightarrow> nat \<Rightarrow> u64" where
  "ibits i hi lo = BITS (ucast i) hi lo"

definition immI :: "u32 \<Rightarrow> u32" where
  "immI i = ucast (SEXT (ibits i 31 20) 12)"

definition immS :: "u32 \<Rightarrow> u32" where
  "immS i = ucast (push_bit 5 (SEXT (ibits i 31 25) 7) OR ibits i 11 7)"

definition immU :: "u32 \<Rightarrow> u32" where
  "immU i = ucast (push_bit 12 (SEXT (ibits i 31 12) 20))"

text \<open>
  The intermediate variables are \<^verbatim>\<open>int\<close>: shifts of negative values are GCC's, and an \<^verbatim>\<open>int\<close>
  is sign-extended when it meets the \<^verbatim>\<open>unsigned long long\<close> of \<^verbatim>\<open>BITS\<close>.
\<close>

definition immB :: "u32 \<Rightarrow> u32" where
  "immB i =
     (let imm12_11 = ucast (push_bit 1 (SEXT (ibits i 31 31) 1) OR ibits i 7 7) :: u32;
          imm12_5 = ucast ((scast (push_bit 6 imm12_11) :: u64) OR ibits i 30 25) :: u32
      in ucast ((scast (push_bit 4 imm12_5) :: u64) OR ibits i 11 8))"

definition immJ :: "u32 \<Rightarrow> u32" where
  "immJ i =
     (let imm20_12 = ucast (push_bit 8 (SEXT (ibits i 31 31) 1) OR ibits i 19 12) :: u32;
          imm20_11 = ucast ((scast (push_bit 1 imm20_12) :: u64) OR ibits i 20 20) :: u32
      in ucast ((scast (push_bit 10 imm20_11) :: u64) OR ibits i 30 21))"

definition rv32_decode_operand ::
    "config \<Rightarrow> u32 \<Rightarrow> rv_type \<Rightarrow> rv32_machine \<Rightarrow> (nat \<times> u32 \<times> u32 \<times> u32) res" where
  "rv32_decode_operand c i type m =
     (let rs1 = unat (ibits i 19 15); rs2 = unat (ibits i 24 20); rd = unat (ibits i 11 7);
          src1 = rv32_R c rs1 m; src2 = rv32_R c rs2 m in
      case type of
        TYPE_R \<Rightarrow> bindR src1 (\<lambda>a. bindR src2 (\<lambda>b. Inr (rd, a, b, 0)))
      | TYPE_I \<Rightarrow> bindR src1 (\<lambda>a. Inr (rd, a, 0, immI i))
      | TYPE_S \<Rightarrow> bindR src1 (\<lambda>a. bindR src2 (\<lambda>b. Inr (rd, a, b, immS i)))
      | TYPE_B \<Rightarrow> bindR src1 (\<lambda>a. bindR src2 (\<lambda>b. Inr (rd, a, b, immB i)))
      | TYPE_U \<Rightarrow> Inr (rd, 0, 0, immU i)
      | TYPE_J \<Rightarrow> Inr (rd, 0, 0, immJ i)
      | TYPE_N \<Rightarrow> Inr (rd, 0, 0, 0))"

section \<open>The instruction table\<close>

datatype rv32_op =
  ADD | SUB | SLL | SLT | SLTU | XORr | SRL | SRA | ORr | ANDr
| ADDI | SLLI | SLTI | SLTIU | XORI | SRLI | SRAI | ORI | ANDI | JALR
| LB | LH | LW | LBU | LHU | SB | SH | SW
| BEQ | BNE | BLT | BGE | BLTU | BGEU
| LUI | AUIPC | JAL
| MUL | MULH | MULHU | DIVr | DIVU | REM | REMU
| CSRRW | CSRRS | ECALL | MRET | EBREAK | INV

definition rv32_main_table :: "(string \<times> rv32_op \<times> rv_type) list" where
  "rv32_main_table =
    [(''0000000 ????? ????? 000 ????? 01100 11'', ADD, TYPE_R),
     (''0100000 ????? ????? 000 ????? 01100 11'', SUB, TYPE_R),
     (''0000000 ????? ????? 001 ????? 01100 11'', SLL, TYPE_R),
     (''0000000 ????? ????? 010 ????? 01100 11'', SLT, TYPE_R),
     (''0000000 ????? ????? 011 ????? 01100 11'', SLTU, TYPE_R),
     (''0000000 ????? ????? 100 ????? 01100 11'', XORr, TYPE_R),
     (''0000000 ????? ????? 101 ????? 01100 11'', SRL, TYPE_R),
     (''0100000 ????? ????? 101 ????? 01100 11'', SRA, TYPE_R),
     (''0000000 ????? ????? 110 ????? 01100 11'', ORr, TYPE_R),
     (''0000000 ????? ????? 111 ????? 01100 11'', ANDr, TYPE_R),
     (''??????? ????? ????? 000 ????? 00100 11'', ADDI, TYPE_I),
     (''0000000 ????? ????? 001 ????? 00100 11'', SLLI, TYPE_I),
     (''??????? ????? ????? 010 ????? 00100 11'', SLTI, TYPE_I),
     (''??????? ????? ????? 011 ????? 00100 11'', SLTIU, TYPE_I),
     (''??????? ????? ????? 100 ????? 00100 11'', XORI, TYPE_I),
     (''0000000 ????? ????? 101 ????? 00100 11'', SRLI, TYPE_I),
     (''0100000 ????? ????? 101 ????? 00100 11'', SRAI, TYPE_I),
     (''??????? ????? ????? 110 ????? 00100 11'', ORI, TYPE_I),
     (''??????? ????? ????? 111 ????? 00100 11'', ANDI, TYPE_I),
     (''??????? ????? ????? 000 ????? 11001 11'', JALR, TYPE_I),
     (''??????? ????? ????? 000 ????? 00000 11'', LB, TYPE_I),
     (''??????? ????? ????? 001 ????? 00000 11'', LH, TYPE_I),
     (''??????? ????? ????? 010 ????? 00000 11'', LW, TYPE_I),
     (''??????? ????? ????? 100 ????? 00000 11'', LBU, TYPE_I),
     (''??????? ????? ????? 101 ????? 00000 11'', LHU, TYPE_I),
     (''??????? ????? ????? 000 ????? 01000 11'', SB, TYPE_S),
     (''??????? ????? ????? 001 ????? 01000 11'', SH, TYPE_S),
     (''??????? ????? ????? 010 ????? 01000 11'', SW, TYPE_S),
     (''??????? ????? ????? 000 ????? 11000 11'', BEQ, TYPE_B),
     (''??????? ????? ????? 001 ????? 11000 11'', BNE, TYPE_B),
     (''??????? ????? ????? 100 ????? 11000 11'', BLT, TYPE_B),
     (''??????? ????? ????? 101 ????? 11000 11'', BGE, TYPE_B),
     (''??????? ????? ????? 110 ????? 11000 11'', BLTU, TYPE_B),
     (''??????? ????? ????? 111 ????? 11000 11'', BGEU, TYPE_B),
     (''??????? ????? ????? ??? ????? 01101 11'', LUI, TYPE_U),
     (''??????? ????? ????? ??? ????? 00101 11'', AUIPC, TYPE_U),
     (''??????? ????? ????? ??? ????? 11011 11'', JAL, TYPE_J),
     (''0000001 ????? ????? 000 ????? 01100 11'', MUL, TYPE_R),
     (''0000001 ????? ????? 001 ????? 01100 11'', MULH, TYPE_R),
     (''0000001 ????? ????? 011 ????? 01100 11'', MULHU, TYPE_R),
     (''0000001 ????? ????? 100 ????? 01100 11'', DIVr, TYPE_R),
     (''0000001 ????? ????? 101 ????? 01100 11'', DIVU, TYPE_R),
     (''0000001 ????? ????? 110 ????? 01100 11'', REM, TYPE_R),
     (''0000001 ????? ????? 111 ????? 01100 11'', REMU, TYPE_R),
     (''??????? ????? ????? 001 ????? 11100 11'', CSRRW, TYPE_I),
     (''??????? ????? ????? 010 ????? 11100 11'', CSRRS, TYPE_I),
     (''0000000 00000 00000 000 00000 11100 11'', ECALL, TYPE_I),
     (''0011000 00010 00000 000 00000 11100 11'', MRET, TYPE_R),
     (''0000000 00001 00000 000 00000 11100 11'', EBREAK, TYPE_N)]"

definition rv32_table :: "(string \<times> rv32_op \<times> rv_type) list" where
  "rv32_table = rv32_main_table @ [(''??????? ????? ????? ??? ????? ????? ??'', INV, TYPE_N)]"

section \<open>Execution\<close>

type_synonym rv32_result = "(u32 Decode \<times> rv32_machine) res"

abbreviation "rv32_wr c \<equiv> wr_reg c (rv_reg_count c)"
abbreviation "rv32_ld c \<equiv> ld_reg c (rv_reg_count c)"

definition rv32_br :: "bool \<Rightarrow> u32 \<Rightarrow> u32 Decode \<Rightarrow> rv32_machine \<Rightarrow> rv32_result" where
  "rv32_br b imm d m = Inr (if b then d\<lparr>dnpc := dpc d + push_bit 1 imm\<rparr> else d, m)"

text \<open>The bodies of the instructions, in the order of the table.\<close>

primrec rv32_execute :: "config \<Rightarrow> rv32_op \<Rightarrow> nat \<Rightarrow> u32 \<Rightarrow> u32 \<Rightarrow> u32 \<Rightarrow> u32 Decode \<Rightarrow>
    rv32_machine \<Rightarrow> rv32_result" where
  "rv32_execute c ADD rd src1 src2 imm d m = rv32_wr c rd (Inr (src1 + src2)) d m"
| "rv32_execute c SUB rd src1 src2 imm d m = rv32_wr c rd (Inr (src1 - src2)) d m"
| "rv32_execute c SLL rd src1 src2 imm d m = rv32_wr c rd (c_shl src1 src2) d m"
| "rv32_execute c SLT rd src1 src2 imm d m = rv32_wr c rd (Inr (b2w (src1 <s src2))) d m"
| "rv32_execute c SLTU rd src1 src2 imm d m = rv32_wr c rd (Inr (b2w (src1 < src2))) d m"
| "rv32_execute c XORr rd src1 src2 imm d m = rv32_wr c rd (Inr (src1 XOR src2)) d m"
| "rv32_execute c SRL rd src1 src2 imm d m = rv32_wr c rd (c_shr src1 src2) d m"
| "rv32_execute c SRA rd src1 src2 imm d m = rv32_wr c rd (c_sar src1 src2) d m"
| "rv32_execute c ORr rd src1 src2 imm d m = rv32_wr c rd (Inr (src1 OR src2)) d m"
| "rv32_execute c ANDr rd src1 src2 imm d m = rv32_wr c rd (Inr (src1 AND src2)) d m"
| "rv32_execute c ADDI rd src1 src2 imm d m = rv32_wr c rd (Inr (src1 + imm)) d m"
| "rv32_execute c SLLI rd src1 src2 imm d m = rv32_wr c rd (c_shl src1 (imm AND 31)) d m"
| "rv32_execute c SLTI rd src1 src2 imm d m = rv32_wr c rd (Inr (b2w (src1 <s imm))) d m"
| "rv32_execute c SLTIU rd src1 src2 imm d m = rv32_wr c rd (Inr (b2w (src1 < imm))) d m"
| "rv32_execute c XORI rd src1 src2 imm d m = rv32_wr c rd (Inr (src1 XOR imm)) d m"
| "rv32_execute c SRLI rd src1 src2 imm d m = rv32_wr c rd (c_shr src1 (imm AND 31)) d m"
| "rv32_execute c SRAI rd src1 src2 imm d m = rv32_wr c rd (c_sar src1 (imm AND 31)) d m"
| "rv32_execute c ORI rd src1 src2 imm d m = rv32_wr c rd (Inr (src1 OR imm)) d m"
| "rv32_execute c ANDI rd src1 src2 imm d m = rv32_wr c rd (Inr (src1 AND imm)) d m"
| "rv32_execute c JALR rd src1 src2 imm d m =
     rv32_wr c rd (Inr (dpc d + 4)) (d\<lparr>dnpc := (src1 + imm) AND NOT 1\<rparr>) m"
| "rv32_execute c LB rd src1 src2 imm d m =
     rv32_ld c rd (src1 + imm) 1 (\<lambda>w. ucast (SEXT (ucast w) 8)) d m"
| "rv32_execute c LH rd src1 src2 imm d m =
     rv32_ld c rd (src1 + imm) 2 (\<lambda>w. ucast (SEXT (ucast w) 16)) d m"
| "rv32_execute c LW rd src1 src2 imm d m = rv32_ld c rd (src1 + imm) 4 id d m"
| "rv32_execute c LBU rd src1 src2 imm d m = rv32_ld c rd (src1 + imm) 1 id d m"
| "rv32_execute c LHU rd src1 src2 imm d m = rv32_ld c rd (src1 + imm) 2 id d m"
| "rv32_execute c SB rd src1 src2 imm d m = st_mem c (src1 + imm) 1 src2 d m"
| "rv32_execute c SH rd src1 src2 imm d m = st_mem c (src1 + imm) 2 src2 d m"
| "rv32_execute c SW rd src1 src2 imm d m = st_mem c (src1 + imm) 4 src2 d m"
| "rv32_execute c BEQ rd src1 src2 imm d m = rv32_br (src1 = src2) imm d m"
| "rv32_execute c BNE rd src1 src2 imm d m = rv32_br (src1 \<noteq> src2) imm d m"
| "rv32_execute c BLT rd src1 src2 imm d m = rv32_br (src1 <s src2) imm d m"
| "rv32_execute c BGE rd src1 src2 imm d m = rv32_br (src2 \<le>s src1) imm d m"
| "rv32_execute c BLTU rd src1 src2 imm d m = rv32_br (src1 < src2) imm d m"
| "rv32_execute c BGEU rd src1 src2 imm d m = rv32_br (src2 \<le> src1) imm d m"
| "rv32_execute c LUI rd src1 src2 imm d m = rv32_wr c rd (Inr imm) d m"
| "rv32_execute c AUIPC rd src1 src2 imm d m = rv32_wr c rd (Inr (dpc d + imm)) d m"
| "rv32_execute c JAL rd src1 src2 imm d m =
     rv32_wr c rd (Inr (dpc d + 4)) (d\<lparr>dnpc := dpc d + push_bit 1 imm\<rparr>) m"
| "rv32_execute c MUL rd src1 src2 imm d m = rv32_wr c rd (Inr (src1 * src2)) d m"
| "rv32_execute c MULH rd src1 src2 imm d m =
     rv32_wr c rd (Inr (ucast (signed_drop_bit 32 (scast src1 * scast src2 :: u64)))) d m"
| "rv32_execute c MULHU rd src1 src2 imm d m =
     rv32_wr c rd (Inr (ucast (drop_bit 32 (ucast src1 * ucast src2 :: u64)))) d m"
| "rv32_execute c DIVr rd src1 src2 imm d m = rv32_wr c rd (c_sdiv src1 src2) d m"
| "rv32_execute c DIVU rd src1 src2 imm d m = rv32_wr c rd (c_udiv src1 src2) d m"
| "rv32_execute c REM rd src1 src2 imm d m = rv32_wr c rd (c_smod src1 src2) d m"
| "rv32_execute c REMU rd src1 src2 imm d m = rv32_wr c rd (c_umod src1 src2) d m"
| "rv32_execute c CSRRW rd src1 src2 imm d m =
     bindR (rv32_wr c rd (csr_read imm m) d m) (\<lambda>(d, m).
     bindR (csr_write imm src1 m) (\<lambda>m. Inr (d, m)))"
| "rv32_execute c CSRRS rd src1 src2 imm d m =
     bindR (rv32_wr c rd (csr_read imm m) d m) (\<lambda>(d, m).
     bindR (csr_read imm m) (\<lambda>old.
     bindR (csr_write imm (old OR src1) m) (\<lambda>m. Inr (d, m))))"
| "rv32_execute c ECALL rd src1 src2 imm d m =
     bindR (rv32_isa_reg_str2val ''a7'' m) (\<lambda>(NO, success).
     let (t, m) = rv32_isa_raise_intr NO (dpc d) m in Inr (d\<lparr>dnpc := t\<rparr>, m))"
| "rv32_execute c MRET rd src1 src2 imm d m = Inr (d\<lparr>dnpc := mepc (csr (cpu m))\<rparr>, m)"
| "rv32_execute c EBREAK rd src1 src2 imm d m =
     bindR (rv32_R c 10 m) (\<lambda>a0. Inr (d, m\<lparr>nsys := NEMUTRAP c (dpc d) a0 (nsys m)\<rparr>))"
| "rv32_execute c INV rd src1 src2 imm d m =
     bindR (invalid_inst c (dpc d) (nsys m)) (\<lambda>s. Inr (d, m\<lparr>nsys := s\<rparr>))"

definition rv32_decode_exec :: "config \<Rightarrow> u32 Decode \<Rightarrow> rv32_machine \<Rightarrow> rv32_result" where
  "rv32_decode_exec c d m =
     (let d = d\<lparr>dnpc := snpc d\<rparr> in
      bindR (decode_table rv32_table (inst_val d)) (\<lambda>hit.
      bindR (case hit of
               None \<Rightarrow> Inr (d, m)
             | Some (op, type) \<Rightarrow>
                 bindR (rv32_decode_operand c (inst_val d) type m) (\<lambda>(rd, src1, src2, imm).
                 rv32_execute c op rd src1 src2 imm d m)) (\<lambda>(d, m).
      finish_exec c (rv_reg_count c) d m)))"

definition rv32_isa_exec_once :: "config \<Rightarrow> u32 Decode \<Rightarrow> rv32_machine \<Rightarrow> rv32_result" where
  "rv32_isa_exec_once c d m =
     bindR (inst_fetch c (snpc d) 4 (nsys m)) (\<lambda>(i, p, s).
     rv32_decode_exec c (d\<lparr>snpc := p, inst_val := i\<rparr>) (m\<lparr>nsys := s\<rparr>))"

section \<open>Built-in image, reset, register comparison\<close>

definition rv32_img :: "u32 list" where
  "rv32_img = [0x00000297, 0x00028823, 0x0102c503, 0x00100073, 0xdeadbeef]"

definition RESET_VECTOR :: "config \<Rightarrow> u32" where
  "RESET_VECTOR c = cfg_mbase c + cfg_pc_reset_offset c"

definition rv32_restart :: "config \<Rightarrow> riscv32_CPU_state \<Rightarrow> riscv32_CPU_state res" where
  "rv32_restart c k =
     guardR (0 < length (gpr k)) Undef
      (Inr (k\<lparr>pc := RESET_VECTOR c, csr := (csr k)\<lparr>mstatus := 0x1800\<rparr>, gpr := (gpr k)[0 := 0]\<rparr>))"

definition load_image :: "hptr \<Rightarrow> u8 list \<Rightarrow> 'v sys \<Rightarrow> 'v sys res" where
  "load_image p bs s =
     (case p of
        SramP off \<Rightarrow> bindR (arr_store (sram s) off bs) (\<lambda>a. Inr (s\<lparr>sram := a\<rparr>))
      | FlashP off \<Rightarrow> bindR (arr_store (flash s) off bs) (\<lambda>a. Inr (s\<lparr>flash := a\<rparr>)))"

definition rv32_init_isa :: "config \<Rightarrow> rv32_machine \<Rightarrow> rv32_machine res" where
  "rv32_init_isa c m =
     bindR (guest_to_host 0x30000000) (\<lambda>p.
     bindR (load_image p (concat (map (le_bytes 4) rv32_img)) (nsys m)) (\<lambda>s.
     bindR (rv32_restart c (cpu m)) (\<lambda>k. Inr (m\<lparr>nsys := s, cpu := k\<rparr>))))"

fun checkregs_loop :: "nat \<Rightarrow> nat \<Rightarrow> 'v list \<Rightarrow> 'v list \<Rightarrow> bool res" where
  "checkregs_loop i 0 xs ys = Inr True"
| "checkregs_loop i (Suc n) xs ys =
     guardR (i < length xs \<and> i < length ys) Undef
      (if xs ! i \<noteq> ys ! i then Inr False else checkregs_loop (Suc i) n xs ys)"

definition rv32_isa_difftest_checkregs :: "riscv32_CPU_state \<Rightarrow> u32 \<Rightarrow> rv32_machine \<Rightarrow> bool res" where
  "rv32_isa_difftest_checkregs ref_r npc m = checkregs_loop 0 32 (gpr (cpu m)) (gpr ref_r)"

text \<open>\<^verbatim>\<open>isa_difftest_attach\<close> prints each register with both values and whether they differ.\<close>

fun attach_loop :: "nat \<Rightarrow> string list \<Rightarrow> 'v list \<Rightarrow> 'v list \<Rightarrow> (string \<times> 'v \<times> 'v \<times> bool) list res" where
  "attach_loop i [] xs ys = Inr []"
| "attach_loop i (r # names) xs ys =
     guardR (i < length xs \<and> i < length ys) Undef
      (bindR (attach_loop (Suc i) names xs ys) (\<lambda>out.
       Inr ((r, xs ! i, ys ! i, xs ! i \<noteq> ys ! i) # out)))"

definition rv32_isa_difftest_attach ::
    "riscv32_CPU_state \<Rightarrow> rv32_machine \<Rightarrow> (string \<times> u32 \<times> u32 \<times> bool) list res" where
  "rv32_isa_difftest_attach ref_r m = attach_loop 0 rv32_regs (gpr (cpu m)) (gpr ref_r)"

section \<open>The table does not depend on its order\<close>

lemma rv32_table_ok: "list_all (\<lambda>(p, _). pat_ok p) rv32_table"
  by code_simp

lemma rv32_table_clash: "pairwise_clash rv32_main_table"
  by (rule pairwise_clash_bits) code_simp

end
