(* ===== verification/RV32_Spec.thy ===== *)
theory RV32_Spec
  imports RV32
begin

text \<open>
  The RV32 executor against the RISC-V manual: the immediates bit by bit, decoding by patterns
  in any order, the arithmetic instructions against the manual's definition of their results,
  and the laws of the execution loop's interface \<open>isa_step\<close>.
\<close>

section \<open>Immediates\<close>

lemma bit_ibits [word_simps]: "bit (ibits i hi lo) k \<longleftrightarrow> k \<le> hi - lo \<and> bit i (lo + k)"
  by (auto simp: ibits_def bit_BITS bit_ucast_iff dest: bit_imp_le_length)

lemma bit_immI: "bit (immI i) k \<longleftrightarrow> k < 32 \<and> bit i (if k < 11 then 20 + k else 31)"
  by (auto simp: immI_def bit_ucast_iff bit_SEXT bit_ibits)

lemma bit_immS:
  "bit (immS i) k \<longleftrightarrow> k < 32 \<and> bit i (if k < 5 then 7 + k else if k < 11 then 20 + k else 31)"
  by (auto simp: immS_def bit_ucast_iff bit_or_iff bit_push_bit_iff bit_SEXT bit_ibits)

lemma bit_immU: "bit (immU i) k \<longleftrightarrow> 12 \<le> k \<and> bit i k"
  by (cases "k = 31") (auto simp: immU_def bit_ucast_iff bit_push_bit_iff bit_SEXT bit_ibits
      dest: bit_imp_le_length)

text \<open>
  The branch and jump offsets, \<^verbatim>\<open>imm << 1\<close>. Shifting a value in and sign-extending an \<^verbatim>\<open>int\<close>
  is described bit by bit once, and used for each intermediate variable.
\<close>

lemma bit_imm_step:
  fixes w :: u32 and f :: u64
  shows "bit (ucast ((scast (push_bit n w) :: u64) OR f) :: u32) j \<longleftrightarrow>
     j < 32 \<and> (n \<le> j \<and> bit w (j - n) \<or> bit f j)"
  unfolding bit_ucast_iff bit_or_iff bit_signed_iff bit_push_bit_iff
  by (cases "j = 31") (auto simp: min_def)

lemma bit_imm_first:
  fixes f x :: u64
  shows "bit (ucast (push_bit n x OR f) :: u32) j \<longleftrightarrow> j < 32 \<and> (n \<le> j \<and> bit x (j - n) \<or> bit f j)"
  unfolding bit_ucast_iff bit_or_iff bit_push_bit_iff by auto

lemma bit_immB_raw:
  "bit (immB i) j \<longleftrightarrow> j < 32 \<and>
     bit i (if j < 4 then 8 + j else if j < 10 then 21 + j else if j = 10 then 7 else 31)"
  unfolding immB_def Let_def bit_imm_step bit_imm_first bit_SEXT bit_ibits
  by (auto split: if_splits)

lemma bit_immB:
  "bit (push_bit 1 (immB i)) k \<longleftrightarrow> k < 32 \<and> 0 < k \<and>
     bit i (if k < 5 then 7 + k else if k < 11 then 20 + k else if k = 11 then 7 else 31)"
  unfolding bit_push_bit_iff bit_immB_raw by (cases k) auto

lemma bit_immJ_raw:
  "bit (immJ i) j \<longleftrightarrow> j < 32 \<and>
     bit i (if j < 10 then 21 + j else if j = 10 then 20 else if j < 19 then 1 + j else 31)"
  unfolding immJ_def Let_def bit_imm_step bit_imm_first bit_SEXT bit_ibits
  by (auto split: if_splits)

lemma bit_immJ:
  "bit (push_bit 1 (immJ i)) k \<longleftrightarrow> k < 32 \<and> 0 < k \<and>
     bit i (if k < 11 then 20 + k else if k = 11 then 20 else if k < 20 then k else 31)"
  unfolding bit_push_bit_iff bit_immJ_raw by (cases k) auto

section \<open>Decoding\<close>

lemma rv32_decode:
  assumes "(p, op, ty) \<in> set rv32_main_table" "agrees p w"
  shows "decode_table rv32_table w = Inr (Some (op, ty))"
  using decode_table_unique [OF _ rv32_table_clash assms] rv32_table_ok
  by (simp add: rv32_table_def)

lemma rv32_decode_inv:
  assumes "\<And>p op ty. (p, op, ty) \<in> set rv32_main_table \<Longrightarrow> \<not> agrees p w"
  shows "decode_table rv32_table w = Inr (Some (INV, TYPE_N))"
proof -
  have "find (\<lambda>(p, _). agrees p w) rv32_main_table = None"
    using assms by (auto simp: find_None_iff)
  moreover have "find (\<lambda>(p, _). agrees p w) (xs @ ys) = find (\<lambda>(p, _). agrees p w) ys"
    if "find (\<lambda>(p, _). agrees p w) xs = None" for xs ys :: "(string \<times> rv32_op \<times> rv_type) list"
    using that by (induction xs) (auto split: if_splits)
  moreover have "agrees ''??????? ????? ????? ??? ????? ????? ??'' w"
    unfolding agrees_def by (simp add: pat_chars_def)
  ultimately show ?thesis
    using decode_table_first [OF rv32_table_ok] by (simp add: rv32_table_def)
qed

section \<open>Arithmetic: the manual's results\<close>

text \<open>The manual's result of a register-register instruction; shifts use the low five bits.\<close>

fun riscv_alu :: "rv32_op \<Rightarrow> u32 \<Rightarrow> u32 \<Rightarrow> u32 option" where
  "riscv_alu ADD a b = Some (a + b)"
| "riscv_alu SUB a b = Some (a - b)"
| "riscv_alu SLL a b = Some (word_of_int (uint a * 2 ^ (unat b mod 32)))"
| "riscv_alu SLT a b = Some (if sint a < sint b then 1 else 0)"
| "riscv_alu SLTU a b = Some (if uint a < uint b then 1 else 0)"
| "riscv_alu XORr a b = Some (a XOR b)"
| "riscv_alu SRL a b = Some (word_of_int (uint a div 2 ^ (unat b mod 32)))"
| "riscv_alu SRA a b = Some (word_of_int (sint a div 2 ^ (unat b mod 32)))"
| "riscv_alu ORr a b = Some (a OR b)"
| "riscv_alu ANDr a b = Some (a AND b)"
| "riscv_alu MUL a b = Some (word_of_int (sint a * sint b))"
| "riscv_alu MULH a b = Some (word_of_int (sint a * sint b div 2 ^ 32))"
| "riscv_alu MULHU a b = Some (word_of_int (uint a * uint b div 2 ^ 32))"
| "riscv_alu DIVr a b =
     Some (if b = 0 then -1 else if sint a = - (2 ^ 31) \<and> sint b = -1 then a
           else word_of_int (sint a sdiv sint b))"
| "riscv_alu DIVU a b = Some (if b = 0 then -1 else word_of_int (uint a div uint b))"
| "riscv_alu REM a b =
     Some (if b = 0 then a else if sint a = - (2 ^ 31) \<and> sint b = -1 then 0
           else word_of_int (sint a smod sint b))"
| "riscv_alu REMU a b = Some (if b = 0 then a else word_of_int (uint a mod uint b))"
| "riscv_alu _ a b = None"

text \<open>The operand pairs on which the C expression of the source is defined.\<close>

fun alu_defined :: "rv32_op \<Rightarrow> u32 \<Rightarrow> u32 \<Rightarrow> bool" where
  "alu_defined SLL a b \<longleftrightarrow> unat b < 32"
| "alu_defined SRL a b \<longleftrightarrow> unat b < 32"
| "alu_defined SRA a b \<longleftrightarrow> unat b < 32"
| "alu_defined DIVr a b \<longleftrightarrow> b \<noteq> 0 \<and> \<not> (a = int_min \<and> b = -1)"
| "alu_defined REM a b \<longleftrightarrow> b \<noteq> 0 \<and> \<not> (a = int_min \<and> b = -1)"
| "alu_defined DIVU a b \<longleftrightarrow> b \<noteq> 0"
| "alu_defined REMU a b \<longleftrightarrow> b \<noteq> 0"
| "alu_defined _ a b \<longleftrightarrow> True"

lemma shl_manual: "push_bit n (a :: u32) = word_of_int (uint a * 2 ^ n)"
  by (simp add: push_bit_eq_mult)

lemma uint_drop_word: "uint (drop_bit n (a :: 'w::len word)) = drop_bit n (uint a)"
  by (simp add: unsigned_drop_bit_eq take_bit_int_eq_self)

lemma shr_manual: "drop_bit n (a :: u32) = word_of_int (uint a div 2 ^ n)"
proof -
  have "drop_bit n a = word_of_int (uint (drop_bit n a))" by (rule word_of_int_uint [symmetric])
  then show ?thesis unfolding uint_drop_word drop_bit_eq_div [where 'a = int] .
qed

lemma sra_manual: "signed_drop_bit n (a :: 'w::len word) = word_of_int (sint a div 2 ^ n)"
proof -
  have "signed_drop_bit n a = word_of_int (sint (signed_drop_bit n a))" by simp
  then show ?thesis by (simp add: sint_signed_drop_bit_eq drop_bit_eq_div)
qed

lemma uint_div_manual: "(a :: u32) div b = word_of_int (uint a div uint b)"
  "(a :: u32) mod b = word_of_int (uint a mod uint b)"
  by (simp_all add: word_div_def word_mod_def)

lemma ucast_word_of_int: "(ucast (word_of_int k :: u64) :: u32) = word_of_int k"
  by (rule bit_word_eqI) (simp add: bit_ucast_iff bit_word_of_int_iff)

lemma mulhu_manual:
  "ucast (drop_bit 32 (ucast a * ucast b :: u64)) =
   (word_of_int (uint a * uint (b :: u32) div 2 ^ 32) :: u32)" for a :: u32
proof -
  have "uint a * uint b < 2 ^ 32 * 2 ^ 32"
    using uint_lt2p [of a] uint_lt2p [of b] by (intro mult_strict_mono) auto
  moreover have "uint (ucast x :: u64) = uint x" for x :: u32
    using uint_lt2p [of x] by (simp add: unsigned_ucast_eq take_bit_int_eq_self)
  ultimately have "uint (ucast a * ucast b :: u64) = uint a * uint b"
    by (simp add: uint_word_ariths)
  then have "drop_bit 32 (ucast a * ucast b :: u64) = word_of_int (uint a * uint b div 2 ^ 32)"
    by (metis drop_bit_eq_div uint_drop_word word_of_int_uint)
  then show ?thesis by (simp add: ucast_word_of_int)
qed

lemma mulh_manual:
  "ucast (signed_drop_bit 32 (scast a * scast b :: u64)) =
   (word_of_int (sint a * sint (b :: u32) div 2 ^ 32) :: u32)" for a :: u32
proof -
  have b: "- (2 ^ 31) \<le> sint x" "sint x < 2 ^ 31" for x :: u32
    using sint_greater_eq [of x] sint_less [of x] by simp_all
  have "\<bar>sint a * sint b\<bar> \<le> 2 ^ 31 * 2 ^ 31"
    unfolding abs_mult using b [of a] b [of b] by (intro mult_mono) auto
  moreover have "sint (scast x :: u64) = sint x" for x :: u32
    using b [of x] by (simp add: signed_scast_eq signed_take_bit_int_eq_self)
  ultimately have "sint (scast a * scast b :: u64) = sint a * sint b"
    by (simp add: sint_word_ariths signed_take_bit_int_eq_self)
  then show ?thesis by (simp add: sra_manual ucast_word_of_int)
qed

lemma int_min_32: "a = int_min \<longleftrightarrow> sint (a :: u32) = - (2 ^ 31)"
proof -
  have "sint (int_min :: u32) = - (2 ^ 31)" by (simp add: int_min_def)
  then show ?thesis by (metis signed_word_eqI)
qed

lemma minus_one_32: "b = -1 \<longleftrightarrow> sint (b :: u32) = -1"
  by (metis signed_word_eqI sint_n1)

definition alu_res :: "rv32_op \<Rightarrow> u32 \<Rightarrow> u32 \<Rightarrow> u32 res" where
  "alu_res op a b = guardR (alu_defined op a b) Undef
     (case riscv_alu op a b of None \<Rightarrow> Inl Undef | Some w \<Rightarrow> Inr w)"

text \<open>
  Every register-register instruction writes the manual's result, or is undefined exactly on the
  pairs \<open>alu_defined\<close> excludes.
\<close>

lemma rv32_execute_alu:
  assumes "riscv_alu op a b \<noteq> None"
  shows "rv32_execute c op rd a b imm d m = rv32_wr c rd (alu_res op a b) d m"
  using assms
  by (cases op) (simp_all add: alu_res_def c_shl_def c_shr_def c_sar_def c_sdiv_def c_smod_def
      c_udiv_def c_umod_def guardR_def b2w_def shl_manual shr_manual sra_manual [where 'w = 32] uint_div_manual
      mulh_manual mulhu_manual int_min_32 minus_one_32 word_sless_alt word_less_alt)

section \<open>The zero register and the run state\<close>

lemma rv32_br_keeps: "rv32_br b imm d m = Inr (d', m') \<Longrightarrow> isa_keeps m m'"
  by (auto simp: rv32_br_def)

lemma upd_csr_keeps: "isa_keeps m (upd_csr f m)"
  by (simp add: upd_csr_def isa_keeps_def run_step_def)

lemma csr_write_keeps: "csr_write i w m = Inr m' \<Longrightarrow> isa_keeps m m'"
  by (auto simp: csr_write_def upd_csr_keeps split: if_splits)

lemma rv32_execute_keeps:
  assumes "rv32_execute c op rd a b imm d m = Inr (d', m')"
  shows "isa_keeps m m'"
proof (cases "op \<in> {CSRRW, CSRRS, ECALL, MRET, EBREAK, INV}")
  case True
  with assms show ?thesis
    by (auto simp: rv32_isa_raise_intr_def Let_def upd_csr_keeps isa_keeps_intros elim!: resE
        dest!: wr_reg_keeps csr_write_keeps dest: isa_keeps_trans)
next
  case False
  with assms show ?thesis
    by (cases op) (auto intro: isa_keeps_intros rv32_br_keeps)
qed

lemma rv32_step_keeps:
  "rv32_isa_exec_once c d m = Inr (d', m') \<Longrightarrow> isa_keeps m m' \<and> gpr (cpu m') ! 0 = 0"
  unfolding rv32_isa_exec_once_def rv32_decode_exec_def Let_def
  by (rule exec_once_keeps, assumption, rule decode_exec_keeps, assumption)
    (rule rv32_execute_keeps)

interpretation rv32: isa_step "rv32_isa_exec_once c" "rv_reg_count c" for c
  by unfold_locales (rule rv32_step_keeps)

section \<open>Whole steps\<close>

lemma rv32_R_ok:
  "\<not> cfg_rve c \<Longrightarrow> length (gpr (cpu m)) = 32 \<Longrightarrow> i < 32 \<Longrightarrow> rv32_R c i m = Inr (gpr (cpu m) ! i)"
  by (simp add: rv32_R_def reg_get_ok rv_reg_count_def)

lemma ibits_less: "unat (ibits i hi lo) < 2 ^ (hi - lo + 1)"
  unfolding ibits_def by (rule unat_BITS_less)

lemma field_less: "unat (ibits i 19 15) < 32" "unat (ibits i 24 20) < 32" "unat (ibits i 11 7) < 32"
  using ibits_less [of i 19 15] ibits_less [of i 24 20] ibits_less [of i 11 7] by simp_all

definition rs1_of :: "u32 \<Rightarrow> nat" where "rs1_of w = unat (ibits w 19 15)"
definition rs2_of :: "u32 \<Rightarrow> nat" where "rs2_of w = unat (ibits w 24 20)"
definition rd_of :: "u32 \<Rightarrow> nat" where "rd_of w = unat (ibits w 11 7)"

text \<open>Every instruction of type R but \<^verbatim>\<open>mret\<close> is one whose result the manual defines.\<close>

lemma type_R_alu: "op \<noteq> MRET \<Longrightarrow> (pat, op, TYPE_R) \<in> set rv32_main_table \<Longrightarrow> riscv_alu op a b \<noteq> None"
  by (auto simp: rv32_main_table_def)

text \<open>The registers of an instruction exist: on RV32E there are sixteen.\<close>

definition regs_exist :: "config \<Rightarrow> u32 \<Rightarrow> bool" where
  "regs_exist c w \<longleftrightarrow> rs1_of w < rv_reg_count c \<and> rs2_of w < rv_reg_count c \<and> rd_of w < rv_reg_count c"

lemma reg_out_of_range: "length rs \<le> idx \<Longrightarrow> length rs = n \<Longrightarrow> \<exists>e. reg_get c n idx rs = Inl e"
  "length rs \<le> idx \<Longrightarrow> length rs = n \<Longrightarrow> \<exists>e. reg_set c n idx v rs = Inl e"
  by (auto simp: reg_get_def reg_set_def check_reg_idx_def guardR_def)

lemma rv32_step_alu:
  assumes "length (gpr (cpu m)) = rv_reg_count c" "inst_fetch c (snpc d) 4 (nsys m) = Inr (w, p, s)"
    and "(pat, op, TYPE_R) \<in> set rv32_main_table" "agrees pat w" "op \<noteq> MRET"
  shows "regs_exist c w \<Longrightarrow> rv32_isa_exec_once c d m =
      bindR (alu_res op (gpr (cpu m) ! rs1_of w) (gpr (cpu m) ! rs2_of w)) (\<lambda>r.
      Inr (d\<lparr>snpc := p, dnpc := p, inst_val := w\<rparr>,
           m\<lparr>nsys := s, cpu := (cpu m)\<lparr>gpr := (gpr (cpu m))[rd_of w := r, 0 := 0]\<rparr>\<rparr>))"
    and "\<not> regs_exist c w \<Longrightarrow> \<exists>e. rv32_isa_exec_once c d m = Inl e"
proof -
  define i where "i = d\<lparr>snpc := p, inst_val := w, dnpc := p\<rparr>"
  have e: "rv32_isa_exec_once c d m =
      bindR (reg_get c (rv_reg_count c) (rs1_of w) (gpr (cpu m))) (\<lambda>a.
      bindR (reg_get c (rv_reg_count c) (rs2_of w) (gpr (cpu m))) (\<lambda>b.
      bindR (rv32_wr c (rd_of w) (alu_res op a b) i (m\<lparr>nsys := s\<rparr>)) (\<lambda>(d, m). finish_exec c (rv_reg_count c) d m)))"
    using assms(2) rv32_decode [OF assms(3,4)] rv32_execute_alu [OF type_R_alu [OF assms(5,3)]]
    by (simp add: rv32_isa_exec_once_def rv32_decode_exec_def Let_def rv32_decode_operand_def rv32_R_def bindR_assoc
        rs1_of_def rs2_of_def rd_of_def i_def)
  have n: "0 < rv_reg_count c" by (simp add: rv_reg_count_def)
  have i: "i = d\<lparr>snpc := p, dnpc := p, inst_val := w\<rparr>" by (simp add: i_def)
  show "rv32_isa_exec_once c d m =
      bindR (alu_res op (gpr (cpu m) ! rs1_of w) (gpr (cpu m) ! rs2_of w)) (\<lambda>r.
      Inr (d\<lparr>snpc := p, dnpc := p, inst_val := w\<rparr>,
           m\<lparr>nsys := s, cpu := (cpu m)\<lparr>gpr := (gpr (cpu m))[rd_of w := r, 0 := 0]\<rparr>\<rparr>))" if "regs_exist c w"
    unfolding e using that assms(1) n
    by (simp add: regs_exist_def reg_get_ok reg_set_ok wr_reg_def finish_exec_def upd_gpr_def bindR_assoc i)
  show "\<exists>e. rv32_isa_exec_once c d m = Inl e" if r: "\<not> regs_exist c w"
  proof (cases "rs1_of w < rv_reg_count c \<and> rs2_of w < rv_reg_count c")
    case True
    then have "length (gpr (cpu m)) \<le> rd_of w" using r assms(1) by (simp add: regs_exist_def)
    note out = reg_out_of_range(2) [OF this assms(1)]
    have "\<exists>f. rv32_wr c (rd_of w) x i (m\<lparr>nsys := s\<rparr>) = Inl f" for x
    proof (cases x)
      case (Inr v)
      from out [of c v] obtain f where "reg_set c (rv_reg_count c) (rd_of w) v (gpr (cpu m)) = Inl f" by blast
      then show ?thesis using Inr by (simp add: wr_reg_def upd_gpr_def)
    qed (simp add: wr_reg_def)
    from this [of "alu_res op (gpr (cpu m) ! rs1_of w) (gpr (cpu m) ! rs2_of w)"] obtain f
      where f: "rv32_wr c (rd_of w) (alu_res op (gpr (cpu m) ! rs1_of w) (gpr (cpu m) ! rs2_of w)) i (m\<lparr>nsys := s\<rparr>) = Inl f"
      by blast
    show ?thesis unfolding e using True assms(1) by (simp add: reg_get_ok f)
  next
    case False
    then show ?thesis unfolding e
      using reg_out_of_range(1) [of "gpr (cpu m)" "rs1_of w" "rv_reg_count c" c]
        reg_out_of_range(1) [of "gpr (cpu m)" "rs2_of w" "rv_reg_count c" c] assms(1)
      by (cases "rs1_of w < rv_reg_count c") (auto simp: reg_get_ok)
  qed
qed

text \<open>The manual's branch conditions.\<close>

fun riscv_branch :: "rv32_op \<Rightarrow> u32 \<Rightarrow> u32 \<Rightarrow> bool option" where
  "riscv_branch BEQ a b = Some (a = b)"
| "riscv_branch BNE a b = Some (a \<noteq> b)"
| "riscv_branch BLT a b = Some (sint a < sint b)"
| "riscv_branch BGE a b = Some (sint a \<ge> sint b)"
| "riscv_branch BLTU a b = Some (uint a < uint b)"
| "riscv_branch BGEU a b = Some (uint a \<ge> uint b)"
| "riscv_branch _ a b = None"

lemma rv32_execute_branch:
  assumes "riscv_branch op a b = Some t"
  shows "rv32_execute c op rd a b imm d m = rv32_br t imm d m"
  using assms
  by (cases op) (simp_all add: word_sless_alt word_sle_eq word_less_alt word_le_def)

lemma rv32_step_branch:
  assumes "\<not> cfg_rve c" "length (gpr (cpu m)) = 32"
    and "inst_fetch c (snpc d) 4 (nsys m) = Inr (w, p, s)"
    and "(pat, op, TYPE_B) \<in> set rv32_main_table" "agrees pat w"
    and "riscv_branch op (gpr (cpu m) ! rs1_of w) (gpr (cpu m) ! rs2_of w) = Some t"
  shows "rv32_isa_exec_once c d m =
    Inr (d\<lparr>snpc := p, dnpc := (if t then dpc d + push_bit 1 (immB w) else p), inst_val := w\<rparr>,
         m\<lparr>nsys := s, cpu := (cpu m)\<lparr>gpr := (gpr (cpu m))[0 := 0]\<rparr>\<rparr>)"
  using assms field_less [of w] rv32_decode [OF assms(4,5)]
  by (simp add: rv32_isa_exec_once_def rv32_decode_exec_def Let_def rv32_decode_operand_def
      rv32_R_ok rv32_execute_branch rv32_br_def finish_exec_def upd_gpr_def reg_set_ok
      rv_reg_count_def rs1_of_def rs2_of_def rd_of_def)

end
