(* ===== verification/RV64.thy ===== *)
theory RV64
  imports RV32_Spec
begin

text \<open>
  The RISC-V 64-bit guest, \<^verbatim>\<open>src/isa/riscv64\<close>, as far as the source implements it: the
  instructions work on 64-bit registers, several of them on the low halves only. The table
  lists \<^verbatim>\<open>li\<close> before \<^verbatim>\<open>addi\<close> with the same pattern, so the first of the two always matches.
\<close>

section \<open>State\<close>

type_synonym rv64_cpu = "u64 cpu_state"
type_synonym rv64_machine = "(u64, rv64_cpu) machine"
type_synonym rv64_result = "(u64 Decode \<times> rv64_machine) res"

definition rv64_R :: "config \<Rightarrow> nat \<Rightarrow> rv64_machine \<Rightarrow> u64 res" where
  "rv64_R c i m = reg_get c (rv_reg_count c) i (gpr (cpu m))"

definition rv64_isa_reg_display :: "rv64_machine \<Rightarrow> (string \<times> u64) list res" where
  "rv64_isa_reg_display m = reg_display_from 0 rv32_regs (gpr (cpu m))"

definition rv64_isa_reg_str2val :: "string \<Rightarrow> rv64_machine \<Rightarrow> (u64 \<times> bool) res" where
  "rv64_isa_reg_str2val s m =
     (case s of [] \<Rightarrow> Inl Undef | _ # t \<Rightarrow> reg_lookup 0 rv32_regs t (gpr (cpu m)))"

section \<open>Operands\<close>

definition immI64 :: "u32 \<Rightarrow> u64" where
  "immI64 i = SEXT (ibits i 31 20) 12"

definition immU64 :: "u32 \<Rightarrow> u64" where
  "immU64 i = push_bit 12 (SEXT (ibits i 31 12) 20)"

definition immS64 :: "u32 \<Rightarrow> u64" where
  "immS64 i = push_bit 5 (SEXT (ibits i 31 25) 7) OR ibits i 11 7"

definition immJ64 :: "u32 \<Rightarrow> u64" where
  "immJ64 i = push_bit 20 (SEXT (ibits i 31 31) 1) OR push_bit 1 (ibits i 30 21) OR
     push_bit 11 (ibits i 20 20) OR push_bit 12 (ibits i 19 12)"

definition immB64 :: "u32 \<Rightarrow> u64" where
  "immB64 i = push_bit 12 (SEXT (ibits i 31 31) 1) OR push_bit 5 (ibits i 30 25) OR
     push_bit 1 (ibits i 11 8) OR push_bit 11 (ibits i 7 7)"

definition rv64_decode_operand ::
    "config \<Rightarrow> u32 \<Rightarrow> rv_type \<Rightarrow> rv64_machine \<Rightarrow> (nat \<times> u64 \<times> u64 \<times> u64) res" where
  "rv64_decode_operand c i type m =
     (let rs1 = unat (ibits i 19 15); rs2 = unat (ibits i 24 20); rd = unat (ibits i 11 7);
          src1 = rv64_R c rs1 m; src2 = rv64_R c rs2 m in
      case type of
        TYPE_I \<Rightarrow> bindR src1 (\<lambda>a. Inr (rd, a, 0, immI64 i))
      | TYPE_U \<Rightarrow> Inr (rd, 0, 0, immU64 i)
      | TYPE_S \<Rightarrow> bindR src1 (\<lambda>a. bindR src2 (\<lambda>b. Inr (rd, a, b, immS64 i)))
      | TYPE_J \<Rightarrow> Inr (rd, 0, 0, immJ64 i)
      | TYPE_B \<Rightarrow> bindR src1 (\<lambda>a. bindR src2 (\<lambda>b. Inr (rd, a, b, immB64 i)))
      | TYPE_R \<Rightarrow> bindR src1 (\<lambda>a. bindR src2 (\<lambda>b. Inr (rd, a, b, 0)))
      | TYPE_N \<Rightarrow> Inr (rd, 0, 0, 0))"

section \<open>The instruction table\<close>

datatype rv64_op =
  LI64 | AUIPC64 | LUI64 | LB64 | LBU64 | SB64 | JAL64 | ADDI64 | ADD64 | SW64 | JALR64 | LW64
| SUB64 | SLTIU64 | BEQ64 | BNE64 | SLTU64 | SH64 | SRA64 | SRAI64 | ANDI64 | SLL64 | XORI64
| BGE64 | SRL64 | SRLI64 | BGEU64 | SLLI64 | MUL64 | MULH64 | DIV64 | DIVU64 | REM64 | BLT64
| BLTU64 | SLT64 | LH64 | LHU64 | REMU64 | AND64 | XOR64 | OR64 | EBREAK64 | INV64

definition rv64_table :: "(string \<times> rv64_op \<times> rv_type) list" where
  "rv64_table =
    [(''??????? ????? ????? 000 ????? 00100 11'', LI64, TYPE_I),
     (''??????? ????? ????? ??? ????? 00101 11'', AUIPC64, TYPE_U),
     (''??????? ????? ????? ??? ????? 01101 11'', LUI64, TYPE_U),
     (''??????? ????? ????? 000 ????? 00000 11'', LB64, TYPE_I),
     (''??????? ????? ????? 100 ????? 00000 11'', LBU64, TYPE_I),
     (''??????? ????? ????? 000 ????? 01000 11'', SB64, TYPE_S),
     (''??????? ????? ????? ??? ????? 11011 11'', JAL64, TYPE_J),
     (''??????? ????? ????? 000 ????? 00100 11'', ADDI64, TYPE_I),
     (''0000000 ????? ????? 000 ????? 01100 11'', ADD64, TYPE_R),
     (''??????? ????? ????? 010 ????? 01000 11'', SW64, TYPE_S),
     (''??????? ????? ????? 000 ????? 11001 11'', JALR64, TYPE_I),
     (''??????? ????? ????? 010 ????? 00000 11'', LW64, TYPE_I),
     (''0100000 ????? ????? 000 ????? 01100 11'', SUB64, TYPE_R),
     (''??????? ????? ????? 011 ????? 00100 11'', SLTIU64, TYPE_I),
     (''??????? ????? ????? 000 ????? 11000 11'', BEQ64, TYPE_B),
     (''??????? ????? ????? 001 ????? 11000 11'', BNE64, TYPE_B),
     (''0000000 ????? ????? 011 ????? 01100 11'', SLTU64, TYPE_R),
     (''??????? ????? ????? 001 ????? 01000 11'', SH64, TYPE_S),
     (''0100000 ????? ????? 101 ????? 01100 11'', SRA64, TYPE_R),
     (''0100000 ????? ????? 101 ????? 00100 11'', SRAI64, TYPE_I),
     (''??????? ????? ????? 111 ????? 00100 11'', ANDI64, TYPE_I),
     (''0000000 ????? ????? 001 ????? 01100 11'', SLL64, TYPE_R),
     (''??????? ????? ????? 100 ????? 00100 11'', XORI64, TYPE_I),
     (''??????? ????? ????? 101 ????? 11000 11'', BGE64, TYPE_B),
     (''0000000 ????? ????? 101 ????? 01100 11'', SRL64, TYPE_R),
     (''0000000 ????? ????? 101 ????? 00100 11'', SRLI64, TYPE_I),
     (''??????? ????? ????? 111 ????? 11000 11'', BGEU64, TYPE_B),
     (''0000000 ????? ????? 001 ????? 00100 11'', SLLI64, TYPE_I),
     (''0000001 ????? ????? 000 ????? 01100 11'', MUL64, TYPE_R),
     (''0000001 ????? ????? 001 ????? 01100 11'', MULH64, TYPE_R),
     (''0000001 ????? ????? 100 ????? 01100 11'', DIV64, TYPE_R),
     (''0000001 ????? ????? 101 ????? 01100 11'', DIVU64, TYPE_R),
     (''0000001 ????? ????? 110 ????? 01100 11'', REM64, TYPE_R),
     (''??????? ????? ????? 100 ????? 11000 11'', BLT64, TYPE_B),
     (''??????? ????? ????? 110 ????? 11000 11'', BLTU64, TYPE_B),
     (''0000000 ????? ????? 010 ????? 01100 11'', SLT64, TYPE_R),
     (''??????? ????? ????? 001 ????? 00000 11'', LH64, TYPE_I),
     (''??????? ????? ????? 101 ????? 00000 11'', LHU64, TYPE_I),
     (''0000001 ????? ????? 111 ????? 01100 11'', REMU64, TYPE_R),
     (''0000000 ????? ????? 111 ????? 01100 11'', AND64, TYPE_R),
     (''0000000 ????? ????? 100 ????? 01100 11'', XOR64, TYPE_R),
     (''0000000 ????? ????? 110 ????? 01100 11'', OR64, TYPE_R),
     (''0000000 00001 00000 000 00000 11100 11'', EBREAK64, TYPE_N),
     (''??????? ????? ????? ??? ????? ????? ??'', INV64, TYPE_N)]"

section \<open>Execution\<close>

text \<open>\<open>lo\<close> is the conversion to \<^verbatim>\<open>uint32_t\<close> or \<^verbatim>\<open>int\<close>; \<open>zx\<close> and \<open>sx\<close> convert back.\<close>

abbreviation lo :: "u64 \<Rightarrow> u32" where "lo \<equiv> ucast"
abbreviation zx :: "u32 res \<Rightarrow> u64 res" where "zx r \<equiv> bindR r (\<lambda>w. Inr (ucast w))"
abbreviation sx :: "u32 res \<Rightarrow> u64 res" where "sx r \<equiv> bindR r (\<lambda>w. Inr (scast w))"
abbreviation "rv64_wr c \<equiv> wr_reg c (rv_reg_count c)"
abbreviation "rv64_ld c \<equiv> ld_reg c (rv_reg_count c)"

text \<open>\<^verbatim>\<open>s->dnpc += b ? imm - 4 : 0\<close>, where \<^verbatim>\<open>dnpc\<close> holds \<^verbatim>\<open>snpc\<close>.\<close>

definition rv64_br :: "bool \<Rightarrow> u64 \<Rightarrow> u64 Decode \<Rightarrow> rv64_machine \<Rightarrow> rv64_result" where
  "rv64_br b imm d m = Inr (d\<lparr>dnpc := dnpc d + (if b then imm - 4 else 0)\<rparr>, m)"

text \<open>\<^verbatim>\<open>(SEXT(BITS(src1, 31, 31), 1) << (32 - n)) | (src1 >> n)\<close> for \<open>n < 32\<close>.\<close>

definition sra64 :: "u64 \<Rightarrow> nat \<Rightarrow> u64" where
  "sra64 src1 n = push_bit (32 - n) (SEXT (BITS src1 31 31) 1) OR drop_bit n src1"

primrec rv64_execute :: "config \<Rightarrow> rv64_op \<Rightarrow> nat \<Rightarrow> u64 \<Rightarrow> u64 \<Rightarrow> u64 \<Rightarrow> u64 Decode \<Rightarrow>
    rv64_machine \<Rightarrow> rv64_result" where
  "rv64_execute c LI64 rd src1 src2 imm d m = rv64_wr c rd (Inr (src1 + imm)) d m"
| "rv64_execute c AUIPC64 rd src1 src2 imm d m = rv64_wr c rd (Inr (dpc d + imm)) d m"
| "rv64_execute c LUI64 rd src1 src2 imm d m = rv64_wr c rd (Inr imm) d m"
| "rv64_execute c LB64 rd src1 src2 imm d m = rv64_ld c rd (src1 + imm) 1 (\<lambda>w. SEXT w 8) d m"
| "rv64_execute c LBU64 rd src1 src2 imm d m = rv64_ld c rd (src1 + imm) 1 id d m"
| "rv64_execute c SB64 rd src1 src2 imm d m = st_mem c (src1 + imm) 1 src2 d m"
| "rv64_execute c JAL64 rd src1 src2 imm d m =
     rv64_wr c rd (Inr (dpc d + 4)) (d\<lparr>dnpc := dnpc d + (imm - 4)\<rparr>) m"
| "rv64_execute c ADDI64 rd src1 src2 imm d m = rv64_wr c rd (Inr (src1 + imm)) d m"
| "rv64_execute c ADD64 rd src1 src2 imm d m = rv64_wr c rd (Inr (src1 + src2)) d m"
| "rv64_execute c SW64 rd src1 src2 imm d m = st_mem c (src1 + imm) 4 src2 d m"
| "rv64_execute c JALR64 rd src1 src2 imm d m =
     rv64_wr c rd (Inr (dpc d + 4)) (d\<lparr>dnpc := (src1 + imm) AND NOT 1\<rparr>) m"
| "rv64_execute c LW64 rd src1 src2 imm d m = rv64_ld c rd (src1 + imm) 4 (\<lambda>w. SEXT w 32) d m"
| "rv64_execute c SUB64 rd src1 src2 imm d m = rv64_wr c rd (Inr (src1 - src2)) d m"
| "rv64_execute c SLTIU64 rd src1 src2 imm d m = rv64_wr c rd (Inr (b2w (lo src1 < lo imm))) d m"
| "rv64_execute c BEQ64 rd src1 src2 imm d m = rv64_br (src1 = src2) imm d m"
| "rv64_execute c BNE64 rd src1 src2 imm d m = rv64_br (src1 \<noteq> src2) imm d m"
| "rv64_execute c SLTU64 rd src1 src2 imm d m = rv64_wr c rd (Inr (b2w (lo src1 < lo src2))) d m"
| "rv64_execute c SH64 rd src1 src2 imm d m = st_mem c (src1 + imm) 2 src2 d m"
| "rv64_execute c SRA64 rd src1 src2 imm d m =
     rv64_wr c rd (Inr (sra64 src1 (unat (BITS src2 4 0)))) d m"
| "rv64_execute c SRAI64 rd src1 src2 imm d m =
     rv64_wr c rd (Inr (sra64 src1 (unat (BITS imm 4 0)))) d m"
| "rv64_execute c ANDI64 rd src1 src2 imm d m = rv64_wr c rd (Inr (imm AND src1)) d m"
| "rv64_execute c SLL64 rd src1 src2 imm d m = rv64_wr c rd (c_shl src1 (BITS src2 4 0)) d m"
| "rv64_execute c XORI64 rd src1 src2 imm d m = rv64_wr c rd (Inr (src1 XOR imm)) d m"
| "rv64_execute c BGE64 rd src1 src2 imm d m = rv64_br (lo src2 \<le>s lo src1) imm d m"
| "rv64_execute c SRL64 rd src1 src2 imm d m =
     rv64_wr c rd (zx (c_shr (lo src1) (lo (BITS src2 4 0)))) d m"
| "rv64_execute c SRLI64 rd src1 src2 imm d m = rv64_wr c rd (c_shr src1 (ucast (lo imm))) d m"
| "rv64_execute c BGEU64 rd src1 src2 imm d m = rv64_br (lo src2 \<le> lo src1) imm d m"
| "rv64_execute c SLLI64 rd src1 src2 imm d m = rv64_wr c rd (c_shl src1 imm) d m"
| "rv64_execute c MUL64 rd src1 src2 imm d m = rv64_wr c rd (Inr (src1 * src2)) d m"
| "rv64_execute c MULH64 rd src1 src2 imm d m =
     rv64_wr c rd (Inr (signed_drop_bit 32 (scast (lo src1) * scast (lo src2)) AND BITMASK 32)) d m"
| "rv64_execute c DIV64 rd src1 src2 imm d m = rv64_wr c rd (sx (c_sdiv (lo src1) (lo src2))) d m"
| "rv64_execute c DIVU64 rd src1 src2 imm d m =
     rv64_wr c rd (c_udiv (ucast (lo src1)) src2) d m"
| "rv64_execute c REM64 rd src1 src2 imm d m = rv64_wr c rd (sx (c_smod (lo src1) (lo src2))) d m"
| "rv64_execute c BLT64 rd src1 src2 imm d m = rv64_br (lo src1 <s lo src2) imm d m"
| "rv64_execute c BLTU64 rd src1 src2 imm d m = rv64_br (lo src1 < lo src2) imm d m"
| "rv64_execute c SLT64 rd src1 src2 imm d m = rv64_wr c rd (Inr (b2w (lo src1 <s lo src2))) d m"
| "rv64_execute c LH64 rd src1 src2 imm d m = rv64_ld c rd (src1 + imm) 2 (\<lambda>w. SEXT w 16) d m"
| "rv64_execute c LHU64 rd src1 src2 imm d m = rv64_ld c rd (src1 + imm) 2 id d m"
| "rv64_execute c REMU64 rd src1 src2 imm d m = rv64_wr c rd (zx (c_umod (lo src1) (lo src2))) d m"
| "rv64_execute c AND64 rd src1 src2 imm d m = rv64_wr c rd (Inr (src1 AND src2)) d m"
| "rv64_execute c XOR64 rd src1 src2 imm d m = rv64_wr c rd (Inr (src1 XOR src2)) d m"
| "rv64_execute c OR64 rd src1 src2 imm d m = rv64_wr c rd (Inr (src1 OR src2)) d m"
| "rv64_execute c EBREAK64 rd src1 src2 imm d m =
     bindR (rv64_R c 10 m) (\<lambda>a0. Inr (d, m\<lparr>nsys := NEMUTRAP c (dpc d) (lo a0) (nsys m)\<rparr>))"
| "rv64_execute c INV64 rd src1 src2 imm d m =
     bindR (invalid_inst c (dpc d) (nsys m)) (\<lambda>s. Inr (d, m\<lparr>nsys := s\<rparr>))"

definition rv64_decode_exec :: "config \<Rightarrow> u64 Decode \<Rightarrow> rv64_machine \<Rightarrow> rv64_result" where
  "rv64_decode_exec c d m =
     (let d = d\<lparr>dnpc := snpc d\<rparr> in
      bindR (decode_table rv64_table (inst_val d)) (\<lambda>hit.
      bindR (case hit of
               None \<Rightarrow> Inr (d, m)
             | Some (op, type) \<Rightarrow>
                 bindR (rv64_decode_operand c (inst_val d) type m) (\<lambda>(rd, src1, src2, imm).
                 rv64_execute c op rd src1 src2 imm d m)) (\<lambda>(d, m).
      finish_exec c (rv_reg_count c) d m)))"

definition rv64_isa_exec_once :: "config \<Rightarrow> u64 Decode \<Rightarrow> rv64_machine \<Rightarrow> rv64_result" where
  "rv64_isa_exec_once c d m =
     bindR (inst_fetch c (snpc d) 4 (nsys m)) (\<lambda>(i, p, s).
     rv64_decode_exec c (d\<lparr>snpc := p, inst_val := i\<rparr>) (m\<lparr>nsys := s\<rparr>))"

section \<open>Reset\<close>

definition rv64_img :: "u32 list" where
  "rv64_img = [0x00000297, 0x00028823, 0x0102c503, 0x00100073, 0xdeadbeef]"

definition rv64_restart :: "config \<Rightarrow> rv64_cpu \<Rightarrow> rv64_cpu res" where
  "rv64_restart c k =
     guardR (0 < length (gpr k)) Undef
      (Inr (k\<lparr>pc := ucast (RESET_VECTOR c), gpr := (gpr k)[0 := 0]\<rparr>))"

definition rv64_init_isa :: "config \<Rightarrow> rv64_machine \<Rightarrow> rv64_machine res" where
  "rv64_init_isa c m =
     bindR (guest_to_host (RESET_VECTOR c)) (\<lambda>p.
     bindR (load_image p (concat (map (le_bytes 4) rv64_img)) (nsys m)) (\<lambda>s.
     bindR (rv64_restart c (cpu m)) (\<lambda>k. Inr (m\<lparr>nsys := s, cpu := k\<rparr>))))"

section \<open>What a step keeps\<close>

lemma rv64_execute_keeps:
  assumes "rv64_execute c op rd a b imm d m = Inr (d', m')"
  shows "isa_keeps m m'"
  using assms
  by (cases op) (auto intro: isa_keeps_intros simp: rv64_br_def elim!: resE)

lemma rv64_step_keeps:
  "rv64_isa_exec_once c d m = Inr (d', m') \<Longrightarrow> isa_keeps m m' \<and> gpr (cpu m') ! 0 = 0"
  unfolding rv64_isa_exec_once_def rv64_decode_exec_def Let_def
  by (rule exec_once_keeps, assumption, rule decode_exec_keeps, assumption)
    (rule rv64_execute_keeps)

interpretation rv64: isa_step "rv64_isa_exec_once c" "rv_reg_count c" for c
  by unfold_locales (rule rv64_step_keeps)

section \<open>The offsets of branches and jumps\<close>

lemma bit_immB64:
  "bit (immB64 i) k \<longleftrightarrow> k < 64 \<and> 0 < k \<and>
     bit i (if k < 5 then 7 + k else if k < 11 then 20 + k else if k = 11 then 7 else 31)"
  unfolding immB64_def bit_or_iff bit_push_bit_iff bit_SEXT bit_ibits
  by (auto split: if_splits)

lemma bit_immJ64:
  "bit (immJ64 i) k \<longleftrightarrow> k < 64 \<and> 0 < k \<and>
     bit i (if k < 11 then 20 + k else if k = 11 then 20 else if k < 20 then k else 31)"
  unfolding immJ64_def bit_or_iff bit_push_bit_iff bit_SEXT bit_ibits
  by (auto split: if_splits)

end
