(* ===== verification/Small_ISAs.thy ===== *)
theory Small_ISAs
  imports RV64
begin

text \<open>
  The MIPS32 and LoongArch32r guests, \<^verbatim>\<open>src/isa/mips32\<close> and \<^verbatim>\<open>src/isa/loongarch32r\<close>: four
  instructions each. Their \<^verbatim>\<open>isa_reg_display\<close>, \<^verbatim>\<open>isa_difftest_attach\<close> are empty, the other
  functions of the interface return constants.
\<close>

section \<open>MIPS32\<close>

record mips32_CPU_state = "u32 cpu_state" +
  pad :: "u32 list"

type_synonym mips32_machine = "(u32, mips32_CPU_state) machine"
type_synonym mips32_result = "(u32 Decode \<times> mips32_machine) res"

datatype mips32_type = M_TYPE_I | M_TYPE_U | M_TYPE_N

datatype mips32_op = M_LUI | M_LW | M_SW | M_SDBBP | M_INV

definition mips32_table :: "(string \<times> mips32_op \<times> mips32_type) list" where
  "mips32_table =
    [(''001111 ????? ????? ????? ????? ??????'', M_LUI, M_TYPE_U),
     (''100011 ????? ????? ????? ????? ??????'', M_LW, M_TYPE_I),
     (''101011 ????? ????? ????? ????? ??????'', M_SW, M_TYPE_I),
     (''011100 ????? ????? ????? ????? 111111'', M_SDBBP, M_TYPE_N),
     (''?????? ????? ????? ????? ????? ??????'', M_INV, M_TYPE_N)]"

definition mips32_R :: "config \<Rightarrow> nat \<Rightarrow> mips32_machine \<Rightarrow> u32 res" where
  "mips32_R c i m = reg_get c 32 i (gpr (cpu m))"

definition mips32_decode_operand ::
    "config \<Rightarrow> u32 \<Rightarrow> mips32_type \<Rightarrow> mips32_machine \<Rightarrow> (nat \<times> u32 \<times> u32 \<times> u32) res" where
  "mips32_decode_operand c i type m =
     (let rt = unat (ibits i 20 16); rs = unat (ibits i 25 21);
          rd = (if type = M_TYPE_U \<or> type = M_TYPE_I then rt else unat (ibits i 15 11)) in
      case type of
        M_TYPE_I \<Rightarrow> bindR (mips32_R c rs m) (\<lambda>a. Inr (rd, a, 0, ucast (SEXT (ibits i 15 0) 16)))
      | M_TYPE_U \<Rightarrow> bindR (mips32_R c rs m) (\<lambda>a. Inr (rd, a, 0, ucast (ibits i 15 0)))
      | M_TYPE_N \<Rightarrow> Inr (rd, 0, 0, 0))"

primrec mips32_execute :: "config \<Rightarrow> mips32_op \<Rightarrow> nat \<Rightarrow> u32 \<Rightarrow> u32 \<Rightarrow> u32 \<Rightarrow> u32 Decode \<Rightarrow>
    mips32_machine \<Rightarrow> mips32_result" where
  "mips32_execute c M_LUI rd src1 src2 imm d m = wr_reg c 32 rd (Inr (push_bit 16 imm)) d m"
| "mips32_execute c M_LW rd src1 src2 imm d m = ld_reg c 32 rd (src1 + imm) 4 id d m"
| "mips32_execute c M_SW rd src1 src2 imm d m =
     bindR (mips32_R c rd m) (\<lambda>w. st_mem c (src1 + imm) 4 w d m)"
| "mips32_execute c M_SDBBP rd src1 src2 imm d m =
     bindR (mips32_R c 2 m) (\<lambda>v0. Inr (d, m\<lparr>nsys := NEMUTRAP c (dpc d) v0 (nsys m)\<rparr>))"
| "mips32_execute c M_INV rd src1 src2 imm d m =
     bindR (invalid_inst c (dpc d) (nsys m)) (\<lambda>s. Inr (d, m\<lparr>nsys := s\<rparr>))"

definition mips32_decode_exec :: "config \<Rightarrow> u32 Decode \<Rightarrow> mips32_machine \<Rightarrow> mips32_result" where
  "mips32_decode_exec c d m =
     (let d = d\<lparr>dnpc := snpc d\<rparr> in
      bindR (decode_table mips32_table (inst_val d)) (\<lambda>hit.
      bindR (case hit of
               None \<Rightarrow> Inr (d, m)
             | Some (op, type) \<Rightarrow>
                 bindR (mips32_decode_operand c (inst_val d) type m) (\<lambda>(rd, src1, src2, imm).
                 mips32_execute c op rd src1 src2 imm d m)) (\<lambda>(d, m).
      finish_exec c 32 d m)))"

definition mips32_isa_exec_once :: "config \<Rightarrow> u32 Decode \<Rightarrow> mips32_machine \<Rightarrow> mips32_result" where
  "mips32_isa_exec_once c d m =
     bindR (inst_fetch c (snpc d) 4 (nsys m)) (\<lambda>(i, p, s).
     mips32_decode_exec c (d\<lparr>snpc := p, inst_val := i\<rparr>) (m\<lparr>nsys := s\<rparr>))"

definition mips32_img :: "u32 list" where
  "mips32_img = [0x3c048000, 0xac800000, 0x8c820000, 0x7000003f]"

definition mips32_restart :: "config \<Rightarrow> mips32_CPU_state \<Rightarrow> mips32_CPU_state res" where
  "mips32_restart c k =
     guardR (0 < length (gpr k)) Undef (Inr (k\<lparr>pc := RESET_VECTOR c, gpr := (gpr k)[0 := 0]\<rparr>))"

definition mips32_init_isa :: "config \<Rightarrow> mips32_machine \<Rightarrow> mips32_machine res" where
  "mips32_init_isa c m =
     bindR (guest_to_host (RESET_VECTOR c)) (\<lambda>p.
     bindR (load_image p (concat (map (le_bytes 4) mips32_img)) (nsys m)) (\<lambda>s.
     bindR (mips32_restart c (cpu m)) (\<lambda>k. Inr (m\<lparr>nsys := s, cpu := k\<rparr>))))"

lemma mips32_execute_keeps:
  "mips32_execute c op rd a b imm d m = Inr (d', m') \<Longrightarrow> isa_keeps m m'"
  by (cases op) (auto intro: isa_keeps_intros elim!: resE)

lemma mips32_step_keeps:
  "mips32_isa_exec_once c d m = Inr (d', m') \<Longrightarrow> isa_keeps m m' \<and> gpr (cpu m') ! 0 = 0"
  unfolding mips32_isa_exec_once_def mips32_decode_exec_def Let_def
  by (rule exec_once_keeps, assumption, rule decode_exec_keeps, assumption)
    (rule mips32_execute_keeps)

interpretation mips32: isa_step "mips32_isa_exec_once c" 32 for c
  by unfold_locales (rule mips32_step_keeps)

section \<open>LoongArch32r\<close>

type_synonym la_machine = "(u32, u32 cpu_state) machine"
type_synonym la_result = "(u32 Decode \<times> la_machine) res"

datatype la_type = TYPE_2RI12 | TYPE_1RI20 | LA_TYPE_N

datatype la_op = PCADDU12I | LD_W | ST_W | LA_BREAK | LA_INV

definition la_table :: "(string \<times> la_op \<times> la_type) list" where
  "la_table =
    [(''0001110 ????? ????? ????? ????? ?????'', PCADDU12I, TYPE_1RI20),
     (''0010100010 ???????????? ????? ?????'', LD_W, TYPE_2RI12),
     (''0010100110 ???????????? ????? ?????'', ST_W, TYPE_2RI12),
     (''0000 0000 0010 10100 ????? ????? ?????'', LA_BREAK, LA_TYPE_N),
     (''????????????????? ????? ????? ?????'', LA_INV, LA_TYPE_N)]"

definition la_R :: "config \<Rightarrow> nat \<Rightarrow> la_machine \<Rightarrow> u32 res" where
  "la_R c i m = reg_get c 32 i (gpr (cpu m))"

definition la_decode_operand ::
    "config \<Rightarrow> u32 \<Rightarrow> la_type \<Rightarrow> la_machine \<Rightarrow> (nat \<times> u32 \<times> u32 \<times> u32) res" where
  "la_decode_operand c i type m =
     (let rj = unat (ibits i 9 5); rd = unat (ibits i 4 0) in
      case type of
        TYPE_1RI20 \<Rightarrow>
          bindR (la_R c rj m) (\<lambda>a. Inr (rd, a, 0, ucast (push_bit 12 (SEXT (ibits i 24 5) 20))))
      | TYPE_2RI12 \<Rightarrow>
          bindR (la_R c rj m) (\<lambda>a. Inr (rd, a, 0, ucast (SEXT (ibits i 21 10) 12)))
      | LA_TYPE_N \<Rightarrow> Inr (rd, 0, 0, 0))"

primrec la_execute :: "config \<Rightarrow> la_op \<Rightarrow> nat \<Rightarrow> u32 \<Rightarrow> u32 \<Rightarrow> u32 \<Rightarrow> u32 Decode \<Rightarrow>
    la_machine \<Rightarrow> la_result" where
  "la_execute c PCADDU12I rd src1 src2 imm d m = wr_reg c 32 rd (Inr (dpc d + imm)) d m"
| "la_execute c LD_W rd src1 src2 imm d m = ld_reg c 32 rd (src1 + imm) 4 id d m"
| "la_execute c ST_W rd src1 src2 imm d m =
     bindR (la_R c rd m) (\<lambda>w. st_mem c (src1 + imm) 4 w d m)"
| "la_execute c LA_BREAK rd src1 src2 imm d m =
     bindR (la_R c 4 m) (\<lambda>a0. Inr (d, m\<lparr>nsys := NEMUTRAP c (dpc d) a0 (nsys m)\<rparr>))"
| "la_execute c LA_INV rd src1 src2 imm d m =
     bindR (invalid_inst c (dpc d) (nsys m)) (\<lambda>s. Inr (d, m\<lparr>nsys := s\<rparr>))"

definition la_decode_exec :: "config \<Rightarrow> u32 Decode \<Rightarrow> la_machine \<Rightarrow> la_result" where
  "la_decode_exec c d m =
     (let d = d\<lparr>dnpc := snpc d\<rparr> in
      bindR (decode_table la_table (inst_val d)) (\<lambda>hit.
      bindR (case hit of
               None \<Rightarrow> Inr (d, m)
             | Some (op, type) \<Rightarrow>
                 bindR (la_decode_operand c (inst_val d) type m) (\<lambda>(rd, src1, src2, imm).
                 la_execute c op rd src1 src2 imm d m)) (\<lambda>(d, m).
      finish_exec c 32 d m)))"

definition la_isa_exec_once :: "config \<Rightarrow> u32 Decode \<Rightarrow> la_machine \<Rightarrow> la_result" where
  "la_isa_exec_once c d m =
     bindR (inst_fetch c (snpc d) 4 (nsys m)) (\<lambda>(i, p, s).
     la_decode_exec c (d\<lparr>snpc := p, inst_val := i\<rparr>) (m\<lparr>nsys := s\<rparr>))"

definition la_img :: "u32 list" where
  "la_img = [0x1c00000c, 0x29804180, 0x28804184, 0x002a0000, 0xdeadbeef]"

definition la_restart :: "config \<Rightarrow> u32 cpu_state \<Rightarrow> u32 cpu_state res" where
  "la_restart c k =
     guardR (0 < length (gpr k)) Undef (Inr (k\<lparr>pc := RESET_VECTOR c, gpr := (gpr k)[0 := 0]\<rparr>))"

definition la_init_isa :: "config \<Rightarrow> la_machine \<Rightarrow> la_machine res" where
  "la_init_isa c m =
     bindR (guest_to_host (RESET_VECTOR c)) (\<lambda>p.
     bindR (load_image p (concat (map (le_bytes 4) la_img)) (nsys m)) (\<lambda>s.
     bindR (la_restart c (cpu m)) (\<lambda>k. Inr (m\<lparr>nsys := s, cpu := k\<rparr>))))"

lemma la_execute_keeps:
  "la_execute c op rd a b imm d m = Inr (d', m') \<Longrightarrow> isa_keeps m m'"
  by (cases op) (auto intro: isa_keeps_intros elim!: resE)

lemma la_step_keeps:
  "la_isa_exec_once c d m = Inr (d', m') \<Longrightarrow> isa_keeps m m' \<and> gpr (cpu m') ! 0 = 0"
  unfolding la_isa_exec_once_def la_decode_exec_def Let_def
  by (rule exec_once_keeps, assumption, rule decode_exec_keeps, assumption)
    (rule la_execute_keeps)

interpretation la: isa_step "la_isa_exec_once c" 32 for c
  by unfold_locales (rule la_step_keeps)

section \<open>The tables have no overlap but the last entry\<close>

lemma mips32_table_ok:
  "list_all (\<lambda>(p, _). pat_ok p) mips32_table" "pairwise_clash (butlast mips32_table)"
  by code_simp+

lemma la_table_ok:
  "list_all (\<lambda>(p, _). pat_ok p) la_table" "pairwise_clash (butlast la_table)"
  by code_simp+

end
