(* ===== verification/Difftest.thy ===== *)
theory Difftest
  imports Small_ISAs
begin

text \<open>
  Differential testing: the side under test, \<^verbatim>\<open>src/cpu/difftest/dut.c\<close>, and the side NEMU shows
  when it is itself the reference, \<^verbatim>\<open>src/cpu/difftest/ref.c\<close>. The reference of \<^verbatim>\<open>dut.c\<close> is a
  shared object loaded at run time: a parameter, the record of the functions \<^verbatim>\<open>dlsym\<close> finds.
\<close>

section \<open>The reference\<close>

record ('c, 'r) ref_model =
  ref_regcpy_to_dut :: "'r \<Rightarrow> 'c"
  ref_regcpy_to_ref :: "'c \<Rightarrow> 'r \<Rightarrow> 'r"
  ref_exec1 :: "'r \<Rightarrow> 'r"
  ref_memcpy_to_ref :: "u32 \<Rightarrow> u8 list \<Rightarrow> 'r \<Rightarrow> 'r"

text \<open>The result of the comparison of a guest, its \<^verbatim>\<open>isa_difftest_checkregs\<close>.\<close>

type_synonym ('v, 'c) checkregs_fn = "'c \<Rightarrow> 'v \<Rightarrow> ('v, 'c) machine \<Rightarrow> bool res"

section \<open>The side under test (dut.c)\<close>

definition upd_sys :: "('v sys \<Rightarrow> 'v sys) \<Rightarrow> ('v, 'c) machine \<Rightarrow> ('v, 'c) machine" where
  "upd_sys f m = m\<lparr>nsys := f (nsys m)\<rparr>"

fun ref_exec_loop :: "('c, 'r) ref_model \<Rightarrow> nat \<Rightarrow> 'r \<Rightarrow> 'r" where
  "ref_exec_loop R 0 r = r"
| "ref_exec_loop R (Suc n) r = ref_exec_loop R n (ref_exec1 R r)"

definition difftest_skip_dut :: "('c, 'r) ref_model \<Rightarrow> int \<Rightarrow> int \<Rightarrow> ('v, 'c) machine \<Rightarrow> 'r \<Rightarrow>
    (('v, 'c) machine \<times> 'r) res" where
  "difftest_skip_dut R nr_ref nr_dut m r =
     (let n = skip_dut_nr_inst (nsys m) + nr_dut in
      guardR (- (2 ^ 31) \<le> n \<and> n < 2 ^ 31) Undef
       (Inr (upd_sys (\<lambda>s. s\<lparr>skip_dut_nr_inst := n\<rparr>) m, ref_exec_loop R (nat nr_ref) r)))"

text \<open>
  \<^verbatim>\<open>init_difftest\<close>: \<open>so_file\<close> tells whether a file was named, \<open>handle\<close> whether \<^verbatim>\<open>dlopen\<close> succeeded
  and \<open>symbols\<close> whether each of the five functions was found. \<open>cpu_of\<close> is the global \<^verbatim>\<open>cpu\<close>.
\<close>

definition init_difftest :: "config \<Rightarrow> ('c, 'r) ref_model \<Rightarrow> string option \<Rightarrow> bool \<Rightarrow> bool list \<Rightarrow>
    nat \<Rightarrow> ('v, 'c) machine \<Rightarrow> 'r \<Rightarrow> 'r res" where
  "init_difftest c R so_file handle symbols img_size m r =
     (if \<not> cfg_difftest c then Inr r
      else guardR (so_file \<noteq> None) AssertFail
       (guardR handle AssertFail
        (guardR (list_all id symbols) AssertFail
         (bindR (guest_to_host (RESET_VECTOR c)) (\<lambda>p.
          bindR (case p of SramP off \<Rightarrow> arr_load (sram (nsys m)) off img_size
                         | FlashP off \<Rightarrow> arr_load (flash (nsys m)) off img_size) (\<lambda>bs.
          Inr (ref_regcpy_to_ref R (cpu m) (ref_memcpy_to_ref R (RESET_VECTOR c) bs r))))))))"

definition checkregs :: "('v, 'c) checkregs_fn \<Rightarrow> 'c \<Rightarrow> 'v \<Rightarrow> ('v, 'c) machine \<Rightarrow>
    ('v, 'c) machine res" where
  "checkregs chk ref npc m =
     bindR (chk ref npc m) (\<lambda>same.
     if \<not> same
     then Inr (upd_sys (\<lambda>s. s\<lparr>nemu := (nemu s)\<lparr>nstate := NEMU_ABORT, halt_pc := npc\<rparr>\<rparr>) m)
     else Inr m)"

definition difftest_step :: "('v, ('v, 'e) cpu_state_scheme) checkregs_fn \<Rightarrow>
    (('v, 'e) cpu_state_scheme, 'r) ref_model \<Rightarrow> 'v \<Rightarrow> 'v \<Rightarrow> ('v, 'e) isa_machine \<Rightarrow> 'r \<Rightarrow>
    (('v, 'e) isa_machine \<times> 'r) res" where
  "difftest_step chk R pc0 npc m r =
     (if skip_dut_nr_inst (nsys m) > 0
      then let ref_r = ref_regcpy_to_dut R r in
        if pc ref_r = npc
        then bindR (checkregs chk ref_r npc (upd_sys (\<lambda>s. s\<lparr>skip_dut_nr_inst := 0\<rparr>) m)) (\<lambda>m.
             Inr (m, r))
        else let n = skip_dut_nr_inst (nsys m) - 1 in
             if n = 0 then Inl Panic
             else Inr (upd_sys (\<lambda>s. s\<lparr>skip_dut_nr_inst := n\<rparr>) m, r)
      else if is_skip_ref (nsys m)
      then Inr (upd_sys (\<lambda>s. s\<lparr>is_skip_ref := False\<rparr>) m, ref_regcpy_to_ref R (cpu m) r)
      else let r = ref_exec1 R r; ref_r = ref_regcpy_to_dut R r in
        bindR (checkregs chk ref_r pc0 m) (\<lambda>m. Inr (m, r)))"

section \<open>NEMU as the reference (ref.c)\<close>

text \<open>A byte is copied through the host pointer of its own guest address.\<close>

definition host_byte :: "hptr \<Rightarrow> 'v sys \<Rightarrow> u8 res" where
  "host_byte p s =
     (case p of
        SramP off \<Rightarrow> bindR (arr_load (sram s) off 1) (\<lambda>bs. Inr (hd bs))
      | FlashP off \<Rightarrow> bindR (arr_load (flash s) off 1) (\<lambda>bs. Inr (hd bs)))"

definition set_host_byte :: "hptr \<Rightarrow> u8 \<Rightarrow> 'v sys \<Rightarrow> 'v sys res" where
  "set_host_byte p b s =
     (case p of
        SramP off \<Rightarrow> bindR (arr_store (sram s) off [b]) (\<lambda>a. Inr (s\<lparr>sram := a\<rparr>))
      | FlashP off \<Rightarrow> bindR (arr_store (flash s) off [b]) (\<lambda>a. Inr (s\<lparr>flash := a\<rparr>)))"

fun memcpy_to_dut :: "u32 \<Rightarrow> nat \<Rightarrow> 'v sys \<Rightarrow> u8 list res" where
  "memcpy_to_dut addr 0 s = Inr []"
| "memcpy_to_dut addr (Suc n) s =
     bindR (guest_to_host addr) (\<lambda>p. bindR (host_byte p s) (\<lambda>b.
     bindR (memcpy_to_dut (addr + 1) n s) (\<lambda>bs. Inr (b # bs))))"

fun memcpy_to_ref :: "u32 \<Rightarrow> u8 list \<Rightarrow> 'v sys \<Rightarrow> 'v sys res" where
  "memcpy_to_ref addr [] s = Inr s"
| "memcpy_to_ref addr (b # bs) s =
     bindR (guest_to_host addr) (\<lambda>p. bindR (set_host_byte p b s) (memcpy_to_ref (addr + 1) bs))"

definition difftest_window :: "u32 \<Rightarrow> bool" where
  "difftest_window addr \<longleftrightarrow> (0x30000000 \<le> addr \<and> addr < 0x40000000) \<or>
     (0x0f000000 \<le> addr \<and> addr < 0x10000000)"

text \<open>\<open>Inl bs\<close> copies the bytes to this NEMU, \<open>Inr n\<close> copies \<open>n\<close> bytes out of it.\<close>

definition difftest_memcpy :: "u32 \<Rightarrow> u8 list + nat \<Rightarrow> 'v sys \<Rightarrow> (u8 list \<times> 'v sys) res" where
  "difftest_memcpy addr what s =
     guardR (difftest_window addr) AssertFail
      (case what of
         Inl bs \<Rightarrow> bindR (memcpy_to_ref addr bs s) (\<lambda>s. Inr (bs, s))
       | Inr n \<Rightarrow> bindR (memcpy_to_dut addr n s) (\<lambda>bs. Inr (bs, s)))"

definition difftest_regcpy_to_ref :: "'c \<Rightarrow> ('v, 'c) machine \<Rightarrow> ('v, 'c) machine" where
  "difftest_regcpy_to_ref dut m = m\<lparr>cpu := dut\<rparr>"

definition difftest_regcpy_to_dut :: "('v, 'c) machine \<Rightarrow> 'c" where
  "difftest_regcpy_to_dut m = cpu m"

definition difftest_raise_intr :: "'a res" where
  "difftest_raise_intr = Inl AssertFail"

definition difftest_init :: "config \<Rightarrow> u32 \<Rightarrow> (('v, 'c) machine \<Rightarrow> ('v, 'c) machine res) \<Rightarrow>
    ('v, 'c) machine \<Rightarrow> ('v, 'c) machine res" where
  "difftest_init c rnd init_isa m =
     bindR (init_mem c rnd (nsys m)) (\<lambda>s. init_isa (m\<lparr>nsys := s\<rparr>))"

section \<open>An interface: register copies of a reference\<close>

locale ref_regs =
  fixes to_dut :: "'r \<Rightarrow> 'c" and to_ref :: "'c \<Rightarrow> 'r \<Rightarrow> 'r"
  assumes copy_back: "to_dut (to_ref c r) = c"
    and copy_twice: "to_ref c (to_ref c' r) = to_ref c r"
    and copy_self: "to_ref (to_dut r) r = r"
begin

lemma in_sync: "to_dut r = c \<longleftrightarrow> to_ref c r = r"
  using copy_back copy_self by metis

lemma resync: "to_dut (to_ref c (to_ref c' r)) = c"
  by (simp add: copy_back)

end

interpretation nemu_ref: ref_regs difftest_regcpy_to_dut difftest_regcpy_to_ref
  by unfold_locales (simp_all add: difftest_regcpy_to_dut_def difftest_regcpy_to_ref_def)

section \<open>What the comparison of RV32 decides\<close>

lemma checkregs_loop_iff:
  "i + n \<le> length xs \<Longrightarrow> i + n \<le> length ys \<Longrightarrow>
   checkregs_loop i n xs ys = Inr (\<forall>j. i \<le> j \<and> j < i + n \<longrightarrow> xs ! j = ys ! j)"
proof (induction i n xs ys rule: checkregs_loop.induct)
  case (1 i xs ys)
  then show ?case by auto
next
  case (2 i n xs ys)
  show ?case
  proof (cases "xs ! i = ys ! i")
    case True
    have "(\<forall>j. Suc i \<le> j \<and> j < Suc i + n \<longrightarrow> xs ! j = ys ! j) \<longleftrightarrow>
        (\<forall>j. i \<le> j \<and> j < i + Suc n \<longrightarrow> xs ! j = ys ! j)"
      using True by (auto simp: Suc_le_eq) (metis le_neq_implies_less)
    with 2 True show ?thesis by simp
  next
    case False
    with 2 show ?thesis by auto
  qed
qed

lemma rv32_checkregs_iff:
  assumes "length (gpr (cpu m)) = 32" "length (gpr ref_r) = 32"
  shows "rv32_isa_difftest_checkregs ref_r npc m = Inr (gpr (cpu m) = gpr ref_r)"
  using checkregs_loop_iff [of 0 32 "gpr (cpu m)" "gpr ref_r"] assms
  by (auto simp: rv32_isa_difftest_checkregs_def list_eq_iff_nth_eq)

section \<open>A checked step\<close>

lemma upd_sys_simps [simp]:
  "cpu (upd_sys f m) = cpu m" "nsys (upd_sys f m) = f (nsys m)"
  by (simp_all add: upd_sys_def)

lemma difftest_step_plain:
  assumes "skip_dut_nr_inst (nsys m) \<le> 0" "\<not> is_skip_ref (nsys m)"
    and "chk (ref_regcpy_to_dut R (ref_exec1 R r)) pc0 m = Inr same"
  shows "difftest_step chk R pc0 npc m r =
    Inr (if same then m
         else upd_sys (\<lambda>s. s\<lparr>nemu := (nemu s)\<lparr>nstate := NEMU_ABORT, halt_pc := pc0\<rparr>\<rparr>) m,
         ref_exec1 R r)"
  using assms by (simp add: difftest_step_def checkregs_def)

lemma difftest_step_cpu:
  "difftest_step chk R pc0 npc m r = Inr (m', r') \<Longrightarrow> cpu m' = cpu m"
  by (auto simp: difftest_step_def checkregs_def Let_def elim!: resE split: if_split_asm)

lemma difftest_step_run:
  "difftest_step chk R pc0 npc m r = Inr (m', r') \<Longrightarrow>
   run_step (nstate (nemu (nsys m))) (nstate (nemu (nsys m')))"
  by (auto simp: difftest_step_def checkregs_def Let_def run_step_def elim!: resE
      split: if_split_asm)

section \<open>Copies of memory\<close>

lemma set_host_byteE:
  assumes "set_host_byte p b s = Inr s'"
  obtains off where "p = SramP off" "off < clen (sram s)" "s' = s\<lparr>sram := arr_put (sram s) off [b]\<rparr>"
    | off where "p = FlashP off" "off < clen (flash s)" "s' = s\<lparr>flash := arr_put (flash s) off [b]\<rparr>"
  using assms by (cases p) (auto simp: set_host_byte_def arr_store_def elim!: resE)

lemma host_byte_set_same: "set_host_byte p b s = Inr s' \<Longrightarrow> host_byte p s' = Inr b"
  by (elim set_host_byteE) (auto simp: host_byte_def arr_load_def arr_put_def)

lemma host_byte_set_other:
  "set_host_byte p b s = Inr s' \<Longrightarrow> p \<noteq> p' \<Longrightarrow> host_byte p' s' = host_byte p' s"
  by (elim set_host_byteE; cases p') (auto simp: host_byte_def arr_load_def arr_put_def)

lemma guest_to_host_inj:
  assumes "guest_to_host a = Inr p" "guest_to_host b = Inr p"
  shows "a = b"
proof -
  have "unat a = unat b"
    using assms by (auto simp: guest_to_host_def out_of_bound_def word_le_nat_alt unat_minus_const
        split: if_splits)
  then show ?thesis by (rule unsigned_word_eqI)
qed

text \<open>Bytes outside the range written stay as they are.\<close>

lemma memcpy_to_ref_other:
  "memcpy_to_ref addr bs s = Inr s' \<Longrightarrow> guest_to_host a = Inr p \<Longrightarrow>
   \<forall>j < length bs. a \<noteq> addr + of_nat j \<Longrightarrow> host_byte p s' = host_byte p s"
proof (induction addr bs s rule: memcpy_to_ref.induct)
  case (1 addr s)
  then show ?case by simp
next
  case (2 addr b bs s)
  from "2.prems"(1) obtain q s1 where q: "guest_to_host addr = Inr q" "set_host_byte q b s = Inr s1"
    "memcpy_to_ref (addr + 1) bs s1 = Inr s'" by (auto elim!: resE)
  have "p \<noteq> q" using q(1) "2.prems"(2,3) guest_to_host_inj [of a p addr] by auto
  moreover have "\<forall>j < length bs. a \<noteq> addr + 1 + of_nat j"
  proof (intro allI impI)
    fix j
    assume "j < length bs"
    then have "a \<noteq> addr + of_nat (Suc j)" using "2.prems"(3) by (auto simp del: of_nat_Suc)
    then show "a \<noteq> addr + 1 + of_nat j" by (simp add: add.assoc)
  qed
  ultimately show ?case
    using "2.IH" [OF q(1,2,3) "2.prems"(2)] host_byte_set_other [OF q(2)] by metis
qed

text \<open>What is copied to the reference is copied back from it.\<close>

lemma memcpy_round_trip:
  "memcpy_to_ref addr bs s = Inr s' \<Longrightarrow> length bs \<le> 2 ^ 32 \<Longrightarrow>
   memcpy_to_dut addr (length bs) s' = Inr bs"
proof (induction addr bs s rule: memcpy_to_ref.induct)
  case (1 addr s)
  then show ?case by simp
next
  case (2 addr b bs s)
  from "2.prems"(1) obtain q s1 where q: "guest_to_host addr = Inr q" "set_host_byte q b s = Inr s1"
    "memcpy_to_ref (addr + 1) bs s1 = Inr s'" by (auto elim!: resE)
  have "addr \<noteq> addr + 1 + of_nat j" if "j < length bs" for j
  proof
    assume "addr = addr + 1 + of_nat j"
    then have "(of_nat (Suc j) :: u32) = 0" by (simp add: add.assoc)
    moreover have "unat (of_nat (Suc j) :: u32) = Suc j"
      using that "2.prems"(2) by (simp add: unat_of_nat take_bit_nat_eq_self del: of_nat_Suc)
    ultimately show False by simp
  qed
  then have "host_byte q s' = host_byte q s1"
    using memcpy_to_ref_other [OF q(3,1)] by blast
  then show ?case
    using "2.IH" [OF q] "2.prems"(2) q(1) host_byte_set_same [OF q(2)] by simp
qed

lemma difftest_memcpy_round_trip:
  assumes "difftest_memcpy addr (Inl bs) s = Inr (x, s')" "length bs \<le> 2 ^ 32"
  shows "difftest_memcpy addr (Inr (length bs)) s' = Inr (bs, s')"
  using assms memcpy_round_trip [of addr bs s s']
  by (auto simp: difftest_memcpy_def elim!: resE)

end
