(* ===== verification/Expr.thy ===== *)
theory Expr
  imports Decode
begin

text \<open>
  The expression evaluator of the debugger, \<^verbatim>\<open>src/monitor/sdb/expr.c\<close>: the lexer over the
  table of regular expressions, the search for the main operator, and the recursive evaluation
  over the token array. \<^verbatim>\<open>isa_reg_str2val\<close> is the function \<open>reg_val\<close>, as each guest has its own.
  Memory is read through \<^verbatim>\<open>paddr_read\<close>, so evaluation threads the machine.
\<close>

section \<open>Tokens\<close>

text \<open>The character-valued types \<^verbatim>\<open>'('\<close>, \<^verbatim>\<open>'+'\<close> and so on are the constructors \<open>TK_LP\<close> etc.\<close>

datatype token_type =
  TK_NOTYPE | TK_EQ | TK_NEQ | TK_GT | TK_LT | TK_GE | TK_LE | TK_POS | TK_NEG | TK_DEREF
| TK_AND | TK_OR | TK_NUM | TK_REG | TK_VAR
| TK_LP | TK_RP | TK_PLUS | TK_MINUS | TK_STAR | TK_SLASH

record token =
  ttype :: token_type
  tstr :: string

section \<open>The regular expressions\<close>

text \<open>
  Each rule is a function giving the length of its longest match at the start of the string
  (POSIX rules, C locale): \<^verbatim>\<open>\w\<close> is a letter, a digit or an underscore, and \<^verbatim>\<open>\b[0-9]+\b\<close> at
  the start of the string is a run of digits that no word character follows.
\<close>

definition char_code :: "char \<Rightarrow> nat" where
  "char_code ch = of_char ch"

definition is_dig :: "char \<Rightarrow> bool" where
  "is_dig ch \<longleftrightarrow> 48 \<le> char_code ch \<and> char_code ch \<le> 57"

definition is_hex :: "char \<Rightarrow> bool" where
  "is_hex ch \<longleftrightarrow> is_dig ch \<or> (65 \<le> char_code ch \<and> char_code ch \<le> 70) \<or>
     (97 \<le> char_code ch \<and> char_code ch \<le> 102)"

definition is_alpha_us :: "char \<Rightarrow> bool" where
  "is_alpha_us ch \<longleftrightarrow> (65 \<le> char_code ch \<and> char_code ch \<le> 90) \<or>
     (97 \<le> char_code ch \<and> char_code ch \<le> 122) \<or> char_code ch = 95"

definition is_word :: "char \<Rightarrow> bool" where
  "is_word ch \<longleftrightarrow> is_alpha_us ch \<or> is_dig ch"

definition run_len :: "(char \<Rightarrow> bool) \<Rightarrow> string \<Rightarrow> nat" where
  "run_len P s = length (takeWhile P s)"

definition m_lit :: "string \<Rightarrow> string \<Rightarrow> nat option" where
  "m_lit lit s = (if take (length lit) s = lit then Some (length lit) else None)"

definition m_spaces :: "string \<Rightarrow> nat option" where
  "m_spaces s = (let n = run_len (\<lambda>ch. ch = CHR '' '') s in if 0 < n then Some n else None)"

definition m_num :: "string \<Rightarrow> nat option" where
  "m_num s =
     (let hexd = run_len is_hex (drop 2 s); dec = run_len is_dig s in
      if (take 2 s = ''0x'' \<or> take 2 s = ''0X'') \<and> 0 < hexd then Some (2 + hexd)
      else if 0 < dec \<and> \<not> (dec < length s \<and> is_word (s ! dec)) then Some dec
      else None)"

definition m_reg :: "string \<Rightarrow> nat option" where
  "m_reg s =
     (if take 2 s = ''$$'' \<and> 0 < run_len is_word (drop 2 s)
      then Some (2 + run_len is_word (drop 2 s))
      else if take 1 s = ''$'' \<and> 0 < run_len is_word (drop 1 s)
      then Some (1 + run_len is_word (drop 1 s))
      else None)"

definition m_var :: "string \<Rightarrow> nat option" where
  "m_var s =
     (case s of [] \<Rightarrow> None
      | ch # t \<Rightarrow> if is_alpha_us ch then Some (1 + run_len is_word t) else None)"

definition rules :: "((string \<Rightarrow> nat option) \<times> token_type) list" where
  "rules =
    [(m_spaces, TK_NOTYPE),
     (m_lit ''('', TK_LP), (m_lit '')'', TK_RP),
     (m_lit ''+'', TK_PLUS), (m_lit ''-'', TK_MINUS),
     (m_lit ''*'', TK_STAR), (m_lit ''/'', TK_SLASH),
     (m_lit ''<'', TK_LT), (m_lit ''>'', TK_GT), (m_lit ''<='', TK_LE), (m_lit ''>='', TK_GE),
     (m_lit ''=='', TK_EQ), (m_lit ''!='', TK_NEQ),
     (m_lit ''&&'', TK_AND), (m_lit ''||'', TK_OR),
     (m_num, TK_NUM),
     (m_reg, TK_REG),
     (m_var, TK_VAR)]"

fun first_rule :: "((string \<Rightarrow> nat option) \<times> token_type) list \<Rightarrow> string \<Rightarrow> (token_type \<times> nat) option"
where
  "first_rule [] s = None"
| "first_rule ((f, ty) # rs) s =
     (case f s of Some n \<Rightarrow> Some (ty, n) | None \<Rightarrow> first_rule rs s)"

lemma first_rule_pos: "first_rule rules s = Some (ty, n) \<Longrightarrow> 0 < n"
  by (auto simp: rules_def m_lit_def m_spaces_def m_num_def m_reg_def m_var_def Let_def
      split: option.splits list.splits if_splits)

section \<open>make\_token\<close>

definition bound_types :: "token_type list" where
  "bound_types = [TK_RP, TK_NUM, TK_REG]"

definition nop_types :: "token_type list" where
  "nop_types = [TK_LP, TK_RP, TK_NUM, TK_REG]"

definition uop_types :: "token_type list" where
  "uop_types = [TK_NEG, TK_POS, TK_DEREF]"

fun oftypes :: "token_type \<Rightarrow> token_type list \<Rightarrow> bool" where
  "oftypes ty [] = False"
| "oftypes ty (t # ts) = (if ty = t then True else oftypes ty ts)"

lemma oftypes_set: "oftypes ty ts \<longleftrightarrow> ty \<in> set ts"
  by (induction ts) auto

definition NR_TOKENS :: nat where
  "NR_TOKENS = 9999999"

text \<open>A \<^verbatim>\<open>+\<close>, \<^verbatim>\<open>-\<close> or \<^verbatim>\<open>*\<close> is unary at the start and after anything but an operand's end.\<close>

definition classify :: "token_type \<Rightarrow> token list \<Rightarrow> token_type" where
  "classify ty ts =
     (if ty \<in> {TK_PLUS, TK_MINUS, TK_STAR} \<and>
         (ts = [] \<or> \<not> oftypes (ttype (last ts)) bound_types)
      then (if ty = TK_PLUS then TK_POS else if ty = TK_MINUS then TK_NEG else TK_DEREF)
      else ty)"

text \<open>
  The token's text is kept for numbers, registers and names; 32 characters or more overflow
  \<^verbatim>\<open>str\<close>. The result is the flag returned and the tokens made so far.
\<close>

function make_token_from :: "string \<Rightarrow> token list \<Rightarrow> (bool \<times> token list) res" where
  "make_token_from e ts =
     (if e = [] then Inr (True, ts)
      else case first_rule rules e of
          None \<Rightarrow> Inr (False, ts)
        | Some (ty, n) \<Rightarrow>
            if ty = TK_NOTYPE then make_token_from (drop n e) ts
            else guardR (length ts < NR_TOKENS) Undef
              (if ty \<in> {TK_NUM, TK_REG, TK_VAR}
               then guardR (n < 32) Undef
                 (make_token_from (drop n e) (ts @ [\<lparr>ttype = ty, tstr = take n e\<rparr>]))
               else make_token_from (drop n e) (ts @ [\<lparr>ttype = classify ty ts, tstr = []\<rparr>])))"
  by pat_completeness auto
termination
  by (relation "measure (\<lambda>(e, ts). length e)") (auto dest: first_rule_pos)

declare make_token_from.simps [simp del]

definition make_token :: "string \<Rightarrow> (bool \<times> token list) res" where
  "make_token e = make_token_from e []"

section \<open>Parentheses and the main operator\<close>

text \<open>Indices are \<^verbatim>\<open>int\<close>s, as in the source; they stay inside the array.\<close>

definition tok :: "token list \<Rightarrow> int \<Rightarrow> token_type" where
  "tok ts i = ttype (ts ! nat i)"

function par_loop :: "token list \<Rightarrow> int \<Rightarrow> int \<Rightarrow> int \<Rightarrow> bool" where
  "par_loop ts i q par =
     (if i \<le> q
      then let par' = (if tok ts i = TK_LP then par + 1 else if tok ts i = TK_RP then par - 1 else par)
           in if par' = 0 then i = q else par_loop ts (i + 1) q par'
      else False)"
  by pat_completeness auto
termination
  by (relation "measure (\<lambda>(ts, i, q, par). nat (q + 1 - i))") auto

declare par_loop.simps [simp del]

definition check_parentheses :: "token list \<Rightarrow> int \<Rightarrow> int \<Rightarrow> bool" where
  "check_parentheses ts p q =
     (if tok ts p = TK_LP \<and> tok ts q = TK_RP then par_loop ts p q 0 else False)"

definition op_prec :: "token_type \<Rightarrow> int res" where
  "op_prec ty =
     (case ty of TK_OR \<Rightarrow> Inr 1 | TK_AND \<Rightarrow> Inr 2 | TK_EQ \<Rightarrow> Inr 3 | TK_NEQ \<Rightarrow> Inr 3
      | TK_LT \<Rightarrow> Inr 4 | TK_GT \<Rightarrow> Inr 4 | TK_GE \<Rightarrow> Inr 4 | TK_LE \<Rightarrow> Inr 4
      | TK_PLUS \<Rightarrow> Inr 5 | TK_MINUS \<Rightarrow> Inr 5 | TK_STAR \<Rightarrow> Inr 6 | TK_SLASH \<Rightarrow> Inr 6
      | TK_NEG \<Rightarrow> Inr 7 | TK_POS \<Rightarrow> Inr 7 | TK_DEREF \<Rightarrow> Inr 7 | _ \<Rightarrow> Inl AssertFail)"

function find_op_from :: "token list \<Rightarrow> int \<Rightarrow> int \<Rightarrow> int \<Rightarrow> int \<Rightarrow> int \<Rightarrow> int res" where
  "find_op_from ts i q par op_type ret_op =
     (if i \<le> q
      then if tok ts i = TK_LP then find_op_from ts (i + 1) q (par + 1) op_type ret_op
        else if tok ts i = TK_RP
          then if par = 0 then Inr (-1) else find_op_from ts (i + 1) q (par - 1) op_type ret_op
        else if oftypes (tok ts i) nop_types then find_op_from ts (i + 1) q par op_type ret_op
        else if par > 0 then find_op_from ts (i + 1) q par op_type ret_op
        else if par = 0
          then bindR (op_prec (tok ts i)) (\<lambda>now_type.
            if now_type < op_type \<or> (now_type = op_type \<and> \<not> oftypes (tok ts i) uop_types)
            then find_op_from ts (i + 1) q par now_type i
            else find_op_from ts (i + 1) q par op_type ret_op)
        else find_op_from ts (i + 1) q par op_type ret_op
      else if par \<noteq> 0 then Inr (-1) else Inr ret_op)"
  by pat_completeness auto
termination
  by (relation "measure (\<lambda>(ts, i, q, par, op_type, ret_op). nat (q + 1 - i))") auto

declare find_op_from.simps [simp del]

definition find_op :: "token list \<Rightarrow> int \<Rightarrow> int \<Rightarrow> int res" where
  "find_op ts p q = find_op_from ts p q 0 100 (-1)"

lemma find_op_from_bounds:
  "find_op_from ts i q par ot ro = Inr r \<Longrightarrow> r = -1 \<or> r = ro \<or> (i \<le> r \<and> r \<le> q)"
proof (induction "nat (q + 1 - i)" arbitrary: i par ot ro rule: less_induct)
  case less
  have IH: "r = -1 \<or> r = ro \<or> (i + 1 \<le> r \<and> r \<le> q)"
    if "i \<le> q" "find_op_from ts (i + 1) q par ot ro = Inr r" for par ot ro
    using that by (intro less.hyps) auto
  show ?case
  proof (cases "i \<le> q")
    case False
    with less.prems show ?thesis by (subst (asm) find_op_from.simps) (auto split: if_split_asm)
  next
    case True
    with less.prems show ?thesis
      by (subst (asm) find_op_from.simps)
        (auto elim!: resE split: if_split_asm dest!: IH [OF True])
  qed
qed

lemma find_op_bounds: "find_op ts p q = Inr r \<Longrightarrow> 0 \<le> r \<Longrightarrow> p \<le> r \<and> r \<le> q"
  using find_op_from_bounds unfolding find_op_def by fastforce

section \<open>Leaves and operators\<close>

text \<open>
  \<^verbatim>\<open>strtoul\<close> on a number token, which starts with a digit: base 16 skips a \<^verbatim>\<open>0x\<close> that a hex
  digit follows, the digits end at the first other character, and the value saturates.
\<close>

definition hex_val :: "char \<Rightarrow> nat" where
  "hex_val ch = (if is_dig ch then char_code ch - 48
     else if char_code ch \<le> 70 then char_code ch - 55 else char_code ch - 87)"

definition digits_val :: "nat \<Rightarrow> string \<Rightarrow> nat" where
  "digits_val b s = foldl (\<lambda>a ch. a * b + hex_val ch) 0 s"

definition strtoul :: "string \<Rightarrow> nat \<Rightarrow> u64" where
  "strtoul s b =
     (let t = (if b = 16 \<and> (take 2 s = ''0x'' \<or> take 2 s = ''0X'') \<and> 0 < run_len is_hex (drop 2 s)
               then drop 2 s else s);
          v = digits_val b (takeWhile (if b = 16 then is_hex else is_dig) t)
      in if v < 2 ^ 64 then of_nat v else -1)"

type_synonym ('w, 'c) reg_lookup_fn = "string \<Rightarrow> ('w, 'c) machine \<Rightarrow> ('w \<times> bool) res"
type_synonym ('w, 'c) eval_result = "(('w \<times> bool) \<times> ('w, 'c) machine) res"

definition eval_num_reg :: "('a::len word, 'c) reg_lookup_fn \<Rightarrow> token \<Rightarrow> ('a word, 'c) machine \<Rightarrow>
    ('a word, 'c) eval_result" where
  "eval_num_reg reg_val t m =
     (case ttype t of
        TK_NUM \<Rightarrow> Inr ((ucast (if take 2 (tstr t) = ''0x'' then strtoul (tstr t) 16
                              else strtoul (tstr t) 10), True), m)
      | TK_REG \<Rightarrow> bindR (reg_val (tstr t) m) (\<lambda>r. Inr (r, m))
      | _ \<Rightarrow> Inr ((0, False), m))"

definition calc1 :: "config \<Rightarrow> token_type \<Rightarrow> 'a::len word \<Rightarrow> ('a word, 'c) machine \<Rightarrow>
    ('a word, 'c) eval_result" where
  "calc1 c op v m =
     (case op of
        TK_NEG \<Rightarrow> Inr ((- v, True), m)
      | TK_POS \<Rightarrow> Inr ((v, True), m)
      | TK_DEREF \<Rightarrow> bindR (paddr_read c (ucast v) 4 (nsys m)) (\<lambda>(w, s).
          Inr ((w, True), m\<lparr>nsys := s\<rparr>))
      | _ \<Rightarrow> Inr ((0, False), m))"

definition calc2 :: "'a::len word \<Rightarrow> token_type \<Rightarrow> 'a word \<Rightarrow> ('a word \<times> bool) res" where
  "calc2 v1 op v2 =
     (case op of
        TK_PLUS \<Rightarrow> Inr (v1 + v2, True)
      | TK_MINUS \<Rightarrow> Inr (v1 - v2, True)
      | TK_STAR \<Rightarrow> Inr (v1 * v2, True)
      | TK_SLASH \<Rightarrow> if v2 = 0 then Inr (0, False) else bindR (c_sdiv v1 v2) (\<lambda>w. Inr (w, True))
      | TK_AND \<Rightarrow> Inr (b2w (v1 \<noteq> 0 \<and> v2 \<noteq> 0), True)
      | TK_OR \<Rightarrow> Inr (b2w (v1 \<noteq> 0 \<or> v2 \<noteq> 0), True)
      | TK_EQ \<Rightarrow> Inr (b2w (v1 = v2), True)
      | TK_NEQ \<Rightarrow> Inr (b2w (v1 \<noteq> v2), True)
      | TK_GT \<Rightarrow> Inr (b2w (v1 > v2), True)
      | TK_LT \<Rightarrow> Inr (b2w (v1 < v2), True)
      | TK_GE \<Rightarrow> Inr (b2w (v1 \<ge> v2), True)
      | TK_LE \<Rightarrow> Inr (b2w (v1 \<le> v2), True)
      | _ \<Rightarrow> Inr (0, False))"

section \<open>eval and expr\<close>

function eval :: "config \<Rightarrow> ('a::len word, 'c) reg_lookup_fn \<Rightarrow> token list \<Rightarrow> int \<Rightarrow> int \<Rightarrow>
    ('a word, 'c) machine \<Rightarrow> ('a word, 'c) eval_result" where
  "eval c reg_val ts p q m =
     (if p > q then Inr ((0, False), m)
      else if p = q then eval_num_reg reg_val (ts ! nat p) m
      else if check_parentheses ts p q then eval c reg_val ts (p + 1) (q - 1) m
      else bindR (find_op ts p q) (\<lambda>op.
        if op < 0 then Inr ((0, False), m)
        else bindR (eval c reg_val ts p (op - 1) m) (\<lambda>((val1, pass1), m).
          bindR (eval c reg_val ts (op + 1) q m) (\<lambda>((val2, pass2), m).
          if \<not> pass2 then Inr ((0, False), m)
          else if pass1 then bindR (calc2 val1 (tok ts op) val2) (\<lambda>r. Inr (r, m))
          else calc1 c (tok ts op) val2 m))))"
  by pat_completeness auto
termination
  by (relation "measure (\<lambda>(c, reg_val, ts, p, q, m). nat (q + 1 - p))")
    (auto dest!: find_op_bounds)

declare eval.simps [simp del]

definition expr :: "config \<Rightarrow> ('a::len word, 'c) reg_lookup_fn \<Rightarrow> string \<Rightarrow>
    ('a word, 'c) machine \<Rightarrow> ('a word, 'c) eval_result" where
  "expr c reg_val e m =
     bindR (make_token e) (\<lambda>(ok, ts).
     if \<not> ok then Inr ((0, False), m)
     else eval c reg_val ts 0 (int (length ts) - 1) m)"

text \<open>
  \<^verbatim>\<open>test_expr\<close>: the lines of the input file, each the expected value and the expression; a
  file that does not exist is a null pointer the loop then reads.
\<close>

fun test_expr_lines :: "config \<Rightarrow> ('a::len word, 'c) reg_lookup_fn \<Rightarrow> (u32 \<times> string) list \<Rightarrow>
    ('a word, 'c) machine \<Rightarrow> ('a word, 'c) machine res" where
  "test_expr_lines c reg_val [] m = Inr m"
| "test_expr_lines c reg_val ((correct_res, e) # ls) m =
     bindR (expr c reg_val e m) (\<lambda>((r, success), m).
     guardR success AssertFail
      (guardR (r = ucast correct_res) AssertFail (test_expr_lines c reg_val ls m)))"

definition test_expr :: "config \<Rightarrow> ('a::len word, 'c) reg_lookup_fn \<Rightarrow> (u32 \<times> string) list option \<Rightarrow>
    ('a word, 'c) machine \<Rightarrow> ('a word, 'c) machine res" where
  "test_expr c reg_val file m =
     (case file of None \<Rightarrow> Inl Undef | Some ls \<Rightarrow> test_expr_lines c reg_val ls m)"

end
