(* ===== verification/Watchpoint.thy ===== *)
theory Watchpoint
  imports Expr
begin

text \<open>
  The watchpoints of the debugger, \<^verbatim>\<open>src/monitor/sdb/watchpoint.c\<close>: a pool of 32 nodes linked
  through indices into it (the source's pointers), a list of used ones and a list of free ones.
  The pool is proved to implement an allocator over the two lists. A loop over a list is given
  fuel for one more node than the pool has: a list that is not exhausted by then is cyclic, and
  a loop without effects that does not end is undefined in C.
\<close>

section \<open>The pool\<close>

definition NR_WP :: nat where
  "NR_WP = 32"

record 'w WP =
  wp_NO :: int
  wp_next :: "nat option"
  wp_expr :: string
  wp_old :: 'w

record 'w wp_state =
  wp_pool :: "'w WP list"
  wp_head :: "nat option"
  wp_free :: "nat option"

definition wp_at :: "'w wp_state \<Rightarrow> nat \<Rightarrow> 'w WP" where
  "wp_at s i = wp_pool s ! i"

definition upd_wp :: "nat \<Rightarrow> ('w WP \<Rightarrow> 'w WP) \<Rightarrow> 'w wp_state \<Rightarrow> 'w wp_state" where
  "upd_wp i f s = s\<lparr>wp_pool := (wp_pool s)[i := f (wp_pool s ! i)]\<rparr>"

fun init_wp_loop :: "nat \<Rightarrow> 'w WP list \<Rightarrow> 'w WP list" where
  "init_wp_loop i [] = []"
| "init_wp_loop i (w # ws) =
     w\<lparr>wp_NO := int i, wp_next := (if i = NR_WP - 1 then None else Some (i + 1))\<rparr>
       # init_wp_loop (Suc i) ws"

definition init_wp_pool :: "'w wp_state \<Rightarrow> 'w wp_state" where
  "init_wp_pool s =
     s\<lparr>wp_pool := init_wp_loop 0 (wp_pool s), wp_head := None, wp_free := Some 0\<rparr>"

definition new_wp :: "'w wp_state \<Rightarrow> (nat \<times> 'w wp_state) res" where
  "new_wp s =
     (case wp_free s of
        None \<Rightarrow> Inl AssertFail
      | Some r \<Rightarrow>
          let s = s\<lparr>wp_free := wp_next (wp_at s r)\<rparr>;
              s = upd_wp r (\<lambda>w. w\<lparr>wp_next := wp_head s\<rparr>) s
          in Inr (r, s\<lparr>wp_head := Some r\<rparr>))"

text \<open>The search for the predecessor of \<open>wp\<close>, from \<open>tmp\<close>: it stops at the last node or before \<open>wp\<close>.\<close>

fun find_prev :: "nat \<Rightarrow> nat \<Rightarrow> nat \<Rightarrow> 'w wp_state \<Rightarrow> nat res" where
  "find_prev 0 wp tmp s = Inl Undef"
| "find_prev (Suc n) wp tmp s =
     (case wp_next (wp_at s tmp) of
        None \<Rightarrow> Inr tmp
      | Some x \<Rightarrow> if x = wp then Inr tmp else find_prev n wp x s)"

definition free_wp :: "nat option \<Rightarrow> 'w wp_state \<Rightarrow> 'w wp_state res" where
  "free_wp p s =
     (case p of
        None \<Rightarrow> Inl AssertFail
      | Some wp \<Rightarrow>
          if wp_head s = Some wp \<and> wp_next (wp_at s wp) = None
          then Inr ((upd_wp wp (\<lambda>w. w\<lparr>wp_next := wp_free s\<rparr>) s)\<lparr>wp_free := Some wp, wp_head := None\<rparr>)
          else if wp_head s = Some wp \<and> wp_next (wp_at s wp) \<noteq> None
          then Inr ((upd_wp wp (\<lambda>w. w\<lparr>wp_next := wp_free s\<rparr>) s)
                 \<lparr>wp_free := Some wp, wp_head := wp_next (wp_at s wp)\<rparr>)
          else (case wp_head s of
              None \<Rightarrow> Inl Undef
            | Some h \<Rightarrow>
                bindR (find_prev (NR_WP + 1) wp h s) (\<lambda>tmp.
                if wp_next (wp_at s tmp) = None then Inl AssertFail
                else let s = upd_wp tmp (\<lambda>w. w\<lparr>wp_next := wp_next (wp_at s wp)\<rparr>) s;
                         s = upd_wp wp (\<lambda>w. w\<lparr>wp_next := wp_free s\<rparr>) s
                     in Inr (s\<lparr>wp_free := Some wp\<rparr>))))"

section \<open>Operations of the debugger\<close>

text \<open>\<^verbatim>\<open>strcpy\<close> into 100 characters overflows from 100 on.\<close>

definition wp_set :: "string \<Rightarrow> 'w \<Rightarrow> 'w wp_state \<Rightarrow> 'w wp_state res" where
  "wp_set e r s =
     bindR (new_wp s) (\<lambda>(wp, s).
     guardR (length e < 100) Undef
      (Inr (upd_wp wp (\<lambda>w. w\<lparr>wp_expr := e, wp_old := r\<rparr>) s)))"

text \<open>What \<^verbatim>\<open>wp_display\<close> prints: number and text of each watchpoint in use.\<close>

fun wp_display_from :: "nat \<Rightarrow> nat option \<Rightarrow> 'w wp_state \<Rightarrow> (int \<times> string) list res" where
  "wp_display_from 0 p s = Inl Undef"
| "wp_display_from (Suc n) None s = Inr []"
| "wp_display_from (Suc n) (Some i) s =
     bindR (wp_display_from n (wp_next (wp_at s i)) s) (\<lambda>out.
     Inr ((wp_NO (wp_at s i), wp_expr (wp_at s i)) # out))"

definition wp_display :: "'w wp_state \<Rightarrow> (int \<times> string) list res" where
  "wp_display s = wp_display_from (NR_WP + 1) (wp_head s) s"

text \<open>The search of \<^verbatim>\<open>wp_delete\<close> follows \<^verbatim>\<open>next\<close> without testing it for \<^verbatim>\<open>NULL\<close>.\<close>

fun find_no :: "nat \<Rightarrow> int \<Rightarrow> nat option \<Rightarrow> 'w wp_state \<Rightarrow> nat res" where
  "find_no 0 no p s = Inl Undef"
| "find_no (Suc n) no None s = Inl Undef"
| "find_no (Suc n) no (Some i) s =
     (if wp_NO (wp_at s i) \<noteq> no \<and> wp_NO (wp_at s i) < int NR_WP - 1
      then find_no n no (wp_next (wp_at s i)) s
      else Inr i)"

definition wp_delete :: "int \<Rightarrow> 'w wp_state \<Rightarrow> 'w wp_state res" where
  "wp_delete no s =
     guardR (no < int NR_WP) AssertFail
      (if wp_head s = None then Inr s
       else bindR (find_no (NR_WP + 1) no (wp_head s) s) (\<lambda>tmp. free_wp (Some tmp) s))"

fun wp_difftest_from :: "config \<Rightarrow> ('a::len word, 'c) reg_lookup_fn \<Rightarrow> nat \<Rightarrow> nat option \<Rightarrow>
    'a word wp_state \<Rightarrow> ('a word, 'c) machine \<Rightarrow> ('a word wp_state \<times> ('a word, 'c) machine) res" where
  "wp_difftest_from c rv 0 p s m = Inl Undef"
| "wp_difftest_from c rv (Suc n) None s m = Inr (s, m)"
| "wp_difftest_from c rv (Suc n) (Some i) s m =
     bindR (expr c rv (wp_expr (wp_at s i)) m) (\<lambda>((new_value, success), m).
     if wp_old (wp_at s i) \<noteq> new_value
     then wp_difftest_from c rv n (wp_next (wp_at s i))
            (upd_wp i (\<lambda>w. w\<lparr>wp_old := new_value\<rparr>) s)
            (m\<lparr>nsys := (nsys m)\<lparr>nemu := (nemu (nsys m))\<lparr>nstate := NEMU_STOP\<rparr>\<rparr>\<rparr>)
     else wp_difftest_from c rv n (wp_next (wp_at s i)) s m)"

definition wp_difftest :: "config \<Rightarrow> ('a::len word, 'c) reg_lookup_fn \<Rightarrow> 'a word wp_state \<Rightarrow>
    ('a word, 'c) machine \<Rightarrow> ('a word wp_state \<times> ('a word, 'c) machine) res" where
  "wp_difftest c rv s m = wp_difftest_from c rv (NR_WP + 1) (wp_head s) s m"

section \<open>An interface: allocators\<close>

locale allocator =
  fixes alloc :: "'s \<Rightarrow> (nat \<times> 's) res"
    and release :: "nat \<Rightarrow> 's \<Rightarrow> 's res"
    and live :: "'s \<Rightarrow> nat list"
    and avail :: "'s \<Rightarrow> nat list"
    and inv :: "'s \<Rightarrow> bool"
    and cap :: nat
  assumes inv_part: "inv s \<Longrightarrow> distinct (live s @ avail s) \<and> set (live s @ avail s) = {0..<cap}"
    and alloc_empty: "inv s \<Longrightarrow> avail s = [] \<Longrightarrow> alloc s = Inl AssertFail"
    and alloc_ok: "inv s \<Longrightarrow> avail s = x # xs \<Longrightarrow>
      \<exists>s'. alloc s = Inr (x, s') \<and> inv s' \<and> live s' = x # live s \<and> avail s' = xs"
    and release_ok: "inv s \<Longrightarrow> x \<in> set (live s) \<Longrightarrow>
      \<exists>s'. release x s = Inr s' \<and> inv s' \<and> live s' = remove1 x (live s) \<and> avail s' = x # avail s"
begin

lemma alloc_fresh:
  assumes "inv s" "alloc s = Inr (x, s')"
  shows "x \<notin> set (live s) \<and> x < cap \<and> inv s' \<and> live s' = x # live s"
proof (cases "avail s")
  case Nil
  with assms alloc_empty show ?thesis by simp
next
  case (Cons y ys)
  with alloc_ok [OF assms(1) Cons] assms(2) inv_part [OF assms(1)] show ?thesis by auto
qed

lemma alloc_iff: "inv s \<Longrightarrow> (\<exists>x s'. alloc s = Inr (x, s')) \<longleftrightarrow> length (live s) < cap"
proof -
  assume i: "inv s"
  then have "length (live s @ avail s) = cap"
    using inv_part [OF i] distinct_card [of "live s @ avail s"] by simp
  then show "(\<exists>x s'. alloc s = Inr (x, s')) \<longleftrightarrow> length (live s) < cap"
    using alloc_empty [OF i] alloc_ok [OF i] by (cases "avail s") fastforce+
qed

lemma alloc_cases:
  assumes "inv s"
  shows "if length (live s) < cap
    then \<exists>x s'. alloc s = Inr (x, s') \<and> x \<notin> set (live s) \<and> x < cap \<and> inv s' \<and> live s' = x # live s \<and> avail s = x # avail s'
    else alloc s = Inl AssertFail"
proof (cases "avail s")
  case Nil
  then show ?thesis using alloc_empty [OF assms] alloc_iff [OF assms] by simp
next
  case (Cons x xs)
  from alloc_ok [OF assms this] obtain s' where s': "alloc s = Inr (x, s')" "avail s' = xs" by blast
  with alloc_fresh [OF assms s'(1)] alloc_iff [OF assms] Cons show ?thesis by auto
qed

lemma release_middle:
  assumes "inv s" "live s = us @ x # vs"
  shows "\<exists>s'. release x s = Inr s' \<and> inv s' \<and> live s' = us @ vs \<and> avail s' = x # avail s"
proof -
  have "x \<notin> set us" using inv_part [OF assms(1)] assms(2) by auto
  then have "remove1 x (live s) = us @ vs" using assms(2) by (simp add: remove1_append)
  then show ?thesis using release_ok [OF assms(1), of x] assms(2) by simp
qed

lemma release_alloc:
  assumes "inv s" "x \<in> set (live s)" "release x s = Inr s1"
  shows "\<exists>s2. alloc s1 = Inr (x, s2) \<and> set (live s2) = set (live s)"
proof -
  from release_ok [OF assms(1,2)] assms(3)
  have s1: "inv s1" "live s1 = remove1 x (live s)" "avail s1 = x # avail s" by auto
  with alloc_ok [of s1 x "avail s"] obtain s2 where
    "alloc s1 = Inr (x, s2)" "live s2 = x # remove1 x (live s)" by auto
  moreover have "distinct (live s)" using inv_part [OF assms(1)] by simp
  ultimately show ?thesis using assms(2) by (auto simp: set_remove1_eq)
qed

end

section \<open>The pool implements it\<close>

fun chain :: "'w WP list \<Rightarrow> nat option \<Rightarrow> nat list \<Rightarrow> bool" where
  "chain pool p [] \<longleftrightarrow> p = None"
| "chain pool p (i # is) \<longleftrightarrow> p = Some i \<and> i < length pool \<and> chain pool (wp_next (pool ! i)) is"

text \<open>The lists a pool's links spell out; the fuel is that of the loops.\<close>

fun walk :: "nat \<Rightarrow> 'w WP list \<Rightarrow> nat option \<Rightarrow> nat list" where
  "walk 0 pool p = []"
| "walk (Suc n) pool None = []"
| "walk (Suc n) pool (Some i) = i # walk n pool (wp_next (pool ! i))"

definition wp_live :: "'w wp_state \<Rightarrow> nat list" where
  "wp_live s = walk (NR_WP + 1) (wp_pool s) (wp_head s)"

definition wp_avail :: "'w wp_state \<Rightarrow> nat list" where
  "wp_avail s = walk (NR_WP + 1) (wp_pool s) (wp_free s)"

definition wp_inv :: "'w wp_state \<Rightarrow> bool" where
  "wp_inv s \<longleftrightarrow> length (wp_pool s) = NR_WP \<and>
     chain (wp_pool s) (wp_head s) (wp_live s) \<and> chain (wp_pool s) (wp_free s) (wp_avail s) \<and>
     distinct (wp_live s @ wp_avail s) \<and> set (wp_live s @ wp_avail s) = {0..<NR_WP} \<and>
     (\<forall>i < NR_WP. wp_NO (wp_pool s ! i) = int i)"

lemma chain_walk: "chain pool p xs \<Longrightarrow> length xs < n \<Longrightarrow> walk n pool p = xs"
proof (induction xs arbitrary: p n)
  case Nil
  then show ?case by (cases n) auto
next
  case (Cons x xs)
  then show ?case by (cases n) auto
qed

lemma chain_cong:
  "chain pool p xs \<Longrightarrow> length pool' = length pool \<Longrightarrow>
   (\<And>i. i \<in> set xs \<Longrightarrow> wp_next (pool' ! i) = wp_next (pool ! i)) \<Longrightarrow> chain pool' p xs"
  by (induction xs arbitrary: p) auto

text \<open>The invariant from any two lists the links spell out.\<close>

lemma wp_invI:
  assumes "length (wp_pool s) = NR_WP" "chain (wp_pool s) (wp_head s) hs"
    and "chain (wp_pool s) (wp_free s) fs" "distinct (hs @ fs)" "set (hs @ fs) = {0..<NR_WP}"
    and "\<forall>i < NR_WP. wp_NO (wp_pool s ! i) = int i"
  shows "wp_inv s \<and> wp_live s = hs \<and> wp_avail s = fs"
proof -
  have "length (hs @ fs) = NR_WP"
    using distinct_card [OF assms(4)] unfolding assms(5) by simp
  then have "walk (NR_WP + 1) (wp_pool s) (wp_head s) = hs"
    and "walk (NR_WP + 1) (wp_pool s) (wp_free s) = fs"
    using assms(2,3) by (auto intro!: chain_walk)
  with assms show ?thesis by (simp add: wp_inv_def wp_live_def wp_avail_def)
qed

lemma wp_pool_upd_wp: "wp_pool (upd_wp i f s) = (wp_pool s)[i := f (wp_pool s ! i)]"
  "wp_head (upd_wp i f s) = wp_head s" "wp_free (upd_wp i f s) = wp_free s"
  by (simp_all add: upd_wp_def)

lemma chain_in: "chain pool p xs \<Longrightarrow> i \<in> set xs \<Longrightarrow> i < length pool"
  by (induction xs arbitrary: p) auto

lemma chain_update:
  "chain pool p xs \<Longrightarrow> i \<notin> set xs \<Longrightarrow> chain (pool[i := w]) p xs"
  by (erule chain_cong) (simp, metis nth_list_update_neq)

lemma chain_redirect:
  "chain pool p (us @ u # x # vs) \<Longrightarrow> distinct (us @ u # x # vs) \<Longrightarrow>
   chain (pool[u := (pool ! u)\<lparr>wp_next := wp_next (pool ! x)\<rparr>]) p (us @ u # vs)"
proof (induction us arbitrary: p)
  case Nil
  then show ?case by (auto intro: chain_update)
next
  case (Cons a us)
  then show ?case by (auto simp: nth_list_update)
qed

lemma chain_last_next: "chain pool p (us @ u # vs) \<Longrightarrow>
   wp_next (pool ! u) = (case vs of [] \<Rightarrow> None | v # _ \<Rightarrow> Some v)"
  by (induction us arbitrary: p) (auto split: list.split)

lemma find_prev_chain:
  "chain (wp_pool s) (Some t) (us @ u # x # vs) \<Longrightarrow> distinct (us @ u # x # vs) \<Longrightarrow>
   length us < n \<Longrightarrow> find_prev n x t s = Inr u"
proof (induction us arbitrary: t n)
  case Nil
  then show ?case by (cases n) (auto simp: wp_at_def)
next
  case (Cons a us)
  then obtain k where n: "n = Suc k" by (cases n) auto
  show ?case
  proof (cases us)
    case Nil
    with Cons.prems Cons.IH [of u k] n show ?thesis by (auto simp: wp_at_def)
  next
    case (Cons b us')
    with Cons.prems Cons.IH [of b k] n show ?thesis by (auto simp: wp_at_def)
  qed
qed

lemma new_wp_ok:
  assumes "wp_inv s" "wp_avail s = x # xs"
  shows "\<exists>s'. new_wp s = Inr (x, s') \<and> wp_inv s' \<and> wp_live s' = x # wp_live s \<and> wp_avail s' = xs"
proof -
  let ?p = "wp_pool s" and ?p' = "(wp_pool s)[x := (wp_pool s ! x)\<lparr>wp_next := wp_head s\<rparr>]"
  from assms have c: "chain ?p (wp_head s) (wp_live s)" "wp_free s = Some x" "x < length ?p"
    "chain ?p (wp_next (?p ! x)) xs" "distinct (wp_live s @ x # xs)"
    by (auto simp: wp_inv_def)
  let ?s' = "s\<lparr>wp_pool := ?p', wp_head := Some x, wp_free := wp_next (?p ! x)\<rparr>"
  have "new_wp s = Inr (x, ?s')"
    using c by (simp add: new_wp_def Let_def upd_wp_def wp_at_def)
  moreover have "wp_inv ?s' \<and> wp_live ?s' = x # wp_live s \<and> wp_avail ?s' = xs"
  proof (rule wp_invI)
    show "chain (wp_pool ?s') (wp_head ?s') (x # wp_live s)"
      using c by (auto intro: chain_update)
    show "chain (wp_pool ?s') (wp_free ?s') xs" using c by (auto intro: chain_update)
    show "set ((x # wp_live s) @ xs) = {0..<NR_WP}"
      using assms unfolding wp_inv_def by auto
    show "\<forall>i < NR_WP. wp_NO (wp_pool ?s' ! i) = int i"
      using assms by (auto simp: wp_inv_def nth_list_update)
  qed (use c assms in \<open>auto simp: wp_inv_def\<close>)
  ultimately show ?thesis by blast
qed

text \<open>Releasing, once the links of the used list have been taken past the node.\<close>

lemma release_result:
  assumes "wp_inv s" "x \<in> set (wp_live s)"
    and "length pool' = NR_WP" "chain pool' hd' (remove1 x (wp_live s))"
    and "\<And>i. i \<in> set (wp_avail s) \<Longrightarrow> wp_next (pool' ! i) = wp_next (wp_pool s ! i)"
    and "wp_next (pool' ! x) = wp_free s" "\<forall>i < NR_WP. wp_NO (pool' ! i) = int i"
    and s': "s' = s\<lparr>wp_pool := pool', wp_head := hd', wp_free := Some x\<rparr>"
  shows "wp_inv s' \<and> wp_live s' = remove1 x (wp_live s) \<and> wp_avail s' = x # wp_avail s"
proof (rule wp_invI)
  have l: "length (wp_pool s) = NR_WP" "distinct (wp_live s @ wp_avail s)"
    "set (wp_live s @ wp_avail s) = {0..<NR_WP}" "chain (wp_pool s) (wp_free s) (wp_avail s)"
    "chain (wp_pool s) (wp_head s) (wp_live s)"
    using assms(1) by (auto simp: wp_inv_def)
  show "chain (wp_pool s') (wp_free s') (x # wp_avail s)"
    using l assms chain_in [OF l(5) assms(2)] by (auto intro: chain_cong)
  show "distinct (remove1 x (wp_live s) @ x # wp_avail s)"
    using l(2) assms(2) by (auto simp: set_remove1_eq)
  show "set (remove1 x (wp_live s) @ x # wp_avail s) = {0..<NR_WP}"
    using l(2,3) assms(2) by (auto simp: set_remove1_eq)
qed (use assms in simp_all)

lemma free_wp_ok:
  assumes "wp_inv s" "x \<in> set (wp_live s)"
  shows "\<exists>s'. free_wp (Some x) s = Inr s' \<and> wp_inv s' \<and> wp_live s' = remove1 x (wp_live s) \<and>
    wp_avail s' = x # wp_avail s"
proof -
  let ?p = "wp_pool s"
  from assms have c: "chain ?p (wp_head s) (wp_live s)" "distinct (wp_live s @ wp_avail s)"
    "length ?p = NR_WP" "\<forall>i < NR_WP. wp_NO (?p ! i) = int i"
    by (auto simp: wp_inv_def)
  have x: "x < NR_WP" using chain_in [OF c(1) assms(2)] c(3) by simp
  from assms(2) obtain us vs where live: "wp_live s = us @ x # vs" by (meson split_list)
  show ?thesis
  proof (cases us rule: rev_cases)
    case Nil
    with c(1) live have h: "wp_head s = Some x" "chain ?p (wp_next (?p ! x)) vs" by auto
    let ?p' = "?p[x := (?p ! x)\<lparr>wp_next := wp_free s\<rparr>]"
    let ?s' = "s\<lparr>wp_pool := ?p', wp_head := wp_next (?p ! x), wp_free := Some x\<rparr>"
    have "free_wp (Some x) s = Inr ?s'"
      using h by (cases "wp_next (?p ! x)") (simp_all add: free_wp_def upd_wp_def wp_at_def)
    moreover have "wp_inv ?s' \<and> wp_live ?s' = remove1 x (wp_live s) \<and> wp_avail ?s' = x # wp_avail s"
    proof (rule release_result [OF assms])
      show "chain ?p' (wp_next (?p ! x)) (remove1 x (wp_live s))"
        using h c(2) live Nil by (auto intro: chain_update)
      show "wp_next (?p' ! i) = wp_next (?p ! i)" if "i \<in> set (wp_avail s)" for i
        using that c(2) assms(2) by (metis disjoint_iff distinct_append nth_list_update_neq)
    qed (use c x in \<open>auto simp: nth_list_update\<close>)
    ultimately show ?thesis by blast
  next
    case (snoc us' u)
    let ?p1 = "?p[u := (?p ! u)\<lparr>wp_next := wp_next (?p ! x)\<rparr>]"
    let ?p' = "?p1[x := (?p1 ! x)\<lparr>wp_next := wp_free s\<rparr>]"
    let ?s' = "s\<lparr>wp_pool := ?p', wp_free := Some x\<rparr>"
    from live snoc have l: "wp_live s = us' @ u # x # vs" by simp
    have d: "u \<noteq> x" "x \<notin> set (us' @ u # vs)" "distinct (us' @ u # x # vs)"
      "u \<notin> set (wp_avail s)" "x \<notin> set (wp_avail s)" using c(2) l by auto
    have u: "u < NR_WP" using chain_in [OF c(1), of u] c(3) l by simp
    obtain t where t: "wp_head s = Some t" "t \<noteq> x" using c(1) l d by (cases us') auto
    have n: "wp_next (?p ! u) = Some x" using chain_last_next [of ?p "wp_head s" us' u "x # vs"] c(1) l by simp
    have "length us' < NR_WP + 1"
    proof -
      have "length (wp_live s @ wp_avail s) = NR_WP"
        using distinct_card [OF c(2)] assms(1) unfolding wp_inv_def by simp
      with l show ?thesis by simp
    qed
    then have "find_prev (NR_WP + 1) x t s = Inr u"
      using c(1) l d(3) t(1) by (intro find_prev_chain) auto
    then have "free_wp (Some x) s = Inr ?s'"
      using t n d by (simp add: free_wp_def upd_wp_def wp_at_def Let_def)
    moreover have "wp_inv ?s' \<and> wp_live ?s' = remove1 x (wp_live s) \<and> wp_avail ?s' = x # wp_avail s"
    proof (rule release_result [OF assms])
      have "remove1 x (wp_live s) = us' @ u # vs" using l d by (simp add: remove1_append)
      moreover have "chain ?p1 (wp_head s) (us' @ u # vs)"
        using c(1) l d(3) by (intro chain_redirect) auto
      ultimately show "chain ?p' (wp_head s) (remove1 x (wp_live s))"
        using d(2) by (auto intro: chain_update)
      show "wp_next (?p' ! i) = wp_next (?p ! i)" if "i \<in> set (wp_avail s)" for i
        using that d by (metis nth_list_update_neq)
    qed (use c x u d in \<open>auto simp: nth_list_update\<close>)
    ultimately show ?thesis by blast
  qed
qed

text \<open>A node that is not in the list is not found there: the search ends at the last one.\<close>

lemma find_prev_foreign:
  "chain (wp_pool s) (Some t) (t # xs) \<Longrightarrow> x \<notin> set (t # xs) \<Longrightarrow> length xs < n \<Longrightarrow>
   \<exists>u. find_prev n x t s = Inr u \<and> wp_next (wp_at s u) = None"
proof (induction xs arbitrary: t n)
  case Nil
  then show ?case by (cases n) (auto simp: wp_at_def)
next
  case (Cons y ys)
  then obtain k where n: "n = Suc k" by (cases n) auto
  with Cons.IH [of y k] Cons.prems show ?case by (auto simp: wp_at_def)
qed

lemma free_wp_foreign:
  assumes "wp_inv s" "x \<notin> set (wp_live s)" "wp_live s \<noteq> []"
  shows "free_wp (Some x) s = Inl AssertFail"
proof -
  obtain h hs where l: "wp_live s = h # hs" using assms(3) by (cases "wp_live s") auto
  have c: "chain (wp_pool s) (Some h) (h # hs)" "wp_head s = Some h" using assms(1) l by (auto simp: wp_inv_def)
  have d: "distinct (wp_live s @ wp_avail s)" "set (wp_live s @ wp_avail s) = {0..<NR_WP}"
    using assms(1) by (auto simp: wp_inv_def)
  have "length hs < NR_WP + 1" using distinct_card [OF d(1)] unfolding d(2) by (simp add: l)
  from find_prev_foreign [OF c(1) _ this] obtain u where
    "find_prev (NR_WP + 1) x h s = Inr u" "wp_next (wp_at s u) = None" using assms(2) l by auto
  then show ?thesis using c(2) assms(2) l by (auto simp: free_wp_def)
qed

interpretation wps: allocator new_wp "\<lambda>x. free_wp (Some x)" wp_live wp_avail wp_inv NR_WP
proof unfold_locales
  show "distinct (wp_live s @ wp_avail s) \<and> set (wp_live s @ wp_avail s) = {0..<NR_WP}"
    if "wp_inv s" for s
    using that unfolding wp_inv_def by blast
  show "new_wp s = Inl AssertFail" if "wp_inv s" "wp_avail s = []" for s
    using that by (auto simp: wp_inv_def new_wp_def)
  show "\<exists>s'. new_wp s = Inr (x, s') \<and> wp_inv s' \<and> wp_live s' = x # wp_live s \<and> wp_avail s' = xs"
    if "wp_inv s" "wp_avail s = x # xs" for s x xs
    using that by (rule new_wp_ok)
  show "\<exists>s'. free_wp (Some x) s = Inr s' \<and> wp_inv s' \<and> wp_live s' = remove1 x (wp_live s) \<and>
      wp_avail s' = x # wp_avail s"
    if "wp_inv s" "x \<in> set (wp_live s)" for s x
    using that by (rule free_wp_ok)
qed

section \<open>Initialisation, deletion by number\<close>

lemma init_wp_loop_nth:
  "j < length ws \<Longrightarrow> wp_NO (init_wp_loop i ws ! j) = int (i + j) \<and>
     wp_next (init_wp_loop i ws ! j) = (if i + j = NR_WP - 1 then None else Some (i + j + 1))"
  by (induction i ws arbitrary: j rule: init_wp_loop.induct) (auto simp: nth_Cons split: nat.split)

lemma length_init_wp_loop [simp]: "length (init_wp_loop i ws) = length ws"
  by (induction i ws rule: init_wp_loop.induct) auto

lemma init_chain:
  assumes "length pool = NR_WP"
    and "\<And>j. j < NR_WP \<Longrightarrow> wp_next (pool ! j) = (if j = NR_WP - 1 then None else Some (j + 1))"
  shows "i < NR_WP \<Longrightarrow> chain pool (Some i) [i..<NR_WP]"
proof (induction "NR_WP - i" arbitrary: i)
  case 0
  then show ?case by simp
next
  case (Suc n)
  show ?case
  proof (cases "i = NR_WP - 1")
    case True
    then have "[i..<NR_WP] = [i]" by (simp add: NR_WP_def upt_conv_Cons)
    with Suc.prems assms True show ?thesis by simp
  next
    case False
    with Suc.prems have "chain pool (Some (i + 1)) [i + 1..<NR_WP]"
      using Suc.hyps by (intro Suc.hyps(1)) auto
    with Suc.prems assms False show ?thesis by (simp add: upt_conv_Cons)
  qed
qed

lemma init_wp_pool_inv:
  assumes "length (wp_pool s) = NR_WP"
  shows "wp_inv (init_wp_pool s) \<and> wp_live (init_wp_pool s) = [] \<and>
    wp_avail (init_wp_pool s) = [0..<NR_WP]"
proof (rule wp_invI)
  have "chain (init_wp_loop 0 (wp_pool s)) (Some 0) [0..<NR_WP]"
    using assms by (intro init_chain) (simp_all add: init_wp_loop_nth, simp add: NR_WP_def)
  then show "chain (wp_pool (init_wp_pool s)) (wp_free (init_wp_pool s)) [0..<NR_WP]"
    by (simp add: init_wp_pool_def)
qed (use assms in \<open>simp_all add: init_wp_pool_def init_wp_loop_nth\<close>)

text \<open>
  Deleting by number: the search ends at the first watchpoint in use with that number or with
  number 31, and runs off the end of the list when there is neither.
\<close>

lemma find_no_chain:
  "chain (wp_pool s) p xs \<Longrightarrow> length xs < n \<Longrightarrow> \<forall>i \<in> set xs. i < NR_WP \<and> wp_NO (wp_pool s ! i) = int i \<Longrightarrow>
   find_no n no p s =
     (case find (\<lambda>i. int i = no \<or> i = NR_WP - 1) xs of None \<Rightarrow> Inl Undef | Some i \<Rightarrow> Inr i)"
proof (induction xs arbitrary: p n)
  case Nil
  then show ?case by (cases n) auto
next
  case (Cons x xs)
  then obtain k where n: "n = Suc k" by (cases n) auto
  have "int x < int NR_WP - 1 \<longleftrightarrow> x \<noteq> NR_WP - 1" using Cons.prems(3) by (auto simp: NR_WP_def)
  with Cons n show ?case by (auto simp: wp_at_def)
qed

lemma find_SomeD: "find P xs = Some y \<Longrightarrow> y \<in> set xs \<and> P y"
  by (induction xs) (auto split: if_splits)

lemma wp_invD:
  assumes "wp_inv s"
  shows "chain (wp_pool s) (wp_head s) (wp_live s)" "length (wp_live s) < NR_WP + 1"
    and "\<forall>i \<in> set (wp_live s). i < NR_WP \<and> wp_NO (wp_pool s ! i) = int i"
proof -
  have d: "distinct (wp_live s @ wp_avail s)" "set (wp_live s @ wp_avail s) = {0..<NR_WP}"
    using assms by (auto simp: wp_inv_def)
  show "length (wp_live s) < NR_WP + 1"
    using distinct_card [OF d(1)] unfolding d(2) by simp
  have "set (wp_live s) \<subseteq> {0..<NR_WP}" using d(2) by auto
  then show "\<forall>i \<in> set (wp_live s). i < NR_WP \<and> wp_NO (wp_pool s ! i) = int i"
    using assms by (auto simp: wp_inv_def)
  show "chain (wp_pool s) (wp_head s) (wp_live s)" using assms by (simp add: wp_inv_def)
qed

lemma wp_delete_live:
  assumes "wp_inv s" "x \<in> set (wp_live s)" "NR_WP - 1 \<in> set (wp_live s) \<Longrightarrow> x = NR_WP - 1"
  shows "\<exists>s'. wp_delete (int x) s = Inr s' \<and> wp_inv s' \<and> wp_live s' = remove1 x (wp_live s)"
proof -
  note c = wp_invD [OF assms(1)]
  have "find (\<lambda>i. int i = int x \<or> i = NR_WP - 1) (wp_live s) = Some x"
  proof -
    obtain y where y: "find (\<lambda>i. int i = int x \<or> i = NR_WP - 1) (wp_live s) = Some y"
      using assms(2) by (cases "find (\<lambda>i. int i = int x \<or> i = NR_WP - 1) (wp_live s)")
        (auto simp: find_None_iff)
    then have "y \<in> set (wp_live s)" "y = x \<or> y = NR_WP - 1"
      by (auto dest: find_SomeD)
    with assms(3) y show ?thesis by auto
  qed
  then have "find_no (NR_WP + 1) (int x) (wp_head s) s = Inr x"
    using find_no_chain [OF c] by simp
  moreover have "wp_head s \<noteq> None" using c(1) assms(2) by (cases "wp_live s") auto
  ultimately show ?thesis
    using wps.release_ok [OF assms(1,2)] c(3) assms(2) by (auto simp: wp_delete_def)
qed

text \<open>Asking for a number not in use deletes watchpoint 31 if that one is in use.\<close>

lemma wp_delete_wrong:
  assumes "wp_inv s" "NR_WP - 1 \<in> set (wp_live s)" "no < int NR_WP" "no \<notin> int ` set (wp_live s)"
  shows "\<exists>s'. wp_delete no s = Inr s' \<and> wp_live s' = remove1 (NR_WP - 1) (wp_live s)"
proof -
  note c = wp_invD [OF assms(1)]
  have "find (\<lambda>i. int i = no \<or> i = NR_WP - 1) (wp_live s) = Some (NR_WP - 1)"
  proof (cases "find (\<lambda>i. int i = no \<or> i = NR_WP - 1) (wp_live s)")
    case None
    with assms(2) show ?thesis by (auto simp: find_None_iff)
  next
    case (Some y)
    then have "y \<in> set (wp_live s)" "int y = no \<or> y = NR_WP - 1"
      by (auto dest: find_SomeD)
    with assms(4) Some show ?thesis by auto
  qed
  then have "find_no (NR_WP + 1) no (wp_head s) s = Inr (NR_WP - 1)"
    using find_no_chain [OF c] by simp
  moreover have "wp_head s \<noteq> None" using c(1) assms(2) by (cases "wp_live s") auto
  ultimately show ?thesis
    using wps.release_ok [OF assms(1,2)] assms(3) by (auto simp: wp_delete_def)
qed

section \<open>Setting watchpoints\<close>

lemma upd_wp_inv:
  assumes "wp_inv s" "\<And>w. wp_next (f w) = wp_next w \<and> wp_NO (f w) = wp_NO w" "i < NR_WP"
  shows "wp_inv (upd_wp i f s) \<and> wp_live (upd_wp i f s) = wp_live s \<and>
    wp_avail (upd_wp i f s) = wp_avail s"
proof (rule wp_invI)
  have n: "wp_next (wp_pool (upd_wp i f s) ! j) = wp_next (wp_pool s ! j)"
      "wp_NO (wp_pool (upd_wp i f s) ! j) = wp_NO (wp_pool s ! j)" for j
    using assms by (cases "j = i"; auto simp: upd_wp_def wp_inv_def)+
  have l: "length (wp_pool (upd_wp i f s)) = length (wp_pool s)" by (simp add: upd_wp_def)
  show "chain (wp_pool (upd_wp i f s)) (wp_head (upd_wp i f s)) (wp_live s)"
    "chain (wp_pool (upd_wp i f s)) (wp_free (upd_wp i f s)) (wp_avail s)"
    using assms(1) n l by (auto simp: wp_inv_def wp_pool_upd_wp intro: chain_cong)
  show "\<forall>j < NR_WP. wp_NO (wp_pool (upd_wp i f s) ! j) = int j"
    using assms(1) n by (simp add: wp_inv_def)
qed (use assms in \<open>auto simp: wp_inv_def upd_wp_def\<close>)

lemma wp_set_inv:
  assumes "wp_inv s" "wp_set e r s = Inr s'"
  shows "\<exists>x. x \<notin> set (wp_live s) \<and> wp_live s' = x # wp_live s \<and> wp_inv s' \<and>
    wp_expr (wp_at s' x) = e \<and> wp_old (wp_at s' x) = r"
proof -
  from assms(2) obtain x s1 where s1: "new_wp s = Inr (x, s1)"
    and s': "s' = upd_wp x (\<lambda>w. w\<lparr>wp_expr := e, wp_old := r\<rparr>) s1"
    by (auto simp: wp_set_def elim!: resE)
  from wps.alloc_fresh [OF assms(1) s1] have a: "x \<notin> set (wp_live s)" "x < NR_WP" "wp_inv s1"
    "wp_live s1 = x # wp_live s" by auto
  moreover have "wp_expr (wp_at s' x) = e \<and> wp_old (wp_at s' x) = r"
    using a by (simp add: s' wp_at_def upd_wp_def wp_inv_def)
  ultimately show ?thesis
    using upd_wp_inv [OF a(3), of "\<lambda>w. w\<lparr>wp_expr := e, wp_old := r\<rparr>" x] s' by auto
qed

end
