(* ===== verification/Cpu_Exec.thy ===== *)
theory Cpu_Exec
  imports Difftest Watchpoint
begin

text \<open>
  The execution loop, \<^verbatim>\<open>src/cpu/cpu-exec.c\<close>: one instruction, the trace of the last sixteen, the
  checks after each instruction, the loop with device polling, and \<^verbatim>\<open>cpu_exec\<close> with its run
  states. The functions the source links per guest (\<^verbatim>\<open>isa_exec_once\<close>, \<^verbatim>\<open>isa_reg_str2val\<close>,
  \<^verbatim>\<open>isa_difftest_checkregs\<close>) and the reference are the record \<open>guest\<close>. The instruction log
  (\<^verbatim>\<open>CONFIG_ITRACE\<close>, which needs LLVM's disassembler) is not modelled.
\<close>

section \<open>State\<close>

record ('v, 'e, 'r) guest =
  g_step :: "'v Decode \<Rightarrow> ('v, 'e) isa_machine \<Rightarrow> ('v Decode \<times> ('v, 'e) isa_machine) res"
  g_reg_val :: "string \<Rightarrow> ('v, 'e) isa_machine \<Rightarrow> ('v \<times> bool) res"
  g_checkregs :: "('v, ('v, 'e) cpu_state_scheme) checkregs_fn"
  g_ref :: "(('v, 'e) cpu_state_scheme, 'r) ref_model"

text \<open>What the run reports: the message at the end, with \<^verbatim>\<open>halt_pc\<close>, or the statistics.\<close>

datatype 'v report = Ended | ReportAbort 'v | GoodTrap 'v | BadTrap 'v | Statistic u64

text \<open>\<open>pending_events\<close> lists what SDL has for each call of \<^verbatim>\<open>device_update\<close>.\<close>

record ('v, 'e, 'r) exec_state =
  mach :: "('v, 'e) isa_machine"
  refst :: 'r
  wpst :: "'v wp_state"
  g_nr_guest_inst :: u64
  g_timer :: u64
  g_print_step :: bool
  cur_inst :: nat
  iringbuf :: "('v \<times> u32) list"
  reports :: "'v report list"
  pending_events :: "sdl_event list list"

definition INST_NUM :: nat where
  "INST_NUM = 16"

definition MAX_INST_TO_PRINT :: nat where
  "MAX_INST_TO_PRINT = 10"

definition run_of :: "('v, 'e, 'r) exec_state \<Rightarrow> run_state" where
  "run_of st = nstate (nemu (nsys (mach st)))"

definition set_run :: "run_state \<Rightarrow> ('v, 'e, 'r) exec_state \<Rightarrow> ('v, 'e, 'r) exec_state" where
  "set_run r st = st\<lparr>mach := upd_sys (\<lambda>s. s\<lparr>nemu := (nemu s)\<lparr>nstate := r\<rparr>\<rparr>) (mach st)\<rparr>"

section \<open>The instruction ring buffer\<close>

definition trace_inst :: "'v \<Rightarrow> u32 \<Rightarrow> ('v, 'e, 'r) exec_state \<Rightarrow> ('v, 'e, 'r) exec_state res" where
  "trace_inst p inst st =
     guardR (cur_inst st < length (iringbuf st)) Undef
      (Inr (st\<lparr>iringbuf := (iringbuf st)[cur_inst st := (p, inst)],
               cur_inst := (cur_inst st + 1) mod INST_NUM\<rparr>))"

text \<open>
  The lines \<^verbatim>\<open>display_inst\<close> prints: whether the arrow is shown, the address, the instruction.
  Sixteen rounds reach \<open>fin\<close> from any start.
\<close>

fun display_loop :: "nat \<Rightarrow> nat \<Rightarrow> nat \<Rightarrow> ('v \<times> u32) list \<Rightarrow> (bool \<times> 'v \<times> u32) list" where
  "display_loop 0 i fin ring = []"
| "display_loop (Suc n) i fin ring =
     ((i + 1) mod INST_NUM = fin, fst (ring ! i), snd (ring ! i)) #
     (if (i + 1) mod INST_NUM \<noteq> fin then display_loop n ((i + 1) mod INST_NUM) fin ring else [])"

definition display_inst :: "('v::zero, 'e, 'r) exec_state \<Rightarrow> (bool \<times> 'v \<times> u32) list res" where
  "display_inst st =
     (let i = cur_inst st in
      guardR (i + 1 < length (iringbuf st)) Undef
       (Inr (display_loop INST_NUM (if fst (iringbuf st ! (i + 1)) = 0 then 0 else i) i (iringbuf st))))"

section \<open>One instruction\<close>

definition exec_once :: "config \<Rightarrow> ('v, 'e, 'r) guest \<Rightarrow> 'v Decode \<Rightarrow> 'v \<Rightarrow>
    ('v, 'e, 'r) exec_state \<Rightarrow> ('v Decode \<times> ('v, 'e, 'r) exec_state) res" where
  "exec_once c G d p st =
     bindR (g_step G (d\<lparr>dpc := p, snpc := p\<rparr>) (mach st)) (\<lambda>(d, m).
     let st = st\<lparr>mach := m\<rparr>;
         st = (if inst_val d = 0x00100073 then set_run NEMU_STOP st
               else st\<lparr>mach := m\<lparr>cpu := (cpu m)\<lparr>pc := dnpc d\<rparr>\<rparr>\<rparr>)
     in bindR (if cfg_iringbuf c then trace_inst (dpc d) (inst_val d) st else Inr st) (\<lambda>st.
        Inr (d, st)))"

definition trace_and_difftest :: "config \<Rightarrow> ('a::len word, 'e, 'r) guest \<Rightarrow> 'a word Decode \<Rightarrow> 'a word \<Rightarrow>
    ('a word, 'e, 'r) exec_state \<Rightarrow> ('a word, 'e, 'r) exec_state res" where
  "trace_and_difftest c G d npc st =
     bindR (if cfg_difftest c
            then bindR (difftest_step (g_checkregs G) (g_ref G) (dpc d) npc (mach st) (refst st))
                   (\<lambda>(m, r). Inr (st\<lparr>mach := m, refst := r\<rparr>))
            else Inr st) (\<lambda>st.
     if cfg_watchpoint c
     then bindR (wp_difftest c (g_reg_val G) (wpst st) (mach st)) (\<lambda>(w, m).
          Inr (st\<lparr>wpst := w, mach := m\<rparr>))
     else Inr st)"

section \<open>The loop\<close>

definition poll_devices :: "config \<Rightarrow> device_config \<Rightarrow> ('v, 'e, 'r) exec_state \<Rightarrow>
    ('v, 'e, 'r) exec_state res" where
  "poll_devices c dc st =
     (if cfg_device c
      then (let (evs, rest) = (case pending_events st of [] \<Rightarrow> ([], []) | e # es \<Rightarrow> (e, es)) in
            bindR (device_update dc evs (nsys (mach st))) (\<lambda>s.
            Inr (st\<lparr>mach := (mach st)\<lparr>nsys := s\<rparr>, pending_events := rest\<rparr>)))
      else Inr st)"

fun execute :: "config \<Rightarrow> device_config \<Rightarrow> ('a::len word, 'e, 'r) guest \<Rightarrow> nat \<Rightarrow> 'a word Decode \<Rightarrow>
    ('a word, 'e, 'r) exec_state \<Rightarrow> ('a word, 'e, 'r) exec_state res" where
  "execute c dc G 0 d st = Inr st"
| "execute c dc G (Suc n) d st =
     bindR (exec_once c G d (pc (cpu (mach st))) st) (\<lambda>(d, st).
     let st = st\<lparr>g_nr_guest_inst := g_nr_guest_inst st + 1\<rparr> in
     bindR (trace_and_difftest c G d (pc (cpu (mach st))) st) (\<lambda>st.
     if run_of st \<noteq> NEMU_RUNNING then Inr st
     else bindR (poll_devices c dc st) (\<lambda>st. execute c dc G n d st)))"

definition get_time_st :: "('v, 'e, 'r) exec_state \<Rightarrow> u64 \<times> ('v, 'e, 'r) exec_state" where
  "get_time_st st =
     (let (t, s) = get_time (nsys (mach st)) in (t, st\<lparr>mach := (mach st)\<lparr>nsys := s\<rparr>\<rparr>))"

definition report :: "'v report \<Rightarrow> ('v, 'e, 'r) exec_state \<Rightarrow> ('v, 'e, 'r) exec_state" where
  "report r st = st\<lparr>reports := reports st @ [r]\<rparr>"

definition statistic :: "('v, 'e, 'r) exec_state \<Rightarrow> ('v, 'e, 'r) exec_state" where
  "statistic st = report (Statistic (g_nr_guest_inst st)) st"

definition show_ring :: "config \<Rightarrow> ('v::zero, 'e, 'r) exec_state \<Rightarrow> ('v, 'e, 'r) exec_state res" where
  "show_ring c st = (if cfg_iringbuf c then bindR (display_inst st) (\<lambda>_. Inr st) else Inr st)"

text \<open>The switch after the loop; \<open>NEMU_STOP\<close> has no case.\<close>

definition finish_run :: "config \<Rightarrow> ('v::zero, 'e, 'r) exec_state \<Rightarrow> ('v, 'e, 'r) exec_state res" where
  "finish_run c st =
     (case run_of st of
        NEMU_RUNNING \<Rightarrow> show_ring c (set_run NEMU_STOP st)
      | NEMU_END \<Rightarrow>
          bindR (show_ring c st) (\<lambda>st.
          let n = nemu (nsys (mach st)) in
          Inr (statistic (report (if halt_ret n = 0 then GoodTrap (halt_pc n) else BadTrap (halt_pc n)) st)))
      | NEMU_ABORT \<Rightarrow>
          bindR (show_ring c st) (\<lambda>st.
          Inr (statistic (report (ReportAbort (halt_pc (nemu (nsys (mach st))))) st)))
      | NEMU_QUIT \<Rightarrow> Inr (statistic st)
      | NEMU_STOP \<Rightarrow> Inr st)"

definition assert_fail_msg :: "config \<Rightarrow> ('v::zero, 'e, 'r) exec_state \<Rightarrow> ('v, 'e, 'r) exec_state res" where
  "assert_fail_msg c st = bindR (show_ring c st) (\<lambda>st. Inr (statistic st))"

text \<open>The local \<^verbatim>\<open>Decode s\<close> of \<^verbatim>\<open>execute\<close> has unknown contents \<open>d\<close>.\<close>

definition cpu_exec :: "config \<Rightarrow> device_config \<Rightarrow> ('a::len word, 'e, 'r) guest \<Rightarrow> u64 \<Rightarrow> 'a word Decode \<Rightarrow>
    ('a word, 'e, 'r) exec_state \<Rightarrow> ('a word, 'e, 'r) exec_state res" where
  "cpu_exec c dc G n d st =
     (let st = st\<lparr>g_print_step := unat n < MAX_INST_TO_PRINT\<rparr> in
      if run_of st = NEMU_END \<or> run_of st = NEMU_ABORT then Inr (report Ended st)
      else let st = set_run NEMU_RUNNING st; (timer_start, st) = get_time_st st in
        bindR (execute c dc G (unat n) d st) (\<lambda>st.
        let (timer_end, st) = get_time_st st in
        finish_run c (st\<lparr>g_timer := g_timer st + (timer_end - timer_start)\<rparr>)))"

section \<open>Simple facts\<close>

lemma run_of_set_run [simp]: "run_of (set_run r st) = r"
  by (simp add: run_of_def set_run_def)

lemma set_run_simps [simp]:
  "iringbuf (set_run r st) = iringbuf st" "cur_inst (set_run r st) = cur_inst st"
  "cpu (mach (set_run r st)) = cpu (mach st)" "reports (set_run r st) = reports st"
  "g_nr_guest_inst (set_run r st) = g_nr_guest_inst st" "g_timer (set_run r st) = g_timer st"
  "wpst (set_run r st) = wpst st"
  by (simp_all add: set_run_def)

lemma trace_instE:
  assumes "trace_inst p i st = Inr st'"
  obtains "cur_inst st < length (iringbuf st)" "st' = st\<lparr>iringbuf := (iringbuf st)[cur_inst st := (p, i)],
               cur_inst := (cur_inst st + 1) mod INST_NUM\<rparr>"
  using assms by (auto simp: trace_inst_def elim!: resE)

section \<open>The run states\<close>

text \<open>A run that returns leaves NEMU in any state but running.\<close>

lemma show_ring_same: "show_ring c st = Inr st' \<Longrightarrow> st' = st"
  by (auto simp: show_ring_def elim!: resE split: if_split_asm)

lemma run_of_report [simp]: "run_of (report r st) = run_of st" "run_of (statistic st) = run_of st"
  by (simp_all add: report_def statistic_def run_of_def)

lemma finish_run_not_running: "finish_run c st = Inr st' \<Longrightarrow> run_of st' \<noteq> NEMU_RUNNING"
  by (auto simp: finish_run_def Let_def elim!: resE dest!: show_ring_same split: run_state.split_asm)

lemma cpu_exec_not_running: "cpu_exec c dc G n d st = Inr st' \<Longrightarrow> run_of st' \<noteq> NEMU_RUNNING"
  by (auto simp: cpu_exec_def Let_def elim!: resE dest!: finish_run_not_running
      split: if_split_asm prod.split_asm)

lemma run_of_print [simp]: "run_of (st\<lparr>g_print_step := b\<rparr>) = run_of st"
  by (simp add: run_of_def)

text \<open>Once ended or aborted, nothing more is executed.\<close>

lemma cpu_exec_ended:
  assumes "run_of st = NEMU_END \<or> run_of st = NEMU_ABORT"
  shows "cpu_exec c dc G n d st = Inr (report Ended (st\<lparr>g_print_step := unat n < MAX_INST_TO_PRINT\<rparr>))"
  using assms by (auto simp: cpu_exec_def)

section \<open>The ebreak instruction stops the machine\<close>

text \<open>
  Whatever the guest's step did to the run state, an instruction word \<^verbatim>\<open>0x00100073\<close> leaves
  NEMU stopped at that instruction.
\<close>

lemma exec_once_ebreak:
  assumes "exec_once c G d p st = Inr (d', st')" "inst_val d' = 0x00100073"
    and "g_step G (d\<lparr>dpc := p, snpc := p\<rparr>) (mach st) = Inr (d', m)"
  shows "run_of st' = NEMU_STOP \<and> cpu (mach st') = cpu m"
  using assms
  by (auto simp: exec_once_def Let_def run_of_def set_run_def elim!: resE trace_instE split: if_split_asm)

text \<open>
  Without the checks of differential testing and watchpoints, a run that meets such an
  instruction first ends in \<open>NEMU_STOP\<close>: no trap is reported and the exit status is bad, whatever
  the guest left in its result register.
\<close>

lemma run_of_get_time_st: "get_time_st st = (t, st') \<Longrightarrow> run_of st' = run_of st \<and> reports st' = reports st"
  by (auto simp: get_time_st_def run_of_def dest!: get_time_nemu split: prod.split_asm)

lemma exec_once_reports: "exec_once c G d p st = Inr (d', st') \<Longrightarrow> reports st' = reports st"
  by (auto simp: exec_once_def Let_def set_run_def elim!: resE trace_instE split: if_split_asm)

lemma cpu_exec_ebreak:
  assumes "\<not> cfg_difftest c" "\<not> cfg_watchpoint c" "n \<noteq> 0"
    and "run_of st \<noteq> NEMU_END" "run_of st \<noteq> NEMU_ABORT"
    and "get_time_st (set_run NEMU_RUNNING (st\<lparr>g_print_step := unat n < MAX_INST_TO_PRINT\<rparr>)) = (t, st1)"
    and "exec_once c G d (pc (cpu (mach st1))) st1 = Inr (d', st2)" "inst_val d' = 0x00100073"
  shows "\<exists>st'. cpu_exec c dc G n d st = Inr st' \<and> run_of st' = NEMU_STOP \<and>
    reports st' = reports st \<and> is_exit_status_bad (nemu (nsys (mach st'))) = 1"
proof -
  obtain k where k: "unat n = Suc k" using assms(3) unsigned_eq_0_iff [of n]
    by (metis not0_implies_Suc)
  from assms(7) obtain m where "g_step G (d\<lparr>dpc := pc (cpu (mach st1)), snpc := pc (cpu (mach st1))\<rparr>)
      (mach st1) = Inr (d', m)"
    by (auto simp: exec_once_def Let_def elim!: resE)
  from exec_once_ebreak [OF assms(7,8) this] have r2: "run_of st2 = NEMU_STOP" by simp
  let ?st3 = "st2\<lparr>g_nr_guest_inst := g_nr_guest_inst st2 + 1\<rparr>"
  have r3: "run_of ?st3 = NEMU_STOP" using r2 by (simp add: run_of_def)
  then have e: "execute c dc G (unat n) d st1 = Inr ?st3"
    using assms(1,2,7) by (simp add: k trace_and_difftest_def Let_def)
  obtain t' st4 where g: "get_time_st ?st3 = (t', st4)" by fastforce
  let ?st' = "st4\<lparr>g_timer := g_timer st4 + (t' - t)\<rparr>"
  have r4: "run_of ?st' = NEMU_STOP" "reports ?st' = reports st2"
    using run_of_get_time_st [OF g] r3 by (simp_all add: run_of_def)
  have "reports st2 = reports st"
    using exec_once_reports [OF assms(7)] run_of_get_time_st [OF assms(6)] by simp
  moreover have "cpu_exec c dc G n d st = Inr ?st'"
    using assms(4-6) e g r4(1) by (simp add: cpu_exec_def Let_def finish_run_def)
  moreover have "is_exit_status_bad (nemu (nsys (mach ?st'))) = 1"
    using r4(1) by (simp add: is_exit_status_bad_def run_of_def)
  ultimately show ?thesis using r4 by metis
qed

section \<open>Counting instructions\<close>

lemma exec_once_count: "exec_once c G d p st = Inr (d', st') \<Longrightarrow> g_nr_guest_inst st' = g_nr_guest_inst st"
  by (auto simp: exec_once_def Let_def elim!: resE trace_instE split: if_split_asm)

lemma trace_and_difftest_count:
  "trace_and_difftest c G d npc st = Inr st' \<Longrightarrow> g_nr_guest_inst st' = g_nr_guest_inst st"
  by (auto simp: trace_and_difftest_def elim!: resE split: if_split_asm)

lemma poll_devices_count:
  "poll_devices c dc st = Inr st' \<Longrightarrow> g_nr_guest_inst st' = g_nr_guest_inst st"
  by (auto simp: poll_devices_def elim!: resE split: if_split_asm prod.split_asm)

lemma execute_count:
  "execute c dc G n d st = Inr st' \<Longrightarrow>
   \<exists>k \<le> n. g_nr_guest_inst st' = g_nr_guest_inst st + of_nat k \<and>
     (run_of st' = NEMU_RUNNING \<longrightarrow> k = n)"
proof (induction n arbitrary: d st)
  case 0
  then show ?case by simp
next
  case (Suc n)
  from Suc.prems obtain d1 st1 st2 where s1: "exec_once c G d (pc (cpu (mach st))) st = Inr (d1, st1)"
    and s2: "trace_and_difftest c G d1 (pc (cpu (mach st1)))
        (st1\<lparr>g_nr_guest_inst := g_nr_guest_inst st1 + 1\<rparr>) = Inr st2"
    and s3: "(if run_of st2 \<noteq> NEMU_RUNNING then Inr st2
        else bindR (poll_devices c dc st2) (\<lambda>st. execute c dc G n d1 st)) = Inr st'"
    by (auto simp: Let_def elim!: resE)
  have c: "g_nr_guest_inst st2 = g_nr_guest_inst st + 1"
    using exec_once_count [OF s1] trace_and_difftest_count [OF s2] by simp
  show ?case
  proof (cases "run_of st2 = NEMU_RUNNING")
    case False
    with s3 c show ?thesis by (intro exI [of _ 1]) auto
  next
    case True
    with s3 obtain st3 where p: "poll_devices c dc st2 = Inr st3" "execute c dc G n d1 st3 = Inr st'"
      by (auto elim!: resE)
    from Suc.IH [OF p(2)] obtain k where "k \<le> n"
      "g_nr_guest_inst st' = g_nr_guest_inst st3 + of_nat k" "run_of st' = NEMU_RUNNING \<longrightarrow> k = n"
      by blast
    with c poll_devices_count [OF p(1)] show ?thesis
      by (intro exI [of _ "Suc k"]) (simp add: algebra_simps)
  qed
qed

lemma get_time_st_count: "get_time_st st = (t, st') \<Longrightarrow> g_nr_guest_inst st' = g_nr_guest_inst st"
  by (auto simp: get_time_st_def split: prod.split_asm)

lemma finish_run_count: "finish_run c st = Inr st' \<Longrightarrow> g_nr_guest_inst st' = g_nr_guest_inst st"
  by (auto simp: finish_run_def Let_def report_def statistic_def set_run_def elim!: resE dest!: show_ring_same
      split: run_state.split_asm)

lemma cpu_exec_count:
  assumes "cpu_exec c dc G n d st = Inr st'" "run_of st \<noteq> NEMU_END" "run_of st \<noteq> NEMU_ABORT"
  shows "\<exists>k \<le> unat n. g_nr_guest_inst st' = g_nr_guest_inst st + of_nat k"
proof -
  let ?st0 = "set_run NEMU_RUNNING (st\<lparr>g_print_step := unat n < MAX_INST_TO_PRINT\<rparr>)"
  obtain t st1 where g: "get_time_st ?st0 = (t, st1)" by fastforce
  with assms obtain st2 t' st3 where e: "execute c dc G (unat n) d st1 = Inr st2"
    and g': "get_time_st st2 = (t', st3)"
    and f: "finish_run c (st3\<lparr>g_timer := g_timer st3 + (t' - t)\<rparr>) = Inr st'"
    by (auto simp: cpu_exec_def Let_def elim!: resE split: prod.split_asm)
  then show ?thesis
    using execute_count [OF e] get_time_st_count [OF g] get_time_st_count [OF g'] finish_run_count [OF f]
    by auto
qed

section \<open>The trace holds the last sixteen instructions\<close>

definition ring_log :: "('v, 'e, 'r) exec_state \<Rightarrow> ('v \<times> u32) list \<Rightarrow> bool" where
  "ring_log st xs \<longleftrightarrow> length (iringbuf st) = INST_NUM \<and> cur_inst st = length xs mod INST_NUM \<and>
     (\<forall>k. k < length xs \<and> length xs \<le> k + INST_NUM \<longrightarrow> iringbuf st ! (k mod INST_NUM) = xs ! k)"

lemma mod_INST_NUM_neq:
  assumes "k < n" "n < k + INST_NUM"
  shows "k mod INST_NUM \<noteq> n mod INST_NUM"
proof
  assume "k mod INST_NUM = n mod INST_NUM"
  then have "INST_NUM dvd n - k" using assms(1) by (metis less_imp_le mod_eq_dvd_iff_nat)
  with assms show False by (auto dest!: dvd_imp_le)
qed

lemma ring_log_snoc:
  assumes "ring_log st xs"
  shows "\<exists>st'. trace_inst p i st = Inr st' \<and> ring_log st' (xs @ [(p, i)])"
proof -
  let ?n = "length xs"
  let ?ring = "(iringbuf st)[?n mod INST_NUM := (p, i)]"
  have cur: "cur_inst st = ?n mod INST_NUM" "length (iringbuf st) = INST_NUM" "?n mod INST_NUM < INST_NUM"
    using assms by (simp_all add: ring_log_def INST_NUM_def)
  let ?st' = "st\<lparr>iringbuf := ?ring, cur_inst := (cur_inst st + 1) mod INST_NUM\<rparr>"
  have "trace_inst p i st = Inr ?st'" using cur by (simp add: trace_inst_def)
  moreover have "?ring ! (k mod INST_NUM) = (xs @ [(p, i)]) ! k"
    if "k < Suc ?n" "Suc ?n \<le> k + INST_NUM" for k
  proof (cases "k = ?n")
    case True
    with cur show ?thesis by simp
  next
    case False
    with that have "k < ?n" "?n < k + INST_NUM" by auto
    with mod_INST_NUM_neq [of k ?n] assms show ?thesis by (auto simp: ring_log_def nth_append)
  qed
  ultimately show ?thesis
    using cur by (auto simp: ring_log_def mod_Suc_eq)
qed

text \<open>With the ring at its last slot, printing it reads past its end.\<close>

lemma display_inst_overrun:
  "length (iringbuf st) = INST_NUM \<Longrightarrow> cur_inst st = INST_NUM - 1 \<Longrightarrow> display_inst st = Inl Undef"
  by (simp add: display_inst_def INST_NUM_def)

lemma ring_next:
  assumes "t < INST_NUM"
  shows "((n + t) mod INST_NUM + 1) mod INST_NUM = n mod INST_NUM \<longleftrightarrow> t = INST_NUM - 1"
proof -
  have "((n + t) mod INST_NUM + 1) mod INST_NUM = (n + Suc t) mod INST_NUM"
    by (simp add: mod_Suc_eq)
  moreover have "(n + Suc t) mod INST_NUM = n mod INST_NUM \<longleftrightarrow> INST_NUM dvd Suc t"
    using mod_eq_dvd_iff_nat [of n "n + Suc t" INST_NUM] by simp
  moreover have "INST_NUM dvd Suc t \<longleftrightarrow> Suc t = INST_NUM"
    using assms by (auto dest: dvd_imp_le)
  ultimately show ?thesis by (auto simp: INST_NUM_def)
qed

lemma display_loop_from:
  "k \<le> INST_NUM \<Longrightarrow>
   display_loop k ((n + (INST_NUM - k)) mod INST_NUM) (n mod INST_NUM) ring =
   map (\<lambda>u. (u = INST_NUM - 1, ring ! ((n + u) mod INST_NUM))) [INST_NUM - k..<INST_NUM]"
proof (induction k)
  case 0
  then show ?case by simp
next
  case (Suc k)
  let ?t = "INST_NUM - Suc k"
  have t: "?t < INST_NUM" "Suc ?t = INST_NUM - k" using Suc.prems by (simp_all add: INST_NUM_def)
  have "((n + ?t) mod INST_NUM + 1) mod INST_NUM = (n + (INST_NUM - k)) mod INST_NUM"
    by (simp add: t(2) [symmetric] mod_Suc_eq)
  moreover have "[?t..<INST_NUM] = ?t # [INST_NUM - k..<INST_NUM]"
    using t by (metis upt_conv_Cons)
  moreover have "k = 0 \<longleftrightarrow> ?t = INST_NUM - 1" using Suc.prems by (simp add: INST_NUM_def) linarith
  ultimately show ?case
    using ring_next [OF t(1), of n] Suc by (cases k) simp_all
qed

text \<open>Once sixteen instructions are traced, the print shows the last sixteen in order.\<close>

lemma display_inst_last:
  assumes "ring_log st xs" "INST_NUM \<le> length xs" "length xs mod INST_NUM \<noteq> INST_NUM - 1"
    and "\<forall>x \<in> set xs. fst x \<noteq> 0"
  shows "display_inst st =
    Inr (map (\<lambda>u. (u = INST_NUM - 1, xs ! (length xs - INST_NUM + u))) [0..<INST_NUM])"
proof -
  let ?n = "length xs"
  have r: "length (iringbuf st) = INST_NUM" "cur_inst st = ?n mod INST_NUM"
    using assms(1) by (simp_all add: ring_log_def)
  have slot: "iringbuf st ! ((?n + u) mod INST_NUM) = xs ! (?n - INST_NUM + u)" if "u < INST_NUM" for u
  proof -
    have "(?n + u) mod INST_NUM = (?n - INST_NUM + u) mod INST_NUM"
    proof -
      obtain k where "?n = k + INST_NUM" using assms(2) by (metis add.commute le_add_diff_inverse)
      then show ?thesis by (metis add.assoc add.commute add_diff_cancel_right' mod_add_self2)
    qed
    moreover have "?n - INST_NUM + u < ?n" "?n \<le> ?n - INST_NUM + u + INST_NUM" using that assms(2) by auto
    ultimately show ?thesis using assms(1) by (simp add: ring_log_def)
  qed
  have lt: "?n mod INST_NUM + 1 < INST_NUM" using assms(3) mod_less_divisor [of INST_NUM ?n]
    by (simp add: INST_NUM_def)
  then have "(?n + 1) mod INST_NUM = ?n mod INST_NUM + 1"
    by (metis Suc_eq_plus1 mod_Suc nat_neq_iff)
  then have "iringbuf st ! (?n mod INST_NUM + 1) = xs ! (?n - INST_NUM + 1)"
    using slot [of 1] by (simp add: INST_NUM_def)
  moreover have "xs ! (?n - INST_NUM + 1) \<in> set xs" using assms(2) by (intro nth_mem) (simp add: INST_NUM_def)
  ultimately have "fst (iringbuf st ! (?n mod INST_NUM + 1)) \<noteq> 0" using assms(4) by simp
  then have "display_inst st = Inr (display_loop INST_NUM (?n mod INST_NUM) (?n mod INST_NUM) (iringbuf st))"
    using lt r by (simp add: display_inst_def Let_def)
  with display_loop_from [of INST_NUM ?n "iringbuf st"] show ?thesis by (simp add: slot)
qed

section \<open>What the checks keep of the CPU\<close>

text \<open>Evaluating an expression changes the machine only as its reads of memory do.\<close>

lemma calc1_reads:
  "calc1 c op v m = Inr (x, m') \<Longrightarrow> cpu m' = cpu m \<and> nemu (nsys m') = nemu (nsys m)"
  by (auto simp: calc1_def elim!: resE dest: paddr_read_nemu split: token_type.split_asm)

lemma eval_num_reg_same: "eval_num_reg rv t m = Inr (x, m') \<Longrightarrow> m' = m"
  by (auto simp: eval_num_reg_def elim!: resE split: token_type.split_asm)

lemma eval_reads:
  "eval c rv ts p q m = Inr (x, m') \<Longrightarrow> cpu m' = cpu m \<and> nemu (nsys m') = nemu (nsys m)"
proof (induction "nat (q + 1 - p)" arbitrary: p q m x m' rule: less_induct)
  case less
  have IH: "cpu m2 = cpu m1 \<and> nemu (nsys m2) = nemu (nsys m1)"
    if "nat (q' + 1 - p') < nat (q + 1 - p)" "eval c rv ts p' q' m1 = Inr (y, m2)" for p' q' m1 y m2
    using less.hyps that by blast
  show ?case
  proof (cases "p < q \<and> \<not> check_parentheses ts p q")
    case False
    then consider "q < p" | "p = q" | "p < q" "check_parentheses ts p q" by linarith
    then show ?thesis
    proof cases
      case 3
      with less.prems have "eval c rv ts (p + 1) (q - 1) m = Inr (x, m')"
        by (subst (asm) eval.simps) simp
      then show ?thesis using 3 by (intro IH) simp_all
    qed (use less.prems in \<open>subst (asm) eval.simps, auto dest: eval_num_reg_same\<close>)+
  next
    case True
    with less.prems obtain op where op: "find_op ts p q = Inr op"
      by (subst (asm) eval.simps) (auto elim!: resE)
    show ?thesis
    proof (cases "op < 0")
      case True
      with less.prems \<open>p < q \<and> _\<close> op show ?thesis by (subst (asm) eval.simps) auto
    next
      case False
      then have b: "p \<le> op" "op \<le> q" using find_op_bounds [OF op] by auto
      from less.prems \<open>p < q \<and> _\<close> op False obtain v1 ok1 m1 v2 ok2 m2
        where e: "eval c rv ts p (op - 1) m = Inr ((v1, ok1), m1)"
          "eval c rv ts (op + 1) q m1 = Inr ((v2, ok2), m2)"
        and r: "(if \<not> ok2 then Inr ((0, False), m2)
          else if ok1 then bindR (calc2 v1 (tok ts op) v2) (\<lambda>r. Inr (r, m2))
          else calc1 c (tok ts op) v2 m2) = Inr (x, m')"
        by (subst (asm) eval.simps) (auto elim!: resE)
      have "cpu m2 = cpu m \<and> nemu (nsys m2) = nemu (nsys m)" using IH [OF _ e(1)] IH [OF _ e(2)] b by auto
      with r show ?thesis by (auto elim!: resE dest: calc1_reads split: if_split_asm)
    qed
  qed
qed

lemma expr_reads:
  "expr c rv e m = Inr (x, m') \<Longrightarrow> cpu m' = cpu m \<and> nemu (nsys m') = nemu (nsys m)"
  by (auto simp: expr_def elim!: resE dest: eval_reads split: if_split_asm)

lemma wp_difftest_from_run:
  "wp_difftest_from c rv n p w m = Inr (w', m') \<Longrightarrow>
   cpu m' = cpu m \<and> nstate (nemu (nsys m')) \<in> {nstate (nemu (nsys m)), NEMU_STOP}"
proof (induction c rv n p w m arbitrary: w' m' rule: wp_difftest_from.induct)
  case (3 c rv n i s m)
  from "3.prems" obtain v ok m1 where e: "expr c rv (wp_expr (wp_at s i)) m = Inr ((v, ok), m1)"
    by (auto elim!: resE)
  note r = expr_reads [OF e]
  show ?case
  proof (cases "wp_old (wp_at s i) = v")
    case True
    with "3.prems" e have "wp_difftest_from c rv n (wp_next (wp_at s i)) s m1 = Inr (w', m')" by simp
    from "3.IH"(2) [OF e refl refl _ this] True r show ?thesis by simp
  next
    case False
    let ?s = "upd_wp i (\<lambda>w. w\<lparr>wp_old := v\<rparr>) s"
      and ?m = "m1\<lparr>nsys := (nsys m1)\<lparr>nemu := (nemu (nsys m1))\<lparr>nstate := NEMU_STOP\<rparr>\<rparr>\<rparr>"
    from False "3.prems" e have "wp_difftest_from c rv n (wp_next (wp_at s i)) ?s ?m = Inr (w', m')" by simp
    from "3.IH"(1) [OF e refl refl _ this] False r show ?thesis by simp
  qed
qed simp_all

lemma wp_difftest_from_cpu: "wp_difftest_from c rv n p w m = Inr (w', m') \<Longrightarrow> cpu m' = cpu m"
  using wp_difftest_from_run by blast

lemma trace_and_difftest_cpu:
  "trace_and_difftest c G d npc st = Inr st' \<Longrightarrow> cpu (mach st') = cpu (mach st)"
  by (auto simp: trace_and_difftest_def wp_difftest_def elim!: resE
      dest!: wp_difftest_from_cpu difftest_step_cpu split: if_split_asm)

lemma poll_devices_cpu: "poll_devices c dc st = Inr st' \<Longrightarrow> cpu (mach st') = cpu (mach st)"
  by (auto simp: poll_devices_def elim!: resE split: if_split_asm prod.split_asm)

section \<open>The register file, for every guest\<close>

context isa_step
begin

lemma regs_ok_cpu: "gpr (cpu m') = gpr (cpu m) \<Longrightarrow> regs_ok m' = regs_ok m"
  by (simp add: regs_ok_def)

lemma exec_once_regs:
  assumes "g_step G = step" "exec_once c G d p st = Inr (d', st')" "regs_ok (mach st)"
  shows "regs_ok (mach st')"
proof -
  from assms(1,2) obtain m where m: "step (d\<lparr>dpc := p, snpc := p\<rparr>) (mach st) = Inr (d', m)"
    and "gpr (cpu (mach st')) = gpr (cpu m)"
    by (auto simp: exec_once_def Let_def elim!: resE trace_instE split: if_split_asm)
  with step_regs_ok [OF m assms(3)] show ?thesis using regs_ok_cpu by blast
qed

lemma execute_regs:
  "g_step G = step \<Longrightarrow> execute c dc G n d st = Inr st' \<Longrightarrow> regs_ok (mach st) \<Longrightarrow> regs_ok (mach st')"
proof (induction n arbitrary: d st)
  case 0
  then show ?case by simp
next
  case (Suc n)
  from Suc.prems(2) obtain d1 st1 st2 where s: "exec_once c G d (pc (cpu (mach st))) st = Inr (d1, st1)"
    "trace_and_difftest c G d1 (pc (cpu (mach st1)))
        (st1\<lparr>g_nr_guest_inst := g_nr_guest_inst st1 + 1\<rparr>) = Inr st2"
    and s3: "(if run_of st2 \<noteq> NEMU_RUNNING then Inr st2
        else bindR (poll_devices c dc st2) (\<lambda>st. execute c dc G n d1 st)) = Inr st'"
    by (auto simp: Let_def elim!: resE)
  have r: "regs_ok (mach st2)"
    using exec_once_regs [OF Suc.prems(1) s(1) Suc.prems(3)] trace_and_difftest_cpu [OF s(2)]
    by (simp add: regs_ok_def)
  show ?case
  proof (cases "run_of st2 = NEMU_RUNNING")
    case False
    with s3 r show ?thesis by simp
  next
    case True
    with s3 obtain st3 where p: "poll_devices c dc st2 = Inr st3" "execute c dc G n d1 st3 = Inr st'"
      by (auto elim!: resE)
    with r poll_devices_cpu [OF p(1)] Suc.IH [OF Suc.prems(1) p(2)] show ?thesis
      by (simp add: regs_ok_def)
  qed
qed

lemma finish_run_cpu: "finish_run c st = Inr st' \<Longrightarrow> cpu (mach st') = cpu (mach st)"
  by (auto simp: finish_run_def Let_def report_def statistic_def elim!: resE dest!: show_ring_same
      split: run_state.split_asm)

lemma get_time_st_cpu: "get_time_st st = (t, st') \<Longrightarrow> cpu (mach st') = cpu (mach st)"
  by (auto simp: get_time_st_def split: prod.split_asm)

lemma cpu_exec_regs:
  assumes "g_step G = step" "cpu_exec c dc G n d st = Inr st'" "regs_ok (mach st)"
  shows "regs_ok (mach st')"
proof (cases "run_of st = NEMU_END \<or> run_of st = NEMU_ABORT")
  case True
  with assms(2,3) show ?thesis by (auto simp: cpu_exec_ended report_def)
next
  case False
  let ?st0 = "set_run NEMU_RUNNING (st\<lparr>g_print_step := unat n < MAX_INST_TO_PRINT\<rparr>)"
  obtain t st1 where g: "get_time_st ?st0 = (t, st1)" by fastforce
  with assms(2) False obtain st2 t' st3 where e: "execute c dc G (unat n) d st1 = Inr st2"
    and g': "get_time_st st2 = (t', st3)"
    and f: "finish_run c (st3\<lparr>g_timer := g_timer st3 + (t' - t)\<rparr>) = Inr st'"
    by (auto simp: cpu_exec_def Let_def elim!: resE split: prod.split_asm)
  have "regs_ok (mach st1)" using get_time_st_cpu [OF g] assms(3) by (simp add: regs_ok_def)
  then have "regs_ok (mach st2)" by (rule execute_regs [OF assms(1) e])
  then show ?thesis
    using finish_run_cpu [OF f] get_time_st_cpu [OF g'] by (simp add: regs_ok_def)
qed

end

end
