(* ===== verification/Expr_Correct.thy ===== *)
theory Expr_Correct
  imports Expr
begin

text \<open>
  Correctness of the expression evaluator. An abstract syntax of expressions is given a meaning
  by recursion; printed with parentheses where the precedences need them, an expression lexes
  to its tokens and evaluates to its meaning, whatever its nesting. The proof follows the code:
  what the scan for the main operator and the parenthesis check do to the tokens of a whole
  subexpression is described once, and the index-based recursion is unfolded over it.
\<close>

section \<open>Expressions and their meaning\<close>

datatype ast =
  ANum string
| AReg string
| AUn token_type ast
| ABin token_type ast ast
| APar ast

definition bin_ops :: "token_type set" where
  "bin_ops = {TK_OR, TK_AND, TK_EQ, TK_NEQ, TK_LT, TK_GT, TK_PLUS, TK_MINUS, TK_STAR, TK_SLASH}"

definition un_ops :: "token_type set" where
  "un_ops = {TK_NEG, TK_POS, TK_DEREF}"

fun bin_prec :: "token_type \<Rightarrow> int" where
  "bin_prec TK_OR = 1" | "bin_prec TK_AND = 2" | "bin_prec TK_EQ = 3" | "bin_prec TK_NEQ = 3"
| "bin_prec TK_LT = 4" | "bin_prec TK_GT = 4" | "bin_prec TK_PLUS = 5" | "bin_prec TK_MINUS = 5"
| "bin_prec _ = 6"

fun ast_prec :: "ast \<Rightarrow> int" where
  "ast_prec (AUn op e) = 7"
| "ast_prec (ABin op l r) = bin_prec op"
| "ast_prec _ = 8"

text \<open>Binary operators associate to the left; the operand of a unary one is unary or atomic.\<close>

fun ast_wf :: "ast \<Rightarrow> bool" where
  "ast_wf (ANum s) \<longleftrightarrow> True"
| "ast_wf (AReg s) \<longleftrightarrow> True"
| "ast_wf (AUn op e) \<longleftrightarrow> op \<in> un_ops \<and> 7 \<le> ast_prec e \<and> ast_wf e"
| "ast_wf (ABin op l r) \<longleftrightarrow> op \<in> bin_ops \<and> bin_prec op \<le> ast_prec l \<and> bin_prec op < ast_prec r \<and>
     ast_wf l \<and> ast_wf r"
| "ast_wf (APar e) \<longleftrightarrow> ast_wf e"

definition op_tok :: "token_type \<Rightarrow> token" where
  "op_tok ty = \<lparr>ttype = ty, tstr = []\<rparr>"

fun toks :: "ast \<Rightarrow> token list" where
  "toks (ANum s) = [\<lparr>ttype = TK_NUM, tstr = s\<rparr>]"
| "toks (AReg s) = [\<lparr>ttype = TK_REG, tstr = s\<rparr>]"
| "toks (AUn op e) = op_tok op # toks e"
| "toks (ABin op l r) = toks l @ op_tok op # toks r"
| "toks (APar e) = op_tok TK_LP # toks e @ [op_tok TK_RP]"

fun denote :: "config \<Rightarrow> ('a::len word, 'c) reg_lookup_fn \<Rightarrow> ast \<Rightarrow> ('a word, 'c) machine \<Rightarrow>
    ('a word, 'c) eval_result" where
  "denote c rv (ANum s) m =
     Inr ((ucast (strtoul s (if take 2 s = ''0x'' then 16 else 10)), True), m)"
| "denote c rv (AReg s) m = bindR (rv s m) (\<lambda>r. Inr (r, m))"
| "denote c rv (AUn op e) m =
     bindR (denote c rv e m) (\<lambda>((v, ok), m).
     if ok then calc1 c op v m else Inr ((0, False), m))"
| "denote c rv (ABin op l r) m =
     bindR (denote c rv l m) (\<lambda>((v1, ok1), m).
     bindR (denote c rv r m) (\<lambda>((v2, ok2), m).
     if ok1 \<and> ok2 then bindR (calc2 v1 op v2) (\<lambda>r. Inr (r, m)) else Inr ((0, False), m)))"
| "denote c rv (APar e) m = denote c rv e m"

lemma toks_nonempty [simp]: "toks e \<noteq> []"
  by (cases e) auto

lemma toks_length_pos [simp]: "0 < length (toks e)"
  by simp

section \<open>Segments of the token array\<close>

definition at :: "token list \<Rightarrow> int \<Rightarrow> token list \<Rightarrow> bool" where
  "at ts i xs \<longleftrightarrow> 0 \<le> i \<and> (\<forall>j < length xs. ts ! (nat i + j) = xs ! j)"

lemma at_append:
  "at ts i (xs @ ys) \<longleftrightarrow> at ts i xs \<and> at ts (i + int (length xs)) ys"
proof -
  have n: "nat (i + int (length xs)) + j = nat i + (length xs + j)" if "0 \<le> i" for j
    using that by simp
  show ?thesis
  proof
    assume a: "at ts i (xs @ ys)"
    then have "ts ! (nat i + j) = xs ! j" if "j < length xs" for j
      using that by (auto simp: at_def nth_append dest!: spec [of _ j])
    moreover have "ts ! (nat i + length xs + j) = ys ! j" if "j < length ys" for j
      using a that by (auto simp: at_def add.assoc dest!: spec [of _ "length xs + j"])
    ultimately show "at ts i xs \<and> at ts (i + int (length xs)) ys"
      using a n by (auto simp: at_def add.assoc)
  next
    assume a: "at ts i xs \<and> at ts (i + int (length xs)) ys"
    have "ts ! (nat i + j) = (xs @ ys) ! j" if "j < length xs + length ys" for j
    proof (cases "j < length xs")
      case True
      with a show ?thesis by (simp add: at_def nth_append)
    next
      case False
      with that obtain k where k: "j = length xs + k" "k < length ys"
        by (metis add_diff_inverse_nat nat_add_left_cancel_less)
      from a have "\<forall>j < length ys. ts ! (nat i + (length xs + j)) = ys ! j"
        by (auto simp: at_def nat_add_distrib add.assoc)
      with k show ?thesis by (simp add: nth_append)
    qed
    with a show "at ts i (xs @ ys)" by (simp add: at_def)
  qed
qed

lemma at_Cons: "at ts i (x # xs) \<longleftrightarrow> 0 \<le> i \<and> ts ! nat i = x \<and> at ts (i + 1) xs"
  using at_append [of ts i "[x]" xs] by (auto simp: at_def)

lemma at_Nil: "at ts i [] \<longleftrightarrow> 0 \<le> i"
  by (simp add: at_def)

lemma at_tok: "at ts i (x # xs) \<Longrightarrow> tok ts i = ttype x"
  by (simp add: at_Cons tok_def)

lemmas at_simps = at_append at_Cons at_Nil

lemma ttype_op_tok [simp]: "ttype (op_tok ty) = ty"
  by (simp add: op_tok_def)

section \<open>The parenthesis check\<close>

lemma par_loop_in:
  assumes "i \<le> q" "tok ts i \<noteq> TK_LP" "tok ts i \<noteq> TK_RP" "0 < k"
  shows "par_loop ts i q k = par_loop ts (i + 1) q k"
  using assms by (subst par_loop.simps) (simp add: Let_def)

lemma par_loop_toks:
  "ast_wf e \<Longrightarrow> at ts i (toks e) \<Longrightarrow> i + int (length (toks e)) - 1 \<le> q \<Longrightarrow> 0 < k \<Longrightarrow>
   par_loop ts i q k = par_loop ts (i + int (length (toks e))) q k"
proof (induction e arbitrary: i k)
  case (ANum s)
  then show ?case using par_loop_in [of i q ts k] by (simp add: at_simps tok_def)
next
  case (AReg s)
  then show ?case using par_loop_in [of i q ts k] by (simp add: at_simps tok_def)
next
  case (AUn op e)
  then have "par_loop ts i q k = par_loop ts (i + 1) q k"
    by (intro par_loop_in) (auto simp: at_simps tok_def un_ops_def)
  with AUn show ?case by (simp add: at_simps algebra_simps)
next
  case (ABin op l r)
  let ?j = "i + int (length (toks l))"
  have "par_loop ts i q k = par_loop ts ?j q k"
    using ABin by (simp add: at_simps)
  also have "\<dots> = par_loop ts (?j + 1) q k"
    using ABin.prems by (intro par_loop_in) (auto simp: at_simps tok_def bin_ops_def)
  also have "\<dots> = par_loop ts (?j + 1 + int (length (toks r))) q k"
    using ABin.prems by (intro ABin.IH(2)) (auto simp: at_simps)
  finally show ?case by (simp add: algebra_simps)
next
  case (APar e)
  let ?j = "i + 1 + int (length (toks e))"
  have "par_loop ts i q k = par_loop ts (i + 1) q (k + 1)"
    using APar.prems by (subst par_loop.simps) (auto simp: at_simps tok_def)
  also have "\<dots> = par_loop ts ?j q (k + 1)"
    using APar.prems by (intro APar.IH) (auto simp: at_simps)
  also have "\<dots> = par_loop ts (?j + 1) q k"
    using APar.prems by (subst par_loop.simps) (auto simp: at_simps tok_def)
  finally show ?case by (simp add: algebra_simps)
qed

text \<open>An opening parenthesis at the front is closed at the end only around the whole.\<close>

lemma par_loop_front:
  "ast_wf e \<Longrightarrow> at ts i (toks e) \<Longrightarrow> tok ts i = TK_LP \<Longrightarrow> i + int (length (toks e)) - 1 \<le> q \<Longrightarrow>
   par_loop ts i q 0 \<longleftrightarrow> (\<exists>x. e = APar x) \<and> i + int (length (toks e)) - 1 = q"
proof (induction e arbitrary: i)
  case (ANum s)
  then show ?case by (simp add: at_simps tok_def)
next
  case (AReg s)
  then show ?case by (simp add: at_simps tok_def)
next
  case (AUn op e)
  then show ?case by (auto simp: at_simps tok_def un_ops_def)
next
  case (ABin op l r)
  then show ?case by (auto simp: at_simps)
next
  case (APar e)
  let ?j = "i + 1 + int (length (toks e))"
  have "par_loop ts i q 0 = par_loop ts (i + 1) q 1"
    using APar.prems by (subst par_loop.simps) (auto simp: at_simps tok_def)
  also have "\<dots> = par_loop ts ?j q 1"
    using APar.prems by (intro par_loop_toks) (auto simp: at_simps)
  also have "\<dots> \<longleftrightarrow> ?j = q"
    using APar.prems by (subst par_loop.simps) (auto simp: at_simps tok_def Let_def)
  finally show ?case by (auto simp: algebra_simps)
qed

lemma check_parentheses_toks:
  assumes "ast_wf e" "at ts p (toks e)" "q = p + int (length (toks e)) - 1"
  shows "check_parentheses ts p q \<longleftrightarrow> (\<exists>x. e = APar x)"
proof (cases "tok ts p = TK_LP")
  case True
  have "tok ts q = TK_RP" if "e = APar x" for x
    using assms that by (auto simp: at_simps tok_def algebra_simps)
  with par_loop_front [OF assms(1,2) True, of q] assms(3) True show ?thesis
    by (auto simp: check_parentheses_def)
next
  case False
  with assms show ?thesis by (auto simp: check_parentheses_def at_simps tok_def)
qed

section \<open>The main operator\<close>

lemma find_op_leaf:
  assumes "i \<le> q" "oftypes (tok ts i) [TK_NUM, TK_REG]"
  shows "find_op_from ts i q k ot ro = find_op_from ts (i + 1) q k ot ro"
  using assms by (subst find_op_from.simps) (auto simp: oftypes_set nop_types_def)

lemma find_op_lp:
  assumes "i \<le> q" "tok ts i = TK_LP"
  shows "find_op_from ts i q k ot ro = find_op_from ts (i + 1) q (k + 1) ot ro"
  using assms by (subst find_op_from.simps) simp

lemma find_op_rp:
  assumes "i \<le> q" "tok ts i = TK_RP" "k \<noteq> 0"
  shows "find_op_from ts i q k ot ro = find_op_from ts (i + 1) q (k - 1) ot ro"
  using assms by (subst find_op_from.simps) simp

lemma find_op_inner:
  assumes "i \<le> q" "tok ts i \<in> bin_ops \<union> un_ops" "0 < k"
  shows "find_op_from ts i q k ot ro = find_op_from ts (i + 1) q k ot ro"
  using assms by (subst find_op_from.simps) (auto simp: bin_ops_def un_ops_def)

lemma op_prec_bin: "op \<in> bin_ops \<Longrightarrow> op_prec op = Inr (bin_prec op)"
  by (auto simp: bin_ops_def op_prec_def)

lemma op_prec_un: "op \<in> un_ops \<Longrightarrow> op_prec op = Inr 7"
  by (auto simp: un_ops_def op_prec_def)

lemma bin_prec_bounds: "op \<in> bin_ops \<Longrightarrow> 1 \<le> bin_prec op \<and> bin_prec op \<le> 6"
  by (auto simp: bin_ops_def)

lemma find_op_top_bin:
  assumes "i \<le> q" "tok ts i \<in> bin_ops"
  shows "find_op_from ts i q 0 ot ro =
    (if bin_prec (tok ts i) \<le> ot then find_op_from ts (i + 1) q 0 (bin_prec (tok ts i)) i
     else find_op_from ts (i + 1) q 0 ot ro)"
  using assms
  by (subst find_op_from.simps)
    (auto simp: op_prec_bin oftypes_set nop_types_def uop_types_def bin_ops_def)

lemma find_op_top_un:
  assumes "i \<le> q" "tok ts i \<in> un_ops"
  shows "find_op_from ts i q 0 ot ro =
    (if 7 < ot then find_op_from ts (i + 1) q 0 7 i else find_op_from ts (i + 1) q 0 ot ro)"
  using assms
  by (subst find_op_from.simps)
    (auto simp: op_prec_un oftypes_set nop_types_def uop_types_def un_ops_def)

text \<open>Inside parentheses nothing is chosen.\<close>

lemma find_op_toks_inner:
  "ast_wf e \<Longrightarrow> at ts i (toks e) \<Longrightarrow> i + int (length (toks e)) - 1 \<le> q \<Longrightarrow> 0 < k \<Longrightarrow>
   find_op_from ts i q k ot ro = find_op_from ts (i + int (length (toks e))) q k ot ro"
proof (induction e arbitrary: i k)
  case (ANum s)
  then show ?case using find_op_leaf [of i q ts k] by (simp add: at_simps tok_def)
next
  case (AReg s)
  then show ?case using find_op_leaf [of i q ts k] by (simp add: at_simps tok_def)
next
  case (AUn op e)
  then have "find_op_from ts i q k ot ro = find_op_from ts (i + 1) q k ot ro"
    by (intro find_op_inner) (auto simp: at_simps tok_def)
  with AUn show ?case by (simp add: at_simps algebra_simps)
next
  case (ABin op l r)
  let ?j = "i + int (length (toks l))"
  have "find_op_from ts i q k ot ro = find_op_from ts ?j q k ot ro"
    using ABin by (simp add: at_simps)
  also have "\<dots> = find_op_from ts (?j + 1) q k ot ro"
    using ABin.prems by (intro find_op_inner) (auto simp: at_simps tok_def)
  also have "\<dots> = find_op_from ts (?j + 1 + int (length (toks r))) q k ot ro"
    using ABin.prems by (intro ABin.IH(2)) (auto simp: at_simps)
  finally show ?case by (simp add: algebra_simps)
next
  case (APar e)
  let ?j = "i + 1 + int (length (toks e))"
  have "find_op_from ts i q k ot ro = find_op_from ts (i + 1) q (k + 1) ot ro"
    using APar.prems by (intro find_op_lp) (auto simp: at_simps tok_def)
  also have "\<dots> = find_op_from ts ?j q (k + 1) ot ro"
    using APar.prems by (intro APar.IH) (auto simp: at_simps)
  also have "\<dots> = find_op_from ts (?j + 1) q (k + 1 - 1) ot ro"
    using APar.prems by (intro find_op_rp) (auto simp: at_simps tok_def)
  finally show ?case by (simp add: algebra_simps)
qed

text \<open>A pair of parentheses at the top is skipped.\<close>

lemma find_op_toks_par:
  assumes "ast_wf (APar e)" "at ts i (toks (APar e))" "i + int (length (toks (APar e))) - 1 \<le> q"
  shows "find_op_from ts i q 0 ot ro = find_op_from ts (i + int (length (toks (APar e)))) q 0 ot ro"
proof -
  let ?j = "i + 1 + int (length (toks e))"
  have "find_op_from ts i q 0 ot ro = find_op_from ts (i + 1) q (0 + 1) ot ro"
    using assms by (intro find_op_lp) (auto simp: at_simps tok_def)
  also have "\<dots> = find_op_from ts ?j q 1 ot ro"
    unfolding add_0 using assms by (intro find_op_toks_inner) (auto simp: at_simps)
  also have "\<dots> = find_op_from ts (?j + 1) q (1 - 1) ot ro"
    using assms by (intro find_op_rp) (auto simp: at_simps tok_def)
  finally show ?thesis by (simp add: algebra_simps)
qed

text \<open>
  At the top, an expression that binds tighter than the operator found so far changes nothing;
  any expression leaves an operator that does not bind looser than itself.
\<close>

lemma find_op_toks_tight:
  "ast_wf e \<Longrightarrow> at ts i (toks e) \<Longrightarrow> i + int (length (toks e)) - 1 \<le> q \<Longrightarrow>
   ot < ast_prec e \<or> (ot = 7 \<and> ast_prec e = 7) \<Longrightarrow>
   find_op_from ts i q 0 ot ro = find_op_from ts (i + int (length (toks e))) q 0 ot ro"
proof (induction e arbitrary: i)
  case (ANum s)
  then show ?case using find_op_leaf [of i q ts 0] by (simp add: at_simps tok_def)
next
  case (AReg s)
  then show ?case using find_op_leaf [of i q ts 0] by (simp add: at_simps tok_def)
next
  case (AUn op e)
  then have "find_op_from ts i q 0 ot ro = find_op_from ts (i + 1) q 0 ot ro"
    by (subst find_op_top_un) (auto simp: at_simps tok_def)
  also have "\<dots> = find_op_from ts (i + 1 + int (length (toks e))) q 0 ot ro"
    using AUn.prems by (intro AUn.IH) (auto simp: at_simps)
  finally show ?case by (simp add: algebra_simps)
next
  case (ABin op l r)
  let ?j = "i + int (length (toks l))"
  have ot: "ot < bin_prec op" using ABin.prems bin_prec_bounds [of op] by auto
  have "find_op_from ts i q 0 ot ro = find_op_from ts ?j q 0 ot ro"
    using ABin.prems ot by (intro ABin.IH(1)) (auto simp: at_simps)
  also have "\<dots> = find_op_from ts (?j + 1) q 0 ot ro"
    using ABin.prems ot by (subst find_op_top_bin) (auto simp: at_simps tok_def)
  also have "\<dots> = find_op_from ts (?j + 1 + int (length (toks r))) q 0 ot ro"
    using ABin.prems ot by (intro ABin.IH(2)) (auto simp: at_simps)
  finally show ?case by (simp add: algebra_simps)
next
  case (APar e)
  then show ?case using find_op_toks_par by blast
qed

text \<open>What a whole expression makes of the state of the scan.\<close>

definition scan_result :: "ast \<Rightarrow> int \<Rightarrow> int \<Rightarrow> int \<Rightarrow> int \<times> int" where
  "scan_result e i ot ro =
     (case e of
        ABin op l r \<Rightarrow> if bin_prec op \<le> ot then (bin_prec op, i + int (length (toks l))) else (ot, ro)
      | AUn op x \<Rightarrow> if 7 < ot then (7, i) else (ot, ro)
      | _ \<Rightarrow> (ot, ro))"

lemma scan_result_prec: "b \<le> ot \<Longrightarrow> b \<le> ast_prec e \<Longrightarrow> b \<le> fst (scan_result e i ot ro)"
  by (cases e) (auto simp: scan_result_def)

lemma find_op_toks:
  "ast_wf e \<Longrightarrow> at ts i (toks e) \<Longrightarrow> i + int (length (toks e)) - 1 \<le> q \<Longrightarrow>
   find_op_from ts i q 0 ot ro = find_op_from ts (i + int (length (toks e))) q 0
     (fst (scan_result e i ot ro)) (snd (scan_result e i ot ro))"
proof (induction e arbitrary: i ot ro)
  case (ABin op l r)
  show ?case
  proof (cases "bin_prec op \<le> ot")
    case False
    with ABin.prems have "find_op_from ts i q 0 ot ro =
        find_op_from ts (i + int (length (toks (ABin op l r)))) q 0 ot ro"
      by (intro find_op_toks_tight) auto
    with False show ?thesis by (simp add: scan_result_def)
  next
    case True
    let ?j = "i + int (length (toks l))" and ?s = "scan_result l i ot ro"
    have "find_op_from ts i q 0 ot ro = find_op_from ts ?j q 0 (fst ?s) (snd ?s)"
      using ABin.prems by (intro ABin.IH(1)) (auto simp: at_simps)
    also have "\<dots> = find_op_from ts (?j + 1) q 0 (bin_prec op) ?j"
      using ABin.prems scan_result_prec [OF True, of l i ro]
      by (subst find_op_top_bin) (auto simp: at_simps tok_def)
    also have "\<dots> = find_op_from ts (?j + 1 + int (length (toks r))) q 0 (bin_prec op) ?j"
      using ABin.prems by (intro find_op_toks_tight) (auto simp: at_simps)
    finally show ?thesis using True by (simp add: scan_result_def algebra_simps)
  qed
next
  case (AUn op x)
  show ?case
  proof (cases "7 < ot")
    case False
    with AUn.prems have "find_op_from ts i q 0 ot ro =
        find_op_from ts (i + int (length (toks (AUn op x)))) q 0 ot ro"
      by (intro find_op_toks_tight) auto
    with False show ?thesis by (simp add: scan_result_def)
  next
    case True
    with AUn.prems have "find_op_from ts i q 0 ot ro = find_op_from ts (i + 1) q 0 7 i"
      by (subst find_op_top_un) (auto simp: at_simps tok_def)
    also have "\<dots> = find_op_from ts (i + 1 + int (length (toks x))) q 0 7 i"
      using AUn.prems by (intro find_op_toks_tight) (auto simp: at_simps)
    finally show ?thesis using True by (simp add: scan_result_def algebra_simps)
  qed
next
  case (ANum s)
  then show ?case using find_op_leaf [of i q ts 0] by (simp add: at_simps tok_def scan_result_def)
next
  case (AReg s)
  then show ?case using find_op_leaf [of i q ts 0] by (simp add: at_simps tok_def scan_result_def)
next
  case (APar e)
  then show ?case using find_op_toks_par by (simp add: scan_result_def)
qed

lemma find_op_end: "q < i \<Longrightarrow> find_op_from ts i q 0 ot ro = Inr ro"
  by (subst find_op_from.simps) simp

lemma find_op_bin:
  assumes "ast_wf (ABin op l r)" "at ts p (toks (ABin op l r))"
    and "q = p + int (length (toks (ABin op l r))) - 1"
  shows "find_op ts p q = Inr (p + int (length (toks l)))"
proof -
  have "bin_prec op \<le> 100" using assms(1) bin_prec_bounds [of op] by simp
  with find_op_toks [OF assms(1,2), of q 100 "-1"] assms(3) show ?thesis
    by (simp add: find_op_def scan_result_def find_op_end)
qed

lemma find_op_un:
  assumes "ast_wf (AUn op x)" "at ts p (toks (AUn op x))"
    and "q = p + int (length (toks (AUn op x))) - 1"
  shows "find_op ts p q = Inr p"
  using find_op_toks [OF assms(1,2), of q 100 "-1"] assms(3)
  by (simp add: find_op_def scan_result_def find_op_end)

section \<open>Evaluation of the tokens of an expression\<close>

lemma calc1_bin: "op \<in> bin_ops \<Longrightarrow> calc1 c op v m = Inr ((0, False), m)"
  by (auto simp: bin_ops_def calc1_def)

lemma eval_empty: "q < p \<Longrightarrow> eval c rv ts p q m = Inr ((0, False), m)"
  by (subst eval.simps) simp

lemma eval_toks:
  "ast_wf e \<Longrightarrow> at ts p (toks e) \<Longrightarrow> q = p + int (length (toks e)) - 1 \<Longrightarrow>
   eval c rv ts p q m = denote c rv e m"
proof (induction e arbitrary: p q m)
  case (ANum s)
  then show ?case by (subst eval.simps) (simp add: at_simps eval_num_reg_def)
next
  case (AReg s)
  then show ?case by (subst eval.simps) (simp add: at_simps eval_num_reg_def)
next
  case (AUn op x)
  have pq: "p < q" "0 \<le> p" using AUn.prems by (auto simp: at_simps)
  have cp: "\<not> check_parentheses ts p q" using check_parentheses_toks [OF AUn.prems] by simp
  have e: "eval c rv ts (p + 1) q m' = denote c rv x m'" for m'
    using AUn.prems by (intro AUn.IH) (auto simp: at_simps)
  have t: "tok ts p = op" using AUn.prems by (simp add: at_simps tok_def)
  show ?case
    using pq cp e t
    by (subst eval.simps)
      (auto simp: find_op_un [OF AUn.prems] eval_empty intro!: arg_cong2 [of _ _ _ _ bindR])
next
  case (ABin op l r)
  let ?j = "p + int (length (toks l))"
  have "q = ?j + int (length (toks r))" using ABin.prems(3) by simp
  moreover have "0 \<le> p" using ABin.prems(2) by (simp add: at_def)
  ultimately have pq: "p < q" "0 \<le> ?j"
    using toks_length_pos [of l] toks_length_pos [of r] by linarith+
  have cp: "\<not> check_parentheses ts p q" using check_parentheses_toks [OF ABin.prems] by simp
  have el: "eval c rv ts p (?j - 1) m' = denote c rv l m'" for m'
    using ABin.prems by (intro ABin.IH(1)) (auto simp: at_simps)
  have er: "eval c rv ts (?j + 1) q m' = denote c rv r m'" for m'
    using ABin.prems by (intro ABin.IH(2)) (auto simp: at_simps)
  have t: "tok ts ?j = op" "op \<in> bin_ops" using ABin.prems by (auto simp: at_simps tok_def)
  show ?case
    using pq cp t
    by (subst eval.simps)
      (auto simp: find_op_bin [OF ABin.prems] el er calc1_bin intro!: bindR_cong split: prod.split)
next
  case (APar x)
  have "check_parentheses ts p q" using check_parentheses_toks [OF APar.prems] by simp
  moreover have "eval c rv ts (p + 1) (q - 1) m = denote c rv x m"
    using APar.prems by (intro APar.IH) (auto simp: at_simps)
  moreover have "p < q" using APar.prems by simp
  ultimately show ?case by (subst eval.simps) simp
qed

section \<open>Lexing the printed expression\<close>

text \<open>The text of a token, and of an expression: its tokens, a space before each.\<close>

fun op_text :: "token_type \<Rightarrow> string" where
  "op_text TK_LP = ''(''" | "op_text TK_RP = '')''"
| "op_text TK_PLUS = ''+''" | "op_text TK_POS = ''+''"
| "op_text TK_MINUS = ''-''" | "op_text TK_NEG = ''-''"
| "op_text TK_STAR = ''*''" | "op_text TK_DEREF = ''*''"
| "op_text TK_SLASH = ''/''" | "op_text TK_LT = ''<''" | "op_text TK_GT = ''>''"
| "op_text TK_EQ = ''==''" | "op_text TK_NEQ = ''!=''"
| "op_text TK_AND = ''&&''" | "op_text TK_OR = ''||''"
| "op_text _ = []"

definition tok_text :: "token \<Rightarrow> string" where
  "tok_text t = (if ttype t = TK_NUM \<or> ttype t = TK_REG then tstr t else op_text (ttype t))"

definition text_of :: "token list \<Rightarrow> string" where
  "text_of ts = concat (map (\<lambda>t. CHR '' '' # tok_text t) ts)"

definition num_text :: "string \<Rightarrow> bool" where
  "num_text s \<longleftrightarrow> length s < 32 \<and>
     ((s \<noteq> [] \<and> list_all is_dig s) \<or>
      (take 2 s = ''0x'' \<and> drop 2 s \<noteq> [] \<and> list_all is_hex (drop 2 s)))"

definition reg_text :: "string \<Rightarrow> bool" where
  "reg_text s \<longleftrightarrow> length s < 32 \<and> take 1 s = ''$'' \<and> drop 1 s \<noteq> [] \<and> list_all is_word (drop 1 s)"

fun ast_text_ok :: "ast \<Rightarrow> bool" where
  "ast_text_ok (ANum s) \<longleftrightarrow> num_text s"
| "ast_text_ok (AReg s) \<longleftrightarrow> reg_text s"
| "ast_text_ok (AUn op e) \<longleftrightarrow> ast_text_ok e"
| "ast_text_ok (ABin op l r) \<longleftrightarrow> ast_text_ok l \<and> ast_text_ok r"
| "ast_text_ok (APar e) \<longleftrightarrow> ast_text_ok e"

text \<open>What follows a token in the printed text: nothing, or a space.\<close>

definition rest_ok :: "string \<Rightarrow> bool" where
  "rest_ok r \<longleftrightarrow> r = [] \<or> hd r = CHR '' ''"

lemma rest_ok_text [simp]: "rest_ok (text_of ts)"
  by (cases ts) (simp_all add: rest_ok_def text_of_def)

lemma char_classes:
  "\<not> is_word (CHR '' '')" "\<not> is_hex (CHR '' '')" "\<not> is_dig (CHR '' '')" "\<not> is_word (CHR ''$'')"
  by (simp_all add: is_word_def is_hex_def is_dig_def is_alpha_us_def char_code_def)

lemma run_len_rest:
  assumes "list_all P s" "rest_ok r" "\<not> P (CHR '' '')"
  shows "run_len P (s @ r) = length s"
proof -
  have "takeWhile P r = []" using assms(2,3) by (cases r) (auto simp: rest_ok_def)
  moreover have "takeWhile P (s @ r) = s @ takeWhile P r"
    using assms(1) by (intro takeWhile_append2) (auto simp: list_all_iff)
  ultimately show ?thesis by (simp add: run_len_def)
qed

text \<open>The rules before the number rule all start with a character that is not a digit or \<open>$\<close>.\<close>

lemma first_rule_word:
  assumes "is_dig ch \<or> ch = CHR ''$''"
  shows "first_rule rules (ch # t) =
    (case m_num (ch # t) of Some n \<Rightarrow> Some (TK_NUM, n)
     | None \<Rightarrow> (case m_reg (ch # t) of Some n \<Rightarrow> Some (TK_REG, n)
        | None \<Rightarrow> (case m_var (ch # t) of Some n \<Rightarrow> Some (TK_VAR, n) | None \<Rightarrow> None)))"
proof -
  have "ch \<notin> set '' ()+-*/<>=!&|''"
    using assms by (auto simp: is_dig_def char_code_def)
  then show ?thesis
    by (auto simp: rules_def m_spaces_def run_len_def m_lit_def split: option.split)
qed

lemma m_num_text:
  assumes "num_text s" "rest_ok r"
  shows "m_num (s @ r) = Some (length s)"
proof (cases "list_all is_dig s \<and> s \<noteq> []")
  case True
  then have d: "run_len is_dig (s @ r) = length s"
    using run_len_rest [OF _ assms(2)] char_classes by blast
  have "\<not> (length s < length (s @ r) \<and> is_word ((s @ r) ! length s))"
    using assms(2) char_classes by (cases r) (auto simp: rest_ok_def)
  moreover have "take 2 (s @ r) \<noteq> ''0x'' \<and> take 2 (s @ r) \<noteq> ''0X''"
  proof (cases s rule: remdups_adj.cases)
    case 1
    with True show ?thesis by simp
  next
    case (2 a)
    with assms(2) show ?thesis by (cases r) (auto simp: rest_ok_def)
  next
    case (3 a b t)
    with True show ?thesis by (auto simp: is_dig_def char_code_def)
  qed
  ultimately show ?thesis using d True by (simp add: m_num_def Let_def)
next
  case False
  with assms(1) have "take 2 s = ''0x''" "drop 2 s \<noteq> []" "list_all is_hex (drop 2 s)"
    by (auto simp: num_text_def)
  then obtain h where "s = CHR ''0'' # CHR ''x'' # h" "h \<noteq> []" "list_all is_hex h"
    by (metis append_Cons append_Nil append_take_drop_id)
  with run_len_rest [of is_hex h r] assms(2) char_classes show ?thesis
    by (simp add: m_num_def Let_def)
qed

lemma first_rule_num:
  assumes "num_text s" "rest_ok r"
  shows "first_rule rules (s @ r) = Some (TK_NUM, length s)"
proof -
  from assms(1) obtain ch t where s: "s = ch # t" "is_dig ch"
  proof (cases s)
    case Nil
    with assms(1) show ?thesis by (simp add: num_text_def)
  next
    case (Cons ch t)
    moreover have "is_dig ch"
      using assms(1) Cons by (auto simp: num_text_def is_dig_def char_code_def numeral_2_eq_2)
    ultimately show ?thesis using that by blast
  qed
  with first_rule_word [of ch "t @ r"] m_num_text [OF assms] show ?thesis by simp
qed

lemma first_rule_reg:
  assumes "reg_text s" "rest_ok r"
  shows "first_rule rules (s @ r) = Some (TK_REG, length s)"
proof -
  from assms(1) obtain w where w: "s = CHR ''$'' # w" "w \<noteq> []" "list_all is_word w"
    by (cases s) (auto simp: reg_text_def)
  then have "hd w \<noteq> CHR ''$''" using char_classes by (cases w) auto
  then have d: "take 2 (s @ r) \<noteq> ''$$''" using w by (cases w) auto
  have "m_num (s @ r) = None"
    using w by (simp add: m_num_def Let_def run_len_def is_dig_def char_code_def numeral_2_eq_2)
  moreover have "m_reg (s @ r) = Some (length s)"
    using run_len_rest [OF w(3) assms(2)] char_classes w d by (simp add: m_reg_def)
  ultimately show ?thesis using first_rule_word [of "CHR ''$''" "w @ r"] w by simp
qed

lemma first_rule_op:
  assumes "ty \<in> bin_ops \<union> un_ops \<union> {TK_LP, TK_RP}"
  shows "first_rule rules (op_text ty @ r) =
    Some (if ty = TK_POS then TK_PLUS else if ty = TK_NEG then TK_MINUS
          else if ty = TK_DEREF then TK_STAR else ty, length (op_text ty))"
  using assms(1)
  by (cases ty)
    (simp_all add: bin_ops_def un_ops_def rules_def m_spaces_def run_len_def m_lit_def)

lemma first_rule_space:
  assumes "rest_ok r \<longrightarrow> r = []"
  shows "first_rule rules (CHR '' '' # r) = Some (TK_NOTYPE, 1)"
  using assms by (cases r) (auto simp: rules_def m_spaces_def run_len_def rest_ok_def)

text \<open>
  A sequence of tokens the lexer can produce after the tokens \<open>acc\<close>: the texts are those of the
  rules, and each sign is unary exactly where the lexer decides so.
\<close>

definition tok_ok :: "token list \<Rightarrow> token \<Rightarrow> bool" where
  "tok_ok acc t \<longleftrightarrow>
     (ttype t = TK_NUM \<and> num_text (tstr t)) \<or> (ttype t = TK_REG \<and> reg_text (tstr t)) \<or>
     (ttype t \<in> bin_ops \<union> un_ops \<union> {TK_LP, TK_RP} \<and> tstr t = [] \<and>
      (ttype t \<in> un_ops \<longrightarrow> acc = [] \<or> ttype (last acc) \<notin> set bound_types) \<and>
      (ttype t \<in> {TK_PLUS, TK_MINUS, TK_STAR} \<longrightarrow> acc \<noteq> [] \<and> ttype (last acc) \<in> set bound_types))"

fun lexable :: "token list \<Rightarrow> token list \<Rightarrow> bool" where
  "lexable acc [] \<longleftrightarrow> True"
| "lexable acc (t # ts) \<longleftrightarrow> tok_ok acc t \<and> lexable (acc @ [t]) ts"

lemma leaf_not_op: "TK_NUM \<notin> bin_ops \<union> un_ops" "TK_REG \<notin> bin_ops \<union> un_ops"
  by (simp_all add: bin_ops_def un_ops_def)

lemma tok_ok_leaf:
  assumes "tok_ok acc t" "ttype t = TK_NUM \<or> ttype t = TK_REG"
  shows "(ttype t = TK_NUM \<and> num_text (tstr t)) \<or> (ttype t = TK_REG \<and> reg_text (tstr t))"
  using assms leaf_not_op by (auto simp: tok_ok_def)

lemma num_text_head: "num_text s \<Longrightarrow> s \<noteq> [] \<and> hd s \<noteq> CHR '' ''"
  using char_classes by (cases s) (auto simp: num_text_def numeral_2_eq_2)

lemma reg_text_head: "reg_text s \<Longrightarrow> s \<noteq> [] \<and> hd s \<noteq> CHR '' ''"
  by (cases s) (auto simp: reg_text_def)

lemma op_text_head:
  "ty \<in> bin_ops \<union> un_ops \<union> {TK_LP, TK_RP} \<Longrightarrow> op_text ty \<noteq> [] \<and> hd (op_text ty) \<noteq> CHR '' ''"
  by (cases ty) (simp_all add: bin_ops_def un_ops_def)

lemma tok_text_head:
  assumes "tok_ok acc t"
  shows "tok_text t \<noteq> []" "\<not> rest_ok (tok_text t @ r)"
proof -
  have "tok_text t \<noteq> [] \<and> hd (tok_text t) \<noteq> CHR '' ''"
  proof (cases "ttype t = TK_NUM \<or> ttype t = TK_REG")
    case True
    then have "tok_text t = tstr t" "num_text (tstr t) \<or> reg_text (tstr t)"
      using tok_ok_leaf [OF assms] by (auto simp: tok_text_def)
    then show ?thesis using num_text_head reg_text_head by metis
  next
    case False
    with assms have "ttype t \<in> bin_ops \<union> un_ops \<union> {TK_LP, TK_RP}" by (auto simp: tok_ok_def)
    with op_text_head False show ?thesis by (simp add: tok_text_def)
  qed
  then show "tok_text t \<noteq> []" "\<not> rest_ok (tok_text t @ r)" by (auto simp: rest_ok_def)
qed

lemma make_token_step:
  assumes "tok_ok acc t" "length acc < NR_TOKENS" "rest_ok r"
  shows "make_token_from (CHR '' '' # tok_text t @ r) acc = make_token_from r (acc @ [t])"
proof -
  have "make_token_from (CHR '' '' # tok_text t @ r) acc = make_token_from (tok_text t @ r) acc"
    using tok_text_head [OF assms(1)]
    by (subst make_token_from.simps) (simp add: first_rule_space)
  also have "\<dots> = make_token_from r (acc @ [t])"
  proof (cases "ttype t = TK_NUM \<or> ttype t = TK_REG")
    case True
    from tok_ok_leaf [OF assms(1) True] have "first_rule rules (tstr t @ r) = Some (ttype t, length (tstr t))"
      and "length (tstr t) < 32"
      using first_rule_num [OF _ assms(3)] first_rule_reg [OF _ assms(3)]
      by (auto simp: num_text_def reg_text_def)
    with True assms(2) tok_text_head [OF assms(1)] show ?thesis
      by (subst make_token_from.simps) (cases t; auto simp: tok_text_def)
  next
    case False
    with assms(1) have o: "ttype t \<in> bin_ops \<union> un_ops \<union> {TK_LP, TK_RP}" "tstr t = []"
      and u: "ttype t \<in> un_ops \<Longrightarrow> acc = [] \<or> ttype (last acc) \<notin> set bound_types"
      and b: "ttype t \<in> {TK_PLUS, TK_MINUS, TK_STAR} \<Longrightarrow>
        acc \<noteq> [] \<and> ttype (last acc) \<in> set bound_types"
      by (auto simp: tok_ok_def)
    let ?ty = "if ttype t = TK_POS then TK_PLUS else if ttype t = TK_NEG then TK_MINUS
          else if ttype t = TK_DEREF then TK_STAR else ttype t"
    have cl: "classify ?ty acc = ttype t"
      using o(1) u b by (auto simp: classify_def oftypes_set un_ops_def bin_ops_def)
    have nt: "?ty \<notin> {TK_NOTYPE, TK_NUM, TK_REG, TK_VAR}"
      using o(1) by (auto simp: bin_ops_def un_ops_def)
    have fr: "first_rule rules (tok_text t @ r) = Some (?ty, length (tok_text t))"
      using first_rule_op [OF o(1)] False by (simp add: tok_text_def)
    have "make_token_from (tok_text t @ r) acc =
        make_token_from r (acc @ [\<lparr>ttype = classify ?ty acc, tstr = []\<rparr>])"
      using assms(2) tok_text_head [OF assms(1)] nt fr
      by (subst make_token_from.simps) simp
    with cl o(2) show ?thesis by (cases t) simp
  qed
  finally show ?thesis .
qed

lemma make_token_lexable:
  "lexable acc ts \<Longrightarrow> length acc + length ts \<le> NR_TOKENS \<Longrightarrow>
   make_token_from (text_of ts) acc = Inr (True, acc @ ts)"
proof (induction ts arbitrary: acc)
  case Nil
  then show ?case by (subst make_token_from.simps) (simp add: text_of_def)
next
  case (Cons t ts)
  have "text_of (t # ts) = CHR '' '' # tok_text t @ text_of ts" by (simp add: text_of_def)
  with Cons make_token_step [of acc t "text_of ts"] show ?case by simp
qed

lemma lexable_append: "lexable acc (xs @ ys) \<longleftrightarrow> lexable acc xs \<and> lexable (acc @ xs) ys"
  by (induction xs arbitrary: acc) auto

lemma last_toks: "ast_wf e \<Longrightarrow> ttype (last (toks e)) \<in> set bound_types"
  by (induction e) (auto simp: bound_types_def)

lemma lexable_toks:
  "ast_wf e \<Longrightarrow> ast_text_ok e \<Longrightarrow> acc = [] \<or> ttype (last acc) \<notin> set bound_types \<Longrightarrow>
   lexable acc (toks e)"
proof (induction e arbitrary: acc)
  case (ANum s)
  then show ?case by (simp add: tok_ok_def)
next
  case (AReg s)
  then show ?case by (simp add: tok_ok_def)
next
  case (AUn op e)
  then have "lexable (acc @ [op_tok op]) (toks e)"
    by (intro AUn.IH) (auto simp: un_ops_def bound_types_def)
  with AUn.prems show ?case by (auto simp: tok_ok_def op_tok_def un_ops_def)
next
  case (ABin op l r)
  have "lexable ((acc @ toks l) @ [op_tok op]) (toks r)"
    using ABin.prems by (intro ABin.IH(2)) (auto simp: bin_ops_def bound_types_def)
  moreover have "tok_ok (acc @ toks l) (op_tok op)"
    using ABin.prems last_toks [of l] by (auto simp: tok_ok_def op_tok_def bin_ops_def un_ops_def)
  ultimately show ?case using ABin by (simp add: lexable_append)
next
  case (APar e)
  have "lexable (acc @ [op_tok TK_LP]) (toks e)"
    using APar.prems by (intro APar.IH) (auto simp: bound_types_def)
  then show ?case by (simp add: lexable_append tok_ok_def op_tok_def un_ops_def)
qed

lemma expr_text:
  assumes "ast_wf e" "ast_text_ok e" "length (toks e) \<le> NR_TOKENS"
  shows "expr c rv (text_of (toks e)) m = denote c rv e m"
proof -
  have "make_token (text_of (toks e)) = Inr (True, toks e)"
    using make_token_lexable [of "[]" "toks e"] lexable_toks assms by (simp add: make_token_def)
  moreover have "at (toks e) 0 (toks e)" by (simp add: at_def)
  ultimately show ?thesis using eval_toks [OF assms(1), of "toks e" 0 "int (length (toks e)) - 1"]
    by (simp add: expr_def)
qed

end
