(* ===== verification/Samples.thy ===== *)
theory Samples
  imports Cpu_Exec Expr_Correct
begin

text \<open>
  Concrete machines: a 64-byte flash at \<^verbatim>\<open>0x30000000\<close> whose bytes are given, an SRAM of 16 MB,
  no device registered, and an RV32 core. They are the inputs on which the properties with
  hypotheses are evaluated; nothing else rests on them.
\<close>

definition sample_config :: config where
  "sample_config = \<lparr>cfg_isa64 = False, cfg_rve = False, cfg_rt_check = True, cfg_device = False,
     cfg_has_port_io = False, cfg_difftest = False, cfg_watchpoint = False, cfg_iringbuf = True,
     cfg_trace = False, cfg_trace_start = 0, cfg_trace_end = 0, cfg_mem_random = False,
     cfg_mbase = 0x30000000, cfg_msize = 64, cfg_pc_reset_offset = 0\<rparr>"

lemma sample_config_simps [simp]:
  "cfg_isa64 sample_config = False" "cfg_rve sample_config = False" "cfg_rt_check sample_config = True"
  "cfg_device sample_config = False" "cfg_has_port_io sample_config = False"
  "cfg_difftest sample_config = False" "cfg_watchpoint sample_config = False"
  "cfg_iringbuf sample_config = True" "cfg_mbase sample_config = 0x30000000"
  "cfg_msize sample_config = 64" "cfg_pc_reset_offset sample_config = 0"
  by (simp_all add: sample_config_def)

text \<open>A serial port in the part of the flash window that \<^verbatim>\<open>CONFIG_MSIZE\<close> leaves free, nothing else.\<close>

definition sample_devices :: device_config where
  "sample_devices = default_devices
     \<lparr>dc_has_timer := False, dc_has_keyboard := False, dc_has_vga := False, dc_has_audio := False,
      dc_has_disk := False, dc_serial_mmio := 0x38000100\<rparr>"

definition sample_array :: "u8 list \<Rightarrow> nat \<Rightarrow> carray" where
  "sample_array bs n = \<lparr>clen = n, cget = (\<lambda>i. if i < length bs then bs ! i else 0)\<rparr>"

definition sample_keyboard :: keyboard_state where
  "sample_keyboard = \<lparr>keymap = replicate 256 0, key_queue = replicate 1024 0, key_f = 1020,
     key_r = 1020, i8042_data_port_base = 0\<rparr>"

definition sample_sdcard :: sdcard_state where
  "sample_sdcard = \<lparr>sd_fp = None, sd_base = 0, sd_blkcnt = 0, sd_blk_addr = 0, sd_addr = 0,
     sd_write_cmd = False, sd_read_ext_csd = False\<rparr>"

definition sample_device :: device_state where
  "sample_device = \<lparr>serial_base = 0, serial_out = [], rtc_port_base = 8, vgactl_port_base = 16,
     vmem = 24, screen_updates = [], audio_base = 32, sbuf = 40, kbd = sample_keyboard,
     sdc = sample_sdcard, alarm_handlers = [], last_update = 0\<rparr>"

definition sample_map :: IOMap where
  "sample_map = \<lparr>map_name = ''buffer'', map_low = 0x38000000, map_high = 0x3800000f, map_space = 32,
     map_callback = None\<rparr>"

text \<open>The first byte of the I/O space is \<^verbatim>\<open>'H'\<close> and the word at 20, the screen's sync register, is 1.\<close>

definition sample_io :: io_state where
  "sample_io = \<lparr>io_space = sample_array ([72] @ replicate 19 0 @ [1]) 0x100000, p_space = 64,
     mmio_maps = [sample_map], pio_maps = []\<rparr>"

definition sample_sys :: "u8 list \<Rightarrow> 'v::zero sys" where
  "sample_sys prog = \<lparr>flash = sample_array prog 64, sram = sample_array [] 0x1000000, io = sample_io,
     dev = sample_device, clock = (\<lambda>n. 0x100000000 + of_nat n), clock_reads = 0, boot_time = 1,
     nemu = \<lparr>nstate = NEMU_STOP, halt_pc = 0, halt_ret = 0\<rparr>, is_skip_ref = False,
     skip_dut_nr_inst = 0\<rparr>"

definition sample_regs :: "u32 list" where
  "sample_regs = (replicate 32 0)[10 := 7, 11 := 0xfffffffe]"

lemma sample_regs_simps [simp]:
  "length sample_regs = 32" "sample_regs ! 10 = 7" "sample_regs ! 11 = 0xfffffffe"
  "sample_regs[0 := 0] = sample_regs" "sample_regs[10 := x, 0 := 0] = sample_regs[10 := x]"
  by (simp_all add: sample_regs_def list_update_swap [of 10 0] numeral_eq_Suc)

definition sample_csrs :: riscv32_CSRs where
  "sample_csrs = \<lparr>mcause = 0, mepc = 0, mstatus = 0, mtvec = 0\<rparr>"

definition sample_machine :: "u8 list \<Rightarrow> rv32_machine" where
  "sample_machine prog = \<lparr>nsys = sample_sys prog,
     cpu = \<lparr>gpr = sample_regs, pc = 0x30000000, csr = sample_csrs\<rparr>\<rparr>"

definition sample_decode :: "u32 Decode" where
  "sample_decode = \<lparr>dpc = 0x30000000, snpc = 0x30000000, dnpc = 0, inst_val = 0\<rparr>"

text \<open>\<^verbatim>\<open>add a0, a0, a1\<close>, \<^verbatim>\<open>sll a0, a0, a1\<close>, \<^verbatim>\<open>beq a0, a0, .+8\<close> and \<^verbatim>\<open>ebreak\<close>.\<close>

definition add_bytes :: "u8 list" where
  "add_bytes = [0x33, 0x05, 0xb5, 0x00]"

definition sll_bytes :: "u8 list" where
  "sll_bytes = [0x33, 0x15, 0xb5, 0x00]"

definition beq_bytes :: "u8 list" where
  "beq_bytes = [0x63, 0x04, 0xa5, 0x00]"

definition ebreak_bytes :: "u8 list" where
  "ebreak_bytes = [0x73, 0x00, 0x10, 0x00]"

lemma sample_sys_simps [simp]:
  "flash (sample_sys prog) = sample_array prog 64" "sram (sample_sys prog) = sample_array [] 0x1000000"
  "io (sample_sys prog) = sample_io" "dev (sample_sys prog) = sample_device"
  "boot_time (sample_sys prog) = 1" "clock_reads (sample_sys prog) = 0"
  "skip_dut_nr_inst (sample_sys prog) = 0" "is_skip_ref (sample_sys prog) = False"
  "nemu (sample_sys prog) = \<lparr>nstate = NEMU_STOP, halt_pc = 0, halt_ret = 0\<rparr>"
  by (simp_all add: sample_sys_def)

lemma clen_sample_array [simp]: "clen (sample_array bs n) = n"
  by (simp add: sample_array_def)

lemma sample_machine_simps [simp]:
  "nsys (sample_machine prog) = sample_sys prog" "gpr (cpu (sample_machine prog)) = sample_regs"
  "pc (cpu (sample_machine prog)) = 0x30000000"
  by (simp_all add: sample_machine_def)

lemma sample_layout: "ram_layout sample_config" "mem_wf sample_config (sample_sys prog)"
  by (simp_all add: ram_layout_def mem_wf_def)

lemma sample_pmem_read:
  "flash s = sample_array [b0, b1, b2, b3] 64 \<Longrightarrow>
   pmem_read sample_config (0x30000000 :: u32) 4 s = Inr (le_word [b0, b1, b2, b3] :: u32)"
  by (simp add: sample_array_def pmem_read_def guest_to_host_def host_read_def arr_load_def upt_rec)

lemma sample_fetch:
  assumes "flash s = sample_array [b0, b1, b2, b3] 64"
  shows "inst_fetch sample_config (0x30000000 :: u32) 4 s =
   Inr (le_word [b0, b1, b2, b3], 0x30000004, s)"
proof -
  have "in_pmem sample_config 0x30000000 = Inr True"
    by (simp add: in_pmem_cases)
  then show ?thesis
    by (simp add: inst_fetch_def vaddr_ifetch_def paddr_read_def sample_pmem_read [OF assms]
        del: le_word.simps)
qed

lemma sample_keyboard_empty: "key_inv sample_keyboard" "pending_keys sample_keyboard = []"
  by (simp_all add: key_inv_def pending_keys_def key_count_def sample_keyboard_def KEY_QUEUE_LEN_def)

section \<open>A machine under the debugger\<close>

definition sample_wps :: "u32 wp_state" where
  "sample_wps = \<lparr>wp_pool = replicate 32 \<lparr>wp_NO = 0, wp_next = None, wp_expr = [], wp_old = 0\<rparr>,
     wp_head = None, wp_free = None\<rparr>"

text \<open>The pool with watchpoint 31 in use and the others free.\<close>

definition sample_wps31 :: "u32 wp_state" where
  "sample_wps31 = \<lparr>wp_pool = map (\<lambda>i. \<lparr>wp_NO = int i, wp_next = (if i < 30 then Some (i + 1) else None),
       wp_expr = [], wp_old = 0\<rparr>) [0..<32], wp_head = Some 31, wp_free = Some 0\<rparr>"

lemma sample_chain: "i < 31 \<Longrightarrow> chain (wp_pool sample_wps31) (Some i) [i..<31]"
proof (induction "30 - i" arbitrary: i)
  case 0
  then have "i = 30" by simp
  then show ?case by (simp add: sample_wps31_def)
next
  case (Suc k)
  then have "i < 30" by simp
  with Suc.hyps(1) [of "Suc i"] Suc.hyps(2) show ?case
    by (simp add: upt_conv_Cons) (simp add: sample_wps31_def)
qed

lemma sample_wps31_inv: "wp_inv sample_wps31" "wp_live sample_wps31 = [31]"
proof -
  have "wp_inv sample_wps31 \<and> wp_live sample_wps31 = [31] \<and> wp_avail sample_wps31 = [0..<31]"
  proof (rule wp_invI)
    show "chain (wp_pool sample_wps31) (wp_free sample_wps31) [0..<31]"
      using sample_chain [of 0] by (simp add: sample_wps31_def)
  qed (auto simp: sample_wps31_def NR_WP_def)
  then show "wp_inv sample_wps31" "wp_live sample_wps31 = [31]" by simp_all
qed

text \<open>The reference is another RV32 machine, of which only the registers are looked at.\<close>

definition sample_ref :: "(riscv32_CPU_state, riscv32_CPU_state) ref_model" where
  "sample_ref = \<lparr>ref_regcpy_to_dut = (\<lambda>r. r), ref_regcpy_to_ref = (\<lambda>k r. k), ref_exec1 = (\<lambda>r. r),
     ref_memcpy_to_ref = (\<lambda>a bs r. r)\<rparr>"

definition sample_guest :: "(u32, unit riscv32_CPU_state_ext, riscv32_CPU_state) guest" where
  "sample_guest = \<lparr>g_step = rv32_isa_exec_once sample_config, g_reg_val = rv32_isa_reg_str2val,
     g_checkregs = rv32_isa_difftest_checkregs, g_ref = sample_ref\<rparr>"

definition sample_exec ::
    "u8 list \<Rightarrow> (u32, unit riscv32_CPU_state_ext, riscv32_CPU_state) exec_state" where
  "sample_exec prog = \<lparr>mach = sample_machine prog, refst = cpu (sample_machine prog),
     wpst = init_wp_pool sample_wps, g_nr_guest_inst = 0, g_timer = 0, g_print_step = False,
     cur_inst = 0, iringbuf = replicate 16 (0, 0), reports = [], pending_events = []\<rparr>"

lemma sample_exec_simps [simp]:
  "mach (sample_exec prog) = sample_machine prog" "g_nr_guest_inst (sample_exec prog) = 0"
  "cur_inst (sample_exec prog) = 0" "iringbuf (sample_exec prog) = replicate 16 (0, 0)"
  "reports (sample_exec prog) = []" "run_of (sample_exec prog) = NEMU_STOP"
  by (simp_all add: sample_exec_def run_of_def)

lemma sample_ebreak_step:
  assumes "flash (nsys m) = sample_array ebreak_bytes 64" "length (gpr (cpu m)) = 32"
  shows "\<exists>m'. rv32_isa_exec_once sample_config (sample_decode\<lparr>dpc := 0x30000000, snpc := 0x30000000\<rparr>) m =
     Inr (sample_decode\<lparr>dpc := 0x30000000, snpc := 0x30000004, dnpc := 0x30000004,
          inst_val := 0x00100073\<rparr>, m')"
proof -
  have w: "le_word ebreak_bytes = (0x00100073 :: u32)" by code_simp
  have f: "inst_fetch sample_config (0x30000000 :: u32) 4 (nsys m) = Inr (0x00100073, 0x30000004, nsys m)"
    using sample_fetch [OF assms(1) [unfolded ebreak_bytes_def]] w by (simp only: ebreak_bytes_def)
  have "agrees ''0000000 00001 00000 000 00000 11100 11'' 0x00100073" by code_simp
  moreover have "(''0000000 00001 00000 000 00000 11100 11'', EBREAK, TYPE_N) \<in> set rv32_main_table"
    by (simp add: rv32_main_table_def)
  ultimately have "decode_table rv32_table 0x00100073 = Inr (Some (EBREAK, TYPE_N))"
    by (intro rv32_decode)
  with f assms(2) show ?thesis
    by (simp add: rv32_isa_exec_once_def rv32_decode_exec_def Let_def rv32_decode_operand_def
        rv32_R_ok finish_exec_def upd_gpr_def reg_set_ok rv_reg_count_def NEMUTRAP_def)
qed

text \<open>A state whose machine is the sample one about to execute \<^verbatim>\<open>ebreak\<close>.\<close>

definition at_ebreak ::
    "(u32, unit riscv32_CPU_state_ext, 'r) exec_state \<Rightarrow> bool" where
  "at_ebreak st \<longleftrightarrow> flash (nsys (mach st)) = sample_array ebreak_bytes 64 \<and>
     cpu (mach st) = cpu (sample_machine ebreak_bytes) \<and> iringbuf st = replicate 16 (0, 0) \<and>
     cur_inst st = 0"

lemma ebreak_exec:
  assumes "at_ebreak st" "g_step G = rv32_isa_exec_once sample_config"
  obtains t st1 d' st2 where
    "get_time_st (set_run NEMU_RUNNING (st\<lparr>g_print_step := b\<rparr>)) = (t, st1)"
    and "exec_once sample_config G sample_decode (pc (cpu (mach st1))) st1 = Inr (d', st2)"
    and "inst_val d' = 0x00100073"
proof -
  let ?st0 = "set_run NEMU_RUNNING (st\<lparr>g_print_step := b\<rparr>)"
  obtain t st1 where g: "get_time_st ?st0 = (t, st1)" by fastforce
  with assms(1) have st1: "flash (nsys (mach st1)) = sample_array ebreak_bytes 64"
      "cpu (mach st1) = cpu (sample_machine ebreak_bytes)" "iringbuf st1 = replicate 16 (0, 0)"
      "cur_inst st1 = 0"
    by (auto simp: at_ebreak_def get_time_st_def get_time_def get_time_internal_def set_run_def upd_sys_def
        Let_def split: if_split_asm)
  obtain m' where m': "rv32_isa_exec_once sample_config
      (sample_decode\<lparr>dpc := 0x30000000, snpc := 0x30000000\<rparr>) (mach st1) =
      Inr (sample_decode\<lparr>dpc := 0x30000000, snpc := 0x30000004, dnpc := 0x30000004,
          inst_val := 0x00100073\<rparr>, m')"
    using sample_ebreak_step [of "mach st1"] st1 by auto
  obtain st2 where "exec_once sample_config G sample_decode (pc (cpu (mach st1))) st1 =
      Inr (sample_decode\<lparr>dpc := 0x30000000, snpc := 0x30000004, dnpc := 0x30000004,
          inst_val := 0x00100073\<rparr>, st2)"
    using m' st1 assms(2) by (simp add: exec_once_def Let_def trace_inst_def)
  then show ?thesis by (rule that [OF g]) simp
qed

lemma ebreak_run:
  assumes "at_ebreak st" "g_step G = rv32_isa_exec_once sample_config" "n \<noteq> 0"
    "run_of st \<noteq> NEMU_END" "run_of st \<noteq> NEMU_ABORT"
  obtains st' where "cpu_exec sample_config dc G n sample_decode st = Inr st'"
    and "run_of st' = NEMU_STOP"
proof -
  obtain t st1 d' st2 where
    "get_time_st (set_run NEMU_RUNNING (st\<lparr>g_print_step := unat n < MAX_INST_TO_PRINT\<rparr>)) = (t, st1)"
    "exec_once sample_config G sample_decode (pc (cpu (mach st1))) st1 = Inr (d', st2)"
    "inst_val d' = 0x00100073"
    using assms(1,2) by (rule ebreak_exec)
  then show ?thesis
    using cpu_exec_ebreak [of sample_config n st t st1 G sample_decode d' st2 dc] assms(3-) that
    by auto
qed

lemma at_ebreak_sample: "at_ebreak (sample_exec ebreak_bytes)"
  by (simp add: at_ebreak_def)

lemma sample_guest_step: "g_step sample_guest = rv32_isa_exec_once sample_config"
  by (simp add: sample_guest_def)

lemmas sample_ebreak_exec = ebreak_exec [OF at_ebreak_sample sample_guest_step]

lemma sample_ebreak_run:
  obtains st' where "cpu_exec sample_config sample_devices sample_guest 3 sample_decode
      (sample_exec ebreak_bytes) = Inr st'"
  by (rule ebreak_run [OF at_ebreak_sample sample_guest_step, of 3 sample_devices]) simp_all

section \<open>Other guests\<close>

text \<open>Any guest, with a reference that does nothing, and a program in the flash.\<close>

definition idle_guest ::
    "('v Decode \<Rightarrow> ('v, 'e) isa_machine \<Rightarrow> ('v Decode \<times> ('v, 'e) isa_machine) res) \<Rightarrow>
     ('v::zero, 'e) cpu_state_scheme \<Rightarrow> ('v, 'e, unit) guest" where
  "idle_guest step k = \<lparr>g_step = step, g_reg_val = (\<lambda>s m. Inr (0, False)),
     g_checkregs = (\<lambda>r p m. Inr True),
     g_ref = \<lparr>ref_regcpy_to_dut = (\<lambda>r. k), ref_regcpy_to_ref = (\<lambda>k r. r), ref_exec1 = (\<lambda>r. r),
              ref_memcpy_to_ref = (\<lambda>a bs r. r)\<rparr>\<rparr>"

definition flash_state :: "u8 list \<Rightarrow> ('v::zero, 'e) cpu_state_scheme \<Rightarrow> ('v, 'e, unit) exec_state" where
  "flash_state prog k = \<lparr>mach = \<lparr>nsys = sample_sys prog, cpu = k\<rparr>, refst = (),
     wpst = \<lparr>wp_pool = [], wp_head = None, wp_free = None\<rparr>, g_nr_guest_inst = 0, g_timer = 0,
     g_print_step = False, cur_inst = 0, iringbuf = replicate 16 (0, 0), reports = [],
     pending_events = []\<rparr>"

definition undecoded :: "'v::zero Decode" where
  "undecoded = \<lparr>dpc = 0, snpc = 0, dnpc = 0, inst_val = 0\<rparr>"

text \<open>A step that writes a register and neither traps nor jumps, from a given memory.\<close>

definition steps_on ::
    "('a::len word Decode \<Rightarrow> ('a word, 'e) isa_machine \<Rightarrow> ('a word Decode \<times> ('a word, 'e) isa_machine) res) \<Rightarrow>
     u8 list \<Rightarrow> ('a word, 'e) cpu_state_scheme \<Rightarrow> bool" where
  "steps_on step prog k \<longleftrightarrow> (\<forall>s. flash s = sample_array prog 64 \<longrightarrow>
     (\<exists>d' k'. step (undecoded\<lparr>dpc := pc k, snpc := pc k\<rparr>) \<lparr>nsys = s, cpu = k\<rparr> = Inr (d', \<lparr>nsys = s, cpu = k'\<rparr>) \<and>
       inst_val d' \<noteq> 0x00100073 \<and> dnpc d' = pc k + 4))"

lemma one_step_run:
  fixes k :: "('a::len word, 'e) cpu_state_scheme"
  assumes "steps_on step prog k"
  obtains st' where "cpu_exec sample_config sample_devices (idle_guest step k) 1 undecoded (flash_state prog k) = Inr st'"
    and "g_nr_guest_inst st' = 1" "pc (cpu (mach st')) = pc k + 4"
proof -
  let ?G = "idle_guest step k"
  let ?st0 = "set_run NEMU_RUNNING ((flash_state prog k)\<lparr>g_print_step := True\<rparr>)"
  obtain t st1 where g: "get_time_st ?st0 = (t, st1)" by fastforce
  then have st1: "flash (nsys (mach st1)) = sample_array prog 64" "cpu (mach st1) = k" "iringbuf st1 = replicate 16 (0, 0)"
      "cur_inst st1 = 0" "run_of st1 = NEMU_RUNNING" "g_nr_guest_inst st1 = 0"
    by (auto simp: flash_state_def get_time_st_def get_time_def get_time_internal_def set_run_def upd_sys_def run_of_def
        Let_def split: if_split_asm)
  have m: "mach st1 = \<lparr>nsys = nsys (mach st1), cpu = k\<rparr>" using st1(2) by (cases "mach st1") simp
  obtain d' k' where d': "step (undecoded\<lparr>dpc := pc k, snpc := pc k\<rparr>) \<lparr>nsys = nsys (mach st1), cpu = k\<rparr> =
      Inr (d', \<lparr>nsys = nsys (mach st1), cpu = k'\<rparr>)" "inst_val d' \<noteq> 0x00100073" "dnpc d' = pc k + 4"
    using assms st1(1) unfolding steps_on_def by blast
  note d = d'(1) [folded m] d'(2,3)
  define st2 where "st2 = st1\<lparr>mach := \<lparr>nsys = nsys (mach st1), cpu = k'\<lparr>pc := pc k + 4\<rparr>\<rparr>,
    iringbuf := (iringbuf st1)[0 := (dpc d', inst_val d')], cur_inst := 1\<rparr>"
  have e: "exec_once sample_config ?G undecoded (pc (cpu (mach st1))) st1 = Inr (d', st2)"
    using d st1 by (simp add: exec_once_def idle_guest_def st2_def trace_inst_def INST_NUM_def)
  let ?st3 = "st2\<lparr>g_nr_guest_inst := 1\<rparr>"
  have x: "execute sample_config sample_devices ?G (unat (1 :: u64)) undecoded st1 = Inr ?st3"
    using e st1 by (simp add: trace_and_difftest_def poll_devices_def run_of_def Let_def st2_def)
  obtain u st4 where u: "get_time_st ?st3 = (u, st4)" by fastforce
  then have st4: "run_of st4 = NEMU_RUNNING" "cpu (mach st4) = k'\<lparr>pc := pc k + 4\<rparr>" "cur_inst st4 = 1"
      "length (iringbuf st4) = 16" "g_nr_guest_inst st4 = 1"
    using run_of_get_time_st [OF u] st1 by (auto simp: st2_def run_of_def get_time_st_def split: prod.split_asm)
  have "cpu_exec sample_config sample_devices ?G 1 undecoded (flash_state prog k) =
      finish_run sample_config (st4\<lparr>g_timer := g_timer st4 + (u - t)\<rparr>)"
    using g x u by (simp add: cpu_exec_def flash_state_def run_of_def MAX_INST_TO_PRINT_def)
  also have "\<dots> = Inr (set_run NEMU_STOP (st4\<lparr>g_timer := g_timer st4 + (u - t)\<rparr>))"
    using st4 by (simp add: finish_run_def run_of_def show_ring_def display_inst_def Let_def)
  finally show ?thesis by (rule that) (use st4 in simp_all)
qed

text \<open>Each guest's instruction that loads a constant, into register 0: \<^verbatim>\<open>li x0, 1\<close>, \<^verbatim>\<open>lui $0, 0x1234\<close>, \<^verbatim>\<open>pcaddu12i $r0, 1\<close>.\<close>

definition li_zero_bytes :: "u8 list" where "li_zero_bytes = [0x13, 0x00, 0x10, 0x00]"
definition lui_zero_bytes :: "u8 list" where "lui_zero_bytes = [0x34, 0x12, 0x00, 0x3c]"
definition pcaddu_zero_bytes :: "u8 list" where "pcaddu_zero_bytes = [0x20, 0x00, 0x00, 0x1c]"

lemma sample_fetch64:
  assumes "flash s = sample_array [b0, b1, b2, b3] 64"
  shows "inst_fetch sample_config (0x30000000 :: u64) 4 s = Inr (ucast (le_word [b0, b1, b2, b3] :: u64), 0x30000004, s)"
proof -
  have "in_pmem sample_config 0x30000000 = Inr True" by (simp add: in_pmem_cases)
  moreover have "pmem_read sample_config 0x30000000 4 s = Inr (le_word [b0, b1, b2, b3] :: u64)"
    using assms by (simp add: sample_array_def pmem_read_def guest_to_host_def host_read_def arr_load_def upt_rec)
  ultimately show ?thesis by (simp add: inst_fetch_def vaddr_ifetch_def paddr_read_def del: le_word.simps)
qed

lemma li_zero_steps:
  assumes "length (gpr k) = 32" "pc k = 0x30000000"
  shows "steps_on (rv64_isa_exec_once sample_config) li_zero_bytes k"
proof -
  have w: "ucast (le_word li_zero_bytes :: u64) = (0x00100013 :: u32)" by code_simp
  have t: "decode_table rv64_table 0x00100013 = Inr (Some (LI64, TYPE_I))" by code_simp
  have f: "ibits 0x00100013 19 15 = (0 :: u64)" "ibits 0x00100013 11 7 = (0 :: u64)" by code_simp+
  show ?thesis
    unfolding steps_on_def li_zero_bytes_def
    using assms w [unfolded li_zero_bytes_def] t f
    by (auto simp: rv64_isa_exec_once_def rv64_decode_exec_def sample_fetch64 undecoded_def rv64_decode_operand_def rv64_R_def
        reg_get_ok reg_set_ok rv_reg_count_def wr_reg_def finish_exec_def upd_gpr_def Let_def simp del: le_word.simps)
qed

lemma lui_zero_steps:
  assumes "length (gpr k) = 32" "pc k = 0x30000000"
  shows "steps_on (mips32_isa_exec_once sample_config) lui_zero_bytes k"
proof -
  have w: "le_word lui_zero_bytes = (0x3c001234 :: u32)" by code_simp
  have t: "decode_table mips32_table 0x3c001234 = Inr (Some (M_LUI, M_TYPE_U))" by code_simp
  have f: "ibits 0x3c001234 20 16 = (0 :: u64)" "ibits 0x3c001234 25 21 = (0 :: u64)" by code_simp+
  show ?thesis
    unfolding steps_on_def lui_zero_bytes_def
    using assms w [unfolded lui_zero_bytes_def] t f
    by (auto simp: mips32_isa_exec_once_def mips32_decode_exec_def sample_fetch undecoded_def mips32_decode_operand_def mips32_R_def
        reg_get_ok reg_set_ok wr_reg_def finish_exec_def upd_gpr_def Let_def simp del: le_word.simps)
qed

lemma pcaddu_zero_steps:
  assumes "length (gpr k) = 32" "pc k = 0x30000000"
  shows "steps_on (la_isa_exec_once sample_config) pcaddu_zero_bytes k"
proof -
  have w: "le_word pcaddu_zero_bytes = (0x1c000020 :: u32)" by code_simp
  have t: "decode_table la_table 0x1c000020 = Inr (Some (PCADDU12I, TYPE_1RI20))" by code_simp
  have f: "ibits 0x1c000020 9 5 = (1 :: u64)" "ibits 0x1c000020 4 0 = (0 :: u64)" by code_simp+
  show ?thesis
    unfolding steps_on_def pcaddu_zero_bytes_def
    using assms w [unfolded pcaddu_zero_bytes_def] t f
    by (auto simp: la_isa_exec_once_def la_decode_exec_def sample_fetch undecoded_def la_decode_operand_def la_R_def
        reg_get_ok reg_set_ok wr_reg_def finish_exec_def upd_gpr_def Let_def simp del: le_word.simps)
qed

end
