(* ===== verification/Machine_Properties.thy ===== *)
theory Machine_Properties
  imports Samples
begin

text \<open>
  Properties of the emulated machine: memory, I/O maps, devices, the decoder and the steps of
  the RV32 core, each with its witness on the machines of \<open>Samples\<close>.
\<close>

section \<open>Memory and the bus\<close>

text \<open>
  C6: RAM behaves as memory on every access of the bus. A write of 1, 2, 4 (or, on a 64-bit
  guest, 8) bytes inside flash or SRAM always succeeds; reading the same bytes back gives the
  low bytes of the value, reading any disjoint range gives what it held before, and the arrays
  keep their sizes.
\<close>
theorem ram_read_after_write:
  assumes "ram_layout c" "mem_wf c s" "pmem_range c addr len" "access_len c len"
  shows "\<exists>s'. paddr_write c addr len (w :: 'w::len word) s = Inr s' \<and> mem_wf c s' \<and>
    paddr_read c addr len s' = Inr (take_bit (8 * len) w, s') \<and>
    (\<forall>addr' len'. pmem_range c addr' len' \<longrightarrow> access_len c len' \<longrightarrow>
       unat addr + len \<le> unat addr' \<or> unat addr' + len' \<le> unat addr \<longrightarrow>
       (paddr_read c addr' len' s' :: ('w word \<times> 'v sys) res) =
         bindR (paddr_read c addr' len' s) (\<lambda>(v, _). Inr (v, s')))"
proof -
  obtain s' where s': "paddr_write c addr len w s = Inr s'" "mem_wf c s'"
    using paddr_write_ok [OF assms] by blast
  then show ?thesis
    using paddr_read_write_same [OF assms s'(1)] paddr_read_write_other [OF assms _ _ _ s'(1)]
    by blast
qed

theorem ram_read_after_write_witness:
  "\<exists>s'. paddr_write sample_config 0x30000004 4 (0xdeadbeef :: u32) (sample_sys [] :: u32 sys) = Inr s' \<and>
     paddr_read sample_config 0x30000004 4 s' = Inr (0xdeadbeef :: u32, s')"
proof -
  have "pmem_range sample_config 0x30000004 4" "access_len sample_config 4"
    by (simp_all add: pmem_range_def access_len_def)
  then obtain s' where "paddr_write sample_config 0x30000004 4 (0xdeadbeef :: u32) (sample_sys []) = Inr s'"
      "paddr_read sample_config 0x30000004 4 s' = Inr (take_bit (8 * 4) (0xdeadbeef :: u32), s' :: u32 sys)"
    using ram_read_after_write [OF sample_layout] by blast
  then show ?thesis by auto
qed

text \<open>
  An address outside the two windows of the chip (flash at \<^verbatim>\<open>0x30000000\<close>, SRAM at
  \<^verbatim>\<open>0x0f000000\<close>) stops NEMU with a failed assertion on every access, devices included: the
  MMIO addresses \<^verbatim>\<open>0xa0000000\<close> and up of the default configuration cannot be reached.
\<close>
theorem bus_error_outside_windows:
  assumes "\<not> (0x30000000 \<le> addr \<and> addr < 0x40000000)" "\<not> (0x0f000000 \<le> addr \<and> addr < 0x10000000)"
  shows "(paddr_read c addr len s :: ('w::len word \<times> 'v sys) res) = Inl AssertFail \<and>
    paddr_write c addr len (w :: 'w word) s = Inl AssertFail"
  using assms by (auto simp: paddr_read_def paddr_write_def in_pmem_cases)

section \<open>Registration and access of devices\<close>

text \<open>
  C10: after initialisation (of any selection of devices, at any addresses for which it
  succeeds) the memory-mapped regions are disjoint, so that an access inside a region is served
  by that region's device, and is marked as one the reference of differential testing skips.
\<close>
theorem device_dispatch:
  assumes "init_device c d m sc img r1 r2 s = Inr s'" "mmio_wf s"
    and "r \<in> set (mmio_maps (io s'))" "map_inside r addr"
  shows "fetch_mmio_map c addr s' = (Some r, difftest_skip_ref c s')"
  using fetch_mmio_map_owner [OF init_device_wf [OF assms(1,2)] assms(3,4)] .

theorem device_dispatch_witness:
  "\<exists>s'. init_device sample_config sample_devices (Some (\<lambda>_. 0)) (\<lambda>_. 0) None 0 0
       (sample_sys [] :: u32 sys) = Inr s' \<and>
     fetch_mmio_map sample_config 0x38000100 s' =
       (Some \<lparr>map_name = ''serial'', map_low = 0x38000100, map_high = 0x38000107, map_space = 0,
              map_callback = Some SerialHandler\<rparr>, s')"
proof -
  have wf: "mmio_wf (sample_sys [] :: u32 sys)"
    by (simp add: mmio_wf_def maps_disjoint_def sample_io_def NR_MAP_def)
  obtain s' where s': "init_device sample_config sample_devices (Some (\<lambda>_. 0)) (\<lambda>_. 0) None 0 0
       (sample_sys [] :: u32 sys) = Inr s'"
    and r: "\<lparr>map_name = ''serial'', map_low = 0x38000100, map_high = 0x38000107, map_space = 0,
              map_callback = Some SerialHandler\<rparr> \<in> set (mmio_maps (io s'))"
    by (simp add: init_device_def sample_devices_def default_devices_def init_map_def init_serial_def
        register_device_def add_mmio_map_def NR_MAP_def in_pmem_cases sample_io_def sample_map_def
        new_space_def PAGE_SIZE_def PAGE_MASK_def IO_SPACE_MAX_def init_alarm_def)
  from device_dispatch [OF s' wf r, of "0x38000100"] s' show ?thesis
    by (simp add: map_inside_def difftest_skip_ref_def)
qed

text \<open>
  C19: with memory-mapped I/O the default configuration does not start: the first device,
  the serial port at \<^verbatim>\<open>0xa00003f8\<close>, is outside the windows, and its registration stops NEMU.
\<close>
theorem default_devices_rejected:
  assumes "\<not> cfg_has_port_io c"
  shows "init_device c default_devices m sc img r1 r2 (s :: 'v sys) = Inl AssertFail"
proof -
  have "init_serial c default_devices s1 = Inl AssertFail" if "p_space (io s1) = 0" for s1 :: "'v sys"
    using assms that
    by (simp add: init_serial_def register_device_def add_mmio_map_def in_pmem_cases new_space_def
        PAGE_SIZE_def PAGE_MASK_def IO_SPACE_MAX_def default_devices_def guardR_def Let_def)
  moreover have "dc_has_serial default_devices" by (simp add: default_devices_def)
  ultimately show ?thesis
    by (cases m) (simp_all add: init_device_def init_map_def)
qed

theorem default_devices_rejected_witness:
  "init_device sample_config default_devices (Some (\<lambda>_. 0)) (\<lambda>_. 0) None 0 0
     (sample_sys [] :: u32 sys) = Inl AssertFail"
  by (rule default_devices_rejected) simp

text \<open>
  A region without a handler behaves as memory: what is written through its map is read
  back, and the access has no other effect.
\<close>
theorem mapped_buffer_read_write:
  assumes "access_len c n" "map_inside r addr" "map_callback r = None" "io_fits r addr n s"
  shows "\<exists>s'. map_write c run addr n (w :: 'w::len word) (Some r) s = Inr s' \<and>
    map_read c run addr n (Some r) s' = Inr (take_bit (8 * n) w, s') \<and>
    dev s' = dev s \<and> flash s' = flash s \<and> sram s' = sram s"
  using map_write_plain [OF assms, of run w] map_read_write_plain [OF assms] by auto

section \<open>Device behaviour\<close>

text \<open>
  C14: the key queue of the i8042 is a first-in first-out buffer: from an empty queue, wherever
  its indices stand in the ring, any sequence of at most 1023 keys is accepted and delivered
  once each in order; after it the queue is empty, and a further read gives \<^verbatim>\<open>NEMU_KEY_NONE\<close>.
\<close>
theorem key_queue_fifo:
  assumes "key_inv k" "pending_keys k = []" "length xs \<le> KEY_QUEUE_LEN - 1"
  shows "\<exists>k1 k2. enq_all key_enqueue xs k = Inr k1 \<and> deq_many key_dequeue (length xs) k1 = (xs, k2) \<and>
    pending_keys k2 = [] \<and> key_dequeue k2 = (NEMU_KEY_NONE, k2)"
  using assms by (rule keyq.fifo)

theorem key_queue_fifo_witness:
  "\<exists>k1 k2. enq_all key_enqueue [3, 1, 4, 1, 5] sample_keyboard = Inr k1 \<and>
     deq_many key_dequeue (length [3, 1, 4, 1, 5 :: u32]) k1 = ([3, 1, 4, 1, 5], k2) \<and> pending_keys k2 = []"
  using key_queue_fifo [OF sample_keyboard_empty, of "[3, 1, 4, 1, 5]"]
  by (auto simp: KEY_QUEUE_LEN_def simp del: enq_all.simps)

text \<open>
  The queue never overwrites a pending key: if a sequence of keys does not fit, the
  assertion of \<^verbatim>\<open>key_enqueue\<close> stops NEMU.
\<close>
theorem key_queue_overflow:
  assumes "key_inv k" "KEY_QUEUE_LEN - 1 < length (pending_keys k) + length xs"
    and "length (pending_keys k) \<le> KEY_QUEUE_LEN - 1"
  shows "enq_all key_enqueue xs k = Inl AssertFail"
  using assms by (rule keyq.enq_all_overflow)

text \<open>
  Reading the high register of the clock latches one reading: both registers then hold the
  two halves of the time since boot, so a guest that reads high and then low never sees halves
  of different times.
\<close>
lemma clock_latch:
  assumes "rtc_port_base (dev s) + 8 \<le> clen (io_space (io s))" "boot_time s \<noteq> 0"
    and "us = clock s (clock_reads s) - boot_time s"
  shows "\<exists>s'. rtc_io_handler 4 n False s = Inr s' \<and>
    io_rd32 (rtc_port_base (dev s')) 0 s' = Inr (ucast us) \<and>
    io_rd32 (rtc_port_base (dev s')) 1 s' = Inr (ucast (drop_bit 32 us)) \<and>
    rtc_io_handler 0 n False s' = Inr s'"
  using rtc_latch [OF assms, of n] by (auto simp: rtc_io_handler_def)

text \<open>
  The screen is redrawn, once and with the frame buffer as it stands, when the sync register
  is set, and the register is cleared; otherwise nothing changes.
\<close>
lemma screen_sync:
  assumes "vgactl_port_base (dev s) + 8 \<le> clen (io_space (io s))"
    and "vmem (dev s) + unat (screen_size d) \<le> clen (io_space (io s))"
  shows "\<exists>s' sync frame. vga_update_screen d s = Inr s' \<and>
    io_rd32 (vgactl_port_base (dev s)) 1 s = Inr sync \<and>
    arr_load (io_space (io s)) (vmem (dev s)) (unat (screen_size d)) = Inr frame \<and>
    (if sync = 0 then s' = s
     else screen_updates (dev s') = screen_updates (dev s) @ [frame] \<and>
          io_rd32 (vgactl_port_base (dev s')) 1 s' = Inr 0)"
proof -
  obtain sync where sync: "io_rd32 (vgactl_port_base (dev s)) 1 s = Inr sync"
    using assms(1) by (simp add: io_rd32_def arr_load_def)
  moreover obtain frame where
    "arr_load (io_space (io s)) (vmem (dev s)) (unat (screen_size d)) = Inr frame"
    using assms(2) by (simp add: arr_load_def)
  moreover obtain s' where s': "vga_update_screen d s = Inr s'"
    using assms calculation
    by (cases "sync = 0") (simp_all add: vga_update_screen_def update_screen_def io_wr32_def arr_store_def)
  ultimately show ?thesis using vga_update_screen_sync [OF s' sync] by auto
qed

section \<open>The decoder\<close>

text \<open>
  C3: the RV32 decoder is deterministic in the table: whichever rule of the 40-odd rules before
  the catch-all a word agrees with is the one that is taken, whatever the order of the table,
  and a word that agrees with none is \<^verbatim>\<open>inv\<close>.
\<close>
theorem rv32_decoder:
  "((p, r) \<in> set rv32_main_table \<and> agrees p w \<longrightarrow> decode_table rv32_table w = Inr (Some r)) \<and>
   ((\<forall>(q, r) \<in> set rv32_main_table. \<not> agrees q w) \<longrightarrow>
     decode_table rv32_table w = Inr (Some (INV, TYPE_N)))"
proof (intro conjI impI)
  assume "(p, r) \<in> set rv32_main_table \<and> agrees p w"
  then show "decode_table rv32_table w = Inr (Some r)"
    using rv32_decode [of p "fst r" "snd r" w] by simp
next
  assume "\<forall>(q, r) \<in> set rv32_main_table. \<not> agrees q w"
  then show "decode_table rv32_table w = Inr (Some (INV, TYPE_N))"
    by (intro rv32_decode_inv) blast
qed

lemma add_in_table: "(''0000000 ????? ????? 000 ????? 01100 11'', ADD, TYPE_R) \<in> set rv32_main_table"
  by (simp add: rv32_main_table_def)

theorem rv32_decoder_witness:
  "decode_table rv32_table 0x00b50533 = Inr (Some (ADD, TYPE_R)) \<and>
   decode_table rv32_table 0xffffffff = Inr (Some (INV, TYPE_N))"
proof -
  have "agrees ''0000000 ????? ????? 000 ????? 01100 11'' 0x00b50533" by code_simp
  moreover have "\<forall>(q, r) \<in> set rv32_main_table. \<not> agrees q 0xffffffff" by code_simp
  ultimately show ?thesis
    using rv32_decoder [of "''0000000 ????? ????? 000 ????? 01100 11''" "(ADD, TYPE_R)" "0x00b50533"]
      rv32_decoder [of "[]" "(ADD, TYPE_R)" "0xffffffff"] add_in_table by blast
qed

text \<open>
  The immediates the operand decoder extracts are those of the manual: bit by bit, each
  bit of the I, S, B, U and J immediates is the bit of the instruction the formats place there,
  the sign bit above.
\<close>
lemma rv32_immediates:
  "bit (immI i) k = (k < 32 \<and> bit i (if k < 11 then 20 + k else 31)) \<and>
   bit (immS i) k = (k < 32 \<and> bit i (if k < 5 then 7 + k else if k < 11 then 20 + k else 31)) \<and>
   bit (push_bit 1 (immB i)) k = (k < 32 \<and> 0 < k \<and>
     bit i (if k < 5 then 7 + k else if k < 11 then 20 + k else if k = 11 then 7 else 31)) \<and>
   bit (immU i) k = (12 \<le> k \<and> bit i k) \<and>
   bit (push_bit 1 (immJ i)) k = (k < 32 \<and> 0 < k \<and>
     bit i (if k < 11 then 20 + k else if k = 11 then 20 else if k < 20 then k else 31))"
  by (intro conjI; rule bit_immI bit_immS bit_immB bit_immU bit_immJ)

section \<open>Steps of the RV32 core\<close>

text \<open>
  C4: a register-register instruction computes what the manual says of its operation on the
  source registers exactly where C defines the expression the code uses: for shifts by less than
  32, divisions not by zero and that do not overflow. Then it writes the result to the destination
  register unless that is \<^verbatim>\<open>x0\<close> and falls through, memory, devices and the other registers being
  as the fetch left them. On the other operands, for which the manual has a result as well, it is
  undefined. On RV32E an instruction with a register that does not exist fails.
\<close>
theorem rv32_alu_step:
  assumes "length (gpr (cpu m)) = rv_reg_count c" "inst_fetch c (snpc d) 4 (nsys m) = Inr (w, p, s)"
    and "(pat, op, TYPE_R) \<in> set rv32_main_table" "agrees pat w" "op \<noteq> MRET"
  shows "let a = gpr (cpu m) ! rs1_of w; b = gpr (cpu m) ! rs2_of w in
    if \<not> (rs1_of w < rv_reg_count c \<and> rs2_of w < rv_reg_count c \<and> rd_of w < rv_reg_count c)
    then \<exists>e. rv32_isa_exec_once c d m = Inl e
    else if \<not> alu_defined op a b then rv32_isa_exec_once c d m = Inl Undef
    else \<exists>r. riscv_alu op a b = Some r \<and> rv32_isa_exec_once c d m =
      Inr (d\<lparr>snpc := p, dnpc := p, inst_val := w\<rparr>,
           m\<lparr>nsys := s, cpu := (cpu m)\<lparr>gpr := (gpr (cpu m))[rd_of w := r, 0 := 0]\<rparr>\<rparr>)"
proof -
  obtain r where "riscv_alu op (gpr (cpu m) ! rs1_of w) (gpr (cpu m) ! rs2_of w) = Some r"
    using type_R_alu [OF assms(5,3)] by blast
  then show ?thesis using rv32_step_alu [OF assms] by (auto simp: Let_def regs_exist_def alu_res_def)
qed

theorem rv32_alu_step_witness:
  "\<exists>d' m'. rv32_isa_exec_once sample_config sample_decode (sample_machine add_bytes) = Inr (d', m') \<and>
     gpr (cpu m') = sample_regs[10 := 5] \<and> dnpc d' = 0x30000004 \<and>
   rv32_isa_exec_once sample_config sample_decode (sample_machine sll_bytes) = Inl Undef"
proof -
  let ?w = "le_word add_bytes :: u32" and ?m = "sample_machine add_bytes"
  have "inst_fetch sample_config (snpc sample_decode) 4 (nsys ?m) = Inr (?w, 0x30000004, nsys ?m)"
    by (simp add: sample_decode_def add_bytes_def sample_fetch del: le_word.simps)
  moreover note add_in_table
  moreover have "agrees ''0000000 ????? ????? 000 ????? 01100 11'' ?w" by code_simp
  moreover have f: "rs1_of ?w = 10" "rs2_of ?w = 11" "rd_of ?w = 10" by code_simp+
  moreover have "riscv_alu ADD 7 0xfffffffe = Some 5" by code_simp
  ultimately have a: "\<exists>d' m'. rv32_isa_exec_once sample_config sample_decode ?m = Inr (d', m') \<and>
      gpr (cpu m') = sample_regs[10 := 5] \<and> dnpc d' = 0x30000004"
    using rv32_alu_step [of ?m sample_config sample_decode ?w "0x30000004" "nsys ?m" _ ADD]
    by (simp add: f rv_reg_count_def del: riscv_alu.simps)
  let ?v = "le_word sll_bytes :: u32" and ?n = "sample_machine sll_bytes"
  have "inst_fetch sample_config (snpc sample_decode) 4 (nsys ?n) = Inr (?v, 0x30000004, nsys ?n)"
    by (simp add: sample_decode_def sll_bytes_def sample_fetch del: le_word.simps)
  moreover have "(''0000000 ????? ????? 001 ????? 01100 11'', SLL, TYPE_R) \<in> set rv32_main_table"
    by (simp add: rv32_main_table_def)
  moreover have "agrees ''0000000 ????? ????? 001 ????? 01100 11'' ?v" by code_simp
  moreover have g: "rs1_of ?v = 10" "rs2_of ?v = 11" "rd_of ?v = 10" by code_simp+
  ultimately have "rv32_isa_exec_once sample_config sample_decode ?n = Inl Undef"
    using rv32_alu_step [of ?n sample_config sample_decode ?v "0x30000004" "nsys ?n" _ SLL]
    by (simp add: g rv_reg_count_def)
  with a show ?thesis by blast
qed

text \<open>
  A branch goes to its own address plus the B immediate when the manual's condition holds
  on the two registers (signed or unsigned as the operation says) and falls through otherwise;
  no register changes but \<^verbatim>\<open>x0\<close>, which is reset.
\<close>
lemma rv32_branch_step:
  assumes "\<not> cfg_rve c" "length (gpr (cpu m)) = 32"
    and "inst_fetch c (snpc d) 4 (nsys m) = Inr (w, p, s)"
    and "(pat, op, TYPE_B) \<in> set rv32_main_table" "agrees pat w"
    and "riscv_branch op (gpr (cpu m) ! rs1_of w) (gpr (cpu m) ! rs2_of w) = Some t"
  shows "rv32_isa_exec_once c d m =
    Inr (d\<lparr>snpc := p, dnpc := (if t then dpc d + push_bit 1 (immB w) else p), inst_val := w\<rparr>,
         m\<lparr>nsys := s, cpu := (cpu m)\<lparr>gpr := (gpr (cpu m))[0 := 0]\<rparr>\<rparr>)"
  using assms by (rule rv32_step_branch)

end
