(* ===== verification/Gen_Expr.thy ===== *)
theory Gen_Expr
  imports Expr_Correct
begin

text \<open>
  The generator of test expressions, \<^verbatim>\<open>tools/gen-expr/gen-expr.c\<close>. The results of \<^verbatim>\<open>rand\<close> are a
  function of the number of the call; the buffer is the C string in it and the offset of
  \<^verbatim>\<open>buf_start\<close>. The recursion of the generator is as deep as the random numbers make it, and is
  given fuel. The compiler and the compiled program, which the tool runs, are a parameter.
\<close>

section \<open>The buffer\<close>

definition BUF_SIZE :: nat where
  "BUF_SIZE = 65536"

record gen_state =
  gbuf :: string
  buf_start :: nat
  rands :: nat

text \<open>\<^verbatim>\<open>choose\<close>; \<^verbatim>\<open>rand\<close> does not give a negative number.\<close>

definition choose_c :: "(nat \<Rightarrow> nat) \<Rightarrow> nat \<Rightarrow> gen_state \<Rightarrow> nat \<times> gen_state" where
  "choose_c rnd n s = (rnd (rands s) mod n, s\<lparr>rands := rands s + 1\<rparr>)"

text \<open>
  \<^verbatim>\<open>snprintf(buf_start, buf_end-buf_start, ...)\<close> of a text: what fits is stored with a
  terminator, nothing when there is no room at all; the result is the length of the text.
\<close>

definition store_text :: "string \<Rightarrow> gen_state \<Rightarrow> gen_state" where
  "store_text t s =
     (if buf_start s < BUF_SIZE
      then s\<lparr>gbuf := take (buf_start s) (gbuf s) @ take (BUF_SIZE - buf_start s - 1) t\<rparr>
      else s)"

text \<open>\<^verbatim>\<open>buf_start += number_in\<close>: a pointer beyond the end of the array is undefined.\<close>

definition advance :: "nat \<Rightarrow> gen_state \<Rightarrow> gen_state res" where
  "advance n s = guardR (buf_start s + n \<le> BUF_SIZE) Undef (Inr (s\<lparr>buf_start := buf_start s + n\<rparr>))"

section \<open>The generator\<close>

text \<open>The field width of \<^verbatim>\<open>%*s\<close> is a minimum: the one space of the argument is always printed.\<close>

definition gen_space :: "(nat \<Rightarrow> nat) \<Rightarrow> gen_state \<Rightarrow> gen_state res" where
  "gen_space rnd s =
     (let (size, s) = choose_c rnd 5 s; t = replicate (max size 1) (CHR '' '') in
      if buf_start s < BUF_SIZE then advance (length t) (store_text t s) else Inr s)"

text \<open>\<^verbatim>\<open>%d\<close> of a number that is not negative.\<close>

fun dec_text :: "nat \<Rightarrow> string" where
  "dec_text n = (if n < 10 then [char_of (48 + n)] else dec_text (n div 10) @ [char_of (48 + n mod 10)])"

declare dec_text.simps [simp del]

definition gen_num :: "(nat \<Rightarrow> nat) \<Rightarrow> gen_state \<Rightarrow> gen_state res" where
  "gen_num rnd s =
     (let (num, s) = choose_c rnd 127 s; t = dec_text num in
      bindR (if buf_start s < BUF_SIZE then advance (length t) (store_text t s) else Inr s) (gen_space rnd))"

definition gen_char :: "(nat \<Rightarrow> nat) \<Rightarrow> char \<Rightarrow> gen_state \<Rightarrow> gen_state res" where
  "gen_char rnd ch s =
     (let s = store_text [ch] s in
      bindR (if buf_start s < BUF_SIZE then advance 1 s else Inr s) (gen_space rnd))"

definition ops :: string where
  "ops = ''+-*/''"

definition gen_rand_op :: "(nat \<Rightarrow> nat) \<Rightarrow> gen_state \<Rightarrow> gen_state res" where
  "gen_rand_op rnd s =
     (let (op_index, s) = choose_c rnd 4 s in
      bindR (gen_char rnd (ops ! op_index) s) (gen_space rnd))"

text \<open>Without fuel left the recursion is deeper than the stack, which is undefined as well.\<close>

fun gen_rand_expr :: "(nat \<Rightarrow> nat) \<Rightarrow> nat \<Rightarrow> gen_state \<Rightarrow> gen_state res" where
  "gen_rand_expr rnd 0 s = Inl Undef"
| "gen_rand_expr rnd (Suc k) s =
     (let (i, s) = choose_c rnd 3 s in
      if i = 0 then gen_num rnd s
      else if i = 1
      then bindR (gen_char rnd (CHR ''('') s) (\<lambda>s.
           bindR (gen_rand_expr rnd k s) (\<lambda>s.
           gen_char rnd (CHR '')'') s))
      else bindR (gen_rand_expr rnd k s) (\<lambda>s.
           bindR (gen_rand_op rnd s) (\<lambda>s.
           gen_rand_expr rnd k s)))"

section \<open>The main loop\<close>

text \<open>The program around the expression, \<^verbatim>\<open>code_format\<close>.\<close>

definition code_of :: "string \<Rightarrow> string" where
  "code_of e =
     ''#include <stdio.h>'' @ [CHR 0x0A] @ ''int main() { '' @ [CHR 0x09] @ '' unsigned result = '' @ e @
     '';  printf('' @ [CHR 0x22] @ ''%u'' @ [CHR 0x22] @ '', result);   return 0; }''"

text \<open>
  One round: \<open>compiles\<close> tells whether the compiler accepts the program, \<open>runs\<close> what it prints;
  the number is not initialised when the program prints none. The result is the line printed, if
  there is one.
\<close>

definition gen_round :: "(nat \<Rightarrow> nat) \<Rightarrow> (string \<Rightarrow> bool) \<Rightarrow> (string \<Rightarrow> u32 option) \<Rightarrow> nat \<Rightarrow> gen_state \<Rightarrow>
    ((u32 \<times> string) option \<times> gen_state) res" where
  "gen_round rnd compiles runs k s =
     bindR (gen_rand_expr rnd k (s\<lparr>buf_start := 0\<rparr>)) (\<lambda>s.
     let code_buf = code_of (gbuf s) in
     guardR (length code_buf < BUF_SIZE + 128) Undef
      (if \<not> compiles code_buf then Inr (None, s)
       else (case runs code_buf of
               None \<Rightarrow> Inl Undef
             | Some result \<Rightarrow> Inr (Some (result, gbuf s), s))))"

fun gen_main :: "(nat \<Rightarrow> nat) \<Rightarrow> (string \<Rightarrow> bool) \<Rightarrow> (string \<Rightarrow> u32 option) \<Rightarrow> nat \<Rightarrow> nat \<Rightarrow> gen_state \<Rightarrow>
    (u32 \<times> string) list res" where
  "gen_main rnd compiles runs k 0 s = Inr []"
| "gen_main rnd compiles runs k (Suc loop) s =
     bindR (gen_round rnd compiles runs k s) (\<lambda>(line, s).
     bindR (gen_main rnd compiles runs k loop s) (\<lambda>ls.
     Inr (case line of None \<Rightarrow> ls | Some l \<Rightarrow> l # ls)))"

end
