(* ===== verification/Gen_Expr_Correct.thy ===== *)
theory Gen_Expr_Correct
  imports Gen_Expr
begin

text \<open>
  What the generator writes is the text of an expression in the grammar the debugger's evaluator
  parses, and where the arithmetic of C is defined the two agree on its value.
\<close>

section \<open>Texts with spaces after each token\<close>

definition spaces :: "nat \<Rightarrow> string" where
  "spaces n = replicate n (CHR '' '')"

definition spaced :: "(token \<times> nat) list \<Rightarrow> string" where
  "spaced ps = concat (map (\<lambda>(t, k). tok_text t @ spaces (Suc k)) ps)"

lemma spaced_simps [simp]:
  "spaced [] = []" "spaced ((t, k) # ps) = tok_text t @ spaces (Suc k) @ spaced ps"
  "spaced (ps @ qs) = spaced ps @ spaced qs"
  by (simp_all add: spaced_def)

lemma spaces_append: "spaces m @ spaces n = spaces (m + n)"
  by (simp add: spaces_def replicate_add)

lemma make_token_space:
  "make_token_from (CHR '' '' # r) ts = make_token_from r ts"
proof -
  let ?k = "run_len (\<lambda>ch. ch = CHR '' '') r"
  have d: "make_token_from (CHR '' '' # r) ts = make_token_from (drop ?k r) ts"
    by (subst make_token_from.simps) (simp add: rules_def m_spaces_def run_len_def)
  show ?thesis
  proof (cases "?k = 0")
    case True
    with d show ?thesis by simp
  next
    case False
    then have "make_token_from r ts = make_token_from (drop ?k r) ts"
      by (subst make_token_from.simps) (auto simp: rules_def m_spaces_def run_len_def)
    with d show ?thesis by simp
  qed
qed

lemma make_token_spaces [simp]: "make_token_from (spaces n @ r) ts = make_token_from r ts"
  by (induction n) (simp_all add: spaces_def make_token_space)

lemma make_token_spaced:
  "lexable acc (map fst ps) \<Longrightarrow> length acc + length ps \<le> NR_TOKENS \<Longrightarrow>
   make_token_from (spaced ps) acc = Inr (True, acc @ map fst ps)"
proof (induction ps arbitrary: acc)
  case Nil
  then show ?case by (subst make_token_from.simps) simp
next
  case (Cons p ps)
  obtain t k where p: "p = (t, k)" by fastforce
  have "make_token_from (spaced (p # ps)) acc =
      make_token_from (CHR '' '' # tok_text t @ spaces (Suc k) @ spaced ps) acc"
    by (simp add: p make_token_space)
  also have "\<dots> = make_token_from (spaces (Suc k) @ spaced ps) (acc @ [t])"
    using Cons.prems p by (intro make_token_step) (auto simp: rest_ok_def spaces_def)
  finally show ?case using Cons p by simp
qed

text \<open>The text is a printing of the tree.\<close>

definition printed :: "ast \<Rightarrow> string \<Rightarrow> bool" where
  "printed e s \<longleftrightarrow> (\<exists>ps. map fst ps = toks e \<and> s = spaced ps)"

lemma expr_printed:
  assumes "printed e s" "ast_wf e" "ast_text_ok e" "length (toks e) \<le> NR_TOKENS"
  shows "expr c rv s m = denote c rv e m"
proof -
  from assms(1) obtain ps where ps: "map fst ps = toks e" "s = spaced ps" by (auto simp: printed_def)
  have "length ps = length (toks e)" using ps(1) by (metis length_map)
  then have "make_token s = Inr (True, toks e)"
    using make_token_spaced [of "[]" ps] lexable_toks [of e "[]"] assms ps by (simp add: make_token_def)
  moreover have "at (toks e) 0 (toks e)" by (simp add: at_def)
  ultimately show ?thesis using eval_toks [OF assms(2), of "toks e" 0 "int (length (toks e)) - 1"]
    by (simp add: expr_def)
qed

section \<open>The tree of a generated expression\<close>

datatype gexp = GNum nat | GPar gexp | GBin gexp token_type gexp

definition num_tok :: "nat \<Rightarrow> token" where
  "num_tok n = \<lparr>ttype = TK_NUM, tstr = dec_text n\<rparr>"

fun gtoks :: "gexp \<Rightarrow> token list" where
  "gtoks (GNum n) = [num_tok n]"
| "gtoks (GPar g) = op_tok TK_LP # gtoks g @ [op_tok TK_RP]"
| "gtoks (GBin l op r) = gtoks l @ op_tok op # gtoks r"

definition gen_ops :: "token_type set" where
  "gen_ops = {TK_PLUS, TK_MINUS, TK_STAR, TK_SLASH}"

fun gexp_ok :: "gexp \<Rightarrow> bool" where
  "gexp_ok (GNum n) \<longleftrightarrow> n < 127"
| "gexp_ok (GPar g) \<longleftrightarrow> gexp_ok g"
| "gexp_ok (GBin l op r) \<longleftrightarrow> gexp_ok l \<and> op \<in> gen_ops \<and> gexp_ok r"

text \<open>
  The generator joins expressions without regard to precedence. The tree its text denotes is
  found by adding one atom after the other at the right place of the right spine.
\<close>

fun snoc_atom :: "ast \<Rightarrow> token_type \<Rightarrow> ast \<Rightarrow> ast" where
  "snoc_atom (ABin op1 l r) op t =
     (if bin_prec op \<le> bin_prec op1 then ABin op (ABin op1 l r) t else ABin op1 l (snoc_atom r op t))"
| "snoc_atom e op t = ABin op e t"

fun ast_of :: "gexp \<Rightarrow> ast" and attach :: "ast \<Rightarrow> token_type \<Rightarrow> gexp \<Rightarrow> ast" where
  "ast_of (GNum n) = ANum (dec_text n)"
| "ast_of (GPar g) = APar (ast_of g)"
| "ast_of (GBin l op r) = attach (ast_of l) op r"
| "attach e op (GNum n) = snoc_atom e op (ANum (dec_text n))"
| "attach e op (GPar g) = snoc_atom e op (APar (ast_of g))"
| "attach e op (GBin l op2 r) = attach (attach e op l) op2 r"

text \<open>The trees that occur: numbers, parentheses and the four operators.\<close>

fun arith :: "ast \<Rightarrow> bool" where
  "arith (ANum s) \<longleftrightarrow> (\<exists>n < 127. s = dec_text n)"
| "arith (APar e) \<longleftrightarrow> arith e"
| "arith (ABin op l r) \<longleftrightarrow> op \<in> gen_ops \<and> arith l \<and> arith r"
| "arith _ \<longleftrightarrow> False"

lemma gen_ops_bin: "op \<in> gen_ops \<Longrightarrow> op \<in> bin_ops \<and> bin_prec op \<le> 6"
  by (auto simp: gen_ops_def bin_ops_def)

lemma toks_snoc [simp]: "toks (snoc_atom e op t) = toks e @ op_tok op # toks t"
  by (induction e op t rule: snoc_atom.induct) auto

lemma prec_snoc: "ast_prec (snoc_atom e op t) \<ge> min (ast_prec e) (bin_prec op)"
  by (induction e op t rule: snoc_atom.induct) auto

lemma arith_snoc: "arith e \<Longrightarrow> arith t \<Longrightarrow> op \<in> gen_ops \<Longrightarrow> arith (snoc_atom e op t)"
  by (induction e op t rule: snoc_atom.induct) auto

lemma wf_snoc:
  "ast_wf e \<Longrightarrow> arith e \<Longrightarrow> ast_wf t \<Longrightarrow> ast_prec t = 8 \<Longrightarrow> op \<in> gen_ops \<Longrightarrow>
   ast_wf (snoc_atom e op t)"
proof (induction e op t rule: snoc_atom.induct)
  case (1 op1 l r op t)
  show ?case
  proof (cases "bin_prec op \<le> bin_prec op1")
    case True
    with 1 gen_ops_bin [of op] show ?thesis by auto
  next
    case False
    with 1 have "ast_wf (snoc_atom r op t)" by auto
    moreover have "bin_prec op1 < ast_prec (snoc_atom r op t)"
      using prec_snoc [of r op t] "1.prems" False by auto
    ultimately show ?thesis using 1 False by auto
  qed
qed (use gen_ops_bin in fastforce)+

lemma ast_of_ok:
  "gexp_ok g \<Longrightarrow> ast_wf (ast_of g) \<and> arith (ast_of g) \<and> toks (ast_of g) = gtoks g"
  "gexp_ok g \<Longrightarrow> ast_wf e \<Longrightarrow> arith e \<Longrightarrow> op \<in> gen_ops \<Longrightarrow>
   ast_wf (attach e op g) \<and> arith (attach e op g) \<and> toks (attach e op g) = toks e @ op_tok op # gtoks g"
proof (induction g and e op g rule: ast_of_attach.induct)
  case (4 e op n)
  then show ?case by (auto simp: num_tok_def intro!: wf_snoc arith_snoc)
next
  case (5 e op g)
  then show ?case by (auto intro!: wf_snoc arith_snoc)
qed (auto simp: num_tok_def)

section \<open>The values of C\<close>

text \<open>
  The value of the expression in C, where every operation is on \<^verbatim>\<open>int\<close>: nothing when a result
  does not fit or a divisor is zero.
\<close>

definition int_range :: "int \<Rightarrow> int option" where
  "int_range v = (if - (2 ^ 31) \<le> v \<and> v < 2 ^ 31 then Some v else None)"

definition c_arith :: "token_type \<Rightarrow> int \<Rightarrow> int \<Rightarrow> int option" where
  "c_arith op a b =
     (if op = TK_PLUS then int_range (a + b)
      else if op = TK_MINUS then int_range (a - b)
      else if op = TK_STAR then int_range (a * b)
      else if b = 0 then None else int_range (a sdiv b))"

fun c_value :: "ast \<Rightarrow> int option" where
  "c_value (ANum s) = Some (int (digits_val 10 s))"
| "c_value (APar e) = c_value e"
| "c_value (ABin op l r) =
     Option.bind (c_value l) (\<lambda>a. Option.bind (c_value r) (\<lambda>b. c_arith op a b))"
| "c_value _ = None"

lemma dec_digit: "k < 10 \<Longrightarrow> is_dig (char_of (48 + k)) \<and> hex_val (char_of (48 + k)) = k"
  by (simp add: is_dig_def hex_val_def char_code_def of_char_of)

lemma dec_text_digits: "dec_text n \<noteq> [] \<and> list_all is_dig (dec_text n)"
proof (induction n rule: dec_text.induct)
  case (1 n)
  then show ?case
    using dec_digit [of n] dec_digit [of "n mod 10"]
    by (subst (1 2) dec_text.simps) (auto simp: list_all_append)
qed

lemma digits_val_dec_text: "digits_val 10 (dec_text n) = n"
proof (induction n rule: dec_text.induct)
  case (1 n)
  then show ?case
    using dec_digit [of n] dec_digit [of "n mod 10"]
    by (subst dec_text.simps) (auto simp: digits_val_def)
qed

lemma length_dec_text: "n < 1000 \<Longrightarrow> length (dec_text n) \<le> 3"
  by (subst dec_text.simps, subst (1) dec_text.simps, subst (1) dec_text.simps) auto

lemma dec_text_num: "n < 127 \<Longrightarrow> num_text (dec_text n)"
  using dec_text_digits [of n] length_dec_text [of n] by (auto simp: num_text_def)

lemma arith_text_ok: "arith e \<Longrightarrow> ast_text_ok e"
  by (induction e rule: arith.induct) (auto simp: dec_text_num)

lemma strtoul_dec_text:
  assumes "n < 127"
  shows "strtoul (dec_text n) (if take 2 (dec_text n) = ''0x'' then 16 else 10) = of_nat n"
proof -
  have d: "\<forall>ch \<in> set (dec_text n). is_dig ch" using dec_text_digits [of n] by (simp add: list_all_iff)
  have "take 2 (dec_text n) \<noteq> ''0x''"
  proof
    assume "take 2 (dec_text n) = ''0x''"
    then have "CHR ''x'' \<in> set (take 2 (dec_text n))" by simp
    then have "CHR ''x'' \<in> set (dec_text n)" by (rule in_set_takeD)
    with d show False by (auto simp: is_dig_def char_code_def)
  qed
  moreover have "takeWhile is_dig (dec_text n) = dec_text n" using d by (simp add: takeWhile_eq_all_conv)
  ultimately show ?thesis using assms by (simp add: strtoul_def digits_val_dec_text Let_def del: takeWhile_eq_all_conv)
qed

lemma int_range_sint: "int_range v = Some w \<Longrightarrow> w = v \<and> sint (word_of_int v :: u32) = v"
  by (auto simp: int_range_def sint_sbintrunc' signed_take_bit_int_eq_self split: if_split_asm)

lemma c_value_range: "arith e \<Longrightarrow> c_value e = Some v \<Longrightarrow> sint (word_of_int v :: u32) = v"
proof (induction e arbitrary: v rule: arith.induct)
  case (1 s)
  then obtain n where "n < 127" "v = int n" by (auto simp: digits_val_dec_text)
  then show ?case using int_range_sint [of v v] by (simp add: int_range_def)
next
  case (3 op l r)
  then show ?case
    by (auto simp: c_arith_def Option.bind_eq_Some_conv dest!: int_range_sint split: if_split_asm)
qed auto

lemma calc2_arith:
  assumes "op \<in> gen_ops" "c_arith op a b = Some v"
    and "sint (word_of_int a :: u32) = a" "sint (word_of_int b :: u32) = b"
  shows "calc2 (word_of_int a :: u32) op (word_of_int b) = Inr (word_of_int v, True)"
proof (cases "op = TK_SLASH")
  case True
  with assms(2) have b: "b \<noteq> 0" and v: "int_range (a sdiv b) = Some v"
    by (auto simp: c_arith_def split: if_split_asm)
  have n: "(word_of_int b :: u32) \<noteq> 0" using b assms(4) by (metis signed_0)
  have "\<not> ((word_of_int a :: u32) = int_min \<and> (word_of_int b :: u32) = -1)"
  proof
    assume "(word_of_int a :: u32) = int_min \<and> (word_of_int b :: u32) = -1"
    then have "sint (word_of_int a :: u32) = sint (int_min :: u32)" "sint (word_of_int b :: u32) = sint (-1 :: u32)"
      by simp_all
    then have "a = - (2 ^ 31)" "b = -1" using assms(3,4) by (simp_all add: int_min_def)
    with v show False by (simp add: int_range_def)
  qed
  with n True assms(3,4) int_range_sint [OF v] show ?thesis by (simp add: calc2_def c_sdiv_def)
next
  case False
  with assms show ?thesis
    by (auto simp: gen_ops_def c_arith_def calc2_def split: if_split_asm dest!: int_range_sint)
qed

lemma denote_c_value:
  "arith e \<Longrightarrow> c_value e = Some v \<Longrightarrow> denote c rv e m = Inr ((word_of_int v :: u32, True), m)"
proof (induction e arbitrary: v rule: arith.induct)
  case (1 s)
  then obtain n where "n < 127" "s = dec_text n" by auto
  moreover have "ucast (of_nat n :: u64) = (of_nat n :: u32)" if "n < 127" for n
    using that by (simp add: unsigned_of_nat take_bit_nat_eq_self)
  ultimately show ?case using 1 strtoul_dec_text by (auto simp: digits_val_dec_text)
next
  case (3 op l r)
  then obtain a b where ab: "c_value l = Some a" "c_value r = Some b" "c_arith op a b = Some v"
    by (auto simp: Option.bind_eq_Some_conv)
  moreover have "calc2 (word_of_int a :: u32) op (word_of_int b) = Inr (word_of_int v, True)"
    using ab 3 by (intro calc2_arith [OF _ ab(3)]) (auto intro: c_value_range)
  ultimately show ?case using 3 by simp
qed auto

section \<open>What the generator writes\<close>

text \<open>
  \<open>wrote s s' t\<close>: if \<open>w\<close> is written up to \<open>buf_start\<close> before, the string is \<open>w @ t\<close> afterwards,
  unless the buffer has become full.
\<close>

definition full :: "gen_state \<Rightarrow> bool" where
  "full s \<longleftrightarrow> buf_start s = BUF_SIZE"

definition wrote :: "gen_state \<Rightarrow> gen_state \<Rightarrow> string \<Rightarrow> bool" where
  "wrote s s' t \<longleftrightarrow> (full s \<longrightarrow> full s') \<and> (\<not> full s' \<longrightarrow>
     (\<forall>w. buf_start s = length w \<and> take (length w) (gbuf s) = w \<longrightarrow>
        buf_start s' = length (w @ t) \<and> gbuf s' = w @ t))"

lemma wrote_rands [simp]: "wrote (s\<lparr>rands := x\<rparr>) s' t = wrote s s' t"
  by (simp add: wrote_def full_def)

lemma wrote_trans:
  assumes "wrote s s1 t1" "wrote s1 s2 t2"
  shows "wrote s s2 (t1 @ t2)"
proof -
  have "buf_start s2 = length (w @ t1 @ t2) \<and> gbuf s2 = w @ t1 @ t2"
    if n: "\<not> full s2" and w: "buf_start s = length w" "take (length w) (gbuf s) = w" for w
  proof -
    have s1: "buf_start s1 = length (w @ t1)" "gbuf s1 = w @ t1"
      using assms n w by (auto simp: wrote_def)
    then have "take (length (w @ t1)) (gbuf s1) = w @ t1" by simp
    with assms(2) n s1(1) have "buf_start s2 = length ((w @ t1) @ t2) \<and> gbuf s2 = (w @ t1) @ t2"
      unfolding wrote_def by blast
    then show ?thesis by simp
  qed
  with assms show ?thesis by (auto simp: wrote_def)
qed

lemma store_advance:
  assumes "(if buf_start s < BUF_SIZE then advance (length t) (store_text t s) else Inr s) = Inr s'"
    and "buf_start s \<le> BUF_SIZE"
  shows "wrote s s' t \<and> buf_start s' \<le> BUF_SIZE"
proof (cases "buf_start s < BUF_SIZE")
  case True
  with assms(1) have a: "buf_start s + length t \<le> BUF_SIZE" "s' = (store_text t s)\<lparr>buf_start := buf_start s + length t\<rparr>"
    by (auto simp: advance_def store_text_def elim!: resE)
  with True show ?thesis by (auto simp: wrote_def full_def store_text_def)
next
  case False
  with assms show ?thesis by (auto simp: wrote_def full_def)
qed

lemma gen_space_wrote:
  assumes "gen_space rnd s = Inr s'" "buf_start s \<le> BUF_SIZE"
  shows "(\<exists>n. wrote s s' (spaces (Suc n))) \<and> buf_start s' \<le> BUF_SIZE"
proof -
  let ?n = "rnd (rands s) mod 5" and ?s = "s\<lparr>rands := Suc (rands s)\<rparr>"
  have "(if buf_start ?s < BUF_SIZE
      then advance (length (spaces (max ?n 1))) (store_text (spaces (max ?n 1)) ?s) else Inr ?s) = Inr s'"
    using assms(1) by (auto simp: gen_space_def choose_c_def Let_def spaces_def split: if_split_asm)
  then have "wrote s s' (spaces (max ?n 1)) \<and> buf_start s' \<le> BUF_SIZE"
    using store_advance [of ?s "spaces (max ?n 1)" s'] assms(2) by simp
  moreover have "max ?n 1 = Suc (max ?n 1 - 1)" by simp
  ultimately show ?thesis by metis
qed

lemma spaced_wrote:
  assumes "wrote s s1 t" "gen_space rnd s1 = Inr s'" "buf_start s1 \<le> BUF_SIZE"
  shows "(\<exists>n. wrote s s' (t @ spaces (Suc n))) \<and> buf_start s' \<le> BUF_SIZE"
  using gen_space_wrote [OF assms(2,3)] wrote_trans [OF assms(1)] by blast

lemma gen_num_wrote:
  assumes "gen_num rnd s = Inr s'" "buf_start s \<le> BUF_SIZE"
  shows "(\<exists>v n. v < 127 \<and> wrote s s' (dec_text v @ spaces (Suc n))) \<and> buf_start s' \<le> BUF_SIZE"
proof -
  let ?v = "rnd (rands s) mod 127" and ?s = "s\<lparr>rands := Suc (rands s)\<rparr>"
  from assms(1) obtain s1 where
    1: "(if buf_start ?s < BUF_SIZE then advance (length (dec_text ?v)) (store_text (dec_text ?v) ?s)
         else Inr ?s) = Inr s1" and 2: "gen_space rnd s1 = Inr s'"
    by (auto simp: gen_num_def choose_c_def Let_def elim!: bindR_InrE simp del: dec_text.simps)
  from store_advance [OF 1] assms(2) have "wrote s s1 (dec_text ?v)" "buf_start s1 \<le> BUF_SIZE" by simp_all
  from spaced_wrote [OF this(1) 2 this(2)] show ?thesis by (metis mod_less_divisor zero_less_numeral)
qed

lemma gen_char_wrote:
  assumes "gen_char rnd ch s = Inr s'" "buf_start s \<le> BUF_SIZE"
  shows "(\<exists>n. wrote s s' (ch # spaces (Suc n))) \<and> buf_start s' \<le> BUF_SIZE"
proof -
  from assms(1) obtain s1 where
    1: "(if buf_start s < BUF_SIZE then advance (length [ch]) (store_text [ch] s) else Inr s) = Inr s1"
    and 2: "gen_space rnd s1 = Inr s'"
    by (auto simp: gen_char_def store_text_def Let_def elim!: bindR_InrE split: if_split_asm)
  from store_advance [OF 1 assms(2)] have "wrote s s1 [ch]" "buf_start s1 \<le> BUF_SIZE" by simp_all
  from spaced_wrote [OF this(1) 2 this(2)] show ?thesis by simp
qed

lemma ops_text:
  assumes "i < 4"
  obtains op where "op \<in> gen_ops" "tok_text (op_tok op) = [ops ! i]"
proof -
  have "i \<in> {0, 1, 2, 3}" using assms by auto
  then have "\<exists>op \<in> gen_ops. tok_text (op_tok op) = [ops ! i]"
    by (auto simp: ops_def gen_ops_def tok_text_def op_tok_def)
  with that show ?thesis by blast
qed

lemma gen_rand_op_wrote:
  assumes "gen_rand_op rnd s = Inr s'" "buf_start s \<le> BUF_SIZE"
  shows "(\<exists>op n. op \<in> gen_ops \<and> wrote s s' (spaced [(op_tok op, n)])) \<and> buf_start s' \<le> BUF_SIZE"
proof -
  let ?i = "rnd (rands s) mod 4" and ?s = "s\<lparr>rands := Suc (rands s)\<rparr>"
  from assms(1) obtain s1 where 1: "gen_char rnd (ops ! ?i) ?s = Inr s1" and 2: "gen_space rnd s1 = Inr s'"
    by (auto simp: gen_rand_op_def choose_c_def elim!: bindR_InrE)
  from gen_char_wrote [OF 1] assms(2) obtain n where n: "wrote s s1 ((ops ! ?i) # spaces (Suc n))"
    and b: "buf_start s1 \<le> BUF_SIZE" by auto
  from spaced_wrote [OF n 2 b] obtain n' where
    "wrote s s' ((ops ! ?i) # spaces (Suc n) @ spaces (Suc n'))" and b': "buf_start s' \<le> BUF_SIZE" by auto
  moreover have "spaces (Suc n) @ spaces (Suc n') = spaces (Suc (n + n' + 1))"
    by (simp only: spaces_append) simp
  moreover obtain op where "op \<in> gen_ops" "tok_text (op_tok op) = [ops ! ?i]" by (rule ops_text [of ?i]) simp_all
  ultimately have "op \<in> gen_ops \<and> wrote s s' (spaced [(op_tok op, n + n' + 1)])" by simp
  with b' show ?thesis by blast
qed

lemma gen_rand_expr_wrote:
  "gen_rand_expr rnd k s = Inr s' \<Longrightarrow> buf_start s \<le> BUF_SIZE \<Longrightarrow>
   (\<exists>g ps. gexp_ok g \<and> map fst ps = gtoks g \<and> wrote s s' (spaced ps)) \<and> buf_start s' \<le> BUF_SIZE"
proof (induction rnd k s arbitrary: s' rule: gen_rand_expr.induct)
  case (2 rnd k s)
  let ?i = "rnd (rands s) mod 3" and ?s = "s\<lparr>rands := Suc (rands s)\<rparr>"
  have c: "choose_c rnd 3 s = (?i, ?s)" by (simp add: choose_c_def)
  have b: "buf_start ?s \<le> BUF_SIZE" using "2.prems"(2) by simp
  consider (num) "?i = 0" | (par) "?i = 1" | (bin) "?i \<noteq> 0" "?i \<noteq> 1" by blast
  then show ?case
  proof cases
    case num
    with "2.prems"(1) have "gen_num rnd ?s = Inr s'" by (simp add: choose_c_def)
    from gen_num_wrote [OF this b] obtain v n where "v < 127" "wrote s s' (dec_text v @ spaces (Suc n))"
      "buf_start s' \<le> BUF_SIZE" by auto
    then have "gexp_ok (GNum v) \<and> map fst [(num_tok v, n)] = gtoks (GNum v) \<and> wrote s s' (spaced [(num_tok v, n)])"
      by (simp add: num_tok_def tok_text_def)
    with \<open>buf_start s' \<le> BUF_SIZE\<close> show ?thesis by blast
  next
    case par
    with "2.prems"(1) obtain s1 s2 where 1: "gen_char rnd (CHR ''('') ?s = Inr s1"
      and 2: "gen_rand_expr rnd k s1 = Inr s2" and 3: "gen_char rnd (CHR '')'') s2 = Inr s'"
      by (auto simp: choose_c_def elim!: bindR_InrE)
    from gen_char_wrote [OF 1 b] obtain n1 where w1: "wrote s s1 (CHR ''('' # spaces (Suc n1))"
      and b1: "buf_start s1 \<le> BUF_SIZE" by auto
    from "2.IH"(1) [OF refl c [symmetric] _ _ 1 2 b1] par obtain g ps where g: "gexp_ok g" "map fst ps = gtoks g"
      and w2: "wrote s1 s2 (spaced ps)" and b2: "buf_start s2 \<le> BUF_SIZE" by auto
    from gen_char_wrote [OF 3 b2] obtain n3 where w3: "wrote s2 s' (CHR '')'' # spaces (Suc n3))"
      and b3: "buf_start s' \<le> BUF_SIZE" by auto
    let ?ps = "(op_tok TK_LP, n1) # ps @ [(op_tok TK_RP, n3)]"
    have "wrote s s' (spaced ?ps)"
      using wrote_trans [OF w1 wrote_trans [OF w2 w3]] by (simp add: tok_text_def op_tok_def)
    with g have "gexp_ok (GPar g) \<and> map fst ?ps = gtoks (GPar g) \<and> wrote s s' (spaced ?ps)" by simp
    with b3 show ?thesis by blast
  next
    case bin
    with "2.prems"(1) obtain s1 s2 where 1: "gen_rand_expr rnd k ?s = Inr s1"
      and 2: "gen_rand_op rnd s1 = Inr s2" and 3: "gen_rand_expr rnd k s2 = Inr s'"
      by (auto simp: choose_c_def elim!: bindR_InrE)
    from "2.IH"(2) [OF refl c [symmetric] _ _ 1 b] bin obtain g1 ps1 where g1: "gexp_ok g1" "map fst ps1 = gtoks g1"
      and w1: "wrote s s1 (spaced ps1)" and b1: "buf_start s1 \<le> BUF_SIZE" by auto
    from gen_rand_op_wrote [OF 2 b1] obtain op n where op: "op \<in> gen_ops"
      and w2: "wrote s1 s2 (spaced [(op_tok op, n)])" and b2: "buf_start s2 \<le> BUF_SIZE" by auto
    from "2.IH"(3) [OF refl c [symmetric] _ _ 1 2 3 b2] bin obtain g2 ps2 where g2: "gexp_ok g2" "map fst ps2 = gtoks g2"
      and w3: "wrote s2 s' (spaced ps2)" and b3: "buf_start s' \<le> BUF_SIZE" by auto
    let ?ps = "ps1 @ [(op_tok op, n)] @ ps2"
    have "wrote s s' (spaced ?ps)"
      using wrote_trans [OF w1 wrote_trans [OF w2 w3]] by simp
    with g1 g2 op have "gexp_ok (GBin g1 op g2) \<and> map fst ?ps = gtoks (GBin g1 op g2) \<and> wrote s s' (spaced ?ps)" by simp
    with b3 show ?thesis by blast
  qed
qed simp

text \<open>Generation, and what the debugger makes of the text.\<close>

lemma generated:
  assumes "gen_rand_expr rnd k s = Inr s'" "buf_start s = 0" "buf_start s' \<noteq> BUF_SIZE"
  shows "\<exists>e. printed e (gbuf s') \<and> ast_wf e \<and> arith e \<and> length (gbuf s') < BUF_SIZE \<and>
    expr c rv (gbuf s') m = denote c rv e m"
proof -
  from gen_rand_expr_wrote [OF assms(1)] assms(2) obtain g ps where g: "gexp_ok g" "map fst ps = gtoks g"
    and w: "wrote s s' (spaced ps)" and b: "buf_start s' \<le> BUF_SIZE" by auto
  have t: "gbuf s' = spaced ps" "length (gbuf s') < BUF_SIZE"
    using w assms(2,3) b by (auto simp: wrote_def full_def)
  note e = ast_of_ok(1) [OF g(1)]
  have p: "printed (ast_of g) (gbuf s')" using e g(2) t by (auto simp: printed_def)
  have "length (toks (ast_of g)) \<le> NR_TOKENS" if "length ps \<le> length (spaced ps)"
  proof -
    have "length (toks (ast_of g)) = length ps" using e g(2) by (metis length_map)
    with that t show ?thesis by (simp add: NR_TOKENS_def BUF_SIZE_def)
  qed
  moreover have "length ps \<le> length (spaced ps)"
    by (induction ps) (auto simp: spaces_def)
  ultimately have "expr c rv (gbuf s') m = denote c rv (ast_of g) m"
    using expr_printed [OF p] e arith_text_ok by blast
  with p e t show ?thesis by blast
qed

end
