(* ===== verification/Run_Properties.thy ===== *)
theory Run_Properties
  imports Samples Gen_Expr_Correct
begin

text \<open>
  Properties of a run: the execution loop, the instruction trace, differential testing, and the
  debugger's expressions and watchpoints, with their witnesses.
\<close>

section \<open>Expressions\<close>

text \<open>
  C1: the debugger's expression evaluator computes the value of the expression: for every
  syntax tree over numbers, registers, the unary and the left-associative binary operators with
  the precedences of C, lexing, parsing by main operators and evaluating the printed tree gives
  what the tree denotes, faults and failed lookups included.
\<close>
theorem expr_evaluates:
  assumes "ast_wf e" "ast_text_ok e" "length (toks e) \<le> NR_TOKENS"
  shows "expr c rv (text_of (toks e)) m = denote c rv e m"
  using assms by (rule expr_text)

theorem expr_evaluates_witness:
  "expr sample_config rv32_isa_reg_str2val '' 8 - 3 - 0x2 * ( 1 + 1 )'' (sample_machine []) =
     Inr ((1, True), sample_machine [])"
proof -
  let ?e = "ABin TK_MINUS (ABin TK_MINUS (ANum ''8'') (ANum ''3''))
     (ABin TK_STAR (ANum ''0x2'') (APar (ABin TK_PLUS (ANum ''1'') (ANum ''1''))))"
  have "ast_wf ?e" "ast_text_ok ?e" "text_of (toks ?e) = '' 8 - 3 - 0x2 * ( 1 + 1 )''"
    by - code_simp+
  moreover have "length (toks ?e) \<le> NR_TOKENS" by (simp add: NR_TOKENS_def)
  moreover have "denote sample_config rv32_isa_reg_str2val ?e (sample_machine []) =
      Inr ((1, True), sample_machine [])"
  proof -
    have "strtoul ''8'' 10 = 8" "strtoul ''3'' 10 = 3" "strtoul ''0x2'' 16 = 2" "strtoul ''1'' 10 = 1"
      by (simp_all add: strtoul_def digits_val_def run_len_def is_hex_def is_dig_def hex_val_def
          char_code_def Let_def)
    then show ?thesis by (simp add: calc2_def)
  qed
  ultimately show ?thesis
    using expr_evaluates [of ?e sample_config rv32_isa_reg_str2val "sample_machine []"] by simp
qed

text \<open>
  C21: the generator of test expressions and the evaluator agree: whatever numbers \<^verbatim>\<open>rand\<close> gives,
  the text it leaves in a buffer that has not become full is the printing of an arithmetic
  expression, the program around it fits \<^verbatim>\<open>code_buf\<close>, and where the \<^verbatim>\<open>int\<close> arithmetic of C gives
  that expression a value, the debugger evaluates the text to it.
\<close>
theorem generated_expressions_agree:
  assumes "gen_rand_expr rnd k s = Inr s'" "buf_start s = 0" "buf_start s' \<noteq> BUF_SIZE"
  shows "\<exists>e. printed e (gbuf s') \<and> ast_wf e \<and> arith e \<and> length (code_of (gbuf s')) < BUF_SIZE + 128 \<and>
    (\<forall>v. c_value e = Some v \<longrightarrow> expr c rv (gbuf s') m = Inr ((word_of_int v :: u32, True), m))"
proof -
  obtain e where e: "printed e (gbuf s')" "ast_wf e" "arith e" "length (gbuf s') < BUF_SIZE"
    "expr c rv (gbuf s') m = denote c rv e m"
    using generated [OF assms] by blast
  moreover have "length (code_of (gbuf s')) = 90 + length (gbuf s')" by (simp add: code_of_def)
  ultimately show ?thesis by (intro exI [of _ e]) (simp add: denote_c_value)
qed

text \<open>A sum of two numbers.\<close>

definition sample_rand :: "nat \<Rightarrow> nat" where
  "sample_rand i = [2, 0, 7, 0, 0, 1, 2, 0, 132, 3] ! i"

definition sample_gen :: gen_state where
  "sample_gen = \<lparr>gbuf = [], buf_start = 0, rands = 0\<rparr>"

theorem generated_expressions_agree_witness:
  "\<exists>s' e. gen_rand_expr sample_rand 2 sample_gen = Inr s' \<and> gbuf s' = ''7 +   5   '' \<and> printed e ''7 +   5   '' \<and>
     (\<forall>v. c_value e = Some v \<longrightarrow> expr sample_config rv32_isa_reg_str2val ''7 +   5   '' (sample_machine []) =
        Inr ((word_of_int v, True), sample_machine []))"
proof -
  have d: "dec_text 7 = ''7''" "dec_text 5 = ''5''" by - code_simp+
  have "\<exists>s'. gen_rand_expr sample_rand 2 sample_gen = Inr s' \<and> gbuf s' = ''7 +   5   '' \<and> buf_start s' = 10"
    by (simp add: numeral_2_eq_2 choose_c_def sample_rand_def sample_gen_def gen_num_def gen_space_def
        gen_rand_op_def gen_char_def store_text_def advance_def BUF_SIZE_def ops_def d Let_def)
  then obtain s' where s': "gen_rand_expr sample_rand 2 sample_gen = Inr s'" "gbuf s' = ''7 +   5   ''"
    "buf_start s' = 10" by blast
  then show ?thesis
    using generated_expressions_agree [OF s'(1), of sample_config rv32_isa_reg_str2val "sample_machine []"]
    by (simp add: sample_gen_def BUF_SIZE_def) blast
qed

text \<open>The operators \<^verbatim>\<open><=\<close> and \<^verbatim>\<open>>=\<close> are never lexed: the rules for \<^verbatim>\<open><\<close> and \<^verbatim>\<open>>\<close> precede theirs.\<close>

theorem le_ge_never_lexed:
  "first_rule rules s \<noteq> Some (TK_LE, n) \<and> first_rule rules s \<noteq> Some (TK_GE, n)"
  by (auto simp: rules_def m_lit_def take_Suc_conv_app_nth split: option.split if_split) (cases s; simp)+

section \<open>Watchpoints\<close>

text \<open>
  C7: the pool of watchpoints is an allocator. In a state in which the two linked lists partition
  the pool, a new node is one that was not in use, it is put in front of the list, and it is
  refused (NEMU stops) exactly when all 32 are in use. Freeing a node, wherever it is in the list,
  takes it and nothing else out of the list, the others staying in order, and puts it in front of
  the free ones; freeing no node, or one that is not in the list of others, stops NEMU. The
  partition is kept throughout.
\<close>
theorem watchpoint_pool:
  assumes "wp_inv s"
  shows "(if length (wp_live s) < NR_WP
      then \<exists>x s'. new_wp s = Inr (x, s') \<and> x \<notin> set (wp_live s) \<and> x < NR_WP \<and> wp_inv s' \<and>
        wp_live s' = x # wp_live s \<and> wp_avail s = x # wp_avail s'
      else new_wp s = Inl AssertFail) \<and>
    (\<forall>us x vs. wp_live s = us @ x # vs \<longrightarrow>
      (\<exists>s'. free_wp (Some x) s = Inr s' \<and> wp_inv s' \<and> wp_live s' = us @ vs \<and> wp_avail s' = x # wp_avail s)) \<and>
    free_wp None s = Inl AssertFail \<and>
    (\<forall>x. x \<notin> set (wp_live s) \<longrightarrow> wp_live s \<noteq> [] \<longrightarrow> free_wp (Some x) s = Inl AssertFail)"
proof (intro conjI allI impI)
  show "if length (wp_live s) < NR_WP
      then \<exists>x s'. new_wp s = Inr (x, s') \<and> x \<notin> set (wp_live s) \<and> x < NR_WP \<and> wp_inv s' \<and>
        wp_live s' = x # wp_live s \<and> wp_avail s = x # wp_avail s'
      else new_wp s = Inl AssertFail"
    by (rule wps.alloc_cases [OF assms])
  show "\<exists>s'. free_wp (Some x) s = Inr s' \<and> wp_inv s' \<and> wp_live s' = us @ vs \<and> wp_avail s' = x # wp_avail s"
    if "wp_live s = us @ x # vs" for us x vs
    using wps.release_middle [OF assms that] .
  show "free_wp None s = Inl AssertFail" by (simp add: free_wp_def)
  show "free_wp (Some x) s = Inl AssertFail" if "x \<notin> set (wp_live s)" "wp_live s \<noteq> []" for x
    using free_wp_foreign [OF assms that] .
qed

text \<open>Of three watchpoints the one in the middle is freed.\<close>

theorem watchpoint_pool_witness:
  "\<exists>s s' :: u32 wp_state. wp_live s = [2, 1, 0] \<and> free_wp (Some 1) s = Inr s' \<and> wp_live s' = [2, 0] \<and>
     wp_avail s' = 1 # [3..<NR_WP] \<and> free_wp (Some 1) s' = Inl AssertFail"
proof -
  have "\<exists>s :: u32 wp_state. wp_inv s \<and> wp_live s = rev [0..<n] \<and> wp_avail s = [n..<NR_WP]" if "n \<le> 3" for n
    using that
  proof (induction n)
    case 0
    then show ?case using init_wp_pool_inv [of sample_wps] by (intro exI [of _ "init_wp_pool sample_wps"]) (simp add: sample_wps_def NR_WP_def)
  next
    case (Suc n)
    then obtain s :: "u32 wp_state" where s: "wp_inv s" "wp_live s = rev [0..<n]" "wp_avail s = [n..<NR_WP]" by auto
    have "[n..<NR_WP] = n # [Suc n..<NR_WP]" using Suc.prems by (simp add: upt_conv_Cons NR_WP_def)
    with watchpoint_pool [OF s(1)] s Suc.prems show ?case by (fastforce simp: NR_WP_def)
  qed
  from this [of 3] obtain s :: "u32 wp_state" where s: "wp_inv s" "wp_live s = [2] @ 1 # [0]" "wp_avail s = [3..<NR_WP]"
    by (auto simp: upt_rec)
  from watchpoint_pool [OF s(1), THEN conjunct2, THEN conjunct1, rule_format, OF s(2)] s(3) obtain s'
    where s': "free_wp (Some 1) s = Inr s'" "wp_inv s'" "wp_live s' = [2, 0]" "wp_avail s' = 1 # [3..<NR_WP]" by auto
  moreover have "free_wp (Some 1) s' = Inl AssertFail" using watchpoint_pool [OF s'(2), THEN conjunct2, THEN conjunct2, THEN conjunct2] s'(3) by simp
  ultimately show ?thesis using s(2) by (intro exI [of _ s] exI [of _ s']) simp
qed

text \<open>
  Deleting a watchpoint by its number removes exactly it from the list, the others staying
  in order, provided that number 31 is not in use (or is the one deleted).
\<close>
lemma watchpoint_delete:
  assumes "wp_inv s" "x \<in> set (wp_live s)" "NR_WP - 1 \<in> set (wp_live s) \<Longrightarrow> x = NR_WP - 1"
  shows "\<exists>s'. wp_delete (int x) s = Inr s' \<and> wp_inv s' \<and> wp_live s' = remove1 x (wp_live s)"
  using assms by (rule wp_delete_live)

text \<open>
  Deleting a number that is not in use, while number 31 is, deletes number 31: the search
  stops at the last node of the pool without comparing its number.
\<close>
theorem watchpoint_delete_wrong:
  assumes "wp_inv s" "NR_WP - 1 \<in> set (wp_live s)" "no < int NR_WP" "no \<notin> int ` set (wp_live s)"
  shows "\<exists>s'. wp_delete no s = Inr s' \<and> wp_live s' = remove1 (NR_WP - 1) (wp_live s)"
  using assms by (rule wp_delete_wrong)

section \<open>The execution loop\<close>





text \<open>
  C5: register \<^verbatim>\<open>x0\<close> of the RV32 core is zero, and the register file keeps its size, after
  every run, of any length and over any program, with differential testing and watchpoints on
  or off.
\<close>
theorem rv32_x0_zero:
  assumes "g_step G = rv32_isa_exec_once k" "cpu_exec c dc G n d st = Inr st'"
    and "length (gpr (cpu (mach st))) = rv_reg_count k" "gpr (cpu (mach st)) ! 0 = 0"
  shows "length (gpr (cpu (mach st'))) = rv_reg_count k \<and> gpr (cpu (mach st')) ! 0 = 0"
  using rv32.cpu_exec_regs [OF assms(1,2)] assms(3,4) by (simp add: rv32.regs_ok_def)

theorem rv32_x0_zero_witness:
  "\<exists>st'. cpu_exec sample_config sample_devices sample_guest 3 sample_decode (sample_exec ebreak_bytes) =
       Inr st' \<and> gpr (cpu (mach st')) ! 0 = 0"
proof -
  obtain st' where r: "cpu_exec sample_config sample_devices sample_guest 3 sample_decode
      (sample_exec ebreak_bytes) = Inr st'" by (rule sample_ebreak_run)
  have "sample_regs ! 0 = 0" by code_simp
  with rv32_x0_zero [OF _ r, of sample_config] r show ?thesis
    by (simp add: sample_guest_def rv_reg_count_def)
qed

text \<open>
  C17: register 0 of the RV64, MIPS32 and LoongArch32r guests is zero, and their register files
  keep their sizes, after every run of \<^verbatim>\<open>cpu_exec\<close> that starts so.
\<close>
theorem other_guests_x0_zero:
  "(g_step G64 = rv64_isa_exec_once k \<longrightarrow> cpu_exec c dc G64 n d64 s64 = Inr s64' \<longrightarrow>
      length (gpr (cpu (mach s64))) = rv_reg_count k \<and> gpr (cpu (mach s64)) ! 0 = 0 \<longrightarrow>
      length (gpr (cpu (mach s64'))) = rv_reg_count k \<and> gpr (cpu (mach s64')) ! 0 = 0) \<and>
   (g_step Gm = mips32_isa_exec_once k \<longrightarrow> cpu_exec c dc Gm n dm sm = Inr sm' \<longrightarrow>
      length (gpr (cpu (mach sm))) = 32 \<and> gpr (cpu (mach sm)) ! 0 = 0 \<longrightarrow>
      length (gpr (cpu (mach sm'))) = 32 \<and> gpr (cpu (mach sm')) ! 0 = 0) \<and>
   (g_step Gl = la_isa_exec_once k \<longrightarrow> cpu_exec c dc Gl n dl sl = Inr sl' \<longrightarrow>
      length (gpr (cpu (mach sl))) = 32 \<and> gpr (cpu (mach sl)) ! 0 = 0 \<longrightarrow>
      length (gpr (cpu (mach sl'))) = 32 \<and> gpr (cpu (mach sl')) ! 0 = 0)"
  using rv64.cpu_exec_regs [of G64 k c dc n d64 s64 s64'] mips32.cpu_exec_regs [of Gm k c dc n dm sm sm']
    la.cpu_exec_regs [of Gl k c dc n dl sl sl']
  by (auto simp: rv64.regs_ok_def mips32.regs_ok_def la.regs_ok_def)

text \<open>Each guest executes one instruction, which writes a constant that is not zero to register 0.\<close>

theorem other_guests_x0_zero_witness:
  "let k64 = \<lparr>gpr = replicate 32 0, pc = 0x30000000\<rparr> :: u64 cpu_state;
       km = \<lparr>gpr = replicate 32 0, pc = 0x30000000, pad = []\<rparr> :: mips32_CPU_state;
       kl = \<lparr>gpr = replicate 32 0, pc = 0x30000000\<rparr> :: u32 cpu_state
   in (\<exists>st'. cpu_exec sample_config sample_devices (idle_guest (rv64_isa_exec_once sample_config) k64) 1
         undecoded (flash_state li_zero_bytes k64) = Inr st' \<and>
         g_nr_guest_inst st' = 1 \<and> pc (cpu (mach st')) = 0x30000004 \<and> gpr (cpu (mach st')) ! 0 = 0) \<and>
      (\<exists>st'. cpu_exec sample_config sample_devices (idle_guest (mips32_isa_exec_once sample_config) km) 1
         undecoded (flash_state lui_zero_bytes km) = Inr st' \<and>
         g_nr_guest_inst st' = 1 \<and> pc (cpu (mach st')) = 0x30000004 \<and> gpr (cpu (mach st')) ! 0 = 0) \<and>
      (\<exists>st'. cpu_exec sample_config sample_devices (idle_guest (la_isa_exec_once sample_config) kl) 1
         undecoded (flash_state pcaddu_zero_bytes kl) = Inr st' \<and>
         g_nr_guest_inst st' = 1 \<and> pc (cpu (mach st')) = 0x30000004 \<and> gpr (cpu (mach st')) ! 0 = 0)"
proof -
  let ?k64 = "\<lparr>gpr = replicate 32 0, pc = 0x30000000\<rparr> :: u64 cpu_state"
  let ?km = "\<lparr>gpr = replicate 32 0, pc = 0x30000000, pad = []\<rparr> :: mips32_CPU_state"
  let ?kl = "\<lparr>gpr = replicate 32 0, pc = 0x30000000\<rparr> :: u32 cpu_state"
  let ?G64 = "idle_guest (rv64_isa_exec_once sample_config) ?k64" and ?s64 = "flash_state li_zero_bytes ?k64"
  let ?Gm = "idle_guest (mips32_isa_exec_once sample_config) ?km" and ?sm = "flash_state lui_zero_bytes ?km"
  let ?Gl = "idle_guest (la_isa_exec_once sample_config) ?kl" and ?sl = "flash_state pcaddu_zero_bytes ?kl"
  have runs_li: "steps_on (rv64_isa_exec_once sample_config) li_zero_bytes ?k64" by (rule li_zero_steps) simp_all
  have runs_lui: "steps_on (mips32_isa_exec_once sample_config) lui_zero_bytes ?km" by (rule lui_zero_steps) simp_all
  have runs_pcaddu: "steps_on (la_isa_exec_once sample_config) pcaddu_zero_bytes ?kl" by (rule pcaddu_zero_steps) simp_all
  obtain a where a: "cpu_exec sample_config sample_devices ?G64 1 undecoded ?s64 = Inr a"
    "g_nr_guest_inst a = 1" "pc (cpu (mach a)) = pc ?k64 + 4" by (rule one_step_run [OF runs_li])
  obtain b where b: "cpu_exec sample_config sample_devices ?Gm 1 undecoded ?sm = Inr b"
    "g_nr_guest_inst b = 1" "pc (cpu (mach b)) = pc ?km + 4" by (rule one_step_run [OF runs_lui])
  obtain l where l: "cpu_exec sample_config sample_devices ?Gl 1 undecoded ?sl = Inr l"
    "g_nr_guest_inst l = 1" "pc (cpu (mach l)) = pc ?kl + 4" by (rule one_step_run [OF runs_pcaddu])
  have "gpr (cpu (mach a)) ! 0 = 0 \<and> gpr (cpu (mach b)) ! 0 = 0 \<and> gpr (cpu (mach l)) ! 0 = 0"
    using other_guests_x0_zero [of ?G64 sample_config sample_config sample_devices 1 undecoded
        ?s64 a ?Gm undecoded ?sm b ?Gl undecoded ?sl l] a(1) b(1) l(1)
    by (simp add: idle_guest_def flash_state_def rv_reg_count_def)
  with a b l show ?thesis by (simp add: Let_def)
qed

section \<open>The instruction trace\<close>

text \<open>
  C15: the ring buffer holds the last sixteen instructions: after any log \<open>xs\<close> of executed
  instructions one more is recorded, and printing shows the last sixteen, oldest first, with
  the arrow on the latest (where no traced address is zero); with its index on the last slot
  printing reads behind the end of the buffer instead.
\<close>
theorem instruction_ring:
  assumes "ring_log st xs"
  shows "(\<exists>st'. trace_inst p i st = Inr st' \<and> ring_log st' (xs @ [(p, i)])) \<and>
    (length xs mod INST_NUM = INST_NUM - 1 \<longrightarrow> display_inst st = Inl Undef) \<and>
    (INST_NUM \<le> length xs \<and> length xs mod INST_NUM \<noteq> INST_NUM - 1 \<and> (\<forall>x \<in> set xs. fst x \<noteq> 0) \<longrightarrow>
       display_inst st = Inr (map (\<lambda>u. (u = INST_NUM - 1, xs ! (length xs - INST_NUM + u))) [0..<INST_NUM]))"
  using ring_log_snoc [OF assms] display_inst_last [OF assms] display_inst_overrun [of st] assms
  by (auto simp: ring_log_def)

theorem instruction_ring_witness:
  "\<exists>st'. trace_inst 0x30000000 0x00b50533 (sample_exec []) = Inr st' \<and>
     ring_log st' [(0x30000000, 0x00b50533)]"
  using instruction_ring [of "sample_exec []" "[]" "0x30000000" "0x00b50533"]
  by (auto simp: ring_log_def sample_exec_def INST_NUM_def)

section \<open>Differential testing\<close>

text \<open>
  C13: a step that is compared with the reference leaves the machine alone exactly if the
  reference, after one instruction of its own, has the same 32 general registers; otherwise it
  aborts the run at the instruction. Program counter and CSRs are not compared.
\<close>
theorem difftest_detects:
  assumes "skip_dut_nr_inst (nsys m) \<le> 0" "\<not> is_skip_ref (nsys m)"
    and "length (gpr (cpu m)) = 32" "length (gpr (ref_regcpy_to_dut R (ref_exec1 R r))) = 32"
  shows "difftest_step rv32_isa_difftest_checkregs R pc0 npc m r =
    Inr (if gpr (cpu m) = gpr (ref_regcpy_to_dut R (ref_exec1 R r)) then m
         else upd_sys (\<lambda>s. s\<lparr>nemu := (nemu s)\<lparr>nstate := NEMU_ABORT, halt_pc := pc0\<rparr>\<rparr>) m,
         ref_exec1 R r)"
  using difftest_step_plain [of m rv32_isa_difftest_checkregs R r pc0, OF assms(1,2)
      rv32_checkregs_iff [OF assms(3,4)]] .

theorem difftest_detects_witness:
  "\<exists>m. difftest_step rv32_isa_difftest_checkregs sample_ref 0x30000000 0x30000004
       (sample_machine []) ((cpu (sample_machine []))\<lparr>gpr := replicate 32 1\<rparr>) =
       Inr (m, (cpu (sample_machine []))\<lparr>gpr := replicate 32 1\<rparr>) \<and>
     nstate (nemu (nsys m)) = NEMU_ABORT \<and> halt_pc (nemu (nsys m)) = 0x30000000"
proof -
  have "sample_regs \<noteq> replicate 32 1" by code_simp
  then show ?thesis
    using difftest_detects [of "sample_machine []" sample_ref
        "(cpu (sample_machine []))\<lparr>gpr := replicate 32 1\<rparr>" "0x30000000" "0x30000004"]
    by (simp add: sample_ref_def)
qed

text \<open>
  Memory copied to NEMU used as a reference reads back the same, over any range of the two
  windows and whatever arrays its bytes fall into.
\<close>
lemma difftest_memcpy_back:
  assumes "difftest_memcpy addr (Inl bs) s = Inr (x, s')" "length bs \<le> 2 ^ 32"
  shows "difftest_memcpy addr (Inr (length bs)) s' = Inr (bs, s')"
  using assms by (rule difftest_memcpy_round_trip)

end
