(* ===== verification/Int64.thy ===== *)
theory Int64
  imports Prelude
begin

text \<open>
  The 64-bit integer helpers of \<^verbatim>\<open>klib/src/int64.c\<close> that a 32-bit guest links against: the
  bit counters \<^verbatim>\<open>__clzsi2\<close>, \<^verbatim>\<open>__ctzsi2\<close>, \<^verbatim>\<open>__clzdi2\<close>, \<^verbatim>\<open>__ctzdi2\<close>, the shift-and-subtract
  division \<^verbatim>\<open>__udivmoddi4\<close> and the signed and unsigned entry points built on it. The union
  \<^verbatim>\<open>udwords\<close> is a record of its two halves; \<open>udw_all\<close> and \<open>udw_of\<close> are its other view.
  Signed operations whose result is not representable are \<open>Undef\<close>. The compiler builtins
  \<^verbatim>\<open>__builtin_clz\<close> and \<^verbatim>\<open>__builtin_ctz\<close> are the documented bit counts.
\<close>

section \<open>The union of a 64-bit value and its halves\<close>

record udwords =
  low :: u32
  high :: u32

definition udw_all :: "udwords \<Rightarrow> u64" where
  "udw_all w = push_bit 32 (ucast (high w)) OR ucast (low w)"

definition udw_of :: "u64 \<Rightarrow> udwords" where
  "udw_of a = \<lparr>low = ucast a, high = ucast (drop_bit 32 a)\<rparr>"

section \<open>Counting bits\<close>

primrec clz_below :: "nat \<Rightarrow> u32 \<Rightarrow> nat" where
  "clz_below 0 x = 0"
| "clz_below (Suc n) x = (if bit x n then 0 else Suc (clz_below n x))"

definition builtin_clz :: "u32 \<Rightarrow> nat" where
  "builtin_clz x = clz_below 32 x"

primrec ctz_upto :: "nat \<Rightarrow> u32 \<Rightarrow> nat" where
  "ctz_upto 0 x = 0"
| "ctz_upto (Suc n) x = (if bit x 0 then 0 else Suc (ctz_upto n (drop_bit 1 x)))"

definition builtin_ctz :: "u32 \<Rightarrow> nat" where
  "builtin_ctz x = ctz_upto 32 x"

definition c_bool :: "bool \<Rightarrow> u32" where
  "c_bool b = (if b then 1 else 0)"

definition clzsi2 :: "u32 \<Rightarrow> u32" where
  "clzsi2 a = (
     let x = a;
         t = push_bit 4 (c_bool (x AND 0xFFFF0000 = 0));
         x = drop_bit (unat (16 - t)) x;
         r = t;
         t = push_bit 3 (c_bool (x AND 0xFF00 = 0));
         x = drop_bit (unat (8 - t)) x;
         r = r + t;
         t = push_bit 2 (c_bool (x AND 0xF0 = 0));
         x = drop_bit (unat (4 - t)) x;
         r = r + t;
         t = push_bit 1 (c_bool (x AND 0xC = 0));
         x = drop_bit (unat (2 - t)) x;
         r = r + t
     in r + ((2 - x) AND - c_bool (x AND 2 = 0)))"

definition ctzsi2 :: "u32 \<Rightarrow> u32" where
  "ctzsi2 a = (
     let x = a;
         t = push_bit 4 (c_bool (x AND 0x0000FFFF = 0));
         x = drop_bit (unat t) x;
         r = t;
         t = push_bit 3 (c_bool (x AND 0x00FF = 0));
         x = drop_bit (unat t) x;
         r = r + t;
         t = push_bit 2 (c_bool (x AND 0x0F = 0));
         x = drop_bit (unat t) x;
         r = r + t;
         t = push_bit 1 (c_bool (x AND 0x3 = 0));
         x = drop_bit (unat t) x;
         x = x AND 3;
         r = r + t
     in r + ((2 - drop_bit 1 x) AND - c_bool (x AND 1 = 0)))"

definition ctzdi2 :: "u64 \<Rightarrow> u32" where
  "ctzdi2 a = (
     let x = udw_of a;
         f = - c_bool (low x = 0)
     in ctzsi2 ((high x AND f) OR (low x AND NOT f)) + (f AND 32))"

definition clzdi2 :: "u64 \<Rightarrow> u32" where
  "clzdi2 a = (
     let x = udw_of a;
         f = - c_bool (high x = 0)
     in clzsi2 ((high x AND NOT f) OR (low x AND f)) + (f AND 32))"

section \<open>Unsigned division\<close>

text \<open>
  The branches that fall through to the common loop yield \<open>Inr (Inr (sr, q, r))\<close>, the ones
  that return at once \<open>Inr (Inl (quotient, remainder))\<close>. The remainder is always computed;
  storing it through \<^verbatim>\<open>rem\<close> is left to the callers, which is the only use of a null \<^verbatim>\<open>rem\<close>.
\<close>

definition udivmod_prepare :: "u64 \<Rightarrow> u64 \<Rightarrow> (u64 \<times> u64 + u32 \<times> udwords \<times> udwords) res" where
  "udivmod_prepare a b = (
     let n = udw_of a; d = udw_of b in
     if high n = 0 then
       (if high d = 0 then
          bindR (c_umod (low n) (low d)) (\<lambda>m. bindR (c_udiv (low n) (low d)) (\<lambda>k.
            Inr (Inl (ucast k, ucast m))))
        else Inr (Inl (0, ucast (low n))))
     else if low d = 0 then
       (if high d = 0 then
          bindR (c_umod (high n) (low d)) (\<lambda>m. bindR (c_udiv (high n) (low d)) (\<lambda>k.
            Inr (Inl (ucast k, ucast m))))
        else if low n = 0 then
          bindR (c_umod (high n) (high d)) (\<lambda>m. bindR (c_udiv (high n) (high d)) (\<lambda>k.
            Inr (Inl (ucast k, udw_all \<lparr>low = 0, high = m\<rparr>))))
        else if high d AND (high d - 1) = 0 then
          bindR (c_shr (high n) (of_nat (builtin_ctz (high d)))) (\<lambda>k.
            Inr (Inl (ucast k, udw_all \<lparr>low = low n, high = high n AND (high d - 1)\<rparr>)))
        else
          let sr = of_nat (builtin_clz (high d)) - of_nat (builtin_clz (high n)) :: u32 in
          if sr > 30 then Inr (Inl (0, a))
          else
            let sr = sr + 1 in
            bindR (c_shl (low n) (32 - sr)) (\<lambda>qh.
            bindR (c_shr (high n) sr) (\<lambda>rh.
            bindR (c_shl (high n) (32 - sr)) (\<lambda>x.
            bindR (c_shr (low n) sr) (\<lambda>y.
              Inr (Inr (sr, \<lparr>low = 0, high = qh\<rparr>, \<lparr>low = x OR y, high = rh\<rparr>)))))))
     else
       (if high d = 0 then
          (if low d AND (low d - 1) = 0 then
             (if low d = 1 then Inr (Inl (a, ucast (low n AND (low d - 1))))
              else
                let sr = of_nat (builtin_ctz (low d)) :: u32 in
                bindR (c_shr (high n) sr) (\<lambda>qh.
                bindR (c_shl (high n) (32 - sr)) (\<lambda>x.
                bindR (c_shr (low n) sr) (\<lambda>y.
                  Inr (Inl (udw_all \<lparr>low = x OR y, high = qh\<rparr>, ucast (low n AND (low d - 1))))))))
           else
             let sr = 1 + 32 + of_nat (builtin_clz (low d)) - of_nat (builtin_clz (high n)) :: u32 in
             if sr = 32 then
               Inr (Inr (sr, \<lparr>low = 0, high = low n\<rparr>, \<lparr>low = high n, high = 0\<rparr>))
             else if sr < 32 then
               bindR (c_shl (low n) (32 - sr)) (\<lambda>qh.
               bindR (c_shr (high n) sr) (\<lambda>rh.
               bindR (c_shl (high n) (32 - sr)) (\<lambda>x.
               bindR (c_shr (low n) sr) (\<lambda>y.
                 Inr (Inr (sr, \<lparr>low = 0, high = qh\<rparr>, \<lparr>low = x OR y, high = rh\<rparr>))))))
             else
               bindR (c_shl (low n) (64 - sr)) (\<lambda>ql.
               bindR (c_shl (high n) (64 - sr)) (\<lambda>x.
               bindR (c_shr (low n) (sr - 32)) (\<lambda>y.
               bindR (c_shr (high n) (sr - 32)) (\<lambda>rl.
                 Inr (Inr (sr, \<lparr>low = ql, high = x OR y\<rparr>, \<lparr>low = rl, high = 0\<rparr>)))))))
        else
          let sr = of_nat (builtin_clz (high d)) - of_nat (builtin_clz (high n)) :: u32 in
          if sr > 31 then Inr (Inl (0, a))
          else
            let sr = sr + 1 in
            if sr = 32 then
              Inr (Inr (sr, \<lparr>low = 0, high = low n\<rparr>, \<lparr>low = high n, high = 0\<rparr>))
            else
              bindR (c_shl (low n) (32 - sr)) (\<lambda>qh.
              bindR (c_shr (high n) sr) (\<lambda>rh.
              bindR (c_shl (high n) (32 - sr)) (\<lambda>x.
              bindR (c_shr (low n) sr) (\<lambda>y.
                Inr (Inr (sr, \<lparr>low = 0, high = qh\<rparr>, \<lparr>low = x OR y, high = rh\<rparr>))))))))"

definition udivmod_iter :: "u64 \<Rightarrow> udwords \<times> udwords \<times> u32 \<Rightarrow> udwords \<times> udwords \<times> u32" where
  "udivmod_iter d = (\<lambda>(q, r, carry).
     let rh = push_bit 1 (high r) OR drop_bit 31 (low r);
         rl = push_bit 1 (low r) OR drop_bit 31 (high q);
         qh = push_bit 1 (high q) OR drop_bit 31 (low q);
         ql = push_bit 1 (low q) OR carry;
         r = \<lparr>low = rl, high = rh\<rparr>;
         s = signed_drop_bit 63 (d - udw_all r - 1)
     in (\<lparr>low = ql, high = qh\<rparr>, udw_of (udw_all r - (d AND s)), ucast (s AND 1)))"

primrec udivmod_loop :: "nat \<Rightarrow> u64 \<Rightarrow> udwords \<times> udwords \<times> u32 \<Rightarrow> udwords \<times> udwords \<times> u32" where
  "udivmod_loop 0 d s = s"
| "udivmod_loop (Suc sr) d s = udivmod_loop sr d (udivmod_iter d s)"

definition udivmoddi4 :: "u64 \<Rightarrow> u64 \<Rightarrow> (u64 \<times> u64) res" where
  "udivmoddi4 a b =
     bindR (udivmod_prepare a b) (\<lambda>p. case p of
       Inl qr \<Rightarrow> Inr qr
     | Inr (sr, q, r) \<Rightarrow>
         let (q', r', carry) = udivmod_loop (unat sr) b (q, r, 0)
         in Inr (push_bit 1 (udw_all q') OR ucast carry, udw_all r'))"

definition udivdi3 :: "u64 \<Rightarrow> u64 \<Rightarrow> u64 res" where
  "udivdi3 a b = bindR (udivmoddi4 a b) (\<lambda>(q, r). Inr q)"

definition umoddi3 :: "u64 \<Rightarrow> u64 \<Rightarrow> u64 res" where
  "umoddi3 a b = bindR (udivmoddi4 a b) (\<lambda>(q, r). Inr r)"

section \<open>Signed division\<close>

definition sint_fits :: "int \<Rightarrow> bool" where
  "sint_fits i \<longleftrightarrow> - (2 ^ 63) \<le> i \<and> i < 2 ^ 63"

definition c_ssub :: "u64 \<Rightarrow> u64 \<Rightarrow> u64 res" where
  "c_ssub a b = guardR (sint_fits (sint a - sint b)) Undef (Inr (a - b))"

definition c_smul :: "u64 \<Rightarrow> u64 \<Rightarrow> u64 res" where
  "c_smul a b = guardR (sint_fits (sint a * sint b)) Undef (Inr (a * b))"

definition divdi3 :: "u64 \<Rightarrow> u64 \<Rightarrow> u64 res" where
  "divdi3 a b = (
     let s_a = signed_drop_bit 63 a;
         s_b = signed_drop_bit 63 b in
     bindR (c_ssub (a XOR s_a) s_a) (\<lambda>a.
     bindR (c_ssub (b XOR s_b) s_b) (\<lambda>b.
     let s_a = s_a XOR s_b in
     bindR (udivmoddi4 a b) (\<lambda>(q, r). Inr ((q XOR s_a) - s_a)))))"

definition divmoddi4 :: "u64 \<Rightarrow> u64 \<Rightarrow> (u64 \<times> u64) res" where
  "divmoddi4 a b =
     bindR (divdi3 a b) (\<lambda>d.
     bindR (c_smul d b) (\<lambda>p.
     bindR (c_ssub a p) (\<lambda>r. Inr (d, r))))"

definition moddi3 :: "u64 \<Rightarrow> u64 \<Rightarrow> u64 res" where
  "moddi3 a b = (
     let s = signed_drop_bit 63 b in
     bindR (c_ssub (b XOR s) s) (\<lambda>b.
     let s = signed_drop_bit 63 a in
     bindR (c_ssub (a XOR s) s) (\<lambda>a.
     bindR (udivmoddi4 a b) (\<lambda>(q, r). c_ssub (r XOR s) s))))"

end
