(* ===== verification/Int64_Correct.thy ===== *)
theory Int64_Correct
  imports Int64
begin

text \<open>
  Correctness of \<open>Int64\<close>: the branch-free bit counters compute the builtins they stand for,
  the shift-and-subtract loop of \<^verbatim>\<open>__udivmoddi4\<close> yields quotient and remainder for every
  non-zero divisor, and the signed entry points truncate towards zero.
\<close>

section \<open>The two views of the union\<close>

lemma bit_udw_all [word_simps]:
  "bit (udw_all w) k \<longleftrightarrow> (if k < 32 then bit (low w) k else bit (high w) (k - 32))"
  by (auto simp: udw_all_def bit_simps dest: bit_imp_le_length)

lemma udw_all_of [simp]: "udw_all (udw_of a) = a"
  by (rule bit_word_eqI) (auto simp: word_simps udw_of_def bit_simps dest: bit_imp_le_length)

lemma low_high_udw_of:
  "unat (low (udw_of a)) = unat a mod 2 ^ 32" "unat (high (udw_of a)) = unat a div 2 ^ 32"
proof -
  show "unat (low (udw_of a)) = unat a mod 2 ^ 32"
    by (simp add: udw_of_def unsigned_ucast_eq take_bit_eq_mod [where 'a = nat])
  have "unat (drop_bit 32 a) = unat a div 2 ^ 32"
    by (simp only: unat_drop_bit_eq drop_bit_eq_div [where 'a = nat])
  moreover have "unat a div 2 ^ 32 < 2 ^ 32"
    using unsigned_less [of a, where ?'a = nat] by (intro less_mult_imp_div_less) simp
  ultimately show "unat (high (udw_of a)) = unat a div 2 ^ 32"
    by (simp add: udw_of_def unsigned_ucast_eq take_bit_nat_eq_self)
qed

lemma unat_udw_all: "unat (udw_all w) = unat (high w) * 2 ^ 32 + unat (low w)"
proof -
  have "udw_of (udw_all w) = w"
  proof -
    have "low (udw_of (udw_all w)) = low w"
      by (rule bit_word_eqI) (auto simp: word_simps udw_of_def bit_simps)
    moreover have "high (udw_of (udw_all w)) = high w"
      by (rule bit_word_eqI) (auto simp: word_simps udw_of_def bit_simps)
    ultimately show ?thesis by simp
  qed
  then have "unat (low w) = unat (udw_all w) mod 2 ^ 32" "unat (high w) = unat (udw_all w) div 2 ^ 32"
    using low_high_udw_of [of "udw_all w"] by simp_all
  then show ?thesis by simp
qed

section \<open>The bit counters\<close>

lemma bit_unat: "bit (x :: 'w::len word) n \<longleftrightarrow> odd (unat x div 2 ^ n)"
proof -
  have "bit x n \<longleftrightarrow> bit (unat x) n" by (auto simp: bit_simps dest: bit_imp_le_length)
  then show ?thesis by (simp only: bit_iff_odd)
qed

lemma clz_below_bound:
  assumes "n \<le> 32" "unat x < 2 ^ n" "x \<noteq> 0"
  shows "clz_below n x < n \<and> 2 ^ (n - Suc (clz_below n x)) \<le> unat x \<and> unat x < 2 ^ (n - clz_below n x)"
  using assms
proof (induction n)
  case 0
  then show ?case by (simp add: unat_eq_0 [symmetric] del: unsigned_eq_0_iff)
next
  case (Suc n)
  have bn: "bit x n \<longleftrightarrow> odd (unat x div 2 ^ n)"
    by (rule bit_unat)
  have lt: "unat x div 2 ^ n < 2"
    using Suc.prems(2) by (simp add: div_less_iff_less_mult)
  show ?case
  proof (cases "bit x n")
    case True
    then have "unat x div 2 ^ n \<noteq> 0" using bn by (metis even_zero)
    then have "2 ^ n \<le> unat x" by (metis div_less not_le_imp_less)
    then show ?thesis using True Suc.prems by simp
  next
    case False
    then have "unat x div 2 ^ n = 0" using bn lt by (cases "unat x div 2 ^ n"; auto)
    then have "unat x < 2 ^ n" by (metis div_eq_0_iff power_not_zero zero_neq_numeral)
    then show ?thesis using False Suc by simp
  qed
qed

lemma builtin_clz_bounds:
  assumes "x \<noteq> 0"
  shows "builtin_clz x < 32" "2 ^ (31 - builtin_clz x) \<le> unat x" "unat x < 2 ^ (32 - builtin_clz x)"
proof -
  have "unat x < 2 ^ 32" using unsigned_less [of x, where ?'a = nat] by simp
  then have "clz_below 32 x < 32 \<and> 2 ^ (32 - Suc (clz_below 32 x)) \<le> unat x \<and> unat x < 2 ^ (32 - clz_below 32 x)"
    by (rule clz_below_bound [OF order_refl _ assms])
  then show "builtin_clz x < 32" "2 ^ (31 - builtin_clz x) \<le> unat x" "unat x < 2 ^ (32 - builtin_clz x)"
    by (simp_all add: builtin_clz_def)
qed

lemma ctz_upto_bound:
  "unat x < 2 ^ n \<Longrightarrow> x \<noteq> 0 \<Longrightarrow>
   ctz_upto n x < n \<and> 2 ^ ctz_upto n x dvd unat x \<and> odd (unat x div 2 ^ ctz_upto n x)"
proof (induction n arbitrary: x)
  case 0
  then show ?case by (simp add: unat_eq_0 [symmetric] del: unsigned_eq_0_iff)
next
  case (Suc n)
  have b0: "bit x 0 \<longleftrightarrow> odd (unat x)"
    using bit_unat [of x 0] by simp
  show ?case
  proof (cases "bit x 0")
    case True
    then show ?thesis using b0 by simp
  next
    case False
    then have ev: "even (unat x)" using b0 by simp
    have half: "unat (drop_bit 1 x) = unat x div 2"
      by (simp only: unat_drop_bit_eq drop_bit_eq_div [where 'a = nat] power_one_right)
    have "unat x \<noteq> 0" using Suc.prems(2) by (simp only: unsigned_eq_0_iff not_False_eq_True)
    then have "unat x div 2 \<noteq> 0" using ev by auto
    then have "drop_bit 1 x \<noteq> 0" using half by (metis unsigned_0)
    moreover have "unat (drop_bit 1 x) < 2 ^ n" using Suc.prems(1) half by simp
    ultimately have IH: "ctz_upto n (drop_bit 1 x) < n"
      "2 ^ ctz_upto n (drop_bit 1 x) dvd unat x div 2"
      "odd (unat x div 2 div 2 ^ ctz_upto n (drop_bit 1 x))"
      using Suc.IH [of "drop_bit 1 x"] half by simp_all
    have "2 * 2 ^ ctz_upto n (drop_bit 1 x) dvd 2 * (unat x div 2)"
      by (rule mult_dvd_mono [OF dvd_refl IH(2)])
    then show ?thesis using False ev IH by (simp add: div_mult2_eq)
  qed
qed

lemma builtin_ctz_bounds:
  assumes "x \<noteq> 0"
  shows "builtin_ctz x < 32" "2 ^ builtin_ctz x dvd unat x" "odd (unat x div 2 ^ builtin_ctz x)"
proof -
  have "unat x < 2 ^ 32" using unsigned_less [of x, where ?'a = nat] by simp
  from ctz_upto_bound [OF this assms]
  show "builtin_ctz x < 32" "2 ^ builtin_ctz x dvd unat x" "odd (unat x div 2 ^ builtin_ctz x)"
    by (simp_all add: builtin_ctz_def)
qed

lemma clz_unique:
  fixes v :: nat
  assumes "2 ^ (31 - a) \<le> v" "v < 2 ^ (32 - a)" "2 ^ (31 - b) \<le> v" "v < 2 ^ (32 - b)" "a < 32" "b < 32"
  shows "a = b"
proof -
  have "2 ^ (31 - a) < (2::nat) ^ (32 - b)" "2 ^ (31 - b) < (2::nat) ^ (32 - a)"
    using assms by linarith+
  then have "31 - a < 32 - b" "31 - b < 32 - a" by simp_all
  with assms(5,6) show ?thesis by linarith
qed


lemma and_high_mask_eq_0:
  fixes x :: "'w::len word"
  assumes "unat x < 2 ^ (w + w)"
  shows "x AND push_bit w (mask w) = 0 \<longleftrightarrow> unat x < 2 ^ w"
proof -
  have "x AND push_bit w (mask w) = push_bit w (drop_bit w x)"
  proof (rule bit_word_eqI)
    fix k assume "k < LENGTH('w)"
    moreover have "bit x k \<Longrightarrow> k < w + w"
    proof (rule ccontr)
      assume "bit x k" "\<not> k < w + w"
      then have "2 ^ (w + w) \<le> (2::nat) ^ k" by (intro power_increasing) simp_all
      with assms have "unat x < 2 ^ k" by linarith
      then have "unat x div 2 ^ k = 0" by (rule div_less)
      then show False using \<open>bit x k\<close> by (simp add: bit_unat)
    qed
    ultimately show "bit (x AND push_bit w (mask w)) k = bit (push_bit w (drop_bit w x)) k"
      by (auto simp: bit_simps)
  qed
  also have "\<dots> = 0 \<longleftrightarrow> drop_bit w x = 0"
  proof
    assume "push_bit w (drop_bit w x) = 0"
    moreover have "drop_bit w (push_bit w (drop_bit w x)) = drop_bit w x"
      by (rule bit_word_eqI) (auto simp: bit_simps dest: bit_imp_le_length)
    ultimately show "drop_bit w x = 0" by simp
  qed simp
  also have "\<dots> \<longleftrightarrow> unat (drop_bit w x) = 0" by (simp only: unsigned_eq_0_iff)
  also have "\<dots> \<longleftrightarrow> unat x < 2 ^ w"
    by (simp add: unat_drop_bit_eq drop_bit_eq_div [where 'a = nat] div_eq_0_iff)
  finally show ?thesis .
qed

lemma unat_drop_bit_div: "unat (drop_bit k x) = unat x div 2 ^ k"
  by (simp only: unat_drop_bit_eq drop_bit_eq_div [where 'a = nat])

lemma clz_step:
  fixes x :: u32
  assumes "unat x < 2 ^ (w + w)" "x \<noteq> 0"
  defines "t \<equiv> if x AND push_bit w (mask w) = 0 then w else 0"
  shows "drop_bit (w - t) x \<noteq> 0" "unat (drop_bit (w - t) x) < 2 ^ w" "t \<le> w"
    "2 ^ k \<le> unat (drop_bit (w - t) x) \<Longrightarrow> 2 ^ (k + (w - t)) \<le> unat x"
    "unat (drop_bit (w - t) x) < 2 ^ k \<Longrightarrow> unat x < 2 ^ (k + (w - t))"
proof -
  note c = and_high_mask_eq_0 [OF assms(1)]
  have nz: "unat x \<noteq> 0" using assms(2) by (simp only: unsigned_eq_0_iff not_False_eq_True)
  have "unat (drop_bit (w - t) x) \<noteq> 0"
    using c nz by (auto simp: t_def unat_drop_bit_div div_eq_0_iff)
  then show "drop_bit (w - t) x \<noteq> 0" by auto
  show "unat (drop_bit (w - t) x) < 2 ^ w"
    using c assms(1) by (auto simp: t_def unat_drop_bit_div power_add intro: less_mult_imp_div_less)
  show "t \<le> w" by (simp add: t_def)
  show "2 ^ k \<le> unat (drop_bit (w - t) x) \<Longrightarrow> 2 ^ (k + (w - t)) \<le> unat x"
    by (simp add: unat_drop_bit_div power_add less_eq_div_iff_mult_less_eq)
  show "unat (drop_bit (w - t) x) < 2 ^ k \<Longrightarrow> unat x < 2 ^ (k + (w - t))"
    by (simp add: unat_drop_bit_div power_add div_less_iff_less_mult)
qed

lemma clz_last:
  fixes x :: u32
  assumes "unat x < 2 ^ 2" "x \<noteq> 0"
  shows "\<exists>u \<le> 1. (2 - x) AND - c_bool (x AND 2 = 0) = of_nat u \<and> 2 ^ (1 - u) \<le> unat x \<and> unat x < 2 ^ (2 - u)"
proof -
  have "unat x \<noteq> 0" using assms(2) by (simp only: unsigned_eq_0_iff not_False_eq_True)
  then have "unat x = unat (1 :: u32) \<or> unat x = unat (2 :: u32) \<or> unat x = unat (3 :: u32)"
    using assms(1) by auto
  then have "x = 1 \<or> x = 2 \<or> x = 3" by (blast intro: unsigned_word_eqI)
  then show ?thesis
    by (auto simp: c_bool_def intro: exI [of _ 0] exI [of _ 1])
qed


lemma clz_masks:
  "(0xFFFF0000 :: u32) = push_bit 16 (mask 16)" "(0xFF00 :: u32) = push_bit 8 (mask 8)"
  "(0xF0 :: u32) = push_bit 4 (mask 4)" "(0xC :: u32) = push_bit 2 (mask 2)"
  by (simp_all add: mask_eq_exp_minus_1 push_bit_eq_mult)

lemma clz_shift_counts:
  "push_bit 4 (c_bool b) = of_nat (if b then 16 else 0)" "push_bit 3 (c_bool b) = of_nat (if b then 8 else 0)"
  "push_bit 2 (c_bool b) = of_nat (if b then 4 else 0)" "push_bit 1 (c_bool b) = of_nat (if b then 2 else 0)"
  "unat (16 - of_nat (if b then 16 else 0) :: u32) = 16 - (if b then 16 else 0)"
  "unat (8 - of_nat (if b then 8 else 0) :: u32) = 8 - (if b then 8 else 0)"
  "unat (4 - of_nat (if b then 4 else 0) :: u32) = 4 - (if b then 4 else 0)"
  "unat (2 - of_nat (if b then 2 else 0) :: u32) = 2 - (if b then 2 else 0)"
  "unat (of_nat (if b then 16 else 0) :: u32) = (if b then 16 else 0)"
  "unat (of_nat (if b then 8 else 0) :: u32) = (if b then 8 else 0)"
  "unat (of_nat (if b then 4 else 0) :: u32) = (if b then 4 else 0)"
  "unat (of_nat (if b then 2 else 0) :: u32) = (if b then 2 else 0)"
  by (simp_all add: c_bool_def push_bit_eq_mult)

lemma clzsi2_builtin:
  assumes "a \<noteq> 0"
  shows "clzsi2 a = of_nat (builtin_clz a)"
proof -
  define t1 where "t1 = (if a AND push_bit 16 (mask 16) = 0 then 16 else 0 :: nat)"
  define x1 where "x1 = drop_bit (16 - t1) a"
  define t2 where "t2 = (if x1 AND push_bit 8 (mask 8) = 0 then 8 else 0 :: nat)"
  define x2 where "x2 = drop_bit (8 - t2) x1"
  define t3 where "t3 = (if x2 AND push_bit 4 (mask 4) = 0 then 4 else 0 :: nat)"
  define x3 where "x3 = drop_bit (4 - t3) x2"
  define t4 where "t4 = (if x3 AND push_bit 2 (mask 2) = 0 then 2 else 0 :: nat)"
  define x4 where "x4 = drop_bit (2 - t4) x3"
  note defs = t1_def x1_def t2_def x2_def t3_def x3_def t4_def x4_def
  have code: "clzsi2 a = of_nat t1 + of_nat t2 + of_nat t3 + of_nat t4 + ((2 - x4) AND - c_bool (x4 AND 2 = 0))"
    by (simp only: clzsi2_def Let_def clz_masks clz_shift_counts defs)
  have "unat a < 2 ^ (16 + 16)" using unsigned_less [of a, where ?'a = nat] by simp
  note s1 = clz_step [OF this assms, folded t1_def x1_def]
  have "unat x1 < 2 ^ (8 + 8)" using s1(2) by simp
  note s2 = clz_step [OF this s1(1), folded t2_def x2_def]
  have "unat x2 < 2 ^ (4 + 4)" using s2(2) by simp
  note s3 = clz_step [OF this s2(1), folded t3_def x3_def]
  have "unat x3 < 2 ^ (2 + 2)" using s3(2) by simp
  note s4 = clz_step [OF this s3(1), folded t4_def x4_def]
  obtain u where u: "u \<le> 1" "(2 - x4) AND - c_bool (x4 AND 2 = 0) = of_nat u"
      "2 ^ (1 - u) \<le> unat x4" "unat x4 < 2 ^ (2 - u)"
    using clz_last [OF s4(2,1)] by blast
  define c where "c = t1 + t2 + t3 + t4 + u"
  have le: "t1 \<le> 16" "t2 \<le> 8" "t3 \<le> 4" "t4 \<le> 2" by (rule s1(3) s2(3) s3(3) s4(3))+
  have "2 ^ (1 - u + (2 - t4) + (4 - t3) + (8 - t2) + (16 - t1)) \<le> unat a"
    by (intro s1(4) s2(4) s3(4) s4(4) u(3))
  moreover have "unat a < 2 ^ (2 - u + (2 - t4) + (4 - t3) + (8 - t2) + (16 - t1))"
    by (intro s1(5) s2(5) s3(5) s4(5) u(4))
  moreover have "1 - u + (2 - t4) + (4 - t3) + (8 - t2) + (16 - t1) = 31 - c"
    "2 - u + (2 - t4) + (4 - t3) + (8 - t2) + (16 - t1) = 32 - c" "c < 32"
    using le u(1) by (simp_all add: c_def)
  ultimately have "2 ^ (31 - c) \<le> unat a" "unat a < 2 ^ (32 - c)" "c < 32" by simp_all
  then have eq: "c = builtin_clz a" by (rule clz_unique [OF _ _ builtin_clz_bounds(2,3) [OF assms] _ builtin_clz_bounds(1) [OF assms]])
  show ?thesis unfolding eq [symmetric] code u(2) by (simp add: c_def)
qed

lemma and_low_mask_eq_0:
  fixes x :: "'w::len word"
  shows "x AND mask w = 0 \<longleftrightarrow> 2 ^ w dvd unat x"
proof -
  have "x AND mask w = 0 \<longleftrightarrow> unat (take_bit w x) = 0"
    by (simp only: take_bit_eq_mask unsigned_eq_0_iff)
  also have "\<dots> \<longleftrightarrow> unat x mod 2 ^ w = 0"
    by (simp only: unsigned_take_bit_eq take_bit_eq_mod [where 'a = nat])
  finally show ?thesis by (simp add: dvd_eq_mod_eq_0)
qed

lemma ctz_step:
  fixes x :: u32
  assumes "\<not> 2 ^ (w + w) dvd unat x"
  defines "t \<equiv> if x AND mask w = 0 then w else 0"
  shows "\<not> 2 ^ w dvd unat (drop_bit t x)" "2 ^ t dvd unat x"
    "2 ^ k dvd unat (drop_bit t x) \<Longrightarrow> 2 ^ (t + k) dvd unat x"
    "unat (drop_bit t x) div 2 ^ k = unat x div 2 ^ (t + k)"
proof -
  show d: "2 ^ t dvd unat x" by (simp add: t_def and_low_mask_eq_0)
  show "\<not> 2 ^ w dvd unat (drop_bit t x)"
  proof (cases "2 ^ w dvd unat x")
    case True
    then have "t = w" by (simp add: t_def and_low_mask_eq_0)
    then show ?thesis using assms(1) True by (simp add: unat_drop_bit_div power_add dvd_div_iff_mult)
  qed (simp add: t_def and_low_mask_eq_0)
  show "2 ^ k dvd unat (drop_bit t x) \<Longrightarrow> 2 ^ (t + k) dvd unat x"
    using d by (simp add: unat_drop_bit_div power_add dvd_div_iff_mult mult.commute)
  show "unat (drop_bit t x) div 2 ^ k = unat x div 2 ^ (t + k)"
    by (simp add: unat_drop_bit_div power_add div_mult2_eq)
qed


lemma ctz_last:
  fixes x :: u32
  assumes "\<not> 2 ^ 2 dvd unat x"
  defines "y \<equiv> x AND 3"
  shows "\<exists>u \<le> 1. (2 - drop_bit 1 y) AND - c_bool (y AND 1 = 0) = of_nat u \<and>
    2 ^ u dvd unat x \<and> odd (unat x div 2 ^ u)"
proof -
  have "y = x AND mask 2" by (simp add: y_def mask_eq_exp_minus_1)
  then have "unat y = unat x mod 4"
    by (simp add: take_bit_eq_mask [symmetric] unsigned_take_bit_eq take_bit_eq_mod [where 'a = nat])
  moreover have "unat x mod 4 \<noteq> 0" using assms(1) by (simp add: dvd_eq_mod_eq_0)
  moreover have "unat x mod 4 < 4" by simp
  ultimately consider "unat x mod 4 = 1" "unat y = unat (1 :: u32)"
    | "unat x mod 4 = 2" "unat y = unat (2 :: u32)" | "unat x mod 4 = 3" "unat y = unat (3 :: u32)"
    by fastforce
  then show ?thesis
  proof cases
    case 1
    then have "y = 1" by (intro unsigned_word_eqI)
    moreover have "odd (unat x)" using 1(1) by presburger
    ultimately show ?thesis by (intro exI [of _ 0]) (simp add: c_bool_def)
  next
    case 2
    then have "y = 2" by (intro unsigned_word_eqI)
    moreover have "even (unat x)" "odd (unat x div 2)" using 2(1) by presburger+
    ultimately show ?thesis by (intro exI [of _ 1]) (simp add: c_bool_def)
  next
    case 3
    then have "y = 3" by (intro unsigned_word_eqI)
    moreover have "odd (unat x)" using 3(1) by presburger
    ultimately show ?thesis by (intro exI [of _ 0]) (simp add: c_bool_def)
  qed
qed

lemma ctz_unique:
  fixes v :: nat
  assumes "2 ^ a dvd v" "odd (v div 2 ^ a)" "2 ^ b dvd v" "odd (v div 2 ^ b)"
  shows "a = b"
proof -
  have no: False if "a < b" "odd (v div 2 ^ a)" "2 ^ b dvd v" for a b
  proof -
    have "2 ^ a * 2 dvd (2 :: nat) ^ b" using that(1) power_le_dvd [of 2 b "2 ^ b :: nat" "Suc a"]
      by (simp add: mult.commute)
    then have "2 ^ a * 2 dvd v" using that(3) dvd_trans by blast
    then have "even (v div 2 ^ a)" by (metis dvd_div_iff_mult dvd_mult_left dvd_mult_right mult.commute power_not_zero zero_neq_numeral)
    with that(2) show False by simp
  qed
  show ?thesis using no [of a b] no [of b a] assms by (meson linorder_neqE_nat)
qed

lemma ctzsi2_builtin:
  assumes "a \<noteq> 0"
  shows "ctzsi2 a = of_nat (builtin_ctz a)"
proof -
  define t1 where "t1 = (if a AND mask 16 = 0 then 16 else 0 :: nat)"
  define x1 where "x1 = drop_bit t1 a"
  define t2 where "t2 = (if x1 AND mask 8 = 0 then 8 else 0 :: nat)"
  define x2 where "x2 = drop_bit t2 x1"
  define t3 where "t3 = (if x2 AND mask 4 = 0 then 4 else 0 :: nat)"
  define x3 where "x3 = drop_bit t3 x2"
  define t4 where "t4 = (if x3 AND mask 2 = 0 then 2 else 0 :: nat)"
  define x4 where "x4 = drop_bit t4 x3"
  note defs = t1_def x1_def t2_def x2_def t3_def x3_def t4_def x4_def
  have masks: "(0x0000FFFF :: u32) = mask 16" "(0x00FF :: u32) = mask 8" "(0x0F :: u32) = mask 4"
    by (simp_all add: mask_eq_exp_minus_1)
  have m3: "(3 :: u32) = mask 2" by (simp add: mask_eq_exp_minus_1)
  have code: "ctzsi2 a = of_nat t1 + of_nat t2 + of_nat t3 + of_nat t4 +
      ((2 - drop_bit 1 (x4 AND 3)) AND - c_bool ((x4 AND 3) AND 1 = 0))"
    unfolding ctzsi2_def Let_def masks m3 clz_shift_counts defs by (rule refl)
  have "unat a < 2 ^ (16 + 16)" using unsigned_less [of a, where ?'a = nat] by simp
  moreover have "0 < unat a" using assms by (metis unsigned_eq_0_iff gr0I)
  ultimately have "\<not> 2 ^ (16 + 16) dvd unat a" using dvd_imp_le not_le by blast
  note s1 = ctz_step [OF this, folded t1_def x1_def]
  have "\<not> 2 ^ (8 + 8) dvd unat x1" using s1(1) by simp
  note s2 = ctz_step [OF this, folded t2_def x2_def]
  have "\<not> 2 ^ (4 + 4) dvd unat x2" using s2(1) by simp
  note s3 = ctz_step [OF this, folded t3_def x3_def]
  have "\<not> 2 ^ (2 + 2) dvd unat x3" using s3(1) by simp
  note s4 = ctz_step [OF this, folded t4_def x4_def]
  obtain u where u: "u \<le> 1"
      "(2 - drop_bit 1 (x4 AND 3)) AND - c_bool ((x4 AND 3) AND 1 = 0) = of_nat u"
      "2 ^ u dvd unat x4" "odd (unat x4 div 2 ^ u)"
    using ctz_last [OF s4(1)] by blast
  define c where "c = t1 + (t2 + (t3 + (t4 + u)))"
  have "2 ^ c dvd unat a" unfolding c_def by (intro s1(3) s2(3) s3(3) s4(3) u(3))
  moreover have "odd (unat a div 2 ^ c)" using u(4) by (simp add: c_def s1(4) s2(4) s3(4) s4(4))
  ultimately have eq: "c = builtin_ctz a"
    by (rule ctz_unique [OF _ _ builtin_ctz_bounds(2,3) [OF assms]])
  show ?thesis unfolding eq [symmetric] code u(2) by (simp add: c_def)
qed

section \<open>The division loop\<close>

lemma bit_shl1: "bit (push_bit 1 (x :: 'w::len word)) k \<longleftrightarrow> 0 < k \<and> k < LENGTH('w) \<and> bit x (k - 1)"
  by (auto simp only: bit_push_bit_iff possible_bit_word Suc_le_eq One_nat_def)

lemma signed_drop_bit_63:
  "signed_drop_bit 63 (x :: u64) = (if 2 ^ 63 \<le> unat x then - 1 else 0)"
proof -
  have "bit x 63 \<longleftrightarrow> 2 ^ 63 \<le> unat x"
  proof -
    have "unat x < 2 ^ 64" using unsigned_less [of x, where ?'a = nat] by simp
    then have "unat x div 2 ^ 63 < 2" by simp
    then have "odd (unat x div 2 ^ 63) \<longleftrightarrow> unat x div 2 ^ 63 \<noteq> 0" by (cases "unat x div 2 ^ 63") auto
    then show ?thesis by (simp add: bit_unat div_eq_0_iff not_less)
  qed
  moreover have "signed_drop_bit 63 x = (if bit x 63 then - 1 else 0)"
  proof (rule bit_word_eqI)
    fix n :: nat
    have "63 + n = 63 \<or> 64 \<le> 63 + n" by linarith
    then show "bit (signed_drop_bit 63 x) n = bit (if bit x 63 then - 1 else (0 :: u64)) n" if "n < LENGTH(64)"
      using that by (auto simp: bit_simps min_def dest: bit_imp_le_length)
  qed
  ultimately show ?thesis by simp
qed

lemma udivmod_iter_words:
  fixes q r :: udwords
  defines "R \<equiv> push_bit 1 (udw_all r) OR drop_bit 63 (udw_all q)"
  shows "udivmod_iter d (q, r, c) = (q', r', c') \<Longrightarrow> (c = 0 \<or> c = 1) \<Longrightarrow>
    udw_all q' = push_bit 1 (udw_all q) OR ucast c \<and>
    udw_all r' = R - (d AND signed_drop_bit 63 (d - R - 1)) \<and>
    c' = ucast (signed_drop_bit 63 (d - R - 1) AND 1)"
proof -
  have r: "udw_all \<lparr>low = push_bit 1 (low r) OR drop_bit 31 (high q),
      high = push_bit 1 (high r) OR drop_bit 31 (low r)\<rparr> = R"
  proof (rule bit_word_eqI)
    fix n assume n: "n < LENGTH(64)"
    consider "n = 0" | "0 < n" "n < 32" | "n = 32" | "32 < n" by linarith
    then show "bit (udw_all \<lparr>low = push_bit 1 (low r) OR drop_bit 31 (high q),
      high = push_bit 1 (high r) OR drop_bit 31 (low r)\<rparr>) n = bit R n"
      using n by cases (auto simp: R_def bit_udw_all bit_or_iff bit_shl1 bit_drop_bit_eq not_less
          simp del: push_bit_Suc One_nat_def dest: bit_imp_le_length)
  qed
  have q: "udw_all \<lparr>low = push_bit 1 (low q) OR c, high = push_bit 1 (high q) OR drop_bit 31 (low q)\<rparr> =
      push_bit 1 (udw_all q) OR ucast c" if "c = 0 \<or> c = 1"
  proof (rule bit_word_eqI)
    fix n assume n: "n < LENGTH(64)"
    consider "n = 0" | "0 < n" "n < 32" | "n = 32" | "32 < n" by linarith
    then show "bit (udw_all \<lparr>low = push_bit 1 (low q) OR c, high = push_bit 1 (high q) OR drop_bit 31 (low q)\<rparr>) n =
      bit (push_bit 1 (udw_all q) OR ucast c) n"
      using n that by cases (auto simp: bit_udw_all bit_or_iff bit_shl1 bit_drop_bit_eq bit_1_iff not_less
          simp del: push_bit_Suc One_nat_def dest: bit_imp_le_length)
  qed
  show "udivmod_iter d (q, r, c) = (q', r', c') \<Longrightarrow> (c = 0 \<or> c = 1) \<Longrightarrow>
    udw_all q' = push_bit 1 (udw_all q) OR ucast c \<and>
    udw_all r' = R - (d AND signed_drop_bit 63 (d - R - 1)) \<and>
    c' = ucast (signed_drop_bit 63 (d - R - 1) AND 1)"
    using q unfolding udivmod_iter_def Let_def prod.case r by (auto simp del: push_bit_Suc One_nat_def)
qed


lemma unat_shl1_or:
  fixes x y :: u64
  assumes "unat y \<le> 1"
  shows "unat (push_bit 1 x OR y) = (2 * unat x + unat y) mod 2 ^ 64"
proof -
  have y: "y = 0 \<or> y = 1"
  proof -
    have "unat y = unat (0 :: u64) \<or> unat y = unat (1 :: u64)" using assms by auto
    then show ?thesis by (blast intro: unsigned_word_eqI)
  qed
  have "push_bit 1 x OR y = push_bit 1 x + y"
    by (rule disjunctive_add [symmetric])
       (use y in \<open>auto simp: bit_shl1 bit_1_iff simp del: push_bit_Suc One_nat_def\<close>)
  also have "\<dots> = of_nat (2 * unat x + unat y)" by (simp add: push_bit_eq_mult)
  finally show ?thesis by (simp only: unat_of_nat) simp
qed

text \<open>One round on natural numbers: shift \<open>r:q\<close>, subtract the divisor where it fits.\<close>

lemma udivmod_iter_nat:
  assumes iter: "udivmod_iter d (q, r, c) = (q', r', c')" and c: "unat c \<le> 1"
    and R: "unat (udw_all r) < 2 ^ 63"
    and R2: "R2 = 2 * unat (udw_all r) + unat (udw_all q) div 2 ^ 63"
    and near: "R2 < unat d \<Longrightarrow> unat d - R2 \<le> 2 ^ 63" "unat d \<le> R2 \<Longrightarrow> R2 - unat d < 2 ^ 63"
  shows "unat (udw_all r') = (if unat d \<le> R2 then R2 - unat d else R2)"
    and "unat c' = (if unat d \<le> R2 then 1 else 0)"
    and "unat (udw_all q') = (2 * unat (udw_all q) + unat c) mod 2 ^ 64"
proof -
  define W where "W = push_bit 1 (udw_all r) OR drop_bit 63 (udw_all q)"
  have qlt: "unat (udw_all q) < 2 ^ 64" using unsigned_less [of "udw_all q", where ?'a = nat] by simp
  have top: "unat (udw_all q) div 2 ^ 63 \<le> 1" using qlt by simp
  have W: "unat W = R2"
    unfolding W_def R2
    by (subst unat_shl1_or) (use R top in \<open>simp_all add: unat_drop_bit_div\<close>)
  have "unat c = unat (0 :: u32) \<or> unat c = unat (1 :: u32)" using c by auto
  then have c01: "c = 0 \<or> c = 1" by (blast intro: unsigned_word_eqI)
  note words = udivmod_iter_words [OF iter c01, folded W_def]
  have s: "signed_drop_bit 63 (d - W - 1) = (if unat d \<le> R2 then - 1 else 0)"
  proof (cases "unat d \<le> R2")
    case True
    have "d - W - 1 = - (of_nat (R2 - unat d + 1))"
      using True by (simp add: W [symmetric] of_nat_diff)
    moreover have "unat (- (of_nat (R2 - unat d + 1)) :: u64) = 2 ^ 64 - (R2 - unat d + 1)"
    proof -
      have "(- (of_nat (R2 - unat d + 1)) :: u64) = of_nat (2 ^ 64 - (R2 - unat d + 1))"
        using near(2) [OF True] by (subst of_nat_diff) simp_all
      then show ?thesis by (simp only: unat_of_nat) simp
    qed
    ultimately show ?thesis using True near(2) by (simp add: signed_drop_bit_63)
  next
    case False
    have eq: "d - W - 1 = of_nat (unat d - R2 - 1)"
      using False by (simp add: W [symmetric] of_nat_diff)
    have "unat (d - W - 1) = unat d - R2 - 1"
      unfolding eq unat_of_nat using False near(1) by (simp add: mod_less)
    then show ?thesis using False near(1) by (simp add: signed_drop_bit_63)
  qed
  show "unat c' = (if unat d \<le> R2 then 1 else 0)" using words s by simp
  show "unat (udw_all r') = (if unat d \<le> R2 then R2 - unat d else R2)"
  proof (cases "unat d \<le> R2")
    case True
    then have eq: "udw_all r' = of_nat (R2 - unat d)" using words s by (simp add: W [symmetric] of_nat_diff)
    show ?thesis unfolding eq unat_of_nat using True near(2) by (simp add: mod_less)
  next
    case False
    then show ?thesis using words s W by simp
  qed
  have "unat (ucast c :: u64) = unat c" using c01 by auto
  then show "unat (udw_all q') = (2 * unat (udw_all q) + unat c) mod 2 ^ 64"
    using words unat_shl1_or [of "ucast c" "udw_all q"] c by simp
qed


text \<open>
  After all but \<open>k\<close> rounds the remainder and the quotient are those of the leading bits
  \<open>n div 2 ^ k\<close> of the dividend; \<open>q\<close> holds the \<open>k\<close> bits still to come above the quotient, whose
  last bit waits in \<open>carry\<close>.
\<close>

definition udivmod_inv :: "nat \<Rightarrow> nat \<Rightarrow> nat \<Rightarrow> udwords \<times> udwords \<times> u32 \<Rightarrow> bool" where
  "udivmod_inv n d k = (\<lambda>(q, r, c).
     unat (udw_all r) = n div 2 ^ k mod d \<and>
     unat c = n div 2 ^ k div d mod 2 \<and>
     unat (udw_all q) = n mod 2 ^ k * 2 ^ (64 - k) + n div 2 ^ k div d div 2)"

lemma udivmod_q_step:
  fixes n :: nat
  assumes "k < 64"
  shows "(2 * (n mod 2 ^ Suc k * 2 ^ (64 - Suc k) + x div 2) + x mod 2) mod 2 ^ 64 =
    (n mod 2 ^ k * 2 ^ (64 - k) + x) mod 2 ^ 64"
proof -
  have p: "2 * 2 ^ (64 - Suc k) = (2 :: nat) ^ (64 - k)"
    using assms by (simp flip: power_Suc add: Suc_diff_Suc)
  have m: "n mod 2 ^ Suc k = n mod 2 ^ k + 2 ^ k * (n div 2 ^ k mod 2)"
    by (simp only: power_Suc2 mod_mult2_eq)
  have "2 * (n mod 2 ^ Suc k * 2 ^ (64 - Suc k) + x div 2) + x mod 2 = n mod 2 ^ Suc k * 2 ^ (64 - k) + x"
    by (simp add: p [symmetric] algebra_simps)
  also have "\<dots> = n mod 2 ^ k * 2 ^ (64 - k) + x + (n div 2 ^ k mod 2) * (2 ^ k * 2 ^ (64 - k))"
    unfolding m by (simp add: algebra_simps)
  also have "(2 :: nat) ^ k * 2 ^ (64 - k) = 2 ^ 64" using assms by (simp flip: power_add)
  finally show ?thesis by (metis mod_mult_self1)
qed

lemma div_mod_double:
  fixes x d b :: nat
  assumes "0 < d" "b < 2"
  shows "(2 * x + b) mod d = (if d \<le> 2 * (x mod d) + b then 2 * (x mod d) + b - d else 2 * (x mod d) + b)"
    and "(2 * x + b) div d = 2 * (x div d) + (if d \<le> 2 * (x mod d) + b then 1 else 0)"
proof -
  define t m where "t = x div d" and "m = x mod d"
  have x: "2 * x + b = d * (2 * t) + (2 * m + b)" 
  proof -
    have "2 * x = 2 * (d * t + m)" by (simp add: t_def m_def)
    then show ?thesis by (simp add: distrib_left mult.left_commute)
  qed
  have m: "m < d" using assms(1) by (simp add: m_def)
  have "(2 * x + b) mod d = (2 * m + b) mod d" unfolding x by simp
  also have "\<dots> = (if d \<le> 2 * m + b then 2 * m + b - d else 2 * m + b)"
    using m assms(2) by (simp add: le_mod_geq)
  finally show "(2 * x + b) mod d = (if d \<le> 2 * (x mod d) + b then 2 * (x mod d) + b - d else 2 * (x mod d) + b)"
    by (simp add: m_def)
  have "(2 * m + b) div d = (if d \<le> 2 * m + b then 1 else 0)"
    using m assms by (simp add: div_nat_eqI)
  moreover have "(2 * x + b) div d = 2 * t + (2 * m + b) div d"
    unfolding x using assms(1) by simp
  ultimately show "(2 * x + b) div d = 2 * (x div d) + (if d \<le> 2 * (x mod d) + b then 1 else 0)"
    by (simp add: t_def m_def)
qed


lemma udivmod_inv_step:
  fixes n d :: u64
  assumes inv: "udivmod_inv (unat n) (unat d) (Suc k) (q, r, c)" and k: "k < 63" and d: "0 < unat d"
    and small: "unat d < 2 ^ 63 \<or> (k = 0 \<and> 2 ^ 63 \<le> unat n)"
  shows "udivmod_inv (unat n) (unat d) k (udivmod_iter d (q, r, c))"
proof -
  obtain q' r' c' where iter: "udivmod_iter d (q, r, c) = (q', r', c')" by (metis prod_cases3)
  define X where "X = unat n div 2 ^ Suc k"
  define b where "b = unat n div 2 ^ k mod 2"
  have X2: "unat n div 2 ^ k = 2 * X + b"
    by (simp add: X_def b_def div_mult2_eq power_Suc2 del: power_Suc)
  have nlt: "unat n < 2 ^ 64" using unsigned_less [of n, where ?'a = nat] by simp
  have Xlt: "X < 2 ^ 63"
  proof -
    have "X \<le> unat n div 2" unfolding X_def by (rule div_le_mono2) simp_all
    with nlt show ?thesis by simp
  qed
  have r: "unat (udw_all r) = X mod unat d" and c: "unat c = X div unat d mod 2"
    and q: "unat (udw_all q) = unat n mod 2 ^ Suc k * 2 ^ (64 - Suc k) + X div unat d div 2"
    using inv by (simp_all add: udivmod_inv_def X_def)
  have rle: "X mod unat d \<le> X" by simp
  have Xk: "X div unat d < 2 ^ (63 - k)"
  proof -
    have "(2 :: nat) ^ (63 - k) * 2 ^ Suc k = 2 ^ 64"
      unfolding power_add [symmetric] by (rule arg_cong [of _ _ "\<lambda>e. 2 ^ e"]) (use k in simp)
    with nlt have "unat n < 2 ^ (63 - k) * 2 ^ Suc k" by (simp only:)
    then have "X < 2 ^ (63 - k)" unfolding X_def by (rule less_mult_imp_div_less)
    then show ?thesis using div_le_dividend [of X "unat d"] by linarith
  qed
  have mk: "(unat n mod 2 ^ k + 1) * 2 ^ (63 - k) \<le> 2 ^ 63"
  proof -
    have "unat n mod 2 ^ k + 1 \<le> 2 ^ k" by (simp add: Suc_le_eq)
    then have "(unat n mod 2 ^ k + 1) * 2 ^ (63 - k) \<le> 2 ^ k * 2 ^ (63 - k)" by (rule mult_le_mono1)
    also have "\<dots> = 2 ^ 63" using k by (simp flip: power_add)
    finally show ?thesis .
  qed
  have top: "unat (udw_all q) div 2 ^ 63 = b"
  proof -
    have "unat n mod 2 ^ Suc k = unat n mod 2 ^ k + 2 ^ k * b"
      unfolding b_def by (simp only: power_Suc2 mod_mult2_eq)
    then have "unat (udw_all q) = b * (2 ^ k * 2 ^ (63 - k)) + (unat n mod 2 ^ k * 2 ^ (63 - k) + X div unat d div 2)"
      unfolding q by (simp add: algebra_simps)
    also have "(2 :: nat) ^ k * 2 ^ (63 - k) = 2 ^ 63" using k by (simp flip: power_add)
    finally have "unat (udw_all q) = b * 2 ^ 63 + (unat n mod 2 ^ k * 2 ^ (63 - k) + X div unat d div 2)" .
    moreover have "unat n mod 2 ^ k * 2 ^ (63 - k) + X div unat d div 2 < 2 ^ 63"
      using mk Xk div_le_dividend [of "X div unat d" 2] by (simp add: distrib_right) 
    ultimately show ?thesis by simp
  qed
  define R2 where "R2 = 2 * (X mod unat d) + b"
  have near: "R2 < unat d \<Longrightarrow> unat d - R2 \<le> 2 ^ 63" "unat d \<le> R2 \<Longrightarrow> R2 - unat d < 2 ^ 63"
  proof -
    have bl: "b < 2" by (simp add: b_def)
    have m: "X mod unat d < unat d" using d by simp
    show "unat d \<le> R2 \<Longrightarrow> R2 - unat d < 2 ^ 63"
      unfolding R2_def using m bl rle Xlt by linarith
    show "unat d - R2 \<le> 2 ^ 63"
    proof (cases "unat d < 2 ^ 63")
      case False
      then have "k = 0" "2 ^ 63 \<le> unat n" using small by simp_all
      moreover have "X < unat d" using False Xlt by linarith
      ultimately have "2 ^ 63 \<le> R2" using X2 by (simp add: R2_def)
      moreover have "unat d < 2 ^ 64" using unsigned_less [of d, where ?'a = nat] by simp
      ultimately show ?thesis by simp
    qed simp
  qed
  have "unat c \<le> 1" using c by simp
  moreover have "unat (udw_all r) < 2 ^ 63" using r rle Xlt by linarith
  moreover have "R2 = 2 * unat (udw_all r) + unat (udw_all q) div 2 ^ 63" by (simp only: R2_def r top)
  note step = udivmod_iter_nat [OF iter calculation this near]
  have bl: "b < 2" by (simp add: b_def)
  note dm = div_mod_double [OF d bl, of X, folded R2_def]
  have "unat (udw_all r') = (2 * X + b) mod unat d" using step(1) dm(1) by simp
  moreover have "unat c' = (2 * X + b) div unat d mod 2" using step(2) dm(2) by (simp add: mod_mult_self4 Suc_double_not_eq_double)
  moreover have "unat (udw_all q') = unat n mod 2 ^ k * 2 ^ (64 - k) + (2 * X + b) div unat d div 2"
  proof -
    have "(2 * X + b) div unat d div 2 = X div unat d" using dm(2) by simp
    have "unat (udw_all q') = (unat n mod 2 ^ k * 2 ^ (64 - k) + X div unat d) mod 2 ^ 64"
      using step(3) q c udivmod_q_step [of k "unat n" "X div unat d"] k by simp
    also have "\<dots> = unat n mod 2 ^ k * 2 ^ (64 - k) + X div unat d"
    proof (rule mod_less)
      have "(2 :: nat) ^ (64 - k) = 2 * 2 ^ (63 - k)" using k by (simp flip: power_Suc add: Suc_diff_le)
      then have "unat n mod 2 ^ k * 2 ^ (64 - k) + 2 * 2 ^ (63 - k) = 2 * ((unat n mod 2 ^ k + 1) * 2 ^ (63 - k))"
        by (simp add: algebra_simps)
      also have "\<dots> \<le> 2 ^ 64" using mk by simp
      finally show "unat n mod 2 ^ k * 2 ^ (64 - k) + X div unat d < 2 ^ 64" using Xk by linarith
    qed
    finally show ?thesis using \<open>(2 * X + b) div unat d div 2 = X div unat d\<close> by simp
  qed
  ultimately show ?thesis by (simp add: udivmod_inv_def iter X2)
qed


lemma udivmod_loop_inv:
  fixes n d :: u64
  assumes "udivmod_inv (unat n) (unat d) k s" "k < 64" "0 < unat d"
    "unat d < 2 ^ 63 \<or> (k \<le> 1 \<and> 2 ^ 63 \<le> unat n)"
  shows "udivmod_inv (unat n) (unat d) 0 (udivmod_loop k d s)"
  using assms
proof (induction k arbitrary: s)
  case (Suc k)
  obtain q r c where s: "s = (q, r, c)" by (metis prod_cases3)
  have "udivmod_inv (unat n) (unat d) k (udivmod_iter d s)"
    using Suc.prems unfolding s by (intro udivmod_inv_step) auto
  then show ?case using Suc.IH [of "udivmod_iter d s"] Suc.prems(2-4) by auto
qed simp

lemma udivmod_finish:
  assumes inv: "udivmod_inv (unat n) (unat d) 0 (q, r, c)" and d: "d \<noteq> 0"
  shows "push_bit 1 (udw_all q) OR ucast c = n div d" "udw_all r = n mod d"
proof -
  have c: "unat c = unat n div unat d mod 2" and q: "unat (udw_all q) = unat n div unat d div 2"
    and r: "unat (udw_all r) = unat n mod unat d"
    using inv by (simp_all add: udivmod_inv_def)
  have uc: "unat (ucast c :: u64) = unat c"
    using c by (simp add: unsigned_ucast_eq take_bit_nat_eq_self)
  have "unat n div unat d < 2 ^ 64"
    using le_less_trans [OF div_le_dividend unsigned_less [of n, where ?'a = nat]] by simp
  moreover have "unat (push_bit 1 (udw_all q) OR ucast c) = (2 * (unat n div unat d div 2) + unat n div unat d mod 2) mod 2 ^ 64"
    using unat_shl1_or [of "ucast c" "udw_all q"] by (simp only: uc c q)
  ultimately have "unat (push_bit 1 (udw_all q) OR ucast c) = unat n div unat d" by simp
  then show "push_bit 1 (udw_all q) OR ucast c = n div d"
    by (intro unsigned_word_eqI [where 'a = nat]) (simp add: unat_div_distrib)
  show "udw_all r = n mod d"
    using r by (intro unsigned_word_eqI [where 'a = nat]) (simp add: unat_mod_distrib)
qed

section \<open>Preparing the loop\<close>

lemma and_pred_pow2:
  assumes x: "x \<noteq> 0" and a: "x AND (x - 1) = 0"
  shows "unat (x :: u32) = 2 ^ builtin_ctz x"
proof -
  define c where "c = builtin_ctz x"
  note ctz = builtin_ctz_bounds [OF x, folded c_def]
  have nz: "0 < unat x" using x by (metis unsigned_eq_0_iff gr0I)
  obtain m where m: "unat x = 2 ^ c * m" using ctz(2) by (auto elim: dvdE)
  have odd: "odd m" using ctz(3) m by simp
  then obtain j where j: "m = 2 * j + 1" by (auto elim: oddE)
  have pred: "unat (x - 1) = 2 ^ c * (2 * j) + (2 ^ c - 1)"
  proof -
    have "unat (x - 1) = unat x - 1" using nz by (simp add: unat_minus_one x)
    also have "\<dots> = 2 ^ c * (2 * j) + (2 ^ c - 1)" by (simp add: m j algebra_simps)
    finally show ?thesis .
  qed
  have "unat (x AND (x - 1)) = unat x AND unat (x - 1)" by (rule unsigned_and_eq)
  then have "unat x AND unat (x - 1) = 0" using a by simp
  then have "drop_bit c (unat x) AND drop_bit c (unat (x - 1)) = 0"
    by (simp only: drop_bit_and [symmetric] drop_bit_of_0)
  then have "(unat x div 2 ^ c) AND (unat (x - 1) div 2 ^ c) = 0"
    by (simp only: drop_bit_eq_div)
  moreover have "unat x div 2 ^ c = 2 * j + 1" by (simp add: m j)
  moreover have "unat (x - 1) div 2 ^ c = 2 * j"
  proof -
    have "(2 ^ c * (2 * j) + r) div 2 ^ c = 2 * j" if "r < 2 ^ c" for r :: nat using that by simp
    moreover have "(2 :: nat) ^ c - 1 < 2 ^ c" by simp
    ultimately show ?thesis unfolding pred by blast
  qed
  moreover have "(2 * j + 1) AND (2 * j) = 2 * j"
  proof (rule bit_eqI)
    fix n show "bit ((2 * j + 1) AND (2 * j)) n = bit (2 * j) n"
      unfolding bit_and_iff by (cases n) (simp_all add: bit_Suc bit_0)
  qed
  ultimately have "j = 0" by simp
  then show ?thesis using m j by (simp add: c_def)
qed

lemma pow2_pred_mask:
  assumes "unat (x :: u32) = 2 ^ c" "c < 32"
  shows "unat (y AND (x - 1)) = unat y mod 2 ^ c"
proof -
  have "(2 :: nat) ^ c < 2 ^ 32" using assms(2) by (intro power_strict_increasing) simp_all
  then have "unat x = unat (of_nat (2 ^ c) :: u32)" using assms(1) unfolding unat_of_nat by (simp add: mod_less)
  then have "x = of_nat (2 ^ c)" by (rule unsigned_word_eqI)
  then have "x - 1 = mask c" by (simp add: mask_eq_exp_minus_1)
  then show ?thesis by (simp add: take_bit_eq_mask [symmetric] unsigned_take_bit_eq take_bit_eq_mod [where 'a = nat])
qed

text \<open>Bringing the dividend into position: \<open>q = a << (64 - sr)\<close> and \<open>r = a >> sr\<close>.\<close>

lemma load_small:
  assumes "1 \<le> k" "k \<le> 31"
  shows "udw_all \<lparr>low = 0, high = push_bit (32 - k) (low (udw_of a))\<rparr> = push_bit (64 - k) a"
    "udw_all \<lparr>low = push_bit (32 - k) (high (udw_of a)) OR drop_bit k (low (udw_of a)),
              high = drop_bit k (high (udw_of a))\<rparr> = drop_bit k a"
  using assms
  by (intro bit_word_eqI; auto simp: bit_udw_all udw_of_def bit_simps not_less dest: bit_imp_le_length;
      simp add: algebra_simps)+

lemma load_32:
  "udw_all \<lparr>low = 0, high = low (udw_of a)\<rparr> = push_bit 32 a"
  "udw_all \<lparr>low = high (udw_of a), high = 0\<rparr> = drop_bit 32 a"
  by (intro bit_word_eqI; auto simp: bit_udw_all udw_of_def bit_simps not_less dest: bit_imp_le_length)+

lemma load_large:
  assumes "33 \<le> k" "k \<le> 63"
  shows "udw_all \<lparr>low = push_bit (64 - k) (low (udw_of a)),
      high = push_bit (64 - k) (high (udw_of a)) OR drop_bit (k - 32) (low (udw_of a))\<rparr> = push_bit (64 - k) a"
    "udw_all \<lparr>low = drop_bit (k - 32) (high (udw_of a)), high = 0\<rparr> = drop_bit k a"
  using assms
  by (intro bit_word_eqI; auto simp: bit_udw_all udw_of_def bit_simps not_less dest: bit_imp_le_length;
      simp add: algebra_simps)+


text \<open>What the preparation promises: the result itself, or a loop that is ready to run.\<close>

definition prep_ok :: "u64 \<Rightarrow> u64 \<Rightarrow> u64 \<times> u64 + u32 \<times> udwords \<times> udwords \<Rightarrow> bool" where
  "prep_ok a b p = (case p of
     Inl (x, y) \<Rightarrow> x = a div b \<and> y = a mod b
   | Inr (sr, q, r) \<Rightarrow>
       1 \<le> unat sr \<and> unat sr < 64 \<and> udw_all q = push_bit (64 - unat sr) a \<and> udw_all r = drop_bit (unat sr) a \<and>
       unat a div 2 ^ unat sr < unat b \<and> (unat b < 2 ^ 63 \<or> (unat sr \<le> 1 \<and> 2 ^ 63 \<le> unat a)))"

lemma udivmod_inv_start:
  assumes "prep_ok a b (Inr (sr, q, r))"
  shows "udivmod_inv (unat a) (unat b) (unat sr) (q, r, 0)"
proof -
  define k where "k = unat sr"
  have k: "k < 64" and q: "udw_all q = push_bit (64 - k) a" and r: "udw_all r = drop_bit k a"
    and lt: "unat a div 2 ^ k < unat b"
    using assms by (simp_all add: prep_ok_def k_def)
  have "unat (udw_all q) = (unat a * 2 ^ (64 - k)) mod 2 ^ 64"
    by (simp only: q unsigned_push_bit_eq take_bit_eq_mod [where 'a = nat] push_bit_eq_mult [where 'a = nat]) simp
  also have "(2 :: nat) ^ 64 = 2 ^ k * 2 ^ (64 - k)" using k by (simp flip: power_add)
  finally have "unat (udw_all q) = unat a mod 2 ^ k * 2 ^ (64 - k)" by (simp only: mod_mult_mult2)
  then show ?thesis using lt unfolding k_def [symmetric]
    by (simp add: udivmod_inv_def r unat_drop_bit_div)
qed

lemma udivmoddi4_from_prep:
  assumes "udivmod_prepare a b = Inr p" "prep_ok a b p" "b \<noteq> 0"
  shows "udivmoddi4 a b = Inr (a div b, a mod b)"
proof (cases p)
  case (Inl qr)
  then show ?thesis using assms by (cases qr) (simp add: udivmoddi4_def prep_ok_def)
next
  case (Inr t)
  obtain sr q r where t: "t = (sr, q, r)" by (metis prod_cases3)
  obtain q' r' c' where res: "udivmod_loop (unat sr) b (q, r, 0) = (q', r', c')" by (metis prod_cases3)
  have b: "0 < unat b" using assms(3) by (metis unsigned_eq_0_iff gr0I)
  have ok: "prep_ok a b (Inr (sr, q, r))" using assms(2) Inr t by simp
  have "udivmod_inv (unat a) (unat b) 0 (udivmod_loop (unat sr) b (q, r, 0))"
    using ok by (intro udivmod_loop_inv udivmod_inv_start b) (auto simp: prep_ok_def)
  then have inv: "udivmod_inv (unat a) (unat b) 0 (q', r', c')" by (simp only: res)
  show ?thesis
    unfolding udivmoddi4_def assms(1) Inr t bindR_Inr sum.case prod.case res Let_def
    using udivmod_finish [OF inv assms(3)] by simp
qed


lemma udw_halves:
  "unat a = unat (high (udw_of a)) * 2 ^ 32 + unat (low (udw_of a))"
  using unat_udw_all [of "udw_of a"] by simp

lemma prep_done:
  assumes "unat x = unat a div unat b" "unat y = unat a mod unat b"
  shows "prep_ok a b (Inl (x, y))"
proof -
  have "x = a div b" by (rule unsigned_word_eqI [where 'a = nat]) (simp add: assms(1) unat_div_distrib)
  moreover have "y = a mod b" by (rule unsigned_word_eqI [where 'a = nat]) (simp add: assms(2) unat_mod_distrib)
  ultimately show ?thesis by (simp add: prep_ok_def)
qed

lemma unat_ucast_32_64 [simp]: "unat (ucast (x :: u32) :: u64) = unat x"
proof -
  have "unat x < 2 ^ 64" using unsigned_less [of x, where ?'a = nat] by simp
  then show ?thesis by (simp add: unsigned_ucast_eq take_bit_nat_eq_self)
qed

lemma prep_small_small:
  assumes "high (udw_of a) = 0" "high (udw_of b) = 0"
  shows "prep_ok a b (Inl (ucast (low (udw_of a) div low (udw_of b)), ucast (low (udw_of a) mod low (udw_of b))))"
  using udw_halves [of a] udw_halves [of b]
  by (intro prep_done; simp only: unat_ucast_32_64 unat_div_distrib unat_mod_distrib assms; simp)

lemma prep_small_big:
  assumes "high (udw_of a) = 0" "high (udw_of b) \<noteq> 0"
  shows "prep_ok a b (Inl (0, ucast (low (udw_of a))))"
proof -
  have "0 < unat (high (udw_of b))" using assms(2) by (metis unsigned_eq_0_iff gr0I)
  moreover have "unat (low (udw_of a)) < 2 ^ 32" using unsigned_less [of "low (udw_of a)", where ?'a = nat] by simp
  ultimately have "unat a < unat b"
    using udw_halves [of a] udw_halves [of b] assms(1) by (simp only: unsigned_0 mult_0)
      (simp; linarith)
  moreover have "unat a = unat (low (udw_of a))" using udw_halves [of a] assms(1) by simp
  ultimately show ?thesis by (intro prep_done) (simp_all only: unat_ucast_32_64 div_less mod_less unsigned_0)
qed

lemma prep_high_high:
  assumes "low (udw_of a) = 0" "low (udw_of b) = 0"
  shows "prep_ok a b (Inl (ucast (high (udw_of a) div high (udw_of b)),
    udw_all \<lparr>low = 0, high = high (udw_of a) mod high (udw_of b)\<rparr>))"
  using udw_halves [of a] udw_halves [of b]
  by (intro prep_done; simp only: unat_ucast_32_64 unat_udw_all unat_div_distrib unat_mod_distrib assms
      udwords.simps unsigned_0 add_0_right; simp add: mult_mod_left)

lemma prep_high_pow2:
  assumes "low (udw_of b) = 0" "high (udw_of b) \<noteq> 0" "high (udw_of b) AND (high (udw_of b) - 1) = 0"
  shows "prep_ok a b (Inl (ucast (drop_bit (builtin_ctz (high (udw_of b))) (high (udw_of a))),
    udw_all \<lparr>low = low (udw_of a), high = high (udw_of a) AND (high (udw_of b) - 1)\<rparr>))"
proof -
  define c where "c = builtin_ctz (high (udw_of b))"
  have p: "unat (high (udw_of b)) = 2 ^ c" using and_pred_pow2 [OF assms(2,3)] by (simp only: c_def)
  have c: "c < 32" using builtin_ctz_bounds [OF assms(2)] by (simp only: c_def)
  have b: "unat b = 2 ^ 32 * 2 ^ c" using udw_halves [of b] assms(1) p by (simp only: unsigned_0 add_0_right mult.commute)
  have l: "unat (low (udw_of a)) < 2 ^ 32" using unsigned_less [of "low (udw_of a)", where ?'a = nat] by simp
  have "unat a div 2 ^ 32 = unat (high (udw_of a))" "unat a mod 2 ^ 32 = unat (low (udw_of a))"
    by (simp_all only: low_high_udw_of)
  then have "unat a div unat b = unat (high (udw_of a)) div 2 ^ c"
    "unat a mod unat b = (unat (high (udw_of a)) mod 2 ^ c) * 2 ^ 32 + unat (low (udw_of a))"
    by (simp_all only: b div_mult2_eq mod_mult2_eq mult.commute [of _ "2 ^ 32"])
  then show ?thesis unfolding c_def [symmetric]
    by (intro prep_done) (simp_all only: unat_ucast_32_64 unat_udw_all unat_drop_bit_div udwords.simps pow2_pred_mask [OF p c])
qed


lemma unat_diff_counts:
  assumes "x < 32" "y < 32"
  shows "y \<le> x \<Longrightarrow> unat (of_nat x - of_nat y :: u32) = x - y"
    and "x < y \<Longrightarrow> 31 < unat (of_nat x - of_nat y :: u32)"
proof -
  assume "y \<le> x"
  then have eq: "(of_nat x - of_nat y :: u32) = of_nat (x - y)" by simp
  show "unat (of_nat x - of_nat y :: u32) = x - y" unfolding eq unat_of_nat using assms by simp
next
  assume "x < y"
  then have eq: "(of_nat x - of_nat y :: u32) = of_nat (2 ^ 32 - (y - x))"
    using assms by (simp add: of_nat_diff)
  show "31 < unat (of_nat x - of_nat y :: u32)" unfolding eq unat_of_nat using \<open>x < y\<close> assms by simp
qed

lemma dividend_bounds:
  assumes "high (udw_of a) \<noteq> 0"
  defines "c \<equiv> builtin_clz (high (udw_of a))"
  shows "c < 32" "2 ^ (63 - c) \<le> unat a" "unat a < 2 ^ (64 - c)"
proof -
  note b = builtin_clz_bounds [OF assms(1), folded c_def]
  show c: "c < 32" by (rule b(1))
  have e: "(2 :: nat) ^ (63 - c) = 2 ^ (31 - c) * 2 ^ 32" "(2 :: nat) ^ (64 - c) = 2 ^ (32 - c) * 2 ^ 32"
  proof -
    have "63 - c = 31 - c + 32" "64 - c = 32 - c + 32" using c by simp_all
    then show "(2 :: nat) ^ (63 - c) = 2 ^ (31 - c) * 2 ^ 32" "(2 :: nat) ^ (64 - c) = 2 ^ (32 - c) * 2 ^ 32"
      by (simp_all only: power_add)
  qed
  have hl: "unat (high (udw_of a)) = unat a div 2 ^ 32" by (simp only: low_high_udw_of)
  show "2 ^ (63 - c) \<le> unat a"
    using b(2) unfolding e hl by (subst (asm) less_eq_div_iff_mult_less_eq) simp_all
  show "unat a < 2 ^ (64 - c)"
    using b(3) unfolding e hl by (subst (asm) div_less_iff_less_mult) simp_all
qed

lemma prep_run:
  assumes "unat sr = k" "1 \<le> k" "k < 64" "udw_all q = push_bit (64 - k) a" "udw_all r = drop_bit k a"
    and "unat a < 2 ^ (m + k)" "2 ^ m \<le> unat b"
    and "unat b < 2 ^ 63 \<or> (k \<le> 1 \<and> 2 ^ 63 \<le> unat a)"
  shows "prep_ok a b (Inr (sr, q, r))"
proof -
  have "unat a < 2 ^ m * 2 ^ k" using assms(6) by (simp only: power_add)
  then have "unat a div 2 ^ k < unat b" using assms(7) by (metis less_le_trans less_mult_imp_div_less)
  then show ?thesis using assms by (simp add: prep_ok_def)
qed

lemma prep_less:
  assumes "unat a < unat b"
  shows "prep_ok a b (Inl (0, a))"
  using assms by (intro prep_done) simp_all

lemma clz_non_pow2: "x AND (x - 1) \<noteq> 0 \<Longrightarrow> builtin_clz x \<le> 30"
proof (rule ccontr)
  assume x: "x AND (x - 1) \<noteq> 0" and "\<not> builtin_clz x \<le> 30"
  then have "x \<noteq> 0" by auto
  note b = builtin_clz_bounds [OF this]
  have "builtin_clz x = 31" using b(1) \<open>\<not> builtin_clz x \<le> 30\<close> by simp
  then have "unat x = unat (1 :: u32)" using b(2,3) by simp
  then have "x = 1" by (rule unsigned_word_eqI)
  then show False using x by simp
qed

text \<open>Both words of the divisor matter.\<close>

lemma prep_wide:
  assumes hn: "high (udw_of a) \<noteq> 0" and hd: "high (udw_of b) \<noteq> 0"
  defines "sr \<equiv> of_nat (builtin_clz (high (udw_of b))) - of_nat (builtin_clz (high (udw_of a))) :: u32"
  shows "31 < unat sr \<Longrightarrow> unat a < unat b"
    and "unat sr \<le> 31 \<Longrightarrow> udw_all q = push_bit (64 - (unat sr + 1)) a \<Longrightarrow>
      udw_all r = drop_bit (unat sr + 1) a \<Longrightarrow> prep_ok a b (Inr (sr + 1, q, r))"
proof -
  let ?n = "builtin_clz (high (udw_of a))" and ?d = "builtin_clz (high (udw_of b))"
  note A = dividend_bounds [OF hn] and B = dividend_bounds [OF hd]
  note cnt = unat_diff_counts [OF B(1) A(1), folded sr_def]
  show "unat a < unat b" if "31 < unat sr"
  proof -
    have "?d < ?n" using cnt(1) that A(1) B(1) by (rule_tac ccontr) simp
    then have "(2 :: nat) ^ (64 - ?n) \<le> 2 ^ (63 - ?d)" using A(1) by (intro power_increasing) simp_all
    then show ?thesis using A(3) B(2) by linarith
  qed
  assume le: "unat sr \<le> 31" and q: "udw_all q = push_bit (64 - (unat sr + 1)) a"
    and r: "udw_all r = drop_bit (unat sr + 1) a"
  have nd: "?n \<le> ?d" using cnt(2) le by (rule_tac ccontr) simp
  then have sr: "unat sr = ?d - ?n" by (rule cnt(1))
  have s1: "unat (sr + 1) = unat sr + 1"
    by (subst unat_word_ariths) (use le in \<open>simp add: mod_less\<close>)
  show "prep_ok a b (Inr (sr + 1, q, r))"
  proof (rule prep_run [OF s1 _ _ q r, of "63 - ?d"])
    show "1 \<le> unat sr + 1" "unat sr + 1 < 64" using le by simp_all
    have "63 - ?d + (unat sr + 1) = 64 - ?n" using sr nd B(1) by simp
    then show "unat a < 2 ^ (63 - ?d + (unat sr + 1))" using A(3) by simp
    show "2 ^ (63 - ?d) \<le> unat b" by (rule B(2))
    show "unat b < 2 ^ 63 \<or> unat sr + 1 \<le> 1 \<and> 2 ^ 63 \<le> unat a"
    proof (cases "?d = 0")
      case True
      then show ?thesis using nd sr A(2) by simp
    next
      case False
      then have "(2 :: nat) ^ (64 - ?d) \<le> 2 ^ 63" by (intro power_increasing) simp_all
      then show ?thesis using B(3) by linarith
    qed
  qed
qed


text \<open>The divisor fits in one word and is no power of two.\<close>

lemma prep_narrow:
  assumes hn: "high (udw_of a) \<noteq> 0" and hd: "high (udw_of b) = 0"
    and np: "low (udw_of b) AND (low (udw_of b) - 1) \<noteq> 0"
  defines "sr \<equiv> 1 + 32 + of_nat (builtin_clz (low (udw_of b))) - of_nat (builtin_clz (high (udw_of a))) :: u32"
  shows "2 \<le> unat sr" "unat sr \<le> 63"
    and "udw_all q = push_bit (64 - unat sr) a \<Longrightarrow> udw_all r = drop_bit (unat sr) a \<Longrightarrow>
      prep_ok a b (Inr (sr, q, r))"
proof -
  let ?n = "builtin_clz (high (udw_of a))" and ?d = "builtin_clz (low (udw_of b))"
  note A = dividend_bounds [OF hn]
  have d30: "?d \<le> 30" by (rule clz_non_pow2 [OF np])
  have "low (udw_of b) \<noteq> 0" using np by auto
  note B = builtin_clz_bounds [OF this]
  have b: "unat b = unat (low (udw_of b))" using udw_halves [of b] hd by simp
  have eq: "sr = of_nat (33 + ?d - ?n)" unfolding sr_def using A(1) by (simp add: of_nat_diff)
  have sr: "unat sr = 33 + ?d - ?n" unfolding eq unat_of_nat using A(1) d30 by simp
  show sr2: "2 \<le> unat sr" and sr63: "unat sr \<le> 63" using sr A(1) d30 by simp_all
  assume q: "udw_all q = push_bit (64 - unat sr) a" and r: "udw_all r = drop_bit (unat sr) a"
  show "prep_ok a b (Inr (sr, q, r))"
  proof (rule prep_run [OF refl _ _ q r, of "31 - ?d"])
    show "1 \<le> unat sr" "unat sr < 64" using sr2 sr63 by simp_all
    have "31 - ?d + unat sr = 64 - ?n" using sr d30 A(1) by simp
    then show "unat a < 2 ^ (31 - ?d + unat sr)" using A(3) by simp
    show "2 ^ (31 - ?d) \<le> unat b" using B(2) b by simp
    have "unat b < 2 ^ 32" unfolding b using unsigned_less [of "low (udw_of b)", where ?'a = nat] by simp
    then show "unat b < 2 ^ 63 \<or> unat sr \<le> 1 \<and> 2 ^ 63 \<le> unat a" by simp
  qed
qed

lemma prep_low_pow2:
  assumes hd: "high (udw_of b) = 0" and ld: "low (udw_of b) \<noteq> 0"
    and p2: "low (udw_of b) AND (low (udw_of b) - 1) = 0"
  defines "c \<equiv> builtin_ctz (low (udw_of b))"
  shows "low (udw_of b) = 1 \<Longrightarrow> prep_ok a b (Inl (a, ucast (low (udw_of a) AND (low (udw_of b) - 1))))"
    and "low (udw_of b) \<noteq> 1 \<Longrightarrow> 1 \<le> c \<and> c \<le> 31"
    and "x = drop_bit c a \<Longrightarrow> prep_ok a b (Inl (x, ucast (low (udw_of a) AND (low (udw_of b) - 1))))"
proof -
  have p: "unat (low (udw_of b)) = 2 ^ c" unfolding c_def by (rule and_pred_pow2 [OF ld p2])
  have c: "c < 32" unfolding c_def by (rule builtin_ctz_bounds(1) [OF ld])
  have b: "unat b = 2 ^ c" using udw_halves [of b] hd p by simp
  have m: "unat (low (udw_of a) AND (low (udw_of b) - 1)) = unat a mod 2 ^ c"
  proof -
    have "(2 :: nat) ^ c dvd 2 ^ 32" using c by (intro le_imp_power_dvd) simp
    then show ?thesis unfolding pow2_pred_mask [OF p c] low_high_udw_of by (rule mod_mod_cancel)
  qed
  have one: "low (udw_of b) = 1 \<longleftrightarrow> c = 0"
  proof
    assume "low (udw_of b) = 1"
    then have "(2 :: nat) ^ c = 1" using p by simp
    then show "c = 0" by (cases c) simp_all
  next
    assume "c = 0"
    then have "unat (low (udw_of b)) = unat (1 :: u32)" using p by simp
    then show "low (udw_of b) = 1" by (rule unsigned_word_eqI)
  qed
  show "low (udw_of b) \<noteq> 1 \<Longrightarrow> 1 \<le> c \<and> c \<le> 31" using one c by simp
  show 3: "prep_ok a b (Inl (x, ucast (low (udw_of a) AND (low (udw_of b) - 1))))" if "x = drop_bit c a" for x
    using that by (intro prep_done) (simp_all only: b unat_drop_bit_div unat_ucast_32_64 m)
  show "low (udw_of b) = 1 \<Longrightarrow> prep_ok a b (Inl (a, ucast (low (udw_of a) AND (low (udw_of b) - 1))))"
    using one by (intro 3) simp
qed


lemma c_shifts:
  "unat n < 32 \<Longrightarrow> c_shl (x :: u32) n = Inr (push_bit (unat n) x)"
  "unat n < 32 \<Longrightarrow> c_shr (x :: u32) n = Inr (drop_bit (unat n) x)"
  by (simp_all add: c_shl_def c_shr_def)

lemma unat_counts:
  fixes sr :: u32
  shows "unat sr \<le> 32 \<Longrightarrow> unat (32 - sr) = 32 - unat sr"
    and "unat sr \<le> 64 \<Longrightarrow> unat (64 - sr) = 64 - unat sr"
    and "32 \<le> unat sr \<Longrightarrow> unat (sr - 32) = unat sr - 32"
  by (subst unat_sub; simp add: word_le_nat_alt)+

lemma unat_eq_32: "sr = 32 \<longleftrightarrow> unat (sr :: u32) = 32"
proof
  assume "unat sr = 32"
  then have "unat sr = unat (32 :: u32)" by simp
  then show "sr = 32" by (rule unsigned_word_eqI)
qed simp


lemma prepare_high_divisor:
  assumes hn: "high (udw_of a) \<noteq> 0" and hd: "high (udw_of b) \<noteq> 0" and ld: "low (udw_of b) \<noteq> 0"
  shows "\<exists>p. udivmod_prepare a b = Inr p \<and> prep_ok a b p"
proof -
  define sr where "sr = (of_nat (builtin_clz (high (udw_of b))) - of_nat (builtin_clz (high (udw_of a))) :: u32)"
  note wide = prep_wide [OF hn hd, folded sr_def]
  show ?thesis
  proof (cases "unat sr \<le> 31")
    case False
    then have "prep_ok a b (Inl (0, a))" using wide(1) by (intro prep_less) simp
    moreover have "udivmod_prepare a b = Inr (Inl (0, a))"
      using False hn hd ld by (simp add: udivmod_prepare_def Let_def sr_def [symmetric] word_less_nat_alt)
    ultimately show ?thesis by blast
  next
    case True
    have s1: "unat (sr + 1) = unat sr + 1"
      by (subst unat_word_ariths) (use True in \<open>simp add: mod_less\<close>)
    define t where "t = sr + 1"
    have nlt: "\<not> 31 < sr" using True by (simp add: word_less_nat_alt)
    show ?thesis
    proof (cases "unat sr = 31")
      case True
      then have "sr + 1 = 32" using s1 by (simp add: unat_eq_32)
      then have "udivmod_prepare a b = Inr (Inr (sr + 1, \<lparr>low = 0, high = low (udw_of a)\<rparr>, \<lparr>low = high (udw_of a), high = 0\<rparr>))"
        using hn hd ld nlt by (simp add: udivmod_prepare_def Let_def sr_def [symmetric])
      moreover have "prep_ok a b (Inr (sr + 1, \<lparr>low = 0, high = low (udw_of a)\<rparr>, \<lparr>low = high (udw_of a), high = 0\<rparr>))"
        using True load_32 [of a] by (intro wide(2)) simp_all
      ultimately show ?thesis by blast
    next
      case False
      then have k: "1 \<le> unat sr + 1" "unat sr + 1 \<le> 31" using True by simp_all
      then have ne: "sr + 1 \<noteq> 32" using s1 by (simp add: unat_eq_32)
      have "udivmod_prepare a b = Inr (Inr (t, \<lparr>low = 0, high = push_bit (32 - unat t) (low (udw_of a))\<rparr>,
          \<lparr>low = push_bit (32 - unat t) (high (udw_of a)) OR drop_bit (unat t) (low (udw_of a)),
           high = drop_bit (unat t) (high (udw_of a))\<rparr>))"
        using hn hd ld nlt ne [folded t_def] k [folded s1, folded t_def]
        unfolding udivmod_prepare_def Let_def sr_def [symmetric] t_def [symmetric]
        by (simp add: c_shifts unat_counts)
      then show ?thesis using wide(2) [OF True load_small [OF k]] unfolding t_def s1 by blast
    qed
  qed
qed

lemma prepare_high_only:
  assumes hn: "high (udw_of a) \<noteq> 0" and hd: "high (udw_of b) \<noteq> 0" and ld: "low (udw_of b) = 0"
  shows "\<exists>p. udivmod_prepare a b = Inr p \<and> prep_ok a b p"
proof -
  consider "low (udw_of a) = 0" | "low (udw_of a) \<noteq> 0" "high (udw_of b) AND (high (udw_of b) - 1) = 0"
    | "low (udw_of a) \<noteq> 0" "high (udw_of b) AND (high (udw_of b) - 1) \<noteq> 0" by blast
  then show ?thesis
  proof cases
    case 1
    then show ?thesis using hn hd ld prep_high_high [of a b]
      by (simp add: udivmod_prepare_def Let_def c_udiv_def c_umod_def)
  next
    case 2
    have "builtin_ctz (high (udw_of b)) < 32" by (rule builtin_ctz_bounds(1) [OF hd])
    then have "unat (of_nat (builtin_ctz (high (udw_of b))) :: u32) = builtin_ctz (high (udw_of b))"
      by (simp add: unat_of_nat)
    then show ?thesis using 2 hn hd ld prep_high_pow2 [of b a] \<open>builtin_ctz (high (udw_of b)) < 32\<close>
      by (simp add: udivmod_prepare_def Let_def c_shifts)
  next
    case 3
    define sr where "sr = (of_nat (builtin_clz (high (udw_of b))) - of_nat (builtin_clz (high (udw_of a))) :: u32)"
    note wide = prep_wide [OF hn hd, folded sr_def]
    have n31: "unat sr \<noteq> 31"
    proof
      assume "unat sr = 31"
      moreover have "builtin_clz (high (udw_of b)) \<le> 30" by (rule clz_non_pow2 [OF 3(2)])
      ultimately show False
        using unat_diff_counts [of "builtin_clz (high (udw_of b))" "builtin_clz (high (udw_of a))", folded sr_def]
          dividend_bounds(1) [OF hn]
        by (cases "builtin_clz (high (udw_of a)) \<le> builtin_clz (high (udw_of b))") auto
    qed
    show ?thesis
    proof (cases "unat sr \<le> 30")
      case False
      then have "31 < unat sr" using n31 by simp
      then have "prep_ok a b (Inl (0, a))" using wide(1) by (intro prep_less) simp
      moreover have "udivmod_prepare a b = Inr (Inl (0, a))"
        using False 3 hn hd ld by (simp add: udivmod_prepare_def Let_def sr_def [symmetric] word_less_nat_alt)
      ultimately show ?thesis by blast
    next
      case True
      then have k: "1 \<le> unat sr + 1" "unat sr + 1 \<le> 31" by simp_all
      have s1: "unat (sr + 1) = unat sr + 1"
        by (subst unat_word_ariths) (use True in \<open>simp add: mod_less\<close>)
      define t where "t = sr + 1"
      have nlt: "\<not> 30 < sr" using True by (simp add: word_less_nat_alt)
      have "udivmod_prepare a b = Inr (Inr (t, \<lparr>low = 0, high = push_bit (32 - unat t) (low (udw_of a))\<rparr>,
          \<lparr>low = push_bit (32 - unat t) (high (udw_of a)) OR drop_bit (unat t) (low (udw_of a)),
           high = drop_bit (unat t) (high (udw_of a))\<rparr>))"
        using hn hd ld nlt 3 k [folded s1, folded t_def]
        unfolding udivmod_prepare_def Let_def sr_def [symmetric] t_def [symmetric]
        by (simp add: c_shifts unat_counts)
      moreover have "unat sr \<le> 31" using True by simp
      ultimately show ?thesis using wide(2) [OF _ load_small [OF k]] unfolding t_def s1 by blast
    qed
  qed
qed


lemma prepare_low_only:
  assumes hn: "high (udw_of a) \<noteq> 0" and hd: "high (udw_of b) = 0" and ld: "low (udw_of b) \<noteq> 0"
  shows "\<exists>p. udivmod_prepare a b = Inr p \<and> prep_ok a b p"
proof (cases "low (udw_of b) AND (low (udw_of b) - 1) = 0")
  case p2: True
  note low = prep_low_pow2 [OF hd ld p2]
  show ?thesis
  proof (cases "low (udw_of b) = 1")
    case True
    then show ?thesis using hn hd ld p2 low(1) [of a] by (simp add: udivmod_prepare_def Let_def)
  next
    case False
    define c where "c = builtin_ctz (low (udw_of b))"
    have c: "1 \<le> c" "c \<le> 31" using low(2) False by (simp_all add: c_def)
    then have uc: "unat (of_nat c :: u32) = c" by (simp add: unat_of_nat)
    have "udivmod_prepare a b = Inr (Inl (udw_all \<lparr>low = push_bit (32 - c) (high (udw_of a)) OR drop_bit c (low (udw_of a)),
              high = drop_bit c (high (udw_of a))\<rparr>, ucast (low (udw_of a) AND (low (udw_of b) - 1))))"
      using hn hd ld p2 False c uc
      by (simp add: udivmod_prepare_def Let_def c_def [symmetric] c_shifts unat_counts)
    then show ?thesis using low(3) [folded c_def, OF load_small(2) [OF c]] by blast
  qed
next
  case False
  define sr where "sr = (1 + 32 + of_nat (builtin_clz (low (udw_of b))) - of_nat (builtin_clz (high (udw_of a))) :: u32)"
  note nar = prep_narrow [OF hn hd False, folded sr_def]
  consider "unat sr = 32" | "unat sr \<le> 31" | "33 \<le> unat sr" by linarith
  then show ?thesis
  proof cases
    case 1
    then have "sr = 32" by (simp add: unat_eq_32)
    then have "udivmod_prepare a b = Inr (Inr (sr, \<lparr>low = 0, high = low (udw_of a)\<rparr>, \<lparr>low = high (udw_of a), high = 0\<rparr>))"
      unfolding udivmod_prepare_def Let_def sr_def [symmetric] using hn hd ld False by simp
    moreover have "prep_ok a b (Inr (sr, \<lparr>low = 0, high = low (udw_of a)\<rparr>, \<lparr>low = high (udw_of a), high = 0\<rparr>))"
      using 1 load_32 [of a] by (intro nar(3)) simp_all
    ultimately show ?thesis by blast
  next
    case 2
    have k: "1 \<le> unat sr" using nar(1) by simp
    have "sr \<noteq> 32" "sr < 32" using 2 by (simp_all add: unat_eq_32 word_less_nat_alt)
    then have "udivmod_prepare a b = Inr (Inr (sr, \<lparr>low = 0, high = push_bit (32 - unat sr) (low (udw_of a))\<rparr>,
          \<lparr>low = push_bit (32 - unat sr) (high (udw_of a)) OR drop_bit (unat sr) (low (udw_of a)),
           high = drop_bit (unat sr) (high (udw_of a))\<rparr>))"
      unfolding udivmod_prepare_def Let_def sr_def [symmetric]
      using hn hd ld False k 2 by (simp add: c_shifts unat_counts)
    then show ?thesis using nar(3) [OF load_small [OF k 2]] by blast
  next
    case 3
    have k: "unat sr \<le> 63" by (rule nar(2))
    have "sr \<noteq> 32" "\<not> sr < 32" using 3 by (simp_all add: unat_eq_32 word_less_nat_alt)
    then have "udivmod_prepare a b = Inr (Inr (sr,
          \<lparr>low = push_bit (64 - unat sr) (low (udw_of a)),
           high = push_bit (64 - unat sr) (high (udw_of a)) OR drop_bit (unat sr - 32) (low (udw_of a))\<rparr>,
          \<lparr>low = drop_bit (unat sr - 32) (high (udw_of a)), high = 0\<rparr>))"
      unfolding udivmod_prepare_def Let_def sr_def [symmetric]
      using hn hd ld False k 3 by (simp add: c_shifts unat_counts)
    then show ?thesis using nar(3) [OF load_large [OF 3 k]] by blast
  qed
qed

lemma prepare_ok:
  assumes "b \<noteq> 0"
  shows "\<exists>p. udivmod_prepare a b = Inr p \<and> prep_ok a b p"
proof (cases "high (udw_of a) = 0")
  case True
  show ?thesis
  proof (cases "high (udw_of b) = 0")
    case hb: True
    have "low (udw_of b) \<noteq> 0"
    proof
      assume "low (udw_of b) = 0"
      then have "unat b = 0" using udw_halves [of b] hb by simp
      then show False using assms by (simp only: unsigned_eq_0_iff)
    qed
    then show ?thesis using True hb prep_small_small [OF True hb]
      by (simp add: udivmod_prepare_def Let_def c_udiv_def c_umod_def)
  next
    case False
    then show ?thesis using True prep_small_big [OF True False] by (simp add: udivmod_prepare_def Let_def)
  qed
next
  case False
  show ?thesis
  proof (cases "high (udw_of b) = 0")
    case hb: True
    have "low (udw_of b) \<noteq> 0"
    proof
      assume "low (udw_of b) = 0"
      then have "unat b = 0" using udw_halves [of b] hb by simp
      then show False using assms by (simp only: unsigned_eq_0_iff)
    qed
    then show ?thesis by (rule prepare_low_only [OF False hb])
  next
    case hb: False
    then show ?thesis using prepare_high_only [OF False hb] prepare_high_divisor [OF False hb] by blast
  qed
qed

lemma udivmoddi4_ok:
  assumes "b \<noteq> 0"
  shows "udivmoddi4 a b = Inr (a div b, a mod b)"
proof -
  obtain p where "udivmod_prepare a b = Inr p" "prep_ok a b p" using prepare_ok [OF assms] by blast
  then show ?thesis using assms by (rule udivmoddi4_from_prep)
qed

lemma udivmoddi4_zero: "udivmoddi4 a 0 = Inl Undef"
proof -
  have "high (udw_of 0) = 0" "low (udw_of 0) = 0" by (simp_all add: udw_of_def)
  then show ?thesis
    by (simp add: udivmoddi4_def udivmod_prepare_def Let_def c_umod_def)
qed

section \<open>Signed division\<close>

lemma sint_bounds: "- (2 ^ 63) \<le> sint (a :: u64)" "sint (a :: u64) < 2 ^ 63"
  using sint_greater_eq [of a] sint_less [of a] by simp_all

lemma sint_word_of_int: "sint_fits i \<Longrightarrow> sint (word_of_int i :: u64) = i"
  by (simp add: sint_fits_def sint_sbintrunc' signed_take_bit_int_eq_self)

lemma sign_mask: "signed_drop_bit 63 (a :: u64) = (if sint a < 0 then - 1 else 0)"
proof -
  have "sint a < 0 \<longleftrightarrow> bit a 63" using bit_last_iff [of a] by simp
  moreover have "bit a 63 \<longleftrightarrow> 2 ^ 63 \<le> unat a"
  proof -
    have "unat a < 2 ^ 64" using unsigned_less [of a, where ?'a = nat] by simp
    then have "unat a div 2 ^ 63 < 2" by simp
    then have "odd (unat a div 2 ^ 63) \<longleftrightarrow> unat a div 2 ^ 63 \<noteq> 0" by (cases "unat a div 2 ^ 63") auto
    then show ?thesis by (simp add: bit_unat div_eq_0_iff not_less)
  qed
  ultimately show ?thesis by (simp add: signed_drop_bit_63)
qed

lemma not_minus_minus_one: "NOT a - (- 1) = - (a :: u64)"
  by (simp add: minus_eq_not_plus_1 [of a])

lemma negate_masked:
  "(a XOR signed_drop_bit 63 b) - signed_drop_bit 63 b = (if sint b < 0 then - a else (a :: u64))"
  unfolding sign_mask using not_minus_minus_one [of a] by (auto simp del: diff_minus_eq_add)

lemma sint_not: "sint (NOT a) = - sint (a :: u64) - 1"
proof -
  have "sint (NOT a) = signed_take_bit 64 (NOT (sint a))" by (simp add: signed_not_eq)
  also have "\<dots> = NOT (sint a)"
    using sint_bounds [of a] by (intro signed_take_bit_int_eq_self) (simp_all add: not_int_def)
  finally show ?thesis by (simp add: not_int_def)
qed

lemma c_ssub_masked:
  "c_ssub (a XOR signed_drop_bit 63 b) (signed_drop_bit 63 b) =
   (if sint b < 0 then guardR (sint a \<noteq> - (2 ^ 63)) Undef (Inr (- a)) else Inr a)"
proof (cases "sint b < 0")
  case True
  then have "c_ssub (a XOR signed_drop_bit 63 b) (signed_drop_bit 63 b) =
      guardR (sint_fits (sint (NOT a) + 1)) Undef (Inr (- a))"
    using minus_eq_not_plus_1 [of a, symmetric] by (simp add: sign_mask c_ssub_def)
  also have "sint_fits (sint (NOT a) + 1) \<longleftrightarrow> sint a \<noteq> - (2 ^ 63)"
    using sint_bounds [of a] by (auto simp: sint_not sint_fits_def)
  finally show ?thesis using True by simp
next
  case False
  then show ?thesis using sint_bounds [of a] by (simp add: sign_mask c_ssub_def sint_fits_def)
qed


lemma magnitude:
  "c_ssub (a XOR signed_drop_bit 63 a) (signed_drop_bit 63 a) =
   guardR (sint a \<noteq> - (2 ^ 63)) Undef (Inr (word_of_int \<bar>sint a\<bar>))"
proof -
  have "- a = word_of_int (- sint a)" "a = word_of_int (sint a)" by simp_all
  then show ?thesis unfolding c_ssub_masked by (cases "sint a < 0") (simp_all add: guardR_def)
qed

lemma udivmoddi4_of_int:
  assumes "0 \<le> A" "A < 2 ^ 63" "0 < B" "B < 2 ^ 63"
  shows "udivmoddi4 (word_of_int A) (word_of_int B) = Inr (word_of_int (A div B), word_of_int (A mod B))"
proof -
  have u: "uint (word_of_int A :: u64) = A" "uint (word_of_int B :: u64) = B"
    using assms by (simp_all add: unsigned_of_int take_bit_int_eq_self)
  have "(word_of_int B :: u64) \<noteq> 0" using u(2) assms(3) by auto
  then show ?thesis
    using udivmoddi4_ok [of "word_of_int B" "word_of_int A"] by (simp add: word_div_def word_mod_def u)
qed

lemma xor_masks: "signed_drop_bit 63 (a :: u64) XOR signed_drop_bit 63 b = (if (sint a < 0) \<noteq> (sint b < 0) then - 1 else 0)"
  by (simp add: sign_mask)

lemma nonzero_sint: "b \<noteq> 0 \<Longrightarrow> sint (b :: u64) \<noteq> 0"
  by (simp add: signed_eq_0_iff)

lemma abs_bounds:
  assumes "sint (a :: u64) \<noteq> - (2 ^ 63)" shows "\<bar>sint a\<bar> < 2 ^ 63"
  using assms sint_bounds [of a] by linarith

lemma divdi3_ok:
  assumes "b \<noteq> 0" "sint a \<noteq> - (2 ^ 63)" "sint b \<noteq> - (2 ^ 63)"
  shows "divdi3 a b = Inr (word_of_int (sint a sdiv sint b))"
proof -
  have b0: "0 < \<bar>sint b\<bar>" using nonzero_sint [OF assms(1)] by simp
  have div: "udivmoddi4 (word_of_int \<bar>sint a\<bar>) (word_of_int \<bar>sint b\<bar>) =
      Inr (word_of_int (\<bar>sint a\<bar> div \<bar>sint b\<bar>), word_of_int (\<bar>sint a\<bar> mod \<bar>sint b\<bar>))"
    by (intro udivmoddi4_of_int abs_bounds assms b0) simp
  have "sint a sdiv sint b = (if (sint a < 0) \<noteq> (sint b < 0) then - (\<bar>sint a\<bar> div \<bar>sint b\<bar>) else \<bar>sint a\<bar> div \<bar>sint b\<bar>)"
    using b0 by (auto simp: signed_divide_int_def sgn_if)
  then show ?thesis using assms(2,3) not_minus_minus_one
    by (simp add: divdi3_def Let_def magnitude div xor_masks minus_eq_not_plus_1 [symmetric] del: diff_minus_eq_add)
qed

lemma moddi3_ok:
  assumes "b \<noteq> 0" "sint a \<noteq> - (2 ^ 63)" "sint b \<noteq> - (2 ^ 63)"
  shows "moddi3 a b = Inr (word_of_int (sint a smod sint b))"
proof -
  have b0: "0 < \<bar>sint b\<bar>" using nonzero_sint [OF assms(1)] by simp
  have div: "udivmoddi4 (word_of_int \<bar>sint a\<bar>) (word_of_int \<bar>sint b\<bar>) =
      Inr (word_of_int (\<bar>sint a\<bar> div \<bar>sint b\<bar>), word_of_int (\<bar>sint a\<bar> mod \<bar>sint b\<bar>))"
    by (intro udivmoddi4_of_int abs_bounds assms b0) simp
  define r where "r = \<bar>sint a\<bar> mod \<bar>sint b\<bar>"
  have r: "0 \<le> r" "r < 2 ^ 63"
    using b0 abs_bounds [OF assms(3)] by (simp_all add: r_def order_less_trans [OF pos_mod_bound])
  then have sr: "sint (word_of_int r :: u64) = r" by (intro sint_word_of_int) (simp add: sint_fits_def)
  have "sint a smod sint b = (if sint a < 0 then - r else r)"
    using b0 by (auto simp: signed_modulo_int_def sgn_if r_def)
  then show ?thesis using assms(2,3) r sr
    by (simp add: moddi3_def Let_def magnitude div [folded r_def] c_ssub_masked)
qed

lemma abs_fits: "\<bar>i\<bar> < 2 ^ 63 \<Longrightarrow> sint_fits i"
  unfolding sint_fits_def by linarith

lemma abs_sdiv: "\<bar>x sdiv y\<bar> = \<bar>x :: int\<bar> div \<bar>y\<bar>"
proof -
  have "0 \<le> \<bar>x\<bar> div \<bar>y\<bar>" by (simp add: div_int_pos_iff)
  then show ?thesis by (cases "x = 0"; cases "y = 0") (simp_all add: signed_divide_int_def abs_mult abs_sgn_eq)
qed

lemma abs_sdiv_mult_le: "\<bar>(x sdiv y) * y\<bar> \<le> \<bar>x :: int\<bar>"
proof -
  have "\<bar>(x sdiv y) * y\<bar> \<le> \<bar>x\<bar> div \<bar>y\<bar> * \<bar>y\<bar>"
    by (simp only: abs_mult abs_sdiv order_refl)
  also have "\<dots> \<le> \<bar>x\<bar>"
    using pos_mod_sign [of "\<bar>y\<bar>" "\<bar>x\<bar>"] by (cases "y = 0") (simp_all flip: minus_mod_eq_div_mult)
  finally show ?thesis .
qed

lemma divmoddi4_ok:
  assumes "b \<noteq> 0" "sint a \<noteq> - (2 ^ 63)" "sint b \<noteq> - (2 ^ 63)"
  shows "divmoddi4 a b = Inr (word_of_int (sint a sdiv sint b), word_of_int (sint a smod sint b))"
proof -
  let ?d = "sint a sdiv sint b" and ?m = "sint a smod sint b"
  have a: "\<bar>sint a\<bar> < 2 ^ 63" by (rule abs_bounds [OF assms(2)])
  have "\<bar>?d\<bar> \<le> \<bar>sint a\<bar>"
    using zdiv_mono2 [of "\<bar>sint a\<bar>" 1 "\<bar>sint b\<bar>"] nonzero_sint [OF assms(1)]
    by (simp add: abs_sdiv)
  then have d: "sint (word_of_int ?d :: u64) = ?d" using a by (intro sint_word_of_int abs_fits) (rule le_less_trans)
  have p: "\<bar>?d * sint b\<bar> < 2 ^ 63" using abs_sdiv_mult_le [of "sint a" "sint b"] a by linarith
  then have "sint_fits (?d * sint b)" by (rule abs_fits)
  then have mul: "c_smul (word_of_int ?d) b = Inr (word_of_int (?d * sint b))"
    by (simp add: c_smul_def d wi_hom_mult [symmetric])
  have sp: "sint (word_of_int (?d * sint b) :: u64) = ?d * sint b"
    by (rule sint_word_of_int [OF \<open>sint_fits (?d * sint b)\<close>])
  have m: "sint a - ?d * sint b = ?m" by (simp add: minus_sdiv_mult_eq_smod)
  have "\<bar>?m\<bar> \<le> \<bar>sint a\<bar>"
  proof -
    have "\<bar>?m\<bar> = \<bar>sint a\<bar> mod \<bar>sint b\<bar>"
      using nonzero_sint [OF assms(1)] pos_mod_sign [of "\<bar>sint b\<bar>" "\<bar>sint a\<bar>"]
      by (cases "sint a = 0") (simp_all add: signed_modulo_int_def abs_mult abs_sgn_eq)
    then show ?thesis by (simp add: zmod_le_nonneg_dividend)
  qed
  then have "sint_fits ?m" using a by (intro abs_fits) (rule le_less_trans)
  moreover have "a - word_of_int (?d * sint b) = word_of_int ?m"
    unfolding m [symmetric] by (simp add: wi_hom_sub [symmetric])
  ultimately have sub: "c_ssub a (word_of_int (?d * sint b)) = Inr (word_of_int ?m)"
    unfolding c_ssub_def sp m by simp
  show ?thesis unfolding divmoddi4_def divdi3_ok [OF assms] bindR_Inr mul sub ..
qed

text \<open>A zero divisor, and the operand whose magnitude is no number of the type.\<close>

lemma signed_undef:
  assumes "b = 0 \<or> sint a = - (2 ^ 63) \<or> sint b = - (2 ^ 63)"
  shows "divdi3 a b = Inl Undef" "moddi3 a b = Inl Undef" "divmoddi4 a b = Inl Undef"
proof -
  show d: "divdi3 a b = Inl Undef"
    using assms unfolding divdi3_def Let_def magnitude by (auto simp: guardR_def udivmoddi4_zero)
  show "moddi3 a b = Inl Undef"
    using assms unfolding moddi3_def Let_def magnitude by (auto simp: guardR_def udivmoddi4_zero)
  show "divmoddi4 a b = Inl Undef" by (simp add: divmoddi4_def d)
qed


section \<open>Bit counts of double words\<close>

lemma ctzdi2_cases:
  "ctzdi2 a = (if low (udw_of a) = 0 then ctzsi2 (high (udw_of a)) + 32 else ctzsi2 (low (udw_of a)))"
  by (simp add: ctzdi2_def Let_def c_bool_def)

lemma clzdi2_cases:
  "clzdi2 a = (if high (udw_of a) = 0 then clzsi2 (low (udw_of a)) + 32 else clzsi2 (high (udw_of a)))"
  by (simp add: clzdi2_def Let_def c_bool_def)

lemma word_halves_0: "a = 0 \<longleftrightarrow> low (udw_of a) = 0 \<and> high (udw_of a) = 0"
proof
  assume "low (udw_of a) = 0 \<and> high (udw_of a) = 0"
  then have "unat a = unat (0 :: u64)" using udw_halves [of a] by simp
  then show "a = 0" by (rule unsigned_word_eqI)
qed (simp add: udw_of_def)

lemma ctzdi2_counts:
  assumes "a \<noteq> 0"
  shows "unat (ctzdi2 a) < 64 \<and> 2 ^ unat (ctzdi2 a) dvd unat a \<and> odd (unat a div 2 ^ unat (ctzdi2 a))"
proof (cases "low (udw_of a) = 0")
  case True
  define c where "c = builtin_ctz (high (udw_of a))"
  have h: "high (udw_of a) \<noteq> 0" using assms True word_halves_0 by blast
  note b = builtin_ctz_bounds [OF h, folded c_def]
  have a: "unat a = 2 ^ 32 * unat (high (udw_of a))" using udw_halves [of a] True by simp
  have eq: "ctzdi2 a = of_nat (c + 32)" using True by (simp add: ctzdi2_cases ctzsi2_builtin [OF h] c_def)
  have u: "unat (ctzdi2 a) = 32 + c" unfolding eq unat_of_nat using b(1) by simp
  show ?thesis unfolding u a power_add using b by (simp add: div_mult2_eq)
next
  case False
  define c where "c = builtin_ctz (low (udw_of a))"
  note b = builtin_ctz_bounds [OF False, folded c_def]
  have "ctzdi2 a = of_nat c" using False by (simp add: ctzdi2_cases ctzsi2_builtin [OF False] c_def)
  then have u: "unat (ctzdi2 a) = c" using b(1) by (simp add: unat_of_nat)
  have s: "(2 :: nat) ^ 32 = 2 ^ c * 2 ^ (32 - c)" "(2 :: nat) ^ (32 - c) = 2 * 2 ^ (31 - c)"
    using b(1) by (simp_all flip: power_add power_Suc add: Suc_diff_le)
  have a: "unat a = 2 ^ c * (2 * (unat (high (udw_of a)) * 2 ^ (31 - c))) + unat (low (udw_of a))"
    using udw_halves [of a] unfolding s by (simp add: algebra_simps)
  have "unat a div 2 ^ c = 2 * (unat (high (udw_of a)) * 2 ^ (31 - c)) + unat (low (udw_of a)) div 2 ^ c"
    unfolding a by simp
  moreover have "2 ^ c dvd unat a" unfolding a using b(2) by (simp add: dvd_add)
  ultimately show ?thesis unfolding u using b by simp
qed

lemma clzdi2_counts:
  assumes "a \<noteq> 0"
  shows "unat (clzdi2 a) < 64 \<and> 2 ^ (63 - unat (clzdi2 a)) \<le> unat a \<and> unat a < 2 ^ (64 - unat (clzdi2 a))"
proof (cases "high (udw_of a) = 0")
  case True
  have l: "low (udw_of a) \<noteq> 0" using assms True word_halves_0 by blast
  note b = builtin_clz_bounds [OF l]
  have a: "unat a = unat (low (udw_of a))" using udw_halves [of a] True by simp
  have eq: "clzdi2 a = of_nat (builtin_clz (low (udw_of a)) + 32)"
    using True by (simp add: clzdi2_cases clzsi2_builtin [OF l])
  have u: "unat (clzdi2 a) = builtin_clz (low (udw_of a)) + 32" unfolding eq unat_of_nat using b(1) by simp
  show ?thesis unfolding u a using b by simp
next
  case False
  note b = dividend_bounds [OF False]
  have "clzdi2 a = of_nat (builtin_clz (high (udw_of a)))"
    using False by (simp add: clzdi2_cases clzsi2_builtin [OF False])
  then have u: "unat (clzdi2 a) = builtin_clz (high (udw_of a))" using b(1) by (simp add: unat_of_nat)
  show ?thesis unfolding u using b by simp
qed

end
