(* ===== verification/Kstring.thy ===== *)
theory Kstring
  imports Prelude
begin

text \<open>
  The string and memory functions of \<^verbatim>\<open>klib/src/string.c\<close> that run on the guest. The memory is
  one flat byte array; pointers are positions in it and an access outside is \<open>Undef\<close>. \<^verbatim>\<open>char\<close>
  is unsigned, as on RISC-V. Loops without a bound move a pointer upwards, so they end at the
  latest when it leaves the memory; \<^verbatim>\<open>while (n--)\<close> is recursion on the count. Functions that
  only return the destination pointer are modelled by the memory they leave.
\<close>

section \<open>Memory accesses\<close>

definition cload :: "carray \<Rightarrow> nat \<Rightarrow> u8 res" where
  "cload m p = guardR (p < clen m) Undef (Inr (cget m p))"

definition cstore :: "carray \<Rightarrow> nat \<Rightarrow> u8 \<Rightarrow> carray res" where
  "cstore m p v = guardR (p < clen m) Undef (Inr (arr_put m p [v]))"

lemma cload_Inr: "cload m p = Inr c \<longleftrightarrow> p < clen m \<and> c = cget m p"
  by (auto simp: cload_def guardR_def)

lemma cstore_Inr: "cstore m p v = Inr m' \<longleftrightarrow> p < clen m \<and> m' = arr_put m p [v]"
  by (auto simp: cstore_def guardR_def)

section \<open>Strings\<close>

function strlen_loop :: "carray \<Rightarrow> nat \<Rightarrow> nat res" where
  "strlen_loop m p = bindR (cload m p) (\<lambda>c. if c = 0 then Inr p else strlen_loop m (Suc p))"
  by auto
termination
  by (relation "measure (\<lambda>(m, p). clen m - p)") (auto simp: cload_Inr)

definition strlen :: "carray \<Rightarrow> nat \<Rightarrow> nat res" where
  "strlen m s = bindR (strlen_loop m s) (\<lambda>p. Inr (p - s))"

function strcpy :: "carray \<Rightarrow> nat \<Rightarrow> nat \<Rightarrow> carray res" where
  "strcpy m dst src =
     bindR (cload m src) (\<lambda>c.
     bindR (cstore m dst c) (\<lambda>m'.
     if c = 0 then Inr m' else strcpy m' (Suc dst) (Suc src)))"
  by auto
termination
  by (relation "measure (\<lambda>(m, dst, src). clen m - src)") (auto simp: cload_Inr cstore_Inr)

function strncpy_loop :: "carray \<Rightarrow> nat \<Rightarrow> nat \<Rightarrow> nat \<Rightarrow> (carray \<times> nat) res" where
  "strncpy_loop m dst src i =
     bindR (cload m (src + i)) (\<lambda>c.
     if c = 0 then Inr (m, i)
     else bindR (cstore m (dst + i) c) (\<lambda>m'. strncpy_loop m' dst src (Suc i)))"
  by auto
termination
  by (relation "measure (\<lambda>(m, dst, src, i). clen m - (src + i))") (auto simp: cload_Inr cstore_Inr)

definition strncpy :: "carray \<Rightarrow> nat \<Rightarrow> nat \<Rightarrow> nat \<Rightarrow> carray res" where
  "strncpy m dst src n =
     bindR (strncpy_loop m dst src 0) (\<lambda>(m, i).
     bindR (cstore m (dst + i) 0) (\<lambda>m. Inl Panic))"

function strcat_loop :: "carray \<Rightarrow> nat \<Rightarrow> nat \<Rightarrow> (carray \<times> nat) res" where
  "strcat_loop m dst src =
     bindR (cload m src) (\<lambda>c.
     if c = 0 then Inr (m, dst)
     else bindR (cstore m dst c) (\<lambda>m'. strcat_loop m' (Suc dst) (Suc src)))"
  by auto
termination
  by (relation "measure (\<lambda>(m, dst, src). clen m - src)") (auto simp: cload_Inr cstore_Inr)

definition strcat :: "carray \<Rightarrow> nat \<Rightarrow> nat \<Rightarrow> carray res" where
  "strcat m dst src =
     bindR (strlen_loop m dst) (\<lambda>e.
     bindR (strcat_loop m e src) (\<lambda>(m, e). cstore m e 0))"

function strcmp_loop :: "carray \<Rightarrow> nat \<Rightarrow> nat \<Rightarrow> int res" where
  "strcmp_loop m s1 s2 =
     bindR (cload m s1) (\<lambda>c1.
     bindR (cload m s2) (\<lambda>c2.
     if c1 \<noteq> 0 \<and> c2 \<noteq> 0 \<and> c1 = c2 then strcmp_loop m (Suc s1) (Suc s2)
     else Inr (uint c1 - uint c2)))"
  by auto
termination
  by (relation "measure (\<lambda>(m, s1, s2). clen m - s1)") (auto simp: cload_Inr)

definition strcmp :: "carray \<Rightarrow> nat \<Rightarrow> nat \<Rightarrow> int res" where
  "strcmp m s1 s2 = strcmp_loop m s1 s2"

fun strncmp :: "carray \<Rightarrow> nat \<Rightarrow> nat \<Rightarrow> nat \<Rightarrow> int res" where
  "strncmp m s1 s2 0 = Inr 0"
| "strncmp m s1 s2 (Suc n) =
     bindR (cload m s1) (\<lambda>c1.
     bindR (cload m s2) (\<lambda>c2.
     if c1 > c2 then Inr 1
     else if c1 < c2 then Inr (- 1)
     else strncmp m (Suc s1) (Suc s2) n))"

section \<open>Memory blocks\<close>

fun memset_loop :: "carray \<Rightarrow> nat \<Rightarrow> u8 \<Rightarrow> nat \<Rightarrow> carray res" where
  "memset_loop m p c 0 = Inr m"
| "memset_loop m p c (Suc n) = bindR (cstore m p c) (\<lambda>m'. memset_loop m' (Suc p) c n)"

definition memset :: "carray \<Rightarrow> nat \<Rightarrow> u32 \<Rightarrow> nat \<Rightarrow> carray res" where
  "memset m s c n = memset_loop m s (ucast c) n"

fun copy_up :: "carray \<Rightarrow> nat \<Rightarrow> nat \<Rightarrow> nat \<Rightarrow> carray res" where
  "copy_up m d s 0 = Inr m"
| "copy_up m d s (Suc n) =
     bindR (cload m s) (\<lambda>c. bindR (cstore m d c) (\<lambda>m'. copy_up m' (Suc d) (Suc s) n))"

fun copy_down :: "carray \<Rightarrow> nat \<Rightarrow> nat \<Rightarrow> nat \<Rightarrow> carray res" where
  "copy_down m dst src 0 = Inr m"
| "copy_down m dst src (Suc n) =
     bindR (cload m (src + n)) (\<lambda>c. bindR (cstore m (dst + n) c) (\<lambda>m'. copy_down m' dst src n))"

definition memmove :: "carray \<Rightarrow> nat \<Rightarrow> nat \<Rightarrow> nat \<Rightarrow> carray res" where
  "memmove m dst src n = (if dst < src then copy_up m dst src n else copy_down m dst src n)"

definition memcpy :: "carray \<Rightarrow> nat \<Rightarrow> nat \<Rightarrow> nat \<Rightarrow> carray res" where
  "memcpy m out src n = copy_up m out src n"

fun memcmp :: "carray \<Rightarrow> nat \<Rightarrow> nat \<Rightarrow> nat \<Rightarrow> int res" where
  "memcmp m p1 p2 0 = Inr 0"
| "memcmp m p1 p2 (Suc n) =
     bindR (cload m p1) (\<lambda>c1.
     bindR (cload m p2) (\<lambda>c2.
     if c1 \<noteq> c2 then Inr (uint c1 - uint c2) else memcmp m (Suc p1) (Suc p2) n))"

section \<open>Blocks and C strings as lists\<close>

definition block :: "carray \<Rightarrow> nat \<Rightarrow> nat \<Rightarrow> u8 list" where
  "block m p n = map (\<lambda>i. cget m (p + i)) [0..<n]"

definition is_cstr :: "carray \<Rightarrow> nat \<Rightarrow> u8 list \<Rightarrow> bool" where
  "is_cstr m p xs \<longleftrightarrow> p + length xs < clen m \<and> block m p (length xs + 1) = xs @ [0] \<and> 0 \<notin> set xs"

lemma length_block [simp]: "length (block m p n) = n"
  by (simp add: block_def)

lemma nth_block [simp]: "i < n \<Longrightarrow> block m p n ! i = cget m (p + i)"
  by (simp add: block_def)

lemma block_0 [simp]: "block m p 0 = []"
  by (simp add: block_def)

lemma block_Suc: "block m p (Suc n) = cget m p # block m (Suc p) n"
  by (rule nth_equalityI) (auto simp: nth_Cons split: nat.split)

lemma block_put_same: "block (arr_put m p xs) p (length xs) = xs"
  by (rule nth_equalityI) (simp_all add: arr_put_def)

lemma block_put_other: "q + n \<le> p \<or> p + length xs \<le> q \<Longrightarrow> block (arr_put m p xs) q n = block m q n"
  by (rule nth_equalityI) (auto simp: arr_put_def)

lemma is_cstr_Nil: "is_cstr m p [] \<longleftrightarrow> p < clen m \<and> cget m p = 0"
  by (auto simp: is_cstr_def block_Suc)

lemma is_cstr_Cons: "is_cstr m p (x # xs) \<longleftrightarrow> p < clen m \<and> cget m p = x \<and> x \<noteq> 0 \<and> is_cstr m (Suc p) xs"
  by (auto simp: is_cstr_def block_Suc)

lemmas cstr_simps = is_cstr_Nil is_cstr_Cons

lemma carray_eqI: "clen a = clen b \<Longrightarrow> (\<And>i. cget a i = cget b i) \<Longrightarrow> a = (b :: carray)"
  by (cases a; cases b) (simp add: fun_eq_iff)

lemma cget_arr_put: "cget (arr_put m p xs) i = (if p \<le> i \<and> i < p + length xs then xs ! (i - p) else cget m i)"
  by (simp add: arr_put_def)

lemma arr_put_Nil [simp]: "arr_put m p [] = m"
  by (rule carray_eqI) (auto simp: cget_arr_put)

lemma arr_put_Cons: "arr_put (arr_put m p [x]) (Suc p) xs = arr_put m p (x # xs)"
  by (rule carray_eqI) (auto simp: cget_arr_put nth_Cons' Suc_le_eq)

lemma arr_put_snoc: "arr_put (arr_put m (p + length xs) [x]) p xs = arr_put m p (xs @ [x])"
  by (rule carray_eqI) (auto simp: cget_arr_put nth_append)

lemma arr_put_append: "arr_put (arr_put m p xs) (p + length xs) ys = arr_put m p (xs @ ys)"
  by (rule carray_eqI) (auto simp: cget_arr_put nth_append)

section \<open>Correctness of the block operations\<close>

lemma copy_up_ok:
  assumes "d + n \<le> clen m" "s + n \<le> clen m" "d \<le> s \<or> s + n \<le> d"
  shows "copy_up m d s n = Inr (arr_put m d (block m s n))"
  using assms
proof (induction n arbitrary: m d s)
  case (Suc n)
  have "block (arr_put m d [cget m s]) (Suc s) n = block m (Suc s) n"
    using Suc.prems by (intro block_put_other) auto
  then show ?case
    using Suc.IH [of "Suc d" "arr_put m d [cget m s]" "Suc s"] Suc.prems
    by (auto simp: cload_def cstore_def block_Suc arr_put_Cons)
qed simp

lemma block_snoc: "block m p (Suc n) = block m p n @ [cget m (p + n)]"
  by (simp add: block_def)

lemma copy_down_ok:
  assumes "d + n \<le> clen m" "s + n \<le> clen m" "s \<le> d"
  shows "copy_down m d s n = Inr (arr_put m d (block m s n))"
  using assms
proof (induction n arbitrary: m)
  case (Suc n)
  have "block (arr_put m (d + n) [cget m (s + n)]) s n = block m s n"
    using Suc.prems by (intro block_put_other) auto
  then show ?case
    using Suc.IH [of "arr_put m (d + n) [cget m (s + n)]"] Suc.prems
      arr_put_snoc [of m d "block m s n"]
    by (simp add: cload_def cstore_def block_snoc)
qed simp

lemma memmove_ok:
  assumes "d + n \<le> clen m" "s + n \<le> clen m"
  shows "memmove m d s n = Inr (arr_put m d (block m s n))"
  using assms by (cases "d < s") (simp_all add: memmove_def copy_up_ok copy_down_ok)

lemma memcpy_ok:
  assumes "d + n \<le> clen m" "s + n \<le> clen m" "d \<le> s \<or> s + n \<le> d"
  shows "memcpy m d s n = Inr (arr_put m d (block m s n))"
  using assms by (simp add: memcpy_def copy_up_ok)

lemma memset_ok:
  assumes "p + n \<le> clen m"
  shows "memset m p c n = Inr (arr_put m p (replicate n (ucast c)))"
proof -
  have "memset_loop m p b n = Inr (arr_put m p (replicate n b))" for b
    using assms by (induction n arbitrary: m p) (simp_all add: cstore_def arr_put_Cons)
  then show ?thesis by (simp add: memset_def)
qed

lemma memcmp_ok:
  assumes "p + n \<le> clen m" "q + n \<le> clen m"
  shows "\<exists>r. memcmp m p q n = Inr r \<and> (r = 0 \<longleftrightarrow> block m p n = block m q n)"
  using assms
proof (induction n arbitrary: p q)
  case (Suc n)
  then show ?case
    using Suc.IH [of "Suc p" "Suc q"] by (auto simp: cload_def block_Suc dest: unsigned_word_eqI)
qed simp

section \<open>Correctness of the string operations\<close>

declare strlen_loop.simps [simp del] strcpy.simps [simp del] strncpy_loop.simps [simp del]
  strcat_loop.simps [simp del] strcmp_loop.simps [simp del]

lemma strlen_loop_ok: "is_cstr m p xs \<Longrightarrow> strlen_loop m p = Inr (p + length xs)"
proof (induction xs arbitrary: p)
  case Nil
  then show ?case by (subst strlen_loop.simps) (simp add: cstr_simps cload_def)
next
  case (Cons x xs)
  then show ?case by (subst strlen_loop.simps) (simp add: cstr_simps cload_def)
qed

lemma strlen_ok: "is_cstr m p xs \<Longrightarrow> strlen m p = Inr (length xs)"
  by (simp add: strlen_def strlen_loop_ok)

text \<open>A string is untouched by a store before it or behind its terminator.\<close>

lemma is_cstr_put_other:
  assumes "q + length ys \<le> p \<or> p + length xs < q"
  shows "is_cstr (arr_put m q ys) p xs \<longleftrightarrow> is_cstr m p xs"
proof -
  have "block (arr_put m q ys) p (length xs + 1) = block m p (length xs + 1)"
    using assms by (intro block_put_other) auto
  then show ?thesis by (simp add: is_cstr_def)
qed

lemma is_cstr_put_same:
  assumes "q + length ys < clen m" "0 \<notin> set ys"
  shows "is_cstr (arr_put m q (ys @ [0])) q ys"
  using assms block_put_same [of m q "ys @ [0]"] by (simp add: is_cstr_def)

lemma strcpy_ok:
  assumes "is_cstr m src xs" "dst + length xs < clen m" "dst \<le> src \<or> src + length xs < dst"
  shows "strcpy m dst src = Inr (arr_put m dst (xs @ [0]))"
  using assms
proof (induction xs arbitrary: m src dst)
  case Nil
  then show ?case by (subst strcpy.simps) (simp add: cstr_simps cload_def cstore_def)
next
  case (Cons x xs)
  have "is_cstr (arr_put m dst [x]) (Suc src) xs"
    using Cons.prems by (subst is_cstr_put_other) (auto simp: cstr_simps)
  then have "strcpy (arr_put m dst [x]) (Suc dst) (Suc src) = Inr (arr_put m dst ((x # xs) @ [0]))"
    using Cons.IH [of "arr_put m dst [x]" "Suc src" "Suc dst"] Cons.prems by (auto simp: arr_put_Cons)
  then show ?case
    using Cons.prems by (subst strcpy.simps) (simp add: cstr_simps cload_def cstore_def)
qed

lemma strcat_loop_ok:
  assumes "is_cstr m src xs" "dst + length xs < clen m" "src + length xs < dst \<or> dst < src"
  shows "strcat_loop m dst src = Inr (arr_put m dst xs, dst + length xs)"
  using assms
proof (induction xs arbitrary: m src dst)
  case Nil
  then show ?case by (subst strcat_loop.simps) (simp add: cstr_simps cload_def)
next
  case (Cons x xs)
  have "is_cstr (arr_put m dst [x]) (Suc src) xs"
    using Cons.prems by (subst is_cstr_put_other) (auto simp: cstr_simps)
  then have "strcat_loop (arr_put m dst [x]) (Suc dst) (Suc src) = Inr (arr_put m dst (x # xs), dst + length (x # xs))"
    using Cons.IH [of "arr_put m dst [x]" "Suc src" "Suc dst"] Cons.prems by (auto simp: arr_put_Cons)
  then show ?case
    using Cons.prems by (subst strcat_loop.simps) (simp add: cstr_simps cload_def cstore_def)
qed

lemma strcat_ok:
  assumes "is_cstr m dst ys" "is_cstr m src xs" "dst + length ys + length xs < clen m"
    and "src + length xs < dst + length ys \<or> dst + length ys < src"
  shows "strcat m dst src = Inr (arr_put m (dst + length ys) (xs @ [0]))"
  using assms
  by (simp add: strcat_def strlen_loop_ok strcat_loop_ok cstore_def arr_put_append)

text \<open>The comparison of two strings: the difference of the first bytes that differ.\<close>

fun str_diff :: "u8 list \<Rightarrow> u8 list \<Rightarrow> int" where
  "str_diff [] [] = 0"
| "str_diff [] (y # ys) = - uint y"
| "str_diff (x # xs) [] = uint x"
| "str_diff (x # xs) (y # ys) = (if x = y then str_diff xs ys else uint x - uint y)"

lemma str_diff_0: "0 \<notin> set xs \<Longrightarrow> 0 \<notin> set ys \<Longrightarrow> str_diff xs ys = 0 \<longleftrightarrow> xs = ys"
  by (induction xs ys rule: str_diff.induct) (auto simp: unsigned_eq_0_iff dest: unsigned_word_eqI)

lemma str_diff_lex: "0 \<notin> set xs \<Longrightarrow> 0 \<notin> set ys \<Longrightarrow> str_diff xs ys < 0 \<longleftrightarrow> ord_class.lexordp xs ys"
proof (induction xs ys rule: str_diff.induct)
  case (2 y ys)
  then have "0 < uint y" by (auto simp: less_le unsigned_eq_0_iff)
  then show ?case by simp
qed (auto simp: word_less_def not_less_iff_gr_or_eq dest: unsigned_word_eqI)

lemma strcmp_ok:
  assumes "is_cstr m p xs" "is_cstr m q ys"
  shows "strcmp m p q = Inr (str_diff xs ys)"
proof -
  have "strcmp_loop m p q = Inr (str_diff xs ys)" using assms
    by (induction xs ys arbitrary: p q rule: str_diff.induct; subst strcmp_loop.simps)
       (auto simp: cstr_simps cload_def)
  then show ?thesis by (simp add: strcmp_def)
qed

end
