(* ===== verification/Kstdio.thy ===== *)
theory Kstdio
  imports Kstring
begin

text \<open>
  Formatted output (\<^verbatim>\<open>klib/src/stdio.c\<close>) and the small standard library
  (\<^verbatim>\<open>klib/src/stdlib.c\<close>). \<^verbatim>\<open>gputch\<close> is a state function: \<^verbatim>\<open>putch\<close> appends to the console,
  \<^verbatim>\<open>sputch\<close> stores at \<^verbatim>\<open>__out\<close> and advances it. The variable arguments are a list of values
  as pushed by the caller; taking one of the wrong type, or one too many, is \<open>Undef\<close>.
\<close>

datatype vararg =
    VInt u32     \<comment> \<open>an \<^verbatim>\<open>int\<close> or \<^verbatim>\<open>unsigned\<close>, after promotion\<close>
  | VLong u64
  | VStr nat

record kstate =
  kmem :: carray
  kcons :: "u8 list"
  kout :: nat

definition putch :: "u8 \<Rightarrow> kstate \<Rightarrow> kstate res" where
  "putch ch s = Inr (s\<lparr>kcons := kcons s @ [ch]\<rparr>)"

definition sputch :: "u8 \<Rightarrow> kstate \<Rightarrow> kstate res" where
  "sputch ch s = bindR (cstore (kmem s) (kout s) ch) (\<lambda>m. Inr (s\<lparr>kmem := m, kout := kout s + 1\<rparr>))"

definition va_int :: "vararg list \<Rightarrow> (u32 \<times> vararg list) res" where
  "va_int ap = (case ap of VInt v # ap' \<Rightarrow> Inr (v, ap') | _ \<Rightarrow> Inl Undef)"

definition va_long :: "vararg list \<Rightarrow> (u64 \<times> vararg list) res" where
  "va_long ap = (case ap of VLong v # ap' \<Rightarrow> Inr (v, ap') | _ \<Rightarrow> Inl Undef)"

definition va_str :: "vararg list \<Rightarrow> (nat \<times> vararg list) res" where
  "va_str ap = (case ap of VStr v # ap' \<Rightarrow> Inr (v, ap') | _ \<Rightarrow> Inl Undef)"

type_synonym putter = "u8 \<Rightarrow> kstate \<Rightarrow> kstate res"

section \<open>Digits\<close>

text \<open>
  \<^verbatim>\<open>invert\<close> receives the digits from the last one on; the loop ends because the number
  shrinks. Its 64 entries are never exceeded (\<open>length_digits\<close>), so the array needs no bound.
\<close>

function rev_digits :: "nat \<Rightarrow> u8 list" where
  "rev_digits u = (if u = 0 then [] else of_nat (u mod 10 + 48) # rev_digits (u div 10))"
  by auto
termination by (relation "measure id") auto

declare rev_digits.simps [simp del]

lemma rev_digits_0 [simp]: "rev_digits 0 = []"
  by (subst rev_digits.simps) simp

definition MAXDEC :: nat where "MAXDEC = 64"

text \<open>Emitting a list of characters, each counted in \<^verbatim>\<open>pos\<close>.\<close>

fun emit :: "putter \<Rightarrow> u8 list \<Rightarrow> kstate \<times> int \<Rightarrow> (kstate \<times> int) res" where
  "emit g [] (s, pos) = Inr (s, pos)"
| "emit g (c # cs) (s, pos) = bindR (g c s) (\<lambda>s'. emit g cs (s', pos + 1))"

definition put_digits :: "putter \<Rightarrow> nat \<Rightarrow> kstate \<times> int \<Rightarrow> (kstate \<times> int) res" where
  "put_digits g u = emit g ((if u = 0 then [48] else []) @ rev (rev_digits u))"

section \<open>Conversions\<close>

record fstate =
  fst_of :: kstate
  fpos :: int
  in_format :: bool
  long_flags :: nat
  fap :: "vararg list"

fun puts_loop :: "putter \<Rightarrow> nat \<Rightarrow> nat \<Rightarrow> kstate \<times> int \<Rightarrow> (kstate \<times> int) res" where
  "puts_loop g 0 p (s, pos) = Inl Undef"
| "puts_loop g (Suc fuel) p (s, pos) =
     bindR (cload (kmem s) p) (\<lambda>c.
     if c = 0 then Inr (s, pos)
     else bindR (g c s) (\<lambda>s'. puts_loop g fuel (Suc p) (s', pos + 1)))"

definition conv_s :: "putter \<Rightarrow> fstate \<Rightarrow> fstate res" where
  "conv_s g f =
     guardR (long_flags f = 0) AssertFail
       (bindR (va_str (fap f)) (\<lambda>(p, ap).
        bindR (puts_loop g (clen (kmem (fst_of f)) + 1) p (fst_of f, fpos f)) (\<lambda>(s, pos).
        Inr (f\<lparr>fst_of := s, fpos := pos, fap := ap, in_format := False\<rparr>))))"

definition conv_c :: "putter \<Rightarrow> fstate \<Rightarrow> fstate res" where
  "conv_c g f =
     guardR (long_flags f = 0) AssertFail
       (bindR (va_int (fap f)) (\<lambda>(c, ap).
        bindR (emit g [ucast c] (fst_of f, fpos f)) (\<lambda>(s, pos).
        Inr (f\<lparr>fst_of := s, fpos := pos, fap := ap, in_format := False\<rparr>))))"

definition conv_d :: "putter \<Rightarrow> fstate \<Rightarrow> fstate res" where
  "conv_d g f =
     guardR (long_flags f \<le> 2) AssertFail
       (bindR (if long_flags f = 2 then va_long (fap f)
               else bindR (va_int (fap f)) (\<lambda>(v, ap). Inr (scast v, ap))) (\<lambda>(d, ap).
        bindR (if sint d < 0
               then guardR (d \<noteq> int_min) Undef
                      (bindR (emit g [45] (fst_of f, fpos f)) (\<lambda>sp. Inr (- d, sp)))
               else Inr (d, (fst_of f, fpos f))) (\<lambda>(d, sp).
        bindR (put_digits g (unat d) sp) (\<lambda>(s, pos).
        Inr (f\<lparr>fst_of := s, fpos := pos, fap := ap, long_flags := 0, in_format := False\<rparr>)))))"

definition conv_u :: "putter \<Rightarrow> fstate \<Rightarrow> fstate res" where
  "conv_u g f =
     guardR (long_flags f \<le> 2) AssertFail
       (bindR (if long_flags f = 2 then va_long (fap f)
               else bindR (va_int (fap f)) (\<lambda>(v, ap). Inr (ucast v, ap))) (\<lambda>(u, ap).
        bindR (put_digits g (unat u) (fst_of f, fpos f)) (\<lambda>(s, pos).
        Inr (f\<lparr>fst_of := s, fpos := pos, fap := ap, long_flags := 0, in_format := False\<rparr>))))"

text \<open>\<^verbatim>\<open>switch (*fmt)\<close>; a character without a case changes nothing.\<close>

definition conversion :: "putter \<Rightarrow> u8 \<Rightarrow> fstate \<Rightarrow> fstate res" where
  "conversion g c f =
     (if c = 108 then Inr (f\<lparr>long_flags := long_flags f + 1\<rparr>)
      else if c = 115 then conv_s g f
      else if c = 99 then conv_c g f
      else if c = 100 then conv_d g f
      else if c = 117 then conv_u g f
      else if c = 37 then
        bindR (g 37 (fst_of f)) (\<lambda>s. Inr (f\<lparr>fst_of := s, in_format := False\<rparr>))
      else Inr f)"

text \<open>
  The loop over the format. Every round moves \<^verbatim>\<open>fmt\<close> on by at least one, so as much fuel as
  there are bytes of memory, plus one, is enough: running out of it is reading outside.
\<close>

fun vprintf_loop :: "putter \<Rightarrow> nat \<Rightarrow> nat \<Rightarrow> fstate \<Rightarrow> fstate res" where
  "vprintf_loop g 0 fmt f = Inl Undef"
| "vprintf_loop g (Suc fuel) fmt f =
     bindR (cload (kmem (fst_of f)) fmt) (\<lambda>c.
     if c = 0 then Inr f
     else if c \<noteq> 37 \<and> \<not> in_format f then
       bindR (emit g [c] (fst_of f, fpos f)) (\<lambda>(s, pos).
       vprintf_loop g fuel (Suc fmt) (f\<lparr>fst_of := s, fpos := pos\<rparr>))
     else if \<not> in_format f then
       bindR (cload (kmem (fst_of f)) (Suc fmt)) (\<lambda>c'.
       bindR (conversion g c' (f\<lparr>in_format := True\<rparr>)) (\<lambda>f'.
       vprintf_loop g fuel (Suc (Suc fmt)) f'))
     else bindR (conversion g c f) (\<lambda>f'. vprintf_loop g fuel (Suc fmt) f'))"

definition vprintf :: "putter \<Rightarrow> nat \<Rightarrow> vararg list \<Rightarrow> kstate \<Rightarrow> (kstate \<times> int) res" where
  "vprintf g fmt ap s =
     bindR (vprintf_loop g (clen (kmem s) + 1) fmt
              \<lparr>fst_of = s, fpos = 0, in_format = False, long_flags = 0, fap = ap\<rparr>) (\<lambda>f.
     Inr (fst_of f, fpos f))"

definition printf :: "nat \<Rightarrow> vararg list \<Rightarrow> kstate \<Rightarrow> (kstate \<times> int) res" where
  "printf fmt ap s = vprintf putch fmt ap s"

definition sprintf :: "nat \<Rightarrow> nat \<Rightarrow> vararg list \<Rightarrow> kstate \<Rightarrow> (kstate \<times> int) res" where
  "sprintf out fmt ap s =
     bindR (vprintf sputch fmt ap (s\<lparr>kout := out\<rparr>)) (\<lambda>(s, res).
     bindR (sputch 0 s) (\<lambda>s. Inr (s, res)))"

definition vsprintf :: "nat \<Rightarrow> nat \<Rightarrow> vararg list \<Rightarrow> kstate \<Rightarrow> (kstate \<times> int) res" where
  "vsprintf out fmt ap s = Inl Panic"

definition snprintf :: "nat \<Rightarrow> nat \<Rightarrow> nat \<Rightarrow> vararg list \<Rightarrow> kstate \<Rightarrow> (kstate \<times> int) res" where
  "snprintf out n fmt ap s = Inl Panic"

definition vsnprintf :: "nat \<Rightarrow> nat \<Rightarrow> nat \<Rightarrow> vararg list \<Rightarrow> kstate \<Rightarrow> (kstate \<times> int) res" where
  "vsnprintf out n fmt ap s = Inl Panic"

section \<open>stdlib.c\<close>

record stdlib_state =
  rand_next :: u32
  start_addr :: u32
  init_flag :: bool

definition rand :: "stdlib_state \<Rightarrow> stdlib_state \<times> int" where
  "rand s = (let n = rand_next s * 1103515245 + 12345
             in (s\<lparr>rand_next := n\<rparr>, uint (n div 65536 mod 32768)))"

definition srand :: "u32 \<Rightarrow> stdlib_state \<Rightarrow> stdlib_state" where
  "srand seed s = s\<lparr>rand_next := seed\<rparr>"

definition abs_c :: "u32 \<Rightarrow> u32 res" where
  "abs_c x = (if sint x < 0 then guardR (x \<noteq> int_min) Undef (Inr (- x)) else Inr x)"

definition int_fits :: "int \<Rightarrow> bool" where
  "int_fits i \<longleftrightarrow> - (2 ^ 31) \<le> i \<and> i < 2 ^ 31"

function atoi_digits :: "carray \<Rightarrow> nat \<Rightarrow> int \<Rightarrow> int res" where
  "atoi_digits m p x =
     bindR (cload m p) (\<lambda>c.
     if 48 \<le> c \<and> c \<le> 57 then
       guardR (int_fits (x * 10) \<and> int_fits (x * 10 + uint c) \<and> int_fits (x * 10 + uint c - 48)) Undef
         (atoi_digits m (Suc p) (x * 10 + uint c - 48))
     else Inr x)"
  by auto
termination by (relation "measure (\<lambda>(m, p, x). clen m - p)") (auto simp: cload_Inr)

function atoi :: "carray \<Rightarrow> nat \<Rightarrow> int res" where
  "atoi m p = bindR (cload m p) (\<lambda>c. if c = 32 then atoi m (Suc p) else atoi_digits m p 0)"
  by auto
termination by (relation "measure (\<lambda>(m, p). clen m - p)") (auto simp: cload_Inr)

declare atoi.simps [simp del] atoi_digits.simps [simp del]

definition ROUNDUP :: "u32 \<Rightarrow> u32 \<Rightarrow> u32" where
  "ROUNDUP a sz = (a + sz - 1) AND NOT (sz - 1)"

definition malloc :: "u32 \<Rightarrow> u32 \<Rightarrow> stdlib_state \<Rightarrow> stdlib_state \<times> u32" where
  "malloc heap_start sz s = (
     let s = (if \<not> init_flag s then s\<lparr>start_addr := ROUNDUP heap_start 8, init_flag := True\<rparr> else s);
         sz = ROUNDUP sz 8
     in (s\<lparr>start_addr := start_addr s + sz\<rparr>, start_addr s))"

definition free_c :: "u32 \<Rightarrow> stdlib_state \<Rightarrow> stdlib_state" where
  "free_c ptr s = s"


section \<open>What the digits say\<close>

fun dec_value :: "u8 list \<Rightarrow> nat \<Rightarrow> nat" where
  "dec_value [] acc = acc"
| "dec_value (c # cs) acc = dec_value cs (acc * 10 + (unat c - 48))"

lemma digit_word:
  "unat (of_nat (u mod 10 + 48) :: u8) = u mod 10 + 48"
proof -
  have "u mod 10 < 10" by simp
  then show ?thesis unfolding unat_of_nat by simp
qed

lemma dec_value_append: "dec_value (xs @ [c]) acc = dec_value xs acc * 10 + (unat c - 48)"
  by (induction xs arbitrary: acc) simp_all

lemma dec_value_digits: "dec_value (rev (rev_digits u)) 0 = u"
proof (induction u rule: rev_digits.induct)
  case (1 u)
  show ?case
  proof (cases "u = 0")
    case True
    then show ?thesis by simp
  next
    case False
    then show ?thesis using 1 digit_word [of u] by (subst rev_digits.simps) (simp add: dec_value_append)
  qed
qed

lemma rev_digits_range: "c \<in> set (rev_digits u) \<Longrightarrow> 48 \<le> c \<and> c \<le> 57"
proof (induction u rule: rev_digits.induct)
  case (1 u)
  show ?case
  proof (cases "u = 0")
    case True
    then show ?thesis using 1 by simp
  next
    case False
    have m: "u mod 10 < 10" by simp
    have "c = of_nat (u mod 10 + 48) \<or> c \<in> set (rev_digits (u div 10))"
      using 1(2) False by (subst (asm) rev_digits.simps) auto
    then show ?thesis
    proof
      assume "c = of_nat (u mod 10 + 48)"
      then have "unat c = u mod 10 + 48" using digit_word by simp
      then show ?thesis using m by (simp add: word_le_nat_alt)
    qed (use 1(1) False in blast)
  qed
qed

lemma length_digits: "u < 10 ^ n \<Longrightarrow> length (rev_digits u) \<le> n"
proof (induction n arbitrary: u)
  case 0
  then show ?case by simp
next
  case (Suc n)
  then have "u div 10 < 10 ^ n" by (simp add: div_less_iff_less_mult mult.commute)
  then show ?case using Suc.IH by (subst rev_digits.simps) simp
qed

lemma digits_fit: "length (rev_digits (unat (u :: u64))) \<le> MAXDEC"
proof -
  have "unat u < 2 ^ 64" using unsigned_less [of u, where ?'a = nat] by simp
  also have "(2 :: nat) ^ 64 \<le> 10 ^ 20" by simp
  finally have "unat u < 10 ^ 20" .
  then have "length (rev_digits (unat u)) \<le> 20" by (rule length_digits)
  then show ?thesis by (simp add: MAXDEC_def)
qed

definition dec_text :: "nat \<Rightarrow> u8 list" where
  "dec_text u = (if u = 0 then [48] else []) @ rev (rev_digits u)"

lemma dec_text_value: "dec_value (dec_text u) 0 = u"
  by (cases "u = 0") (simp_all add: dec_text_def dec_value_digits)

lemma dec_text_range: "c \<in> set (dec_text u) \<Longrightarrow> 48 \<le> c \<and> c \<le> 57"
  by (auto simp: dec_text_def dest: rev_digits_range split: if_split_asm)

section \<open>Printing to the console\<close>

definition on_console :: "kstate \<Rightarrow> u8 list \<Rightarrow> kstate" where
  "on_console s cs = s\<lparr>kcons := kcons s @ cs\<rparr>"

lemma on_console_simps [simp]:
  "on_console s [] = s" "on_console (on_console s xs) ys = on_console s (xs @ ys)"
  "kmem (on_console s xs) = kmem s" "kcons (on_console s xs) = kcons s @ xs"
  by (simp_all add: on_console_def)

lemma putch_console: "putch c s = Inr (on_console s [c])"
  by (simp add: putch_def on_console_def)

lemma emit_putch: "emit putch cs (s, pos) = Inr (on_console s cs, pos + int (length cs))"
  by (induction cs arbitrary: s pos) (simp_all add: putch_console)

lemma put_digits_putch:
  "put_digits putch u (s, pos) = Inr (on_console s (dec_text u), pos + int (length (dec_text u)))"
  by (simp add: put_digits_def emit_putch dec_text_def)


section \<open>Formats as sequences of pieces\<close>

text \<open>
  A well-formed format is a sequence of pieces: plain characters, \<^verbatim>\<open>%%\<close>, and conversions
  together with the argument the caller passes for each.
\<close>

datatype piece =
    PLit u8 | PPct | PInt u32 | PLong u64 | PUint u32 | PUlong u64 | PChr u32
  | PStr nat "u8 list"

definition int_text :: "int \<Rightarrow> u8 list" where
  "int_text i = (if i < 0 then [45] else []) @ dec_text (nat \<bar>i\<bar>)"

fun piece_fmt :: "piece \<Rightarrow> u8 list" where
  "piece_fmt (PLit c) = [c]"
| "piece_fmt PPct = [37, 37]"
| "piece_fmt (PInt v) = [37, 100]"
| "piece_fmt (PLong v) = [37, 108, 108, 100]"
| "piece_fmt (PUint v) = [37, 117]"
| "piece_fmt (PUlong v) = [37, 108, 108, 117]"
| "piece_fmt (PChr v) = [37, 99]"
| "piece_fmt (PStr p xs) = [37, 115]"

fun piece_args :: "piece \<Rightarrow> vararg list" where
  "piece_args (PInt v) = [VInt v]"
| "piece_args (PLong v) = [VLong v]"
| "piece_args (PUint v) = [VInt v]"
| "piece_args (PUlong v) = [VLong v]"
| "piece_args (PChr v) = [VInt v]"
| "piece_args (PStr p xs) = [VStr p]"
| "piece_args _ = []"

fun piece_text :: "piece \<Rightarrow> u8 list" where
  "piece_text (PLit c) = [c]"
| "piece_text PPct = [37]"
| "piece_text (PInt v) = int_text (sint v)"
| "piece_text (PLong v) = int_text (sint v)"
| "piece_text (PUint v) = dec_text (unat v)"
| "piece_text (PUlong v) = dec_text (unat v)"
| "piece_text (PChr v) = [ucast v]"
| "piece_text (PStr p xs) = xs"

text \<open>\<^verbatim>\<open>%%\<close> is printed but not counted.\<close>

definition piece_count :: "piece \<Rightarrow> int" where
  "piece_count p = (if p = PPct then 0 else int (length (piece_text p)))"

fun piece_ok :: "carray \<Rightarrow> piece \<Rightarrow> bool" where
  "piece_ok m (PLit c) = (c \<noteq> 0 \<and> c \<noteq> 37)"
| "piece_ok m (PLong v) = (v \<noteq> int_min)"
| "piece_ok m (PStr p xs) = is_cstr m p xs"
| "piece_ok m _ = True"

text \<open>A piece with a proper argument, of which only the smallest \<^verbatim>\<open>int64_t\<close> cannot be printed: its negation overflows.\<close>

fun piece_wf :: "carray \<Rightarrow> piece \<Rightarrow> bool" where
  "piece_wf m (PLit c) = (c \<noteq> 0 \<and> c \<noteq> 37)"
| "piece_wf m (PStr p xs) = is_cstr m p xs"
| "piece_wf m _ = True"

lemma piece_ok_wf: "piece_ok m q \<longleftrightarrow> piece_wf m q \<and> q \<noteq> PLong int_min"
  by (cases q) auto

lemma puts_loop_ok:
  assumes "is_cstr (kmem s) p xs" "length xs < fuel"
  shows "puts_loop putch fuel p (s, pos) = Inr (on_console s xs, pos + int (length xs))"
  using assms
proof (induction xs arbitrary: fuel p s pos)
  case Nil
  then show ?case by (cases fuel) (simp_all add: cstr_simps cload_def)
next
  case (Cons x xs)
  then obtain n where "fuel = Suc n" "length xs < n" by (cases fuel) auto
  then show ?case
    using Cons.prems Cons.IH [of "on_console s [x]" "Suc p" n] by (simp add: cstr_simps cload_def putch_console)
qed

lemma magnitude_text:
  fixes d :: u64
  assumes "d \<noteq> int_min"
  shows "sint d < 0 \<Longrightarrow> unat (- d) = nat (- sint d)" and "\<not> sint d < 0 \<Longrightarrow> unat d = nat (sint d)"
proof -
  have b: "- (2 ^ 63) \<le> sint d" "sint d < 2 ^ 63" using sint_greater_eq [of d] sint_less [of d] by simp_all
  show "unat d = nat (sint d)" if "\<not> sint d < 0"
  proof -
    have "uint (word_of_int (sint d) :: u64) = sint d mod 2 ^ 64"
      by (simp only: unsigned_of_int take_bit_eq_mod) simp
    then have "uint d = sint d mod 2 ^ 64" by simp
    then show ?thesis using that b by (simp add: unat_eq_nat_uint)
  qed
  show "unat (- d) = nat (- sint d)" if "sint d < 0"
  proof -
    have "- d = word_of_int (- sint d)" by simp
    then have "uint (- d) = (- sint d) mod 2 ^ 64" by (simp only: unsigned_of_int take_bit_eq_mod) simp
    then show ?thesis using that b by (simp add: unat_eq_nat_uint)
  qed
qed


lemma min32_fits: "scast (v :: u32) \<noteq> (int_min :: u64)" "sint (scast v :: u64) = sint v"
proof -
  have lo: "- (2 ^ 31) \<le> sint v" and hi: "sint v < 2 ^ 31"
    using sint_greater_eq [of v] sint_less [of v] by simp_all
  have "signed_take_bit 63 (sint v) = sint v"
    by (rule signed_take_bit_int_eq_self) (use lo hi in simp_all)
  then show eq: "sint (scast v :: u64) = sint v" by (simp add: signed_scast_eq)
  note lo
  moreover have "sint (int_min :: u64) = - (2 ^ 63)" by (simp add: int_min_def)
  ultimately show "scast v \<noteq> (int_min :: u64)" using eq by auto
qed

lemma conv_d_ok:
  assumes "d \<noteq> int_min" "long_flags f = 2 \<Longrightarrow> fap f = VLong d # ap"
    and "long_flags f \<noteq> 2 \<Longrightarrow> long_flags f = 0 \<and> fap f = VInt v # ap \<and> d = scast v"
  shows "conv_d putch f = Inr (f\<lparr>fst_of := on_console (fst_of f) (int_text (sint d)),
    fpos := fpos f + int (length (int_text (sint d))), fap := ap, long_flags := 0, in_format := False\<rparr>)"
proof -
  have arg: "(if long_flags f = 2 then va_long (fap f)
      else bindR (va_int (fap f)) (\<lambda>(v, ap). Inr (scast v, ap))) = Inr (d, ap)"
    using assms(2,3) by (auto simp: va_long_def va_int_def)
  have lf: "long_flags f \<le> 2" using assms(3) by (cases "long_flags f = 2") auto
  show ?thesis
  proof (cases "sint d < 0")
    case True
    then have "unat (- d) = nat (- sint d)" by (rule magnitude_text(1) [OF assms(1)])
    then show ?thesis unfolding conv_d_def arg using True lf assms(1)
      by (simp add: putch_console put_digits_putch int_text_def)
  next
    case False
    then have "unat d = nat (sint d)" by (rule magnitude_text(2) [OF assms(1)])
    then show ?thesis unfolding conv_d_def arg using False lf
      by (simp add: put_digits_putch int_text_def)
  qed
qed

lemma conv_u_ok:
  assumes "long_flags f = 2 \<Longrightarrow> fap f = VLong u # ap"
    and "long_flags f \<noteq> 2 \<Longrightarrow> long_flags f = 0 \<and> fap f = VInt v # ap \<and> u = ucast v"
  shows "conv_u putch f = Inr (f\<lparr>fst_of := on_console (fst_of f) (dec_text (unat u)),
    fpos := fpos f + int (length (dec_text (unat u))), fap := ap, long_flags := 0, in_format := False\<rparr>)"
proof -
  have arg: "(if long_flags f = 2 then va_long (fap f)
      else bindR (va_int (fap f)) (\<lambda>(v, ap). Inr (ucast v, ap))) = Inr (u, ap)"
    using assms by (auto simp: va_long_def va_int_def)
  have lf: "long_flags f \<le> 2" using assms(2) by (cases "long_flags f = 2") auto
  show ?thesis unfolding conv_u_def arg using lf by (simp add: put_digits_putch)
qed

definition after_piece :: "fstate \<Rightarrow> piece \<Rightarrow> vararg list \<Rightarrow> fstate" where
  "after_piece f q ap = f\<lparr>fst_of := on_console (fst_of f) (piece_text q), fpos := fpos f + piece_count q, fap := ap\<rparr>"

lemma vprintf_piece:
  assumes "is_cstr (kmem (fst_of f)) p (piece_fmt q @ rest)" "piece_ok (kmem (fst_of f)) q"
    and "\<not> in_format f" "long_flags f = 0" "fap f = piece_args q @ ap" "length (piece_fmt q) \<le> fuel"
  shows "\<exists>n \<ge> fuel - length (piece_fmt q).
    vprintf_loop putch fuel p f = vprintf_loop putch n (p + length (piece_fmt q)) (after_piece f q ap)"
proof (cases q)
  case (PLit c)
  obtain n where "fuel = Suc n" using assms(6) PLit by (cases fuel) auto
  then show ?thesis using assms PLit
    by (intro exI [of _ n], cases f) (simp add: cstr_simps cload_def putch_console after_piece_def piece_count_def)
next
  case PPct
  obtain n where "fuel = Suc n" using assms(6) PPct by (cases fuel) auto
  then show ?thesis using assms PPct
    by (intro exI [of _ n], cases f)
       (simp add: cstr_simps cload_def putch_console conversion_def after_piece_def piece_count_def)
next
  case (PInt v)
  obtain n where "fuel = Suc n" using assms(6) PInt by (cases fuel) auto
  moreover have "conv_d putch (f\<lparr>in_format := True\<rparr>) = Inr (after_piece f q ap)"
    using assms PInt min32_fits [of v]
    by (subst conv_d_ok [where d = "scast v" and v = v and ap = ap])
       (auto simp: after_piece_def piece_count_def)
  ultimately show ?thesis using assms PInt
    by (intro exI [of _ n]) (simp add: cstr_simps cload_def conversion_def)
next
  case (PUint v)
  obtain n where "fuel = Suc n" using assms(6) PUint by (cases fuel) auto
  moreover have "unat (ucast v :: u64) = unat v" by (simp add: unsigned_ucast_eq take_bit_nat_eq_self less_le_trans [OF unsigned_less [of v, where ?'a = nat]])
  ultimately show ?thesis using assms PUint
    conv_u_ok [of "f\<lparr>in_format := True\<rparr>" "ucast v" ap v]
    by (intro exI [of _ n], cases f) (simp add: cstr_simps cload_def conversion_def after_piece_def piece_count_def)
next
  case (PChr v)
  obtain n where "fuel = Suc n" using assms(6) PChr by (cases fuel) auto
  then show ?thesis using assms PChr
    by (intro exI [of _ n], cases f)
       (simp add: cstr_simps cload_def conversion_def conv_c_def va_int_def putch_console after_piece_def piece_count_def)
next
  case (PStr sp xs)
  obtain n where "fuel = Suc n" using assms(6) PStr by (cases fuel) auto
  moreover have "length xs < clen (kmem (fst_of f)) + 1" using assms(2) PStr by (auto simp: is_cstr_def)
  ultimately show ?thesis using assms PStr puts_loop_ok [of "fst_of f" sp xs "clen (kmem (fst_of f)) + 1" "fpos f"]
    by (intro exI [of _ n], cases f)
       (simp add: cstr_simps cload_def conversion_def conv_s_def va_str_def after_piece_def piece_count_def)
next
  case (PLong d)
  obtain n where n: "fuel = Suc (Suc (Suc n))"
    using assms(6) PLong by (cases fuel; cases "fuel - 1"; cases "fuel - 2") auto
  have "conv_d putch (f\<lparr>in_format := True, long_flags := Suc (Suc 0)\<rparr>) = Inr (after_piece f q ap)"
    using assms PLong by (subst conv_d_ok [where d = d and ap = ap]) (auto simp: after_piece_def piece_count_def)
  then show ?thesis using assms PLong n
    by (intro exI [of _ n]) (simp add: cstr_simps cload_def conversion_def)
next
  case (PUlong d)
  obtain n where n: "fuel = Suc (Suc (Suc n))"
    using assms(6) PUlong by (cases fuel; cases "fuel - 1"; cases "fuel - 2") auto
  have "conv_u putch (f\<lparr>in_format := True, long_flags := Suc (Suc 0)\<rparr>) = Inr (after_piece f q ap)"
    using assms PUlong by (subst conv_u_ok [where u = d and ap = ap]) (auto simp: after_piece_def piece_count_def)
  then show ?thesis using assms PUlong n
    by (intro exI [of _ n]) (simp add: cstr_simps cload_def conversion_def)
qed


lemma after_piece_simps [simp]:
  "fst_of (after_piece f q ap) = on_console (fst_of f) (piece_text q)"
  "fpos (after_piece f q ap) = fpos f + piece_count q"
  "in_format (after_piece f q ap) = in_format f" "long_flags (after_piece f q ap) = long_flags f"
  "fap (after_piece f q ap) = ap"
  by (simp_all add: after_piece_def)

lemma is_cstr_append: "is_cstr m p (xs @ ys) \<Longrightarrow> is_cstr m (p + length xs) ys"
proof (induction xs arbitrary: p)
  case (Cons x xs)
  then have "is_cstr m (Suc p + length xs) ys" by (intro Cons.IH) (simp add: is_cstr_Cons)
  then show ?case by simp
qed simp

lemma vprintf_pieces:
  assumes "is_cstr (kmem (fst_of f)) p (concat (map piece_fmt qs))" "\<forall>q \<in> set qs. piece_ok (kmem (fst_of f)) q"
    and "\<not> in_format f" "long_flags f = 0" "fap f = concat (map piece_args qs) @ ap"
    and "length (concat (map piece_fmt qs)) < fuel"
  shows "\<exists>f'. vprintf_loop putch fuel p f = Inr f' \<and>
    fst_of f' = on_console (fst_of f) (concat (map piece_text qs)) \<and> fpos f' = fpos f + sum_list (map piece_count qs)"
  using assms
proof (induction qs arbitrary: f p fuel)
  case Nil
  then show ?case by (cases fuel) (simp_all add: cstr_simps cload_def)
next
  case (Cons q qs)
  let ?ap = "concat (map piece_args qs) @ ap"
  have "is_cstr (kmem (fst_of f)) p (piece_fmt q @ concat (map piece_fmt qs))" using Cons.prems(1) by simp
  then obtain n where n: "n \<ge> fuel - length (piece_fmt q)"
    "vprintf_loop putch fuel p f = vprintf_loop putch n (p + length (piece_fmt q)) (after_piece f q ?ap)"
    using vprintf_piece [of f p q "concat (map piece_fmt qs)" ?ap fuel] Cons.prems by auto
  have "is_cstr (kmem (fst_of f)) (p + length (piece_fmt q)) (concat (map piece_fmt qs))"
    using Cons.prems(1) by (intro is_cstr_append) simp
  moreover have "length (concat (map piece_fmt qs)) < n"
  proof -
    have "length (piece_fmt q) + length (concat (map piece_fmt qs)) < fuel" using Cons.prems(6) by simp
    with n(1) show ?thesis by linarith
  qed
  ultimately obtain f' where "vprintf_loop putch n (p + length (piece_fmt q)) (after_piece f q ?ap) = Inr f'"
    "fst_of f' = on_console (on_console (fst_of f) (piece_text q)) (concat (map piece_text qs))"
    "fpos f' = fpos f + piece_count q + sum_list (map piece_count qs)"
    using Cons.IH [of "after_piece f q ?ap" "p + length (piece_fmt q)" n] Cons.prems n(1) by auto
  then show ?case using n(2) by (intro exI [of _ f']) simp
qed

lemma printf_pieces:
  assumes "is_cstr (kmem s) fmt (concat (map piece_fmt qs))" "\<forall>q \<in> set qs. piece_ok (kmem s) q"
  shows "printf fmt (concat (map piece_args qs)) s =
    Inr (on_console s (concat (map piece_text qs)), sum_list (map piece_count qs))"
proof -
  let ?f = "\<lparr>fst_of = s, fpos = 0, in_format = False, long_flags = 0, fap = concat (map piece_args qs)\<rparr>"
  have "length (concat (map piece_fmt qs)) < clen (kmem s) + 1" using assms(1) by (auto simp: is_cstr_def)
  then obtain f' where "vprintf_loop putch (clen (kmem s) + 1) fmt ?f = Inr f'"
    "fst_of f' = on_console s (concat (map piece_text qs))" "fpos f' = sum_list (map piece_count qs)"
    using vprintf_pieces [of ?f fmt qs "[]" "clen (kmem s) + 1"] assms by auto
  then show ?thesis by (simp add: printf_def vprintf_def)
qed

lemma vprintf_min:
  assumes "is_cstr (kmem (fst_of f)) p (piece_fmt (PLong int_min) @ rest)" "\<not> in_format f" "long_flags f = 0"
    and "fap f = VLong int_min # ap" "4 \<le> fuel"
  shows "vprintf_loop putch fuel p f = Inl Undef"
proof -
  obtain n where n: "fuel = Suc (Suc (Suc n))"
    using assms(5) by (cases fuel; cases "fuel - 1"; cases "fuel - 2") auto
  have m: "sint (int_min :: u64) < 0" by (simp add: int_min_def)
  have "conv_d putch (f\<lparr>in_format := True, long_flags := Suc (Suc 0)\<rparr>) = Inl Undef"
    using assms(4) m by (simp add: conv_d_def va_long_def)
  then show ?thesis using assms(1-4) n by (simp add: cstr_simps cload_def conversion_def)
qed

lemma vprintf_pieces_min:
  assumes "is_cstr (kmem (fst_of f)) p (concat (map piece_fmt qs))" "\<forall>q \<in> set qs. piece_wf (kmem (fst_of f)) q"
    and "PLong int_min \<in> set qs" "\<not> in_format f" "long_flags f = 0" "fap f = concat (map piece_args qs)"
    and "length (concat (map piece_fmt qs)) < fuel"
  shows "vprintf_loop putch fuel p f = Inl Undef"
  using assms
proof (induction qs arbitrary: f p fuel)
  case (Cons q qs)
  let ?ap = "concat (map piece_args qs)"
  have c: "is_cstr (kmem (fst_of f)) p (piece_fmt q @ concat (map piece_fmt qs))" using Cons.prems(1) by simp
  show ?case
  proof (cases "q = PLong int_min")
    case True
    then show ?thesis using vprintf_min [of f p "concat (map piece_fmt qs)" ?ap fuel] c Cons.prems(4-7) by simp
  next
    case False
    then have "piece_ok (kmem (fst_of f)) q" using Cons.prems(2) by (simp add: piece_ok_wf)
    with c Cons.prems(4-7) obtain n where n: "n \<ge> fuel - length (piece_fmt q)"
      "vprintf_loop putch fuel p f = vprintf_loop putch n (p + length (piece_fmt q)) (after_piece f q ?ap)"
      using vprintf_piece [of f p q "concat (map piece_fmt qs)" ?ap fuel] by auto
    have "length (piece_fmt q) + length (concat (map piece_fmt qs)) < fuel" using Cons.prems(7) by simp
    then have "length (concat (map piece_fmt qs)) < n" using n(1) by linarith
    then show ?thesis unfolding n(2)
      by (intro Cons.IH) (use c Cons.prems False in \<open>auto dest: is_cstr_append\<close>)
  qed
qed simp

lemma piece_counts:
  "sum_list (map piece_count qs) = int (length (concat (map piece_text qs))) - int (length (filter (\<lambda>q. q = PPct) qs))"
  by (induction qs) (auto simp: piece_count_def)

lemma printf_format:
  assumes "is_cstr (kmem s) fmt (concat (map piece_fmt qs))" "\<forall>q \<in> set qs. piece_wf (kmem s) q"
  shows "printf fmt (concat (map piece_args qs)) s =
    (if PLong int_min \<in> set qs then Inl Undef
     else Inr (on_console s (concat (map piece_text qs)), sum_list (map piece_count qs)))"
proof (cases "PLong int_min \<in> set qs")
  case True
  let ?f = "\<lparr>fst_of = s, fpos = 0, in_format = False, long_flags = 0, fap = concat (map piece_args qs)\<rparr>"
  have "length (concat (map piece_fmt qs)) < clen (kmem s) + 1" using assms(1) by (auto simp: is_cstr_def)
  then have "vprintf_loop putch (clen (kmem s) + 1) fmt ?f = Inl Undef"
    using vprintf_pieces_min [of ?f fmt qs "clen (kmem s) + 1"] True assms by simp
  then show ?thesis using True by (simp add: printf_def vprintf_def)
next
  case False
  then have "\<forall>q \<in> set qs. piece_ok (kmem s) q" using assms(2) by (auto simp: piece_ok_wf)
  with printf_pieces [OF assms(1)] False show ?thesis by simp
qed

section \<open>Reading numbers back\<close>

lemma dec_value_mono: "a \<le> dec_value xs a"
proof (induction xs arbitrary: a)
  case (Cons c xs)
  have "a \<le> a * 10 + (unat c - 48)" by simp
  also have "\<dots> \<le> dec_value xs (a * 10 + (unat c - 48))" by (rule Cons.IH)
  finally show ?case by simp
qed simp

lemma atoi_digits_ok:
  assumes "\<forall>c \<in> set cs. 48 \<le> c \<and> c \<le> 57" "is_cstr m p (cs @ rest)"
    and "\<forall>c \<in> set (take 1 rest). \<not> (48 \<le> c \<and> c \<le> 57)"
    and "dec_value cs (nat x) < 2 ^ 31 - 48" "0 \<le> x"
  shows "atoi_digits m p x = Inr (int (dec_value cs (nat x)))"
  using assms
proof (induction cs arbitrary: p x)
  case Nil
  then show ?case
    by (subst atoi_digits.simps, cases rest) (auto simp: cstr_simps cload_def)
next
  case (Cons c cs)
  have c: "48 \<le> unat c" "unat c \<le> 57" using Cons.prems(1) by (auto simp: word_le_nat_alt)
  define y where "y = x * 10 + uint c - 48"
  define k where "k = unat c"
  have uc: "uint c = int k" unfolding k_def by (rule uint_nat)
  note c = c [folded k_def]
  have y: "nat y = nat x * 10 + (unat c - 48)" "0 \<le> y"
    unfolding k_def [symmetric] y_def uc using c Cons.prems(5) by linarith+
  have "nat y < 2 ^ 31 - 48" using dec_value_mono [of "nat y" cs] Cons.prems(4) y by simp
  then have "y < 2147483600" using y(2) by simp
  then have fits: "int_fits (x * 10) \<and> int_fits (x * 10 + uint c) \<and> int_fits y"
    using c Cons.prems(5) y(2) unfolding int_fits_def y_def uc by simp
  have "atoi_digits m (Suc p) y = Inr (int (dec_value cs (nat y)))"
    using Cons.prems y by (intro Cons.IH) (auto simp: cstr_simps)
  then show ?case
    using Cons.prems fits y by (subst atoi_digits.simps) (simp add: cstr_simps cload_def y_def)
qed


lemma atoi_dec_text:
  assumes "is_cstr m p (dec_text u)" "u < 2 ^ 31 - 48"
  shows "atoi m p = Inr (int u)"
proof -
  have "dec_text u \<noteq> []"
    by (cases "u = 0") (auto simp: dec_text_def rev_digits.simps [of u])
  then obtain c cs where t: "dec_text u = c # cs" by (cases "dec_text u") auto
  have "48 \<le> c" using dec_text_range [of c u] t by simp
  then have "c \<noteq> 32" by (auto simp: word_le_nat_alt)
  moreover have "p < clen m" "cget m p = c" using assms(1) t by (simp_all add: is_cstr_Cons)
  moreover have "atoi_digits m p 0 = Inr (int u)"
    using atoi_digits_ok [of "dec_text u" m p "[]" 0] assms dec_text_range [of _ u] by (simp add: dec_text_value)
  ultimately show ?thesis by (subst atoi.simps) (simp add: cload_def)
qed

section \<open>The allocator\<close>

text \<open>Rounding up to a multiple of eight, away from the top of the address space.\<close>

lemma ROUNDUP8:
  assumes "unat a < 2 ^ 32 - 8"
  shows "unat (ROUNDUP a 8) = (unat a + 7) div 8 * 8"
proof -
  have "a + 8 - 1 = a + 7" by simp
  then have "ROUNDUP a 8 = (a + 7) AND NOT (mask 3)" by (simp add: ROUNDUP_def mask_eq_exp_minus_1 add.commute)
  also have "\<dots> = push_bit 3 (drop_bit 3 (a + 7))"
    by (rule bit_word_eqI) (auto simp: bit_simps)
  finally have "unat (ROUNDUP a 8) = unat (push_bit 3 (drop_bit 3 (a + 7)))" by simp
  moreover have s: "unat (a + 7) = unat a + 7"
    by (subst unat_word_ariths) (use assms in \<open>simp add: mod_less\<close>)
  moreover have "unat (push_bit 3 (drop_bit 3 (a + 7))) = take_bit 32 (unat (drop_bit 3 (a + 7)) * 8)"
    by (simp only: unsigned_push_bit_eq push_bit_eq_mult [where 'a = nat]) simp
  moreover have "unat (drop_bit 3 (a + 7)) = (unat a + 7) div 8"
    using s by (simp only: unat_drop_bit_eq drop_bit_eq_div [where 'a = nat]) simp
  moreover have "(unat a + 7) div 8 * 8 < 2 ^ 32" using assms div_times_less_eq_dividend [of "unat a + 7" 8] by simp
  ultimately show ?thesis by (simp add: take_bit_nat_eq_self)
qed

end
