(* ===== verification/Klib_Properties.thy ===== *)
theory Klib_Properties
  imports Int64_Correct Kstdio
begin

text \<open>
  Properties of the runtime library of the abstract machine: the 64-bit arithmetic helpers of
  \<^verbatim>\<open>int64.c\<close>, the memory and string functions, and formatted output, with their witnesses.
\<close>

section \<open>64-bit arithmetic on 32-bit machines\<close>

text \<open>
  C2: the unsigned division helper computes quotient and remainder of any 64-bit operands, the
  divisor not zero, although it works on 32-bit halves with shifts, special cases and a
  restoring loop; with a zero divisor it reaches the division by zero it is meant to trap on.
\<close>
theorem udivmod_correct:
  "udivmoddi4 a b = (if b = 0 then Inl Undef else Inr (a div b, a mod b)) \<and>
   udivdi3 a b = (if b = 0 then Inl Undef else Inr (a div b)) \<and>
   umoddi3 a b = (if b = 0 then Inl Undef else Inr (a mod b))"
  using udivmoddi4_ok udivmoddi4_zero by (simp add: udivdi3_def umoddi3_def)

text \<open>
  C11: the signed helpers truncate towards zero, with the remainder taking the sign of the
  dividend, for all operands but \<^verbatim>\<open>INT64_MIN\<close>, whose negation overflows, and a zero divisor; on
  these all three of them are undefined.
\<close>
theorem signed_division_correct:
  "if b = 0 \<or> sint a = - (2 ^ 63) \<or> sint b = - (2 ^ 63)
    then divdi3 a b = Inl Undef \<and> moddi3 a b = Inl Undef \<and> divmoddi4 a b = Inl Undef
    else divdi3 a b = Inr (word_of_int (sint a sdiv sint b)) \<and>
         moddi3 a b = Inr (word_of_int (sint a smod sint b)) \<and>
         divmoddi4 a b = Inr (word_of_int (sint a sdiv sint b), word_of_int (sint a smod sint b))"
  using divdi3_ok [of b a] moddi3_ok [of b a] divmoddi4_ok [of b a] signed_undef [of b a] by auto

theorem signed_division_correct_witness:
  "divdi3 (-7) 2 = Inr (-3) \<and> moddi3 (-7) 2 = Inr (-1) \<and> divmoddi4 (-7) 2 = Inr (-3, -1)"
  using signed_division_correct [of 2 "-7"] by (simp add: signed_divide_int_def signed_modulo_int_def)

text \<open>
  The portable bit counts agree with the compiler's built-ins they stand for, and on 64-bit
  words they give the number of zeros above the highest and below the lowest bit set.
\<close>
lemma bit_counts_correct:
  assumes "x \<noteq> 0" "a \<noteq> 0"
  shows "clzsi2 x = of_nat (builtin_clz x) \<and> ctzsi2 x = of_nat (builtin_ctz x) \<and>
    unat (clzdi2 a) < 64 \<and> 2 ^ (63 - unat (clzdi2 a)) \<le> unat a \<and> unat a < 2 ^ (64 - unat (clzdi2 a)) \<and>
    unat (ctzdi2 a) < 64 \<and> 2 ^ unat (ctzdi2 a) dvd unat a \<and> odd (unat a div 2 ^ unat (ctzdi2 a))"
  using clzsi2_builtin [OF assms(1)] ctzsi2_builtin [OF assms(1)] clzdi2_counts [OF assms(2)]
    ctzdi2_counts [OF assms(2)] by blast

section \<open>Memory and strings\<close>

text \<open>
  C16: \<^verbatim>\<open>memmove\<close> moves a block whatever the overlap: afterwards the destination holds what the
  source held, and every other byte is unchanged.
\<close>
theorem memmove_moves:
  assumes "d + n \<le> clen m" "s + n \<le> clen m"
  shows "\<exists>m'. memmove m d s n = Inr m' \<and> block m' d n = block m s n \<and>
    (\<forall>i. i < d \<or> d + n \<le> i \<longrightarrow> cget m' i = cget m i) \<and> clen m' = clen m"
  using memmove_ok [OF assms] block_put_same [of m d "block m s n"] by (auto simp: cget_arr_put)

theorem memmove_moves_witness:
  "\<exists>m'. memmove \<lparr>clen = 8, cget = (\<lambda>i. of_nat i)\<rparr> 2 0 4 = Inr m' \<and> block m' 2 4 = [0, 1, 2, 3]"
  using memmove_moves [of 2 4 "\<lparr>clen = 8, cget = (\<lambda>i. of_nat i)\<rparr>" 0]
  by (auto simp: block_def upt_rec)

text \<open>
  \<^verbatim>\<open>strcpy\<close> and \<^verbatim>\<open>strcat\<close> build the concatenation of two strings in a buffer with room for
  it and apart from both: the result is a string, its length is the sum, and the two sources
  are intact.
\<close>
lemma strcpy_strcat:
  assumes "is_cstr m p xs" "is_cstr m q ys" "d + length xs + length ys < clen m"
    and "d + length xs + length ys < p \<or> p + length xs < d"
    and "d + length xs + length ys < q \<or> q + length ys < d"
  shows "\<exists>m1 m2. strcpy m d p = Inr m1 \<and> strcat m1 d q = Inr m2 \<and>
    is_cstr m2 d (xs @ ys) \<and> strlen m2 d = Inr (length xs + length ys) \<and>
    is_cstr m2 p xs \<and> is_cstr m2 q ys"
proof -
  let ?m1 = "arr_put m d (xs @ [0])"
  let ?m2 = "arr_put ?m1 (d + length xs) (ys @ [0])"
  have nz: "0 \<notin> set xs" "0 \<notin> set ys" using assms(1,2) by (simp_all add: is_cstr_def)
  have c: "strcpy m d p = Inr ?m1" using assms by (intro strcpy_ok) auto
  have m1: "is_cstr ?m1 d xs" "is_cstr ?m1 p xs" "is_cstr ?m1 q ys"
    using assms nz is_cstr_put_other [of d "xs @ [0]" p xs m] is_cstr_put_other [of d "xs @ [0]" q ys m]
    by (auto intro: is_cstr_put_same)
  have s: "strcat ?m1 d q = Inr ?m2" using assms by (intro strcat_ok [OF m1(1,3)]) auto
  have "?m2 = arr_put m d ((xs @ ys) @ [0])"
    by (rule carray_eqI) (auto simp: cget_arr_put nth_append)
  then have r: "is_cstr ?m2 d (xs @ ys)"
    using assms(3) nz is_cstr_put_same [of d "xs @ ys" m] by simp
  have "is_cstr ?m2 p xs" "is_cstr ?m2 q ys"
    using m1(2,3) assms is_cstr_put_other [of "d + length xs" "ys @ [0]" p xs ?m1]
      is_cstr_put_other [of "d + length xs" "ys @ [0]" q ys ?m1] by auto
  with c s r strlen_ok [OF r] show ?thesis by auto
qed

text \<open>The bytes \<^verbatim>\<open>"hi"\<close> at 1 and \<^verbatim>\<open>"42"\<close> at 8 of a small array.\<close>

definition two_strings :: carray where
  "two_strings = \<lparr>clen = 32, cget = (\<lambda>i. if i < 11 then [0, 104, 105, 0, 0, 0, 0, 0, 52, 50, 0] ! i else 0)\<rparr>"

lemma two_strings: "is_cstr two_strings 1 [104, 105]" "is_cstr two_strings 8 [52, 50]"
  by (simp_all add: two_strings_def cstr_simps)

text \<open>
  \<^verbatim>\<open>strcmp\<close> decides the lexicographic order of the byte strings: zero exactly for equal
  strings, negative exactly if the first comes before the second.
\<close>
theorem strcmp_orders:
  assumes "is_cstr m p xs" "is_cstr m q ys"
  shows "\<exists>r. strcmp m p q = Inr r \<and> (r = 0 \<longleftrightarrow> xs = ys) \<and> (r < 0 \<longleftrightarrow> ord_class.lexordp xs ys)"
proof -
  have "0 \<notin> set xs" "0 \<notin> set ys" using assms by (simp_all add: is_cstr_def)
  then show ?thesis using strcmp_ok [OF assms] str_diff_0 str_diff_lex by blast
qed

section \<open>Formatted output and numbers\<close>

text \<open>
  C8: \<^verbatim>\<open>printf\<close> prints its arguments: for every format made of literal characters, \<^verbatim>\<open>%%\<close>,
  \<^verbatim>\<open>%d\<close>, \<^verbatim>\<open>%lld\<close>, \<^verbatim>\<open>%u\<close>, \<^verbatim>\<open>%llu\<close>, \<^verbatim>\<open>%c\<close> and \<^verbatim>\<open>%s\<close>, with arguments of these types, the console
  receives the text of each piece in order, numbers in decimal. The result is not the length of
  that text, as the C standard has it, but smaller by one for each \<^verbatim>\<open>%%\<close>. The one argument that
  is not printed is \<^verbatim>\<open>INT64_MIN\<close> for \<^verbatim>\<open>%lld\<close>, the negation of which is undefined.
\<close>
theorem printf_prints:
  assumes "is_cstr (kmem s) fmt (concat (map piece_fmt qs))" "\<forall>q \<in> set qs. piece_wf (kmem s) q"
  shows "printf fmt (concat (map piece_args qs)) s =
    (if PLong int_min \<in> set qs then Inl Undef
     else Inr (s\<lparr>kcons := kcons s @ concat (map piece_text qs)\<rparr>,
       int (length (concat (map piece_text qs))) - int (length (filter (\<lambda>q. q = PPct) qs))))"
  using printf_format [OF assms] by (simp add: on_console_def piece_counts)

definition sample_format :: kstate where
  "sample_format = \<lparr>kmem = \<lparr>clen = 16, cget = (\<lambda>i. if i < 7 then [120, 61, 37, 100, 37, 37, 0] ! i else 0)\<rparr>,
     kcons = [], kout = 0\<rparr>"

text \<open>\<^verbatim>\<open>printf("x=%d%%", -42)\<close> prints \<^verbatim>\<open>x=-42%\<close>.\<close>

theorem printf_prints_witness:
  "printf 0 [VInt (-42)] sample_format =
     Inr (sample_format\<lparr>kcons := [120, 61, 45, 52, 50, 37]\<rparr>, 6 - 1)"
proof -
  let ?qs = "[PLit 120, PLit 61, PInt (-42), PPct]"
  have "is_cstr (kmem sample_format) 0 (concat (map piece_fmt ?qs))"
    by (simp add: sample_format_def cstr_simps)
  moreover have "\<forall>q \<in> set ?qs. piece_wf (kmem sample_format) q" by simp
  moreover have "dec_text 42 = [52, 50]" by code_simp
  ultimately show ?thesis
    using printf_prints [of sample_format 0 ?qs]
    by (simp add: int_text_def sample_format_def)
qed

text \<open>
  What \<^verbatim>\<open>%u\<close> prints of a number, \<^verbatim>\<open>atoi\<close> reads back, up to the 48 largest values of \<^verbatim>\<open>int\<close>
  (for which its intermediate sum overflows).
\<close>
lemma atoi_reads_printed:
  assumes "is_cstr m p (piece_text (PUint v))" "unat v < 2 ^ 31 - 48"
  shows "atoi m p = Inr (int (unat v))"
  using atoi_dec_text [of m p "unat v"] assms by simp

text \<open>
  C18: the allocator of \<^verbatim>\<open>stdlib.c\<close> returns eight-byte aligned blocks that follow each other
  without overlap, as long as the heap does not reach the end of the address space.
\<close>
theorem malloc_disjoint:
  assumes "malloc heap n s = (s1, p)" "malloc heap k s1 = (s2, q)"
    and "unat n < 2 ^ 32 - 8" "unat p + unat n + 8 < 2 ^ 32"
    and "init_flag s \<longrightarrow> 8 dvd unat (start_addr s)" "unat heap < 2 ^ 32 - 8"
  shows "8 dvd unat p \<and> 8 dvd unat q \<and> unat p + unat n \<le> unat q"
proof -
  have p: "8 dvd unat p"
    using assms(1,5,6) ROUNDUP8 [of heap] by (auto simp: malloc_def Let_def split: if_split_asm)
  have q: "q = p + ROUNDUP n 8"
    using assms(1,2) by (auto simp: malloc_def Let_def split: if_split_asm)
  have r: "unat (ROUNDUP n 8) = (unat n + 7) div 8 * 8" using assms(3) by (rule ROUNDUP8)
  then have b: "unat n \<le> unat (ROUNDUP n 8)" "unat (ROUNDUP n 8) \<le> unat n + 7" by linarith+
  then have "unat q = unat p + unat (ROUNDUP n 8)"
    unfolding q by (subst unat_word_ariths) (use assms(4) in \<open>simp add: mod_less\<close>)
  with p r b show ?thesis by simp
qed

theorem malloc_disjoint_witness:
  "unat (snd (malloc 0x1001 5 \<lparr>rand_next = 1, start_addr = 0, init_flag = False\<rparr>)) + 5 \<le>
   unat (snd (malloc 0x1001 1 (fst (malloc 0x1001 5 \<lparr>rand_next = 1, start_addr = 0, init_flag = False\<rparr>))))"
proof -
  let ?s = "\<lparr>rand_next = 1, start_addr = 0, init_flag = False\<rparr>"
  have "snd (malloc 0x1001 5 ?s) = 0x1008"
    by (simp add: malloc_def ROUNDUP_def)
  then show ?thesis
    using malloc_disjoint [OF surjective_pairing surjective_pairing, of 5 "0x1001" ?s 1] by simp
qed

end
