(* ===== verification/Sdb.thy ===== *)
theory Sdb
  imports Cpu_Exec
begin

text \<open>
  The command loop of the debugger, \<^verbatim>\<open>src/monitor/sdb/sdb.c\<close>, and what it is started from,
  \<^verbatim>\<open>engine_start\<close> (\<^verbatim>\<open>src/engine/interpreter/init.c\<close>). A line of input is a string; \<^verbatim>\<open>readline\<close>
  returning \<^verbatim>\<open>NULL\<close> is the end of the list of lines. What the commands print is the list
  \<open>sdb_out\<close>. The functions \<^verbatim>\<open>strtok\<close>, \<^verbatim>\<open>sscanf\<close> and \<^verbatim>\<open>strtol\<close> are those of the C standard, for
  the formats used.
\<close>

section \<open>Functions of the C library\<close>

text \<open>One call of \<^verbatim>\<open>strtok(s, " ")\<close>: the token, and the string the next call continues with.\<close>

definition strtok :: "string \<Rightarrow> (string \<times> string) option" where
  "strtok s =
     (let t = dropWhile (\<lambda>ch. ch = CHR '' '') s in
      if t = [] then None
      else Some (takeWhile (\<lambda>ch. ch \<noteq> CHR '' '') t, drop 1 (dropWhile (\<lambda>ch. ch \<noteq> CHR '' '') t)))"

definition is_space :: "char \<Rightarrow> bool" where
  "is_space ch \<longleftrightarrow> char_code ch = 32 \<or> (9 \<le> char_code ch \<and> char_code ch \<le> 13)"

definition skip_space :: "string \<Rightarrow> string" where
  "skip_space s = dropWhile is_space s"

definition scan_sign :: "string \<Rightarrow> bool \<times> string" where
  "scan_sign s = (if take 1 s = ''-'' then (True, drop 1 s)
                  else if take 1 s = ''+'' then (False, drop 1 s) else (False, s))"

text \<open>The integer at the start of the string, if there is one.\<close>

definition scan_int :: "string \<Rightarrow> int option" where
  "scan_int s =
     (let (neg, t) = scan_sign (skip_space s); ds = takeWhile is_dig t; v = int (digits_val 10 ds) in
      if ds = [] then None else Some (if neg then - v else v))"

text \<open>
  \<^verbatim>\<open>sscanf(s, "%d", &x)\<close> where \<open>x\<close> holds \<open>old\<close>: undefined if the number does not fit, \<open>old\<close> if
  there is no number.
\<close>

definition sscanf_d :: "string \<Rightarrow> int \<Rightarrow> int res" where
  "sscanf_d s old =
     (case scan_int s of None \<Rightarrow> Inr old
      | Some v \<Rightarrow> guardR (- (2 ^ 31) \<le> v \<and> v < 2 ^ 31) Undef (Inr v))"

definition sscanf_x :: "string \<Rightarrow> u32 \<Rightarrow> u32 res" where
  "sscanf_x s old =
     (let (neg, t) = scan_sign (skip_space s);
          prefixed = (take 2 t = ''0x'' \<or> take 2 t = ''0X'');
          ds = takeWhile is_hex (if prefixed then drop 2 t else t);
          v = digits_val 16 ds in
      if ds = [] then Inr old
      else guardR (v < 2 ^ 32 \<and> (neg \<longrightarrow> v = 0)) Undef (Inr (of_nat v)))"

text \<open>\<^verbatim>\<open>strtol(s, NULL, 10)\<close>, which saturates, converted to \<^verbatim>\<open>int\<close>.\<close>

definition strtol_int :: "string \<Rightarrow> int" where
  "strtol_int s =
     (case scan_int s of None \<Rightarrow> 0
      | Some v \<Rightarrow> sint (word_of_int (max (- (2 ^ 63)) (min (2 ^ 63 - 1) v)) :: u32))"

section \<open>State and output\<close>

datatype 'v sdb_output =
  Msg string
| RegLine string 'v
| WpLine int string
| MemLine u32 'v
| Value int

record ('v, 'e, 'r) sdb_state =
  ex :: "('v, 'e, 'r) exec_state"
  is_batch_mode :: bool
  sdb_out :: "'v sdb_output list"

text \<open>\<^verbatim>\<open>static int is_batch_mode = true;\<close>\<close>

definition initial_batch_mode :: bool where
  "initial_batch_mode = True"

text \<open>What the debugger is linked with.\<close>

record ('v, 'e, 'r) sdb_env =
  se_config :: config
  se_devices :: device_config
  se_guest :: "('v, 'e, 'r) guest"
  se_reg_display :: "('v, 'e) isa_machine \<Rightarrow> (string \<times> 'v) list res"
  se_decode :: "'v Decode"

definition sdb_print :: "'v sdb_output list \<Rightarrow> ('v, 'e, 'r) sdb_state \<Rightarrow> ('v, 'e, 'r) sdb_state" where
  "sdb_print ls s = s\<lparr>sdb_out := sdb_out s @ ls\<rparr>"

type_synonym ('v, 'e, 'r) cmd_result = "(int \<times> ('v, 'e, 'r) sdb_state) res"

definition sdb_set_batch_mode :: "('v, 'e, 'r) sdb_state \<Rightarrow> ('v, 'e, 'r) sdb_state" where
  "sdb_set_batch_mode s = s\<lparr>is_batch_mode := True\<rparr>"

definition quoted :: "string \<Rightarrow> string" where
  "quoted t = [CHR 0x27] @ t @ [CHR 0x27]"

section \<open>The commands\<close>

text \<open>The argument of \<^verbatim>\<open>cpu_exec\<close>, a \<^verbatim>\<open>uint64_t\<close>, is converted from an \<^verbatim>\<open>int\<close>.\<close>

definition run_cpu :: "('a::len word, 'e, 'r) sdb_env \<Rightarrow> int \<Rightarrow> ('a word, 'e, 'r) sdb_state \<Rightarrow>
    ('a word, 'e, 'r) sdb_state res" where
  "run_cpu E n s =
     bindR (cpu_exec (se_config E) (se_devices E) (se_guest E) (word_of_int n) (se_decode E) (ex s))
      (\<lambda>x. Inr (s\<lparr>ex := x\<rparr>))"

definition cmd_c :: "('a::len word, 'e, 'r) sdb_env \<Rightarrow> ('a word, 'e, 'r) sdb_state \<Rightarrow>
    ('a word, 'e, 'r) cmd_result" where
  "cmd_c E s = bindR (run_cpu E (-1) s) (\<lambda>s. Inr (0, s))"

definition cmd_q :: "('v, 'e, 'r) sdb_state \<Rightarrow> ('v, 'e, 'r) cmd_result" where
  "cmd_q s = Inr (-1, s\<lparr>ex := set_run NEMU_QUIT (ex s)\<rparr>)"

definition cmd_si :: "('a::len word, 'e, 'r) sdb_env \<Rightarrow> string option \<Rightarrow> ('a word, 'e, 'r) sdb_state \<Rightarrow>
    ('a word, 'e, 'r) cmd_result" where
  "cmd_si E args s =
     bindR (case args of None \<Rightarrow> Inr 1 | Some a \<Rightarrow> sscanf_d a 0) (\<lambda>step.
     bindR (run_cpu E step s) (\<lambda>s. Inr (0, s)))"

definition cmd_info :: "('v, 'e, 'r) sdb_env \<Rightarrow> string option \<Rightarrow> ('v, 'e, 'r) sdb_state \<Rightarrow>
    ('v, 'e, 'r) cmd_result" where
  "cmd_info E args s =
     (case args of
        None \<Rightarrow> Inr (0, sdb_print [Msg ''No args.'', Msg ''List: info r or info w''] s)
      | Some a \<Rightarrow>
          if a = ''r''
          then bindR (se_reg_display E (mach (ex s))) (\<lambda>rs.
               Inr (0, sdb_print (map (\<lambda>(r, v). RegLine r v) rs) s))
          else if a = ''w''
          then bindR (wp_display (wpst (ex s))) (\<lambda>ws.
               Inr (0, sdb_print (map (\<lambda>(n, e). WpLine n e) ws) s))
          else Inr (0, sdb_print [Msg ''Wrong args.'', Msg ''List: info r or info w.''] s))"

text \<open>The loop of \<^verbatim>\<open>cmd_x\<close>, \<open>n\<close> rounds from \<open>addr\<close>.\<close>

fun cmd_x_loop :: "config \<Rightarrow> nat \<Rightarrow> u32 \<Rightarrow> ('a::len word, 'e, 'r) sdb_state \<Rightarrow>
    ('a word, 'e, 'r) sdb_state res" where
  "cmd_x_loop c 0 addr s = Inr s"
| "cmd_x_loop c (Suc n) addr s =
     bindR (paddr_read c addr 4 (nsys (mach (ex s)))) (\<lambda>(w, y).
     cmd_x_loop c n (addr + 4)
       (sdb_print [MemLine addr w] (s\<lparr>ex := (ex s)\<lparr>mach := (mach (ex s))\<lparr>nsys := y\<rparr>\<rparr>\<rparr>)))"

text \<open>
  \<^verbatim>\<open>strtok\<close> of a null pointer continues with what follows the command, which is empty when
  \<^verbatim>\<open>args\<close> is null; \<^verbatim>\<open>sscanf\<close> of a null pointer is undefined.
\<close>

definition cmd_x :: "('a::len word, 'e, 'r) sdb_env \<Rightarrow> string option \<Rightarrow> ('a word, 'e, 'r) sdb_state \<Rightarrow>
    ('a word, 'e, 'r) cmd_result" where
  "cmd_x E args s =
     (case strtok (case args of None \<Rightarrow> [] | Some a \<Rightarrow> a) of
        None \<Rightarrow> Inl Undef
      | Some (number, rest) \<Rightarrow>
          bindR (sscanf_d number 0) (\<lambda>len.
          case strtok rest of
            None \<Rightarrow> Inl Undef
          | Some (address, _) \<Rightarrow>
              bindR (sscanf_x address 0) (\<lambda>addr.
              bindR (cmd_x_loop (se_config E) (nat len) addr s) (\<lambda>s. Inr (0, s)))))"

text \<open>The result of \<^verbatim>\<open>expr\<close> in the running machine.\<close>

definition sdb_expr :: "('a::len word, 'e, 'r) sdb_env \<Rightarrow> string \<Rightarrow> ('a word, 'e, 'r) sdb_state \<Rightarrow>
    (('a word \<times> bool) \<times> ('a word, 'e, 'r) sdb_state) res" where
  "sdb_expr E a s =
     bindR (expr (se_config E) (g_reg_val (se_guest E)) a (mach (ex s))) (\<lambda>(r, m).
     Inr (r, s\<lparr>ex := (ex s)\<lparr>mach := m\<rparr>\<rparr>))"

text \<open>\<^verbatim>\<open>%d\<close> prints the low 32 bits of a \<^verbatim>\<open>word_t\<close> as a signed number.\<close>

definition cmd_p :: "('a::len word, 'e, 'r) sdb_env \<Rightarrow> string option \<Rightarrow> ('a word, 'e, 'r) sdb_state \<Rightarrow>
    ('a word, 'e, 'r) cmd_result" where
  "cmd_p E args s =
     (case args of
        None \<Rightarrow> Inr (0, sdb_print [Msg ''No args.''] s)
      | Some a \<Rightarrow> bindR (sdb_expr E a s) (\<lambda>((result, success), s).
          if \<not> success then Inr (0, sdb_print [Msg ''Invalid expression.''] s)
          else Inr (0, sdb_print [Value (sint (ucast result :: u32))] s)))"

definition cmd_w :: "('a::len word, 'e, 'r) sdb_env \<Rightarrow> string option \<Rightarrow> ('a word, 'e, 'r) sdb_state \<Rightarrow>
    ('a word, 'e, 'r) cmd_result" where
  "cmd_w E args s =
     (case args of
        None \<Rightarrow> Inr (0, sdb_print [Msg (''The standard format is '' @ quoted ''w EXPR'')] s)
      | Some a \<Rightarrow> bindR (sdb_expr E a s) (\<lambda>((result, success), s).
          if \<not> success then Inr (0, sdb_print [Msg ''Invalid expression''] s)
          else bindR (wp_set a result (wpst (ex s))) (\<lambda>w.
               Inr (0, s\<lparr>ex := (ex s)\<lparr>wpst := w\<rparr>\<rparr>))))"

definition cmd_d :: "string option \<Rightarrow> ('v, 'e, 'r) sdb_state \<Rightarrow> ('v, 'e, 'r) cmd_result" where
  "cmd_d args s =
     (case args of
        None \<Rightarrow> Inr (0, sdb_print [Msg (''The standard format is: '' @ quoted ''d N'')] s)
      | Some a \<Rightarrow> bindR (wp_delete (strtol_int a) (wpst (ex s))) (\<lambda>w.
          Inr (0, s\<lparr>ex := (ex s)\<lparr>wpst := w\<rparr>\<rparr>)))"

section \<open>The command table\<close>

text \<open>A handler is the name of the function the table points to.\<close>

datatype handler =
  Help | Cont | Quit | Step | Info | Scan | Print | Watch | Delete

definition cmd_table :: "(string \<times> string \<times> handler) list" where
  "cmd_table =
    [(''help'', ''Display information about all supported commands'', Help),
     (''c'', ''Continue the execution of the program'', Cont),
     (''q'', ''Exit NEMU'', Quit),
     (''si'', ''One single step'', Step),
     (''info'', ''Print register status'', Info),
     (''x'', ''Scan memory'', Scan),
     (''p'', ''Expression evaluation'', Print),
     (''w'', ''Watch for the variation of the result of EXPR, pause at variation point'', Watch),
     (''d'', ''Delete watchpoint'', Delete)]"

fun find_cmd :: "string \<Rightarrow> (string \<times> string \<times> handler) list \<Rightarrow> (string \<times> handler) option" where
  "find_cmd nm [] = None"
| "find_cmd nm ((n, descr, h) # t) = (if nm = n then Some (descr, h) else find_cmd nm t)"

definition cmd_help :: "string option \<Rightarrow> ('v, 'e, 'r) sdb_state \<Rightarrow> ('v, 'e, 'r) cmd_result" where
  "cmd_help args s =
     (case strtok (case args of None \<Rightarrow> [] | Some a \<Rightarrow> a) of
        None \<Rightarrow> Inr (0, sdb_print (map (\<lambda>(n, descr, _). Msg (n @ '' - '' @ descr)) cmd_table) s)
      | Some (arg, _) \<Rightarrow>
          (case find_cmd arg cmd_table of
             Some (descr, _) \<Rightarrow> Inr (0, sdb_print [Msg (arg @ '' - '' @ descr)] s)
           | None \<Rightarrow> Inr (0, sdb_print [Msg (''Unknown command '' @ quoted arg)] s)))"

primrec run_cmd :: "('a::len word, 'e, 'r) sdb_env \<Rightarrow> handler \<Rightarrow> string option \<Rightarrow>
    ('a word, 'e, 'r) sdb_state \<Rightarrow> ('a word, 'e, 'r) cmd_result" where
  "run_cmd E Help args s = cmd_help args s"
| "run_cmd E Cont args s = cmd_c E s"
| "run_cmd E Quit args s = cmd_q s"
| "run_cmd E Step args s = cmd_si E args s"
| "run_cmd E Info args s = cmd_info E args s"
| "run_cmd E Scan args s = cmd_x E args s"
| "run_cmd E Print args s = cmd_p E args s"
| "run_cmd E Watch args s = cmd_w E args s"
| "run_cmd E Delete args s = cmd_d args s"

section \<open>The main loop\<close>

text \<open>
  One line: the first token is the command, the rest (\<^verbatim>\<open>NULL\<close> when empty) its arguments. The
  result tells whether the loop goes on. \<^verbatim>\<open>sdl_clear_event_queue\<close> drops SDL events no later poll
  sees.
\<close>

definition sdb_line :: "('a::len word, 'e, 'r) sdb_env \<Rightarrow> string \<Rightarrow> ('a word, 'e, 'r) sdb_state \<Rightarrow>
    (bool \<times> ('a word, 'e, 'r) sdb_state) res" where
  "sdb_line E str s =
     (case strtok str of
        None \<Rightarrow> Inr (True, s)
      | Some (cmd, rest) \<Rightarrow>
          let args = (if rest = [] then None else Some rest) in
          (case find_cmd cmd cmd_table of
             Some (_, h) \<Rightarrow> bindR (run_cmd E h args s) (\<lambda>(r, s). Inr (0 \<le> r, s))
           | None \<Rightarrow> Inr (True, sdb_print [Msg (''Unknown command '' @ quoted cmd)] s)))"

fun sdb_lines :: "('a::len word, 'e, 'r) sdb_env \<Rightarrow> string list \<Rightarrow> ('a word, 'e, 'r) sdb_state \<Rightarrow>
    ('a word, 'e, 'r) sdb_state res" where
  "sdb_lines E [] s = Inr s"
| "sdb_lines E (l # ls) s =
     bindR (sdb_line E l s) (\<lambda>(go_on, s). if go_on then sdb_lines E ls s else Inr s)"

definition sdb_mainloop :: "('a::len word, 'e, 'r) sdb_env \<Rightarrow> string list \<Rightarrow>
    ('a word, 'e, 'r) sdb_state \<Rightarrow> ('a word, 'e, 'r) sdb_state res" where
  "sdb_mainloop E ls s =
     (if is_batch_mode s then bindR (cmd_c E s) (\<lambda>(_, s). Inr s) else sdb_lines E ls s)"

definition engine_start :: "('a::len word, 'e, 'r) sdb_env \<Rightarrow> string list \<Rightarrow>
    ('a word, 'e, 'r) sdb_state \<Rightarrow> ('a word, 'e, 'r) sdb_state res" where
  "engine_start E ls s = sdb_mainloop E ls s"

text \<open>\<^verbatim>\<open>init_regex\<close> compiles the patterns, which always succeeds for the fixed table.\<close>

definition init_sdb :: "('a::len word, 'e, 'r) sdb_env \<Rightarrow> (u32 \<times> string) list option \<Rightarrow>
    ('a word, 'e, 'r) sdb_state \<Rightarrow> ('a word, 'e, 'r) sdb_state res" where
  "init_sdb E tests s =
     bindR (test_expr (se_config E) (g_reg_val (se_guest E)) tests (mach (ex s))) (\<lambda>m.
     Inr (s\<lparr>ex := (ex s)\<lparr>mach := m, wpst := init_wp_pool (wpst (ex s))\<rparr>\<rparr>))"

end
