(* ===== verification/Monitor.thy ===== *)
theory Monitor
  imports Sdb
begin

text \<open>
  Start-up: \<^verbatim>\<open>src/monitor/monitor.c\<close>, \<^verbatim>\<open>src/utils/log.c\<close>, \<^verbatim>\<open>init_rand\<close> of \<^verbatim>\<open>src/utils/timer.c\<close> and
  \<^verbatim>\<open>src/nemu-main.c\<close>. The host's file system is a function from names to contents (\<open>None\<close> where
  \<^verbatim>\<open>fopen\<close> fails), and the command line is the sequence of results \<^verbatim>\<open>getopt_long\<close> delivers for
  it. The symbol table of the function trace (\<^verbatim>\<open>CONFIG_FTRACE\<close>) is read from the bytes of the ELF
  file with the C library's file position; its log is a list of structured lines.
\<close>

section \<open>The command line\<close>

datatype cl_option =
  OptB | OptH | OptL string | OptD string | OptP string | OptE string | OptFile string | OptOther

record monitor_state =
  log_file :: "string option"
  diff_so_file :: "string option"
  elf_file :: "string option"
  img_file :: "string option"
  difftest_port :: int
  batch_requested :: bool

definition initial_monitor :: monitor_state where
  "initial_monitor = \<lparr>log_file = None, diff_so_file = None, elf_file = None, img_file = None,
     difftest_port = 1234, batch_requested = False\<rparr>"

text \<open>An image name ends the loop; a help request or an unknown option prints the usage and exits.\<close>

fun parse_args :: "cl_option list \<Rightarrow> monitor_state \<Rightarrow> monitor_state res" where
  "parse_args [] s = Inr s"
| "parse_args (OptB # os) s = parse_args os (s\<lparr>batch_requested := True\<rparr>)"
| "parse_args (OptP a # os) s =
     bindR (sscanf_d a (difftest_port s)) (\<lambda>p. parse_args os (s\<lparr>difftest_port := p\<rparr>))"
| "parse_args (OptE a # os) s = parse_args os (s\<lparr>elf_file := Some a\<rparr>)"
| "parse_args (OptL a # os) s = parse_args os (s\<lparr>log_file := Some a\<rparr>)"
| "parse_args (OptD a # os) s = parse_args os (s\<lparr>diff_so_file := Some a\<rparr>)"
| "parse_args (OptFile a # os) s = Inr (s\<lparr>img_file := Some a\<rparr>)"
| "parse_args (OptH # os) s = Inl (Exit 0)"
| "parse_args (OptOther # os) s = Inl (Exit 0)"

section \<open>The log and the random seed\<close>

text \<open>The result names the file the log goes to; \<open>can_write\<close> tells whether \<^verbatim>\<open>fopen\<close> succeeds.\<close>

definition init_log :: "(string \<Rightarrow> bool) \<Rightarrow> string option \<Rightarrow> string option res" where
  "init_log can_write f =
     (case f of None \<Rightarrow> Inr None | Some nm \<Rightarrow> guardR (can_write nm) AssertFail (Inr (Some nm)))"

definition log_enable :: "config \<Rightarrow> ('v, 'e, 'r) exec_state \<Rightarrow> bool" where
  "log_enable c st \<longleftrightarrow>
     (if cfg_trace c
      then g_nr_guest_inst st \<ge> cfg_trace_start c \<and> g_nr_guest_inst st \<le> cfg_trace_end c
      else False)"

text \<open>The seed given to \<^verbatim>\<open>srand\<close>, which takes an \<^verbatim>\<open>unsigned\<close>.\<close>

definition init_rand :: "'v sys \<Rightarrow> u32 \<times> 'v sys" where
  "init_rand s = (let (t, s) = get_time_internal s in (ucast t, s))"

section \<open>Reading files\<close>

text \<open>An open file: contents and position. A read that is not complete gives \<open>None\<close>.\<close>

type_synonym ifile = "u8 list \<times> int"

definition fread :: "nat \<Rightarrow> ifile \<Rightarrow> u8 list option \<times> ifile" where
  "fread n f =
     (let (bs, p) = f; p' = nat p in
      if 0 < n \<and> p' + n \<le> length bs then (Some (take n (drop p' bs)), (bs, p + int n))
      else (None, (bs, max p (int (length bs)))))"

text \<open>\<^verbatim>\<open>fseek\<close> from the start fails on a negative offset and leaves the position.\<close>

definition fseek_set :: "int \<Rightarrow> ifile \<Rightarrow> ifile" where
  "fseek_set off f = (if off < 0 then f else (fst f, off))"

definition bytes_at :: "nat \<Rightarrow> nat \<Rightarrow> u8 list \<Rightarrow> u8 list" where
  "bytes_at off n bs = take n (drop off bs)"

section \<open>The symbols of the function trace\<close>

record Func_Sym =
  name_index :: u32
  fname :: "u8 list"
  fvalue :: u32
  fsize :: u32

datatype ftrace_line =
  CallLine u32 nat "u8 list" u32
| RetLine u32 nat "u8 list"

record ftrace_state =
  sym_fun_group :: "Func_Sym list"
  ftrace_log :: "ftrace_line list"
  ft_loop :: u32

text \<open>The loop of \<^verbatim>\<open>check_func_interval\<close> from index \<open>i\<close>; the end of an interval may wrap.\<close>

fun func_interval_from :: "nat \<Rightarrow> Func_Sym list \<Rightarrow> u32 \<Rightarrow> nat res" where
  "func_interval_from i [] p = Inl AssertFail"
| "func_interval_from i (f # fs) p =
     (if fvalue f \<le> p \<and> p < fvalue f + fsize f then Inr i else func_interval_from (Suc i) fs p)"

definition check_func_interval :: "Func_Sym list \<Rightarrow> u32 \<Rightarrow> nat res" where
  "check_func_interval fs p = func_interval_from 0 fs p"

text \<open>
  The number of indentations printed: the \<^verbatim>\<open>int\<close> counter of the loop overflows when the unsigned
  depth is above \<^verbatim>\<open>INT_MAX\<close>.
\<close>

definition indent :: "u32 \<Rightarrow> nat res" where
  "indent n = guardR (unat n < 2 ^ 31) Undef (Inr (unat n))"

definition RET_Log :: "u32 \<Rightarrow> u32 \<Rightarrow> ftrace_state \<Rightarrow> ftrace_state res" where
  "RET_Log p npc s =
     (let s = s\<lparr>ft_loop := ft_loop s - 1\<rparr> in
      bindR (check_func_interval (sym_fun_group s) npc) (\<lambda>index.
      bindR (indent (ft_loop s)) (\<lambda>k.
      Inr (s\<lparr>ftrace_log := ftrace_log s @ [RetLine p k (fname (sym_fun_group s ! index))]\<rparr>))))"

definition J_Log :: "u32 \<Rightarrow> u32 \<Rightarrow> ftrace_state \<Rightarrow> ftrace_state res" where
  "J_Log p npc s =
     bindR (check_func_interval (sym_fun_group s) npc) (\<lambda>index.
     bindR (indent (ft_loop s)) (\<lambda>k.
     let f = sym_fun_group s ! index in
     Inr (s\<lparr>ftrace_log := ftrace_log s @ [CallLine p k (fname f) (fvalue f)],
            ft_loop := ft_loop s + 1\<rparr>)))"

text \<open>
  \<^verbatim>\<open>Get_sym_name\<close>: the first byte is stored without a test, the following ones until a zero; the
  buffer has room for 20, and a further store is out of bounds. \<^verbatim>\<open>strcpy\<close> then copies up to the
  first zero.
\<close>

fun sym_name_loop :: "nat \<Rightarrow> ifile \<Rightarrow> u8 list \<Rightarrow> (u8 list \<times> ifile) res" where
  "sym_name_loop 0 f buf = Inl Undef"
| "sym_name_loop (Suc room) f buf =
     (case fread 1 f of
        (None, _) \<Rightarrow> Inl AssertFail
      | (Some bs, f) \<Rightarrow> if hd bs = 0 then Inr (buf, f) else sym_name_loop room f (buf @ bs))"

definition Get_sym_name :: "u32 \<Rightarrow> u32 \<Rightarrow> ifile \<Rightarrow> (u8 list \<times> ifile) res" where
  "Get_sym_name strtab_offset index f =
     (case fread 1 (fseek_set (uint (strtab_offset + index)) f) of
        (None, _) \<Rightarrow> Inl AssertFail
      | (Some bs, f) \<Rightarrow> bindR (sym_name_loop 19 f bs) (\<lambda>(buf, f).
          Inr (takeWhile (\<lambda>b. b \<noteq> 0) buf, f)))"

definition STT_FUNC :: nat where
  "STT_FUNC = 2"

text \<open>\<^verbatim>\<open>Elf32_Sym\<close>: name at 0, value at 4, size at 8, info at 12, 16 bytes in all.\<close>

text \<open>At most \<open>2 ^ 28\<close> symbols fit the size, so the check against \<^verbatim>\<open>MAX_func_size\<close> never fails.\<close>

fun read_symbols :: "nat \<Rightarrow> ifile \<Rightarrow> Func_Sym list \<Rightarrow> (Func_Sym list \<times> ifile) res" where
  "read_symbols 0 f fs = Inr (fs, f)"
| "read_symbols (Suc n) f fs =
     (case fread 16 f of
        (None, _) \<Rightarrow> Inl AssertFail
      | (Some ent, f) \<Rightarrow>
          read_symbols n f
            (if unat (ent ! 12 AND 15) = STT_FUNC
             then fs @ [\<lparr>name_index = le_word (bytes_at 0 4 ent), fname = [],
                         fvalue = le_word (bytes_at 4 4 ent), fsize = le_word (bytes_at 8 4 ent)\<rparr>]
             else fs))"

fun read_names :: "u32 \<Rightarrow> Func_Sym list \<Rightarrow> ifile \<Rightarrow> Func_Sym list res" where
  "read_names off [] f = Inr []"
| "read_names off (s # ss) f =
     bindR (Get_sym_name off (name_index s) f) (\<lambda>(nm, f).
     bindR (read_names off ss f) (\<lambda>ss. Inr (s\<lparr>fname := nm\<rparr> # ss)))"

text \<open>
  The ELF header has 52 bytes, the table's offset at 32 and the number of headers at 48; a
  section header has 40 bytes, offset at 16 and size at 20. The symbol table is taken to be the
  third header from the end, its string table the next.
\<close>

definition load_elf :: "(string \<Rightarrow> u8 list option) \<Rightarrow> bool \<Rightarrow> string option \<Rightarrow> ftrace_state \<Rightarrow>
    ftrace_state res" where
  "load_elf files log_opens elf s =
     (case elf of
        None \<Rightarrow> Inr s
      | Some nm \<Rightarrow>
          guardR log_opens AssertFail
           (case files nm of
              None \<Rightarrow> Inl AssertFail
            | Some bs \<Rightarrow>
                (case fread 52 (bs, 0) of
                   (None, _) \<Rightarrow> Inl AssertFail
                 | (Some ehdr, f) \<Rightarrow>
                     let shoff = le_word (bytes_at 32 4 ehdr) :: u32;
                         shnum = le_word (bytes_at 48 2 ehdr) :: u16 in
                     (case fread 40 (fseek_set (uint shoff + (uint shnum - 3) * 40) f) of
                        (None, _) \<Rightarrow> Inl AssertFail
                      | (Some symtab, f) \<Rightarrow>
                          (case fread 40 f of
                             (None, _) \<Rightarrow> Inl AssertFail
                           | (Some strtab, f) \<Rightarrow>
                               let symoff = le_word (bytes_at 16 4 symtab) :: u32;
                                   symsize = le_word (bytes_at 20 4 symtab) :: u32;
                                   stroff = le_word (bytes_at 16 4 strtab) :: u32 in
                               bindR (read_symbols (unat symsize div 16) (fseek_set (uint symoff) f)
                                        (sym_fun_group s)) (\<lambda>(fs, f).
                               bindR (read_names stroff fs f) (\<lambda>fs.
                               Inr (s\<lparr>sym_fun_group := fs\<rparr>))))))))"

section \<open>The image\<close>

text \<open>The result is the size; an empty file makes \<^verbatim>\<open>fread\<close> return 0.\<close>

definition load_img :: "config \<Rightarrow> (string \<Rightarrow> u8 list option) \<Rightarrow> string option \<Rightarrow> 'v sys \<Rightarrow>
    (nat \<times> 'v sys) res" where
  "load_img c files img s =
     (case img of
        None \<Rightarrow> Inr (4096, s)
      | Some nm \<Rightarrow>
          (case files nm of
             None \<Rightarrow> Inl AssertFail
           | Some bs \<Rightarrow>
               bindR (guest_to_host (RESET_VECTOR c)) (\<lambda>p.
               guardR (bs \<noteq> []) AssertFail
                (bindR (load_image p bs s) (\<lambda>s. Inr (length bs, s))))))"

section \<open>init\_monitor and main\<close>

text \<open>What the host provides at start-up.\<close>

record ('v, 'e, 'r) host_env =
  he_files :: "string \<Rightarrow> u8 list option"
  he_can_write :: "string \<Rightarrow> bool"
  he_rand :: "u32 \<Rightarrow> u32"
  he_init_device :: "'v sys \<Rightarrow> 'v sys res"
  he_init_isa :: "('v, 'e) isa_machine \<Rightarrow> ('v, 'e) isa_machine res"
  he_ftrace :: bool
  he_dlopen :: bool
  he_symbols :: "bool list"
  he_tests :: "(u32 \<times> string) list option"

text \<open>The first number \<^verbatim>\<open>rand\<close> gives for the seed is \<open>he_rand\<close> of it.\<close>

definition init_monitor :: "('a word, 'e, 'r) host_env \<Rightarrow> ('a::len word, 'e, 'r) sdb_env \<Rightarrow>
    cl_option list \<Rightarrow> monitor_state \<Rightarrow> ftrace_state \<Rightarrow> ('a word, 'e, 'r) sdb_state \<Rightarrow>
    (monitor_state \<times> ftrace_state \<times> ('a word, 'e, 'r) sdb_state) res" where
  "init_monitor H E os ms fs s =
     (let c = se_config E in
      bindR (parse_args os ms) (\<lambda>ms.
      let s = (if batch_requested ms then sdb_set_batch_mode s else s);
          m = mach (ex s);
          (seed, y) = init_rand (nsys m) in
      bindR (init_log (he_can_write H) (log_file ms)) (\<lambda>_.
      bindR (init_mem c (he_rand H seed) y) (\<lambda>y.
      bindR (if cfg_device c then he_init_device H y else Inr y) (\<lambda>y.
      bindR (he_init_isa H (m\<lparr>nsys := y\<rparr>)) (\<lambda>m.
      bindR (load_img c (he_files H) (img_file ms) (nsys m)) (\<lambda>(img_size, y).
      let m = m\<lparr>nsys := y\<rparr> in
      bindR (if he_ftrace H then load_elf (he_files H) (he_can_write H ''./build/ftrace-log.txt'') (elf_file ms) fs
             else Inr fs) (\<lambda>fs.
      bindR (init_difftest c (g_ref (se_guest E)) (diff_so_file ms) (he_dlopen H) (he_symbols H)
               img_size m (refst (ex s))) (\<lambda>r.
      bindR (init_sdb E (he_tests H) (s\<lparr>ex := (ex s)\<lparr>mach := m, refst := r\<rparr>\<rparr>)) (\<lambda>s.
      Inr (ms, fs, s)))))))))))"

text \<open>\<^verbatim>\<open>main\<close>: the result is the exit status, with the state reached.\<close>

definition nemu_main :: "('a word, 'e, 'r) host_env \<Rightarrow> ('a::len word, 'e, 'r) sdb_env \<Rightarrow>
    cl_option list \<Rightarrow> string list \<Rightarrow> ftrace_state \<Rightarrow> ('a word, 'e, 'r) sdb_state \<Rightarrow>
    (int \<times> ('a word, 'e, 'r) sdb_state) res" where
  "nemu_main H E os ls fs s =
     bindR (init_monitor H E os initial_monitor fs (s\<lparr>is_batch_mode := initial_batch_mode\<rparr>)) (\<lambda>(_, _, s).
     bindR (engine_start E ls s) (\<lambda>s.
     Inr (is_exit_status_bad (nemu (nsys (mach (ex s)))), s)))"

end
