(* ===== verification/Sdb_Correct.thy ===== *)
theory Sdb_Correct
  imports Sdb
begin

text \<open>
  What a debugging session keeps. A property of the run that every part of the loop of
  \<^verbatim>\<open>cpu_exec\<close> keeps is kept by whole runs (locale \<open>run_invariant\<close>); it is interpreted for the
  watchpoint pool and for the way an RV32 program can end. Sessions are sequences of lines, and
  their invariants follow by induction over the lines.
\<close>

section \<open>An interface: invariants of a run\<close>

locale run_invariant =
  fixes c :: config and dc :: device_config and G :: "('a::len word, 'e, 'r) guest"
    and P :: "('a word, 'e, 'r) exec_state \<Rightarrow> bool"
  assumes step: "exec_once c G d p st = Inr (d', st') \<Longrightarrow> P st \<Longrightarrow> P st'"
    and check: "trace_and_difftest c G d npc st = Inr st' \<Longrightarrow> P st \<Longrightarrow> P st'"
    and poll: "poll_devices c dc st = Inr st' \<Longrightarrow> P st \<Longrightarrow> P st'"
    and frame: "P st \<Longrightarrow> wpst st' = wpst st \<Longrightarrow> cpu (mach st') = cpu (mach st) \<Longrightarrow>
      run_of st' \<in> {run_of st, NEMU_RUNNING, NEMU_STOP} \<Longrightarrow> P st'"
begin

lemma execute_inv: "execute c dc G n d st = Inr st' \<Longrightarrow> P st \<Longrightarrow> P st'"
proof (induction n arbitrary: d st)
  case 0
  then show ?case by simp
next
  case (Suc n)
  from Suc.prems(1) obtain d1 st1 st2 where s: "exec_once c G d (pc (cpu (mach st))) st = Inr (d1, st1)"
    "trace_and_difftest c G d1 (pc (cpu (mach st1)))
        (st1\<lparr>g_nr_guest_inst := g_nr_guest_inst st1 + 1\<rparr>) = Inr st2"
    and s3: "(if run_of st2 \<noteq> NEMU_RUNNING then Inr st2
        else bindR (poll_devices c dc st2) (\<lambda>st. execute c dc G n d1 st)) = Inr st'"
    by (auto simp: Let_def elim!: resE)
  have "P (st1\<lparr>g_nr_guest_inst := g_nr_guest_inst st1 + 1\<rparr>)"
    by (rule frame [OF step [OF s(1) Suc.prems(2)]]) (simp_all add: run_of_def)
  then have p: "P st2" by (rule check [OF s(2)])
  show ?case
  proof (cases "run_of st2 = NEMU_RUNNING")
    case False
    with s3 p show ?thesis by simp
  next
    case True
    with s3 obtain st3 where q: "poll_devices c dc st2 = Inr st3" "execute c dc G n d1 st3 = Inr st'"
      by (auto elim!: resE)
    from Suc.IH [OF q(2) poll [OF q(1) p]] show ?thesis .
  qed
qed

lemma finish_run_frame:
  "finish_run c st = Inr st' \<Longrightarrow>
   wpst st' = wpst st \<and> cpu (mach st') = cpu (mach st) \<and> run_of st' \<in> {run_of st, NEMU_STOP}"
  by (auto simp: finish_run_def Let_def elim!: resE dest!: show_ring_same split: run_state.split_asm
      simp: report_def statistic_def set_run_def run_of_def)

lemma get_time_st_frame:
  "get_time_st st = (t, st') \<Longrightarrow>
   wpst st' = wpst st \<and> cpu (mach st') = cpu (mach st) \<and> run_of st' = run_of st"
  by (auto simp: get_time_st_def run_of_def dest!: get_time_nemu split: prod.split_asm)

lemma cpu_exec_inv:
  assumes "cpu_exec c dc G n d st = Inr st'" "P st"
  shows "P st'"
proof (cases "run_of st = NEMU_END \<or> run_of st = NEMU_ABORT")
  case True
  show ?thesis
    using cpu_exec_ended [OF True, of c dc G n d] assms(1)
    by (intro frame [OF assms(2)]) (auto simp: report_def run_of_def)
next
  case False
  let ?st0 = "set_run NEMU_RUNNING (st\<lparr>g_print_step := unat n < MAX_INST_TO_PRINT\<rparr>)"
  obtain t st1 where g: "get_time_st ?st0 = (t, st1)" by fastforce
  with assms(1) False obtain st2 t' st3 where e: "execute c dc G (unat n) d st1 = Inr st2"
    and g': "get_time_st st2 = (t', st3)"
    and f: "finish_run c (st3\<lparr>g_timer := g_timer st3 + (t' - t)\<rparr>) = Inr st'"
    by (auto simp: cpu_exec_def Let_def elim!: resE split: prod.split_asm)
  have "P st1"
    using get_time_st_frame [OF g] by (intro frame [OF assms(2)]) simp_all
  then have "P st2" by (rule execute_inv [OF e])
  moreover have "run_of st' \<in> {run_of st2, NEMU_STOP}"
    using finish_run_frame [OF f] get_time_st_frame [OF g'] by (simp add: run_of_def)
  ultimately show ?thesis
    using get_time_st_frame [OF g'] finish_run_frame [OF f] frame [of st2 st'] by auto
qed

end

section \<open>The watchpoint pool over a run\<close>

lemma upd_wp_old_next:
  "wp_next ((wp_pool s)[i := (wp_pool s ! i)\<lparr>wp_old := v\<rparr>] ! j) = wp_next (wp_pool s ! j)"
  by (cases "j = i"; cases "i < length (wp_pool s)") (simp_all add: not_less list_update_beyond)

lemma wp_difftest_from_inv:
  "wp_difftest_from c rv n p w m = Inr (w', m') \<Longrightarrow> wp_inv w \<Longrightarrow> chain (wp_pool w) p xs \<Longrightarrow>
   wp_inv w' \<and> wp_live w' = wp_live w"
proof (induction c rv n p w m arbitrary: w' m' xs rule: wp_difftest_from.induct)
  case (3 c rv n i s m)
  from "3.prems"(3) obtain ys where xs: "i < length (wp_pool s)" "chain (wp_pool s) (wp_next (wp_at s i)) ys"
    by (cases xs) (auto simp: wp_at_def)
  from "3.prems"(1) obtain v ok m1 where e: "expr c rv (wp_expr (wp_at s i)) m = Inr ((v, ok), m1)"
    by (auto elim!: resE)
  show ?case
  proof (cases "wp_old (wp_at s i) = v")
    case True
    with "3.prems"(1) e have "wp_difftest_from c rv n (wp_next (wp_at s i)) s m1 = Inr (w', m')" by simp
    from "3.IH"(2) [OF e refl refl _ this "3.prems"(2) xs(2)] True show ?thesis by simp
  next
    case False
    let ?s = "upd_wp i (\<lambda>w. w\<lparr>wp_old := v\<rparr>) s"
    have u: "wp_inv ?s \<and> wp_live ?s = wp_live s"
      using upd_wp_inv [OF "3.prems"(2), of "\<lambda>w. w\<lparr>wp_old := v\<rparr>" i] xs(1) "3.prems"(2)
      by (auto simp: wp_inv_def)
    have "chain (wp_pool ?s) (wp_next (wp_at s i)) ys"
      by (rule chain_cong [OF xs(2)]) (simp_all add: upd_wp_old_next wp_pool_upd_wp(1))
    with "3.IH"(1) [OF e refl refl _ _ conjunct1 [OF u]] False u "3.prems"(1) e show ?thesis by simp
  qed
qed simp_all

lemma wp_difftest_inv:
  "wp_difftest c rv w m = Inr (w', m') \<Longrightarrow> wp_inv w \<Longrightarrow> wp_inv w' \<and> wp_live w' = wp_live w"
  using wp_difftest_from_inv wp_invD(1) unfolding wp_difftest_def by blast

lemma wp_delete_inv:
  assumes "wp_delete no w = Inr w'" "wp_inv w"
  shows "wp_inv w'"
proof (cases "wp_head w")
  case None
  with assms show ?thesis by (auto simp: wp_delete_def elim!: resE)
next
  case (Some h)
  note c = wp_invD [OF assms(2)]
  from Some assms(1) obtain t where t: "find_no (NR_WP + 1) no (wp_head w) w = Inr t"
      "free_wp (Some t) w = Inr w'"
    by (auto simp: wp_delete_def elim!: resE)
  then have "t \<in> set (wp_live w)"
    using find_no_chain [OF c] by (auto split: option.split_asm dest: find_SomeD)
  from wps.release_ok [OF assms(2) this] t(2) show ?thesis by auto
qed

lemma trace_and_difftest_wps:
  "trace_and_difftest c G d npc st = Inr st' \<Longrightarrow> wp_inv (wpst st) \<Longrightarrow>
   wp_inv (wpst st') \<and> wp_live (wpst st') = wp_live (wpst st)"
  by (auto simp: trace_and_difftest_def elim!: resE split: if_split_asm dest!: wp_difftest_inv)

lemma exec_once_wps: "exec_once c G d p st = Inr (d', st') \<Longrightarrow> wpst st' = wpst st"
  by (auto simp: exec_once_def Let_def elim!: resE trace_instE split: if_split_asm)

lemma poll_devices_wps: "poll_devices c dc st = Inr st' \<Longrightarrow> wpst st' = wpst st"
  by (auto simp: poll_devices_def elim!: resE split: if_split_asm prod.split_asm)

interpretation wp_run: run_invariant c dc G "\<lambda>st. wp_inv (wpst st) \<and> wp_live (wpst st) = ws"
  for c dc G ws
  by unfold_locales (auto dest: exec_once_wps poll_devices_wps trace_and_difftest_wps)

section \<open>How an RV32 program can end\<close>

text \<open>Only \<^verbatim>\<open>ebreak\<close> sets \<^verbatim>\<open>NEMU_END\<close>.\<close>

lemma wr_reg_nemu: "wr_reg c n rd v d m = Inr (d', m') \<Longrightarrow> nsys m' = nsys m \<and> inst_val d' = inst_val d"
  by (auto simp: wr_reg_def elim!: resE upd_gprE)

lemma ld_reg_nemu:
  "ld_reg c n rd a k f d m = Inr (d', m') \<Longrightarrow> nemu (nsys m') = nemu (nsys m) \<and> inst_val d' = inst_val d"
  by (auto simp: ld_reg_def vaddr_read_def elim!: resE dest!: wr_reg_nemu paddr_read_nemu)

lemma st_mem_nemu:
  "st_mem c a k w d m = Inr (d', m') \<Longrightarrow> nemu (nsys m') = nemu (nsys m) \<and> inst_val d' = inst_val d"
  by (auto simp: st_mem_def vaddr_write_def elim!: resE dest!: paddr_write_nemu)

lemma csr_write_nemu: "csr_write i w m = Inr m' \<Longrightarrow> nsys m' = nsys m"
  by (auto simp: csr_write_def upd_csr_def split: if_split_asm)

lemmas body_nemu = wr_reg_nemu ld_reg_nemu st_mem_nemu csr_write_nemu

lemma rv32_execute_end:
  assumes "rv32_execute c op rd a b i d m = Inr (d', m')" "op \<noteq> EBREAK"
  shows "nstate (nemu (nsys m')) \<in> {nstate (nemu (nsys m)), NEMU_ABORT} \<and> inst_val d' = inst_val d"
  using assms
  by (cases op) (auto simp: rv32_br_def invalid_inst_def rv32_isa_raise_intr_def upd_csr_def Let_def
      elim!: resE dest!: body_nemu)

lemma rv32_ebreak_word:
  assumes "decode_table rv32_table w = Inr (Some (EBREAK, ty))"
  shows "w = 0x00100073"
proof -
  obtain p where p: "find (\<lambda>(p, _). agrees p w) rv32_table = Some (p, EBREAK, ty)"
    using assms decode_table_first [OF rv32_table_ok, of w] by (auto split: prod.splits)
  then have "(p, EBREAK, ty) \<in> set rv32_table" "agrees p w" by (auto dest: find_SomeD)
  then have "agrees ''0000000 00001 00000 000 00000 11100 11'' w"
    by (auto simp: rv32_table_def rv32_main_table_def)
  moreover have "agrees ''0000000 00001 00000 000 00000 11100 11'' 0x00100073" by code_simp
  moreover have "length (rev (pat_chars ''0000000 00001 00000 000 00000 11100 11'')) = 32"
      "list_all (\<lambda>c. c \<noteq> CHR ''?'') (rev (pat_chars ''0000000 00001 00000 000 00000 11100 11''))"
    by code_simp+
  ultimately have "bit w j = bit (0x00100073 :: u32) j" if "j < 32" for j
    using that unfolding agrees_def agree_from_nth list_all_length by simp
  then show ?thesis by (intro bit_word_eqI) simp
qed


lemma rv32_step_end:
  assumes "rv32_isa_exec_once c d m = Inr (d', m')" "inst_val d' \<noteq> 0x00100073"
  shows "nstate (nemu (nsys m')) \<in> {nstate (nemu (nsys m)), NEMU_ABORT}"
proof -
  from assms(1) obtain w p s where f: "inst_fetch c (snpc d) 4 (nsys m) = Inr (w, p, s)"
    and x: "rv32_decode_exec c (d\<lparr>snpc := p, inst_val := w\<rparr>) (m\<lparr>nsys := s\<rparr>) = Inr (d', m')"
    by (auto simp: rv32_isa_exec_once_def elim!: resE)
  note n = inst_fetch_nemu [OF f]
  from x obtain hit d1 m1 where h: "decode_table rv32_table w = Inr hit"
    and b: "(case hit of None \<Rightarrow> Inr (d\<lparr>snpc := p, inst_val := w, dnpc := p\<rparr>, m\<lparr>nsys := s\<rparr>)
       | Some (op, type) \<Rightarrow> bindR (rv32_decode_operand c (inst_val (d\<lparr>snpc := p, inst_val := w, dnpc := p\<rparr>))
             type (m\<lparr>nsys := s\<rparr>)) (\<lambda>(rd, src1, src2, imm).
           rv32_execute c op rd src1 src2 imm (d\<lparr>snpc := p, inst_val := w, dnpc := p\<rparr>) (m\<lparr>nsys := s\<rparr>))) =
       Inr (d1, m1)"
    and e: "finish_exec c (rv_reg_count c) d1 m1 = Inr (d', m')"
    by (auto simp: rv32_decode_exec_def Let_def elim!: resE)
  note fin = finish_exec_keeps [OF e]
  show ?thesis
  proof (cases hit)
    case None
    with b n fin show ?thesis by auto
  next
    case (Some r)
    then obtain op ty where r: "hit = Some (op, ty)" by (cases r) auto
    with b obtain rd a1 a2 i where x: "rv32_execute c op rd a1 a2 i
        (d\<lparr>snpc := p, inst_val := w, dnpc := p\<rparr>) (m\<lparr>nsys := s\<rparr>) = Inr (d1, m1)"
      by (auto elim!: resE)
    show ?thesis
    proof (cases "op = EBREAK")
      case True
      with x have "inst_val d1 = w" by (auto elim!: resE)
      moreover have "w = 0x00100073" using h r True by (intro rv32_ebreak_word [of w ty]) simp
      ultimately show ?thesis using assms(2) fin by simp
    next
      case False
      with rv32_execute_end [OF x] n fin show ?thesis by simp
    qed
  qed
qed

lemma exec_once_end:
  assumes "exec_once c G d p st = Inr (d', st')" "g_step G = rv32_isa_exec_once k"
    and "run_of st \<noteq> NEMU_END"
  shows "run_of st' \<noteq> NEMU_END"
proof -
  from assms(1,2) obtain m where m: "rv32_isa_exec_once k (d\<lparr>dpc := p, snpc := p\<rparr>) (mach st) = Inr (d', m)"
    and r: "run_of st' = (if inst_val d' = 0x00100073 then NEMU_STOP else nstate (nemu (nsys m)))"
    by (auto simp: exec_once_def Let_def run_of_def set_run_def elim!: resE trace_instE split: if_split_asm)
  then show ?thesis
    using rv32_step_end [OF m] assms(3) by (auto simp: run_of_def split: if_split_asm)
qed

lemma trace_and_difftest_end:
  "trace_and_difftest c G d npc st = Inr st' \<Longrightarrow> run_of st \<noteq> NEMU_END \<Longrightarrow> run_of st' \<noteq> NEMU_END"
  by (auto simp: trace_and_difftest_def run_of_def wp_difftest_def difftest_step_def checkregs_def
      Let_def upd_sys_def elim!: resE split: if_split_asm dest!: wp_difftest_from_run)

lemma handle_events_end:
  "handle_events dc evs s = Inr s' \<Longrightarrow> nstate (nemu s) \<noteq> NEMU_END \<Longrightarrow> nstate (nemu s') \<noteq> NEMU_END"
  by (induction evs arbitrary: s)
    (fastforce simp: handle_event_def send_key_def Let_def elim!: resE
      split: sdl_event.split_asm if_split_asm)+

lemma vga_update_screen_nemu: "vga_update_screen dc s = Inr s' \<Longrightarrow> nemu s' = nemu s"
  by (auto simp: vga_update_screen_def update_screen_def elim!: resE io_wr32E split: if_split_asm)

lemma poll_devices_end:
  assumes "poll_devices c dc st = Inr st'" "run_of st \<noteq> NEMU_END"
  shows "run_of st' \<noteq> NEMU_END"
proof (cases "cfg_device c")
  case False
  with assms show ?thesis by (simp add: poll_devices_def)
next
  case True
  with assms(1) obtain evs s where u: "device_update dc evs (nsys (mach st)) = Inr s"
    and st': "run_of st' = nstate (nemu s)"
    by (auto simp: poll_devices_def run_of_def elim!: resE split: prod.split_asm)
  obtain t s1 where g: "get_time (nsys (mach st)) = (t, s1)" by fastforce
  note n = get_time_nemu [OF g]
  from u g have "s = s1 \<or> (\<exists>s2. nemu s2 = nemu s1 \<and> handle_events dc evs s2 = Inr s)"
    by (auto simp: device_update_def Let_def elim!: resE dest: vga_update_screen_nemu split: if_split_asm)
  then show ?thesis using st' n assms(2) by (auto simp: run_of_def dest: handle_events_end)
qed

interpretation rv32_run: run_invariant c dc G
  "\<lambda>st. g_step G = rv32_isa_exec_once k \<longrightarrow> run_of st \<noteq> NEMU_END" for c dc G k
  by unfold_locales (auto dest: exec_once_end trace_and_difftest_end poll_devices_end)

lemma rv32_never_ends:
  "g_step G = rv32_isa_exec_once k \<Longrightarrow> cpu_exec c dc G n d st = Inr st' \<Longrightarrow> run_of st \<noteq> NEMU_END \<Longrightarrow>
   run_of st' \<noteq> NEMU_END"
  using rv32_run.cpu_exec_inv by blast

section \<open>Sessions\<close>

text \<open>The states a session goes through, one line after the other.\<close>

inductive session :: "('a::len word, 'e, 'r) sdb_env \<Rightarrow> ('a word, 'e, 'r) sdb_state \<Rightarrow>
    ('a word, 'e, 'r) sdb_state \<Rightarrow> bool" for E s0 where
  session_start: "session E s0 s0"
| session_line: "session E s0 s \<Longrightarrow> sdb_line E l s = Inr (b, s') \<Longrightarrow> session E s0 s'"

lemma sdb_lines_session: "sdb_lines E ls s = Inr s' \<Longrightarrow> session E s0 s \<Longrightarrow> session E s0 s'"
proof (induction ls arbitrary: s)
  case (Cons l ls)
  then obtain b s1 where l: "sdb_line E l s = Inr (b, s1)"
    and r: "(if b then sdb_lines E ls s1 else Inr s1) = Inr s'" by (auto elim!: resE)
  have "session E s0 s1" using Cons.prems(2) l by (rule session_line)
  with r Cons.IH show ?case by (auto split: if_split_asm)
qed simp

text \<open>What a command does to the pool and to the CPU.\<close>

lemma sdb_print_ex [simp]: "ex (sdb_print ls s) = ex s"
  by (simp add: sdb_print_def)

lemma cmd_x_loop_frame:
  "cmd_x_loop c n a s = Inr s' \<Longrightarrow>
   wpst (ex s') = wpst (ex s) \<and> cpu (mach (ex s')) = cpu (mach (ex s)) \<and> run_of (ex s') = run_of (ex s)"
proof (induction c n a s arbitrary: s' rule: cmd_x_loop.induct)
  case (2 c n addr s)
  from "2.prems" obtain w y where r: "paddr_read c addr 4 (nsys (mach (ex s))) = Inr (w, y)"
    and l: "cmd_x_loop c n (addr + 4)
      (sdb_print [MemLine addr w] (s\<lparr>ex := (ex s)\<lparr>mach := (mach (ex s))\<lparr>nsys := y\<rparr>\<rparr>\<rparr>)) = Inr s'"
    by (auto elim!: resE)
  from "2.IH" [OF r refl l] paddr_read_nemu [OF r] show ?case by (simp add: run_of_def)
qed simp

lemma sdb_expr_frame:
  "sdb_expr E a s = Inr (r, s') \<Longrightarrow>
   wpst (ex s') = wpst (ex s) \<and> cpu (mach (ex s')) = cpu (mach (ex s)) \<and> run_of (ex s') = run_of (ex s)"
proof -
  assume "sdb_expr E a s = Inr (r, s')"
  then obtain m where m: "expr (se_config E) (g_reg_val (se_guest E)) a (mach (ex s)) = Inr (r, m)"
    and s': "s' = s\<lparr>ex := (ex s)\<lparr>mach := m\<rparr>\<rparr>"
    by (auto simp: sdb_expr_def elim!: resE)
  show ?thesis using expr_reads [OF m] by (simp add: s' run_of_def)
qed

lemma wp_set_keeps: "wp_set e r w = Inr w' \<Longrightarrow> wp_inv w \<Longrightarrow> wp_inv w'"
  by (drule (1) wp_set_inv) blast

lemma run_cpu_wps:
  assumes "run_cpu E n s = Inr s'" "wp_inv (wpst (ex s))"
  shows "wp_inv (wpst (ex s'))"
proof -
  from assms(1) obtain x where x: "cpu_exec (se_config E) (se_devices E) (se_guest E) (word_of_int n)
      (se_decode E) (ex s) = Inr x" and s': "s' = s\<lparr>ex := x\<rparr>"
    unfolding run_cpu_def by (elim bindR_InrE) simp
  have "wp_inv (wpst x) \<and> wp_live (wpst x) = wp_live (wpst (ex s))"
    using wp_run.cpu_exec_inv [OF x] assms(2) by simp
  then show ?thesis by (simp add: s')
qed

lemma run_cmd_wps:
  assumes "run_cmd E h args s = Inr (r, s')" "wp_inv (wpst (ex s))"
  shows "wp_inv (wpst (ex s'))"
proof (cases h)
  case Cont
  with assms show ?thesis
    by (auto simp: cmd_c_def elim!: resE dest: run_cpu_wps)
next
  case Step
  with assms show ?thesis
    by (auto simp: cmd_si_def elim!: resE dest: run_cpu_wps)
next
  case Watch
  show ?thesis
  proof (cases args)
    case None
    with Watch assms show ?thesis by (auto simp: cmd_w_def)
  next
    case (Some a)
    with Watch assms(1) obtain v ok s1 where e: "sdb_expr E a s = Inr ((v, ok), s1)"
      and r: "(if \<not> ok then Inr (0, sdb_print [Msg ''Invalid expression''] s1)
        else bindR (wp_set a v (wpst (ex s1))) (\<lambda>w. Inr (0, s1\<lparr>ex := (ex s1)\<lparr>wpst := w\<rparr>\<rparr>))) = Inr (r, s')"
      by (auto simp: cmd_w_def elim!: resE)
    have "wp_inv (wpst (ex s1))" using sdb_expr_frame [OF e] assms(2) by simp
    with r show ?thesis by (auto elim!: resE dest: wp_set_keeps split: if_split_asm)
  qed
next
  case Delete
  with assms show ?thesis
    by (auto simp: cmd_d_def elim!: resE dest: wp_delete_inv split: option.split_asm)
next
  case Scan
  with assms show ?thesis
    by (auto simp: cmd_x_def elim!: resE dest!: cmd_x_loop_frame split: option.split_asm)
next
  case Print
  with assms show ?thesis
    by (auto simp: cmd_p_def elim!: resE dest!: sdb_expr_frame split: option.split_asm if_split_asm)
qed (use assms in \<open>auto simp: cmd_help_def cmd_q_def cmd_info_def elim!: resE
    split: option.split_asm if_split_asm\<close>)

lemma run_cmd_gpr:
  assumes "run_cmd E h args s = Inr (r, s')"
    and "\<And>n d st st'. cpu_exec (se_config E) (se_devices E) (se_guest E) n d st = Inr st' \<Longrightarrow>
      P (cpu (mach st)) \<Longrightarrow> P (cpu (mach st'))"
    and "P (cpu (mach (ex s)))"
  shows "P (cpu (mach (ex s')))"
proof (cases h)
  case Cont
  with assms(1,3) assms(2) [of "word_of_int (-1)" _ "ex s"] show ?thesis
    by (auto simp: cmd_c_def run_cpu_def elim!: resE)
next
  case Step
  with assms(1,3) assms(2) [of _ _ "ex s"] show ?thesis
    by (auto simp: cmd_si_def run_cpu_def elim!: resE)
next
  case Watch
  with assms(1,3) show ?thesis
    by (auto simp: cmd_w_def elim!: resE dest!: sdb_expr_frame split: option.split_asm if_split_asm)
next
  case Delete
  with assms(1,3) show ?thesis
    by (auto simp: cmd_d_def elim!: resE split: option.split_asm)
next
  case Scan
  with assms(1,3) show ?thesis
    by (auto simp: cmd_x_def elim!: resE dest!: cmd_x_loop_frame split: option.split_asm)
next
  case Print
  with assms(1,3) show ?thesis
    by (auto simp: cmd_p_def elim!: resE dest!: sdb_expr_frame split: option.split_asm if_split_asm)
qed (use assms(1,3) in \<open>auto simp: cmd_help_def cmd_q_def cmd_info_def elim!: resE
    split: option.split_asm if_split_asm\<close>)

lemma sdb_lineE:
  assumes "sdb_line E l s = Inr (b, s')"
  obtains "ex s' = ex s" | h args r where "run_cmd E h args s = Inr (r, s')"
  using assms by (auto simp: sdb_line_def Let_def elim!: resE split: option.split_asm)

lemma session_wps: "session E s0 s \<Longrightarrow> wp_inv (wpst (ex s0)) \<Longrightarrow> wp_inv (wpst (ex s))"
proof (induction rule: session.induct)
  case (session_line s l b s')
  from session_line.hyps(2) show ?case
    by (rule sdb_lineE) (use session_line run_cmd_wps in auto)
qed

lemma session_rv32_regs:
  assumes "session E s0 s" "g_step (se_guest E) = rv32_isa_exec_once k" "rv32.regs_ok k (mach (ex s0))"
  shows "rv32.regs_ok k (mach (ex s))"
  using assms
proof (induction rule: session.induct)
  case (session_line s l b s')
  let ?P = "\<lambda>u. length (gpr u) = rv_reg_count k \<and> gpr u ! 0 = 0"
  have "?P (cpu (mach (ex s)))" using session_line by (simp add: rv32.regs_ok_def)
  then have "?P (cpu (mach (ex s')))"
    using session_line.hyps(2)
  proof (elim sdb_lineE)
    fix h args r
    assume "run_cmd E h args s = Inr (r, s')"
    then show "?P (cpu (mach (ex s')))" if "?P (cpu (mach (ex s)))"
    proof (rule run_cmd_gpr)
      show "?P (cpu (mach st'))" if "cpu_exec (se_config E) (se_devices E) (se_guest E) n d st = Inr st'"
        "?P (cpu (mach st))" for n d st st'
        using rv32.cpu_exec_regs [OF session_line.prems(1) that(1)] that(2) by (simp add: rv32.regs_ok_def)
    qed (fact that)
  qed simp
  then show ?case by (simp add: rv32.regs_ok_def)
qed simp

end
