(* ===== verification/Monitor_Correct.thy ===== *)
theory Monitor_Correct
  imports Monitor Sdb_Correct
begin

text \<open>
  Properties of start-up: what is read back from an ELF symbol table, the depth of the function
  trace over balanced calls, the image in memory after loading, and the exit status of \<^verbatim>\<open>main\<close>.
\<close>

section \<open>Reading a symbol table\<close>

text \<open>A symbol as the file holds it: name, value, size, info, other, section index.\<close>

definition enc_sym :: "Func_Sym \<Rightarrow> u8 \<Rightarrow> u8 \<Rightarrow> u16 \<Rightarrow> u8 list" where
  "enc_sym f info other shndx =
     le_bytes 4 (name_index f) @ le_bytes 4 (fvalue f) @ le_bytes 4 (fsize f) @ [info, other] @ le_bytes 2 shndx"

lemma length_enc_sym [simp]: "length (enc_sym f info other shndx) = 16"
  by (simp add: enc_sym_def)

lemma fread_drop:
  assumes "0 < length xs" "drop p bs = xs @ ys"
  shows "fread (length xs) (bs, int p) = (Some xs, (bs, int (p + length xs)))"
proof -
  have "length bs - p = length xs + length ys" using assms(2) by (metis length_append length_drop)
  then have "p + length xs \<le> length bs" using assms(1) by linarith
  with assms show ?thesis by (simp add: fread_def)
qed

lemma drop_step: "drop p bs = x # ys \<Longrightarrow> drop (Suc p) bs = ys"
  by (metis drop_Suc list.sel(3) tl_drop)

lemma enc_sym_fields:
  "bytes_at 0 4 (enc_sym f info other shndx) = le_bytes 4 (name_index f)"
  "bytes_at 4 4 (enc_sym f info other shndx) = le_bytes 4 (fvalue f)"
  "bytes_at 8 4 (enc_sym f info other shndx) = le_bytes 4 (fsize f)"
  "enc_sym f info other shndx ! 12 = info"
  by (simp_all add: bytes_at_def enc_sym_def nth_append)

definition is_func :: "u8 \<Rightarrow> bool" where
  "is_func info \<longleftrightarrow> unat (info AND 15) = STT_FUNC"

definition enc_table :: "(Func_Sym \<times> u8 \<times> u8 \<times> u16) list \<Rightarrow> u8 list" where
  "enc_table es = concat (map (\<lambda>(f, i, o', x). enc_sym f i o' x) es)"

definition functions_of :: "(Func_Sym \<times> u8 \<times> u8 \<times> u16) list \<Rightarrow> Func_Sym list" where
  "functions_of es = map (\<lambda>(f, _). f\<lparr>fname := []\<rparr>) (filter (\<lambda>(f, i, _). is_func i) es)"

lemma read_symbols_table:
  "drop p bs = enc_table es @ rest \<Longrightarrow>
   read_symbols (length es) (bs, int p) fs = Inr (fs @ functions_of es, (bs, int (p + 16 * length es)))"
proof (induction es arbitrary: p fs)
  case Nil
  then show ?case by (simp add: functions_of_def)
next
  case (Cons e es)
  obtain f i u x where e: "e = (f, i, u, x)" by (cases e)
  have d: "drop p bs = enc_sym f i u x @ (enc_table es @ rest)"
    using Cons.prems by (simp add: e enc_table_def)
  then have d': "drop (p + 16) bs = enc_table es @ rest"
    by (metis add.commute append_eq_conv_conj drop_drop length_enc_sym)
  have r: "fread 16 (bs, int p) = (Some (enc_sym f i u x), (bs, int (p + 16)))"
    using fread_drop [of "enc_sym f i u x" p bs] d by simp
  show ?case
    using Cons.IH [OF d'] r
    by (simp add: e enc_sym_fields le_word_le_bytes functions_of_def is_func_def)
qed

text \<open>A name of one to nineteen characters is read back; a longer one overflows the buffer.\<close>

lemma sym_name_loop_ok:
  "drop p bs = xs @ 0 # rest \<Longrightarrow> 0 \<notin> set xs \<Longrightarrow> length xs < room \<Longrightarrow>
   sym_name_loop room (bs, int p) buf = Inr (buf @ xs, (bs, int (p + length xs + 1)))"
proof (induction xs arbitrary: p room buf)
  case Nil
  then show ?case using fread_drop [of "[0]" p bs rest] by (cases room) simp_all
next
  case (Cons x xs)
  then obtain k where k: "room = Suc k" by (cases room) auto
  have d: "drop (p + 1) bs = xs @ 0 # rest"
    using drop_step [of p bs x "xs @ 0 # rest"] Cons.prems(1) by simp
  show ?case
    using Cons.IH [OF d, of k "buf @ [x]"] Cons.prems fread_drop [of "[x]" p bs] by (simp add: k)
qed

lemma sym_name_loop_long:
  "drop p bs = xs @ rest \<Longrightarrow> 0 \<notin> set xs \<Longrightarrow> room \<le> length xs \<Longrightarrow>
   sym_name_loop room (bs, int p) buf = Inl Undef"
proof (induction room arbitrary: p xs buf)
  case (Suc k)
  then obtain x ys where x: "xs = x # ys" by (cases xs) auto
  have d: "drop (p + 1) bs = ys @ rest"
    using drop_step [of p bs x "ys @ rest"] Suc.prems(1) x by simp
  show ?case
    using Suc.IH [OF d, of "buf @ [x]"] Suc.prems fread_drop [of "[x]" p bs] by (simp add: x)
qed simp

lemma Get_sym_name_cases:
  assumes "drop (unat (off + idx)) bs = xs @ 0 # rest" "0 \<notin> set xs" "xs \<noteq> []"
  shows "Get_sym_name off idx (bs, q) =
    (if length xs \<le> 19 then Inr (xs, (bs, int (unat (off + idx) + length xs + 1))) else Inl Undef)"
proof -
  define p where "p = unat (off + idx)"
  obtain x ys where x: "xs = x # ys" using assms(3) by (cases xs) auto
  have s: "fseek_set (uint (off + idx)) (bs, q) = (bs, int p)"
    by (simp add: fseek_set_def p_def)
  have r: "fread 1 (bs, int p) = (Some [x], (bs, int (p + 1)))"
    using fread_drop [of "[x]" p bs] assms(1) by (simp add: x p_def)
  have d: "drop (p + 1) bs = ys @ 0 # rest"
    using drop_step [of p bs x "ys @ 0 # rest"] assms(1) by (simp add: x p_def)
  have nz: "takeWhile (\<lambda>b. b \<noteq> 0) xs = xs" using assms(2) by (simp add: takeWhile_eq_all_conv) metis
  show ?thesis
  proof (cases "length xs \<le> 19")
    case True
    with s r sym_name_loop_ok [OF d, of 19 "[x]"] assms(2) nz show ?thesis
      by (simp add: Get_sym_name_def x p_def)
  next
    case False
    have "sym_name_loop 19 (bs, int (p + 1)) [x] = Inl Undef"
      by (rule sym_name_loop_long [of _ _ ys "0 # rest"]) (use d assms(2) False x in auto)
    with s r False show ?thesis by (simp add: Get_sym_name_def p_def)
  qed
qed

text \<open>The function symbols of a table with their names, and that such a name is in the file.\<close>

definition named_functions :: "(Func_Sym \<times> u8 \<times> u8 \<times> u16) list \<Rightarrow> Func_Sym list" where
  "named_functions es = map fst (filter (\<lambda>(f, i, _). is_func i) es)"

lemma functions_of_named: "functions_of es = map (\<lambda>f. f\<lparr>fname := []\<rparr>) (named_functions es)"
  by (auto simp: functions_of_def named_functions_def)

definition name_at :: "u8 list \<Rightarrow> u32 \<Rightarrow> Func_Sym \<Rightarrow> bool" where
  "name_at bs off f \<longleftrightarrow> take (length (fname f) + 1) (drop (unat (off + name_index f)) bs) = fname f @ [0] \<and>
     0 \<notin> set (fname f) \<and> fname f \<noteq> [] \<and> length (fname f) \<le> 19"

lemma read_names_ok:
  "list_all (name_at bs off) fs \<Longrightarrow> read_names off (map (\<lambda>f. f\<lparr>fname := []\<rparr>) fs) (bs, q) = Inr fs"
proof (induction fs arbitrary: q)
  case (Cons f fs)
  let ?p = "unat (off + name_index f)"
  from Cons.prems have n: "name_at bs off f" by simp
  have "drop ?p bs = take (length (fname f) + 1) (drop ?p bs) @ drop (length (fname f) + 1) (drop ?p bs)"
    by (rule append_take_drop_id [symmetric])
  also have "\<dots> = fname f @ 0 # drop (length (fname f) + 1) (drop ?p bs)"
    using n unfolding name_at_def by simp
  finally have "Get_sym_name off (name_index f) (bs, q) = Inr (fname f, (bs, int (?p + length (fname f) + 1)))"
    using Get_sym_name_cases [of off "name_index f" bs "fname f" _ q] n by (simp add: name_at_def)
  with Cons show ?case by simp
qed simp

lemma bytes_at_take: "off + n \<le> k \<Longrightarrow> bytes_at off n (take k bs) = bytes_at off n bs"
  by (simp add: bytes_at_def drop_take min_absorb1)

lemma load_elf_table:
  assumes "files nm = Some bs" "52 \<le> length bs"
    and "le_word (bytes_at 32 4 bs) = shoff" "le_word (bytes_at 48 2 bs) = (shnum :: u16)" "3 \<le> unat shnum"
    and sec: "drop (unat (shoff :: u32) + (unat shnum - 3) * 40) bs = symtab @ strtab @ rest"
    and len: "length symtab = 40" "length strtab = 40"
    and "le_word (bytes_at 16 4 symtab) = (symoff :: u32)" and syms: "drop (unat symoff) bs = enc_table es @ rest'"
    and "le_word (bytes_at 20 4 symtab) = (symsize :: u32)" "unat symsize = 16 * length es"
    and "le_word (bytes_at 16 4 strtab) = stroff" and names: "list_all (name_at bs stroff) (named_functions es)"
    and "sym_fun_group s = []"
  shows "load_elf files True (Some nm) s = Inr (s\<lparr>sym_fun_group := named_functions es\<rparr>)"
proof -
  define q where "q = unat shoff + (unat shnum - 3) * 40"
  have h: "fread 52 (bs, 0) = (Some (take 52 bs), (bs, 52))" using assms(2) by (simp add: fread_def)
  have "uint shoff + (uint shnum - 3) * 40 = int q"
    using assms(5) by (simp add: q_def of_nat_diff)
  then have k: "fseek_set (uint shoff + (uint shnum - 3) * 40) (bs, 52) = (bs, int q)"
    by (simp add: fseek_set_def)
  have r1: "fread 40 (bs, int q) = (Some symtab, (bs, int (q + 40)))"
    using fread_drop [of symtab q bs "strtab @ rest"] sec len by (simp add: q_def)
  have "drop (q + 40) bs = strtab @ rest"
    using arg_cong [OF sec, of "drop 40"] len by (simp add: q_def add.commute)
  then have r2: "fread 40 (bs, int (q + 40)) = (Some strtab, (bs, int (q + 80)))"
    using fread_drop [of strtab "q + 40" bs rest] len by simp
  have k2: "fseek_set (uint symoff) (bs, int (q + 80)) = (bs, int (unat symoff))"
    by (simp add: fseek_set_def)
  show ?thesis
    using assms(1,3,4,9,11-13,15) h k r1 r2 k2 read_symbols_table [OF syms, of "[]"]
      read_names_ok [OF names]
    by (simp add: load_elf_def Let_def bytes_at_take functions_of_named del: le_word.simps)
qed

section \<open>The depth of the function trace\<close>

datatype ft_event = Call u32 u32 | Ret u32 u32

primrec ft_step :: "ft_event \<Rightarrow> ftrace_state \<Rightarrow> ftrace_state res" where
  "ft_step (Call p t) s = J_Log p t s"
| "ft_step (Ret p t) s = RET_Log p t s"

fun ft_run :: "ft_event list \<Rightarrow> ftrace_state \<Rightarrow> ftrace_state res" where
  "ft_run [] s = Inr s"
| "ft_run (e # es) s = bindR (ft_step e s) (ft_run es)"

inductive balanced :: "ft_event list \<Rightarrow> bool" where
  balanced_nil: "balanced []"
| balanced_call: "balanced xs \<Longrightarrow> balanced ys \<Longrightarrow> balanced (Call p f # xs @ Ret q r # ys)"

inductive_cases balanced_ConsE: "balanced (e # es)"

lemma ft_run_append: "ft_run (xs @ ys) s = bindR (ft_run xs s) (ft_run ys)"
proof (induction xs arbitrary: s)
  case (Cons x xs)
  then have "ft_run (xs @ ys) = (\<lambda>s. bindR (ft_run xs s) (ft_run ys))" by (intro ext) simp
  then show ?case by (simp add: bindR_assoc)
qed simp

lemma J_LogE:
  assumes "J_Log p t s = Inr s'"
  obtains i where "check_func_interval (sym_fun_group s) t = Inr i" and "unat (ft_loop s) < 2 ^ 31"
    and "s' = s\<lparr>ftrace_log := ftrace_log s @ [CallLine p (unat (ft_loop s)) (fname (sym_fun_group s ! i))
           (fvalue (sym_fun_group s ! i))], ft_loop := ft_loop s + 1\<rparr>"
  using assms by (auto simp: J_Log_def indent_def Let_def elim!: resE)

lemma RET_LogE:
  assumes "RET_Log p t s = Inr s'"
  obtains i where "check_func_interval (sym_fun_group s) t = Inr i" and "unat (ft_loop s - 1) < 2 ^ 31"
    and "s' = s\<lparr>ftrace_log := ftrace_log s @ [RetLine p (unat (ft_loop s - 1)) (fname (sym_fun_group s ! i))],
           ft_loop := ft_loop s - 1\<rparr>"
  using assms by (auto simp: RET_Log_def indent_def Let_def elim!: resE)

lemma ft_run_balanced:
  "balanced es \<Longrightarrow> ft_run es s = Inr s' \<Longrightarrow>
   ft_loop s' = ft_loop s \<and> sym_fun_group s' = sym_fun_group s"
proof (induction arbitrary: s s' rule: balanced.induct)
  case balanced_nil
  then show ?case by simp
next
  case (balanced_call xs ys p f q r)
  from balanced_call.prems obtain s1 s2 s3 where s1: "J_Log p f s = Inr s1"
    and s2: "ft_run xs s1 = Inr s2" and s3: "RET_Log q r s2 = Inr s3" and s': "ft_run ys s3 = Inr s'"
    by (auto simp: ft_run_append elim!: resE)
  from s1 have "ft_loop s1 = ft_loop s + 1" "sym_fun_group s1 = sym_fun_group s" by (auto elim!: J_LogE)
  moreover from s3 have "ft_loop s3 = ft_loop s2 - 1" "sym_fun_group s3 = sym_fun_group s2"
    by (auto elim!: RET_LogE)
  ultimately show ?case using balanced_call.IH(1) [OF s2] balanced_call.IH(2) [OF s'] by simp
qed

lemma func_interval_from_iff:
  "func_interval_from i fs p =
     (case find (\<lambda>j. fvalue (fs ! j) \<le> p \<and> p < fvalue (fs ! j) + fsize (fs ! j)) [0..<length fs] of
        None \<Rightarrow> Inl AssertFail | Some j \<Rightarrow> Inr (i + j))"
proof (induction i fs p rule: func_interval_from.induct)
  case (1 i p)
  then show ?case by simp
next
  case (2 i f fs p)
  have m: "find P (map Suc xs) = map_option Suc (find (\<lambda>j. P (Suc j)) xs)" for P and xs :: "nat list"
    by (induction xs) auto
  have "[0..<length (f # fs)] = 0 # map Suc [0..<length fs]"
    by (simp only: map_Suc_upt upt_conv_Cons) (simp add: upt_conv_Cons map_Suc_upt del: upt_Suc)
  with 2 show ?case by (auto simp: m split: option.split simp del: upt_Suc)
qed

section \<open>The image in memory\<close>

lemma arr_load_image:
  assumes "k + n \<le> length bs" "length bs \<le> clen a"
  shows "arr_load (arr_put a 0 bs) k n = Inr (take n (drop k bs))"
proof -
  have "map (\<lambda>i. cget (arr_put a 0 bs) (k + i)) [0..<n] = take n (drop k bs)"
    by (rule nth_equalityI) (use assms in \<open>auto simp: arr_put_def\<close>)
  with assms show ?thesis by (simp add: arr_load_def)
qed

text \<open>Every instruction word of the image is fetched from its place behind the reset vector.\<close>

lemma load_img_fetch:
  assumes "load_img c files (Some nm) s = Inr (n, s')" "files nm = Some bs"
    and "ram_layout c" "mem_wf c s" "RESET_VECTOR c = 0x30000000"
  shows "n = length bs \<and> length bs \<le> unat (cfg_msize c) \<and>
    (\<forall>k. k + 4 \<le> length bs \<longrightarrow>
      inst_fetch c (0x30000000 + of_nat k :: u32) 4 s' =
        Inr (le_word (take 4 (drop k bs)), 0x30000000 + of_nat k + 4, s'))"
proof -
  have g: "guest_to_host 0x30000000 = Inr (FlashP 0)" by (simp add: guest_to_host_def)
  from assms(1,2,5) g have n: "n = length bs" and l: "length bs \<le> clen (flash s)"
    and s': "s' = s\<lparr>flash := arr_put (flash s) 0 bs\<rparr>"
    by (auto simp: load_img_def load_image_def arr_store_def elim!: resE)
  have m: "clen (flash s) = unat (cfg_msize c)" "unat (cfg_msize c) \<le> 0x10000000"
    using assms(3,4) by (simp_all add: mem_wf_def ram_layout_def)
  have "inst_fetch c (0x30000000 + of_nat k :: u32) 4 s' =
      Inr (le_word (take 4 (drop k bs)), 0x30000000 + of_nat k + 4, s')" if k: "k + 4 \<le> length bs" for k
  proof -
    have u: "unat (0x30000000 + of_nat k :: u32) = 0x30000000 + k"
    proof -
      have "unat (of_nat k :: u32) = k" using k l m by (simp add: unat_of_nat take_bit_nat_eq_self)
      then show ?thesis by (subst unat_word_ariths) (use k l m in simp)
    qed
    have "in_ram c (0x30000000 + of_nat k)"
      by (rule pmem_range_in_ram [OF assms(3), of _ 4]) (use u k l m in \<open>auto simp: pmem_range_def\<close>)
    moreover have "guest_to_host (0x30000000 + of_nat k :: u32) = Inr (FlashP k)"
      using guest_to_host_flash [of "0x30000000 + of_nat k"] u k l m by simp
    ultimately show ?thesis
      using arr_load_image [of k 4 bs "flash s"] k l
      by (simp add: inst_fetch_def vaddr_ifetch_def paddr_read_pmem pmem_read_def s' host_read_def)
  qed
  with n l m show ?thesis by simp
qed

section \<open>The exit status\<close>

text \<open>
  In the batch mode NEMU always starts in, a program of the RV32 guest never ends with a good
  status: the only good end is that of the window being closed.
\<close>

lemma engine_start_batch:
  assumes "engine_start E ls s = Inr s'" "is_batch_mode s"
    and "g_step (se_guest E) = rv32_isa_exec_once k" "run_of (ex s) \<noteq> NEMU_END"
  shows "run_of (ex s') \<noteq> NEMU_END"
proof -
  from assms(1,2) obtain x where "cpu_exec (se_config E) (se_devices E) (se_guest E) (-1) (se_decode E) (ex s) = Inr x"
    and "ex s' = x"
    by (auto simp: engine_start_def sdb_mainloop_def cmd_c_def run_cpu_def elim!: resE)
  then show ?thesis using rv32_never_ends [OF assms(3) _ assms(4)] by blast
qed

lemma good_status: "is_exit_status_bad n = (if nstate n = NEMU_END \<and> halt_ret n = 0 \<or> nstate n = NEMU_QUIT then 0 else 1)"
  by (simp add: is_exit_status_bad_def Let_def)

section \<open>The state of NEMU through start-up\<close>

lemma test_expr_lines_nemu:
  "test_expr_lines c rv ls m = Inr m' \<Longrightarrow> nemu (nsys m') = nemu (nsys m)"
proof (induction c rv ls m rule: test_expr_lines.induct)
  case (2 c rv w e ls m)
  then obtain r b m1 where e: "expr c rv e m = Inr ((r, b), m1)" and b: "b" "r = ucast w"
    and l: "test_expr_lines c rv ls m1 = Inr m'"
    by (auto elim!: resE)
  from "2.IH" [OF e refl refl b l] expr_reads [OF e] show ?case by simp
qed simp

lemma init_sdb_frame:
  assumes "init_sdb E ts s = Inr s'"
  shows "run_of (ex s') = run_of (ex s) \<and> is_batch_mode s' = is_batch_mode s"
  using assms by (auto simp: init_sdb_def test_expr_def run_of_def elim!: resE dest: test_expr_lines_nemu
      split: option.split_asm)

lemma load_img_nemu: "load_img c files img s = Inr (n, s') \<Longrightarrow> nemu s' = nemu s"
  by (auto simp: load_img_def load_image_def elim!: resE split: option.split_asm hptr.split_asm)

lemma ex_batch: "ex (if b then sdb_set_batch_mode s else s) = ex s"
  by (simp add: sdb_set_batch_mode_def)

lemma init_monitor_frame:
  assumes "init_monitor H E os ms fs s = Inr (ms', fs', s')"
    and "\<And>y y'. he_init_device H y = Inr y' \<Longrightarrow> nemu y' = nemu y"
    and "\<And>m m'. he_init_isa H m = Inr m' \<Longrightarrow> nemu (nsys m') = nemu (nsys m)"
  shows "run_of (ex s') = run_of (ex s) \<and> (is_batch_mode s \<longrightarrow> is_batch_mode s')"
proof -
  obtain seed y where y: "init_rand (nsys (mach (ex s))) = (seed, y)" by fastforce
  show ?thesis
    using assms(1) unfolding init_monitor_def Let_def ex_batch y prod.case case_prod_beta
  proof (elim bindR_InrE, goal_cases)
    case (1 ms1 lg y1 y2 m q fs1 r s1)
    have "nemu y1 = nemu y" using 1(3) by (auto simp: init_mem_def elim!: resE split: if_split_asm)
    then have "nemu y2 = nemu y" using 1(4) assms(2) by (auto split: if_split_asm)
    then have "nemu (nsys m) = nemu y" using assms(3) [OF 1(5)] by simp
    then have "nemu (snd q) = nemu y"
      using 1(6) load_img_nemu [of _ _ _ _ "fst q" "snd q"] by (metis prod.collapse)
    moreover have "nemu y = nemu (nsys (mach (ex s)))"
      using y by (auto simp: init_rand_def get_time_internal_def)
    moreover have "is_batch_mode s \<longrightarrow> is_batch_mode (if batch_requested ms1 then sdb_set_batch_mode s else s)"
      by (simp add: sdb_set_batch_mode_def)
    ultimately show ?case using init_sdb_frame [OF 1(9)] 1(10) by (simp add: run_of_def)
  qed
qed

lemma nemu_main_status:
  assumes "nemu_main H E os ls fs s = Inr (status, s')"
    and "g_step (se_guest E) = rv32_isa_exec_once k" "run_of (ex s) \<noteq> NEMU_END"
    and "\<And>y y'. he_init_device H y = Inr y' \<Longrightarrow> nemu y' = nemu y"
    and "\<And>m m'. he_init_isa H m = Inr m' \<Longrightarrow> nemu (nsys m') = nemu (nsys m)"
  shows "status = (if run_of (ex s') = NEMU_QUIT then 0 else 1) \<and>
    nemu_main H E os [] fs s = Inr (status, s')"
proof -
  from assms(1) obtain ms fs1 s1 where
    1: "init_monitor H E os initial_monitor fs (s\<lparr>is_batch_mode := initial_batch_mode\<rparr>) = Inr (ms, fs1, s1)"
    and 2: "engine_start E ls s1 = Inr s'" and 3: "status = is_exit_status_bad (nemu (nsys (mach (ex s'))))"
    by (auto simp: nemu_main_def elim!: resE)
  from init_monitor_frame [OF 1 assms(4,5)] have b: "is_batch_mode s1" "run_of (ex s1) \<noteq> NEMU_END"
    using assms(3) by (simp_all add: initial_batch_mode_def)
  have "run_of (ex s') \<noteq> NEMU_END" using engine_start_batch [OF 2 b(1) assms(2) b(2)] .
  then have "status = (if run_of (ex s') = NEMU_QUIT then 0 else 1)"
    using 3 by (simp add: good_status run_of_def)
  moreover have "engine_start E [] s1 = engine_start E ls s1"
    using b(1) by (simp add: engine_start_def sdb_mainloop_def)
  ultimately show ?thesis using 1 2 3 by (simp add: nemu_main_def)
qed

end
