(* ===== verification/Monitor_Properties.thy ===== *)
theory Monitor_Properties
  imports Samples Monitor_Correct
begin

text \<open>
  Properties of the debugger's sessions and of start-up: command line, image, symbol table and
  function trace, exit status.
\<close>

section \<open>Sessions\<close>

text \<open>
  C20: whatever is typed to the debugger, a session that ends keeps the pool of watchpoints
  partitioned into its two lists and, on an RV32 guest, x0 zero and the register file at its size;
  this covers every command, the runs it starts included.
\<close>
theorem session_keeps_invariants:
  assumes "sdb_lines E ls s = Inr s'" "wp_inv (wpst (ex s))"
    and "g_step (se_guest E) = rv32_isa_exec_once k"
    and "length (gpr (cpu (mach (ex s)))) = rv_reg_count k" "gpr (cpu (mach (ex s))) ! 0 = 0"
  shows "wp_inv (wpst (ex s')) \<and> length (gpr (cpu (mach (ex s')))) = rv_reg_count k \<and>
    gpr (cpu (mach (ex s'))) ! 0 = 0"
proof -
  have ses: "session E s s'" using assms(1) session_start by (rule sdb_lines_session)
  have "rv32.regs_ok k (mach (ex s'))"
    using session_rv32_regs [OF ses assms(3)] assms(4,5) by (simp add: rv32.regs_ok_def)
  with session_wps [OF ses assms(2)] show ?thesis by (simp add: rv32.regs_ok_def)
qed

definition sample_env :: "(u32, unit riscv32_CPU_state_ext, riscv32_CPU_state) sdb_env" where
  "sample_env = \<lparr>se_config = sample_config, se_devices = sample_devices, se_guest = sample_guest,
     se_reg_display = (\<lambda>m. Inr []), se_decode = sample_decode\<rparr>"

definition sample_sdb :: "bool \<Rightarrow> (u32, unit riscv32_CPU_state_ext, riscv32_CPU_state) sdb_state" where
  "sample_sdb b = \<lparr>ex = sample_exec ebreak_bytes, is_batch_mode = b, sdb_out = []\<rparr>"

theorem session_keeps_invariants_witness:
  "\<exists>s'. sdb_lines sample_env [''si 3'', ''q''] (sample_sdb False) = Inr s' \<and>
     wp_inv (wpst (ex s')) \<and> gpr (cpu (mach (ex s'))) ! 0 = 0"
proof -
  let ?s = "sample_sdb False"
  obtain x where x: "cpu_exec sample_config sample_devices sample_guest 3 sample_decode
      (sample_exec ebreak_bytes) = Inr x" by (rule sample_ebreak_run)
  have p: "strtok ''si 3'' = Some (''si'', ''3'')" "strtok ''q'' = Some (''q'', [])"
    "sscanf_d ''3'' 0 = Inr 3" "find_cmd ''si'' cmd_table = Some (''One single step'', Step)"
    "find_cmd ''q'' cmd_table = Some (''Exit NEMU'', Quit)"
    by - code_simp+
  have "\<exists>s'. sdb_lines sample_env [''si 3'', ''q''] ?s = Inr s'"
    using x by (simp add: p sdb_line_def cmd_si_def cmd_q_def run_cpu_def sample_env_def sample_sdb_def)
  then obtain s' where s': "sdb_lines sample_env [''si 3'', ''q''] ?s = Inr s'" by blast
  have "wp_inv (wpst (ex ?s))"
    using init_wp_pool_inv [of sample_wps] by (simp add: sample_sdb_def sample_exec_def sample_wps_def NR_WP_def)
  then show ?thesis
    using session_keeps_invariants [OF s', of sample_config] s'
    by (simp add: sample_env_def sample_sdb_def sample_guest_def rv_reg_count_def sample_regs_def)
qed

section \<open>The function trace\<close>

text \<open>
  The function trace finds the functions of an ELF file: if the third section header from the
  end describes a symbol table and the next one the string table, and every function symbol has a
  name of 1 to 19 characters there, loading the file records exactly the function symbols, in
  order, with name, address and size.
\<close>
lemma elf_symbols_read:
  assumes "files nm = Some bs" "52 \<le> length bs"
    and "le_word (bytes_at 32 4 bs) = shoff" "le_word (bytes_at 48 2 bs) = (shnum :: u16)" "3 \<le> unat shnum"
    and "drop (unat (shoff :: u32) + (unat shnum - 3) * 40) bs = symtab @ strtab @ rest"
    and "length symtab = 40" "length strtab = 40"
    and "le_word (bytes_at 16 4 symtab) = (symoff :: u32)" "drop (unat symoff) bs = enc_table es @ rest'"
    and "le_word (bytes_at 20 4 symtab) = (symsize :: u32)" "unat symsize = 16 * length es"
    and "le_word (bytes_at 16 4 strtab) = stroff" "list_all (name_at bs stroff) (named_functions es)"
    and "sym_fun_group s = []"
  shows "load_elf files True (Some nm) s = Inr (s\<lparr>sym_fun_group := named_functions es\<rparr>)"
  using assms by (rule load_elf_table)

text \<open>A file with one symbol, its names and three section headers of which two are there.\<close>

definition sample_symbol :: Func_Sym where
  "sample_symbol = \<lparr>name_index = 1, fname = [102], fvalue = 0x30000000, fsize = 8\<rparr>"

definition sample_symtab :: "u8 list" where
  "sample_symtab = replicate 16 0 @ [52, 0, 0, 0, 16, 0, 0, 0] @ replicate 16 0"

definition sample_strtab :: "u8 list" where
  "sample_strtab = replicate 16 0 @ [68, 0, 0, 0, 4, 0, 0, 0] @ replicate 16 0"

definition sample_elf :: "u8 list" where
  "sample_elf = replicate 32 0 @ [72, 0, 0, 0] @ replicate 12 0 @ [3, 0, 0, 0] @
     enc_sym sample_symbol 0x12 0 1 @ [0, 102, 0, 0] @ sample_symtab @ sample_strtab"

definition sample_ftrace :: "Func_Sym list \<Rightarrow> ftrace_state" where
  "sample_ftrace fs = \<lparr>sym_fun_group = fs, ftrace_log = [], ft_loop = 0\<rparr>"

text \<open>
  The depth of the function trace is a call stack's: after any sequence of logged calls and
  returns in which they are balanced, the depth is what it was before, and the table of functions
  is untouched.
\<close>
lemma ftrace_depth_balanced:
  assumes "balanced es" "ft_run es s = Inr s'"
  shows "ft_loop s' = ft_loop s \<and> sym_fun_group s' = sym_fun_group s"
  using assms by (rule ft_run_balanced)

text \<open>A call of \<^verbatim>\<open>f\<close> and the return to its caller.\<close>

definition sample_caller :: Func_Sym where
  "sample_caller = \<lparr>name_index = 3, fname = [109], fvalue = 0x30000008, fsize = 8\<rparr>"

section \<open>The image\<close>

text \<open>
  What is loaded is what is fetched: after an image file has been loaded, fetching four bytes
  at any offset inside it from the reset vector on yields its little-endian word there, and an
  image larger than the memory is not accepted.
\<close>
lemma image_is_fetched:
  assumes "load_img c files (Some nm) s = Inr (n, s')" "files nm = Some bs"
    and "ram_layout c" "mem_wf c s" "RESET_VECTOR c = 0x30000000"
  shows "n = length bs \<and> length bs \<le> unat (cfg_msize c) \<and>
    (\<forall>k. k + 4 \<le> length bs \<longrightarrow>
      inst_fetch c (0x30000000 + of_nat k :: u32) 4 s' =
        Inr (le_word (take 4 (drop k bs)), 0x30000000 + of_nat k + 4, s'))"
  using assms by (rule load_img_fetch)

section \<open>The exit status\<close>

text \<open>
  NEMU's exit status says nothing about the program: since the debugger starts in batch mode
  (the lines of input are never read) and only a trap can set \<^verbatim>\<open>NEMU_END\<close> that \<^verbatim>\<open>exec_once\<close> then
  replaces, \<^verbatim>\<open>main\<close> with an RV32 guest returns 1 unless the user has closed the window.
\<close>
lemma rv32_exit_status:
  assumes "nemu_main H E os ls fs s = Inr (status, s')"
    and "g_step (se_guest E) = rv32_isa_exec_once k" "run_of (ex s) \<noteq> NEMU_END"
    and "\<And>y y'. he_init_device H y = Inr y' \<Longrightarrow> nemu y' = nemu y"
    and "\<And>m m'. he_init_isa H m = Inr m' \<Longrightarrow> nemu (nsys m') = nemu (nsys m)"
  shows "status = (if run_of (ex s') = NEMU_QUIT then 0 else 1) \<and>
    nemu_main H E os [] fs s = Inr (status, s')"
  using assms by (rule nemu_main_status)

definition sample_host :: "(u32, unit riscv32_CPU_state_ext, riscv32_CPU_state) host_env" where
  "sample_host = \<lparr>he_files = (\<lambda>_. None), he_can_write = (\<lambda>_. True), he_rand = id,
     he_init_device = Inr, he_init_isa = Inr, he_ftrace = False, he_dlopen = True, he_symbols = [],
     he_tests = Some []\<rparr>"

end
