(* ===== verification/AM_Context.thy ===== *)
theory AM_Context
  imports RV32
begin

text \<open>
  The abstract machine on an RV32 NEMU: exceptions and context switching (\<^verbatim>\<open>am/src/riscv/nemu/cte.c\<close>
  with its assembly entry \<^verbatim>\<open>trap.S\<close>) and address spaces (\<^verbatim>\<open>vme.c\<close>). Contexts are structures in the
  program's memory, which is a store of 32-bit words at byte addresses; a pointer is an address
  and a word access must be aligned. \<open>nr\<close> is \<^verbatim>\<open>NR_REGS\<close>, 32 or, for the E base, 16. The
  registers and CSRs are those of the RV32 guest.
\<close>

section \<open>Memory and contexts\<close>

type_synonym cmem = "u32 \<Rightarrow> u32"

definition mload :: "u32 \<Rightarrow> cmem \<Rightarrow> u32 res" where
  "mload a m = guardR (a AND 3 = 0) Undef (Inr (m a))"

definition mstore :: "u32 \<Rightarrow> u32 \<Rightarrow> cmem \<Rightarrow> cmem res" where
  "mstore a v m = guardR (a AND 3 = 0) Undef (Inr (m(a := v)))"

text \<open>The address of the \<open>i\<close>-th word of a structure.\<close>

definition field :: "u32 \<Rightarrow> nat \<Rightarrow> u32" where
  "field c i = c + of_nat (4 * i)"

text \<open>\<^verbatim>\<open>struct Context\<close>: the registers, \<^verbatim>\<open>mcause\<close>, \<^verbatim>\<open>mstatus\<close>, \<^verbatim>\<open>mepc\<close> and \<^verbatim>\<open>pdir\<close>.\<close>

definition ctx_gpr :: "u32 \<Rightarrow> nat \<Rightarrow> u32" where
  "ctx_gpr c i = field c i"

definition ctx_mcause :: "nat \<Rightarrow> u32 \<Rightarrow> u32" where
  "ctx_mcause nr c = field c nr"

definition ctx_mstatus :: "nat \<Rightarrow> u32 \<Rightarrow> u32" where
  "ctx_mstatus nr c = field c (nr + 1)"

definition ctx_mepc :: "nat \<Rightarrow> u32 \<Rightarrow> u32" where
  "ctx_mepc nr c = field c (nr + 2)"

definition ctx_pdir :: "nat \<Rightarrow> u32 \<Rightarrow> u32" where
  "ctx_pdir nr c = field c (nr + 3)"

definition sizeof_Context :: "nat \<Rightarrow> u32" where
  "sizeof_Context nr = of_nat (4 * (nr + 4))"

section \<open>Events\<close>

datatype event_id =
  EVENT_NULL | EVENT_YIELD | EVENT_SYSCALL | EVENT_PAGEFAULT | EVENT_ERROR | EVENT_IRQ_TIMER
| EVENT_IRQ_IODEV

record Event =
  event :: event_id
  ev_cause :: u32
  ev_ref :: u32
  ev_msg :: u32

definition zero_event :: Event where
  "zero_event = \<lparr>event = EVENT_NULL, ev_cause = 0, ev_ref = 0, ev_msg = 0\<rparr>"

text \<open>The handler the program registers; a null pointer before that.\<close>

type_synonym event_handler = "Event \<Rightarrow> u32 \<Rightarrow> cmem \<Rightarrow> (u32 \<times> cmem) res"

definition am_irq_handle :: "nat \<Rightarrow> event_handler option \<Rightarrow> u32 \<Rightarrow> cmem \<Rightarrow> (u32 \<times> cmem) res" where
  "am_irq_handle nr user_handler c m =
     (case user_handler of
        None \<Rightarrow> Inr (c, m)
      | Some f \<Rightarrow>
          bindR (mload (ctx_mcause nr c) m) (\<lambda>cause.
          bindR (if cause = 0xb
                 then bindR (mload (ctx_mepc nr c) m) (\<lambda>epc.
                      bindR (mstore (ctx_mepc nr c) (epc + 4) m) (\<lambda>m.
                      Inr (zero_event\<lparr>event := EVENT_YIELD\<rparr>, m)))
                 else Inr (zero_event\<lparr>event := EVENT_ERROR\<rparr>, m)) (\<lambda>(ev, m).
          bindR (f ev c m) (\<lambda>(c, m).
          guardR (c \<noteq> 0) AssertFail (Inr (c, m))))))"

text \<open>\<open>trap\<close> is the address of \<^verbatim>\<open>__am_asm_trap\<close>.\<close>

definition cte_init :: "u32 \<Rightarrow> event_handler \<Rightarrow> riscv32_CPU_state \<Rightarrow>
    bool \<times> event_handler option \<times> riscv32_CPU_state" where
  "cte_init trap handler k = (True, Some handler, k\<lparr>csr := (csr k)\<lparr>mtvec := trap\<rparr>\<rparr>)"

fun clear_gprs :: "u32 \<Rightarrow> nat \<Rightarrow> nat \<Rightarrow> cmem \<Rightarrow> cmem res" where
  "clear_gprs c i 0 m = Inr m"
| "clear_gprs c i (Suc n) m = bindR (mstore (ctx_gpr c i) 0 m) (clear_gprs c (Suc i) n)"

text \<open>\<^verbatim>\<open>kcontext\<close> for a stack that ends at \<open>kend\<close>: the context is placed below its last word.\<close>

definition kcontext :: "nat \<Rightarrow> u32 \<Rightarrow> u32 \<Rightarrow> u32 \<Rightarrow> cmem \<Rightarrow> (u32 \<times> cmem) res" where
  "kcontext nr kend entry arg m =
     (let c = kend - 4 - sizeof_Context nr in
      bindR (mstore (ctx_mcause nr c) 0xb m) (\<lambda>m.
      bindR (mstore (ctx_mstatus nr c) 0x1800 m) (\<lambda>m.
      bindR (mstore (ctx_mepc nr c) entry m) (\<lambda>m.
      bindR (clear_gprs c 0 nr m) (\<lambda>m.
      bindR (mstore (ctx_gpr c 10) arg m) (\<lambda>m.
      Inr (c, m)))))))"

text \<open>
  \<^verbatim>\<open>yield\<close>: \<^verbatim>\<open>li a7, 0xb; ecall\<close>, with \<^verbatim>\<open>a5\<close> for the E base, the \<^verbatim>\<open>ecall\<close> at address \<open>epc\<close> executed
  as the RV32 guest does.
\<close>

definition yield :: "nat \<Rightarrow> u32 \<Rightarrow> rv32_machine \<Rightarrow> rv32_machine" where
  "yield nr epc mc =
     (let r = (if nr = 16 then 15 else 17);
          mc = mc\<lparr>cpu := (cpu mc)\<lparr>gpr := (gpr (cpu mc))[r := 0xb]\<rparr>\<rparr>;
          (t, mc) = rv32_isa_raise_intr 0 epc mc in
      mc\<lparr>cpu := (cpu mc)\<lparr>pc := t\<rparr>\<rparr>)"

definition ienabled :: bool where
  "ienabled = False"

definition iset :: "bool \<Rightarrow> riscv32_CPU_state \<Rightarrow> riscv32_CPU_state" where
  "iset enable k = k"

section \<open>The trap entry\<close>

text \<open>\<^verbatim>\<open>REGS\<close>: all registers but x0 and the stack pointer.\<close>

definition REGS :: "nat \<Rightarrow> nat list" where
  "REGS nr = 1 # [3..<nr]"

fun push_regs :: "u32 \<Rightarrow> u32 list \<Rightarrow> nat list \<Rightarrow> cmem \<Rightarrow> cmem res" where
  "push_regs sp rs [] m = Inr m"
| "push_regs sp rs (n # ns) m = bindR (mstore (field sp n) (rs ! n) m) (push_regs sp rs ns)"

fun pop_regs :: "u32 \<Rightarrow> nat list \<Rightarrow> u32 list \<Rightarrow> cmem \<Rightarrow> u32 list res" where
  "pop_regs sp [] rs m = Inr rs"
| "pop_regs sp (n # ns) rs m = bindR (mload (field sp n) m) (\<lambda>v. pop_regs sp ns (rs[n := v]) m)"

definition trap_save :: "nat \<Rightarrow> riscv32_CPU_state \<Rightarrow> cmem \<Rightarrow> (riscv32_CPU_state \<times> cmem) res" where
  "trap_save nr k m =
     (let sp = gpr k ! 2 - sizeof_Context nr; rs = (gpr k)[2 := sp]; r = csr k;
          status = mstatus r OR 0x20000 in
      bindR (push_regs sp rs (REGS nr) m) (\<lambda>m.
      bindR (mstore (ctx_mcause nr sp) (mcause r) m) (\<lambda>m.
      bindR (mstore (ctx_mstatus nr sp) (mstatus r) m) (\<lambda>m.
      bindR (mstore (ctx_mepc nr sp) (mepc r) m) (\<lambda>m.
      Inr (k\<lparr>gpr := rs[5 := mcause r, 6 := status, 7 := mepc r, 10 := sp],
             csr := r\<lparr>mstatus := status\<rparr>\<rparr>, m))))))"

definition trap_restore :: "nat \<Rightarrow> u32 \<Rightarrow> riscv32_CPU_state \<Rightarrow> cmem \<Rightarrow> riscv32_CPU_state res" where
  "trap_restore nr sp k m =
     bindR (mload (ctx_mstatus nr sp) m) (\<lambda>status.
     bindR (mload (ctx_mepc nr sp) m) (\<lambda>epc.
     bindR (pop_regs sp (REGS nr) ((gpr k)[2 := sp]) m) (\<lambda>rs.
     Inr (k\<lparr>gpr := rs[2 := sp + sizeof_Context nr], pc := epc,
            csr := (csr k)\<lparr>mstatus := status, mepc := epc\<rparr>\<rparr>))))"

text \<open>
  The C function is called between the two halves; the registers it may change are all loaded
  again.
\<close>

definition am_asm_trap :: "nat \<Rightarrow> event_handler option \<Rightarrow> riscv32_CPU_state \<Rightarrow> cmem \<Rightarrow>
    (riscv32_CPU_state \<times> cmem) res" where
  "am_asm_trap nr user_handler k m =
     bindR (trap_save nr k m) (\<lambda>(k, m).
     bindR (am_irq_handle nr user_handler (gpr k ! 10) m) (\<lambda>(c, m).
     bindR (trap_restore nr c k m) (\<lambda>k. Inr (k, m))))"

section \<open>Address spaces\<close>

definition PGSIZE :: u32 where
  "PGSIZE = 4096"

text \<open>The page allocator the program passes works on a state of its own.\<close>

type_synonym 'h pgalloc = "int \<Rightarrow> 'h \<Rightarrow> u32 \<times> 'h"

record 'h vme_state =
  pgalloc_usr :: "'h pgalloc option"
  pgs :: 'h
  kas_ptr :: u32
  vme_enable :: bool
  satp :: u32

record AddrSpace =
  pgsize :: u32
  area_start :: u32
  area_end :: u32
  as_ptr :: u32

definition set_satp :: "u32 \<Rightarrow> 'h vme_state \<Rightarrow> 'h vme_state" where
  "set_satp pdir s = s\<lparr>satp := push_bit 31 1 OR drop_bit 12 pdir\<rparr>"

definition get_satp :: "'h vme_state \<Rightarrow> u32" where
  "get_satp s = push_bit 12 (satp s)"

text \<open>\<^verbatim>\<open>map\<close> does nothing; \<open>map_range\<close> is the loop over one segment, which must not wrap around.\<close>

definition am_map :: "u32 \<Rightarrow> u32 \<Rightarrow> u32 \<Rightarrow> 'h vme_state \<Rightarrow> 'h vme_state" where
  "am_map va pa prot s = s"

lemma unat_next_page: "unat va + 4096 < 2 ^ 32 \<Longrightarrow> unat (va + PGSIZE) = unat va + 4096"
  by (subst unat_word_ariths(1)) (simp add: PGSIZE_def)

function map_range :: "u32 \<Rightarrow> u32 \<Rightarrow> 'h vme_state \<Rightarrow> 'h vme_state res" where
  "map_range va en s =
     (if va < en
      then if unat va + 4096 < 2 ^ 32 then map_range (va + PGSIZE) en (am_map va va 0 s) else Inl Undef
      else Inr s)"
  by pat_completeness auto

termination
  by (relation "measure (\<lambda>(va, en, s). 2 ^ 32 - unat va)") (auto simp: unat_next_page)

declare map_range.simps [simp del]

text \<open>
  The segments of \<^verbatim>\<open>NEMU_PADDR_SPACE\<close>: the program's memory from \<^verbatim>\<open>_pmem_start\<close>, the frame buffer
  and the device registers.
\<close>

definition segments :: "u32 \<Rightarrow> (u32 \<times> u32) list" where
  "segments pmem_start =
     [(pmem_start, pmem_start + 128 * 1024 * 1024), (0xa1000000, 0xa1200000), (0xa0000000, 0xa0001000)]"

fun map_segments :: "(u32 \<times> u32) list \<Rightarrow> 'h vme_state \<Rightarrow> 'h vme_state res" where
  "map_segments [] s = Inr s"
| "map_segments ((st, en) # ss) s = bindR (map_range st en s) (map_segments ss)"

definition vme_init :: "u32 \<Rightarrow> 'h pgalloc \<Rightarrow> 'h vme_state \<Rightarrow> (bool \<times> 'h vme_state) res" where
  "vme_init pmem_start pgalloc_f s =
     (let (p, h) = pgalloc_f 4096 (pgs s);
          s = s\<lparr>pgalloc_usr := Some pgalloc_f, pgs := h, kas_ptr := p\<rparr> in
      bindR (map_segments (segments pmem_start) s) (\<lambda>s.
      Inr (True, (set_satp (kas_ptr s) s)\<lparr>vme_enable := True\<rparr>)))"

text \<open>\<^verbatim>\<open>memcpy(updir, kas.ptr, PGSIZE)\<close> of a page of words, for pages that do not overlap.\<close>

definition copy_page :: "u32 \<Rightarrow> u32 \<Rightarrow> cmem \<Rightarrow> cmem" where
  "copy_page d s m = (\<lambda>a. if a - d < PGSIZE then m (s + (a - d)) else m a)"

definition protect :: "AddrSpace \<Rightarrow> cmem \<Rightarrow> 'h vme_state \<Rightarrow> (AddrSpace \<times> cmem \<times> 'h vme_state) res" where
  "protect as m s =
     (case pgalloc_usr s of
        None \<Rightarrow> Inl Undef
      | Some f \<Rightarrow>
          let (updir, h) = f 4096 (pgs s) in
          Inr (as\<lparr>as_ptr := updir, area_start := 0x40000000, area_end := 0x80000000, pgsize := PGSIZE\<rparr>,
               copy_page updir (kas_ptr s) m, s\<lparr>pgs := h\<rparr>))"

definition unprotect :: "AddrSpace \<Rightarrow> AddrSpace" where
  "unprotect as = as"

definition am_get_cur_as :: "nat \<Rightarrow> u32 \<Rightarrow> 'h vme_state \<Rightarrow> cmem \<Rightarrow> cmem res" where
  "am_get_cur_as nr c s m = mstore (ctx_pdir nr c) (if vme_enable s then get_satp s else 0) m"

definition am_switch :: "nat \<Rightarrow> u32 \<Rightarrow> cmem \<Rightarrow> 'h vme_state \<Rightarrow> 'h vme_state res" where
  "am_switch nr c m s =
     (if vme_enable s
      then bindR (mload (ctx_pdir nr c) m) (\<lambda>p. Inr (if p \<noteq> 0 then set_satp p s else s))
      else Inr s)"

definition ucontext :: "AddrSpace \<Rightarrow> u32 \<Rightarrow> u32 \<Rightarrow> u32" where
  "ucontext as kend entry = 0"

end
