(* ===== verification/AM_Context_Correct.thy ===== *)
theory AM_Context_Correct
  imports AM_Context
begin

text \<open>
  Context switching: what the trap entry saves is a context of the interrupted thread, restoring
  a context resumes the thread it belongs to, and a new context starts its function.
\<close>

section \<open>Addresses of the fields\<close>

definition aligned :: "u32 \<Rightarrow> bool" where
  "aligned a \<longleftrightarrow> a AND 3 = 0"

lemma aligned_dvd: "aligned a \<longleftrightarrow> 4 dvd unat a"
proof -
  have "a AND 3 = take_bit 2 a" by (simp add: take_bit_eq_mask mask_eq_exp_minus_1)
  then have "aligned a \<longleftrightarrow> unat (take_bit 2 a) = 0" by (simp only: aligned_def unsigned_eq_0_iff)
  also have "unat (take_bit 2 a) = unat a mod 4"
    using take_bit_eq_mod [of 2 "unat a"] by (simp only: unsigned_take_bit_eq) simp
  finally show ?thesis by auto
qed

lemma aligned_words: "aligned (of_nat (4 * i))"
proof -
  have "unat (of_nat (4 * i) :: u32) = 4 * i mod 2 ^ 32" by (simp only: unat_of_nat len_bit0 len_num1) simp
  then show ?thesis by (simp only: aligned_dvd dvd_mod_iff) (simp add: dvd_mod)
qed

lemma aligned_add: "aligned a \<Longrightarrow> aligned b \<Longrightarrow> aligned (a + b)"
  unfolding aligned_dvd by (subst unat_word_ariths(1)) (simp add: dvd_mod)

lemma aligned_field [simp]: "aligned c \<Longrightarrow> aligned (field c i)"
  unfolding field_def by (rule aligned_add [OF _ aligned_words])

lemma field_eq [simp]: "i < 1000 \<Longrightarrow> j < 1000 \<Longrightarrow> field c i = field c j \<longleftrightarrow> i = j"
proof -
  assume a: "i < 1000" "j < 1000"
  have "field c i = field c j \<longleftrightarrow> (of_nat (4 * i) :: u32) = of_nat (4 * j)" by (simp add: field_def)
  also have "\<dots> \<longleftrightarrow> 4 * i = 4 * j"
  proof -
    have u: "unat (of_nat k :: u32) = k" if "k < 4000" for k using that by (simp add: unat_of_nat)
    have "4 * i < 4000" "4 * j < 4000" using a by simp_all
    then show ?thesis using u by metis
  qed
  finally show ?thesis by simp
qed

lemma mload_aligned [simp]: "aligned a \<Longrightarrow> mload a m = Inr (m a)"
  by (simp add: mload_def aligned_def)

lemma mstore_aligned [simp]: "aligned a \<Longrightarrow> mstore a v m = Inr (m(a := v))"
  by (simp add: mstore_def aligned_def)

lemmas ctx_fields = ctx_gpr_def ctx_mcause_def ctx_mstatus_def ctx_mepc_def ctx_pdir_def

section \<open>Pushing and popping registers\<close>

lemma push_regs_ok:
  "aligned c \<Longrightarrow> \<forall>n \<in> set ns. n < 1000 \<Longrightarrow>
   \<exists>m'. push_regs c rs ns m = Inr m' \<and> (\<forall>n \<in> set ns. m' (field c n) = rs ! n) \<and>
     (\<forall>a. a \<notin> field c ` set ns \<longrightarrow> m' a = m a)"
proof (induction ns arbitrary: m)
  case (Cons n ns)
  let ?m = "m(field c n := rs ! n)"
  obtain m' where m': "push_regs c rs ns ?m = Inr m'" "\<forall>n \<in> set ns. m' (field c n) = rs ! n"
    "\<forall>a. a \<notin> field c ` set ns \<longrightarrow> m' a = ?m a"
    using Cons.IH [OF Cons.prems(1), of ?m] Cons.prems(2) by (auto simp del: fun_upd_apply)
  have "m' (field c n) = rs ! n"
  proof (cases "n \<in> set ns")
    case False
    then have "field c n \<notin> field c ` set ns" using Cons.prems(2) by auto
    with m'(3) show ?thesis by simp
  qed (use m'(2) in simp)
  with m' Cons.prems(1) show ?case by (intro exI [of _ m']) auto
qed simp

lemma pop_regs_ok:
  "aligned c \<Longrightarrow> distinct ns \<Longrightarrow> \<forall>n \<in> set ns. n < length rs \<Longrightarrow>
   \<exists>rs'. pop_regs c ns rs m = Inr rs' \<and> length rs' = length rs \<and>
     (\<forall>n < length rs. rs' ! n = (if n \<in> set ns then m (field c n) else rs ! n))"
proof (induction ns arbitrary: rs)
  case (Cons n ns)
  let ?rs = "rs[n := m (field c n)]"
  obtain rs' where r: "pop_regs c ns ?rs m = Inr rs'" "length rs' = length rs"
    "\<forall>i < length rs. rs' ! i = (if i \<in> set ns then m (field c i) else ?rs ! i)"
    using Cons.IH [OF Cons.prems(1), of ?rs] Cons.prems(2,3) by auto
  then have "\<forall>i < length rs. rs' ! i = (if i \<in> set (n # ns) then m (field c i) else rs ! i)"
    by (simp add: nth_list_update)
  with r Cons.prems(1) show ?case by (intro exI [of _ rs']) simp
qed simp

lemma clear_gprs_ok:
  "aligned c \<Longrightarrow> i + n \<le> 1000 \<Longrightarrow>
   \<exists>m'. clear_gprs c i n m = Inr m' \<and> (\<forall>j. i \<le> j \<and> j < i + n \<longrightarrow> m' (field c j) = 0) \<and>
     (\<forall>a. a \<notin> field c ` {i..<i + n} \<longrightarrow> m' a = m a)"
proof (induction n arbitrary: i m)
  case (Suc n)
  let ?m = "m(field c i := 0)"
  obtain m' where m': "clear_gprs c (Suc i) n ?m = Inr m'"
    "\<forall>j. Suc i \<le> j \<and> j < Suc i + n \<longrightarrow> m' (field c j) = 0"
    "\<forall>a. a \<notin> field c ` {Suc i..<Suc i + n} \<longrightarrow> m' a = ?m a"
    using Suc.IH [OF Suc.prems(1), of "Suc i" ?m] Suc.prems(2) by (auto simp del: fun_upd_apply)
  have "field c i \<notin> field c ` {Suc i..<Suc i + n}" using Suc.prems by auto
  with m'(3) have z: "m' (field c i) = 0" by simp
  have "m' (field c j) = 0" if "i \<le> j" "j < i + Suc n" for j
    using that m'(2) z by (cases "j = i") auto
  moreover have "m' a = m a" if "a \<notin> field c ` {i..<i + Suc n}" for a
  proof -
    have "a \<notin> field c ` {Suc i..<Suc i + n}" "a \<noteq> field c i" using that by auto
    with m'(3) show ?thesis by simp
  qed
  ultimately show ?case using m'(1) Suc.prems(1) by (intro exI [of _ m']) (simp add: ctx_gpr_def)
qed auto

section \<open>Contexts\<close>

text \<open>The memory holds, at \<open>c\<close>, a context with the given registers, status and program counter.\<close>

definition is_context :: "nat \<Rightarrow> cmem \<Rightarrow> u32 \<Rightarrow> u32 list \<Rightarrow> u32 \<Rightarrow> u32 \<Rightarrow> bool" where
  "is_context nr m c rs status p \<longleftrightarrow> aligned c \<and> (\<forall>n \<in> set (REGS nr). m (field c n) = rs ! n) \<and>
     m (ctx_mstatus nr c) = status \<and> m (ctx_mepc nr c) = p"

lemma REGS_props: "16 \<le> nr \<Longrightarrow> distinct (REGS nr) \<and> set (REGS nr) = {n. n < nr \<and> n \<noteq> 0 \<and> n \<noteq> 2}"
  by (auto simp: REGS_def)

text \<open>Restoring a context loads every register but x0 from it and pops the stack.\<close>

lemma trap_restore_context:
  assumes "is_context nr m c rs status p" "16 \<le> nr" "nr \<le> 32" "length (gpr k) = nr"
  shows "\<exists>k'. trap_restore nr c k m = Inr k' \<and> length (gpr k') = nr \<and> pc k' = p \<and>
    gpr k' ! 0 = gpr k ! 0 \<and> gpr k' ! 2 = c + sizeof_Context nr \<and>
    (\<forall>n < nr. n \<noteq> 0 \<and> n \<noteq> 2 \<longrightarrow> gpr k' ! n = rs ! n) \<and> mstatus (csr k') = status \<and> mepc (csr k') = p"
proof -
  have a: "aligned c" using assms(1) by (simp add: is_context_def)
  note R = REGS_props [OF assms(2)]
  obtain rs' where rs': "pop_regs c (REGS nr) ((gpr k)[2 := c]) m = Inr rs'" "length rs' = nr"
    "\<forall>n < nr. rs' ! n = (if n \<in> set (REGS nr) then m (field c n) else (gpr k)[2 := c] ! n)"
    using pop_regs_ok [OF a, of "REGS nr" "(gpr k)[2 := c]" m] R assms(4) by auto
  with a assms R show ?thesis
    by (auto simp: trap_restore_def is_context_def ctx_fields nth_list_update)
qed

text \<open>The registers saved are those at the trap, for the status and program counter in the CSRs.\<close>

lemma trap_save_context:
  assumes "16 \<le> nr" "nr \<le> 32" "length (gpr k) = nr" "aligned (gpr k ! 2 - sizeof_Context nr)"
  shows "\<exists>k' m'. trap_save nr k m = Inr (k', m') \<and> gpr k' ! 10 = gpr k ! 2 - sizeof_Context nr \<and>
    length (gpr k') = nr \<and> gpr k' ! 0 = gpr k ! 0 \<and>
    is_context nr m' (gpr k ! 2 - sizeof_Context nr) (gpr k) (mstatus (csr k)) (mepc (csr k)) \<and>
    m' (ctx_mcause nr (gpr k ! 2 - sizeof_Context nr)) = mcause (csr k) \<and>
    (\<forall>a. a \<notin> field (gpr k ! 2 - sizeof_Context nr) ` {0..<nr + 3} \<longrightarrow> m' a = m a)"
proof -
  let ?c = "gpr k ! 2 - sizeof_Context nr"
  note R = REGS_props [OF assms(1)]
  obtain m1 where m1: "push_regs ?c ((gpr k)[2 := ?c]) (REGS nr) m = Inr m1"
    "\<forall>n \<in> set (REGS nr). m1 (field ?c n) = (gpr k)[2 := ?c] ! n"
    "\<forall>a. a \<notin> field ?c ` set (REGS nr) \<longrightarrow> m1 a = m a"
    using push_regs_ok [OF assms(4), of "REGS nr" "(gpr k)[2 := ?c]" m] R assms(2) by force
  let ?m = "m1(ctx_mcause nr ?c := mcause (csr k), ctx_mstatus nr ?c := mstatus (csr k),
      ctx_mepc nr ?c := mepc (csr k))"
  have f: "\<forall>n < nr. field ?c n \<noteq> ctx_mcause nr ?c \<and> field ?c n \<noteq> ctx_mstatus nr ?c \<and> field ?c n \<noteq> ctx_mepc nr ?c"
    using assms(2) by (simp add: ctx_fields)
  have "is_context nr ?m ?c (gpr k) (mstatus (csr k)) (mepc (csr k))"
    using assms(2,4) f m1(2) R by (auto simp: is_context_def ctx_fields)
  moreover have "?m (ctx_mcause nr ?c) = mcause (csr k)"
    using assms(2) by (simp add: ctx_fields)
  moreover have "?m a = m a" if "a \<notin> field ?c ` {0..<nr + 3}" for a
  proof -
    have "a \<notin> field ?c ` set (REGS nr)" using that R by auto
    moreover have "a \<noteq> field ?c nr" "a \<noteq> field ?c (nr + 1)" "a \<noteq> field ?c (nr + 2)" using that by auto
    ultimately show ?thesis using m1(3) by (simp add: ctx_fields)
  qed
  ultimately show ?thesis
    using m1(1) assms by (auto simp: trap_save_def Let_def ctx_fields nth_list_update)
qed

text \<open>A new context has cleared registers but for the argument, and starts at the entry.\<close>

lemma aligned_diff: "aligned a \<Longrightarrow> aligned b \<Longrightarrow> aligned (a - b)"
proof -
  assume a: "aligned a" "aligned b"
  have "aligned ((-1) * b)"
    using a(2) unfolding aligned_dvd by (subst unat_word_ariths(2)) (simp add: dvd_mod)
  then have "aligned (a + (-1) * b)" using a(1) by (rule aligned_add [rotated])
  then show ?thesis by simp
qed

lemma aligned_sizeof: "aligned (sizeof_Context nr)"
  unfolding sizeof_Context_def by (rule aligned_words)

lemma aligned_4: "aligned 4"
  by (simp add: aligned_def)

definition new_regs :: "nat \<Rightarrow> u32 \<Rightarrow> u32 list" where
  "new_regs nr arg = (replicate nr 0)[10 := arg]"

lemma kcontext_context:
  assumes "16 \<le> nr" "nr \<le> 32" "aligned kend"
  shows "\<exists>m'. kcontext nr kend entry arg m = Inr (kend - 4 - sizeof_Context nr, m') \<and>
    is_context nr m' (kend - 4 - sizeof_Context nr) (new_regs nr arg) 0x1800 entry \<and>
    (\<forall>a. a \<notin> field (kend - 4 - sizeof_Context nr) ` {0..<nr + 3} \<longrightarrow> m' a = m a)"
proof -
  let ?c = "kend - 4 - sizeof_Context nr"
  have c: "aligned ?c" using assms(3) aligned_diff aligned_4 aligned_sizeof by blast
  let ?m = "m(field ?c nr := 0xb, field ?c (nr + 1) := 0x1800, field ?c (nr + 2) := entry)"
  obtain m1 where m1: "clear_gprs ?c 0 nr ?m = Inr m1" "\<forall>j. j < nr \<longrightarrow> m1 (field ?c j) = 0"
    "\<forall>a. a \<notin> field ?c ` {0..<nr} \<longrightarrow> m1 a = ?m a"
    using clear_gprs_ok [OF c, of 0 nr ?m] assms(2) by (auto simp del: fun_upd_apply)
  have o: "m1 (field ?c i) = ?m (field ?c i)" if "nr \<le> i" "i < nr + 3" for i
  proof -
    have "field ?c i \<notin> field ?c ` {0..<nr}" using that assms(2) by auto
    with m1(3) show ?thesis by blast
  qed
  let ?m' = "m1(field ?c 10 := arg)"
  have "is_context nr ?m' ?c (new_regs nr arg) 0x1800 entry"
    using assms(1,2) c m1(2) REGS_props [OF assms(1)] o [of "nr + 1"] o [of "nr + 2"]
    by (auto simp: is_context_def ctx_fields new_regs_def nth_list_update)
  moreover have "?m' a = m a" if "a \<notin> field ?c ` {0..<nr + 3}" for a
  proof -
    have "a \<notin> field ?c ` {0..<nr}" "a \<noteq> field ?c nr" "a \<noteq> field ?c (nr + 1)" "a \<noteq> field ?c (nr + 2)"
      "a \<noteq> field ?c 10"
      using that assms(1) by auto
    with m1(3) show ?thesis by simp
  qed
  moreover have "kcontext nr kend entry arg m = Inr (?c, ?m')"
    using c m1(1) by (simp add: kcontext_def Let_def ctx_fields)
  ultimately show ?thesis by blast
qed

section \<open>Switching\<close>

abbreviation yield_event :: Event where
  "yield_event \<equiv> zero_event\<lparr>event := EVENT_YIELD\<rparr>"

text \<open>
  A yield saves the thread, gives the handler a context that continues after the \<^verbatim>\<open>ecall\<close>, and
  resumes whatever context the handler returns.
\<close>

lemma asm_trap_switch:
  assumes "16 \<le> nr" "nr \<le> 32" "length (gpr k) = nr" "gpr k ! 0 = 0"
    and "c = gpr k ! 2 - sizeof_Context nr" "aligned c" "mcause (csr k) = 0xb"
    and h: "\<And>m1. is_context nr m1 c (gpr k) (mstatus (csr k)) (mepc (csr k) + 4) \<Longrightarrow>
      (\<forall>a. a \<notin> field c ` {0..<nr + 3} \<longrightarrow> m1 a = m a) \<Longrightarrow>
      \<exists>m2. f yield_event c m1 = Inr (c2, m2) \<and> is_context nr m2 c2 rs status p"
    and "c2 \<noteq> 0"
  shows "\<exists>k' m'. am_asm_trap nr (Some f) k m = Inr (k', m') \<and> pc k' = p \<and> mstatus (csr k') = status \<and>
    length (gpr k') = nr \<and> gpr k' ! 0 = 0 \<and> gpr k' ! 2 = c2 + sizeof_Context nr \<and>
    (\<forall>n < nr. n \<noteq> 0 \<and> n \<noteq> 2 \<longrightarrow> gpr k' ! n = rs ! n) \<and>
    (\<exists>m1. is_context nr m1 c (gpr k) (mstatus (csr k)) (mepc (csr k) + 4) \<and>
      (\<forall>a. a \<notin> field c ` {0..<nr + 3} \<longrightarrow> m1 a = m a) \<and> f yield_event c m1 = Inr (c2, m'))"
proof -
  obtain k1 m0 where s: "trap_save nr k m = Inr (k1, m0)" "gpr k1 ! 10 = c" "length (gpr k1) = nr" "gpr k1 ! 0 = 0"
    and ctx: "is_context nr m0 c (gpr k) (mstatus (csr k)) (mepc (csr k))" "m0 (ctx_mcause nr c) = 0xb"
    and fr: "\<forall>a. a \<notin> field c ` {0..<nr + 3} \<longrightarrow> m0 a = m a"
    using trap_save_context [of nr k m] assms(1-7) by auto
  let ?m1 = "m0(ctx_mepc nr c := mepc (csr k) + 4)"
  have ok: "is_context nr ?m1 c (gpr k) (mstatus (csr k)) (mepc (csr k) + 4)"
    using ctx(1) assms(2) REGS_props [OF assms(1)] by (auto simp: is_context_def ctx_fields)
  have fr1: "\<forall>a. a \<notin> field c ` {0..<nr + 3} \<longrightarrow> ?m1 a = m a"
    using fr by (auto simp: ctx_fields)
  obtain m2 where m2: "f yield_event c ?m1 = Inr (c2, m2)" "is_context nr m2 c2 rs status p"
    using h [OF ok fr1] by blast
  have "am_irq_handle nr (Some f) c m0 = Inr (c2, m2)"
    using m2(1) ctx assms(6,9) by (simp add: am_irq_handle_def is_context_def ctx_fields)
  moreover obtain k' where k': "trap_restore nr c2 k1 m2 = Inr k'" "length (gpr k') = nr" "pc k' = p"
      "gpr k' ! 0 = gpr k1 ! 0" "gpr k' ! 2 = c2 + sizeof_Context nr"
      "\<forall>n < nr. n \<noteq> 0 \<and> n \<noteq> 2 \<longrightarrow> gpr k' ! n = rs ! n" "mstatus (csr k') = status"
    using trap_restore_context [OF m2(2) assms(1,2) s(3)] by blast
  ultimately have "am_asm_trap nr (Some f) k m = Inr (k', m2)"
    using s(1,2) by (simp add: am_asm_trap_def)
  with k' s(4) ok fr1 m2(1) show ?thesis by (intro exI [of _ k'] exI [of _ m2]) auto
qed

text \<open>Where two contexts that do not overlap lie.\<close>

definition frame :: "nat \<Rightarrow> u32 \<Rightarrow> u32 set" where
  "frame nr c = field c ` {0..<nr + 3}"

lemma frames_apart:
  assumes "unat c + 4 * (nr + 3) \<le> unat d" "unat d + 4 * (nr + 3) \<le> 2 ^ 32"
  shows "frame nr c \<inter> frame nr d = {}"
proof -
  have u: "unat (field e i) = unat e + 4 * i" if "unat e + 4 * (nr + 3) \<le> 2 ^ 32" "i < nr + 3" for e i
  proof -
    have b: "unat e + 4 * i < 2 ^ 32" using that by simp
    then have "unat (of_nat (4 * i) :: u32) = 4 * i"
      by (simp only: unat_of_nat len_bit0 len_num1) (simp add: mod_less)
    then show ?thesis using b unfolding field_def by (subst unat_word_ariths(1)) simp
  qed
  have "unat c + 4 * (nr + 3) \<le> 2 ^ 32" using assms by simp
  note uc = u [OF this] and ud = u [OF assms(2)]
  have "field c i \<noteq> field d j" if "i < nr + 3" "j < nr + 3" for i j
  proof
    assume "field c i = field d j"
    then have "unat (field c i) = unat (field d j)" by simp
    with uc [OF that(1)] ud [OF that(2)] assms(1) that show False by simp
  qed
  then show ?thesis by (auto simp: frame_def)
qed

lemma is_context_frame:
  assumes "is_context nr m c rs status p" "16 \<le> nr" "\<forall>a \<in> frame nr c. m' a = m a"
  shows "is_context nr m' c rs status p"
proof -
  have "m' (field c i) = m (field c i)" if "i < nr + 3" for i
    using assms(3) that by (auto simp: frame_def)
  with assms(1) REGS_props [OF assms(2)] show ?thesis by (simp add: is_context_def ctx_fields)
qed

text \<open>A thread about to enter the trap handler by an \<^verbatim>\<open>ecall\<close>, with its next frame at \<open>c\<close>.\<close>

definition yielding :: "nat \<Rightarrow> u32 \<Rightarrow> riscv32_CPU_state \<Rightarrow> bool" where
  "yielding nr c k \<longleftrightarrow> length (gpr k) = nr \<and> gpr k ! 0 = 0 \<and> c = gpr k ! 2 - sizeof_Context nr \<and>
     aligned c \<and> mcause (csr k) = 0xb"

text \<open>A scheduler that returns a given context.\<close>

definition switch_to :: "u32 \<Rightarrow> event_handler" where
  "switch_to c2 ev c m = Inr (c2, m)"

lemma switch_to_context:
  assumes "16 \<le> nr" "nr \<le> 32" "yielding nr c k" "c2 \<noteq> 0"
    and "is_context nr m c2 rs status p" "frame nr c \<inter> frame nr c2 = {}"
  shows "\<exists>k' m'. am_asm_trap nr (Some (switch_to c2)) k m = Inr (k', m') \<and> pc k' = p \<and> mstatus (csr k') = status \<and>
    length (gpr k') = nr \<and> gpr k' ! 0 = 0 \<and> gpr k' ! 2 = c2 + sizeof_Context nr \<and>
    (\<forall>n < nr. n \<noteq> 0 \<and> n \<noteq> 2 \<longrightarrow> gpr k' ! n = rs ! n) \<and>
    is_context nr m' c (gpr k) (mstatus (csr k)) (mepc (csr k) + 4)"
proof -
  have y: "length (gpr k) = nr" "gpr k ! 0 = 0" "c = gpr k ! 2 - sizeof_Context nr" "aligned c"
    "mcause (csr k) = 0xb" using assms(3) by (auto simp: yielding_def)
  have h: "\<exists>m2. switch_to c2 yield_event c m1 = Inr (c2, m2) \<and> is_context nr m2 c2 rs status p"
    if "\<forall>a. a \<notin> field c ` {0..<nr + 3} \<longrightarrow> m1 a = m a" for m1
  proof -
    have "\<forall>a \<in> frame nr c2. m1 a = m a" using that assms(6) by (auto simp: frame_def)
    with is_context_frame [OF assms(5,1)] show ?thesis by (simp add: switch_to_def)
  qed
  show ?thesis
    using asm_trap_switch [of nr k c m "switch_to c2" c2 rs status p, OF assms(1,2) y h assms(4)]
    by (auto simp: switch_to_def)
qed

lemma resumed_gprs:
  assumes "length (gpr k) = nr" "length (gpr k') = nr" "gpr k ! 0 = 0" "gpr k' ! 0 = 0" "gpr k' ! 2 = gpr k ! 2"
    and "\<forall>n < nr. n \<noteq> 0 \<and> n \<noteq> 2 \<longrightarrow> gpr k' ! n = gpr k ! n"
  shows "gpr k' = gpr (k :: riscv32_CPU_state)"
proof (rule nth_equalityI)
  fix n assume "n < length (gpr k')"
  with assms show "gpr k' ! n = gpr k ! n" by (cases "n = 0 \<or> n = 2") auto
qed (use assms in simp)

section \<open>Address spaces\<close>

lemma map_range_ok: "unat en + 4096 \<le> 2 ^ 32 \<Longrightarrow> map_range va en s = Inr s"
proof (induction va en s rule: map_range.induct)
  case (1 va en s)
  show ?case
  proof (cases "va < en")
    case True
    then have "unat va + 4096 < 2 ^ 32" using 1(2) by (simp add: word_less_nat_alt)
    with 1 True show ?thesis by (subst map_range.simps) (simp add: am_map_def)
  qed (subst map_range.simps, simp)
qed

lemma vme_init_ok:
  assumes "pgalloc_f 4096 (pgs s) = (p, h)" "unat (pmem_start + 128 * 1024 * 1024) + 4096 \<le> 2 ^ 32"
  shows "vme_init pmem_start pgalloc_f s = Inr (True, (set_satp p
    (s\<lparr>pgalloc_usr := Some pgalloc_f, pgs := h, kas_ptr := p\<rparr>))\<lparr>vme_enable := True\<rparr>)"
proof -
  have "map_segments (segments pmem_start) s' = Inr s'" for s' :: "'a vme_state"
    using assms(2) by (simp add: segments_def map_range_ok)
  with assms(1) show ?thesis by (simp add: vme_init_def Let_def set_satp_def)
qed

lemma satp_roundtrip:
  assumes "take_bit 12 pdir = 0"
  shows "get_satp (set_satp pdir s) = pdir"
proof -
  have "push_bit 12 (drop_bit 12 pdir) = pdir" using bits_ident [of 12 pdir] assms by simp
  moreover have "push_bit 12 (push_bit 31 (1 :: u32)) = 0" by simp
  moreover have "satp (set_satp pdir s) = push_bit 31 1 OR drop_bit 12 pdir" by (simp add: set_satp_def)
  ultimately show ?thesis by (simp only: get_satp_def push_bit_or or.left_neutral)
qed

lemma switch_get_cur_as:
  assumes "vme_enable s" "aligned c" "m (ctx_pdir nr c) = pdir" "pdir \<noteq> 0" "take_bit 12 pdir = 0"
  shows "\<exists>s'. am_switch nr c m s = Inr s' \<and> am_get_cur_as nr c s' m = Inr m"
proof -
  have "am_switch nr c m s = Inr (set_satp pdir s)"
    using assms by (simp add: am_switch_def ctx_fields)
  moreover have "am_get_cur_as nr c (set_satp pdir s) m = Inr m"
    using assms satp_roundtrip [OF assms(5), of s] fun_upd_triv [of m "ctx_pdir nr c"]
    by (simp add: am_get_cur_as_def ctx_fields set_satp_def)
  ultimately show ?thesis by blast
qed

end
