(* ===== verification/AM_IOE.thy ===== *)
theory AM_IOE
  imports Bus
begin

text \<open>
  The abstract machine's devices and runtime on NEMU: \<^verbatim>\<open>am/src/platform/nemu\<close> (\<^verbatim>\<open>ioe/*.c\<close>, \<^verbatim>\<open>trm.c\<close>,
  \<^verbatim>\<open>mpe.c\<close>). The code reaches its devices by volatile accesses (\<^verbatim>\<open>inl\<close>, \<^verbatim>\<open>outl\<close>, \<^verbatim>\<open>outb\<close> of \<^verbatim>\<open>riscv.h\<close>),
  which are the operations of a bus, an argument here; \<open>nemu_bus\<close> is the one NEMU's
  memory-mapped devices provide.
\<close>

section \<open>The bus\<close>

record 's am_bus =
  inl :: "u32 \<Rightarrow> 's \<Rightarrow> (u32 \<times> 's) res"
  outb :: "u32 \<Rightarrow> u8 \<Rightarrow> 's \<Rightarrow> 's res"
  outl :: "u32 \<Rightarrow> u32 \<Rightarrow> 's \<Rightarrow> 's res"

definition nemu_bus :: "config \<Rightarrow> 'v sys am_bus" where
  "nemu_bus c = \<lparr>inl = (\<lambda>a. mmio_read c device_callback a 4), outb = (\<lambda>a w. mmio_write c device_callback a 1 w),
     outl = (\<lambda>a w. mmio_write c device_callback a 4 w)\<rparr>"

definition SERIAL_PORT :: u32 where "SERIAL_PORT = 0xa00003f8"
definition KBD_ADDR :: u32 where "KBD_ADDR = 0xa0000060"
definition RTC_ADDR :: u32 where "RTC_ADDR = 0xa0000048"
definition VGACTL_ADDR :: u32 where "VGACTL_ADDR = 0xa0000100"
definition FB_ADDR :: u32 where "FB_ADDR = 0xa1000000"
definition SYNC_ADDR :: u32 where "SYNC_ADDR = VGACTL_ADDR + 4"

section \<open>Device registers\<close>

datatype am_devreg =
  AM_UART_CONFIG | AM_UART_TX | AM_UART_RX | AM_TIMER_CONFIG | AM_TIMER_RTC | AM_TIMER_UPTIME
| AM_INPUT_CONFIG | AM_INPUT_KEYBRD | AM_GPU_CONFIG | AM_GPU_STATUS | AM_GPU_FBDRAW | AM_GPU_MEMCPY
| AM_GPU_RENDER | AM_AUDIO_CONFIG | AM_AUDIO_CTRL | AM_AUDIO_STATUS | AM_AUDIO_PLAY | AM_DISK_CONFIG
| AM_DISK_STATUS | AM_DISK_BLKIO | AM_NET_CONFIG | AM_NET_STATUS | AM_NET_TX | AM_NET_RX

text \<open>The registers are numbered from 1 in this order.\<close>

definition am_devregs :: "am_devreg list" where
  "am_devregs =
     [AM_UART_CONFIG, AM_UART_TX, AM_UART_RX, AM_TIMER_CONFIG, AM_TIMER_RTC, AM_TIMER_UPTIME,
      AM_INPUT_CONFIG, AM_INPUT_KEYBRD, AM_GPU_CONFIG, AM_GPU_STATUS, AM_GPU_FBDRAW, AM_GPU_MEMCPY,
      AM_GPU_RENDER, AM_AUDIO_CONFIG, AM_AUDIO_CTRL, AM_AUDIO_STATUS, AM_AUDIO_PLAY, AM_DISK_CONFIG,
      AM_DISK_STATUS, AM_DISK_BLKIO, AM_NET_CONFIG, AM_NET_STATUS, AM_NET_TX, AM_NET_RX]"

record AM_TIMER_RTC_T =
  year :: int
  month :: int
  day :: int
  hour :: int
  minute :: int
  second :: int

record AM_INPUT_KEYBRD_T =
  keydown :: bool
  keycode :: int

record AM_GPU_CONFIG_T =
  gpu_present :: bool
  has_accel :: bool
  width :: int
  height :: int
  vmemsz :: int

record AM_GPU_FBDRAW_T =
  fb_x :: int
  fb_y :: int
  fb_pixels :: "u32 list"
  fb_w :: int
  fb_h :: int
  fb_sync :: bool

text \<open>The structure behind the \<^verbatim>\<open>void *\<close> of \<^verbatim>\<open>ioe_read\<close> and \<^verbatim>\<open>ioe_write\<close>, by its type.\<close>

datatype am_buf =
  Timer_Config bool bool
| Timer_Rtc AM_TIMER_RTC_T
| Timer_Uptime u64
| Input_Config bool
| Input_Keybrd AM_INPUT_KEYBRD_T
| Gpu_Config AM_GPU_CONFIG_T
| Gpu_Fbdraw AM_GPU_FBDRAW_T
| Gpu_Status bool
| Uart_Config bool
| Audio_Config bool int
| Audio_Ctrl int int int
| Audio_Status int
| Audio_Play u32 u32
| Disk_Config bool int int
| Disk_Status bool
| Disk_Blkio bool u32 int int
| Net_Config bool

section \<open>Timer\<close>

definition am_timer_init :: "'s am_bus \<Rightarrow> 's \<Rightarrow> 's res" where
  "am_timer_init B s = bindR (outl B RTC_ADDR 0 s) (outl B (RTC_ADDR + 4) 0)"

definition am_timer_uptime :: "'s am_bus \<Rightarrow> 's \<Rightarrow> (u64 \<times> 's) res" where
  "am_timer_uptime B s =
     bindR (inl B (RTC_ADDR + 4) s) (\<lambda>(hi, s).
     let us = push_bit 32 (ucast hi) in
     bindR (inl B RTC_ADDR s) (\<lambda>(lo, s).
     Inr (us + ucast lo, s)))"

definition am_timer_rtc :: AM_TIMER_RTC_T where
  "am_timer_rtc = \<lparr>year = 1900, month = 0, day = 0, hour = 0, minute = 0, second = 0\<rparr>"

section \<open>Keyboard\<close>

definition AM_KEYDOWN_MASK :: u32 where
  "AM_KEYDOWN_MASK = 0x8000"

definition am_input_keybrd :: "'s am_bus \<Rightarrow> 's \<Rightarrow> (AM_INPUT_KEYBRD_T \<times> 's) res" where
  "am_input_keybrd B s =
     bindR (inl B KBD_ADDR s) (\<lambda>(key, s).
     Inr (\<lparr>keydown = (key AND AM_KEYDOWN_MASK \<noteq> 0), keycode = sint (key AND NOT AM_KEYDOWN_MASK)\<rparr>, s))"

text \<open>The names of \<^verbatim>\<open>AM_KEYS\<close>, numbered from 1.\<close>

definition AM_KEYS :: "string list" where
  "AM_KEYS =
    [''ESCAPE'', ''F1'', ''F2'', ''F3'', ''F4'', ''F5'', ''F6'', ''F7'', ''F8'', ''F9'', ''F10'', ''F11'', ''F12'',
     ''GRAVE'', ''1'', ''2'', ''3'', ''4'', ''5'', ''6'', ''7'', ''8'', ''9'', ''0'', ''MINUS'', ''EQUALS'', ''BACKSPACE'',
     ''TAB'', ''Q'', ''W'', ''E'', ''R'', ''T'', ''Y'', ''U'', ''I'', ''O'', ''P'', ''LEFTBRACKET'', ''RIGHTBRACKET'', ''BACKSLASH'',
     ''CAPSLOCK'', ''A'', ''S'', ''D'', ''F'', ''G'', ''H'', ''J'', ''K'', ''L'', ''SEMICOLON'', ''APOSTROPHE'', ''RETURN'',
     ''LSHIFT'', ''Z'', ''X'', ''C'', ''V'', ''B'', ''N'', ''M'', ''COMMA'', ''PERIOD'', ''SLASH'', ''RSHIFT'',
     ''LCTRL'', ''APPLICATION'', ''LALT'', ''SPACE'', ''RALT'', ''RCTRL'',
     ''UP'', ''DOWN'', ''LEFT'', ''RIGHT'', ''INSERT'', ''DELETE'', ''HOME'', ''END'', ''PAGEUP'', ''PAGEDOWN'']"

section \<open>Screen\<close>

definition am_gpu_config :: "'s am_bus \<Rightarrow> 's \<Rightarrow> (AM_GPU_CONFIG_T \<times> 's) res" where
  "am_gpu_config B s =
     bindR (inl B VGACTL_ADDR s) (\<lambda>(screen_wh, s).
     let h = screen_wh AND 0xffff; w = drop_bit 16 screen_wh in
     Inr (\<lparr>gpu_present = True, has_accel = False, width = sint w, height = sint h, vmemsz = 0\<rparr>, s))"

text \<open>
  The loops of \<^verbatim>\<open>__am_gpu_fbdraw\<close>, \<open>n\<close> columns from column \<open>j\<close> and \<open>n\<close> rows from row \<open>i\<close>; the index
  into \<^verbatim>\<open>fb\<close> is unsigned because \<^verbatim>\<open>screen_w\<close> is.
\<close>

definition fb_addr :: "u32 \<Rightarrow> int \<Rightarrow> int \<Rightarrow> u32" where
  "fb_addr screen_w i j = FB_ADDR + 4 * (screen_w * of_int i + of_int j)"

fun fb_cols :: "'s am_bus \<Rightarrow> AM_GPU_FBDRAW_T \<Rightarrow> u32 \<Rightarrow> int \<Rightarrow> int \<Rightarrow> nat \<Rightarrow> 's \<Rightarrow> 's res" where
  "fb_cols B ctl screen_w i j 0 s = Inr s"
| "fb_cols B ctl screen_w i j (Suc n) s =
     (let k = fb_w ctl * (i - fb_y ctl) + (j - fb_x ctl) in
      guardR (0 \<le> k \<and> nat k < length (fb_pixels ctl)) Undef
       (bindR (outl B (fb_addr screen_w i j) (fb_pixels ctl ! nat k) s)
         (fb_cols B ctl screen_w i (j + 1) n)))"

fun fb_rows :: "'s am_bus \<Rightarrow> AM_GPU_FBDRAW_T \<Rightarrow> u32 \<Rightarrow> int \<Rightarrow> nat \<Rightarrow> 's \<Rightarrow> 's res" where
  "fb_rows B ctl screen_w i 0 s = Inr s"
| "fb_rows B ctl screen_w i (Suc n) s =
     bindR (fb_cols B ctl screen_w i (fb_x ctl) (nat (fb_w ctl)) s)
      (fb_rows B ctl screen_w (i + 1) n)"

definition is_int :: "int \<Rightarrow> bool" where
  "is_int v \<longleftrightarrow> - (2 ^ 31) \<le> v \<and> v < 2 ^ 31"

text \<open>The bounds \<^verbatim>\<open>x+w\<close> and \<^verbatim>\<open>y+h\<close> of the loops are computed as \<^verbatim>\<open>int\<close>s.\<close>

definition am_gpu_fbdraw :: "'s am_bus \<Rightarrow> AM_GPU_FBDRAW_T \<Rightarrow> 's \<Rightarrow> 's res" where
  "am_gpu_fbdraw B ctl s =
     (if \<not> fb_sync ctl \<and> (fb_w ctl = 0 \<or> fb_h ctl = 0) then Inr s
      else bindR (inl B VGACTL_ADDR s) (\<lambda>(wh, s).
        guardR (is_int (fb_y ctl + fb_h ctl) \<and> (0 < fb_h ctl \<longrightarrow> is_int (fb_x ctl + fb_w ctl))) Undef
         (bindR (fb_rows B ctl (drop_bit 16 wh) (fb_y ctl) (nat (fb_h ctl)) s) (\<lambda>s.
          if fb_sync ctl then outl B SYNC_ADDR 1 s else Inr s))))"

definition am_gpu_init :: "'s \<Rightarrow> 's" where "am_gpu_init s = s"
definition am_gpu_status :: bool where "am_gpu_status = True"

section \<open>Audio and disk\<close>

text \<open>
  Neither is there: the configuration says so, leaving the other fields as they are, and the other
  operations change nothing but the count of samples that is reported.
\<close>

definition am_audio_init :: "'s \<Rightarrow> 's" where "am_audio_init s = s"
definition am_audio_config :: "bool \<times> int \<Rightarrow> bool \<times> int" where "am_audio_config cfg = (False, snd cfg)"
definition am_audio_ctrl :: "'s \<Rightarrow> 's" where "am_audio_ctrl s = s"
definition am_audio_status :: int where "am_audio_status = 0"
definition am_audio_play :: "'s \<Rightarrow> 's" where "am_audio_play s = s"
definition am_disk_config :: "bool \<times> int \<times> int \<Rightarrow> bool \<times> int \<times> int" where
  "am_disk_config cfg = (False, snd cfg)"
definition am_disk_status :: "bool \<Rightarrow> bool" where "am_disk_status stat = stat"
definition am_disk_blkio :: "'s \<Rightarrow> 's" where "am_disk_blkio s = s"

section \<open>ioe.c\<close>

definition am_timer_config :: "bool \<times> bool" where "am_timer_config = (True, True)"
definition am_input_config :: bool where "am_input_config = True"
definition am_uart_config :: bool where "am_uart_config = False"
definition am_net_config :: bool where "am_net_config = False"

datatype ioe_handler =
  H_timer_config | H_timer_rtc | H_timer_uptime | H_input_config | H_input_keybrd | H_gpu_config
| H_gpu_fbdraw | H_gpu_status | H_uart_config | H_audio_config | H_audio_ctrl | H_audio_status
| H_audio_play | H_disk_config | H_disk_status | H_disk_blkio | H_net_config | H_fail

text \<open>The handlers of \<^verbatim>\<open>ioe.c\<close> itself and those of the files for audio and disk, which do nothing.\<close>

primrec run_handler :: "'s am_bus \<Rightarrow> ioe_handler \<Rightarrow> am_buf \<Rightarrow> 's \<Rightarrow> (am_buf \<times> 's) res" where
  "run_handler B H_timer_config buf s =
     (case buf of Timer_Config p r \<Rightarrow> Inr (case am_timer_config of (p, r) \<Rightarrow> Timer_Config p r, s) | _ \<Rightarrow> Inl Undef)"
| "run_handler B H_timer_rtc buf s =
     (case buf of Timer_Rtc t \<Rightarrow> Inr (Timer_Rtc am_timer_rtc, s) | _ \<Rightarrow> Inl Undef)"
| "run_handler B H_timer_uptime buf s =
     (case buf of Timer_Uptime u \<Rightarrow> bindR (am_timer_uptime B s) (\<lambda>(us, s). Inr (Timer_Uptime us, s)) | _ \<Rightarrow> Inl Undef)"
| "run_handler B H_input_config buf s =
     (case buf of Input_Config p \<Rightarrow> Inr (Input_Config am_input_config, s) | _ \<Rightarrow> Inl Undef)"
| "run_handler B H_input_keybrd buf s =
     (case buf of Input_Keybrd k \<Rightarrow> bindR (am_input_keybrd B s) (\<lambda>(k, s). Inr (Input_Keybrd k, s)) | _ \<Rightarrow> Inl Undef)"
| "run_handler B H_gpu_config buf s =
     (case buf of Gpu_Config g \<Rightarrow> bindR (am_gpu_config B s) (\<lambda>(g, s). Inr (Gpu_Config g, s)) | _ \<Rightarrow> Inl Undef)"
| "run_handler B H_gpu_fbdraw buf s =
     (case buf of Gpu_Fbdraw ctl \<Rightarrow> bindR (am_gpu_fbdraw B ctl s) (\<lambda>s. Inr (Gpu_Fbdraw ctl, s)) | _ \<Rightarrow> Inl Undef)"
| "run_handler B H_gpu_status buf s =
     (case buf of Gpu_Status r \<Rightarrow> Inr (Gpu_Status am_gpu_status, s) | _ \<Rightarrow> Inl Undef)"
| "run_handler B H_uart_config buf s =
     (case buf of Uart_Config p \<Rightarrow> Inr (Uart_Config am_uart_config, s) | _ \<Rightarrow> Inl Undef)"
| "run_handler B H_audio_config buf s =
     (case buf of Audio_Config p n \<Rightarrow> Inr (case am_audio_config (p, n) of (p, n) \<Rightarrow> Audio_Config p n, s) | _ \<Rightarrow> Inl Undef)"
| "run_handler B H_audio_ctrl buf s =
     (case buf of Audio_Ctrl f ch n \<Rightarrow> Inr (Audio_Ctrl f ch n, am_audio_ctrl s) | _ \<Rightarrow> Inl Undef)"
| "run_handler B H_audio_status buf s =
     (case buf of Audio_Status n \<Rightarrow> Inr (Audio_Status am_audio_status, s) | _ \<Rightarrow> Inl Undef)"
| "run_handler B H_audio_play buf s =
     (case buf of Audio_Play st en \<Rightarrow> Inr (Audio_Play st en, am_audio_play s) | _ \<Rightarrow> Inl Undef)"
| "run_handler B H_disk_config buf s =
     (case buf of Disk_Config p b n \<Rightarrow> Inr (case am_disk_config (p, b, n) of (p, b, n) \<Rightarrow> Disk_Config p b n, s) | _ \<Rightarrow> Inl Undef)"
| "run_handler B H_disk_status buf s =
     (case buf of Disk_Status r \<Rightarrow> Inr (Disk_Status (am_disk_status r), s) | _ \<Rightarrow> Inl Undef)"
| "run_handler B H_disk_blkio buf s =
     (case buf of Disk_Blkio wr p b n \<Rightarrow> Inr (Disk_Blkio wr p b n, am_disk_blkio s) | _ \<Rightarrow> Inl Undef)"
| "run_handler B H_net_config buf s =
     (case buf of Net_Config p \<Rightarrow> Inr (Net_Config am_net_config, s) | _ \<Rightarrow> Inl Undef)"
| "run_handler B H_fail buf s = Inl Panic"

definition lut_init :: "(am_devreg \<times> ioe_handler) list" where
  "lut_init =
     [(AM_TIMER_CONFIG, H_timer_config), (AM_TIMER_RTC, H_timer_rtc), (AM_TIMER_UPTIME, H_timer_uptime),
      (AM_INPUT_CONFIG, H_input_config), (AM_INPUT_KEYBRD, H_input_keybrd), (AM_GPU_CONFIG, H_gpu_config),
      (AM_GPU_FBDRAW, H_gpu_fbdraw), (AM_GPU_STATUS, H_gpu_status), (AM_UART_CONFIG, H_uart_config),
      (AM_AUDIO_CONFIG, H_audio_config), (AM_AUDIO_CTRL, H_audio_ctrl), (AM_AUDIO_STATUS, H_audio_status),
      (AM_AUDIO_PLAY, H_audio_play), (AM_DISK_CONFIG, H_disk_config), (AM_DISK_STATUS, H_disk_status),
      (AM_DISK_BLKIO, H_disk_blkio), (AM_NET_CONFIG, H_net_config)]"

text \<open>\<^verbatim>\<open>static void *lut[128]\<close> as the compiler fills it, null pointers elsewhere.\<close>

definition lut_static :: "ioe_handler option list" where
  "lut_static = map (\<lambda>i. if 1 \<le> i \<and> i \<le> length am_devregs then map_of lut_init (am_devregs ! (i - 1)) else None) [0..<128]"

fun fill_lut :: "ioe_handler option list \<Rightarrow> ioe_handler option list" where
  "fill_lut [] = []"
| "fill_lut (h # hs) = (if h = None then Some H_fail else h) # fill_lut hs"

definition ioe_init :: "'s am_bus \<Rightarrow> ioe_handler option list \<Rightarrow> 's \<Rightarrow>
    (bool \<times> ioe_handler option list \<times> 's) res" where
  "ioe_init B lut s = bindR (am_timer_init B (am_gpu_init s)) (\<lambda>s. Inr (True, fill_lut lut, am_audio_init s))"

text \<open>An index outside the table and a call through a null pointer are undefined.\<close>

definition ioe_read :: "'s am_bus \<Rightarrow> ioe_handler option list \<Rightarrow> int \<Rightarrow> am_buf \<Rightarrow> 's \<Rightarrow> (am_buf \<times> 's) res" where
  "ioe_read B lut reg buf s =
     guardR (0 \<le> reg \<and> nat reg < length lut) Undef
      (case lut ! nat reg of None \<Rightarrow> Inl Undef | Some h \<Rightarrow> run_handler B h buf s)"

definition ioe_write :: "'s am_bus \<Rightarrow> ioe_handler option list \<Rightarrow> int \<Rightarrow> am_buf \<Rightarrow> 's \<Rightarrow> (am_buf \<times> 's) res" where
  "ioe_write B lut reg buf s = ioe_read B lut reg buf s"

section \<open>trm.c and mpe.c\<close>

definition am_putch :: "'s am_bus \<Rightarrow> u8 \<Rightarrow> 's \<Rightarrow> 's res" where
  "am_putch B ch s = outb B SERIAL_PORT ch s"

text \<open>
  \<^verbatim>\<open>halt\<close> moves its argument to \<^verbatim>\<open>a0\<close> and executes \<^verbatim>\<open>ebreak\<close>; \<open>trap\<close> is what the machine does then,
  after which the loop does nothing more. \<open>main\<close> is the program.
\<close>

definition am_halt :: "(u32 \<Rightarrow> 's \<Rightarrow> 's res) \<Rightarrow> int \<Rightarrow> 's \<Rightarrow> 's res" where
  "am_halt trap code s = trap (of_int code) s"

definition trm_init :: "(u32 \<Rightarrow> 's \<Rightarrow> 's res) \<Rightarrow> (string \<Rightarrow> 's \<Rightarrow> (int \<times> 's) res) \<Rightarrow> string \<Rightarrow> 's \<Rightarrow> 's res" where
  "trm_init trap main mainargs s = bindR (main mainargs s) (\<lambda>(ret, s). am_halt trap ret s)"

text \<open>The entry of \<^verbatim>\<open>mpe_init\<close> is not expected to return.\<close>

definition mpe_init :: "('s \<Rightarrow> 's res) \<Rightarrow> 's \<Rightarrow> 's res" where
  "mpe_init entry s = bindR (entry s) (\<lambda>s. Inl Panic)"

definition cpu_count :: int where "cpu_count = 1"
definition cpu_current :: int where "cpu_current = 0"

definition atomic_xchg :: "u32 \<Rightarrow> u32 \<Rightarrow> (u32 \<Rightarrow> u32) \<Rightarrow> u32 \<times> (u32 \<Rightarrow> u32)" where
  "atomic_xchg addr newval m = (m addr, m(addr := newval))"

end
