(* ===== verification/AM_IOE_Correct.thy ===== *)
theory AM_IOE_Correct
  imports AM_IOE
begin

text \<open>
  The abstract machine's devices on those of NEMU: what a program draws is in the frame buffer,
  a key NEMU is sent is the key the program reads, and the time it reads is one reading of NEMU's
  clock.
\<close>

section \<open>An interface: a frame buffer\<close>

text \<open>
  What drawing needs of the bus: writing a word of the frame buffer succeeds, puts the word there
  and leaves the other words alone.
\<close>

locale frame_buffer =
  fixes B :: "'s am_bus"
    and size :: nat
    and ok :: "'s \<Rightarrow> bool"
    and peek :: "nat \<Rightarrow> 's \<Rightarrow> u32"
  assumes out: "ok s \<Longrightarrow> k < size \<Longrightarrow> \<exists>s'. outl B (FB_ADDR + of_nat (4 * k)) v s = Inr s' \<and> ok s' \<and>
      (\<forall>q < size. peek q s' = (if q = k then v else peek q s))"
begin

lemma cols:
  "ok s \<Longrightarrow> sw * i + j + n \<le> size \<Longrightarrow> fb_x ctl = int x \<Longrightarrow> fb_y ctl = int y \<Longrightarrow> fb_w ctl = int w \<Longrightarrow>
   x \<le> j \<Longrightarrow> y \<le> i \<Longrightarrow> w * (i - y) + (j - x) + n \<le> length (fb_pixels ctl) \<Longrightarrow>
   \<exists>s'. fb_cols B ctl (of_nat sw) (int i) (int j) n s = Inr s' \<and> ok s' \<and>
     (\<forall>q < size. peek q s' = (if sw * i + j \<le> q \<and> q < sw * i + j + n
        then fb_pixels ctl ! (w * (i - y) + (j - x) + (q - (sw * i + j))) else peek q s))"
proof (induction n arbitrary: j s)
  case (Suc n)
  let ?k = "w * (i - y) + (j - x)"
  have k: "fb_w ctl * (int i - fb_y ctl) + (int j - fb_x ctl) = int ?k"
    using Suc.prems(3-7) by (simp add: of_nat_diff)
  have a: "fb_addr (of_nat sw) (int i) (int j) = FB_ADDR + of_nat (4 * (sw * i + j))"
    by (simp add: fb_addr_def)
  have l: "w * (i - y) + (j + 1 - x) + n \<le> length (fb_pixels ctl)"
    using Suc.prems(6,8) by simp
  obtain s1 where s1: "outl B (FB_ADDR + of_nat (4 * (sw * i + j))) (fb_pixels ctl ! ?k) s = Inr s1" "ok s1"
    "\<forall>q < size. peek q s1 = (if q = sw * i + j then fb_pixels ctl ! ?k else peek q s)"
    using out [OF Suc.prems(1), of "sw * i + j" "fb_pixels ctl ! ?k"] Suc.prems(2) by auto
  obtain s' where s': "fb_cols B ctl (of_nat sw) (int i) (int (j + 1)) n s1 = Inr s'" "ok s'"
    "\<forall>q < size. peek q s' = (if sw * i + (j + 1) \<le> q \<and> q < sw * i + (j + 1) + n
        then fb_pixels ctl ! (w * (i - y) + (j + 1 - x) + (q - (sw * i + (j + 1)))) else peek q s1)"
    using Suc.IH [OF s1(2) _ Suc.prems(3-5) _ Suc.prems(7) l] Suc.prems(2,6) by auto
  have "fb_cols B ctl (of_nat sw) (int i) (int j) (Suc n) s =
      guardR (0 \<le> int ?k \<and> nat (int ?k) < length (fb_pixels ctl)) Undef
       (bindR (outl B (FB_ADDR + of_nat (4 * (sw * i + j))) (fb_pixels ctl ! nat (int ?k)) s)
         (fb_cols B ctl (of_nat sw) (int i) (int j + 1) n))"
    by (simp only: fb_cols.simps Let_def k a)
  also have "\<dots> = bindR (outl B (FB_ADDR + of_nat (4 * (sw * i + j))) (fb_pixels ctl ! ?k) s)
         (fb_cols B ctl (of_nat sw) (int i) (int j + 1) n)"
  proof -
    have "?k < length (fb_pixels ctl)" using Suc.prems(8) by linarith
    then show ?thesis by (simp only: nat_int of_nat_0_le_iff simp_thms guardR_True)
  qed
  also have "\<dots> = Inr s'"
    using s'(1) by (simp only: s1(1) bindR_Inr of_nat_add of_nat_1)
  finally have "fb_cols B ctl (of_nat sw) (int i) (int j) (Suc n) s = Inr s'" .
  moreover have "peek q s' = (if sw * i + j \<le> q \<and> q < sw * i + j + Suc n
        then fb_pixels ctl ! (?k + (q - (sw * i + j))) else peek q s)" if "q < size" for q
  proof (cases "sw * i + (j + 1) \<le> q")
    case True
    then have "?k + (q - (sw * i + j)) = w * (i - y) + (j + 1 - x) + (q - (sw * i + (j + 1)))"
      using Suc.prems(6) by simp
    with True s'(3) s1(3) that show ?thesis by simp
  next
    case False
    with s'(3) s1(3) that show ?thesis by auto
  qed
  ultimately show ?case using s'(2) by blast
qed auto

lemma rows:
  "ok s \<Longrightarrow> sw * (i + n) \<le> size \<Longrightarrow> fb_x ctl = int x \<Longrightarrow> fb_y ctl = int y \<Longrightarrow> fb_w ctl = int w \<Longrightarrow>
   x + w \<le> sw \<Longrightarrow> y \<le> i \<Longrightarrow> w * (i - y + n) \<le> length (fb_pixels ctl) \<Longrightarrow>
   \<exists>s'. fb_rows B ctl (of_nat sw) (int i) n s = Inr s' \<and> ok s' \<and>
     (\<forall>r < n. \<forall>t < w. peek (sw * (i + r) + x + t) s' = fb_pixels ctl ! (w * (i - y + r) + t)) \<and>
     (\<forall>q < size. (\<forall>r < n. \<forall>t < w. q \<noteq> sw * (i + r) + x + t) \<longrightarrow> peek q s' = peek q s)"
proof (induction n arbitrary: i s)
  case (Suc n)
  have row: "sw * i + x + w \<le> sw * (i + 1)" using Suc.prems(6) by simp
  have "sw * (i + 1) \<le> sw * (i + Suc n)" by (rule mult_le_mono2) simp
  then have b: "sw * i + x + w \<le> size" using row Suc.prems(2) by linarith
  have "w * (i - y) + w \<le> w * (i - y + Suc n)" by (simp add: algebra_simps)
  then have l: "w * (i - y) + (x - x) + w \<le> length (fb_pixels ctl)" using Suc.prems(8) by linarith
  obtain s1 where s1: "fb_cols B ctl (of_nat sw) (int i) (int x) w s = Inr s1" "ok s1"
    "\<forall>q < size. peek q s1 = (if sw * i + x \<le> q \<and> q < sw * i + x + w
        then fb_pixels ctl ! (w * (i - y) + (x - x) + (q - (sw * i + x))) else peek q s)"
    using cols [OF Suc.prems(1) b Suc.prems(3-5) order_refl Suc.prems(7) l] by blast
  obtain s' where s': "fb_rows B ctl (of_nat sw) (int (i + 1)) n s1 = Inr s'" "ok s'"
    "\<forall>r < n. \<forall>t < w. peek (sw * (i + 1 + r) + x + t) s' = fb_pixels ctl ! (w * (i + 1 - y + r) + t)"
    "\<forall>q < size. (\<forall>r < n. \<forall>t < w. q \<noteq> sw * (i + 1 + r) + x + t) \<longrightarrow> peek q s' = peek q s1"
    using Suc.IH [OF s1(2) _ Suc.prems(3-6), of "i + 1"] Suc.prems(2,7,8) by (auto simp: Suc_diff_le)
  have later: "sw * i + x + t < sw * (i + 1 + r) + x + t'" if "t < w" for r t t'
  proof -
    have "sw * (i + 1) \<le> sw * (i + 1 + r)" by (rule mult_le_mono2) simp
    with row that show ?thesis by linarith
  qed
  have "fb_rows B ctl (of_nat sw) (int i) (Suc n) s = Inr s'"
    using s1(1) s'(1) Suc.prems(3,5) by (simp add: add.commute)
  moreover have "peek (sw * (i + r) + x + t) s' = fb_pixels ctl ! (w * (i - y + r) + t)"
    if "r < Suc n" "t < w" for r t
  proof (cases r)
    case 0
    have "\<forall>r < n. \<forall>t' < w. sw * i + x + t \<noteq> sw * (i + 1 + r) + x + t'"
      using later [OF that(2)] by (metis less_irrefl)
    with s'(4) s1(3) b that(2) 0 show ?thesis by simp
  next
    case (Suc r')
    with s'(3) that Suc.prems(7) show ?thesis by (simp add: Suc_diff_le)
  qed
  moreover have "peek q s' = peek q s" if "q < size" "\<forall>r < Suc n. \<forall>t < w. q \<noteq> sw * (i + r) + x + t" for q
  proof -
    have "\<forall>r < n. \<forall>t < w. q \<noteq> sw * (i + 1 + r) + x + t"
      using that(2) by (metis Suc_mono add_Suc_right add_Suc_shift Suc_eq_plus1)
    then have "peek q s' = peek q s1" using s'(4) that(1) by blast
    moreover have n: "\<not> (sw * i + x \<le> q \<and> q < sw * i + x + w)"
    proof
      assume a: "sw * i + x \<le> q \<and> q < sw * i + x + w"
      then have "q = sw * (i + 0) + x + (q - (sw * i + x))" "q - (sw * i + x) < w" by auto
      with that(2) show False by blast
    qed
    moreover have "peek q s1 = peek q s" using s1(3) that(1) if_not_P [OF n] by metis
    ultimately show ?thesis by simp
  qed
  ultimately show ?case using s'(2) by blast
qed simp

text \<open>Drawing without a sync, after the width of the screen has been read.\<close>

lemma fbdraw:
  assumes "inl B VGACTL_ADDR s = Inr (wh, s0)" "ok s0" "unat (drop_bit 16 wh) = sw"
    and "ctl = \<lparr>fb_x = int x, fb_y = int y, fb_pixels = ps, fb_w = int w, fb_h = int h, fb_sync = False\<rparr>"
    and "x + w \<le> sw" "sw * (y + h) \<le> size" "w * h \<le> length ps" "0 < w" "0 < h"
    and "x + w < 2 ^ 31" "y + h < 2 ^ 31"
  shows "\<exists>s'. am_gpu_fbdraw B ctl s = Inr s' \<and> ok s' \<and>
    (\<forall>r < h. \<forall>t < w. peek (sw * (y + r) + x + t) s' = ps ! (w * r + t)) \<and>
    (\<forall>q < size. (\<forall>r < h. \<forall>t < w. q \<noteq> sw * (y + r) + x + t) \<longrightarrow> peek q s' = peek q s0)"
proof -
  have d: "drop_bit 16 wh = of_nat sw" unfolding assms(3) [symmetric] by simp
  obtain s' where s': "fb_rows B ctl (of_nat sw) (int y) h s0 = Inr s'" "ok s'"
    "\<forall>r < h. \<forall>t < w. peek (sw * (y + r) + x + t) s' = ps ! (w * r + t)"
    "\<forall>q < size. (\<forall>r < h. \<forall>t < w. q \<noteq> sw * (y + r) + x + t) \<longrightarrow> peek q s' = peek q s0"
    using rows [OF assms(2), of sw y h ctl x y w] assms(4-7) by auto
  have "am_gpu_fbdraw B ctl s = Inr s'"
    using assms(1,4,8-11) s'(1) d by (simp add: am_gpu_fbdraw_def is_int_def)
  with s' show ?thesis by blast
qed

end

section \<open>NEMU's frame buffer implements it\<close>

text \<open>A region without a handler that holds \<open>n\<close> words from \<^verbatim>\<open>FB_ADDR\<close> on.\<close>

definition fb_ok :: "IOMap \<Rightarrow> nat \<Rightarrow> 'v sys \<Rightarrow> bool" where
  "fb_ok m n s \<longleftrightarrow> mmio_wf s \<and> m \<in> set (mmio_maps (io s)) \<and> map_callback m = None \<and> map_low m = FB_ADDR \<and>
     unat FB_ADDR + 4 * n \<le> unat (map_high m) + 1 \<and> map_space m + 4 * n \<le> clen (io_space (io s))"

definition fb_peek :: "IOMap \<Rightarrow> nat \<Rightarrow> 'v sys \<Rightarrow> u32" where
  "fb_peek m q s = (case io_rd32 (map_space m) q s of Inr w \<Rightarrow> w | Inl _ \<Rightarrow> 0)"

lemma fb_slot:
  assumes "k < n" "unat FB_ADDR + 4 * n \<le> unat (h :: u32) + 1"
  shows "unat (of_nat (4 * k) :: u32) = 4 * k" "FB_ADDR \<le> FB_ADDR + of_nat (4 * k)"
    "FB_ADDR + of_nat (4 * k) \<le> h"
proof -
  have "unat h < 2 ^ LENGTH(32)" by (rule unsigned_less)
  then have b: "4 * k < 2 ^ 32" "unat FB_ADDR + 4 * k < 2 ^ 32" using assms by simp_all
  show u: "unat (of_nat (4 * k) :: u32) = 4 * k"
    using b(1) by (simp only: unat_of_nat len_bit0 len_num1) (simp add: mod_less)
  have "unat (FB_ADDR + of_nat (4 * k)) = unat FB_ADDR + 4 * k"
    using b(2) by (subst unat_word_ariths(1)) (simp only: u, simp)
  then show "FB_ADDR \<le> FB_ADDR + of_nat (4 * k)" "FB_ADDR + of_nat (4 * k) \<le> h"
    using assms by (simp_all only: word_le_nat_alt)
qed

interpretation nemu_fb: frame_buffer "nemu_bus c" n "fb_ok m n" "fb_peek m" for c m n
proof
  fix s :: "'a sys" and k and v :: u32
  assume s: "fb_ok m n s" and k: "k < n"
  let ?a = "FB_ADDR + of_nat (4 * k)" and ?s = "difftest_skip_ref c s" and ?off = "map_space m + 4 * k"
  note h = s [unfolded fb_ok_def]
  note slot = fb_slot [OF k, of "map_high m"]
  have io: "io ?s = io s" by (simp add: difftest_skip_ref_def)
  have u: "?a - map_low m = of_nat (4 * k)" using h by simp
  have i: "map_inside m ?a" using h slot by (simp add: map_inside_def)
  have f: "fetch_mmio_map c ?a s = (Some m, ?s)"
    using h i by (intro fetch_mmio_map_owner) auto
  have p: "map_space m + unat (?a - map_low m) = ?off"
    unfolding u using slot(1) h by simp
  have fit: "io_fits m ?a 4 ?s" using p h k io by (simp add: io_fits_def)
  let ?s' = "?s\<lparr>io := (io s)\<lparr>io_space := arr_put (io_space (io s)) ?off (le_bytes 4 v)\<rparr>\<rparr>"
  have "outl (nemu_bus c) ?a v s = Inr ?s'"
    using map_write_plain [of c 4 m ?a ?s device_callback v] i h fit p io f
    by (simp add: nemu_bus_def mmio_write_def access_len_def)
  moreover have "fb_ok m n ?s'"
    using s io by (simp add: fb_ok_def mmio_wf_def)
  moreover have "fb_peek m q ?s' = (if q = k then v else fb_peek m q s)" for q
  proof -
    have w: "io_wr32 (map_space m) k v ?s = Inr ?s'"
      using fit p io by (simp add: io_wr32_def arr_store_def io_fits_def)
    have "io_rd32 (map_space m) q ?s = io_rd32 (map_space m) q s" by (simp add: io_rd32_def io)
    then show ?thesis
      using io_rd32_wr32_same [OF w] io_rd32_wr32_other [OF w, of q] by (simp add: fb_peek_def)
  qed
  ultimately show "\<exists>s'. outl (nemu_bus c) ?a v s = Inr s' \<and> fb_ok m n s' \<and>
      (\<forall>q < n. fb_peek m q s' = (if q = k then v else fb_peek m q s))" by blast
qed

section \<open>Reading a register of a device\<close>

lemma nemu_inl:
  assumes "mmio_wf s" "m \<in> set (mmio_maps (io s))" "map_inside m a" "a - map_low m = of_nat (4 * i)" "i < 1000"
  shows "inl (nemu_bus c) a s =
    bindR (invoke_callback device_callback (map_callback m) (of_nat (4 * i)) 4 False (difftest_skip_ref c s)) (\<lambda>s.
    bindR (io_rd32 (map_space m) i s) (\<lambda>w. Inr (w, s)))"
proof -
  have u: "unat (of_nat (4 * i) :: u32) = 4 * i"
    using assms(5) by (simp only: unat_of_nat len_bit0 len_num1) (simp add: mod_less)
  have "fetch_mmio_map c a s = (Some m, difftest_skip_ref c s)" using assms(1-3) by (rule fetch_mmio_map_owner)
  then have "inl (nemu_bus c) a s = map_read c device_callback a 4 (Some m) (difftest_skip_ref c s)"
    by (simp add: nemu_bus_def mmio_read_def)
  also have "\<dots> = bindR (invoke_callback device_callback (map_callback m) (of_nat (4 * i)) 4 False (difftest_skip_ref c s)) (\<lambda>s.
    bindR (host_read c (io_space (io s)) (map_space m + unat (of_nat (4 * i) :: u32)) 4) (\<lambda>w. Inr (w, s)))"
    using assms(3) unfolding map_read_def check_bound_def assms(4) [symmetric]
    by (simp add: map_inside_def Let_def)
  finally show ?thesis
    unfolding u by (simp add: io_rd32_def host_read_def bindR_assoc)
qed

section \<open>The clock\<close>

lemma rtc_handler_frame:
  "rtc_io_handler off n wr s = Inr s' \<Longrightarrow>
   mmio_maps (io s') = mmio_maps (io s) \<and> rtc_port_base (dev s') = rtc_port_base (dev s) \<and> mmio_wf s' = mmio_wf s"
  by (auto simp: rtc_io_handler_def get_time_def get_time_internal_def Let_def mmio_wf_def elim!: resE io_wr32E
      split: if_split_asm prod.split_asm)

lemma join_halves: "push_bit 32 (ucast (ucast (drop_bit 32 us) :: u32)) + ucast (ucast us :: u32) = (us :: u64)"
proof -
  have l: "ucast (ucast us :: u32) = take_bit 32 us" for us :: u64
    by (rule bit_word_eqI) (auto simp: bit_simps)
  have "ucast (ucast (drop_bit 32 us) :: u32) = drop_bit 32 us"
    by (rule bit_word_eqI) (auto simp: bit_simps dest: bit_imp_le_length)
  then show ?thesis using bits_ident [of 32 us] by (simp add: l)
qed

lemma am_uptime:
  fixes s :: "'v sys"
  assumes "mmio_wf s" "m \<in> set (mmio_maps (io s))" "map_low m = RTC_ADDR" "map_high m = RTC_ADDR + 7"
    and "map_callback m = Some RtcHandler" "map_space m = rtc_port_base (dev s)"
    and "rtc_port_base (dev s) + 8 \<le> clen (io_space (io s))" "boot_time s \<noteq> 0"
  shows "\<exists>s'. am_timer_uptime (nemu_bus c) s = Inr (clock s (clock_reads s) - boot_time s, s')"
proof -
  let ?s = "difftest_skip_ref c s" and ?us = "clock s (clock_reads s) - boot_time s"
  have i: "map_inside m (RTC_ADDR + 4)" "map_inside m RTC_ADDR" using assms(3,4) by (simp_all add: map_inside_def RTC_ADDR_def)
  have c: "clock ?s = clock s" "clock_reads ?s = clock_reads s" "boot_time ?s = boot_time s"
    by (simp_all add: difftest_skip_ref_def)
  obtain s1 where s1: "rtc_io_handler 4 4 False ?s = Inr s1"
    "io_rd32 (rtc_port_base (dev s1)) 0 s1 = Inr (ucast ?us)"
    "io_rd32 (rtc_port_base (dev s1)) 1 s1 = Inr (ucast (drop_bit 32 ?us))"
    using rtc_latch [of ?s ?us 4] assms(7,8) c by auto
  note f = rtc_handler_frame [OF s1(1)]
  have w: "mmio_wf ?s" using assms(1) by (simp add: mmio_wf_def)
  have r1: "inl (nemu_bus c) (RTC_ADDR + 4) s = Inr (ucast (drop_bit 32 ?us), s1)"
    using nemu_inl [OF assms(1,2) i(1), of 1 c] s1 f assms(3,5,6) by (simp add: invoke_callback_def)
  have "inl (nemu_bus c) RTC_ADDR s1 = Inr (ucast ?us, difftest_skip_ref c s1)"
    using nemu_inl [of s1 m RTC_ADDR 0 c] i(2) s1(2) f assms(2,3,5,6) w
    by (simp add: invoke_callback_def rtc_io_handler_def io_rd32_def)
  with r1 show ?thesis by (simp add: am_timer_uptime_def join_halves)
qed

section \<open>The keyboard\<close>

definition key_of :: "u32 \<Rightarrow> AM_INPUT_KEYBRD_T" where
  "key_of x = \<lparr>keydown = (x AND 0x8000 \<noteq> 0), keycode = sint (x AND NOT 0x8000)\<rparr>"

text \<open>The keyboard's data register is the region \<open>m\<close>.\<close>

definition kbd_ok :: "IOMap \<Rightarrow> 'v sys \<Rightarrow> bool" where
  "kbd_ok m s \<longleftrightarrow> mmio_wf s \<and> m \<in> set (mmio_maps (io s)) \<and> map_low m = KBD_ADDR \<and> map_high m = KBD_ADDR + 3 \<and>
     map_callback m = Some I8042Handler \<and> map_space m = i8042_data_port_base (kbd (dev s)) \<and>
     map_space m + 4 \<le> clen (io_space (io s)) \<and> key_inv (kbd (dev s))"

lemma sys_io_skip: "io (difftest_skip_ref c s) = io s"
  by (simp add: difftest_skip_ref_def)

lemma am_keybrd:
  assumes "kbd_ok m s" "pending_keys (kbd (dev s)) = x # xs"
  shows "\<exists>s'. am_input_keybrd (nemu_bus c) s = Inr (key_of x, s') \<and> kbd_ok m s' \<and>
    pending_keys (kbd (dev s')) = xs"
proof -
  let ?s = "difftest_skip_ref c s"
  note ok = assms(1) [unfolded kbd_ok_def]
  have i: "map_inside m KBD_ADDR" using ok by (simp add: map_inside_def KBD_ADDR_def)
  obtain k where k: "key_dequeue (kbd (dev s)) = (x, k)" "key_inv k" "pending_keys k = xs"
    using key_dequeue_ok [OF _ assms(2)] ok by blast
  have b: "i8042_data_port_base k = map_space m"
    using k(1) ok by (auto simp: key_dequeue_def split: if_split_asm)
  obtain s1 where s1: "io_wr32 (map_space m) 0 x (?s\<lparr>dev := (dev ?s)\<lparr>kbd := k\<rparr>\<rparr>) = Inr s1" "kbd (dev s1) = k"
    using ok by (auto simp: io_wr32_def arr_store_def)
  have h: "i8042_data_io_handler 0 4 False ?s = Inr s1"
    using s1(1) k(1) b by (simp add: i8042_data_io_handler_def)
  obtain a where a: "s1 = ?s\<lparr>dev := (dev ?s)\<lparr>kbd := k\<rparr>, io := (io ?s)\<lparr>io_space := a\<rparr>\<rparr>" "clen a = clen (io_space (io s))"
    by (rule io_wr32E [OF s1(1)]) (simp add: sys_io_skip)
  have w: "kbd_ok m s1"
    using ok b k(2) unfolding a(1) kbd_ok_def mmio_wf_def by (simp add: a(2))
  have "inl (nemu_bus c) KBD_ADDR s = Inr (x, s1)"
    using nemu_inl [of s m KBD_ADDR 0 c] i ok h io_rd32_wr32_same [OF s1(1)]
    by (simp add: invoke_callback_def)
  then show ?thesis using s1(2) k(3) w by (simp add: am_input_keybrd_def key_of_def AM_KEYDOWN_MASK_def)
qed

text \<open>A program that reads the keyboard \<open>n\<close> times.\<close>

fun keybrd_reads :: "'s am_bus \<Rightarrow> nat \<Rightarrow> 's \<Rightarrow> (AM_INPUT_KEYBRD_T list \<times> 's) res" where
  "keybrd_reads B 0 s = Inr ([], s)"
| "keybrd_reads B (Suc n) s =
     bindR (am_input_keybrd B s) (\<lambda>(k, s). bindR (keybrd_reads B n s) (\<lambda>(ks, s). Inr (k # ks, s)))"

lemma keybrd_reads_pending:
  "kbd_ok m s \<Longrightarrow> pending_keys (kbd (dev s)) = xs \<Longrightarrow>
   \<exists>s'. keybrd_reads (nemu_bus c) (length xs) s = Inr (map key_of xs, s') \<and> kbd_ok m s' \<and>
     pending_keys (kbd (dev s')) = []"
proof (induction xs arbitrary: s)
  case (Cons x xs)
  obtain s1 where s1: "am_input_keybrd (nemu_bus c) s = Inr (key_of x, s1)" "kbd_ok m s1"
    "pending_keys (kbd (dev s1)) = xs"
    using am_keybrd [OF Cons.prems, of c] by blast
  obtain s' where "keybrd_reads (nemu_bus c) (length xs) s1 = Inr (map key_of xs, s')" "kbd_ok m s'"
    "pending_keys (kbd (dev s')) = []"
    using Cons.IH [OF s1(2,3)] by blast
  with s1(1) show ?case by simp
qed simp

lemma send_key_ok:
  assumes "kbd_ok m s" "nstate (nemu s) = NEMU_RUNNING" "keymap (kbd (dev s)) ! unat sc = key"
    and "key \<noteq> NEMU_KEY_NONE" "pending_keys (kbd (dev s)) = xs" "length xs < KEY_QUEUE_LEN - 1"
  shows "\<exists>s'. send_key sc down s = Inr s' \<and> kbd_ok m s' \<and>
    pending_keys (kbd (dev s')) = xs @ [key OR (if down then KEYDOWN_MASK else 0)]"
proof -
  let ?x = "key OR (if down then KEYDOWN_MASK else 0)"
  have i: "key_inv (kbd (dev s))" "key_count (kbd (dev s)) < KEY_QUEUE_LEN - 1"
    using assms(1,5,6) by (auto simp: kbd_ok_def)
  obtain k where k: "key_enqueue ?x (kbd (dev s)) = Inr k" "key_inv k" "pending_keys k = xs @ [?x]"
    using key_enqueue_ok [OF i, of ?x] assms(5) by blast
  have "i8042_data_port_base k = i8042_data_port_base (kbd (dev s))"
    using k(1) by (auto simp: key_enqueue_def Let_def res_simps)
  then have "kbd_ok m (s\<lparr>dev := (dev s)\<lparr>kbd := k\<rparr>\<rparr>)"
    using assms(1) k(2) by (simp add: kbd_ok_def mmio_wf_def)
  then show ?thesis using assms(2-4) k(1,3) by (simp add: send_key_def Let_def)
qed

text \<open>The key names of the two sides are numbered alike.\<close>

lemma same_keys: "AM_KEYS = NEMU_KEYS"
  by (simp add: AM_KEYS_def NEMU_KEYS_def)

lemma key_of_sent:
  assumes "key < 0x8000"
  shows "key_of (key OR (if down then KEYDOWN_MASK else 0)) = \<lparr>keydown = down, keycode = uint key\<rparr>"
proof -
  have b: "\<not> bit key n" if "15 \<le> n" for n
  proof -
    have "take_bit 15 key = key" using assms 
      by (intro word_unat_eq_iff [THEN iffD2])
        (simp add: unsigned_take_bit_eq word_less_nat_alt take_bit_nat_eq_self)
    then show ?thesis using that by (metis bit_take_bit_iff not_le)
  qed
  define d :: u32 where "d = 0x8000"
  have m: "bit d n \<longleftrightarrow> n = 15" for n
    using bit_exp_iff [of 15 n, where 'a = "32 word"] by (auto simp: possible_bit_def d_def)
  have k0: "key AND d = 0" by (rule bit_word_eqI) (auto simp: bit_simps m b)
  have k1: "(key OR d) AND d = d" "(key OR d) AND NOT d = key" "key AND NOT d = key"
    by (rule bit_word_eqI; auto simp: bit_simps m b)+
  have "sint key = uint key" using assms sint_small [of key] by (simp add: word_less_nat_alt)
  with k0 k1 show ?thesis by (simp add: key_of_def KEYDOWN_MASK_def d_def)
qed

end
