(* ===== verification/AM_Ports.thy ===== *)
theory AM_Ports
  imports AM_Context
begin

text \<open>
  The other ports of the abstract machine: exceptions and address spaces on MIPS32
  (\<^verbatim>\<open>am/src/mips/nemu\<close>) and LoongArch32r (\<^verbatim>\<open>am/src/loongarch/nemu\<close>), and the runtime of the chip
  (\<^verbatim>\<open>am/src/riscv/ysyxsoc/trm.c\<close>) with its UART and boot loader. Memory is a store of words for the
  former and of bytes for the latter.
\<close>

section \<open>MIPS32: exceptions\<close>

text \<open>\<open>ex_code\<close> is always 0, so every exception is an error.\<close>

definition mips_irq_handle :: "event_handler option \<Rightarrow> u32 \<Rightarrow> cmem \<Rightarrow> (u32 \<times> cmem) res" where
  "mips_irq_handle user_handler c m =
     (case user_handler of
        None \<Rightarrow> Inr (c, m)
      | Some f \<Rightarrow>
          bindR (f (zero_event\<lparr>event := EVENT_ERROR\<rparr>) c m) (\<lambda>(c, m).
          guardR (c \<noteq> 0) AssertFail (Inr (c, m))))"

definition EX_ENTRY :: u32 where
  "EX_ENTRY = 0x80000180"

definition mips_j_instr :: "u32 \<Rightarrow> u32" where
  "mips_j_instr trap = 0x08000000 OR (drop_bit 2 trap AND 0x3ffffff)"

text \<open>A jump to \<^verbatim>\<open>__am_asm_trap\<close> is stored at both entries, a \<^verbatim>\<open>nop\<close> in its delay slot.\<close>

definition mips_cte_init :: "u32 \<Rightarrow> event_handler \<Rightarrow> cmem \<Rightarrow> (bool \<times> event_handler option \<times> cmem) res" where
  "mips_cte_init trap handler m =
     (let instr = mips_j_instr trap in
      bindR (mstore EX_ENTRY instr m) (\<lambda>m.
      bindR (mstore (EX_ENTRY + 4) 0 m) (\<lambda>m.
      bindR (mstore 0x80000000 instr m) (\<lambda>m.
      bindR (mstore (0x80000000 + 4) 0 m) (\<lambda>m.
      Inr (True, Some handler, m))))))"

definition mips_kcontext :: "u32 \<Rightarrow> u32 \<Rightarrow> u32 \<Rightarrow> u32" where
  "mips_kcontext kend entry arg = 0"

definition mips_ienabled :: bool where
  "mips_ienabled = False"

definition mips_iset :: "bool \<Rightarrow> 's \<Rightarrow> 's" where
  "mips_iset enable s = s"

section \<open>MIPS32: address spaces\<close>

record 'h port_vme =
  pv_pgalloc :: "'h pgalloc option"
  pv_pgs :: 'h
  pv_enable :: bool
  cur_pdir :: u32

definition mips_vme_init :: "'h pgalloc \<Rightarrow> 'h port_vme \<Rightarrow> bool \<times> 'h port_vme" where
  "mips_vme_init f s = (True, s\<lparr>pv_pgalloc := Some f, pv_enable := True\<rparr>)"

definition mips_protect :: "AddrSpace \<Rightarrow> 'h port_vme \<Rightarrow> (AddrSpace \<times> 'h port_vme) res" where
  "mips_protect as s =
     (case pv_pgalloc s of
        None \<Rightarrow> Inl Undef
      | Some f \<Rightarrow>
          let (p, h) = f 4096 (pv_pgs s) in
          Inr (as\<lparr>as_ptr := p, pgsize := PGSIZE, area_start := 0x40000000, area_end := 0x80000000\<rparr>,
               s\<lparr>pv_pgs := h\<rparr>))"

text \<open>\<open>pd\<close> is the address of the context's \<^verbatim>\<open>pdir\<close>.\<close>

definition mips_get_cur_as :: "u32 \<Rightarrow> 'h port_vme \<Rightarrow> cmem \<Rightarrow> cmem res" where
  "mips_get_cur_as pd s m = mstore pd (if pv_enable s then cur_pdir s else 0) m"

definition mips_switch :: "u32 \<Rightarrow> cmem \<Rightarrow> 'h port_vme \<Rightarrow> 'h port_vme res" where
  "mips_switch pd m s =
     (if pv_enable s
      then bindR (mload pd m) (\<lambda>p. Inr (if p \<noteq> 0 then s\<lparr>cur_pdir := p\<rparr> else s))
      else Inr s)"

definition mips_map :: "u32 \<Rightarrow> u32 \<Rightarrow> int \<Rightarrow> 's \<Rightarrow> 's" where
  "mips_map va pa prot s = s"

definition mips_ucontext :: "u32 \<Rightarrow> u32 \<Rightarrow> u32" where
  "mips_ucontext kend entry = 0"

section \<open>LoongArch32r\<close>

text \<open>
  \<^verbatim>\<open>__am_irq_handle\<close> of this port does not compile (it switches over an undeclared name). The CSR
  written by \<^verbatim>\<open>cte_init\<close>, number \<^verbatim>\<open>0xc\<close>, is the exception entry.
\<close>

definition la_cte_init :: "u32 \<Rightarrow> event_handler \<Rightarrow> (u32 \<Rightarrow> u32) \<Rightarrow>
    bool \<times> event_handler option \<times> (u32 \<Rightarrow> u32)" where
  "la_cte_init trap handler csrs = (True, Some handler, csrs(0xc := trap))"

definition la_kcontext :: "u32 \<Rightarrow> u32 \<Rightarrow> u32 \<Rightarrow> u32" where
  "la_kcontext kend entry arg = 0"

definition la_ienabled :: bool where
  "la_ienabled = False"

definition la_iset :: "bool \<Rightarrow> 's \<Rightarrow> 's" where
  "la_iset enable s = s"

definition la_vme_init :: "'h pgalloc \<Rightarrow> 'h port_vme \<Rightarrow> bool \<times> 'h port_vme" where
  "la_vme_init f s = (True, s\<lparr>pv_pgalloc := Some f, pv_enable := True\<rparr>)"

definition la_protect :: "AddrSpace \<Rightarrow> 'h port_vme \<Rightarrow> (AddrSpace \<times> 'h port_vme) res" where
  "la_protect as s =
     (case pv_pgalloc s of
        None \<Rightarrow> Inl Undef
      | Some f \<Rightarrow>
          let (p, h) = f 4096 (pv_pgs s) in
          Inr (as\<lparr>as_ptr := p, pgsize := PGSIZE, area_start := 0x40000000, area_end := 0x80000000\<rparr>,
               s\<lparr>pv_pgs := h\<rparr>))"

definition la_get_cur_as :: "u32 \<Rightarrow> 'h port_vme \<Rightarrow> cmem \<Rightarrow> cmem res" where
  "la_get_cur_as pd s m = mstore pd (if pv_enable s then cur_pdir s else 0) m"

definition la_switch :: "u32 \<Rightarrow> cmem \<Rightarrow> 'h port_vme \<Rightarrow> 'h port_vme res" where
  "la_switch pd m s =
     (if pv_enable s
      then bindR (mload pd m) (\<lambda>p. Inr (if p \<noteq> 0 then s\<lparr>cur_pdir := p\<rparr> else s))
      else Inr s)"

section \<open>The chip: UART\<close>

record 's soc_bus =
  soc_inb :: "u32 \<Rightarrow> 's \<Rightarrow> (u8 \<times> 's) res"
  soc_outb :: "u32 \<Rightarrow> u8 \<Rightarrow> 's \<Rightarrow> 's res"

definition UART_BASE :: u32 where "UART_BASE = 0x10000000"
definition UART_DLL :: u32 where "UART_DLL = UART_BASE"
definition UART_DLH :: u32 where "UART_DLH = UART_BASE + 1"
definition UART_LCR :: u32 where "UART_LCR = UART_BASE + 3"
definition UART_LSR :: u32 where "UART_LSR = UART_BASE + 5"
definition UART_THR :: u32 where "UART_THR = UART_BASE"

text \<open>The mask contains the base address by mistake; the byte read has no bits there.\<close>

definition UART_LSR_EMPTY_MASK :: u32 where "UART_LSR_EMPTY_MASK = UART_BASE + 0x20"

definition init_uart :: "'s soc_bus \<Rightarrow> 's \<Rightarrow> 's res" where
  "init_uart B s =
     bindR (soc_outb B UART_LCR 0x80 s) (\<lambda>s.
     bindR (soc_outb B UART_DLH 0x00 s) (\<lambda>s.
     bindR (soc_outb B UART_DLL 0x08 s) (\<lambda>s.
     soc_outb B UART_LCR 0x03 s)))"

text \<open>The busy-waiting loop; \<open>None\<close> if the device is never ready.\<close>

partial_function (option) uart_wait :: "'s soc_bus \<Rightarrow> 's \<Rightarrow> 's res option" where
  "uart_wait B s =
     (case soc_inb B UART_LSR s of
        Inl e \<Rightarrow> Some (Inl e)
      | Inr p \<Rightarrow> if ucast (fst p) AND UART_LSR_EMPTY_MASK = 0 then uart_wait B (snd p)
                else Some (Inr (snd p)))"

definition soc_putch :: "'s soc_bus \<Rightarrow> u8 \<Rightarrow> 's \<Rightarrow> 's res option" where
  "soc_putch B ch s =
     (case uart_wait B s of
        None \<Rightarrow> None
      | Some r \<Rightarrow> Some (bindR r (soc_outb B UART_THR ch)))"

text \<open>\<^verbatim>\<open>print_ysyxCSR\<close>: the bytes of three CSRs, most significant first.\<close>

fun soc_puts :: "'s soc_bus \<Rightarrow> u8 list \<Rightarrow> 's \<Rightarrow> 's res option" where
  "soc_puts B [] s = Some (Inr s)"
| "soc_puts B (ch # cs) s =
     (case soc_putch B ch s of
        None \<Rightarrow> None | Some (Inl e) \<Rightarrow> Some (Inl e) | Some (Inr s) \<Rightarrow> soc_puts B cs s)"

definition csr_bytes :: "u32 \<Rightarrow> u8 list" where
  "csr_bytes v = [ucast (drop_bit 24 v), ucast (drop_bit 16 v), ucast (drop_bit 8 v), ucast v]"

definition print_ysyxCSR :: "'s soc_bus \<Rightarrow> (u32 \<Rightarrow> u32) \<Rightarrow> 's \<Rightarrow> 's res option" where
  "print_ysyxCSR B csrs s =
     soc_puts B (csr_bytes (csrs 0xfc0) @ csr_bytes (csrs 0xfc1) @ csr_bytes (csrs 0xfc2)) s"

section \<open>The chip: boot loader\<close>

type_synonym bmem = "u32 \<Rightarrow> u8"

lemma unat_next:
  fixes i en :: u32
  assumes "i < en"
  shows "unat (i + 1) = unat i + 1"
proof -
  have "unat en < 2 ^ LENGTH(32)" by (rule unsigned_less)
  then have "unat i + 1 < 2 ^ 32" using assms by (simp add: word_less_nat_alt)
  then show ?thesis by (subst unat_word_ariths(1)) simp
qed

function copy_data :: "u32 \<Rightarrow> u32 \<Rightarrow> u32 \<Rightarrow> bmem \<Rightarrow> bmem" where
  "copy_data i en p m = (if i < en then copy_data (i + 1) en (p + 1) (m(i := m p)) else m)"
  by pat_completeness auto

termination
  by (relation "measure (\<lambda>(i, en, p, m). unat en - unat i)")
    (auto simp: unat_next word_less_nat_alt)

function zero_bss :: "u32 \<Rightarrow> u32 \<Rightarrow> bmem \<Rightarrow> bmem" where
  "zero_bss i en m = (if i < en then zero_bss (i + 1) en (m(i := 0)) else m)"
  by pat_completeness auto

termination
  by (relation "measure (\<lambda>(i, en, m). unat en - unat i)")
    (auto simp: unat_next word_less_nat_alt)

declare copy_data.simps [simp del] zero_bss.simps [simp del]

text \<open>The symbols of the linker script.\<close>

record soc_layout =
  m_data_start :: u32
  data_start :: u32
  data_end :: u32
  bss_start :: u32
  bss_end :: u32

definition bootloader :: "soc_layout \<Rightarrow> bmem \<Rightarrow> bmem" where
  "bootloader L m =
     zero_bss (bss_start L) (bss_end L) (copy_data (data_start L) (data_end L) (m_data_start L) m)"

text \<open>\<open>main\<close> is the program, \<open>trap\<close> what \<^verbatim>\<open>ebreak\<close> does with the code in \<^verbatim>\<open>a0\<close>.\<close>

definition soc_trm_init :: "(u32 \<Rightarrow> bmem \<Rightarrow> 'r res) \<Rightarrow> (bmem \<Rightarrow> (int \<times> bmem) res) \<Rightarrow> soc_layout \<Rightarrow>
    bmem \<Rightarrow> 'r res" where
  "soc_trm_init trap main L m = bindR (main (bootloader L m)) (\<lambda>(ret, m). trap (of_int ret) m)"

end
