(* ===== verification/AM_Ports_Correct.thy ===== *)
theory AM_Ports_Correct
  imports AM_Ports AM_Context_Correct
begin

text \<open>
  The chip's boot loader and UART, and the entry code of the MIPS32 port.
\<close>

section \<open>The boot loader\<close>

text \<open>\<open>inside a st en\<close>: the address is in the half-open range.\<close>

definition inside :: "u32 \<Rightarrow> u32 \<Rightarrow> u32 \<Rightarrow> bool" where
  "inside a st en \<longleftrightarrow> st \<le> a \<and> a < en"

lemma inside_step: "i < en \<Longrightarrow> inside a i en \<longleftrightarrow> a = i \<or> inside a (i + 1) en"
  by (auto simp: inside_def unat_next word_le_nat_alt word_less_nat_alt word_unat_eq_iff)

text \<open>
  Copying ranges of which the destination does not meet the part of the source still to be read:
  the range becomes a copy of the source, everything else stays.
\<close>

lemma copy_data_ok:
  "(\<And>b. inside b i en \<Longrightarrow> \<not> inside (p + (b - i)) i en) \<Longrightarrow>
   copy_data i en p m = (\<lambda>a. if inside a i en then m (p + (a - i)) else m a)"
proof (induction i en p m rule: copy_data.induct)
  case (1 i en p m)
  show ?case
  proof (cases "i < en")
    case True
    have d: "\<not> inside (p + 1 + (b - (i + 1))) i en" if "inside b (i + 1) en" for b
      using "1.prems" [of b] that inside_step [OF True, of b] by simp
    have IH: "copy_data (i + 1) en (p + 1) (m(i := m p)) =
        (\<lambda>a. if inside a (i + 1) en then (m(i := m p)) (p + 1 + (a - (i + 1))) else (m(i := m p)) a)"
      using d inside_step [OF True] by (intro "1.IH" [OF True]) blast
    have sh: "p + 1 + (a - (i + 1)) = p + (a - i)" for a by simp
    have ne: "(m(i := m p)) (p + (a - i)) = m (p + (a - i))" if "inside a (i + 1) en" for a
    proof -
      have "inside a i en" using that inside_step [OF True, of a] by simp
      then have "\<not> inside (p + (a - i)) i en" by (rule "1.prems")
      moreover have "inside i i en" using True by (simp add: inside_def)
      ultimately have "p + (a - i) \<noteq> i" by metis
      then show ?thesis by (rule fun_upd_other)
    qed
    have i: "\<not> inside i (i + 1) en"
      using unat_next [OF True] by (auto simp: inside_def word_le_nat_alt)
    show ?thesis
    proof
      fix a
      consider "a = i" | "inside a (i + 1) en" "a \<noteq> i" | "\<not> inside a i en" "a \<noteq> i" "\<not> inside a (i + 1) en"
        using inside_step [OF True, of a] by blast
      then show "copy_data i en p m a = (if inside a i en then m (p + (a - i)) else m a)"
      proof cases
        case 1
        then show ?thesis using i inside_step [OF True, of i] True by (subst copy_data.simps) (simp add: IH)
      next
        case 2
        then have "inside a i en" using inside_step [OF True, of a] by simp
        with 2 show ?thesis using True by (subst copy_data.simps) (simp only: IH sh ne if_True)
      next
        case 3
        then show ?thesis using True by (subst copy_data.simps) (simp add: IH)
      qed
    qed
  next
    case False
    then show ?thesis by (subst copy_data.simps) (auto simp: inside_def fun_eq_iff)
  qed
qed

lemma zero_bss_ok: "zero_bss i en m = (\<lambda>a. if inside a i en then 0 else m a)"
proof (induction i en m rule: zero_bss.induct)
  case (1 i en m)
  show ?case
  proof (cases "i < en")
    case True
    then show ?thesis
      using inside_step [OF True] by (subst zero_bss.simps) (auto simp: "1.IH" [OF True] fun_eq_iff)
  next
    case False
    then show ?thesis by (subst zero_bss.simps) (auto simp: inside_def fun_eq_iff)
  qed
qed

text \<open>The program's data starts as it is in flash, its other variables at zero.\<close>

lemma bootloader_loads:
  assumes "\<And>b. inside b (data_start L) (data_end L) \<Longrightarrow>
      \<not> inside (m_data_start L + (b - data_start L)) (data_start L) (data_end L)"
  shows "bootloader L m a =
    (if inside a (bss_start L) (bss_end L) then 0
     else if inside a (data_start L) (data_end L) then m (m_data_start L + (a - data_start L)) else m a)"
  using assms by (simp add: bootloader_def zero_bss_ok copy_data_ok)

section \<open>The UART\<close>

text \<open>The wrong mask tests the same bit.\<close>

lemma uart_mask: "ucast (v :: u8) AND UART_LSR_EMPTY_MASK = 0 \<longleftrightarrow> \<not> bit v 5"
proof -
  define d e :: u32 where "d = 0x20" and "e = 0x10000000"
  have d: "bit d n \<longleftrightarrow> n = 5" for n
    using bit_exp_iff [of 5 n, where 'a = "32 word"] by (auto simp: possible_bit_def d_def)
  have e: "bit e n \<longleftrightarrow> n = 28" for n
    using bit_exp_iff [of 28 n, where 'a = "32 word"] by (auto simp: possible_bit_def e_def)
  have m: "UART_LSR_EMPTY_MASK = d OR e"
    by (simp add: UART_LSR_EMPTY_MASK_def UART_BASE_def d_def e_def)
  have "bit (ucast v AND UART_LSR_EMPTY_MASK) n \<longleftrightarrow> n = 5 \<and> bit v 5" for n
    unfolding m using bit_imp_le_length [of v 28] by (auto simp: bit_simps d e)
  then have *: "bit (ucast v AND UART_LSR_EMPTY_MASK) n \<longleftrightarrow> n = 5 \<and> bit v 5" for n .
  show ?thesis
  proof
    assume "ucast v AND UART_LSR_EMPTY_MASK = 0"
    with * [of 5] show "\<not> bit v 5" by simp
  next
    assume "\<not> bit v 5"
    with * show "ucast v AND UART_LSR_EMPTY_MASK = 0" by (intro bit_word_eqI) simp
  qed
qed

text \<open>The device becomes ready after some number of polls.\<close>

inductive ready_after :: "'s soc_bus \<Rightarrow> 's \<Rightarrow> 's \<Rightarrow> bool" for B where
  ready_now: "soc_inb B UART_LSR s = Inr (v, s') \<Longrightarrow> bit v 5 \<Longrightarrow> ready_after B s s'"
| ready_later: "soc_inb B UART_LSR s = Inr (v, s1) \<Longrightarrow> \<not> bit v 5 \<Longrightarrow> ready_after B s1 s' \<Longrightarrow> ready_after B s s'"

lemma uart_wait_ready: "ready_after B s s' \<Longrightarrow> uart_wait B s = Some (Inr s')"
  by (induction rule: ready_after.induct) (subst uart_wait.simps, simp add: uart_mask)+

lemma soc_putch_ready:
  "ready_after B s s1 \<Longrightarrow> soc_putch B ch s = Some (soc_outb B UART_THR ch s1)"
  by (simp add: soc_putch_def uart_wait_ready)

section \<open>The MIPS32 exception entry\<close>

text \<open>The target of a jump at \<open>a\<close>: the upper bits of the next instruction's address.\<close>

definition j_target :: "u32 \<Rightarrow> u32 \<Rightarrow> u32" where
  "j_target a instr = (a + 4 AND 0xf0000000) OR push_bit 2 (instr AND 0x3ffffff)"

lemma mips_j_target:
  assumes "aligned trap" "a + 4 AND 0xf0000000 = trap AND 0xf0000000"
  shows "j_target a (mips_j_instr trap) = trap"
proof -
  define k j h :: u32 where "k = 0x3ffffff" and "j = 0x08000000" and "h = 0xf0000000"
  have k: "bit k n \<longleftrightarrow> n < 26" for n
    using bit_mask_iff [of 26 n, where 'a = "32 word"]
    by (auto simp: possible_bit_def k_def mask_eq_exp_minus_1)
  have j: "bit j n \<longleftrightarrow> n = 27" for n
    using bit_exp_iff [of 27 n, where 'a = "32 word"] by (auto simp: possible_bit_def j_def)
  have "h = NOT (mask 28)" by (simp add: h_def mask_eq_exp_minus_1)
  then have h: "bit h n \<longleftrightarrow> 28 \<le> n \<and> n < 32" for n
    by (auto simp: bit_not_iff_eq bit_mask_iff possible_bit_def)
  have t: "\<not> bit trap n" if "n < 2" for n
  proof -
    have "take_bit 2 trap = 0"
      using assms(1) by (simp add: aligned_def take_bit_eq_mask mask_eq_exp_minus_1)
    then show ?thesis using that by (metis bit_0_eq bit_take_bit_iff bot_apply bot_bool_def)
  qed
  show ?thesis
    unfolding j_target_def assms(2) mips_j_instr_def
    unfolding k_def [symmetric] j_def [symmetric] h_def [symmetric]
  proof (rule bit_word_eqI, goal_cases)
    case (1 n)
    note n = 1
    show ?case
    proof (cases "n < 2")
      case True
      then show ?thesis using t by (simp add: bit_or_iff bit_and_iff bit_push_bit_iff h)
    next
      case False
      then obtain q where "n = q + 2" by (metis le_add_diff_inverse2 not_less)
      then show ?thesis using n
        by (auto simp: bit_or_iff bit_and_iff bit_push_bit_iff bit_drop_bit_eq h j k possible_bit_def)
    qed
  qed
qed

lemma mips_cte_init_jumps:
  assumes "aligned trap" "trap AND 0xf0000000 = 0x80000000"
  shows "\<exists>m'. mips_cte_init trap f m = Inr (True, Some f, m') \<and>
    j_target EX_ENTRY (m' EX_ENTRY) = trap \<and> j_target 0x80000000 (m' 0x80000000) = trap \<and>
    m' (EX_ENTRY + 4) = 0 \<and> m' 0x80000004 = 0"
proof -
  have a: "aligned EX_ENTRY" "aligned (EX_ENTRY + 4)" "aligned 0x80000000" "aligned 0x80000004"
    by (simp_all add: aligned_def EX_ENTRY_def)
  have "j_target EX_ENTRY (mips_j_instr trap) = trap" "j_target 0x80000000 (mips_j_instr trap) = trap"
    using assms by (auto intro!: mips_j_target simp: EX_ENTRY_def)
  with a show ?thesis by (simp add: mips_cte_init_def Let_def EX_ENTRY_def)
qed

section \<open>Address spaces\<close>

lemma port_switch_back:
  assumes "pv_enable s" "aligned pd" "m pd \<noteq> 0"
  shows "\<exists>s'. mips_switch pd m s = Inr s' \<and> mips_get_cur_as pd s' m = Inr m \<and> la_switch pd m s = Inr s'"
  using assms by (simp add: mips_switch_def mips_get_cur_as_def la_switch_def)

end
