(* ===== verification/AM_Properties.thy ===== *)
theory AM_Properties
  imports Samples AM_Context_Correct AM_IOE_Correct AM_Ports_Correct
begin

text \<open>
  What the abstract machine promises its programs: threads resume where they yielded, new threads
  start at their entry, and NEMU's devices are read and drawn on through \<^verbatim>\<open>ioe\<close>.
\<close>

section \<open>Threads\<close>

definition sample_thread :: riscv32_CPU_state where
  "sample_thread = \<lparr>gpr = (replicate 32 5)[0 := 0, 2 := 0x3090], pc = 0,
     csr = \<lparr>mcause = 0xb, mepc = 0x30000010, mstatus = 0x1800, mtvec = 0\<rparr>\<rparr>"

definition sample_thread2 :: riscv32_CPU_state where
  "sample_thread2 = sample_thread\<lparr>gpr := (replicate 32 6)[0 := 0, 2 := 0x2090]\<rparr>"

lemma sample_threads: "yielding 32 0x3000 sample_thread" "yielding 32 0x2000 sample_thread2"
  by (simp_all add: yielding_def sample_thread_def sample_thread2_def sizeof_Context_def aligned_def
      numeral_eq_Suc)

text \<open>
  C22: A thread that yields resumes exactly as it was. If the scheduler switches a yielding thread
  to a context \<open>c2\<close>, the core continues there with the registers of that context; and if later
  any other thread yields, the first thread's frame untouched, and the scheduler returns to it, all
  its registers have the values they had and it continues after its \<^verbatim>\<open>ecall\<close>.
\<close>

theorem yield_resumes:
  assumes "16 \<le> nr" "nr \<le> 32" "yielding nr c k" "c \<noteq> 0" "c2 \<noteq> 0"
    and "is_context nr m c2 rs status p" "frame nr c \<inter> frame nr c2 = {}"
  shows "\<exists>k1 m1. am_asm_trap nr (Some (switch_to c2)) k m = Inr (k1, m1) \<and> pc k1 = p \<and>
    gpr k1 ! 2 = c2 + sizeof_Context nr \<and> (\<forall>n < nr. n \<noteq> 0 \<and> n \<noteq> 2 \<longrightarrow> gpr k1 ! n = rs ! n) \<and>
    (\<forall>d kd md. yielding nr d kd \<longrightarrow> frame nr d \<inter> frame nr c = {} \<longrightarrow> (\<forall>a \<in> frame nr c. md a = m1 a) \<longrightarrow>
      (\<exists>k2 m2. am_asm_trap nr (Some (switch_to c)) kd md = Inr (k2, m2) \<and> gpr k2 = gpr k \<and>
        pc k2 = mepc (csr k) + 4 \<and> mstatus (csr k2) = mstatus (csr k)))"
proof -
  obtain k1 m1 where k1: "am_asm_trap nr (Some (switch_to c2)) k m = Inr (k1, m1)" "pc k1 = p"
    "gpr k1 ! 2 = c2 + sizeof_Context nr" "\<forall>n < nr. n \<noteq> 0 \<and> n \<noteq> 2 \<longrightarrow> gpr k1 ! n = rs ! n"
    and c: "is_context nr m1 c (gpr k) (mstatus (csr k)) (mepc (csr k) + 4)"
    using switch_to_context [OF assms(1-3,5-7)] by blast
  have "\<exists>k2 m2. am_asm_trap nr (Some (switch_to c)) kd md = Inr (k2, m2) \<and> gpr k2 = gpr k \<and>
      pc k2 = mepc (csr k) + 4 \<and> mstatus (csr k2) = mstatus (csr k)"
    if y: "yielding nr d kd" and f: "frame nr d \<inter> frame nr c = {}" and a: "\<forall>a \<in> frame nr c. md a = m1 a" for d kd md
  proof -
    have cd: "is_context nr md c (gpr k) (mstatus (csr k)) (mepc (csr k) + 4)"
      using is_context_frame [OF c assms(1) a] .
    obtain k2 m2 where k2: "am_asm_trap nr (Some (switch_to c)) kd md = Inr (k2, m2)"
      "pc k2 = mepc (csr k) + 4" "mstatus (csr k2) = mstatus (csr k)" "length (gpr k2) = nr" "gpr k2 ! 0 = 0"
      "gpr k2 ! 2 = c + sizeof_Context nr" "\<forall>n < nr. n \<noteq> 0 \<and> n \<noteq> 2 \<longrightarrow> gpr k2 ! n = gpr k ! n"
      using switch_to_context [OF assms(1,2) y assms(4) cd f] by blast
    have "gpr k2 = gpr k"
      using resumed_gprs [of k nr k2] k2(4-7) assms(3) by (simp add: yielding_def)
    with k2(1-3) show ?thesis by blast
  qed
  with k1 show ?thesis by blast
qed

lemma yield_resumes_witness:
  "\<exists>k1 m1 k2 m2. am_asm_trap 32 (Some (switch_to 0x1000)) sample_thread (\<lambda>_. 0) = Inr (k1, m1) \<and> pc k1 = 0 \<and>
     am_asm_trap 32 (Some (switch_to 0x3000)) sample_thread2 m1 = Inr (k2, m2) \<and>
     gpr k2 = gpr sample_thread \<and> pc k2 = 0x30000014"
proof -
  have c: "is_context 32 (\<lambda>_. 0) 0x1000 (replicate 32 0) 0 0"
    by (auto simp: is_context_def aligned_def REGS_def)
  have f: "frame 32 0x3000 \<inter> frame 32 0x1000 = {}" "frame 32 0x2000 \<inter> frame 32 0x3000 = {}"
    using frames_apart [of "0x1000" 32 "0x3000"] frames_apart [of "0x2000" 32 "0x3000"] by (auto simp: Int_commute)
  have n: "(0x3000 :: u32) \<noteq> 0" "(0x1000 :: u32) \<noteq> 0" "16 \<le> (32 :: nat)" "(32 :: nat) \<le> 32" by simp_all
  obtain k1 m1 where k1: "am_asm_trap 32 (Some (switch_to 0x1000)) sample_thread (\<lambda>_. 0) = Inr (k1, m1)" "pc k1 = 0"
    "\<forall>d kd md. yielding 32 d kd \<longrightarrow> frame 32 d \<inter> frame 32 0x3000 = {} \<longrightarrow> (\<forall>a \<in> frame 32 0x3000. md a = m1 a) \<longrightarrow>
      (\<exists>k2 m2. am_asm_trap 32 (Some (switch_to 0x3000)) kd md = Inr (k2, m2) \<and> gpr k2 = gpr sample_thread \<and>
        pc k2 = mepc (csr sample_thread) + 4 \<and> mstatus (csr k2) = mstatus (csr sample_thread))"
    using yield_resumes [OF n(3,4) sample_threads(1) n(1,2) c f(1)] by blast
  then obtain k2 m2 where "am_asm_trap 32 (Some (switch_to 0x3000)) sample_thread2 m1 = Inr (k2, m2)"
    "gpr k2 = gpr sample_thread" "pc k2 = mepc (csr sample_thread) + 4"
    using sample_threads(2) f(2) by blast
  with k1(1,2) show ?thesis by (simp add: sample_thread_def)
qed

text \<open>
  A new thread starts at its entry. The context \<^verbatim>\<open>kcontext\<close> makes on a stack is, when the
  scheduler switches to it, resumed at the entry with the argument in \<^verbatim>\<open>a0\<close>, every other register
  cleared and the stack pointer at the last word of the stack.
\<close>

lemma kcontext_starts:
  assumes "16 \<le> nr" "nr \<le> 32" "aligned kend" "kcontext nr kend entry arg m = Inr (c2, m1)" "c2 \<noteq> 0"
    and "yielding nr c k" "frame nr c \<inter> frame nr c2 = {}"
  shows "\<exists>k' m'. am_asm_trap nr (Some (switch_to c2)) k m1 = Inr (k', m') \<and> pc k' = entry \<and>
    gpr k' = ((replicate nr 0)[10 := arg])[2 := kend - 4] \<and> mstatus (csr k') = 0x1800"
proof -
  have c2: "c2 = kend - 4 - sizeof_Context nr" and ctx: "is_context nr m1 c2 (new_regs nr arg) 0x1800 entry"
    using kcontext_context [OF assms(1-3), of entry arg m] assms(4) by auto
  obtain k' m' where k': "am_asm_trap nr (Some (switch_to c2)) k m1 = Inr (k', m')" "pc k' = entry"
    "mstatus (csr k') = 0x1800" "length (gpr k') = nr" "gpr k' ! 0 = 0" "gpr k' ! 2 = c2 + sizeof_Context nr"
    "\<forall>n < nr. n \<noteq> 0 \<and> n \<noteq> 2 \<longrightarrow> gpr k' ! n = new_regs nr arg ! n"
    using switch_to_context [OF assms(1,2,6,5) ctx assms(7)] by blast
  have "gpr k' = ((replicate nr 0)[10 := arg])[2 := kend - 4]"
  proof (rule nth_equalityI)
    fix n assume "n < length (gpr k')"
    then show "gpr k' ! n = ((replicate nr 0)[10 := arg])[2 := kend - 4] ! n"
      using k'(4-7) c2 assms(1) by (cases "n = 0 \<or> n = 2") (auto simp: new_regs_def nth_list_update)
  qed (simp add: k'(4))
  with k'(1-3) show ?thesis by blast
qed

section \<open>Devices\<close>

text \<open>
  A machine with a timer, a keyboard on which scan code 4 is key 43, a screen of four by four
  pixels and its frame buffer, at the addresses the abstract machine uses.
\<close>

definition am_map_at :: "u32 \<Rightarrow> u32 \<Rightarrow> nat \<Rightarrow> io_callback option \<Rightarrow> IOMap" where
  "am_map_at low n sp cb =
     \<lparr>map_name = ''device'', map_low = low, map_high = low + n - 1, map_space = sp, map_callback = cb\<rparr>"

definition am_sample :: "u32 sys" where
  "am_sample = (sample_sys [])\<lparr>io := \<lparr>io_space = sample_array (replicate 16 0 @ [4, 0, 4]) 0x100000, p_space = 128,
      mmio_maps = [am_map_at RTC_ADDR 8 8 (Some RtcHandler), am_map_at KBD_ADDR 4 0 (Some I8042Handler),
        am_map_at VGACTL_ADDR 8 16 None, am_map_at FB_ADDR 64 64 None], pio_maps = []\<rparr>,
    dev := sample_device\<lparr>kbd := sample_keyboard\<lparr>keymap := (replicate 256 0)[4 := 43]\<rparr>\<rparr>,
    nemu := \<lparr>nstate = NEMU_RUNNING, halt_pc = 0, halt_ret = 0\<rparr>\<rparr>"

lemma am_sample_wf: "mmio_wf am_sample"
  by (auto simp: am_sample_def mmio_wf_def maps_disjoint_def am_map_at_def NR_MAP_def RTC_ADDR_def KBD_ADDR_def
      VGACTL_ADDR_def FB_ADDR_def map_inside_def word_le_nat_alt)

lemma am_sample_kbd: "kbd_ok (am_map_at KBD_ADDR 4 0 (Some I8042Handler)) am_sample"
  "pending_keys (kbd (dev am_sample)) = []"
proof -
  show "kbd_ok (am_map_at KBD_ADDR 4 0 (Some I8042Handler)) am_sample"
    using am_sample_wf unfolding kbd_ok_def
    by (simp add: am_map_at_def am_sample_def sample_device_def sample_keyboard_def key_inv_def KEY_QUEUE_LEN_def)
  show "pending_keys (kbd (dev am_sample)) = []"
    by (simp add: am_sample_def pending_keys_def key_count_def sample_keyboard_def KEY_QUEUE_LEN_def)
qed

lemma am_sample_fb: "fb_ok (am_map_at FB_ADDR 64 64 None) 16 am_sample"
  using am_sample_wf unfolding fb_ok_def by (simp add: am_map_at_def am_sample_def FB_ADDR_def)

text \<open>
  The time a program reads from \<^verbatim>\<open>AM_TIMER_UPTIME\<close> is one reading of NEMU's clock: the two
  halves of the 64-bit count of microseconds since the start, read by two accesses of which only
  the first latches the clock, belong together even if the clock advances between them.
\<close>

lemma uptime_is_latched:
  fixes s :: "'v sys"
  assumes "mmio_wf s" "m \<in> set (mmio_maps (io s))" "map_low m = RTC_ADDR" "map_high m = RTC_ADDR + 7"
    and "map_callback m = Some RtcHandler" "map_space m = rtc_port_base (dev s)"
    and "rtc_port_base (dev s) + 8 \<le> clen (io_space (io s))" "boot_time s \<noteq> 0"
  shows "\<exists>s'. am_timer_uptime (nemu_bus c) s = Inr (clock s (clock_reads s) - boot_time s, s')"
  using assms by (rule am_uptime)

text \<open>
  C23: A key event reaches the program. While the machine runs, with fewer than 1023 events
  queued, an event of a mapped key is queued, and a program that reads the keyboard as often as
  there are events receives the queued ones in their order and then this one, with the number of
  the key in \<^verbatim>\<open>AM_KEYS\<close> and whether it went down.
\<close>

theorem keys_reach_program:
  assumes "kbd_ok m s" "nstate (nemu s) = NEMU_RUNNING" "keymap (kbd (dev s)) ! unat sc = key"
    and "key \<noteq> NEMU_KEY_NONE" "key < 0x8000" "pending_keys (kbd (dev s)) = xs" "length xs < KEY_QUEUE_LEN - 1"
  shows "\<exists>s1 s2. send_key sc down s = Inr s1 \<and>
    keybrd_reads (nemu_bus c) (length xs + 1) s1 =
      Inr (map key_of xs @ [\<lparr>keydown = down, keycode = uint key\<rparr>], s2)"
proof -
  let ?x = "key OR (if down then KEYDOWN_MASK else 0)"
  obtain s1 where s1: "send_key sc down s = Inr s1" "kbd_ok m s1" "pending_keys (kbd (dev s1)) = xs @ [?x]"
    using send_key_ok [OF assms(1-4,6,7), of down] by blast
  obtain s2 where "keybrd_reads (nemu_bus c) (length (xs @ [?x])) s1 = Inr (map key_of (xs @ [?x]), s2)"
    using keybrd_reads_pending [OF s1(2,3), of c] by blast
  with s1(1) show ?thesis using key_of_sent [OF assms(5), of down] by simp
qed

lemma keys_reach_program_witness:
  "\<exists>s1 s2. send_key 4 True am_sample = Inr s1 \<and>
    keybrd_reads (nemu_bus sample_config) 1 s1 = Inr ([\<lparr>keydown = True, keycode = 43\<rparr>], s2)"
proof -
  have k: "keymap (kbd (dev am_sample)) ! unat (4 :: u8) = 43" "nstate (nemu am_sample) = NEMU_RUNNING"
    by (simp_all add: am_sample_def)
  show ?thesis
    using keys_reach_program [OF am_sample_kbd(1) k(2,1) _ _ am_sample_kbd(2), of True sample_config]
    by (simp add: NEMU_KEY_NONE_def KEY_QUEUE_LEN_def)
qed

text \<open>
  C24: What a program draws is in the frame buffer. Drawing a rectangle that lies on the screen
  puts its pixels, row by row, at their places of the frame buffer and changes no other place.
\<close>

theorem drawing_in_frame_buffer:
  assumes "fb_ok m n s" "v \<in> set (mmio_maps (io s))" "map_callback v = None" "map_low v = VGACTL_ADDR"
    and "VGACTL_ADDR \<le> map_high v" "io_rd32 (map_space v) 0 s = Inr wh" "sw = unat (drop_bit 16 wh)"
    and "x + w \<le> sw" "sw * (y + h) \<le> n" "w * h \<le> length ps" "0 < w" "0 < h"
  shows "\<exists>s'. am_gpu_fbdraw (nemu_bus c)
      \<lparr>fb_x = int x, fb_y = int y, fb_pixels = ps, fb_w = int w, fb_h = int h, fb_sync = False\<rparr> s = Inr s' \<and>
    (\<forall>r < h. \<forall>t < w. fb_peek m (sw * (y + r) + x + t) s' = ps ! (w * r + t)) \<and>
    (\<forall>q < n. (\<forall>r < h. \<forall>t < w. q \<noteq> sw * (y + r) + x + t) \<longrightarrow> fb_peek m q s' = fb_peek m q s)"
proof -
  let ?s = "difftest_skip_ref c s"
  have wf: "mmio_wf s" and i: "map_inside v VGACTL_ADDR"
    using assms(1,4,5) by (auto simp: fb_ok_def map_inside_def)
  have r: "io_rd32 b j ?s = io_rd32 b j s" for b j by (simp add: io_rd32_def sys_io_skip)
  have rd: "inl (nemu_bus c) VGACTL_ADDR s = Inr (wh, ?s)"
    using nemu_inl [OF wf assms(2) i, of 0 c] assms(3,4,6) r by (simp add: invoke_callback_def)
  have ok: "fb_ok m n ?s" using assms(1) by (simp add: fb_ok_def mmio_wf_def sys_io_skip)
  have "unat (drop_bit 16 wh) < 2 ^ 16"
  proof -
    have "unat wh < 2 ^ LENGTH(32)" by (rule unsigned_less)
    then show ?thesis by (simp only: unat_drop_bit_eq drop_bit_nat_def) (simp add: less_mult_imp_div_less)
  qed
  then have x: "x + w < 2 ^ 31" using assms(7,8) by simp
  have "unat (map_high m) < 2 ^ LENGTH(32)" by (rule unsigned_less)
  then have "4 * n \<le> 2 ^ 32" using assms(1) by (simp add: fb_ok_def)
  moreover have "1 \<le> sw" using assms(8,11) by linarith
  then have "1 * (y + h) \<le> sw * (y + h)" by (rule mult_le_mono1)
  then have "y + h \<le> n" using assms(9) by (simp only: mult_1)
  ultimately have y: "y + h < 2 ^ 31" by simp
  have "fb_peek m q ?s = fb_peek m q s" for q by (simp add: fb_peek_def r)
  then show ?thesis
    using nemu_fb.fbdraw [OF rd ok assms(7) [symmetric] refl assms(8-12) x y] by fastforce
qed

lemma drawing_in_frame_buffer_witness:
  "\<exists>s'. am_gpu_fbdraw (nemu_bus sample_config)
      \<lparr>fb_x = 1, fb_y = 1, fb_pixels = [1, 2, 3, 4], fb_w = 2, fb_h = 2, fb_sync = False\<rparr> am_sample = Inr s' \<and>
    fb_peek (am_map_at FB_ADDR 64 64 None) 9 s' = 3"
proof -
  let ?v = "am_map_at VGACTL_ADDR 8 16 None"
  have v: "?v \<in> set (mmio_maps (io am_sample))" "map_callback ?v = None" "map_low ?v = VGACTL_ADDR"
    "VGACTL_ADDR \<le> map_high ?v"
    by (simp_all add: am_sample_def am_map_at_def VGACTL_ADDR_def)
  have r: "io_rd32 (map_space ?v) 0 am_sample = Inr 0x40004"
    by (simp add: am_map_at_def am_sample_def io_rd32_def sample_array_def arr_load_def upt_rec nth_append) 
  obtain s' where s': "am_gpu_fbdraw (nemu_bus sample_config)
      \<lparr>fb_x = int 1, fb_y = int 1, fb_pixels = [1, 2, 3, 4], fb_w = int 2, fb_h = int 2, fb_sync = False\<rparr> am_sample = Inr s'"
    "\<forall>r < 2. \<forall>t < 2. fb_peek (am_map_at FB_ADDR 64 64 None) (4 * (1 + r) + 1 + t) s' = [1, 2, 3, 4] ! (2 * r + t)"
    using drawing_in_frame_buffer [OF am_sample_fb v r, of 4 1 2 1 2 "[1, 2, 3, 4]" sample_config] by auto
  have "fb_peek (am_map_at FB_ADDR 64 64 None) 9 s' = 3" using s'(2) [rule_format, of 1 0] by simp
  with s'(1) show ?thesis by auto
qed

end
