(* ===== verification/X86_VM.thy ===== *)
theory X86_VM
  imports AM_Context
begin

text \<open>
  Paging on the x86 machine (\<^verbatim>\<open>am/src/x86/qemu/vme.c\<close>, the 32-bit configuration) with the user
  contexts made for an address space. Page tables and the \<^verbatim>\<open>AddrSpace\<close> structures are in the store of
  words of the RISC-V model; a page is 1024 words. The page allocator of the program works on a
  state of its own and is not expected to touch the pages in use.
\<close>

section \<open>Constants and state\<close>

definition PTE_P :: u32 where "PTE_P = 0x001"
definition PTE_W :: u32 where "PTE_W = 0x002"
definition PTE_U :: u32 where "PTE_U = 0x004"
definition CR0_PG :: u32 where "CR0_PG = 0x80000000"
definition FL_IF :: u32 where "FL_IF = 0x00000200"
definition MMAP_NONE :: u32 where "MMAP_NONE = 0"
definition MMAP_WRITE :: u32 where "MMAP_WRITE = 2"

record ptinfo =
  pt_mask :: u32
  pt_shift :: nat
  pt_bits :: nat

definition x86_pgsize :: u32 where
  "x86_pgsize = 4096"

definition pgtables :: "ptinfo list" where
  "pgtables =
     [\<lparr>pt_mask = 0x00000000, pt_shift = 0, pt_bits = 0\<rparr>,
      \<lparr>pt_mask = 0xffc00000, pt_shift = 22, pt_bits = 10\<rparr>,
      \<lparr>pt_mask = 0x003ff000, pt_shift = 12, pt_bits = 10\<rparr>]"

record vm_area =
  va_start :: u32
  va_end :: u32
  va_kernel :: bool

definition vm_areas :: "vm_area list" where
  "vm_areas =
     [\<lparr>va_start = 0x40000000, va_end = 0x80000000, va_kernel = False\<rparr>,
      \<lparr>va_start = 0x00000000, va_end = 0x40000000, va_kernel = True\<rparr>,
      \<lparr>va_start = 0xfd000000, va_end = 0x00000000, va_kernel = True\<rparr>]"

definition uvm_area :: vm_area where
  "uvm_area = hd vm_areas"

record 'h x86_vm =
  xmem :: cmem
  xheap :: 'h
  x_pgalloc :: "'h pgalloc option"
  x_pgfree :: "(u32 \<Rightarrow> 'h \<Rightarrow> 'h) option"
  kpt :: u32
  cr0 :: u32
  cr3 :: u32

section \<open>Walking the tables\<close>

fun zero_words :: "u32 \<Rightarrow> nat \<Rightarrow> nat \<Rightarrow> cmem \<Rightarrow> cmem res" where
  "zero_words base i 0 m = Inr m"
| "zero_words base i (Suc n) m = bindR (mstore (field base i) 0 m) (zero_words base (Suc i) n)"

definition pgallocz :: "'h x86_vm \<Rightarrow> (u32 \<times> 'h x86_vm) res" where
  "pgallocz s =
     (case x_pgalloc s of
        None \<Rightarrow> Inl Undef
      | Some f \<Rightarrow>
          let (base, h) = f 4096 (xheap s) in
          guardR (base \<noteq> 0) Panic
           (bindR (zero_words base 0 1024 (xmem s)) (\<lambda>m. Inr (base, s\<lparr>xmem := m, xheap := h\<rparr>))))"

definition indexof :: "u32 \<Rightarrow> ptinfo \<Rightarrow> nat" where
  "indexof addr info = unat (drop_bit (pt_shift info) (addr AND pt_mask info))"

definition baseof :: "u32 \<Rightarrow> u32" where
  "baseof addr = addr AND NOT (x86_pgsize - 1)"

text \<open>The loop of \<^verbatim>\<open>ptwalk\<close> over the levels still to go; the last level's slot is the result.\<close>

fun ptwalk_from :: "u32 \<Rightarrow> u32 \<Rightarrow> u32 \<Rightarrow> ptinfo list \<Rightarrow> 'h x86_vm \<Rightarrow> (u32 \<times> 'h x86_vm) res" where
  "ptwalk_from addr flags cur [] s = Inl Panic"
| "ptwalk_from addr flags cur [info] s = Inr (field cur (indexof addr info), s)"
| "ptwalk_from addr flags cur (info # infos) s =
     (let slot = field cur (indexof addr info) in
      bindR (mload slot (xmem s)) (\<lambda>e.
      if e AND PTE_P = 0
      then bindR (pgallocz s) (\<lambda>(next_page, s).
           bindR (mstore slot (next_page OR PTE_P OR flags) (xmem s)) (\<lambda>m.
           ptwalk_from addr flags next_page infos (s\<lparr>xmem := m\<rparr>)))
      else ptwalk_from addr flags (baseof e) infos s))"

text \<open>The address of the member \<^verbatim>\<open>ptr\<close> of an \<^verbatim>\<open>AddrSpace\<close>, after \<^verbatim>\<open>pgsize\<close> and \<^verbatim>\<open>area\<close>.\<close>

definition as_ptr_at :: "u32 \<Rightarrow> u32" where
  "as_ptr_at as = field as 3"

definition ptwalk :: "u32 \<Rightarrow> u32 \<Rightarrow> u32 \<Rightarrow> 'h x86_vm \<Rightarrow> (u32 \<times> 'h x86_vm) res" where
  "ptwalk as addr flags s = ptwalk_from addr flags (as_ptr_at as) pgtables s"

section \<open>Tearing an address space down\<close>

definition call_pgfree :: "u32 \<Rightarrow> 'h x86_vm \<Rightarrow> 'h x86_vm res" where
  "call_pgfree p s = (case x_pgfree s of None \<Rightarrow> Inl Undef | Some g \<Rightarrow> Inr (s\<lparr>xheap := g p (xheap s)\<rparr>))"

text \<open>\<open>infos\<close> describes the levels from \<open>level\<close> on; below the last one there is nothing to do.\<close>

function teardown :: "nat \<Rightarrow> u32 \<Rightarrow> ptinfo list \<Rightarrow> 'h x86_vm \<Rightarrow> 'h x86_vm res"
  and teardown_entries :: "nat \<Rightarrow> u32 \<Rightarrow> ptinfo list \<Rightarrow> nat \<Rightarrow> nat \<Rightarrow> 'h x86_vm \<Rightarrow> 'h x86_vm res" where
  "teardown level pt [] s = Inr s"
| "teardown level pt (info # infos) s =
     bindR (teardown_entries level pt infos 0 (2 ^ pt_bits info) s) (\<lambda>s.
     if 1 \<le> level then call_pgfree pt s else Inr s)"
| "teardown_entries level pt infos i 0 s = Inr s"
| "teardown_entries level pt infos i (Suc n) s =
     bindR (mload (field pt i) (xmem s)) (\<lambda>e.
     bindR (if e AND PTE_P \<noteq> 0 \<and> e AND PTE_U \<noteq> 0 then teardown (Suc level) (baseof e) infos s else Inr s)
      (\<lambda>s. teardown_entries level pt infos (Suc i) n s))"
  by pat_completeness auto
termination
  by (relation "inv_image (less_than <*lex*> less_than)
       (\<lambda>x. case x of Inl (l, p, is, s) \<Rightarrow> (2 * length is, 0) | Inr (l, p, is, i, n, s) \<Rightarrow> (2 * length is + 1, n))")
    auto

section \<open>The interface\<close>

text \<open>
  One kernel area at start-up: \<open>n\<close> pages from \<open>cur\<close>. The areas are page-aligned, so that the loop
  ends at the end of the area after \<open>area_pages\<close> steps, which wraps to 0 for the last area.
\<close>

definition area_pages :: "nat \<Rightarrow> vm_area \<Rightarrow> nat" where
  "area_pages shift vma = unat (va_end vma - va_start vma) div 2 ^ shift"

fun map_kernel_pages :: "u32 \<Rightarrow> u32 \<Rightarrow> nat \<Rightarrow> 'h x86_vm \<Rightarrow> 'h x86_vm res" where
  "map_kernel_pages as cur 0 s = Inr s"
| "map_kernel_pages as cur (Suc n) s =
     bindR (ptwalk as cur PTE_W s) (\<lambda>(slot, s).
     bindR (mstore slot (cur OR PTE_P OR PTE_W) (xmem s)) (\<lambda>m.
     map_kernel_pages as (cur + x86_pgsize) n (s\<lparr>xmem := m\<rparr>)))"

fun map_kernel_areas :: "u32 \<Rightarrow> vm_area list \<Rightarrow> 'h x86_vm \<Rightarrow> 'h x86_vm res" where
  "map_kernel_areas as [] s = Inr s"
| "map_kernel_areas as (vma # vmas) s =
     bindR (if va_kernel vma then map_kernel_pages as (va_start vma) (area_pages 12 vma) s else Inr s)
      (map_kernel_areas as vmas)"

text \<open>\<open>as\<close> is the address of the local variable of that name.\<close>

definition x86_vme_init :: "int \<Rightarrow> 'h pgalloc \<Rightarrow> (u32 \<Rightarrow> 'h \<Rightarrow> 'h) \<Rightarrow> u32 \<Rightarrow> 'h x86_vm \<Rightarrow>
    (bool \<times> 'h x86_vm) res" where
  "x86_vme_init cpu_id f g as s =
     guardR (cpu_id = 0) Panic
      (let s = s\<lparr>x_pgalloc := Some f, x_pgfree := Some g\<rparr> in
       bindR (mstore (as_ptr_at as) 0 (xmem s)) (\<lambda>m.
       bindR (map_kernel_areas as vm_areas (s\<lparr>xmem := m\<rparr>)) (\<lambda>s.
       bindR (mload (as_ptr_at as) (xmem s)) (\<lambda>p.
       Inr (True, s\<lparr>kpt := baseof p, cr3 := baseof p, cr0 := cr0 s OR CR0_PG\<rparr>)))))"

text \<open>The directory entries of one kernel area, \<open>n\<close> of them from the one of \<open>cur\<close> on.\<close>

fun share_kernel_entries :: "u32 \<Rightarrow> u32 \<Rightarrow> u32 \<Rightarrow> nat \<Rightarrow> cmem \<Rightarrow> cmem res" where
  "share_kernel_entries updir k cur 0 m = Inr m"
| "share_kernel_entries updir k cur (Suc n) m =
     (let i = indexof cur (pgtables ! 1) in
      bindR (mload (field k i) m) (\<lambda>e.
      bindR (mstore (field updir i) e m) (\<lambda>m.
      share_kernel_entries updir k (cur + push_bit 22 1) n m)))"

fun share_kernel_areas :: "u32 \<Rightarrow> u32 \<Rightarrow> vm_area list \<Rightarrow> cmem \<Rightarrow> cmem res" where
  "share_kernel_areas updir k [] m = Inr m"
| "share_kernel_areas updir k (vma # vmas) m =
     bindR (if va_kernel vma then share_kernel_entries updir k (va_start vma) (area_pages 22 vma) m else Inr m)
      (share_kernel_areas updir k vmas)"

definition x86_protect :: "u32 \<Rightarrow> 'h x86_vm \<Rightarrow> 'h x86_vm res" where
  "x86_protect as s =
     bindR (pgallocz s) (\<lambda>(updir, s).
     bindR (share_kernel_areas updir (kpt s) vm_areas (xmem s)) (\<lambda>m.
     bindR (mstore (field as 0) x86_pgsize m) (\<lambda>m.
     bindR (mstore (field as 1) (va_start uvm_area) m) (\<lambda>m.
     bindR (mstore (field as 2) (va_end uvm_area) m) (\<lambda>m.
     bindR (mstore (as_ptr_at as) (updir OR PTE_P OR PTE_U) m) (\<lambda>m.
     Inr (s\<lparr>xmem := m\<rparr>)))))))"

definition x86_unprotect :: "u32 \<Rightarrow> 'h x86_vm \<Rightarrow> 'h x86_vm res" where
  "x86_unprotect as s = teardown 0 (as_ptr_at as) pgtables s"

definition x86_map :: "u32 \<Rightarrow> u32 \<Rightarrow> u32 \<Rightarrow> u32 \<Rightarrow> 'h x86_vm \<Rightarrow> 'h x86_vm res" where
  "x86_map as va pa prot s =
     guardR (va_start uvm_area \<le> va \<and> va < va_end uvm_area) Panic
      (guardR (va = baseof va \<and> pa = baseof pa) Panic
        (bindR (ptwalk as va (PTE_W OR PTE_U) s) (\<lambda>(ptentry, s).
         bindR (mload ptentry (xmem s)) (\<lambda>e.
         bindR (if prot = MMAP_NONE
                then guardR (e AND PTE_P \<noteq> 0) Panic (mstore ptentry 0 (xmem s))
                else guardR (e AND PTE_P = 0) Panic
                      (mstore ptentry (pa OR PTE_P OR PTE_U OR (if prot AND MMAP_WRITE \<noteq> 0 then PTE_W else 0))
                        (xmem s))) (\<lambda>m.
         bindR (ptwalk as va (PTE_W OR PTE_U) (s\<lparr>xmem := m\<rparr>)) (\<lambda>(_, s). Inr s))))))"

section \<open>Contexts\<close>

text \<open>
  \<^verbatim>\<open>struct Context\<close> has 15 words: \<^verbatim>\<open>cr3, ds, eax, ebx, ecx, edx, esp0, esi, edi, ebp, eip, cs, eflags,
  esp, ss3\<close>.
\<close>

datatype x86_ctx_field =
  X_cr3 | X_ds | X_eax | X_ebx | X_ecx | X_edx | X_esp0 | X_esi | X_edi | X_ebp | X_eip | X_cs
| X_eflags | X_esp | X_ss3

definition x86_ctx_fields :: "x86_ctx_field list" where
  "x86_ctx_fields =
     [X_cr3, X_ds, X_eax, X_ebx, X_ecx, X_edx, X_esp0, X_esi, X_edi, X_ebp, X_eip, X_cs, X_eflags, X_esp, X_ss3]"

fun field_index :: "x86_ctx_field \<Rightarrow> x86_ctx_field list \<Rightarrow> nat" where
  "field_index f [] = 0"
| "field_index f (g # gs) = (if f = g then 0 else Suc (field_index f gs))"

definition x86_ctx :: "u32 \<Rightarrow> x86_ctx_field \<Rightarrow> u32" where
  "x86_ctx c f = field c (field_index f x86_ctx_fields)"

fun store_fields :: "u32 \<Rightarrow> (x86_ctx_field \<times> u32) list \<Rightarrow> cmem \<Rightarrow> cmem res" where
  "store_fields c [] m = Inr m"
| "store_fields c ((f, v) # fs) m = bindR (mstore (x86_ctx c f) v m) (store_fields c fs)"

definition KSEL :: "u32 \<Rightarrow> u32" where "KSEL seg = push_bit 3 seg OR 0"
definition USEL :: "u32 \<Rightarrow> u32" where "USEL seg = push_bit 3 seg OR 3"
definition SEG_KCODE :: u32 where "SEG_KCODE = 1"
definition SEG_KDATA :: u32 where "SEG_KDATA = 2"
definition SEG_UCODE :: u32 where "SEG_UCODE = 3"
definition SEG_UDATA :: u32 where "SEG_UDATA = 4"

definition x86_ucontext :: "u32 \<Rightarrow> u32 \<Rightarrow> u32 \<Rightarrow> cmem \<Rightarrow> (u32 \<times> cmem) res" where
  "x86_ucontext as kend entry m =
     (let ctx = kend - 60 in
      bindR (zero_words ctx 0 15 m) (\<lambda>m.
      bindR (store_fields ctx
        [(X_cs, USEL SEG_UCODE), (X_ds, USEL SEG_UDATA), (X_ss3, USEL SEG_UDATA), (X_eip, entry),
         (X_eflags, FL_IF), (X_esp, va_end uvm_area), (X_esp0, kend)] m) (\<lambda>m.
      bindR (mload (as_ptr_at as) m) (\<lambda>p.
      bindR (mstore (x86_ctx ctx X_cr3) p m) (\<lambda>m.
      Inr (ctx, m))))))"

text \<open>\<^verbatim>\<open>kcontext\<close> of \<^verbatim>\<open>cte.c\<close>; \<open>start\<close> is the address of \<^verbatim>\<open>__am_kcontext_start\<close>.\<close>

definition x86_kcontext :: "u32 \<Rightarrow> u32 \<Rightarrow> u32 \<Rightarrow> u32 \<Rightarrow> cmem \<Rightarrow> (u32 \<times> cmem) res" where
  "x86_kcontext start kend entry arg m =
     (let ctx = kend - 60 in
      bindR (zero_words ctx 0 15 m) (\<lambda>m.
      bindR (store_fields ctx
        [(X_ds, KSEL SEG_KDATA), (X_cs, KSEL SEG_KCODE), (X_eip, start), (X_eflags, FL_IF), (X_esp, kend),
         (X_eax, arg), (X_ebx, entry)] m) (\<lambda>m.
      Inr (ctx, m))))"

end
