(* ===== verification/X86_VM_Correct.thy ===== *)
theory X86_VM_Correct
  imports X86_VM AM_Context_Correct
begin

text \<open>
  The page tables implement a partial function from pages to frames: mapping and unmapping update
  it at one page, a new address space has the kernel's pages and no other, and tearing an address
  space down frees its own tables and not the kernel's.
\<close>

section \<open>Pages\<close>

definition page_aligned :: "u32 \<Rightarrow> bool" where
  "page_aligned p \<longleftrightarrow> baseof p = p"

lemma unat_baseof: "unat (baseof a) = unat a div 4096 * 4096"
proof -
  have m: "x86_pgsize - 1 = mask 12" by (simp add: x86_pgsize_def mask_eq_exp_minus_1)
  have "baseof a = push_bit 12 (drop_bit 12 a)"
    unfolding baseof_def m by (rule bit_word_eqI) (auto simp: bit_simps)
  also have "unat \<dots> = take_bit 32 (push_bit 12 (drop_bit 12 (unat a)))"
    by (simp only: unsigned_push_bit_eq unat_drop_bit_eq) simp
  also have "\<dots> = unat a div 4096 * 4096"
  proof -
    have "unat a < 2 ^ LENGTH(32)" by (rule unsigned_less)
    then have "unat a div 4096 * 4096 < 2 ^ 32" using div_times_less_eq_dividend [of "unat a" 4096] by simp
    then show ?thesis by (simp add: push_bit_nat_def drop_bit_nat_def take_bit_nat_eq_self)
  qed
  finally show ?thesis .
qed

lemma baseof_baseof [simp]: "baseof (baseof a) = baseof a"
  by (rule word_unat_eq_iff [THEN iffD2]) (simp add: unat_baseof)

lemma page_aligned_baseof [simp]: "page_aligned (baseof a)"
  by (simp add: page_aligned_def)

lemma page_aligned_aligned [simp]: "page_aligned p \<Longrightarrow> aligned p"
proof -
  assume "page_aligned p"
  then have "unat p = 4 * (1024 * (unat p div 4096))" using unat_baseof [of p] by (simp add: page_aligned_def)
  then show "aligned p" unfolding aligned_dvd by (metis dvd_triv_left)
qed

lemma unat_slot:
  assumes "page_aligned p" "i < 1024"
  shows "unat (field p i) = unat p + 4 * i"
proof -
  have "unat p < 2 ^ LENGTH(32)" by (rule unsigned_less)
  moreover obtain q where q: "unat p = q * 4096"
    using assms(1) unat_baseof [of p] by (simp add: page_aligned_def)
  ultimately have b: "unat p + 4 * i < 2 ^ 32" using assms(2) by simp
  then have "unat (of_nat (4 * i) :: u32) = 4 * i"
    by (simp only: unat_of_nat len_bit0 len_num1) (simp add: mod_less)
  then show ?thesis using b unfolding field_def by (subst unat_word_ariths(1)) simp
qed

lemma baseof_slot [simp]: "page_aligned p \<Longrightarrow> i < 1024 \<Longrightarrow> baseof (field p i) = p"
proof (rule word_unat_eq_iff [THEN iffD2])
  assume a: "page_aligned p" "i < 1024"
  then obtain q where "unat p = q * 4096" using unat_baseof [of p] by (simp add: page_aligned_def)
  then show "unat (baseof (field p i)) = unat p" using a(2) by (simp add: unat_baseof unat_slot [OF a])
qed

lemma slot_eq [simp]:
  "page_aligned p \<Longrightarrow> page_aligned q \<Longrightarrow> i < 1024 \<Longrightarrow> j < 1024 \<Longrightarrow> field p i = field q j \<longleftrightarrow> p = q \<and> i = j"
  by (metis baseof_slot unat_slot add_left_cancel mult_cancel1 zero_neq_numeral)

lemma zero_words_ok:
  "aligned p \<Longrightarrow> zero_words p i n m = Inr (\<lambda>a. if a \<in> field p ` {i..<i + n} then 0 else m a)"
proof (induction n arbitrary: i m)
  case (Suc n)
  have "{i..<i + Suc n} = insert i {Suc i..<Suc i + n}" by auto
  with Suc show ?case by (auto simp: fun_eq_iff)
qed (simp add: fun_eq_iff)

section \<open>Entries\<close>

lemma bit_flags:
  "bit PTE_P n \<longleftrightarrow> n = 0" "bit PTE_W n \<longleftrightarrow> n = 1" "bit PTE_U n \<longleftrightarrow> n = 2"
  using bit_exp_iff [of 1 n, where 'a = "32 word"] bit_exp_iff [of 2 n, where 'a = "32 word"]
  by (auto simp: PTE_P_def PTE_W_def PTE_U_def possible_bit_def bit_1_iff)

lemma present_bits:
  "x AND PTE_P = 0 \<longleftrightarrow> \<not> bit x 0" "x AND PTE_W = 0 \<longleftrightarrow> \<not> bit x 1" "x AND PTE_U = 0 \<longleftrightarrow> \<not> bit x 2"
proof -
  have a: "x AND d = 0 \<longleftrightarrow> \<not> bit x k" if "\<And>n. bit d n \<longleftrightarrow> n = k" for d :: u32 and k
  proof
    assume "x AND d = 0"
    then have "\<not> bit (x AND d) k" by simp
    with that show "\<not> bit x k" by (simp add: bit_and_iff)
  next
    assume "\<not> bit x k"
    with that show "x AND d = 0" by (intro bit_word_eqI) (auto simp: bit_and_iff)
  qed
  show "x AND PTE_P = 0 \<longleftrightarrow> \<not> bit x 0" "x AND PTE_W = 0 \<longleftrightarrow> \<not> bit x 1" "x AND PTE_U = 0 \<longleftrightarrow> \<not> bit x 2"
    by (rule a, rule bit_flags)+
qed

lemma bit_baseof: "bit (baseof a) n \<longleftrightarrow> 12 \<le> n \<and> bit a n"
proof -
  have m: "x86_pgsize - 1 = mask 12" by (simp add: x86_pgsize_def mask_eq_exp_minus_1)
  show ?thesis unfolding baseof_def m by (auto simp: bit_simps dest: bit_imp_le_length)
qed

lemma page_low_bits: "page_aligned p \<Longrightarrow> n < 12 \<Longrightarrow> \<not> bit p n"
  by (metis bit_baseof page_aligned_def not_le)

lemma baseof_entry [simp]:
  assumes "page_aligned p"
  shows "baseof (p OR PTE_P OR (PTE_W OR PTE_U)) = p" "baseof (p OR PTE_P OR PTE_U) = p"
    "baseof (p OR PTE_P OR PTE_W) = p" "baseof (p OR PTE_P OR PTE_U OR PTE_W) = p"
    "baseof (p OR PTE_P OR PTE_U OR 0) = p"
proof -
  have "baseof (p OR f) = p" if f: "\<And>n. bit f n \<Longrightarrow> n < 12" for f
  proof (rule bit_word_eqI, goal_cases)
    case (1 n)
    then show ?case using page_low_bits [OF assms, of n] f [of n]
      by (cases "n < 12") (auto simp: bit_baseof bit_or_iff)
  qed
  note e = this [unfolded or.assoc [symmetric]]
  have "baseof (p OR PTE_P OR PTE_W OR PTE_U) = p" by (rule e) (auto simp: bit_or_iff bit_flags)
  then show "baseof (p OR PTE_P OR (PTE_W OR PTE_U)) = p" by (simp only: or.assoc)
  show "baseof (p OR PTE_P OR PTE_U) = p"
    "baseof (p OR PTE_P OR PTE_W) = p" "baseof (p OR PTE_P OR PTE_U OR PTE_W) = p"
    "baseof (p OR PTE_P OR PTE_U OR 0) = p"
    by (rule e; auto simp: bit_or_iff bit_flags)+
qed

lemma baseof_or:
  assumes "page_aligned p" "\<forall>n. bit fl n \<longrightarrow> n < 12"
  shows "baseof (p OR PTE_P OR fl) = p"
proof (rule bit_word_eqI, goal_cases)
  case (1 n)
  then show ?case using page_low_bits [OF assms(1), of n] assms(2)
    by (cases "n < 12") (auto simp: bit_baseof bit_or_iff bit_flags)
qed

section \<open>Indices\<close>

definition pd_index :: "u32 \<Rightarrow> nat" where
  "pd_index va = indexof va (pgtables ! 1)"

definition pt_index :: "u32 \<Rightarrow> nat" where
  "pt_index va = indexof va (pgtables ! 2)"

lemma index_values: "pd_index va = unat va div 2 ^ 22" "pt_index va = unat va div 4096 mod 1024"
proof -
  have h: "(0xffc00000 :: u32) = NOT (mask 22)" by (simp add: mask_eq_exp_minus_1)
  have "drop_bit 22 (va AND NOT (mask 22)) = drop_bit 22 va"
    by (rule bit_word_eqI) (auto simp: bit_simps dest: bit_imp_le_length)
  then show "pd_index va = unat va div 2 ^ 22"
    unfolding pd_index_def indexof_def by (simp add: pgtables_def h unat_drop_bit_eq drop_bit_nat_def)
  have l: "(0x003ff000 :: u32) = push_bit 12 (mask 10)" by (simp add: mask_eq_exp_minus_1)
  have "drop_bit 12 (va AND push_bit 12 (mask 10)) = take_bit 10 (drop_bit 12 va)"
    by (rule bit_word_eqI) (auto simp: bit_simps dest: bit_imp_le_length)
  then have "pt_index va = unat (take_bit 10 (drop_bit 12 va))"
    unfolding pt_index_def indexof_def by (simp add: pgtables_def l)
  also have "\<dots> = take_bit 10 (unat va div 4096)"
    by (simp only: unsigned_take_bit_eq unat_drop_bit_eq drop_bit_nat_def) simp
  finally show "pt_index va = unat va div 4096 mod 1024" by (simp add: take_bit_nat_def)
qed

lemma index_bounds [simp]: "pd_index va < 1024" "pt_index va < 1024"
proof -
  have "unat va < 2 ^ LENGTH(32)" by (rule unsigned_less)
  then show "pd_index va < 1024" by (simp add: index_values less_mult_imp_div_less)
qed (simp add: index_values)

lemma index_inject:
  assumes "page_aligned va" "page_aligned va'" "pd_index va = pd_index va'" "pt_index va = pt_index va'"
  shows "va = va'"
proof (rule word_unat_eq_iff [THEN iffD2])
  have p: "unat v = (pd_index v * 1024 + pt_index v) * 4096" if "page_aligned v" for v
  proof -
    have "unat v = unat v div 4096 * 4096" using that unat_baseof [of v] by (simp add: page_aligned_def)
    moreover have "unat v div 2 ^ 22 = unat v div 4096 div 1024" by (simp add: div_mult2_eq [symmetric])
    ultimately show ?thesis by (simp add: index_values)
  qed
  show "unat va = unat va'" using p [OF assms(1)] p [OF assms(2)] assms(3,4) by simp
qed

section \<open>What the tables mean\<close>

text \<open>The entry of the directory at \<open>root\<close>, and the processor's walk.\<close>

definition pde :: "cmem \<Rightarrow> u32 \<Rightarrow> nat \<Rightarrow> u32" where
  "pde m root i = m (field root i)"

definition x86_translate :: "cmem \<Rightarrow> u32 \<Rightarrow> u32 \<Rightarrow> (u32 \<times> bool \<times> bool) option" where
  "x86_translate m root va =
     (let d = pde m root (pd_index va) in
      if d AND PTE_P = 0 then None
      else let e = m (field (baseof d) (pt_index va)) in
           if e AND PTE_P = 0 then None
           else Some (baseof e, d AND PTE_W \<noteq> 0 \<and> e AND PTE_W \<noteq> 0, d AND PTE_U \<noteq> 0 \<and> e AND PTE_U \<noteq> 0))"

definition root_of :: "cmem \<Rightarrow> u32 \<Rightarrow> u32" where
  "root_of m as = baseof (m (as_ptr_at as))"

text \<open>The function on pages that an address space implements.\<close>

definition vmap :: "cmem \<Rightarrow> u32 \<Rightarrow> u32 \<Rightarrow> (u32 \<times> bool \<times> bool) option" where
  "vmap m as va = (if page_aligned va then x86_translate m (root_of m as) va else None)"

section \<open>Well-formed address spaces\<close>

definition tables :: "cmem \<Rightarrow> u32 \<Rightarrow> u32 set" where
  "tables m root = insert root {baseof (pde m root i) |i. i < 1024 \<and> pde m root i AND PTE_P \<noteq> 0}"

text \<open>The structure is outside the tables and no table is used twice.\<close>

definition as_ok :: "cmem \<Rightarrow> u32 \<Rightarrow> bool" where
  "as_ok m as \<longleftrightarrow> aligned as \<and> m (as_ptr_at as) AND PTE_P \<noteq> 0 \<and>
     baseof (as_ptr_at as) \<notin> tables m (root_of m as) \<and>
     (\<forall>i < 1024. pde m (root_of m as) i AND PTE_P \<noteq> 0 \<longrightarrow> baseof (pde m (root_of m as) i) \<noteq> root_of m as) \<and>
     (\<forall>i < 1024. \<forall>j < 1024. pde m (root_of m as) i AND PTE_P \<noteq> 0 \<longrightarrow> pde m (root_of m as) j AND PTE_P \<noteq> 0 \<longrightarrow>
        baseof (pde m (root_of m as) i) = baseof (pde m (root_of m as) j) \<longrightarrow> i = j)"

text \<open>The user part of the directory, the entries 256 to 511, has user permissions.\<close>

definition user_dir :: "cmem \<Rightarrow> u32 \<Rightarrow> bool" where
  "user_dir m root \<longleftrightarrow> (\<forall>i. 256 \<le> i \<and> i < 512 \<longrightarrow> pde m root i AND PTE_P \<noteq> 0 \<longrightarrow>
     pde m root i AND PTE_W \<noteq> 0 \<and> pde m root i AND PTE_U \<noteq> 0)"

definition as_wf :: "cmem \<Rightarrow> u32 \<Rightarrow> bool" where
  "as_wf m as \<longleftrightarrow> as_ok m as \<and> user_dir m (root_of m as)"

lemma root_aligned [simp]: "page_aligned (root_of m as)"
  by (simp add: root_of_def)

lemma as_ptr_aligned [simp]: "aligned as \<Longrightarrow> aligned (as_ptr_at as)"
  by (simp add: as_ptr_at_def)

lemma indexof_level0 [simp]: "indexof va (pgtables ! 0) = 0"
  by (simp add: indexof_def pgtables_def)

lemma indexof_levels [simp]:
  "indexof va (pgtables ! Suc 0) = pd_index va" "indexof va (pgtables ! 2) = pt_index va"
  by (simp_all add: pd_index_def pt_index_def)

lemma field_0 [simp]: "field c 0 = c"
  by (simp add: field_def)

text \<open>Where the page's entry is, when there is a table for it.\<close>

lemma ptwalk_present:
  assumes "aligned as" "xmem s (as_ptr_at as) AND PTE_P \<noteq> 0"
    and "pde (xmem s) (root_of (xmem s) as) (pd_index va) AND PTE_P \<noteq> 0"
  shows "ptwalk as va flags s =
    Inr (field (baseof (pde (xmem s) (root_of (xmem s) as) (pd_index va))) (pt_index va), s)"
proof -
  have t: "pgtables = [pgtables ! 0, pgtables ! 1, pgtables ! 2]" by (simp add: pgtables_def)
  show ?thesis
    unfolding ptwalk_def by (subst t) (use assms in \<open>simp add: Let_def root_of_def pde_def\<close>)
qed

lemma ptwalk_fresh:
  assumes "aligned as" "xmem s (as_ptr_at as) AND PTE_P \<noteq> 0"
    and "pde (xmem s) (root_of (xmem s) as) (pd_index va) AND PTE_P = 0"
    and "x_pgalloc s = Some f" "f 4096 (xheap s) = (p, h)" "page_aligned p" "p \<noteq> 0"
  shows "ptwalk as va flags s = Inr (field p (pt_index va),
    s\<lparr>xmem := (\<lambda>a. if a \<in> field p ` {0..<1024} then 0 else xmem s a)
        (field (root_of (xmem s) as) (pd_index va) := p OR PTE_P OR flags), xheap := h\<rparr>)"
proof -
  have t: "pgtables = [pgtables ! 0, pgtables ! 1, pgtables ! 2]" by (simp add: pgtables_def)
  have z: "zero_words p 0 1024 (xmem s) = Inr (\<lambda>a. if a \<in> field p ` {0..<1024} then 0 else xmem s a)"
    using zero_words_ok [of p 0 1024 "xmem s"] assms(6) by simp
  show ?thesis
    unfolding ptwalk_def by (subst t) (use assms z in \<open>simp add: Let_def root_of_def pde_def pgallocz_def del: zero_words.simps fun_upd_apply\<close>)
qed

section \<open>Updating the tables\<close>

lemma tables_cong:
  "\<forall>i < 1024. pde m' root i = pde m root i \<Longrightarrow> tables m' root = tables m root"
  unfolding tables_def by (rule arg_cong [where f = "insert root"], rule Collect_cong) metis

lemma as_ok_cong:
  assumes "m' (as_ptr_at as) = m (as_ptr_at as)" "\<forall>i < 1024. pde m' (root_of m as) i = pde m (root_of m as) i"
  shows "as_ok m' as = as_ok m as"
proof -
  have r: "root_of m' as = root_of m as" using assms(1) by (simp add: root_of_def)
  show ?thesis
    unfolding as_ok_def r assms(1) tables_cong [OF assms(2)] using assms(2) by auto
qed

lemma user_dir_cong:
  "\<forall>i < 1024. pde m' root i = pde m root i \<Longrightarrow> user_dir m' root = user_dir m root"
  by (auto simp: user_dir_def)

lemma as_okD:
  assumes "as_ok m as"
  shows "aligned as" "m (as_ptr_at as) AND PTE_P \<noteq> 0" "baseof (as_ptr_at as) \<noteq> root_of m as"
    "i < 1024 \<Longrightarrow> pde m (root_of m as) i AND PTE_P \<noteq> 0 \<Longrightarrow> baseof (as_ptr_at as) \<noteq> baseof (pde m (root_of m as) i)"
    "i < 1024 \<Longrightarrow> pde m (root_of m as) i AND PTE_P \<noteq> 0 \<Longrightarrow> baseof (pde m (root_of m as) i) \<noteq> root_of m as"
    "i < 1024 \<Longrightarrow> j < 1024 \<Longrightarrow> pde m (root_of m as) i AND PTE_P \<noteq> 0 \<Longrightarrow> pde m (root_of m as) j AND PTE_P \<noteq> 0 \<Longrightarrow>
      baseof (pde m (root_of m as) i) = baseof (pde m (root_of m as) j) \<Longrightarrow> i = j"
  using assms unfolding as_ok_def tables_def by blast+

text \<open>Storing into the entry of a page changes the function at that page.\<close>

lemma set_pte:
  assumes "as_ok m as" "page_aligned va" "d = pde m (root_of m as) (pd_index va)" "d AND PTE_P \<noteq> 0"
    and "m' = m(field (baseof d) (pt_index va) := e)"
  shows "as_ok m' as" "root_of m' as = root_of m as" "tables m' (root_of m as) = tables m (root_of m as)"
    "pde m' (root_of m as) (pd_index va) = d" "i < 1024 \<Longrightarrow> pde m' (root_of m as) i = pde m (root_of m as) i"
    "vmap m' as = (vmap m as)(va := if e AND PTE_P = 0 then None
       else Some (baseof e, d AND PTE_W \<noteq> 0 \<and> e AND PTE_W \<noteq> 0, d AND PTE_U \<noteq> 0 \<and> e AND PTE_U \<noteq> 0))"
proof -
  let ?r = "root_of m as"
  note wf = as_okD [OF assms(1)]
  have dr: "baseof d \<noteq> ?r" using wf(5) [of "pd_index va"] assms(3,4) by simp
  have "as_ptr_at as \<noteq> field (baseof d) (pt_index va)"
    using wf(4) [of "pd_index va"] assms(3,4) baseof_slot [of "baseof d" "pt_index va"] by auto
  then have p: "m' (as_ptr_at as) = m (as_ptr_at as)" using assms(5) by simp
  have k: "\<forall>i < 1024. pde m' ?r i = pde m ?r i" using assms(5) dr by (simp add: pde_def)
  show r: "root_of m' as = ?r" using p by (simp add: root_of_def)
  show "as_ok m' as" using as_ok_cong [OF p k] assms(1) by simp
  show "tables m' ?r = tables m ?r" using k by (rule tables_cong)
  show "i < 1024 \<Longrightarrow> pde m' ?r i = pde m ?r i" using k by simp
  show kd: "pde m' ?r (pd_index va) = d" using k assms(3) by simp
  show "vmap m' as = (vmap m as)(va := if e AND PTE_P = 0 then None
       else Some (baseof e, d AND PTE_W \<noteq> 0 \<and> e AND PTE_W \<noteq> 0, d AND PTE_U \<noteq> 0 \<and> e AND PTE_U \<noteq> 0))"
  proof
    fix v
    show "vmap m' as v = ((vmap m as)(va := if e AND PTE_P = 0 then None
       else Some (baseof e, d AND PTE_W \<noteq> 0 \<and> e AND PTE_W \<noteq> 0, d AND PTE_U \<noteq> 0 \<and> e AND PTE_U \<noteq> 0))) v"
    proof (cases "v = va")
      case True
      have "m' (field (baseof d) (pt_index va)) = e" using assms(5) by simp
      with True show ?thesis
        using assms(2,4) kd by (simp add: vmap_def x86_translate_def r Let_def)
    next
      case False
      have "m' (field (baseof (pde m ?r (pd_index v))) (pt_index v)) =
          m (field (baseof (pde m ?r (pd_index v))) (pt_index v))"
        if "page_aligned v" "pde m ?r (pd_index v) AND PTE_P \<noteq> 0"
      proof -
        have "\<not> (baseof (pde m ?r (pd_index v)) = baseof d \<and> pt_index v = pt_index va)"
          using wf(6) [of "pd_index v" "pd_index va"] index_inject [OF that(1) assms(2)] False that(2) assms(3,4)
          by auto
        then have "field (baseof (pde m ?r (pd_index v))) (pt_index v) \<noteq> field (baseof d) (pt_index va)" by simp
        then show ?thesis unfolding assms(5) by (rule fun_upd_other)
      qed
      with False show ?thesis using k by (simp add: vmap_def x86_translate_def r Let_def)
    qed
  qed
qed

text \<open>Adding an empty table to the directory does not change the function.\<close>

lemma add_table:
  assumes "as_ok m as" "i < 1024" "\<forall>n. bit fl n \<longrightarrow> n < 12" "pde m (root_of m as) i AND PTE_P = 0"
    and "page_aligned p" "p \<notin> tables m (root_of m as)" "p \<noteq> baseof (as_ptr_at as)"
    and "m' = (\<lambda>a. if a \<in> field p ` {0..<1024} then 0 else m a)
      (field (root_of m as) i := p OR PTE_P OR fl)"
  shows "as_ok m' as" "root_of m' as = root_of m as" "vmap m' as = vmap m as"
    "pde m' (root_of m as) i = p OR PTE_P OR fl"
    "j < 1024 \<Longrightarrow> j \<noteq> i \<Longrightarrow> pde m' (root_of m as) j = pde m (root_of m as) j"
    "tables m' (root_of m as) = insert p (tables m (root_of m as))"
proof -
  let ?r = "root_of m as" and ?e = "p OR PTE_P OR fl"
  note wf = as_okD [OF assms(1)]
  have pr: "p \<noteq> ?r" using assms(6) by (auto simp: tables_def)
  have pt: "p \<noteq> baseof (pde m ?r j)" if "j < 1024" "pde m ?r j AND PTE_P \<noteq> 0" for j
    using assms(6) that by (auto simp: tables_def)
  have off: "a \<notin> field p ` {0..<1024}" if "baseof a \<noteq> p" for a
    using that baseof_slot [OF assms(5)] by auto
  have kept: "m' a = m a" if "baseof a \<noteq> p" "a \<noteq> field ?r i" for a
    using assms(8) off [OF that(1)] that(2) by simp
  have "as_ptr_at as \<noteq> field ?r i" using wf(3) baseof_slot [of ?r i] assms(2) by auto
  then have pp: "m' (as_ptr_at as) = m (as_ptr_at as)" using kept assms(7) by simp
  show r: "root_of m' as = ?r" using pp by (simp add: root_of_def)
  show ki: "pde m' ?r i = ?e" using assms(8) by (simp add: pde_def)
  have kj: "pde m' ?r j = pde m ?r j" if "j < 1024" "j \<noteq> i" for j
    using kept [of "field ?r j"] that pr assms(2) by (simp add: pde_def)
  then show "j < 1024 \<Longrightarrow> j \<noteq> i \<Longrightarrow> pde m' ?r j = pde m ?r j" .
  have b: "baseof ?e = p" using assms(5,3) by (rule baseof_or)
  have fl: "?e AND PTE_P \<noteq> 0" by (auto simp: present_bits bit_or_iff bit_flags)
  show t: "tables m' ?r = insert p (tables m ?r)"
  proof -
    have "{baseof (pde m' ?r j) |j. j < 1024 \<and> pde m' ?r j AND PTE_P \<noteq> 0} =
        insert p {baseof (pde m ?r j) |j. j < 1024 \<and> pde m ?r j AND PTE_P \<noteq> 0}" (is "?A = insert p ?B")
    proof (intro equalityI subsetI)
      fix x assume "x \<in> ?A"
      then obtain j where j: "x = baseof (pde m' ?r j)" "j < 1024" "pde m' ?r j AND PTE_P \<noteq> 0" by blast
      show "x \<in> insert p ?B"
      proof (cases "j = i")
        case True then show ?thesis using j(1) ki b by simp
      next
        case False then show ?thesis using j kj [OF j(2)] by auto
      qed
    next
      fix x assume "x \<in> insert p ?B"
      then consider "x = p" | j where "x = baseof (pde m ?r j)" "j < 1024" "pde m ?r j AND PTE_P \<noteq> 0" by blast
      then show "x \<in> ?A"
      proof cases
        case 1 then show ?thesis using ki b fl assms(2) by (intro CollectI exI [of _ i]) simp
      next
        case 2
        then have "j \<noteq> i" using assms(4) by blast
        then show ?thesis using 2 kj [OF 2(2)] by (intro CollectI exI [of _ j]) simp
      qed
    qed
    then show ?thesis by (auto simp: tables_def)
  qed
  have e: "pde m' ?r j = (if j = i then ?e else pde m ?r j)" if "j < 1024" for j
    using ki kj that by simp
  show "as_ok m' as"
    unfolding as_ok_def r pp t
  proof (intro conjI allI impI)
    show "baseof (as_ptr_at as) \<notin> insert p (tables m ?r)"
      using assms(1,7) by (auto simp: as_ok_def)
  next
    fix j assume "j < 1024" "pde m' ?r j AND PTE_P \<noteq> 0"
    then show "baseof (pde m' ?r j) \<noteq> ?r" using e b pr wf(5) by (cases "j = i") auto
  next
    fix j k assume "j < 1024" "k < 1024" "pde m' ?r j AND PTE_P \<noteq> 0" "pde m' ?r k AND PTE_P \<noteq> 0"
      "baseof (pde m' ?r j) = baseof (pde m' ?r k)"
    then show "j = k" using e b pt wf(6) by (cases "j = i"; cases "k = i") auto
  qed (use wf in auto)
  show "vmap m' as = vmap m as"
  proof
    fix v
    have z: "m' (field p k) = 0" if "k < 1024" for k
    proof -
      have "field p k \<noteq> field ?r i" using that pr assms(2,5) by simp
      then show ?thesis using assms(8) that by auto
    qed
    have o: "m' (field (baseof (pde m ?r j)) k) = m (field (baseof (pde m ?r j)) k)"
      if "j < 1024" "k < 1024" "pde m ?r j AND PTE_P \<noteq> 0" for j k
      using kept [of "field (baseof (pde m ?r j)) k"] pt [OF that(1,3)] wf(5) [OF that(1,3)] that(2) assms(2) by auto
    show "vmap m' as v = vmap m as v"
      using e [of "pd_index v"] assms(4) fl b z [of "pt_index v"] o [of "pd_index v" "pt_index v"]
      by (cases "pd_index v = i") (auto simp: vmap_def x86_translate_def r Let_def)
  qed
qed

section \<open>map\<close>

text \<open>A page the allocator gives next that is not in use by the address space.\<close>

definition fresh_page :: "'h x86_vm \<Rightarrow> u32 \<Rightarrow> bool" where
  "fresh_page s as \<longleftrightarrow> (case x_pgalloc s of None \<Rightarrow> False
     | Some f \<Rightarrow> let p = fst (f 4096 (xheap s)) in
         page_aligned p \<and> p \<noteq> 0 \<and> p \<notin> tables (xmem s) (root_of (xmem s) as) \<and> p \<noteq> baseof (as_ptr_at as))"

definition user_page :: "u32 \<Rightarrow> bool" where
  "user_page va \<longleftrightarrow> page_aligned va \<and> 0x40000000 \<le> va \<and> va < 0x80000000"

lemma user_page_index: "user_page va \<Longrightarrow> 256 \<le> pd_index va \<and> pd_index va < 512"
  by (auto simp: user_page_def index_values word_le_nat_alt word_less_nat_alt)

text \<open>The tables \<^verbatim>\<open>map\<close> may write to: the directory, the tables of user pages and the page it allocates.\<close>

definition own_tables :: "cmem \<Rightarrow> u32 \<Rightarrow> u32 set" where
  "own_tables m root = insert root {baseof (pde m root i) |i. 256 \<le> i \<and> i < 512 \<and> pde m root i AND PTE_P \<noteq> 0}"

definition new_page :: "'h x86_vm \<Rightarrow> u32" where
  "new_page s = fst (the (x_pgalloc s) 4096 (xheap s))"

definition same_outside :: "u32 set \<Rightarrow> cmem \<Rightarrow> cmem \<Rightarrow> bool" where
  "same_outside W m m' \<longleftrightarrow> (\<forall>x. baseof x \<notin> W \<longrightarrow> m' x = m x)"

lemma own_tables_mono: 
  assumes "\<forall>i < 1024. pde m' r i AND PTE_P \<noteq> 0 \<longrightarrow> pde m' r i = pde m r i \<or> baseof (pde m' r i) = p"
  shows "own_tables m' r \<subseteq> insert p (own_tables m r)" "tables m' r \<subseteq> insert p (tables m r)"
proof -
  have "baseof (pde m' r i) = p \<or> (pde m' r i = pde m r i)" if "i < 1024" "pde m' r i AND PTE_P \<noteq> 0" for i
    using assms that by blast
  then show "tables m' r \<subseteq> insert p (tables m r)" unfolding tables_def by fastforce
  show "own_tables m' r \<subseteq> insert p (own_tables m r)"
  proof
    fix x assume "x \<in> own_tables m' r"
    then consider "x = r" | i where "x = baseof (pde m' r i)" "256 \<le> i" "i < 512" "pde m' r i AND PTE_P \<noteq> 0"
      unfolding own_tables_def by blast
    then show "x \<in> insert p (own_tables m r)"
    proof cases
      case 2
      then have "pde m' r i = pde m r i \<or> baseof (pde m' r i) = p" using assms by simp
      then show ?thesis using 2 by (auto simp: own_tables_def)
    qed (simp add: own_tables_def)
  qed
qed

lemma own_tables_cong:
  assumes "\<forall>i < 1024. pde m' r i = pde m r i"
  shows "own_tables m' r = own_tables m r"
proof -
  have "pde m' r i = pde m r i" if "i < 512" for i using assms that by simp
  then show ?thesis unfolding own_tables_def by (metis (no_types, lifting))
qed

lemma ptwalk_user:
  assumes "as_wf (xmem s) as" "fresh_page s as" "user_page va"
  shows "\<exists>d s1. ptwalk as va (PTE_W OR PTE_U) s = Inr (field (baseof d) (pt_index va), s1) \<and>
    as_wf (xmem s1) as \<and> root_of (xmem s1) as = root_of (xmem s) as \<and> vmap (xmem s1) as = vmap (xmem s) as \<and>
    d = pde (xmem s1) (root_of (xmem s1) as) (pd_index va) \<and> d AND PTE_P \<noteq> 0 \<and>
    same_outside (insert (new_page s) (own_tables (xmem s) (root_of (xmem s) as))) (xmem s) (xmem s1) \<and>
    own_tables (xmem s1) (root_of (xmem s) as) \<subseteq> insert (new_page s) (own_tables (xmem s) (root_of (xmem s) as)) \<and>
    tables (xmem s1) (root_of (xmem s) as) \<subseteq> insert (new_page s) (tables (xmem s) (root_of (xmem s) as))"
proof -
  let ?r = "root_of (xmem s) as" and ?i = "pd_index va"
  have ok: "as_ok (xmem s) as" and ud: "user_dir (xmem s) ?r" using assms(1) by (simp_all add: as_wf_def)
  note wf = as_okD [OF ok]
  note i = user_page_index [OF assms(3)]
  show ?thesis
  proof (cases "pde (xmem s) ?r ?i AND PTE_P = 0")
    case False
    then show ?thesis using ptwalk_present [OF wf(1,2) False] assms(1) by (auto simp: same_outside_def)
  next
    case True
    obtain f p h where f: "x_pgalloc s = Some f" "f 4096 (xheap s) = (p, h)" "page_aligned p" "p \<noteq> 0"
      "p \<notin> tables (xmem s) ?r" "p \<noteq> baseof (as_ptr_at as)"
      using assms(2) by (auto simp: fresh_page_def Let_def split: option.split_asm) (metis prod.collapse)
    define m where "m = (\<lambda>a. if a \<in> field p ` {0..<1024} then 0 else xmem s a)(field ?r ?i := p OR PTE_P OR (PTE_W OR PTE_U))"
    have w: "ptwalk as va (PTE_W OR PTE_U) s = Inr (field p (pt_index va), s\<lparr>xmem := m, xheap := h\<rparr>)"
      unfolding m_def by (rule ptwalk_fresh [OF wf(1,2) True f(1-4)])
    have i': "?i < 1024" by simp
    have fl: "\<forall>n. bit (PTE_W OR PTE_U) n \<longrightarrow> n < 12" by (auto simp: bit_or_iff bit_flags)
    note a = add_table [OF ok i' fl True f(3,5,6) m_def]
    have e: "pde m ?r ?i AND PTE_P \<noteq> 0" "baseof (pde m ?r ?i) = p"
      using a(4) baseof_or [OF f(3) fl] by (auto simp: present_bits bit_or_iff bit_flags)
    have ud1: "user_dir m (root_of m as)"
      unfolding a(2) user_dir_def
    proof (intro allI impI)
      fix j assume j: "256 \<le> j \<and> j < 512" "pde m ?r j AND PTE_P \<noteq> 0"
      show "pde m ?r j AND PTE_W \<noteq> 0 \<and> pde m ?r j AND PTE_U \<noteq> 0"
      proof (cases "j = ?i")
        case True
        then show ?thesis unfolding True a(4) by (auto simp: present_bits bit_or_iff bit_flags)
      next
        case False
        then show ?thesis using a(5) [of j] j ud by (auto simp: user_dir_def)
      qed
    qed
    have "\<forall>j < 1024. pde m ?r j AND PTE_P \<noteq> 0 \<longrightarrow> pde m ?r j = pde (xmem s) ?r j \<or> baseof (pde m ?r j) = p"
    proof (intro allI impI)
      fix j assume j: "j < 1024" "pde m ?r j AND PTE_P \<noteq> 0"
      show "pde m ?r j = pde (xmem s) ?r j \<or> baseof (pde m ?r j) = p"
        using a(5) [of j] j(1) e(2) by (cases "j = ?i") simp_all
    qed
    note mono = own_tables_mono [OF this]
    have np: "new_page s = p" using f by (simp add: new_page_def)
    have "same_outside (insert p (own_tables (xmem s) ?r)) (xmem s) m"
      unfolding same_outside_def
    proof (intro allI impI)
      fix x assume x: "baseof x \<notin> insert p (own_tables (xmem s) ?r)"
      then have "x \<notin> field p ` {0..<1024}" "x \<noteq> field ?r ?i"
        using baseof_slot [OF f(3)] baseof_slot [of ?r ?i] by (auto simp: own_tables_def)
      then show "m x = xmem s x" by (simp add: m_def)
    qed
    with e ud1 show ?thesis using w a(1-3) mono np unfolding as_wf_def
      by (intro exI [of _ "pde m ?r ?i"] exI [of _ "s\<lparr>xmem := m, xheap := h\<rparr>"]) simp
  qed
qed

lemma vmap_entry:
  assumes "page_aligned va" "d = pde m (root_of m as) (pd_index va)" "d AND PTE_P \<noteq> 0"
  shows "vmap m as va = None \<longleftrightarrow> m (field (baseof d) (pt_index va)) AND PTE_P = 0"
  using assms by (simp add: vmap_def x86_translate_def Let_def)

text \<open>The four outcomes of \<^verbatim>\<open>map\<close> for a page of the user area.\<close>

lemma x86_map_steps:
  assumes "as_wf (xmem s) as" "fresh_page s as" "user_page va" "page_aligned pa"
    and "e = (if prot = MMAP_NONE then 0
              else pa OR PTE_P OR PTE_U OR (if prot AND MMAP_WRITE \<noteq> 0 then PTE_W else 0))"
  shows "if (vmap (xmem s) as va = None) = (prot = MMAP_NONE) then x86_map as va pa prot s = Inl Panic
    else \<exists>s'. x86_map as va pa prot s = Inr s' \<and> as_wf (xmem s') as \<and>
      root_of (xmem s') as = root_of (xmem s) as \<and>
      vmap (xmem s') as = (vmap (xmem s) as)(va :=
        if prot = MMAP_NONE then None else Some (pa, prot AND MMAP_WRITE \<noteq> 0, True)) \<and>
      same_outside (insert (new_page s) (own_tables (xmem s) (root_of (xmem s) as))) (xmem s) (xmem s') \<and>
      own_tables (xmem s') (root_of (xmem s) as) \<subseteq> insert (new_page s) (own_tables (xmem s) (root_of (xmem s) as)) \<and>
      tables (xmem s') (root_of (xmem s) as) \<subseteq> insert (new_page s) (tables (xmem s) (root_of (xmem s) as))"
proof -
  let ?r = "root_of (xmem s) as"
  obtain d s1 where w: "ptwalk as va (PTE_W OR PTE_U) s = Inr (field (baseof d) (pt_index va), s1)"
    and s1: "as_wf (xmem s1) as" "root_of (xmem s1) as = root_of (xmem s) as" "vmap (xmem s1) as = vmap (xmem s) as"
    and d: "d = pde (xmem s1) (root_of (xmem s1) as) (pd_index va)" "d AND PTE_P \<noteq> 0"
    and fr: "same_outside (insert (new_page s) (own_tables (xmem s) ?r)) (xmem s) (xmem s1)"
      "own_tables (xmem s1) ?r \<subseteq> insert (new_page s) (own_tables (xmem s) ?r)"
      "tables (xmem s1) ?r \<subseteq> insert (new_page s) (tables (xmem s) ?r)"
    using ptwalk_user [OF assms(1-3)] by blast
  let ?slot = "field (baseof d) (pt_index va)"
  let ?m = "(xmem s1)(?slot := e)" and ?s2 = "s1\<lparr>xmem := (xmem s1)(?slot := e)\<rparr>"
  have va: "page_aligned va" "va_start uvm_area \<le> va \<and> va < va_end uvm_area" "va = baseof va \<and> pa = baseof pa"
    using assms(3,4) by (auto simp: user_page_def uvm_area_def vm_areas_def page_aligned_def)
  have al: "aligned ?slot" by simp
  have du: "d AND PTE_W \<noteq> 0" "d AND PTE_U \<noteq> 0"
    using s1(1) user_page_index [OF assms(3)] d by (auto simp: as_wf_def user_dir_def)
  note v = vmap_entry [OF va(1) d]
  have ok: "as_ok (xmem s1) as" using s1(1) by (simp add: as_wf_def)
  note u = set_pte [OF ok va(1) d refl, where e = e]
  have wf: "as_wf ?m as"
    using u(1,2,5) s1(1) unfolding as_wf_def by (metis user_dir_cong)
  have w2: "ptwalk as va (PTE_W OR PTE_U) ?s2 = Inr (?slot, ?s2)"
    using ptwalk_present [of as ?s2 va "PTE_W OR PTE_U"] as_okD(1,2) [OF u(1)] u(2,4) d(2) by simp
  have m: "x86_map as va pa prot s = (if (xmem s1 ?slot AND PTE_P = 0) = (prot = MMAP_NONE) then Inl Panic
      else bindR (ptwalk as va (PTE_W OR PTE_U) ?s2) (\<lambda>(_, s). Inr s))"
    using va(2,3) w al assms(5) by (simp add: x86_map_def guardR_def)
  have e: "(if e AND PTE_P = 0 then None
        else Some (baseof e, d AND PTE_W \<noteq> 0 \<and> e AND PTE_W \<noteq> 0, d AND PTE_U \<noteq> 0 \<and> e AND PTE_U \<noteq> 0)) =
      (if prot = MMAP_NONE then None else Some (pa, prot AND MMAP_WRITE \<noteq> 0, True))"
  proof (cases "prot = MMAP_NONE")
    case True
    then show ?thesis using assms(5) by simp
  next
    case False
    have l: "\<not> bit pa 0" "\<not> bit pa 1" "\<not> bit pa 2" using page_low_bits [OF assms(4)] by simp_all
    have "baseof e = pa" using assms(4,5) False by simp
    with False l du show ?thesis by (auto simp: assms(5) present_bits bit_or_iff bit_flags)
  qed
  have "baseof d \<in> own_tables (xmem s1) ?r"
    using d user_page_index [OF assms(3)] unfolding s1(2) own_tables_def by auto
  then have w1: "baseof d \<in> insert (new_page s) (own_tables (xmem s) ?r)" using fr(2) by blast
  have so: "same_outside (insert (new_page s) (own_tables (xmem s) ?r)) (xmem s) ?m"
    unfolding same_outside_def
  proof (intro allI impI)
    fix x assume x: "baseof x \<notin> insert (new_page s) (own_tables (xmem s) ?r)"
    then have "x \<noteq> ?slot" using w1 by (metis baseof_slot page_aligned_baseof index_bounds(2))
    then show "?m x = xmem s x" using x fr(1) by (simp add: same_outside_def)
  qed
  have ot: "own_tables ?m ?r = own_tables (xmem s1) ?r"
    using u(5) unfolding s1(2) by (intro own_tables_cong) simp
  have tt: "tables ?m ?r = tables (xmem s1) ?r" using u(3) unfolding s1(2) .
  show ?thesis using m w2 v u(2,6) wf e s1 so fr ot tt by auto
qed

end
