(* ===== verification/X86_Spaces.thy ===== *)
theory X86_Spaces
  imports X86_VM_Correct
begin

text \<open>
  The life of an address space: the kernel's tables made at start-up map the kernel's pages to
  themselves, a protected address space shares them, and tearing it down frees its own tables.
\<close>

section \<open>unprotect\<close>

lemma teardown_entries_last: "aligned pt \<Longrightarrow> teardown_entries level pt [] i n s = Inr s"
  by (induction n arbitrary: i) simp_all

lemma teardown_table:
  "aligned pt \<Longrightarrow> x_pgfree s = Some g \<Longrightarrow> teardown (Suc l) pt [info] s = Inr (s\<lparr>xheap := g pt (xheap s)\<rparr>)"
  by (simp add: teardown_entries_last call_pgfree_def)

definition user_tables :: "cmem \<Rightarrow> u32 \<Rightarrow> nat \<Rightarrow> nat \<Rightarrow> u32 list" where
  "user_tables m root i n =
     map (\<lambda>j. baseof (pde m root j))
      (filter (\<lambda>j. pde m root j AND PTE_P \<noteq> 0 \<and> pde m root j AND PTE_U \<noteq> 0) [i..<i + n])"

lemma user_tables_Suc:
  "user_tables m root i (Suc n) =
    (if pde m root i AND PTE_P \<noteq> 0 \<and> pde m root i AND PTE_U \<noteq> 0 then [baseof (pde m root i)] else []) @
    user_tables m root (Suc i) n"
  by (simp add: user_tables_def upt_conv_Cons del: upt_Suc)

lemma teardown_directory:
  "aligned root \<Longrightarrow> x_pgfree s = Some g \<Longrightarrow>
   teardown_entries (Suc l) root [info] i n s =
     Inr (s\<lparr>xheap := fold g (user_tables (xmem s) root i n) (xheap s)\<rparr>)"
proof (induction n arbitrary: i s)
  case 0
  then show ?case by (simp add: user_tables_def)
next
  case (Suc n)
  show ?case
    using Suc.prems by (simp add: Suc.IH teardown_table user_tables_Suc pde_def del: teardown.simps)
qed

lemma x86_unprotect_frees:
  assumes "aligned as" "xmem s (as_ptr_at as) AND PTE_P \<noteq> 0" "xmem s (as_ptr_at as) AND PTE_U \<noteq> 0"
    and "x_pgfree s = Some g"
  shows "x86_unprotect as s = Inr (s\<lparr>xheap :=
    fold g (user_tables (xmem s) (root_of (xmem s) as) 0 1024 @ [root_of (xmem s) as]) (xheap s)\<rparr>)"
proof -
  have t: "pgtables = [\<lparr>pt_mask = 0, pt_shift = 0, pt_bits = 0\<rparr>, pgtables ! 1, pgtables ! 2]"
    "pt_bits (pgtables ! 1) = 10"
    by (simp_all add: pgtables_def)
  have "teardown (Suc 0) (root_of (xmem s) as) [pgtables ! 1, pgtables ! 2] s =
      Inr (s\<lparr>xheap := g (root_of (xmem s) as) (fold g (user_tables (xmem s) (root_of (xmem s) as) 0 1024) (xheap s))\<rparr>)"
    using teardown_directory [of "root_of (xmem s) as" s g 0 "pgtables ! 2" 0 1024] assms(4) t(2)
    by (simp add: call_pgfree_def)
  moreover have "teardown 0 (as_ptr_at as) pgtables s = teardown (Suc 0) (root_of (xmem s) as) [pgtables ! 1, pgtables ! 2] s"
    by (subst t(1), subst teardown.simps(2))
      (use assms in \<open>cases "teardown (Suc 0) (root_of (xmem s) as) [pgtables ! 1, pgtables ! 2] s";
        simp add: root_of_def del: teardown.simps(2)\<close>)
  ultimately show ?thesis by (simp add: x86_unprotect_def)
qed

lemma user_tables_distinct:
  assumes "as_ok m as"
  shows "distinct (user_tables m (root_of m as) 0 1024 @ [root_of m as])"
proof -
  let ?u = "filter (\<lambda>j. pde m (root_of m as) j AND PTE_P \<noteq> 0 \<and> pde m (root_of m as) j AND PTE_U \<noteq> 0) [0..<1024]"
  have "inj_on (\<lambda>j. baseof (pde m (root_of m as) j)) (set ?u)"
    by (rule inj_onI) (use as_okD(6) [OF assms] in auto)
  moreover have "root_of m as \<notin> (\<lambda>j. baseof (pde m (root_of m as) j)) ` set ?u"
  proof
    assume "root_of m as \<in> (\<lambda>j. baseof (pde m (root_of m as) j)) ` set ?u"
    then obtain j where j: "root_of m as = baseof (pde m (root_of m as) j)" "j < 1024"
      "pde m (root_of m as) j AND PTE_P \<noteq> 0"
      by auto
    show False using as_okD(5) [OF assms j(2,3)] j(1) by metis
  qed
  ultimately show ?thesis by (simp add: user_tables_def distinct_map)
qed

section \<open>protect\<close>

definition kernel_index :: "nat \<Rightarrow> bool" where
  "kernel_index i \<longleftrightarrow> i < 256 \<or> 1012 \<le> i"

text \<open>A directory that has only the kernel's tables, none twice.\<close>

definition kdir_ok :: "cmem \<Rightarrow> u32 \<Rightarrow> bool" where
  "kdir_ok m k \<longleftrightarrow> page_aligned k \<and>
     (\<forall>i < 1024. pde m k i AND PTE_P \<noteq> 0 \<longrightarrow> kernel_index i \<and> baseof (pde m k i) \<noteq> k) \<and>
     (\<forall>i < 1024. \<forall>j < 1024. pde m k i AND PTE_P \<noteq> 0 \<longrightarrow> pde m k j AND PTE_P \<noteq> 0 \<longrightarrow>
        baseof (pde m k i) = baseof (pde m k j) \<longrightarrow> i = j)"

lemma pd_index_next:
  assumes "pd_index cur + 1 < 1024"
  shows "pd_index (cur + push_bit 22 1) = pd_index cur + 1"
proof -
  have "unat cur div 2 ^ 22 < 1023" using assms by (simp add: index_values)
  then have "unat cur + 2 ^ 22 < 2 ^ 32" by simp
  then have "unat (cur + push_bit 22 1) = unat cur + 2 ^ 22" by (subst unat_word_ariths(1)) simp
  then show ?thesis by (simp add: index_values)
qed

lemma share_entries:
  "page_aligned u \<Longrightarrow> page_aligned k \<Longrightarrow> u \<noteq> k \<Longrightarrow> pd_index cur + n \<le> 1024 \<Longrightarrow>
   \<exists>m'. share_kernel_entries u k cur n m = Inr m' \<and>
     (\<forall>i. pd_index cur \<le> i \<and> i < pd_index cur + n \<longrightarrow> pde m' u i = pde m k i) \<and>
     (\<forall>a. a \<notin> field u ` {pd_index cur..<pd_index cur + n} \<longrightarrow> m' a = m a)"
proof (induction n arbitrary: cur m)
  case (Suc n)
  let ?i = "pd_index cur" and ?cur = "cur + push_bit 22 1"
  let ?m = "m(field u ?i := m (field k ?i))"
  show ?case
  proof (cases n)
    case 0
    then show ?thesis using Suc.prems by (auto simp: Let_def pde_def le_less_Suc_eq)
  next
    case (Suc n')
    then have nx: "pd_index ?cur = ?i + 1" using Suc.prems(4) by (intro pd_index_next) simp
    obtain m' where m': "share_kernel_entries u k ?cur n ?m = Inr m'"
      "\<forall>i. ?i + 1 \<le> i \<and> i < ?i + 1 + n \<longrightarrow> pde m' u i = pde ?m k i"
      "\<forall>a. a \<notin> field u ` {?i + 1..<?i + 1 + n} \<longrightarrow> m' a = ?m a"
      using Suc.IH [of ?cur ?m] Suc.prems nx by (auto simp del: fun_upd_apply)
    have "field u ?i \<notin> field u ` {?i + 1..<?i + 1 + n}" using Suc.prems(1,4) by auto
    then have f: "pde m' u ?i = pde m k ?i" using m'(3) by (simp add: pde_def)
    have "pde ?m k i = pde m k i" if "i < 1024" for i using that Suc.prems(1-3) by (simp add: pde_def)
    then have "pde m' u i = pde m k i" if "?i \<le> i" "i < ?i + Suc n" for i
      using m'(2) f that Suc.prems(4) by (cases "i = ?i") auto
    moreover have "m' a = m a" if "a \<notin> field u ` {?i..<?i + Suc n}" for a
    proof -
      have "a \<notin> field u ` {?i + 1..<?i + 1 + n}" "a \<noteq> field u ?i" using that by auto
      with m'(3) show ?thesis by simp
    qed
    moreover have "share_kernel_entries u k cur (Suc n) m = Inr m'"
      using m'(1) Suc.prems(1,2) by (simp add: Let_def)
    ultimately show ?thesis by blast
  qed
qed auto

lemma share_areas:
  assumes "page_aligned u" "page_aligned k" "u \<noteq> k"
  shows "\<exists>m'. share_kernel_areas u k vm_areas m = Inr m' \<and>
    (\<forall>i < 1024. pde m' u i = (if kernel_index i then pde m k i else pde m u i)) \<and>
    (\<forall>a. baseof a \<noteq> u \<longrightarrow> m' a = m a)"
proof -
  have p: "pd_index 0 = 0" "pd_index 0xfd000000 = 1012" by (simp_all add: index_values)
  obtain m1 where m1: "share_kernel_entries u k 0 256 m = Inr m1"
    "\<forall>i. 0 \<le> i \<and> i < 256 \<longrightarrow> pde m1 u i = pde m k i" "\<forall>a. a \<notin> field u ` {0..<256} \<longrightarrow> m1 a = m a"
    using share_entries [OF assms, of 0 256 m] p by auto
  obtain m2 where m2: "share_kernel_entries u k 0xfd000000 12 m1 = Inr m2"
    "\<forall>i. 1012 \<le> i \<and> i < 1024 \<longrightarrow> pde m2 u i = pde m1 k i" "\<forall>a. a \<notin> field u ` {1012..<1024} \<longrightarrow> m2 a = m1 a"
    using share_entries [OF assms, of "0xfd000000" 12 m1] p by auto
  have out: "field k i \<notin> field u ` A" if "i < 1024" "A \<subseteq> {0..<1024}" for i A
    using that assms by auto
  have k1: "pde m1 k i = pde m k i" if "i < 1024" for i
    using m1(3) out [OF that, of "{0..<256}"] by (simp add: pde_def)
  have far: "field u i \<notin> field u ` A" if "i < 1024" "i \<notin> A" "A \<subseteq> {0..<1024}" for i A
    using that assms(1) by auto
  have "pde m2 u i = (if kernel_index i then pde m k i else pde m u i)" if i: "i < 1024" for i
  proof (cases "1012 \<le> i")
    case True
    then show ?thesis using i m2(2) k1 by (simp add: kernel_index_def)
  next
    case False
    then have "pde m2 u i = pde m1 u i" using m2(3) far [OF i, of "{1012..<1024}"] by (simp add: pde_def)
    moreover have "pde m1 u i = (if i < 256 then pde m k i else pde m u i)"
      using m1(2,3) far [OF i, of "{0..<256}"] by (simp add: pde_def)
    ultimately show ?thesis using False by (simp add: kernel_index_def)
  qed
  moreover have "m2 a = m a" if "baseof a \<noteq> u" for a
  proof -
    have "a \<notin> field u ` {0..<256}" "a \<notin> field u ` {1012..<1024}" using that assms(1) by auto
    with m1(3) m2(3) show ?thesis by simp
  qed
  moreover have "share_kernel_areas u k vm_areas m = Inr m2"
    using m1(1) m2(1) by (simp add: vm_areas_def area_pages_def)
  ultimately show ?thesis by blast
qed

lemma translate_no_table: "pde m r (pd_index va) AND PTE_P = 0 \<Longrightarrow> x86_translate m r va = None"
  by (simp add: x86_translate_def)

lemma vmap_no_table: "pde m (root_of m as) (pd_index va) AND PTE_P = 0 \<Longrightarrow> vmap m as va = None"
  by (simp add: vmap_def translate_no_table)

lemma x86_protect_ok:
  assumes "kdir_ok (xmem s) (kpt s)" "x_pgalloc s = Some f" "f 4096 (xheap s) = (p, h)"
    and "page_aligned p" "p \<noteq> 0" "p \<notin> tables (xmem s) (kpt s)" "aligned as"
    and "\<forall>i < 4. baseof (field as i) \<notin> insert p (tables (xmem s) (kpt s))"
  shows "\<exists>s'. x86_protect as s = Inr s' \<and> as_wf (xmem s') as \<and> root_of (xmem s') as = p \<and>
    xmem s' (as_ptr_at as) = p OR PTE_P OR PTE_U \<and> x_pgfree s' = x_pgfree s \<and>
    (\<forall>va. page_aligned va \<longrightarrow> vmap (xmem s') as va = x86_translate (xmem s) (kpt s) va)"
proof -
  let ?k = "kpt s" and ?m = "xmem s"
  let ?m1 = "\<lambda>a. if a \<in> field p ` {0..<1024} then 0 else ?m a"
  have k: "page_aligned ?k" "p \<noteq> ?k" using assms(1,6) by (auto simp: kdir_ok_def tables_def)
  have off: "a \<notin> field p ` {0..<1024}" if "baseof a \<noteq> p" for a
    using that baseof_slot [OF assms(4)] by auto
  obtain m2 where m2: "share_kernel_areas p ?k vm_areas ?m1 = Inr m2"
    "\<forall>i < 1024. pde m2 p i = (if kernel_index i then pde ?m1 ?k i else pde ?m1 p i)"
    "\<forall>a. baseof a \<noteq> p \<longrightarrow> m2 a = ?m1 a"
    using share_areas [OF assms(4) k, of ?m1] by blast
  let ?e = "p OR PTE_P OR PTE_U"
  define m3 where "m3 = m2(field as 0 := x86_pgsize, field as 1 := va_start uvm_area, field as 2 := va_end uvm_area, field as 3 := ?e)"
  have p1: "x86_protect as s = Inr (s\<lparr>xheap := h, xmem := m3\<rparr>)"
  proof -
    have "pgallocz s = Inr (p, s\<lparr>xmem := ?m1, xheap := h\<rparr>)"
      using assms(2-5) zero_words_ok [of p 0 1024 ?m] by (simp add: pgallocz_def del: zero_words.simps)
    then show ?thesis
      using m2(1) assms(7) by (simp add: x86_protect_def as_ptr_at_def m3_def del: share_kernel_areas.simps)
  qed
  have as_off: "m3 a = m2 a" if "baseof a \<in> insert p (tables ?m ?k)" for a
  proof -
    have "a \<noteq> field as i" if "i < 4" for i using assms(8) that \<open>baseof a \<in> insert p (tables ?m ?k)\<close> by metis
    from this [of 0] this [of 1] this [of 2] this [of 3] show ?thesis by (simp add: m3_def)
  qed
  have d: "pde m3 p i = pde ?m ?k i \<or> pde m3 p i AND PTE_P = 0 \<and> pde ?m ?k i AND PTE_P = 0" if i: "i < 1024" for i
  proof -
    have "pde m3 p i = pde m2 p i" using as_off [of "field p i"] assms(4) i by (simp add: pde_def del: fun_upd_apply)
    moreover have "pde ?m1 ?k i = pde ?m ?k i" using off [of "field ?k i"] k i by (simp add: pde_def)
    moreover have "pde ?m1 p i = 0" using i by (simp add: pde_def)
    ultimately show ?thesis using m2(2) i assms(1) by (auto simp: kdir_ok_def)
  qed
  then have dp: "pde m3 p i AND PTE_P \<noteq> 0 \<longleftrightarrow> pde ?m ?k i AND PTE_P \<noteq> 0"
    "pde m3 p i AND PTE_P \<noteq> 0 \<Longrightarrow> pde m3 p i = pde ?m ?k i" if "i < 1024" for i
    using that by (metis+)
  have tp: "baseof (pde ?m ?k i) \<in> tables ?m ?k" if "i < 1024" "pde ?m ?k i AND PTE_P \<noteq> 0" for i
    using that by (auto simp: tables_def)
  have ptr: "m3 (as_ptr_at as) = ?e" by (simp add: as_ptr_at_def m3_def)
  have r: "root_of m3 as = p" using assms(4) unfolding root_of_def ptr by simp
  have t: "tables m3 p \<subseteq> insert p (tables ?m ?k)"
  proof
    fix x assume "x \<in> tables m3 p"
    then consider "x = p" | i where "x = baseof (pde m3 p i)" "i < 1024" "pde m3 p i AND PTE_P \<noteq> 0"
      unfolding tables_def by blast
    then show "x \<in> insert p (tables ?m ?k)"
    proof cases
      case 2
      then show ?thesis using dp [of i] tp [of i] by auto
    qed simp
  qed
  have "as_ok m3 as"
    unfolding as_ok_def r ptr
  proof (intro conjI allI impI)
    show "?e AND PTE_P \<noteq> 0" by (auto simp: present_bits bit_or_iff bit_flags)
    show "baseof (as_ptr_at as) \<notin> tables m3 p" using t assms(8) [rule_format, of 3] by (auto simp: as_ptr_at_def)
  next
    fix i assume "i < 1024" "pde m3 p i AND PTE_P \<noteq> 0"
    then show "baseof (pde m3 p i) \<noteq> p" using dp tp assms(6) by metis
  next
    fix i j assume "i < 1024" "j < 1024" "pde m3 p i AND PTE_P \<noteq> 0" "pde m3 p j AND PTE_P \<noteq> 0"
      "baseof (pde m3 p i) = baseof (pde m3 p j)"
    then show "i = j" using dp assms(1) unfolding kdir_ok_def by metis
  qed (rule assms(7))
  moreover have "user_dir m3 p"
    unfolding user_dir_def
  proof (intro allI impI)
    fix i assume i: "256 \<le> i \<and> i < 512" "pde m3 p i AND PTE_P \<noteq> 0"
    then have "kernel_index i" using dp(1) [of i] assms(1) unfolding kdir_ok_def by auto
    then show "pde m3 p i AND PTE_W \<noteq> 0 \<and> pde m3 p i AND PTE_U \<noteq> 0" using i(1) by (simp add: kernel_index_def)
  qed
  moreover have "vmap m3 as va = x86_translate ?m ?k va" if "page_aligned va" for va
  proof (cases "pde ?m ?k (pd_index va) AND PTE_P = 0")
    case True
    then have "pde m3 p (pd_index va) AND PTE_P = 0" using dp(1) [of "pd_index va"] by (metis index_bounds(1))
    then have "vmap m3 as va = None" by (intro vmap_no_table) (simp only: r)
    then show ?thesis using True by (simp only: translate_no_table)
  next
    case False
    let ?t = "baseof (pde ?m ?k (pd_index va))"
    have t1: "?t \<in> tables ?m ?k" using tp False by simp
    then have t2: "baseof (field ?t (pt_index va)) \<noteq> p" using assms(6) by auto
    have "m3 (field ?t (pt_index va)) = m2 (field ?t (pt_index va))"
      by (rule as_off) (use t1 in simp)
    also have "\<dots> = ?m (field ?t (pt_index va))" using m2(3) off [OF t2] t2 by simp
    finally have "m3 (field ?t (pt_index va)) = ?m (field ?t (pt_index va))" .
    moreover have "pde m3 p (pd_index va) = pde ?m ?k (pd_index va)"
      using dp [of "pd_index va"] False by (metis index_bounds(1))
    ultimately show ?thesis using that unfolding vmap_def x86_translate_def r Let_def by (simp only: if_True)
  qed
  ultimately show ?thesis using p1 r ptr by (simp add: as_wf_def del: fun_upd_apply)
qed

section \<open>vme\_init\<close>

text \<open>The pages the allocator hands out, one after the other.\<close>

definition heap_after :: "'h pgalloc \<Rightarrow> 'h \<Rightarrow> nat \<Rightarrow> 'h" where
  "heap_after f h n = ((\<lambda>h. snd (f 4096 h)) ^^ n) h"

definition page_nth :: "'h pgalloc \<Rightarrow> 'h \<Rightarrow> nat \<Rightarrow> u32" where
  "page_nth f h n = fst (f 4096 (heap_after f h n))"

lemma alloc_nth: "f 4096 (heap_after f h n) = (page_nth f h n, heap_after f h (Suc n))"
  by (simp add: heap_after_def page_nth_def)

text \<open>The first \<open>n\<close> pages are aligned, different, not null and do not contain the word at \<open>a\<close>.\<close>

definition good_pages :: "'h pgalloc \<Rightarrow> 'h \<Rightarrow> nat \<Rightarrow> u32 \<Rightarrow> bool" where
  "good_pages f h n a \<longleftrightarrow> inj_on (page_nth f h) {..<n} \<and>
     (\<forall>i < n. page_aligned (page_nth f h i) \<and> page_nth f h i \<noteq> 0 \<and> page_nth f h i \<noteq> baseof a)"

definition present :: "cmem \<Rightarrow> u32 \<Rightarrow> nat set" where
  "present m root = {i. i < 1024 \<and> pde m root i AND PTE_P \<noteq> 0}"

text \<open>The kernel's directory under construction.\<close>

definition building :: "'h pgalloc \<Rightarrow> 'h \<Rightarrow> u32 \<Rightarrow> 'h x86_vm \<Rightarrow> bool" where
  "building f h as s \<longleftrightarrow>
     (let r = root_of (xmem s) as; P = present (xmem s) r; k = Suc (card P) in
      as_ok (xmem s) as \<and> x_pgalloc s = Some f \<and> xheap s = heap_after f h k \<and>
      tables (xmem s) r \<subseteq> page_nth f h ` {..<k} \<and> P \<subseteq> {i. kernel_index i} \<and>
      (\<forall>i \<in> P. pde (xmem s) r i AND PTE_W \<noteq> 0 \<and> pde (xmem s) r i AND PTE_U = 0))"

lemma present_insert:
  assumes "i < 1024" "pde m' r i AND PTE_P \<noteq> 0"
    and "\<And>j. j < 1024 \<Longrightarrow> j \<noteq> i \<Longrightarrow> pde m' r j = pde m r j"
  shows "present m' r = insert i (present m r)"
proof (rule set_eqI)
  fix j
  show "j \<in> present m' r \<longleftrightarrow> j \<in> insert i (present m r)"
    using assms(1,2) assms(3) [of j] by (cases "j = i") (auto simp: present_def)
qed

lemma card_kernel_index: "card {i. kernel_index i \<and> i < 1024} = 268"
proof -
  have "{i. kernel_index i \<and> i < 1024} = {..<256} \<union> {1012..<1024}" by (auto simp: kernel_index_def)
  moreover have "card ({..<256} \<union> {1012..<1024 :: nat}) = 268" by (subst card_Un_disjoint) auto
  ultimately show ?thesis by simp
qed

text \<open>One page of the loop.\<close>

lemma map_kernel_page:
  assumes "building f h as s" "good_pages f h 269 (as_ptr_at as)" "page_aligned cur" "kernel_index (pd_index cur)"
  shows "\<exists>s1 slot. ptwalk as cur PTE_W s = Inr (slot, s1) \<and> aligned slot \<and>
    building f h as (s1\<lparr>xmem := (xmem s1)(slot := cur OR PTE_P OR PTE_W)\<rparr>) \<and> 
    x_pgfree s1 = x_pgfree s \<and> kpt s1 = kpt s \<and> cr0 s1 = cr0 s \<and>
    vmap ((xmem s1)(slot := cur OR PTE_P OR PTE_W)) as = (vmap (xmem s) as)(cur \<mapsto> (cur, True, False))"
proof -
  let ?r = "root_of (xmem s) as" and ?i = "pd_index cur" and ?e = "cur OR PTE_P OR PTE_W"
  let ?P = "present (xmem s) ?r"
  note b = assms(1) [unfolded building_def Let_def]
  have ok: "as_ok (xmem s) as" using b by blast
  note wf = as_okD [OF ok]
  have step: "\<exists>d s1. ptwalk as cur PTE_W s = Inr (field (baseof d) (pt_index cur), s1) \<and>
    building f h as s1 \<and> vmap (xmem s1) as = vmap (xmem s) as \<and> x_pgfree s1 = x_pgfree s \<and> kpt s1 = kpt s \<and>
    cr0 s1 = cr0 s \<and> d = pde (xmem s1) (root_of (xmem s1) as) ?i \<and> d AND PTE_P \<noteq> 0"
  proof (cases "pde (xmem s) ?r ?i AND PTE_P = 0")
    case False
    then show ?thesis using ptwalk_present [OF wf(1,2) False] assms(1) by blast
  next
    case True
    define k where "k = Suc (card ?P)"
    define p where "p = page_nth f h k"
    have fin: "finite ?P" by (simp add: present_def)
    have new: "?i \<notin> ?P" using True by (simp add: present_def)
    have "insert ?i ?P \<subseteq> {i. kernel_index i \<and> i < 1024}" using b assms(4) by (auto simp: present_def)
    then have "card (insert ?i ?P) \<le> card {i. kernel_index i \<and> i < 1024}" by (rule card_mono [rotated]) simp
    then have k: "k < 269" using new fin by (simp add: card_kernel_index k_def)
    note g = assms(2) [unfolded good_pages_def]
    have p: "page_aligned p" "p \<noteq> 0" "p \<noteq> baseof (as_ptr_at as)" using g k unfolding p_def by blast+
    have "p \<notin> page_nth f h ` {..<k}"
    proof
      assume "p \<in> page_nth f h ` {..<k}"
      then obtain j where j: "j < k" "p = page_nth f h j" by auto
      then have "k = j" using inj_onD [OF conjunct1 [OF g] j(2) [unfolded p_def]] k by simp
      with j(1) show False by simp
    qed
    then have pt: "p \<notin> tables (xmem s) ?r" using b unfolding k_def by blast
    define m where "m = (\<lambda>a. if a \<in> field p ` {0..<1024} then 0 else xmem s a)(field ?r ?i := p OR PTE_P OR PTE_W)"
    let ?s1 = "s\<lparr>xmem := m, xheap := heap_after f h (Suc k)\<rparr>"
    have al: "x_pgalloc s = Some f" using b by blast
    have "xheap s = heap_after f h k" using b unfolding k_def by blast
    then have pa: "f 4096 (xheap s) = (p, heap_after f h (Suc k))" by (simp only: alloc_nth p_def)
    have w: "ptwalk as cur PTE_W s = Inr (field p (pt_index cur), ?s1)"
      unfolding m_def by (rule ptwalk_fresh [OF wf(1,2) True al pa p(1,2)])
    have i': "?i < 1024" and fl: "\<forall>n. bit PTE_W n \<longrightarrow> n < 12" by (auto simp: bit_flags)
    note a = add_table [OF ok i' fl True p(1) pt p(3) m_def]
    have e: "(p OR PTE_P OR PTE_W) AND PTE_P \<noteq> 0"
      "(p OR PTE_P OR PTE_W) AND PTE_W \<noteq> 0" "(p OR PTE_P OR PTE_W) AND PTE_U = 0"
      using page_low_bits [OF p(1)] by (auto simp: present_bits bit_or_iff bit_and_iff bit_flags)
    have P: "present m ?r = insert ?i ?P"
      by (rule present_insert) (use a(4,5) e(1) in simp_all)
    then have c: "Suc (card (present m ?r)) = Suc k" using new fin by (simp add: k_def)
    have t: "tables m ?r \<subseteq> page_nth f h ` {..<Suc k}" unfolding a(6) using b by (auto simp: k_def [symmetric] p_def)
    have "building f h as ?s1"
      unfolding building_def Let_def
    proof (intro conjI ballI)
      fix j assume "j \<in> present (xmem ?s1) (root_of (xmem ?s1) as)"
      then have j: "j \<in> insert ?i ?P" using a(2) P by simp
      show "pde (xmem ?s1) (root_of (xmem ?s1) as) j AND PTE_W \<noteq> 0"
        "pde (xmem ?s1) (root_of (xmem ?s1) as) j AND PTE_U = 0"
        using j a(2,4) a(5) [of j] e(2,3) b by (cases "j = ?i"; simp add: present_def)+
    qed (use a(1,2) P c t b assms(4) in \<open>simp_all add: present_def [symmetric]\<close>)
    moreover have "pde m ?r ?i AND PTE_P \<noteq> 0" "baseof (pde m ?r ?i) = p"
      unfolding a(4) using e(1) baseof_or [OF p(1) fl] by simp_all
    ultimately show ?thesis
      using w a(2,3) by (intro exI [of _ "pde m ?r ?i"] exI [of _ ?s1]) simp
  qed
  then obtain d s1 where w: "ptwalk as cur PTE_W s = Inr (field (baseof d) (pt_index cur), s1)"
    and s1: "building f h as s1" "vmap (xmem s1) as = vmap (xmem s) as" "x_pgfree s1 = x_pgfree s" "kpt s1 = kpt s"
      "cr0 s1 = cr0 s"
    and d: "d = pde (xmem s1) (root_of (xmem s1) as) ?i" "d AND PTE_P \<noteq> 0"
    by blast
  let ?slot = "field (baseof d) (pt_index cur)" and ?r1 = "root_of (xmem s1) as"
  define m2 where "m2 = (xmem s1)(?slot := ?e)"
  note b1 = s1(1) [unfolded building_def Let_def]
  have ok1: "as_ok (xmem s1) as" using b1 by blast
  note u = set_pte [OF ok1 assms(3) d m2_def]
  have P: "present m2 ?r1 = present (xmem s1) ?r1" using u(5) by (auto simp: present_def)
  have "building f h as (s1\<lparr>xmem := m2\<rparr>)"
    using b1 u(1-3,5) P unfolding building_def Let_def by (simp add: present_def del: fun_upd_apply)
  moreover have "d AND PTE_W \<noteq> 0" "d AND PTE_U = 0" using b1 d by (auto simp: present_def)
  moreover have "?e AND PTE_P \<noteq> 0" "?e AND PTE_W \<noteq> 0" "?e AND PTE_U = 0" "baseof ?e = cur"
    using page_low_bits [OF assms(3)] assms(3) by (auto simp: present_bits bit_or_iff bit_flags)
  ultimately show ?thesis
    using w s1(2-) u(6) unfolding m2_def by (intro exI [of _ s1] exI [of _ ?slot]) simp
qed

text \<open>The pages of a range of addresses that does not wrap around.\<close>

definition page_range :: "u32 \<Rightarrow> nat \<Rightarrow> u32 set" where
  "page_range cur n = {va. page_aligned va \<and> unat cur \<le> unat va \<and> unat va < unat cur + n * 4096}"

lemma page_multiple: "page_aligned p \<Longrightarrow> \<exists>q. unat p = q * 4096"
  using unat_baseof [of p] by (auto simp: page_aligned_def)

lemma next_page:
  assumes "page_aligned cur" "unat cur + 4096 < 2 ^ 32"
  shows "unat (cur + x86_pgsize) = unat cur + 4096" "page_aligned (cur + x86_pgsize)"
proof -
  show u: "unat (cur + x86_pgsize) = unat cur + 4096"
    using assms(2) by (subst unat_word_ariths(1)) (simp add: x86_pgsize_def)
  obtain q where "unat cur = q * 4096" using page_multiple [OF assms(1)] by blast
  then show "page_aligned (cur + x86_pgsize)"
    unfolding page_aligned_def by (intro word_unat_eq_iff [THEN iffD2]) (simp add: unat_baseof u)
qed

lemma page_range_Suc:
  assumes "page_aligned cur" "unat cur + n * 4096 + 4096 \<le> 2 ^ 32" "0 < n"
  shows "page_range cur (Suc n) = insert cur (page_range (cur + x86_pgsize) n)" (is "?A = ?B")
proof (rule set_eqI)
  fix va
  have u: "unat (cur + x86_pgsize) = unat cur + 4096" using next_page [OF assms(1)] assms(2,3) by simp
  obtain q where q: "unat cur = q * 4096" using page_multiple [OF assms(1)] by blast
  show "va \<in> ?A \<longleftrightarrow> va \<in> ?B"
  proof (cases "page_aligned va")
    case True
    then obtain r where r: "unat va = r * 4096" using page_multiple by blast
    have "va = cur \<longleftrightarrow> r = q" using q r by (simp add: word_unat_eq_iff)
    then show ?thesis using True u q r by (auto simp: page_range_def)
  qed (use assms(1) in \<open>auto simp: page_range_def\<close>)
qed

lemma page_range_1: "page_aligned cur \<Longrightarrow> page_range cur (Suc 0) = {cur}"
proof (rule set_eqI)
  fix va assume c: "page_aligned cur"
  then obtain q where q: "unat cur = q * 4096" using page_multiple by blast
  show "va \<in> page_range cur (Suc 0) \<longleftrightarrow> va \<in> {cur}"
  proof (cases "page_aligned va")
    case True
    then obtain r where r: "unat va = r * 4096" using page_multiple by blast
    have "va = cur \<longleftrightarrow> r = q" using q r by (simp add: word_unat_eq_iff)
    then show ?thesis using True q r by (auto simp: page_range_def)
  qed (use c in \<open>auto simp: page_range_def\<close>)
qed

lemma map_kernel_range:
  "building f h as s \<Longrightarrow> good_pages f h 269 (as_ptr_at as) \<Longrightarrow> page_aligned cur \<Longrightarrow>
   unat cur + n * 4096 \<le> 2 ^ 32 \<Longrightarrow> \<forall>va \<in> page_range cur n. kernel_index (pd_index va) \<Longrightarrow>
   \<exists>s'. map_kernel_pages as cur n s = Inr s' \<and> building f h as s' \<and>
     x_pgfree s' = x_pgfree s \<and> kpt s' = kpt s \<and> cr0 s' = cr0 s \<and>
     vmap (xmem s') as = (\<lambda>va. if va \<in> page_range cur n then Some (va, True, False) else vmap (xmem s) as va)"
proof (induction n arbitrary: cur s)
  case 0
  have "page_range cur 0 = {}" by (auto simp: page_range_def)
  with 0 show ?case by simp
next
  case (Suc n)
  have cur: "cur \<in> page_range cur (Suc n)" using Suc.prems(3) by (simp add: page_range_def)
  then have ki: "kernel_index (pd_index cur)" using Suc.prems(5) by blast
  obtain s1 slot where 1: "ptwalk as cur PTE_W s = Inr (slot, s1)" "aligned slot"
    "building f h as (s1\<lparr>xmem := (xmem s1)(slot := cur OR PTE_P OR PTE_W)\<rparr>)" (is "building f h as ?s2")
    "x_pgfree s1 = x_pgfree s" "kpt s1 = kpt s" "cr0 s1 = cr0 s"
    "vmap ((xmem s1)(slot := cur OR PTE_P OR PTE_W)) as = (vmap (xmem s) as)(cur \<mapsto> (cur, True, False))"
    using map_kernel_page [OF Suc.prems(1-3) ki] by blast
  have step: "map_kernel_pages as cur (Suc n) s = map_kernel_pages as (cur + x86_pgsize) n ?s2"
    using 1(1,2) by simp
  show ?case
  proof (cases n)
    case 0
    then have "map_kernel_pages as cur (Suc n) s = Inr ?s2" using step by simp
    moreover have "vmap (xmem ?s2) as =
        (\<lambda>va. if va \<in> page_range cur (Suc n) then Some (va, True, False) else vmap (xmem s) as va)"
      using 0 page_range_1 [OF Suc.prems(3)] by (simp add: 1(7) fun_eq_iff del: fun_upd_apply) auto
    ultimately show ?thesis using 1(3-6) by (intro exI [of _ ?s2]) (simp del: map_kernel_pages.simps fun_upd_apply)
  next
    case (Suc n')
    have R: "page_range cur (Suc n) = insert cur (page_range (cur + x86_pgsize) n)"
      using Suc.prems(3,4) Suc by (intro page_range_Suc) simp_all
    have nx: "unat (cur + x86_pgsize) = unat cur + 4096" "page_aligned (cur + x86_pgsize)"
      using next_page [OF Suc.prems(3)] Suc.prems(4) Suc by simp_all
    obtain s' where s': "map_kernel_pages as (cur + x86_pgsize) n ?s2 = Inr s'" "building f h as s'"
      "x_pgfree s' = x_pgfree ?s2" "kpt s' = kpt ?s2" "cr0 s' = cr0 ?s2"
      "vmap (xmem s') as = (\<lambda>va. if va \<in> page_range (cur + x86_pgsize) n then Some (va, True, False) else vmap (xmem ?s2) as va)"
      using Suc.IH [OF 1(3) Suc.prems(2) nx(2)] nx(1) Suc.prems(4,5) R by auto
    have "vmap (xmem s') as =
        (\<lambda>va. if va \<in> page_range cur (Suc n) then Some (va, True, False) else vmap (xmem s) as va)"
      unfolding s'(6) R using 1(7) by (simp add: fun_eq_iff del: fun_upd_apply) auto
    then show ?thesis
      using step s'(1-5) 1(4-6) by (intro exI [of _ s']) (simp del: map_kernel_pages.simps fun_upd_apply)
  qed
qed

text \<open>The first page of all also makes the directory.\<close>

definition with_root :: "'h pgalloc \<Rightarrow> 'h \<Rightarrow> u32 \<Rightarrow> 'h x86_vm \<Rightarrow> 'h x86_vm" where
  "with_root f h as s =
     s\<lparr>xmem := (\<lambda>a. if a \<in> field (page_nth f h 0) ` {0..<1024} then 0 else xmem s a)
        (as_ptr_at as := page_nth f h 0 OR PTE_P OR PTE_W), xheap := heap_after f h 1\<rparr>"

lemma with_root:
  assumes "aligned as" "xmem s (as_ptr_at as) = 0" "x_pgalloc s = Some f" "good_pages f h 269 (as_ptr_at as)"
    and "xheap s = h"
  shows "ptwalk as cur PTE_W s = ptwalk as cur PTE_W (with_root f h as s)"
    "building f h as (with_root f h as s)" "vmap (xmem (with_root f h as s)) as = Map.empty"
proof -
  define p where "p = page_nth f h 0"
  have g: "page_aligned p" "p \<noteq> 0" "p \<noteq> baseof (as_ptr_at as)"
    using assms(4) unfolding good_pages_def p_def by auto
  have h0: "f 4096 h = (p, heap_after f h 1)" by (simp add: p_def page_nth_def heap_after_def)
  let ?m = "(\<lambda>a. if a \<in> field p ` {0..<1024} then 0 else xmem s a)(as_ptr_at as := p OR PTE_P OR PTE_W)"
  have ws: "with_root f h as s = s\<lparr>xmem := ?m, xheap := heap_after f h 1\<rparr>"
    by (simp add: with_root_def p_def)
  have ptr: "?m (as_ptr_at as) = p OR PTE_P OR PTE_W" by simp
  have e: "(p OR PTE_P OR PTE_W) AND PTE_P \<noteq> 0" by (auto simp: present_bits bit_or_iff bit_flags)
  have r: "root_of ?m as = p" using g(1) unfolding root_of_def ptr by simp
  have z: "pde ?m p i = 0" if "i < 1024" for i
  proof -
    have "as_ptr_at as \<noteq> field p i" using g(1,3) baseof_slot [OF g(1) that] by auto
    then show ?thesis using that by (simp add: pde_def)
  qed
  have t: "tables ?m p = {p}" using z by (auto simp: tables_def simp del: fun_upd_apply)
  have pr: "present ?m p = {}" using z by (auto simp: present_def simp del: fun_upd_apply)
  have zw: "zero_words p 0 1024 (xmem s) = Inr (\<lambda>a. if a \<in> field p ` {0..<1024} then 0 else xmem s a)"
    using zero_words_ok [of p 0 1024 "xmem s"] g(1) by simp
  have pt: "pgtables = [pgtables ! 0, pgtables ! 1, pgtables ! 2]" by (simp add: pgtables_def)
  show "ptwalk as cur PTE_W s = ptwalk as cur PTE_W (with_root f h as s)"
    unfolding ws ptwalk_def
    by (subst (1 2) pt) (use assms(1-3,5) g h0 zw e in \<open>simp add: Let_def pgallocz_def del: zero_words.simps\<close>)
  have ok: "as_ok ?m as" using assms(1) e g(3) t z unfolding as_ok_def r ptr by (simp del: fun_upd_apply)
  show "building f h as (with_root f h as s)"
    unfolding building_def Let_def ws using ok r t pr assms(3) by (simp add: p_def del: fun_upd_apply)
  show "vmap (xmem (with_root f h as s)) as = Map.empty"
  proof
    fix va show "vmap (xmem (with_root f h as s)) as va = None"
      unfolding ws using z [of "pd_index va"] r by (intro vmap_no_table) (simp del: fun_upd_apply)
  qed
qed

lemma area_pages_values [simp]:
  "area_pages 12 (vm_areas ! 1) = 262144" "area_pages 12 (vm_areas ! 2) = 12288"
  "va_start (vm_areas ! 1) = 0" "va_start (vm_areas ! 2) = 0xfd000000"
  by (simp_all add: area_pages_def vm_areas_def)

lemma kernel_ranges:
  "va \<in> page_range 0 262144 \<longleftrightarrow> page_aligned va \<and> unat va < 2 ^ 30"
  "va \<in> page_range 0xfd000000 12288 \<longleftrightarrow> page_aligned va \<and> 0xfd000000 \<le> unat va"
proof -
  have "unat va < 2 ^ LENGTH(32)" by (rule unsigned_less)
  then show "va \<in> page_range 0 262144 \<longleftrightarrow> page_aligned va \<and> unat va < 2 ^ 30"
    "va \<in> page_range 0xfd000000 12288 \<longleftrightarrow> page_aligned va \<and> 0xfd000000 \<le> unat va"
    by (auto simp: page_range_def)
qed

lemma kernel_range_index:
  "va \<in> page_range 0 262144 \<Longrightarrow> kernel_index (pd_index va)"
  "va \<in> page_range 0xfd000000 12288 \<Longrightarrow> kernel_index (pd_index va)"
  by (auto simp: kernel_ranges kernel_index_def index_values)

lemma building_kdir:
  assumes "building f h as s"
  shows "kdir_ok (xmem s) (root_of (xmem s) as)"
proof -
  note b = assms [unfolded building_def Let_def]
  have ok: "as_ok (xmem s) as" using b by blast
  have "kernel_index i" if "i < 1024" "pde (xmem s) (root_of (xmem s) as) i AND PTE_P \<noteq> 0" for i
    using b that by (auto simp: present_def)
  then show ?thesis using as_okD(5,6) [OF ok] unfolding kdir_ok_def by (auto)
qed

lemma kernel_tables_bound:
  assumes "kdir_ok m r"
  shows "card (present m r) \<le> 268"
proof -
  have "present m r \<subseteq> {i. kernel_index i \<and> i < 1024}" using assms by (auto simp: kdir_ok_def present_def)
  then have "card (present m r) \<le> card {i. kernel_index i \<and> i < 1024}" by (rule card_mono [rotated]) simp
  then show ?thesis by (simp add: card_kernel_index)
qed

text \<open>What the kernel maps.\<close>

definition kernel_map :: "u32 \<Rightarrow> (u32 \<times> bool \<times> bool) option" where
  "kernel_map va = (if va < 0x40000000 \<or> 0xfd000000 \<le> va then Some (va, True, False) else None)"

lemma x86_vme_init_ok:
  assumes "aligned as" "good_pages f (xheap s) 269 (as_ptr_at as)"
  shows "\<exists>s'. x86_vme_init 0 f g as s = Inr (True, s') \<and> cr3 s' = kpt s' \<and> cr0 s' = cr0 s OR CR0_PG \<and>
    x_pgalloc s' = Some f \<and> x_pgfree s' = Some g \<and> kdir_ok (xmem s') (kpt s') \<and>
    (\<forall>va. page_aligned va \<longrightarrow> x86_translate (xmem s') (kpt s') va = kernel_map va) \<and>
    xheap s' = heap_after f (xheap s) (Suc (card (present (xmem s') (kpt s')))) \<and>
    tables (xmem s') (kpt s') \<subseteq> page_nth f (xheap s) ` {..<Suc (card (present (xmem s') (kpt s')))}"
proof -
  let ?h = "xheap s"
  define s0 where "s0 = s\<lparr>x_pgalloc := Some f, x_pgfree := Some g, xmem := (xmem s)(as_ptr_at as := 0)\<rparr>"
  define s1 where "s1 = with_root f ?h as s0"
  have "xmem s0 (as_ptr_at as) = 0" "x_pgalloc s0 = Some f" "xheap s0 = ?h" by (simp_all add: s0_def)
  note w = with_root [OF assms(1) this(1,2) assms(2) this(3), folded s1_def]
  have k1: "x_pgfree s1 = Some g" "cr0 s1 = cr0 s" by (simp_all add: s1_def with_root_def s0_def)
  obtain s2 where 2: "map_kernel_pages as 0 262144 s1 = Inr s2" "building f ?h as s2"
    "x_pgfree s2 = x_pgfree s1" "kpt s2 = kpt s1" "cr0 s2 = cr0 s1"
    "vmap (xmem s2) as = (\<lambda>va. if va \<in> page_range 0 262144 then Some (va, True, False) else vmap (xmem s1) as va)"
    using map_kernel_range [OF w(2) assms(2), of 0 262144] kernel_range_index(1) by (auto simp: page_aligned_def baseof_def)
  have fd: "page_aligned 0xfd000000" by (simp add: page_aligned_def baseof_def x86_pgsize_def)
  obtain s3 where 3: "map_kernel_pages as 0xfd000000 12288 s2 = Inr s3" "building f ?h as s3"
    "x_pgfree s3 = x_pgfree s2" "kpt s3 = kpt s2" "cr0 s3 = cr0 s2"
    "vmap (xmem s3) as = (\<lambda>va. if va \<in> page_range 0xfd000000 12288 then Some (va, True, False) else vmap (xmem s2) as va)"
    using map_kernel_range [OF 2(2) assms(2) fd, of 12288] kernel_range_index(2) by auto
  have first: "map_kernel_pages as 0 262144 s0 = map_kernel_pages as 0 262144 s1"
  proof -
    have "map_kernel_pages as 0 (Suc n) s0 = map_kernel_pages as 0 (Suc n) s1" for n
      using w(1) by simp
    from this [of 262143] show ?thesis by simp
  qed
  have areas: "map_kernel_areas as vm_areas s0 = Inr s3"
  proof -
    have v: "vm_areas = [vm_areas ! 0, vm_areas ! 1, vm_areas ! 2]" "\<not> va_kernel (vm_areas ! 0)"
      "va_kernel (vm_areas ! 1)" "va_kernel (vm_areas ! 2)"
      by (simp_all add: vm_areas_def)
    show ?thesis by (subst v(1)) (use v(2-) first 2(1) 3(1) in \<open>simp del: map_kernel_pages.simps One_nat_def\<close>)
  qed
  let ?r = "root_of (xmem s3) as"
  define s' where "s' = s3\<lparr>kpt := ?r, cr3 := ?r, cr0 := cr0 s3 OR CR0_PG\<rparr>"
  have run: "x86_vme_init 0 f g as s = Inr (True, s')"
    using assms(1) areas by (simp add: x86_vme_init_def s0_def s'_def guardR_def root_of_def Let_def)
  have tr: "x86_translate (xmem s3) ?r va = kernel_map va" if "page_aligned va" for va
  proof -
    have "x86_translate (xmem s3) ?r va = vmap (xmem s3) as va" using that by (simp add: vmap_def)
    also have "\<dots> = kernel_map va"
      using that by (auto simp: 3(6) 2(6) w(3) kernel_ranges kernel_map_def word_less_nat_alt word_le_nat_alt)
    finally show ?thesis .
  qed
  have "xheap s3 = heap_after f ?h (Suc (card (present (xmem s3) ?r)))"
    "tables (xmem s3) ?r \<subseteq> page_nth f ?h ` {..<Suc (card (present (xmem s3) ?r))}" "x_pgalloc s3 = Some f"
    using 3(2) unfolding building_def Let_def by blast+
  then show ?thesis
    using run building_kdir [OF 3(2)] tr 3(3,5) 2(3,5) k1 by (intro exI [of _ s']) (simp add: s'_def)
qed

section \<open>Isolation\<close>

text \<open>The tables \<open>a\<close> may write to are no tables of \<open>b\<close> and do not contain its structure.\<close>

definition writes_apart :: "cmem \<Rightarrow> u32 \<Rightarrow> u32 \<Rightarrow> bool" where
  "writes_apart m a b \<longleftrightarrow>
     own_tables m (root_of m a) \<inter> insert (baseof (as_ptr_at b)) (tables m (root_of m b)) = {}"

lemma same_tables:
  assumes "same_outside W m m'" "W \<inter> insert (baseof (as_ptr_at b)) (tables m (root_of m b)) = {}"
  shows "root_of m' b = root_of m b" "i < 1024 \<Longrightarrow> pde m' (root_of m b) i = pde m (root_of m b) i"
    "vmap m' b = vmap m b" "as_wf m' b = as_wf m b" "tables m' (root_of m b) = tables m (root_of m b)"
    "own_tables m' (root_of m b) = own_tables m (root_of m b)"
proof -
  let ?r = "root_of m b"
  have st: "m' (as_ptr_at b) = m (as_ptr_at b)" using assms by (auto simp: same_outside_def)
  have k: "\<forall>i < 1024. pde m' ?r i = pde m ?r i"
    using assms by (auto simp: same_outside_def pde_def tables_def)
  show r: "root_of m' b = ?r" using st by (simp add: root_of_def)
  show "i < 1024 \<Longrightarrow> pde m' ?r i = pde m ?r i" using k by simp
  show "tables m' ?r = tables m ?r" "own_tables m' ?r = own_tables m ?r"
    using tables_cong [OF k] own_tables_cong [OF k] by simp_all
  show "as_wf m' b = as_wf m b"
    unfolding as_wf_def r as_ok_cong [OF st k] user_dir_cong [OF k] ..
  show "vmap m' b = vmap m b"
  proof
    fix va
    let ?d = "pde m ?r (pd_index va)"
    have t: "m' (field (baseof ?d) (pt_index va)) = m (field (baseof ?d) (pt_index va))" if "?d AND PTE_P \<noteq> 0"
    proof -
      have "baseof ?d \<in> tables m ?r" using that by (auto simp: tables_def)
      then show ?thesis using assms by (auto simp: same_outside_def)
    qed
    have d: "pde m' ?r (pd_index va) = ?d" using k index_bounds by blast
    show "vmap m' b va = vmap m b va"
      unfolding vmap_def x86_translate_def r d Let_def using t by (cases "?d AND PTE_P = 0") simp_all
  qed
qed

lemma x86_map_isolated:
  assumes "as_wf (xmem s) a" "fresh_page s a" "user_page va" "page_aligned pa"
    and "as_wf (xmem s) b" "writes_apart (xmem s) a b" "writes_apart (xmem s) b a"
    and "new_page s \<notin> insert (baseof (as_ptr_at b)) (tables (xmem s) (root_of (xmem s) b))"
    and "x86_map a va pa prot s = Inr s'"
  shows "vmap (xmem s') b = vmap (xmem s) b" "as_wf (xmem s') b"
    "writes_apart (xmem s') a b" "writes_apart (xmem s') b a"
proof -
  let ?ra = "root_of (xmem s) a" and ?rb = "root_of (xmem s) b"
  let ?W = "insert (new_page s) (own_tables (xmem s) ?ra)"
  have m: "root_of (xmem s') a = ?ra" "same_outside ?W (xmem s) (xmem s')"
    "own_tables (xmem s') ?ra \<subseteq> ?W" "tables (xmem s') ?ra \<subseteq> insert (new_page s) (tables (xmem s) ?ra)"
    using x86_map_steps [OF assms(1-4) refl, of prot] assms(9) by (auto split: if_split_asm)
  have W: "?W \<inter> insert (baseof (as_ptr_at b)) (tables (xmem s) ?rb) = {}"
    using assms(6,8) by (auto simp: writes_apart_def)
  note t = same_tables [OF m(2) this]
  show "vmap (xmem s') b = vmap (xmem s) b" "as_wf (xmem s') b" using t(3,4) assms(5) by simp_all
  have "own_tables (xmem s') ?ra \<inter> insert (baseof (as_ptr_at b)) (tables (xmem s) ?rb) = {}"
    using m(3) W by blast
  then show "writes_apart (xmem s') a b" by (simp only: writes_apart_def m(1) t(1,5))
  have o: "own_tables (xmem s) ?rb \<subseteq> tables (xmem s) ?rb" by (auto simp: own_tables_def tables_def)
  have "own_tables (xmem s) ?rb \<inter> insert (baseof (as_ptr_at a)) (tables (xmem s) ?ra) = {}"
    using assms(7) by (simp only: writes_apart_def)
  moreover have "new_page s \<notin> own_tables (xmem s) ?rb" using o assms(8) by blast
  ultimately have "own_tables (xmem s) ?rb \<inter> insert (baseof (as_ptr_at a)) (tables (xmem s') ?ra) = {}"
    using m(4) by blast
  then show "writes_apart (xmem s') b a" by (simp only: writes_apart_def m(1) t(1,6))
qed

end
