(* ===== verification/X86_Properties.thy ===== *)
theory X86_Properties
  imports X86_Spaces
begin

text \<open>
  Properties of paging on the x86 machine, each with an instance on a small memory: an allocator
  that takes the pages from a list, and one or two address spaces with an empty directory.
\<close>

section \<open>A concrete machine\<close>

definition pop_page :: "u32 list pgalloc" where
  "pop_page n h = (case h of [] \<Rightarrow> (0, []) | p # ps \<Rightarrow> (p, ps))"

definition push_page :: "u32 \<Rightarrow> u32 list \<Rightarrow> u32 list" where
  "push_page p h = p # h"

text \<open>Address spaces at 32 and 64, with directories at 0x10000 and 0x20000.\<close>

definition two_spaces :: "u32 list x86_vm" where
  "two_spaces = \<lparr>xmem = (\<lambda>a. if a = 44 then 0x10007 else if a = 76 then 0x20007 else 0),
     xheap = [0x30000], x_pgalloc = Some pop_page, x_pgfree = Some push_page, kpt = 0, cr0 = 0, cr3 = 0\<rparr>"

definition boot_machine :: "u32 list x86_vm" where
  "boot_machine = two_spaces\<lparr>xheap := map (\<lambda>i. of_nat (i + 256) * 4096) [0..<270]\<rparr>"

lemma two_spaces_simps [simp]:
  "as_ptr_at 32 = 44" "as_ptr_at 64 = 76" "xmem two_spaces 44 = 0x10007" "xmem two_spaces 76 = 0x20007"
  "aligned 32" "aligned 64" "x_pgalloc two_spaces = Some pop_page" "x_pgfree two_spaces = Some push_page"
  "xheap two_spaces = [0x30000]" "fst (pop_page n (p # ps)) = p"
  by (simp_all add: as_ptr_at_def field_def two_spaces_def aligned_def pop_page_def)

lemma baseof_values [simp]:
  "baseof 0x10007 = 0x10000" "baseof 0x20007 = 0x20000" "baseof 44 = 0" "baseof 76 = 0" "baseof 0x30000 = 0x30000"
  "baseof 0x10000 = 0x10000" "baseof 0x20000 = 0x20000"
  by (simp_all add: baseof_def x86_pgsize_def)

lemma two_spaces_roots [simp]:
  "root_of (xmem two_spaces) 32 = 0x10000" "root_of (xmem two_spaces) 64 = 0x20000"
  by (simp_all add: root_of_def)

lemma two_spaces_empty [simp]:
  assumes "page_aligned r" "r \<noteq> 0" "i < 1024"
  shows "pde (xmem two_spaces) r i = 0"
proof -
  have "field r i \<noteq> 44" "field r i \<noteq> 76"
    using assms(2) baseof_slot [OF assms(1,3)] by (metis baseof_values(3), metis baseof_values(4))
  then show ?thesis by (simp add: pde_def two_spaces_def)
qed

lemma two_spaces_tables:
  assumes "page_aligned r" "r \<noteq> 0"
  shows "tables (xmem two_spaces) r = {r}" "own_tables (xmem two_spaces) r = {r}"
  using assms by (auto simp: tables_def own_tables_def)

lemma two_spaces_wf: "as_wf (xmem two_spaces) 32" "as_wf (xmem two_spaces) 64"
proof -
  have p: "page_aligned 0x10000" "page_aligned 0x20000" by (simp_all add: page_aligned_def)
  show "as_wf (xmem two_spaces) 32" "as_wf (xmem two_spaces) 64"
    using p two_spaces_tables [OF p(1)] two_spaces_tables [OF p(2)]
    by (simp_all add: as_wf_def as_ok_def user_dir_def PTE_P_def)
qed

lemma two_spaces_fresh: "fresh_page two_spaces 32" "new_page two_spaces = 0x30000"
proof -
  have p: "page_aligned 0x10000" by (simp add: page_aligned_def)
  show "fresh_page two_spaces 32" "new_page two_spaces = 0x30000"
    using two_spaces_tables [OF p] by (simp_all add: fresh_page_def new_page_def Let_def page_aligned_def)
qed

lemma sample_pages:
  "user_page 0x40000000" "page_aligned 0x5000" "MMAP_WRITE \<noteq> MMAP_NONE" "vmap (xmem two_spaces) 32 0x40000000 = None"
  by (auto simp: user_page_def page_aligned_def baseof_def x86_pgsize_def MMAP_WRITE_def MMAP_NONE_def
      intro!: vmap_no_table)

lemma heap_after_pop: "heap_after pop_page h n = drop n h"
proof (induction n)
  case (Suc n)
  have "heap_after pop_page h (Suc n) = snd (pop_page 4096 (heap_after pop_page h n))" by (simp add: heap_after_def)
  also have "\<dots> = tl (drop n h)" by (simp add: Suc pop_page_def split: list.split)
  finally show ?case by (simp add: drop_Suc drop_tl)
qed (simp add: heap_after_def)

lemma boot_page:
  assumes "i < 270"
  shows "page_nth pop_page (xheap boot_machine) i = of_nat (i + 256) * 4096"
    "unat (page_nth pop_page (xheap boot_machine) i) = (i + 256) * 4096"
proof -
  have l: "drop i (map (\<lambda>i. of_nat (i + 256) * 4096 :: u32) [0..<270]) =
      (of_nat (i + 256) * 4096) # drop (Suc i) (map (\<lambda>i. of_nat (i + 256) * 4096) [0..<270])"
    using assms by (subst Cons_nth_drop_Suc [symmetric]) (simp_all del: upt_conv_Cons)
  then show e: "page_nth pop_page (xheap boot_machine) i = of_nat (i + 256) * 4096"
    by (simp add: page_nth_def heap_after_pop boot_machine_def l pop_page_def del: upt_conv_Cons)
  have w: "(of_nat (i + 256) * 4096 :: u32) = of_nat ((i + 256) * 4096)" by (simp only: of_nat_mult of_nat_numeral)
  have "(i + 256) * 4096 < 2 ^ 32" using assms by simp
  then show "unat (page_nth pop_page (xheap boot_machine) i) = (i + 256) * 4096"
    unfolding e w by (simp only: unat_of_nat len_bit0 len_num1) (simp add: mod_less)
qed

lemma boot_pages: 
  "good_pages pop_page (xheap boot_machine) 270 44"
  "i < 270 \<Longrightarrow> page_nth pop_page (xheap boot_machine) i \<noteq> baseof (field 64 k) \<or> 4 \<le> k"
proof -
  have nz: "page_nth pop_page (xheap boot_machine) i \<noteq> 0" if "i < 270" for i
    using boot_page(2) [OF that] by auto
  have al: "page_aligned (page_nth pop_page (xheap boot_machine) i)" if "i < 270" for i
    unfolding page_aligned_def by (intro word_unat_eq_iff [THEN iffD2]) (simp add: unat_baseof boot_page(2) [OF that])
  have "inj_on (page_nth pop_page (xheap boot_machine)) {..<270}"
  proof (rule inj_onI)
    fix i j assume ij: "i \<in> {..<270}" "j \<in> {..<270}"
      "page_nth pop_page (xheap boot_machine) i = page_nth pop_page (xheap boot_machine) j"
    then have "(i + 256) * 4096 = (j + 256) * 4096" using boot_page(2) by (metis lessThan_iff)
    then show "i = j" by simp
  qed
  then show "good_pages pop_page (xheap boot_machine) 270 44" using nz al by (simp add: good_pages_def)
  have "baseof (field 64 k) = 0" if "k < 4"
  proof -
    have "k = 0 \<or> k = 1 \<or> k = 2 \<or> k = 3" using that by linarith
    then show ?thesis by (auto simp: baseof_def field_def x86_pgsize_def)
  qed
  then show "page_nth pop_page (xheap boot_machine) i \<noteq> baseof (field 64 k) \<or> 4 \<le> k" if "i < 270"
    using nz [OF that] by (cases "k < 4") auto
qed

section \<open>Properties\<close>

text \<open>
  C25: on a well-formed address space \<^verbatim>\<open>map\<close> implements the update of a partial function from pages to
  frames with permissions at one page, for mapping and for unmapping, whether or not a table had
  to be allocated; mapping a mapped page and unmapping an unmapped one panic.
\<close>
theorem map_updates_one_page:
  assumes "as_wf (xmem s) as" "fresh_page s as" "user_page va" "page_aligned pa"
  shows "if (vmap (xmem s) as va = None) = (prot = MMAP_NONE) then x86_map as va pa prot s = Inl Panic
    else \<exists>s'. x86_map as va pa prot s = Inr s' \<and> as_wf (xmem s') as \<and>
      root_of (xmem s') as = root_of (xmem s) as \<and>
      vmap (xmem s') as = (vmap (xmem s) as)(va :=
        if prot = MMAP_NONE then None else Some (pa, prot AND MMAP_WRITE \<noteq> 0, True))"
  using x86_map_steps [OF assms refl, of prot] by (auto split: if_split_asm)

theorem map_updates_one_page_witness:
  "\<exists>s'. x86_map 32 0x40000000 0x5000 MMAP_WRITE two_spaces = Inr s' \<and>
    vmap (xmem s') 32 0x40000000 = Some (0x5000, True, True)"
  using map_updates_one_page [OF two_spaces_wf(1) two_spaces_fresh(1) sample_pages(1,2), of MMAP_WRITE] sample_pages(3,4)
  by (auto simp: MMAP_WRITE_def)

text \<open>
  C26: once \<^verbatim>\<open>vme_init\<close> has run, an address space made by \<^verbatim>\<open>protect\<close> is well formed, maps every page of
  the two kernel areas to itself, writable and for the kernel only, and maps nothing else; paging
  is on and the processor uses the kernel's directory, which maps the same.
\<close>
theorem spaces_share_the_kernel:
  assumes "aligned tmp" "aligned as" "good_pages f (xheap s) 270 (as_ptr_at tmp)"
    and "\<forall>i < 270. \<forall>k < 4. page_nth f (xheap s) i \<noteq> baseof (field as k)"
  shows "\<exists>s1 s2. x86_vme_init 0 f g tmp s = Inr (True, s1) \<and> x86_protect as s1 = Inr s2 \<and>
    cr3 s1 = kpt s1 \<and> cr0 s1 = cr0 s OR CR0_PG \<and> as_wf (xmem s2) as \<and>
    (\<forall>va. page_aligned va \<longrightarrow>
      x86_translate (xmem s1) (cr3 s1) va = kernel_map va \<and> vmap (xmem s2) as va = kernel_map va)"
proof -
  have "good_pages f (xheap s) 269 (as_ptr_at tmp)"
    using assms(3) by (auto simp: good_pages_def intro: inj_on_subset)
  then obtain s1 where s1: "x86_vme_init 0 f g tmp s = Inr (True, s1)" "cr3 s1 = kpt s1" "cr0 s1 = cr0 s OR CR0_PG"
    "x_pgalloc s1 = Some f" "kdir_ok (xmem s1) (kpt s1)"
    "\<forall>va. page_aligned va \<longrightarrow> x86_translate (xmem s1) (kpt s1) va = kernel_map va"
    "xheap s1 = heap_after f (xheap s) (Suc (card (present (xmem s1) (kpt s1))))"
    "tables (xmem s1) (kpt s1) \<subseteq> page_nth f (xheap s) ` {..<Suc (card (present (xmem s1) (kpt s1)))}"
    using x86_vme_init_ok [OF assms(1)] by blast
  define k where "k = Suc (card (present (xmem s1) (kpt s1)))"
  have "k < 270"
    using kernel_tables_bound [OF s1(5)] by (simp add: k_def)
  have al: "f 4096 (xheap s1) = (page_nth f (xheap s) k, heap_after f (xheap s) (Suc k))"
    unfolding s1(7) k_def by (rule alloc_nth)
  have g: "inj_on (page_nth f (xheap s)) {..<270}" "page_aligned (page_nth f (xheap s) k)" "page_nth f (xheap s) k \<noteq> 0"
    using assms(3) \<open>k < 270\<close> by (auto simp: good_pages_def)
  have t: "tables (xmem s1) (kpt s1) \<subseteq> page_nth f (xheap s) ` {..<k}" using s1(8) unfolding k_def .
  have fresh: "page_nth f (xheap s) k \<notin> tables (xmem s1) (kpt s1)"
  proof
    assume "page_nth f (xheap s) k \<in> tables (xmem s1) (kpt s1)"
    then obtain j where j: "j < k" "page_nth f (xheap s) k = page_nth f (xheap s) j" using t by blast
    then have "k = j" using inj_onD [OF g(1) j(2)] \<open>k < 270\<close> by simp
    with j(1) show False by simp
  qed
  have "\<forall>i < 4. baseof (field as i) \<notin> insert (page_nth f (xheap s) k) (tables (xmem s1) (kpt s1))"
  proof (intro allI impI notI)
    fix i assume i: "i < (4 :: nat)" "baseof (field as i) \<in> insert (page_nth f (xheap s) k) (tables (xmem s1) (kpt s1))"
    then have "baseof (field as i) \<in> page_nth f (xheap s) ` {..<Suc k}"
      using t unfolding lessThan_Suc image_insert by blast
    then obtain j where j: "j < Suc k" "baseof (field as i) = page_nth f (xheap s) j" by blast
    have "page_nth f (xheap s) j \<noteq> baseof (field as i)" using assms(4) i(1) j(1) \<open>k < 270\<close> by simp
    with j(2) show False by simp
  qed
  then obtain s2 where "x86_protect as s1 = Inr s2" "as_wf (xmem s2) as"
    "\<forall>va. page_aligned va \<longrightarrow> vmap (xmem s2) as va = x86_translate (xmem s1) (kpt s1) va"
    using x86_protect_ok [OF s1(5,4) al g(2,3) fresh assms(2)] by blast
  then show ?thesis using s1 by auto
qed

theorem spaces_share_the_kernel_witness:
  "\<exists>s1 s2. x86_vme_init 0 pop_page push_page 32 boot_machine = Inr (True, s1) \<and> x86_protect 64 s1 = Inr s2 \<and>
    vmap (xmem s2) 64 0x1000 = Some (0x1000, True, False) \<and> vmap (xmem s2) 64 0x40000000 = None"
proof -
  have p: "\<forall>i < 270. \<forall>k < 4. page_nth pop_page (xheap boot_machine) i \<noteq> baseof (field 64 k)"
    using boot_pages(2) by (metis not_le)
  have v: "page_aligned 0x1000" "page_aligned 0x40000000" by (simp_all add: page_aligned_def baseof_def x86_pgsize_def)
  show ?thesis
    using spaces_share_the_kernel [OF two_spaces_simps(5,6) _ p, where g = push_page] boot_pages(1) v
    by (auto simp: kernel_map_def)
qed

text \<open>
  C27: mapping or unmapping a page in one address space changes neither the pages of another one nor
  what keeps the two apart, while the allocator returns pages that are not in use.
\<close>
theorem spaces_are_isolated:
  assumes "as_wf (xmem s) a" "fresh_page s a" "user_page va" "page_aligned pa"
    and "as_wf (xmem s) b" "writes_apart (xmem s) a b" "writes_apart (xmem s) b a"
    and "new_page s \<notin> insert (baseof (as_ptr_at b)) (tables (xmem s) (root_of (xmem s) b))"
    and "x86_map a va pa prot s = Inr s'"
  shows "vmap (xmem s') b = vmap (xmem s) b \<and> as_wf (xmem s') b \<and>
    writes_apart (xmem s') a b \<and> writes_apart (xmem s') b a"
  using x86_map_isolated [OF assms] by blast

theorem spaces_are_isolated_witness:
  "\<exists>s'. x86_map 32 0x40000000 0x5000 MMAP_WRITE two_spaces = Inr s' \<and> vmap (xmem s') 64 = vmap (xmem two_spaces) 64"
proof -
  have p: "page_aligned 0x10000" "page_aligned 0x20000" by (simp_all add: page_aligned_def)
  note t = two_spaces_tables [OF p(1)] two_spaces_tables [OF p(2)]
  obtain s' where s': "x86_map 32 0x40000000 0x5000 MMAP_WRITE two_spaces = Inr s'"
    using x86_map_steps [OF two_spaces_wf(1) two_spaces_fresh(1) sample_pages(1,2) refl, of MMAP_WRITE] sample_pages(3,4)
    by (auto simp: MMAP_WRITE_def)
  have "writes_apart (xmem two_spaces) 32 64" "writes_apart (xmem two_spaces) 64 32"
    "new_page two_spaces \<notin> insert (baseof (as_ptr_at 64)) (tables (xmem two_spaces) (root_of (xmem two_spaces) 64))"
    using t by (simp_all add: writes_apart_def two_spaces_fresh(2))
  from spaces_are_isolated [OF two_spaces_wf(1) two_spaces_fresh(1) sample_pages(1,2) two_spaces_wf(2) this s']
  show ?thesis using s' by blast
qed

text \<open>
  \<^verbatim>\<open>unprotect\<close> of a well-formed address space frees the tables of its user entries and then its
  directory, no page twice, and leaves memory, and so the shared kernel tables, alone.
\<close>
lemma unprotect_frees_user_tables:
  assumes "as_wf (xmem s) as" "xmem s (as_ptr_at as) AND PTE_U \<noteq> 0" "x_pgfree s = Some g"
  shows "x86_unprotect as s = Inr (s\<lparr>xheap :=
      fold g (user_tables (xmem s) (root_of (xmem s) as) 0 1024 @ [root_of (xmem s) as]) (xheap s)\<rparr>) \<and>
    distinct (user_tables (xmem s) (root_of (xmem s) as) 0 1024 @ [root_of (xmem s) as])"
proof -
  have ok: "as_ok (xmem s) as" using assms(1) by (simp add: as_wf_def)
  show ?thesis
    using x86_unprotect_frees [OF as_okD(1,2) [OF ok] assms(2,3)] user_tables_distinct [OF ok] by blast
qed

end
