(* ===== verification/X86_CTE.thy ===== *)
theory X86_CTE
  imports X86_VM
begin

text \<open>
  Exceptions on the x86 machine, 32-bit: descriptors (\<^verbatim>\<open>am/src/x86/x86.h\<close>), the handler and its tables
  (\<^verbatim>\<open>am/src/x86/qemu/cte.c\<close>), the segments of a processor (\<^verbatim>\<open>trm.c\<close>) and the assembly entry
  (\<^verbatim>\<open>trap32.S\<close>). The processor's delivery of an interrupt and its instruction \<^verbatim>\<open>iret\<close> are as its manual
  has them, without the checks of privileges that do not fail here. Stacks and contexts are in the
  store of words.
\<close>

section \<open>Descriptors\<close>

definition DPL_KERN :: nat where "DPL_KERN = 0"
definition DPL_USER :: nat where "DPL_USER = 3"
definition STA_X :: u32 where "STA_X = 8"
definition STA_W :: u32 where "STA_W = 2"
definition STA_R :: u32 where "STA_R = 2"
definition STS_T32A :: u32 where "STS_T32A = 9"
definition STS_IG :: u32 where "STS_IG = 0xe"
definition STS_TG :: u32 where "STS_TG = 0xf"
definition SEG_TSS :: nat where "SEG_TSS = 5"
definition NR_SEG :: nat where "NR_SEG = 6"
definition NR_IRQ :: nat where "NR_IRQ = 256"

record SegDesc =
  lim_15_0 :: u16
  base_15_0 :: u16
  base_23_16 :: u8
  sd_type :: "4 word"
  sd_s :: "1 word"
  sd_dpl :: "2 word"
  sd_p :: "1 word"
  lim_19_16 :: "4 word"
  sd_avl :: "1 word"
  sd_l :: "1 word"
  sd_db :: "1 word"
  sd_g :: "1 word"
  base_31_24 :: u8

record GateDesc32 =
  off_15_0 :: u16
  gd_cs :: u16
  gd_args :: "5 word"
  gd_rsv1 :: "3 word"
  gd_type :: "4 word"
  gd_s :: "1 word"
  gd_dpl :: "2 word"
  gd_p :: "1 word"
  off_31_16 :: u16

definition SEG16 :: "u32 \<Rightarrow> u32 \<Rightarrow> u32 \<Rightarrow> nat \<Rightarrow> SegDesc" where
  "SEG16 type base lim dpl =
     \<lparr>lim_15_0 = ucast (lim AND 0xffff), base_15_0 = ucast (base AND 0xffff),
      base_23_16 = ucast (drop_bit 16 base AND 0xff), sd_type = ucast type, sd_s = 0, sd_dpl = of_nat dpl, sd_p = 1,
      lim_19_16 = ucast (drop_bit 16 lim), sd_avl = 0, sd_l = 0, sd_db = 1, sd_g = 0,
      base_31_24 = ucast (drop_bit 24 base)\<rparr>"

definition SEG32 :: "u32 \<Rightarrow> u32 \<Rightarrow> u32 \<Rightarrow> nat \<Rightarrow> SegDesc" where
  "SEG32 type base lim dpl =
     \<lparr>lim_15_0 = ucast (drop_bit 12 lim AND 0xffff), base_15_0 = ucast (base AND 0xffff),
      base_23_16 = ucast (drop_bit 16 base AND 0xff), sd_type = ucast type, sd_s = 1, sd_dpl = of_nat dpl, sd_p = 1,
      lim_19_16 = ucast (drop_bit 28 lim), sd_avl = 0, sd_l = 0, sd_db = 1, sd_g = 1,
      base_31_24 = ucast (drop_bit 24 base)\<rparr>"

definition GATE32 :: "u32 \<Rightarrow> u32 \<Rightarrow> u32 \<Rightarrow> nat \<Rightarrow> GateDesc32" where
  "GATE32 type cs entry dpl =
     \<lparr>off_15_0 = ucast (entry AND 0xffff), gd_cs = ucast cs, gd_args = 0, gd_rsv1 = 0, gd_type = ucast type,
      gd_s = 0, gd_dpl = of_nat dpl, gd_p = 1, off_31_16 = ucast (drop_bit 16 entry)\<rparr>"

text \<open>The vectors of \<^verbatim>\<open>IRQS\<close> with their privilege level and whether the hardware pushes an error code.\<close>

definition IRQS :: "(nat \<times> nat \<times> bool) list" where
  "IRQS =
     [(0, DPL_KERN, False), (1, DPL_KERN, False), (2, DPL_KERN, False), (3, DPL_KERN, False), (4, DPL_KERN, False),
      (5, DPL_KERN, False), (6, DPL_KERN, False), (7, DPL_KERN, False), (8, DPL_KERN, True), (9, DPL_KERN, False),
      (10, DPL_KERN, True), (11, DPL_KERN, True), (12, DPL_KERN, True), (13, DPL_KERN, True), (14, DPL_KERN, True),
      (15, DPL_KERN, False), (16, DPL_KERN, False), (19, DPL_KERN, False), (31, DPL_KERN, False),
      (32, DPL_KERN, False), (33, DPL_KERN, False), (34, DPL_KERN, False), (35, DPL_KERN, False),
      (36, DPL_KERN, False), (37, DPL_KERN, False), (38, DPL_KERN, False), (39, DPL_KERN, False),
      (40, DPL_KERN, False), (41, DPL_KERN, False), (42, DPL_KERN, False), (43, DPL_KERN, False),
      (44, DPL_KERN, False), (45, DPL_KERN, False), (46, DPL_KERN, False), (47, DPL_KERN, False),
      (128, DPL_USER, False), (129, DPL_USER, False)]"

text \<open>The interrupt table; \<open>irq n\<close> is the address of \<^verbatim>\<open>__am_irq\<close>\<open>n\<close>, \<open>irqall\<close> that of \<^verbatim>\<open>__am_irqall\<close>.\<close>

fun idt_entries :: "(nat \<Rightarrow> u32) \<Rightarrow> (nat \<times> nat \<times> bool) list \<Rightarrow> GateDesc32 list \<Rightarrow> GateDesc32 list" where
  "idt_entries irq [] idt = idt"
| "idt_entries irq ((n, dpl, err) # es) idt =
     idt_entries irq es (idt[n := GATE32 STS_TG (KSEL SEG_KCODE) (irq n) dpl])"

definition x86_cte_init :: "int \<Rightarrow> (nat \<Rightarrow> u32) \<Rightarrow> u32 \<Rightarrow> event_handler option \<Rightarrow>
    (bool \<times> GateDesc32 list \<times> event_handler option) res" where
  "x86_cte_init cpu_id irq irqall handler =
     guardR (cpu_id = 0) Panic
      (guardR (handler \<noteq> None) Panic
        (Inr (True, idt_entries irq IRQS (replicate NR_IRQ (GATE32 STS_TG (KSEL SEG_KCODE) irqall DPL_KERN)), handler)))"

text \<open>The segments of a processor; \<open>tss\<close> is the address of its task state, of 104 bytes.\<close>

definition x86_initgdt :: "u32 \<Rightarrow> SegDesc list \<Rightarrow> SegDesc list \<times> u32" where
  "x86_initgdt tss gdt =
     (gdt[unat SEG_KCODE := SEG32 (STA_X OR STA_R) 0 0xffffffff DPL_KERN,
          unat SEG_KDATA := SEG32 STA_W 0 0xffffffff DPL_KERN,
          unat SEG_UCODE := SEG32 (STA_X OR STA_R) 0 0xffffffff DPL_USER,
          unat SEG_UDATA := SEG32 STA_W 0 0xffffffff DPL_USER,
          SEG_TSS := SEG16 STS_T32A tss 103 DPL_KERN],
      KSEL (of_nat SEG_TSS))"

section \<open>The processor\<close>

record x86_regs =
  eax :: u32
  ebx :: u32
  ecx :: u32
  edx :: u32
  esi :: u32
  edi :: u32
  ebp :: u32
  esp :: u32
  eip :: u32
  cs :: u32
  eflags :: u32
  ss :: u32
  ds :: u16

record x86_machine =
  xr :: x86_regs
  xwords :: cmem
  xcr2 :: u32
  xcr3 :: u32
  tss_esp0 :: u32
  tss_ss0 :: u32
  lapic_on :: bool
  lapic_eois :: nat

definition pushl :: "u32 \<Rightarrow> x86_machine \<Rightarrow> x86_machine res" where
  "pushl v s =
     (let sp = esp (xr s) - 4 in
      bindR (mstore sp v (xwords s)) (\<lambda>m. Inr (s\<lparr>xr := (xr s)\<lparr>esp := sp\<rparr>, xwords := m\<rparr>)))"

fun push_list :: "u32 list \<Rightarrow> x86_machine \<Rightarrow> x86_machine res" where
  "push_list [] s = Inr s"
| "push_list (v # vs) s = bindR (pushl v s) (push_list vs)"

text \<open>
  Delivery of vector \<open>n\<close> to the entry of a trap gate: from user mode the stack of the task state is
  used and the user's stack pointer saved. \<open>err\<close> is the error code of the vectors that have one.
\<close>

definition x86_deliver :: "u32 \<Rightarrow> u32 option \<Rightarrow> x86_machine \<Rightarrow> x86_machine res" where
  "x86_deliver entry err s =
     (let r = xr s;
          s0 = (if cs r AND 3 = 0 then s else s\<lparr>xr := r\<lparr>esp := tss_esp0 s, ss := tss_ss0 s\<rparr>\<rparr>);
          frame = (if cs r AND 3 = 0 then [] else [ss r, esp r]) @ [eflags r, cs r, eip r] @
            (case err of None \<Rightarrow> [] | Some e \<Rightarrow> [e]) in
      bindR (push_list frame s0) (\<lambda>s.
      Inr (s\<lparr>xr := (xr s)\<lparr>eip := entry, cs := KSEL SEG_KCODE\<rparr>\<rparr>)))"

definition cli :: "x86_machine \<Rightarrow> x86_machine" where
  "cli s = s\<lparr>xr := (xr s)\<lparr>eflags := eflags (xr s) AND NOT FL_IF\<rparr>\<rparr>"

definition sti :: "x86_machine \<Rightarrow> x86_machine" where
  "sti s = s\<lparr>xr := (xr s)\<lparr>eflags := eflags (xr s) OR FL_IF\<rparr>\<rparr>"

definition x86_ienabled :: "x86_machine \<Rightarrow> bool" where
  "x86_ienabled s \<longleftrightarrow> eflags (xr s) AND FL_IF \<noteq> 0"

definition x86_iset :: "bool \<Rightarrow> x86_machine \<Rightarrow> x86_machine" where
  "x86_iset enable s = (if enable then sti s else cli s)"

section \<open>The trap entry\<close>

text \<open>\<^verbatim>\<open>__am_irq\<close>\<open>n\<close>: a zero for a vector without error code, and its number.\<close>

definition am_irq_entry :: "u32 \<Rightarrow> bool \<Rightarrow> x86_machine \<Rightarrow> x86_machine res" where
  "am_irq_entry n has_err s = push_list ((if has_err then [] else [0]) @ [n]) (cli s)"

text \<open>From \<^verbatim>\<open>trap\<close> to the call of the handler: the result is the trap frame.\<close>

definition x86_trap_save :: "x86_machine \<Rightarrow> (u32 \<times> x86_machine) res" where
  "x86_trap_save s =
     (let s = cli s; r = xr s; s = s\<lparr>xr := r\<lparr>esp := esp r - 20\<rparr>\<rparr> in
      bindR (push_list [ebp r, edi r, esi r, 0, edx r, ecx r, ebx r, eax r] s) (\<lambda>s.
      let ax = (eax r AND 0xffff0000) OR ucast (ds r) in
      bindR (push_list [ax, 0] (s\<lparr>xr := (xr s)\<lparr>eax := ax\<rparr>\<rparr>)) (\<lambda>s.
      Inr (esp (xr s),
        s\<lparr>xr := (xr s)\<lparr>eax := (ax AND 0xffff0000) OR KSEL SEG_KDATA, ds := ucast (KSEL SEG_KDATA), ss := KSEL SEG_KDATA\<rparr>\<rparr>))))"

section \<open>The handler\<close>

text \<open>A trap frame: a context, then \<^verbatim>\<open>irq, errcode, eip, cs, eflags, esp, ss\<close>.\<close>

definition tf_word :: "u32 \<Rightarrow> nat \<Rightarrow> u32" where
  "tf_word tf i = field tf (15 + i)"

definition T_IRQ0 :: u32 where "T_IRQ0 = 32"

definition x86_event :: "u32 \<Rightarrow> u32 \<Rightarrow> u32 \<Rightarrow> Event" where
  "x86_event irq errcode fault_addr =
     (if irq = T_IRQ0 + 0 then zero_event\<lparr>event := EVENT_IRQ_TIMER\<rparr>
      else if irq = T_IRQ0 + 1 \<or> irq = T_IRQ0 + 4 then zero_event\<lparr>event := EVENT_IRQ_IODEV\<rparr>
      else if irq = 0x80 then zero_event\<lparr>event := EVENT_SYSCALL\<rparr>
      else if irq = 0x81 then zero_event\<lparr>event := EVENT_YIELD\<rparr>
      else if irq \<in> {0, 6, 7, 8, 10, 11, 12, 13} then zero_event\<lparr>event := EVENT_ERROR\<rparr>
      else if irq = 14 then
        zero_event\<lparr>event := EVENT_PAGEFAULT,
          ev_cause := (if errcode AND 1 \<noteq> 0 then MMAP_NONE else 0) OR (if errcode AND 2 \<noteq> 0 then MMAP_WRITE else 1),
          ev_ref := fault_addr\<rparr>
      else zero_event\<lparr>event := EVENT_ERROR, ev_cause := errcode\<rparr>)"

fun load_list :: "u32 list \<Rightarrow> cmem \<Rightarrow> u32 list res" where
  "load_list [] m = Inr []"
| "load_list (a # ws) m = bindR (mload a m) (\<lambda>v. bindR (load_list ws m) (\<lambda>vs. Inr (v # vs)))"

definition save_context :: "u32 \<Rightarrow> x86_machine \<Rightarrow> cmem res" where
  "save_context tf s =
     (let m = xwords s in
      bindR (mload (tf_word tf 2) m) (\<lambda>ip.
      bindR (mload (tf_word tf 3) m) (\<lambda>c.
      bindR (mload (tf_word tf 4) m) (\<lambda>fl.
      bindR (mload (tf_word tf 5) m) (\<lambda>sp.
      store_fields tf
        [(X_eip, ip), (X_cs, c), (X_eflags, fl), (X_esp0, tss_esp0 s), (X_ss3, USEL SEG_UDATA),
         (X_esp, if c AND 3 \<noteq> 0 then sp else tf + 88 - 8), (X_cr3, xcr3 s)] m)))))"

definition x86_irq_handle :: "event_handler \<Rightarrow> u32 \<Rightarrow> x86_machine \<Rightarrow> (u32 \<times> x86_machine) res" where
  "x86_irq_handle user_handler tf s =
     bindR (save_context tf s) (\<lambda>m.
     bindR (mload (tf_word tf 0) m) (\<lambda>irq.
     bindR (mload (tf_word tf 1) m) (\<lambda>errcode.
     let s = s\<lparr>xwords := m,
            lapic_eois := lapic_eois s + (if T_IRQ0 \<le> irq \<and> irq < T_IRQ0 + 32 \<and> lapic_on s then 1 else 0)\<rparr> in
     bindR (user_handler (x86_event irq errcode (xcr2 s)) tf (xwords s)) (\<lambda>(ret, m).
     let s = s\<lparr>xwords := m\<rparr> in
     guardR (ret \<noteq> 0) Panic
      (bindR (mload (x86_ctx ret X_cr3) m) (\<lambda>p.
       bindR (mload (x86_ctx ret X_esp0) m) (\<lambda>sp0.
       Inr (ret, if p \<noteq> 0 then s\<lparr>xcr3 := p, tss_ss0 := KSEL SEG_KDATA, tss_esp0 := sp0\<rparr> else s))))))))"

section \<open>The return\<close>

text \<open>The copy to the stack that is returned to, from the highest word down.\<close>

fun copy_to_stack :: "u32 \<Rightarrow> u32 \<Rightarrow> nat \<Rightarrow> cmem \<Rightarrow> cmem res" where
  "copy_to_stack dst src 0 m = Inr m"
| "copy_to_stack dst src (Suc n) m =
     bindR (mload (field src n) m) (\<lambda>v. bindR (mstore (field dst n) v m) (copy_to_stack dst src n))"

text \<open>\<^verbatim>\<open>__am_iret\<close>, ending with the instruction \<^verbatim>\<open>iret\<close> to user or kernel mode.\<close>

definition x86_iret :: "u32 \<Rightarrow> x86_machine \<Rightarrow> x86_machine res" where
  "x86_iret ctx s =
     bindR (load_list (map (field ctx) [1..<12]) (xwords s)) (\<lambda>ws.
     let r = (xr s)\<lparr>ds := ucast (ws ! 0), eax := ws ! 1, ebx := ws ! 2, ecx := ws ! 3, edx := ws ! 4\<rparr> in
     if (ucast (ws ! 10) :: u16) = ucast (KSEL SEG_KCODE) then
       bindR (mload (field ctx 13) (xwords s)) (\<lambda>new_esp.
       bindR (copy_to_stack (new_esp - 24) (field ctx 7) 6 (xwords s)) (\<lambda>m.
       bindR (load_list (map (field (new_esp - 24)) [0..<6]) m) (\<lambda>vs.
       Inr (s\<lparr>xwords := m, xr := r\<lparr>esi := vs ! 0, edi := vs ! 1, ebp := vs ! 2, eip := vs ! 3, cs := vs ! 4,
         eflags := vs ! 5, esp := new_esp\<rparr>\<rparr>))))
     else
       bindR (load_list (map (field ctx) [7..<15]) (xwords s)) (\<lambda>vs.
       Inr (s\<lparr>xr := r\<lparr>esi := vs ! 0, edi := vs ! 1, ebp := vs ! 2, eip := vs ! 3, cs := vs ! 4, eflags := vs ! 5,
         esp := vs ! 6, ss := vs ! 7\<rparr>\<rparr>)))"

text \<open>A whole interrupt, and the first instructions of a kernel thread.\<close>

definition x86_interrupt :: "event_handler \<Rightarrow> u32 \<Rightarrow> u32 \<Rightarrow> u32 option \<Rightarrow> x86_machine \<Rightarrow> x86_machine res" where
  "x86_interrupt user_handler n entry err s =
     bindR (x86_deliver entry err s) (\<lambda>s.
     bindR (am_irq_entry n (err \<noteq> None) s) (\<lambda>s.
     bindR (x86_trap_save s) (\<lambda>(tf, s).
     bindR (x86_irq_handle user_handler tf s) (\<lambda>(ctx, s).
     x86_iret ctx s))))"

definition kcontext_start :: "u32 \<Rightarrow> x86_machine \<Rightarrow> x86_machine res" where
  "kcontext_start panic_on_return s =
     bindR (push_list [eax (xr s), panic_on_return] s) (\<lambda>s. Inr (s\<lparr>xr := (xr s)\<lparr>eip := ebx (xr s)\<rparr>\<rparr>))"

end
