(* ===== verification/X86_CTE_Correct.thy ===== *)
theory X86_CTE_Correct
  imports X86_CTE X86_VM_Correct
begin

text \<open>
  What an x86 interrupt does: the words it saves, the context the handler sees, the registers of the
  context it returns, and the first steps of a kernel thread.
\<close>

section \<open>Pushing\<close>

declare field_0 [simp del]

lemma field_add: "field (field c i) j = field c (i + j)"
  by (simp add: field_def algebra_simps)

lemma field_Suc: "field c (Suc i) - 4 = field c i"
  by (simp add: field_def algebra_simps)

lemma push_list_ok:
  assumes "aligned c" "esp (xr s) = field c (k + length vs)" "k + length vs < 1000"
  shows "\<exists>m. push_list vs s = Inr (s\<lparr>xr := (xr s)\<lparr>esp := field c k\<rparr>, xwords := m\<rparr>) \<and>
    (\<forall>i < length vs. m (field c (k + i)) = rev vs ! i) \<and>
    (\<forall>a. a \<notin> field c ` {k..<k + length vs} \<longrightarrow> m a = xwords s a)"
  using assms(2,3)
proof (induction vs arbitrary: s)
  case Nil
  then show ?case by (intro exI [of _ "xwords s"]) simp
next
  case (Cons v vs)
  define s1 where "s1 = s\<lparr>xr := (xr s)\<lparr>esp := field c (k + length vs)\<rparr>,
    xwords := (xwords s)(field c (k + length vs) := v)\<rparr>"
  have p: "pushl v s = Inr s1"
    using Cons.prems assms(1) by (simp add: pushl_def field_Suc s1_def Let_def)
  have e: "esp (xr s1) = field c (k + length vs)" by (simp add: s1_def)
  obtain m where m: "push_list vs s1 = Inr (s1\<lparr>xr := (xr s1)\<lparr>esp := field c k\<rparr>, xwords := m\<rparr>)"
      "\<And>i. i < length vs \<Longrightarrow> m (field c (k + i)) = rev vs ! i"
      "\<And>a. a \<notin> field c ` {k..<k + length vs} \<Longrightarrow> m a = xwords s1 a"
    using Cons.IH [OF e] Cons.prems(2) by auto
  have "field c (k + length vs) \<notin> field c ` {k..<k + length vs}"
    using Cons.prems(2) by auto
  then have l: "m (field c (k + length vs)) = v" using m(3) by (simp add: s1_def)
  have "m (field c (k + i)) = rev (v # vs) ! i" if "i < length (v # vs)" for i
    using m(2) [of i] l that by (cases "i = length vs") (auto simp: nth_append)
  moreover have "m a = xwords s a" if a: "a \<notin> field c ` {k..<k + length (v # vs)}" for a
  proof -
    have "a \<noteq> field c (k + length vs)" using a by auto
    moreover have "a \<notin> field c ` {k..<k + length vs}" using a by auto
    ultimately show ?thesis using m(3) by (simp add: s1_def)
  qed
  moreover have "push_list (v # vs) s = Inr (s\<lparr>xr := (xr s)\<lparr>esp := field c k\<rparr>, xwords := m\<rparr>)"
    using p m(1) by (simp add: s1_def)
  ultimately show ?case by blast
qed

declare push_list.simps [simp del]

section \<open>Saving\<close>

text \<open>The trap frame of an interrupt of \<open>s\<close>, 20 words on a kernel stack or 22 on the one of the task state.\<close>

definition frame_of :: "x86_machine \<Rightarrow> u32" where
  "frame_of s = (if cs (xr s) AND 3 = 0 then esp (xr s) - 80 else tss_esp0 s - 88)"

definition x86_frame :: "x86_machine \<Rightarrow> u32 set" where
  "x86_frame s = field (frame_of s) ` {0..<if cs (xr s) AND 3 = 0 then 20 else 22}"

text \<open>A kernel or user thread.\<close>

definition x86_runs :: "x86_machine \<Rightarrow> bool" where
  "x86_runs s \<longleftrightarrow> aligned (frame_of s) \<and>
     ((cs (xr s) = KSEL SEG_KCODE \<and> ss (xr s) = KSEL SEG_KDATA) \<or>
      (cs (xr s) = USEL SEG_UCODE \<and> ss (xr s) = USEL SEG_UDATA \<and> tss_ss0 s = KSEL SEG_KDATA))"

lemma sels: "KSEL SEG_KCODE AND 3 = 0" "USEL SEG_UCODE AND 3 \<noteq> 0" "KSEL SEG_KCODE \<noteq> USEL SEG_UCODE"
  "(ucast (USEL SEG_UCODE) :: u16) \<noteq> ucast (KSEL SEG_KCODE)"
  by (simp_all add: KSEL_def USEL_def SEG_KCODE_def SEG_UCODE_def)

definition pushed :: "u32 \<Rightarrow> u32 option \<Rightarrow> x86_machine \<Rightarrow> u32 list" where
  "pushed n err s = [n, (case err of None \<Rightarrow> 0 | Some e \<Rightarrow> e), eip (xr s), cs (xr s), eflags (xr s)] @
     (if cs (xr s) AND 3 = 0 then [] else [esp (xr s), ss (xr s)])"

lemma pushed_length [simp]: "length (pushed n err s) = (if cs (xr s) AND 3 = 0 then 5 else 7)"
  by (simp add: pushed_def)

text \<open>The pushes of the processor and those of the vector's entry make one block of words.\<close>

lemma x86_enter_ok:
  assumes "x86_runs s"
  shows "\<exists>m. bindR (x86_deliver entry err s) (am_irq_entry n (err \<noteq> None)) =
      Inr (s\<lparr>xr := (xr s)\<lparr>esp := field (frame_of s) 15, eip := entry, cs := KSEL SEG_KCODE, ss := KSEL SEG_KDATA,
          eflags := eflags (xr s) AND NOT FL_IF\<rparr>, xwords := m\<rparr>) \<and>
    (\<forall>i < length (pushed n err s). m (field (frame_of s) (15 + i)) = pushed n err s ! i) \<and>
    (\<forall>a. a \<notin> field (frame_of s) ` {15..<15 + length (pushed n err s)} \<longrightarrow> m a = xwords s a)"
proof -
  define c where "c = frame_of s"
  define s0 where "s0 = (if cs (xr s) AND 3 = 0 then s else s\<lparr>xr := (xr s)\<lparr>esp := tss_esp0 s, ss := tss_ss0 s\<rparr>\<rparr>)"
  define fr where "fr = (if cs (xr s) AND 3 = 0 then [] else [ss (xr s), esp (xr s)]) @
    [eflags (xr s), cs (xr s), eip (xr s)] @ (case err of None \<Rightarrow> [] | Some e \<Rightarrow> [e])"
  define en where "en = (if err \<noteq> None then [] else [0]) @ [n]"
  have al: "aligned c" using assms by (simp add: x86_runs_def c_def)
  have rv: "rev en @ rev fr = pushed n err s"
    by (auto simp: en_def fr_def pushed_def split: option.splits)
  have len: "length en + length fr = length (pushed n err s)" using arg_cong [OF rv, of length] by simp
  then have sz: "length en + length fr \<le> 7" by simp
  have ss0: "ss (xr s0) = KSEL SEG_KDATA" "xwords s0 = xwords s"
    using assms sels by (auto simp: s0_def x86_runs_def)
  have e0: "esp (xr s0) = field c (15 + length en + length fr)"
    by (simp add: add.assoc len) (simp add: s0_def c_def frame_of_def field_def)
  have lt: "15 + length en + length fr < 1000" using sz by simp
  obtain m1 where m1: "push_list fr s0 = Inr (s0\<lparr>xr := (xr s0)\<lparr>esp := field c (15 + length en)\<rparr>, xwords := m1\<rparr>)"
      "\<And>i. i < length fr \<Longrightarrow> m1 (field c (15 + length en + i)) = rev fr ! i"
      "\<And>a. a \<notin> field c ` {15 + length en..<15 + length en + length fr} \<Longrightarrow> m1 a = xwords s a"
    using push_list_ok [OF al e0 lt] ss0(2) by auto
  define s1 where "s1 = s0\<lparr>xr := (xr s0)\<lparr>esp := field c (15 + length en), eip := entry, cs := KSEL SEG_KCODE\<rparr>, xwords := m1\<rparr>"
  have d: "x86_deliver entry err s = Inr s1"
    unfolding x86_deliver_def Let_def s0_def [symmetric] fr_def [symmetric] using m1(1) by (simp add: s1_def)
  have e1: "esp (xr (cli s1)) = field c (15 + length en)" by (simp add: s1_def cli_def)
  obtain m2 where m2: "push_list en (cli s1) = Inr (cli s1\<lparr>xr := (xr (cli s1))\<lparr>esp := field c 15\<rparr>, xwords := m2\<rparr>)"
      "\<And>i. i < length en \<Longrightarrow> m2 (field c (15 + i)) = rev en ! i"
      "\<And>a. a \<notin> field c ` {15..<15 + length en} \<Longrightarrow> m2 a = m1 a"
    using push_list_ok [OF al e1] sz by (auto simp: s1_def cli_def)
  have entry: "am_irq_entry n (err \<noteq> None) s1 = Inr (cli s1\<lparr>xr := (xr (cli s1))\<lparr>esp := field c 15\<rparr>, xwords := m2\<rparr>)"
    using m2(1) by (simp add: am_irq_entry_def en_def)
  have "m2 (field c (15 + i)) = pushed n err s ! i" if i: "i < length (pushed n err s)" for i
  proof (cases "i < length en")
    case True
    then show ?thesis using m2(2) rv [symmetric] by (simp add: nth_append)
  next
    case False
    then have "field c (15 + i) \<notin> field c ` {15..<15 + length en}" using i sz len by auto
    then have "m2 (field c (15 + i)) = m1 (field c (15 + i))" by (rule m2(3))
    also have "\<dots> = rev fr ! (i - length en)"
      using m1(2) [of "i - length en"] False i len by (simp del: pushed_length)
    also have "\<dots> = pushed n err s ! i"
      unfolding rv [symmetric] using False by (simp only: nth_append length_rev if_False)
    finally show ?thesis .
  qed
  moreover have "m2 a = xwords s a" if a: "a \<notin> field c ` {15..<15 + length (pushed n err s)}" for a
  proof -
    have "a \<notin> field c ` {15..<15 + length en}" "a \<notin> field c ` {15 + length en..<15 + length en + length fr}"
      using a unfolding len [symmetric] by auto
    then show ?thesis using m2(3) m1(3) by simp
  qed
  moreover have "bindR (x86_deliver entry err s) (am_irq_entry n (err \<noteq> None)) =
      Inr (s\<lparr>xr := (xr s)\<lparr>esp := field c 15, eip := entry, cs := KSEL SEG_KCODE, ss := KSEL SEG_KDATA,
          eflags := eflags (xr s) AND NOT FL_IF\<rparr>, xwords := m2\<rparr>)"
    unfolding d bindR_Inr entry using ss0(1) by (simp add: s1_def cli_def s0_def)
  ultimately show ?thesis unfolding c_def by blast
qed

text \<open>The words of the general registers in a context, from \<^verbatim>\<open>ds\<close> to \<^verbatim>\<open>ebp\<close>.\<close>

definition saved_regs :: "x86_regs \<Rightarrow> u32 list" where
  "saved_regs r = [0, (eax r AND 0xffff0000) OR ucast (ds r), eax r, ebx r, ecx r, edx r, 0, esi r, edi r, ebp r]"

lemma x86_trap_save_ok:
  assumes "aligned c" "esp (xr s) = field c 15"
  shows "\<exists>m s'. x86_trap_save s = Inr (c, s') \<and> s' = s\<lparr>xr := xr s', xwords := m\<rparr> \<and>
    ss (xr s') = KSEL SEG_KDATA \<and> (\<forall>i < 10. m (field c i) = saved_regs (xr s) ! i) \<and>
    (\<forall>a. a \<notin> field c ` {0..<10} \<longrightarrow> m a = xwords s a)"
proof -
  define r where "r = xr (cli s)"
  define ax where "ax = (eax r AND 0xffff0000) OR ucast (ds r)"
  define s0 where "s0 = (cli s)\<lparr>xr := r\<lparr>esp := esp r - 20\<rparr>\<rparr>"
  have e0: "esp (xr s0) = field c (2 + length [ebp r, edi r, esi r, 0, edx r, ecx r, ebx r, eax r])"
    using assms(2) by (simp add: s0_def r_def cli_def field_def)
  obtain m1 where m1: "push_list [ebp r, edi r, esi r, 0, edx r, ecx r, ebx r, eax r] s0 =
        Inr (s0\<lparr>xr := (xr s0)\<lparr>esp := field c 2\<rparr>, xwords := m1\<rparr>)"
      "\<And>i. i < 8 \<Longrightarrow> m1 (field c (2 + i)) = rev [ebp r, edi r, esi r, 0, edx r, ecx r, ebx r, eax r] ! i"
      "\<And>a. a \<notin> field c ` {2..<10} \<Longrightarrow> m1 a = xwords s0 a"
    using push_list_ok [OF assms(1) e0] by auto
  define s1 where "s1 = s0\<lparr>xr := (xr s0)\<lparr>esp := field c 2, eax := ax\<rparr>, xwords := m1\<rparr>"
  have e1: "esp (xr s1) = field c (0 + length [ax, 0])" and x1: "xwords s1 = m1" by (simp_all add: s1_def)
  obtain m2 where m2: "push_list [ax, 0] s1 = Inr (s1\<lparr>xr := (xr s1)\<lparr>esp := field c 0\<rparr>, xwords := m2\<rparr>)"
      "\<And>i. i < 2 \<Longrightarrow> m2 (field c i) = rev [ax, 0] ! i" "\<And>a. a \<notin> field c ` {0..<2} \<Longrightarrow> m2 a = m1 a"
    using push_list_ok [OF assms(1) e1] x1 by (auto simp: numeral_2_eq_2)
  define s2 where "s2 = s1\<lparr>xr := (xr s1)\<lparr>esp := field c 0, eax := (ax AND 0xffff0000) OR KSEL SEG_KDATA,
    ds := ucast (KSEL SEG_KDATA), ss := KSEL SEG_KDATA\<rparr>, xwords := m2\<rparr>"
  have xr_first: "s0\<lparr>xwords := m, xr := r'\<rparr> = s0\<lparr>xr := r', xwords := m\<rparr>" for m r' by simp
  have ts: "x86_trap_save s = Inr (c, s2)"
    unfolding x86_trap_save_def Let_def r_def [symmetric] s0_def [symmetric] m1(1) bindR_Inr ax_def [symmetric]
    using m2(1) by (simp add: s1_def s2_def xr_first field_0)
  have sh: "s2 = s\<lparr>xr := xr s2, xwords := m2\<rparr>" by (simp add: s2_def s1_def s0_def cli_def)
  have w: "m2 (field c i) = saved_regs (xr s) ! i" if "i < 10" for i
  proof (cases "i < 2")
    case True
    then show ?thesis using m2(2) [of i] by (auto simp: saved_regs_def ax_def r_def cli_def less_Suc_eq numeral_eq_Suc)
  next
    case False
    then have e: "2 + (i - 2) = i" and l: "i - 2 < 8" using that by simp_all
    have "m2 (field c i) = m1 (field c i)" by (rule m2(3)) (use False that in auto)
    also have "\<dots> = rev [ebp r, edi r, esi r, 0, edx r, ecx r, ebx r, eax r] ! (i - 2)"
      using m1(2) [OF l] unfolding e .
    also have "\<dots> = saved_regs (xr s) ! i"
      using that False by (auto simp: saved_regs_def r_def cli_def less_Suc_eq numeral_eq_Suc)
    finally show ?thesis .
  qed
  have o: "m2 a = xwords s a" if a: "a \<notin> field c ` {0..<10}" for a
  proof -
    have "a \<notin> field c ` {2..<10}" "a \<notin> field c ` {0..<2}" using a by auto
    with m1(3) m2(3) show ?thesis by (simp add: s0_def cli_def)
  qed
  show ?thesis using ts sh w o by (intro exI [of _ m2] exI [of _ s2]) (simp add: s2_def)
qed

text \<open>The context at \<open>c\<close> is that of a thread \<open>t\<close>, and where it can be resumed from.\<close>

definition x86_stored :: "cmem \<Rightarrow> u32 \<Rightarrow> x86_machine \<Rightarrow> bool" where
  "x86_stored m c t \<longleftrightarrow> (let r = xr t in
     ucast (m (field c 1)) = ds r \<and> (cs r AND 3 \<noteq> 0 \<longrightarrow> m (field c 14) = ss r) \<and>
     (\<forall>(i, v) \<in> set [(0, xcr3 t), (2, eax r), (3, ebx r), (4, ecx r), (5, edx r), (6, tss_esp0 t), (7, esi r),
        (8, edi r), (9, ebp r), (10, eip r), (11, cs r), (12, eflags r), (13, esp r)]. m (field c i) = v))"

definition x86_resumable :: "u32 \<Rightarrow> x86_machine \<Rightarrow> bool" where
  "x86_resumable c t \<longleftrightarrow> aligned c \<and> c \<noteq> 0 \<and> x86_runs t \<and> (cs (xr t) AND 3 = 0 \<longrightarrow> esp (xr t) \<in> {field c 15, field c 20})"

definition ctx_words :: "u32 \<Rightarrow> u32 set" where
  "ctx_words c = field c ` {0..<15}"

lemma x86_stored_agree: "\<lbrakk>x86_stored m c t; \<forall>a \<in> ctx_words c. m' a = m a\<rbrakk> \<Longrightarrow> x86_stored m' c t"
  by (simp add: x86_stored_def ctx_words_def Let_def)

lemma x86_ctx_eqs:
  "x86_ctx c X_cr3 = field c 0" "x86_ctx c X_ds = field c 1" "x86_ctx c X_eax = field c 2"
  "x86_ctx c X_ebx = field c 3" "x86_ctx c X_esp0 = field c 6" "x86_ctx c X_eip = field c 10"
  "x86_ctx c X_cs = field c 11" "x86_ctx c X_eflags = field c 12" "x86_ctx c X_esp = field c 13"
  "x86_ctx c X_ss3 = field c 14"
  by (simp_all add: x86_ctx_def x86_ctx_fields_def)

lemma store_fields_ok: "aligned c \<Longrightarrow>
  store_fields c fs m = Inr (fold (\<lambda>(f, v) m. m(x86_ctx c f := v)) fs m)"
  by (induction fs arbitrary: m) (auto simp: x86_ctx_def)

lemma saved_ds: "(ucast ((e AND 0xffff0000) OR ucast (d :: u16) :: u32) :: u16) = d"
proof -
  define h where "h = push_bit 16 (0xffff :: u32)"
  have "h = 0xffff0000" by (simp add: h_def)
  have lo: "16 \<le> n" if "bit h n" for n using that unfolding h_def bit_push_bit_iff by simp
  have "(ucast ((e AND h) OR ucast d) :: u16) = d"
    by (rule bit_word_eqI) (auto simp: bit_simps dest: lo)
  then show ?thesis using \<open>h = 0xffff0000\<close> by simp
qed

text \<open>From the interrupt to the call of the handler.\<close>

lemma x86_saved_ok:
  assumes "x86_runs s" "c = frame_of s"
  shows "\<exists>m s'. bindR (bindR (x86_deliver entry err s) (am_irq_entry n (err \<noteq> None))) x86_trap_save = Inr (c, s') \<and>
    s' = s\<lparr>xr := xr s', xwords := xwords s'\<rparr> \<and> ss (xr s') = KSEL SEG_KDATA \<and>
    save_context c s' = Inr m \<and> x86_stored m c s \<and> m (field c 15) = n \<and>
    m (field c 16) = (case err of None \<Rightarrow> 0 | Some e \<Rightarrow> e) \<and> (\<forall>a. a \<notin> x86_frame s \<longrightarrow> m a = xwords s a)"
proof -
  have al: "aligned c" using assms by (simp add: x86_runs_def)
  define P where "P = pushed n err s"
  obtain m0 where m0: "bindR (x86_deliver entry err s) (am_irq_entry n (err \<noteq> None)) =
      Inr (s\<lparr>xr := (xr s)\<lparr>esp := field c 15, eip := entry, cs := KSEL SEG_KCODE, ss := KSEL SEG_KDATA,
          eflags := eflags (xr s) AND NOT FL_IF\<rparr>, xwords := m0\<rparr>)" (is "_ = Inr ?s0")
      "\<And>i. i < length P \<Longrightarrow> m0 (field c (15 + i)) = P ! i"
      "\<And>a. a \<notin> field c ` {15..<15 + length P} \<Longrightarrow> m0 a = xwords s a"
    using x86_enter_ok [OF assms(1)] assms(2) unfolding P_def by blast
  define s0 where "s0 = ?s0"
  have e0: "esp (xr s0) = field c 15" by (simp add: s0_def)
  obtain m1 s1 where s1: "x86_trap_save s0 = Inr (c, s1)" "s1 = s0\<lparr>xr := xr s1, xwords := m1\<rparr>"
      "ss (xr s1) = KSEL SEG_KDATA" "\<And>i. i < 10 \<Longrightarrow> m1 (field c i) = saved_regs (xr s0) ! i"
      "\<And>a. a \<notin> field c ` {0..<10} \<Longrightarrow> m1 a = xwords s0 a"
    using x86_trap_save_ok [OF al e0] by blast
  have w1: "xwords s1 = m1" "xcr3 s1 = xcr3 s" "tss_esp0 s1 = tss_esp0 s"
    by (subst s1(2), simp add: s0_def)+
  have p: "m1 (field c (15 + i)) = P ! i" if "i < length P" for i
  proof -
    have "field c (15 + i) \<notin> field c ` {0..<10}" using that by (auto simp: P_def split: if_splits)
    then show ?thesis using s1(5) m0(2) [OF that] by (simp add: s0_def)
  qed
  have len: "length P = (if cs (xr s) AND 3 = 0 then 5 else 7)" by (simp add: P_def)
  have tf: "m1 (field c 15) = n" "m1 (field c 16) = (case err of None \<Rightarrow> 0 | Some e \<Rightarrow> e)" "m1 (field c 17) = eip (xr s)"
    "m1 (field c 18) = cs (xr s)" "m1 (field c 19) = eflags (xr s)"
    using p [of 0] p [of 1] p [of 2] p [of 3] p [of 4] by (simp_all add: len, simp_all add: P_def pushed_def)
  have sp: "(if cs (xr s) AND 3 \<noteq> 0 then m1 (field c 20) else c + 88 - 8) = esp (xr s)"
    using p [of 5] assms(2) by (simp add: len) (simp add: P_def pushed_def frame_of_def)
  define m where "m = fold (\<lambda>(f, v) m. m(x86_ctx c f := v))
        [(X_eip, eip (xr s)), (X_cs, cs (xr s)), (X_eflags, eflags (xr s)), (X_esp0, tss_esp0 s),
         (X_ss3, USEL SEG_UDATA), (X_esp, esp (xr s)), (X_cr3, xcr3 s)] m1"
  have sv: "save_context c s1 = Inr m"
    using al tf sp by (simp add: save_context_def store_fields_ok Let_def w1 tf_word_def m_def del: store_fields.simps)
  have r: "m1 (field c i) = saved_regs (xr s) ! i" if "i < 10" for i
    using s1(4) [OF that] by (simp add: saved_regs_def s0_def)
  have g: "m1 (field c 1) = (eax (xr s) AND 0xffff0000) OR ucast (ds (xr s))" "m1 (field c 2) = eax (xr s)"
    "m1 (field c 3) = ebx (xr s)" "m1 (field c 4) = ecx (xr s)" "m1 (field c 5) = edx (xr s)"
    "m1 (field c 7) = esi (xr s)" "m1 (field c 8) = edi (xr s)" "m1 (field c 9) = ebp (xr s)"
    using r [of 1] r [of 2] r [of 3] r [of 4] r [of 5] r [of 7] r [of 8] r [of 9]
    by (simp_all add: saved_regs_def)
  have usr: "cs (xr s) AND 3 \<noteq> 0 \<longrightarrow> ss (xr s) = USEL SEG_UDATA"
    using assms(1) sels by (auto simp: x86_runs_def)
  have st: "x86_stored m c s"
    unfolding x86_stored_def m_def
    using usr g by (simp add: Let_def x86_ctx_eqs saved_ds)
  have o: "m a = xwords s a" if a: "a \<notin> x86_frame s" for a
  proof -
    have f: "field c i \<noteq> a" if "i < (if cs (xr s) AND 3 = 0 then 20 else 22)" for i
      using a that assms(2) by (auto simp: x86_frame_def)
    then have f15: "field c i \<noteq> a" if "i < 15" for i using that by simp
    have "m a = m1 a" unfolding m_def using f15 by (simp add: x86_ctx_eqs fun_upd_other f15 [symmetric])
    also have "a \<notin> field c ` {0..<10}"
    proof
      assume "a \<in> field c ` {0..<10}"
      then obtain i where "i < 10" "a = field c i" by auto
      with f15 [of i] show False by simp
    qed
    then have "m1 a = m0 a" using s1(5) by (simp add: s0_def)
    also have "a \<notin> field c ` {15..<15 + length P}"
    proof
      assume "a \<in> field c ` {15..<15 + length P}"
      then obtain i where "i < 15 + length P" "a = field c i" by auto
      with f [of i] show False by (auto simp: len split: if_splits)
    qed
    then have "m0 a = xwords s a" by (rule m0(3))
    finally show ?thesis .
  qed
  have "bindR (bindR (x86_deliver entry err s) (am_irq_entry n (err \<noteq> None))) x86_trap_save = Inr (c, s1)"
    unfolding m0(1) bindR_Inr using s1(1) by (simp add: s0_def)
  moreover have "s1 = s\<lparr>xr := xr s1, xwords := xwords s1\<rparr>"
    unfolding w1 by (subst s1(2)) (simp add: s0_def)
  moreover have "m (field c 15) = n" "m (field c 16) = (case err of None \<Rightarrow> 0 | Some e \<Rightarrow> e)"
    using tf by (simp_all add: m_def x86_ctx_eqs) 
  ultimately show ?thesis using s1(3) sv st o by blast
qed

section \<open>Returning\<close>

lemma load_list_ok: "(\<And>a. a \<in> set ws \<Longrightarrow> aligned a) \<Longrightarrow> load_list ws m = Inr (map m ws)"
  by (induction ws) auto

lemma load_fields: "aligned c \<Longrightarrow> load_list (map (field c) is) m = Inr (map (\<lambda>i. m (field c i)) is)"
  by (subst load_list_ok) (auto simp: o_def)

text \<open>Copying downwards is right when no word is overwritten before it is read.\<close>

lemma copy_to_stack_ok:
  assumes "aligned dst" "aligned src" "n < 1000" "\<And>i j. i < j \<Longrightarrow> j < n \<Longrightarrow> field dst j \<noteq> field src i"
  shows "\<exists>m'. copy_to_stack dst src n m = Inr m' \<and> (\<forall>i < n. m' (field dst i) = m (field src i)) \<and>
    (\<forall>a. a \<notin> field dst ` {0..<n} \<longrightarrow> m' a = m a)"
  using assms(3,4)
proof (induction n arbitrary: m)
  case (Suc n)
  define m1 where "m1 = m(field dst n := m (field src n))"
  obtain m' where m': "copy_to_stack dst src n m1 = Inr m'" "\<And>i. i < n \<Longrightarrow> m' (field dst i) = m1 (field src i)"
      "\<And>a. a \<notin> field dst ` {0..<n} \<Longrightarrow> m' a = m1 a"
    using Suc.IH [of m1] Suc.prems by auto
  have c: "copy_to_stack dst src (Suc n) m = Inr m'" using m'(1) assms(1,2) by (simp add: m1_def)
  have "m' (field dst i) = m (field src i)" if "i < Suc n" for i
  proof (cases "i = n")
    case True
    then have "field dst i \<notin> field dst ` {0..<n}" using Suc.prems(1) by auto
    then show ?thesis using m'(3) True by (simp add: m1_def)
  next
    case False
    with that Suc.prems(2) [of i n] have "field src i \<noteq> field dst n" by auto
    with m'(2) [of i] that False show ?thesis by (simp add: m1_def)
  qed
  moreover have "m' a = m a" if a: "a \<notin> field dst ` {0..<Suc n}" for a
  proof -
    have "a \<noteq> field dst n" "a \<notin> field dst ` {0..<n}" using a by auto
    with m'(3) show ?thesis by (simp add: m1_def)
  qed
  ultimately show ?case using c by blast
qed simp

text \<open>The words below the stack pointer on which a kernel thread is resumed.\<close>

definition resume_words :: "x86_machine \<Rightarrow> u32 set" where
  "resume_words t = (if cs (xr t) AND 3 = 0 then field (esp (xr t) - 24) ` {0..<6} else {})"

lemma x86_iret_ok:
  assumes "x86_stored (xwords s) c t" "x86_resumable c t" "ss (xr s) = KSEL SEG_KDATA"
  shows "\<exists>m. x86_iret c s = Inr (s\<lparr>xr := xr t, xwords := m\<rparr>) \<and> (\<forall>a. a \<notin> resume_words t \<longrightarrow> m a = xwords s a)"
proof -
  have al: "aligned c" using assms(2) by (simp add: x86_resumable_def)
  have w: "ucast (xwords s (field c 1)) = ds (xr t)" "xwords s (field c 2) = eax (xr t)"
    "xwords s (field c 3) = ebx (xr t)" "xwords s (field c 4) = ecx (xr t)" "xwords s (field c 5) = edx (xr t)"
    "xwords s (field c 7) = esi (xr t)" "xwords s (field c 8) = edi (xr t)" "xwords s (field c 9) = ebp (xr t)"
    "xwords s (field c 10) = eip (xr t)" "xwords s (field c 11) = cs (xr t)" "xwords s (field c 12) = eflags (xr t)"
    "xwords s (field c 13) = esp (xr t)" "cs (xr t) AND 3 \<noteq> 0 \<longrightarrow> xwords s (field c 14) = ss (xr t)"
    using assms(1) by (simp_all add: x86_stored_def Let_def)
  have l: "[1..<12] = [1, 2, 3, 4, 5, 6, 7, 8, 9, 10, 11]" "[7..<15] = [7, 8, 9, 10, 11, 12, 13, 14]"
    "[0..<6] = [0, 1, 2, 3, 4, 5]" by (simp_all add: upt_rec)
  show ?thesis
  proof (cases "cs (xr t) AND 3 = 0")
    case True
    then have k: "cs (xr t) = KSEL SEG_KCODE" "ss (xr t) = KSEL SEG_KDATA" "esp (xr t) \<in> {field c 15, field c 20}"
      using assms(2) sels by (auto simp: x86_resumable_def x86_runs_def)
    define d where "d = esp (xr t) - 24"
    obtain q where q: "d = field c q" "q = 9 \<or> q = 14"
      using k(3) that [of 9] that [of 14] by (auto simp: d_def field_def)
    have ald: "aligned d" using al q(1) by simp
    have al7: "aligned (field c 7)" using al by simp
    have no: "field d j \<noteq> field (field c 7) i" if "i < j" "j < 6" for i j
      using q(2) that unfolding q(1) field_add by auto
    obtain m where m: "copy_to_stack d (field c 7) 6 (xwords s) = Inr m"
        "\<And>i. i < 6 \<Longrightarrow> m (field d i) = xwords s (field (field c 7) i)"
        "\<And>a. a \<notin> field d ` {0..<6} \<Longrightarrow> m a = xwords s a"
      using copy_to_stack_ok [OF ald al7 _ no, of 6 "xwords s"] by auto
    have v: "m (field d 0) = esi (xr t)" "m (field d 1) = edi (xr t)" "m (field d 2) = ebp (xr t)"
      "m (field d 3) = eip (xr t)" "m (field d 4) = cs (xr t)" "m (field d 5) = eflags (xr t)"
      using m(2) [of 0] m(2) [of 1] m(2) [of 2] m(2) [of 3] m(2) [of 4] m(2) [of 5] w by (simp_all add: field_add)
    have "x86_iret c s = Inr (s\<lparr>xr := xr t, xwords := m\<rparr>)"
      unfolding x86_iret_def load_fields [OF al] load_fields [OF ald] l using al ald w k m(1)
      by (simp add: d_def [symmetric] load_fields [OF ald] l)
        (intro conjI x86_machine.equality x86_regs.equality; simp add: assms(3) v v [unfolded One_nat_def] k)
    then show ?thesis using m(3) True by (intro exI [of _ m]) (simp add: resume_words_def d_def)
  next
    case False
    then have u: "cs (xr t) = USEL SEG_UCODE" using assms(2) sels by (auto simp: x86_resumable_def x86_runs_def)
    have "x86_iret c s = Inr (s\<lparr>xr := xr t, xwords := xwords s\<rparr>)"
      unfolding x86_iret_def load_fields [OF al] l using al w u sels False
      by simp
    then show ?thesis by blast
  qed
qed

section \<open>Switching threads\<close>

text \<open>
  What an interrupt of \<open>s\<close> does when the handler, given the saved context and the event, returns the
  context of a thread \<open>t\<close>: the processor runs \<open>t\<close>, in its address space.
\<close>

lemma x86_interrupt_ok:
  assumes "x86_runs s" "c = frame_of s"
  shows "\<exists>m. x86_stored m c s \<and> (\<forall>a. a \<notin> x86_frame s \<longrightarrow> m a = xwords s a) \<and>
    (\<forall>h m2 c2 t. h (x86_event n (case err of None \<Rightarrow> 0 | Some e \<Rightarrow> e) (xcr2 s)) c m = Inr (c2, m2) \<longrightarrow>
       x86_stored m2 c2 t \<longrightarrow> x86_resumable c2 t \<longrightarrow>
       (\<exists>s'. x86_interrupt h n entry err s = Inr s' \<and> xr s' = xr t \<and>
          (if xcr3 t = 0 then xcr3 s' = xcr3 s \<and> tss_ss0 s' = tss_ss0 s \<and> tss_esp0 s' = tss_esp0 s
           else xcr3 s' = xcr3 t \<and> tss_ss0 s' = KSEL SEG_KDATA \<and> tss_esp0 s' = tss_esp0 t) \<and>
          (\<forall>a. a \<notin> resume_words t \<longrightarrow> xwords s' a = m2 a)))"
proof -
  have al: "aligned c" using assms by (simp add: x86_runs_def)
  obtain m s1 where s1: "bindR (bindR (x86_deliver entry err s) (am_irq_entry n (err \<noteq> None))) x86_trap_save = Inr (c, s1)"
      "s1 = s\<lparr>xr := xr s1, xwords := xwords s1\<rparr>" "ss (xr s1) = KSEL SEG_KDATA" "save_context c s1 = Inr m"
      "x86_stored m c s" "m (field c 15) = n" "m (field c 16) = (case err of None \<Rightarrow> 0 | Some e \<Rightarrow> e)"
      "\<forall>a. a \<notin> x86_frame s \<longrightarrow> m a = xwords s a"
    using x86_saved_ok [OF assms, of entry err n] by (elim exE conjE) (rule that; assumption)
  have sh: "xcr2 s1 = xcr2 s" "xcr3 s1 = xcr3 s" "tss_ss0 s1 = tss_ss0 s" "tss_esp0 s1 = tss_esp0 s"
    using arg_cong [OF s1(2), of xcr2] arg_cong [OF s1(2), of xcr3] arg_cong [OF s1(2), of tss_ss0]
      arg_cong [OF s1(2), of tss_esp0] by simp_all
  have "\<exists>s'. x86_interrupt h n entry err s = Inr s' \<and> xr s' = xr t \<and>
          (if xcr3 t = 0 then xcr3 s' = xcr3 s \<and> tss_ss0 s' = tss_ss0 s \<and> tss_esp0 s' = tss_esp0 s
           else xcr3 s' = xcr3 t \<and> tss_ss0 s' = KSEL SEG_KDATA \<and> tss_esp0 s' = tss_esp0 t) \<and>
          (\<forall>a. a \<notin> resume_words t \<longrightarrow> xwords s' a = m2 a)"
    if h: "h (x86_event n (case err of None \<Rightarrow> 0 | Some e \<Rightarrow> e) (xcr2 s)) c m = Inr (c2, m2)"
      and t: "x86_stored m2 c2 t" "x86_resumable c2 t" for h m2 c2 t
  proof -
    have al2: "aligned c2" "c2 \<noteq> 0" using t(2) by (simp_all add: x86_resumable_def)
    have w: "m2 (field c2 0) = xcr3 t" "m2 (field c2 6) = tss_esp0 t" using t(1) by (simp_all add: x86_stored_def Let_def)
    define k where "k = (if T_IRQ0 \<le> n \<and> n < T_IRQ0 + 32 \<and> lapic_on s1 then 1 else 0 :: nat)"
    define s2 where "s2 = (if xcr3 t \<noteq> 0 then s1\<lparr>lapic_eois := lapic_eois s1 + k, xwords := m2, xcr3 := xcr3 t,
      tss_ss0 := KSEL SEG_KDATA, tss_esp0 := tss_esp0 t\<rparr> else s1\<lparr>lapic_eois := lapic_eois s1 + k, xwords := m2\<rparr>)"
    have i: "x86_irq_handle h c s1 = Inr (c2, s2)"
      using al al2 h w s1(6,7)
      by (simp add: x86_irq_handle_def s1(4) tf_word_def sh x86_ctx_eqs s2_def k_def)
    have x2: "xwords s2 = m2" "ss (xr s2) = KSEL SEG_KDATA" using s1(3) by (simp_all add: s2_def)
    obtain m' where m': "x86_iret c2 s2 = Inr (s2\<lparr>xr := xr t, xwords := m'\<rparr>)"
        "\<forall>a. a \<notin> resume_words t \<longrightarrow> m' a = xwords s2 a"
      using x86_iret_ok [OF _ t(2) x2(2)] t(1) x2(1) by auto
    have "x86_interrupt h n entry err s = bindR (bindR (bindR (bindR (x86_deliver entry err s)
        (am_irq_entry n (err \<noteq> None))) x86_trap_save) (\<lambda>(tf, s). x86_irq_handle h tf s)) (\<lambda>(ctx, s). x86_iret ctx s)"
      by (simp add: x86_interrupt_def bindR_assoc split_def)
    also have "\<dots> = Inr (s2\<lparr>xr := xr t, xwords := m'\<rparr>)"
      by (simp only: s1(1) i m'(1) bindR_Inr prod.case)
    finally show ?thesis using m'(2) x2(1) by (intro exI conjI) (assumption, simp_all add: s2_def sh)
  qed
  then show ?thesis using s1(5,8) by (intro exI [of _ m]) blast
qed

lemma ctx_words_in_frame: "ctx_words (frame_of s) \<subseteq> x86_frame s"
  by (auto simp: ctx_words_def x86_frame_def)

text \<open>A scheduler that returns a given context.\<close>

lemma x86_switch_ok:
  assumes "x86_runs s" "x86_stored (xwords s) c2 t" "x86_resumable c2 t" "ctx_words c2 \<inter> x86_frame s = {}"
  shows "\<exists>s'. x86_interrupt (switch_to c2) n entry err s = Inr s' \<and> xr s' = xr t \<and>
    (xcr3 t \<noteq> 0 \<longrightarrow> xcr3 s' = xcr3 t \<and> tss_esp0 s' = tss_esp0 t) \<and>
    (ctx_words (frame_of s) \<inter> resume_words t = {} \<longrightarrow> x86_stored (xwords s') (frame_of s) s) \<and>
    (\<forall>a. a \<notin> x86_frame s \<union> resume_words t \<longrightarrow> xwords s' a = xwords s a)"
proof -
  obtain m where m: "x86_stored m (frame_of s) s" "\<forall>a. a \<notin> x86_frame s \<longrightarrow> m a = xwords s a"
      "\<And>h m2 c2 t. h (x86_event n (case err of None \<Rightarrow> 0 | Some e \<Rightarrow> e) (xcr2 s)) (frame_of s) m = Inr (c2, m2) \<Longrightarrow>
       x86_stored m2 c2 t \<Longrightarrow> x86_resumable c2 t \<Longrightarrow>
       (\<exists>s'. x86_interrupt h n entry err s = Inr s' \<and> xr s' = xr t \<and>
          (if xcr3 t = 0 then xcr3 s' = xcr3 s \<and> tss_ss0 s' = tss_ss0 s \<and> tss_esp0 s' = tss_esp0 s
           else xcr3 s' = xcr3 t \<and> tss_ss0 s' = KSEL SEG_KDATA \<and> tss_esp0 s' = tss_esp0 t) \<and>
          (\<forall>a. a \<notin> resume_words t \<longrightarrow> xwords s' a = m2 a))"
    using x86_interrupt_ok [OF assms(1) refl, of n err entry] by blast
  have "x86_stored m c2 t"
    using x86_stored_agree [OF assms(2), of m] m(2) assms(4) by auto
  then obtain s' where s': "x86_interrupt (switch_to c2) n entry err s = Inr s'" "xr s' = xr t"
      "xcr3 t \<noteq> 0 \<longrightarrow> xcr3 s' = xcr3 t \<and> tss_esp0 s' = tss_esp0 t" "\<forall>a. a \<notin> resume_words t \<longrightarrow> xwords s' a = m a"
    using m(3) [of "switch_to c2", OF _ _ assms(3)] by (auto simp: switch_to_def)
  have "x86_stored (xwords s') (frame_of s) s" if "ctx_words (frame_of s) \<inter> resume_words t = {}"
    using x86_stored_agree [OF m(1), of "xwords s'"] s'(4) that by auto
  with s' m(2) show ?thesis by (intro exI [of _ s']) auto
qed

section \<open>Kernel threads\<close>

text \<open>The thread a kernel context stands for, before its first instruction.\<close>

definition new_kthread :: "u32 \<Rightarrow> u32 \<Rightarrow> u32 \<Rightarrow> u32 \<Rightarrow> x86_machine \<Rightarrow> x86_machine" where
  "new_kthread start kend entry arg s = s\<lparr>xr := \<lparr>eax = arg, ebx = entry, ecx = 0, edx = 0, esi = 0, edi = 0, ebp = 0,
     esp = kend, eip = start, cs = KSEL SEG_KCODE, eflags = FL_IF, ss = KSEL SEG_KDATA, ds = ucast (KSEL SEG_KDATA)\<rparr>,
     xcr3 := 0, tss_esp0 := 0\<rparr>"

lemma x86_kcontext_ok:
  assumes "aligned kend"
  shows "\<exists>m'. x86_kcontext start kend entry arg m = Inr (kend - 60, m') \<and>
    x86_stored m' (kend - 60) (new_kthread start kend entry arg s) \<and>
    (\<forall>a. a \<notin> ctx_words (kend - 60) \<longrightarrow> m' a = m a)"
proof -
  define c where "c = kend - 60"
  have al: "aligned c" unfolding c_def by (rule aligned_diff [OF assms]) (simp add: aligned_def)
  define m0 where "m0 = (\<lambda>a. if a \<in> field c ` {0..<0 + 15} then 0 else m a)"
  have m0: "zero_words c 0 15 m = Inr m0" "\<And>a. m0 a = (if a \<in> field c ` {0..<0 + 15} then 0 else m a)"
    using zero_words_ok [OF al, of 0 15 m] by (simp_all add: m0_def)
  have z: "m0 (field c i) = 0" if "i < 15" for i
    using that by (subst m0(2)) auto
  define m1 where "m1 = fold (\<lambda>(f, v) m. m(x86_ctx c f := v))
    [(X_ds, KSEL SEG_KDATA), (X_cs, KSEL SEG_KCODE), (X_eip, start), (X_eflags, FL_IF), (X_esp, kend),
     (X_eax, arg), (X_ebx, entry)] m0"
  have "x86_kcontext start kend entry arg m = Inr (c, m1)"
    by (simp add: x86_kcontext_def c_def [symmetric] Let_def m0(1) store_fields_ok [OF al] m1_def
        del: store_fields.simps)
  moreover have "x86_stored m1 c (new_kthread start kend entry arg s)"
    by (simp add: x86_stored_def new_kthread_def m1_def x86_ctx_eqs z sels)
  moreover have "m1 a = m a" if a: "a \<notin> ctx_words c" for a
  proof -
    have f: "field c i \<noteq> a" if "i < 15" for i using that a by (auto simp: ctx_words_def)
    have "m1 a = m0 a" unfolding m1_def using f by (simp add: x86_ctx_eqs fun_upd_other f [symmetric])
    also have "\<dots> = m a" using a by (subst m0(2)) (auto simp: ctx_words_def)
    finally show ?thesis .
  qed
  ultimately show ?thesis unfolding c_def by blast
qed

lemma new_kthread_resumable:
  assumes "aligned kend" "kend \<noteq> 60"
  shows "x86_resumable (kend - 60) (new_kthread start kend entry arg s)"
proof -
  have "aligned (kend - 60)" "aligned (kend - 80)"
    using aligned_diff [OF assms(1)] by (simp_all add: aligned_def)
  then show ?thesis
    using assms(2) sels by (simp add: x86_resumable_def x86_runs_def frame_of_def new_kthread_def field_def)
qed

lemma kcontext_start_ok:
  assumes "aligned (esp (xr s))"
  shows "\<exists>s'. kcontext_start por s = Inr s' \<and> eip (xr s') = ebx (xr s) \<and> esp (xr s') = esp (xr s) - 8 \<and>
    xwords s' (esp (xr s')) = por \<and> xwords s' (esp (xr s') + 4) = eax (xr s) \<and> eflags (xr s') = eflags (xr s) \<and>
    cs (xr s') = cs (xr s)"
proof -
  define c where "c = esp (xr s) - 8"
  have al: "aligned c" unfolding c_def by (rule aligned_diff [OF assms]) (simp add: aligned_def)
  have e: "esp (xr s) = field c (0 + length [eax (xr s), por])" by (simp add: c_def field_def)
  obtain m where m: "push_list [eax (xr s), por] s = Inr (s\<lparr>xr := (xr s)\<lparr>esp := field c 0\<rparr>, xwords := m\<rparr>)"
      "\<And>i. i < 2 \<Longrightarrow> m (field c i) = rev [eax (xr s), por] ! i"
    using push_list_ok [OF al e] by (auto simp: numeral_2_eq_2)
  have "m (field c 0) = por" "m (field c 1) = eax (xr s)" using m(2) [of 0] m(2) [of 1] by simp_all
  then show ?thesis using m(1) by (simp add: kcontext_start_def field_def c_def)
qed

section \<open>Tables\<close>

text \<open>The address a gate leads to and the base and size of a segment, as the processor reads them.\<close>

definition gate_target :: "GateDesc32 \<Rightarrow> u32" where
  "gate_target g = ucast (off_15_0 g) OR push_bit 16 (ucast (off_31_16 g))"

definition seg_base :: "SegDesc \<Rightarrow> u32" where
  "seg_base d = ucast (base_15_0 d) OR push_bit 16 (ucast (base_23_16 d)) OR push_bit 24 (ucast (base_31_24 d))"

definition seg_limit :: "SegDesc \<Rightarrow> u32" where
  "seg_limit d = (let l = ucast (lim_15_0 d) OR push_bit 16 (ucast (lim_19_16 d)) in
     if sd_g d = 1 then push_bit 12 l OR 0xfff else l)"

lemma ucast_and_0xffff: "(ucast (x AND 0xffff :: u32) :: u16) = ucast x"
proof -
  have m: "(0xffff :: u32) = mask 16" by (simp add: mask_eq_exp_minus_1)
  show ?thesis unfolding m by (rule bit_word_eqI) (simp add: bit_unsigned_iff bit_and_iff bit_mask_iff)
qed

lemma ucast_and_0xff: "(ucast (x AND 0xff :: u32) :: u8) = ucast x"
proof -
  have m: "(0xff :: u32) = mask 8" by (simp add: mask_eq_exp_minus_1)
  show ?thesis unfolding m by (rule bit_word_eqI) (simp add: bit_unsigned_iff bit_and_iff bit_mask_iff)
qed

lemmas ucast_low = ucast_and_0xffff ucast_and_0xff

lemma word_halves: "ucast (ucast x :: u16) OR push_bit 16 (ucast (ucast (drop_bit 16 x) :: u16)) = (x :: u32)"
  by (rule bit_word_eqI) (auto simp: bit_simps)

lemma word_quarters: "ucast (ucast x :: u16) OR push_bit 16 (ucast (ucast (drop_bit 16 x) :: u8)) OR
    push_bit 24 (ucast (ucast (drop_bit 24 x) :: u8)) = (x :: u32)"
proof (rule bit_word_eqI)
  fix n assume "n < LENGTH(32)"
  then show "bit (ucast (ucast x :: u16) OR push_bit 16 (ucast (ucast (drop_bit 16 x) :: u8)) OR
    push_bit 24 (ucast (ucast (drop_bit 24 x) :: u8)) :: u32) n = bit x n"
    by (cases "n < 16"; cases "n < 24") (auto simp: bit_simps)
qed

lemma gate_target_GATE32 [simp]: "gate_target (GATE32 type c entry dpl) = entry"
  by (simp add: gate_target_def GATE32_def ucast_low word_halves)

lemma seg_base_SEG32 [simp]: "seg_base (SEG32 type base lim dpl) = base"
  by (simp add: seg_base_def SEG32_def ucast_low word_quarters)

lemma seg_base_SEG16 [simp]: "seg_base (SEG16 type base lim dpl) = base"
  by (simp add: seg_base_def SEG16_def ucast_low word_quarters)

lemma idt_entries_length [simp]: "length (idt_entries irq es idt) = length idt"
  by (induction es arbitrary: idt) auto

lemma idt_entries_nth:
  assumes "distinct (map fst es)" "n < length idt"
  shows "idt_entries irq es idt ! n = (case map_of es n of None \<Rightarrow> idt ! n
    | Some (dpl, err) \<Rightarrow> GATE32 STS_TG (KSEL SEG_KCODE) (irq n) dpl)"
  using assms
proof (induction es arbitrary: idt)
  case (Cons e es)
  obtain i dpl err where e: "e = (i, dpl, err)" by (cases e)
  have "i \<notin> set (map fst es)" using Cons.prems(1) e by simp
  then have "map_of es i = None" by (simp add: map_of_eq_None_iff)
  then show ?case using Cons e by (cases "n = i") (auto split: option.splits)
qed simp

lemma IRQS_dpl: "distinct (map fst IRQS)" "map_of IRQS n = Some (dpl, err) \<Longrightarrow> dpl = (if n \<in> {128, 129} then 3 else 0)"
  by (simp add: IRQS_def) (auto simp: IRQS_def DPL_KERN_def DPL_USER_def split: if_splits)

text \<open>Every vector leads to its entry, and user programs can raise 128 and 129 only.\<close>

lemma x86_idt_correct:
  assumes "x86_cte_init cpu_id irq irqall handler = Inr (ok, idt, h)"
  shows "length idt = NR_IRQ \<and> h = handler \<and> handler \<noteq> None \<and> (\<forall>n < NR_IRQ.
    gate_target (idt ! n) = (if n \<in> fst ` set IRQS then irq n else irqall) \<and>
    gd_cs (idt ! n) = ucast (KSEL SEG_KCODE) \<and> gd_type (idt ! n) = 0xf \<and> gd_p (idt ! n) = 1 \<and>
    (unat (gd_dpl (idt ! n)) = DPL_USER \<longleftrightarrow> n \<in> {0x80, 0x81}))"
proof -
  have idt: "idt = idt_entries irq IRQS (replicate NR_IRQ (GATE32 STS_TG (KSEL SEG_KCODE) irqall DPL_KERN))"
    "h = handler" "handler \<noteq> None"
    using assms by (auto simp: x86_cte_init_def guardR_def split: if_splits)
  have "gate_target (idt ! n) = (if n \<in> fst ` set IRQS then irq n else irqall) \<and>
    gd_cs (idt ! n) = ucast (KSEL SEG_KCODE) \<and> gd_type (idt ! n) = 0xf \<and> gd_p (idt ! n) = 1 \<and>
    (unat (gd_dpl (idt ! n)) = DPL_USER \<longleftrightarrow> n \<in> {0x80, 0x81})" if "n < NR_IRQ" for n
  proof (cases "map_of IRQS n")
    case None
    then have k: "n \<notin> fst ` set IRQS" by (simp add: map_of_eq_None_iff)
    then have "n \<notin> {0x80, 0x81}" by (auto simp: IRQS_def)
    moreover have "idt ! n = GATE32 STS_TG (KSEL SEG_KCODE) irqall DPL_KERN"
      unfolding idt(1) using that None by (subst idt_entries_nth [OF IRQS_dpl(1)]) simp_all
    ultimately show ?thesis using k by (simp, simp add: GATE32_def DPL_USER_def DPL_KERN_def STS_TG_def)
  next
    case (Some e)
    obtain dpl err where e: "e = (dpl, err)" by (cases e)
    have k: "n \<in> fst ` set IRQS" using Some by (metis domI dom_map_of_conv_image_fst)
    have d: "dpl = (if n \<in> {128, 129} then 3 else 0)" using IRQS_dpl(2) Some e by simp
    have "idt ! n = GATE32 STS_TG (KSEL SEG_KCODE) (irq n) dpl"
      unfolding idt(1) using that Some e by (subst idt_entries_nth [OF IRQS_dpl(1)]) simp_all
    then show ?thesis using k d by (simp, simp add: GATE32_def DPL_USER_def STS_TG_def)
  qed
  with idt show ?thesis by simp
qed

text \<open>The code and data segments are flat, at their levels, and the task state is where it is.\<close>

lemma x86_segments_flat:
  assumes "length gdt = NR_SEG" "x86_initgdt tss gdt = (gdt', tr)"
  shows "\<forall>(sel, dpl) \<in> {(KSEL SEG_KCODE, 0), (KSEL SEG_KDATA, 0), (USEL SEG_UCODE, 3), (USEL SEG_UDATA, 3)}.
    (let d = gdt' ! unat (drop_bit 3 sel) in
     seg_base d = 0 \<and> seg_limit d = 0xffffffff \<and> unat (sd_dpl d) = dpl \<and> unat (sel AND 3) = dpl \<and> sd_p d = 1)"
    and "seg_base (gdt' ! unat (drop_bit 3 tr)) = tss" "seg_limit (gdt' ! unat (drop_bit 3 tr)) = 103"
    and "gdt' ! 0 = gdt ! 0"
proof -
  have g: "gdt' = gdt[1 := SEG32 (STA_X OR STA_R) 0 0xffffffff DPL_KERN, 2 := SEG32 STA_W 0 0xffffffff DPL_KERN,
      3 := SEG32 (STA_X OR STA_R) 0 0xffffffff DPL_USER, 4 := SEG32 STA_W 0 0xffffffff DPL_USER,
      5 := SEG16 STS_T32A tss 103 DPL_KERN]" "tr = 40"
    using assms(2) by (auto simp: x86_initgdt_def SEG_KCODE_def SEG_KDATA_def SEG_UCODE_def SEG_UDATA_def SEG_TSS_def
        KSEL_def)
  have s: "KSEL SEG_KCODE = 8" "KSEL SEG_KDATA = 16" "USEL SEG_UCODE = 27" "USEL SEG_UDATA = 35"
    by (simp_all add: KSEL_def USEL_def SEG_KCODE_def SEG_KDATA_def SEG_UCODE_def SEG_UDATA_def)
  have len: "length gdt = 6" using assms(1) by (simp add: NR_SEG_def)
  have l: "seg_limit (SEG32 type 0 0xffffffff dpl) = 0xffffffff" "sd_p (SEG32 type 0 0xffffffff dpl) = 1"
    "sd_dpl (SEG32 type 0 0xffffffff dpl) = of_nat dpl" for type dpl
    by (simp_all add: seg_limit_def SEG32_def)
  show "\<forall>(sel, dpl) \<in> {(KSEL SEG_KCODE, 0), (KSEL SEG_KDATA, 0), (USEL SEG_UCODE, 3), (USEL SEG_UDATA, 3)}.
    (let d = gdt' ! unat (drop_bit 3 sel) in
     seg_base d = 0 \<and> seg_limit d = 0xffffffff \<and> unat (sd_dpl d) = dpl \<and> unat (sel AND 3) = dpl \<and> sd_p d = 1)"
    by (simp add: g s len l DPL_KERN_def DPL_USER_def nth_list_update)
  show "seg_base (gdt' ! unat (drop_bit 3 tr)) = tss" "seg_limit (gdt' ! unat (drop_bit 3 tr)) = 103"
    by (simp_all add: g len) (simp add: seg_limit_def SEG16_def)
  show "gdt' ! 0 = gdt ! 0" by (simp add: g)
qed

end
