(* ===== verification/X86_Disk.thy ===== *)
theory X86_Disk
  imports Prelude
begin

text \<open>
  The disk of the x86 machine: the driver of \<^verbatim>\<open>am/src/x86/qemu/ioe.c\<close> and the boot loader
  \<^verbatim>\<open>am/src/x86/qemu/boot/main.c\<close>. The I/O ports are a parameter, a record of the functions of the
  instructions \<^verbatim>\<open>in\<close> and \<^verbatim>\<open>out\<close> on the state of the hardware. Memory is a store of bytes; a 32-bit access
  is four of them, as on the processor. Waiting for the disk may not end, which is \<open>None\<close>.
\<close>

section \<open>Ports and memory\<close>

record 's port_bus =
  pb_inb :: "u16 \<Rightarrow> 's \<Rightarrow> u8 \<times> 's"
  pb_inl :: "u16 \<Rightarrow> 's \<Rightarrow> u32 \<times> 's"
  pb_outb :: "u16 \<Rightarrow> u8 \<Rightarrow> 's \<Rightarrow> 's"
  pb_outl :: "u16 \<Rightarrow> u32 \<Rightarrow> 's \<Rightarrow> 's"

type_synonym bmem = "u32 \<Rightarrow> u8"

fun put_bytes :: "u32 \<Rightarrow> u8 list \<Rightarrow> bmem \<Rightarrow> bmem" where
  "put_bytes a [] m = m"
| "put_bytes a (b # bs) m = put_bytes (a + 1) bs (m(a := b))"

fun get_bytes :: "u32 \<Rightarrow> nat \<Rightarrow> bmem \<Rightarrow> u8 list" where
  "get_bytes a 0 m = []"
| "get_bytes a (Suc n) m = m a # get_bytes (a + 1) n m"

definition store_u32 :: "u32 \<Rightarrow> u32 \<Rightarrow> bmem \<Rightarrow> bmem" where
  "store_u32 a v m = put_bytes a (le_bytes 4 v) m"

definition load_u32 :: "u32 \<Rightarrow> bmem \<Rightarrow> u32" where
  "load_u32 a m = le_word (get_bytes a 4 m)"

definition load_u16 :: "u32 \<Rightarrow> bmem \<Rightarrow> u32" where
  "load_u16 a m = le_word (get_bytes a 2 m)"

section \<open>Sectors\<close>

partial_function (option) wait_disk :: "'s port_bus \<Rightarrow> 's \<Rightarrow> 's option" where
  "wait_disk B s =
     (let (st, s) = pb_inb B 0x1f7 s in
      if st AND 0xc0 = 0x40 then Some s else wait_disk B s)"

definition disk_command :: "'s port_bus \<Rightarrow> u32 \<Rightarrow> u8 \<Rightarrow> 's \<Rightarrow> 's" where
  "disk_command B blkno cmd s =
     (let s = pb_outb B 0x1f2 1 s;
          s = pb_outb B 0x1f3 (ucast blkno) s;
          s = pb_outb B 0x1f4 (ucast (drop_bit 8 blkno)) s;
          s = pb_outb B 0x1f5 (ucast (drop_bit 16 blkno)) s;
          s = pb_outb B 0x1f6 (ucast (drop_bit 24 blkno OR 0xe0)) s in
      pb_outb B 0x1f7 cmd s)"

text \<open>The loops over the words of a sector; the pointer advances by four bytes.\<close>

fun in_words :: "'s port_bus \<Rightarrow> u32 \<Rightarrow> nat \<Rightarrow> bmem \<times> 's \<Rightarrow> bmem \<times> 's" where
  "in_words B ptr 0 (m, s) = (m, s)"
| "in_words B ptr (Suc n) (m, s) =
     (let (w, s) = pb_inl B 0x1f0 s in in_words B (ptr + 4) n (store_u32 ptr w m, s))"

fun out_words :: "'s port_bus \<Rightarrow> u32 \<Rightarrow> nat \<Rightarrow> bmem \<Rightarrow> 's \<Rightarrow> 's" where
  "out_words B ptr 0 m s = s"
| "out_words B ptr (Suc n) m s = out_words B (ptr + 4) n m (pb_outl B 0x1f0 (load_u32 ptr m) s)"

section \<open>The driver\<close>

definition BLKSZ :: nat where
  "BLKSZ = 512"

definition DISKSZ :: nat where
  "DISKSZ = 64 * 2 ^ 20"

definition x86_disk_config :: "bool \<times> nat \<times> nat" where
  "x86_disk_config = (True, BLKSZ, DISKSZ div BLKSZ)"

definition disk_block :: "'s port_bus \<Rightarrow> bool \<Rightarrow> u32 \<Rightarrow> u32 \<Rightarrow> bmem \<times> 's \<Rightarrow> (bmem \<times> 's) option" where
  "disk_block B write blkno ptr p =
     (case p of (m, s) \<Rightarrow>
      case wait_disk B s of
        None \<Rightarrow> None
      | Some s \<Rightarrow>
          (case wait_disk B (disk_command B blkno (if write then 0x30 else 0x20) s) of
             None \<Rightarrow> None
           | Some s \<Rightarrow> if write then Some (m, out_words B ptr (BLKSZ div 4) m s)
                        else Some (in_words B ptr (BLKSZ div 4) (m, s))))"

fun disk_blocks :: "'s port_bus \<Rightarrow> bool \<Rightarrow> nat \<Rightarrow> u32 \<Rightarrow> u32 \<Rightarrow> bmem \<times> 's \<Rightarrow> (bmem \<times> 's) option" where
  "disk_blocks B write 0 blkno ptr p = Some p"
| "disk_blocks B write (Suc remain) blkno ptr p =
     (case disk_block B write blkno ptr p of
        None \<Rightarrow> None
      | Some p \<Rightarrow> disk_blocks B write remain (blkno + 1) (ptr + of_nat BLKSZ) p)"

definition x86_disk_blkio :: "'s port_bus \<Rightarrow> bool \<Rightarrow> u32 \<Rightarrow> u32 \<Rightarrow> u32 \<Rightarrow> bmem \<times> 's \<Rightarrow> (bmem \<times> 's) option" where
  "x86_disk_blkio B write buf blkno blkcnt p = disk_blocks B write (unat blkcnt) blkno buf p"

section \<open>The boot loader\<close>

definition SECTSIZE :: u32 where
  "SECTSIZE = 512"

definition ARGSIZE :: u32 where
  "ARGSIZE = 1024"

definition MAINARG_ADDR :: u32 where
  "MAINARG_ADDR = 0x10000"

definition read_disk :: "'s port_bus \<Rightarrow> u32 \<Rightarrow> u32 \<Rightarrow> bmem \<times> 's \<Rightarrow> (bmem \<times> 's) option" where
  "read_disk B buf sect p =
     (case p of (m, s) \<Rightarrow>
      case wait_disk B s of
        None \<Rightarrow> None
      | Some s \<Rightarrow>
          (case wait_disk B (disk_command B sect 0x20 s) of
             None \<Rightarrow> None
           | Some s \<Rightarrow> Some (in_words B buf 128 (m, s))))"

partial_function (option) copy_sectors :: "'s port_bus \<Rightarrow> u32 \<Rightarrow> u32 \<Rightarrow> u32 \<Rightarrow> bmem \<times> 's \<Rightarrow> (bmem \<times> 's) option" where
  "copy_sectors B cur ed sect p =
     (if cur < ed
      then case read_disk B cur sect p of
             None \<Rightarrow> None
           | Some p \<Rightarrow> copy_sectors B (cur + SECTSIZE) ed (sect + 1) p
      else Some p)"

text \<open>\<open>disk_offset\<close> is an \<^verbatim>\<open>int\<close>: the division truncates towards zero.\<close>

definition copy_from_disk :: "'s port_bus \<Rightarrow> u32 \<Rightarrow> u32 \<Rightarrow> u32 \<Rightarrow> bmem \<times> 's \<Rightarrow> (bmem \<times> 's) option" where
  "copy_from_disk B buf nbytes disk_offset p =
     (let cur = buf AND NOT (SECTSIZE - 1); ed = buf + nbytes;
          sect = word_of_int (sgn (sint disk_offset) * (\<bar>sint disk_offset\<bar> div 512)) + ARGSIZE div SECTSIZE + 1 in
      copy_sectors B cur ed sect p)"

fun zero_bytes :: "u32 \<Rightarrow> nat \<Rightarrow> bmem \<Rightarrow> bmem" where
  "zero_bytes a 0 m = m"
| "zero_bytes a (Suc n) m = zero_bytes (a + 1) n (m(a := 0))"

text \<open>
  The loop from \<^verbatim>\<open>filesz\<close> until \<^verbatim>\<open>memsz\<close> is reached counts modulo \<open>2 ^ 32\<close>, that is \<open>memsz - filesz\<close> times.
\<close>

definition load_program :: "'s port_bus \<Rightarrow> u32 \<Rightarrow> u32 \<Rightarrow> u32 \<Rightarrow> u32 \<Rightarrow> bmem \<times> 's \<Rightarrow> (bmem \<times> 's) option" where
  "load_program B filesz memsz paddr offset p =
     (case copy_from_disk B paddr filesz offset p of
        None \<Rightarrow> None
      | Some (m, s) \<Rightarrow> Some (zero_bytes (paddr + filesz) (unat (memsz - filesz)) m, s))"

text \<open>Program headers; of the 64-bit members the low words are used.\<close>

fun load_headers32 :: "'s port_bus \<Rightarrow> u32 \<Rightarrow> nat \<Rightarrow> bmem \<times> 's \<Rightarrow> (bmem \<times> 's) option" where
  "load_headers32 B ph 0 p = Some p"
| "load_headers32 B ph (Suc n) (m, s) =
     (case load_program B (load_u32 (ph + 16) m) (load_u32 (ph + 20) m) (load_u32 (ph + 12) m) (load_u32 (ph + 4) m) (m, s) of
        None \<Rightarrow> None
      | Some p \<Rightarrow> load_headers32 B (ph + 32) n p)"

fun load_headers64 :: "'s port_bus \<Rightarrow> u32 \<Rightarrow> nat \<Rightarrow> bmem \<times> 's \<Rightarrow> (bmem \<times> 's) option" where
  "load_headers64 B ph 0 p = Some p"
| "load_headers64 B ph (Suc n) (m, s) =
     (case load_program B (load_u32 (ph + 32) m) (load_u32 (ph + 40) m) (load_u32 (ph + 24) m) (load_u32 (ph + 8) m) (m, s) of
        None \<Rightarrow> None
      | Some p \<Rightarrow> load_headers64 B (ph + 56) n p)"

text \<open>
  \<^verbatim>\<open>load_kernel\<close> on the processor whose boot record says \<open>is_ap\<close>; the result is the entry that is called.
\<close>

definition BOOTREC_ADDR :: u32 where
  "BOOTREC_ADDR = 0x7000"

definition EM_X86_64 :: u32 where
  "EM_X86_64 = 62"

definition load_kernel :: "'s port_bus \<Rightarrow> bmem \<times> 's \<Rightarrow> (u32 \<times> bmem \<times> 's) option" where
  "load_kernel B p =
     (let elf = 0x8000;
          loaded =
            (if load_u32 (BOOTREC_ADDR + 4) (fst p) = 0
             then case copy_from_disk B MAINARG_ADDR 1024 (- 1024) p of
                    None \<Rightarrow> None
                  | Some p \<Rightarrow>
                      (case copy_from_disk B elf 4096 0 p of
                         None \<Rightarrow> None
                       | Some p \<Rightarrow>
                           if load_u16 (elf + 18) (fst p) = EM_X86_64
                           then load_headers64 B (elf + load_u32 (elf + 32) (fst p)) (unat (load_u16 (elf + 56) (fst p))) p
                           else load_headers32 B (elf + load_u32 (elf + 28) (fst p)) (unat (load_u16 (elf + 44) (fst p))) p)
             else Some p) in
      case loaded of None \<Rightarrow> None | Some p \<Rightarrow> Some (load_u32 (elf + 24) (fst p), p))"

end
