(* ===== verification/Blocks.thy ===== *)
theory Blocks
  imports Prelude
begin

text \<open>
  Blocks of bytes in a memory of \<open>2 ^ 32\<close> bytes: what a store of a whole block leaves, shared by the
  theories that copy memory in pieces.
\<close>

definition put_block :: "u32 \<Rightarrow> u8 list \<Rightarrow> (u32 \<Rightarrow> u8) \<Rightarrow> u32 \<Rightarrow> u8" where
  "put_block dest src m a = (if unat (a - dest) < length src then src ! unat (a - dest) else m a)"

lemma put_block_Nil [simp]: "put_block dest [] m = m"
  by (simp add: put_block_def fun_eq_iff)

lemma unat_of_nat_u32: "n < 2 ^ 32 \<Longrightarrow> unat (of_nat n :: u32) = n"
  by (simp only: unat_of_nat len_bit0 len_num1) (simp add: mod_less)

lemma unat_diff_shift:
  fixes a dest :: u32
  assumes "n < 2 ^ 32"
  shows "unat (a - (dest + of_nat n)) =
    (if n \<le> unat (a - dest) then unat (a - dest) - n else unat (a - dest) + 2 ^ 32 - n)"
proof -
  have "a - (dest + of_nat n) = (a - dest) - of_nat n" by simp
  then show ?thesis using unat_of_nat_u32 [OF assms] by (simp only: unat_sub_if') simp
qed

text \<open>A block can be stored in two pieces.\<close>

lemma put_block_append:
  assumes "length xs + length ys \<le> 2 ^ 32"
  shows "put_block (dest + of_nat (length xs)) ys (put_block dest xs m) = put_block dest (xs @ ys) m"
proof
  fix a
  let ?k = "unat (a - dest)" and ?n = "length xs"
  have k: "?k < 2 ^ 32" using unsigned_less [of "a - dest"] by simp
  show "put_block (dest + of_nat ?n) ys (put_block dest xs m) a = put_block dest (xs @ ys) m a"
  proof (cases "?n = 2 ^ 32")
    case True
    then have "(of_nat ?n :: u32) = 0" by simp
    then show ?thesis using True assms k by (simp add: put_block_def nth_append)
  next
    case False
    then have n: "?n < 2 ^ 32" using assms by simp
    show ?thesis using assms unat_diff_shift [OF n, of a dest] k
      by (cases "?n \<le> ?k") (auto simp: put_block_def nth_append)
  qed
qed

lemma put_block_split:
  assumes "length src \<le> 2 ^ 32" "n \<le> length src"
  shows "put_block (dest + of_nat n) (drop n src) (put_block dest (take n src) m) = put_block dest src m"
  using put_block_append [of "take n src" "drop n src" dest m] assms by simp

lemma put_block_range:
  assumes "unat dest + length bs \<le> 2 ^ 32"
  shows "put_block dest bs m x =
    (if unat dest \<le> unat x \<and> unat x < unat dest + length bs then bs ! (unat x - unat dest) else m x)"
proof -
  have "unat (x - dest) = (if unat dest \<le> unat x then unat x - unat dest else unat x + 2 ^ 32 - unat dest)"
    by (simp only: unat_sub_if') simp
  then show ?thesis using assms by (auto simp: put_block_def)
qed

end
