(* ===== verification/X86_Disk_Correct.thy ===== *)
theory X86_Disk_Correct
  imports X86_Disk Blocks
begin

text \<open>
  The disk driver and the boot loader on an ATA disk. The disk is a reference machine with its
  registers, a transfer in progress and a time for which it is busy after a command; the ports of the
  computer are required to behave like it, in whatever state the rest of the hardware is.
\<close>

section \<open>An ATA disk\<close>

datatype ata_mode = Idle | Reading nat nat | Writing nat nat

record ata =
  at_disk :: "nat \<Rightarrow> nat \<Rightarrow> u32"
  at_l0 :: u8
  at_l1 :: u8
  at_l2 :: u8
  at_dev :: u8
  at_mode :: ata_mode
  at_busy :: nat
  at_latency :: nat

definition ata_lba :: "ata \<Rightarrow> nat" where
  "ata_lba a = unat (at_l0 a) + 2 ^ 8 * unat (at_l1 a) + 2 ^ 16 * unat (at_l2 a) + 2 ^ 24 * unat (at_dev a AND 15)"

definition ata_inb :: "u16 \<Rightarrow> ata \<Rightarrow> u8 \<times> ata" where
  "ata_inb p a = (if p = 0x1f7 then (if at_busy a = 0 then 0x40 else 0x80, a\<lparr>at_busy := at_busy a - 1\<rparr>) else (0, a))"

definition ata_inl :: "u16 \<Rightarrow> ata \<Rightarrow> u32 \<times> ata" where
  "ata_inl p a =
     (case at_mode a of
        Reading S k \<Rightarrow> if p = 0x1f0 \<and> at_busy a = 0
          then (at_disk a S k, a\<lparr>at_mode := if Suc k = 128 then Idle else Reading S (Suc k)\<rparr>) else (0, a)
      | _ \<Rightarrow> (0, a))"

definition ata_outb :: "u16 \<Rightarrow> u8 \<Rightarrow> ata \<Rightarrow> ata" where
  "ata_outb p v a =
     (if p = 0x1f3 then a\<lparr>at_l0 := v\<rparr> else if p = 0x1f4 then a\<lparr>at_l1 := v\<rparr> else if p = 0x1f5 then a\<lparr>at_l2 := v\<rparr>
      else if p = 0x1f6 then a\<lparr>at_dev := v\<rparr>
      else if p = 0x1f7 \<and> v = 0x20 then a\<lparr>at_mode := Reading (ata_lba a) 0, at_busy := at_latency a\<rparr>
      else if p = 0x1f7 \<and> v = 0x30 then a\<lparr>at_mode := Writing (ata_lba a) 0, at_busy := at_latency a\<rparr> else a)"

definition ata_outl :: "u16 \<Rightarrow> u32 \<Rightarrow> ata \<Rightarrow> ata" where
  "ata_outl p v a =
     (case at_mode a of
        Writing S k \<Rightarrow> if p = 0x1f0 \<and> at_busy a = 0
          then a\<lparr>at_disk := (at_disk a)(S := (at_disk a S)(k := v)),
                at_mode := if Suc k = 128 then Idle else Writing S (Suc k)\<rparr> else a
      | _ \<Rightarrow> a)"

definition ata_bus :: "ata port_bus" where
  "ata_bus = \<lparr>pb_inb = ata_inb, pb_inl = ata_inl, pb_outb = ata_outb, pb_outl = ata_outl\<rparr>"

text \<open>The ports 0x1f0 to 0x1f7 of the computer behave like the disk that \<open>view\<close> finds in its state.\<close>

definition has_ata :: "'s port_bus \<Rightarrow> ('s \<Rightarrow> ata) \<Rightarrow> bool" where
  "has_ata B view \<longleftrightarrow> (\<forall>p \<in> {0x1f0, 0x1f1, 0x1f2, 0x1f3, 0x1f4, 0x1f5, 0x1f6, 0x1f7}. \<forall>s.
     fst (pb_inb B p s) = fst (ata_inb p (view s)) \<and> view (snd (pb_inb B p s)) = snd (ata_inb p (view s)) \<and>
     fst (pb_inl B p s) = fst (ata_inl p (view s)) \<and> view (snd (pb_inl B p s)) = snd (ata_inl p (view s)) \<and>
     (\<forall>v. view (pb_outb B p v s) = ata_outb p v (view s)) \<and> (\<forall>v. view (pb_outl B p v s) = ata_outl p v (view s)))"

lemma has_ata_bus: "has_ata ata_bus (\<lambda>a. a)"
  by (simp add: has_ata_def ata_bus_def)

lemma has_ataD:
  assumes "has_ata B view"
  shows "fst (pb_inb B 0x1f7 s) = fst (ata_inb 0x1f7 (view s))" "view (snd (pb_inb B 0x1f7 s)) = snd (ata_inb 0x1f7 (view s))"
    "fst (pb_inl B 0x1f0 s) = fst (ata_inl 0x1f0 (view s))" "view (snd (pb_inl B 0x1f0 s)) = snd (ata_inl 0x1f0 (view s))"
    "view (pb_outl B 0x1f0 w s) = ata_outl 0x1f0 w (view s)"
    "p \<in> {0x1f2, 0x1f3, 0x1f4, 0x1f5, 0x1f6, 0x1f7} \<Longrightarrow> view (pb_outb B p v s) = ata_outb p v (view s)"
  using assms unfolding has_ata_def by auto

section \<open>Waiting and commands\<close>

lemma wait_disk_ends:
  "has_ata B view \<Longrightarrow> at_busy (view s) = n \<Longrightarrow> \<exists>s'. wait_disk B s = Some s' \<and> view s' = (view s)\<lparr>at_busy := 0\<rparr>"
proof (induction n arbitrary: s)
  case 0
  obtain st s1 where i: "pb_inb B 0x1f7 s = (st, s1)" by (cases "pb_inb B 0x1f7 s")
  then have "st = 0x40" "view s1 = (view s)\<lparr>at_busy := 0\<rparr>"
    using has_ataD(1,2) [OF 0(1), of s] 0(2) by (simp_all add: ata_inb_def)
  then show ?case using i by (subst wait_disk.simps) simp
next
  case (Suc n)
  obtain st s1 where i: "pb_inb B 0x1f7 s = (st, s1)" by (cases "pb_inb B 0x1f7 s")
  then have "st = 0x80" and a: "view s1 = (view s)\<lparr>at_busy := n\<rparr>"
    using has_ataD(1,2) [OF Suc.prems(1), of s] Suc.prems(2) by (simp_all add: ata_inb_def)
  then have "wait_disk B s = wait_disk B s1" using i by (subst wait_disk.simps) simp
  moreover obtain s' where "wait_disk B s1 = Some s'" "view s' = (view s1)\<lparr>at_busy := 0\<rparr>"
    using Suc.IH [OF Suc.prems(1), of s1] a by auto
  ultimately show ?case using a by simp
qed

lemma digits:
  "x = a + 2 ^ 8 * y \<Longrightarrow> y = b + 2 ^ 8 * z \<Longrightarrow> z = c + 2 ^ 8 * t \<Longrightarrow> x = a + 2 ^ 8 * b + 2 ^ 16 * c + 2 ^ 24 * (t :: nat)"
  by simp

lemma lba_digits:
  assumes "unat (b :: u32) < 2 ^ 28"
  shows "unat (ucast b :: u8) + 2 ^ 8 * unat (ucast (drop_bit 8 b) :: u8) + 2 ^ 16 * unat (ucast (drop_bit 16 b) :: u8) +
    2 ^ 24 * unat ((ucast (drop_bit 24 b OR 0xe0) :: u8) AND 15) = unat b"
proof -
  have u: "unat (ucast (drop_bit n b) :: u8) = unat b div 2 ^ n mod 2 ^ 8" for n
    by (simp add: unsigned_ucast_eq unat_drop_bit_eq drop_bit_nat_def take_bit_nat_def)
  have d: "(ucast (drop_bit 24 b OR 0xe0) :: u8) AND 15 = take_bit 4 (ucast (drop_bit 24 b))"
  proof (rule bit_word_eqI)
    fix n assume "n < LENGTH(8)"
    define d :: u32 where "d = 7"
    have p: "(0xe0 :: u32) = push_bit 5 d" "(15 :: u8) = mask 4"
      by (simp_all add: push_bit_eq_mult mask_eq_exp_minus_1 d_def)
    show "bit ((ucast (drop_bit 24 b OR 0xe0) :: u8) AND 15) n = bit (take_bit 4 (ucast (drop_bit 24 b)) :: u8) n"
      unfolding p by (auto simp: bit_simps)
  qed
  have "unat (take_bit 4 (ucast (drop_bit 24 b)) :: u8) = unat b div 2 ^ 24 mod 2 ^ 8 mod 2 ^ 4"
    by (simp add: unsigned_take_bit_eq u take_bit_nat_def del: power_numeral)
  moreover have "unat b div 2 ^ 24 < 2 ^ 4" using assms by (simp add: less_mult_imp_div_less)
  ultimately have h: "unat ((ucast (drop_bit 24 b OR 0xe0) :: u8) AND 15) = unat b div 2 ^ 24" unfolding d by simp
  have l: "unat (ucast b :: u8) = unat b mod 2 ^ 8" using u [of 0] by simp
  have d: "x = x mod 2 ^ 8 + 2 ^ 8 * (x div 2 ^ 8)" for x :: nat by simp
  have "unat b div 2 ^ 16 = unat b div 2 ^ 8 div 2 ^ 8" "unat b div 2 ^ 24 = unat b div 2 ^ 8 div 2 ^ 8 div 2 ^ 8"
    by (simp_all add: div_mult2_eq [symmetric])
  with d have "unat b = unat b mod 2 ^ 8 + 2 ^ 8 * (unat b div 2 ^ 8 mod 2 ^ 8) + 2 ^ 16 * (unat b div 2 ^ 16 mod 2 ^ 8) +
      2 ^ 24 * (unat b div 2 ^ 24)"
    by (intro digits [of _ _ "unat b div 2 ^ 8" _ "unat b div 2 ^ 16"]) simp_all
  then show ?thesis unfolding u h l by simp
qed

text \<open>What a command starts, and the state between commands.\<close>

definition ready :: "ata \<Rightarrow> bool" where
  "ready a \<longleftrightarrow> at_mode a = Idle"

definition same_disk :: "ata \<Rightarrow> ata \<Rightarrow> bool" where
  "same_disk a a' \<longleftrightarrow> at_disk a' = at_disk a \<and> at_latency a' = at_latency a"

lemma disk_command_starts:
  assumes "has_ata B view" "unat blkno < 2 ^ 28"
  shows "at_mode (view (disk_command B blkno (if w then 0x30 else 0x20) s)) =
      (if w then Writing (unat blkno) 0 else Reading (unat blkno) 0)"
    "same_disk (view s) (view (disk_command B blkno (if w then 0x30 else 0x20) s))"
  using lba_digits [OF assms(2)]
  by (simp_all add: disk_command_def Let_def has_ataD(6) [OF assms(1)] ata_outb_def ata_lba_def same_disk_def del: power_numeral)

lemma disk_command_waits:
  assumes "has_ata B view" "unat blkno < 2 ^ 28"
  shows "\<exists>s1 s2. wait_disk B s = Some s1 \<and> wait_disk B (disk_command B blkno (if w then 0x30 else 0x20) s1) = Some s2 \<and>
    at_mode (view s2) = (if w then Writing (unat blkno) 0 else Reading (unat blkno) 0) \<and> at_busy (view s2) = 0 \<and>
    same_disk (view s) (view s2)"
proof -
  obtain s1 where 1: "wait_disk B s = Some s1" "view s1 = (view s)\<lparr>at_busy := 0\<rparr>"
    using wait_disk_ends [OF assms(1) refl] by blast
  let ?c = "disk_command B blkno (if w then 0x30 else 0x20) s1"
  obtain s2 where 2: "wait_disk B ?c = Some s2" "view s2 = (view ?c)\<lparr>at_busy := 0\<rparr>"
    using wait_disk_ends [OF assms(1) refl, of ?c] by blast
  show ?thesis
    using 1 2 disk_command_starts [OF assms, where w = w and s = s1] by (intro exI [of _ s1] exI [of _ s2]) (simp add: same_disk_def)
qed

section \<open>Transfers\<close>

definition sector_bytes :: "(nat \<Rightarrow> nat \<Rightarrow> u32) \<Rightarrow> nat \<Rightarrow> u8 list" where
  "sector_bytes d S = concat (map (\<lambda>k. le_bytes 4 (d S k)) [0..<128])"

lemma length_words: "length (concat (map (\<lambda>k. le_bytes 4 (f k)) ks)) = 4 * length ks"
  by (induction ks) simp_all

lemma length_sector_bytes [simp]: "length (sector_bytes d S) = 512"
  by (simp add: sector_bytes_def length_words)

lemma put_bytes_block: "length bs \<le> 2 ^ 32 \<Longrightarrow> put_bytes a bs m = put_block a bs m"
proof (induction bs arbitrary: a m)
  case (Cons b bs)
  have "m(a := b) = put_block a [b] m"
    by (auto simp: put_block_def fun_eq_iff unat_eq_zero)
  then show ?case using Cons put_block_append [of "[b]" bs a m] by simp
qed simp

lemma store_u32_block: "store_u32 a v m = put_block a (le_bytes 4 v) m"
  by (simp add: store_u32_def put_bytes_block del: le_bytes.simps)

lemma of_nat_four: "(4 :: u32) = of_nat (length (le_bytes 4 (v :: u32)))"
  by simp

lemma in_words_block:
  "has_ata B view \<Longrightarrow> at_mode (view s) = Reading S k \<Longrightarrow> at_busy (view s) = 0 \<Longrightarrow> k + n = 128 \<Longrightarrow> 0 < n \<Longrightarrow>
   \<exists>s'. in_words B ptr n (m, s) =
     (put_block ptr (concat (map (\<lambda>j. le_bytes 4 (at_disk (view s) S j)) [k..<128])) m, s') \<and>
     ready (view s') \<and> same_disk (view s) (view s')"
proof (induction n arbitrary: k ptr m s)
  case (Suc n)
  let ?w = "at_disk (view s) S k"
  obtain w s1 where i: "pb_inl B 0x1f0 s = (w, s1)" by (cases "pb_inl B 0x1f0 s")
  have "(w, view s1) = ata_inl 0x1f0 (view s)"
    using has_ataD(3,4) [OF Suc.prems(1), of s] i by simp
  then have w: "w = ?w" "view s1 = (view s)\<lparr>at_mode := if Suc k = 128 then Idle else Reading S (Suc k)\<rparr>"
    using Suc.prems(2,3) by (simp_all add: ata_inl_def)
  have step: "in_words B ptr (Suc n) (m, s) = in_words B (ptr + 4) n (put_block ptr (le_bytes 4 ?w) m, s1)"
    using i w(1) by (simp add: store_u32_block del: le_bytes.simps)
  have k: "[k..<128] = k # [Suc k..<128]" using Suc.prems(4) by (intro upt_conv_Cons) simp
  show ?case
  proof (cases "n = 0")
    case True
    then have "Suc k = 128" using Suc.prems(4) by simp
    then show ?thesis using step w(2) True k by (simp add: ready_def same_disk_def del: le_bytes.simps)
  next
    case False
    then have "Suc k \<noteq> 128" using Suc.prems(4) by simp
    then obtain s' where s': "in_words B (ptr + 4) n (put_block ptr (le_bytes 4 ?w) m, s1) =
        (put_block (ptr + 4) (concat (map (\<lambda>j. le_bytes 4 (at_disk (view s1) S j)) [Suc k..<128])) (put_block ptr (le_bytes 4 ?w) m), s')"
      "ready (view s')" "same_disk (view s1) (view s')"
      using Suc.IH [OF Suc.prems(1), of s1 "Suc k" "ptr + 4" "put_block ptr (le_bytes 4 ?w) m"] w(2) Suc.prems(3,4) False by auto
    have "put_block (ptr + 4) (concat (map (\<lambda>j. le_bytes 4 (at_disk (view s) S j)) [Suc k..<128])) (put_block ptr (le_bytes 4 ?w) m) =
        put_block ptr (le_bytes 4 ?w @ concat (map (\<lambda>j. le_bytes 4 (at_disk (view s) S j)) [Suc k..<128])) m"
      using put_block_append [of "le_bytes 4 ?w" "concat (map (\<lambda>j. le_bytes 4 (at_disk (view s) S j)) [Suc k..<128])" ptr m]
      by (simp add: length_words del: le_bytes.simps)
    then show ?thesis using step s' w(2) k by (simp add: same_disk_def del: le_bytes.simps)
  qed
qed simp

lemma disk_block_reads:
  assumes "has_ata B view" "unat blkno < 2 ^ 28"
  shows "\<exists>s'. disk_block B False blkno ptr (m, s) = Some (put_block ptr (sector_bytes (at_disk (view s)) (unat blkno)) m, s') \<and>
    ready (view s') \<and> same_disk (view s) (view s')"
proof -
  obtain s1 s2 where c: "wait_disk B s = Some s1" "wait_disk B (disk_command B blkno 0x20 s1) = Some s2"
    "at_mode (view s2) = Reading (unat blkno) 0" "at_busy (view s2) = 0" "same_disk (view s) (view s2)"
    using disk_command_waits [OF assms, where s = s and w = False] by auto
  obtain s' where "in_words B ptr 128 (m, s2) =
      (put_block ptr (concat (map (\<lambda>j. le_bytes 4 (at_disk (view s2) (unat blkno) j)) [0..<128])) m, s')"
    "ready (view s')" "same_disk (view s2) (view s')"
    using in_words_block [OF assms(1) c(3,4), of 128] by auto
  then show ?thesis
    using c by (intro exI [of _ s']) (simp add: disk_block_def BLKSZ_def sector_bytes_def same_disk_def del: le_bytes.simps upt_conv_Cons)
qed

lemma read_disk_block: "read_disk B buf sect p = disk_block B False sect buf p"
  by (simp add: read_disk_def disk_block_def BLKSZ_def split: prod.split option.split)

text \<open>A run of sectors.\<close>

definition sectors :: "(nat \<Rightarrow> nat \<Rightarrow> u32) \<Rightarrow> nat \<Rightarrow> nat \<Rightarrow> u8 list" where
  "sectors d S n = concat (map (sector_bytes d) [S..<S + n])"

lemma sectors_Suc: "sectors d S (Suc n) = sector_bytes d S @ sectors d (Suc S) n"
  by (simp add: sectors_def upt_conv_Cons del: upt_Suc)

lemma sectors_0 [simp]: "sectors d S 0 = []"
  by (simp add: sectors_def)

lemma length_sectors [simp]: "length (sectors d S n) = 512 * n"
  by (induction n arbitrary: S) (simp_all add: sectors_Suc)

lemma next_block:
  assumes "unat (blkno :: u32) + Suc n \<le> 2 ^ 28" "0 < n"
  shows "unat (blkno + 1) = Suc (unat blkno)"
proof -
  have "unat blkno + 1 < 2 ^ 32" using assms by simp
  then show ?thesis by (subst unat_word_ariths(1)) simp
qed

lemma disk_blocks_read:
  "has_ata B view \<Longrightarrow> ready (view s) \<Longrightarrow> unat blkno + n \<le> 2 ^ 28 \<Longrightarrow> 512 * n \<le> 2 ^ 32 \<Longrightarrow>
   \<exists>s'. disk_blocks B False n blkno ptr (m, s) = Some (put_block ptr (sectors (at_disk (view s)) (unat blkno) n) m, s') \<and>
     ready (view s') \<and> same_disk (view s) (view s')"
proof (induction n arbitrary: blkno ptr m s)
  case 0
  then show ?case by (simp add: same_disk_def)
next
  case (Suc n)
  let ?d = "at_disk (view s)"
  have b: "unat blkno < 2 ^ 28" using Suc.prems(3) by simp
  obtain s1 where 1: "disk_block B False blkno ptr (m, s) = Some (put_block ptr (sector_bytes ?d (unat blkno)) m, s1)"
    "ready (view s1)" "same_disk (view s) (view s1)"
    using disk_block_reads [OF Suc.prems(1) b] by blast
  show ?case
  proof (cases "n = 0")
    case True
    then show ?thesis using 1 by (simp add: sectors_Suc)
  next
    case False
    then have nb: "unat (blkno + 1) = Suc (unat blkno)" using next_block [OF Suc.prems(3)] by simp
    obtain s2 where 2: "disk_blocks B False n (blkno + 1) (ptr + 512) (put_block ptr (sector_bytes ?d (unat blkno)) m, s1) =
        Some (put_block (ptr + 512) (sectors (at_disk (view s1)) (Suc (unat blkno)) n) (put_block ptr (sector_bytes ?d (unat blkno)) m), s2)"
      "ready (view s2)" "same_disk (view s1) (view s2)"
      using Suc.IH [OF Suc.prems(1) 1(2), of "blkno + 1" "ptr + 512"] nb Suc.prems(3,4) by auto
    have "put_block (ptr + 512) (sectors ?d (Suc (unat blkno)) n) (put_block ptr (sector_bytes ?d (unat blkno)) m) =
        put_block ptr (sectors ?d (unat blkno) (Suc n)) m"
      using put_block_append [of "sector_bytes ?d (unat blkno)" "sectors ?d (Suc (unat blkno)) n" ptr m] Suc.prems(4)
      by (simp add: sectors_Suc)
    then show ?thesis using 1 2 by (simp add: same_disk_def BLKSZ_def)
  qed
qed

section \<open>Writing\<close>

lemma le_bytes_take_bit: "8 * n \<le> k \<Longrightarrow> le_bytes n (take_bit k (w :: u32)) = le_bytes n w"
proof (induction n arbitrary: k w)
  case (Suc n)
  have "(ucast (take_bit k w) :: u8) = ucast w" using Suc.prems by (intro bit_word_eqI) (auto simp: bit_simps)
  moreover have "le_bytes n (drop_bit 8 (take_bit k w)) = le_bytes n (drop_bit 8 w)"
    using Suc.IH [of "k - 8" "drop_bit 8 w"] Suc.prems by (simp add: drop_bit_take_bit)
  ultimately show ?case by simp
qed simp

lemma le_bytes_le_word: "8 * length bs \<le> 32 \<Longrightarrow> le_bytes (length bs) (le_word bs :: u32) = bs"
proof (induction bs)
  case (Cons b bs)
  let ?X = "le_word bs :: u32"
  have "(ucast (ucast b OR push_bit 8 ?X) :: u8) = b" by (rule bit_word_eqI) (auto simp: bit_simps)
  moreover have "drop_bit 8 (ucast b OR push_bit 8 ?X) = take_bit 24 ?X"
    by (rule bit_word_eqI) (auto simp: bit_simps dest: bit_imp_le_length)
  ultimately show ?case using Cons le_bytes_take_bit [of "length bs" 24 ?X] by simp
qed simp

lemma length_get_bytes [simp]: "length (get_bytes a n m) = n"
  by (induction n arbitrary: a) simp_all

lemma get_bytes_append: "get_bytes a (i + j) m = get_bytes a i m @ get_bytes (a + of_nat i) j m"
  by (induction i arbitrary: a) (simp_all add: add.assoc)

lemma get_bytes_cong: "(\<And>i. i < n \<Longrightarrow> m' (a + of_nat i) = m (a + of_nat i)) \<Longrightarrow> get_bytes a n m' = get_bytes a n m"
proof (induction n arbitrary: a)
  case (Suc n)
  have "m' (a + 1 + of_nat i) = m (a + 1 + of_nat i)" if "i < n" for i
    using Suc.prems [of "Suc i"] that by (simp add: add.assoc)
  then show ?case using Suc.IH [of "a + 1"] Suc.prems [of 0] by simp
qed simp

lemma load_u32_bytes: "le_bytes 4 (load_u32 a m) = get_bytes a 4 m"
  using le_bytes_le_word [of "get_bytes a 4 m"] by (simp add: load_u32_def del: le_bytes.simps get_bytes.simps)

lemma out_words_block:
  "has_ata B view \<Longrightarrow> at_mode (view s) = Writing S k \<Longrightarrow> at_busy (view s) = 0 \<Longrightarrow> k + n = 128 \<Longrightarrow> 0 < n \<Longrightarrow>
   ready (view (out_words B ptr n m s)) \<and> at_latency (view (out_words B ptr n m s)) = at_latency (view s) \<and>
   (\<forall>T. T \<noteq> S \<longrightarrow> at_disk (view (out_words B ptr n m s)) T = at_disk (view s) T) \<and>
   (\<forall>j < k. at_disk (view (out_words B ptr n m s)) S j = at_disk (view s) S j) \<and>
   concat (map (\<lambda>j. le_bytes 4 (at_disk (view (out_words B ptr n m s)) S j)) [k..<128]) = get_bytes ptr (4 * n) m"
proof (induction n arbitrary: k ptr s)
  case (Suc n)
  let ?w = "load_u32 ptr m" and ?s1 = "pb_outl B 0x1f0 (load_u32 ptr m) s"
  have v: "view ?s1 = (view s)\<lparr>at_disk := (at_disk (view s))(S := (at_disk (view s) S)(k := ?w)),
      at_mode := if Suc k = 128 then Idle else Writing S (Suc k)\<rparr>"
    using has_ataD(5) [OF Suc.prems(1)] Suc.prems(2,3) by (simp add: ata_outl_def)
  have step: "out_words B ptr (Suc n) m s = out_words B (ptr + 4) n m ?s1" by simp
  have k: "[k..<128] = k # [Suc k..<128]" using Suc.prems(4) by (intro upt_conv_Cons) simp
  have g: "get_bytes ptr (4 * Suc n) m = get_bytes ptr 4 m @ get_bytes (ptr + 4) (4 * n) m"
    using get_bytes_append [of ptr 4 "4 * n" m] by (simp del: get_bytes.simps)
  show ?case
  proof (cases "n = 0")
    case True
    then have "Suc k = 128" using Suc.prems(4) by simp
    then show ?thesis using v True k load_u32_bytes [of ptr m]
      by (simp add: ready_def del: le_bytes.simps get_bytes.simps)
  next
    case False
    have "Suc k \<noteq> 128" using Suc.prems(4) False by simp
    then have "at_mode (view ?s1) = Writing S (Suc k)" "at_busy (view ?s1) = 0" "Suc k + n = 128" "0 < n"
      using v Suc.prems(3,4) False by simp_all
    note IH = Suc.IH [OF Suc.prems(1) this, of "ptr + 4"]
    have "at_disk (view (out_words B (ptr + 4) n m ?s1)) S k = ?w" using IH v by simp
    then show ?thesis
      unfolding step g k using IH v load_u32_bytes [of ptr m] by (simp del: le_bytes.simps get_bytes.simps)
  qed
qed simp

definition wrote_sectors :: "(nat \<Rightarrow> nat \<Rightarrow> u32) \<Rightarrow> nat \<Rightarrow> nat \<Rightarrow> u8 list \<Rightarrow> (nat \<Rightarrow> nat \<Rightarrow> u32) \<Rightarrow> bool" where
  "wrote_sectors d S n bs d' \<longleftrightarrow> sectors d' S n = bs \<and> (\<forall>T. T < S \<or> S + n \<le> T \<longrightarrow> d' T = d T)"

lemma disk_block_writes:
  assumes "has_ata B view" "unat blkno < 2 ^ 28"
  shows "\<exists>s'. disk_block B True blkno ptr (m, s) = Some (m, s') \<and> ready (view s') \<and>
    at_latency (view s') = at_latency (view s) \<and>
    wrote_sectors (at_disk (view s)) (unat blkno) 1 (get_bytes ptr 512 m) (at_disk (view s'))"
proof -
  obtain s1 s2 where c: "wait_disk B s = Some s1" "wait_disk B (disk_command B blkno 0x30 s1) = Some s2"
    "at_mode (view s2) = Writing (unat blkno) 0" "at_busy (view s2) = 0" "same_disk (view s) (view s2)"
    using disk_command_waits [OF assms, where s = s and w = True] by auto
  have n: "(0 :: nat) + 128 = 128" "(0 :: nat) < 128" by simp_all
  note o = out_words_block [OF assms(1) c(3,4) n, of ptr m]
  have "sectors (at_disk (view (out_words B ptr 128 m s2))) (unat blkno) 1 = get_bytes ptr 512 m"
    using o by (simp add: sectors_def sector_bytes_def del: le_bytes.simps get_bytes.simps upt_conv_Cons)
  then show ?thesis
    using c o by (intro exI [of _ "out_words B ptr 128 m s2"])
      (simp add: disk_block_def BLKSZ_def same_disk_def wrote_sectors_def del: le_bytes.simps get_bytes.simps upt_conv_Cons out_words.simps)
qed

lemma sectors_cong: "(\<And>T. S \<le> T \<Longrightarrow> T < S + n \<Longrightarrow> d T = d' T) \<Longrightarrow> sectors d S n = sectors d' S n"
  unfolding sectors_def by (intro arg_cong [where f = concat] map_cong refl) (simp add: sector_bytes_def)

lemma wrote_sectors_Suc:
  assumes "wrote_sectors d S 1 xs d1" "wrote_sectors d1 (Suc S) n ys d2"
  shows "wrote_sectors d S (Suc n) (xs @ ys) d2"
proof -
  have "sectors d2 S 1 = sectors d1 S 1" using assms(2) by (intro sectors_cong) (simp add: wrote_sectors_def)
  then have "sector_bytes d2 S = xs" using assms(1) by (simp add: wrote_sectors_def sectors_Suc)
  then show ?thesis using assms by (auto simp: wrote_sectors_def sectors_Suc)
qed

lemma disk_blocks_write:
  "has_ata B view \<Longrightarrow> ready (view s) \<Longrightarrow> unat blkno + n \<le> 2 ^ 28 \<Longrightarrow>
   \<exists>s'. disk_blocks B True n blkno ptr (m, s) = Some (m, s') \<and> ready (view s') \<and>
     at_latency (view s') = at_latency (view s) \<and>
     wrote_sectors (at_disk (view s)) (unat blkno) n (get_bytes ptr (512 * n) m) (at_disk (view s'))"
proof (induction n arbitrary: blkno ptr s)
  case 0
  then show ?case by (simp add: wrote_sectors_def)
next
  case (Suc n)
  have b: "unat blkno < 2 ^ 28" using Suc.prems(3) by simp
  obtain s1 where 1: "disk_block B True blkno ptr (m, s) = Some (m, s1)" "ready (view s1)"
    "at_latency (view s1) = at_latency (view s)"
    "wrote_sectors (at_disk (view s)) (unat blkno) 1 (get_bytes ptr 512 m) (at_disk (view s1))"
    using disk_block_writes [OF Suc.prems(1) b] by blast
  show ?case
  proof (cases "n = 0")
    case True
    then show ?thesis using 1 by (simp del: get_bytes.simps)
  next
    case False
    then have nb: "unat (blkno + 1) = Suc (unat blkno)" using next_block [OF Suc.prems(3)] by simp
    obtain s2 where 2: "disk_blocks B True n (blkno + 1) (ptr + 512) (m, s1) = Some (m, s2)" "ready (view s2)"
      "at_latency (view s2) = at_latency (view s1)"
      "wrote_sectors (at_disk (view s1)) (Suc (unat blkno)) n (get_bytes (ptr + 512) (512 * n) m) (at_disk (view s2))"
      using Suc.IH [OF Suc.prems(1) 1(2), of "blkno + 1" "ptr + 512"] nb Suc.prems(3) by auto
    have "get_bytes ptr (512 * Suc n) m = get_bytes ptr 512 m @ get_bytes (ptr + 512) (512 * n) m"
      using get_bytes_append [of ptr 512 "512 * n" m] by (simp del: get_bytes.simps)
    then show ?thesis
      using 1 2 wrote_sectors_Suc [OF 1(4) 2(4)] by (simp add: BLKSZ_def del: get_bytes.simps)
  qed
qed

text \<open>What is written is read back, into whatever buffer.\<close>

lemma disk_blkio_roundtrip:
  assumes "has_ata B view" "ready (view s)" "unat blkno + unat cnt \<le> 2 ^ 28" "512 * unat cnt \<le> 2 ^ 32"
  shows "\<exists>s1 s2. x86_disk_blkio B True buf blkno cnt (m, s) = Some (m, s1) \<and>
    x86_disk_blkio B False buf' blkno cnt (m', s1) = Some (put_block buf' (get_bytes buf (512 * unat cnt) m) m', s2) \<and>
    ready (view s2)"
proof -
  obtain s1 where 1: "disk_blocks B True (unat cnt) blkno buf (m, s) = Some (m, s1)" "ready (view s1)"
    "wrote_sectors (at_disk (view s)) (unat blkno) (unat cnt) (get_bytes buf (512 * unat cnt) m) (at_disk (view s1))"
    using disk_blocks_write [OF assms(1-3)] by blast
  obtain s2 where "disk_blocks B False (unat cnt) blkno buf' (m', s1) =
      Some (put_block buf' (sectors (at_disk (view s1)) (unat blkno) (unat cnt)) m', s2)" "ready (view s2)"
    using disk_blocks_read [OF assms(1) 1(2) assms(3,4)] by blast
  then show ?thesis using 1 by (simp add: x86_disk_blkio_def wrote_sectors_def)
qed

end
