(* ===== verification/X86_Boot_Correct.thy ===== *)
theory X86_Boot_Correct
  imports X86_Disk_Correct
begin

text \<open>
  The boot loader: the segments of the kernel's ELF file, which begins after the boot sector and the
  arguments on the disk, are in memory at their addresses, followed by zeros, and the rest of memory
  that no sector read covers is as it was.
\<close>

section \<open>Copying sectors\<close>

lemma copy_sectors_block:
  "has_ata B view \<Longrightarrow> ready (view s) \<Longrightarrow> unat sect + n \<le> 2 ^ 28 \<Longrightarrow> unat cur + 512 * n < 2 ^ 32 \<Longrightarrow>
   unat ed \<le> unat cur + 512 * n \<Longrightarrow> (n = 0 \<or> unat cur + 512 * (n - 1) < unat ed) \<Longrightarrow>
   \<exists>s'. copy_sectors B cur ed sect (m, s) = Some (put_block cur (sectors (at_disk (view s)) (unat sect) n) m, s') \<and>
     ready (view s') \<and> same_disk (view s) (view s')"
proof (induction n arbitrary: cur sect m s)
  case 0
  then have "\<not> cur < ed" by (simp add: word_less_nat_alt)
  with 0 show ?case by (subst copy_sectors.simps) (simp add: same_disk_def)
next
  case (Suc n)
  let ?d = "at_disk (view s)"
  have lt: "cur < ed" using Suc.prems(6) by (simp add: word_less_nat_alt)
  have b: "unat sect < 2 ^ 28" using Suc.prems(3) by simp
  obtain s1 where 1: "read_disk B cur sect (m, s) = Some (put_block cur (sector_bytes ?d (unat sect)) m, s1)"
    "ready (view s1)" "same_disk (view s) (view s1)"
    unfolding read_disk_block using disk_block_reads [OF Suc.prems(1) b] by blast
  have step: "copy_sectors B cur ed sect (m, s) =
      copy_sectors B (cur + SECTSIZE) ed (sect + 1) (put_block cur (sector_bytes ?d (unat sect)) m, s1)"
    using lt 1(1) by (subst copy_sectors.simps) simp
  have c: "unat (cur + SECTSIZE) = unat cur + 512"
    using Suc.prems(4) by (subst unat_word_ariths(1)) (simp add: SECTSIZE_def)
  have se: "unat (sect + 1) = Suc (unat sect)" using Suc.prems(3) by (subst unat_word_ariths(1)) simp
  obtain s2 where 2: "copy_sectors B (cur + SECTSIZE) ed (sect + 1) (put_block cur (sector_bytes ?d (unat sect)) m, s1) =
      Some (put_block (cur + SECTSIZE) (sectors (at_disk (view s1)) (Suc (unat sect)) n) (put_block cur (sector_bytes ?d (unat sect)) m), s2)"
    "ready (view s2)" "same_disk (view s1) (view s2)"
    using Suc.IH [OF Suc.prems(1) 1(2), of "sect + 1" "cur + SECTSIZE"] c se Suc.prems(3-6) by (cases n) auto
  have "put_block (cur + SECTSIZE) (sectors ?d (Suc (unat sect)) n) (put_block cur (sector_bytes ?d (unat sect)) m) =
      put_block cur (sectors ?d (unat sect) (Suc n)) m"
    using put_block_append [of "sector_bytes ?d (unat sect)" "sectors ?d (Suc (unat sect)) n" cur m] Suc.prems(4)
    by (simp add: sectors_Suc SECTSIZE_def)
  then show ?case using step 1 2 by (simp add: same_disk_def)
qed

lemma unat_round_down: "unat (a AND NOT (SECTSIZE - 1)) = unat a div 512 * 512"
proof -
  have m: "SECTSIZE - 1 = mask 9" by (simp add: SECTSIZE_def mask_eq_exp_minus_1)
  have "a AND NOT (mask 9) = push_bit 9 (drop_bit 9 a)" by (rule bit_word_eqI) (auto simp: bit_simps)
  then have "unat (a AND NOT (SECTSIZE - 1)) = take_bit 32 (push_bit 9 (drop_bit 9 (unat a)))"
    unfolding m by (simp only: unsigned_push_bit_eq unat_drop_bit_eq) simp
  also have "\<dots> = unat a div 512 * 512"
  proof -
    have "unat a < 2 ^ LENGTH(32)" by (rule unsigned_less)
    then have "unat a div 512 * 512 < 2 ^ 32" using div_times_less_eq_dividend [of "unat a" 512] by simp
    then show ?thesis by (simp add: push_bit_nat_def drop_bit_nat_def take_bit_nat_eq_self)
  qed
  finally show ?thesis .
qed

text \<open>How many sectors a block of \<open>len\<close> bytes at \<open>p\<close> touches, and the addresses in them.\<close>

definition sector_count :: "nat \<Rightarrow> nat \<Rightarrow> nat" where
  "sector_count p len = (p mod 512 + len + 511) div 512"

definition sector_range :: "nat \<Rightarrow> nat \<Rightarrow> nat set" where
  "sector_range p len = {p div 512 * 512..<p div 512 * 512 + 512 * sector_count p len}"

lemma sector_count_bounds:
  "p + len \<le> p div 512 * 512 + 512 * sector_count p len"
  "sector_count p len = 0 \<or> p div 512 * 512 + 512 * (sector_count p len - 1) < p + len"
  "p div 512 * 512 + 512 * sector_count p len < p + len + 512"
proof -
  define q r c where "q = p div 512" and "r = p mod 512" and "c = (r + len + 511) div 512"
  have p: "p = q * 512 + r" by (simp add: q_def r_def)
  have c: "512 * c \<le> r + len + 511" "r + len + 511 < 512 * c + 512"
    unfolding c_def by (simp_all add: times_div_less_eq_dividend dividend_less_times_div)
  have s: "sector_count p len = c" "p div 512 = q" by (simp_all add: sector_count_def c_def r_def q_def)
  show "p + len \<le> p div 512 * 512 + 512 * sector_count p len"
    "sector_count p len = 0 \<or> p div 512 * 512 + 512 * (sector_count p len - 1) < p + len"
    "p div 512 * 512 + 512 * sector_count p len < p + len + 512"
    unfolding s using p c by (auto simp: diff_mult_distrib2)
qed

text \<open>Byte \<open>i\<close> of the file on the disk, which begins at sector 3.\<close>

definition file_byte :: "(nat \<Rightarrow> nat \<Rightarrow> u32) \<Rightarrow> nat \<Rightarrow> u8" where
  "file_byte d i = sector_bytes d (i div 512 + 3) ! (i mod 512)"

lemma file_byte_shift: "file_byte d (q * 512 + k) = sector_bytes d (q + 3 + k div 512) ! (k mod 512)"
  by (simp add: file_byte_def add_ac)

lemma sectors_nth: "i < 512 * n \<Longrightarrow> sectors d S n ! i = sector_bytes d (S + i div 512) ! (i mod 512)"
proof (induction n arbitrary: S i)
  case (Suc n)
  show ?case
  proof (cases "i < 512")
    case True
    then show ?thesis by (simp add: sectors_Suc nth_append)
  next
    case False
    then have "sectors d S (Suc n) ! i = sector_bytes d (Suc S + (i - 512) div 512) ! ((i - 512) mod 512)"
      using Suc by (simp add: sectors_Suc nth_append)
    moreover have "(i - 512) div 512 = i div 512 - 1" "(i - 512) mod 512 = i mod 512" "1 \<le> i div 512"
      using False by (simp_all add: le_div_geq le_mod_geq)
    ultimately show ?thesis by simp
  qed
qed simp

definition copied :: "(nat \<Rightarrow> nat \<Rightarrow> u32) \<Rightarrow> nat \<Rightarrow> nat \<Rightarrow> nat \<Rightarrow> bmem \<Rightarrow> bmem" where
  "copied d p len off m x = (if unat x \<in> sector_range p len then file_byte d (unat x + off - p) else m x)"

lemma copy_from_disk_file:
  assumes "has_ata B view" "ready (view s)" "unat buf mod 512 = unat off mod 512"
    and "unat buf + unat nbytes + 512 \<le> 2 ^ 32" "unat off + unat nbytes + 2048 \<le> 2 ^ 31"
  shows "\<exists>s'. copy_from_disk B buf nbytes off (m, s) =
      Some (copied (at_disk (view s)) (unat buf) (unat nbytes) (unat off) m, s') \<and>
    ready (view s') \<and> same_disk (view s) (view s')"
proof -
  let ?p = "unat buf" and ?o = "unat off" and ?len = "unat nbytes"
  let ?cur = "buf AND NOT (SECTSIZE - 1)" and ?n = "sector_count (unat buf) (unat nbytes)"
  let ?S = "?o div 512 + 3" and ?d = "at_disk (view s)"
  note sc = sector_count_bounds [of ?p ?len]
  have cur: "unat ?cur = ?p div 512 * 512" by (rule unat_round_down)
  have n: "512 * ?n \<le> ?len + 1023" using sc(3) by (simp add: sector_count_def)
  have S: "?S + ?n \<le> 2 ^ 28" using n assms(5) by simp
  have ed: "unat (buf + nbytes) = ?p + ?len"
    using assms(4) by (subst unat_word_ariths(1)) simp
  have so: "sint off = int ?o" using assms(5) by (intro sint_small) simp
  have "sgn (sint off) * (\<bar>sint off\<bar> div 512) = int (?o div 512)"
    unfolding so by (simp add: sgn_if zdiv_int)
  then have sect: "word_of_int (sgn (sint off) * (\<bar>sint off\<bar> div 512)) + ARGSIZE div SECTSIZE + 1 = (of_nat ?S :: u32)"
    by (simp add: ARGSIZE_def SECTSIZE_def)
  have uS: "unat (of_nat ?S :: u32) = ?S" using S by (intro unat_of_nat_u32) simp
  obtain s' where s': "copy_sectors B ?cur (buf + nbytes) (of_nat ?S) (m, s) =
      Some (put_block ?cur (sectors ?d ?S ?n) m, s')" "ready (view s')" "same_disk (view s) (view s')"
    using copy_sectors_block [OF assms(1,2), of "of_nat ?S" ?n ?cur "buf + nbytes"] uS S cur ed sc assms(4) by auto
  have e: "put_block ?cur (sectors ?d ?S ?n) m = copied ?d ?p ?len ?o m"
  proof
    fix x
    show "put_block ?cur (sectors ?d ?S ?n) m x = copied ?d ?p ?len ?o m x"
    proof (cases "unat x \<in> sector_range ?p ?len")
      case True
      let ?k = "unat x - ?p div 512 * 512"
      have k: "?p div 512 * 512 \<le> unat x" "unat x < ?p div 512 * 512 + 512 * ?n"
        using True by (simp_all add: sector_range_def)
      have "?p = ?p div 512 * 512 + ?p mod 512" "?o = ?o div 512 * 512 + ?p mod 512"
        using div_mult_mod_eq [of ?p 512] div_mult_mod_eq [of ?o 512] unfolding assms(3) by simp_all
      then have e: "unat x + ?o - ?p = ?o div 512 * 512 + ?k" using k(1) by linarith
      have "file_byte ?d (unat x + ?o - ?p) = sectors ?d ?S ?n ! ?k"
        unfolding e file_byte_shift using k by (subst sectors_nth) (simp_all add: add_ac)
      then show ?thesis
        using True k sc(3) assms(4) cur by (simp add: copied_def put_block_range)
    next
      case False
      then show ?thesis using sc(3) assms(4) cur by (auto simp: copied_def put_block_range sector_range_def)
    qed
  qed
  have "copy_from_disk B buf nbytes off (m, s) = Some (copied ?d ?p ?len ?o m, s')"
    unfolding copy_from_disk_def Let_def sect s'(1) e ..
  then show ?thesis using s'(2,3) by blast
qed

section \<open>Segments\<close>

record segment =
  sg_addr :: nat
  sg_off :: nat
  sg_filesz :: nat
  sg_memsz :: nat

definition segment_ok :: "segment \<Rightarrow> bool" where
  "segment_ok g \<longleftrightarrow> sg_filesz g \<le> sg_memsz g \<and> sg_addr g mod 512 = sg_off g mod 512 \<and>
     sg_addr g + sg_memsz g + 512 \<le> 2 ^ 32 \<and> sg_off g + sg_filesz g + 2048 \<le> 2 ^ 31"

definition seg_image :: "segment \<Rightarrow> nat set" where
  "seg_image g = {sg_addr g..<sg_addr g + sg_memsz g}"

definition touched :: "segment \<Rightarrow> nat set" where
  "touched g = sector_range (sg_addr g) (sg_filesz g) \<union> seg_image g"

definition image_byte :: "(nat \<Rightarrow> nat \<Rightarrow> u32) \<Rightarrow> segment \<Rightarrow> nat \<Rightarrow> u8" where
  "image_byte d g k = (if k < sg_addr g + sg_filesz g then file_byte d (k + sg_off g - sg_addr g) else 0)"

lemma zero_bytes_range:
  "unat a + n \<le> 2 ^ 32 \<Longrightarrow> zero_bytes a n m x = (if unat a \<le> unat x \<and> unat x < unat a + n then 0 else m x)"
proof (induction n arbitrary: a m)
  case (Suc n)
  show ?case
  proof (cases "n = 0")
    case True
    then show ?thesis by (auto simp: word_unat_eq_iff)
  next
    case False
    then have "unat (a + 1) = unat a + 1" using Suc.prems by (subst unat_word_ariths(1)) simp
    then show ?thesis using Suc False by (auto simp: word_unat_eq_iff)
  qed
qed auto

lemma load_program_segment:
  assumes "has_ata B view" "ready (view s)" "segment_ok g"
    and "unat filesz = sg_filesz g" "unat memsz = sg_memsz g" "unat paddr = sg_addr g" "unat offset = sg_off g"
  shows "\<exists>m' s'. load_program B filesz memsz paddr offset (m, s) = Some (m', s') \<and>
    ready (view s') \<and> same_disk (view s) (view s') \<and>
    (\<forall>x. unat x \<in> seg_image g \<longrightarrow> m' x = image_byte (at_disk (view s)) g (unat x)) \<and>
    (\<forall>x. unat x \<notin> touched g \<longrightarrow> m' x = m x)"
proof -
  note g = assms(3) [unfolded segment_ok_def]
  let ?m1 = "copied (at_disk (view s)) (sg_addr g) (sg_filesz g) (sg_off g) m"
  obtain s' where 1: "copy_from_disk B paddr filesz offset (m, s) = Some (?m1, s')"
    "ready (view s')" "same_disk (view s) (view s')"
    using copy_from_disk_file [OF assms(1,2), of paddr offset filesz m] g assms(4,6,7) by auto
  have a: "unat (paddr + filesz) = sg_addr g + sg_filesz g"
    using g assms(4,6) by (subst unat_word_ariths(1)) simp
  have c: "unat (memsz - filesz) = sg_memsz g - sg_filesz g"
    using g assms(4,5) by (subst unat_sub) (simp_all add: word_le_nat_alt)
  let ?m2 = "zero_bytes (paddr + filesz) (unat (memsz - filesz)) ?m1"
  have z: "?m2 x = (if sg_addr g + sg_filesz g \<le> unat x \<and> unat x < sg_addr g + sg_memsz g then 0 else ?m1 x)" for x
    using zero_bytes_range [of "paddr + filesz" "unat (memsz - filesz)" ?m1 x] a c g by simp
  have "unat x \<in> sector_range (sg_addr g) (sg_filesz g)" if "sg_addr g \<le> unat x" "unat x < sg_addr g + sg_filesz g" for x :: u32
    using that sector_count_bounds(1) [of "sg_addr g" "sg_filesz g"] div_times_less_eq_dividend [of "sg_addr g" 512]
    by (simp add: sector_range_def)
  then have "\<forall>x. unat x \<in> seg_image g \<longrightarrow> ?m2 x = image_byte (at_disk (view s)) g (unat x)"
    using z by (auto simp: seg_image_def image_byte_def copied_def)
  moreover have "\<forall>x. unat x \<notin> touched g \<longrightarrow> ?m2 x = m x"
    using z g by (auto simp: touched_def seg_image_def copied_def)
  moreover have "load_program B filesz memsz paddr offset (m, s) = Some (?m2, s')"
    using 1(1) by (simp add: load_program_def)
  ultimately show ?thesis using 1(2,3) by blast
qed

text \<open>The program headers of a 32-bit file in memory.\<close>

fun headers_at :: "bmem \<Rightarrow> u32 \<Rightarrow> segment list \<Rightarrow> bool" where
  "headers_at m ph [] = True"
| "headers_at m ph (g # gs) \<longleftrightarrow>
     unat (load_u32 (ph + 4) m) = sg_off g \<and> unat (load_u32 (ph + 12) m) = sg_addr g \<and>
     unat (load_u32 (ph + 16) m) = sg_filesz g \<and> unat (load_u32 (ph + 20) m) = sg_memsz g \<and>
     headers_at m (ph + 32) gs"

lemma headers_at_cong:
  "(\<And>i. i < 32 * length gs \<Longrightarrow> m' (ph + of_nat i) = m (ph + of_nat i)) \<Longrightarrow> headers_at m' ph gs = headers_at m ph gs"
proof (induction gs arbitrary: ph)
  case (Cons g gs)
  have w: "load_u32 (ph + of_nat k) m' = load_u32 (ph + of_nat k) m" if "k + 4 \<le> 32" for k
    unfolding load_u32_def
  proof (intro arg_cong [where f = le_word] get_bytes_cong)
    fix i :: nat assume "i < 4"
    then show "m' (ph + of_nat k + of_nat i) = m (ph + of_nat k + of_nat i)"
      using Cons.prems [of "k + i"] that by (simp add: add.assoc)
  qed
  have "headers_at m' (ph + 32) gs = headers_at m (ph + 32) gs"
  proof (rule Cons.IH)
    fix i assume "i < 32 * length gs"
    then show "m' (ph + 32 + of_nat i) = m (ph + 32 + of_nat i)"
      using Cons.prems [of "32 + i"] by (simp add: add.assoc)
  qed
  then show ?case using w [of 4] w [of 12] w [of 16] w [of 20] by simp
qed simp

text \<open>No segment's sectors cover the image of an earlier one, or the headers.\<close>

fun segments_apart :: "segment list \<Rightarrow> bool" where
  "segments_apart [] = True"
| "segments_apart (g # gs) \<longleftrightarrow> (\<forall>h \<in> set gs. touched h \<inter> seg_image g = {}) \<and> segments_apart gs"

lemma load_headers32_segments:
  "has_ata B view \<Longrightarrow> ready (view s) \<Longrightarrow> headers_at m ph gs \<Longrightarrow> list_all segment_ok gs \<Longrightarrow> segments_apart gs \<Longrightarrow>
   \<forall>g \<in> set gs. \<forall>i < 32 * length gs. unat (ph + of_nat i) \<notin> touched g \<Longrightarrow>
   \<exists>m' s'. load_headers32 B ph (length gs) (m, s) = Some (m', s') \<and> ready (view s') \<and> same_disk (view s) (view s') \<and>
     (\<forall>g \<in> set gs. \<forall>x. unat x \<in> seg_image g \<longrightarrow> m' x = image_byte (at_disk (view s)) g (unat x)) \<and>
     (\<forall>x. (\<forall>g \<in> set gs. unat x \<notin> touched g) \<longrightarrow> m' x = m x)"
proof (induction gs arbitrary: m ph s)
  case Nil
  then show ?case by (simp add: same_disk_def)
next
  case (Cons g gs)
  obtain m1 s1 where 1: "load_program B (load_u32 (ph + 16) m) (load_u32 (ph + 20) m) (load_u32 (ph + 12) m) (load_u32 (ph + 4) m) (m, s) = Some (m1, s1)"
    "ready (view s1)" "same_disk (view s) (view s1)"
    "\<forall>x. unat x \<in> seg_image g \<longrightarrow> m1 x = image_byte (at_disk (view s)) g (unat x)"
    "\<forall>x. unat x \<notin> touched g \<longrightarrow> m1 x = m x"
    using load_program_segment [OF Cons.prems(1,2), of g "load_u32 (ph + 16) m" "load_u32 (ph + 20) m"
      "load_u32 (ph + 12) m" "load_u32 (ph + 4) m" m] Cons.prems(3,4) by auto
  have h: "headers_at m1 (ph + 32) gs"
  proof -
    have "headers_at m1 (ph + 32) gs = headers_at m (ph + 32) gs"
    proof (rule headers_at_cong)
      fix i assume "i < 32 * length gs"
      then have "unat (ph + of_nat (32 + i)) \<notin> touched g" using Cons.prems(6) [rule_format, of g "32 + i"] by simp
      then show "m1 (ph + 32 + of_nat i) = m (ph + 32 + of_nat i)" using 1(5) by (simp add: add.assoc)
    qed
    then show ?thesis using Cons.prems(3) by simp
  qed
  have o: "\<forall>g \<in> set gs. \<forall>i < 32 * length gs. unat (ph + 32 + of_nat i) \<notin> touched g"
  proof (intro ballI allI impI)
    fix h i assume "h \<in> set gs" "i < 32 * length gs"
    then have "unat (ph + of_nat (32 + i)) \<notin> touched h" using Cons.prems(6) [rule_format, of h "32 + i"] by simp
    then show "unat (ph + 32 + of_nat i) \<notin> touched h" by (simp add: add.assoc)
  qed
  obtain m2 s2 where 2: "load_headers32 B (ph + 32) (length gs) (m1, s1) = Some (m2, s2)" "ready (view s2)"
    "same_disk (view s1) (view s2)"
    "\<forall>g \<in> set gs. \<forall>x. unat x \<in> seg_image g \<longrightarrow> m2 x = image_byte (at_disk (view s1)) g (unat x)"
    "\<forall>x. (\<forall>g \<in> set gs. unat x \<notin> touched g) \<longrightarrow> m2 x = m1 x"
    using Cons.IH [OF Cons.prems(1) 1(2) h _ _ o] Cons.prems(4,5) by auto
  have d: "at_disk (view s1) = at_disk (view s)" using 1(3) by (simp add: same_disk_def)
  have "m2 x = image_byte (at_disk (view s)) g (unat x)" if "unat x \<in> seg_image g" for x
  proof -
    have "\<forall>h \<in> set gs. unat x \<notin> touched h" using Cons.prems(5) that by auto
    then show ?thesis using 2(5) 1(4) that by simp
  qed
  then have "\<forall>h \<in> set (g # gs). \<forall>x. unat x \<in> seg_image h \<longrightarrow> m2 x = image_byte (at_disk (view s)) h (unat x)"
    using 2(4) d by simp
  moreover have "\<forall>x. (\<forall>h \<in> set (g # gs). unat x \<notin> touched h) \<longrightarrow> m2 x = m x" using 2(5) 1(5) by simp
  moreover have "load_headers32 B ph (length (g # gs)) (m, s) = Some (m2, s2)" using 1(1) 2(1) by simp
  moreover have "same_disk (view s) (view s2)" using 1(3) 2(3) by (simp add: same_disk_def)
  ultimately show ?case using 2(2) by blast
qed

section \<open>The kernel\<close>

definition file_word :: "(nat \<Rightarrow> nat \<Rightarrow> u32) \<Rightarrow> nat \<Rightarrow> u32" where
  "file_word d k = le_word (map (file_byte d) [k..<k + 4])"

definition file_half :: "(nat \<Rightarrow> nat \<Rightarrow> u32) \<Rightarrow> nat \<Rightarrow> u32" where
  "file_half d k = le_word (map (file_byte d) [k..<k + 2])"

fun file_headers :: "(nat \<Rightarrow> nat \<Rightarrow> u32) \<Rightarrow> nat \<Rightarrow> segment list \<Rightarrow> bool" where
  "file_headers d ph [] = True"
| "file_headers d ph (g # gs) \<longleftrightarrow>
     unat (file_word d (ph + 4)) = sg_off g \<and> unat (file_word d (ph + 12)) = sg_addr g \<and>
     unat (file_word d (ph + 16)) = sg_filesz g \<and> unat (file_word d (ph + 20)) = sg_memsz g \<and>
     file_headers d (ph + 32) gs"

text \<open>A 32-bit ELF file with these segments, whose headers are in its first 4096 bytes.\<close>

definition elf32_file :: "(nat \<Rightarrow> nat \<Rightarrow> u32) \<Rightarrow> segment list \<Rightarrow> bool" where
  "elf32_file d gs \<longleftrightarrow> file_half d 18 \<noteq> EM_X86_64 \<and> unat (file_half d 44) = length gs \<and>
     unat (file_word d 28) + 32 * length gs \<le> 4096 \<and> file_headers d (unat (file_word d 28)) gs"

lemma args_copied:
  assumes "has_ata B view" "ready (view s)"
  shows "\<exists>s'. copy_from_disk B MAINARG_ADDR 1024 (- 1024) (m, s) =
      Some (put_block MAINARG_ADDR (sectors (at_disk (view s)) 1 2) m, s') \<and> ready (view s') \<and> same_disk (view s) (view s')"
proof -
  have so: "sint (- 1024 :: u32) = - 1024" by simp
  have sect: "word_of_int (sgn (sint (- 1024 :: u32)) * (\<bar>sint (- 1024 :: u32)\<bar> div 512)) + ARGSIZE div SECTSIZE + 1 = (1 :: u32)"
    unfolding so by (simp add: ARGSIZE_def SECTSIZE_def)
  have cur: "MAINARG_ADDR AND NOT (SECTSIZE - 1) = MAINARG_ADDR"
    by (rule word_unat_eq_iff [THEN iffD2]) (simp only: unat_round_down, simp add: MAINARG_ADDR_def)
  have "\<exists>s'. copy_sectors B MAINARG_ADDR (MAINARG_ADDR + 1024) 1 (m, s) =
      Some (put_block MAINARG_ADDR (sectors (at_disk (view s)) (unat (1 :: u32)) 2) m, s') \<and> ready (view s') \<and> same_disk (view s) (view s')"
    by (rule copy_sectors_block [OF assms]) (simp_all add: MAINARG_ADDR_def)
  then show ?thesis unfolding copy_from_disk_def Let_def sect cur by simp
qed

lemma header_range: "sector_range 0x8000 4096 = {0x8000..<0x9000}"
  by (simp add: sector_range_def sector_count_def)

lemma header_bytes:
  assumes "k + n \<le> 4096"
  shows "get_bytes (0x8000 + of_nat k) n (copied d 0x8000 4096 0 m) = map (file_byte d) [k..<k + n]"
  using assms
proof (induction n arbitrary: k)
  case (Suc n)
  have u: "unat (0x8000 + of_nat k :: u32) = 0x8000 + k"
    using Suc.prems unat_of_nat_u32 [of k] by (subst unat_word_ariths(1)) simp
  have "copied d 0x8000 4096 0 m (0x8000 + of_nat k) = file_byte d k"
    using Suc.prems by (simp add: copied_def header_range u)
  moreover have "get_bytes (0x8000 + of_nat k + 1) n (copied d 0x8000 4096 0 m) = map (file_byte d) [Suc k..<Suc k + n]"
    using Suc.IH [of "Suc k"] Suc.prems by (simp add: add_ac)
  ultimately show ?case by (simp add: upt_conv_Cons del: upt_Suc)
qed simp

lemma header_words:
  "k + 4 \<le> 4096 \<Longrightarrow> load_u32 (0x8000 + of_nat k) (copied d 0x8000 4096 0 m) = file_word d k"
  "k + 2 \<le> 4096 \<Longrightarrow> load_u16 (0x8000 + of_nat k) (copied d 0x8000 4096 0 m) = file_half d k"
  by (simp_all only: load_u32_def load_u16_def file_word_def file_half_def header_bytes)

lemma headers_in_memory:
  "file_headers d k gs \<Longrightarrow> k + 32 * length gs \<le> 4096 \<Longrightarrow> headers_at (copied d 0x8000 4096 0 m) (0x8000 + of_nat k) gs"
proof (induction gs arbitrary: k)
  case (Cons g gs)
  have w: "load_u32 (0x8000 + of_nat k + of_nat j) (copied d 0x8000 4096 0 m) = file_word d (k + j)" if "j + 4 \<le> 32" for j
    using header_words(1) [of "k + j" d m] that Cons.prems(2) by (simp add: add.assoc)
  have "headers_at (copied d 0x8000 4096 0 m) (0x8000 + of_nat (k + 32)) gs"
    using Cons.IH [of "k + 32"] Cons.prems by simp
  then show ?case
    using Cons.prems(1) w [of 4] w [of 12] w [of 16] w [of 20] by (simp add: add_ac)
qed simp

lemma load_kernel_elf32:
  assumes "has_ata B view" "ready (view s)" "load_u32 (BOOTREC_ADDR + 4) m = 0"
    and "elf32_file (at_disk (view s)) gs" "list_all segment_ok gs" "segments_apart gs"
    and "\<forall>g \<in> set gs. touched g \<inter> {0x8000..<0x9000} = {}"
  shows "\<exists>m' s'. load_kernel B (m, s) = Some (file_word (at_disk (view s)) 24, m', s') \<and>
    (\<forall>g \<in> set gs. \<forall>x. unat x \<in> seg_image g \<longrightarrow> m' x = image_byte (at_disk (view s)) g (unat x))"
proof -
  let ?d = "at_disk (view s)"
  let ?ph = "unat (file_word ?d 28)"
  note f = assms(4) [unfolded elf32_file_def]
  obtain s1 where 1: "copy_from_disk B MAINARG_ADDR 1024 (- 1024) (m, s) = Some (put_block MAINARG_ADDR (sectors ?d 1 2) m, s1)"
    "ready (view s1)" "same_disk (view s) (view s1)"
    using args_copied [OF assms(1,2)] by blast
  let ?m1 = "put_block MAINARG_ADDR (sectors ?d 1 2) m"
  have d1: "at_disk (view s1) = ?d" using 1(3) by (simp add: same_disk_def)
  define m2 where "m2 = copied ?d 0x8000 4096 0 ?m1"
  obtain s2 where 2: "copy_from_disk B 0x8000 4096 0 (?m1, s1) = Some (m2, s2)" "ready (view s2)" "same_disk (view s1) (view s2)"
    using copy_from_disk_file [OF assms(1) 1(2), of "0x8000" 0 4096 ?m1] d1 by (auto simp: m2_def)
  have d2: "at_disk (view s2) = ?d" using 2(3) d1 by (simp add: same_disk_def)
  have w: "load_u16 (0x8000 + 18) m2 = file_half ?d 18" "load_u16 (0x8000 + 44) m2 = file_half ?d 44"
    "load_u32 (0x8000 + 28) m2 = file_word ?d 28" "load_u32 (0x8000 + 24) m2 = file_word ?d 24"
    using header_words(2) [of 18 ?d ?m1] header_words(2) [of 44 ?d ?m1] header_words(1) [of 28 ?d ?m1]
      header_words(1) [of 24 ?d ?m1] by (simp_all add: m2_def)
  have h: "headers_at m2 (0x8000 + file_word ?d 28) gs"
    using headers_in_memory [of ?d ?ph gs ?m1] f by (simp add: m2_def)
  have o: "\<forall>g \<in> set gs. \<forall>i < 32 * length gs. unat (0x8000 + file_word ?d 28 + of_nat i) \<notin> touched g"
  proof (intro ballI allI impI)
    fix g i assume gi: "g \<in> set gs" "i < 32 * length gs"
    then have "?ph + i < 4096" using f by simp
    moreover have "unat (0x8000 + of_nat (?ph + i) :: u32) = 0x8000 + (?ph + i)"
      using \<open>?ph + i < 4096\<close> unat_of_nat_u32 [of "?ph + i"] by (subst unat_word_ariths(1)) simp
    ultimately have "unat (0x8000 + file_word ?d 28 + of_nat i) \<in> {0x8000..<0x9000}"
      by (simp add: add.assoc)
    then show "unat (0x8000 + file_word ?d 28 + of_nat i) \<notin> touched g" using assms(7) gi(1) by blast
  qed
  obtain m3 s3 where 3: "load_headers32 B (0x8000 + file_word ?d 28) (length gs) (m2, s2) = Some (m3, s3)"
    "\<forall>g \<in> set gs. \<forall>x. unat x \<in> seg_image g \<longrightarrow> m3 x = image_byte ?d g (unat x)"
    "\<forall>x. (\<forall>g \<in> set gs. unat x \<notin> touched g) \<longrightarrow> m3 x = m2 x"
    using load_headers32_segments [OF assms(1) 2(2) h assms(5,6) o] d2 by auto
  have "load_u32 (0x8000 + 24) m3 = load_u32 (0x8000 + 24) m2"
    unfolding load_u32_def
  proof (intro arg_cong [where f = le_word] get_bytes_cong)
    fix i :: nat assume i: "i < 4"
    have "unat (0x8000 + 24 + of_nat i :: u32) = 0x8000 + 24 + i"
      using i unat_of_nat_u32 [of i] by (subst unat_word_ariths(1)) simp
    then have "unat (0x8000 + 24 + of_nat i :: u32) \<in> {0x8000..<0x9000}" using i by simp
    then show "m3 (0x8000 + 24 + of_nat i) = m2 (0x8000 + 24 + of_nat i)" using 3(3) assms(7) by blast
  qed
  then have "load_kernel B (m, s) = Some (file_word ?d 24, m3, s3)"
    using assms(3) 1(1) 2(1) 3(1) w f by (simp add: load_kernel_def)
  then show ?thesis using 3(2) by blast
qed

end
