(* ===== verification/X86_Machine_Properties.thy ===== *)
theory X86_Machine_Properties
  imports X86_CTE_Correct X86_Boot_Correct
begin

text \<open>
  What the x86 machine promises: interrupted threads resume, new ones start, blocks written to the
  disk are read back, and the boot loader puts the kernel into memory.
\<close>

section \<open>Threads\<close>

text \<open>
  C28: An interrupted x86 thread resumes with all its registers. If the handler answers an interrupt
  with the context of a thread \<open>t\<close>, the processor goes on with the registers of \<open>t\<close>, in user or kernel
  mode, and in its address space; and if the handler of any later interrupt returns the context of the
  first thread, in the words of which nothing has changed, all registers of that thread, its stack pointer,
  flags and segments included, are what they were.
\<close>

theorem x86_threads_resume:
  assumes "x86_runs s" "frame_of s \<noteq> 0" "x86_stored (xwords s) c t" "x86_resumable c t"
    and "ctx_words c \<inter> x86_frame s = {}" "ctx_words (frame_of s) \<inter> resume_words t = {}"
  shows "\<exists>s1. x86_interrupt (switch_to c) n entry err s = Inr s1 \<and> xr s1 = xr t \<and>
    (xcr3 t \<noteq> 0 \<longrightarrow> xcr3 s1 = xcr3 t \<and> tss_esp0 s1 = tss_esp0 t) \<and>
    (\<forall>s2 n2 entry2 err2. x86_runs s2 \<longrightarrow> ctx_words (frame_of s) \<inter> x86_frame s2 = {} \<longrightarrow>
      (\<forall>a \<in> ctx_words (frame_of s). xwords s2 a = xwords s1 a) \<longrightarrow>
      (\<exists>s3. x86_interrupt (switch_to (frame_of s)) n2 entry2 err2 s2 = Inr s3 \<and> xr s3 = xr s \<and>
        (xcr3 s \<noteq> 0 \<longrightarrow> xcr3 s3 = xcr3 s \<and> tss_esp0 s3 = tss_esp0 s)))"
proof -
  obtain s1 where s1: "x86_interrupt (switch_to c) n entry err s = Inr s1" "xr s1 = xr t"
      "xcr3 t \<noteq> 0 \<longrightarrow> xcr3 s1 = xcr3 t \<and> tss_esp0 s1 = tss_esp0 t" "x86_stored (xwords s1) (frame_of s) s"
    using x86_switch_ok [OF assms(1,3-5), of n entry err] assms(6) by auto
  have "esp (xr s) = field (frame_of s) 20" if "cs (xr s) AND 3 = 0"
    using that by (simp add: frame_of_def field_def)
  then have rs: "x86_resumable (frame_of s) s"
    using assms(1,2) by (auto simp: x86_resumable_def x86_runs_def)
  have "\<exists>s3. x86_interrupt (switch_to (frame_of s)) n2 entry2 err2 s2 = Inr s3 \<and> xr s3 = xr s \<and>
        (xcr3 s \<noteq> 0 \<longrightarrow> xcr3 s3 = xcr3 s \<and> tss_esp0 s3 = tss_esp0 s)"
    if "x86_runs s2" "ctx_words (frame_of s) \<inter> x86_frame s2 = {}"
      "\<forall>a \<in> ctx_words (frame_of s). xwords s2 a = xwords s1 a" for s2 n2 entry2 err2
    using x86_switch_ok [OF that(1) x86_stored_agree [OF s1(4) that(3)] rs that(2), of n2 entry2 err2] by blast
  with s1(1-3) show ?thesis by blast
qed

definition sample_x86 :: x86_machine where
  "sample_x86 = \<lparr>xr = \<lparr>eax = 1, ebx = 2, ecx = 3, edx = 4, esi = 5, edi = 6, ebp = 7, esp = 0x4000, eip = 0x100000,
     cs = KSEL SEG_KCODE, eflags = FL_IF, ss = KSEL SEG_KDATA, ds = ucast (KSEL SEG_KDATA)\<rparr>,
     xwords = (\<lambda>_. 0), xcr2 = 0, xcr3 = 0, tss_esp0 = 0, tss_ss0 = 0, lapic_on = True, lapic_eois = 0\<rparr>"

lemma sample_x86_runs: "x86_runs (sample_x86\<lparr>xwords := m\<rparr>)" "frame_of (sample_x86\<lparr>xwords := m\<rparr>) = 0x3fb0"
  using sels(1) by (simp_all add: x86_runs_def sample_x86_def frame_of_def aligned_def)

lemma frames_apart_22:
  assumes "unat c + 88 \<le> unat d" "unat d + 88 \<le> 2 ^ 32" "i \<le> 22" "j \<le> 22"
  shows "field c ` {0..<i} \<inter> field d ` {0..<j} = {}"
proof -
  have "field c ` {0..<i} \<subseteq> frame 19 c" "field d ` {0..<j} \<subseteq> frame 19 d" using assms(3,4) by (auto simp: frame_def)
  moreover have "frame 19 c \<inter> frame 19 d = {}" using frames_apart [of c 19 d] assms(1,2) by simp
  ultimately show ?thesis by blast
qed

lemma sample_x86_apart: "ctx_words 0x1fc4 \<inter> x86_frame (sample_x86\<lparr>xwords := m\<rparr>) = {}"
  using frames_apart_22 [of "0x1fc4" "0x3fb0" 15 20] frames_apart_22 [of "0x1fc4" "0x3fb0" 15 22]
  by (simp add: ctx_words_def x86_frame_def sample_x86_runs)

lemma x86_threads_resume_witness:
  "\<exists>m s1 s3. x86_interrupt (switch_to 0x1fc4) 0x81 0x9000 None (sample_x86\<lparr>xwords := m\<rparr>) = Inr s1 \<and>
     eip (xr s1) = 0xa000 \<and> eax (xr s1) = 99 \<and>
     x86_interrupt (switch_to 0x3fb0) 32 0x9100 None (s1\<lparr>xr := (xr s1)\<lparr>esp := 0x2f00\<rparr>\<rparr>) = Inr s3 \<and>
     xr s3 = xr sample_x86"
proof -
  define t where "t = new_kthread 0xa000 0x2000 0xb000 99 sample_x86"
  have a: "aligned (0x2000 :: u32)" by (simp add: aligned_def)
  obtain m where m: "x86_stored m 0x1fc4 t"
    using x86_kcontext_ok [OF a, of "0xa000" "0xb000" 99 "\<lambda>_. 0" sample_x86] by (auto simp: t_def)
  have r: "x86_resumable 0x1fc4 t" using new_kthread_resumable [OF a] by (simp add: t_def)
  have i: "ctx_words 0x3fb0 \<inter> resume_words t = {}"
    using frames_apart_22 [of "0x1fe8" "0x3fb0" 6 15] sels(1)
    by (auto simp: ctx_words_def resume_words_def t_def new_kthread_def)
  have st: "x86_stored (xwords (sample_x86\<lparr>xwords := m\<rparr>)) 0x1fc4 t" using m by simp
  have nz: "frame_of (sample_x86\<lparr>xwords := m\<rparr>) \<noteq> 0" unfolding sample_x86_runs by simp
  have i: "ctx_words (frame_of (sample_x86\<lparr>xwords := m\<rparr>)) \<inter> resume_words t = {}" using i unfolding sample_x86_runs .
  obtain s1 where s1: "x86_interrupt (switch_to 0x1fc4) 0x81 0x9000 None (sample_x86\<lparr>xwords := m\<rparr>) = Inr s1"
      "xr s1 = xr t"
      "\<And>s2 n2 entry2 err2. x86_runs s2 \<Longrightarrow> ctx_words 0x3fb0 \<inter> x86_frame s2 = {} \<Longrightarrow>
        (\<forall>a \<in> ctx_words 0x3fb0. xwords s2 a = xwords s1 a) \<Longrightarrow>
        \<exists>s3. x86_interrupt (switch_to 0x3fb0) n2 entry2 err2 s2 = Inr s3 \<and> xr s3 = xr (sample_x86\<lparr>xwords := m\<rparr>)"
    using x86_threads_resume [OF sample_x86_runs(1) nz st r sample_x86_apart i, of "0x81" "0x9000" None]
    unfolding sample_x86_runs by blast
  define s2 where "s2 = s1\<lparr>xr := (xr s1)\<lparr>esp := 0x2f00\<rparr>\<rparr>"
  have k: "cs (xr s2) = KSEL SEG_KCODE" "ss (xr s2) = KSEL SEG_KDATA" "esp (xr s2) = 0x2f00" "xwords s2 = xwords s1"
    using s1(2) by (simp_all add: s2_def t_def new_kthread_def)
  have f: "frame_of s2 = 0x2eb0" using k sels(1) by (simp add: frame_of_def)
  have "x86_runs s2" unfolding x86_runs_def f using k by (simp add: aligned_def)
  moreover have "ctx_words 0x3fb0 \<inter> x86_frame s2 = {}"
    using frames_apart_22 [of "0x2eb0" "0x3fb0" 20 15] k sels(1) by (auto simp: ctx_words_def x86_frame_def f)
  ultimately obtain s3 where "x86_interrupt (switch_to 0x3fb0) 32 0x9100 None s2 = Inr s3" "xr s3 = xr sample_x86"
    using s1(3) [of s2 32 "0x9100" None] k(4) by auto
  with s1(1,2) show ?thesis
    by (intro exI [of _ m] exI [of _ s1] exI [of _ s3]) (simp add: s2_def t_def new_kthread_def)
qed

text \<open>
  A new x86 kernel thread starts. When the handler returns the context that \<^verbatim>\<open>kcontext\<close> made on a stack,
  the processor goes on at \<^verbatim>\<open>__am_kcontext_start\<close>, which calls the entry with the argument: on the stack is
  the address that panics when the entry returns, then the argument, and interrupts are enabled.
\<close>

lemma x86_kernel_thread_starts:
  assumes "aligned kend" "kend \<noteq> 60" "x86_kcontext start kend entry arg m = Inr (c, m1)"
    and "x86_runs s" "\<forall>a \<in> ctx_words c. xwords s a = m1 a" "ctx_words c \<inter> x86_frame s = {}"
  shows "\<exists>s1 s2. x86_interrupt (switch_to c) n irq err s = Inr s1 \<and> eip (xr s1) = start \<and>
    kcontext_start panic_on_return s1 = Inr s2 \<and> eip (xr s2) = entry \<and> esp (xr s2) = kend - 8 \<and>
    xwords s2 (kend - 8) = panic_on_return \<and> xwords s2 (kend - 4) = arg \<and> x86_ienabled s2 \<and>
    cs (xr s2) = KSEL SEG_KCODE"
proof -
  define t where "t = new_kthread start kend entry arg s"
  have c: "c = kend - 60" and st: "x86_stored m1 c t"
    using x86_kcontext_ok [OF assms(1), of start entry arg m s] assms(3) by (auto simp: t_def)
  have st: "x86_stored (xwords s) c t" by (rule x86_stored_agree [OF st assms(5)])
  have r: "x86_resumable c t" using new_kthread_resumable [OF assms(1,2)] by (simp add: c t_def)
  obtain s1 where s1: "x86_interrupt (switch_to c) n irq err s = Inr s1" "xr s1 = xr t"
    using x86_switch_ok [OF assms(4) st r assms(6)] by blast
  have "aligned (esp (xr s1))" using s1(2) assms(1) by (simp add: t_def new_kthread_def)
  from kcontext_start_ok [OF this, of panic_on_return] obtain s2 where
    "kcontext_start panic_on_return s1 = Inr s2" "eip (xr s2) = ebx (xr s1)" "esp (xr s2) = esp (xr s1) - 8"
    "xwords s2 (esp (xr s2)) = panic_on_return" "xwords s2 (esp (xr s2) + 4) = eax (xr s1)"
    "eflags (xr s2) = eflags (xr s1)" "cs (xr s2) = cs (xr s1)" by blast
  then show ?thesis using s1
    by (intro exI [of _ s1] exI [of _ s2]) (simp add: t_def new_kthread_def x86_ienabled_def FL_IF_def)
qed

section \<open>The disk and the kernel on it\<close>

definition sample_ata :: "(nat \<Rightarrow> nat \<Rightarrow> u32) \<Rightarrow> ata" where
  "sample_ata d = \<lparr>at_disk = d, at_l0 = 0, at_l1 = 0, at_l2 = 0, at_dev = 0, at_mode = Idle, at_busy = 0, at_latency = 3\<rparr>"

text \<open>
  C30: What is written to the disk is read back. On ports that behave like an ATA disk the driver writes blocks
  of memory, whatever time the disk needs, leaving memory as it is, and a later read of these blocks stores the same bytes at
  any address; both calls return.
\<close>

theorem x86_blocks_roundtrip:
  assumes "has_ata B view" "ready (view s)" "unat blkno + unat cnt \<le> 2 ^ 28" "512 * unat cnt \<le> 2 ^ 32"
  shows "\<exists>s1 s2. x86_disk_blkio B True buf blkno cnt (m, s) = Some (m, s1) \<and>
    x86_disk_blkio B False buf' blkno cnt (m', s1) = Some (put_block buf' (get_bytes buf (512 * unat cnt) m) m', s2)"
  using disk_blkio_roundtrip [OF assms] by blast

lemma x86_blocks_roundtrip_witness:
  "\<exists>s1 s2. x86_disk_blkio ata_bus True 0x1000 5 2 (\<lambda>a. ucast a, sample_ata (\<lambda>_ _. 0)) = Some (\<lambda>a. ucast a, s1) \<and>
     x86_disk_blkio ata_bus False 0x8000 5 2 (\<lambda>_. 0, s1) =
       Some (put_block 0x8000 (get_bytes 0x1000 1024 (\<lambda>a. ucast a)) (\<lambda>_. 0), s2)"
  using x86_blocks_roundtrip [OF has_ata_bus, of "sample_ata (\<lambda>_ _. 0)" 5 2 "0x1000" "\<lambda>a. ucast a" "0x8000" "\<lambda>_. 0"]
  by (simp add: ready_def sample_ata_def)

text \<open>
  C29: The boot loader loads the kernel. If the disk holds, after the boot sector and the arguments, a 32-bit ELF file with
  the segments \<open>gs\<close>, then on the first processor \<^verbatim>\<open>load_kernel\<close> ends, calls the entry of the file, and every byte of every
  segment is in memory at its address: from the file up to its size there, and zero beyond it. The segments
  must not disturb each other or the headers by the whole sectors that are read.
\<close>

theorem kernel_is_loaded:
  assumes "has_ata B view" "ready (view s)" "load_u32 (BOOTREC_ADDR + 4) m = 0"
    and "elf32_file (at_disk (view s)) gs" "list_all segment_ok gs" "segments_apart gs"
    and "\<forall>g \<in> set gs. touched g \<inter> {0x8000..<0x9000} = {}"
  shows "\<exists>m' s'. load_kernel B (m, s) = Some (file_word (at_disk (view s)) 24, m', s') \<and>
    (\<forall>g \<in> set gs. \<forall>x. unat x \<in> seg_image g \<longrightarrow> m' x = image_byte (at_disk (view s)) g (unat x))"
  by (rule load_kernel_elf32 [OF assms])

lemma concat_le_bytes_nth:
  "i < length ks \<Longrightarrow> j < 4 \<Longrightarrow> concat (map (\<lambda>k. le_bytes 4 (f k)) ks) ! (4 * i + j) = le_bytes 4 (f (ks ! i)) ! j"
proof (induction ks arbitrary: i)
  case (Cons k ks)
  then show ?case by (cases i) (auto simp: nth_append)
qed simp

lemma file_byte_word:
  assumes "j < 4"
  shows "file_byte d (4 * w + j) = le_bytes 4 (d (w div 128 + 3) (w mod 128)) ! j"
proof -
  define q r where "q = w div 128" and "r = w mod 128"
  have w: "w = 128 * q + r" "r < 128" by (simp_all add: q_def r_def)
  have e: "4 * w + j = 512 * q + (4 * r + j)" "4 * r + j < 512" using w assms by simp_all
  have "(4 * w + j) div 512 = q" "(4 * w + j) mod 512 = 4 * r + j"
    unfolding e(1) using e(2) by simp_all
  then show ?thesis
    using w(2) assms by (simp add: file_byte_def sector_bytes_def concat_le_bytes_nth q_def [symmetric] r_def [symmetric])
qed

lemma le_bytes_4: "le_bytes 4 w = [ucast w, ucast (drop_bit 8 w), ucast (drop_bit 16 w), ucast (drop_bit 24 w)]"
proof -
  have four: "(4 :: nat) = Suc (Suc (Suc (Suc 0)))" by simp
  show ?thesis by (simp only: four le_bytes.simps drop_bit_drop_bit) simp
qed

lemma file_word_word: "file_word d (4 * w) = d (w div 128 + 3) (w mod 128)"
proof -
  have l: "[4 * w..<4 * w + 4] = map (\<lambda>j. 4 * w + j) [0..<4]" by (simp add: map_add_upt add.commute [of "4 * w"])
  have "map (file_byte d) [4 * w..<4 * w + 4] = map (\<lambda>j. le_bytes 4 (d (w div 128 + 3) (w mod 128)) ! j) [0..<4]"
    unfolding l map_map o_def by (rule map_cong) (simp_all add: file_byte_word)
  also have "\<dots> = le_bytes 4 (d (w div 128 + 3) (w mod 128))" by (metis length_le_bytes map_nth)
  finally show ?thesis unfolding file_word_def by (simp add: le_word_le_bytes)
qed

text \<open>A disk with a kernel of one segment, of four bytes in the file and four zeros.\<close>

definition boot_disk :: "nat \<Rightarrow> nat \<Rightarrow> u32" where
  "boot_disk S k =
     (if S = 3 then
        (case map_of [(4, 0x00030002), (6, 0x100004), (7, 52), (11, 1), (13, 1), (14, 4096), (16, 0x100000), (17, 4), (18, 8)] k
         of None \<Rightarrow> 0 | Some v \<Rightarrow> v)
      else if S = 11 \<and> k = 0 then 0x12345678 else 0)"

lemma boot_disk_elf:
  "elf32_file boot_disk [\<lparr>sg_addr = 0x100000, sg_off = 4096, sg_filesz = 4, sg_memsz = 8\<rparr>]"
proof -
  have w: "file_word boot_disk (4 * k) = boot_disk (k div 128 + 3) (k mod 128)" for k by (rule file_word_word)
  have f: "file_word boot_disk 28 = 52" "file_word boot_disk 56 = 4096" "file_word boot_disk 64 = 0x100000"
    "file_word boot_disk 68 = 4" "file_word boot_disk 72 = 8"
    using w [of 7] w [of 14] w [of 16] w [of 17] w [of 18] by (simp_all add: boot_disk_def)
  have b: "file_byte boot_disk 18 = 3" "file_byte boot_disk 19 = 0" "file_byte boot_disk 44 = 1" "file_byte boot_disk 45 = 0"
    using file_byte_word [of 2 boot_disk 4] file_byte_word [of 3 boot_disk 4] file_byte_word [of 0 boot_disk 11]
      file_byte_word [of 1 boot_disk 11] by (simp_all add: boot_disk_def le_bytes_4)
  have h: "file_half boot_disk 18 = 3" "file_half boot_disk 44 = 1"
    by (simp_all add: file_half_def upt_rec b)
  show ?thesis by (simp add: elf32_file_def h f EM_X86_64_def)
qed

lemma kernel_is_loaded_witness:
  "\<exists>m' s'. load_kernel ata_bus (\<lambda>_. 0, sample_ata boot_disk) = Some (0x100004, m', s') \<and>
     m' 0x100000 = 0x78 \<and> m' 0x100004 = 0"
proof -
  let ?g = "\<lparr>sg_addr = 0x100000, sg_off = 4096, sg_filesz = 4, sg_memsz = 8\<rparr>"
  have d: "at_disk (sample_ata boot_disk) = boot_disk" by (simp add: sample_ata_def)
  have e: "elf32_file (at_disk (sample_ata boot_disk)) [?g]" unfolding d by (rule boot_disk_elf)
  have r: "ready (sample_ata boot_disk)" by (simp add: ready_def sample_ata_def)
  have z: "load_u32 (BOOTREC_ADDR + 4) (\<lambda>_. 0) = 0" by (simp add: load_u32_def numeral_eq_Suc)
  have ok: "list_all segment_ok [?g]" "segments_apart [?g]" by (simp_all add: segment_ok_def)
  have t: "\<forall>g \<in> set [?g]. touched g \<inter> {0x8000..<0x9000} = {}"
    by (auto simp: touched_def sector_range_def sector_count_def seg_image_def)
  obtain m' s' where k: "load_kernel ata_bus (\<lambda>_. 0, sample_ata boot_disk) = Some (file_word boot_disk 24, m', s')"
      "\<And>x. unat x \<in> seg_image ?g \<Longrightarrow> m' x = image_byte boot_disk ?g (unat x)"
    using kernel_is_loaded [OF has_ata_bus r z e ok t] unfolding d by auto
  have "file_word boot_disk 24 = 0x100004" using file_word_word [of boot_disk 6] by (simp add: boot_disk_def)
  moreover have "file_byte boot_disk 4096 = 0x78"
    using file_byte_word [of 0 boot_disk 1024] by (simp add: boot_disk_def le_bytes_4)
  ultimately show ?thesis
    using k(1) k(2) [of "0x100000"] k(2) [of "0x100004"] by (simp add: seg_image_def image_byte_def)
qed

end
