(* ===== verification/X86_IOE.thy ===== *)
theory X86_IOE
  imports X86_Disk AM_IOE
begin

text \<open>
  The port devices of the x86 machine (\<^verbatim>\<open>am/src/x86/qemu/ioe.c\<close>): serial port, clock, keyboard, and the
  interrupt controllers, with the table of the device registers. Ports are those of \<open>X86_Disk\<close>; the time stamp
  counter (\<open>tsc\<close>) and the memory-mapped controllers are arguments too. The expressions of a structure's
  initialiser are evaluated in the order in which they are written.
\<close>

section \<open>Serial port\<close>

definition COM1 :: u16 where
  "COM1 = 0x3f8"

definition x86_uart_init :: "'s port_bus \<Rightarrow> 's \<Rightarrow> 's" where
  "x86_uart_init B s =
     (let s = pb_outb B (COM1 + 2) 0 s;
          s = pb_outb B (COM1 + 3) 0x80 s;
          s = pb_outb B (COM1 + 0) (115200 div 9600) s;
          s = pb_outb B (COM1 + 1) 0 s;
          s = pb_outb B (COM1 + 3) 0x03 s;
          s = pb_outb B (COM1 + 4) 0 s;
          s = pb_outb B (COM1 + 1) 0x01 s;
          (_, s) = pb_inb B (COM1 + 2) s;
          (_, s) = pb_inb B (COM1 + 0) s in s)"

definition x86_uart_tx :: "'s port_bus \<Rightarrow> u8 \<Rightarrow> 's \<Rightarrow> 's" where
  "x86_uart_tx B data s = pb_outb B COM1 data s"

definition x86_uart_rx :: "'s port_bus \<Rightarrow> 's \<Rightarrow> u8 \<times> 's" where
  "x86_uart_rx B s =
     (let (st, s) = pb_inb B (COM1 + 5) s in
      if st AND 1 \<noteq> 0 then pb_inb B COM1 s else (- 1, s))"

section \<open>Clock\<close>

definition read_rtc :: "'s port_bus \<Rightarrow> u8 \<Rightarrow> 's \<Rightarrow> int \<times> 's" where
  "read_rtc B reg s =
     (let s = pb_outb B 0x70 reg s; (ret, s) = pb_inb B 0x71 s in
      (uint (ret AND 0xf) + uint (drop_bit 4 ret) * 10, s))"

definition read_rtc_async :: "'s port_bus \<Rightarrow> 's \<Rightarrow> AM_TIMER_RTC_T \<times> 's" where
  "read_rtc_async B s =
     (let (sec, s) = read_rtc B 0 s;
          (mi, s) = read_rtc B 2 s;
          (ho, s) = read_rtc B 4 s;
          (da, s) = read_rtc B 7 s;
          (mo, s) = read_rtc B 8 s;
          (ye, s) = read_rtc B 9 s in
      (\<lparr>year = ye + 2000, month = mo, day = da, hour = ho, minute = mi, second = sec\<rparr>, s))"

partial_function (option) x86_timer_rtc :: "'s port_bus \<Rightarrow> 's \<Rightarrow> (AM_TIMER_RTC_T \<times> 's) option" where
  "x86_timer_rtc B s =
     (let (rtc, s) = read_rtc_async B s; (tmp, s) = read_rtc B 0 s in
      if tmp \<noteq> second rtc then x86_timer_rtc B s else Some (rtc, s))"

partial_function (option) wait_sec :: "'s port_bus \<Rightarrow> 's \<Rightarrow> (AM_TIMER_RTC_T \<times> 's) option" where
  "wait_sec B s =
     (let (t0, s) = read_rtc_async B s; (t1, s) = read_rtc_async B s in
      if second t0 \<noteq> second t1 then Some (t1, s) else wait_sec B s)"

definition seconds_of :: "AM_TIMER_RTC_T \<Rightarrow> u64" where
  "seconds_of rtc = word_of_int (minute rtc * 60 + second rtc)"

partial_function (option) estimate_freq :: "'s port_bus \<Rightarrow> ('s \<Rightarrow> u64 \<times> 's) \<Rightarrow> 's \<Rightarrow> (u32 \<times> 's) option" where
  "estimate_freq B tsc s =
     (case wait_sec B s of None \<Rightarrow> None | Some (rtc1, s) \<Rightarrow>
      let (tsc1, s) = tsc s; t1 = seconds_of rtc1 in
      case wait_sec B s of None \<Rightarrow> None | Some (rtc2, s) \<Rightarrow>
      let (tsc2, s) = tsc s; t2 = seconds_of rtc2 in
      if t2 \<le> t1 then estimate_freq B tsc s
      else Some (ucast (drop_bit 20 (tsc2 - tsc1) div (t2 - t1)), s))"

record x86_timer =
  boot_date :: AM_TIMER_RTC_T
  freq_mhz :: u32
  uptsc :: u64

definition x86_timer_init :: "'s port_bus \<Rightarrow> ('s \<Rightarrow> u64 \<times> 's) \<Rightarrow> 's \<Rightarrow> (x86_timer \<times> 's) option" where
  "x86_timer_init B tsc s =
     (case estimate_freq B tsc s of None \<Rightarrow> None | Some (f, s) \<Rightarrow>
      case x86_timer_rtc B s of None \<Rightarrow> None | Some (rtc, s) \<Rightarrow>
      let (t, s) = tsc s in Some (\<lparr>boot_date = rtc, freq_mhz = f, uptsc = t\<rparr>, s))"

definition x86_timer_uptime :: "('s \<Rightarrow> u64 \<times> 's) \<Rightarrow> x86_timer \<Rightarrow> 's \<Rightarrow> (u64 \<times> 's) res" where
  "x86_timer_uptime tsc t s =
     (let (now, s) = tsc s in
      guardR (freq_mhz t \<noteq> 0) Undef (Inr ((now - uptsc t) div ucast (freq_mhz t), s)))"

section \<open>Keyboard\<close>

text \<open>The initialisers of \<^verbatim>\<open>keylut\<close> in their order; of two for the same element the last one counts.\<close>

definition keylut_entries :: "(nat \<times> string) list" where
  "keylut_entries =
    [(0x01, ''ESCAPE''), (0x02, ''1''), (0x03, ''2''), (0x04, ''3''), (0x05, ''4''), (0x06, ''5''), (0x07, ''6''),
     (0x08, ''7''), (0x09, ''8''), (0x0a, ''9''), (0x0b, ''0''), (0x0c, ''MINUS''), (0x0d, ''EQUALS''),
     (0x0e, ''BACKSPACE''), (0x0f, ''TAB''), (0x10, ''Q''), (0x11, ''W''), (0x12, ''E''), (0x13, ''R''),
     (0x14, ''T''), (0x15, ''Y''), (0x16, ''U''), (0x17, ''I''), (0x18, ''O''), (0x19, ''P''), (0x1a, ''LEFTBRACKET''),
     (0x1b, ''RIGHTBRACKET''), (0x1c, ''RETURN''), (0x1d, ''LCTRL''), (0x1e, ''A''), (0x1f, ''S''), (0x20, ''D''),
     (0x21, ''F''), (0x22, ''G''), (0x23, ''H''), (0x24, ''J''), (0x25, ''K''), (0x26, ''L''), (0x27, ''SEMICOLON''),
     (0x28, ''APOSTROPHE''), (0x29, ''GRAVE''), (0x2a, ''LSHIFT''), (0x2b, ''BACKSLASH''), (0x2c, ''Z''),
     (0x2d, ''X''), (0x2e, ''C''), (0x2f, ''V''), (0x30, ''B''), (0x31, ''N''), (0x32, ''M''), (0x33, ''COMMA''),
     (0x34, ''PERIOD''), (0x35, ''SLASH''), (0x36, ''RSHIFT''), (0x38, ''LALT''), (0x38, ''RALT''), (0x39, ''SPACE''),
     (0x3a, ''CAPSLOCK''), (0x3b, ''F1''), (0x3c, ''F2''), (0x3d, ''F3''), (0x3e, ''F4''), (0x3f, ''F5''),
     (0x40, ''F6''), (0x41, ''F7''), (0x42, ''F8''), (0x43, ''F9''), (0x44, ''F10''), (0x48, ''INSERT''),
     (0x4b, ''HOME''), (0x4d, ''END''), (0x50, ''DELETE''), (0x57, ''F11''), (0x58, ''F12''), (0x5b, ''APPLICATION'')]"

fun position :: "'a \<Rightarrow> 'a list \<Rightarrow> nat" where
  "position x [] = 0"
| "position x (y # ys) = (if x = y then 0 else Suc (position x ys))"

definition keylut :: "nat \<Rightarrow> int" where
  "keylut n = (case map_of (rev keylut_entries) n of None \<Rightarrow> 0 | Some k \<Rightarrow> int (Suc (position k AM_KEYS)))"

definition x86_input_keybrd :: "'s port_bus \<Rightarrow> 's \<Rightarrow> AM_INPUT_KEYBRD_T \<times> 's" where
  "x86_input_keybrd B s =
     (let (st, s) = pb_inb B 0x64 s in
      if st AND 1 \<noteq> 0
      then let (code, s) = pb_inb B 0x60 s in
           (\<lparr>keydown = unat code < 128, keycode = keylut (unat (code AND 0x7f))\<rparr>, s)
      else (\<lparr>keydown = False, keycode = 0\<rparr>, s))"

section \<open>Interrupt controllers\<close>

text \<open>The registers of the local controller are numbered by their word; those of the I/O controller are 0 and 4.\<close>

record 's apic_bus =
  lapic_rd :: "nat \<Rightarrow> 's \<Rightarrow> u32 \<times> 's"
  lapic_wr :: "nat \<Rightarrow> u32 \<Rightarrow> 's \<Rightarrow> 's"
  ioapic_rd :: "nat \<Rightarrow> 's \<Rightarrow> u32 \<times> 's"
  ioapic_wr :: "nat \<Rightarrow> u32 \<Rightarrow> 's \<Rightarrow> 's"

definition LAPIC_ID :: nat where "LAPIC_ID = 0x20 div 4"
definition LAPIC_VER :: nat where "LAPIC_VER = 0x30 div 4"
definition LAPIC_TPR :: nat where "LAPIC_TPR = 0x80 div 4"
definition LAPIC_EOI :: nat where "LAPIC_EOI = 0xb0 div 4"
definition LAPIC_SVR :: nat where "LAPIC_SVR = 0xf0 div 4"
definition LAPIC_ESR :: nat where "LAPIC_ESR = 0x280 div 4"
definition LAPIC_ICRLO :: nat where "LAPIC_ICRLO = 0x300 div 4"
definition LAPIC_ICRHI :: nat where "LAPIC_ICRHI = 0x310 div 4"
definition LAPIC_TIMER :: nat where "LAPIC_TIMER = 0x320 div 4"
definition LAPIC_PCINT :: nat where "LAPIC_PCINT = 0x340 div 4"
definition LAPIC_LINT0 :: nat where "LAPIC_LINT0 = 0x350 div 4"
definition LAPIC_LINT1 :: nat where "LAPIC_LINT1 = 0x360 div 4"
definition LAPIC_ERROR :: nat where "LAPIC_ERROR = 0x370 div 4"
definition LAPIC_TICR :: nat where "LAPIC_TICR = 0x380 div 4"
definition LAPIC_TDCR :: nat where "LAPIC_TDCR = 0x3e0 div 4"

definition lapicw :: "'s apic_bus \<Rightarrow> nat \<Rightarrow> u32 \<Rightarrow> 's \<Rightarrow> 's" where
  "lapicw B index v s = snd (lapic_rd B LAPIC_ID (lapic_wr B index v s))"

fun lapicws :: "'s apic_bus \<Rightarrow> (nat \<times> u32) list \<Rightarrow> 's \<Rightarrow> 's" where
  "lapicws B [] s = s"
| "lapicws B ((i, v) # ws) s = lapicws B ws (lapicw B i v s)"

partial_function (option) wait_delivered :: "'s apic_bus \<Rightarrow> 's \<Rightarrow> 's option" where
  "wait_delivered B s =
     (let (v, s) = lapic_rd B LAPIC_ICRLO s in
      if v AND 0x1000 \<noteq> 0 then wait_delivered B s else Some s)"

definition x86_initlapic :: "'s apic_bus \<Rightarrow> 's \<Rightarrow> 's option" where
  "x86_initlapic B s =
     (let s = lapicws B [(LAPIC_SVR, 0x100 OR (32 + 31)), (LAPIC_TDCR, 0xb), (LAPIC_TIMER, 0x20000 OR (32 + 0)),
            (LAPIC_TICR, 10000000), (LAPIC_LINT0, 0x10000), (LAPIC_LINT1, 0x10000)] s;
          (ver, s) = lapic_rd B LAPIC_VER s;
          s = (if 4 \<le> drop_bit 16 ver AND 0xff then lapicw B LAPIC_PCINT 0x10000 s else s);
          s = lapicws B [(LAPIC_ERROR, 32 + 19), (LAPIC_ESR, 0), (LAPIC_ESR, 0), (LAPIC_EOI, 0), (LAPIC_ICRHI, 0),
            (LAPIC_ICRLO, 0x80000 OR 0x500 OR 0x8000)] s in
      case wait_delivered B s of None \<Rightarrow> None | Some s \<Rightarrow> Some (lapicw B LAPIC_TPR 0 s))"

definition x86_lapic_eoi :: "'s apic_bus \<Rightarrow> bool \<Rightarrow> 's \<Rightarrow> 's" where
  "x86_lapic_eoi B found s = (if found then lapicw B LAPIC_EOI 0 s else s)"

text \<open>The warm-reset vector is written to memory; \<open>addr\<close> is where the other processor starts.\<close>

definition x86_lapic_bootap :: "'s port_bus \<Rightarrow> 's apic_bus \<Rightarrow> u32 \<Rightarrow> u32 \<Rightarrow> bmem \<times> 's \<Rightarrow> bmem \<times> 's" where
  "x86_lapic_bootap P B apicid addr p =
     (let (m, s) = p;
          s = pb_outb P 0x71 0x0a (pb_outb P 0x70 0xf s);
          m = put_bytes 0x467 (le_bytes 2 (0 :: u16)) m;
          m = put_bytes 0x469 (le_bytes 2 (ucast (drop_bit 4 addr) :: u16)) m;
          s = lapicws B [(LAPIC_ICRHI, push_bit 24 apicid), (LAPIC_ICRLO, 0x500 OR 0x8000 OR 0x4000),
                (LAPIC_ICRLO, 0x500 OR 0x8000)] s;
          start = [(LAPIC_ICRHI, push_bit 24 apicid), (LAPIC_ICRLO, 0x600 OR drop_bit 12 addr)] in
      (m, lapicws B (start @ start) s))"

definition ioapicread :: "'s apic_bus \<Rightarrow> u32 \<Rightarrow> 's \<Rightarrow> u32 \<times> 's" where
  "ioapicread B reg s = ioapic_rd B 4 (ioapic_wr B 0 reg s)"

definition ioapicwrite :: "'s apic_bus \<Rightarrow> u32 \<Rightarrow> u32 \<Rightarrow> 's \<Rightarrow> 's" where
  "ioapicwrite B reg data s = ioapic_wr B 4 data (ioapic_wr B 0 reg s)"

fun ioapic_disable :: "'s apic_bus \<Rightarrow> nat \<Rightarrow> nat \<Rightarrow> 's \<Rightarrow> 's" where
  "ioapic_disable B i 0 s = s"
| "ioapic_disable B i (Suc n) s =
     ioapic_disable B (Suc i) n
       (ioapicwrite B (0x10 + 2 * of_nat i + 1) 0 (ioapicwrite B (0x10 + 2 * of_nat i) (0x10000 OR (32 + of_nat i)) s))"

definition x86_ioapic_init :: "'s apic_bus \<Rightarrow> 's \<Rightarrow> 's" where
  "x86_ioapic_init B s =
     (let (v, s) = ioapicread B 0x01 s; maxintr = unat (drop_bit 16 v AND 0xff) in
      ioapic_disable B 0 (Suc maxintr) s)"

definition x86_ioapic_enable :: "'s apic_bus \<Rightarrow> u32 \<Rightarrow> u32 \<Rightarrow> 's \<Rightarrow> 's" where
  "x86_ioapic_enable B irq cpunum s =
     ioapicwrite B (0x10 + 2 * irq + 1) (push_bit 24 cpunum) (ioapicwrite B (0x10 + 2 * irq) (32 + irq) s)"

end
