(* ===== verification/X86_IOE_Correct.thy ===== *)
theory X86_IOE_Correct
  imports X86_IOE
begin

text \<open>
  The clock and the I/O interrupt controller on reference models of their hardware: the time that is read is
  the time at one instant although the clock ticks between the reads, and the redirection table holds what was written.
\<close>

section \<open>The clock\<close>

text \<open>
  A clock with registers in BCD; \<open>T\<close> is its time in seconds, \<open>sel\<close> the selected register and \<open>fld r t\<close> the
  value of a register at a time. Time passes during accesses, at most four seconds in each.
\<close>

definition bcd :: "nat \<Rightarrow> u8" where
  "bcd n = of_nat (n div 10 * 16 + n mod 10)"

definition has_rtc :: "'s port_bus \<Rightarrow> ('s \<Rightarrow> nat) \<Rightarrow> ('s \<Rightarrow> u8) \<Rightarrow> (u8 \<Rightarrow> nat \<Rightarrow> nat) \<Rightarrow> bool" where
  "has_rtc B T sel fld \<longleftrightarrow>
     (\<forall>t. fld 0 t = t mod 60) \<and> (\<forall>r t. fld r t < 100) \<and>
     (\<forall>r s. sel (pb_outb B 0x70 r s) = r \<and> T s \<le> T (pb_outb B 0x70 r s) \<and> T (pb_outb B 0x70 r s) \<le> T s + 4) \<and>
     (\<forall>s. T s \<le> T (snd (pb_inb B 0x71 s)) \<and> T (snd (pb_inb B 0x71 s)) \<le> T s + 4 \<and>
        (\<exists>t. T s \<le> t \<and> t \<le> T (snd (pb_inb B 0x71 s)) \<and> fst (pb_inb B 0x71 s) = bcd (fld (sel s) t)))"

lemma bcd_value:
  assumes "n < 100"
  shows "uint (bcd n AND 0xf) + uint (drop_bit 4 (bcd n)) * 10 = int n"
proof -
  define q r where "q = n div 10" and "r = n mod 10"
  have n: "n = 10 * q + r" "r < 10" "q < 10" using assms by (simp_all add: q_def r_def)
  have b: "unat (bcd n) = 16 * q + r"
    using n(2,3) by (simp only: bcd_def q_def [symmetric] r_def [symmetric] unat_of_nat) simp
  have m: "(0xf :: u8) = mask 4" by (simp add: mask_eq_exp_minus_1)
  have "unat (bcd n AND 0xf) = (16 * q + r) mod 16"
    unfolding m by (simp add: unsigned_take_bit_eq take_bit_nat_def b flip: take_bit_eq_mask)
  moreover have "unat (drop_bit 4 (bcd n)) = (16 * q + r) div 16"
    by (simp add: unat_drop_bit_eq drop_bit_nat_def b)
  ultimately have "unat (bcd n AND 0xf) = r" "unat (drop_bit 4 (bcd n)) = q" using n(2) by simp_all
  then show ?thesis using n(1) by (simp add: uint_nat)
qed

definition rtc_at :: "(u8 \<Rightarrow> nat \<Rightarrow> nat) \<Rightarrow> nat \<Rightarrow> AM_TIMER_RTC_T" where
  "rtc_at fld t = \<lparr>year = int (fld 9 t) + 2000, month = int (fld 8 t), day = int (fld 7 t), hour = int (fld 4 t),
     minute = int (fld 2 t), second = int (fld 0 t)\<rparr>"

lemma read_rtc_ok:
  assumes "has_rtc B T sel fld" "read_rtc B r s = (v, s')"
  obtains t where "T s \<le> t" "t \<le> T s'" "T s' \<le> T s + 8" "v = int (fld r t)"
proof -
  define s1 where "s1 = pb_outb B 0x70 r s"
  have 1: "sel s1 = r" "T s \<le> T s1" "T s1 \<le> T s + 4" using assms(1) by (simp_all add: has_rtc_def s1_def)
  obtain w s2 where i: "pb_inb B 0x71 s1 = (w, s2)" by (cases "pb_inb B 0x71 s1")
  have "T s1 \<le> T (snd (pb_inb B 0x71 s1)) \<and> T (snd (pb_inb B 0x71 s1)) \<le> T s1 + 4 \<and>
        (\<exists>t. T s1 \<le> t \<and> t \<le> T (snd (pb_inb B 0x71 s1)) \<and> fst (pb_inb B 0x71 s1) = bcd (fld (sel s1) t))"
    using assms(1) unfolding has_rtc_def by blast
  then obtain t where t: "T s2 \<le> T s1 + 4" "T s1 \<le> t" "t \<le> T s2" "w = bcd (fld r t)" using i 1(1) by auto
  have "fld r t < 100" using assms(1) by (simp add: has_rtc_def)
  from bcd_value [OF this] have "v = int (fld r t)" "s' = s2"
    using assms(2) i t(4) by (simp_all add: read_rtc_def s1_def Let_def)
  then show ?thesis using that [of t] 1 t by simp
qed

text \<open>One round of the loop: seven readings within a minute, of which the first and the last agree.\<close>

lemma rtc_round:
  assumes "has_rtc B T sel fld" "read_rtc_async B s = (rtc, s1)" "read_rtc B 0 s1 = (tmp, s2)"
  shows "T s \<le> T s2" "tmp = second rtc \<Longrightarrow> \<exists>t. T s \<le> t \<and> t \<le> T s2 \<and> rtc = rtc_at fld t"
proof -
  obtain v0 a0 where 0: "read_rtc B 0 s = (v0, a0)" by (cases "read_rtc B 0 s")
  obtain v1 a1 where 1: "read_rtc B 2 a0 = (v1, a1)" by (cases "read_rtc B 2 a0")
  obtain v2 a2 where 2: "read_rtc B 4 a1 = (v2, a2)" by (cases "read_rtc B 4 a1")
  obtain v3 a3 where 3: "read_rtc B 7 a2 = (v3, a3)" by (cases "read_rtc B 7 a2")
  obtain v4 a4 where 4: "read_rtc B 8 a3 = (v4, a4)" by (cases "read_rtc B 8 a3")
  obtain v5 a5 where 5: "read_rtc B 9 a4 = (v5, a5)" by (cases "read_rtc B 9 a4")
  have r: "rtc = \<lparr>year = v5 + 2000, month = v4, day = v3, hour = v2, minute = v1, second = v0\<rparr>" "s1 = a5"
    using assms(2) by (simp_all add: read_rtc_async_def 0 1 2 3 4 5)
  obtain t0 where t0: "T s \<le> t0" "t0 \<le> T a0" "T a0 \<le> T s + 8" "v0 = int (fld 0 t0)" by (rule read_rtc_ok [OF assms(1) 0])
  obtain t1 where t1: "T a0 \<le> t1" "t1 \<le> T a1" "T a1 \<le> T a0 + 8" "v1 = int (fld 2 t1)" by (rule read_rtc_ok [OF assms(1) 1])
  obtain t2 where t2: "T a1 \<le> t2" "t2 \<le> T a2" "T a2 \<le> T a1 + 8" "v2 = int (fld 4 t2)" by (rule read_rtc_ok [OF assms(1) 2])
  obtain t3 where t3: "T a2 \<le> t3" "t3 \<le> T a3" "T a3 \<le> T a2 + 8" "v3 = int (fld 7 t3)" by (rule read_rtc_ok [OF assms(1) 3])
  obtain t4 where t4: "T a3 \<le> t4" "t4 \<le> T a4" "T a4 \<le> T a3 + 8" "v4 = int (fld 8 t4)" by (rule read_rtc_ok [OF assms(1) 4])
  obtain t5 where t5: "T a4 \<le> t5" "t5 \<le> T s1" "T s1 \<le> T a4 + 8" "v5 = int (fld 9 t5)"
    using read_rtc_ok [OF assms(1) 5] r(2) by metis
  obtain t6 where t6: "T s1 \<le> t6" "t6 \<le> T s2" "T s2 \<le> T s1 + 8" "tmp = int (fld 0 t6)" by (rule read_rtc_ok [OF assms(1,3)])
  show "T s \<le> T s2" using t0 t1 t2 t3 t4 t5 t6 by linarith
  assume "tmp = second rtc"
  then have "t6 mod 60 = t0 mod 60" using t0(4) t6(4) r assms(1) by (simp add: has_rtc_def)
  moreover have b: "t0 \<le> t6" "t6 - t0 < 60" using t0 t1 t2 t3 t4 t5 t6 by linarith+
  ultimately have "60 dvd t6 - t0" by (simp add: mod_eq_dvd_iff_nat)
  with b have "t6 = t0" using nat_dvd_not_less [of "t6 - t0" 60] by fastforce
  then have "t1 = t0" "t2 = t0" "t3 = t0" "t4 = t0" "t5 = t0" using t0 t1 t2 t3 t4 t5 t6 by linarith+
  then have "rtc = rtc_at fld t0" using r t0(4) t1(4) t2(4) t3(4) t4(4) t5(4) by (simp add: rtc_at_def)
  then show "\<exists>t. T s \<le> t \<and> t \<le> T s2 \<and> rtc = rtc_at fld t"
    using t0 t6 b by (intro exI [of _ t0]) linarith
qed

lemma timer_rtc_snapshot:
  assumes "x86_timer_rtc B s = Some (rtc, s')" "has_rtc B T sel fld"
  shows "\<exists>t. T s \<le> t \<and> t \<le> T s' \<and> rtc = rtc_at fld t"
proof -
  have "has_rtc B T sel fld \<longrightarrow> (\<exists>t. T s \<le> t \<and> t \<le> T (snd (rtc, s')) \<and> fst (rtc, s') = rtc_at fld t)"
  proof (rule x86_timer_rtc.raw_induct [where P = "\<lambda>B s y. has_rtc B T sel fld \<longrightarrow>
      (\<exists>t. T s \<le> t \<and> t \<le> T (snd y) \<and> fst y = rtc_at fld t)"], goal_cases)
    case (1 f B s y)
    obtain rtc s1 where r: "read_rtc_async B s = (rtc, s1)" by (cases "read_rtc_async B s")
    obtain tmp s2 where t: "read_rtc B 0 s1 = (tmp, s2)" by (cases "read_rtc B 0 s1")
    show ?case
    proof
      assume h: "has_rtc B T sel fld"
      note round = rtc_round [OF h r t]
      show "\<exists>t. T s \<le> t \<and> t \<le> T (snd y) \<and> fst y = rtc_at fld t"
      proof (cases "tmp = second rtc")
        case True
        then have "y = (rtc, s2)" using 1(2) r t by simp
        then show ?thesis using round(2) True by simp
      next
        case False
        then have "f B s2 = Some y" using 1(2) r t by simp
        then obtain u where "T s2 \<le> u" "u \<le> T (snd y)" "fst y = rtc_at fld u" using 1(1) h by blast
        then show ?thesis using round(1) by (intro exI [of _ u]) simp
      qed
    qed
  qed (rule assms(1))
  with assms(2) show ?thesis by simp
qed

text \<open>If the second does not change during a round, the loop ends with it.\<close>

lemma timer_rtc_returns:
  assumes "read_rtc_async B s = (rtc, s1)" "read_rtc B 0 s1 = (tmp, s2)" "tmp = second rtc"
  shows "x86_timer_rtc B s = Some (rtc, s2)"
  using assms by (subst x86_timer_rtc.simps) simp

section \<open>Keys\<close>

text \<open>Every scan code with a key gives a number of \<^verbatim>\<open>AM_KEYS\<close>, and no two the same.\<close>

lemma position_inj: "x \<in> set xs \<Longrightarrow> position x xs = position y xs \<Longrightarrow> x = y"
  by (induction xs) (auto split: if_splits)

lemma position_less: "x \<in> set xs \<Longrightarrow> position x xs < length xs"
  by (induction xs) auto

lemma keylut_names: "(n, k) \<in> set (rev keylut_entries) \<Longrightarrow> k \<in> set AM_KEYS"
proof -
  have "list_all (\<lambda>(n, k). k \<in> set AM_KEYS) keylut_entries" by code_simp
  then show "(n, k) \<in> set (rev keylut_entries) \<Longrightarrow> k \<in> set AM_KEYS" by (auto simp: list_all_iff)
qed

lemma keylut_range: "0 \<le> keylut n \<and> keylut n \<le> int (length AM_KEYS)"
proof (cases "map_of (rev keylut_entries) n")
  case (Some k)
  then have "k \<in> set AM_KEYS" using keylut_names by (metis map_of_SomeD)
  from position_less [OF this] show ?thesis using Some by (simp add: keylut_def)
qed (simp add: keylut_def)

lemma keylut_inj:
  assumes "keylut m = keylut n" "keylut m \<noteq> 0"
  shows "m = n"
proof -
  obtain j k where m: "map_of (rev keylut_entries) m = Some j" and n: "map_of (rev keylut_entries) n = Some k"
    using assms by (cases "map_of (rev keylut_entries) m"; cases "map_of (rev keylut_entries) n") (auto simp: keylut_def)
  have "j \<in> set AM_KEYS" using keylut_names [OF map_of_SomeD [OF m]] .
  then have jk: "j = k" using position_inj [of j AM_KEYS k] assms(1) m n by (simp add: keylut_def)
  have d: "distinct (map snd keylut_entries)" by code_simp
  have "(m, j) \<in> set keylut_entries" "(n, j) \<in> set keylut_entries" using map_of_SomeD [OF m] map_of_SomeD [OF n] jk by simp_all
  then show "m = n" using d by (metis distinct_map eq_snd_iff inj_on_def prod.inject)
qed

section \<open>The I/O interrupt controller\<close>

record ioapic_hw =
  io_sel :: u32
  io_regs :: "u32 \<Rightarrow> u32"

definition has_ioapic :: "'s apic_bus \<Rightarrow> ('s \<Rightarrow> ioapic_hw) \<Rightarrow> bool" where
  "has_ioapic B view \<longleftrightarrow>
     (\<forall>v s. view (ioapic_wr B 0 v s) = (view s)\<lparr>io_sel := v\<rparr>) \<and>
     (\<forall>v s. view (ioapic_wr B 4 v s) = (view s)\<lparr>io_regs := (io_regs (view s))(io_sel (view s) := v)\<rparr>) \<and>
     (\<forall>s. fst (ioapic_rd B 4 s) = io_regs (view s) (io_sel (view s)) \<and> view (snd (ioapic_rd B 4 s)) = view s)"

lemma ioapicwrite_regs:
  "has_ioapic B view \<Longrightarrow> io_regs (view (ioapicwrite B reg data s)) = (io_regs (view s))(reg := data)"
  by (simp add: ioapicwrite_def has_ioapic_def)

lemma ioapicread_regs:
  assumes "has_ioapic B view"
  shows "fst (ioapicread B reg s) = io_regs (view s) reg" "io_regs (view (snd (ioapicread B reg s))) = io_regs (view s)"
  using assms by (simp_all add: ioapicread_def has_ioapic_def)

lemma redirection_inj:
  "i < 256 \<Longrightarrow> j < 256 \<Longrightarrow> a < 2 \<Longrightarrow> b < 2 \<Longrightarrow>
   (0x10 + 2 * of_nat i + of_nat a :: u32) = 0x10 + 2 * of_nat j + of_nat b \<longleftrightarrow> i = j \<and> a = b"
proof -
  assume b: "i < 256" "j < 256" "a < 2" "b < (2 :: nat)"
  have u: "unat (0x10 + 2 * of_nat i + of_nat a :: u32) = 16 + 2 * i + a" if "i < 256" "a < 2" for i a :: nat
  proof -
    have "(0x10 + 2 * of_nat i + of_nat a :: u32) = of_nat (16 + 2 * i + a)" by simp
    moreover have "16 + 2 * i + a < 2 ^ LENGTH(32)" using that by simp
    ultimately show ?thesis by (simp only: unat_of_nat mod_less)
  qed
  have "2 * i + a = 2 * j + b \<longleftrightarrow> i = j \<and> a = b" using b(3,4) by presburger
  then show ?thesis unfolding word_unat_eq_iff u [OF b(1,3)] u [OF b(2,4)] by simp
qed

lemma ioapic_disable_regs:
  assumes "has_ioapic B view" "i + n \<le> 256"
  shows "(\<forall>k < n. io_regs (view (ioapic_disable B i n s)) (0x10 + 2 * of_nat (i + k)) = 0x10000 OR (32 + of_nat (i + k)) \<and>
      io_regs (view (ioapic_disable B i n s)) (0x10 + 2 * of_nat (i + k) + 1) = 0) \<and>
    (\<forall>k < i. io_regs (view (ioapic_disable B i n s)) (0x10 + 2 * of_nat k) = io_regs (view s) (0x10 + 2 * of_nat k) \<and>
      io_regs (view (ioapic_disable B i n s)) (0x10 + 2 * of_nat k + 1) = io_regs (view s) (0x10 + 2 * of_nat k + 1))"
  using assms(2)
proof (induction n arbitrary: i s)
  case (Suc n)
  define s1 where "s1 = ioapicwrite B (0x10 + 2 * of_nat i + 1) 0 (ioapicwrite B (0x10 + 2 * of_nat i) (0x10000 OR (32 + of_nat i)) s)"
  have r: "io_regs (view s1) = (io_regs (view s))(0x10 + 2 * of_nat i := 0x10000 OR (32 + of_nat i), 0x10 + 2 * of_nat i + 1 := 0)"
    by (simp add: s1_def ioapicwrite_regs [OF assms(1)])
  have e: "(0x10 + 2 * of_nat k :: u32) = 0x10 + 2 * of_nat j \<longleftrightarrow> k = j"
    "(0x10 + 2 * of_nat k + 1 :: u32) = 0x10 + 2 * of_nat j + 1 \<longleftrightarrow> k = j"
    "(0x10 + 2 * of_nat k :: u32) \<noteq> 0x10 + 2 * of_nat j + 1" "(0x10 + 2 * of_nat j + 1 :: u32) \<noteq> 0x10 + 2 * of_nat k"
    if "k < 256" "j < 256" for k j
    using redirection_inj [OF that, of 0 0] redirection_inj [OF that, of 1 1] redirection_inj [OF that, of 0 1] by simp_all
  define t where "t = ioapic_disable B (Suc i) n s1"
  have IH: "\<And>k. k < n \<Longrightarrow> io_regs (view t) (0x10 + 2 * of_nat (Suc i + k)) = 0x10000 OR (32 + of_nat (Suc i + k))"
    "\<And>k. k < n \<Longrightarrow> io_regs (view t) (0x10 + 2 * of_nat (Suc i + k) + 1) = 0"
    "\<And>k. k < Suc i \<Longrightarrow> io_regs (view t) (0x10 + 2 * of_nat k) = io_regs (view s1) (0x10 + 2 * of_nat k)"
    "\<And>k. k < Suc i \<Longrightarrow> io_regs (view t) (0x10 + 2 * of_nat k + 1) = io_regs (view s1) (0x10 + 2 * of_nat k + 1)"
    using Suc.IH [of "Suc i" s1] Suc.prems unfolding t_def by simp_all
  have t: "ioapic_disable B i (Suc n) s = t" by (simp add: t_def s1_def)
  have i: "i < 256" using Suc.prems by simp
  have "io_regs (view t) (0x10 + 2 * of_nat (i + k)) = 0x10000 OR (32 + of_nat (i + k)) \<and>
      io_regs (view t) (0x10 + 2 * of_nat (i + k) + 1) = 0" if "k < Suc n" for k
  proof (cases k)
    case 0
    then show ?thesis using IH(3,4) [of i] e [OF i i] by (simp add: r)
  next
    case (Suc l)
    then show ?thesis using IH(1,2) [of l] that by simp
  qed
  moreover have "io_regs (view t) (0x10 + 2 * of_nat k) = io_regs (view s) (0x10 + 2 * of_nat k) \<and>
      io_regs (view t) (0x10 + 2 * of_nat k + 1) = io_regs (view s) (0x10 + 2 * of_nat k + 1)" if "k < i" for k
  proof -
    have k: "k < 256" using that i by simp
    show ?thesis using IH(3,4) [of k] that e [OF k i] e [OF i k] by (simp add: r)
  qed
  ultimately show ?case unfolding t by blast
qed simp

lemma ioapic_init_disables:
  assumes "has_ioapic B view" "io_regs (view s) 1 = v" "i \<le> unat (drop_bit 16 v AND 0xff)"
  shows "io_regs (view (x86_ioapic_init B s)) (0x10 + 2 * of_nat i) = 0x10000 OR (32 + of_nat i) \<and>
    io_regs (view (x86_ioapic_init B s)) (0x10 + 2 * of_nat i + 1) = 0"
proof -
  obtain w s1 where r: "ioapicread B 1 s = (w, s1)" by (cases "ioapicread B 1 s")
  then have w: "w = v" using ioapicread_regs(1) [OF assms(1), of 1 s] assms(2) by simp
  define n where "n = unat (drop_bit 16 v AND 0xff)"
  have m: "(0xff :: u32) = mask 8" by (simp add: mask_eq_exp_minus_1)
  have "n < 2 ^ 8" unfolding n_def m by (simp add: unsigned_take_bit_eq take_bit_nat_def flip: take_bit_eq_mask)
  then have l: "0 + Suc n \<le> 256" by simp
  have "x86_ioapic_init B s = ioapic_disable B 0 (Suc n) s1"
    by (simp add: x86_ioapic_init_def r w n_def)
  then show ?thesis
    using ioapic_disable_regs [OF assms(1) l, of s1] assms(3) by (simp add: n_def [symmetric] less_Suc_eq_le)
qed

lemma ioapic_enable_entry:
  assumes "has_ioapic B view" "i < 256" "j < 256"
  shows "io_regs (view (x86_ioapic_enable B (of_nat i) c s)) (0x10 + 2 * of_nat j) =
      (if j = i then 32 + of_nat i else io_regs (view s) (0x10 + 2 * of_nat j))"
    "io_regs (view (x86_ioapic_enable B (of_nat i) c s)) (0x10 + 2 * of_nat j + 1) =
      (if j = i then push_bit 24 c else io_regs (view s) (0x10 + 2 * of_nat j + 1))"
proof -
  have e: "(0x10 + 2 * of_nat i :: u32) = 0x10 + 2 * of_nat j \<longleftrightarrow> j = i"
    "(0x10 + 2 * of_nat i + 1 :: u32) = 0x10 + 2 * of_nat j + 1 \<longleftrightarrow> j = i"
    "(0x10 + 2 * of_nat j :: u32) \<noteq> 0x10 + 2 * of_nat i + 1" "(0x10 + 2 * of_nat j + 1 :: u32) \<noteq> 0x10 + 2 * of_nat i"
    using redirection_inj [OF assms(2,3), of 0 0] redirection_inj [OF assms(2,3), of 1 1]
      redirection_inj [OF assms(3,2), of 0 1] redirection_inj [OF assms(3,2), of 1 0] by auto
  have r: "io_regs (view (x86_ioapic_enable B (of_nat i) c s)) =
      (io_regs (view s))(0x10 + 2 * of_nat i := 32 + of_nat i, 0x10 + 2 * of_nat i + 1 := push_bit 24 c)"
    by (simp add: x86_ioapic_enable_def ioapicwrite_regs [OF assms(1)])
  show "io_regs (view (x86_ioapic_enable B (of_nat i) c s)) (0x10 + 2 * of_nat j) =
      (if j = i then 32 + of_nat i else io_regs (view s) (0x10 + 2 * of_nat j))"
    "io_regs (view (x86_ioapic_enable B (of_nat i) c s)) (0x10 + 2 * of_nat j + 1) =
      (if j = i then push_bit 24 c else io_regs (view s) (0x10 + 2 * of_nat j + 1))"
    using e unfolding r by (auto simp: fun_upd_def)
qed

end
