(* ===== verification/X86_TRM.thy ===== *)
theory X86_TRM
  imports X86_IOE
begin

text \<open>
  Start-up and processors of the x86 machine (\<^verbatim>\<open>am/src/x86/qemu/trm.c\<close>, \<^verbatim>\<open>mpe.c\<close>): printing and halting, the
  size of memory, the search for the multiprocessor table, and the start of the other processors.
\<close>

section \<open>Printing and halting\<close>

definition x86_putch :: "'s port_bus \<Rightarrow> u8 \<Rightarrow> 's \<Rightarrow> 's" where
  "x86_putch B ch s = pb_outb B 0x3f8 ch s"

definition hex_char :: "nat \<Rightarrow> u8 res" where
  "hex_char n = guardR (n < 16) Undef (Inr (of_char (''0123456789abcdef'' ! n)))"

definition x86_cpu_current :: "'s apic_bus \<Rightarrow> 's \<Rightarrow> u32 \<times> 's" where
  "x86_cpu_current A s = (let (v, s) = lapic_rd A 8 s in (drop_bit 24 v, s))"

fun halt_chars :: "'s port_bus \<Rightarrow> 's apic_bus \<Rightarrow> u32 \<Rightarrow> string \<Rightarrow> 's \<Rightarrow> 's res" where
  "halt_chars B A code [] s = Inr s"
| "halt_chars B A code (ch # cs) s =
     (if ch = CHR ''$'' then
        let (cpu, s) = x86_cpu_current A s in
        bindR (hex_char (unat cpu)) (\<lambda>c. halt_chars B A code cs (x86_putch B c s))
      else if ch = CHR ''0'' \<or> ch = CHR ''4'' then
        bindR (hex_char (unat (drop_bit (of_char ch - 48) code AND 0xf))) (\<lambda>c. halt_chars B A code cs (x86_putch B c s))
      else halt_chars B A code cs (x86_putch B (of_char ch) s))"

section \<open>Memory and the multiprocessor table\<close>

text \<open>The heap is what is above the program, whose end is \<open>pend\<close>; CMOS has the size in blocks of 64 KiB above 16 MiB.\<close>

definition x86_heap_init :: "'s port_bus \<Rightarrow> u32 \<Rightarrow> 's \<Rightarrow> (u32 \<times> u32) \<times> 's" where
  "x86_heap_init B pend s =
     (let s = pb_outb B 0x70 0x34 s; (lo, s) = pb_inb B 0x71 s;
          s = pb_outb B 0x70 0x35 s; (hi, s) = pb_inb B 0x71 s;
          hi = ucast hi + 1 :: u32 in
      (((pend + push_bit 20 1 - 1) AND NOT (push_bit 20 1 - 1), push_bit 16 (ucast lo OR push_bit 8 hi)), s))"

definition MAX_CPU :: nat where
  "MAX_CPU = 8"

definition mpconf_size :: nat where
  "mpconf_size = 44"

text \<open>The entries of a table of \<open>len\<close> bytes, from offset \<open>off\<close> on; the counter is checked after each processor.\<close>

function count_cpus :: "bmem \<Rightarrow> u32 \<Rightarrow> nat \<Rightarrow> nat \<Rightarrow> nat \<Rightarrow> nat res" where
  "count_cpus m conf len off ncpu =
     (if off < len then
        if m (conf + of_nat off) = 0
        then guardR (Suc ncpu \<le> MAX_CPU) Panic (count_cpus m conf len (off + 12 + 8) (Suc ncpu))
        else count_cpus m conf len (off + 8) ncpu
      else Inr ncpu)"
  by pat_completeness auto
termination by (relation "measure (\<lambda>(m, conf, len, off, ncpu). len - off)") auto

declare count_cpus.simps [simp del]

text \<open>The search from \<open>st\<close> over \<open>n\<close> bytes; the result is the address of the local controller and the number of processors.\<close>

fun find_mp :: "bmem \<Rightarrow> nat \<Rightarrow> u32 \<Rightarrow> nat \<Rightarrow> (u32 \<times> nat) res" where
  "find_mp m ncpu st 0 = Inl Panic"
| "find_mp m ncpu st (Suc n) =
     (if load_u32 st m = 0x5f504d5f then
        let conf = load_u32 (st + 4) m; len = unat (le_word (get_bytes (conf + 4) 2 m) :: u16) in
        bindR (count_cpus m conf len mpconf_size ncpu) (\<lambda>ncpu. Inr (load_u32 (conf + 36) m, ncpu))
      else find_mp m ncpu (st + 1) n)"

definition x86_lapic_init :: "bmem \<Rightarrow> nat \<Rightarrow> (u32 \<times> nat) res" where
  "x86_lapic_init m ncpu = find_mp m ncpu 0xf0000 (0xffffff - 0xf0000)"

definition x86_percpu_initirq :: "'s apic_bus \<Rightarrow> 's \<Rightarrow> 's" where
  "x86_percpu_initirq A s = x86_ioapic_enable A 4 0 (x86_ioapic_enable A 1 0 s)"

section \<open>Processors\<close>

definition x86_xchg :: "u32 \<Rightarrow> u32 \<Rightarrow> bmem \<Rightarrow> u32 \<times> bmem" where
  "x86_xchg a v m = (load_u32 a m, store_u32 a v m)"

text \<open>The code at the boot record.\<close>

definition jmp_boot :: u32 where "jmp_boot = 0x000bfde9"
definition jmp_self :: u32 where "jmp_self = 0x0000feeb"

text \<open>
  Waiting for a started processor; between two attempts the other processors run (\<open>others\<close>). \<open>ready\<close> is the
  address of \<^verbatim>\<open>ap_ready\<close>.
\<close>

partial_function (option) wait_ap :: "u32 \<Rightarrow> (bmem \<times> 's \<Rightarrow> bmem \<times> 's) \<Rightarrow> bmem \<times> 's \<Rightarrow> (bmem \<times> 's) option" where
  "wait_ap ready others p =
     (let (v, m) = x86_xchg ready 0 (fst p) in
      if v \<noteq> 1 then wait_ap ready others (others (m, snd p)) else Some (m, snd p))"

fun boot_aps :: "'s port_bus \<Rightarrow> 's apic_bus \<Rightarrow> u32 \<Rightarrow> (bmem \<times> 's \<Rightarrow> bmem \<times> 's) \<Rightarrow> nat \<Rightarrow> nat \<Rightarrow> bmem \<times> 's \<Rightarrow> (bmem \<times> 's) option" where
  "boot_aps B A ready others cpu 0 p = Some p"
| "boot_aps B A ready others cpu (Suc n) p =
     (let m = store_u32 (BOOTREC_ADDR + 4) 1 (fst p) in
      case wait_ap ready others (x86_lapic_bootap B A (of_nat cpu) BOOTREC_ADDR (m, snd p)) of
        None \<Rightarrow> None
      | Some p \<Rightarrow> boot_aps B A ready others (Suc cpu) n p)"

text \<open>
  \<^verbatim>\<open>mpe_init\<close> until the entry of the program, which it notes for the other processors, is called on the first one.
\<close>

definition x86_mpe_init :: "'s port_bus \<Rightarrow> 's apic_bus \<Rightarrow> u32 \<Rightarrow> (bmem \<times> 's \<Rightarrow> bmem \<times> 's) \<Rightarrow> nat \<Rightarrow> bmem \<times> 's \<Rightarrow> (bmem \<times> 's) option" where
  "x86_mpe_init B A ready others ncpu p =
     boot_aps B A ready others 1 (ncpu - 1) (store_u32 BOOTREC_ADDR jmp_boot (fst p), snd p)"

fun stop_others :: "'s port_bus \<Rightarrow> 's apic_bus \<Rightarrow> nat \<Rightarrow> nat \<Rightarrow> bmem \<times> 's \<Rightarrow> bmem \<times> 's" where
  "stop_others B A cpu 0 p = p"
| "stop_others B A cpu (Suc n) p =
     (let (c, s) = x86_cpu_current A (snd p); p = (fst p, s) in
      stop_others B A (Suc cpu) n
        (if of_nat cpu \<noteq> c then x86_lapic_bootap B A (of_nat cpu) BOOTREC_ADDR p else p))"

definition x86_stop_the_world :: "'s port_bus \<Rightarrow> 's apic_bus \<Rightarrow> nat \<Rightarrow> bmem \<times> 's \<Rightarrow> bmem \<times> 's" where
  "x86_stop_the_world B A ncpu p = stop_others B A 0 ncpu (store_u32 BOOTREC_ADDR jmp_self (fst p), snd p)"

text \<open>
  \<^verbatim>\<open>halt\<close> until the processor stops; the instruction \<^verbatim>\<open>outw\<close> is an argument. The interrupt flag, which it clears
  first, is not part of this state.
\<close>

definition x86_halt :: "'s port_bus \<Rightarrow> 's apic_bus \<Rightarrow> (u16 \<Rightarrow> u16 \<Rightarrow> 's \<Rightarrow> 's) \<Rightarrow> nat \<Rightarrow> u32 \<Rightarrow> bmem \<times> 's \<Rightarrow> (bmem \<times> 's) res" where
  "x86_halt B A pb_outw ncpu code p =
     (let (m, s) = x86_stop_the_world B A ncpu p in
      bindR (halt_chars B A code (''CPU #$ Halt (40).'' @ [CHR 0x0A]) s) (\<lambda>s.
      Inr (m, pb_outw 0x604 0x2000 s)))"

end
