(* ===== verification/X86_TRM_Correct.thy ===== *)
theory X86_TRM_Correct
  imports X86_TRM X86_Disk_Correct
begin

text \<open>The multiprocessor table lists the processors that are counted, and the size of memory.\<close>

section \<open>The multiprocessor table\<close>

datatype mp_entry = Cpu_entry "u8 list" | Other_entry u8 "u8 list"

fun entry_bytes :: "mp_entry \<Rightarrow> u8 list" where
  "entry_bytes (Cpu_entry bs) = 0 # bs"
| "entry_bytes (Other_entry t bs) = t # bs"

fun entry_ok :: "mp_entry \<Rightarrow> bool" where
  "entry_ok (Cpu_entry bs) \<longleftrightarrow> length bs = 19"
| "entry_ok (Other_entry t bs) \<longleftrightarrow> t \<noteq> 0 \<and> length bs = 7"

fun is_cpu :: "mp_entry \<Rightarrow> bool" where
  "is_cpu (Cpu_entry bs) = True"
| "is_cpu (Other_entry t bs) = False"

definition table_bytes :: "mp_entry list \<Rightarrow> u8 list" where
  "table_bytes es = concat (map entry_bytes es)"

lemma count_cpus_table:
  "list_all entry_ok es \<Longrightarrow> get_bytes (conf + of_nat off) (length (table_bytes es)) m = table_bytes es \<Longrightarrow> k \<le> MAX_CPU \<Longrightarrow>
   count_cpus m conf (off + length (table_bytes es)) off k =
     (if k + length (filter is_cpu es) \<le> MAX_CPU then Inr (k + length (filter is_cpu es)) else Inl Panic)"
proof (induction es arbitrary: off k)
  case Nil
  then show ?case by (subst count_cpus.simps) (simp add: table_bytes_def)
next
  case (Cons e es)
  define n where "n = length (entry_bytes e)"
  have t: "table_bytes (e # es) = entry_bytes e @ table_bytes es" by (simp add: table_bytes_def)
  have g: "get_bytes (conf + of_nat off) n m = entry_bytes e"
    "get_bytes (conf + of_nat (off + n)) (length (table_bytes es)) m = table_bytes es"
    using Cons.prems(2) by (simp_all add: t n_def get_bytes_append append_eq_append_conv add.assoc)
  have l: "off + length (table_bytes (e # es)) = off + n + length (table_bytes es)" by (simp add: t n_def)
  have ok: "list_all entry_ok es" "entry_ok e" using Cons.prems(1) by simp_all
  have first: "m (conf + of_nat off) = hd (entry_bytes e)"
    using g(1) by (cases e) (auto simp: n_def)
  show ?case
  proof (cases e)
    case (Cpu_entry bs)
    then have n: "n = 20" "m (conf + of_nat off) = 0" using ok(2) first by (simp_all add: n_def)
    have s: "count_cpus m conf (off + length (table_bytes (e # es))) off k =
        guardR (Suc k \<le> MAX_CPU) Panic (count_cpus m conf (off + n + length (table_bytes es)) (off + n) (Suc k))"
      unfolding l using n by (subst count_cpus.simps) (simp add: add.commute)
    show ?thesis
    proof (cases "Suc k \<le> MAX_CPU")
      case True
      from Cons.IH [OF ok(1) g(2) this] show ?thesis unfolding s using True Cpu_entry by simp
    next
      case False
      then show ?thesis unfolding s using Cpu_entry by simp
    qed
  next
    case (Other_entry ty bs)
    then have n: "n = 8" "m (conf + of_nat off) \<noteq> 0" using ok(2) first by (simp_all add: n_def)
    have s: "count_cpus m conf (off + length (table_bytes (e # es))) off k =
        count_cpus m conf (off + n + length (table_bytes es)) (off + n) k"
      unfolding l using n by (subst count_cpus.simps) (simp add: add.commute)
    show ?thesis unfolding s using Cons.IH [OF ok(1) g(2) Cons.prems(3)] Other_entry by simp
  qed
qed

lemma find_mp_first:
  "(\<And>j. j < i \<Longrightarrow> load_u32 (st + of_nat j) m \<noteq> 0x5f504d5f) \<Longrightarrow> load_u32 (st + of_nat i) m = 0x5f504d5f \<Longrightarrow> i < n \<Longrightarrow>
   find_mp m k st n =
     (let conf = load_u32 (st + of_nat i + 4) m; len = unat (le_word (get_bytes (conf + 4) 2 m) :: u16) in
      bindR (count_cpus m conf len mpconf_size k) (\<lambda>ncpu. Inr (load_u32 (conf + 36) m, ncpu)))"
proof (induction i arbitrary: st n)
  case 0
  then show ?case by (cases n) simp_all
next
  case (Suc i)
  obtain n' where n: "n = Suc n'" using Suc.prems(3) by (cases n) auto
  have a: "load_u32 (st + 1 + of_nat j) m \<noteq> 0x5f504d5f" if "j < i" for j
    using Suc.prems(1) [of "Suc j"] that by (simp add: add.assoc)
  have b: "load_u32 (st + 1 + of_nat i) m = 0x5f504d5f" using Suc.prems(2) by (simp add: add.assoc)
  have c: "i < n'" using Suc.prems(3) n by simp
  have z: "load_u32 st m \<noteq> 0x5f504d5f" using Suc.prems(1) [of 0] by simp
  show ?case using Suc.IH [OF a b c] z by (simp add: n add.assoc)
qed

lemma lapic_init_table:
  assumes "i < 0xffffff - 0xf0000" "load_u32 (0xf0000 + of_nat i) m = 0x5f504d5f"
    and "\<And>j. j < i \<Longrightarrow> load_u32 (0xf0000 + of_nat j) m \<noteq> 0x5f504d5f"
    and "conf = load_u32 (0xf0000 + of_nat i + 4) m" "list_all entry_ok es"
    and "unat (le_word (get_bytes (conf + 4) 2 m) :: u16) = 44 + length (table_bytes es)"
    and "get_bytes (conf + 44) (length (table_bytes es)) m = table_bytes es"
  shows "x86_lapic_init m 0 =
    (if length (filter is_cpu es) \<le> 8 then Inr (load_u32 (conf + 36) m, length (filter is_cpu es)) else Inl Panic)"
proof -
  have "get_bytes (conf + of_nat 44) (length (table_bytes es)) m = table_bytes es" using assms(7) by simp
  from count_cpus_table [OF assms(5) this, of 0] have
    "count_cpus m conf (44 + length (table_bytes es)) 44 0 =
      (if length (filter is_cpu es) \<le> 8 then Inr (length (filter is_cpu es)) else Inl Panic)"
    by (simp add: MAX_CPU_def)
  then show ?thesis
    using find_mp_first [OF assms(3,2,1), of 0] assms(4,6) by (simp add: x86_lapic_init_def mpconf_size_def Let_def)
qed

section \<open>Memory\<close>

text \<open>The CMOS registers 0x34 and 0x35 hold the number of blocks of 64 KiB above 16 MiB.\<close>

lemma heap_end:
  fixes lo hi :: u8
  assumes "unat hi < 255"
  shows "unat (push_bit 16 (ucast lo OR push_bit 8 (ucast hi + 1)) :: u32) = 2 ^ 24 + 2 ^ 16 * (unat lo + 2 ^ 8 * unat hi)"
proof -
  define l h where "l = unat lo" and "h = unat hi"
  have l: "l < 256" using unsigned_less [of lo] by (simp add: l_def)
  have h1: "unat (ucast hi + 1 :: u32) = h + 1"
    using assms by (subst unat_word_ariths(1)) (simp add: unsigned_ucast_eq take_bit_nat_eq_self h_def)
  have ul: "unat (ucast lo :: u32) = l" using l by (simp add: unsigned_ucast_eq take_bit_nat_eq_self l_def)
  have e: "(ucast lo OR push_bit 8 (ucast hi + 1) :: u32) = ucast lo + push_bit 8 (ucast hi + 1)"
    by (rule disjunctive_add [symmetric]) (auto simp: bit_simps dest!: bit_imp_le_length)
  have p: "unat (push_bit 8 (ucast hi + 1) :: u32) = 256 * (h + 1)"
    using h1 assms by (simp add: unsigned_push_bit_eq push_bit_nat_def take_bit_nat_eq_self h_def)
  have s: "unat (ucast lo + push_bit 8 (ucast hi + 1) :: u32) = l + 256 * (h + 1)"
    using assms l by (subst unat_word_ariths(1), subst ul, subst p) (simp add: h_def)
  have "unat (push_bit 16 (ucast lo OR push_bit 8 (ucast hi + 1)) :: u32) = (l + 256 * (h + 1)) * 2 ^ 16"
    using assms l s e by (simp add: unsigned_push_bit_eq push_bit_nat_def take_bit_nat_eq_self h_def)
  then show ?thesis by (simp add: l_def h_def)
qed

end
