(* ===== verification/X86_GPU.thy ===== *)
theory X86_GPU
  imports X86_Disk
begin

text \<open>
  The screen of the x86 machine (\<^verbatim>\<open>am/src/x86/qemu/ioe.c\<close>): drawing into the frame buffer, copying to
  the video memory, and rendering a tree of canvases that a program has put there. All of them work on
  the bytes of memory; a pixel has three. The addresses of \<^verbatim>\<open>vmem\<close> and \<^verbatim>\<open>vbuf\<close> are parameters. The \<^verbatim>\<open>int\<close>
  arithmetic of rendering overflows where C's does (\<open>Undef\<close>), the arithmetic on addresses is modular, and the bound of a loop over a
  canvas is read from memory when the loop starts.
\<close>

section \<open>State\<close>

definition VMEM_SIZE :: u32 where
  "VMEM_SIZE = push_bit 10 512"

record gpu_env =
  vmem :: u32
  vbuf :: u32

record gpu_state =
  disp_w :: u16
  disp_h :: u16
  gpu_fb :: u32

definition gpu_init :: "bmem \<Rightarrow> gpu_state" where
  "gpu_init m = \<lparr>disp_w = le_word (get_bytes 0x4012 2 m), disp_h = le_word (get_bytes 0x4014 2 m),
     gpu_fb = load_u32 0x4028 m\<rparr>"

text \<open>Width, height and size of the video memory.\<close>

definition x86_gpu_config :: "gpu_state \<Rightarrow> bool \<times> int \<times> int \<times> int" where
  "x86_gpu_config g = (True, uint (disp_w g), uint (disp_h g), uint VMEM_SIZE)"

section \<open>Drawing\<close>

definition pixel_bytes :: "u32 \<Rightarrow> u8 list" where
  "pixel_bytes p = [ucast p, ucast (drop_bit 8 p), ucast (drop_bit 16 p)]"

record x86_fbdraw =
  dr_x :: int
  dr_y :: int
  dr_pixels :: u32
  dr_w :: int
  dr_h :: int

fun x86_draw_row :: "u32 \<Rightarrow> u32 \<Rightarrow> nat \<Rightarrow> bmem \<Rightarrow> bmem" where
  "x86_draw_row px pixels 0 m = m"
| "x86_draw_row px pixels (Suc n) m =
     x86_draw_row (px + 3) (pixels + 4) n (put_bytes px (pixel_bytes (load_u32 pixels m)) m)"

fun x86_draw_rows :: "gpu_state \<Rightarrow> x86_fbdraw \<Rightarrow> u32 \<Rightarrow> int \<Rightarrow> nat \<Rightarrow> bmem \<Rightarrow> bmem" where
  "x86_draw_rows g d pixels j 0 m = m"
| "x86_draw_rows g d pixels j (Suc n) m =
     (let W = uint (disp_w g); H = uint (disp_h g);
          len = (if W \<le> dr_x d + dr_w d then W - dr_x d else dr_w d);
          m = (if dr_y d + j < H
               then x86_draw_row (gpu_fb g + 3 * of_int (dr_x d + (j + dr_y d) * W)) pixels (nat len) m else m) in
      x86_draw_rows g d (pixels + 4 * of_int (dr_w d)) (j + 1) n m)"

definition x86_gpu_fbdraw :: "gpu_state \<Rightarrow> x86_fbdraw \<Rightarrow> bmem \<Rightarrow> bmem" where
  "x86_gpu_fbdraw g d m = x86_draw_rows g d (dr_pixels d) 0 (nat (dr_h d)) m"

section \<open>Video memory\<close>

definition to_host :: "gpu_env \<Rightarrow> u32 \<Rightarrow> u32" where
  "to_host e ptr = (if ptr = 0xffffffff then 0 else vmem e + ptr)"

fun gpu_copy :: "u32 \<Rightarrow> u32 \<Rightarrow> nat \<Rightarrow> bmem \<Rightarrow> bmem" where
  "gpu_copy dst src 0 m = m"
| "gpu_copy dst src (Suc n) m = gpu_copy (dst + 1) (src + 1) n (m(dst := m src))"

definition x86_gpu_memcpy :: "gpu_env \<Rightarrow> u32 \<Rightarrow> u32 \<Rightarrow> int \<Rightarrow> bmem \<Rightarrow> bmem" where
  "x86_gpu_memcpy e dest src n m = gpu_copy (to_host e dest) src (nat n) m"

text \<open>Allocation in \<^verbatim>\<open>vbuf\<close>; the state is the head of the free part and memory.\<close>

definition vbuf_alloc :: "gpu_env \<Rightarrow> u32 \<Rightarrow> u32 \<times> bmem \<Rightarrow> (u32 \<times> u32 \<times> bmem) res" where
  "vbuf_alloc e n p =
     (case p of (head, m) \<Rightarrow>
      let head' = head + n in
      guardR (head' \<le> vbuf e + VMEM_SIZE) Panic
       (Inr (head, head', zero_bytes head (nat (sint n)) m)))"

section \<open>Rendering\<close>

text \<open>The members of a canvas at an address.\<close>

definition cv_type :: "bmem \<Rightarrow> u32 \<Rightarrow> u16" where "cv_type m c = le_word (get_bytes c 2 m)"
definition cv_w :: "bmem \<Rightarrow> u32 \<Rightarrow> u16" where "cv_w m c = le_word (get_bytes (c + 2) 2 m)"
definition cv_h :: "bmem \<Rightarrow> u32 \<Rightarrow> u16" where "cv_h m c = le_word (get_bytes (c + 4) 2 m)"
definition cv_x1 :: "bmem \<Rightarrow> u32 \<Rightarrow> u16" where "cv_x1 m c = le_word (get_bytes (c + 6) 2 m)"
definition cv_y1 :: "bmem \<Rightarrow> u32 \<Rightarrow> u16" where "cv_y1 m c = le_word (get_bytes (c + 8) 2 m)"
definition cv_w1 :: "bmem \<Rightarrow> u32 \<Rightarrow> u16" where "cv_w1 m c = le_word (get_bytes (c + 10) 2 m)"
definition cv_h1 :: "bmem \<Rightarrow> u32 \<Rightarrow> u16" where "cv_h1 m c = le_word (get_bytes (c + 12) 2 m)"
definition cv_sibling :: "bmem \<Rightarrow> u32 \<Rightarrow> u32" where "cv_sibling m c = load_u32 (c + 14) m"
definition cv_child :: "bmem \<Rightarrow> u32 \<Rightarrow> u32" where "cv_child m c = load_u32 (c + 18) m"
definition tex_w :: "bmem \<Rightarrow> u32 \<Rightarrow> u16" where "tex_w m c = le_word (get_bytes (c + 18) 2 m)"
definition tex_h :: "bmem \<Rightarrow> u32 \<Rightarrow> u16" where "tex_h m c = le_word (get_bytes (c + 20) 2 m)"
definition tex_pixels :: "bmem \<Rightarrow> u32 \<Rightarrow> u32" where "tex_pixels m c = load_u32 (c + 22) m"

definition AM_GPU_TEXTURE :: u16 where "AM_GPU_TEXTURE = 1"
definition AM_GPU_SUBTREE :: u16 where "AM_GPU_SUBTREE = 2"

text \<open>
  The loops that scale the local pixels, \<open>w\<close> by \<open>h\<close> at \<open>loc\<close>, into the box of the canvas: columns \<open>i\<close>, rows \<open>j\<close>.
  Every product and sum is one of \<^verbatim>\<open>int\<close>, and a box may be so large that \<^verbatim>\<open>j * h\<close> is none.
\<close>

definition fits_int :: "int \<Rightarrow> bool" where
  "fits_int n \<longleftrightarrow> - (2 ^ 31) \<le> n \<and> n < 2 ^ 31"

definition scale_pixel :: "u32 \<Rightarrow> int \<Rightarrow> u32 \<Rightarrow> u32 \<Rightarrow> int \<Rightarrow> int \<Rightarrow> int \<Rightarrow> int \<Rightarrow> bmem \<Rightarrow> bmem res" where
  "scale_pixel c W px loc w h i j m =
     (let x = uint (cv_x1 m c) + i; y = uint (cv_y1 m c) + j; h1 = uint (cv_h1 m c); w1 = uint (cv_w1 m c) in
      guardR (fits_int x \<and> fits_int y \<and> fits_int (W * y) \<and> fits_int (W * y + x)) Undef
       (guardR (h1 \<noteq> 0 \<and> w1 \<noteq> 0 \<and> fits_int (j * h) \<and> fits_int (i * w)) Undef
         (let row = w * (j * h div h1); src = row + i * w div w1 in
          guardR (fits_int row \<and> fits_int src) Undef
           (Inr (put_bytes (px + 3 * of_int (W * y + x)) (get_bytes (loc + 3 * of_int src) 3 m) m)))))"

fun scale_column :: "u32 \<Rightarrow> int \<Rightarrow> u32 \<Rightarrow> u32 \<Rightarrow> int \<Rightarrow> int \<Rightarrow> int \<Rightarrow> int \<Rightarrow> nat \<Rightarrow> bmem \<Rightarrow> bmem res" where
  "scale_column c W px loc w h i j 0 m = Inr m"
| "scale_column c W px loc w h i j (Suc n) m =
     bindR (scale_pixel c W px loc w h i j m) (scale_column c W px loc w h i (j + 1) n)"

fun scale_columns :: "u32 \<Rightarrow> int \<Rightarrow> u32 \<Rightarrow> u32 \<Rightarrow> int \<Rightarrow> int \<Rightarrow> int \<Rightarrow> nat \<Rightarrow> bmem \<Rightarrow> bmem res" where
  "scale_columns c W px loc w h i 0 m = Inr m"
| "scale_columns c W px loc w h i (Suc n) m =
     bindR (scale_column c W px loc w h i 0 (unat (cv_h1 m c)) m) (scale_columns c W px loc w h (i + 1) n)"

definition scale_canvas :: "u32 \<Rightarrow> int \<Rightarrow> u32 \<Rightarrow> u32 \<Rightarrow> int \<Rightarrow> int \<Rightarrow> bmem \<Rightarrow> bmem res" where
  "scale_canvas c W px loc w h m = scale_columns c W px loc w h 0 (unat (cv_w1 m c)) m"

text \<open>
  \<^verbatim>\<open>render\<close> of the canvas at \<open>c\<close> into pixels of width \<open>W\<close> at \<open>px\<close>, and of the siblings from \<open>c\<close> on. A tree that
  is not one exhausts the stack or never ends: both functions have fuel, and \<open>Undef\<close> without it.
\<close>

fun render :: "nat \<Rightarrow> gpu_env \<Rightarrow> u32 \<Rightarrow> int \<Rightarrow> u32 \<Rightarrow> u32 \<times> bmem \<Rightarrow> (u32 \<times> bmem) res"
  and render_siblings :: "nat \<Rightarrow> gpu_env \<Rightarrow> u32 \<Rightarrow> u32 \<Rightarrow> u32 \<Rightarrow> u32 \<times> bmem \<Rightarrow> (u32 \<times> bmem) res" where
  "render 0 e c W px (head, m) = Inl Undef"
| "render (Suc f) e c W px (head, m) =
     (if cv_type m c = AM_GPU_TEXTURE then
        let w = uint (tex_w m c); h = uint (tex_h m c); loc = to_host e (tex_pixels m c) in
        bindR (scale_canvas c W px loc w h m) (\<lambda>m. Inr (head, m))
      else if cv_type m c = AM_GPU_SUBTREE then
        let w = uint (cv_w m c); h = uint (cv_h m c) in
        guardR (fits_int (w * h)) Undef
         (bindR (vbuf_alloc e (of_int (w * h) * 3) (head, m)) (\<lambda>(loc, head, m).
          bindR (render_siblings f e (to_host e (cv_child m c)) c loc (head, m)) (\<lambda>(head, m).
          bindR (scale_canvas c W px loc w h m) (\<lambda>m. Inr (head, m)))))
      else Inl Panic)"
| "render_siblings f e ch c loc (head, m) =
     (if ch = 0 then Inr (head, m)
      else case f of 0 \<Rightarrow> Inl Undef | Suc f \<Rightarrow>
        bindR (render f e ch (uint (cv_w m c)) loc (head, m)) (\<lambda>(head, m).
        render_siblings f e (to_host e (cv_sibling m ch)) c loc (head, m)))"

definition x86_gpu_render :: "nat \<Rightarrow> gpu_env \<Rightarrow> gpu_state \<Rightarrow> u32 \<Rightarrow> bmem \<Rightarrow> (u32 \<times> bmem) res" where
  "x86_gpu_render f e g root m = render f e (to_host e root) (uint (disp_w g)) (gpu_fb g) (vbuf e, m)"

end
