(* ===== verification/X86_GPU_Correct.thy ===== *)
theory X86_GPU_Correct
  imports X86_GPU X86_Disk_Correct
begin

text \<open>
  What is drawn on the x86 screen. A rectangle is clipped at the right and lower border. A tree of canvases
  denotes an operation on images, and rendering the tree in memory performs it on the pixels of the screen.
\<close>

section \<open>Pixels in memory\<close>

text \<open>The \<open>n\<close>-th pixel at an address, and a region of memory.\<close>

definition pix_at :: "u32 \<Rightarrow> nat \<Rightarrow> bmem \<Rightarrow> u8 list" where
  "pix_at p n m = get_bytes (p + 3 * of_nat n) 3 m"

definition region :: "u32 \<Rightarrow> nat \<Rightarrow> u32 set" where
  "region a n = {x. unat a \<le> unat x \<and> unat x < unat a + n}"

text \<open>The address of byte \<open>k\<close> of a pixel.\<close>

definition pxa :: "u32 \<Rightarrow> nat \<Rightarrow> nat \<Rightarrow> u32" where
  "pxa p n k = p + of_nat (3 * n + k)"

lemma unat_pxa: "\<lbrakk>unat p + 3 * N \<le> 2 ^ 32; n < N; k < 3\<rbrakk> \<Longrightarrow> unat (pxa p n k) = unat p + 3 * n + k"
proof -
  assume a: "unat p + 3 * N \<le> 2 ^ 32" "n < N" "k < 3"
  then have b: "unat p + (3 * n + k) < 2 ^ LENGTH(32)" by simp
  have u: "unat (of_nat (3 * n + k) :: u32) = 3 * n + k"
    using b by (simp only: unat_of_nat) simp
  show ?thesis unfolding pxa_def by (subst unat_word_ariths(1), subst u) (use b in simp)
qed

lemma pxa_eq:
  assumes "unat p + 3 * N \<le> 2 ^ 32" "n < N" "n' < N" "k < 3" "l < 3"
  shows "pxa p n' k = pxa p n l \<longleftrightarrow> n' = n \<and> k = l"
proof -
  have "3 * n' + k = 3 * n + l \<longleftrightarrow> n' = n \<and> k = l" using assms(4,5) by presburger
  then show ?thesis
    unfolding word_unat_eq_iff unat_pxa [OF assms(1,3,4)] unat_pxa [OF assms(1,2,5)] by simp
qed

lemma pxa_region: "\<lbrakk>unat p + 3 * N \<le> 2 ^ 32; n < N; k < 3\<rbrakk> \<Longrightarrow> pxa p n k \<in> region p (3 * N)"
  using unat_pxa [of p N n k] by (simp add: region_def)

lemma get_bytes_3: "get_bytes a 3 m = [m a, m (a + 1), m (a + 2)]"
proof -
  have three: "(3 :: nat) = Suc (Suc (Suc 0))" by simp
  show ?thesis by (simp only: three get_bytes.simps) (simp add: add.assoc)
qed

lemma pix_at_addrs: "pix_at p n m = [m (pxa p n 0), m (pxa p n 1), m (pxa p n 2)]"
  by (simp add: pix_at_def get_bytes_3 pxa_def add_ac)

lemma three_bytes: "length bs = 3 \<Longrightarrow> bs = [bs ! 0, bs ! 1, bs ! 2]"
  by (cases bs; cases "tl bs"; cases "tl (tl bs)") auto

lemma put_pixel:
  assumes "length bs = 3"
  shows "put_bytes (p + 3 * of_nat n) bs m = m(pxa p n 0 := bs ! 0, pxa p n 1 := bs ! 1, pxa p n 2 := bs ! 2)"
proof -
  obtain b0 b1 b2 where bs: "bs = [b0, b1, b2]" using three_bytes [OF assms] by blast
  show ?thesis by (simp add: bs pxa_def add_ac)
qed

lemma put_pixel_get:
  assumes "unat p + 3 * N \<le> 2 ^ 32" "n < N" "n' < N" "length bs = 3"
  shows "pix_at p n' (put_bytes (p + 3 * of_nat n) bs m) = (if n' = n then bs else pix_at p n' m)"
  using three_bytes [OF assms(4)]
  by (simp add: pix_at_addrs put_pixel [OF assms(4)] pxa_eq [OF assms(1-3)] pxa_eq [OF assms(1,2,2)])

lemma put_pixel_other:
  assumes "unat p + 3 * N \<le> 2 ^ 32" "n < N" "length bs = 3" "a \<notin> region p (3 * N)"
  shows "put_bytes (p + 3 * of_nat n) bs m a = m a"
  using pxa_region [OF assms(1,2), of 0] pxa_region [OF assms(1,2), of 1] pxa_region [OF assms(1,2), of 2] assms(4)
  by (auto simp: put_pixel [OF assms(3)])

lemma pix_at_cong:
  assumes "unat p + 3 * N \<le> 2 ^ 32" "n < N" "\<And>a. a \<in> region p (3 * N) \<Longrightarrow> m a = m' a"
  shows "pix_at p n m = pix_at p n m'"
  using assms(3) [OF pxa_region [OF assms(1,2)]] by (simp add: pix_at_addrs)

lemma length_pix_at [simp]: "length (pix_at p n m) = 3"
  by (simp add: pix_at_addrs)

section \<open>Writing a set of pixels\<close>

text \<open>
  Pixels written one after the other, each computed from memory by \<open>f\<close>, which does not look at the pixels
  themselves; a pixel may be skipped, \<open>f\<close> giving the pixel's number.
\<close>

fun put_pixels :: "u32 \<Rightarrow> ('i \<Rightarrow> nat) \<Rightarrow> ('i \<Rightarrow> bmem \<Rightarrow> u8 list) \<Rightarrow> 'i list \<Rightarrow> bmem \<Rightarrow> bmem" where
  "put_pixels p idx f [] m = m"
| "put_pixels p idx f (i # is) m = put_pixels p idx f is (put_bytes (p + 3 * of_nat (idx i)) (f i m) m)"

lemma put_pixels_ok:
  assumes "unat p + 3 * N \<le> 2 ^ 32"
    and "\<And>i m m'. i \<in> set is \<Longrightarrow> (\<And>a. a \<notin> region p (3 * N) \<Longrightarrow> m a = m' a) \<Longrightarrow> f i m = f i m'"
    and "\<And>i m. i \<in> set is \<Longrightarrow> length (f i m) = 3" "\<And>i. i \<in> set is \<Longrightarrow> idx i < N"
    and "inj_on idx (set is)" "distinct is"
  shows "(\<forall>i \<in> set is. pix_at p (idx i) (put_pixels p idx f is m) = f i m) \<and>
    (\<forall>n < N. n \<notin> idx ` set is \<longrightarrow> pix_at p n (put_pixels p idx f is m) = pix_at p n m) \<and>
    (\<forall>a. a \<notin> region p (3 * N) \<longrightarrow> put_pixels p idx f is m a = m a)"
  using assms(2-6)
proof (induction "is" arbitrary: m)
  case (Cons i "is")
  define m1 where "m1 = put_bytes (p + 3 * of_nat (idx i)) (f i m) m"
  have li: "length (f i m) = 3" "idx i < N" using Cons.prems(2,3) by simp_all
  have out: "m1 a = m a" if "a \<notin> region p (3 * N)" for a
    using put_pixel_other [OF assms(1) li(2,1) that] by (simp add: m1_def)
  have get: "pix_at p n m1 = (if n = idx i then f i m else pix_at p n m)" if "n < N" for n
    using put_pixel_get [OF assms(1) li(2) that li(1)] by (simp add: m1_def)
  have IH: "(\<forall>i \<in> set is. pix_at p (idx i) (put_pixels p idx f is m1) = f i m1) \<and>
    (\<forall>n < N. n \<notin> idx ` set is \<longrightarrow> pix_at p n (put_pixels p idx f is m1) = pix_at p n m1) \<and>
    (\<forall>a. a \<notin> region p (3 * N) \<longrightarrow> put_pixels p idx f is m1 a = m1 a)"
  proof (rule Cons.IH)
    show "f j m = f j m'" if "j \<in> set is" "\<And>a. a \<notin> region p (3 * N) \<Longrightarrow> m a = m' a" for j m m'
      by (rule Cons.prems(1)) (use that in auto)
  qed (use Cons.prems(2-5) in auto)
  have fm: "f j m1 = f j m" if "j \<in> set is" for j
    by (rule Cons.prems(1)) (use that out in auto)
  have ni: "idx i \<notin> idx ` set is" using Cons.prems(4,5) by (auto simp: inj_on_def)
  have r: "put_pixels p idx f (i # is) m = put_pixels p idx f is m1" by (simp add: m1_def)
  have "pix_at p (idx i) (put_pixels p idx f is m1) = f i m"
    using IH ni li(2) get by simp
  then show ?case unfolding r using IH fm get out by auto
qed simp

section \<open>Canvases in memory\<close>

lemma region_offset:
  assumes "unat c + n \<le> 2 ^ 32" "k < n"
  shows "c + of_nat k \<in> region c n"
proof -
  have u: "unat (of_nat k :: u32) = k" using assms by (simp only: unat_of_nat) simp
  have "unat (c + of_nat k) = unat c + k" by (subst unat_word_ariths(1), subst u) (use assms in simp)
  then show ?thesis using assms(2) by (simp add: region_def)
qed

lemma get_bytes_region:
  assumes "unat c + n \<le> 2 ^ 32" "off + len \<le> n" "\<And>a. a \<in> region c n \<Longrightarrow> m' a = m a"
  shows "get_bytes (c + of_nat off) len m' = get_bytes (c + of_nat off) len m"
proof (rule get_bytes_cong)
  fix i assume "i < len"
  then have "c + of_nat (off + i) \<in> region c n" using assms(1,2) by (intro region_offset) simp_all
  then show "m' (c + of_nat off + of_nat i) = m (c + of_nat off + of_nat i)"
    using assms(3) by (simp add: add.assoc)
qed

lemmas cv_defs = cv_type_def cv_w_def cv_h_def cv_x1_def cv_y1_def cv_w1_def cv_h1_def cv_sibling_def cv_child_def
  tex_w_def tex_h_def tex_pixels_def load_u32_def

lemma cv_cong:
  assumes "unat c + 26 \<le> 2 ^ 32" "\<And>a. a \<in> region c 26 \<Longrightarrow> m' a = m a"
  shows "cv_type m' c = cv_type m c" "cv_w m' c = cv_w m c" "cv_h m' c = cv_h m c" "cv_x1 m' c = cv_x1 m c"
    "cv_y1 m' c = cv_y1 m c" "cv_w1 m' c = cv_w1 m c" "cv_h1 m' c = cv_h1 m c" "cv_sibling m' c = cv_sibling m c"
    "cv_child m' c = cv_child m c" "tex_w m' c = tex_w m c" "tex_h m' c = tex_h m c" "tex_pixels m' c = tex_pixels m c"
  using get_bytes_region [OF assms(1) _ assms(2), of 0 2] get_bytes_region [OF assms(1) _ assms(2), of 2 2]
    get_bytes_region [OF assms(1) _ assms(2), of 4 2] get_bytes_region [OF assms(1) _ assms(2), of 6 2]
    get_bytes_region [OF assms(1) _ assms(2), of 8 2] get_bytes_region [OF assms(1) _ assms(2), of 10 2]
    get_bytes_region [OF assms(1) _ assms(2), of 12 2] get_bytes_region [OF assms(1) _ assms(2), of 14 4]
    get_bytes_region [OF assms(1) _ assms(2), of 18 4] get_bytes_region [OF assms(1) _ assms(2), of 18 2]
    get_bytes_region [OF assms(1) _ assms(2), of 20 2] get_bytes_region [OF assms(1) _ assms(2), of 22 4]
  by (simp_all only: cv_defs of_nat_numeral of_nat_0 add_0_right semiring_norm) simp_all

section \<open>Scaling\<close>

lemma put_pixels_append: "put_pixels p idx f (xs @ ys) m = put_pixels p idx f ys (put_pixels p idx f xs m)"
  by (induction xs arbitrary: m) simp_all

text \<open>The box of a canvas, as numbers.\<close>

record cv_box =
  box_x :: nat
  box_y :: nat
  box_w :: nat
  box_h :: nat

definition box_of :: "bmem \<Rightarrow> u32 \<Rightarrow> cv_box" where
  "box_of m c = \<lparr>box_x = unat (cv_x1 m c), box_y = unat (cv_y1 m c), box_w = unat (cv_w1 m c), box_h = unat (cv_h1 m c)\<rparr>"

definition box_idx :: "nat \<Rightarrow> cv_box \<Rightarrow> nat \<times> nat \<Rightarrow> nat" where
  "box_idx W b = (\<lambda>(i, j). W * (box_y b + j) + (box_x b + i))"

definition box_src :: "u32 \<Rightarrow> nat \<Rightarrow> nat \<Rightarrow> cv_box \<Rightarrow> nat \<times> nat \<Rightarrow> bmem \<Rightarrow> u8 list" where
  "box_src loc w h b = (\<lambda>(i, j). pix_at loc (w * (j * h div box_h b) + i * w div box_w b))"

definition box_ok :: "nat \<Rightarrow> nat \<Rightarrow> cv_box \<Rightarrow> bool" where
  "box_ok W H b \<longleftrightarrow> box_x b + box_w b \<le> W \<and> box_y b + box_h b \<le> H"

lemma row_col_less: "x < W \<Longrightarrow> y < H \<Longrightarrow> W * y + x < W * (H :: nat)"
proof -
  assume "x < W" "y < H"
  then have "W * y + x < W * Suc y" by simp
  also have "\<dots> \<le> W * H" using \<open>y < H\<close> by (intro mult_le_mono2) simp
  finally show ?thesis .
qed

lemma nearest_less: "(i :: nat) < n \<Longrightarrow> 0 < w \<Longrightarrow> i * w div n < w"
  by (simp add: less_mult_imp_div_less mult.commute)

text \<open>
  Sizes at which the arithmetic of scaling \<open>w\<close> by \<open>h\<close> pixels into a box of a target of \<open>W\<close> by \<open>H\<close> stays in \<^verbatim>\<open>int\<close>.
\<close>

definition scale_fits :: "nat \<Rightarrow> nat \<Rightarrow> cv_box \<Rightarrow> bool" where
  "scale_fits w h b \<longleftrightarrow> (box_w b - 1) * w < 2 ^ 31 \<and> (box_h b - 1) * h < 2 ^ 31"

definition sizes_ok :: "nat \<Rightarrow> nat \<Rightarrow> nat \<Rightarrow> nat \<Rightarrow> cv_box \<Rightarrow> bool" where
  "sizes_ok W H w h b \<longleftrightarrow> box_ok W H b \<and> 3 * (W * H) \<le> 2 ^ 32 \<and> 0 < w \<and> 0 < h \<and> 3 * (w * h) \<le> 2 ^ 32 \<and> scale_fits w h b"

lemma fits_int_nat: "n < 2 ^ 31 \<Longrightarrow> fits_int (int n)"
proof -
  assume "n < 2 ^ 31"
  then have "int n < int (2 ^ 31)" by (simp only: of_nat_less_iff)
  then show ?thesis by (simp add: fits_int_def)
qed

lemma sizes_fit:
  assumes "sizes_ok W H w h b" "i < box_w b" "j < box_h b"
  shows "box_idx W b (i, j) < 2 ^ 31" "W * (box_y b + j) < 2 ^ 31" "box_y b + j < 2 ^ 31" "box_x b + i < 2 ^ 31"
    "j * h < 2 ^ 31" "i * w < 2 ^ 31"
    "w * (j * h div box_h b) + i * w div box_w b < 2 ^ 31" "w * (j * h div box_h b) < 2 ^ 31"
proof -
  note s = assms(1) [unfolded sizes_ok_def]
  have q: "W * H \<le> 1431655765" "w * h \<le> 1431655765" using s by simp_all
  have xy: "box_x b + i < W" "box_y b + j < H" using s assms(2,3) by (auto simp: box_ok_def)
  from row_col_less [OF this] have d: "W * (box_y b + j) + (box_x b + i) < 1431655766" using q(1) by simp
  then show "box_idx W b (i, j) < 2 ^ 31" "W * (box_y b + j) < 2 ^ 31" "box_x b + i < 2 ^ 31" by (simp_all add: box_idx_def)
  have "1 * (box_y b + j) \<le> W * (box_y b + j)" using xy by (intro mult_le_mono1) simp
  then have "box_y b + j \<le> W * (box_y b + j)" by (simp only: mult_1)
  then have "box_y b + j < 1431655766" using d by linarith
  then show "box_y b + j < 2 ^ 31" by simp
  have sc: "(box_w b - 1) * w < 2 ^ 31" "(box_h b - 1) * h < 2 ^ 31" using s unfolding scale_fits_def by blast+
  have "j \<le> box_h b - 1" "i \<le> box_w b - 1" using assms(2,3) by simp_all
  then show "j * h < 2 ^ 31" "i * w < 2 ^ 31" by (meson sc le_less_trans mult_le_mono1)+
  have "w * (j * h div box_h b) + i * w div box_w b < w * h"
    using assms(2,3) s by (intro row_col_less nearest_less) auto
  then have "w * (j * h div box_h b) + i * w div box_w b < 1431655766" using q(2) by simp
  then show "w * (j * h div box_h b) + i * w div box_w b < 2 ^ 31" "w * (j * h div box_h b) < 2 ^ 31" by simp_all
qed

lemma scale_pixel_put:
  assumes "box_of m c = b" "sizes_ok W H w h b" "i < box_w b" "j < box_h b"
  shows "scale_pixel c (int W) px loc (int w) (int h) (int i) (int j) m =
    Inr (put_bytes (px + 3 * of_nat (box_idx W b (i, j))) (box_src loc w h b (i, j) m) m)"
proof -
  have b: "uint (cv_x1 m c) = int (box_x b)" "uint (cv_y1 m c) = int (box_y b)" "uint (cv_w1 m c) = int (box_w b)"
    "uint (cv_h1 m c) = int (box_h b)" unfolding assms(1) [symmetric] by (simp_all add: box_of_def)
  have o: "(of_int (int n) :: u32) = of_nat n" for n by simp
  have n: "int (box_x b) + int i = int (box_x b + i)" "int (box_y b) + int j = int (box_y b + j)"
    "int W * int (box_y b + j) = int (W * (box_y b + j))" "int j * int h = int (j * h)" "int i * int w = int (i * w)"
    "int (j * h) div int (box_h b) = int (j * h div box_h b)" "int (i * w) div int (box_w b) = int (i * w div box_w b)"
    "int w * int (j * h div box_h b) = int (w * (j * h div box_h b))"
    "int (W * (box_y b + j)) + int (box_x b + i) = int (box_idx W b (i, j))"
    "int (w * (j * h div box_h b)) + int (i * w div box_w b) = int (w * (j * h div box_h b) + i * w div box_w b)"
    by (simp_all add: box_idx_def zdiv_int)
  note fit = sizes_fit [OF assms(2-4), THEN fits_int_nat]
  have z: "int (box_h b) \<noteq> 0" "int (box_w b) \<noteq> 0" using assms(3,4) by simp_all
  show ?thesis
    unfolding scale_pixel_def b Let_def n
    by (simp only: fit z guardR_True simp_thms o box_src_def prod.case pix_at_def)
qed

lemma row_col_eq: "x < W \<Longrightarrow> x' < W \<Longrightarrow> W * y + x = W * y' + x' \<longleftrightarrow> x = x' \<and> y = (y' :: nat)"
proof -
  assume x: "x < W" "x' < W"
  have "(W * y + x) div W = y" "(W * y + x) mod W = x" "(W * y' + x') div W = y'" "(W * y' + x') mod W = x'"
    using x by simp_all
  then show ?thesis by metis
qed

text \<open>Where rendering into a target may happen: the canvas's own bytes are elsewhere.\<close>

definition target_ok :: "u32 \<Rightarrow> nat \<Rightarrow> nat \<Rightarrow> u32 \<Rightarrow> bool" where
  "target_ok px W H c \<longleftrightarrow> unat px + 3 * (W * H) \<le> 2 ^ 32 \<and> unat c + 26 \<le> 2 ^ 32 \<and>
     region c 26 \<inter> region px (3 * (W * H)) = {}"

lemma box_of_target:
  assumes "target_ok px W H c" "\<And>a. a \<notin> region px (3 * (W * H)) \<Longrightarrow> m' a = m a"
  shows "box_of m' c = box_of m c"
proof -
  have "m' a = m a" if "a \<in> region c 26" for a using that assms by (auto simp: target_ok_def)
  then show ?thesis using cv_cong [of c m' m] assms(1) by (simp add: box_of_def target_ok_def)
qed

lemma scale_column_put:
  assumes "target_ok px W H c" "box_of m c = b" "sizes_ok W H w h b" "i < box_w b" "j + n \<le> box_h b"
  shows "scale_column c (int W) px loc (int w) (int h) (int i) (int j) n m =
      Inr (put_pixels px (box_idx W b) (box_src loc w h b) (map (Pair i) [j..<j + n]) m) \<and>
    (\<forall>a. a \<notin> region px (3 * (W * H)) \<longrightarrow> put_pixels px (box_idx W b) (box_src loc w h b) (map (Pair i) [j..<j + n]) m a = m a)"
  using assms(2,5)
proof (induction n arbitrary: j m)
  case (Suc n)
  define m1 where "m1 = put_bytes (px + 3 * of_nat (box_idx W b (i, j))) (box_src loc w h b (i, j) m) m"
  have p: "scale_pixel c (int W) px loc (int w) (int h) (int i) (int j) m = Inr m1"
    unfolding m1_def by (rule scale_pixel_put [OF Suc.prems(1) assms(3,4)]) (use Suc.prems(2) in simp)
  have "box_idx W b (i, j) < W * H"
    using assms(3,4) Suc.prems(2) by (auto simp: box_idx_def box_ok_def sizes_ok_def intro!: row_col_less)
  then have out: "m1 a = m a" if "a \<notin> region px (3 * (W * H))" for a
    using put_pixel_other [of px "W * H"] assms(1) that by (simp add: m1_def target_ok_def box_src_def)
  have b1: "box_of m1 c = b" using box_of_target [OF assms(1) out] Suc.prems(1) by simp
  have "Suc j + n \<le> box_h b" using Suc.prems(2) by simp
  note IH = Suc.IH [OF b1 this]
  have u: "map (Pair i) [j..<j + Suc n] = (i, j) # map (Pair i) [Suc j..<Suc j + n]"
    by (simp add: upt_conv_Cons del: upt_Suc)
  have s: "scale_column c (int W) px loc (int w) (int h) (int i) (int j) (Suc n) m =
      scale_column c (int W) px loc (int w) (int h) (int i) (int (Suc j)) n m1"
    using p by (simp add: add.commute)
  have r: "put_pixels px (box_idx W b) (box_src loc w h b) ((i, j) # map (Pair i) [Suc j..<Suc j + n]) m =
      put_pixels px (box_idx W b) (box_src loc w h b) (map (Pair i) [Suc j..<Suc j + n]) m1"
    by (simp add: m1_def)
  show ?case unfolding s u r using IH out by (auto simp del: upt_Suc)
qed simp

lemma scale_columns_put:
  assumes "target_ok px W H c" "box_of m c = b" "sizes_ok W H w h b" "i + n \<le> box_w b"
  shows "scale_columns c (int W) px loc (int w) (int h) (int i) n m =
      Inr (put_pixels px (box_idx W b) (box_src loc w h b) (List.product [i..<i + n] [0..<box_h b]) m)"
  using assms(2,4)
proof (induction n arbitrary: i m)
  case (Suc n)
  define m1 where "m1 = put_pixels px (box_idx W b) (box_src loc w h b) (map (Pair i) [0..<box_h b]) m"
  have h: "unat (cv_h1 m c) = box_h b" using Suc.prems(1) by (auto simp: box_of_def)
  have "i < box_w b" "0 + box_h b \<le> box_h b" using Suc.prems(2) by simp_all
  from scale_column_put [OF assms(1) Suc.prems(1) assms(3) this, of loc]
  have c: "scale_column c (int W) px loc (int w) (int h) (int i) 0 (box_h b) m = Inr m1"
    "\<And>a. a \<notin> region px (3 * (W * H)) \<Longrightarrow> m1 a = m a" unfolding m1_def by auto
  have b1: "box_of m1 c = b" using box_of_target [OF assms(1) c(2)] Suc.prems(1) by simp
  have "Suc i + n \<le> box_w b" using Suc.prems(2) by simp
  note IH = Suc.IH [OF b1 this]
  have u: "[i..<i + Suc n] = i # [Suc i..<Suc i + n]" by (simp add: upt_conv_Cons del: upt_Suc)
  have s: "scale_columns c (int W) px loc (int w) (int h) (int i) (Suc n) m =
      scale_columns c (int W) px loc (int w) (int h) (int (Suc i)) n m1"
    by (simp add: c(1) h add.commute)
  have r: "put_pixels px (box_idx W b) (box_src loc w h b) (List.product (i # [Suc i..<Suc i + n]) [0..<box_h b]) m =
      put_pixels px (box_idx W b) (box_src loc w h b) (List.product [Suc i..<Suc i + n] [0..<box_h b]) m1"
    unfolding m1_def by (simp add: put_pixels_append del: upt_Suc)
  show ?case unfolding s u r by (rule IH)
qed simp

text \<open>The pixels of the box come from the nearest local ones; all others are kept.\<close>

definition scaled :: "nat \<Rightarrow> nat \<Rightarrow> cv_box \<Rightarrow> (nat \<Rightarrow> nat \<Rightarrow> 'p) \<Rightarrow> (nat \<Rightarrow> nat \<Rightarrow> 'p) \<Rightarrow> nat \<Rightarrow> nat \<Rightarrow> 'p" where
  "scaled w h b src img x y =
     (if box_x b \<le> x \<and> x < box_x b + box_w b \<and> box_y b \<le> y \<and> y < box_y b + box_h b
      then src ((x - box_x b) * w div box_w b) ((y - box_y b) * h div box_h b) else img x y)"

lemma scale_canvas_ok:
  assumes "target_ok px W H c" "box_of m c = b" "box_ok W H b" "0 < w" "0 < h" "scale_fits w h b"
    and "unat loc + 3 * (w * h) \<le> 2 ^ 32" "region loc (3 * (w * h)) \<inter> region px (3 * (W * H)) = {}"
  shows "\<exists>m'. scale_canvas c (int W) px loc (int w) (int h) m = Inr m' \<and>
    (\<forall>x < W. \<forall>y < H. pix_at px (W * y + x) m' =
      scaled w h b (\<lambda>x y. pix_at loc (w * y + x) m) (\<lambda>x y. pix_at px (W * y + x) m) x y) \<and>
    (\<forall>a. a \<notin> region px (3 * (W * H)) \<longrightarrow> m' a = m a)"
proof -
  define L where "L = List.product [0..<box_w b] [0..<box_h b]"
  define m' where "m' = put_pixels px (box_idx W b) (box_src loc w h b) L m"
  have w1: "unat (cv_w1 m c) = box_w b" using assms(2) by (auto simp: box_of_def)
  have so: "sizes_ok W H w h b" using assms(1,3-7) by (auto simp: sizes_ok_def target_ok_def)
  have m': "scale_canvas c (int W) px loc (int w) (int h) m = Inr m'"
    using scale_columns_put [OF assms(1,2) so, of 0 "box_w b" loc] by (simp add: scale_canvas_def m'_def L_def w1)
  have N: "unat px + 3 * (W * H) \<le> 2 ^ 32" using assms(1) by (simp add: target_ok_def)
  have mem: "(i, j) \<in> set L \<longleftrightarrow> i < box_w b \<and> j < box_h b" for i j by (auto simp: L_def)
  have idx: "box_idx W b (i, j) < W * H" if "(i, j) \<in> set L" for i j
    using that assms(3) mem by (auto simp: box_idx_def box_ok_def intro!: row_col_less)
  have src: "box_src loc w h b (i, j) m1 = box_src loc w h b (i, j) m2"
    if ij: "(i, j) \<in> set L" and a: "\<And>a. a \<notin> region px (3 * (W * H)) \<Longrightarrow> m1 a = m2 a" for i j m1 m2
  proof -
    have "w * (j * h div box_h b) + i * w div box_w b < w * h"
      using ij mem nearest_less [of i "box_w b" w] nearest_less [of j "box_h b" h] assms(4,5) by (simp add: row_col_less)
    then show ?thesis unfolding box_src_def prod.case
      by (rule pix_at_cong [OF assms(7)]) (use a assms(8) in blast)
  qed
  have inj: "inj_on (box_idx W b) (set L)"
  proof (rule inj_onI)
    fix p q assume "p \<in> set L" "q \<in> set L" and e: "box_idx W b p = box_idx W b q"
    obtain i j k l where pq: "p = (i, j)" "q = (k, l)" by (cases p; cases q)
    have "box_x b + i < W" "box_x b + k < W" using \<open>p \<in> set L\<close> \<open>q \<in> set L\<close> mem assms(3) pq by (auto simp: box_ok_def)
    from row_col_eq [OF this, of "box_y b + j" "box_y b + l"] show "p = q" using e pq by (simp add: box_idx_def)
  qed
  have d: "distinct L" by (simp add: L_def distinct_product)
  have len: "length (box_src loc w h b p m1) = 3" for p m1 by (simp add: box_src_def split: prod.split)
  have P: "(\<forall>p \<in> set L. pix_at px (box_idx W b p) m' = box_src loc w h b p m) \<and>
    (\<forall>n < W * H. n \<notin> box_idx W b ` set L \<longrightarrow> pix_at px n m' = pix_at px n m) \<and>
    (\<forall>a. a \<notin> region px (3 * (W * H)) \<longrightarrow> m' a = m a)"
    unfolding m'_def
  proof (rule put_pixels_ok [OF N])
    show "box_src loc w h b p m1 = box_src loc w h b p m2"
      if "p \<in> set L" "\<And>a. a \<notin> region px (3 * (W * H)) \<Longrightarrow> m1 a = m2 a" for p m1 m2
      using src that by (cases p) blast
    show "box_idx W b p < W * H" if "p \<in> set L" for p using idx that by (cases p) blast
  qed (use len inj d in simp_all)
  have "pix_at px (W * y + x) m' = scaled w h b (\<lambda>x y. pix_at loc (w * y + x) m) (\<lambda>x y. pix_at px (W * y + x) m) x y"
    if xy: "x < W" "y < H" for x y
  proof (cases "box_x b \<le> x \<and> x < box_x b + box_w b \<and> box_y b \<le> y \<and> y < box_y b + box_h b")
    case True
    then have "(x - box_x b, y - box_y b) \<in> set L" using mem by auto
    with P have "pix_at px (box_idx W b (x - box_x b, y - box_y b)) m' = box_src loc w h b (x - box_x b, y - box_y b) m" by blast
    then show ?thesis using True by (simp add: box_idx_def box_src_def scaled_def)
  next
    case False
    have "W * y + x \<notin> box_idx W b ` set L"
    proof
      assume "W * y + x \<in> box_idx W b ` set L"
      then obtain i j where ij: "(i, j) \<in> set L" "W * y + x = W * (box_y b + j) + (box_x b + i)" by (auto simp: box_idx_def)
      have "box_x b + i < W" using ij(1) mem assms(3) by (auto simp: box_ok_def)
      with row_col_eq [OF xy(1) this] ij(2) have "x = box_x b + i" "y = box_y b + j" by auto
      then show False using False ij(1) mem by auto
    qed
    then have "pix_at px (W * y + x) m' = pix_at px (W * y + x) m" using P row_col_less [OF xy] by blast
    then show ?thesis using False by (auto simp: scaled_def)
  qed
  then show ?thesis unfolding m' using P by blast
qed

end
