(* ===== verification/X86_Draw.thy ===== *)
theory X86_Draw
  imports X86_GPU_Correct
begin

text \<open>A drawn rectangle is on the screen, clipped at its right and lower border, and nothing else has changed.\<close>

lemma distinct_rows:
  "\<lbrakk>distinct js; \<And>j. j \<in> set js \<Longrightarrow> distinct (f j); \<And>j k p. \<lbrakk>p \<in> set (f j); p \<in> set (f k)\<rbrakk> \<Longrightarrow> j = k\<rbrakk> \<Longrightarrow>
   distinct (concat (map f js))"
  by (induction js) auto

definition draw_idx :: "nat \<Rightarrow> nat \<Rightarrow> nat \<Rightarrow> nat \<times> nat \<Rightarrow> nat" where
  "draw_idx W x y = (\<lambda>(i, j). W * (y + j) + (x + i))"

definition draw_src :: "u32 \<Rightarrow> nat \<Rightarrow> nat \<times> nat \<Rightarrow> bmem \<Rightarrow> u8 list" where
  "draw_src pixels w = (\<lambda>(i, j) m. pixel_bytes (load_u32 (pixels + 4 * of_nat (w * j + i)) m))"

lemma x86_draw_row_put:
  "x86_draw_row (fb + 3 * of_nat (draw_idx W x y (i, j))) (pixels + 4 * of_nat (w * j + i)) n m =
   put_pixels fb (draw_idx W x y) (draw_src pixels w) (map (\<lambda>i. (i, j)) [i..<i + n]) m"
proof (induction n arbitrary: i m)
  case (Suc n)
  have u: "map (\<lambda>i. (i, j)) [i..<i + Suc n] = (i, j) # map (\<lambda>i. (i, j)) [Suc i..<Suc i + n]"
    by (simp add: upt_conv_Cons del: upt_Suc)
  have a: "fb + 3 * of_nat (draw_idx W x y (i, j)) + 3 = fb + 3 * of_nat (draw_idx W x y (Suc i, j))"
    "pixels + 4 * of_nat (w * j + i) + 4 = pixels + 4 * of_nat (w * j + Suc i)"
    by (simp_all add: draw_idx_def algebra_simps)
  show ?case unfolding u by (simp only: x86_draw_row.simps put_pixels.simps a Suc.IH) (simp add: draw_src_def)
qed simp

text \<open>The part of the rectangle that is on the screen.\<close>

definition clip :: "nat \<Rightarrow> nat \<Rightarrow> nat \<Rightarrow> nat" where
  "clip W x w = min w (W - x)"

lemma x86_draw_rows_put:
  assumes "uint (disp_w g) = int W" "uint (disp_h g) = int H" "d = \<lparr>dr_x = int x, dr_y = int y, dr_pixels = pixels, dr_w = int w, dr_h = int h\<rparr>"
  shows "x86_draw_rows g d (pixels + 4 * of_nat (w * j)) (int j) n m =
    put_pixels (gpu_fb g) (draw_idx W x y) (draw_src pixels w)
      (concat (map (\<lambda>j. if y + j < H then map (\<lambda>i. (i, j)) [0..<clip W x w] else []) [j..<j + n])) m"
proof (induction n arbitrary: j m)
  case (Suc n)
  let ?R = "\<lambda>j. if y + j < H then map (\<lambda>i. (i, j)) [0..<clip W x w] else []"
  have len: "nat (if int W \<le> int x + int w then int W - int x else int w) = clip W x w"
    by (auto simp: clip_def)
  have c: "(int y + int j < int H) = (y + j < H)" by linarith
  have a: "gpu_fb g + 3 * of_int (int x + (int j + int y) * int W) = gpu_fb g + 3 * of_nat (draw_idx W x y (0, j))"
    by (simp add: draw_idx_def algebra_simps)
  have p: "pixels + 4 * of_nat (w * j) + 4 * of_int (int w) = pixels + 4 * of_nat (w * Suc j)" "int j + 1 = int (Suc j)"
    by (simp_all add: algebra_simps)
  define m1 where "m1 = put_pixels (gpu_fb g) (draw_idx W x y) (draw_src pixels w) (?R j) m"
  have r: "x86_draw_row (gpu_fb g + 3 * of_nat (draw_idx W x y (0, j))) (pixels + 4 * of_nat (w * j)) (clip W x w) m =
      put_pixels (gpu_fb g) (draw_idx W x y) (draw_src pixels w) (map (\<lambda>i. (i, j)) [0..<clip W x w]) m"
    using x86_draw_row_put [of "gpu_fb g" W x y 0 j pixels w "clip W x w" m] by simp
  have s: "x86_draw_rows g d (pixels + 4 * of_nat (w * j)) (int j) (Suc n) m =
      x86_draw_rows g d (pixels + 4 * of_nat (w * Suc j)) (int (Suc j)) n m1"
    unfolding x86_draw_rows.simps Let_def assms x86_fbdraw.simps len c a p r m1_def by simp
  have u: "[j..<j + Suc n] = j # [Suc j..<Suc j + n]" by (simp add: upt_conv_Cons del: upt_Suc)
  show ?case unfolding s u list.map concat.simps put_pixels_append m1_def [symmetric] by (rule Suc.IH)
qed simp

lemma x86_fbdraw_ok:
  assumes "uint (disp_w g) = int W" "uint (disp_h g) = int H" "unat (gpu_fb g) + 3 * (W * H) \<le> 2 ^ 32"
    and "unat pixels + 4 * (w * h) \<le> 2 ^ 32" "region pixels (4 * (w * h)) \<inter> region (gpu_fb g) (3 * (W * H)) = {}"
    and "d = \<lparr>dr_x = int x, dr_y = int y, dr_pixels = pixels, dr_w = int w, dr_h = int h\<rparr>"
  shows "(\<forall>X < W. \<forall>Y < H. pix_at (gpu_fb g) (W * Y + X) (x86_gpu_fbdraw g d m) =
      (if x \<le> X \<and> X < x + w \<and> y \<le> Y \<and> Y < y + h then pixel_bytes (load_u32 (pixels + 4 * of_nat (w * (Y - y) + (X - x))) m)
       else pix_at (gpu_fb g) (W * Y + X) m)) \<and>
    (\<forall>a. a \<notin> region (gpu_fb g) (3 * (W * H)) \<longrightarrow> x86_gpu_fbdraw g d m a = m a)"
proof -
  define L where "L = concat (map (\<lambda>j. if y + j < H then map (\<lambda>i. (i, j)) [0..<clip W x w] else []) [0..<h])"
  define m' where "m' = put_pixels (gpu_fb g) (draw_idx W x y) (draw_src pixels w) L m"
  have dd: "x86_gpu_fbdraw g d m = m'"
    using x86_draw_rows_put [OF assms(1,2,6), of 0 h m] by (simp add: x86_gpu_fbdraw_def assms(6) m'_def L_def)
  have mem: "(i, j) \<in> set L \<longleftrightarrow> i < w \<and> x + i < W \<and> j < h \<and> y + j < H" for i j
    by (auto simp: L_def clip_def image_iff split: if_splits)
  have idx: "draw_idx W x y p < W * H" if "p \<in> set L" for p
  proof -
    obtain i j where ij: "p = (i, j)" by (cases p)
    then show ?thesis using that mem [of i j] by (auto simp: draw_idx_def intro!: row_col_less)
  qed
  have src: "draw_src pixels w p m1 = draw_src pixels w p m2"
    if p: "p \<in> set L" and a: "\<And>a. a \<notin> region (gpu_fb g) (3 * (W * H)) \<Longrightarrow> m1 a = m2 a" for p m1 m2
  proof -
    obtain i j where ij: "p = (i, j)" by (cases p)
    have "w * j + i < w * h" using p ij mem by (intro row_col_less) auto
    then have "4 * (w * j + i) + 4 \<le> 4 * (w * h)" by simp
    from get_bytes_region [OF assms(4) this, of m1 m2] have
      "get_bytes (pixels + of_nat (4 * (w * j + i))) 4 m1 = get_bytes (pixels + of_nat (4 * (w * j + i))) 4 m2"
      using a assms(5) by blast
    then show ?thesis by (simp add: draw_src_def load_u32_def ij)
  qed
  have inj: "inj_on (draw_idx W x y) (set L)"
  proof (rule inj_onI)
    fix p q assume pq: "p \<in> set L" "q \<in> set L" "draw_idx W x y p = draw_idx W x y q"
    obtain i j k l where e: "p = (i, j)" "q = (k, l)" by (cases p; cases q)
    have "x + i < W" "x + k < W" using pq(1,2) mem e by auto
    from row_col_eq [OF this, of "y + j" "y + l"] show "p = q" using pq(3) e by (simp add: draw_idx_def)
  qed
  have dis: "distinct L" unfolding L_def
    by (rule distinct_rows) (auto simp: distinct_map inj_on_def split: if_splits)
  have len: "length (draw_src pixels w p m1) = 3" for p m1
    by (simp add: draw_src_def pixel_bytes_def split: prod.split)
  have P: "(\<forall>p \<in> set L. pix_at (gpu_fb g) (draw_idx W x y p) m' = draw_src pixels w p m) \<and>
    (\<forall>n < W * H. n \<notin> draw_idx W x y ` set L \<longrightarrow> pix_at (gpu_fb g) n m' = pix_at (gpu_fb g) n m) \<and>
    (\<forall>a. a \<notin> region (gpu_fb g) (3 * (W * H)) \<longrightarrow> m' a = m a)"
    unfolding m'_def by (rule put_pixels_ok [OF assms(3) src len idx inj dis]) 
  have "pix_at (gpu_fb g) (W * Y + X) m' =
      (if x \<le> X \<and> X < x + w \<and> y \<le> Y \<and> Y < y + h then pixel_bytes (load_u32 (pixels + 4 * of_nat (w * (Y - y) + (X - x))) m)
       else pix_at (gpu_fb g) (W * Y + X) m)" if xy: "X < W" "Y < H" for X Y
  proof (cases "x \<le> X \<and> X < x + w \<and> y \<le> Y \<and> Y < y + h")
    case True
    then have "(X - x, Y - y) \<in> set L" using mem xy by auto
    with P have "pix_at (gpu_fb g) (draw_idx W x y (X - x, Y - y)) m' = draw_src pixels w (X - x, Y - y) m" by blast
    moreover have "draw_idx W x y (X - x, Y - y) = W * Y + X" using True by (simp add: draw_idx_def)
    ultimately show ?thesis using True by (simp only: draw_src_def prod.case simp_thms if_True)
  next
    case False
    have "W * Y + X \<notin> draw_idx W x y ` set L"
    proof
      assume "W * Y + X \<in> draw_idx W x y ` set L"
      then obtain i j where ij: "(i, j) \<in> set L" "W * Y + X = W * (y + j) + (x + i)" by (auto simp: draw_idx_def)
      have "x + i < W" using ij(1) mem by auto
      with row_col_eq [OF xy(1) this] ij(2) have "X = x + i" "Y = y + j" by auto
      then show False using False ij(1) mem by auto
    qed
    then have "pix_at (gpu_fb g) (W * Y + X) m' = pix_at (gpu_fb g) (W * Y + X) m" using P row_col_less [OF xy] by blast
    then show ?thesis by (simp only: False if_False)
  qed
  then show ?thesis unfolding dd using P by blast
qed

end
