(* ===== verification/X86_Render.thy ===== *)
theory X86_Render
  imports X86_GPU_Correct X86_Boot_Correct
begin

text \<open>
  Rendering against a reference: a tree of canvases denotes an operation on images, pixel by pixel and without
  memory, and \<^verbatim>\<open>render\<close> of its representation in the video memory performs that operation on the target.
\<close>

section \<open>Canvases and what they draw\<close>

type_synonym picture = "nat \<Rightarrow> nat \<Rightarrow> u8 list"

datatype canvas = Texture cv_box nat nat picture | Subtree cv_box nat nat "canvas list"

fun box_in :: "canvas \<Rightarrow> cv_box" where
  "box_in (Texture b w h t) = b"
| "box_in (Subtree b w h ts) = b"

text \<open>A texture is scaled into its box; a subtree is drawn on a black picture, in order, that is then scaled into its box.\<close>

fun draw_canvas :: "canvas \<Rightarrow> picture \<Rightarrow> picture" and draw_canvases :: "canvas list \<Rightarrow> picture \<Rightarrow> picture" where
  "draw_canvas (Texture b w h t) img = scaled w h b t img"
| "draw_canvas (Subtree b w h ts) img = scaled w h b (draw_canvases ts (\<lambda>_ _. [0, 0, 0])) img"
| "draw_canvases [] img = img"
| "draw_canvases (t # ts) img = draw_canvases ts (draw_canvas t img)"

text \<open>The pixels that rendering allocates, in bytes, and the fuel it needs.\<close>

fun need :: "canvas \<Rightarrow> nat" and needs :: "canvas list \<Rightarrow> nat" where
  "need (Texture b w h t) = 0"
| "need (Subtree b w h ts) = 3 * (w * h) + needs ts"
| "needs [] = 0"
| "needs (t # ts) = need t + needs ts"

fun fuel_of :: "canvas \<Rightarrow> nat" and fuels_of :: "canvas list \<Rightarrow> nat" where
  "fuel_of (Texture b w h t) = 1"
| "fuel_of (Subtree b w h ts) = Suc (fuels_of ts)"
| "fuels_of [] = 0"
| "fuels_of (t # ts) = Suc (max (fuel_of t) (fuels_of ts))"

text \<open>Canvases whose scaling stays in \<^verbatim>\<open>int\<close>: an index into the box times a size of the picture is below \<open>2 ^ 31\<close>.\<close>

fun fitting :: "canvas \<Rightarrow> bool" where
  "fitting (Texture b w h t) \<longleftrightarrow> scale_fits w h b"
| "fitting (Subtree b w h ts) \<longleftrightarrow> scale_fits w h b \<and> (\<forall>t \<in> set ts. fitting t)"

section \<open>Canvases in the video memory\<close>

definition vmem_region :: "gpu_env \<Rightarrow> u32 set" where
  "vmem_region e = region (vmem e) (unat VMEM_SIZE)"

definition in_vmem :: "gpu_env \<Rightarrow> u32 \<Rightarrow> nat \<Rightarrow> bool" where
  "in_vmem e a n \<longleftrightarrow> unat a + n \<le> 2 ^ 32 \<and> region a n \<subseteq> vmem_region e"

fun mem_canvas :: "gpu_env \<Rightarrow> bmem \<Rightarrow> u32 \<Rightarrow> canvas \<Rightarrow> bool"
  and mem_canvases :: "gpu_env \<Rightarrow> bmem \<Rightarrow> u32 \<Rightarrow> canvas list \<Rightarrow> bool" where
  "mem_canvas e m c (Texture b w h t) \<longleftrightarrow>
     in_vmem e c 26 \<and> cv_type m c = AM_GPU_TEXTURE \<and> box_of m c = b \<and> unat (tex_w m c) = w \<and> unat (tex_h m c) = h \<and>
     0 < w \<and> 0 < h \<and> in_vmem e (to_host e (tex_pixels m c)) (3 * (w * h)) \<and>
     (\<forall>x < w. \<forall>y < h. t x y = pix_at (to_host e (tex_pixels m c)) (w * y + x) m)"
| "mem_canvas e m c (Subtree b w h ts) \<longleftrightarrow>
     in_vmem e c 26 \<and> cv_type m c = AM_GPU_SUBTREE \<and> box_of m c = b \<and> unat (cv_w m c) = w \<and> unat (cv_h m c) = h \<and>
     0 < w \<and> 0 < h \<and> (\<forall>t \<in> set ts. box_ok w h (box_in t)) \<and> mem_canvases e m (to_host e (cv_child m c)) ts"
| "mem_canvases e m c [] \<longleftrightarrow> c = 0"
| "mem_canvases e m c (t # ts) \<longleftrightarrow>
     c \<noteq> 0 \<and> mem_canvas e m c t \<and> mem_canvases e m (to_host e (cv_sibling m c)) ts"

lemma mem_canvas_cong:
  "(\<And>a. a \<in> vmem_region e \<Longrightarrow> m' a = m a) \<Longrightarrow> mem_canvas e m c t \<Longrightarrow> mem_canvas e m' c t"
  "(\<And>a. a \<in> vmem_region e \<Longrightarrow> m' a = m a) \<Longrightarrow> mem_canvases e m c ts \<Longrightarrow> mem_canvases e m' c ts"
proof (induction t and ts arbitrary: c and c rule: fuel_of_fuels_of.induct)
  case (1 b w h t)
  have a: "\<And>a. a \<in> region c 26 \<Longrightarrow> m' a = m a" using 1 by (auto simp: in_vmem_def)
  have l: "unat c + 26 \<le> 2 ^ 32" using 1(2) by (simp add: in_vmem_def)
  note cv = cv_cong [OF l a]
  have "pix_at (to_host e (tex_pixels m c)) (w * y + x) m' = pix_at (to_host e (tex_pixels m c)) (w * y + x) m"
    if "x < w" "y < h" for x y
    by (rule pix_at_cong [OF _ row_col_less [OF that]]) (use 1 in \<open>auto simp: in_vmem_def\<close>)
  then show ?case using 1(2) by (simp add: cv box_of_def)
next
  case (2 b w h ts)
  have a: "\<And>a. a \<in> region c 26 \<Longrightarrow> m' a = m a" using 2(2,3) by (auto simp: in_vmem_def)
  have l: "unat c + 26 \<le> 2 ^ 32" using 2(3) by (simp add: in_vmem_def)
  note cv = cv_cong [OF l a]
  show ?case using 2(1) [OF 2(2)] 2(3) by (simp add: cv box_of_def)
next
  case (4 t ts)
  have i: "in_vmem e c 26" using 4(4) by (cases t) simp_all
  have a: "\<And>a. a \<in> region c 26 \<Longrightarrow> m' a = m a" using 4(3) i by (auto simp: in_vmem_def)
  have l: "unat c + 26 \<le> 2 ^ 32" using i by (simp add: in_vmem_def)
  show ?case using 4(1) [OF 4(3)] 4(2) [OF 4(3)] 4(4) cv_cong(8) [OF l a] by simp
qed simp

lemma scaled_cong:
  "img x y = img' x y \<Longrightarrow> (\<And>x y. x < w \<Longrightarrow> y < h \<Longrightarrow> s x y = s' x y) \<Longrightarrow> 0 < w \<Longrightarrow> 0 < h \<Longrightarrow>
   scaled w h b s img x y = scaled w h b s' img' x y"
proof -
  assume a: "img x y = img' x y" "\<And>x y. x < w \<Longrightarrow> y < h \<Longrightarrow> s x y = s' x y" "0 < w" "0 < h"
  show ?thesis
  proof (cases "box_x b \<le> x \<and> x < box_x b + box_w b \<and> box_y b \<le> y \<and> y < box_y b + box_h b")
    case True
    then have "(x - box_x b) * w div box_w b < w" "(y - box_y b) * h div box_h b < h"
      using nearest_less [of "x - box_x b" "box_w b" w] nearest_less [of "y - box_y b" "box_h b" h] a(3,4) by auto
    from a(2) [OF this] show ?thesis using True by (simp add: scaled_def)
  next
    case False
    then show ?thesis using a(1) by (auto simp: scaled_def)
  qed
qed

lemma draw_local:
  "img x y = img' x y \<Longrightarrow> draw_canvas t img x y = draw_canvas t img' x y"
  "img x y = img' x y \<Longrightarrow> draw_canvases ts img x y = draw_canvases ts img' x y"
proof (induction t and ts arbitrary: img img' and img img' rule: fuel_of_fuels_of.induct)
  case (4 t ts)
  show ?case by (simp, rule 4(2), rule 4(1), rule 4(3))
qed (simp_all add: scaled_def)

section \<open>Rendering\<close>

definition gpu_layout :: "gpu_env \<Rightarrow> bool" where
  "gpu_layout e \<longleftrightarrow> unat (vmem e) + unat VMEM_SIZE \<le> 2 ^ 32 \<and> unat (vbuf e) + unat VMEM_SIZE < 2 ^ 32 \<and>
     vmem_region e \<inter> region (vbuf e) (unat VMEM_SIZE) = {}"

text \<open>The part of \<^verbatim>\<open>vbuf\<close> that is free, and a target of pixels outside of it and of the video memory.\<close>

definition free_buf :: "gpu_env \<Rightarrow> u32 \<Rightarrow> u32 set" where
  "free_buf e head = {a. unat head \<le> unat a \<and> unat a < unat (vbuf e) + unat VMEM_SIZE}"

definition room :: "gpu_env \<Rightarrow> u32 \<Rightarrow> nat \<Rightarrow> bool" where
  "room e head n \<longleftrightarrow> unat (vbuf e) \<le> unat head \<and> unat head + n \<le> unat (vbuf e) + unat VMEM_SIZE"

definition target :: "gpu_env \<Rightarrow> u32 \<Rightarrow> u32 \<Rightarrow> nat \<Rightarrow> nat \<Rightarrow> bool" where
  "target e head px W H \<longleftrightarrow> unat px + 3 * (W * H) \<le> 2 ^ 32 \<and>
     region px (3 * (W * H)) \<inter> (vmem_region e \<union> free_buf e head) = {}"

lemma unat_VMEM_SIZE: "unat VMEM_SIZE = 524288"
  by (simp add: VMEM_SIZE_def)

lemma head_advance:
  assumes "gpu_layout e" "room e head (a + b)"
  shows "unat (head + of_nat a) = unat head + a" "room e (head + of_nat a) b"
    "region head a \<subseteq> free_buf e head" "region head a \<inter> free_buf e (head + of_nat a) = {}"
    "free_buf e (head + of_nat a) \<subseteq> free_buf e head" "free_buf e head \<inter> vmem_region e = {}"
    "unat head + a < 2 ^ 32" "region head a \<union> region (head + of_nat a) b = region head (a + b)"
proof -
  have l: "unat head + a < 2 ^ LENGTH(32)" using assms by (simp add: gpu_layout_def room_def)
  then have u: "unat (of_nat a :: u32) = a" by (simp only: unat_of_nat) simp
  show h: "unat (head + of_nat a) = unat head + a" by (subst unat_word_ariths(1), subst u) (use l in simp)
  show "room e (head + of_nat a) b" using assms(2) h by (simp add: room_def)
  show "region head a \<subseteq> free_buf e head" using assms(2) by (auto simp: region_def free_buf_def room_def)
  show "region head a \<inter> free_buf e (head + of_nat a) = {}" by (auto simp: region_def free_buf_def h)
  show "free_buf e (head + of_nat a) \<subseteq> free_buf e head" by (auto simp: free_buf_def h)
  have "free_buf e head \<subseteq> region (vbuf e) (unat VMEM_SIZE)" using assms(2) by (auto simp: region_def free_buf_def room_def)
  then show "free_buf e head \<inter> vmem_region e = {}" using assms(1) by (auto simp: gpu_layout_def)
  show "unat head + a < 2 ^ 32" using l by simp
  show "region head a \<union> region (head + of_nat a) b = region head (a + b)" by (auto simp: region_def h)
qed

lemma vbuf_alloc_ok:
  assumes "gpu_layout e" "room e head (3 * (w * h) + b)"
  shows "fits_int (int w * int h)" "vbuf_alloc e (of_int (int w * int h) * 3) (head, m) =
    Inr (head, head + of_nat (3 * (w * h)), zero_bytes head (3 * (w * h)) m)"
proof -
  define n where "n = 3 * (w * h)"
  have e: "of_int (int w * int h) * 3 = (of_nat n :: u32)" by (simp add: n_def mult.commute)
  have b: "n \<le> 524288" using assms(2) unat_VMEM_SIZE by (simp add: room_def n_def)
  then have "fits_int (int (w * h))" by (intro fits_int_nat) (simp add: n_def)
  then show "fits_int (int w * int h)" by simp
  from b have u: "unat (of_nat n :: u32) = n" by (simp only: unat_of_nat) simp
  have sn: "sint (of_nat n :: u32) = int n" using sint_small [of "of_nat n :: u32"] b u by simp
  have h: "unat (head + of_nat n) = unat head + n"
    by (rule head_advance(1) [OF assms(1), of head n b]) (use assms(2) in \<open>simp only: n_def\<close>)
  have v: "unat (vbuf e + VMEM_SIZE) = unat (vbuf e) + unat VMEM_SIZE"
    using assms(1) by (subst unat_word_ariths(1)) (simp add: gpu_layout_def)
  have "head + of_nat n \<le> vbuf e + VMEM_SIZE"
    unfolding word_le_nat_alt h v using assms(2) by (simp add: room_def n_def)
  then show "vbuf_alloc e (of_int (int w * int h) * 3) (head, m) =
      Inr (head, head + of_nat (3 * (w * h)), zero_bytes head (3 * (w * h)) m)"
    unfolding vbuf_alloc_def e sn by (simp add: Let_def n_def [symmetric])
qed

lemma render_ok:
  "\<lbrakk>fuel_of t \<le> f; fitting t; mem_canvas e m c t; box_ok W H (box_in t); gpu_layout e; room e head (need t); target e head px W H\<rbrakk> \<Longrightarrow>
   \<exists>m'. render f e c (int W) px (head, m) = Inr (head + of_nat (need t), m') \<and>
     (\<forall>x < W. \<forall>y < H. pix_at px (W * y + x) m' = draw_canvas t (\<lambda>x y. pix_at px (W * y + x) m) x y) \<and>
     (\<forall>a. a \<notin> region px (3 * (W * H)) \<union> region head (need t) \<longrightarrow> m' a = m a)"
  "\<lbrakk>fuels_of ts \<le> f; \<forall>t \<in> set ts. fitting t; mem_canvases e m c ts; \<forall>t \<in> set ts. box_ok W H (box_in t); gpu_layout e; room e head (needs ts);
    target e head px W H; in_vmem e p 26; unat (cv_w m p) = W\<rbrakk> \<Longrightarrow>
   \<exists>m'. render_siblings f e c p px (head, m) = Inr (head + of_nat (needs ts), m') \<and>
     (\<forall>x < W. \<forall>y < H. pix_at px (W * y + x) m' = draw_canvases ts (\<lambda>x y. pix_at px (W * y + x) m) x y) \<and>
     (\<forall>a. a \<notin> region px (3 * (W * H)) \<union> region head (needs ts) \<longrightarrow> m' a = m a)"
proof (induction t and ts arbitrary: f c W H px head m and f c p W H px head m rule: fuel_of_fuels_of.induct)
  case (1 b w h t)
  obtain g where f: "f = Suc g" using 1(1) by (cases f) auto
  have cv: "cv_type m c = AM_GPU_TEXTURE" "box_of m c = b" "uint (tex_w m c) = int w" "uint (tex_h m c) = int h" "0 < w" "0 < h"
    "in_vmem e c 26" "in_vmem e (to_host e (tex_pixels m c)) (3 * (w * h))"
    "\<And>x y. x < w \<Longrightarrow> y < h \<Longrightarrow> t x y = pix_at (to_host e (tex_pixels m c)) (w * y + x) m"
    using 1(3) by (auto simp: uint_nat)
  define loc where "loc = to_host e (tex_pixels m c)"
  have t: "target_ok px W H c" using cv(7) 1(7) by (auto simp: target_ok_def in_vmem_def target_def)
  have l: "unat loc + 3 * (w * h) \<le> 2 ^ 32" "region loc (3 * (w * h)) \<inter> region px (3 * (W * H)) = {}"
    using cv(8) 1(7) by (auto simp: in_vmem_def target_def loc_def)
  have bo: "box_ok W H b" using 1(4) by simp
  have fi: "scale_fits w h b" using 1(2) by simp
  obtain m' where s: "scale_canvas c (int W) px loc (int w) (int h) m = Inr m'"
    "\<And>x y. x < W \<Longrightarrow> y < H \<Longrightarrow> pix_at px (W * y + x) m' =
       scaled w h b (\<lambda>x y. pix_at loc (w * y + x) m) (\<lambda>x y. pix_at px (W * y + x) m) x y"
    "\<And>a. a \<notin> region px (3 * (W * H)) \<Longrightarrow> m' a = m a"
    using scale_canvas_ok [OF t cv(2) bo cv(5,6) fi l] by blast
  have "render f e c (int W) px (head, m) = Inr (head + of_nat 0, m')"
    using s(1) by (simp add: f cv(1,3,4) loc_def)
  moreover have "scaled w h b (\<lambda>x y. pix_at loc (w * y + x) m) img x y = scaled w h b t img x y" for img x y
    by (rule scaled_cong) (simp_all add: cv(5,6,9) loc_def)
  ultimately show ?case using s by simp
next
  case (2 b w h ts)
  obtain g where f: "f = Suc g" "fuels_of ts \<le> g" using 2(2) by (cases f) auto
  have cv: "cv_type m c = AM_GPU_SUBTREE" "box_of m c = b" "uint (cv_w m c) = int w" "uint (cv_h m c) = int h" "0 < w" "0 < h"
    "in_vmem e c 26" "\<forall>t \<in> set ts. box_ok w h (box_in t)" "mem_canvases e m (to_host e (cv_child m c)) ts"
    "unat (cv_w m c) = w"
    using 2(4) by (auto simp: uint_nat)
  have fs: "scale_fits w h b" "\<forall>t \<in> set ts. fitting t" using 2(3) by simp_all
  define n where "n = 3 * (w * h)"
  define head1 where "head1 = head + of_nat n"
  define m1 where "m1 = zero_bytes head n m"
  have r: "room e head (n + needs ts)" using 2(7) by (simp add: n_def)
  note adv = head_advance [OF 2(6) r, folded head1_def]
  have fw: "fits_int (int w * int h)" by (rule vbuf_alloc_ok(1) [OF 2(6) r [unfolded n_def]])
  have al: "vbuf_alloc e (of_int (int w * int h) * 3) (head, m) = Inr (head, head1, m1)"
    using vbuf_alloc_ok(2) [OF 2(6) r [unfolded n_def]] by (simp add: head1_def m1_def n_def)
  have z: "m1 a = (if a \<in> region head n then 0 else m a)" for a
    using zero_bytes_range [of head n m a] adv(7) by (simp add: m1_def region_def)
  have vm: "m1 a = m a" if "a \<in> vmem_region e" for a using z adv(3,6) that by auto
  have c1: "in_vmem e c 26" "unat (cv_w m1 c) = w" "unat (cv_h m1 c) = h" "cv_child m1 c = cv_child m c"
  proof -
    have l: "unat c + 26 \<le> 2 ^ 32" and a: "\<And>a. a \<in> region c 26 \<Longrightarrow> m1 a = m a" using cv(7) vm by (auto simp: in_vmem_def)
    show "in_vmem e c 26" "unat (cv_w m1 c) = w" "unat (cv_h m1 c) = h" "cv_child m1 c = cv_child m c"
      using 2(4) cv(7) cv_cong [OF l a] by simp_all
  qed
  have t1: "target e head1 head w h" using adv(3,4,6,7) by (auto simp: target_def n_def [symmetric])
  obtain m2 where m2: "render_siblings g e (to_host e (cv_child m c)) c head (head1, m1) = Inr (head1 + of_nat (needs ts), m2)"
      "\<And>x y. x < w \<Longrightarrow> y < h \<Longrightarrow> pix_at head (w * y + x) m2 = draw_canvases ts (\<lambda>x y. pix_at head (w * y + x) m1) x y"
      "\<And>a. a \<notin> region head n \<union> region head1 (needs ts) \<Longrightarrow> m2 a = m1 a"
    using 2(1) [OF f(2) fs(2) mem_canvas_cong(2) [OF vm cv(9)] cv(8) 2(6) adv(2) t1 c1(1,2)] unfolding n_def by blast
  have m2m: "m2 a = m a" if "a \<notin> region head (n + needs ts)" for a
    using m2(3) [of a] z [of a] that adv(8) by auto
  have sub: "region head (n + needs ts) \<subseteq> free_buf e head"
    using 2(7) by (auto simp: region_def free_buf_def room_def n_def)
  have vm2: "m2 a = m a" if "a \<in> vmem_region e" for a using m2m sub adv(6) that by auto
  have b2: "box_of m2 c = b"
  proof -
    have l: "unat c + 26 \<le> 2 ^ 32" and a: "\<And>a. a \<in> region c 26 \<Longrightarrow> m2 a = m a" using cv(7) vm2 by (auto simp: in_vmem_def)
    show ?thesis using cv(2) cv_cong [OF l a] by (simp add: box_of_def)
  qed
  have tp: "region px (3 * (W * H)) \<inter> free_buf e head = {}" "region px (3 * (W * H)) \<inter> vmem_region e = {}"
    "unat px + 3 * (W * H) \<le> 2 ^ 32" using 2(8) by (auto simp: target_def)
  have t: "target_ok px W H c" using cv(7) tp by (auto simp: target_ok_def in_vmem_def)
  have l: "unat head + 3 * (w * h) \<le> 2 ^ 32" "region head (3 * (w * h)) \<inter> region px (3 * (W * H)) = {}"
    using adv(3,7) tp by (auto simp: n_def)
  have bo: "box_ok W H b" using 2(5) by simp
  obtain m3 where s: "scale_canvas c (int W) px head (int w) (int h) m2 = Inr m3"
    "\<And>x y. x < W \<Longrightarrow> y < H \<Longrightarrow> pix_at px (W * y + x) m3 =
       scaled w h b (\<lambda>x y. pix_at head (w * y + x) m2) (\<lambda>x y. pix_at px (W * y + x) m2) x y"
    "\<And>a. a \<notin> region px (3 * (W * H)) \<Longrightarrow> m3 a = m2 a"
    using scale_canvas_ok [OF t b2 bo cv(5,6) fs(1) l] by blast
  have "render f e c (int W) px (head, m) = Inr (head + of_nat (need (Subtree b w h ts)), m3)"
  proof -
    have ne: "AM_GPU_SUBTREE \<noteq> AM_GPU_TEXTURE" by (simp add: AM_GPU_SUBTREE_def AM_GPU_TEXTURE_def)
    have "render f e c (int W) px (head, m) = Inr (head1 + of_nat (needs ts), m3)"
      unfolding f(1) render.simps(2) cv(1,3,4) Let_def
      by (simp only: ne simp_thms if_False if_True al bindR_Inr guardR_True fw prod.case c1(4) m2(1) s(1))
    then show ?thesis by (simp add: head1_def n_def add.assoc)
  qed
  moreover have "pix_at px (W * y + x) m3 = draw_canvas (Subtree b w h ts) (\<lambda>x y. pix_at px (W * y + x) m) x y"
    if xy: "x < W" "y < H" for x y
  proof -
    have p: "pix_at px (W * y + x) m2 = pix_at px (W * y + x) m"
      by (rule pix_at_cong [OF tp(3) row_col_less [OF xy]]) (use m2m sub tp(1) in blast)
    have k: "pix_at head (w * y + x) m1 = [0, 0, 0]" if "x < w" "y < h" for x y
    proof -
      have "w * y + x < w * h" using that by (rule row_col_less)
      then show ?thesis using pxa_region [OF l(1), of "w * y + x"] z by (simp add: pix_at_addrs n_def)
    qed
    have "pix_at px (W * y + x) m3 =
        scaled w h b (\<lambda>x y. pix_at head (w * y + x) m2) (\<lambda>x y. pix_at px (W * y + x) m2) x y"
      by (rule s(2) [OF xy])
    also have "\<dots> = scaled w h b (draw_canvases ts (\<lambda>_ _. [0, 0, 0])) (\<lambda>x y. pix_at px (W * y + x) m) x y"
    proof (rule scaled_cong)
      show "pix_at head (w * y + x) m2 = draw_canvases ts (\<lambda>_ _. [0, 0, 0]) x y" if "x < w" "y < h" for x y
        unfolding m2(2) [OF that] by (rule draw_local(2)) (rule k [OF that])
    qed (use p cv(5,6) in simp_all)
    finally show ?thesis by simp
  qed
  moreover have "m3 a = m a" if "a \<notin> region px (3 * (W * H)) \<union> region head (need (Subtree b w h ts))" for a
    using s(3) [of a] that m2m [of a] by (simp add: n_def)
  ultimately show ?case by blast
next
  case (3 f c p W H px head m)
  then show ?case by (intro exI [of _ m]) (cases f; simp)
next
  case (4 t ts)
  obtain g where f: "f = Suc g" "fuel_of t \<le> g" "fuels_of ts \<le> g" using 4(3) by (cases f) auto
  have fi: "fitting t" "\<forall>t \<in> set ts. fitting t" using 4(4) by simp_all
  have c: "c \<noteq> 0" "mem_canvas e m c t" "mem_canvases e m (to_host e (cv_sibling m c)) ts" using 4(5) by simp_all
  have r: "room e head (need t + needs ts)" using 4(8) by simp
  define head1 where "head1 = head + of_nat (need t)"
  note adv = head_advance [OF 4(7) r, folded head1_def]
  have rt: "room e head (need t)" using r by (simp add: room_def)
  have bt: "box_ok W H (box_in t)" "\<forall>t \<in> set ts. box_ok W H (box_in t)" using 4(6) by simp_all
  obtain m1 where m1: "render g e c (int W) px (head, m) = Inr (head1, m1)"
      "\<And>x y. x < W \<Longrightarrow> y < H \<Longrightarrow> pix_at px (W * y + x) m1 = draw_canvas t (\<lambda>x y. pix_at px (W * y + x) m) x y"
      "\<And>a. a \<notin> region px (3 * (W * H)) \<union> region head (need t) \<Longrightarrow> m1 a = m a"
    using 4(1) [OF f(2) fi(1) c(2) bt(1) 4(7) rt 4(9)] unfolding head1_def by blast
  have tp: "region px (3 * (W * H)) \<inter> free_buf e head = {}" "region px (3 * (W * H)) \<inter> vmem_region e = {}"
    using 4(9) by (auto simp: target_def)
  have vm: "m1 a = m a" if "a \<in> vmem_region e" for a using m1(3) [of a] tp(2) adv(3,6) that by auto
  have ci: "in_vmem e c 26" using c(2) by (cases t) simp_all
  have sib: "cv_sibling m1 c = cv_sibling m c" using cv_cong(8) [of c m1 m] ci vm by (auto simp: in_vmem_def)
  have w1: "cv_w m1 p = cv_w m p" using cv_cong(2) [of p m1 m] 4(10) vm by (auto simp: in_vmem_def)
  have t1: "target e head1 px W H" using 4(9) adv(5) by (auto simp: target_def)
  have pw: "unat (cv_w m1 p) = W" using 4(11) w1 by simp
  obtain m2 where m2: "render_siblings g e (to_host e (cv_sibling m c)) p px (head1, m1) = Inr (head1 + of_nat (needs ts), m2)"
      "\<And>x y. x < W \<Longrightarrow> y < H \<Longrightarrow> pix_at px (W * y + x) m2 = draw_canvases ts (\<lambda>x y. pix_at px (W * y + x) m1) x y"
      "\<And>a. a \<notin> region px (3 * (W * H)) \<union> region head1 (needs ts) \<Longrightarrow> m2 a = m1 a"
    using 4(2) [OF f(3) fi(2) mem_canvas_cong(2) [OF vm c(3)] bt(2) 4(7) adv(2) t1 4(10) pw] by blast
  have "render_siblings f e c p px (head, m) = Inr (head + of_nat (needs (t # ts)), m2)"
  proof -
    have wp: "uint (cv_w m p) = int W" unfolding 4(11) [symmetric] by simp
    have "render_siblings f e c p px (head, m) = Inr (head1 + of_nat (needs ts), m2)"
      by (subst render_siblings.simps)
        (simp only: c(1) if_False f(1) nat.case wp m1(1) bindR_Inr prod.case sib m2(1))
    then show ?thesis by (simp add: head1_def add.assoc)
  qed
  moreover have "pix_at px (W * y + x) m2 = draw_canvases (t # ts) (\<lambda>x y. pix_at px (W * y + x) m) x y"
    if "x < W" "y < H" for x y
    unfolding m2(2) [OF that] by (simp, rule draw_local(2), rule m1(2) [OF that])
  moreover have "m2 a = m a" if "a \<notin> region px (3 * (W * H)) \<union> region head (needs (t # ts))" for a
  proof -
    have "a \<notin> region px (3 * (W * H)) \<union> region head (need t)" "a \<notin> region px (3 * (W * H)) \<union> region head1 (needs ts)"
      using that adv(8) by auto
    with m1(3) m2(3) show ?thesis by simp
  qed
  ultimately show ?case by blast
qed

end
