(* ===== verification/X86_Device_Properties.thy ===== *)
theory X86_Device_Properties
  imports X86_IOE_Correct X86_TRM_Correct X86_Draw X86_Render
begin

text \<open>
  What the devices of the x86 machine promise: a tree of canvases is drawn as it is meant, and the time that is
  read is a time of the clock.
\<close>

section \<open>Rendering\<close>

text \<open>
  C31: \<^verbatim>\<open>gpu_render\<close> draws the tree in the video memory. If the canvases are there, each inside its parent and of a size
  at which the products that scale it stay in \<^verbatim>\<open>int\<close>, there is room in the buffer, and screen, buffer and video memory are
  apart, then rendering ends, every pixel of the screen is what the tree draws over the picture that was there, and no
  memory but the screen and the used part of the buffer has changed.
\<close>

theorem render_draws_tree:
  assumes "fuel_of t \<le> f" "fitting t" "mem_canvas e m (to_host e root) t" "box_ok W H (box_in t)" "gpu_layout e" "need t \<le> unat VMEM_SIZE"
    and "uint (disp_w g) = int W" "unat (gpu_fb g) + 3 * (W * H) \<le> 2 ^ 32"
    and "region (gpu_fb g) (3 * (W * H)) \<inter> (vmem_region e \<union> region (vbuf e) (unat VMEM_SIZE)) = {}"
  shows "\<exists>head m'. x86_gpu_render f e g root m = Inr (head, m') \<and>
    (\<forall>x < W. \<forall>y < H. pix_at (gpu_fb g) (W * y + x) m' = draw_canvas t (\<lambda>x y. pix_at (gpu_fb g) (W * y + x) m) x y) \<and>
    (\<forall>a. a \<notin> region (gpu_fb g) (3 * (W * H)) \<union> region (vbuf e) (need t) \<longrightarrow> m' a = m a)"
proof -
  have r: "room e (vbuf e) (need t)" using assms(6) by (simp add: room_def)
  have "free_buf e (vbuf e) = region (vbuf e) (unat VMEM_SIZE)" by (auto simp: free_buf_def region_def)
  then have t: "target e (vbuf e) (gpu_fb g) W H" using assms(8,9) by (simp add: target_def)
  from render_ok(1) [OF assms(1-5) r t] show ?thesis unfolding x86_gpu_render_def assms(7) by blast
qed

text \<open>A subtree of one pixel, scaled to the four of the screen, with a texture in it.\<close>

definition canvas_bytes :: "u8 list" where
  "canvas_bytes =
     [2, 0, 1, 0, 1, 0, 0, 0, 0, 0, 2, 0, 2, 0, 0xff, 0xff, 0xff, 0xff, 26, 0, 0, 0, 0, 0, 0, 0,
      1, 0, 0, 0, 0, 0, 0, 0, 0, 0, 1, 0, 1, 0, 0xff, 0xff, 0xff, 0xff, 1, 0, 1, 0, 52, 0, 0, 0, 7, 8, 9]"

definition canvas_mem :: bmem where
  "canvas_mem a = (if unat a - 0x100000 < 55 \<and> 0x100000 \<le> unat a then canvas_bytes ! (unat a - 0x100000) else 0)"

definition canvas_env :: gpu_env where
  "canvas_env = \<lparr>vmem = 0x100000, vbuf = 0x200000\<rparr>"

definition canvas_screen :: gpu_state where
  "canvas_screen = \<lparr>disp_w = 2, disp_h = 2, gpu_fb = 0x300000\<rparr>"

definition canvas_tree :: canvas where
  "canvas_tree = Subtree \<lparr>box_x = 0, box_y = 0, box_w = 2, box_h = 2\<rparr> 1 1
     [Texture \<lparr>box_x = 0, box_y = 0, box_w = 1, box_h = 1\<rparr> 1 1 (\<lambda>_ _. [7, 8, 9])]"

lemma in_canvas_env: "0x100000 \<le> unat a \<Longrightarrow> unat a + n \<le> 0x180000 \<Longrightarrow> in_vmem canvas_env a n"
  by (auto simp: in_vmem_def vmem_region_def region_def canvas_env_def unat_VMEM_SIZE)

lemma get_bytes_2: "get_bytes a 2 m = [m a, m (a + 1)]"
proof -
  have two: "(2 :: nat) = Suc (Suc 0)" by simp
  show ?thesis by (simp only: two get_bytes.simps)
qed

lemma get_bytes_4: "get_bytes a 4 m = [m a, m (a + 1), m (a + 2), m (a + 3)]"
proof -
  have four: "(4 :: nat) = Suc (Suc (Suc (Suc 0)))" by simp
  show ?thesis by (simp only: four get_bytes.simps) (simp add: add.assoc)
qed

lemma canvas_fields:
  "cv_type canvas_mem 0x100000 = 2" "unat (cv_w canvas_mem 0x100000) = 1" "unat (cv_h canvas_mem 0x100000) = 1"
  "unat (cv_x1 canvas_mem 0x100000) = 0" "unat (cv_y1 canvas_mem 0x100000) = 0" "unat (cv_w1 canvas_mem 0x100000) = 2"
  "unat (cv_h1 canvas_mem 0x100000) = 2" "cv_child canvas_mem 0x100000 = 26"
  "cv_type canvas_mem 0x10001a = 1" "unat (tex_w canvas_mem 0x10001a) = 1" "unat (tex_h canvas_mem 0x10001a) = 1"
  "unat (cv_x1 canvas_mem 0x10001a) = 0" "unat (cv_y1 canvas_mem 0x10001a) = 0" "unat (cv_w1 canvas_mem 0x10001a) = 1"
  "unat (cv_h1 canvas_mem 0x10001a) = 1" "tex_pixels canvas_mem 0x10001a = 52" "cv_sibling canvas_mem 0x10001a = 0xffffffff"
  "pix_at 0x100034 0 canvas_mem = [7, 8, 9]"
  by (simp_all add: cv_defs get_bytes_2 get_bytes_4 pix_at_def get_bytes_3 canvas_mem_def canvas_bytes_def)

lemma canvas_in_mem: "mem_canvas canvas_env canvas_mem 0x100000 canvas_tree"
proof -
  have h: "to_host canvas_env 26 = 0x10001a" "to_host canvas_env 52 = 0x100034" "to_host canvas_env 0xffffffff = 0"
    by (simp_all add: to_host_def canvas_env_def)
  have i: "in_vmem canvas_env 0x100000 26" "in_vmem canvas_env 0x10001a 26" "in_vmem canvas_env 0x100034 3"
    by (rule in_canvas_env; simp)+
  show ?thesis
    by (simp add: canvas_tree_def i canvas_fields h box_of_def box_ok_def AM_GPU_SUBTREE_def AM_GPU_TEXTURE_def)
qed

lemma render_draws_tree_witness:
  "\<exists>head m'. x86_gpu_render 9 canvas_env canvas_screen 0 canvas_mem = Inr (head, m') \<and> pix_at 0x300000 3 m' = [7, 8, 9] \<and>
     m' 0x100000 = 2"
proof -
  have l: "gpu_layout canvas_env"
    by (auto simp: gpu_layout_def canvas_env_def unat_VMEM_SIZE vmem_region_def region_def)
  have d: "region (gpu_fb canvas_screen) (3 * (2 * 2)) \<inter> (vmem_region canvas_env \<union> region (vbuf canvas_env) (unat VMEM_SIZE)) = {}"
    by (auto simp: canvas_screen_def canvas_env_def unat_VMEM_SIZE vmem_region_def region_def)
  have m: "mem_canvas canvas_env canvas_mem (to_host canvas_env 0) canvas_tree"
    using canvas_in_mem by (simp add: to_host_def canvas_env_def)
  have f: "fitting canvas_tree" by (simp add: canvas_tree_def scale_fits_def)
  have t: "fuel_of canvas_tree \<le> 9" "box_ok 2 2 (box_in canvas_tree)" "need canvas_tree \<le> unat VMEM_SIZE"
    "uint (disp_w canvas_screen) = int 2" "unat (gpu_fb canvas_screen) + 3 * (2 * 2) \<le> 2 ^ 32"
    by (simp_all add: canvas_tree_def box_ok_def unat_VMEM_SIZE canvas_screen_def)
  obtain head m' where r: "x86_gpu_render 9 canvas_env canvas_screen 0 canvas_mem = Inr (head, m')"
    "\<And>x y. x < 2 \<Longrightarrow> y < 2 \<Longrightarrow> pix_at (gpu_fb canvas_screen) (2 * y + x) m' =
       draw_canvas canvas_tree (\<lambda>x y. pix_at (gpu_fb canvas_screen) (2 * y + x) canvas_mem) x y"
    "\<And>a. a \<notin> region (gpu_fb canvas_screen) (3 * (2 * 2)) \<union> region (vbuf canvas_env) (need canvas_tree) \<Longrightarrow> m' a = canvas_mem a"
    using render_draws_tree [OF t(1) f m t(2) l t(3-5) d] by blast
  have "pix_at 0x300000 3 m' = [7, 8, 9]"
    using r(2) [of 1 1] by (simp add: canvas_screen_def canvas_tree_def scaled_def)
  moreover have "m' 0x100000 = 2"
    using r(3) [of "0x100000"]
    by (simp add: canvas_screen_def canvas_tree_def canvas_env_def region_def canvas_mem_def canvas_bytes_def)
  ultimately show ?thesis using r(1) by blast
qed

section \<open>The clock\<close>

text \<open>
  C32: The time that \<^verbatim>\<open>timer_rtc\<close> returns is a time the clock showed during the call, year to second, although each
  register is read on its own and the clock may tick between the reads, as long as no access takes more than four seconds.
\<close>

theorem clock_snapshot:
  assumes "has_rtc B T sel fld" "x86_timer_rtc B s = Some (rtc, s')"
  shows "\<exists>t. T s \<le> t \<and> t \<le> T s' \<and> rtc = rtc_at fld t"
  by (rule timer_rtc_snapshot [OF assms(2,1)])

record sample_clock =
  ck_ticks :: nat
  ck_sel :: u8

definition clock_field :: "u8 \<Rightarrow> nat \<Rightarrow> nat" where
  "clock_field r t = (if r = 0 then t mod 60 else if r = 2 then t div 60 mod 60 else if r = 4 then t div 3600 mod 24 else 7)"

definition clock_bus :: "sample_clock port_bus" where
  "clock_bus = \<lparr>pb_inb = (\<lambda>p s. (if p = 0x71 then bcd (clock_field (ck_sel s) (ck_ticks s div 100)) else 0, s\<lparr>ck_ticks := Suc (ck_ticks s)\<rparr>)),
     pb_inl = (\<lambda>p s. (0, s)), pb_outb = (\<lambda>p v s. s\<lparr>ck_ticks := Suc (ck_ticks s), ck_sel := if p = 0x70 then v else ck_sel s\<rparr>),
     pb_outl = (\<lambda>p v s. s)\<rparr>"

lemma clock_bus_rtc: "has_rtc clock_bus (\<lambda>s. ck_ticks s div 100) ck_sel clock_field"
proof -
  have d: "k div 100 \<le> Suc k div 100" "Suc k div 100 \<le> k div 100 + 4" for k :: nat
    using div_le_mono [of k "Suc k" 100] div_le_mono [of "Suc k" "k + 100" 100] by simp_all
  have f: "clock_field r t < 100" for r t
  proof -
    have "t mod 60 < 100" using mod_less_divisor [of 60 t] by linarith
    moreover have "t div 60 mod 60 < 100" using mod_less_divisor [of 60 "t div 60"] by linarith
    moreover have "t div 3600 mod 24 < 100" using mod_less_divisor [of 24 "t div 3600"] by linarith
    ultimately show ?thesis by (simp add: clock_field_def)
  qed
  have z: "clock_field 0 t = t mod 60" for t by (simp add: clock_field_def)
  show ?thesis
    unfolding has_rtc_def by (intro conjI allI) (auto simp: z f clock_bus_def d intro!: exI [of _ "ck_ticks _ div 100"])
qed

lemma clock_snapshot_witness:
  "\<exists>rtc s' t. x86_timer_rtc clock_bus \<lparr>ck_ticks = 365990, ck_sel = 0\<rparr> = Some (rtc, s') \<and> 3659 \<le> t \<and> t \<le> ck_ticks s' div 100 \<and>
     rtc = rtc_at clock_field t"
proof -
  let ?s = "\<lparr>ck_ticks = 365990, ck_sel = 0\<rparr>"
  have "\<exists>rtc s'. x86_timer_rtc clock_bus ?s = Some (rtc, s')"
    by (subst x86_timer_rtc.simps, subst x86_timer_rtc.simps)
      (simp add: read_rtc_async_def read_rtc_def clock_bus_def clock_field_def bcd_def)
  then obtain rtc s' where r: "x86_timer_rtc clock_bus ?s = Some (rtc, s')" by blast
  from clock_snapshot [OF clock_bus_rtc r] r show ?thesis by auto
qed

end
