(* ===== verification/Gdb_Protocol.thy ===== *)
theory Gdb_Protocol
  imports Prelude
begin

text \<open>
  The client of the GDB remote protocol that NEMU uses to run QEMU as a reference
  (\<^verbatim>\<open>tools/qemu-diff/src/protocol.c\<close>). A connection is the bytes still to be read, the bytes written
  so far and the acknowledgement mode. Writing succeeds, as does allocation; at the end of the
  input \<^verbatim>\<open>fgetc\<close> returns \<^verbatim>\<open>EOF\<close> for ever. A computation that need not end has type \<open>'a res option\<close>,
  where \<open>None\<close> is a run that does not end.
\<close>

section \<open>Runs that may not end\<close>

type_synonym 'a run = "'a res option"

definition bindT :: "'a run \<Rightarrow> ('a \<Rightarrow> 'b run) \<Rightarrow> 'b run" where
  "bindT m f = (case m of None \<Rightarrow> None | Some (Inl e) \<Rightarrow> Some (Inl e) | Some (Inr a) \<Rightarrow> f a)"

lemma bindT_simps [simp]:
  "bindT None f = None" "bindT (Some (Inl e)) f = Some (Inl e)" "bindT (Some (Inr a)) f = f a"
  by (simp_all add: bindT_def)

section \<open>Hexadecimal digits\<close>

text \<open>\<^verbatim>\<open>isdigit\<close>, \<^verbatim>\<open>isxdigit\<close> and \<^verbatim>\<open>tolower\<close> of the C library.\<close>

definition c_isdigit :: "u8 \<Rightarrow> bool" where
  "c_isdigit c \<longleftrightarrow> 48 \<le> c \<and> c \<le> 57"

definition c_isxdigit :: "u8 \<Rightarrow> bool" where
  "c_isxdigit c \<longleftrightarrow> c_isdigit c \<or> (65 \<le> c \<and> c \<le> 70) \<or> (97 \<le> c \<and> c \<le> 102)"

definition c_tolower :: "u8 \<Rightarrow> u8" where
  "c_tolower c = (if 65 \<le> c \<and> c \<le> 90 then c + 32 else c)"

definition hex_nibble :: "u8 \<Rightarrow> u8" where
  "hex_nibble hex = (if c_isdigit hex then hex - 48 else c_tolower hex - 97 + 10)"

definition hex_encode :: "u8 \<Rightarrow> u8" where
  "hex_encode digit = (if 9 < digit then 97 + digit - 10 else 48 + digit)"

definition gdb_decode_hex :: "u8 \<Rightarrow> u8 \<Rightarrow> u16" where
  "gdb_decode_hex msb lsb =
     (if \<not> c_isxdigit msb \<or> \<not> c_isxdigit lsb then 0xffff
      else 16 * ucast (hex_nibble msb) + ucast (hex_nibble lsb))"

text \<open>A C string is the list of its characters; at the end the terminator is read, which is no digit.\<close>

fun decode_hex_loop :: "u64 \<Rightarrow> u64 \<Rightarrow> u8 list \<Rightarrow> u64" where
  "decode_hex_loop value weight (b0 # b1 # bytes) =
     (if c_isxdigit b0 \<and> c_isxdigit b1
      then decode_hex_loop (value + weight * ucast (gdb_decode_hex b0 b1)) (weight * (16 * 16)) bytes
      else value)"
| "decode_hex_loop value weight bytes = value"

definition gdb_decode_hex_str :: "u8 list \<Rightarrow> u64" where
  "gdb_decode_hex_str bytes = decode_hex_loop 0 1 bytes"

text \<open>The conversion \<^verbatim>\<open>%02X\<close> of a byte.\<close>

definition upper_digit :: "u8 \<Rightarrow> u8" where
  "upper_digit d = (if 9 < d then 65 + d - 10 else 48 + d)"

definition text_02X :: "u8 \<Rightarrow> u8 list" where
  "text_02X b = [upper_digit (drop_bit 4 b), upper_digit (b AND 15)]"

section \<open>Connections\<close>

record gdb_conn =
  g_in :: "u8 list"
  g_out :: "u8 list"
  g_ack :: bool

text \<open>\<^verbatim>\<open>fgetc\<close> with its result converted to \<^verbatim>\<open>uint8_t\<close>, and as the integer it is.\<close>

definition fgetc8 :: "u8 list \<Rightarrow> u8 \<times> u8 list" where
  "fgetc8 inp = (case inp of [] \<Rightarrow> (0xff, []) | c # rest \<Rightarrow> (c, rest))"

definition fgetc_int :: "u8 list \<Rightarrow> int \<times> u8 list" where
  "fgetc_int inp = (case inp of [] \<Rightarrow> (-1, []) | c # rest \<Rightarrow> (uint c, rest))"

definition gdb_begin :: "u8 list \<Rightarrow> gdb_conn" where
  "gdb_begin inp = \<lparr>g_in = inp, g_out = [43], g_ack = True\<rparr>"

section \<open>Sending\<close>

fun checksum :: "u8 list \<Rightarrow> u8 \<Rightarrow> u8" where
  "checksum [] csum = csum"
| "checksum (c # cs) csum = checksum cs (csum + c)"

definition send_packet :: "u8 list \<Rightarrow> u8 list" where
  "send_packet command = [36] @ command @ [35] @ text_02X (checksum command 0)"

partial_function (option) gdb_send :: "gdb_conn \<Rightarrow> u8 list \<Rightarrow> gdb_conn option" where
  "gdb_send conn command =
     (let conn = conn\<lparr>g_out := g_out conn @ send_packet command\<rparr> in
      if \<not> g_ack conn then Some conn
      else let (c, rest) = fgetc_int (g_in conn); conn = conn\<lparr>g_in := rest\<rparr> in
           if c = 43 then Some conn else gdb_send conn command)"

section \<open>Receiving\<close>

text \<open>\<open>cap\<close> is the size of the reply buffer, \<open>reply\<close> the bytes stored, \<open>i\<close> of the code its length.\<close>

definition add_char :: "nat \<Rightarrow> u8 list \<Rightarrow> u8 \<Rightarrow> (nat \<times> u8 list) res" where
  "add_char cap reply c =
     (let cap = (if length reply = cap then cap * 2 else cap) in
      guardR (length reply < cap) Undef (Inr (cap, reply @ [c])))"

definition repeat_char :: "nat \<Rightarrow> u8 list \<Rightarrow> nat \<Rightarrow> (nat \<times> u8 list) res" where
  "repeat_char cap reply count =
     (let cap = (if cap < length reply + count then cap * 2 else cap) in
      guardR (length reply + count \<le> cap) Undef (Inr (cap, reply @ replicate count (last reply))))"

text \<open>
  The end of a packet: the terminator is stored after the reply, for which the buffer grows by one byte if it is full.
  The list of the reply does not hold it.
\<close>

definition terminate_reply :: "nat \<Rightarrow> u8 list \<Rightarrow> (u8 list) res" where
  "terminate_reply cap reply =
     (let cap = (if length reply = cap then cap + 1 else cap) in
      guardR (length reply < cap) Undef (Inr reply))"

text \<open>The test on the repeat count, for the byte that follows if there is one.\<close>

definition repeat_count_ok :: "u8 list \<Rightarrow> bool" where
  "repeat_count_ok inp =
     (let c2 = fst (fgetc_int inp) in \<not> (c2 < 29 \<or> 126 < c2 \<or> c2 = 36 \<or> c2 = 35))"

lemma repeat_count_ok_Cons: "repeat_count_ok inp \<Longrightarrow> inp \<noteq> []"
  by (auto simp: repeat_count_ok_def fgetc_int_def)

function recv_loop :: "nat \<Rightarrow> u8 list \<Rightarrow> u8 \<Rightarrow> bool \<Rightarrow> u8 list \<Rightarrow> (u8 list \<times> bool \<times> u8 list) res" where
  "recv_loop cap reply csum escape [] = Inl (Exit 0)"
| "recv_loop cap reply csum escape (c # inp) =
     (let csum = csum + c in
      if c = 36 then recv_loop cap [] 0 False inp
      else if c = 35 then
        let csum = csum - c; (msb, inp) = fgetc8 inp; (lsb, inp) = fgetc8 inp in
        bindR (terminate_reply cap reply) (\<lambda>reply. Inr (reply, ucast csum = gdb_decode_hex msb lsb, inp))
      else if c = 125 then recv_loop cap reply csum True inp
      else if c = 42 \<and> 0 < length reply \<and> repeat_count_ok inp then
        bindR (repeat_char cap reply (unat (hd inp) - 29)) (\<lambda>(cap, reply).
        recv_loop cap reply (csum + hd inp) escape (tl inp))
      else bindR (add_char cap reply (if escape then c XOR 0x20 else c)) (\<lambda>(cap, reply).
           recv_loop cap reply csum False inp))"
  by pat_completeness auto
termination
  by (relation "measure (\<lambda>(cap, reply, csum, escape, inp). length inp)") auto

fun skip_to_start :: "u8 list \<Rightarrow> u8 list" where
  "skip_to_start [] = []"
| "skip_to_start (c # inp) = (if c = 36 then inp else skip_to_start inp)"

definition recv_packet :: "u8 list \<Rightarrow> (u8 list \<times> bool \<times> u8 list) res" where
  "recv_packet inp = recv_loop 4096 [] 0 False (skip_to_start inp)"

text \<open>A packet that is received has been read from the input, so that the loop of \<open>gdb_recv\<close> ends.\<close>

lemma recv_loop_consumes: "recv_loop cap reply csum escape inp = Inr (r, ok, rest) \<Longrightarrow> length rest < length inp"
proof (induction cap reply csum escape inp rule: recv_loop.induct)
  case (2 cap reply csum escape c inp)
  consider "c = 36" | "c = 35" | "c = 125" | "c = 42" "0 < length reply" "repeat_count_ok inp"
    | "c \<noteq> 36" "c \<noteq> 35" "c \<noteq> 125" "\<not> (c = 42 \<and> 0 < length reply \<and> repeat_count_ok inp)"
    by blast
  then show ?case
  proof cases
    case 1
    then show ?thesis using 2 by (fastforce simp: Let_def)
  next
    case 2
    then show ?thesis using "2.prems" by (auto simp: fgetc8_def elim!: bindR_InrE split: list.splits)
  next
    case 3
    then show ?thesis using 2 by (fastforce simp: Let_def)
  next
    case 4
    then show ?thesis using "2.prems" "2.IH"(3) repeat_count_ok_Cons [OF 4(3)]
      by (fastforce simp: Let_def elim!: bindR_InrE)
  next
    case 5
    then have "bindR (add_char cap reply (if escape then c XOR 0x20 else c)) (\<lambda>(cap, reply).
        recv_loop cap reply (csum + c) False inp) = Inr (r, ok, rest)"
      using "2.prems" unfolding recv_loop.simps Let_def by (simp only: if_False)
    then obtain a b where ab: "add_char cap reply (if escape then c XOR 0x20 else c) = Inr (a, b)"
      "recv_loop a b (csum + c) False inp = Inr (r, ok, rest)"
      by (auto elim!: bindR_InrE)
    from "2.IH"(4) [OF refl 5(1-4) ab(1) refl ab(2)] show ?thesis by simp
  qed
qed simp

lemma skip_to_start_length: "length (skip_to_start inp) \<le> length inp"
  by (induction inp) auto

lemma recv_packet_consumes: "recv_packet inp = Inr (r, ok, rest) \<Longrightarrow> length rest < length inp"
  using recv_loop_consumes [of 4096 "[]" 0 False "skip_to_start inp" r ok rest] skip_to_start_length [of inp]
  by (simp add: recv_packet_def)

function gdb_recv :: "gdb_conn \<Rightarrow> (u8 list \<times> gdb_conn) res" where
  "gdb_recv conn =
     (case recv_packet (g_in conn) of
        Inl e \<Rightarrow> Inl e
      | Inr (reply, acked, rest) \<Rightarrow>
          let conn = conn\<lparr>g_in := rest\<rparr> in
          if \<not> g_ack conn then Inr (reply, conn)
          else let conn = conn\<lparr>g_out := g_out conn @ [if acked then 43 else 45]\<rparr> in
               if acked then Inr (reply, conn) else gdb_recv conn)"
  by pat_completeness auto
termination
  by (relation "measure (\<lambda>conn. length (g_in conn))") (auto dest: recv_packet_consumes)

definition ascii :: "string \<Rightarrow> u8 list" where
  "ascii s = map of_char s"

text \<open>Comparison with \<^verbatim>\<open>strcmp\<close>: the received bytes up to the first null, or the terminator.\<close>

definition reply_is :: "u8 list \<Rightarrow> string \<Rightarrow> bool" where
  "reply_is reply s = (takeWhile (\<lambda>c. c \<noteq> 0) reply = ascii s)"

definition gdb_start_noack :: "gdb_conn \<Rightarrow> (string \<times> gdb_conn) run" where
  "gdb_start_noack conn =
     (case gdb_send conn (ascii ''QStartNoAckMode'') of
        None \<Rightarrow> None
      | Some conn \<Rightarrow>
          bindT (Some (gdb_recv conn)) (\<lambda>(reply, conn).
          let ok = length reply = 2 \<and> reply_is reply ''OK'' in
          Some (Inr (if ok then ''OK'' else '''', if ok then conn\<lparr>g_ack := False\<rparr> else conn))))"

end
