(* ===== verification/Gdb_Protocol_Correct.thy ===== *)
theory Gdb_Protocol_Correct
  imports Gdb_Protocol
begin

text \<open>
  What the client of the remote protocol does: the hexadecimal encodings are inverted by the
  decoders, a command is sent until it is acknowledged, and the receiver undoes escaping and
  run-length encoding, checks the sum and asks again for damaged packets.
\<close>

section \<open>Hexadecimal encodings\<close>

lemma nibble_cases:
  assumes "d < (16 :: u8)"
  shows "d \<in> {0, 1, 2, 3, 4, 5, 6, 7, 8, 9, 10, 11, 12, 13, 14, 15}"
proof -
  have "unat d < 16" using assms by (simp add: word_less_nat_alt)
  then have "unat d \<in> set [0..<16]" by simp
  then have "of_nat (unat d) \<in> (of_nat :: nat \<Rightarrow> u8) ` set [0..<16]" by (rule imageI)
  moreover have "(of_nat :: nat \<Rightarrow> u8) ` set [0..<16] = {0, 1, 2, 3, 4, 5, 6, 7, 8, 9, 10, 11, 12, 13, 14, 15}"
    by code_simp
  ultimately show ?thesis by simp
qed

lemma nibble_digits:
  assumes "d < 16"
  shows "c_isxdigit (hex_encode d)" "hex_nibble (hex_encode d) = d"
    "c_isxdigit (upper_digit d)" "hex_nibble (upper_digit d) = d"
  using nibble_cases [OF assms] unfolding insert_iff empty_iff
  by (elim disjE; simp add: c_isxdigit_def c_isdigit_def hex_encode_def hex_nibble_def upper_digit_def c_tolower_def)+

lemma nibbles: "drop_bit 4 (b :: u8) < 16" "b AND 15 < 16"
proof -
  have u: "unat b < 2 ^ LENGTH(8)" by (rule unsigned_less)
  have "unat (drop_bit 4 b) = unat b div 2 ^ 4" by (simp add: unat_drop_bit_eq drop_bit_nat_def)
  then show "drop_bit 4 b < 16" using u by (simp add: word_less_nat_alt)
  have "(b AND 15) = take_bit 4 b" by (simp add: take_bit_eq_mask mask_eq_exp_minus_1)
  then have "unat (b AND 15) = take_bit 4 (unat b)" by (simp only: unsigned_take_bit_eq)
  then show "b AND 15 < 16" by (simp add: word_less_nat_alt take_bit_nat_def)
qed

lemma nibbles_join: "16 * ucast (drop_bit 4 b) + ucast (b AND 15) = (ucast (b :: u8) :: u16)"
proof -
  have a: "(b AND 15) = take_bit 4 b" by (simp add: take_bit_eq_mask mask_eq_exp_minus_1)
  have "(16 :: u16) * ucast (drop_bit 4 b) = push_bit 4 (ucast (drop_bit 4 b))" by (simp add: push_bit_eq_mult)
  moreover have "(push_bit 4 (ucast (drop_bit 4 b)) :: u16) + ucast (take_bit 4 b) =
      push_bit 4 (ucast (drop_bit 4 b)) OR ucast (take_bit 4 b)"
    by (rule disjunctive_add) (auto simp: bit_simps)
  moreover have "push_bit 4 (ucast (drop_bit 4 b)) OR ucast (take_bit 4 b) = (ucast b :: u16)"
    by (rule bit_word_eqI) (auto simp: bit_simps)
  ultimately show ?thesis unfolding a by simp
qed

definition hex_pair :: "u8 \<Rightarrow> u8 list" where
  "hex_pair b = [hex_encode (drop_bit 4 b), hex_encode (b AND 15)]"

lemma decode_hex_pair:
  "c_isxdigit (hex_encode (drop_bit 4 b))" "c_isxdigit (hex_encode (b AND 15))"
  "gdb_decode_hex (hex_encode (drop_bit 4 b)) (hex_encode (b AND 15)) = ucast b"
  using nibble_digits [OF nibbles(1) [of b]] nibble_digits [OF nibbles(2) [of b]]
  by (simp_all add: gdb_decode_hex_def nibbles_join)

lemma decode_text_02X: "gdb_decode_hex (upper_digit (drop_bit 4 b)) (upper_digit (b AND 15)) = ucast b"
  using nibble_digits [OF nibbles(1) [of b]] nibble_digits [OF nibbles(2) [of b]]
  by (simp add: gdb_decode_hex_def nibbles_join)

section \<open>Sending\<close>

lemma uint_43: "uint (c :: u8) = 43 \<longleftrightarrow> c = 43"
proof
  assume "uint c = 43"
  then have "word_of_int (uint c) = (word_of_int 43 :: u8)" by (rule arg_cong)
  then show "c = 43" by simp
qed simp

lemma gdb_send_ack:
  assumes "g_ack conn"
  shows "43 \<in> set (g_in conn) \<Longrightarrow> gdb_send conn command = Some (conn\<lparr>
    g_in := tl (dropWhile (\<lambda>c. c \<noteq> 43) (g_in conn)),
    g_out := g_out conn @ concat (replicate (Suc (length (takeWhile (\<lambda>c. c \<noteq> 43) (g_in conn)))) (send_packet command))\<rparr>)"
  using assms
proof (induction "g_in conn" arbitrary: conn)
  case (Cons c rest)
  have i: "fgetc_int (g_in conn) = (uint c, rest)" using Cons.hyps(2) [symmetric] by (simp add: fgetc_int_def)
  have e: "uint c = 43 \<longleftrightarrow> c = 43" by (simp add: uint_43)
  show ?case
  proof (cases "c = 43")
    case True
    then show ?thesis
      using Cons.prems Cons.hyps(2) [symmetric] i by (subst gdb_send.simps) (simp add: Let_def)
  next
    case False
    let ?c = "conn\<lparr>g_out := g_out conn @ send_packet command, g_in := rest\<rparr>"
    have "gdb_send conn command = gdb_send ?c command"
      using Cons.prems Cons.hyps(2) [symmetric] i e False by (subst gdb_send.simps) (simp add: Let_def)
    also have "\<dots> = Some (?c\<lparr>g_in := tl (dropWhile (\<lambda>c. c \<noteq> 43) rest),
        g_out := g_out ?c @ concat (replicate (Suc (length (takeWhile (\<lambda>c. c \<noteq> 43) rest))) (send_packet command))\<rparr>)"
      using Cons.hyps(1) [of ?c] Cons.prems Cons.hyps(2) [symmetric] False by simp
    finally show ?thesis using Cons.hyps(2) [symmetric] False by simp
  qed
qed simp

lemma gdb_send_forever: "gdb_send conn command = Some conn' \<Longrightarrow> g_ack conn \<longrightarrow> 43 \<in> set (g_in conn)"
proof (rule gdb_send.raw_induct [where P = "\<lambda>conn command conn'. g_ack conn \<longrightarrow> 43 \<in> set (g_in conn)"], goal_cases)
  case (1 f conn command conn')
  show ?case
  proof (intro impI)
    assume ack: "g_ack conn"
    let ?c = "\<lambda>rest. conn\<lparr>g_out := g_out conn @ send_packet command, g_in := rest\<rparr>"
    show "43 \<in> set (g_in conn)"
    proof (cases "g_in conn")
      case Nil
      have "f (?c []) command = Some conn'" using 1(3) ack Nil by (simp add: Let_def fgetc_int_def)
      from 1(2) [OF this] show ?thesis using ack by simp
    next
      case (Cons c rest)
      show ?thesis
      proof (cases "c = 43")
        case False
        then have "f (?c rest) command = Some conn'" using 1(3) ack Cons uint_43 [of c] by (simp add: Let_def fgetc_int_def)
        from 1(2) [OF this] show ?thesis using ack Cons by simp
      qed (simp add: Cons)
    qed
  qed
qed

lemma gdb_send_noack: "\<not> g_ack conn \<Longrightarrow>
    gdb_send conn command = Some (conn\<lparr>g_out := g_out conn @ send_packet command\<rparr>)"
  by (subst gdb_send.simps) (simp add: Let_def)

section \<open>Receiving\<close>

text \<open>
  The encoding of the protocol as the reference for the receiver: a unit \<open>(b, n)\<close> is the byte \<open>b\<close>,
  escaped if it has a meaning of its own, and the count of \<open>n\<close> repetitions after it.
\<close>

definition special :: "u8 \<Rightarrow> bool" where
  "special b \<longleftrightarrow> b = 35 \<or> b = 36 \<or> b = 42 \<or> b = 125"

definition escape_byte :: "u8 \<Rightarrow> u8 list" where
  "escape_byte b = (if special b then [125, b XOR 32] else [b])"

definition unit_wire :: "u8 \<times> nat \<Rightarrow> u8 list" where
  "unit_wire u = escape_byte (fst u) @ (if snd u = 0 then [] else [42, of_nat (snd u + 29)])"

definition unit_ok :: "u8 \<times> nat \<Rightarrow> bool" where
  "unit_ok u \<longleftrightarrow> snd u \<le> 97 \<and> snd u \<noteq> 6 \<and> snd u \<noteq> 7"

definition expand :: "(u8 \<times> nat) list \<Rightarrow> u8 list" where
  "expand us = concat (map (\<lambda>u. replicate (Suc (snd u)) (fst u)) us)"

definition wire :: "(u8 \<times> nat) list \<Rightarrow> u8 list" where
  "wire us = concat (map unit_wire us)"

lemma expand_simps [simp]: "expand [] = []" "expand (u # us) = replicate (Suc (snd u)) (fst u) @ expand us"
  by (simp_all add: expand_def)

lemma wire_simps [simp]: "wire [] = []" "wire (u # us) = unit_wire u @ wire us"
  by (simp_all add: wire_def)

lemma checksum_append: "checksum (xs @ ys) s = checksum ys (checksum xs s)"
  by (induction xs arbitrary: s) simp_all

definition cap_ok :: "nat \<Rightarrow> u8 list \<Rightarrow> bool" where
  "cap_ok cap reply \<longleftrightarrow> 97 \<le> cap \<and> length reply \<le> cap"

lemma add_char_ok: "cap_ok cap reply \<Longrightarrow> \<exists>cap'. add_char cap reply c = Inr (cap', reply @ [c]) \<and> cap_ok cap' (reply @ [c])"
  by (auto simp: add_char_def cap_ok_def Let_def guardR_def)

lemma repeat_char_ok:
  "cap_ok cap reply \<Longrightarrow> n \<le> 97 \<Longrightarrow>
   \<exists>cap'. repeat_char cap reply n = Inr (cap', reply @ replicate n (last reply)) \<and>
     cap_ok cap' (reply @ replicate n (last reply))"
  by (auto simp: repeat_char_def cap_ok_def Let_def guardR_def)

lemma terminate_reply_ok: "cap_ok cap reply \<Longrightarrow> terminate_reply cap reply = Inr reply"
  by (auto simp: terminate_reply_def cap_ok_def Let_def guardR_def)

declare recv_loop.simps [simp del] gdb_recv.simps [simp del]

lemma recv_plain:
  assumes "\<not> special c" "cap_ok cap reply"
  shows "\<exists>cap'. recv_loop cap reply s esc (c # inp) =
      recv_loop cap' (reply @ [if esc then c XOR 32 else c]) (s + c) False inp \<and>
    cap_ok cap' (reply @ [if esc then c XOR 32 else c])"
proof -
  obtain cap' where "add_char cap reply (if esc then c XOR 32 else c) = Inr (cap', reply @ [if esc then c XOR 32 else c])"
    "cap_ok cap' (reply @ [if esc then c XOR 32 else c])"
    using add_char_ok [OF assms(2)] by blast
  then show ?thesis using assms(1) by (intro exI [of _ cap']) (simp add: special_def Let_def recv_loop.simps)
qed

lemma special_xor:
  assumes "special b"
  shows "\<not> special (b XOR 32)" "(b XOR 32) XOR 32 = b"
  using assms by (auto simp: special_def)

lemma recv_escape_byte:
  assumes "cap_ok cap reply"
  shows "\<exists>cap'. recv_loop cap reply s False (escape_byte b @ inp) =
      recv_loop cap' (reply @ [b]) (checksum (escape_byte b) s) False inp \<and> cap_ok cap' (reply @ [b])"
proof (cases "special b")
  case False
  then show ?thesis using recv_plain [OF False assms, of s False inp] by (simp add: escape_byte_def)
next
  case True
  have "recv_loop cap reply s False (escape_byte b @ inp) = recv_loop cap reply (s + 125) True ((b XOR 32) # inp)"
    using True by (simp add: escape_byte_def Let_def recv_loop.simps(2) [of cap reply s False 125])
  moreover obtain cap' where "recv_loop cap reply (s + 125) True ((b XOR 32) # inp) =
      recv_loop cap' (reply @ [b]) (s + 125 + (b XOR 32)) False inp" "cap_ok cap' (reply @ [b])"
    using recv_plain [OF special_xor(1) [OF True] assms, of "s + 125" True inp]
    unfolding if_True special_xor(2) [OF True] by blast
  ultimately show ?thesis using True by (intro exI [of _ cap']) (simp add: escape_byte_def)
qed

lemma repeat_count:
  assumes "n \<le> 97" "n \<noteq> 6" "n \<noteq> 7" 
  shows "repeat_count_ok (of_nat (n + 29) # inp)" "unat (of_nat (n + 29) :: u8) = n + 29"
proof -
  have "n + 29 < 2 ^ 8" using assms(1) by simp
  then show u: "unat (of_nat (n + 29) :: u8) = n + 29"
    by (simp only: unat_of_nat len_bit0 len_num1) (simp add: mod_less)
  then have "uint (of_nat (n + 29) :: u8) = int (n + 29)" by (metis uint_nat)
  then show "repeat_count_ok (of_nat (n + 29) # inp)"
    using assms by (simp add: repeat_count_ok_def fgetc_int_def Let_def del: of_nat_add of_nat_Suc)
qed

lemma recv_repeat:
  assumes "cap_ok cap reply" "reply \<noteq> []" "n \<le> 97" "n \<noteq> 6" "n \<noteq> 7"
  shows "\<exists>cap'. recv_loop cap reply s False (42 # of_nat (n + 29) # inp) =
      recv_loop cap' (reply @ replicate n (last reply)) (s + 42 + of_nat (n + 29)) False inp \<and>
    cap_ok cap' (reply @ replicate n (last reply))"
proof -
  obtain cap' where "repeat_char cap reply n = Inr (cap', reply @ replicate n (last reply))"
    "cap_ok cap' (reply @ replicate n (last reply))"
    using repeat_char_ok [OF assms(1,3)] by blast
  then show ?thesis
    using assms(2) repeat_count [OF assms(3-5)]
    by (intro exI [of _ cap']) (simp add: Let_def recv_loop.simps(2) [of cap reply s False 42] del: of_nat_add of_nat_Suc)
qed

lemma recv_unit:
  assumes "cap_ok cap reply" "unit_ok u"
  shows "\<exists>cap'. recv_loop cap reply s False (unit_wire u @ inp) =
      recv_loop cap' (reply @ replicate (Suc (snd u)) (fst u)) (checksum (unit_wire u) s) False inp \<and>
    cap_ok cap' (reply @ replicate (Suc (snd u)) (fst u))"
proof (cases "snd u = 0")
  case True
  then show ?thesis using recv_escape_byte [OF assms(1), of s "fst u" inp] by (simp add: unit_wire_def)
next
  case False
  let ?t = "[42, of_nat (snd u + 29)]"
  obtain c1 where c1: "recv_loop cap reply s False (escape_byte (fst u) @ ?t @ inp) =
      recv_loop c1 (reply @ [fst u]) (checksum (escape_byte (fst u)) s) False (?t @ inp)" "cap_ok c1 (reply @ [fst u])"
    using recv_escape_byte [OF assms(1)] by blast
  obtain c2 where "recv_loop c1 (reply @ [fst u]) (checksum (escape_byte (fst u)) s) False (?t @ inp) =
      recv_loop c2 (reply @ [fst u] @ replicate (snd u) (fst u))
        (checksum (escape_byte (fst u)) s + 42 + of_nat (snd u + 29)) False inp"
    "cap_ok c2 (reply @ [fst u] @ replicate (snd u) (fst u))"
    using recv_repeat [OF c1(2), of "snd u"] assms(2) by (auto simp: unit_ok_def simp del: of_nat_add of_nat_Suc)
  then show ?thesis
    using c1(1) False
    by (intro exI [of _ c2]) (simp add: unit_wire_def checksum_append del: of_nat_add of_nat_Suc)
qed

lemma recv_units:
  "cap_ok cap reply \<Longrightarrow> list_all unit_ok us \<Longrightarrow>
   \<exists>cap'. recv_loop cap reply s False (wire us @ inp) =
     recv_loop cap' (reply @ expand us) (checksum (wire us) s) False inp \<and> cap_ok cap' (reply @ expand us)"
proof (induction us arbitrary: cap reply s)
  case (Cons u us)
  obtain c1 where c1: "recv_loop cap reply s False (unit_wire u @ wire us @ inp) =
      recv_loop c1 (reply @ replicate (Suc (snd u)) (fst u)) (checksum (unit_wire u) s) False (wire us @ inp)"
    "cap_ok c1 (reply @ replicate (Suc (snd u)) (fst u))"
    using recv_unit [OF Cons.prems(1), of u s "wire us @ inp"] Cons.prems(2) by auto
  obtain c2 where "recv_loop c1 (reply @ replicate (Suc (snd u)) (fst u)) (checksum (unit_wire u) s) False (wire us @ inp) =
      recv_loop c2 ((reply @ replicate (Suc (snd u)) (fst u)) @ expand us) (checksum (wire us) (checksum (unit_wire u) s)) False inp"
    "cap_ok c2 ((reply @ replicate (Suc (snd u)) (fst u)) @ expand us)"
    using Cons.IH [OF c1(2)] Cons.prems(2) by fastforce
  then show ?case using c1(1) by (intro exI [of _ c2]) (simp add: checksum_append)
qed auto

lemma skip_to_start_append: "36 \<notin> set junk \<Longrightarrow> skip_to_start (junk @ 36 # inp) = inp"
  by (induction junk) auto

lemma recv_packet_units:
  assumes "36 \<notin> set junk" "list_all unit_ok us"
  shows "recv_packet (junk @ 36 # wire us @ 35 # d1 # d2 # rest) =
    Inr (expand us, ucast (checksum (wire us) 0) = gdb_decode_hex d1 d2, rest)"
proof -
  obtain cap where "recv_loop 4096 [] 0 False (wire us @ 35 # d1 # d2 # rest) =
      recv_loop cap ([] @ expand us) (checksum (wire us) 0) False (35 # d1 # d2 # rest)" "cap_ok cap ([] @ expand us)"
    using recv_units [of 4096 "[]" us] assms(2) by (auto simp: cap_ok_def)
  then show ?thesis using assms(1) by (simp add: recv_packet_def skip_to_start_append fgetc8_def Let_def recv_loop.simps terminate_reply_ok)
qed

text \<open>What this client sends is read back, if it has no byte that would have to be escaped.\<close>

lemma recv_send_packet:
  assumes "\<forall>c \<in> set command. \<not> special c"
  shows "recv_packet (send_packet command @ rest) = Inr (command, True, rest)"
proof -
  let ?us = "map (\<lambda>c. (c, 0 :: nat)) command"
  have "wire ?us = command \<and> expand ?us = command \<and> list_all unit_ok ?us"
    using assms by (induction command) (auto simp: unit_wire_def escape_byte_def unit_ok_def)
  then show ?thesis
    using recv_packet_units [of "[]" ?us "upper_digit (drop_bit 4 (checksum command 0))"
      "upper_digit (checksum command 0 AND 15)" rest]
    by (simp add: send_packet_def text_02X_def decode_text_02X)
qed

section \<open>The reply buffer\<close>

text \<open>Whatever bytes arrive, the receiver stays inside its buffer.\<close>

lemma repeat_count_bound: "repeat_count_ok inp \<Longrightarrow> unat (hd inp) - 29 \<le> 97"
proof -
  assume r: "repeat_count_ok inp"
  then obtain c rest where "inp = c # rest" using repeat_count_ok_Cons by (cases inp) auto
  then have "uint c \<le> 126" using r by (auto simp: repeat_count_ok_def fgetc_int_def Let_def)
  then have "int (unat c) \<le> int 126" by (simp only: uint_nat of_nat_numeral)
  then have "unat c \<le> 126" by (simp only: of_nat_le_iff)
  then show ?thesis using \<open>inp = c # rest\<close> by simp
qed

lemma recv_loop_safe:
  "cap_ok cap reply \<Longrightarrow> (\<exists>r. recv_loop cap reply s esc inp = Inr r) \<or> recv_loop cap reply s esc inp = Inl (Exit 0)"
proof (induction cap reply s esc inp rule: recv_loop.induct)
  case (2 cap reply s esc c inp)
  consider "c = 36" | "c = 35" | "c = 125" | "c = 42" "0 < length reply" "repeat_count_ok inp"
    | "c \<noteq> 36" "c \<noteq> 35" "c \<noteq> 125" "\<not> (c = 42 \<and> 0 < length reply \<and> repeat_count_ok inp)"
    by blast
  then show ?case
  proof cases
    case 1
    have "cap_ok cap []" using "2.prems" by (simp add: cap_ok_def)
    then show ?thesis using "2.IH"(1) [OF refl 1] 1 by (simp add: recv_loop.simps Let_def)
  next
    case 2
    then show ?thesis using "2.prems" by (simp add: recv_loop.simps Let_def terminate_reply_ok split: prod.split)
  next
    case 3
    then have "c \<noteq> 36" "c \<noteq> 35" by auto
    from "2.IH"(2) [OF refl this 3 "2.prems"] show ?thesis using 3 by (simp add: recv_loop.simps Let_def)
  next
    case 4
    then have n: "c \<noteq> 36" "c \<noteq> 35" "c \<noteq> 125" by auto
    obtain a where a: "repeat_char cap reply (unat (hd inp) - 29) =
        Inr (a, reply @ replicate (unat (hd inp) - 29) (last reply))" "cap_ok a (reply @ replicate (unat (hd inp) - 29) (last reply))"
      using repeat_char_ok [OF "2.prems" repeat_count_bound [OF 4(3)]] by blast
    have c: "c = 42 \<and> 0 < length reply \<and> repeat_count_ok inp" using 4 by simp
    have "recv_loop cap reply s esc (c # inp) =
        recv_loop a (reply @ replicate (unat (hd inp) - 29) (last reply)) (s + c + hd inp) esc (tl inp)"
      using c n a(1) unfolding recv_loop.simps Let_def by (simp only: if_False if_True bindR_Inr prod.case simp_thms)
    then show ?thesis using "2.IH"(3) [OF refl n c a(1) refl a(2)] by (simp only:)
  next
    case 5
    obtain a where a: "add_char cap reply (if esc then c XOR 32 else c) = Inr (a, reply @ [if esc then c XOR 32 else c])"
      "cap_ok a (reply @ [if esc then c XOR 32 else c])"
      using add_char_ok [OF "2.prems"] by blast
    have "recv_loop cap reply s esc (c # inp) =
        recv_loop a (reply @ [if esc then c XOR 32 else c]) (s + c) False inp"
      using 5 a(1) unfolding recv_loop.simps Let_def by (simp only: if_False bindR_Inr prod.case)
    then show ?thesis using "2.IH"(4) [OF refl 5 a(1) refl a(2)] by simp
  qed
qed (simp add: recv_loop.simps)

lemma recv_packet_safe: "(\<exists>r. recv_packet inp = Inr r) \<or> recv_packet inp = Inl (Exit 0)"
  unfolding recv_packet_def by (rule recv_loop_safe) (simp add: cap_ok_def)

section \<open>Acknowledgement\<close>

lemma gdb_recv_safe:
  "(\<exists>reply conn'. gdb_recv conn = Inr (reply, conn') \<and> length (g_in conn') < length (g_in conn)) \<or>
   gdb_recv conn = Inl (Exit 0)"
proof (induction conn rule: gdb_recv.induct)
  case (1 conn)
  show ?case
  proof (cases "recv_packet (g_in conn)")
    case (Inl e)
    then have "e = Exit 0" using recv_packet_safe [of "g_in conn"] by auto
    then show ?thesis using Inl by (subst gdb_recv.simps) simp
  next
    case (Inr r)
    obtain reply acked rest where r: "r = (reply, acked, rest)" by (cases r) auto
    then have p: "recv_packet (g_in conn) = Inr (reply, acked, rest)" using Inr by simp
    note less = recv_packet_consumes [OF p]
    show ?thesis
    proof (cases "\<not> g_ack conn \<or> acked")
      case True
      then show ?thesis using p less by (subst (1 2) gdb_recv.simps) (auto simp: Let_def)
    next
      case False
      let ?c = "conn\<lparr>g_in := rest, g_out := g_out conn @ [45]\<rparr>"
      have e: "gdb_recv conn = gdb_recv ?c" using False p by (subst gdb_recv.simps) (simp add: Let_def)
      have "(\<exists>reply conn'. gdb_recv ?c = Inr (reply, conn') \<and> length (g_in conn') < length (g_in ?c)) \<or>
          gdb_recv ?c = Inl (Exit 0)"
        using "1.IH" [OF p refl refl refl] False by simp
      then show ?thesis using e less by (auto intro: less_trans)
    qed
  qed
qed

text \<open>A packet on the wire with the two digits of its sum, and the packets of which the digits are wrong.\<close>

type_synonym wire_packet = "u8 list \<times> (u8 \<times> nat) list \<times> u8 \<times> u8"

fun packet_wire :: "wire_packet \<Rightarrow> u8 list" where
  "packet_wire (junk, us, d1, d2) = junk @ 36 # wire us @ [35, d1, d2]"

fun packet_ok :: "wire_packet \<Rightarrow> bool" where
  "packet_ok (junk, us, d1, d2) \<longleftrightarrow> 36 \<notin> set junk \<and> list_all unit_ok us"

fun packet_sum_ok :: "wire_packet \<Rightarrow> bool" where
  "packet_sum_ok (junk, us, d1, d2) \<longleftrightarrow> ucast (checksum (wire us) 0) = gdb_decode_hex d1 d2"

fun packet_data :: "wire_packet \<Rightarrow> u8 list" where
  "packet_data (junk, us, d1, d2) = expand us"

lemma recv_packet_wire:
  "packet_ok p \<Longrightarrow> recv_packet (packet_wire p @ rest) = Inr (packet_data p, packet_sum_ok p, rest)"
  by (cases p) (simp add: recv_packet_units)

lemma gdb_recv_retries:
  "g_ack conn \<Longrightarrow> g_in conn = concat (map packet_wire bad) @ packet_wire p @ rest \<Longrightarrow>
   list_all packet_ok (p # bad) \<Longrightarrow> list_all (\<lambda>q. \<not> packet_sum_ok q) bad \<Longrightarrow> packet_sum_ok p \<Longrightarrow>
   gdb_recv conn = Inr (packet_data p, conn\<lparr>g_in := rest, g_out := g_out conn @ replicate (length bad) 45 @ [43]\<rparr>)"
proof (induction bad arbitrary: conn)
  case Nil
  then show ?case by (subst gdb_recv.simps) (simp add: recv_packet_wire Let_def)
next
  case (Cons q bad)
  let ?c = "conn\<lparr>g_in := concat (map packet_wire bad) @ packet_wire p @ rest, g_out := g_out conn @ [45]\<rparr>"
  have "recv_packet (g_in conn) = Inr (packet_data q, False, g_in ?c)"
    using Cons.prems by (simp add: recv_packet_wire)
  then have "gdb_recv conn = gdb_recv ?c"
    using Cons.prems(1) by (subst gdb_recv.simps) (simp add: Let_def)
  also have "\<dots> = Inr (packet_data p, ?c\<lparr>g_in := rest, g_out := g_out ?c @ replicate (length bad) 45 @ [43]\<rparr>)"
    by (rule Cons.IH) (use Cons.prems in simp_all)
  finally show ?case by simp
qed

lemma gdb_recv_noack:
  "\<not> g_ack conn \<Longrightarrow> g_in conn = packet_wire p @ rest \<Longrightarrow> packet_ok p \<Longrightarrow>
   gdb_recv conn = Inr (packet_data p, conn\<lparr>g_in := rest\<rparr>)"
  by (subst gdb_recv.simps) (simp add: recv_packet_wire Let_def)

end
