(* ===== verification/Gdb_Host.thy ===== *)
theory Gdb_Host
  imports Gdb_Protocol_Correct
begin

text \<open>
  QEMU as a reference (\<^verbatim>\<open>tools/qemu-diff/src/gdb-host.c\<close>, \<^verbatim>\<open>diff-test.c\<close> and \<^verbatim>\<open>isa.c\<close>): the functions of
  the difftest interface by requests of the remote protocol. The starting of QEMU as a child process
  is not modelled; the connection is a parameter.
\<close>

section \<open>Requests\<close>

definition gdb_request :: "u8 list \<Rightarrow> gdb_conn \<Rightarrow> (u8 list \<times> gdb_conn) run" where
  "gdb_request command conn =
     (case gdb_send conn command of None \<Rightarrow> None | Some conn \<Rightarrow> Some (gdb_recv conn))"

text \<open>The conversion \<^verbatim>\<open>%x\<close>, and the bytes of a block as pairs of digits.\<close>

fun text_x :: "nat \<Rightarrow> u8 list" where
  "text_x n = (if n < 16 then [hex_encode (of_nat n)] else text_x (n div 16) @ [hex_encode (of_nat (n mod 16))])"

declare text_x.simps [simp del]

definition hex_bytes :: "u8 list \<Rightarrow> u8 list" where
  "hex_bytes src = concat (map hex_pair src)"

definition memory_command :: "u32 \<Rightarrow> u8 list \<Rightarrow> u8 list" where
  "memory_command dest src =
     ascii ''M0x'' @ text_x (unat dest) @ ascii '','' @ text_x (length src) @ ascii '':'' @ hex_bytes src"

definition gdb_memcpy_to_qemu_small :: "u32 \<Rightarrow> u8 list \<Rightarrow> gdb_conn \<Rightarrow> (bool \<times> gdb_conn) run" where
  "gdb_memcpy_to_qemu_small dest src conn =
     bindT (gdb_request (memory_command dest src) conn) (\<lambda>(reply, conn).
     Some (Inr (reply_is reply ''OK'', conn)))"

definition mtu :: nat where
  "mtu = 1500"

function memcpy_loop :: "bool \<Rightarrow> u32 \<Rightarrow> u8 list \<Rightarrow> gdb_conn \<Rightarrow> (bool \<times> gdb_conn) run" where
  "memcpy_loop ok dest src conn =
     (if mtu < length src
      then bindT (gdb_memcpy_to_qemu_small dest (take mtu src) conn) (\<lambda>(b, conn).
           memcpy_loop (ok \<and> b) (dest + of_nat mtu) (drop mtu src) conn)
      else bindT (gdb_memcpy_to_qemu_small dest src conn) (\<lambda>(b, conn). Some (Inr (ok \<and> b, conn))))"
  by pat_completeness auto
termination
  by (relation "measure (\<lambda>(ok, dest, src, conn). length src)") (auto simp: mtu_def)

declare memcpy_loop.simps [simp del]

definition gdb_memcpy_to_qemu :: "u32 \<Rightarrow> u8 list \<Rightarrow> gdb_conn \<Rightarrow> (bool \<times> gdb_conn) run" where
  "gdb_memcpy_to_qemu dest src conn = memcpy_loop True dest src conn"

text \<open>
  The registers are an array of 77 words. A reply is in a buffer of at least 4096 bytes, of which
  the bytes after the terminator are not determined: \<open>junk\<close> gives them.
\<close>

definition reply_at :: "(nat \<Rightarrow> u8) \<Rightarrow> u8 list \<Rightarrow> nat \<Rightarrow> u8" where
  "reply_at junk reply k = (if k < length reply then reply ! k else if k = length reply then 0 else junk k)"

definition gdb_getregs :: "(nat \<Rightarrow> u8) \<Rightarrow> gdb_conn \<Rightarrow> (u32 list \<times> gdb_conn) run" where
  "gdb_getregs junk conn =
     bindT (gdb_request (ascii ''g'') conn) (\<lambda>(reply, conn).
     Some (Inr (map (\<lambda>i. ucast (gdb_decode_hex_str (map (reply_at junk reply) [8 * i..<8 * i + 8]))) [0..<77], conn)))"

definition gdb_setregs :: "u32 list \<Rightarrow> gdb_conn \<Rightarrow> (bool \<times> gdb_conn) run" where
  "gdb_setregs r conn =
     bindT (gdb_request (ascii ''G'' @ hex_bytes (concat (map (le_bytes 4) r))) conn) (\<lambda>(reply, conn).
     Some (Inr (reply_is reply ''OK'', conn)))"

definition gdb_si :: "gdb_conn \<Rightarrow> (bool \<times> gdb_conn) run" where
  "gdb_si conn = bindT (gdb_request (ascii ''vCont;s:1'') conn) (\<lambda>(reply, conn). Some (Inr (True, conn)))"

section \<open>The difftest interface\<close>

text \<open>\<open>to_ref\<close> is the direction \<^verbatim>\<open>DIFFTEST_TO_REF\<close>; \<open>n\<close> is \<^verbatim>\<open>DIFFTEST_REG_SIZE\<close> in words.\<close>

definition qemu_difftest_memcpy :: "u32 \<Rightarrow> u8 list \<Rightarrow> bool \<Rightarrow> gdb_conn \<Rightarrow> gdb_conn run" where
  "qemu_difftest_memcpy addr buf to_ref conn =
     (if \<not> to_ref then Some (Inl AssertFail)
      else bindT (gdb_memcpy_to_qemu addr buf conn) (\<lambda>(ok, conn).
           if ok then Some (Inr conn) else Some (Inl AssertFail)))"

definition qemu_difftest_regcpy :: "nat \<Rightarrow> (nat \<Rightarrow> u8) \<Rightarrow> u32 list \<Rightarrow> bool \<Rightarrow> gdb_conn \<Rightarrow> (u32 list \<times> gdb_conn) run" where
  "qemu_difftest_regcpy n junk dut to_ref conn =
     bindT (gdb_getregs junk conn) (\<lambda>(qemu_r, conn).
     if to_ref
     then bindT (gdb_setregs (take n dut @ drop n qemu_r) conn) (\<lambda>(_, conn). Some (Inr (dut, conn)))
     else Some (Inr (take n qemu_r @ drop n dut, conn)))"

fun qemu_difftest_exec :: "nat \<Rightarrow> gdb_conn \<Rightarrow> gdb_conn run" where
  "qemu_difftest_exec 0 conn = Some (Inr conn)"
| "qemu_difftest_exec (Suc n) conn = bindT (gdb_si conn) (\<lambda>(_, conn). qemu_difftest_exec n conn)"

section \<open>Protected mode on x86\<close>

definition mbr :: "u8 list" where
  "mbr =
    [0xfa,
     0x31, 0xc0,
     0x8e, 0xd8,
     0x8e, 0xc0,
     0x8e, 0xd0,
     0x0f, 0x01, 0x16, 0x44, 0x7c,
     0x0f, 0x20, 0xc0,
     0x66, 0x83, 0xc8, 0x01,
     0x0f, 0x22, 0xc0,
     0xea, 0x1d, 0x7c, 0x08, 0x00,
     0x66, 0xb8, 0x10, 0x00,
     0x8e, 0xd8,
     0x8e, 0xc0,
     0x8e, 0xd0,
     0xeb, 0xfe,
     0x8d, 0x76, 0x00,
     0x00, 0x00, 0x00, 0x00, 0x00, 0x00, 0x00, 0x00,
     0xff, 0xff, 0x00, 0x00, 0x00, 0x9a, 0xcf, 0x00,
     0xff, 0xff, 0x00, 0x00, 0x00, 0x92, 0xcf, 0x00,
     0x17, 0x00, 0x2c, 0x7c, 0x00, 0x00]"

text \<open>The members \<^verbatim>\<open>eip\<close> and \<^verbatim>\<open>cs\<close> of the register union are its words 8 and 10.\<close>

definition qemu_init_isa_x86 :: "(nat \<Rightarrow> u8) \<Rightarrow> gdb_conn \<Rightarrow> gdb_conn run" where
  "qemu_init_isa_x86 junk conn =
     bindT (gdb_memcpy_to_qemu 0x7c00 mbr conn) (\<lambda>(ok, conn).
     if \<not> ok then Some (Inl AssertFail)
     else bindT (gdb_getregs junk conn) (\<lambda>(r, conn).
     bindT (gdb_setregs (r[8 := 0x7c00, 10 := 0]) conn) (\<lambda>(ok, conn).
     if \<not> ok then Some (Inl AssertFail) else qemu_difftest_exec 20 conn)))"

section \<open>Requests that are answered\<close>

text \<open>The answer of a server: an acknowledgement and a packet with a correct sum and no repetitions.\<close>

definition plain_packet :: "u8 list \<Rightarrow> u8 list" where
  "plain_packet data = [36] @ data @ [35] @ hex_pair (checksum data 0)"

definition answer :: "u8 list \<Rightarrow> u8 list" where
  "answer data = [43] @ plain_packet data"

lemma plain_units:
  assumes "\<forall>c \<in> set data. \<not> special c"
  shows "wire (map (\<lambda>c. (c, 0)) data) = data" "expand (map (\<lambda>c. (c, 0)) data) = data"
    "list_all unit_ok (map (\<lambda>c. (c, 0)) data)"
  using assms by (induction data) (auto simp: unit_wire_def escape_byte_def unit_ok_def)

lemma gdb_request_answered:
  assumes "g_ack conn" "g_in conn = answer data @ rest" "\<forall>c \<in> set data. \<not> special c"
  shows "gdb_request command conn =
    Some (Inr (data, conn\<lparr>g_in := rest, g_out := g_out conn @ send_packet command @ [43]\<rparr>))"
proof -
  let ?us = "map (\<lambda>c. (c, 0 :: nat)) data"
  let ?p = "([], ?us, hex_encode (drop_bit 4 (checksum data 0)), hex_encode (checksum data 0 AND 15)) :: wire_packet"
  let ?c = "conn\<lparr>g_in := plain_packet data @ rest, g_out := g_out conn @ send_packet command\<rparr>"
  note u = plain_units [OF assms(3)]
  have s: "gdb_send conn command = Some ?c"
    using gdb_send_ack [OF assms(1), of command] assms(2) by (simp add: answer_def)
  have w: "packet_wire ?p = plain_packet data" "packet_data ?p = data" "packet_ok ?p" "packet_sum_ok ?p"
    using u by (simp_all add: plain_packet_def hex_pair_def decode_hex_pair)
  have "gdb_recv ?c = Inr (data, ?c\<lparr>g_in := rest, g_out := g_out ?c @ [43]\<rparr>)"
    using gdb_recv_retries [of ?c "[]" ?p rest] assms(1) w by (simp del: packet_wire.simps packet_data.simps)
  then show ?thesis using s by (simp add: gdb_request_def)
qed

end
