(* ===== verification/Gdb_Host_Correct.thy ===== *)
theory Gdb_Host_Correct
  imports Gdb_Host Blocks
begin

text \<open>
  What the requests mean to a server that parses them: copying memory writes the block whatever its
  size, and the registers a server sends are the registers read.
\<close>

section \<open>A server for memory commands\<close>

definition hex_value :: "u8 list \<Rightarrow> nat" where
  "hex_value cs = foldl (\<lambda>v c. 16 * v + unat (hex_nibble c)) 0 cs"

fun unhex :: "u8 list \<Rightarrow> u8 list" where
  "unhex (a # b # r) = ucast (gdb_decode_hex a b) # unhex r"
| "unhex _ = []"

definition parse_memory :: "u8 list \<Rightarrow> u32 \<times> nat \<times> u8 list" where
  "parse_memory command =
     (let body = drop 3 command; r = drop 1 (dropWhile (\<lambda>c. c \<noteq> 44) body) in
      (of_nat (hex_value (takeWhile (\<lambda>c. c \<noteq> 44) body)), hex_value (takeWhile (\<lambda>c. c \<noteq> 58) r),
       unhex (drop 1 (dropWhile (\<lambda>c. c \<noteq> 58) r))))"

definition serve :: "u8 list \<Rightarrow> (u32 \<Rightarrow> u8) \<Rightarrow> u32 \<Rightarrow> u8" where
  "serve command m = (case parse_memory command of (dest, n, bytes) \<Rightarrow> put_block dest (take n bytes) m)"

lemma unat_of_nat_16: "k < 16 \<Longrightarrow> unat (of_nat k :: u8) = k"
  by (simp only: unat_of_nat len_bit0 len_num1) (simp add: mod_less)

lemma of_nat_nibble: "(of_nat (n mod 16) :: u8) < 16"
  by (simp add: word_less_nat_alt unat_of_nat_16)

lemma hex_value_snoc: "hex_value (cs @ [c]) = 16 * hex_value cs + unat (hex_nibble c)"
  by (simp add: hex_value_def)

lemma hex_value_text_x: "hex_value (text_x n) = n"
proof (induction n rule: text_x.induct)
  case (1 n)
  have d: "unat (hex_nibble (hex_encode (of_nat (n mod 16)))) = n mod 16"
    by (simp add: nibble_digits(2) [OF of_nat_nibble] unat_of_nat_16)
  show ?case
  proof (cases "n < 16")
    case True
    then show ?thesis using d by (simp add: text_x.simps [of n] hex_value_def)
  next
    case False
    then have "hex_value (text_x n) = 16 * (n div 16) + n mod 16"
      using 1 d by (simp add: text_x.simps [of n] hex_value_snoc)
    then show ?thesis by simp
  qed
qed

lemma text_x_digits: "\<forall>c \<in> set (text_x n). c_isxdigit c"
proof (induction n rule: text_x.induct)
  case (1 n)
  then show ?case
    using nibble_digits(1) [OF of_nat_nibble, of n] by (subst text_x.simps) auto
qed

lemma digit_not_separator: "c_isxdigit c \<Longrightarrow> c \<noteq> 44 \<and> c \<noteq> 58"
  by (auto simp: c_isxdigit_def c_isdigit_def)

lemma ucast_u16 [simp]: "ucast (ucast (b :: u8) :: u16) = b"
  by (rule bit_word_eqI) (auto simp: bit_simps)

lemma unhex_hex_bytes: "unhex (hex_bytes src) = src"
  by (induction src) (simp_all add: hex_bytes_def hex_pair_def decode_hex_pair)

lemma ascii_simps [simp]: "ascii '''' = []" "ascii (c # s) = of_char c # ascii s"
  by (simp_all add: ascii_def)

lemma parse_memory_command: "parse_memory (memory_command dest src) = (dest, length src, src)"
proof -
  have t: "takeWhile (\<lambda>c. c \<noteq> s) (text_x n @ s # r) = text_x n" "dropWhile (\<lambda>c. c \<noteq> s) (text_x n @ s # r) = s # r"
    if "s = 44 \<or> s = 58" for s n r
    using that text_x_digits [of n] digit_not_separator by (auto simp: takeWhile_append dropWhile_append)
  show ?thesis
    unfolding parse_memory_def memory_command_def Let_def
    by (simp add: t hex_value_text_x unhex_hex_bytes)
qed

lemma serve_memory_command: "serve (memory_command dest src) = put_block dest src"
  by (rule ext) (simp add: serve_def parse_memory_command)

section \<open>Copying memory\<close>

function memcpy_commands :: "u32 \<Rightarrow> u8 list \<Rightarrow> u8 list list" where
  "memcpy_commands dest src =
     (if mtu < length src then memory_command dest (take mtu src) # memcpy_commands (dest + of_nat mtu) (drop mtu src)
      else [memory_command dest src])"
  by pat_completeness auto
termination
  by (relation "measure (\<lambda>(dest, src). length src)") (auto simp: mtu_def)

declare memcpy_commands.simps [simp del]

lemma serve_memcpy_commands:
  "length src \<le> 2 ^ 32 \<Longrightarrow> fold serve (memcpy_commands dest src) m = put_block dest src m"
proof (induction dest src arbitrary: m rule: memcpy_commands.induct)
  case (1 dest src)
  show ?case
  proof (cases "mtu < length src")
    case True
    then have "fold serve (memcpy_commands dest src) m =
        fold serve (memcpy_commands (dest + of_nat mtu) (drop mtu src)) (put_block dest (take mtu src) m)"
      by (subst memcpy_commands.simps) (simp add: serve_memory_command)
    also have "\<dots> = put_block dest src m"
      using 1 True put_block_split [of src mtu dest m] by simp
    finally show ?thesis .
  next
    case False
    then show ?thesis by (subst memcpy_commands.simps) (simp add: serve_memory_command)
  qed
qed

lemma memcpy_loop_answered:
  "g_ack conn \<Longrightarrow> g_in conn = concat (map answer replies) @ rest \<Longrightarrow>
   length replies = length (memcpy_commands dest src) \<Longrightarrow> \<forall>r \<in> set replies. \<forall>c \<in> set r. \<not> special c \<Longrightarrow>
   memcpy_loop ok dest src conn = Some (Inr (ok \<and> list_all (\<lambda>r. reply_is r ''OK'') replies,
     conn\<lparr>g_in := rest, g_out := g_out conn @ concat (map (\<lambda>c. send_packet c @ [43]) (memcpy_commands dest src))\<rparr>))"
proof (induction ok dest src conn arbitrary: replies rule: memcpy_loop.induct)
  case (1 ok dest src conn)
  from 1(4) obtain r rs where r: "replies = r # rs"
    by (cases replies) (auto simp: memcpy_commands.simps [of dest src] split: if_splits)
  let ?c = "\<lambda>cmd. conn\<lparr>g_in := concat (map answer rs) @ rest, g_out := g_out conn @ send_packet cmd @ [43]\<rparr>"
  have q: "gdb_request cmd conn = Some (Inr (r, ?c cmd))" for cmd
    using gdb_request_answered [OF 1(2), of r "concat (map answer rs) @ rest"] 1(3,5) r by simp
  show ?case
  proof (cases "mtu < length src")
    case True
    let ?cmd = "memory_command dest (take mtu src)"
    have l: "memcpy_commands dest src = ?cmd # memcpy_commands (dest + of_nat mtu) (drop mtu src)"
      using True by (subst memcpy_commands.simps) simp
    have "memcpy_loop ok dest src conn =
        memcpy_loop (ok \<and> reply_is r ''OK'') (dest + of_nat mtu) (drop mtu src) (?c ?cmd)"
      using True q by (subst memcpy_loop.simps) (simp add: gdb_memcpy_to_qemu_small_def)
    also have "\<dots> = Some (Inr ((ok \<and> reply_is r ''OK'') \<and> list_all (\<lambda>r. reply_is r ''OK'') rs,
        (?c ?cmd)\<lparr>g_in := rest, g_out := g_out (?c ?cmd) @
          concat (map (\<lambda>c. send_packet c @ [43]) (memcpy_commands (dest + of_nat mtu) (drop mtu src)))\<rparr>))"
      by (rule 1(1) [OF True]) (use 1(2-5) r l in auto)
    finally show ?thesis using r l by simp
  next
    case False
    then have l: "memcpy_commands dest src = [memory_command dest src]" by (subst memcpy_commands.simps) simp
    then have "rs = []" using 1(4) r by simp
    then show ?thesis
      using False q l r by (subst memcpy_loop.simps) (simp add: gdb_memcpy_to_qemu_small_def)
  qed
qed

section \<open>Registers\<close>

lemma le_word_plus: "le_word (b # bs) = ucast b + 256 * (le_word bs :: u64)"
proof -
  have "ucast b + push_bit 8 (le_word bs :: u64) = ucast b OR push_bit 8 (le_word bs)"
    by (rule disjunctive_add) (auto simp: bit_simps dest: bit_imp_le_length)
  then show ?thesis by (simp add: push_bit_eq_mult mult.commute)
qed

lemma decode_hex_loop_bytes: "decode_hex_loop v wt (hex_bytes bs) = v + wt * le_word bs"
proof (induction bs arbitrary: v wt)
  case (Cons b bs)
  have "ucast (ucast b :: u16) = (ucast b :: u64)"
    by (rule bit_word_eqI) (auto simp: bit_simps dest: bit_imp_le_length)
  then have "decode_hex_loop v wt (hex_bytes (b # bs)) = decode_hex_loop (v + wt * ucast b) (wt * 256) (hex_bytes bs)"
    by (simp add: hex_bytes_def hex_pair_def decode_hex_pair)
  then show ?case by (simp add: Cons le_word_plus algebra_simps del: le_word.simps)
qed (simp add: hex_bytes_def)

lemma ucast_le_word: "(ucast (le_word bs :: u64) :: u32) = le_word bs"
proof (induction bs)
  case (Cons b bs)
  have "(ucast (push_bit 8 (le_word bs :: u64)) :: u32) = push_bit 8 (ucast (le_word bs :: u64))"
    by (rule bit_word_eqI) (auto simp: bit_simps)
  moreover have "(ucast (ucast b :: u64) :: u32) = ucast b" by (rule bit_word_eqI) (auto simp: bit_simps)
  moreover have "(ucast (x OR y) :: u32) = ucast x OR ucast y" for x y :: u64
    by (rule bit_word_eqI) (auto simp: bit_simps)
  ultimately show ?case by (simp add: Cons)
qed simp

lemma decode_register: "ucast (gdb_decode_hex_str (hex_bytes (le_bytes 4 (w :: u32)))) = w"
proof -
  have "ucast (gdb_decode_hex_str (hex_bytes (le_bytes 4 w))) = (le_word (le_bytes 4 w) :: u32)"
    by (simp only: gdb_decode_hex_str_def decode_hex_loop_bytes add_0 mult_1 ucast_le_word)
  also have "\<dots> = w" by (simp add: le_word_le_bytes take_bit_word_eq_self)
  finally show ?thesis .
qed

definition registers_text :: "u32 list \<Rightarrow> u8 list" where
  "registers_text rs = hex_bytes (concat (map (le_bytes 4) rs))"

lemma hex_bytes_append: "hex_bytes (xs @ ys) = hex_bytes xs @ hex_bytes ys"
  by (simp add: hex_bytes_def)

lemma length_hex_bytes: "length (hex_bytes bs) = 2 * length bs"
  by (induction bs) (simp_all add: hex_bytes_def hex_pair_def)

lemma registers_text_window:
  "i < length rs \<Longrightarrow> take 8 (drop (8 * i) (registers_text rs)) = hex_bytes (le_bytes 4 (rs ! i))"
proof (induction rs arbitrary: i)
  case (Cons r rs)
  have c: "registers_text (r # rs) = hex_bytes (le_bytes 4 r) @ registers_text rs"
    by (simp add: registers_text_def hex_bytes_append del: le_bytes.simps)
  have l: "length (hex_bytes (le_bytes 4 r)) = 8" by (simp add: length_hex_bytes)
  show ?case
  proof (cases i)
    case 0
    then show ?thesis using c l by simp
  next
    case (Suc j)
    then show ?thesis using Cons c l by (simp add: drop_append)
  qed
qed simp

lemma registers_text_length: "length (registers_text rs) = 8 * length rs"
  by (induction rs) (simp_all add: registers_text_def length_hex_bytes del: le_bytes.simps)

lemma registers_text_plain: "\<forall>c \<in> set (registers_text rs). \<not> special c"
proof -
  have "\<not> special c" if "c_isxdigit c" for c using that by (auto simp: special_def c_isxdigit_def c_isdigit_def)
  moreover have "\<forall>c \<in> set (hex_bytes bs). c_isxdigit c" for bs
    by (auto simp: hex_bytes_def hex_pair_def decode_hex_pair)
  ultimately show ?thesis by (simp add: registers_text_def)
qed

lemma gdb_getregs_answered:
  assumes "g_ack conn" "g_in conn = answer (registers_text rs) @ rest"
  shows "\<exists>regs. gdb_getregs junk conn =
      Some (Inr (regs, conn\<lparr>g_in := rest, g_out := g_out conn @ send_packet (ascii ''g'') @ [43]\<rparr>)) \<and>
    length regs = 77 \<and> take (length rs) regs = take 77 rs"
proof -
  let ?regs = "map (\<lambda>i. ucast (gdb_decode_hex_str (map (reply_at junk (registers_text rs)) [8 * i..<8 * i + 8]))) [0..<77] :: u32 list"
  have w: "map (reply_at junk (registers_text rs)) [8 * i..<8 * i + 8] = hex_bytes (le_bytes 4 (rs ! i))" if "i < length rs" for i
  proof -
    have "map (reply_at junk (registers_text rs)) [8 * i..<8 * i + 8] = take 8 (drop (8 * i) (registers_text rs))"
      by (rule nth_equalityI) (use that in \<open>simp_all add: registers_text_length reply_at_def del: upt_conv_Cons\<close>)
    then show ?thesis using registers_text_window [OF that] by simp
  qed
  have "take (length rs) ?regs = take 77 rs"
  proof (rule nth_equalityI)
    fix i assume "i < length (take (length rs) ?regs)"
    then have i: "i < length rs" "i < 77" by simp_all
    then have "?regs ! i = ucast (gdb_decode_hex_str (hex_bytes (le_bytes 4 (rs ! i))))" using w by (simp del: upt_conv_Cons le_bytes.simps)
    then show "take (length rs) ?regs ! i = take 77 rs ! i"
      using i by (simp only: nth_take decode_register)
  qed simp
  moreover have "gdb_getregs junk conn =
      Some (Inr (?regs, conn\<lparr>g_in := rest, g_out := g_out conn @ send_packet (ascii ''g'') @ [43]\<rparr>))"
    using gdb_request_answered [OF assms registers_text_plain] by (simp add: gdb_getregs_def del: upt_conv_Cons)
  ultimately show ?thesis by (intro exI [of _ ?regs]) simp
qed

end
