(* ===== verification/Gdb_Properties.thy ===== *)
theory Gdb_Properties
  imports Gdb_Host_Correct
begin

text \<open>
  Properties of the client of the remote protocol and of QEMU as a reference through it.
\<close>

text \<open>
  C33: with acknowledgements, sending a command returns exactly if the peer sends a plus sign at some
  time; the command has then been written once for every byte up to it. At the end of the input
  without one it is repeated for ever. Without acknowledgements it is written once.
\<close>
theorem send_until_acknowledged:
  "gdb_send conn command =
    (if \<not> g_ack conn then Some (conn\<lparr>g_out := g_out conn @ send_packet command\<rparr>)
     else if 43 \<in> set (g_in conn) then Some (conn\<lparr>
       g_in := tl (dropWhile (\<lambda>c. c \<noteq> 43) (g_in conn)),
       g_out := g_out conn @
         concat (replicate (Suc (length (takeWhile (\<lambda>c. c \<noteq> 43) (g_in conn)))) (send_packet command))\<rparr>)
     else None)"
  using gdb_send_ack [of conn command] gdb_send_forever [of conn command] gdb_send_noack [of conn command]
  by (cases "gdb_send conn command") auto

text \<open>
  C34: receiving ends on every input, either with a packet, of which at least one byte has been read,
  or because the connection is closed; no input, however long or malformed, makes it leave its buffer,
  neither with a character, nor with repeated ones, nor with the terminator behind the last.
\<close>
theorem receiving_is_safe:
  "(\<exists>reply conn'. gdb_recv conn = Inr (reply, conn') \<and> length (g_in conn') < length (g_in conn)) \<or>
   gdb_recv conn = Inl (Exit 0)"
  by (rule gdb_recv_safe)

text \<open>
  C35: receiving gives the data that were encoded by escaping and run lengths, after any bytes before
  the start of the packet; packets with a wrong sum are refused one after the other with a minus
  sign, and the first correct one is acknowledged.
\<close>
theorem receives_what_was_encoded:
  assumes "g_ack conn" "g_in conn = concat (map packet_wire bad) @ packet_wire p @ rest"
    and "list_all packet_ok (p # bad)" "list_all (\<lambda>q. \<not> packet_sum_ok q) bad" "packet_sum_ok p"
  shows "gdb_recv conn =
    Inr (packet_data p, conn\<lparr>g_in := rest, g_out := g_out conn @ replicate (length bad) 45 @ [43]\<rparr>)"
  using gdb_recv_retries [OF assms] .

definition sample_packet :: wire_packet where
  "sample_packet = ([43], [(65, 3), (35, 0)], 48, 98)"

definition sample_damaged :: wire_packet where
  "sample_damaged = ([], [(65, 0)], 48, 48)"

theorem receives_what_was_encoded_witness:
  "gdb_recv (gdb_begin (packet_wire sample_damaged @ packet_wire sample_packet)) =
    Inr ([65, 65, 65, 65, 35], \<lparr>g_in = [], g_out = [43, 45, 43], g_ack = True\<rparr>)"
proof -
  have "list_all packet_ok [sample_packet, sample_damaged]" "\<not> packet_sum_ok sample_damaged"
    "packet_sum_ok sample_packet" "packet_data sample_packet = [65, 65, 65, 65, 35]"
    by - code_simp+
  then show ?thesis
    using receives_what_was_encoded [of "gdb_begin (packet_wire sample_damaged @ packet_wire sample_packet)"
      "[sample_damaged]" sample_packet "[]"]
    by (simp add: gdb_begin_def)
qed

text \<open>
  C36: copying a block to QEMU succeeds exactly if every request is answered with OK; the commands
  written, parsed and carried out by a server one after the other, store the whole block at its
  address, however many packets it takes.
\<close>
theorem memory_is_copied:
  assumes "g_ack conn" "g_in conn = concat (map answer replies) @ rest"
    and "length replies = length (memcpy_commands dest src)" "\<forall>r \<in> set replies. \<forall>c \<in> set r. \<not> special c"
    and "length src \<le> 2 ^ 32"
  shows "gdb_memcpy_to_qemu dest src conn = Some (Inr (list_all (\<lambda>r. reply_is r ''OK'') replies,
      conn\<lparr>g_in := rest, g_out := g_out conn @ concat (map (\<lambda>c. send_packet c @ [43]) (memcpy_commands dest src))\<rparr>)) \<and>
    fold serve (memcpy_commands dest src) m = put_block dest src m"
  using memcpy_loop_answered [OF assms(1-4), of True] serve_memcpy_commands [OF assms(5)]
  by (simp add: gdb_memcpy_to_qemu_def)

theorem memory_is_copied_witness:
  "gdb_memcpy_to_qemu 0x7c00 [1, 2] (gdb_begin (answer (ascii ''OK''))) =
    Some (Inr (True, \<lparr>g_in = [], g_out = [43] @ send_packet (ascii ''M0x7c00,2:0102'') @ [43], g_ack = True\<rparr>)) \<and>
   fold serve (memcpy_commands 0x7c00 [1, 2]) (\<lambda>_. 0) 0x7c01 = 2"
proof -
  have c: "memcpy_commands 0x7c00 [1, 2] = [ascii ''M0x7c00,2:0102'']"
    by (simp add: memcpy_commands.simps mtu_def memory_command_def hex_bytes_def hex_pair_def text_x.simps hex_encode_def)
  have s: "\<forall>c \<in> set (ascii ''OK''). \<not> special c" "reply_is (ascii ''OK'') ''OK''" by - code_simp+
  show ?thesis
    using memory_is_copied [of "gdb_begin (answer (ascii ''OK''))" "[ascii ''OK'']" "[]" "0x7c00" "[1, 2]" "\<lambda>_. 0"] c s
    by (simp add: gdb_begin_def put_block_def)
qed

text \<open>
  Copying registers from QEMU gives the words the server sent, little-endian, and leaves the
  rest of the buffer alone; copying them to QEMU sends the words of the program in place of the
  first ones read and all others as they are.
\<close>
lemma registers_are_copied:
  assumes "g_ack conn" "g_in conn = answer (registers_text rs) @ rest" "n \<le> length rs" "length rs \<le> 77"
  shows "(qemu_difftest_regcpy n junk dut False conn =
      Some (Inr (take n rs @ drop n dut,
        conn\<lparr>g_in := rest, g_out := g_out conn @ send_packet (ascii ''g'') @ [43]\<rparr>))) \<and>
    (\<exists>others. length others = 77 - length rs \<and>
      qemu_difftest_regcpy n junk dut True conn =
        bindT (gdb_setregs (take n dut @ drop n rs @ others)
            (conn\<lparr>g_in := rest, g_out := g_out conn @ send_packet (ascii ''g'') @ [43]\<rparr>))
          (\<lambda>(_, conn). Some (Inr (dut, conn))))"
proof -
  obtain regs where r: "gdb_getregs junk conn =
      Some (Inr (regs, conn\<lparr>g_in := rest, g_out := g_out conn @ send_packet (ascii ''g'') @ [43]\<rparr>))"
    "length regs = 77" "take (length rs) regs = take 77 rs"
    using gdb_getregs_answered [OF assms(1,2)] by blast
  have t: "take (length rs) regs = rs" using r(3) assms(4) by simp
  then have e: "regs = rs @ drop (length rs) regs" by (metis append_take_drop_id)
  have "take n regs = take n rs" using t assms(3) by (metis min.absorb1 take_take)
  moreover have "drop n regs = drop n rs @ drop (length rs) regs"
    by (subst e) (use assms(3) in simp)
  ultimately show ?thesis
    using r(1,2) by (auto simp: qemu_difftest_regcpy_def intro!: exI [of _ "drop (length rs) regs"])
qed

end
