(* ===== verification/Native_VM.thy ===== *)
theory Native_VM
  imports X86_VM Gdb_Host
begin

text \<open>
  Address spaces of the native port (\<^verbatim>\<open>am/src/native/vme.c\<close> and the mapping functions of \<^verbatim>\<open>platform.c\<close>): the
  program is a process of a host, physical memory is a file, and an address space is a list of pages that are
  mapped into the process when it is switched to. Structures are in a store by their address, one for each type.
  The host is a parameter: whether it grants a mapping or a hash table.
\<close>

section \<open>State\<close>

definition USER_START :: u64 where "USER_START = 0x40000000"
definition USER_END :: u64 where "USER_END = 0xc0000000"

definition in_user_space :: "u64 \<Rightarrow> bool" where
  "in_user_space a \<longleftrightarrow> USER_START \<le> a \<and> a < USER_END"

definition MMAP_READ :: u32 where "MMAP_READ = 1"

record PageMap =
  pm_va :: u64
  pm_pa :: u64
  pm_next :: u64
  pm_prot :: u32
  pm_mapped :: bool
  pm_key :: "u8 list"

text \<open>The table of \<^verbatim>\<open>hsearch_r\<close> holds at most as many entries as it was created for; an entry has a key and a pointer.\<close>

record VMHead =
  vh_head :: u64
  vh_size :: nat
  vh_hash :: "(u8 list \<times> u64) list"
  vh_nr :: int

record native_as =
  na_pgsize :: u64
  na_start :: u64
  na_end :: u64
  na_ptr :: u64

text \<open>
  \<open>nv_host\<close> is what the host has mapped in the process in pages of \<^verbatim>\<open>__am_pgsize\<close> bytes: the offset in the file and the
  protection. \<open>nv_cur\<close> is \<^verbatim>\<open>thiscpu->vm_head\<close>, \<open>nv_heap\<close> the state of the program's allocator.
\<close>

record 'g native_vm =
  nv_pages :: "u64 \<Rightarrow> PageMap"
  nv_heads :: "u64 \<Rightarrow> VMHead"
  nv_spaces :: "u64 \<Rightarrow> native_as"
  nv_enable :: bool
  nv_cur :: u64
  nv_host :: "u64 \<Rightarrow> (u64 \<times> u32) option"
  nv_pgalloc :: "(u64 \<Rightarrow> 'g \<Rightarrow> u64 \<times> 'g) option"
  nv_heap :: 'g

record native_env =
  ne_pgsize :: u64
  ne_pmem :: u64
  ne_mmap :: "u64 \<Rightarrow> u64 \<Rightarrow> u32 \<Rightarrow> bool"
  ne_hcreate :: "nat \<Rightarrow> bool"

section \<open>The host's mappings\<close>

definition PROT_NONE :: u32 where "PROT_NONE = 0"
definition PROT_READ :: u32 where "PROT_READ = 1"
definition PROT_WRITE :: u32 where "PROT_WRITE = 2"
definition PROT_EXEC :: u32 where "PROT_EXEC = 4"

definition mmap_prot :: "u32 \<Rightarrow> u32" where
  "mmap_prot prot =
     (let p = PROT_NONE;
          p = (if prot AND MMAP_READ \<noteq> 0 then p OR (PROT_READ OR PROT_EXEC) else p) in
      if prot AND MMAP_WRITE \<noteq> 0 then p OR PROT_WRITE else p)"

definition am_pmem_map :: "native_env \<Rightarrow> u64 \<Rightarrow> u64 \<Rightarrow> u32 \<Rightarrow> ('g, 'z) native_vm_scheme \<Rightarrow> ('g, 'z) native_vm_scheme res" where
  "am_pmem_map e va pa prot s =
     (let off = pa - ne_pmem e; mp = mmap_prot prot in
      guardR (ne_mmap e va off mp) AssertFail
       (Inr (s\<lparr>nv_host := (nv_host s)(va := Some (off, mp))\<rparr>)))"

definition am_pmem_unmap :: "u64 \<Rightarrow> ('g, 'z) native_vm_scheme \<Rightarrow> ('g, 'z) native_vm_scheme" where
  "am_pmem_unmap va s = s\<lparr>nv_host := (nv_host s)(va := None)\<rparr>"

section \<open>Address spaces\<close>

definition native_vme_init :: "(u64 \<Rightarrow> 'g \<Rightarrow> u64 \<times> 'g) \<Rightarrow> ('g, 'z) native_vm_scheme \<Rightarrow> bool \<times> ('g, 'z) native_vm_scheme" where
  "native_vme_init pgalloc s = (True, s\<lparr>nv_pgalloc := Some pgalloc, nv_enable := True\<rparr>)"

text \<open>A call of the allocator through its pointer, null before \<^verbatim>\<open>vme_init\<close>.\<close>

definition call_pgalloc :: "native_env \<Rightarrow> ('g, 'z) native_vm_scheme \<Rightarrow> (u64 \<times> ('g, 'z) native_vm_scheme) res" where
  "call_pgalloc e s =
     (case nv_pgalloc s of
        None \<Rightarrow> Inl Undef
      | Some f \<Rightarrow> let (p, g) = f (ne_pgsize e) (nv_heap s) in Inr (p, s\<lparr>nv_heap := g\<rparr>))"

definition native_protect :: "native_env \<Rightarrow> u64 \<Rightarrow> ('g, 'z) native_vm_scheme \<Rightarrow> ('g, 'z) native_vm_scheme res" where
  "native_protect e asp s =
     guardR (asp \<noteq> 0) AssertFail
      (bindR (call_pgalloc e s) (\<lambda>(h, s).
       guardR (h \<noteq> 0) AssertFail
        (let max_pg = unat ((USER_END - USER_START) div ne_pgsize e) in
         guardR (ne_hcreate e max_pg) AssertFail
          (Inr (s\<lparr>nv_heads := (nv_heads s)(h := \<lparr>vh_head = 0, vh_size = max_pg, vh_hash = [], vh_nr = 0\<rparr>),
             nv_spaces := (nv_spaces s)(asp :=
               \<lparr>na_pgsize = ne_pgsize e, na_start = USER_START, na_end = USER_END, na_ptr = h\<rparr>)\<rparr>)))))"

definition native_unprotect :: "u64 \<Rightarrow> ('g, 'z) native_vm_scheme \<Rightarrow> ('g, 'z) native_vm_scheme" where
  "native_unprotect asp s = s"

text \<open>The loops over the pages of a list; they end if the list does.\<close>

partial_function (option) unmap_pages :: "u64 \<Rightarrow> ('g, 'z) native_vm_scheme \<Rightarrow> ('g, 'z) native_vm_scheme option" where
  "unmap_pages p s =
     (if p = 0 then Some s
      else let s = (if pm_mapped (nv_pages s p)
                    then let s = am_pmem_unmap (pm_va (nv_pages s p)) s in
                         s\<lparr>nv_pages := (nv_pages s)(p := (nv_pages s p)\<lparr>pm_mapped := False\<rparr>)\<rparr>
                    else s) in
           unmap_pages (pm_next (nv_pages s p)) s)"

definition map_page :: "native_env \<Rightarrow> u64 \<Rightarrow> ('g, 'z) native_vm_scheme \<Rightarrow> ('g, 'z) native_vm_scheme res" where
  "map_page e p s =
     bindR (am_pmem_map e (pm_va (nv_pages s p)) (pm_pa (nv_pages s p)) (pm_prot (nv_pages s p)) s) (\<lambda>s.
     Inr (s\<lparr>nv_pages := (nv_pages s)(p := (nv_pages s p)\<lparr>pm_mapped := True\<rparr>)\<rparr>))"

partial_function (option) map_pages :: "native_env \<Rightarrow> u64 \<Rightarrow> ('g, 'z) native_vm_scheme \<Rightarrow> ('g, 'z) native_vm_scheme res option" where
  "map_pages e p s =
     (if p = 0 then Some (Inr s)
      else case guardR (in_user_space (pm_va (nv_pages s p))) AssertFail (map_page e p s) of
        Inl err \<Rightarrow> Some (Inl err)
      | Inr s \<Rightarrow> map_pages e (pm_next (nv_pages s p)) s)"

text \<open>\<^verbatim>\<open>__am_switch\<close> to the address space of a context; it reads nothing else of the context.\<close>

definition native_switch :: "native_env \<Rightarrow> u64 \<Rightarrow> ('g, 'z) native_vm_scheme \<Rightarrow> ('g, 'z) native_vm_scheme res option" where
  "native_switch e h s =
     (if \<not> nv_enable s then Some (Inr s)
      else if h = nv_cur s then Some (Inr (s\<lparr>nv_cur := h\<rparr>))
      else case (if nv_cur s \<noteq> 0 then unmap_pages (vh_head (nv_heads s (nv_cur s))) s else Some s) of
        None \<Rightarrow> None
      | Some s \<Rightarrow>
          (case (if h \<noteq> 0 then map_pages e (vh_head (nv_heads s h)) s else Some (Inr s)) of
             None \<Rightarrow> None
           | Some (Inl err) \<Rightarrow> Some (Inl err)
           | Some (Inr s) \<Rightarrow> Some (Inr (s\<lparr>nv_cur := h\<rparr>))))"

text \<open>The key of a page: \<^verbatim>\<open>%x\<close> prints the low 32 bits of the pointer.\<close>

definition page_key :: "u64 \<Rightarrow> u8 list" where
  "page_key va = text_x (unat (ucast va :: u32))"

text \<open>Finding the page of an address in the table, or entering a new one.\<close>

definition find_page :: "native_env \<Rightarrow> u64 \<Rightarrow> u64 \<Rightarrow> ('g, 'z) native_vm_scheme \<Rightarrow> (u64 \<times> ('g, 'z) native_vm_scheme) res" where
  "find_page e h va s =
     (case map_of (vh_hash (nv_heads s h)) (page_key va) of
        Some p \<Rightarrow> Inr (p, s)
      | None \<Rightarrow>
          bindR (call_pgalloc e s) (\<lambda>(p, s).
          guardR (p \<noteq> 0) Undef
           (let s = s\<lparr>nv_pages := (nv_pages s)(p := (nv_pages s p)\<lparr>pm_key := page_key va\<rparr>)\<rparr>; d = nv_heads s h in
            guardR (length (vh_hash d) < vh_size d) AssertFail
             (Inr (p, s\<lparr>nv_heads := (nv_heads s)(h := d\<lparr>vh_hash := vh_hash d @ [(page_key va, p)], vh_nr := vh_nr d + 1\<rparr>)\<rparr>)))))"

definition native_map :: "native_env \<Rightarrow> u64 \<Rightarrow> u64 \<Rightarrow> u64 \<Rightarrow> u32 \<Rightarrow> ('g, 'z) native_vm_scheme \<Rightarrow> ('g, 'z) native_vm_scheme res" where
  "native_map e asp va pa prot s =
     guardR (in_user_space va) AssertFail
     (guardR (va mod ne_pgsize e = 0) AssertFail
     (guardR (pa mod ne_pgsize e = 0) AssertFail
     (guardR (asp \<noteq> 0) AssertFail
      (let h = na_ptr (nv_spaces s asp) in
       guardR (h \<noteq> 0) AssertFail
        (bindR (find_page e h va s) (\<lambda>(p, s).
         let d = nv_heads s h;
             s = s\<lparr>nv_pages := (nv_pages s)(p := (nv_pages s p)\<lparr>pm_va := va, pm_pa := pa, pm_prot := prot,
                     pm_mapped := False, pm_next := vh_head d\<rparr>),
                   nv_heads := (nv_heads s)(h := d\<lparr>vh_head := p\<rparr>)\<rparr> in
         if h = nv_cur s then map_page e p s else Inr s))))))"

definition am_in_userspace :: "u64 \<Rightarrow> ('g, 'z) native_vm_scheme \<Rightarrow> bool" where
  "am_in_userspace a s \<longleftrightarrow> nv_enable s \<and> nv_cur s \<noteq> 0 \<and> in_user_space a"

end
