(* ===== verification/Native_CTE.thy ===== *)
theory Native_CTE
  imports Native_VM
begin

text \<open>
  Exceptions of the native port (\<^verbatim>\<open>am/src/native/cte.c\<close>, with the context template and signal masks of
  \<^verbatim>\<open>platform.c\<close> and the entry of threads in \<^verbatim>\<open>trap.S\<close>). An exception is a signal of the host: it saves the running
  context in a \<^verbatim>\<open>ucontext_t\<close>, calls the handler and continues with what the handler has made of it. Contexts are in a
  store by their address; the addresses of the program's code and the size of a context are parameters.
\<close>

section \<open>Signals and contexts\<close>

datatype signal = SIGUSR1 | SIGUSR2 | SIGVTALRM | SIGSEGV | Other_signal nat

definition SEGV_MAPERR :: u64 where "SEGV_MAPERR = 1"
definition SEGV_ACCERR :: u64 where "SEGV_ACCERR = 2"

record siginfo =
  si_code :: u64
  si_addr :: u64

definition REG_RDI :: nat where "REG_RDI = 8"
definition REG_RSI :: nat where "REG_RSI = 9"
definition REG_RSP :: nat where "REG_RSP = 15"
definition REG_RIP :: nat where "REG_RIP = 16"

record host_context =
  uc_gregs :: "nat \<Rightarrow> u64"
  uc_mask :: "signal \<Rightarrow> bool"
  uc_fpregs :: u64

definition uc_set :: "nat \<Rightarrow> u64 \<Rightarrow> host_context \<Rightarrow> host_context" where
  "uc_set r v uc = uc\<lparr>uc_gregs := (uc_gregs uc)(r := v)\<rparr>"

record native_context =
  nc_ksp :: u64
  nc_vm :: u64
  nc_uc :: host_context

record native_event =
  nev_id :: event_id
  nev_cause :: u64
  nev_ref :: u64
  nev_msg :: u64

record 'g native = "'g native_vm" +
  nv_ctx :: "u64 \<Rightarrow> native_context"
  nv_ksp :: u64
  nv_ev :: native_event
  nv_example :: host_context

record native_text =
  nt_start :: u64
  nt_etext :: u64
  nt_sigret :: u64
  nt_ctxsize :: u64
  nt_irq :: u64
  nt_kstart :: u64
  nt_strsignal :: "signal \<Rightarrow> u64"

type_synonym 'g native_handler = "native_event \<Rightarrow> u64 \<Rightarrow> 'g native \<Rightarrow> (u64 \<times> 'g native) res"

section \<open>Signal masks\<close>

definition am_intr_sigmask :: "signal \<Rightarrow> bool" where
  "am_intr_sigmask sg \<longleftrightarrow> sg = SIGVTALRM \<or> sg = SIGUSR1"

definition am_is_sigmask_sti :: "(signal \<Rightarrow> bool) \<Rightarrow> bool" where
  "am_is_sigmask_sti m \<longleftrightarrow> \<not> m SIGVTALRM"

definition native_ienabled :: "host_context \<Rightarrow> bool" where
  "native_ienabled uc = am_is_sigmask_sti (uc_mask uc)"

definition native_iset :: "bool \<Rightarrow> host_context \<Rightarrow> host_context" where
  "native_iset enable uc =
     uc\<lparr>uc_mask := (\<lambda>sg. if enable then uc_mask uc sg \<and> \<not> am_intr_sigmask sg else uc_mask uc sg \<or> am_intr_sigmask sg)\<rparr>"

section \<open>The signal handler\<close>

definition SYSCALL_INSTR_LEN :: u64 where "SYSCALL_INSTR_LEN = 7"

definition setup_stack :: "native_text \<Rightarrow> event_id \<Rightarrow> host_context \<Rightarrow> 'g native \<Rightarrow> host_context \<times> 'g native" where
  "setup_stack t ev uc s =
     (let rip = uc_gregs uc REG_RIP;
          from_user = am_in_userspace rip s;
          safe = nt_start t \<le> rip \<and> rip < nt_etext t \<or> from_user \<or> rip = nt_sigret t in
      if (ev = EVENT_IRQ_IODEV \<or> ev = EVENT_IRQ_TIMER) \<and> \<not> safe then (uc, s)
      else
        let rip = (if ev = EVENT_SYSCALL then rip + SYSCALL_INSTR_LEN else rip);
            uc = uc_set REG_RIP rip uc;
            rsp = (if from_user then nv_ksp s else uc_gregs uc REG_RSP) - nt_ctxsize t;
            c = (if (rsp + 8) mod 16 \<noteq> 0 then rsp - 8 else rsp);
            s = s\<lparr>nv_ctx := (nv_ctx s)(c := (nv_ctx s c)\<lparr>nc_uc := uc\<rparr>)\<rparr>;
            uc = uc\<lparr>uc_mask := am_intr_sigmask\<rparr> in
        (uc_set REG_RSP c (uc_set REG_RIP (nt_irq t) (uc_set REG_RDI c uc)), s))"

definition native_iret :: "host_context \<Rightarrow> 'g native \<Rightarrow> host_context \<times> 'g native" where
  "native_iret uc s = (let c = nv_ctx s (uc_gregs uc REG_RDI) in (nc_uc c, s\<lparr>nv_ksp := nc_ksp c\<rparr>))"

text \<open>The event of a signal, before the fields of an error are set; a fault at 0x100008 is not an event.\<close>

definition signal_event :: "signal \<Rightarrow> siginfo \<Rightarrow> 'g native \<Rightarrow> native_event res" where
  "signal_event sg info s =
     (let ev = \<lparr>nev_id = EVENT_ERROR, nev_cause = 0, nev_ref = 0, nev_msg = 0\<rparr> in
      case sg of
        SIGUSR1 \<Rightarrow> Inr (ev\<lparr>nev_id := EVENT_IRQ_IODEV\<rparr>)
      | SIGUSR2 \<Rightarrow> Inr (ev\<lparr>nev_id := EVENT_YIELD\<rparr>)
      | SIGVTALRM \<Rightarrow> Inr (ev\<lparr>nev_id := EVENT_IRQ_TIMER\<rparr>)
      | SIGSEGV \<Rightarrow>
          let ev = (if si_code info = SEGV_ACCERR \<and> si_addr info = 0x100000 then ev\<lparr>nev_id := EVENT_SYSCALL\<rparr> else ev) in
          if am_in_userspace (si_addr info) s
          then guardR (nev_id ev = EVENT_ERROR) AssertFail
            (guardR (si_code info = SEGV_MAPERR \<or> si_code info = SEGV_ACCERR) AssertFail
              (Inr (ev\<lparr>nev_id := EVENT_PAGEFAULT, nev_cause := (if si_code info = SEGV_MAPERR then 1 else 2),
                 nev_ref := si_addr info\<rparr>)))
          else Inr ev
      | Other_signal _ \<Rightarrow> Inr ev)"

definition sig_handler :: "native_text \<Rightarrow> signal \<Rightarrow> siginfo \<Rightarrow> host_context \<Rightarrow> 'g native \<Rightarrow> (host_context \<times> 'g native) res" where
  "sig_handler t sg info uc s =
     (if sg = SIGSEGV \<and> si_code info = SEGV_ACCERR \<and> si_addr info = 0x100008
      then Inr (native_iret uc (s\<lparr>nv_ev := \<lparr>nev_id = EVENT_ERROR, nev_cause = 0, nev_ref = 0, nev_msg = 0\<rparr>\<rparr>))
      else bindR (signal_event sg info s) (\<lambda>ev.
        let ev = (if nev_id ev = EVENT_ERROR
                  then ev\<lparr>nev_ref := si_addr info, nev_cause := si_code info, nev_msg := nt_strsignal t sg\<rparr> else ev) in
        Inr (setup_stack t (nev_id ev) uc (s\<lparr>nv_ev := ev\<rparr>))))"

section \<open>Handling and resuming\<close>

text \<open>\<^verbatim>\<open>irq_handle\<close> until its magic call, which has the context as its argument.\<close>

definition native_irq_handle :: "native_env \<Rightarrow> 'g native_handler option \<Rightarrow> u64 \<Rightarrow> 'g native \<Rightarrow> (u64 \<times> 'g native) res option" where
  "native_irq_handle e user_handler c s =
     (let s = s\<lparr>nv_ctx := (nv_ctx s)(c := (nv_ctx s c)\<lparr>nc_vm := nv_cur s, nc_ksp := nv_ksp s\<rparr>)\<rparr> in
      case guardR (nev_id (nv_ev s) \<noteq> EVENT_ERROR) AssertFail
          (case user_handler of None \<Rightarrow> Inl Undef
           | Some f \<Rightarrow> bindR (f (nv_ev s) c s) (\<lambda>(c, s). guardR (c \<noteq> 0) AssertFail (Inr (c, s)))) of
        Inl err \<Rightarrow> Some (Inl err)
      | Inr (c, s) \<Rightarrow>
          (case native_switch e (nc_vm (nv_ctx s c)) s of
             None \<Rightarrow> None
           | Some (Inl err) \<Rightarrow> Some (Inl err)
           | Some (Inr s) \<Rightarrow> Some (Inr (c, s))))"

text \<open>
  What a signal does to the running context. If its handler has directed the context to \<^verbatim>\<open>irq_handle\<close>, that runs, and
  its magic call of 0x100008 is a second signal; \<open>junk\<close> is the context of that call but for its argument.
\<close>

definition native_signal :: "native_env \<Rightarrow> native_text \<Rightarrow> 'g native_handler option \<Rightarrow> host_context \<Rightarrow> signal \<Rightarrow> siginfo \<Rightarrow>
    host_context \<Rightarrow> 'g native \<Rightarrow> (host_context \<times> 'g native) res option" where
  "native_signal e t user_handler junk sg info uc s =
     (case sig_handler t sg info uc s of
        Inl err \<Rightarrow> Some (Inl err)
      | Inr (uc, s) \<Rightarrow>
          if uc_gregs uc REG_RIP \<noteq> nt_irq t then Some (Inr (uc, s))
          else
            (case native_irq_handle e user_handler (uc_gregs uc REG_RDI) s of
               None \<Rightarrow> None
             | Some (Inl err) \<Rightarrow> Some (Inl err)
             | Some (Inr (c, s)) \<Rightarrow>
                 Some (sig_handler t SIGSEGV \<lparr>si_code = SEGV_ACCERR, si_addr = 0x100008\<rparr> (uc_set REG_RDI c junk) s)))"

definition native_yield :: "native_env \<Rightarrow> native_text \<Rightarrow> 'g native_handler option \<Rightarrow> host_context \<Rightarrow>
    host_context \<Rightarrow> 'g native \<Rightarrow> (host_context \<times> 'g native) res option" where
  "native_yield e t user_handler junk uc s = native_signal e t user_handler junk SIGUSR2 \<lparr>si_code = 0, si_addr = 0\<rparr> uc s"

section \<open>Contexts of threads\<close>

definition native_kcontext :: "native_text \<Rightarrow> u64 \<Rightarrow> u64 \<Rightarrow> u64 \<Rightarrow> 'g native \<Rightarrow> u64 \<times> 'g native" where
  "native_kcontext t kend entry arg s =
     (let c = kend - nt_ctxsize t;
          uc = uc_set REG_RSP kend (uc_set REG_RIP (nt_kstart t) (nv_example s));
          uc = uc\<lparr>uc_mask := \<lambda>_. False\<rparr>;
          uc = uc_set REG_RSI entry (uc_set REG_RDI arg uc) in
      (c, s\<lparr>nv_ctx := (nv_ctx s)(c := (nv_ctx s c)\<lparr>nc_uc := uc, nc_vm := 0\<rparr>)\<rparr>))"

definition native_ucontext :: "native_text \<Rightarrow> u64 \<Rightarrow> u64 \<Rightarrow> u64 \<Rightarrow> 'g native \<Rightarrow> u64 \<times> 'g native" where
  "native_ucontext t asp kend entry s =
     (let c = kend - nt_ctxsize t;
          uc = uc_set REG_RSP USER_END (uc_set REG_RIP entry (nv_example s)) in
      (c, s\<lparr>nv_ctx := (nv_ctx s)(c := \<lparr>nc_ksp = kend, nc_vm = na_ptr (nv_spaces s asp), nc_uc = uc\<lparr>uc_mask := \<lambda>_. False\<rparr>\<rparr>)\<rparr>))"

text \<open>\<^verbatim>\<open>__am_kcontext_start\<close>, at whose address the context starts, until the entry of the thread is called.\<close>

definition native_kcontext_start :: "host_context \<Rightarrow> host_context" where
  "native_kcontext_start uc =
     (let sp = uc_gregs uc REG_RSP AND 0xfffffffffffffff0 in
      uc_set REG_RIP (uc_gregs uc REG_RSI) (uc_set REG_RSP (sp - 8) uc))"

end
