(* ===== verification/Native_VM_Correct.thy ===== *)
theory Native_VM_Correct
  imports Native_VM Gdb_Host_Correct
begin

text \<open>
  What the native address spaces are: lists of pages in the store, whose meaning is a partial function from
  addresses to offsets and protections. The loops over a list return exactly if it ends; switching leaves the host
  with the mappings of the space switched to.
\<close>

section \<open>Lists of pages\<close>

fun plist :: "(u64 \<Rightarrow> PageMap) \<Rightarrow> u64 \<Rightarrow> u64 list \<Rightarrow> bool" where
  "plist pg p [] \<longleftrightarrow> p = 0"
| "plist pg p (q # qs) \<longleftrightarrow> p = q \<and> q \<noteq> 0 \<and> plist pg (pm_next (pg q)) qs"

lemma plist_cong: "(\<And>q. q \<in> set qs \<Longrightarrow> pm_next (pg q) = pm_next (pg' q)) \<Longrightarrow> plist pg p qs = plist pg' p qs"
  by (induction qs arbitrary: p) auto

lemma plist_unique: "plist pg p qs \<Longrightarrow> plist pg p rs \<Longrightarrow> qs = rs"
proof (induction qs arbitrary: p rs)
  case Nil
  then show ?case by (cases rs) auto
next
  case (Cons q qs)
  then show ?case by (cases rs) auto
qed

lemma plist_suffix: "plist pg p (qs @ rs) \<Longrightarrow> \<exists>r. plist pg r rs"
  by (induction qs arbitrary: p) auto

lemma plist_distinct: "plist pg p qs \<Longrightarrow> distinct qs"
proof (induction qs arbitrary: p)
  case (Cons q qs)
  have "q \<notin> set qs"
  proof
    assume "q \<in> set qs"
    then obtain xs ys where s: "qs = xs @ q # ys" by (auto simp: in_set_conv_decomp)
    then have l: "plist pg (pm_next (pg q)) (xs @ q # ys)" using Cons.prems by simp
    with plist_suffix [of pg _ xs "q # ys"] have "plist pg q (q # ys)" by auto
    moreover have "plist pg q (q # xs @ q # ys)" using Cons.prems l by simp
    ultimately have "q # ys = q # xs @ q # ys" by (rule plist_unique)
    then show False by simp
  qed
  then show ?case using Cons by auto
qed simp

section \<open>The loops\<close>

definition unmap_one :: "u64 \<Rightarrow> ('g, 'z) native_vm_scheme \<Rightarrow> ('g, 'z) native_vm_scheme" where
  "unmap_one p s = (if pm_mapped (nv_pages s p)
     then let s = am_pmem_unmap (pm_va (nv_pages s p)) s in
          s\<lparr>nv_pages := (nv_pages s)(p := (nv_pages s p)\<lparr>pm_mapped := False\<rparr>)\<rparr>
     else s)"

lemma unmap_one_pages [simp]:
  "nv_pages (unmap_one p s) = (nv_pages s)(p := (nv_pages s p)\<lparr>pm_mapped := False\<rparr>)"
  by (auto simp: unmap_one_def am_pmem_unmap_def Let_def fun_eq_iff)

lemma unmap_one_host [simp]:
  "nv_host (unmap_one p s) = (if pm_mapped (nv_pages s p) then (nv_host s)(pm_va (nv_pages s p) := None) else nv_host s)"
  by (simp add: unmap_one_def am_pmem_unmap_def Let_def)

lemma unmap_one_rest [simp]:
  "nv_heads (unmap_one p s) = nv_heads s" "nv_spaces (unmap_one p s) = nv_spaces s" "nv_enable (unmap_one p s) = nv_enable s"
  "native_vm.more (unmap_one p s) = native_vm.more s" "nv_cur (unmap_one p s) = nv_cur s" "nv_pgalloc (unmap_one p s) = nv_pgalloc s" "nv_heap (unmap_one p s) = nv_heap s"
  by (simp_all add: unmap_one_def am_pmem_unmap_def Let_def)

lemma unmap_pages_step: "p \<noteq> 0 \<Longrightarrow> unmap_pages p s = unmap_pages (pm_next (nv_pages s p)) (unmap_one p s)"
  by (subst unmap_pages.simps) (auto simp: unmap_one_def am_pmem_unmap_def Let_def)

lemma unmap_pages_list: "plist (nv_pages s) p ps \<Longrightarrow> unmap_pages p s = Some (fold unmap_one ps s)"
proof (induction ps arbitrary: p s)
  case Nil
  then show ?case by (subst unmap_pages.simps) simp
next
  case (Cons q ps)
  have "plist (nv_pages (unmap_one q s)) (pm_next (nv_pages s q)) ps"
    using Cons.prems by (subst plist_cong [of _ _ "nv_pages s"]) auto
  from Cons.IH [OF this] show ?case using Cons.prems by (simp add: unmap_pages_step)
qed

lemma fold_unmap_rest [simp]:
  "nv_heads (fold unmap_one ps s) = nv_heads s" "nv_spaces (fold unmap_one ps s) = nv_spaces s"
  "nv_enable (fold unmap_one ps s) = nv_enable s" "nv_cur (fold unmap_one ps s) = nv_cur s"
  "nv_pgalloc (fold unmap_one ps s) = nv_pgalloc s" "nv_heap (fold unmap_one ps s) = nv_heap s"
  "native_vm.more (fold unmap_one ps s) = native_vm.more s"
  by (induction ps arbitrary: s) simp_all

lemma fold_unmap_pages:
  "nv_pages (fold unmap_one ps s) = (\<lambda>q. if q \<in> set ps then (nv_pages s q)\<lparr>pm_mapped := False\<rparr> else nv_pages s q)"
  by (induction ps arbitrary: s) (auto simp: fun_eq_iff)

lemma fold_unmap_host:
  assumes "distinct ps" "\<forall>q \<in> set ps. pm_mapped (nv_pages s q)"
  shows "nv_host (fold unmap_one ps s) = (\<lambda>a. if a \<in> (\<lambda>q. pm_va (nv_pages s q)) ` set ps then None else nv_host s a)"
  using assms
proof (induction ps arbitrary: s)
  case (Cons q ps)
  have m: "(\<lambda>r. pm_va (nv_pages (unmap_one q s) r)) ` set ps = (\<lambda>r. pm_va (nv_pages s r)) ` set ps"
    by (rule image_cong) auto
  have "\<forall>r \<in> set ps. pm_mapped (nv_pages (unmap_one q s) r)" using Cons.prems by auto
  then show ?case using Cons.IH [of "unmap_one q s"] Cons.prems unfolding m by (auto simp: fun_eq_iff)
qed simp

fun map_all :: "native_env \<Rightarrow> u64 list \<Rightarrow> ('g, 'z) native_vm_scheme \<Rightarrow> ('g, 'z) native_vm_scheme res" where
  "map_all e [] s = Inr s"
| "map_all e (q # qs) s = bindR (guardR (in_user_space (pm_va (nv_pages s q))) AssertFail (map_page e q s)) (map_all e qs)"

definition mapped_one :: "native_env \<Rightarrow> u64 \<Rightarrow> ('g, 'z) native_vm_scheme \<Rightarrow> ('g, 'z) native_vm_scheme" where
  "mapped_one e q s = s\<lparr>nv_pages := (nv_pages s)(q := (nv_pages s q)\<lparr>pm_mapped := True\<rparr>),
     nv_host := (nv_host s)(pm_va (nv_pages s q) \<mapsto>
       (pm_pa (nv_pages s q) - ne_pmem e, mmap_prot (pm_prot (nv_pages s q))))\<rparr>"

definition granted :: "native_env \<Rightarrow> PageMap \<Rightarrow> bool" where
  "granted e g \<longleftrightarrow> ne_mmap e (pm_va g) (pm_pa g - ne_pmem e) (mmap_prot (pm_prot g))"

lemma map_page_eq: "map_page e q s = guardR (granted e (nv_pages s q)) AssertFail (Inr (mapped_one e q s))"
  by (simp add: map_page_def am_pmem_map_def granted_def mapped_one_def Let_def guardR_def)

lemma map_pages_list: "plist (nv_pages s) p ps \<Longrightarrow> map_pages e p s = Some (map_all e ps s)"
proof (induction ps arbitrary: p s)
  case Nil
  then show ?case by (subst map_pages.simps) simp
next
  case (Cons q ps)
  have l: "plist (nv_pages (mapped_one e q s)) (pm_next (nv_pages s q)) ps"
    using Cons.prems by (subst plist_cong [of _ _ "nv_pages s"]) (auto simp: mapped_one_def)
  have n: "pm_next (nv_pages (mapped_one e q s) q) = pm_next (nv_pages s q)" by (simp add: mapped_one_def)
  show ?case using Cons.prems Cons.IH [OF l] n
    by (subst map_pages.simps) (auto simp: map_page_eq guardR_def)
qed

lemma fold_mapped_rest [simp]:
  "nv_heads (fold (mapped_one e) ps s) = nv_heads s" "nv_spaces (fold (mapped_one e) ps s) = nv_spaces s"
  "nv_enable (fold (mapped_one e) ps s) = nv_enable s" "nv_cur (fold (mapped_one e) ps s) = nv_cur s"
  "nv_pgalloc (fold (mapped_one e) ps s) = nv_pgalloc s" "nv_heap (fold (mapped_one e) ps s) = nv_heap s"
  "native_vm.more (fold (mapped_one e) ps s) = native_vm.more s"
  by (induction ps arbitrary: s) (simp_all add: mapped_one_def)

lemma fold_mapped_pages:
  "nv_pages (fold (mapped_one e) ps s) = (\<lambda>q. if q \<in> set ps then (nv_pages s q)\<lparr>pm_mapped := True\<rparr> else nv_pages s q)"
  by (induction ps arbitrary: s) (auto simp: fun_eq_iff mapped_one_def)

lemma granted_mapped [simp]: "granted e (g\<lparr>pm_mapped := b\<rparr>) = granted e g"
  by (simp add: granted_def)

lemma map_all_eq:
  "map_all e ps s = (if \<forall>q \<in> set ps. in_user_space (pm_va (nv_pages s q)) \<and> granted e (nv_pages s q)
     then Inr (fold (mapped_one e) ps s) else Inl AssertFail)"
proof (induction ps arbitrary: s)
  case (Cons q ps)
  have p: "pm_va (nv_pages (mapped_one e q s) r) = pm_va (nv_pages s r)"
    "granted e (nv_pages (mapped_one e q s) r) = granted e (nv_pages s r)" for r
    by (simp_all add: mapped_one_def)
  show ?case by (simp add: map_page_eq guardR_def Cons.IH p)
qed simp

text \<open>The meaning of a list: what is mapped where.\<close>

definition page_entry :: "native_env \<Rightarrow> PageMap \<Rightarrow> u64 \<times> u64 \<times> u32" where
  "page_entry e g = (pm_va g, pm_pa g - ne_pmem e, mmap_prot (pm_prot g))"

definition space_of :: "native_env \<Rightarrow> (u64 \<Rightarrow> PageMap) \<Rightarrow> u64 list \<Rightarrow> u64 \<Rightarrow> (u64 \<times> u32) option" where
  "space_of e pg ps = map_of (map (\<lambda>q. page_entry e (pg q)) ps)"

lemma page_entry_mapped [simp]: "page_entry e (g\<lparr>pm_mapped := b\<rparr>) = page_entry e g"
  by (simp add: page_entry_def)

lemma space_of_cong: "(\<And>q. q \<in> set ps \<Longrightarrow> page_entry e (pg q) = page_entry e (pg' q)) \<Longrightarrow> space_of e pg ps = space_of e pg' ps"
  unfolding space_of_def by (rule arg_cong [of _ _ map_of]) simp

lemma dom_space_of: "dom (space_of e pg ps) = (\<lambda>q. pm_va (pg q)) ` set ps"
  by (simp add: space_of_def dom_map_of_conv_image_fst image_image page_entry_def)

lemma fold_mapped_host:
  "distinct (map (\<lambda>q. pm_va (nv_pages s q)) ps) \<Longrightarrow> nv_host (fold (mapped_one e) ps s) = nv_host s ++ space_of e (nv_pages s) ps"
proof (induction ps arbitrary: s)
  case (Cons q ps)
  have e: "space_of e (nv_pages (mapped_one e q s)) ps = space_of e (nv_pages s) ps"
    by (rule space_of_cong) (auto simp: mapped_one_def)
  have v: "map (\<lambda>r. pm_va (nv_pages (mapped_one e q s) r)) ps = map (\<lambda>r. pm_va (nv_pages s r)) ps"
    by (auto simp: mapped_one_def)
  have n: "pm_va (nv_pages s q) \<notin> dom (space_of e (nv_pages s) ps)" using Cons.prems by (auto simp: dom_space_of)
  have h: "nv_host (mapped_one e q s) = (nv_host s)(pm_va (nv_pages s q) \<mapsto>
       (pm_pa (nv_pages s q) - ne_pmem e, mmap_prot (pm_prot (nv_pages s q))))"
    by (simp add: mapped_one_def)
  have "nv_host (fold (mapped_one e) (q # ps) s) = nv_host (mapped_one e q s) ++ space_of e (nv_pages s) ps"
    using Cons.IH [of "mapped_one e q s"] Cons.prems v e by simp
  also have "\<dots> = nv_host s ++ space_of e (nv_pages s) (q # ps)"
    using n by (auto simp: h space_of_def page_entry_def fun_eq_iff map_add_def split: option.splits)
  finally show ?case .
qed (simp add: space_of_def)

section \<open>Well-formed states\<close>

text \<open>The size of a page divides the limits of user space, and the host grants what it is asked for.\<close>

definition env_ok :: "native_env \<Rightarrow> bool" where
  "env_ok e \<longleftrightarrow> unat (ne_pgsize e) dvd 2 ^ 30 \<and> (\<forall>v off p. ne_mmap e v off p) \<and> (\<forall>n. ne_hcreate e n)"

text \<open>
  The allocator gives memory that is not in use; \<open>u\<close> is what it has given. It returns a null pointer only when it has
  no memory left, and has enough for \<open>r\<close> calls.
\<close>

definition fresh_alloc :: "native_env \<Rightarrow> ('g \<Rightarrow> u64 set) \<Rightarrow> ('g \<Rightarrow> nat) \<Rightarrow> (u64 \<Rightarrow> 'g \<Rightarrow> u64 \<times> 'g) \<Rightarrow> bool" where
  "fresh_alloc e u r f \<longleftrightarrow>
     (\<forall>g p g'. f (ne_pgsize e) g = (p, g') \<longrightarrow> u g \<subseteq> u g' \<and> r g \<le> Suc (r g') \<and>
        (p \<noteq> 0 \<longrightarrow> p \<notin> u g \<and> p \<in> u g') \<and> (0 < r g \<longrightarrow> p \<noteq> 0))"

definition head_of :: "('g, 'z) native_vm_scheme \<Rightarrow> u64 \<Rightarrow> u64" where
  "head_of s a = na_ptr (nv_spaces s a)"

definition max_pages :: "native_env \<Rightarrow> nat" where
  "max_pages e = unat ((USER_END - USER_START) div ne_pgsize e)"

definition page_ok :: "native_env \<Rightarrow> bool \<Rightarrow> PageMap \<Rightarrow> bool" where
  "page_ok e b g \<longleftrightarrow> in_user_space (pm_va g) \<and> pm_va g mod ne_pgsize e = 0 \<and> pm_mapped g = b"

definition hash_ok :: "native_env \<Rightarrow> (u64 \<Rightarrow> PageMap) \<Rightarrow> VMHead \<Rightarrow> u64 list \<Rightarrow> bool" where
  "hash_ok e pg d ps \<longleftrightarrow> vh_size d = max_pages e \<and> length (vh_hash d) = length ps \<and>
     (\<forall>v. in_user_space v \<longrightarrow> map_of (vh_hash d) (page_key v) = map_of (map (\<lambda>q. (pm_va (pg q), q)) ps) v)"

definition space_ok :: "native_env \<Rightarrow> ('g, 'z) native_vm_scheme \<Rightarrow> u64 \<Rightarrow> u64 list \<Rightarrow> bool \<Rightarrow> bool" where
  "space_ok e s a ps b \<longleftrightarrow> head_of s a \<noteq> 0 \<and> plist (nv_pages s) (vh_head (nv_heads s (head_of s a))) ps \<and>
     distinct (map (\<lambda>q. pm_va (nv_pages s q)) ps) \<and> (\<forall>q \<in> set ps. page_ok e b (nv_pages s q)) \<and>
     hash_ok e (nv_pages s) (nv_heads s (head_of s a)) ps"

definition visible :: "native_env \<Rightarrow> ('g, 'z) native_vm_scheme \<Rightarrow> (u64 \<Rightarrow> u64 list option) \<Rightarrow> u64 \<Rightarrow> u64 \<Rightarrow> (u64 \<times> u32) option" where
  "visible e s L c = (case L c of None \<Rightarrow> Map.empty | Some ps \<Rightarrow> space_of e (nv_pages s) ps)"

text \<open>\<open>L\<close> gives the pages of every protected space and \<open>c\<close> is the current one, 0 for none.\<close>

definition nv_ok :: "native_env \<Rightarrow> ('g \<Rightarrow> u64 set) \<Rightarrow> ('g \<Rightarrow> nat) \<Rightarrow> (u64 \<Rightarrow> u64 list option) \<Rightarrow> u64 \<Rightarrow> ('g, 'z) native_vm_scheme \<Rightarrow> bool" where
  "nv_ok e u r L c s \<longleftrightarrow> nv_enable s \<and> (\<exists>f. nv_pgalloc s = Some f \<and> fresh_alloc e u r f) \<and> L 0 = None \<and>
     (c = 0 \<or> c \<in> dom L) \<and> nv_cur s = (if c = 0 then 0 else head_of s c) \<and>
     (\<forall>a ps. L a = Some ps \<longrightarrow> space_ok e s a ps (a = c) \<and> insert (head_of s a) (set ps) \<subseteq> u (nv_heap s)) \<and>
     (\<forall>a b ps qs. L a = Some ps \<longrightarrow> L b = Some qs \<longrightarrow> a \<noteq> b \<longrightarrow> head_of s a \<noteq> head_of s b \<and> set ps \<inter> set qs = {}) \<and>
     (\<forall>x. in_user_space x \<longrightarrow> nv_host s x = visible e s L c x)"

lemma nv_okD:
  assumes "nv_ok e u r L c s"
  shows "nv_enable s" "L 0 = None" "c = 0 \<or> c \<in> dom L" "nv_cur s = (if c = 0 then 0 else head_of s c)"
    "L a = Some ps \<Longrightarrow> space_ok e s a ps (a = c)" "L a = Some ps \<Longrightarrow> insert (head_of s a) (set ps) \<subseteq> u (nv_heap s)"
    "L a = Some ps \<Longrightarrow> L b = Some qs \<Longrightarrow> a \<noteq> b \<Longrightarrow> head_of s a \<noteq> head_of s b"
    "L a = Some ps \<Longrightarrow> L b = Some qs \<Longrightarrow> a \<noteq> b \<Longrightarrow> set ps \<inter> set qs = {}"
    "in_user_space x \<Longrightarrow> nv_host s x = visible e s L c x"
  using assms unfolding nv_ok_def by blast+

text \<open>A page key identifies a page of user space, and there is room in the table for all of them.\<close>

lemma unat_user: "in_user_space v \<longleftrightarrow> 2 ^ 30 \<le> unat v \<and> unat v < 3 * 2 ^ 30"
  by (simp add: in_user_space_def USER_START_def USER_END_def word_le_nat_alt word_less_nat_alt)

lemma page_key_inj:
  assumes "in_user_space v" "in_user_space w" "page_key v = page_key w"
  shows "v = w"
proof -
  have "unat (ucast v :: u32) = unat (ucast w :: u32)"
    using arg_cong [OF assms(3), of hex_value] by (simp add: page_key_def hex_value_text_x)
  moreover have "unat (ucast x :: u32) = unat x" if "in_user_space x" for x :: u64
    using that by (simp add: unat_user unsigned_ucast_eq take_bit_nat_eq_self_iff unsigned_take_bit_eq)
  ultimately show ?thesis using assms(1,2) by (simp add: word_unat_eq_iff)
qed

lemma pages_fit:
  assumes "env_ok e" "finite S" "\<forall>v \<in> S. in_user_space v \<and> v mod ne_pgsize e = 0"
  shows "card S \<le> max_pages e"
proof -
  let ?P = "unat (ne_pgsize e)"
  obtain k where k: "2 ^ 30 = ?P * k" using assms(1) by (auto simp: env_ok_def dvd_def)
  then have P: "0 < ?P" by (cases "?P = 0") simp_all
  have "card S = card ((\<lambda>v. unat v div ?P) ` S)"
  proof (rule card_image [symmetric], rule inj_onI)
    fix v w assume a: "v \<in> S" "w \<in> S" and d: "unat v div ?P = unat w div ?P"
    have "unat v mod ?P = 0" "unat w mod ?P = 0"
      using assms(3) a by (metis unat_mod unat_0)+
    then have "unat v = unat w" using d by (metis mult_div_mod_eq)
    then show "v = w" by (simp add: word_unat_eq_iff)
  qed
  also have "\<dots> \<le> card {k..<3 * k}"
  proof (rule card_mono)
    show "(\<lambda>v. unat v div ?P) ` S \<subseteq> {k..<3 * k}"
    proof
      fix y assume "y \<in> (\<lambda>v. unat v div ?P) ` S"
      then obtain v where v: "v \<in> S" "y = unat v div ?P" by blast
      then have b: "?P * k \<le> unat v" "unat v < ?P * (3 * k)" using assms(3) k by (auto simp: unat_user)
      have "k \<le> unat v div ?P" using b(1) P by (simp add: less_eq_div_iff_mult_less_eq mult.commute)
      moreover have "unat v div ?P < 3 * k" using b(2) P by (simp add: div_less_iff_less_mult mult.commute)
      ultimately show "y \<in> {k..<3 * k}" using v(2) by simp
    qed
  qed simp
  also have "\<dots> = max_pages e"
  proof -
    have "(USER_END - USER_START :: u64) = 0x80000000" by (simp add: USER_START_def USER_END_def)
    then have "max_pages e = 2147483648 div ?P" by (simp add: max_pages_def unat_div)
    also have "2147483648 = ?P * (2 * k)" using k by (simp add: mult.left_commute [of ?P])
    finally have "max_pages e = 2 * k" using P by simp
    then show ?thesis by simp
  qed
  finally show ?thesis .
qed

section \<open>Switching\<close>

lemma space_ok_flags:
  assumes "space_ok e s a ps b" "nv_heads s' = nv_heads s" "nv_spaces s' = nv_spaces s"
    and "\<And>q. q \<in> set ps \<Longrightarrow> nv_pages s' q = (nv_pages s q)\<lparr>pm_mapped := b'\<rparr>"
  shows "space_ok e s' a ps b'"
proof -
  have m: "map (\<lambda>q. pm_va (nv_pages s' q)) ps = map (\<lambda>q. pm_va (nv_pages s q)) ps"
    "map (\<lambda>q. (pm_va (nv_pages s' q), q)) ps = map (\<lambda>q. (pm_va (nv_pages s q), q)) ps"
    using assms(4) by auto
  have l: "plist (nv_pages s') p ps = plist (nv_pages s) p ps" for p by (rule plist_cong) (simp add: assms(4))
  show ?thesis using assms(1) unfolding space_ok_def hash_ok_def head_of_def assms(2,3) m l
    by (auto simp: page_ok_def assms(4))
qed

text \<open>A state with the same lists: only flags, the host's mappings and the current space differ.\<close>

lemma nv_ok_flags:
  assumes ok: "nv_ok e u r L c s" and c': "c' = 0 \<or> c' \<in> dom L" "nv_cur s' = (if c' = 0 then 0 else head_of s c')"
    and same: "nv_heads s' = nv_heads s" "nv_spaces s' = nv_spaces s" "nv_enable s' = nv_enable s"
      "nv_pgalloc s' = nv_pgalloc s" "nv_heap s' = nv_heap s"
    and flags: "\<And>a ps q. L a = Some ps \<Longrightarrow> q \<in> set ps \<Longrightarrow> nv_pages s' q = (nv_pages s q)\<lparr>pm_mapped := (a = c')\<rparr>"
    and host: "\<And>x. in_user_space x \<Longrightarrow> nv_host s' x = visible e s L c' x"
  shows "nv_ok e u r L c' s'"
proof -
  have h: "head_of s' a = head_of s a" for a by (simp add: head_of_def same)
  have v: "visible e s' L c' = visible e s L c'"
  proof (cases "L c'")
    case (Some ps)
    have "space_of e (nv_pages s') ps = space_of e (nv_pages s) ps" by (rule space_of_cong) (simp add: flags [OF Some])
    then show ?thesis using Some by (simp add: visible_def)
  qed (simp add: visible_def)
  have "space_ok e s' a ps (a = c')" if "L a = Some ps" for a ps
    by (rule space_ok_flags [OF nv_okD(5) [OF ok that] same(1,2)]) (rule flags [OF that])
  then show ?thesis using ok c' host unfolding nv_ok_def h v same by blast
qed

lemma leave_space:
  assumes ok: "nv_ok e u r L c s" and L: "L c = Some ps"
  shows "nv_ok e u r L 0 ((fold unmap_one ps s)\<lparr>nv_cur := 0\<rparr>)"
proof (rule nv_ok_flags [OF ok])
  note sp = nv_okD(5) [OF ok L]
  have d: "distinct ps" using sp plist_distinct unfolding space_ok_def by blast
  have m: "\<forall>q \<in> set ps. pm_mapped (nv_pages s q)" using sp by (simp add: space_ok_def page_ok_def)
  show "nv_pages ((fold unmap_one ps s)\<lparr>nv_cur := 0\<rparr>) q = (nv_pages s q)\<lparr>pm_mapped := (a = 0)\<rparr>"
    if a: "L a = Some qs" "q \<in> set qs" for a qs q
  proof -
    have z: "a \<noteq> 0" using a nv_okD(2) [OF ok] by auto
    show ?thesis
    proof (cases "a = c")
      case True
      then show ?thesis using a L z by (simp add: fold_unmap_pages)
    next
      case False
      have "\<not> pm_mapped (nv_pages s q)" using nv_okD(5) [OF ok a(1)] a(2) False by (simp add: space_ok_def page_ok_def)
      then show ?thesis using z by (simp add: fold_unmap_pages)
    qed
  qed
  show "nv_host ((fold unmap_one ps s)\<lparr>nv_cur := 0\<rparr>) x = visible e s L 0 x" if x: "in_user_space x" for x
  proof -
    have "nv_host s x = space_of e (nv_pages s) ps x" using nv_okD(9) [OF ok x] L by (simp add: visible_def)
    moreover have "x \<notin> (\<lambda>q. pm_va (nv_pages s q)) ` set ps \<Longrightarrow> space_of e (nv_pages s) ps x = None"
      using dom_space_of [of e "nv_pages s" ps] by blast
    ultimately show ?thesis using nv_okD(2) [OF ok] by (simp add: fold_unmap_host [OF d m] visible_def)
  qed
qed simp_all

lemma enter_space:
  assumes ok: "nv_ok e u r L 0 s" and L: "L a = Some ps"
  shows "nv_ok e u r L a ((fold (mapped_one e) ps s)\<lparr>nv_cur := head_of s a\<rparr>)"
proof (rule nv_ok_flags [OF ok])
  note sp = nv_okD(5) [OF ok L]
  have z: "a \<noteq> 0" using L nv_okD(2) [OF ok] by auto
  then show "nv_cur ((fold (mapped_one e) ps s)\<lparr>nv_cur := head_of s a\<rparr>) = (if a = 0 then 0 else head_of s a)" by simp
  show "nv_pages ((fold (mapped_one e) ps s)\<lparr>nv_cur := head_of s a\<rparr>) q = (nv_pages s q)\<lparr>pm_mapped := (b = a)\<rparr>"
    if b: "L b = Some qs" "q \<in> set qs" for b qs q
  proof (cases "b = a")
    case True
    then show ?thesis using b L by (simp add: fold_mapped_pages)
  next
    case False
    have "b \<noteq> 0" using b nv_okD(2) [OF ok] by auto
    then have "\<not> pm_mapped (nv_pages s q)" using nv_okD(5) [OF ok b(1)] b(2) by (simp add: space_ok_def page_ok_def)
    moreover have "q \<notin> set ps" using nv_okD(8) [OF ok b(1) L False] b(2) by blast
    ultimately show ?thesis using False by (simp add: fold_mapped_pages)
  qed
  show "nv_host ((fold (mapped_one e) ps s)\<lparr>nv_cur := head_of s a\<rparr>) x = visible e s L a x" if x: "in_user_space x" for x
  proof -
    have "nv_host s x = None" using nv_okD(9) [OF ok x] nv_okD(2) [OF ok] by (simp add: visible_def)
    moreover have "distinct (map (\<lambda>q. pm_va (nv_pages s q)) ps)" using sp by (simp add: space_ok_def)
    ultimately show ?thesis using L by (simp add: fold_mapped_host visible_def map_add_def split: option.splits)
  qed
qed (use L in auto)

lemma space_of_flags:
  "space_of e (\<lambda>q. if q \<in> A then (pg q)\<lparr>pm_mapped := b\<rparr> else pg q) ps = space_of e pg ps"
  by (rule space_of_cong) simp

lemma one_cur:
  "unmap_one p (s\<lparr>nv_cur := h\<rparr>) = (unmap_one p s)\<lparr>nv_cur := h\<rparr>"
  "mapped_one e p (s\<lparr>nv_cur := h\<rparr>) = (mapped_one e p s)\<lparr>nv_cur := h\<rparr>"
  by (simp_all add: unmap_one_def mapped_one_def am_pmem_unmap_def Let_def)

lemma fold_cur:
  "fold unmap_one ps (s\<lparr>nv_cur := h\<rparr>) = (fold unmap_one ps s)\<lparr>nv_cur := h\<rparr>"
  "fold (mapped_one e) ps (s\<lparr>nv_cur := h\<rparr>) = (fold (mapped_one e) ps s)\<lparr>nv_cur := h\<rparr>"
  by (induction ps arbitrary: s) (simp_all add: one_cur)

definition same_spaces :: "native_env \<Rightarrow> (u64 \<Rightarrow> u64 list option) \<Rightarrow> ('g, 'z) native_vm_scheme \<Rightarrow> ('g, 'z) native_vm_scheme \<Rightarrow> bool" where
  "same_spaces e L s s' \<longleftrightarrow> (\<forall>b ps. L b = Some ps \<longrightarrow> space_of e (nv_pages s') ps = space_of e (nv_pages s) ps)"

lemma native_switch_ok:
  assumes e: "env_ok e" and ok: "nv_ok e u r L c s" and a: "a = 0 \<or> a \<in> dom L"
  shows "\<exists>s'. native_switch e (if a = 0 then 0 else head_of s a) s = Some (Inr s') \<and> nv_ok e u r L a s' \<and>
       same_spaces e L s s' \<and> nv_spaces s' = nv_spaces s \<and> nv_heap s' = nv_heap s \<and>
       native_vm.more s' = native_vm.more s"
proof (cases "a = c")
  case True
  have "s\<lparr>nv_cur := nv_cur s\<rparr> = s" by simp
  then have "native_switch e (if a = 0 then 0 else head_of s a) s = Some (Inr s)"
    using True nv_okD(1,4) [OF ok] by (simp add: native_switch_def)
  then show ?thesis using ok True by (simp add: same_spaces_def)
next
  case False
  have hd: "head_of s b \<noteq> 0" if "b \<in> dom L" for b using that nv_okD(5) [OF ok] by (auto simp: space_ok_def)
  have ne: "(if a = 0 then 0 else head_of s a) \<noteq> nv_cur s"
    using a False nv_okD(3,4) [OF ok] hd nv_okD(7) [OF ok] by (auto simp: dom_def)
  define s1 where "s1 = (if c = 0 then s else fold unmap_one (the (L c)) s)"
  have u: "(if nv_cur s \<noteq> 0 then unmap_pages (vh_head (nv_heads s (nv_cur s))) s else Some s) = Some s1"
  proof (cases "c = 0")
    case False
    then obtain ps where ps: "L c = Some ps" using nv_okD(3) [OF ok] by blast
    have "plist (nv_pages s) (vh_head (nv_heads s (nv_cur s))) ps"
      using nv_okD(5) [OF ok ps] nv_okD(4) [OF ok] False by (simp add: space_ok_def)
    then show ?thesis using False nv_okD(4) [OF ok] hd [of c] ps by (simp add: unmap_pages_list dom_def s1_def)
  qed (use nv_okD(4) [OF ok] in \<open>simp add: s1_def\<close>)
  have ok1: "nv_ok e u r L 0 (s1\<lparr>nv_cur := 0\<rparr>)"
  proof (cases "c = 0")
    case True
    then have "s\<lparr>nv_cur := 0\<rparr> = s" using nv_okD(4) [OF ok] by simp
    then show ?thesis using ok True by (simp add: s1_def)
  next
    case False
    then obtain ps where "L c = Some ps" using nv_okD(3) [OF ok] by blast
    then show ?thesis using leave_space [OF ok] False by (simp add: s1_def)
  qed
  have ss: "same_spaces e L s (s1\<lparr>nv_cur := k\<rparr>)" for k
    by (simp add: same_spaces_def s1_def fold_unmap_pages space_of_flags)
  show ?thesis
  proof (cases "a = 0")
    case True
    then have "native_switch e (if a = 0 then 0 else head_of s a) s = Some (Inr (s1\<lparr>nv_cur := 0\<rparr>))"
      using ne u nv_okD(1) [OF ok] by (simp add: native_switch_def)
    then show ?thesis using ok1 ss [of 0] True by (auto simp: s1_def)
  next
    case az: False
    then obtain ps where ps: "L a = Some ps" using a by blast
    have h1: "head_of s1 a = head_of s a" "nv_heads s1 = nv_heads s" by (simp_all add: head_of_def s1_def)
    have "plist (nv_pages s1) (vh_head (nv_heads s (head_of s a))) ps"
      using nv_okD(5) [OF ok1 ps] h1 by (simp add: space_ok_def head_of_def)
    then have r: "map_pages e (vh_head (nv_heads s1 (head_of s a))) s1 = Some (map_all e ps s1)"
      unfolding h1(2) by (rule map_pages_list)
    have sw: "native_switch e (head_of s a) s =
       (case map_all e ps s1 of Inl err \<Rightarrow> Some (Inl err) | Inr s \<Rightarrow> Some (Inr (s\<lparr>nv_cur := head_of s a\<rparr>)))"
      if "\<And>s' :: ('a, 'b) native_vm_scheme. map_all e ps s1 = Inr s' \<Longrightarrow> head_of s' a = head_of s a"
      using ne u r az hd [of a] ps nv_okD(1) [OF ok] that
      by (auto simp: native_switch_def dom_def split: sum.splits)
    have "\<forall>q \<in> set ps. in_user_space (pm_va (nv_pages s1 q)) \<and> granted e (nv_pages s1 q)"
      using nv_okD(5) [OF ok1 ps] e by (simp add: space_ok_def page_ok_def granted_def env_ok_def)
    then have f: "map_all e ps s1 = Inr (fold (mapped_one e) ps s1)" by (simp add: map_all_eq)
    have "nv_ok e u r L a ((fold (mapped_one e) ps s1)\<lparr>nv_cur := head_of s a\<rparr>)"
      using enter_space [OF ok1 ps] h1(1) by (simp add: fold_cur head_of_def)
    moreover have "same_spaces e L s ((fold (mapped_one e) ps s1)\<lparr>nv_cur := head_of s a\<rparr>)"
      using ss [of 0] by (simp add: same_spaces_def fold_mapped_pages space_of_flags)
    ultimately show ?thesis using az sw f h1(1) by (auto simp: head_of_def s1_def)
  qed
qed

section \<open>Mapping\<close>

lemma table_has_room:
  assumes e: "env_ok e" and ok: "space_ok e s a ps b" and v: "in_user_space va" "va mod ne_pgsize e = 0"
    and new: "va \<notin> (\<lambda>q. pm_va (nv_pages s q)) ` set ps"
  shows "length (vh_hash (nv_heads s (head_of s a))) < vh_size (nv_heads s (head_of s a))"
proof -
  let ?V = "(\<lambda>q. pm_va (nv_pages s q)) ` set ps"
  have "card ?V = length ps" using ok distinct_card [of "map (\<lambda>q. pm_va (nv_pages s q)) ps"] by (simp add: space_ok_def)
  then have "Suc (length ps) = card (insert va ?V)" using new by simp
  also have "\<dots> \<le> max_pages e" by (rule pages_fit [OF e]) (use ok v in \<open>auto simp: space_ok_def page_ok_def\<close>)
  finally show ?thesis using ok by (simp add: space_ok_def hash_ok_def)
qed

lemma hash_new:
  assumes "hash_ok e pg d ps" "in_user_space va" "va \<notin> (\<lambda>q. pm_va (pg q)) ` set ps"
  shows "map_of (vh_hash d) (page_key va) = None"
  using assms by (auto simp: hash_ok_def map_of_eq_None_iff image_image)

text \<open>What mapping a new page leaves.\<close>

definition fresh_node :: "u64 \<Rightarrow> u64 \<Rightarrow> u32 \<Rightarrow> u64 \<Rightarrow> bool \<Rightarrow> u8 list \<Rightarrow> PageMap" where
  "fresh_node va pa prot next b k = \<lparr>pm_va = va, pm_pa = pa, pm_next = next, pm_prot = prot, pm_mapped = b, pm_key = k\<rparr>"

lemma native_map_new:
  assumes e: "env_ok e" and ok: "nv_ok e u r L c s" and L: "L a = Some ps" and f: "nv_pgalloc s = Some f"
    and v: "in_user_space va" "va mod ne_pgsize e = 0" "pa mod ne_pgsize e = 0"
    and new: "va \<notin> (\<lambda>q. pm_va (nv_pages s q)) ` set ps" and g: "f (ne_pgsize e) (nv_heap s) = (p, g)" "p \<noteq> 0"
  defines "h \<equiv> head_of s a"
  defines "d \<equiv> nv_heads s h"
  shows "\<exists>s'. native_map e a va pa prot s = Inr s' \<and>
    nv_pages s' = (nv_pages s)(p := fresh_node va pa prot (vh_head d) (a = c) (page_key va)) \<and>
    nv_heads s' = (nv_heads s)(h := d\<lparr>vh_head := p, vh_hash := vh_hash d @ [(page_key va, p)], vh_nr := vh_nr d + 1\<rparr>) \<and>
    nv_host s' = (if a = c then (nv_host s)(va \<mapsto> (pa - ne_pmem e, mmap_prot prot)) else nv_host s) \<and>
    nv_spaces s' = nv_spaces s \<and> nv_enable s' = nv_enable s \<and> nv_cur s' = nv_cur s \<and> nv_pgalloc s' = nv_pgalloc s \<and> nv_heap s' = g"
proof -
  note sp = nv_okD(5) [OF ok L]
  have h0: "h \<noteq> 0" using sp by (simp add: space_ok_def h_def)
  have a0: "a \<noteq> 0" using L nv_okD(2) [OF ok] by auto
  have k: "map_of (vh_hash d) (page_key va) = None"
    by (rule hash_new [of e "nv_pages s" _ ps]) (use sp v new in \<open>auto simp: space_ok_def d_def h_def\<close>)
  have room: "length (vh_hash d) < vh_size d" using table_has_room [OF e sp v(1,2) new] by (simp add: d_def h_def)
  have cur: "h = nv_cur s \<longleftrightarrow> a = c"
    using nv_okD(3,4) [OF ok] nv_okD(7) [OF ok L] h0 a0 by (auto simp: h_def)
  define s2 where "s2 = s\<lparr>nv_heap := g, nv_pages := (nv_pages s)(p := (nv_pages s p)\<lparr>pm_key := page_key va\<rparr>),
      nv_heads := (nv_heads s)(h := d\<lparr>vh_hash := vh_hash d @ [(page_key va, p)], vh_nr := vh_nr d + 1\<rparr>)\<rparr>"
  have fp: "find_page e h va s = Inr (p, s2)"
    using k room g f by (simp add: find_page_def call_pgalloc_def d_def Let_def s2_def)
  define s3 where "s3 = s2\<lparr>nv_pages := (nv_pages s2)(p := (nv_pages s2 p)\<lparr>pm_va := va, pm_pa := pa, pm_prot := prot,
      pm_mapped := False, pm_next := vh_head (nv_heads s2 h)\<rparr>),
    nv_heads := (nv_heads s2)(h := (nv_heads s2 h)\<lparr>vh_head := p\<rparr>)\<rparr>"
  have hp: "na_ptr (nv_spaces s a) = h" by (simp add: h_def head_of_def)
  have "h = nv_cur s3 \<longleftrightarrow> a = c" using cur by (simp add: s3_def s2_def)
  then have nm: "native_map e a va pa prot s = (if a = c then map_page e p s3 else Inr s3)"
    unfolding native_map_def hp using v a0 h0 by (simp add: fp s3_def Let_def)
  have m: "granted e y" for y using e by (simp add: env_ok_def granted_def)
  have p3: "nv_pages s3 p = fresh_node va pa prot (vh_head d) False (page_key va)" "nv_pages s3 = (nv_pages s)(p := nv_pages s3 p)"
    by (simp_all add: s3_def s2_def fresh_node_def fun_eq_iff)
  have h3: "nv_heads s3 = (nv_heads s)(h := d\<lparr>vh_head := p, vh_hash := vh_hash d @ [(page_key va, p)], vh_nr := vh_nr d + 1\<rparr>)"
    by (simp add: s3_def s2_def fun_eq_iff)
  have r3: "nv_host s3 = nv_host s" "nv_spaces s3 = nv_spaces s" "nv_enable s3 = nv_enable s" "nv_cur s3 = nv_cur s"
    "nv_pgalloc s3 = nv_pgalloc s" "nv_heap s3 = g" by (simp_all add: s3_def s2_def)
  show ?thesis
  proof (cases "a = c")
    case True
    then have r: "native_map e a va pa prot s = Inr (mapped_one e p s3)" unfolding nm by (simp add: map_page_eq m)
    have "nv_pages (mapped_one e p s3) = (nv_pages s)(p := fresh_node va pa prot (vh_head d) True (page_key va))"
      by (simp add: mapped_one_def p3(1)) (subst p3(2), simp add: fresh_node_def)
    moreover have "nv_host (mapped_one e p s3) = (nv_host s)(va \<mapsto> (pa - ne_pmem e, mmap_prot prot))"
      by (simp add: mapped_one_def p3(1) r3 fresh_node_def)
    moreover have "nv_heads (mapped_one e p s3) = nv_heads s3" "nv_spaces (mapped_one e p s3) = nv_spaces s"
      "nv_enable (mapped_one e p s3) = nv_enable s" "nv_cur (mapped_one e p s3) = nv_cur s"
      "nv_pgalloc (mapped_one e p s3) = nv_pgalloc s" "nv_heap (mapped_one e p s3) = g"
      by (simp_all add: mapped_one_def r3)
    ultimately show ?thesis using r h3 True by (intro exI [of _ "mapped_one e p s3"]) simp
  next
    case False
    then show ?thesis using p3(2) by (simp add: nm p3(1) h3 r3)
  qed
qed

lemma space_ok_other:
  assumes "space_ok e s b qs x" "nv_spaces s' = nv_spaces s" "nv_heads s' (head_of s b) = nv_heads s (head_of s b)"
    and "\<And>q. q \<in> set qs \<Longrightarrow> nv_pages s' q = nv_pages s q"
  shows "space_ok e s' b qs x"
proof -
  have m: "map (\<lambda>q. pm_va (nv_pages s' q)) qs = map (\<lambda>q. pm_va (nv_pages s q)) qs"
    "map (\<lambda>q. (pm_va (nv_pages s' q), q)) qs = map (\<lambda>q. (pm_va (nv_pages s q), q)) qs"
    using assms(4) by auto
  have l: "plist (nv_pages s') p qs = plist (nv_pages s) p qs" for p by (rule plist_cong) (simp add: assms(4))
  have h: "head_of s' b = head_of s b" by (simp add: head_of_def assms(2))
  show ?thesis using assms(1) unfolding space_ok_def hash_ok_def h assms(3) m l by (simp add: assms(4))
qed

lemma space_ok_new:
  assumes ok: "space_ok e s a ps x" and v: "in_user_space va" "va mod ne_pgsize e = 0"
    and new: "va \<notin> (\<lambda>q. pm_va (nv_pages s q)) ` set ps" "p \<notin> set ps" "p \<noteq> 0"
    and d: "d = nv_heads s (head_of s a)"
    and s': "nv_pages s' = (nv_pages s)(p := fresh_node va pa prot (vh_head d) x k)"
      "nv_heads s' = (nv_heads s)(head_of s a := d\<lparr>vh_head := p, vh_hash := vh_hash d @ [(page_key va, p)], vh_nr := n\<rparr>)"
      "nv_spaces s' = nv_spaces s"
  shows "space_ok e s' a (p # ps) x"
proof -
  have other: "nv_pages s' q = nv_pages s q" if "q \<in> set ps" for q using that new(2) by (auto simp: s'(1))
  have m: "map (\<lambda>q. pm_va (nv_pages s' q)) ps = map (\<lambda>q. pm_va (nv_pages s q)) ps"
    "map (\<lambda>q. (pm_va (nv_pages s' q), q)) ps = map (\<lambda>q. (pm_va (nv_pages s q), q)) ps"
    using other by auto
  have l: "plist (nv_pages s') (vh_head d) ps" using ok d
    by (subst plist_cong [of _ _ "nv_pages s"]) (auto simp: other space_ok_def)
  have h: "head_of s' a = head_of s a" by (simp add: head_of_def s'(3))
  have np: "nv_pages s' p = fresh_node va pa prot (vh_head d) x k" by (simp add: s'(1))
  have hash: "hash_ok e (nv_pages s) d ps" using ok d by (simp add: space_ok_def)
  have "hash_ok e (nv_pages s') (d\<lparr>vh_head := p, vh_hash := vh_hash d @ [(page_key va, p)], vh_nr := n\<rparr>) (p # ps)"
    unfolding hash_ok_def
  proof (intro conjI allI impI)
    fix w assume w: "in_user_space w"
    have n: "map_of (vh_hash d) (page_key va) = None" by (rule hash_new [OF hash v(1) new(1)])
    have o: "map_of (vh_hash d) (page_key w) = map_of (map (\<lambda>q. (pm_va (nv_pages s q), q)) ps) w"
      using hash w by (simp add: hash_ok_def)
    show "map_of (vh_hash (d\<lparr>vh_head := p, vh_hash := vh_hash d @ [(page_key va, p)], vh_nr := n\<rparr>)) (page_key w) =
        map_of (map (\<lambda>q. (pm_va (nv_pages s' q), q)) (p # ps)) w"
    proof (cases "w = va")
      case True
      then show ?thesis using n by (simp add: map_add_def np fresh_node_def)
    next
      case False
      then have "page_key w \<noteq> page_key va" using page_key_inj [OF w v(1)] by blast
      then show ?thesis using False o by (simp add: map_add_def np fresh_node_def m(2) split: option.splits)
    qed
  qed (use hash in \<open>simp_all add: hash_ok_def\<close>)
  moreover have "\<forall>q \<in> set ps. page_ok e x (nv_pages s' q)" using ok other by (simp add: space_ok_def)
  moreover have "distinct (map (\<lambda>q. pm_va (nv_pages s' q)) (p # ps))"
    using ok new(1) m(1) by (simp add: space_ok_def np fresh_node_def image_iff other del: map_eq_conv)
  ultimately show ?thesis
    using ok l new(3) v unfolding space_ok_def h s'(2) by (simp add: np fresh_node_def page_ok_def)
qed

lemma native_map_ok:
  assumes e: "env_ok e" and ok: "nv_ok e u r L c s" and L: "L a = Some ps" and room: "0 < r (nv_heap s)"
    and v: "in_user_space va" "va mod ne_pgsize e = 0" "pa mod ne_pgsize e = 0"
    and new: "va \<notin> (\<lambda>q. pm_va (nv_pages s q)) ` set ps"
  shows "\<exists>s' p. native_map e a va pa prot s = Inr s' \<and> nv_ok e u r (L(a \<mapsto> p # ps)) c s' \<and>
    same_spaces e (L(a := None)) s s' \<and> nv_spaces s' = nv_spaces s \<and> r (nv_heap s) \<le> Suc (r (nv_heap s')) \<and>
    space_of e (nv_pages s') (p # ps) = (space_of e (nv_pages s) ps)(va \<mapsto> (pa - ne_pmem e, mmap_prot prot))"
proof -
  let ?h = "head_of s a" and ?x = "(pa - ne_pmem e, mmap_prot prot)"
  obtain f where f: "nv_pgalloc s = Some f" "fresh_alloc e u r f" using ok by (auto simp: nv_ok_def)
  obtain p g where pg: "f (ne_pgsize e) (nv_heap s) = (p, g)" by (cases "f (ne_pgsize e) (nv_heap s)")
  then have g: "u (nv_heap s) \<subseteq> u g" "r (nv_heap s) \<le> Suc (r g)" "p \<noteq> 0" "p \<notin> u (nv_heap s)" "p \<in> u g"
    using f(2) room unfolding fresh_alloc_def by blast+
  from native_map_new [OF e ok L f(1) v new pg g(3)] obtain s' where m: "native_map e a va pa prot s = Inr s'"
    and p': "nv_pages s' = (nv_pages s)(p := fresh_node va pa prot (vh_head (nv_heads s ?h)) (a = c) (page_key va))"
    and h': "nv_heads s' = (nv_heads s)(?h := (nv_heads s ?h)\<lparr>vh_head := p, vh_hash := vh_hash (nv_heads s ?h) @ [(page_key va, p)],
       vh_nr := vh_nr (nv_heads s ?h) + 1\<rparr>)"
    and host': "nv_host s' = (if a = c then (nv_host s)(va \<mapsto> ?x) else nv_host s)"
    and rest: "nv_spaces s' = nv_spaces s" "nv_enable s' = nv_enable s" "nv_cur s' = nv_cur s" "nv_pgalloc s' = nv_pgalloc s"
      "nv_heap s' = g"
    by blast
  have np: "p \<notin> set qs" if "L b = Some qs" for b qs using nv_okD(6) [OF ok that] g(4) by blast
  have other: "nv_pages s' q = nv_pages s q" if "L b = Some qs" "q \<in> set qs" for b qs q
    using np [OF that(1)] that(2) by (auto simp: p')
  have hd: "head_of s' b = head_of s b" for b by (simp add: head_of_def rest(1))
  have sub: "insert (head_of s b) (set qs) \<subseteq> u g" if "L b = Some qs" for b qs using nv_okD(6) [OF ok that] g(1) by blast
  have so: "space_of e (nv_pages s') qs = space_of e (nv_pages s) qs" if "L b = Some qs" for b qs
    by (rule space_of_cong) (simp add: other [OF that])
  have sa: "space_of e (nv_pages s') (p # ps) = (space_of e (nv_pages s) ps)(va \<mapsto> ?x)"
    using so [OF L] by (simp add: space_of_def page_entry_def p' fresh_node_def)
  have new_ok: "space_ok e s' a (p # ps) (a = c)"
    by (rule space_ok_new [OF nv_okD(5) [OF ok L] v(1,2) new np [OF L] g(3) refl p' h' rest(1)])
  have old_ok: "space_ok e s' b qs (b = c)" if b: "L b = Some qs" "b \<noteq> a" for b qs
  proof (rule space_ok_other [OF nv_okD(5) [OF ok b(1)] rest(1)])
    show "nv_heads s' (head_of s b) = nv_heads s (head_of s b)" using nv_okD(7) [OF ok b(1) L b(2)] by (simp add: h')
  qed (rule other [OF b(1)])
  have vis: "nv_host s' x = visible e s' (L(a \<mapsto> p # ps)) c x" if x: "in_user_space x" for x
  proof (cases "a = c")
    case True
    then show ?thesis using nv_okD(9) [OF ok x] L sa by (simp add: visible_def host')
  next
    case False
    have "visible e s' (L(a \<mapsto> p # ps)) c = visible e s L c"
      using False so by (simp add: visible_def split: option.splits)
    then show ?thesis using False nv_okD(9) [OF ok x] by (simp add: host')
  qed
  have "nv_ok e u r (L(a \<mapsto> p # ps)) c s'"
    unfolding nv_ok_def hd rest
  proof (intro conjI allI impI)
    show "nv_enable s" "(L(a \<mapsto> p # ps)) 0 = None" "c = 0 \<or> c \<in> dom (L(a \<mapsto> p # ps))"
      "nv_cur s = (if c = 0 then 0 else head_of s c)"
      using nv_okD(1-4) [OF ok] L by auto
    show "\<exists>f. nv_pgalloc s = Some f \<and> fresh_alloc e u r f" using f by blast
    show "space_ok e s' b qs (b = c)" if "(L(a \<mapsto> p # ps)) b = Some qs" for b qs
      using that new_ok old_ok by (auto split: if_splits)
    show "insert (head_of s b) (set qs) \<subseteq> u g" if "(L(a \<mapsto> p # ps)) b = Some qs" for b qs
      using that sub sub [OF L] g(5) by (auto split: if_splits)
    show "head_of s b \<noteq> head_of s b'"
      if "(L(a \<mapsto> p # ps)) b = Some qs" "(L(a \<mapsto> p # ps)) b' = Some qs'" "b \<noteq> b'" for b b' qs qs'
    proof -
      have "b \<in> dom L" "b' \<in> dom L" using that L by (auto split: if_splits)
      then show ?thesis using nv_okD(7) [OF ok] that(3) by blast
    qed
    show "set qs \<inter> set qs' = {}"
      if d: "(L(a \<mapsto> p # ps)) b = Some qs" "(L(a \<mapsto> p # ps)) b' = Some qs'" "b \<noteq> b'" for b b' qs qs'
    proof -
      consider "b = a" | "b' = a" | "b \<noteq> a" "b' \<noteq> a" by blast
      then show ?thesis
      proof cases
        case 1
        then have "L b' = Some qs'" "qs = p # ps" "b' \<noteq> a" using d by auto
        then show ?thesis using nv_okD(8) [OF ok L] np by auto
      next
        case 2
        then have "L b = Some qs" "qs' = p # ps" "b \<noteq> a" using d by auto
        then show ?thesis using nv_okD(8) [OF ok _ L] np by auto
      next
        case 3
        then show ?thesis using d nv_okD(8) [OF ok] by simp
      qed
    qed
    show "nv_host s' x = visible e s' (L(a \<mapsto> p # ps)) c x" if "in_user_space x" for x by (rule vis [OF that])
  qed
  moreover have "same_spaces e (L(a := None)) s s'" using so by (simp add: same_spaces_def)
  ultimately show ?thesis using m sa rest(1,5) g(2) by blast
qed

end
