(* ===== verification/Native_Spaces.thy ===== *)
theory Native_Spaces
  imports Native_VM_Correct
begin

text \<open>
  Sessions of operations on native address spaces: as long as no page is mapped twice in a space they implement
  partial functions, one for each space, of which the host's mappings are the current one. A page that is mapped
  twice makes the next switch to or from its space loop for ever.
\<close>

section \<open>Sequences of operations\<close>

lemma native_protect_ok:
  assumes e: "env_ok e" and ok: "nv_ok e u r L c s" and a: "a \<noteq> 0" "L a = None" and room: "0 < r (nv_heap s)"
  shows "\<exists>s'. native_protect e a s = Inr s' \<and> nv_ok e u r (L(a \<mapsto> [])) c s' \<and> nv_pages s' = nv_pages s \<and>
    r (nv_heap s) \<le> Suc (r (nv_heap s'))"
proof -
  obtain f where f: "nv_pgalloc s = Some f" "fresh_alloc e u r f" using ok by (auto simp: nv_ok_def)
  obtain h g where hg: "f (ne_pgsize e) (nv_heap s) = (h, g)" by (cases "f (ne_pgsize e) (nv_heap s)")
  then have g: "u (nv_heap s) \<subseteq> u g" "r (nv_heap s) \<le> Suc (r g)" "h \<noteq> 0" "h \<notin> u (nv_heap s)" "h \<in> u g"
    using f(2) room unfolding fresh_alloc_def by blast+
  define s' where "s' = s\<lparr>nv_heap := g, nv_heads := (nv_heads s)(h := \<lparr>vh_head = 0, vh_size = max_pages e, vh_hash = [], vh_nr = 0\<rparr>),
     nv_spaces := (nv_spaces s)(a := \<lparr>na_pgsize = ne_pgsize e, na_start = USER_START, na_end = USER_END, na_ptr = h\<rparr>)\<rparr>"
  have m: "native_protect e a s = Inr s'"
    using a(1) f(1) hg g(3) e by (simp add: native_protect_def call_pgalloc_def env_ok_def s'_def max_pages_def Let_def)
  have hd: "head_of s' b = (if b = a then h else head_of s b)" for b by (simp add: head_of_def s'_def)
  have rest: "nv_heap s' = g" "nv_host s' = nv_host s" "nv_pages s' = nv_pages s" "nv_cur s' = nv_cur s" "nv_enable s' = nv_enable s"
    "nv_pgalloc s' = nv_pgalloc s" by (simp_all add: s'_def)
  have hh: "nv_heads s' h = \<lparr>vh_head = 0, vh_size = max_pages e, vh_hash = [], vh_nr = 0\<rparr>" by (simp add: s'_def)
  have nh: "head_of s b \<noteq> h" if "L b = Some qs" for b qs using nv_okD(6) [OF ok that] g(4) by blast
  have old: "space_ok e s' b qs (b = c)" if b: "L b = Some qs" for b qs
  proof -
    have ba: "b \<noteq> a" using b a(2) by auto
    have "nv_heads s' (head_of s b) = nv_heads s (head_of s b)" using nh [OF b] by (simp add: s'_def)
    then show ?thesis using nv_okD(5) [OF ok b] ba hd [of b] by (simp add: space_ok_def rest(3))
  qed
  have new: "space_ok e s' a [] (a = c)" using g(3) hd [of a] by (simp add: space_ok_def hash_ok_def hh)
  have ca: "c \<noteq> a" using nv_okD(3) [OF ok] a by auto
  have sub: "insert (head_of s b) (set qs) \<subseteq> u g" if "L b = Some qs" for b qs using nv_okD(6) [OF ok that] g(1) by blast
  have "nv_ok e u r (L(a \<mapsto> [])) c s'"
    unfolding nv_ok_def rest
  proof (intro conjI allI impI)
    show "nv_enable s" "(L(a \<mapsto> [])) 0 = None" "c = 0 \<or> c \<in> dom (L(a \<mapsto> []))"
      "nv_cur s = (if c = 0 then 0 else head_of s' c)"
      using nv_okD(1-4) [OF ok] a(1) ca by (auto simp: hd)
    show "\<exists>f. nv_pgalloc s = Some f \<and> fresh_alloc e u r f" using f by blast
    show "space_ok e s' b qs (b = c)" if "(L(a \<mapsto> [])) b = Some qs" for b qs
      using that new old by (auto split: if_splits)
    show "insert (head_of s' b) (set qs) \<subseteq> u g" if "(L(a \<mapsto> [])) b = Some qs" for b qs
      using that sub g(5) by (auto simp: hd split: if_splits)
    show "head_of s' b \<noteq> head_of s' b'"
      if "(L(a \<mapsto> [])) b = Some qs" "(L(a \<mapsto> [])) b' = Some qs'" "b \<noteq> b'" for b b' qs qs'
    proof (cases "b = a \<or> b' = a")
      case True
      then show ?thesis using that nh [of b qs] nh [of b' qs'] by (auto simp: hd)
    next
      case False
      then show ?thesis using that nv_okD(7) [OF ok] by (simp add: hd)
    qed
    show "set qs \<inter> set qs' = {}"
      if "(L(a \<mapsto> [])) b = Some qs" "(L(a \<mapsto> [])) b' = Some qs'" "b \<noteq> b'" for b b' qs qs'
      using that nv_okD(8) [OF ok] by (auto split: if_splits)
    show "nv_host s x = visible e s' (L(a \<mapsto> [])) c x" if "in_user_space x" for x
      using nv_okD(9) [OF ok that] ca by (simp add: visible_def rest(3) split: option.splits)
  qed
  then show ?thesis using m rest(1,3) g(2) by blast
qed

datatype nv_op =
  Protect u64
| Map_op u64 u64 u64 u32
| Switch_op u64

fun nv_exec :: "native_env \<Rightarrow> nv_op \<Rightarrow> ('g, 'z) native_vm_scheme \<Rightarrow> ('g, 'z) native_vm_scheme res option" where
  "nv_exec e (Protect a) s = Some (native_protect e a s)"
| "nv_exec e (Map_op a va pa prot) s = Some (native_map e a va pa prot s)"
| "nv_exec e (Switch_op a) s = native_switch e (if a = 0 then 0 else head_of s a) s"

fun nv_run :: "native_env \<Rightarrow> nv_op list \<Rightarrow> ('g, 'z) native_vm_scheme \<Rightarrow> ('g, 'z) native_vm_scheme res option" where
  "nv_run e [] s = Some (Inr s)"
| "nv_run e (x # xs) s =
     (case nv_exec e x s of None \<Rightarrow> None | Some (Inl err) \<Rightarrow> Some (Inl err) | Some (Inr s) \<Rightarrow> nv_run e xs s)"

text \<open>
  The specification: a partial function for every protected space and the current one. It covers sessions in which
  no page is mapped twice in a space and addresses are as the operations demand.
\<close>

record nv_spec =
  sp_maps :: "u64 \<Rightarrow> (u64 \<Rightarrow> (u64 \<times> u32) option) option"
  sp_cur :: u64

fun spec_op :: "native_env \<Rightarrow> nv_op \<Rightarrow> nv_spec \<Rightarrow> nv_spec option" where
  "spec_op e (Protect a) x =
     (if a \<noteq> 0 \<and> sp_maps x a = None then Some (x\<lparr>sp_maps := (sp_maps x)(a \<mapsto> Map.empty)\<rparr>) else None)"
| "spec_op e (Map_op a va pa prot) x =
     (case sp_maps x a of
        None \<Rightarrow> None
      | Some m \<Rightarrow>
          if m va = None \<and> in_user_space va \<and> va mod ne_pgsize e = 0 \<and> pa mod ne_pgsize e = 0
          then Some (x\<lparr>sp_maps := (sp_maps x)(a \<mapsto> m(va \<mapsto> (pa - ne_pmem e, mmap_prot prot)))\<rparr>) else None)"
| "spec_op e (Switch_op a) x = (if a = 0 \<or> sp_maps x a \<noteq> None then Some (x\<lparr>sp_cur := a\<rparr>) else None)"

fun spec_run :: "native_env \<Rightarrow> nv_op list \<Rightarrow> nv_spec \<Rightarrow> nv_spec option" where
  "spec_run e [] x = Some x"
| "spec_run e (y # ys) x = (case spec_op e y x of None \<Rightarrow> None | Some x \<Rightarrow> spec_run e ys x)"

definition spec_visible :: "nv_spec \<Rightarrow> u64 \<Rightarrow> (u64 \<times> u32) option" where
  "spec_visible x = (case sp_maps x (sp_cur x) of None \<Rightarrow> Map.empty | Some m \<Rightarrow> m)"

definition maps_of :: "native_env \<Rightarrow> ('g, 'z) native_vm_scheme \<Rightarrow> (u64 \<Rightarrow> u64 list option) \<Rightarrow> u64 \<Rightarrow> (u64 \<Rightarrow> (u64 \<times> u32) option) option" where
  "maps_of e s L a = map_option (space_of e (nv_pages s)) (L a)"

lemma maps_of_same: "same_spaces e L s s' \<Longrightarrow> maps_of e s' L = maps_of e s L"
  by (auto simp: maps_of_def same_spaces_def fun_eq_iff intro!: option.map_cong)

definition nv_rel :: "native_env \<Rightarrow> ('g \<Rightarrow> u64 set) \<Rightarrow> ('g \<Rightarrow> nat) \<Rightarrow> nv_spec \<Rightarrow> ('g, 'z) native_vm_scheme \<Rightarrow> bool" where
  "nv_rel e u r x s \<longleftrightarrow> (\<exists>L. nv_ok e u r L (sp_cur x) s \<and> sp_maps x = maps_of e s L)"

lemma nv_rel_visible: "nv_rel e u r x s \<Longrightarrow> in_user_space a \<Longrightarrow> nv_host s a = spec_visible x a"
proof -
  assume "nv_rel e u r x s" and a: "in_user_space a"
  then obtain L where ok: "nv_ok e u r L (sp_cur x) s" and m: "sp_maps x = maps_of e s L" by (auto simp: nv_rel_def)
  show ?thesis using nv_okD(9) [OF ok a] by (simp add: visible_def spec_visible_def m maps_of_def split: option.splits)
qed

lemma nv_exec_refines:
  assumes e: "env_ok e" and rel: "nv_rel e u r x s" and op: "spec_op e y x = Some x'" and room: "0 < r (nv_heap s)"
  shows "\<exists>s'. nv_exec e y s = Some (Inr s') \<and> nv_rel e u r x' s' \<and> r (nv_heap s) \<le> Suc (r (nv_heap s'))"
proof -
  obtain L where ok: "nv_ok e u r L (sp_cur x) s" and maps: "sp_maps x = maps_of e s L" using rel by (auto simp: nv_rel_def)
  show ?thesis
  proof (cases y)
    case (Protect a)
    then have a: "a \<noteq> 0" "L a = None" and x': "x' = x\<lparr>sp_maps := (sp_maps x)(a \<mapsto> Map.empty)\<rparr>"
      using op maps by (auto simp: maps_of_def split: if_splits)
    from native_protect_ok [OF e ok a room] obtain s' where s': "native_protect e a s = Inr s'"
      "nv_ok e u r (L(a \<mapsto> [])) (sp_cur x) s'" "nv_pages s' = nv_pages s" "r (nv_heap s) \<le> Suc (r (nv_heap s'))" by blast
    have "sp_maps x' = maps_of e s' (L(a \<mapsto> []))" by (auto simp: x' maps maps_of_def s'(3) space_of_def fun_eq_iff)
    then show ?thesis using s' x' Protect by (auto simp: nv_rel_def)
  next
    case (Map_op a va pa prot)
    then obtain m where m: "sp_maps x a = Some m" "m va = None" "in_user_space va" "va mod ne_pgsize e = 0"
      "pa mod ne_pgsize e = 0" and x': "x' = x\<lparr>sp_maps := (sp_maps x)(a \<mapsto> m(va \<mapsto> (pa - ne_pmem e, mmap_prot prot)))\<rparr>"
      using op by (auto split: option.splits if_splits)
    then obtain ps where ps: "L a = Some ps" "m = space_of e (nv_pages s) ps" using maps by (auto simp: maps_of_def)
    have new: "va \<notin> (\<lambda>q. pm_va (nv_pages s q)) ` set ps" using m(2) ps(2) dom_space_of by blast
    from native_map_ok [OF e ok ps(1) room m(3-5) new] obtain s' p where s': "native_map e a va pa prot s = Inr s'"
      "nv_ok e u r (L(a \<mapsto> p # ps)) (sp_cur x) s'" "same_spaces e (L(a := None)) s s'" "r (nv_heap s) \<le> Suc (r (nv_heap s'))"
      "space_of e (nv_pages s') (p # ps) = (space_of e (nv_pages s) ps)(va \<mapsto> (pa - ne_pmem e, mmap_prot prot))" by blast
    have "maps_of e s' (L(a \<mapsto> p # ps)) b = sp_maps x' b" for b
      using fun_cong [OF maps_of_same [OF s'(3)], of b] s'(5) ps(2) by (auto simp: x' maps maps_of_def)
    then show ?thesis using s' x' Map_op by (auto simp: nv_rel_def fun_eq_iff)
  next
    case (Switch_op a)
    then have a: "a = 0 \<or> a \<in> dom L" and x': "x' = x\<lparr>sp_cur := a\<rparr>"
      using op maps by (auto simp: maps_of_def split: if_splits)
    from native_switch_ok [OF e ok a] obtain s' where s': "native_switch e (if a = 0 then 0 else head_of s a) s = Some (Inr s')"
      "nv_ok e u r L a s'" "same_spaces e L s s'" "nv_heap s' = nv_heap s" by blast
    then show ?thesis using Switch_op maps_of_same [OF s'(3)] maps by (auto simp: nv_rel_def x')
  qed
qed

text \<open>The step of a switch on its own, which also leaves what is added to the state alone.\<close>

lemma nv_switch_refines:
  assumes e: "env_ok e" and rel: "nv_rel e u r x s" and b: "b = 0 \<or> sp_maps x b \<noteq> None"
    and h: "h = (if b = 0 then 0 else head_of s b)"
  shows "\<exists>s'. native_switch e h s = Some (Inr s') \<and> nv_rel e u r (x\<lparr>sp_cur := b\<rparr>) s' \<and> native_vm.more s' = native_vm.more s"
proof -
  obtain L where ok: "nv_ok e u r L (sp_cur x) s" and maps: "sp_maps x = maps_of e s L" using rel by (auto simp: nv_rel_def)
  have "b = 0 \<or> b \<in> dom L" using b maps by (auto simp: maps_of_def)
  from native_switch_ok [OF e ok this] obtain s' where s': "native_switch e h s = Some (Inr s')"
    "nv_ok e u r L b s'" "same_spaces e L s s'" "native_vm.more s' = native_vm.more s" unfolding h by blast
  then show ?thesis using maps_of_same [OF s'(3)] maps by (auto simp: nv_rel_def)
qed

lemma nv_run_refines:
  assumes "env_ok e" "nv_rel e u r x s" "spec_run e ys x = Some x'" "length ys \<le> r (nv_heap s)"
  shows "\<exists>s'. nv_run e ys s = Some (Inr s') \<and> nv_rel e u r x' s'"
  using assms(2-4)
proof (induction ys arbitrary: x s)
  case (Cons y ys)
  then obtain x1 where x1: "spec_op e y x = Some x1" "spec_run e ys x1 = Some x'" by (auto split: option.splits)
  have "0 < r (nv_heap s)" using Cons.prems(3) by simp
  from nv_exec_refines [OF assms(1) Cons.prems(1) x1(1) this] obtain s1 where s1: "nv_exec e y s = Some (Inr s1)"
    "nv_rel e u r x1 s1" "r (nv_heap s) \<le> Suc (r (nv_heap s1))" by blast
  have "length ys \<le> r (nv_heap s1)" using Cons.prems(3) s1(3) by simp
  from Cons.IH [OF s1(2) x1(2) this] show ?case by (simp add: s1(1))
qed simp

definition spec_start :: nv_spec where
  "spec_start = \<lparr>sp_maps = (\<lambda>_. None), sp_cur = 0\<rparr>"

lemma vme_init_rel:
  assumes "fresh_alloc e u r f" "nv_cur s = 0" "\<And>a. in_user_space a \<Longrightarrow> nv_host s a = None"
  shows "nv_rel e u r spec_start (snd (native_vme_init f s))"
  using assms by (auto simp: nv_rel_def nv_ok_def spec_start_def native_vme_init_def visible_def maps_of_def fun_eq_iff
      intro!: exI [of _ "\<lambda>_. None"])

section \<open>A page that is mapped twice\<close>

text \<open>
  Mapping a page again puts its node at the front of the list a second time, which makes the list a cycle. The loops over
  such a list do not end.
\<close>

definition cyclic :: "(u64 \<Rightarrow> PageMap) \<Rightarrow> u64 set \<Rightarrow> bool" where
  "cyclic pg Q \<longleftrightarrow> 0 \<notin> Q \<and> (\<forall>q \<in> Q. pm_next (pg q) \<in> Q)"

lemma cyclic_cong: "(\<And>q. pm_next (pg q) = pm_next (pg' q)) \<Longrightarrow> cyclic pg Q = cyclic pg' Q"
  by (simp add: cyclic_def)

lemma unmap_cyclic:
  assumes "cyclic (nv_pages s) Q" "p \<in> Q"
  shows "unmap_pages p s = None"
proof -
  have "unmap_pages p s = Some y \<Longrightarrow> cyclic (nv_pages s) Q \<longrightarrow> p \<notin> Q" for y
  proof (induct rule: unmap_pages.raw_induct [rotated, consumes 1])
    case (1 f p s y)
    show ?case
    proof
      assume c: "cyclic (nv_pages s) Q"
      show "p \<notin> Q"
      proof
        assume p: "p \<in> Q"
        let ?s = "unmap_one p s"
        have z: "p \<noteq> 0" using c p by (auto simp: cyclic_def)
        then have "f (pm_next (nv_pages ?s p)) ?s = Some y"
          using 1(2) by (simp only: unmap_one_def Let_def if_False)
        from 1(1) [OF this] have "cyclic (nv_pages ?s) Q \<longrightarrow> pm_next (nv_pages ?s p) \<notin> Q" .
        moreover have "pm_next (nv_pages ?s p) = pm_next (nv_pages s p)" by simp
        moreover have "cyclic (nv_pages ?s) Q" using c by (subst cyclic_cong [of _ "nv_pages s"]) auto
        ultimately show False using c p by (simp add: cyclic_def)
      qed
    qed
  qed
  then show ?thesis using assms by (cases "unmap_pages p s") auto
qed

lemma map_cyclic:
  assumes "env_ok e" "cyclic (nv_pages s) Q" "p \<in> Q" "\<forall>q \<in> Q. in_user_space (pm_va (nv_pages s q))"
  shows "map_pages e p s = None"
proof -
  have "map_pages e p s = Some y \<Longrightarrow> env_ok e \<longrightarrow> cyclic (nv_pages s) Q \<longrightarrow> (\<forall>q \<in> Q. in_user_space (pm_va (nv_pages s q))) \<longrightarrow> p \<notin> Q" for y
  proof (induct rule: map_pages.raw_induct [rotated, consumes 1])
    case (1 f e p s y)
    show ?case
    proof (intro impI)
      assume e: "env_ok e" and c: "cyclic (nv_pages s) Q" and v: "\<forall>q \<in> Q. in_user_space (pm_va (nv_pages s q))"
      show "p \<notin> Q"
      proof
        assume p: "p \<in> Q"
        let ?s = "mapped_one e p s"
        have z: "p \<noteq> 0" using c p by (auto simp: cyclic_def)
        have "granted e (nv_pages s p)" using e by (simp add: env_ok_def granted_def)
        then have "f e (pm_next (nv_pages ?s p)) ?s = Some y" using 1(2) z v p by (simp add: map_page_eq)
        from 1(1) [OF this] e
        have "cyclic (nv_pages ?s) Q \<longrightarrow> (\<forall>q \<in> Q. in_user_space (pm_va (nv_pages ?s q))) \<longrightarrow> pm_next (nv_pages ?s p) \<notin> Q"
          by blast
        moreover have "pm_next (nv_pages ?s p) = pm_next (nv_pages s p)" by (simp add: mapped_one_def)
        moreover have "cyclic (nv_pages ?s) Q" using c by (subst cyclic_cong [of _ "nv_pages s"]) (auto simp: mapped_one_def)
        moreover have "\<forall>q \<in> Q. in_user_space (pm_va (nv_pages ?s q))" using v by (simp add: mapped_one_def)
        ultimately show False using c p by (simp add: cyclic_def)
      qed
    qed
  qed
  then show ?thesis using assms by (cases "map_pages e p s") auto
qed

lemma plist_up_to:
  "plist pg p (xs @ q # ys) \<Longrightarrow> p \<in> insert q (set xs) \<and> 0 \<notin> insert q (set xs) \<and> (\<forall>x \<in> set xs. pm_next (pg x) \<in> insert q (set xs))"
  by (induction xs arbitrary: p) auto

text \<open>After the second mapping of a page the pages up to it are on a cycle that starts at the head of the list.\<close>

lemma native_remap:
  assumes e: "env_ok e" and ok: "nv_ok e u r L c s" and L: "L a = Some ps"
    and v: "in_user_space va" "va mod ne_pgsize e = 0" "pa mod ne_pgsize e = 0"
    and old: "va \<in> (\<lambda>q. pm_va (nv_pages s q)) ` set ps"
  shows "\<exists>s' Q. native_map e a va pa prot s = Inr s' \<and> cyclic (nv_pages s') Q \<and> vh_head (nv_heads s' (head_of s a)) \<in> Q \<and>
    (\<forall>q \<in> Q. in_user_space (pm_va (nv_pages s' q))) \<and> (\<forall>b. b \<noteq> a \<longrightarrow> b \<in> dom L \<longrightarrow> head_of s b \<noteq> head_of s a) \<and>
    (\<forall>q. q \<notin> set ps \<longrightarrow> nv_pages s' q = nv_pages s q) \<and> (\<forall>h. h \<noteq> head_of s a \<longrightarrow> nv_heads s' h = nv_heads s h) \<and>
    Q \<subseteq> set ps \<and> nv_spaces s' = nv_spaces s \<and> nv_enable s' = nv_enable s \<and> nv_cur s' = nv_cur s"
proof -
  let ?h = "head_of s a"
  note sp = nv_okD(5) [OF ok L]
  obtain p where p: "p \<in> set ps" "pm_va (nv_pages s p) = va" using old by blast
  have m: "map_of (map (\<lambda>q. (pm_va (nv_pages s q), q)) ps) va = Some p"
  proof (rule map_of_is_SomeI)
    show "distinct (map fst (map (\<lambda>q. (pm_va (nv_pages s q), q)) ps))" using sp by (simp add: space_ok_def o_def)
  qed (use p in auto)
  then have f: "find_page e ?h va s = Inr (p, s)" using sp v(1) by (simp add: find_page_def space_ok_def hash_ok_def)
  obtain xs ys where ps: "ps = xs @ p # ys" using p(1) by (auto simp: in_set_conv_decomp)
  have l: "vh_head (nv_heads s ?h) \<in> insert p (set xs)" "0 \<notin> insert p (set xs)"
    "\<forall>x \<in> set xs. pm_next (nv_pages s x) \<in> insert p (set xs)"
    using plist_up_to [of "nv_pages s" _ xs p ys] sp ps by (auto simp: space_ok_def)
  have px: "p \<notin> set xs" using sp plist_distinct ps unfolding space_ok_def by fastforce
  define s1 where "s1 = s\<lparr>nv_pages := (nv_pages s)(p := (nv_pages s p)\<lparr>pm_va := va, pm_pa := pa, pm_prot := prot,
      pm_mapped := False, pm_next := vh_head (nv_heads s ?h)\<rparr>), nv_heads := (nv_heads s)(?h := (nv_heads s ?h)\<lparr>vh_head := p\<rparr>)\<rparr>"
  define s' where "s' = (if ?h = nv_cur s then mapped_one e p s1 else s1)"
  have a0: "a \<noteq> 0" using L nv_okD(2) [OF ok] by auto
  have g: "granted e y" for y using e by (simp add: env_ok_def granted_def)
  have hp: "na_ptr (nv_spaces s a) = ?h" by (simp add: head_of_def)
  have "nv_cur s1 = nv_cur s" by (simp add: s1_def)
  then have r: "native_map e a va pa prot s = Inr s'"
    unfolding native_map_def hp using v a0 sp
    by (simp add: f s1_def s'_def map_page_eq g space_ok_def Let_def)
  have n: "pm_next (nv_pages s' q) = (if q = p then vh_head (nv_heads s ?h) else pm_next (nv_pages s q))"
    "pm_va (nv_pages s' q) = (if q = p then va else pm_va (nv_pages s q))" for q
    by (simp_all add: s'_def s1_def mapped_one_def)
  have "cyclic (nv_pages s') (insert p (set xs))" using l px by (auto simp: cyclic_def n)
  moreover have "\<forall>q \<in> insert p (set xs). in_user_space (pm_va (nv_pages s' q))"
    using sp v(1) ps by (auto simp: n space_ok_def page_ok_def)
  moreover have "\<forall>b. b \<noteq> a \<longrightarrow> b \<in> dom L \<longrightarrow> head_of s b \<noteq> ?h" using nv_okD(7) [OF ok _ L] by blast
  moreover have "\<forall>q. q \<notin> set ps \<longrightarrow> nv_pages s' q = nv_pages s q" "vh_head (nv_heads s' ?h) = p"
    "\<forall>h. h \<noteq> ?h \<longrightarrow> nv_heads s' h = nv_heads s h" "nv_spaces s' = nv_spaces s" "nv_enable s' = nv_enable s" "nv_cur s' = nv_cur s"
    using p(1) by (auto simp: s'_def s1_def mapped_one_def)
  ultimately show ?thesis using r ps by (intro exI [of _ s'] exI [of _ "insert p (set xs)"]) auto
qed

lemma remap_switch_hangs:
  assumes e: "env_ok e" and ok: "nv_ok e u r L c s" and L: "L a = Some ps"
    and v: "in_user_space va" "va mod ne_pgsize e = 0" "pa mod ne_pgsize e = 0"
    and old: "va \<in> (\<lambda>q. pm_va (nv_pages s q)) ` set ps" and b: "b = 0 \<or> b \<in> dom L" "(c = a) \<noteq> (b = a)"
  shows "\<exists>s'. native_map e a va pa prot s = Inr s' \<and> native_switch e (if b = 0 then 0 else head_of s' b) s' = None"
proof -
  let ?h = "head_of s a"
  from native_remap [OF e ok L v old] obtain s' Q where m: "native_map e a va pa prot s = Inr s'"
    and Q: "cyclic (nv_pages s') Q" "vh_head (nv_heads s' ?h) \<in> Q" "\<forall>q \<in> Q. in_user_space (pm_va (nv_pages s' q))" "Q \<subseteq> set ps"
    and hd: "\<forall>d. d \<noteq> a \<longrightarrow> d \<in> dom L \<longrightarrow> head_of s d \<noteq> ?h"
    and other: "\<forall>q. q \<notin> set ps \<longrightarrow> nv_pages s' q = nv_pages s q" "\<forall>h. h \<noteq> ?h \<longrightarrow> nv_heads s' h = nv_heads s h"
    and same: "nv_spaces s' = nv_spaces s" "nv_enable s' = nv_enable s" "nv_cur s' = nv_cur s" by blast
  have h': "head_of s' d = head_of s d" for d by (simp add: head_of_def same)
  have a0: "a \<noteq> 0" using L nv_okD(2) [OF ok] by auto
  have h0: "head_of s d \<noteq> 0" if "d \<in> dom L" for d using that nv_okD(5) [OF ok] by (auto simp: space_ok_def)
  have en: "nv_enable s'" using nv_okD(1) [OF ok] same by simp
  have cur: "nv_cur s' = (if c = 0 then 0 else head_of s c)" using nv_okD(4) [OF ok] same by simp
  have "native_switch e (if b = 0 then 0 else head_of s b) s' = None"
  proof (cases "c = a")
    case True
    then have "(if b = 0 then 0 else head_of s b) \<noteq> ?h" using b hd h0 [of a] L by auto
    moreover have "nv_cur s' = ?h" "?h \<noteq> 0" using cur True a0 h0 [of a] L by auto
    ultimately show ?thesis using unmap_cyclic [OF Q(1,2)] en by (simp add: native_switch_def)
  next
    case False
    then have ba: "b = a" using b(2) by blast
    have ne: "?h \<noteq> nv_cur s'" using cur hd nv_okD(3) [OF ok] False h0 [of a] L by auto
    let ?s = "if c = 0 then s' else fold unmap_one (the (L c)) s'"
    have u: "(if nv_cur s' \<noteq> 0 then unmap_pages (vh_head (nv_heads s' (nv_cur s'))) s' else Some s') = Some ?s"
    proof (cases "c = 0")
      case c: False
      then obtain qs where qs: "L c = Some qs" using nv_okD(3) [OF ok] by blast
      have "set qs \<inter> set ps = {}" using nv_okD(8) [OF ok qs L False] .
      then have "plist (nv_pages s') p qs = plist (nv_pages s) p qs" for p
        by (intro plist_cong) (use other(1) in auto)
      moreover have "plist (nv_pages s) (vh_head (nv_heads s (head_of s c))) qs"
        using nv_okD(5) [OF ok qs] by (simp add: space_ok_def)
      moreover have "nv_heads s' (head_of s c) = nv_heads s (head_of s c)" using hd False qs other(2) by auto
      ultimately have "plist (nv_pages s') (vh_head (nv_heads s' (nv_cur s'))) qs" using cur c by simp
      moreover have "nv_cur s' \<noteq> 0" using cur c h0 [of c] qs by auto
      ultimately show ?thesis using c qs by (simp add: unmap_pages_list)
    qed (simp add: cur)
    have pg: "pm_next (nv_pages ?s q) = pm_next (nv_pages s' q)" "pm_va (nv_pages ?s q) = pm_va (nv_pages s' q)" for q
      by (simp_all add: fold_unmap_pages)
    have "cyclic (nv_pages ?s) Q" using Q(1) by (subst cyclic_cong [of _ "nv_pages s'"]) (rule pg)
    moreover have "vh_head (nv_heads ?s ?h) \<in> Q" using Q(2) by simp
    moreover have "\<forall>q \<in> Q. in_user_space (pm_va (nv_pages ?s q))" using Q(3) by (simp only: pg(2))
    ultimately have mp: "map_pages e (vh_head (nv_heads ?s ?h)) ?s = None" by (intro map_cyclic [OF e])
    show ?thesis using ba a0 ne en h0 [of a] L mp
      by (simp only: native_switch_def if_False u not_True_eq_False simp_thms option.case) auto
  qed
  then show ?thesis using m h' by auto
qed

end
