(* ===== verification/Native_CTE_Correct.thy ===== *)
theory Native_CTE_Correct
  imports Native_CTE Native_Spaces
begin

text \<open>
  What the signal handler of the native port achieves: the handler of the program is given the interrupted context, and
  the context it returns is the one that runs next, in its own address space.
\<close>

section \<open>Saving\<close>

definition signal_safe :: "native_text \<Rightarrow> host_context \<Rightarrow> 'g native \<Rightarrow> bool" where
  "signal_safe t uc s \<longleftrightarrow> nt_start t \<le> uc_gregs uc REG_RIP \<and> uc_gregs uc REG_RIP < nt_etext t \<or>
     am_in_userspace (uc_gregs uc REG_RIP) s \<or> uc_gregs uc REG_RIP = nt_sigret t"

text \<open>Where a context is saved, and how: a system call returns behind its instruction.\<close>

definition saved_at :: "native_text \<Rightarrow> host_context \<Rightarrow> 'g native \<Rightarrow> u64" where
  "saved_at t uc s =
     (let rsp = (if am_in_userspace (uc_gregs uc REG_RIP) s then nv_ksp s else uc_gregs uc REG_RSP) - nt_ctxsize t in
      if (rsp + 8) mod 16 \<noteq> 0 then rsp - 8 else rsp)"

definition saved_uc :: "event_id \<Rightarrow> host_context \<Rightarrow> host_context" where
  "saved_uc ev uc = (if ev = EVENT_SYSCALL then uc_set REG_RIP (uc_gregs uc REG_RIP + 7) uc else uc)"

definition saved_state :: "native_text \<Rightarrow> native_event \<Rightarrow> host_context \<Rightarrow> 'g native \<Rightarrow> 'g native" where
  "saved_state t ev uc s = s\<lparr>nv_ev := ev, nv_ctx := (nv_ctx s)(saved_at t uc s :=
     \<lparr>nc_ksp = nv_ksp s, nc_vm = nv_cur s, nc_uc = saved_uc (nev_id ev) uc\<rparr>)\<rparr>"

lemma uc_set_same [simp]: "uc_set r (uc_gregs uc r) uc = uc"
  by (simp add: uc_set_def)

lemma uc_set_get [simp]: "uc_gregs (uc_set r v uc) q = (if q = r then v else uc_gregs uc q)"
  by (simp add: uc_set_def)

text \<open>A saved context is placed as the calling convention wants it.\<close>

lemma saved_aligned:
  assumes "nt_ctxsize t mod 8 = 0" "(if am_in_userspace (uc_gregs uc REG_RIP) s then nv_ksp s else uc_gregs uc REG_RSP) mod 8 = 0"
  shows "(saved_at t uc s + 8) mod 16 = 0"
proof -
  define rsp where "rsp = (if am_in_userspace (uc_gregs uc REG_RIP) s then nv_ksp s else uc_gregs uc REG_RSP) - nt_ctxsize t"
  have m: "x mod 8 = 0 \<longleftrightarrow> 8 dvd unat x" "x mod 16 = 0 \<longleftrightarrow> 16 dvd unat x" for x :: u64
    by (simp_all add: word_unat_eq_iff unat_mod dvd_eq_mod_eq_0)
  have "8 dvd unat (a - b)" if "8 dvd unat a" "8 dvd unat b" for a b :: u64
  proof -
    have "8 dvd unat a + 2 ^ 64" using that(1) by (intro dvd_add) simp_all
    then show ?thesis using that by (simp add: unat_sub_if' dvd_diff_nat)
  qed
  then have "8 dvd unat rsp" using assms by (simp add: rsp_def m)
  then have "16 dvd unat rsp + 8 \<or> 16 dvd unat rsp" by presburger
  moreover have "16 dvd unat (rsp + 8) \<longleftrightarrow> 16 dvd unat rsp + 8" by (simp add: unat_word_ariths dvd_mod_iff)
  ultimately show ?thesis by (auto simp: saved_at_def rsp_def [symmetric] m Let_def)
qed

section \<open>Resuming\<close>

definition taken :: "native_text \<Rightarrow> event_id \<Rightarrow> host_context \<Rightarrow> 'g native \<Rightarrow> bool" where
  "taken t ev uc s \<longleftrightarrow> ev \<noteq> EVENT_ERROR \<and> (ev \<in> {EVENT_IRQ_IODEV, EVENT_IRQ_TIMER} \<longrightarrow> signal_safe t uc s)"

lemma magic_is_error:
  assumes "signal_event sg info s = Inr ev" "sg = SIGSEGV \<and> si_code info = SEGV_ACCERR \<and> si_addr info = 0x100008"
  shows "nev_id ev = EVENT_ERROR"
proof -
  have "signal_event sg info s = Inr \<lparr>nev_id = EVENT_ERROR, nev_cause = 0, nev_ref = 0, nev_msg = 0\<rparr>"
    using assms(2) by (simp add: signal_event_def am_in_userspace_def in_user_space_def USER_START_def)
  then show ?thesis using assms(1) by simp
qed

lemma am_in_userspace_ev [simp]: "am_in_userspace a (s\<lparr>nv_ev := v\<rparr>) = am_in_userspace a s"
  by (simp add: am_in_userspace_def)

lemma setup_stack_taken:
  assumes "taken t ev uc s"
  shows "setup_stack t ev uc s =
    (uc_set REG_RSP (saved_at t uc s) (uc_set REG_RIP (nt_irq t) (uc_set REG_RDI (saved_at t uc s)
       ((saved_uc ev uc)\<lparr>uc_mask := am_intr_sigmask\<rparr>))),
     s\<lparr>nv_ctx := (nv_ctx s)(saved_at t uc s := (nv_ctx s (saved_at t uc s))\<lparr>nc_uc := saved_uc ev uc\<rparr>)\<rparr>)"
proof -
  have "\<not> ((ev = EVENT_IRQ_IODEV \<or> ev = EVENT_IRQ_TIMER) \<and> \<not> signal_safe t uc s)" using assms by (auto simp: taken_def)
  moreover have "uc_set REG_RIP (if ev = EVENT_SYSCALL then uc_gregs uc REG_RIP + SYSCALL_INSTR_LEN else uc_gregs uc REG_RIP) uc =
      saved_uc ev uc"
    by (simp add: saved_uc_def SYSCALL_INSTR_LEN_def)
  moreover have "uc_gregs (saved_uc ev uc) REG_RSP = uc_gregs uc REG_RSP"
    by (simp add: saved_uc_def REG_RSP_def REG_RIP_def)
  ultimately show ?thesis
    unfolding setup_stack_def Let_def signal_safe_def [symmetric] by (simp only: if_False saved_at_def Let_def)
qed

lemma sig_handler_saves:
  assumes ev: "signal_event sg info s = Inr ev" and t: "taken t (nev_id ev) uc s"
  shows "\<exists>uc'. sig_handler t sg info uc s = Inr (uc', s\<lparr>nv_ev := ev, nv_ctx := (nv_ctx s)(saved_at t uc s :=
      (nv_ctx s (saved_at t uc s))\<lparr>nc_uc := saved_uc (nev_id ev) uc\<rparr>)\<rparr>) \<and>
    uc_gregs uc' REG_RIP = nt_irq t \<and> uc_gregs uc' REG_RDI = saved_at t uc s \<and> uc_mask uc' = am_intr_sigmask"
proof -
  have n: "nev_id ev \<noteq> EVENT_ERROR" using t by (simp add: taken_def)
  then have no: "\<not> (sg = SIGSEGV \<and> si_code info = SEGV_ACCERR \<and> si_addr info = 0x100008)" using magic_is_error [OF ev] by blast
  have tk: "taken t (nev_id ev) uc (s\<lparr>nv_ev := ev\<rparr>)" using t by (simp add: taken_def signal_safe_def)
  have sa: "saved_at t uc (s\<lparr>nv_ev := ev\<rparr>) = saved_at t uc s" by (simp add: saved_at_def)
  have "sig_handler t sg info uc s = Inr (setup_stack t (nev_id ev) uc (s\<lparr>nv_ev := ev\<rparr>))"
    unfolding sig_handler_def if_not_P [OF no] ev by (simp add: n)
  moreover have "setup_stack t (nev_id ev) uc (s\<lparr>nv_ev := ev\<rparr>) =
      (uc_set REG_RSP (saved_at t uc s) (uc_set REG_RIP (nt_irq t) (uc_set REG_RDI (saved_at t uc s)
         ((saved_uc (nev_id ev) uc)\<lparr>uc_mask := am_intr_sigmask\<rparr>))),
       s\<lparr>nv_ev := ev, nv_ctx := (nv_ctx s)(saved_at t uc s := (nv_ctx s (saved_at t uc s))\<lparr>nc_uc := saved_uc (nev_id ev) uc\<rparr>)\<rparr>)"
    unfolding setup_stack_taken [OF tk] sa by simp
  moreover have "uc_gregs (uc_set REG_RSP v (uc_set REG_RIP (nt_irq t) w)) REG_RIP = nt_irq t"
    "uc_gregs (uc_set REG_RSP v (uc_set REG_RIP (nt_irq t) (uc_set REG_RDI v w'))) REG_RDI = v"
    "uc_mask (uc_set REG_RSP v (uc_set REG_RIP (nt_irq t) (uc_set REG_RDI v w'))) = uc_mask w'" for v w w'
    by (simp_all add: REG_RSP_def REG_RIP_def REG_RDI_def) (simp add: uc_set_def)
  ultimately show ?thesis by simp
qed

lemma nv_ctx_more: "native_vm.more s' = native_vm.more s \<Longrightarrow> nv_ctx s' = nv_ctx s"
  by (cases s; cases s') simp

lemma nv_rel_ctx:
  fixes s :: "'g native" and v :: native_event and k :: u64
  defines "s' \<equiv> s\<lparr>nv_ev := v, nv_ksp := k\<rparr>"
  shows "nv_rel e u r x s' = nv_rel e u r x s"
proof -
  have f: "nv_pages s' = nv_pages s" "nv_heads s' = nv_heads s" "nv_spaces s' = nv_spaces s" "nv_enable s' = nv_enable s"
    "nv_cur s' = nv_cur s" "nv_host s' = nv_host s" "nv_pgalloc s' = nv_pgalloc s" "nv_heap s' = nv_heap s"
    by (simp_all add: s'_def)
  have h: "head_of s' = head_of s" by (simp add: head_of_def fun_eq_iff f)
  have "space_ok e s' = space_ok e s" "visible e s' = visible e s" "maps_of e s' = maps_of e s"
    by (intro ext; simp only: space_ok_def visible_def maps_of_def f h)+
  then show ?thesis by (simp only: nv_rel_def nv_ok_def f h)
qed

lemma native_signal_resumes:
  assumes e: "env_ok e" and ev: "signal_event sg info s = Inr ev" and t: "taken t (nev_id ev) uc s"
    and h: "f ev (saved_at t uc s) (saved_state t ev uc s) = Inr (c, s2)" "c \<noteq> 0"
    and rel: "nv_rel e u r x s2" and b: "b = 0 \<or> sp_maps x b \<noteq> None"
    and c: "nv_ctx s2 c = \<lparr>nc_ksp = k, nc_vm = (if b = 0 then 0 else head_of s2 b), nc_uc = uc2\<rparr>"
  shows "\<exists>s3. native_signal e t (Some f) junk sg info uc s = Some (Inr (uc2, s3)) \<and> nv_ksp s3 = k \<and>
    nv_rel e u r (x\<lparr>sp_cur := b\<rparr>) s3 \<and> nv_ctx s3 = nv_ctx s2"
proof -
  let ?c = "saved_at t uc s"
  let ?s1 = "s\<lparr>nv_ev := ev, nv_ctx := (nv_ctx s)(?c := (nv_ctx s ?c)\<lparr>nc_uc := saved_uc (nev_id ev) uc\<rparr>)\<rparr>"
  obtain uc' where sv: "sig_handler t sg info uc s = Inr (uc', ?s1)" "uc_gregs uc' REG_RIP = nt_irq t" "uc_gregs uc' REG_RDI = ?c"
    using sig_handler_saves [OF ev t] by blast
  have eq: "?s1\<lparr>nv_ctx := (nv_ctx ?s1)(?c := (nv_ctx ?s1 ?c)\<lparr>nc_vm := nv_cur ?s1, nc_ksp := nv_ksp ?s1\<rparr>)\<rparr> = saved_state t ev uc s"
    by (cases "nv_ctx s ?c") (simp add: saved_state_def)
  from nv_switch_refines [OF e rel b refl] obtain s3 where sw: "native_switch e (if b = 0 then 0 else head_of s2 b) s2 = Some (Inr s3)"
    and rel3: "nv_rel e u r (x\<lparr>sp_cur := b\<rparr>) s3" and more: "native_vm.more s3 = native_vm.more s2" by blast
  note ctx3 = nv_ctx_more [OF more]
  have irq: "native_irq_handle e (Some f) ?c ?s1 = Some (Inr (c, s3))"
    unfolding native_irq_handle_def Let_def eq using t h sw by (simp add: saved_state_def taken_def c)
  let ?s4 = "s3\<lparr>nv_ev := \<lparr>nev_id = EVENT_ERROR, nev_cause = 0, nev_ref = 0, nev_msg = 0\<rparr>\<rparr>"
  have "native_signal e t (Some f) junk sg info uc s = Some (Inr (uc2, ?s4\<lparr>nv_ksp := k\<rparr>))"
    using sv irq by (simp add: native_signal_def sig_handler_def native_iret_def ctx3 c)
  moreover have "nv_rel e u r (x\<lparr>sp_cur := b\<rparr>) (?s4\<lparr>nv_ksp := k\<rparr>)"
    using rel3 by (simp add: nv_rel_ctx)
  ultimately show ?thesis using ctx3 by (intro exI [of _ "?s4\<lparr>nv_ksp := k\<rparr>"]) simp
qed

text \<open>New threads start at their entry, with all signals enabled.\<close>

lemma native_kcontext_starts:
  assumes "native_kcontext t kend entry arg s = (c, s')"
  shows "nc_vm (nv_ctx s' c) = 0 \<and> uc_gregs (nc_uc (nv_ctx s' c)) REG_RIP = nt_kstart t \<and>
    uc_gregs (native_kcontext_start (nc_uc (nv_ctx s' c))) REG_RIP = entry \<and>
    uc_gregs (native_kcontext_start (nc_uc (nv_ctx s' c))) REG_RDI = arg \<and>
    native_ienabled (native_kcontext_start (nc_uc (nv_ctx s' c)))"
  using assms
  by (auto simp: native_kcontext_def native_kcontext_start_def native_ienabled_def am_is_sigmask_sti_def REG_RDI_def REG_RSI_def
      REG_RSP_def REG_RIP_def uc_set_def Let_def)

lemma native_ucontext_starts:
  assumes "native_ucontext t a kend entry s = (c, s')"
  shows "nv_ctx s' c = \<lparr>nc_ksp = kend, nc_vm = head_of s a, nc_uc = nc_uc (nv_ctx s' c)\<rparr> \<and>
    uc_gregs (nc_uc (nv_ctx s' c)) REG_RIP = entry \<and> uc_gregs (nc_uc (nv_ctx s' c)) REG_RSP = USER_END \<and>
    native_ienabled (nc_uc (nv_ctx s' c))"
  using assms
  by (auto simp: native_ucontext_def native_ienabled_def am_is_sigmask_sti_def REG_RSP_def REG_RIP_def uc_set_def head_of_def Let_def)

text \<open>Interrupts that come while a shared library runs are lost, and nothing else changes.\<close>

lemma unsafe_signal_lost:
  assumes ev: "signal_event sg info s = Inr ev" and l: "nev_id ev \<in> {EVENT_IRQ_IODEV, EVENT_IRQ_TIMER}" "\<not> signal_safe t uc s"
  shows "sig_handler t sg info uc s = Inr (uc, s\<lparr>nv_ev := ev\<rparr>)"
proof -
  have "nev_id ev \<noteq> EVENT_ERROR" using l(1) by auto
  moreover have "\<not> (sg = SIGSEGV \<and> si_code info = SEGV_ACCERR \<and> si_addr info = 0x100008)"
    using magic_is_error [OF ev] calculation by blast
  moreover have "\<not> signal_safe t uc (s\<lparr>nv_ev := ev\<rparr>)" using l(2) by (simp add: signal_safe_def)
  ultimately show ?thesis using l(1)
    unfolding sig_handler_def ev by (auto simp: setup_stack_def signal_safe_def Let_def)
qed

lemma native_iset_ienabled [simp]: "native_ienabled (native_iset b uc) = b"
  by (simp add: native_ienabled_def native_iset_def am_is_sigmask_sti_def am_intr_sigmask_def)

end
