(* ===== verification/Native_IOE.thy ===== *)
theory Native_IOE
  imports AM_IOE
begin

text \<open>
  Devices of the native port (\<^verbatim>\<open>am/src/native/ioe.c\<close>, \<^verbatim>\<open>ioe/*.c\<close>, \<^verbatim>\<open>trm.c\<close>). The host's libraries are parameters: events,
  scan codes, the clock, and the pipe that carries sound, whose reads and writes may be partial.
\<close>

section \<open>Keyboard\<close>

definition NATIVE_QUEUE_LEN :: nat where
  "NATIVE_QUEUE_LEN = 1024"

record native_keys =
  nk_queue :: "u32 list"
  nk_f :: nat
  nk_r :: nat
  nk_intrs :: nat

text \<open>The map from scan codes, of 256 entries; \<open>scan\<close> gives the scan code of a key's name.\<close>

fun native_keymap_from :: "(string \<Rightarrow> nat) \<Rightarrow> u32 \<Rightarrow> string list \<Rightarrow> u32 list \<Rightarrow> u32 list" where
  "native_keymap_from scan n [] km = km"
| "native_keymap_from scan n (k # ks) km = native_keymap_from scan (n + 1) ks (km[scan k := n])"

definition native_keymap :: "(string \<Rightarrow> nat) \<Rightarrow> u32 list" where
  "native_keymap scan = native_keymap_from scan 1 AM_KEYS (replicate 256 0)"

datatype native_sdl_event = Sdl_quit | Sdl_key bool nat | Sdl_other

text \<open>One round of \<^verbatim>\<open>event_thread\<close>; \<open>nk_intrs\<close> counts the interrupts it sends.\<close>

definition native_event_round :: "u32 list \<Rightarrow> native_sdl_event \<Rightarrow> native_keys \<Rightarrow> native_keys res" where
  "native_event_round km ev s =
     (case ev of
        Sdl_quit \<Rightarrow> Inl (Exit 0)
      | Sdl_key down scancode \<Rightarrow>
          guardR (scancode < length km) Undef
           (if km ! scancode \<noteq> 0
            then let am_code = km ! scancode OR (if down then AM_KEYDOWN_MASK else 0) in
                 Inr (s\<lparr>nk_queue := (nk_queue s)[nk_r s := am_code], nk_r := (nk_r s + 1) mod NATIVE_QUEUE_LEN,
                   nk_intrs := Suc (nk_intrs s)\<rparr>)
            else Inr s)
      | Sdl_other \<Rightarrow> Inr s)"

definition native_input_keybrd :: "native_keys \<Rightarrow> AM_INPUT_KEYBRD_T \<times> native_keys" where
  "native_input_keybrd s =
     (let (k, s) = (if nk_f s \<noteq> nk_r s
                    then (nk_queue s ! nk_f s, s\<lparr>nk_f := (nk_f s + 1) mod NATIVE_QUEUE_LEN\<rparr>) else (0, s)) in
      (\<lparr>keydown = (k AND AM_KEYDOWN_MASK \<noteq> 0), keycode = sint (k AND NOT AM_KEYDOWN_MASK)\<rparr>, s))"

section \<open>Sound\<close>

text \<open>\<^verbatim>\<open>write\<close> gets the bytes it is asked to write and answers how many it took, or -1; \<^verbatim>\<open>read\<close> gives bytes or fails.\<close>

record 's native_pipe =
  np_write :: "u8 list \<Rightarrow> 's \<Rightarrow> int \<times> 's"
  np_read :: "nat \<Rightarrow> 's \<Rightarrow> u8 list option \<times> 's"

text \<open>\<^verbatim>\<open>audio_write\<close> for the bytes \<open>buf\<close>; the state is the count of bytes in the pipe and the host.\<close>

partial_function (option) native_audio_write :: "'s native_pipe \<Rightarrow> u8 list \<Rightarrow> int \<Rightarrow> int \<times> 's \<Rightarrow> (int \<times> 's) option" where
  "native_audio_write P buf nwrite cs =
     (case cs of (count, s) \<Rightarrow>
      if nwrite < int (length buf) then
        case np_write P buf s of (n, s) \<Rightarrow>
        let n = (if n = - 1 then 0 else n) in native_audio_write P buf (nwrite + n) (count + n, s)
      else Some (count, s))"

text \<open>The loop of \<^verbatim>\<open>audio_play\<close>; every read goes to the start of \<^verbatim>\<open>stream\<close>.\<close>

partial_function (option) native_audio_read :: "'s native_pipe \<Rightarrow> nat \<Rightarrow> int \<Rightarrow> u8 list \<times> 's \<Rightarrow> (u8 list \<times> 's) option" where
  "native_audio_read P nread b ss =
     (case ss of (stream, s) \<Rightarrow>
      if b < int nread then
        case np_read P nread s of
          (None, s) \<Rightarrow> native_audio_read P nread b (stream, s)
        | (Some bs, s) \<Rightarrow> native_audio_read P nread (b + int (length bs)) (bs @ drop (length bs) stream, s)
      else Some (stream, s))"

definition native_audio_play :: "'s native_pipe \<Rightarrow> u8 list \<Rightarrow> int \<times> 's \<Rightarrow> (u8 list \<times> int \<times> 's) option" where
  "native_audio_play P stream cs =
     (case cs of (count, s) \<Rightarrow>
      let len = length stream; nread = (if count < int len then nat count else len) in
      case native_audio_read P nread 0 (stream, s) of
        None \<Rightarrow> None
      | Some (stream, s) \<Rightarrow>
          Some (if nread < len then take nread stream @ replicate (len - nread) 0 else stream, count - int nread, s))"

section \<open>Disk\<close>

text \<open>The image file, if there is one, and its size in blocks.\<close>

record native_disk =
  nd_file :: "u8 list option"
  nd_blocks :: int

definition native_disk_init :: "(string \<Rightarrow> string option) \<Rightarrow> (string \<Rightarrow> u8 list option) \<Rightarrow> native_disk" where
  "native_disk_init getenv fopen =
     (case getenv ''diskimg'' of
        None \<Rightarrow> \<lparr>nd_file = None, nd_blocks = 0\<rparr>
      | Some nm \<Rightarrow>
          (case fopen nm of
             None \<Rightarrow> \<lparr>nd_file = None, nd_blocks = 0\<rparr>
           | Some bs \<Rightarrow> \<lparr>nd_file = Some bs, nd_blocks = (int (length bs) + 511) div 512\<rparr>))"

definition native_disk_config :: "native_disk \<Rightarrow> bool \<times> int \<times> int" where
  "native_disk_config d = (nd_file d \<noteq> None, 512, nd_blocks d)"

text \<open>Writing past the end of a file extends it with zeros up to the place of writing.\<close>

definition file_put :: "nat \<Rightarrow> u8 list \<Rightarrow> u8 list \<Rightarrow> u8 list" where
  "file_put off bs f = take off f @ replicate (off - length f) 0 @ bs @ drop (off + length bs) f"

text \<open>The buffer of the request is a list of bytes, of \<open>blkcnt\<close> blocks; a read or write of no bytes returns 0.\<close>

definition native_disk_blkio :: "bool \<Rightarrow> u8 list \<Rightarrow> nat \<Rightarrow> nat \<Rightarrow> native_disk \<Rightarrow> (u8 list \<times> native_disk) res" where
  "native_disk_blkio wr buf blkno blkcnt d =
     (case nd_file d of
        None \<Rightarrow> Inr (buf, d)
      | Some f \<Rightarrow>
          let off = blkno * 512; n = blkcnt * 512 in
          guardR (n \<le> length buf) Undef
           (guardR (0 < n \<and> (wr \<or> off + n \<le> length f)) AssertFail
             (if wr then Inr (buf, d\<lparr>nd_file := Some (file_put off (take n buf) f)\<rparr>)
              else Inr (take n (drop off f) @ drop n buf, d))))"

section \<open>Clock and screen\<close>

text \<open>\<^verbatim>\<open>struct tm\<close> counts months from 0 and years from 1900.\<close>

record host_tm =
  tm_sec :: int
  tm_min :: int
  tm_hour :: int
  tm_mday :: int
  tm_mon :: int
  tm_year :: int

definition native_timer_rtc :: "host_tm \<Rightarrow> AM_TIMER_RTC_T" where
  "native_timer_rtc tm = \<lparr>year = tm_year tm + 1900, month = tm_mon tm + 1, day = tm_mday tm, hour = tm_hour tm,
     minute = tm_min tm, second = tm_sec tm\<rparr>"

text \<open>Times of the host are seconds and microseconds.\<close>

definition native_timer_uptime :: "int \<times> int \<Rightarrow> int \<times> int \<Rightarrow> u64" where
  "native_timer_uptime boot now =
     (let seconds = fst now - fst boot; useconds = snd now - snd boot in word_of_int (seconds * 1000000 + (useconds + 500)))"

definition native_gpu_config :: AM_GPU_CONFIG_T where
  "native_gpu_config = \<lparr>gpu_present = True, has_accel = False, width = 400, height = 300, vmemsz = 0\<rparr>"

section \<open>Registers\<close>

text \<open>The registers with a handler, in the order of \<^verbatim>\<open>lut\<close>; the others fail.\<close>

definition native_registers :: "am_devreg list" where
  "native_registers = [AM_TIMER_CONFIG, AM_TIMER_RTC, AM_TIMER_UPTIME, AM_INPUT_CONFIG, AM_INPUT_KEYBRD, AM_GPU_CONFIG,
     AM_GPU_FBDRAW, AM_GPU_STATUS, AM_UART_CONFIG, AM_AUDIO_CONFIG, AM_AUDIO_CTRL, AM_AUDIO_STATUS, AM_AUDIO_PLAY,
     AM_DISK_CONFIG, AM_DISK_STATUS, AM_DISK_BLKIO, AM_NET_CONFIG]"

record 's native_ioe =
  ni_has_ioe :: bool
  ni_done :: bool
  ni_devs :: 's

definition native_ioe_init :: "int \<Rightarrow> 's native_ioe \<Rightarrow> (bool \<times> 's native_ioe) res" where
  "native_ioe_init cpuid s =
     guardR (cpuid = 0) Panic (guardR (\<not> ni_done s) Panic (Inr (True, s\<lparr>ni_has_ioe := True\<rparr>)))"

text \<open>\<open>init\<close> initialises the devices, on the first access; \<open>handler\<close> is the function of a register.\<close>

definition native_do_io :: "('s \<Rightarrow> 's res) \<Rightarrow> (am_devreg \<Rightarrow> 'b \<Rightarrow> 's \<Rightarrow> ('b \<times> 's) res) \<Rightarrow> am_devreg \<Rightarrow> 'b \<Rightarrow>
    's native_ioe \<Rightarrow> ('b \<times> 's native_ioe) res" where
  "native_do_io init handler reg buf s =
     bindR (if ni_done s then Inr s else bindR (init (ni_devs s)) (\<lambda>v. Inr (s\<lparr>ni_done := True, ni_devs := v\<rparr>))) (\<lambda>s.
     guardR (reg \<in> set native_registers) Panic
      (bindR (handler reg buf (ni_devs s)) (\<lambda>(buf, v). Inr (buf, s\<lparr>ni_devs := v\<rparr>))))"

text \<open>What \<^verbatim>\<open>halt\<close> prints.\<close>

definition native_halt_char :: "u32 \<Rightarrow> char \<Rightarrow> char" where
  "native_halt_char code ch =
     (if ch = CHR ''0'' \<or> ch = CHR ''4''
      then ''0123456789abcdef'' ! unat (drop_bit (of_char ch - 48) code AND 0xf) else ch)"

definition native_halt_text :: "u32 \<Rightarrow> string" where
  "native_halt_text code = map (native_halt_char code) (''Exit code = 40h'' @ [CHR 0x0A])"

end
