(* ===== verification/Native_IOE_Correct.thy ===== *)
theory Native_IOE_Correct
  imports Native_IOE Keyboard
begin

text \<open>
  The key ring of the native port is the ring of NEMU without the test that it is full, so that the facts about that
  one apply as long as there is room. Blocks written to the image are read back.
\<close>

section \<open>Keys\<close>

text \<open>The ring as one of NEMU; what else that state has does not matter.\<close>

definition as_ring :: "keyboard_state \<Rightarrow> native_keys \<Rightarrow> keyboard_state" where
  "as_ring k s = k\<lparr>key_queue := nk_queue s, key_f := nk_f s, key_r := nk_r s\<rparr>"

lemma native_len: "NATIVE_QUEUE_LEN = KEY_QUEUE_LEN"
  by (simp add: NATIVE_QUEUE_LEN_def KEY_QUEUE_LEN_def)

definition native_code :: "u32 list \<Rightarrow> bool \<Rightarrow> nat \<Rightarrow> u32" where
  "native_code km down sc = km ! sc OR (if down then AM_KEYDOWN_MASK else 0)"

lemma native_key_enters:
  assumes "key_inv (as_ring k s)" "length (pending_keys (as_ring k s)) < KEY_QUEUE_LEN - 1" "sc < length km" "km ! sc \<noteq> 0"
  shows "\<exists>s'. native_event_round km (Sdl_key down sc) s = Inr s' \<and> key_inv (as_ring k s') \<and>
    pending_keys (as_ring k s') = pending_keys (as_ring k s) @ [native_code km down sc]"
proof -
  obtain k' where k': "key_enqueue (native_code km down sc) (as_ring k s) = Inr k'" "key_inv k'"
    "pending_keys k' = pending_keys (as_ring k s) @ [native_code km down sc]"
    using key_enqueue_ok [OF assms(1)] assms(2) by fastforce
  let ?s = "s\<lparr>nk_queue := (nk_queue s)[nk_r s := native_code km down sc], nk_r := (nk_r s + 1) mod NATIVE_QUEUE_LEN,
     nk_intrs := Suc (nk_intrs s)\<rparr>"
  have "native_event_round km (Sdl_key down sc) s = Inr ?s"
    using assms(3,4) by (simp add: native_event_round_def native_code_def Let_def)
  moreover have "as_ring k ?s = k'"
    using k'(1) by (auto simp: as_ring_def key_enqueue_def native_len res_simps Let_def)
  ultimately show ?thesis using k'(2,3) by blast
qed

lemma native_key_delivered:
  assumes "key_inv (as_ring k s)" "pending_keys (as_ring k s) = x # xs"
  shows "\<exists>s'. native_input_keybrd s = (\<lparr>keydown = (x AND AM_KEYDOWN_MASK \<noteq> 0), keycode = sint (x AND NOT AM_KEYDOWN_MASK)\<rparr>, s') \<and>
    key_inv (as_ring k s') \<and> pending_keys (as_ring k s') = xs"
proof -
  obtain k' where k': "key_dequeue (as_ring k s) = (x, k')" "key_inv k'" "pending_keys k' = xs"
    using key_dequeue_ok [OF assms] by blast
  have "nk_f s \<noteq> nk_r s"
    using arg_cong [OF assms(2), of length] by (auto simp: as_ring_def key_count_def)
  then have "native_input_keybrd s = (\<lparr>keydown = (x AND AM_KEYDOWN_MASK \<noteq> 0), keycode = sint (x AND NOT AM_KEYDOWN_MASK)\<rparr>,
      s\<lparr>nk_f := (nk_f s + 1) mod NATIVE_QUEUE_LEN\<rparr>)"
    and "as_ring k (s\<lparr>nk_f := (nk_f s + 1) mod NATIVE_QUEUE_LEN\<rparr>) = k'"
    using k'(1) by (auto simp: native_input_keybrd_def key_dequeue_def as_ring_def native_len)
  then show ?thesis using k'(2,3) by blast
qed

text \<open>One key too many, and all of them are lost.\<close>

lemma native_keys_lost:
  assumes "key_inv (as_ring k s)" "length (pending_keys (as_ring k s)) = KEY_QUEUE_LEN - 1" "sc < length km" "km ! sc \<noteq> 0"
  shows "\<exists>s'. native_event_round km (Sdl_key down sc) s = Inr s' \<and> pending_keys (as_ring k s') = []"
proof -
  have "(nk_r s + 1) mod KEY_QUEUE_LEN = nk_f s"
    using key_full [OF assms(1)] assms(2) by (simp add: as_ring_def)
  then show ?thesis using assms(3,4)
    by (simp add: native_event_round_def as_ring_def native_len pending_keys_def key_count_def Let_def)
qed

section \<open>Disk\<close>

lemma length_file_put: "length (file_put off bs f) = max (length f) (off + length bs)"
  by (auto simp: file_put_def)

lemma nth_file_put:
  assumes "i < length (file_put off bs f)"
  shows "file_put off bs f ! i = (if off \<le> i \<and> i < off + length bs then bs ! (i - off) else if i < length f then f ! i else 0)"
  using assms by (auto simp: file_put_def nth_append min_def split: if_splits)

lemma native_disk_roundtrip:
  assumes "native_disk_blkio True buf blkno cnt d = Inr (b, d')" "cnt * 512 \<le> length buf'"
  shows "native_disk_blkio False buf' blkno cnt d' = Inr (take (cnt * 512) buf @ drop (cnt * 512) buf', d') \<or> nd_file d = None"
proof (cases "nd_file d")
  case (Some f)
  let ?n = "cnt * 512" and ?o = "blkno * 512"
  have n: "?n \<le> length buf" "0 < ?n" and d': "d' = d\<lparr>nd_file := Some (file_put ?o (take ?n buf) f)\<rparr>"
    using assms(1) Some by (auto simp: native_disk_blkio_def guardR_eq_Inr Let_def)
  have "take ?n (drop ?o (file_put ?o (take ?n buf) f)) = take ?n buf"
    using n by (intro nth_equalityI) (auto simp: length_file_put nth_file_put)
  then show ?thesis using n assms(2) by (simp add: native_disk_blkio_def d' length_file_put Let_def)
qed simp

end
