(* ===== verification/Native_Properties.thy ===== *)
theory Native_Properties
  imports Native_CTE_Correct Native_IOE_Correct
begin

text \<open>
  What the native port promises: the host maps the current address space, threads resume in theirs; and what it does
  not survive, a page that is mapped twice.
\<close>

section \<open>Address spaces\<close>

text \<open>
  C37: The host maps the current address space. A session of protecting, mapping and switching, in which no page is
  mapped twice in a space, succeeds if the allocator has memory and the host grants its mappings; afterwards exactly the
  pages that were mapped in the current space are in user space, at their offsets and with their protections.
\<close>

theorem host_maps_current_space:
  assumes "env_ok e" "fresh_alloc e u r f" "nv_cur s = 0" "\<And>a. in_user_space a \<Longrightarrow> nv_host s a = None"
    and "spec_run e ops spec_start = Some x" "length ops \<le> r (nv_heap s)"
  shows "\<exists>s'. nv_run e ops (snd (native_vme_init f s)) = Some (Inr s') \<and> (\<forall>a. in_user_space a \<longrightarrow> nv_host s' a = spec_visible x a)"
proof -
  have "length ops \<le> r (nv_heap (snd (native_vme_init f s)))" using assms(6) by (simp add: native_vme_init_def)
  with nv_run_refines [OF assms(1) vme_init_rel [OF assms(2-4)] assms(5)] show ?thesis using nv_rel_visible by blast
qed

text \<open>An allocator with eight pages, and a host that grants everything.\<close>

definition few_pages :: "u64 \<Rightarrow> nat \<Rightarrow> u64 \<times> nat" where
  "few_pages n g = (if g < 8 then of_nat (4096 * Suc g) else 0, Suc g)"

definition given_pages :: "nat \<Rightarrow> u64 set" where
  "given_pages g = {p. 0 < unat p \<and> unat p \<le> 4096 * min g 8}"

definition granting_host :: native_env where
  "granting_host = \<lparr>ne_pgsize = 4096, ne_pmem = 0x1000000, ne_mmap = (\<lambda>_ _ _. True), ne_hcreate = (\<lambda>_. True)\<rparr>"

lemma sample_host_ok: "env_ok granting_host"
  by (simp add: env_ok_def granting_host_def)

lemma few_pages_fresh: "fresh_alloc granting_host given_pages (\<lambda>g. 8 - g) few_pages"
proof -
  have u: "unat (of_nat (4096 * Suc g) :: u64) = 4096 * Suc g" if "g < 8" for g
    using that by (simp only: unat_of_nat) simp
  have n: "(of_nat (4096 * Suc g) :: u64) \<noteq> 0" if "g < 8" for g using u [OF that] by (metis unat_0 mult_is_0 nat.distinct(1) zero_neq_numeral)
  show ?thesis
    unfolding fresh_alloc_def
  proof (intro allI impI conjI)
    fix g p g' assume "few_pages (ne_pgsize granting_host) g = (p, g')"
    then have p: "p = (if g < 8 then of_nat (4096 * Suc g) else 0)" "g' = Suc g" by (auto simp: few_pages_def)
    show "given_pages g \<subseteq> given_pages g'" by (auto simp: given_pages_def p(2))
    show "8 - g \<le> Suc (8 - g')" by (simp add: p(2))
    show "p \<notin> given_pages g" if "p \<noteq> 0" using that u [of g] by (auto simp: p(1) given_pages_def split: if_splits)
    show "p \<in> given_pages g'" if "p \<noteq> 0" using that u [of g] by (auto simp: p given_pages_def split: if_splits)
    show "p \<noteq> 0" if "0 < 8 - g" using that n [of g] by (simp add: p(1))
  qed
qed

definition native_start :: "nat native_vm" where
  "native_start = \<lparr>nv_pages = (\<lambda>_. fresh_node 0 0 0 0 False []), nv_heads = (\<lambda>_. \<lparr>vh_head = 0, vh_size = 0, vh_hash = [], vh_nr = 0\<rparr>),
     nv_spaces = (\<lambda>_. \<lparr>na_pgsize = 0, na_start = 0, na_end = 0, na_ptr = 0\<rparr>), nv_enable = False, nv_cur = 0,
     nv_host = (\<lambda>_. None), nv_pgalloc = None, nv_heap = 0\<rparr>"

definition two_space_ops :: "nv_op list" where
  "two_space_ops = [Protect 0x100, Map_op 0x100 0x40000000 0x1001000 3, Switch_op 0x100,
     Protect 0x200, Map_op 0x200 0x40000000 0x1002000 1, Switch_op 0x200]"

definition two_space_spec :: nv_spec where
  "two_space_spec = \<lparr>sp_maps = (\<lambda>_. None)(0x100 \<mapsto> [0x40000000 \<mapsto> (0x1000, 7)], 0x200 \<mapsto> [0x40000000 \<mapsto> (0x2000, 5)]), sp_cur = 0x200\<rparr>"

lemma two_space_run: "spec_run granting_host two_space_ops spec_start = Some two_space_spec"
proof -
  have p: "mmap_prot 3 = 7" "mmap_prot 1 = 5"
    by (simp_all add: mmap_prot_def MMAP_READ_def MMAP_WRITE_def PROT_NONE_def PROT_READ_def PROT_WRITE_def PROT_EXEC_def Let_def)
  have v: "in_user_space 0x40000000" by (simp add: in_user_space_def USER_START_def USER_END_def)
  show ?thesis
    by (simp add: two_space_ops_def two_space_spec_def spec_start_def granting_host_def p v fun_eq_iff)
qed

lemma host_maps_current_space_witness:
  "\<exists>s'. nv_run granting_host two_space_ops (snd (native_vme_init few_pages native_start)) = Some (Inr s') \<and>
     nv_host s' 0x40000000 = Some (0x2000, 5) \<and> nv_host s' 0x40001000 = None"
proof -
  have v: "in_user_space 0x40000000" "in_user_space 0x40001000" by (simp_all add: in_user_space_def USER_START_def USER_END_def)
  have "\<exists>s'. nv_run granting_host two_space_ops (snd (native_vme_init few_pages native_start)) = Some (Inr s') \<and>
      (\<forall>a. in_user_space a \<longrightarrow> nv_host s' a = spec_visible two_space_spec a)"
    by (rule host_maps_current_space [OF sample_host_ok few_pages_fresh _ _ two_space_run])
      (simp_all add: native_start_def two_space_ops_def)
  then show ?thesis using v by (auto simp: spec_visible_def two_space_spec_def)
qed

section \<open>A page that is mapped twice\<close>

lemma nv_run_append:
  "nv_run e (xs @ ys) s = (case nv_run e xs s of None \<Rightarrow> None | Some (Inl err) \<Rightarrow> Some (Inl err) | Some (Inr s) \<Rightarrow> nv_run e ys s)"
  by (induction xs arbitrary: s) (auto split: option.splits sum.splits)

text \<open>
  C38: A page may not be mapped twice. If after such a session a page of a space is mapped again, to whatever address, the
  next switch to or from that space never returns: the node of the page is put in front of the list a second time.
\<close>

theorem remapped_page_hangs:
  assumes "env_ok e" "fresh_alloc e u r f" "nv_cur s = 0" "\<And>a. in_user_space a \<Longrightarrow> nv_host s a = None"
    and "spec_run e ops spec_start = Some x" "length ops \<le> r (nv_heap s)"
    and m: "sp_maps x a = Some m" "m va = Some y" and pa: "pa mod ne_pgsize e = 0"
    and b: "b = 0 \<or> sp_maps x b \<noteq> None" "(sp_cur x = a) \<noteq> (b = a)"
  shows "nv_run e (ops @ [Map_op a va pa prot, Switch_op b]) (snd (native_vme_init f s)) = None"
proof -
  have "length ops \<le> r (nv_heap (snd (native_vme_init f s)))" using assms(6) by (simp add: native_vme_init_def)
  with nv_run_refines [OF assms(1) vme_init_rel [OF assms(2-4)] assms(5)]
  obtain s1 where s1: "nv_run e ops (snd (native_vme_init f s)) = Some (Inr s1)" "nv_rel e u r x s1" by blast
  obtain L where ok: "nv_ok e u r L (sp_cur x) s1" and maps: "sp_maps x = maps_of e s1 L" using s1(2) by (auto simp: nv_rel_def)
  obtain ps where L: "L a = Some ps" "m = space_of e (nv_pages s1) ps" using m(1) maps by (auto simp: maps_of_def)
  have old: "va \<in> (\<lambda>q. pm_va (nv_pages s1 q)) ` set ps" using m(2) L(2) dom_space_of by blast
  then have v: "in_user_space va" "va mod ne_pgsize e = 0" using nv_okD(5) [OF ok L(1)] by (auto simp: space_ok_def page_ok_def)
  have "b = 0 \<or> b \<in> dom L" using b(1) maps by (auto simp: maps_of_def)
  from remap_switch_hangs [OF assms(1) ok L(1) v pa old this b(2), of prot] obtain s2
    where "native_map e a va pa prot s1 = Inr s2" "native_switch e (if b = 0 then 0 else head_of s2 b) s2 = None" by blast
  then show ?thesis using s1(1) by (simp add: nv_run_append)
qed

lemma remapped_page_hangs_witness:
  "nv_run granting_host (two_space_ops @ [Map_op 0x100 0x40000000 0x1003000 1, Switch_op 0x100])
     (snd (native_vme_init few_pages native_start)) = None"
  by (rule remapped_page_hangs [OF sample_host_ok few_pages_fresh _ _ two_space_run, where m = "[0x40000000 \<mapsto> (0x1000, 7)]"])
    (simp_all add: native_start_def two_space_ops_def two_space_spec_def granting_host_def)

section \<open>Threads\<close>

text \<open>
  C39: A thread resumes as it was, in its own address space. When a signal that is an event is taken, the program's handler
  gets the interrupted context with its stack and address space; if the address spaces are in order when it returns a
  context, of space \<open>b\<close> or of none, that context is what runs next, with its registers, mask and kernel stack, and the host
  maps its space.
\<close>

theorem native_thread_resumes:
  assumes "env_ok e" "signal_event sg info s = Inr ev" "taken t (nev_id ev) uc s"
    and h: "f ev (saved_at t uc s) (saved_state t ev uc s) = Inr (c, s2)" "c \<noteq> 0"
    and rel: "nv_rel e u r x s2" and b: "b = 0 \<or> sp_maps x b \<noteq> None"
    and c: "nv_ctx s2 c = \<lparr>nc_ksp = k, nc_vm = (if b = 0 then 0 else head_of s2 b), nc_uc = uc2\<rparr>"
  shows "nv_ctx (saved_state t ev uc s) (saved_at t uc s) = \<lparr>nc_ksp = nv_ksp s, nc_vm = nv_cur s, nc_uc = saved_uc (nev_id ev) uc\<rparr> \<and>
    (\<exists>s3. native_signal e t (Some f) junk sg info uc s = Some (Inr (uc2, s3)) \<and> nv_ksp s3 = k \<and> nv_ctx s3 = nv_ctx s2 \<and>
      (\<forall>a. in_user_space a \<longrightarrow> nv_host s3 a = spec_visible (x\<lparr>sp_cur := b\<rparr>) a))"
proof -
  from native_signal_resumes [where f = f and junk = junk, OF assms] obtain s3 where s3: "native_signal e t (Some f) junk sg info uc s = Some (Inr (uc2, s3))"
    "nv_ksp s3 = k" "nv_rel e u r (x\<lparr>sp_cur := b\<rparr>) s3" "nv_ctx s3 = nv_ctx s2" by blast
  then show ?thesis using nv_rel_visible [OF s3(3)] by (auto simp: saved_state_def)
qed

text \<open>A thread that yields to itself.\<close>

definition sample_uc :: host_context where
  "sample_uc = \<lparr>uc_gregs = (\<lambda>r. of_nat r + 0x2000), uc_mask = (\<lambda>_. False), uc_fpregs = 0\<rparr>"

definition sample_text :: native_text where
  "sample_text = \<lparr>nt_start = 0x1000, nt_etext = 0x3000, nt_sigret = 0, nt_ctxsize = 0x460, nt_irq = 0x1800, nt_kstart = 0x1900,
     nt_strsignal = (\<lambda>_. 0)\<rparr>"

definition sample_native :: "nat native" where
  "sample_native = native_vm.extend (snd (native_vme_init few_pages native_start))
     (native.fields (\<lambda>_. \<lparr>nc_ksp = 0, nc_vm = 0, nc_uc = sample_uc\<rparr>) 0x5000
       \<lparr>nev_id = EVENT_NULL, nev_cause = 0, nev_ref = 0, nev_msg = 0\<rparr> sample_uc)"

lemma native_thread_resumes_witness:
  "\<exists>s3. native_yield granting_host sample_text (Some (\<lambda>ev c s. Inr (c, s))) sample_uc sample_uc sample_native = Some (Inr (sample_uc, s3)) \<and>
     nv_ksp s3 = 0x5000"
proof -
  let ?ev = "\<lparr>nev_id = EVENT_YIELD, nev_cause = 0, nev_ref = 0, nev_msg = 0\<rparr>"
  let ?s2 = "saved_state sample_text ?ev sample_uc sample_native" and ?c = "saved_at sample_text sample_uc sample_native"
  have ev: "signal_event SIGUSR2 \<lparr>si_code = 0, si_addr = 0\<rparr> sample_native = Inr ?ev" by (simp add: signal_event_def)
  have t: "taken sample_text (nev_id ?ev) sample_uc sample_native" by (simp add: taken_def)
  have f: "nv_cur sample_native = 0" "nv_ksp sample_native = 0x5000" "nv_enable sample_native" "nv_pgalloc sample_native = Some few_pages"
    "nv_host sample_native = (\<lambda>_. None)"
    by (simp_all add: sample_native_def native_vm.defs native.defs native_vme_init_def native_start_def)
  have cz: "?c \<noteq> 0"
    by (simp add: saved_at_def am_in_userspace_def f sample_uc_def sample_text_def REG_RSP_def)
  have rel: "nv_rel granting_host given_pages (\<lambda>g. 8 - g) spec_start ?s2"
    unfolding nv_rel_def
    by (rule exI [of _ "\<lambda>_. None"])
      (use few_pages_fresh in \<open>auto simp: nv_ok_def saved_state_def f spec_start_def visible_def maps_of_def fun_eq_iff\<close>)
  have c: "nv_ctx ?s2 ?c = \<lparr>nc_ksp = 0x5000, nc_vm = (if (0 :: u64) = 0 then 0 else head_of ?s2 0), nc_uc = sample_uc\<rparr>"
    by (simp add: saved_state_def f saved_uc_def)
  show ?thesis
    using native_thread_resumes [where f = "\<lambda>ev c s. Inr (c, s)" and junk = sample_uc, OF sample_host_ok ev t refl cz rel _ c]
    by (auto simp: native_yield_def)
qed

end
