(* ===== verification/KVM.thy ===== *)
theory KVM
  imports Prelude
begin

text \<open>
  KVM as a reference for differential testing (\<^verbatim>\<open>tools/kvm-diff/src/kvm.c\<close>): the guest is single-stepped by the host's
  kernel, and instructions that would show the debug flags of the stepping are patched. The kernel is a parameter, one
  operation for each \<^verbatim>\<open>ioctl\<close>, which fails with \<open>None\<close>; its state \<open>k_host\<close> holds the processor's own registers and the
  debug setting. The registers \<open>k_regs\<close>, \<open>k_sregs\<close>, the mark \<open>k_dirty\<close> of registers that the process has changed
  (\<^verbatim>\<open>kvm_dirty_regs\<close>), and the reason of the last exit are in the page that the kernel shares with the process; the
  guest's memory is the array \<^verbatim>\<open>vm.mem\<close>.
\<close>

section \<open>State\<close>

definition CR0_PE :: u64 where "CR0_PE = 1"
definition KVM_CR0_PG :: u64 where "KVM_CR0_PG = 0x80000000"

definition RFLAGS_ID :: u32 where "RFLAGS_ID = push_bit 21 1"
definition RFLAGS_AC :: u32 where "RFLAGS_AC = push_bit 18 1"
definition RFLAGS_RF :: u32 where "RFLAGS_RF = push_bit 16 1"
definition RFLAGS_TF :: u32 where "RFLAGS_TF = push_bit 8 1"
definition RFLAGS_AF :: u32 where "RFLAGS_AF = push_bit 4 1"
definition RFLAGS_FIX_MASK :: u32 where
  "RFLAGS_FIX_MASK = RFLAGS_ID OR RFLAGS_AC OR RFLAGS_RF OR RFLAGS_TF OR RFLAGS_AF"

record kvm_regs =
  kr_rax :: u64
  kr_rbx :: u64
  kr_rcx :: u64
  kr_rdx :: u64
  kr_rsi :: u64
  kr_rdi :: u64
  kr_rsp :: u64
  kr_rbp :: u64
  kr_r8_15 :: "u64 list"
  kr_rip :: u64
  kr_rflags :: u64

record kvm_segment =
  sg_base :: u64
  sg_limit :: u32
  sg_selector :: u16
  sg_type :: nat
  sg_present :: bool
  sg_dpl :: nat
  sg_db :: bool
  sg_s :: bool
  sg_l :: bool
  sg_g :: bool

record kvm_sregs =
  ks_cs :: kvm_segment
  ks_ds :: kvm_segment
  ks_es :: kvm_segment
  ks_fs :: kvm_segment
  ks_gs :: kvm_segment
  ks_ss :: kvm_segment
  ks_idt :: u64
  ks_cr0 :: u64

record kvm_core =
  k_mem :: carray
  k_regs :: kvm_regs
  k_sregs :: kvm_sregs

datatype kvm_exit = KVM_EXIT_DEBUG | KVM_EXIT_HLT | KVM_EXIT_OTHER nat

datatype int_wp_state = STATE_IDLE | STATE_INT_INST | STATE_IRET_INST

record 's kvm = kvm_core +
  k_dirty :: bool
  k_exit :: kvm_exit
  k_debug_pc :: u64
  k_wp :: int_wp_state
  k_has_error :: bool
  k_entry :: u32
  k_host :: 's

datatype run_result = Ran | Interrupted | Run_failed

text \<open>\<^verbatim>\<open>struct kvm_guest_debug\<close>: the control bits, and the debug registers 0 and 7.\<close>

record kvm_guest_debug =
  gd_control :: u32
  gd_dr0 :: u64
  gd_dr7 :: u64

definition KVM_GUESTDBG_ENABLE :: u32 where "KVM_GUESTDBG_ENABLE = 1"
definition KVM_GUESTDBG_SINGLESTEP :: u32 where "KVM_GUESTDBG_SINGLESTEP = 2"
definition KVM_GUESTDBG_USE_HW_BP :: u32 where "KVM_GUESTDBG_USE_HW_BP = 0x20000"

record 's kvm_kernel =
  kk_run :: "'s kvm \<Rightarrow> run_result \<times> 's kvm"
  kk_translate :: "u64 \<Rightarrow> 's kvm \<Rightarrow> (bool \<times> u64) option"
  kk_debug :: "kvm_guest_debug \<Rightarrow> 's \<Rightarrow> 's option"
  kk_interrupt :: "u32 \<Rightarrow> 's \<Rightarrow> 's option"
  kk_set_regs :: "kvm_regs \<Rightarrow> 's \<Rightarrow> 's option"
  kk_get_sregs :: "'s \<Rightarrow> kvm_sregs option"
  kk_set_sregs :: "kvm_sregs \<Rightarrow> 's \<Rightarrow> 's option"

definition on_host :: "('s \<Rightarrow> 's option) \<Rightarrow> 's kvm \<Rightarrow> 's kvm res" where
  "on_host f s = (case f (k_host s) of None \<Rightarrow> Inl AssertFail | Some h \<Rightarrow> Inr (s\<lparr>k_host := h\<rparr>))"

section \<open>Debugging and memory\<close>

definition step_mode :: "bool \<Rightarrow> u32 \<Rightarrow> kvm_guest_debug" where
  "step_mode watch addr =
     \<lparr>gd_control = KVM_GUESTDBG_ENABLE OR KVM_GUESTDBG_SINGLESTEP OR KVM_GUESTDBG_USE_HW_BP,
      gd_dr0 = ucast addr, gd_dr7 = (if watch then 1 else 0)\<rparr>"

definition kvm_set_step_mode :: "'s kvm_kernel \<Rightarrow> bool \<Rightarrow> u32 \<Rightarrow> 's kvm \<Rightarrow> 's kvm res" where
  "kvm_set_step_mode K watch addr s = on_host (kk_debug K (step_mode watch addr)) s"

definition va2pa :: "'s kvm_kernel \<Rightarrow> u64 \<Rightarrow> 's kvm \<Rightarrow> u64 res" where
  "va2pa K va s =
     (if ks_cr0 (k_sregs s) AND KVM_CR0_PG \<noteq> 0
      then (case kk_translate K va s of
              None \<Rightarrow> Inl AssertFail
            | Some (valid, pa) \<Rightarrow> Inr (if valid then pa else - 1))
      else Inr va)"

text \<open>Bytes and words of \<^verbatim>\<open>vm.mem\<close> at a 32-bit offset.\<close>

definition vm_byte :: "u32 \<Rightarrow> 'z kvm_core_scheme \<Rightarrow> u8 res" where
  "vm_byte a s = bindR (arr_load (k_mem s) (unat a) 1) (\<lambda>bs. Inr (hd bs))"

definition vm_word :: "u32 \<Rightarrow> 'z kvm_core_scheme \<Rightarrow> u32 res" where
  "vm_word a s = bindR (arr_load (k_mem s) (unat a) 4) (\<lambda>bs. Inr (le_word bs))"

definition vm_store :: "u32 \<Rightarrow> u32 \<Rightarrow> 'z kvm_core_scheme \<Rightarrow> 'z kvm_core_scheme res" where
  "vm_store a v s = bindR (arr_store (k_mem s) (unat a) (le_bytes 4 v)) (\<lambda>m. Inr (s\<lparr>k_mem := m\<rparr>))"

section \<open>Patching\<close>

definition upd_regs :: "(kvm_regs \<Rightarrow> kvm_regs) \<Rightarrow> 'z kvm_core_scheme \<Rightarrow> 'z kvm_core_scheme" where
  "upd_regs f s = s\<lparr>k_regs := f (k_regs s)\<rparr>"

text \<open>\<^verbatim>\<open>patching\<close>: whether an instruction has been executed in place of the processor.\<close>

definition patching :: "'s kvm_kernel \<Rightarrow> 's kvm \<Rightarrow> (bool \<times> 's kvm) res" where
  "patching K s =
     bindR (va2pa K (kr_rip (k_regs s)) s) (\<lambda>p.
     let pc = ucast p :: u32 in
     if pc = 0xffffffff then Inr (False, s)
     else bindR (vm_byte pc s) (\<lambda>opcode.
       if opcode = 0x9c then
         if k_wp s = STATE_INT_INST then Inr (False, s)
         else
           let s = upd_regs (\<lambda>r. r\<lparr>kr_rsp := kr_rsp r - 4\<rparr>) s in
           bindR (va2pa K (kr_rsp (k_regs s)) s) (\<lambda>esp.
           bindR (vm_store (ucast esp) (ucast (kr_rflags (k_regs s)) AND NOT RFLAGS_FIX_MASK) s) (\<lambda>s.
           Inr (True, (upd_regs (\<lambda>r. r\<lparr>kr_rflags := kr_rflags r OR ucast RFLAGS_TF, kr_rip := kr_rip r + 1\<rparr>) s)\<lparr>k_dirty := True\<rparr>)))
       else if opcode = 0x9d then
         if k_wp s = STATE_INT_INST then Inr (False, s)
         else
           bindR (va2pa K (kr_rsp (k_regs s)) s) (\<lambda>esp.
           bindR (vm_word (ucast esp) s) (\<lambda>v.
           Inr (True, (upd_regs (\<lambda>r. r\<lparr>kr_rflags := ucast (v OR RFLAGS_TF OR 2), kr_rsp := kr_rsp r + 4, kr_rip := kr_rip r + 1\<rparr>) s)
             \<lparr>k_dirty := True\<rparr>)))
       else if opcode = 0xcf then
         bindR (va2pa K (kr_rsp (k_regs s)) s) (\<lambda>ret_addr.
         bindR (vm_word (ucast ret_addr) s) (\<lambda>eip.
         bindR (kvm_set_step_mode K True eip (s\<lparr>k_entry := eip\<rparr>)) (\<lambda>s.
         Inr (False, s\<lparr>k_wp := STATE_IRET_INST\<rparr>))))
       else Inr (False, s)))"

definition fix_push_sreg :: "'s kvm_kernel \<Rightarrow> 's kvm \<Rightarrow> 's kvm res" where
  "fix_push_sreg K s =
     bindR (va2pa K (kr_rsp (k_regs s)) s) (\<lambda>esp.
     bindR (vm_word (ucast esp) s) (\<lambda>v. vm_store (ucast esp) (v AND 0xffff) s))"

definition patching_after :: "'s kvm_kernel \<Rightarrow> u64 \<Rightarrow> 's kvm \<Rightarrow> 's kvm res" where
  "patching_after K last_pc s =
     bindR (va2pa K last_pc s) (\<lambda>p.
     let pc = ucast p :: u32 in
     if pc = 0xffffffff then Inr s
     else bindR (vm_byte pc s) (\<lambda>opcode.
       if opcode = 0x1e \<or> opcode = 0x06 then
         bindR (fix_push_sreg K s) (\<lambda>s. guardR (kr_rip (k_regs s) = last_pc + 1) AssertFail (Inr s))
       else if opcode = 0x0f then
         bindR (vm_byte (pc + 1) s) (\<lambda>opcode2.
         if opcode2 = 0xa0
         then bindR (fix_push_sreg K s) (\<lambda>s. guardR (kr_rip (k_regs s) = last_pc + 2) AssertFail (Inr s))
         else Inr s)
       else Inr s))"

section \<open>Execution\<close>

text \<open>What follows a step of the processor from \<open>pc\<close>.\<close>

definition after_debug_exit :: "'s kvm_kernel \<Rightarrow> u64 \<Rightarrow> 's kvm \<Rightarrow> 's kvm res" where
  "after_debug_exit K pc s =
     bindR (patching_after K pc s) (\<lambda>s.
     if k_wp s = STATE_INT_INST then
       bindR (va2pa K (kr_rsp (k_regs s) + (8 + (if k_has_error s then 4 else 0))) s) (\<lambda>a.
       bindR (vm_word (ucast a) s) (\<lambda>v.
       bindR (vm_store (ucast a) (v AND NOT RFLAGS_FIX_MASK) s) (\<lambda>s.
       guardR (ucast (k_entry s) = k_debug_pc s) AssertFail
        (bindR (kvm_set_step_mode K False 0 s) (\<lambda>s. Inr (s\<lparr>k_wp := STATE_IDLE\<rparr>))))))
     else if k_wp s = STATE_IRET_INST then
       guardR (ucast (k_entry s) = k_debug_pc s) AssertFail
        (bindR (kvm_set_step_mode K False 0 s) (\<lambda>s. Inr (s\<lparr>k_wp := STATE_IDLE\<rparr>)))
     else Inr s)"

text \<open>A call of the kernel that a signal has interrupted is repeated, for ever if it always is.\<close>

partial_function (option) kvm_exec :: "'s kvm_kernel \<Rightarrow> u64 \<Rightarrow> 's kvm \<Rightarrow> 's kvm res option" where
  "kvm_exec K n s =
     (if n = 0 then Some (Inr s)
      else case patching K s of
        Inl err \<Rightarrow> Some (Inl err)
      | Inr (done, s) \<Rightarrow>
          if done then kvm_exec K (n - 1) s
          else let pc = kr_rip (k_regs s) in
            case kk_run K s of
              (Interrupted, s) \<Rightarrow> kvm_exec K n s
            | (Run_failed, s) \<Rightarrow> Some (Inl AssertFail)
            | (Ran, s) \<Rightarrow>
                if k_exit s \<noteq> KVM_EXIT_DEBUG
                then if k_exit s = KVM_EXIT_HLT then Some (Inr s) else Some (Inl AssertFail)
                else (case after_debug_exit K pc s of
                        Inl err \<Rightarrow> Some (Inl err)
                      | Inr s \<Rightarrow> kvm_exec K (n - 1) s))"

section \<open>Start-up\<close>

definition kvm_mbr :: "u8 list" where
  "kvm_mbr =
     [0x0f, 0x01, 0x15, 0x28, 0x7c, 0x00, 0x00,
      0xea, 0x0e, 0x7c, 0x00, 0x00, 0x08, 0x00,
      0xeb, 0xfe,
      0x00, 0x00, 0x00, 0x00, 0x00, 0x00, 0x00, 0x00,
      0xff, 0xff, 0x00, 0x00, 0x00, 0x9a, 0xcf, 0x00,
      0xff, 0xff, 0x00, 0x00, 0x00, 0x92, 0xcf, 0x00,
      0x17, 0x00, 0x10, 0x7c, 0x00, 0x00]"

definition setup_protected_mode :: "kvm_sregs \<Rightarrow> kvm_sregs" where
  "setup_protected_mode r =
     (let seg = \<lparr>sg_base = 0, sg_limit = 0xffffffff, sg_selector = push_bit 3 1, sg_type = 11, sg_present = True, sg_dpl = 0,
            sg_db = True, sg_s = True, sg_l = False, sg_g = True\<rparr>;
          r = r\<lparr>ks_cr0 := ks_cr0 r OR CR0_PE\<rparr>;
          r = r\<lparr>ks_cs := seg\<rparr>;
          seg = seg\<lparr>sg_type := 3, sg_selector := push_bit 3 2\<rparr> in
      r\<lparr>ks_ds := seg, ks_es := seg, ks_fs := seg, ks_gs := seg, ks_ss := seg\<rparr>)"

text \<open>These go past the shared page. Setting all registers ends single-stepping, which is why it is set again.\<close>

definition kvm_setregs :: "'s kvm_kernel \<Rightarrow> kvm_regs \<Rightarrow> 's kvm \<Rightarrow> 's kvm res" where
  "kvm_setregs K r s = bindR (on_host (kk_set_regs K r) s) (kvm_set_step_mode K False 0)"

definition kvm_getsregs :: "'s kvm_kernel \<Rightarrow> 's kvm \<Rightarrow> kvm_sregs res" where
  "kvm_getsregs K s = (case kk_get_sregs K (k_host s) of None \<Rightarrow> Inl AssertFail | Some r \<Rightarrow> Inr r)"

definition kvm_setsregs :: "'s kvm_kernel \<Rightarrow> kvm_sregs \<Rightarrow> 's kvm \<Rightarrow> 's kvm res" where
  "kvm_setsregs K r s = on_host (kk_set_sregs K r) s"

definition run_protected_mode :: "'s kvm_kernel \<Rightarrow> 's kvm \<Rightarrow> 's kvm res option" where
  "run_protected_mode K s =
     (let regs = \<lparr>kr_rax = 0, kr_rbx = 0, kr_rcx = 0, kr_rdx = 0, kr_rsi = 0, kr_rdi = 0, kr_rsp = 0, kr_rbp = 0,
            kr_r8_15 = replicate 8 0, kr_rip = 0x7c00, kr_rflags = 2\<rparr> in
      case bindR (kvm_getsregs K s) (\<lambda>r.
           bindR (kvm_setsregs K (setup_protected_mode r) s) (\<lambda>s.
           bindR (kvm_setregs K regs s) (\<lambda>s.
           bindR (arr_store (k_mem s) 0x7c00 kvm_mbr) (\<lambda>m. Inr (s\<lparr>k_mem := m\<rparr>))))) of
        Inl err \<Rightarrow> Some (Inl err)
      | Inr s \<Rightarrow> kvm_exec K 10 s)"

section \<open>The interface of differential testing\<close>

text \<open>The registers of the device under test, 32 bits each.\<close>

record x86_dut =
  d_eax :: u32
  d_ecx :: u32
  d_edx :: u32
  d_ebx :: u32
  d_esp :: u32
  d_ebp :: u32
  d_esi :: u32
  d_edi :: u32
  d_pc :: u32

text \<open>Copying \<open>buf\<close> to the guest, or as many bytes from it.\<close>

definition kvm_difftest_memcpy :: "u32 \<Rightarrow> u8 list \<Rightarrow> bool \<Rightarrow> 's kvm \<Rightarrow> (u8 list \<times> 's kvm) res" where
  "kvm_difftest_memcpy addr buf to_ref s =
     (if to_ref then bindR (arr_store (k_mem s) (unat addr) buf) (\<lambda>m. Inr (buf, s\<lparr>k_mem := m\<rparr>))
      else bindR (arr_load (k_mem s) (unat addr) (length buf)) (\<lambda>bs. Inr (bs, s)))"

definition kvm_difftest_regcpy :: "x86_dut \<Rightarrow> bool \<Rightarrow> 's kvm \<Rightarrow> x86_dut \<times> 's kvm" where
  "kvm_difftest_regcpy d to_ref s =
     (if to_ref then
        (d, (upd_regs (\<lambda>r. r\<lparr>kr_rax := ucast (d_eax d), kr_rbx := ucast (d_ebx d), kr_rcx := ucast (d_ecx d),
               kr_rdx := ucast (d_edx d), kr_rsp := ucast (d_esp d), kr_rbp := ucast (d_ebp d), kr_rsi := ucast (d_esi d),
               kr_rdi := ucast (d_edi d), kr_rip := ucast (d_pc d), kr_rflags := kr_rflags r OR ucast RFLAGS_TF\<rparr>) s)\<lparr>k_dirty := True\<rparr>)
      else
        let r = k_regs s in
        (\<lparr>d_eax = ucast (kr_rax r), d_ecx = ucast (kr_rcx r), d_edx = ucast (kr_rdx r), d_ebx = ucast (kr_rbx r),
           d_esp = ucast (kr_rsp r), d_ebp = ucast (kr_rbp r), d_esi = ucast (kr_rsi r), d_edi = ucast (kr_rdi r),
           d_pc = ucast (kr_rip r)\<rparr>, s))"

definition kvm_difftest_exec :: "'s kvm_kernel \<Rightarrow> u64 \<Rightarrow> 's kvm \<Rightarrow> 's kvm res option" where
  "kvm_difftest_exec K n s = kvm_exec K n s"

definition kvm_difftest_raise_intr :: "'s kvm_kernel \<Rightarrow> u32 \<Rightarrow> 's kvm \<Rightarrow> 's kvm res" where
  "kvm_difftest_raise_intr K NO s =
     bindR (va2pa K (ucast (ucast (ks_idt (k_sregs s) + ucast (NO * 8)) :: u32)) s) (\<lambda>p.
     let pgate = ucast p :: u32 in
     bindR (vm_byte pgate s) (\<lambda>b0. bindR (vm_byte (pgate + 1) s) (\<lambda>b1.
     bindR (vm_byte (pgate + 6) s) (\<lambda>b6. bindR (vm_byte (pgate + 7) s) (\<lambda>b7.
     let entry = ucast b0 OR push_bit 8 (ucast b1) OR push_bit 16 (ucast b6) OR push_bit 24 (ucast b7) :: u32 in
     bindR (kvm_set_step_mode K True entry s) (\<lambda>s.
     let s = s\<lparr>k_wp := STATE_INT_INST, k_has_error := (NO = 14), k_entry := entry\<rparr> in
     if NO = 48 then on_host (kk_interrupt K NO) s else Inr s))))))"

end
