(* ===== verification/KVM_Correct.thy ===== *)
theory KVM_Correct
  imports KVM
begin

text \<open>
  KVM as a reference executes as many instructions as it is asked to, whatever signals interrupt the kernel. What the
  instructions do is defined without the patches, on a processor that pushes and pops; what is assumed of the kernel is
  what its interface documents: it looks at changed registers only if they are marked, it steps only if it has been told
  to, and it needs the trap flag in registers that the process hands it.
\<close>

section \<open>The reference\<close>

definition paging :: "'z kvm_core_scheme \<Rightarrow> bool" where
  "paging c \<longleftrightarrow> ks_cr0 (k_sregs c) AND KVM_CR0_PG \<noteq> 0"

text \<open>Bytes of memory below \<open>2 ^ 32\<close>, while addresses are physical ones.\<close>

definition peek :: "nat \<Rightarrow> nat \<Rightarrow> 'z kvm_core_scheme \<Rightarrow> u8 list option" where
  "peek a n c = (if \<not> paging c \<and> a + n < 2 ^ 32 \<and> a + n \<le> clen (k_mem c)
     then Some (map (\<lambda>i. cget (k_mem c) (a + i)) [0..<n]) else None)"

definition code :: "nat \<Rightarrow> 'z kvm_core_scheme \<Rightarrow> u8 option" where
  "code a c = map_option hd (peek a 1 c)"

definition push32 :: "u32 \<Rightarrow> kvm_core \<Rightarrow> kvm_core option" where
  "push32 v c =
     (let a = unat (kr_rsp (k_regs c)) in
      if 4 \<le> a \<and> peek (a - 4) 4 c \<noteq> None
      then Some (c\<lparr>k_mem := arr_put (k_mem c) (a - 4) (le_bytes 4 v), k_regs := (k_regs c)\<lparr>kr_rsp := kr_rsp (k_regs c) - 4\<rparr>\<rparr>)
      else None)"

definition top32 :: "kvm_core \<Rightarrow> u32 option" where
  "top32 c = map_option le_word (peek (unat (kr_rsp (k_regs c))) 4 c)"

definition next_inst :: "u64 \<Rightarrow> kvm_core \<Rightarrow> kvm_core" where
  "next_inst n = upd_regs (\<lambda>r. r\<lparr>kr_rip := kr_rip r + n\<rparr>)"

text \<open>
  The trap flag (bit 8) is the kernel's while it steps, not the guest's. The flags that are pushed have neither it nor
  those that the device under test does not have: AF, RF, AC and ID. Of popped flags bit 1 is always set.
\<close>

definition hide_tf :: "kvm_regs \<Rightarrow> kvm_regs" where
  "hide_tf r = r\<lparr>kr_rflags := unset_bit 8 (kr_rflags r)\<rparr>"

definition pushed_flags :: "u64 \<Rightarrow> u32" where
  "pushed_flags f = fold unset_bit [4, 8, 16, 18, 21] (ucast f)"

definition popped_flags :: "u32 \<Rightarrow> u64" where
  "popped_flags v = unset_bit 8 (set_bit 1 (ucast v))"

text \<open>The instructions that push \<^verbatim>\<open>%ds\<close>, \<^verbatim>\<open>%es\<close> and \<^verbatim>\<open>%fs\<close>: the selector and the length of the instruction.\<close>

definition sreg_push :: "kvm_core \<Rightarrow> (u16 \<times> u64) option" where
  "sreg_push c =
     (let p = unat (kr_rip (k_regs c)) in
      if code p c = Some 0x1e then Some (sg_selector (ks_ds (k_sregs c)), 1)
      else if code p c = Some 0x06 then Some (sg_selector (ks_es (k_sregs c)), 1)
      else if code p c = Some 0x0f \<and> code (p + 1) c = Some 0xa0 then Some (sg_selector (ks_fs (k_sregs c)), 2)
      else None)"

text \<open>
  The manual leaves open what is above a selector that is pushed as 32 bits: zeros, or what was in memory.
\<close>

definition pushes_selectors :: "(kvm_core \<Rightarrow> kvm_core) \<Rightarrow> bool" where
  "pushes_selectors step \<longleftrightarrow> (\<forall>c sel n. sreg_push c = Some (sel, n) \<longrightarrow> push32 (ucast sel) c \<noteq> None \<longrightarrow>
     (\<exists>high :: u16. map_option (next_inst n) (push32 (push_bit 16 (ucast high) OR ucast sel) c) = Some (step c)))"

text \<open>
  One instruction of the reference, if it does not change itself, turn paging on or leave memory: \<open>pushf\<close> pushes the
  flags, \<open>popf\<close> pops them, a segment register is pushed with zeros above it, \<open>iret\<close> goes to the address on the stack, and
  all else is what the processor does.
\<close>

definition unchanged_code :: "kvm_core \<Rightarrow> kvm_core \<Rightarrow> bool" where
  "unchanged_code c c' \<longleftrightarrow>
     (let p = unat (kr_rip (k_regs c)) in code p c' = code p c \<and> (code p c = Some 0x0f \<longrightarrow> code (p + 1) c' = code (p + 1) c))"

definition stack_apart :: "kvm_core \<Rightarrow> bool" where
  "stack_apart c \<longleftrightarrow> unat (kr_rsp (k_regs c)) \<le> unat (kr_rip (k_regs c)) \<or> unat (kr_rip (k_regs c)) + 2 \<le> unat (kr_rsp (k_regs c)) - 4"

definition tidy :: "kvm_core \<Rightarrow> kvm_core" where
  "tidy c = c\<lparr>k_regs := hide_tf (k_regs c)\<rparr>"

definition ref_step :: "(kvm_core \<Rightarrow> kvm_core) \<Rightarrow> kvm_core \<Rightarrow> kvm_core option" where
  "ref_step step c =
     (let r = k_regs c; p = unat (kr_rip r) in
      case code p c of
        None \<Rightarrow> None
      | Some b \<Rightarrow>
          if b = 0x9c then map_option (next_inst 1) (push32 (pushed_flags (kr_rflags r)) c)
          else if b = 0x9d then
            map_option (\<lambda>v. next_inst 1 (upd_regs (\<lambda>r. r\<lparr>kr_rflags := popped_flags v, kr_rsp := kr_rsp r + 4\<rparr>) c)) (top32 c)
          else case sreg_push c of
            Some (sel, n) \<Rightarrow> if stack_apart c then map_option (next_inst n) (push32 (ucast sel) c) else None
          | None \<Rightarrow>
              let c' = step c in
              if unchanged_code c c' \<and> (b = 0x0f \<longrightarrow> code (p + 1) c \<noteq> None) \<and>
                (b = 0xcf \<longrightarrow> (case top32 c of None \<Rightarrow> False | Some eip \<Rightarrow> kr_rip (k_regs c') = ucast eip))
              then Some (tidy c') else None)"

fun ref_run :: "(kvm_core \<Rightarrow> kvm_core) \<Rightarrow> nat \<Rightarrow> kvm_core \<Rightarrow> kvm_core option" where
  "ref_run step 0 c = Some c"
| "ref_run step (Suc n) c = (case ref_step step c of None \<Rightarrow> None | Some c \<Rightarrow> ref_run step n c)"

section \<open>The kernel\<close>

text \<open>
  What a kernel has inside: the registers of the processor, as it shows them (without the trap flag it steps with),
  whether it is to step, and how often signals will interrupt it.
\<close>

record 's kvm_view =
  vw_regs :: "'s \<Rightarrow> kvm_regs"
  vw_sregs :: "'s \<Rightarrow> kvm_sregs"
  vw_stepping :: "'s \<Rightarrow> bool"
  vw_delay :: "'s \<Rightarrow> nat"

text \<open>The registers with which the processor would go on: those of the page only if they are marked.\<close>

definition entry_regs :: "'s kvm_view \<Rightarrow> 's kvm \<Rightarrow> kvm_regs" where
  "entry_regs V s = hide_tf (if k_dirty s then k_regs s else vw_regs V (k_host s))"

text \<open>
  A debug setting with both bits makes the kernel step; a run of it then executes one instruction of the processor and
  exits for debugging, or is interrupted before it. A marked set of registers is taken over first, with the trap flag, and
  what the processor has at the exit is put in the page. Nothing is said of a run that is not to step, or of registers
  handed over without the trap flag.
\<close>

definition debug_steps :: "'s kvm_kernel \<Rightarrow> 's kvm_view \<Rightarrow> bool" where
  "debug_steps K V \<longleftrightarrow> (\<forall>g h. gd_control g AND KVM_GUESTDBG_ENABLE \<noteq> 0 \<longrightarrow> gd_control g AND KVM_GUESTDBG_SINGLESTEP \<noteq> 0 \<longrightarrow>
     (\<exists>h'. kk_debug K g h = Some h' \<and> vw_regs V h' = vw_regs V h \<and> vw_sregs V h' = vw_sregs V h \<and> vw_stepping V h' \<and>
       vw_delay V h' \<le> vw_delay V h))"

definition run_steps :: "'s kvm_kernel \<Rightarrow> 's kvm_view \<Rightarrow> (kvm_core \<Rightarrow> kvm_core) \<Rightarrow> bool" where
  "run_steps K V step \<longleftrightarrow> (\<forall>s. vw_stepping V (k_host s) \<longrightarrow> (k_dirty s \<longrightarrow> bit (kr_rflags (k_regs s)) 8) \<longrightarrow>
     (let r = entry_regs V s; sr = vw_sregs V (k_host s) in
      if 0 < vw_delay V (k_host s)
      then \<exists>h. kk_run K s = (Interrupted, s\<lparr>k_regs := r, k_sregs := sr, k_dirty := False, k_host := h\<rparr>) \<and>
        vw_regs V h = r \<and> vw_sregs V h = sr \<and> vw_stepping V h \<and> vw_delay V h < vw_delay V (k_host s)
      else let c = tidy (step \<lparr>k_mem = k_mem s, k_regs = r, k_sregs = sr\<rparr>) in
        \<exists>h. kk_run K s = (Ran, s\<lparr>k_mem := k_mem c, k_regs := k_regs c, k_sregs := k_sregs c, k_dirty := False,
            k_exit := KVM_EXIT_DEBUG, k_debug_pc := kr_rip (k_regs c), k_host := h\<rparr>) \<and>
          vw_regs V h = k_regs c \<and> vw_sregs V h = k_sregs c \<and> vw_stepping V h))"

text \<open>What differential testing sees, and a state whose page and processor agree.\<close>

definition shown :: "'s kvm \<Rightarrow> kvm_core" where
  "shown s = \<lparr>k_mem = k_mem s, k_regs = hide_tf (k_regs s), k_sregs = k_sregs s\<rparr>"

definition synced :: "'s kvm_view \<Rightarrow> 's kvm \<Rightarrow> bool" where
  "synced V s \<longleftrightarrow> (k_dirty s \<longrightarrow> bit (kr_rflags (k_regs s)) 8) \<and> entry_regs V s = hide_tf (k_regs s) \<and>
     vw_sregs V (k_host s) = k_sregs s \<and> vw_stepping V (k_host s)"

section \<open>Flags\<close>

lemma bit_one_at: "k < 32 \<Longrightarrow> bit (push_bit k 1 :: u32) n \<longleftrightarrow> n = k"
  by (auto simp: bit_simps)

lemma bit_RFLAGS:
  "bit RFLAGS_ID n \<longleftrightarrow> n = 21" "bit RFLAGS_AC n \<longleftrightarrow> n = 18" "bit RFLAGS_RF n \<longleftrightarrow> n = 16" "bit RFLAGS_TF n \<longleftrightarrow> n = 8"
  "bit RFLAGS_AF n \<longleftrightarrow> n = 4"
  unfolding RFLAGS_ID_def RFLAGS_AC_def RFLAGS_RF_def RFLAGS_TF_def RFLAGS_AF_def by (rule bit_one_at, simp)+

lemma pushed_flags_eq: "ucast f AND NOT RFLAGS_FIX_MASK = pushed_flags f"
  by (rule bit_word_eqI) (auto simp: pushed_flags_def RFLAGS_FIX_MASK_def bit_simps bit_RFLAGS)

lemma pushed_flags_hidden: "pushed_flags (unset_bit 8 f) = pushed_flags f"
  by (rule bit_word_eqI) (auto simp: pushed_flags_def bit_simps)

lemma popped_flags_eq: "unset_bit 8 (ucast (v OR RFLAGS_TF OR 2)) = popped_flags v"
proof -
  have "(2 :: u32) = push_bit 1 1" by simp
  then have two: "bit (2 :: u32) n \<longleftrightarrow> n = 1" for n using bit_one_at [of 1 n] by simp
  show ?thesis by (rule bit_word_eqI) (auto simp: popped_flags_def bit_simps bit_RFLAGS two)
qed

lemma unset_bit_twice [simp]: "unset_bit n (unset_bit n w) = unset_bit n (w :: 'w::len word)"
  by (rule bit_word_eqI) (auto simp: bit_simps)

lemma hide_tf_simps [simp]:
  "kr_rip (hide_tf r) = kr_rip r" "kr_rsp (hide_tf r) = kr_rsp r" "kr_rflags (hide_tf r) = unset_bit 8 (kr_rflags r)"
  "hide_tf (hide_tf r) = hide_tf r" "hide_tf (r\<lparr>kr_rip := a\<rparr>) = (hide_tf r)\<lparr>kr_rip := a\<rparr>"
  "hide_tf (r\<lparr>kr_rsp := a\<rparr>) = (hide_tf r)\<lparr>kr_rsp := a\<rparr>"
  by (simp_all add: hide_tf_def)

lemma hide_tf_flags: "hide_tf (r\<lparr>kr_rflags := f\<rparr>) = r\<lparr>kr_rflags := unset_bit 8 f\<rparr>"
  by (simp add: hide_tf_def)

lemma hide_tf_set: "hide_tf (r\<lparr>kr_rflags := kr_rflags r OR ucast RFLAGS_TF\<rparr>) = hide_tf r"
proof -
  have "unset_bit 8 (kr_rflags r OR ucast RFLAGS_TF) = unset_bit 8 (kr_rflags r)"
    by (rule bit_word_eqI) (auto simp: bit_simps bit_RFLAGS)
  then show ?thesis by (simp add: hide_tf_def)
qed

lemma tf_set: "bit (x OR ucast RFLAGS_TF :: u64) 8" "bit (ucast (v OR RFLAGS_TF OR 2) :: u64) 8"
  by (auto simp: bit_simps bit_RFLAGS)

section \<open>Memory\<close>

lemma shown_simps [simp]:
  "k_mem (shown s) = k_mem s" "k_regs (shown s) = hide_tf (k_regs s)" "k_sregs (shown s) = k_sregs s"
  by (simp_all add: shown_def)

lemma paging_shown [simp]: "paging (shown s) = paging s"
  by (simp add: paging_def)

lemma peek_shown [simp]: "peek a n (shown s) = peek a n s" "code a (shown s) = code a s"
  by (simp_all add: peek_def code_def)

lemma peek_load:
  assumes "peek (unat (a :: u64)) n c = Some bs"
  shows "arr_load (k_mem c) (unat (ucast a :: u32)) n = Inr bs" "\<not> paging c" "unat (ucast a :: u32) = unat a" "unat a + n < 2 ^ 32"
    "unat a + n \<le> clen (k_mem c)" "length bs = n"
proof -
  show l: "\<not> paging c" "unat a + n < 2 ^ 32" "unat a + n \<le> clen (k_mem c)" "length bs = n"
    using assms by (auto simp: peek_def split: if_splits)
  have "unat a < 2 ^ 32" using l(2) by simp
  then show u: "unat (ucast a :: u32) = unat a" by (simp add: unsigned_ucast_eq take_bit_nat_eq_self)
  show "arr_load (k_mem c) (unat (ucast a :: u32)) n = Inr bs"
    using assms unfolding u by (auto simp: peek_def arr_load_def split: if_splits)
qed

lemma code_byte:
  assumes "code (unat (a :: u64)) c = Some b"
  shows "vm_byte (ucast a) c = Inr b" "\<not> paging c" "(ucast a :: u32) \<noteq> 0xffffffff"
proof -
  obtain bs where bs: "peek (unat a) 1 c = Some bs" "b = hd bs" using assms by (auto simp: code_def)
  note l = peek_load [OF bs(1)]
  show "vm_byte (ucast a) c = Inr b" "\<not> paging c" using l bs(2) by (simp_all add: vm_byte_def)
  have "unat (ucast a :: u32) < 2 ^ 32 - 1" using l(3,4) by simp
  then show "(ucast a :: u32) \<noteq> 0xffffffff" by auto
qed

lemma code_byte_next:
  assumes "code (unat (a :: u64)) c = Some b0" "code (unat a + 1) c = Some b"
  shows "vm_byte (ucast a + 1) c = Inr b"
proof -
  obtain bs where "peek (unat a) 1 c = Some bs" using assms(1) by (auto simp: code_def)
  note l = peek_load [OF this]
  have "peek (unat a + 1) 1 c \<noteq> None" using assms(2) by (auto simp: code_def)
  then have m: "unat a + 2 < 2 ^ 32" "unat a + 2 \<le> clen (k_mem c)" by (auto simp: peek_def split: if_splits)
  have "unat (ucast a + 1 :: u32) = unat a + 1"
    by (subst unat_word_ariths(1)) (use l(3) m(1) in simp)
  then show ?thesis using assms(2) l(2) m by (auto simp: vm_byte_def code_def peek_def arr_load_def split: if_splits)
qed

lemma va2pa_flat: "\<not> paging s \<Longrightarrow> va2pa K a s = Inr a"
  by (simp add: va2pa_def paging_def)

lemma top_word: "top32 c = Some v \<Longrightarrow> vm_word (ucast (kr_rsp (k_regs c))) c = Inr v"
  by (auto simp: top32_def vm_word_def dest: peek_load)

text \<open>A push, as the code does it: subtract first, then store.\<close>

lemma push_store:
  assumes "push32 v c = Some c'"
  shows "\<And>s :: 'z kvm_core_scheme. k_mem s = k_mem c \<Longrightarrow> vm_store (ucast (kr_rsp (k_regs c) - 4)) v s = Inr (s\<lparr>k_mem := k_mem c'\<rparr>)"
    and "c' = c\<lparr>k_mem := arr_put (k_mem c) (unat (kr_rsp (k_regs c)) - 4) (le_bytes 4 v), k_regs := (k_regs c)\<lparr>kr_rsp := kr_rsp (k_regs c) - 4\<rparr>\<rparr>"
    and "unat (ucast (kr_rsp (k_regs c) - 4) :: u32) = unat (kr_rsp (k_regs c)) - 4"
    and "unat (kr_rsp (k_regs c)) \<le> clen (k_mem c)" "4 \<le> unat (kr_rsp (k_regs c))"
proof -
  let ?a = "kr_rsp (k_regs c)"
  have p: "4 \<le> unat ?a" "peek (unat ?a - 4) 4 c \<noteq> None"
    and c': "c' = c\<lparr>k_mem := arr_put (k_mem c) (unat ?a - 4) (le_bytes 4 v), k_regs := (k_regs c)\<lparr>kr_rsp := ?a - 4\<rparr>\<rparr>"
    using assms by (auto simp: push32_def Let_def split: if_splits)
  have s: "unat (?a - 4) = unat ?a - 4" using p(1) by (simp add: unat_sub word_le_nat_alt)
  obtain bs where "peek (unat (?a - 4)) 4 c = Some bs" using p(2) s by auto
  note l = peek_load [OF this]
  show "c' = c\<lparr>k_mem := arr_put (k_mem c) (unat ?a - 4) (le_bytes 4 v), k_regs := (k_regs c)\<lparr>kr_rsp := ?a - 4\<rparr>\<rparr>" by (rule c')
  show u: "unat (ucast (?a - 4) :: u32) = unat ?a - 4" using l(3) s by simp
  show "unat ?a \<le> clen (k_mem c)" "4 \<le> unat ?a" using l(5) s p(1) by simp_all
  show "vm_store (ucast (?a - 4)) v s = Inr (s\<lparr>k_mem := k_mem c'\<rparr>)" if "k_mem s = k_mem c" for s :: "'z kvm_core_scheme"
    unfolding vm_store_def u using l(5) s that by (simp add: arr_store_def c' del: le_bytes.simps)
qed

section \<open>What a run does to a synced state\<close>

lemma kernel_runs:
  assumes "run_steps K V step" "synced V s"
  shows "0 < vw_delay V (k_host s) \<Longrightarrow> \<exists>s'. kk_run K s = (Interrupted, s') \<and> shown s' = shown s \<and> synced V s' \<and>
      vw_delay V (k_host s') < vw_delay V (k_host s) \<and> k_wp s' = k_wp s \<and> k_entry s' = k_entry s"
    and "vw_delay V (k_host s) = 0 \<Longrightarrow> \<exists>s'. kk_run K s = (Ran, s') \<and> shown s' = tidy (step (shown s)) \<and> synced V s' \<and>
      k_exit s' = KVM_EXIT_DEBUG \<and> k_debug_pc s' = kr_rip (k_regs s') \<and> k_wp s' = k_wp s \<and> k_entry s' = k_entry s"
proof -
  have y: "vw_stepping V (k_host s)" "k_dirty s \<longrightarrow> bit (kr_rflags (k_regs s)) 8" "entry_regs V s = hide_tf (k_regs s)"
    "vw_sregs V (k_host s) = k_sregs s" using assms(2) by (auto simp: synced_def)
  note r = assms(1) [unfolded run_steps_def, rule_format, OF y(1) y(2) [rule_format], unfolded y(3,4) Let_def]
  show "\<exists>s'. kk_run K s = (Interrupted, s') \<and> shown s' = shown s \<and> synced V s' \<and>
      vw_delay V (k_host s') < vw_delay V (k_host s) \<and> k_wp s' = k_wp s \<and> k_entry s' = k_entry s" if "0 < vw_delay V (k_host s)"
    using r that by (auto simp: synced_def entry_regs_def shown_def)
  show "\<exists>s'. kk_run K s = (Ran, s') \<and> shown s' = tidy (step (shown s)) \<and> synced V s' \<and>
      k_exit s' = KVM_EXIT_DEBUG \<and> k_debug_pc s' = kr_rip (k_regs s') \<and> k_wp s' = k_wp s \<and> k_entry s' = k_entry s"
    if "vw_delay V (k_host s) = 0"
    using r that by (auto simp: synced_def entry_regs_def shown_def tidy_def)
qed

lemma step_mode_set:
  assumes "debug_steps K V" "synced V s"
  shows "\<exists>h. kvm_set_step_mode K w a s = Inr (s\<lparr>k_host := h\<rparr>) \<and> synced V (s\<lparr>k_host := h\<rparr>) \<and> vw_delay V h \<le> vw_delay V (k_host s)"
proof -
  have "gd_control (step_mode w a) AND KVM_GUESTDBG_ENABLE \<noteq> 0" "gd_control (step_mode w a) AND KVM_GUESTDBG_SINGLESTEP \<noteq> 0"
    by (simp_all add: step_mode_def KVM_GUESTDBG_ENABLE_def KVM_GUESTDBG_SINGLESTEP_def KVM_GUESTDBG_USE_HW_BP_def)
  with assms(1) obtain h where h: "kk_debug K (step_mode w a) (k_host s) = Some h" "vw_regs V h = vw_regs V (k_host s)"
    "vw_sregs V h = vw_sregs V (k_host s)" "vw_stepping V h" "vw_delay V h \<le> vw_delay V (k_host s)"
    unfolding debug_steps_def by blast
  then show ?thesis using assms(2) by (auto simp: kvm_set_step_mode_def on_host_def synced_def entry_regs_def)
qed

section \<open>Simulation\<close>

text \<open>Before a step either nothing is pending, or the watch for an \<open>iret\<close> that was interrupted.\<close>

definition idle :: "'s kvm \<Rightarrow> bool" where
  "idle s \<longleftrightarrow> k_wp s = STATE_IDLE \<or> k_wp s = STATE_IRET_INST \<and> code (unat (kr_rip (k_regs s))) s = Some 0xcf"

lemma idle_shown: "shown s' = shown s \<Longrightarrow> k_wp s' = k_wp s \<Longrightarrow> idle s \<Longrightarrow> idle s'"
  unfolding idle_def by (metis hide_tf_simps(1) peek_shown(2) shown_simps(2))

lemma synced_pending [simp]:
  "synced V (s\<lparr>k_mem := m\<rparr>) = synced V s" "synced V (s\<lparr>k_entry := e\<rparr>) = synced V s" "synced V (s\<lparr>k_wp := w\<rparr>) = synced V s"
  by (simp_all add: synced_def entry_regs_def)

lemma synced_dirty:
  assumes "synced V s" "bit (kr_rflags r) 8"
  shows "synced V (s\<lparr>k_mem := m, k_regs := r, k_dirty := True\<rparr>)"
  using assms by (simp add: synced_def entry_regs_def)

text \<open>Registers and memory that differential testing writes leave such a state.\<close>

lemma regcpy_synced:
  assumes "synced V s"
  shows "synced V (snd (kvm_difftest_regcpy d True s))"
  using synced_dirty [OF assms, of "_\<lparr>kr_rflags := kr_rflags (k_regs s) OR ucast RFLAGS_TF\<rparr>" "k_mem s"] tf_set(1)
  by (simp add: kvm_difftest_regcpy_def upd_regs_def synced_def entry_regs_def)

lemma memcpy_synced: "synced V s \<Longrightarrow> kvm_difftest_memcpy a buf b s = Inr (buf', s') \<Longrightarrow> synced V s'"
  by (auto simp: kvm_difftest_memcpy_def res_simps split: if_splits)

lemma patching_pushf:
  assumes "code (unat (kr_rip (k_regs s))) s = Some 0x9c" "k_wp s \<noteq> STATE_INT_INST" "synced V s"
    "push32 (pushed_flags (kr_rflags (hide_tf (k_regs s)))) (shown s) = Some c"
  shows "\<exists>s'. patching K s = Inr (True, s') \<and> shown s' = next_inst 1 c \<and> synced V s' \<and> k_wp s' = k_wp s"
proof -
  let ?r = "(k_regs s)\<lparr>kr_rsp := kr_rsp (k_regs s) - 4\<rparr>"
  let ?r' = "?r\<lparr>kr_rflags := kr_rflags ?r OR ucast RFLAGS_TF, kr_rip := kr_rip ?r + 1\<rparr>"
  note b = code_byte [OF assms(1)]
  note p = push_store [OF assms(4)]
  have flat: "va2pa K a s = Inr a" "va2pa K a (upd_regs f s) = Inr a" for a f
    using b(2) by (simp_all add: va2pa_def paging_def upd_regs_def)
  have "vm_store (ucast (kr_rsp (k_regs s) - 4)) (ucast (kr_rflags (k_regs s)) AND NOT RFLAGS_FIX_MASK) (s\<lparr>k_regs := ?r\<rparr>) =
      Inr (s\<lparr>k_regs := ?r, k_mem := k_mem c\<rparr>)"
    using p(1) [of "s\<lparr>k_regs := ?r\<rparr>"] by (simp add: pushed_flags_eq pushed_flags_hidden)
  then have "patching K s = Inr (True, s\<lparr>k_mem := k_mem c, k_regs := ?r', k_dirty := True\<rparr>)"
    using b assms(2) by (simp add: patching_def flat Let_def) (simp add: upd_regs_def)
  moreover have "synced V (s\<lparr>k_mem := k_mem c, k_regs := ?r', k_dirty := True\<rparr>)"
    by (rule synced_dirty [OF assms(3)]) (simp add: tf_set)
  moreover have "shown (s\<lparr>k_mem := k_mem c, k_regs := ?r', k_dirty := True\<rparr>) = next_inst 1 c"
    using hide_tf_set [of ?r] by (simp add: shown_def p(2) next_inst_def upd_regs_def)
  ultimately show ?thesis by auto
qed

lemma patching_popf:
  assumes "code (unat (kr_rip (k_regs s))) s = Some 0x9d" "k_wp s \<noteq> STATE_INT_INST" "synced V s" "top32 (shown s) = Some v"
  shows "\<exists>s'. patching K s = Inr (True, s') \<and> synced V s' \<and> k_wp s' = k_wp s \<and>
    shown s' = next_inst 1 (upd_regs (\<lambda>r. r\<lparr>kr_rflags := popped_flags v, kr_rsp := kr_rsp r + 4\<rparr>) (shown s))"
proof -
  let ?r = "(k_regs s)\<lparr>kr_rflags := ucast (v OR RFLAGS_TF OR 2), kr_rsp := kr_rsp (k_regs s) + 4, kr_rip := kr_rip (k_regs s) + 1\<rparr>"
  note b = code_byte [OF assms(1)]
  have "vm_word (ucast (kr_rsp (k_regs s))) s = Inr v"
    using top_word [OF assms(4)] by (simp add: vm_word_def)
  then have "patching K s = Inr (True, s\<lparr>k_mem := k_mem s, k_regs := ?r, k_dirty := True\<rparr>)"
    using b assms(2) by (simp add: patching_def va2pa_flat upd_regs_def Let_def)
  moreover have "synced V (s\<lparr>k_mem := k_mem s, k_regs := ?r, k_dirty := True\<rparr>)"
    by (rule synced_dirty [OF assms(3)]) (simp add: tf_set)
  moreover have "shown (s\<lparr>k_mem := k_mem s, k_regs := ?r, k_dirty := True\<rparr>) =
      next_inst 1 (upd_regs (\<lambda>r. r\<lparr>kr_rflags := popped_flags v, kr_rsp := kr_rsp r + 4\<rparr>) (shown s))"
    by (simp add: shown_def next_inst_def upd_regs_def hide_tf_flags popped_flags_eq) (simp add: hide_tf_def)
  ultimately show ?thesis by auto
qed

lemma patching_iret:
  assumes "code (unat (kr_rip (k_regs s))) s = Some 0xcf" "debug_steps K V" "synced V s" "top32 (shown s) = Some eip"
  shows "\<exists>s'. patching K s = Inr (False, s') \<and> shown s' = shown s \<and> synced V s' \<and> k_wp s' = STATE_IRET_INST \<and> k_entry s' = eip \<and>
    vw_delay V (k_host s') \<le> vw_delay V (k_host s)"
proof -
  note b = code_byte [OF assms(1)]
  have t: "vm_word (ucast (kr_rsp (k_regs s))) s = Inr eip"
    using top_word [OF assms(4)] by (simp add: vm_word_def)
  have "synced V (s\<lparr>k_entry := eip\<rparr>)" using assms(3) by simp
  from step_mode_set [OF assms(2) this, of True eip] obtain h where
    h: "kvm_set_step_mode K True eip (s\<lparr>k_entry := eip\<rparr>) = Inr (s\<lparr>k_entry := eip, k_host := h\<rparr>)"
      "synced V (s\<lparr>k_entry := eip, k_host := h\<rparr>)" "vw_delay V h \<le> vw_delay V (k_host s)" by auto
  then have "patching K s = Inr (False, s\<lparr>k_entry := eip, k_host := h, k_wp := STATE_IRET_INST\<rparr>)"
    using b t by (simp add: patching_def va2pa_flat Let_def)
  then show ?thesis using h(2,3) by (auto simp: shown_def)
qed

lemma patching_other:
  assumes "code (unat (kr_rip (k_regs s))) s = Some b" "b \<noteq> 0x9c" "b \<noteq> 0x9d" "b \<noteq> 0xcf"
  shows "patching K s = Inr (False, s)"
  using code_byte [OF assms(1)] assms(2-4) by (simp add: patching_def va2pa_flat Let_def)

section \<open>What follows a step\<close>

lemma code_cong: "k_mem s = k_mem t \<Longrightarrow> k_sregs s = k_sregs t \<Longrightarrow> code i s = code i t"
  by (simp add: code_def peek_def paging_def)

lemma paging_code: "code i s = Some b \<Longrightarrow> \<not> paging s"
  by (auto simp: code_def peek_def split: if_splits)

lemma arr_put_twice: "length xs = length ys \<Longrightarrow> arr_put (arr_put m a xs) a ys = arr_put m a ys"
  by (auto simp: arr_put_def fun_eq_iff intro!: carray.equality)

lemma fix_push_ok:
  assumes "push32 v c = Some c1" "push32 (v AND 0xffff) c = Some c2" "k_mem s = k_mem c1" "kr_rsp (k_regs s) = kr_rsp (k_regs c) - 4"
    "\<not> paging s"
  shows "fix_push_sreg K s = Inr (s\<lparr>k_mem := k_mem c2\<rparr>)"
proof -
  let ?a = "unat (kr_rsp (k_regs c)) - 4"
  note p = push_store [OF assms(1)]
  have m: "k_mem s = arr_put (k_mem c) ?a (le_bytes 4 v)" using assms(3) p(2) by simp
  have "arr_load (k_mem s) ?a (length (le_bytes 4 v)) = Inr (le_bytes 4 v)"
    unfolding m by (rule arr_load_put_same) (use p(4,5) in simp)
  then have "vm_word (ucast (kr_rsp (k_regs c) - 4)) s = Inr v"
    by (simp add: vm_word_def p(3) le_word_le_bytes take_bit_word_eq_self del: le_bytes.simps)
  moreover have "vm_store (ucast (kr_rsp (k_regs c) - 4)) (v AND 0xffff) s = Inr (s\<lparr>k_mem := k_mem c2\<rparr>)"
    using p(4,5) by (simp add: vm_store_def p(3) m arr_store_ok arr_put_twice push_store(2) [OF assms(2)] del: le_bytes.simps)
  ultimately show ?thesis using assms(4,5) by (simp add: fix_push_sreg_def va2pa_flat)
qed

text \<open>The bytes of the instruction are still there after a push.\<close>

lemma code_apart:
  assumes "push32 v c = Some c'" "stack_apart c" "i = unat (kr_rip (k_regs c)) \<or> i = unat (kr_rip (k_regs c)) + 1"
  shows "code i c' = code i c"
proof -
  note p = push_store [OF assms(1)]
  have "\<not> (unat (kr_rsp (k_regs c)) - 4 \<le> i \<and> i < unat (kr_rsp (k_regs c)) - 4 + 4)"
    using assms(2,3) p(5) unat_sub [of 4 "kr_rsp (k_regs c)"] by (auto simp: stack_apart_def word_le_nat_alt)
  then have "cget (k_mem c') i = cget (k_mem c) i" by (auto simp: p(2) arr_put_def)
  then show ?thesis by (simp add: p(2) code_def peek_def paging_def)
qed

lemma after_push:
  assumes "sreg_push c = Some (sel, n)" "stack_apart c" "push32 v c = Some c1" "push32 (v AND 0xffff) c = Some c2"
    "shown s = next_inst n c1"
  shows "patching_after K (kr_rip (k_regs c)) s = Inr (s\<lparr>k_mem := k_mem c2\<rparr>)"
proof -
  let ?pc = "kr_rip (k_regs c)"
  note p = push_store [OF assms(3)]
  have s: "k_mem s = k_mem c1" "k_sregs s = k_sregs c1" "hide_tf (k_regs s) = (k_regs c1)\<lparr>kr_rip := kr_rip (k_regs c1) + n\<rparr>"
    using assms(5) by (auto simp: shown_def next_inst_def upd_regs_def dest: arg_cong [of _ _ k_mem] arg_cong [of _ _ k_sregs]
        arg_cong [of _ _ k_regs])
  have r: "kr_rip (k_regs s) = ?pc + n" "kr_rsp (k_regs s) = kr_rsp (k_regs c) - 4"
    using arg_cong [OF s(3), of kr_rip] arg_cong [OF s(3), of kr_rsp] by (simp_all add: p(2))
  have code: "code (unat ?pc) s = code (unat ?pc) c" "code (unat ?pc + 1) s = code (unat ?pc + 1) c"
    using code_apart [OF assms(3,2)] code_cong [OF s(1,2)] by metis+
  have np: "\<not> paging s" using assms(1) code by (auto simp: sreg_push_def Let_def split: if_splits dest: paging_code)
  have fp: "fix_push_sreg K s = Inr (s\<lparr>k_mem := k_mem c2\<rparr>)"
    by (rule fix_push_ok [OF assms(3,4) s(1) r(2) np])
  from assms(1) consider "code (unat ?pc) c = Some 0x1e \<or> code (unat ?pc) c = Some 0x06" "n = 1"
    | "code (unat ?pc) c = Some 0x0f" "code (unat ?pc + 1) c = Some 0xa0" "n = 2"
    by (auto simp: sreg_push_def Let_def split: if_splits)
  then show ?thesis
  proof cases
    case 1
    then obtain b where "code (unat ?pc) s = Some b" "b = 0x1e \<or> b = 0x06" using code by auto
    then show ?thesis using code_byte [of ?pc s b] fp r 1(2) by (auto simp: patching_after_def va2pa_flat Let_def)
  next
    case 2
    then show ?thesis using code_byte [of ?pc s] code_byte_next [of ?pc s] fp r code
      by (auto simp: patching_after_def va2pa_flat Let_def)
  qed
qed

lemma after_other:
  assumes "code (unat pc) s = Some b" "b \<noteq> 0x1e" "b \<noteq> 0x06" "b = 0x0f \<Longrightarrow> \<exists>b'. code (unat pc + 1) s = Some b' \<and> b' \<noteq> 0xa0"
  shows "patching_after K pc s = Inr s"
  using assms code_byte [OF assms(1)] code_byte_next [OF assms(1)]
  by (cases "b = 0x0f") (auto simp: patching_after_def va2pa_flat Let_def)

lemma after_ok:
  assumes "debug_steps K V" "synced V s" "patching_after K pc s = Inr (s\<lparr>k_mem := m\<rparr>)" "k_wp s \<noteq> STATE_INT_INST"
    "k_wp s = STATE_IRET_INST \<Longrightarrow> k_debug_pc s = ucast (k_entry s)"
  shows "\<exists>s'. after_debug_exit K pc s = Inr s' \<and> shown s' = (shown s)\<lparr>k_mem := m\<rparr> \<and> synced V s' \<and> k_wp s' = STATE_IDLE"
proof -
  have y: "synced V (s\<lparr>k_mem := m\<rparr>)" using assms(2) by simp
  from step_mode_set [OF assms(1) this, of False 0] obtain h where
    "kvm_set_step_mode K False 0 (s\<lparr>k_mem := m\<rparr>) = Inr (s\<lparr>k_mem := m, k_host := h\<rparr>)" "synced V (s\<lparr>k_mem := m, k_host := h\<rparr>)" by auto
  then show ?thesis using assms(3-5) y by (cases "k_wp s") (auto simp: after_debug_exit_def shown_def)
qed

section \<open>Instructions\<close>

lemma clear_high: "(push_bit 16 (ucast (high :: u16)) OR ucast (sel :: u16)) AND 0xffff = (ucast sel :: u32)"
proof -
  have m: "(0xffff :: u32) = mask 16" by (simp add: mask_eq_exp_minus_1)
  have "bit (0xffff :: u32) n \<longleftrightarrow> n < 16" for n unfolding m bit_mask_iff by auto
  note mask = this
  show ?thesis
  proof (rule bit_word_eqI)
    fix n assume "n < LENGTH(32)"
    then show "bit ((push_bit 16 (ucast high) OR ucast sel) AND 0xffff :: u32) n = bit (ucast sel :: u32) n"
      using bit_imp_le_length [of sel n] unfolding bit_and_iff bit_or_iff bit_push_bit_iff bit_ucast_iff mask by auto
  qed
qed

text \<open>What has to follow a step of the processor: whatever shared page shows its result is corrected to the reference's.\<close>

definition completes :: "'s kvm_kernel \<Rightarrow> 's kvm_view \<Rightarrow> 's kvm \<Rightarrow> kvm_core \<Rightarrow> kvm_core \<Rightarrow> bool" where
  "completes K V s c' c \<longleftrightarrow> (\<forall>s'. shown s' = c' \<longrightarrow> synced V s' \<longrightarrow> k_debug_pc s' = kr_rip (k_regs s') \<longrightarrow> k_wp s' = k_wp s \<longrightarrow>
     k_entry s' = k_entry s \<longrightarrow>
     (\<exists>t. after_debug_exit K (kr_rip (k_regs s)) s' = Inr t \<and> shown t = c \<and> synced V t \<and> k_wp t = STATE_IDLE))"

lemma completesI:
  assumes "debug_steps K V" "k_wp s \<noteq> STATE_INT_INST" "k_wp s = STATE_IRET_INST \<Longrightarrow> kr_rip (k_regs c') = ucast (k_entry s)"
    "\<And>s'. shown s' = c' \<Longrightarrow> \<exists>m. patching_after K (kr_rip (k_regs s)) s' = Inr (s'\<lparr>k_mem := m\<rparr>) \<and> c'\<lparr>k_mem := m\<rparr> = c"
  shows "completes K V s c' c"
  unfolding completes_def
proof (intro allI impI)
  fix s' assume s': "shown s' = c'" "synced V s'" "k_debug_pc s' = kr_rip (k_regs s')" "k_wp s' = k_wp s" "k_entry s' = k_entry s"
  obtain m where m: "patching_after K (kr_rip (k_regs s)) s' = Inr (s'\<lparr>k_mem := m\<rparr>)" "c'\<lparr>k_mem := m\<rparr> = c"
    using assms(4) [OF s'(1)] by blast
  have "k_debug_pc s' = ucast (k_entry s')" if "k_wp s' = STATE_IRET_INST"
    using assms(3) that s' by auto
  from after_ok [OF assms(1) s'(2) m(1) _ this] s'(1,4) assms(2) m(2)
  show "\<exists>t. after_debug_exit K (kr_rip (k_regs s)) s' = Inr t \<and> shown t = c \<and> synced V t \<and> k_wp t = STATE_IDLE" by auto
qed

lemma completes_push:
  assumes "debug_steps K V" "pushes_selectors step" "k_wp s = STATE_IDLE" "sreg_push (shown s) = Some (sel, n)" "stack_apart (shown s)"
    "push32 (ucast sel) (shown s) = Some c"
  shows "completes K V s (tidy (step (shown s))) (next_inst n c)"
proof -
  obtain high :: u16 where "map_option (next_inst n) (push32 (push_bit 16 (ucast high) OR ucast sel) (shown s)) = Some (step (shown s))"
    using assms(2,4,6) unfolding pushes_selectors_def by blast
  then obtain c1 where c1: "push32 (push_bit 16 (ucast high) OR ucast sel) (shown s) = Some c1" "step (shown s) = next_inst n c1" by auto
  have c2: "push32 ((push_bit 16 (ucast high) OR ucast sel) AND 0xffff) (shown s) = Some c" by (simp only: clear_high assms(6))
  note p = push_store(2) [OF c1(1)] push_store(2) [OF assms(6)]
  have t: "tidy (step (shown s)) = next_inst n c1"
    by (simp add: c1(2) p(1) tidy_def next_inst_def upd_regs_def)
  show ?thesis unfolding t
  proof (rule completesI [OF assms(1)])
    fix s' :: "'a kvm" assume "shown s' = next_inst n c1"
    then have "patching_after K (kr_rip (k_regs s)) s' = Inr (s'\<lparr>k_mem := k_mem c\<rparr>)"
      using after_push [OF assms(4,5) c1(1) c2] by simp
    moreover have "(next_inst n c1)\<lparr>k_mem := k_mem c\<rparr> = next_inst n c"
      by (simp add: p next_inst_def upd_regs_def)
    ultimately show "\<exists>m. patching_after K (kr_rip (k_regs s)) s' = Inr (s'\<lparr>k_mem := m\<rparr>) \<and> (next_inst n c1)\<lparr>k_mem := m\<rparr> = next_inst n c"
      by blast
  qed (simp_all add: assms(3))
qed

lemma completes_other:
  assumes "debug_steps K V" "code (unat (kr_rip (k_regs s))) (shown s) = Some b" "sreg_push (shown s) = None"
    "unchanged_code (shown s) c'" "b = 0x0f \<longrightarrow> code (unat (kr_rip (k_regs s)) + 1) (shown s) \<noteq> None"
    "k_wp s \<noteq> STATE_INT_INST" "k_wp s = STATE_IRET_INST \<Longrightarrow> kr_rip (k_regs c') = ucast (k_entry s)"
  shows "completes K V s (tidy c') (tidy c')"
proof (rule completesI [OF assms(1,6)])
  show "k_wp s = STATE_IRET_INST \<Longrightarrow> kr_rip (k_regs (tidy c')) = ucast (k_entry s)" using assms(7) by (simp add: tidy_def)
  fix s' :: "'a kvm" assume s': "shown s' = tidy c'"
  let ?pc = "kr_rip (k_regs s)"
  have same: "code i s' = code i c'" for i
    using arg_cong [OF s', of k_mem] arg_cong [OF s', of k_sregs] by (intro code_cong) (simp_all add: tidy_def)
  have u: "code (unat ?pc) c' = code (unat ?pc) s" "code (unat ?pc) s = Some 0x0f \<Longrightarrow> code (unat ?pc + 1) c' = code (unat ?pc + 1) s"
    using assms(4) by (simp_all add: unchanged_code_def Let_def)
  have b: "b \<noteq> 0x1e" "b \<noteq> 0x06" "b = 0x0f \<Longrightarrow> code (unat ?pc + 1) s \<noteq> Some 0xa0"
    using assms(2,3) by (auto simp: sreg_push_def Let_def split: if_splits)
  have c: "code (unat ?pc) s = Some b" using assms(2) by simp
  have "patching_after K ?pc s' = Inr s'"
    by (rule after_other [of _ _ b]) (use same u b c assms(5) in auto)
  then show "\<exists>m. patching_after K ?pc s' = Inr (s'\<lparr>k_mem := m\<rparr>) \<and> (tidy c')\<lparr>k_mem := m\<rparr> = tidy c'"
    unfolding s' [symmetric] by (intro exI [of _ "k_mem s'"]) (simp add: shown_def)
qed

lemma instruction_ok:
  assumes K: "debug_steps K V" "pushes_selectors step" and s: "idle s" "synced V s" and ref: "ref_step step (shown s) = Some c"
  shows "(\<exists>s'. patching K s = Inr (True, s') \<and> shown s' = c \<and> synced V s' \<and> k_wp s' = STATE_IDLE) \<or>
    (\<exists>s'. patching K s = Inr (False, s') \<and> shown s' = shown s \<and> synced V s' \<and> idle s' \<and>
      vw_delay V (k_host s') \<le> vw_delay V (k_host s) \<and> completes K V s' (tidy (step (shown s))) c)"
proof -
  let ?c = "shown s" and ?pc = "unat (kr_rip (k_regs s))"
  obtain b where b: "code ?pc s = Some b" using ref by (auto simp: ref_step_def Let_def split: option.splits)
  then have b': "code ?pc ?c = Some b" by simp
  have wp: "b \<noteq> 0xcf \<Longrightarrow> k_wp s = STATE_IDLE" "k_wp s \<noteq> STATE_INT_INST" using s(1) b by (auto simp: idle_def)
  consider "b = 0x9c" | "b = 0x9d" | sel n where "b \<noteq> 0x9c" "b \<noteq> 0x9d" "sreg_push ?c = Some (sel, n)"
    | "b \<noteq> 0x9c" "b \<noteq> 0x9d" "sreg_push ?c = None" by (cases "sreg_push ?c") auto
  then show ?thesis
  proof cases
    case 1
    then obtain c1 where "push32 (pushed_flags (kr_rflags (hide_tf (k_regs s)))) ?c = Some c1" "c = next_inst 1 c1"
      using ref b by (auto simp: ref_step_def Let_def)
    with patching_pushf [OF _ wp(2) s(2) this(1)] 1 b wp(1) show ?thesis by auto
  next
    case 2
    then obtain v where "top32 ?c = Some v"
      "c = next_inst 1 (upd_regs (\<lambda>r. r\<lparr>kr_rflags := popped_flags v, kr_rsp := kr_rsp r + 4\<rparr>) ?c)"
      using ref b by (auto simp: ref_step_def Let_def)
    with patching_popf [OF _ wp(2) s(2) this(1)] 2 b wp(1) show ?thesis by auto
  next
    case 3
    then obtain c1 where c1: "stack_apart ?c" "push32 (ucast sel) ?c = Some c1" "c = next_inst n c1"
      using ref b by (auto simp: ref_step_def Let_def split: if_splits)
    have nc: "b \<noteq> 0xcf" using 3(3) b by (auto simp: sreg_push_def Let_def split: if_splits)
    have "completes K V s (tidy (step ?c)) c"
      unfolding c1(3) by (rule completes_push [OF K wp(1) [OF nc] 3(3) c1(1,2)])
    with patching_other [OF b 3(1,2) nc, of K] s show ?thesis by auto
  next
    case 4
    then have r: "unchanged_code ?c (step ?c)" "b = 0x0f \<longrightarrow> code (?pc + 1) ?c \<noteq> None" "c = tidy (step ?c)"
      "b = 0xcf \<longrightarrow> (case top32 ?c of None \<Rightarrow> False | Some eip \<Rightarrow> kr_rip (k_regs (step ?c)) = ucast eip)"
      using ref b by (auto simp: ref_step_def Let_def split: if_splits)
    show ?thesis
    proof (cases "b = 0xcf")
      case True
      then obtain eip where e: "top32 ?c = Some eip" "kr_rip (k_regs (step ?c)) = ucast eip" using r(4) by (auto split: option.splits)
      from patching_iret [OF _ K(1) s(2) e(1)] b True obtain s' where s': "patching K s = Inr (False, s')" "shown s' = ?c" "synced V s'"
        "k_wp s' = STATE_IRET_INST" "k_entry s' = eip" "vw_delay V (k_host s') \<le> vw_delay V (k_host s)" by auto
      have pc: "kr_rip (k_regs s') = kr_rip (k_regs s)" using arg_cong [OF s'(2), of k_regs] by (metis hide_tf_simps(1) shown_simps(2))
      have "completes K V s' (tidy (step ?c)) c"
        unfolding r(3) by (rule completes_other [OF K(1), of _ b]) (use s' pc b' r 4(3) e(2) in simp_all)
      moreover have "idle s'" using s'(2,4) pc b True by (metis idle_def peek_shown(2))
      ultimately show ?thesis using s' by blast
    next
      case False
      have "completes K V s (tidy (step ?c)) c"
        unfolding r(3) by (rule completes_other [OF K(1) b' 4(3) r(1,2) wp(2)]) (use wp(1) False in simp)
      with patching_other [OF b 4(1,2) False, of K] s show ?thesis by auto
    qed
  qed
qed

section \<open>Execution\<close>

lemma kvm_exec_ref:
  assumes K: "debug_steps K V" "run_steps K V step" "pushes_selectors step"
  shows "unat n = i \<Longrightarrow> vw_delay V (k_host s) = d \<Longrightarrow> idle s \<Longrightarrow> k_wp s = STATE_IDLE \<or> 0 < i \<Longrightarrow> synced V s \<Longrightarrow>
    ref_run step i (shown s) = Some c \<Longrightarrow>
    \<exists>s'. kvm_exec K n s = Some (Inr s') \<and> shown s' = c \<and> synced V s' \<and> k_wp s' = STATE_IDLE"
proof (induction "(i, d)" arbitrary: n i d s rule: wf_induct_rule [OF wf_lex_prod [OF wf_less wf_less]])
  case 1
  show ?case
  proof (cases i)
    case 0
    then have "n = 0" using 1(2) by (simp add: unat_eq_0)
    then show ?thesis using 0 1(5-7) by (subst kvm_exec.simps) simp
  next
    case (Suc j)
    then have n0: "n \<noteq> 0" using 1(2) by auto
    then have n: "n \<noteq> 0" "unat (n - 1) = j" using 1(2) Suc by (simp_all add: unat_minus_one)
    obtain c1 where c1: "ref_step step (shown s) = Some c1" "ref_run step j c1 = Some c" using 1(7) Suc by (auto split: option.splits)
    have rec: "\<exists>s'. kvm_exec K (n - 1) t = Some (Inr s') \<and> shown s' = c \<and> synced V s' \<and> k_wp s' = STATE_IDLE"
      if "shown t = c1" "synced V t" "k_wp t = STATE_IDLE" for t
      by (rule 1(1) [OF _ n(2) refl]) (use that c1(2) Suc in \<open>auto simp: idle_def\<close>)
    from instruction_ok [OF K(1,3) 1(4,6) c1(1)] show ?thesis
    proof (elim disjE exE conjE)
      fix t assume "patching K s = Inr (True, t)" "shown t = c1" "synced V t" "k_wp t = STATE_IDLE"
      then show ?thesis using n(1) rec by (subst kvm_exec.simps) simp
    next
      fix t
      assume p: "patching K s = Inr (False, t)" "shown t = shown s" "synced V t" "idle t" "vw_delay V (k_host t) \<le> vw_delay V (k_host s)"
        "completes K V t (tidy (step (shown s))) c1"
      show ?thesis
      proof (cases "0 < vw_delay V (k_host t)")
        case True
        from kernel_runs(1) [OF K(2) p(3) this] obtain u where u: "kk_run K t = (Interrupted, u)" "shown u = shown t" "synced V u"
          "vw_delay V (k_host u) < vw_delay V (k_host t)" "k_wp u = k_wp t" "k_entry u = k_entry t" by blast
        have "\<exists>s'. kvm_exec K n u = Some (Inr s') \<and> shown s' = c \<and> synced V s' \<and> k_wp s' = STATE_IDLE"
          by (rule 1(1) [OF _ 1(2) refl idle_shown [OF u(2,5) p(4)]]) (use 1(3,7) u(2-4) p(2,5) Suc in auto)
        then show ?thesis using n(1) p(1) u(1) by (subst kvm_exec.simps) simp
      next
        case False
        then obtain u where u: "kk_run K t = (Ran, u)" "shown u = tidy (step (shown t))" "synced V u" "k_exit u = KVM_EXIT_DEBUG"
          "k_debug_pc u = kr_rip (k_regs u)" "k_wp u = k_wp t" "k_entry u = k_entry t" using kernel_runs(2) [OF K(2) p(3)] by auto
        from p(6) u(2-) p(2) obtain v where "after_debug_exit K (kr_rip (k_regs t)) u = Inr v" "shown v = c1" "synced V v"
          "k_wp v = STATE_IDLE" unfolding completes_def by metis
        then show ?thesis using n(1) p(1) u(1,4) rec by (subst kvm_exec.simps) simp
      qed
    qed
  qed
qed

end
