(* ===== verification/KVM_Properties.thy ===== *)
theory KVM_Properties
  imports KVM_Correct
begin

text \<open>What KVM does as a reference of differential testing.\<close>

text \<open>
  C40: The reference executes the number of instructions it is asked for. From a state in which the shared page and the
  processor agree, \<^verbatim>\<open>difftest_exec\<close> returns, however often signals interrupt the kernel, with the registers and the memory
  that \<open>n\<close> instructions of the reference leave: \<open>pushf\<close> pushes the flags without AF, TF, RF, AC and ID, \<open>popf\<close> takes them
  from the stack, a segment register is pushed with zeros above it, \<open>iret\<close> is checked to go to the address on the stack,
  and all else is the processor's; the page and the processor agree again. The kernel is assumed to look at the page's
  registers only if they are marked as changed, and nothing is assumed of a run without the debug setting for single
  steps, or of registers that are handed over without the trap flag. Paging is off, accesses stay in memory, and the
  instructions do not change themselves.
\<close>

theorem kvm_executes_instructions:
  assumes "debug_steps K V" "run_steps K V step" "pushes_selectors step" "synced V s" "k_wp s = STATE_IDLE"
    "ref_run step (unat n) (shown s) = Some c"
  shows "\<exists>s'. kvm_difftest_exec K n s = Some (Inr s') \<and> shown s' = c \<and> synced V s' \<and> k_wp s' = STATE_IDLE"
  unfolding kvm_difftest_exec_def
  by (rule kvm_exec_ref [OF assms(1-3) refl refl _ _ assms(4,6)]) (simp_all add: assms(5) idle_def)

text \<open>For evaluation, the bound on addresses is compared as an integer.\<close>

lemma peek_eval [code]:
  "peek a n c = (if \<not> paging c \<and> int (a + n) < 2 ^ 32 \<and> a + n \<le> clen (k_mem c)
     then Some (map (\<lambda>i. cget (k_mem c) (a + i)) [0..<n]) else None)"
proof -
  have "int (a + n) < 2 ^ 32 \<longleftrightarrow> a + n < 2 ^ 32" by (metis of_nat_less_iff of_nat_numeral of_nat_power)
  then show ?thesis by (simp only: peek_def)
qed

text \<open>
  A processor that leaves ones above a pushed selector, and a kernel that has it inside, with the number of signals that
  are to come, and whether it is to step. The program pushes \<^verbatim>\<open>%ds\<close>, pushes and pops the flags, returns to address 8, which is
  the selector, and does nothing there.
\<close>

definition toy_step :: "kvm_core \<Rightarrow> kvm_core" where
  "toy_step c = (case sreg_push c of
       Some (sel, n) \<Rightarrow> (case push32 (push_bit 16 (ucast (0xffff :: u16)) OR ucast sel) c of None \<Rightarrow> c | Some c' \<Rightarrow> next_inst n c')
     | None \<Rightarrow> if code (unat (kr_rip (k_regs c))) c = Some 0xcf
         then (case top32 c of None \<Rightarrow> c | Some eip \<Rightarrow> upd_regs (\<lambda>r. r\<lparr>kr_rip := ucast eip, kr_rsp := kr_rsp r + 12\<rparr>) c)
         else next_inst 1 c)"

type_synonym toy_host = "nat \<times> bool \<times> kvm_regs \<times> kvm_sregs"

definition toy_view :: "toy_host kvm_view" where
  "toy_view = \<lparr>vw_regs = (\<lambda>(d, b, r, sr). r), vw_sregs = (\<lambda>(d, b, r, sr). sr), vw_stepping = (\<lambda>(d, b, r, sr). b), vw_delay = fst\<rparr>"

definition toy_run :: "toy_host kvm \<Rightarrow> run_result \<times> toy_host kvm" where
  "toy_run s =
     (let (d, b, _, sr) = k_host s; r = entry_regs toy_view s in
      if \<not> b \<or> k_dirty s \<and> \<not> bit (kr_rflags (k_regs s)) 8 then (Run_failed, s)
      else if 0 < d then (Interrupted, s\<lparr>k_regs := r, k_sregs := sr, k_dirty := False, k_host := (d - 1, b, r, sr)\<rparr>)
      else let c = tidy (toy_step \<lparr>k_mem = k_mem s, k_regs = r, k_sregs = sr\<rparr>) in
        (Ran, s\<lparr>k_mem := k_mem c, k_regs := k_regs c, k_sregs := k_sregs c, k_dirty := False, k_exit := KVM_EXIT_DEBUG,
           k_debug_pc := kr_rip (k_regs c), k_host := (d, b, k_regs c, k_sregs c)\<rparr>))"

definition toy_kernel :: "toy_host kvm_kernel" where
  "toy_kernel = \<lparr>kk_run = toy_run, kk_translate = (\<lambda>a s. None),
     kk_debug = (\<lambda>g (d, b, r, sr). Some (d, gd_control g AND KVM_GUESTDBG_ENABLE \<noteq> 0 \<and> gd_control g AND KVM_GUESTDBG_SINGLESTEP \<noteq> 0, r, sr)),
     kk_interrupt = (\<lambda>_ _. None), kk_set_regs = (\<lambda>r (d, b, _, sr). Some (d, False, r, sr)),
     kk_get_sregs = (\<lambda>(d, b, r, sr). Some sr), kk_set_sregs = (\<lambda>sr (d, b, r, _). Some (d, b, r, sr))\<rparr>"

lemma toy_view_simps [simp]:
  "vw_regs toy_view (d, b, r, sr) = r" "vw_sregs toy_view (d, b, r, sr) = sr" "vw_stepping toy_view (d, b, r, sr) = b"
  "vw_delay toy_view (d, b, r, sr) = d"
  by (simp_all add: toy_view_def)

lemma toy_kernel_ok: "debug_steps toy_kernel toy_view" "run_steps toy_kernel toy_view toy_step" "pushes_selectors toy_step"
proof -
  show "debug_steps toy_kernel toy_view"
    by (auto simp: debug_steps_def toy_kernel_def toy_view_def)
  show "run_steps toy_kernel toy_view toy_step"
    unfolding run_steps_def
  proof (intro allI impI)
    fix s :: "toy_host kvm"
    assume s: "vw_stepping toy_view (k_host s)" "k_dirty s \<longrightarrow> bit (kr_rflags (k_regs s)) 8"
    obtain d b r sr where h: "k_host s = (d, b, r, sr)" by (cases "k_host s")
    have e: "kk_run toy_kernel s = toy_run s" "b" using h s(1) by (simp_all add: toy_kernel_def)
    let ?r = "entry_regs toy_view s"
    let ?c = "tidy (toy_step \<lparr>k_mem = k_mem s, k_regs = ?r, k_sregs = sr\<rparr>)"
    let ?h = "if 0 < d then (d - 1, b, ?r, sr) else (d, b, k_regs ?c, k_sregs ?c)"
    show "let r = entry_regs toy_view s; sr = vw_sregs toy_view (k_host s) in
      if 0 < vw_delay toy_view (k_host s)
      then \<exists>h. kk_run toy_kernel s = (Interrupted, s\<lparr>k_regs := r, k_sregs := sr, k_dirty := False, k_host := h\<rparr>) \<and>
        vw_regs toy_view h = r \<and> vw_sregs toy_view h = sr \<and> vw_stepping toy_view h \<and> vw_delay toy_view h < vw_delay toy_view (k_host s)
      else let c = tidy (toy_step \<lparr>k_mem = k_mem s, k_regs = r, k_sregs = sr\<rparr>) in
        \<exists>h. kk_run toy_kernel s = (Ran, s\<lparr>k_mem := k_mem c, k_regs := k_regs c, k_sregs := k_sregs c, k_dirty := False,
            k_exit := KVM_EXIT_DEBUG, k_debug_pc := kr_rip (k_regs c), k_host := h\<rparr>) \<and>
          vw_regs toy_view h = k_regs c \<and> vw_sregs toy_view h = k_sregs c \<and> vw_stepping toy_view h"
      unfolding Let_def if_bool_eq_conj
      by (intro conjI impI exI [of _ ?h]) (use e(2) s(2) h in \<open>simp_all add: e(1) toy_run_def Let_def\<close>)
  qed
  have def: "push32 w c \<noteq> None" if "push32 v c \<noteq> None" for v w c
    using that by (auto simp: push32_def Let_def split: if_splits)
  show "pushes_selectors toy_step"
    unfolding pushes_selectors_def
  proof (intro allI impI)
    fix c sel n assume "sreg_push c = Some (sel, n)" "push32 (ucast sel) c \<noteq> None"
    then show "\<exists>high :: u16. map_option (next_inst n) (push32 (push_bit 16 (ucast high) OR ucast sel) c) = Some (toy_step c)"
      using def [of "ucast sel" c "push_bit 16 (ucast (0xffff :: u16)) OR ucast sel"]
      by (intro exI [of _ "0xffff"]) (auto simp: toy_step_def)
  qed
qed

definition flags_regs :: kvm_regs where
  "flags_regs = \<lparr>kr_rax = 0, kr_rbx = 0, kr_rcx = 0, kr_rdx = 0, kr_rsi = 0, kr_rdi = 0, kr_rsp = 32, kr_rbp = 0,
     kr_r8_15 = replicate 8 0, kr_rip = 0, kr_rflags = 0x53\<rparr>"

definition flat_segment :: kvm_segment where
  "flat_segment = \<lparr>sg_base = 0, sg_limit = 0xffffffff, sg_selector = 8, sg_type = 3, sg_present = True, sg_dpl = 0, sg_db = True,
     sg_s = True, sg_l = False, sg_g = True\<rparr>"

definition flags_sregs :: kvm_sregs where
  "flags_sregs = \<lparr>ks_cs = flat_segment, ks_ds = flat_segment, ks_es = flat_segment, ks_fs = flat_segment, ks_gs = flat_segment,
     ks_ss = flat_segment, ks_idt = 0, ks_cr0 = 1\<rparr>"

definition flags_guest :: "toy_host kvm" where
  "flags_guest = \<lparr>k_mem = \<lparr>clen = 64, cget = (\<lambda>i. if i < 4 then [0x1e, 0x9c, 0x9d, 0xcf] ! i else 0x90)\<rparr>, k_regs = flags_regs,
     k_sregs = flags_sregs, k_dirty = False, k_exit = KVM_EXIT_DEBUG, k_debug_pc = 0, k_wp = STATE_IDLE, k_has_error = False,
     k_entry = 0, k_host = (2, True, flags_regs, flags_sregs)\<rparr>"

lemma kvm_executes_instructions_witness:
  "\<exists>s'. kvm_difftest_exec toy_kernel 5 flags_guest = Some (Inr s') \<and> kr_rip (k_regs (shown s')) = 9 \<and>
     kr_rsp (k_regs (shown s')) = 40 \<and> kr_rflags (k_regs (shown s')) = 0x43 \<and>
     arr_load (k_mem s') 24 8 = Inr [0x43, 0, 0, 0, 8, 0, 0, 0]"
proof -
  have "case ref_run toy_step (unat (5 :: u64)) (shown flags_guest) of None \<Rightarrow> False
    | Some c \<Rightarrow> kr_rip (k_regs c) = 9 \<and> kr_rsp (k_regs c) = 40 \<and> kr_rflags (k_regs c) = 0x43 \<and>
        arr_load (k_mem c) 24 8 = Inr [0x43, 0, 0, 0, 8, 0, 0, 0]"
    by code_simp
  then obtain c where c: "ref_run toy_step (unat (5 :: u64)) (shown flags_guest) = Some c" "kr_rip (k_regs c) = 9"
    "kr_rsp (k_regs c) = 40" "kr_rflags (k_regs c) = 0x43" "arr_load (k_mem c) 24 8 = Inr [0x43, 0, 0, 0, 8, 0, 0, 0]"
    by (auto split: option.splits)
  have "synced toy_view flags_guest" "k_wp flags_guest = STATE_IDLE"
    by (simp_all add: flags_guest_def synced_def entry_regs_def toy_view_def)
  from kvm_executes_instructions [OF toy_kernel_ok this c(1)] obtain s' where
    s': "kvm_difftest_exec toy_kernel 5 flags_guest = Some (Inr s')" "shown s' = c" by blast
  then show ?thesis using c(2-5) by auto
qed

end
