(* ===== verification/Spike_HTIF.thy ===== *)
theory Spike_HTIF
  imports Prelude
begin

text \<open>
  The host interface of the Spike simulator (\<^verbatim>\<open>am/src/riscv/spike/htif.c\<close>, with the lock of \<^verbatim>\<open>atomic.h\<close>): requests are put
  in \<^verbatim>\<open>tohost\<close>, answers come in \<^verbatim>\<open>fromhost\<close>. The host is a parameter that acts on the state whenever the program looks
  at one of the two. There is one processor, so that a lock that is held stays so. \<open>x64\<close> tells the 64-bit configuration.
\<close>

record 's htif =
  ht_tohost :: u64
  ht_fromhost :: u64
  ht_console :: int
  ht_lock :: int
  ht_host :: 's

type_synonym 's htif_host = "'s htif \<Rightarrow> 's htif"

section \<open>Messages\<close>

definition TOHOST_CMD :: "bool \<Rightarrow> u64 \<Rightarrow> u64 \<Rightarrow> u64 \<Rightarrow> u64 res" where
  "TOHOST_CMD x64 dev cmd payload =
     (if x64 then Inr (push_bit 56 dev OR push_bit 48 cmd OR payload)
      else guardR (dev = 0 \<and> cmd = 0) Undef (Inr payload))"

definition FROMHOST_DEV :: "u64 \<Rightarrow> u64" where "FROMHOST_DEV v = drop_bit 56 v"
definition FROMHOST_CMD :: "u64 \<Rightarrow> u64" where "FROMHOST_CMD v = drop_bit 56 (push_bit 8 v)"
definition FROMHOST_DATA :: "u64 \<Rightarrow> u64" where "FROMHOST_DATA v = drop_bit 16 (push_bit 16 v)"

section \<open>The lock\<close>

definition spinlock_lock :: "'s htif \<Rightarrow> 's htif option" where
  "spinlock_lock s = (if ht_lock s = 0 then Some (s\<lparr>ht_lock := - 1\<rparr>) else None)"

definition spinlock_unlock :: "'s htif \<Rightarrow> 's htif" where
  "spinlock_unlock s = s\<lparr>ht_lock := 0\<rparr>"

section \<open>Requests and answers\<close>

definition check_fromhost :: "'s htif_host \<Rightarrow> 's htif \<Rightarrow> 's htif res" where
  "check_fromhost H s =
     (let s = H s; fh = ht_fromhost s in
      if fh = 0 then Inr s
      else let s = s\<lparr>ht_fromhost := 0\<rparr> in
        guardR (FROMHOST_DEV fh = 1) AssertFail
         (if FROMHOST_CMD fh = 0 then Inr (s\<lparr>ht_console := 1 + uint (ucast (FROMHOST_DATA fh) :: u8)\<rparr>)
          else if FROMHOST_CMD fh = 1 then Inr s
          else Inl AssertFail))"

partial_function (option) set_tohost :: "'s htif_host \<Rightarrow> bool \<Rightarrow> u64 \<Rightarrow> u64 \<Rightarrow> u64 \<Rightarrow> 's htif \<Rightarrow> 's htif res option" where
  "set_tohost H x64 dev cmd data s =
     (let s = H s in
      if ht_tohost s \<noteq> 0 then
        (case check_fromhost H s of Inl err \<Rightarrow> Some (Inl err) | Inr s \<Rightarrow> set_tohost H x64 dev cmd data s)
      else Some (bindR (TOHOST_CMD x64 dev cmd data) (\<lambda>v. Inr (s\<lparr>ht_tohost := v\<rparr>))))"

partial_function (option) wait_fromhost :: "'s htif_host \<Rightarrow> u64 \<Rightarrow> u64 \<Rightarrow> 's htif \<Rightarrow> 's htif res option" where
  "wait_fromhost H dev cmd s =
     (let s = H s; fh = ht_fromhost s in
      if fh = 0 then wait_fromhost H dev cmd s
      else if FROMHOST_DEV fh = dev \<and> FROMHOST_CMD fh = cmd then Some (Inr (s\<lparr>ht_fromhost := 0\<rparr>))
      else (case check_fromhost H s of Inl err \<Rightarrow> Some (Inl err) | Inr s \<Rightarrow> wait_fromhost H dev cmd s))"

definition do_tohost_fromhost :: "'s htif_host \<Rightarrow> bool \<Rightarrow> u64 \<Rightarrow> u64 \<Rightarrow> u64 \<Rightarrow> 's htif \<Rightarrow> 's htif res option" where
  "do_tohost_fromhost H x64 dev cmd data s =
     (case spinlock_lock s of None \<Rightarrow> None | Some s \<Rightarrow>
      case set_tohost H x64 dev cmd data s of None \<Rightarrow> None | Some (Inl err) \<Rightarrow> Some (Inl err) | Some (Inr s) \<Rightarrow>
      case wait_fromhost H dev cmd s of None \<Rightarrow> None | Some (Inl err) \<Rightarrow> Some (Inl err) | Some (Inr s) \<Rightarrow>
      Some (Inr (spinlock_unlock s)))"

definition htif_syscall :: "'s htif_host \<Rightarrow> bool \<Rightarrow> u64 \<Rightarrow> 's htif \<Rightarrow> 's htif res option" where
  "htif_syscall H x64 arg s = do_tohost_fromhost H x64 0 0 arg s"

section \<open>The console\<close>

definition htif_console_getchar :: "'s htif_host \<Rightarrow> bool \<Rightarrow> 's htif \<Rightarrow> (int \<times> 's htif) res option" where
  "htif_console_getchar H x64 s =
     (if \<not> x64 then Some (Inr (- 1, s))
      else case spinlock_lock s of None \<Rightarrow> None | Some s \<Rightarrow>
      case check_fromhost H s of Inl err \<Rightarrow> Some (Inl err) | Inr s \<Rightarrow>
      let ch = ht_console s in
      case (if 0 \<le> ch then set_tohost H x64 1 0 0 (s\<lparr>ht_console := - 1\<rparr>) else Some (Inr s)) of
        None \<Rightarrow> None
      | Some (Inl err) \<Rightarrow> Some (Inl err)
      | Some (Inr s) \<Rightarrow> Some (Inr (ch - 1, spinlock_unlock s)))"

text \<open>On RV32 the character is written by a system call whose arguments are at \<open>magic_mem\<close>.\<close>

definition htif_console_putchar :: "'s htif_host \<Rightarrow> bool \<Rightarrow> u64 \<Rightarrow> u8 \<Rightarrow> 's htif \<Rightarrow> 's htif res option" where
  "htif_console_putchar H x64 magic_mem ch s =
     (if \<not> x64 then do_tohost_fromhost H x64 0 0 magic_mem s
      else case spinlock_lock s of None \<Rightarrow> None | Some s \<Rightarrow>
      case set_tohost H x64 1 1 (ucast ch) s of None \<Rightarrow> None | Some (Inl err) \<Rightarrow> Some (Inl err) | Some (Inr s) \<Rightarrow>
      Some (Inr (spinlock_unlock s)))"

section \<open>What a request achieves\<close>

lemma fromhost_fields:
  assumes "dev < 2 ^ 8" "cmd < 2 ^ 8" "data < 2 ^ 48"
  shows "FROMHOST_DEV (push_bit 56 dev OR push_bit 48 cmd OR data) = dev"
    "FROMHOST_CMD (push_bit 56 dev OR push_bit 48 cmd OR data) = cmd"
    "FROMHOST_DATA (push_bit 56 dev OR push_bit 48 cmd OR data) = data"
proof -
  have t: "take_bit 8 dev = dev" "take_bit 8 cmd = cmd" "take_bit 48 data = data"
    using assms by (simp_all add: word_unat_eq_iff unsigned_take_bit_eq take_bit_nat_eq_self_iff word_less_nat_alt)
  have b: "bit dev i \<Longrightarrow> i < 8" "bit cmd i \<Longrightarrow> i < 8" "bit data i \<Longrightarrow> i < 48" for i
    using bit_take_bit_iff [of 8 dev i] bit_take_bit_iff [of 8 cmd i] bit_take_bit_iff [of 48 data i] unfolding t by auto
  show "FROMHOST_DEV (push_bit 56 dev OR push_bit 48 cmd OR data) = dev"
    "FROMHOST_CMD (push_bit 56 dev OR push_bit 48 cmd OR data) = cmd"
    "FROMHOST_DATA (push_bit 56 dev OR push_bit 48 cmd OR data) = data"
    by (rule bit_word_eqI;
      auto simp: FROMHOST_DEV_def FROMHOST_CMD_def FROMHOST_DATA_def bit_simps dest: b; fail)+
qed

text \<open>
  A host that answers after a while: until then it leaves both words alone, and its answer is to the request that was
  sent. A system call then returns, with the answer taken and the lock free.
\<close>

definition answers :: "'s htif_host \<Rightarrow> ('s \<Rightarrow> nat) \<Rightarrow> u64 \<Rightarrow> u64 \<Rightarrow> bool" where
  "answers H delay dev cmd \<longleftrightarrow>
     (\<forall>s. ht_fromhost s = 0 \<longrightarrow> 0 < delay (ht_host s) \<longrightarrow>
        ht_fromhost (H s) = 0 \<and> ht_lock (H s) = ht_lock s \<and> delay (ht_host (H s)) < delay (ht_host s)) \<and>
     (\<forall>s. ht_fromhost s = 0 \<longrightarrow> delay (ht_host s) = 0 \<longrightarrow>
        ht_fromhost (H s) \<noteq> 0 \<and> FROMHOST_DEV (ht_fromhost (H s)) = dev \<and> FROMHOST_CMD (ht_fromhost (H s)) = cmd)"

lemma wait_fromhost_returns:
  assumes H: "answers H delay dev cmd"
  shows "ht_fromhost s = 0 \<Longrightarrow> delay (ht_host s) = d \<Longrightarrow> \<exists>s'. wait_fromhost H dev cmd s = Some (Inr s') \<and> ht_fromhost s' = 0"
proof (induction d arbitrary: s rule: less_induct)
  case (less d)
  show ?case
  proof (cases d)
    case 0
    then show ?thesis using H less.prems by (subst wait_fromhost.simps) (simp add: answers_def Let_def)
  next
    case (Suc k)
    then have "0 < delay (ht_host s)" using less.prems by simp
    then have h: "ht_fromhost (H s) = 0" "delay (ht_host (H s)) < d" using H less.prems unfolding answers_def by blast+
    from less.IH [OF h(2) h(1) refl] show ?thesis using h(1) by (subst wait_fromhost.simps) (simp add: Let_def)
  qed
qed

lemma htif_syscall_returns:
  assumes "answers H delay 0 0" "ht_lock s = 0" "ht_fromhost s = 0" "0 < delay (ht_host s)"
    and "\<And>t. ht_fromhost t = 0 \<Longrightarrow> ht_tohost (H t) = 0"
  shows "\<exists>s'. htif_syscall H x64 arg s = Some (Inr s') \<and> ht_fromhost s' = 0 \<and> ht_lock s' = 0"
proof -
  let ?s = "H (s\<lparr>ht_lock := - 1\<rparr>)"
  have f: "ht_fromhost ?s = 0" "ht_tohost ?s = 0" using assms(1,3-5) unfolding answers_def by auto
  have "set_tohost H x64 0 0 arg (s\<lparr>ht_lock := - 1\<rparr>) = Some (Inr (?s\<lparr>ht_tohost := arg\<rparr>))"
    using f(2) by (subst set_tohost.simps) (simp add: TOHOST_CMD_def Let_def)
  moreover obtain s' where "wait_fromhost H 0 0 (?s\<lparr>ht_tohost := arg\<rparr>) = Some (Inr s')" "ht_fromhost s' = 0"
    using wait_fromhost_returns [OF assms(1), of "?s\<lparr>ht_tohost := arg\<rparr>"] f(1) by auto
  ultimately show ?thesis using assms(2)
    by (simp add: htif_syscall_def do_tohost_fromhost_def spinlock_lock_def spinlock_unlock_def)
qed

section \<open>The clock\<close>

text \<open>\<^verbatim>\<open>timer.c\<close>: the time is read in two halves, the low one first; \<open>rd\<close> reads a word of a device.\<close>

definition spike_read_time :: "(u64 \<Rightarrow> 's \<Rightarrow> u32 \<times> 's) \<Rightarrow> 's \<Rightarrow> u64 \<times> 's" where
  "spike_read_time rd s =
     (let (low, s) = rd (0x2000000 + 0xbff8) s; (high, s) = rd (0x2000000 + 0xbff8 + 4) s in
      ((push_bit 32 (ucast high) OR ucast low) div 10, s))"

definition spike_timer_init :: "(u64 \<Rightarrow> 's \<Rightarrow> u32 \<times> 's) \<Rightarrow> 's \<Rightarrow> u64 \<times> 's" where
  "spike_timer_init rd s = spike_read_time rd s"

definition spike_timer_uptime :: "(u64 \<Rightarrow> 's \<Rightarrow> u32 \<times> 's) \<Rightarrow> u64 \<Rightarrow> 's \<Rightarrow> u64 \<times> 's" where
  "spike_timer_uptime rd boot_time s = (let (t, s) = spike_read_time rd s in (t - boot_time, s))"

text \<open>The clock that every access advances by one: a tick between the two reads shifts the time by \<open>2 ^ 32\<close> ticks.\<close>

definition ticking :: "u64 \<Rightarrow> u64 \<Rightarrow> u32 \<times> u64" where
  "ticking a t = (if a = 0x200bff8 then ucast t else ucast (drop_bit 32 t), t + 1)"

lemma torn_read: "spike_read_time ticking 0xffffffff = (0x1ffffffff div 10, 0x100000001)"
  by (simp add: spike_read_time_def ticking_def)

end
