(* ===== verification/Spec2Isabelle.thy ===== *)
theory Spec2Isabelle
  imports Machine_Properties Run_Properties Klib_Properties Monitor_Properties AM_Properties
    X86_Properties X86_Machine_Properties X86_Device_Properties Gdb_Properties
    Native_Properties KVM_Properties Spike_HTIF
begin

text \<open>
  \<^bold>\<open>NEMU and the abstract machine.\<close>

  The repository holds an instruction-set simulator in C, NEMU (\<^verbatim>\<open>src/nemu\<close>), with guests for RV32,
  RV64, MIPS32 and LoongArch32r, devices, a debugger and differential testing, and the abstract
  machine (\<^verbatim>\<open>src/abstract-machine\<close>), the library that gives programs a uniform interface to the
  machines they run on: the simulator, a RISC-V chip, an x86 computer, and a process of the host.

  \<^bold>\<open>How the parts interact.\<close> \<^verbatim>\<open>main\<close> starts the monitor, which loads an image into memory and hands over
  to the debugger; its commands call \<^verbatim>\<open>cpu_exec\<close>, which executes instructions of the guest one by one.
  An instruction is fetched from memory, decoded by pattern strings, and may access memory or, outside
  of it, a device through an I/O map. After every instruction the trace is written, the reference of
  differential testing compared, the watchpoints evaluated by the expression evaluator, and from time
  to time the devices polled. The abstract machine is compiled for a guest: its devices are those of
  NEMU, its exceptions the guest's \<^verbatim>\<open>ecall\<close>, its printing ends in the serial port.

  \<^bold>\<open>Conventions.\<close> A C function is a HOL function of the same name (a prefix tells apart functions that
  several ports define) from the state it may change to a \<open>res\<close>: \<open>Inr\<close> of the result and the new
  state, or \<open>Inl\<close> of the way in which it does not return (\<open>AssertFail\<close>, \<open>Panic\<close>, \<open>Exit\<close>, or \<open>Undef\<close> for
  what C leaves undefined). Integers have the width of the code and wrap where it does. The build-time
  configuration is the record \<open>config\<close>. Printed text that nothing depends on is left out, output that
  is a function's result is part of the state.

  \<^bold>\<open>The simulated machine.\<close>
  \<^item> \<open>Prelude\<close>, \<open>Machine_State\<close>: results, byte arrays, little-endian words, the macros \<^verbatim>\<open>BITS\<close> and \<^verbatim>\<open>SEXT\<close>
    (\<^verbatim>\<open>include/macro.h\<close>); configuration, run state and clock (\<^verbatim>\<open>utils\<close>).
  \<^item> \<open>Memory\<close>, \<open>Bus\<close>: \<^verbatim>\<open>memory/paddr.c\<close>, \<^verbatim>\<open>memory/vaddr.c\<close> and host pointers. The locale \<open>byte_store\<close> states
    what a load after a store returns; the arrays of the source interpret it.
  \<^item> \<open>IO_Map\<close>, \<open>Devices\<close>, \<open>Keyboard\<close>, \<open>Sdcard\<close>: \<^verbatim>\<open>device/io\<close>, the device handlers and their
    initialisation. The key ring interprets the locale \<open>bounded_fifo\<close>.
  \<^item> \<open>Decode\<close>, \<open>RV32\<close>, \<open>RV32_Spec\<close>, \<open>RV64\<close>, \<open>Small_ISAs\<close>: \<^verbatim>\<open>include/cpu/decode.h\<close> and \<^verbatim>\<open>isa/*\<close>. The locale
    \<open>isa_step\<close> states what the execution loop needs of a guest; all four guests interpret it. The
    reference definitions of \<open>RV32_Spec\<close> are those of the RISC-V manual.
  \<^item> \<open>Expr\<close>, \<open>Expr_Correct\<close>, \<open>Watchpoint\<close>, \<open>Difftest\<close>, \<open>Cpu_Exec\<close>, \<open>Sdb\<close>, \<open>Sdb_Correct\<close>, \<open>Monitor\<close>,
    \<open>Monitor_Correct\<close>: \<^verbatim>\<open>monitor\<close>, \<^verbatim>\<open>cpu\<close> and \<^verbatim>\<open>nemu-main.c\<close>. The evaluator is related to an abstract
    syntax with its denotation; the pool of watchpoints interprets the locale \<open>allocator\<close>; what a run
    keeps follows from what each part of the loop keeps (locale \<open>run_invariant\<close>).
  \<^item> \<open>Gen_Expr\<close>, \<open>Gen_Expr_Correct\<close>: \<^verbatim>\<open>tools/gen-expr\<close>, the generator of test expressions.
  \<^item> \<open>Gdb_Protocol\<close>, \<open>Gdb_Host\<close> and their \<open>_Correct\<close> theories: \<^verbatim>\<open>tools/qemu-diff\<close>, QEMU as a reference by
    the remote protocol of GDB. The reference definitions are an encoder of packets and a server that
    parses the commands.
  \<^item> \<open>KVM\<close>, \<open>KVM_Correct\<close>: \<^verbatim>\<open>tools/kvm-diff\<close>, the host's processor as a reference by the kernel's KVM, one
    operation of the kernel for each \<^verbatim>\<open>ioctl\<close>. The reference is defined without the patches, on a processor that pushes and
    pops; of the kernel it is assumed that it looks at registers of the shared page only if they are marked as changed,
    and steps only if it has been told to and gets the trap flag.

  \<^bold>\<open>The abstract machine.\<close>
  \<^item> \<open>Int64\<close>, \<open>Int64_Correct\<close>, \<open>Kstring\<close>, \<open>Kstdio\<close>: \<^verbatim>\<open>klib/src\<close>.
  \<^item> \<open>AM_Context\<close>, \<open>AM_IOE\<close> and their \<open>_Correct\<close> theories: exceptions, contexts and address spaces of
    \<^verbatim>\<open>am/src/riscv/nemu\<close>, with its assembly entry, and the devices and runtime of \<^verbatim>\<open>am/src/platform/nemu\<close>
    on a bus. NEMU's devices interpret the locale \<open>frame_buffer\<close> of that bus, so that what programs
    draw and read is followed down to the simulator.
  \<^item> \<open>AM_Ports\<close>, \<open>AM_Ports_Correct\<close>: the ports to MIPS32 and LoongArch32r and the chip's runtime.
  \<^item> \<open>X86_VM\<close>, \<open>X86_VM_Correct\<close>, \<open>X86_Spaces\<close>: \<^verbatim>\<open>am/src/x86/qemu/vme.c\<close>. The processor's walk of the tables
    gives an address space its meaning, a partial function from pages to frames with permissions.
  \<^item> \<open>X86_CTE\<close>, \<open>X86_CTE_Correct\<close>: \<^verbatim>\<open>cte.c\<close>, \<^verbatim>\<open>trap32.S\<close> and the descriptors of \<^verbatim>\<open>x86.h\<close>, on a processor that pushes
    and pops as its manual says. \<open>X86_Disk\<close>, \<open>X86_Disk_Correct\<close>, \<open>X86_Boot_Correct\<close>: the disk driver of
    \<^verbatim>\<open>ioe.c\<close> and the boot loader \<^verbatim>\<open>boot/main.c\<close>, on ports that behave like a reference model of an ATA disk.
  \<^item> \<open>X86_IOE\<close>, \<open>X86_TRM\<close> and their \<open>_Correct\<close> theories: the serial port, clock, keyboard and interrupt
    controllers of \<^verbatim>\<open>ioe.c\<close> on ports and registers, \<^verbatim>\<open>trm.c\<close> and \<^verbatim>\<open>mpe.c\<close>. \<open>X86_GPU\<close>, \<open>X86_GPU_Correct\<close>,
    \<open>X86_Draw\<close>, \<open>X86_Render\<close>: its screen on the bytes of memory; the reference draws a tree of canvases on
    a function from coordinates to pixels, for sizes at which the code's products stay in \<^verbatim>\<open>int\<close>.
  \<^item> \<open>Native_VM\<close>, \<open>Native_VM_Correct\<close>, \<open>Native_Spaces\<close>: \<^verbatim>\<open>am/src/native/vme.c\<close> with the mapping functions of
    \<^verbatim>\<open>platform.c\<close>. The list of pages of an address space stands for a partial function; a session of
    operations refines one on these functions. \<open>Native_CTE\<close>, \<open>Native_CTE_Correct\<close>: \<^verbatim>\<open>cte.c\<close>, where signals are
    the exceptions, and \<^verbatim>\<open>trap.S\<close>. \<open>Native_IOE\<close>, \<open>Native_IOE_Correct\<close>: \<^verbatim>\<open>ioe.c\<close>, \<^verbatim>\<open>trm.c\<close> and the keyboard,
    sound, disk and clock of \<^verbatim>\<open>ioe\<close>; its key ring is related to the simulator's.
  \<^item> \<open>Spike_HTIF\<close>: \<^verbatim>\<open>am/src/riscv/spike\<close>, the requests to the host of the Spike simulator and its clock.
  \<^item> \<open>Blocks\<close>: blocks of bytes written into memory, shared by the remote protocol and the disk.

  The theories \<open>*_Properties\<close> state the properties, each with an instance on a concrete input (for the
  simulator on the machines of \<open>Samples\<close>).

  \<^bold>\<open>What the lemmas show.\<close> For the simulator: reads after writes, dispatch to devices, the key queue;
  the decoder against the pattern strings and the instructions against the manual; invariants of
  registers over whole runs; the outcome of \<^verbatim>\<open>cpu_exec\<close>; the evaluator against its denotation; the pool
  of watchpoints; loading of images and symbols; sessions of the debugger. For the library: division,
  printing, strings, allocation. For the abstract machine: a thread resumes as it was, keys and
  drawings pass through, page tables are updated at one page, address spaces share the kernel and are
  isolated; on x86 interrupted threads resume and new ones start, what is written to the disk is read
  back, the kernel is loaded, trees of canvases and clipped rectangles are drawn, the date is one the
  clock showed, and interrupts are masked before single ones are enabled; on the host the pages of the
  current address space are mapped and no others, and threads resume through signals in their own space.
  For the remote protocol: what is received is what was encoded, sending and receiving end or do not
  end exactly when they should, blocks and registers are copied. For KVM: it executes the instructions asked
  for, despite interruptions. For Spike: a system call returns once the host has answered.

  \<^bold>\<open>Bounds and fuel.\<close> Loops over lists and formats recurse on the list or a counter. The loops of the
  watchpoint lists have fuel for one more node than the pool has, which a list that is not cyclic
  never uses up; the loop over a format has fuel for the bytes of memory left, as each round advances
  by at least one; the generator's recursion takes its fuel as an argument and reports \<open>Undef\<close> (a stack
  overflow) without it, and its theorems hold for every result it returns. Loops that may not end,
  waiting for a device or a peer, are partial functions to \<open>option\<close>, with theorems that say when they
  return. Rendering has fuel for the canvases of the tree, and the theorem that it ends states how much
  is enough. The x86 tables are built for at most 268 kernel tables, which the two kernel areas need.

  \<^bold>\<open>What is a parameter.\<close> The host's clock, files, random numbers and events, the compiler run by the
  generator, the reference of differential testing, the peer of the remote protocol, the kernel
  behind KVM, Spike's side of its host interface, the mappings, pipes and signals of the native port's
  host, the page allocator of the program and its event handler. The regular expressions of the lexer are written as
  functions giving the length of the longest match.

  \<^bold>\<open>Not modelled.\<close> The start-up of the native platform, its SDL window and its forked processors; the
  64-bit configuration of the x86 port, its table of device registers and its start-up code; the
  opening of QEMU and of \<^verbatim>\<open>/dev/kvm\<close>; the adapter of Spike and the disassembler, C++ on other programs;
  the assembly start-up code and the
  exception entries of MIPS32 and LoongArch32r; the configuration tools
  \<^verbatim>\<open>kconfig\<close> and \<^verbatim>\<open>fixdep\<close> and the compiler runtime
  \<^verbatim>\<open>libgcc\<close>, all third-party code; the Linux driver of the SD card; the
  processor in Verilog. \<^verbatim>\<open>utils/trace.c\<close> is one comment.
\<close>

end
